(* ===== verification/Prelude.thy ===== *)
theory Prelude
  imports Main "HOL-Library.Word"
begin

text \<open>
  Shared vocabulary: the machine-integer types of the emulator's C++ code, the standard
  library functions of \<^verbatim>\<open><bit>\<close> it calls, the collections of facts the
  component theories use, and the word lemmas they have in common.
\<close>

unbundle bit_operations_syntax

type_synonym u8 = "8 word"
type_synonym u16 = "16 word"
type_synonym u32 = "32 word"
type_synonym u64 = "64 word"

named_theorems field_bounds "bounds of bit fields cut out of an instruction word"
named_theorems alu_defs "the definitions of the integer data path"
named_theorems flag_simps "what the status register's flag bits are after an operation"

section \<open>The standard bit library\<close>

text \<open>\<^verbatim>\<open>std::popcount\<close>, \<^verbatim>\<open>std::countr_zero\<close>,
  \<^verbatim>\<open>std::countl_zero\<close> and \<^verbatim>\<open>std::bit_width\<close>; the rotations
  \<^verbatim>\<open>std::rotr\<close> and \<^verbatim>\<open>std::rotl\<close> are the library's
  \<open>word_rotr\<close> and \<open>word_rotl\<close>.\<close>

definition popcount :: "'a::len word \<Rightarrow> nat" where
  "popcount w = length (filter (bit w) [0..<LENGTH('a)])"

definition countr_zero :: "'a::len word \<Rightarrow> nat" where
  "countr_zero w = length (takeWhile (\<lambda>i. \<not> bit w i) [0..<LENGTH('a)])"

definition countl_zero :: "'a::len word \<Rightarrow> nat" where
  "countl_zero w = length (takeWhile (\<lambda>i. \<not> bit w i) (rev [0..<LENGTH('a)]))"

definition bit_width :: "'a::len word \<Rightarrow> nat" where
  "bit_width w = LENGTH('a) - countl_zero w"

section \<open>Single flags\<close>

text \<open>The C++ test \<^verbatim>\<open>(w & (1U << n)) != 0\<close>.\<close>

definition flag_set :: "u32 \<Rightarrow> nat \<Rightarrow> bool" where
  "flag_set w n \<longleftrightarrow> w AND push_bit n 1 \<noteq> 0"

text \<open>The C++ update \<^verbatim>\<open>(w & ~(1U << n)) | (std::uint32_t{b} << n)\<close>.\<close>

definition put_flag :: "u32 \<Rightarrow> nat \<Rightarrow> bool \<Rightarrow> u32" where
  "put_flag w n b = (w AND NOT (push_bit n 1)) OR push_bit n (of_bool b)"

end
