(* ===== verification/Arm_Instruction.thy ===== *)
theory Arm_Instruction
  imports Prelude
begin

text \<open>
  The decoded form of an ARM instruction and the capability profiles that select what a
  decoder accepts (\<^verbatim>\<open>arm/include/arm/instruction.hpp\<close>,
  \<^verbatim>\<open>execution/include/execution/instruction_profile.hpp\<close>). A C++
  \<^verbatim>\<open>unsigned\<close> is a \<open>u32\<close>. Field names that would hide a constant of the
  library carry the prefix \<open>inst_\<close>; the operand records of the vector families carry a
  prefix per family, because they share field names.
\<close>

unbundle bit_operations_syntax

section \<open>Capability profiles\<close>

datatype arm_instruction_profile = Armv6 | Armv6T2 | Armv6K
datatype integer_divide_profile = NoDivide | ThumbOnly | ArmAndThumb
datatype alu_pc_write_profile = BranchWrite | Interworking
datatype vfp_register_profile = D16 | D32
datatype vfp_instruction_profile = Vfpv2 | Vfpv3
datatype floating_exception_profile = Untrapped | TrapEnables
datatype thumb_arithmetic_profile = ArithmeticArchitectural | GeneralPurposeStackPointer
datatype thumb_memory_profile = MemoryArchitectural | StackPointerIndex
datatype advanced_simd_profile = NoSimd | Neon

definition has_armv6t2_extensions :: "arm_instruction_profile \<Rightarrow> bool" where
  "has_armv6t2_extensions profile \<longleftrightarrow> profile = Armv6T2"

section \<open>Instruction kinds and operations\<close>

datatype instruction_kind =
    Unsupported | DataProcessing | Multiply | TransferKind | ExclusiveTransferKind | Swap
  | ClearExclusive | MultipleTransferKind | Branch | BranchExchange | TableBranch | Svc
  | Breakpoint | IfThen | Nop | CompareBranch | WideImmediate | PackHalfword
  | IntegerTransform | VectorDuplicate | VectorBitwise | VectorExtract | VectorCoreMove
  | FloatingConversion | FloatingArithmetic | FloatingComparison | FloatingImmediate
  | FloatingSystem | VectorTransferKind | SystemControl | DualTransfer | VectorImmediate
  | ParallelSaturating | IntegerDivide | VectorFloatingArithmetic | ParallelArithmetic
  | SaturatingArithmetic | VectorIntegerArithmetic | VectorReverse | VectorShiftImmediate
  | VectorFloatingConversion

datatype system_operation =
    ThreadPointerReadWrite | ThreadPointerReadOnly | DataMemoryBarrier
  | DataSynchronizationBarrier | InstructionSynchronizationBarrier | ProgramStatusRegister

datatype shift_kind = Lsl | Lsr | Asr | Ror

text \<open>\<^verbatim>\<open>static_cast<ShiftKind>(x)\<close> of a two-bit field.\<close>

definition shift_kind_of :: "u32 \<Rightarrow> shift_kind" where
  "shift_kind_of x = (if x = 0 then Lsl else if x = 1 then Lsr else if x = 2 then Asr else Ror)"

definition opcode_orn :: u32 where
  "opcode_orn = 16"

section \<open>Operands of the vector and floating-point families\<close>

record vector_duplicate_operands =
  dup_destination :: u32
  dup_source :: u32
  dup_element_bits :: u32
  dup_lane :: u32
  dup_quad :: bool
  dup_core_source :: bool

datatype vector_bitwise_operation =
  VAnd | VBitClear | VOr | VOrNot | VXor | VSelect | VInsertIfTrue | VInsertIfFalse | VNot

record vector_bitwise_operands =
  bw_destination :: u32
  bw_first :: u32
  bw_second :: u32
  bw_operation :: vector_bitwise_operation
  bw_quad :: bool

datatype vector_integer_operation =
  VAdd | VSubtract | VMultiply | VMultiplyAdd | VMultiplySubtract

record vector_integer_operands =
  vi_destination :: u32
  vi_first :: u32
  vi_second :: u32
  vi_element_bits :: u32
  vi_operation :: vector_integer_operation
  vi_quad :: bool

record vector_extract_operands =
  ext_destination :: u32
  ext_first :: u32
  ext_second :: u32
  ext_byte_offset :: u32
  ext_quad :: bool

record vector_reverse_operands =
  rev_destination :: u32
  rev_source :: u32
  rev_element_bits :: u32
  rev_block_bits :: u32
  rev_quad :: bool

record vector_shift_immediate_operands =
  shi_destination :: u32
  shi_source :: u32
  shi_element_bits :: u32
  shi_amount :: u32
  shi_quad :: bool
  shi_right :: bool
  shi_unsigned_value :: bool
  shi_rounding :: bool
  shi_accumulate :: bool
  shi_insert :: bool

record vector_floating_conversion_operands =
  vfc_destination :: u32
  vfc_source :: u32
  vfc_quad :: bool
  vfc_to_integer :: bool
  vfc_unsigned_value :: bool

record vector_immediate_operands =
  imm_destination :: u32
  imm_imm8 :: u8
  imm_cmode :: u8
  imm_op :: bool
  imm_quad :: bool

datatype vector_transfer_mode = ModeMultiple | ModeLane | ModeReplicate | ModeScalarMultiple

record vector_transfer_operands =
  vt_first :: u32
  vt_count :: u32
  vt_element_size :: u32
  vt_alignment :: u32
  vt_mode :: vector_transfer_mode
  vt_lane :: u32

record vector_core_move_operands =
  cm_first_word :: u32
  cm_bit_offset :: u32
  cm_element_bits :: u32
  cm_core :: u32
  cm_core2 :: u32
  cm_pair :: bool
  cm_to_core :: bool
  cm_sign_extend :: bool

datatype floating_conversion_operation = IntegerToFloat | FloatToInteger | Precision

record floating_conversion_operands =
  fc_destination :: u32
  fc_source :: u32
  fc_operation :: floating_conversion_operation
  fc_source_double :: bool
  fc_destination_double :: bool
  fc_signed_integer :: bool
  fc_round_zero :: bool

datatype floating_arithmetic_operation =
    FAdd | FSubtract | FMultiply | FDivide | FSquareRoot | FMove | FAbsolute | FNegate
  | FNegatedMultiply | FMultiplyAdd | FMultiplySubtract
  | FNegatedMultiplyAdd | FNegatedMultiplySubtract

record floating_arithmetic_operands =
  fa_destination :: u32
  fa_first :: u32
  fa_second :: u32
  fa_operation :: floating_arithmetic_operation
  fa_wide :: bool

record vector_floating_arithmetic_operands =
  vfa_destination :: u32
  vfa_first :: u32
  vfa_second :: u32
  vfa_operation :: floating_arithmetic_operation
  vfa_quad :: bool
  vfa_pairwise :: bool
  vfa_scalar_lane :: "u8 option"

record floating_comparison_operands =
  fcmp_first :: u32
  fcmp_second :: u32
  fcmp_wide :: bool
  fcmp_with_zero :: bool
  fcmp_signal_all_nans :: bool

record floating_immediate_operands =
  fi_destination :: u32
  fi_imm8 :: u8
  fi_wide :: bool

record floating_system_operands =
  fs_core :: u32
  fs_to_core :: bool

text \<open>The \<^verbatim>\<open>std::variant\<close> of the operand structures.\<close>

datatype vector_operands =
    OpDuplicate vector_duplicate_operands
  | OpBitwise vector_bitwise_operands
  | OpExtract vector_extract_operands
  | OpTransfer vector_transfer_operands
  | OpCoreMove vector_core_move_operands
  | OpFloatingConversion floating_conversion_operands
  | OpFloatingArithmetic floating_arithmetic_operands
  | OpFloatingComparison floating_comparison_operands
  | OpFloatingImmediate floating_immediate_operands
  | OpFloatingSystem floating_system_operands
  | OpImmediate vector_immediate_operands
  | OpVectorFloatingArithmetic vector_floating_arithmetic_operands
  | OpInteger vector_integer_operands
  | OpReverse vector_reverse_operands
  | OpShiftImmediate vector_shift_immediate_operands
  | OpVectorFloatingConversion vector_floating_conversion_operands

section \<open>The default-constructed operand structures\<close>

definition no_duplicate :: vector_duplicate_operands where
  "no_duplicate = \<lparr>dup_destination = 0, dup_source = 0, dup_element_bits = 0, dup_lane = 0,
     dup_quad = False, dup_core_source = False\<rparr>"

definition no_bitwise :: vector_bitwise_operands where
  "no_bitwise = \<lparr>bw_destination = 0, bw_first = 0, bw_second = 0, bw_operation = VAnd,
     bw_quad = False\<rparr>"

definition no_integer :: vector_integer_operands where
  "no_integer = \<lparr>vi_destination = 0, vi_first = 0, vi_second = 0, vi_element_bits = 8,
     vi_operation = VAdd, vi_quad = False\<rparr>"

definition no_extract :: vector_extract_operands where
  "no_extract = \<lparr>ext_destination = 0, ext_first = 0, ext_second = 0, ext_byte_offset = 0,
     ext_quad = False\<rparr>"

definition no_reverse :: vector_reverse_operands where
  "no_reverse = \<lparr>rev_destination = 0, rev_source = 0, rev_element_bits = 8,
     rev_block_bits = 64, rev_quad = False\<rparr>"

definition no_shift_immediate :: vector_shift_immediate_operands where
  "no_shift_immediate = \<lparr>shi_destination = 0, shi_source = 0, shi_element_bits = 8,
     shi_amount = 0, shi_quad = False, shi_right = True, shi_unsigned_value = False,
     shi_rounding = False, shi_accumulate = False, shi_insert = False\<rparr>"

definition no_vector_conversion :: vector_floating_conversion_operands where
  "no_vector_conversion = \<lparr>vfc_destination = 0, vfc_source = 0, vfc_quad = False,
     vfc_to_integer = False, vfc_unsigned_value = False\<rparr>"

definition no_vector_immediate :: vector_immediate_operands where
  "no_vector_immediate = \<lparr>imm_destination = 0, imm_imm8 = 0, imm_cmode = 0, imm_op = False,
     imm_quad = False\<rparr>"

definition no_vector_transfer :: vector_transfer_operands where
  "no_vector_transfer = \<lparr>vt_first = 0, vt_count = 0, vt_element_size = 0, vt_alignment = 1,
     vt_mode = ModeMultiple, vt_lane = 0\<rparr>"

definition no_core_move :: vector_core_move_operands where
  "no_core_move = \<lparr>cm_first_word = 0, cm_bit_offset = 0, cm_element_bits = 32, cm_core = 0,
     cm_core2 = 0, cm_pair = False, cm_to_core = False, cm_sign_extend = False\<rparr>"

definition no_conversion :: floating_conversion_operands where
  "no_conversion = \<lparr>fc_destination = 0, fc_source = 0, fc_operation = Precision,
     fc_source_double = False, fc_destination_double = False, fc_signed_integer = False,
     fc_round_zero = False\<rparr>"

definition no_floating :: floating_arithmetic_operands where
  "no_floating = \<lparr>fa_destination = 0, fa_first = 0, fa_second = 0, fa_operation = FAdd,
     fa_wide = False\<rparr>"

definition no_vector_floating :: vector_floating_arithmetic_operands where
  "no_vector_floating = \<lparr>vfa_destination = 0, vfa_first = 0, vfa_second = 0,
     vfa_operation = FAdd, vfa_quad = False, vfa_pairwise = False, vfa_scalar_lane = None\<rparr>"

definition no_comparison :: floating_comparison_operands where
  "no_comparison = \<lparr>fcmp_first = 0, fcmp_second = 0, fcmp_wide = False,
     fcmp_with_zero = False, fcmp_signal_all_nans = False\<rparr>"

definition no_floating_immediate :: floating_immediate_operands where
  "no_floating_immediate = \<lparr>fi_destination = 0, fi_imm8 = 0, fi_wide = False\<rparr>"

definition no_floating_system :: floating_system_operands where
  "no_floating_system = \<lparr>fs_core = 0, fs_to_core = False\<rparr>"

section \<open>The decoded instruction\<close>

record instruction =
  kind :: instruction_kind
  condition :: u32
  inst_size :: u32
  pc_offset :: u32
  align_pc :: bool
  exchange :: bool
  opcode :: u32
  rd :: u32
  rn :: u32
  rm :: u32
  rs :: u32
  inst_shift :: shift_kind
  shift_amount :: u32
  immediate :: u32
  immediate_operand :: bool
  register_shift :: bool
  set_flags :: bool
  link :: bool
  accumulate :: bool
  registers :: u32
  access_size :: u32
  load :: bool
  inst_sign_extend :: bool
  inst_add :: bool
  inst_index :: bool
  writeback :: bool
  vector :: vector_operands
  system :: system_operation

definition new_instruction :: instruction where
  "new_instruction = \<lparr>kind = Unsupported, condition = 14, inst_size = 4, pc_offset = 8,
     align_pc = False, exchange = False, opcode = 0, rd = 0, rn = 0, rm = 0, rs = 0,
     inst_shift = Lsl, shift_amount = 0, immediate = 0, immediate_operand = False,
     register_shift = False, set_flags = False, link = False, accumulate = False,
     registers = 0, access_size = 0, load = False, inst_sign_extend = False,
     inst_add = True, inst_index = True, writeback = False, vector = OpDuplicate no_duplicate,
     system = ThreadPointerReadWrite\<rparr>"

end
