(* ===== verification/Word_Facts.thy ===== *)
theory Word_Facts
  imports Prelude
begin

text \<open>
  The facts about machine words that the component theories share: rotations as shifts,
  bounds of bit fields, single-bit tests, and words read as unsigned and signed numbers.
\<close>

unbundle bit_operations_syntax

lemma popcount_le: "popcount (w :: 'a::len word) \<le> LENGTH('a)"
  unfolding popcount_def by (rule order.trans [OF length_filter_le]) simp

text \<open>A rotation as two shifts, which is how a closed term of it is evaluated.\<close>

lemma word_rotr_shifts:
  fixes w :: "'a::len word"
  assumes "k < LENGTH('a)"
  shows "word_rotr k w = drop_bit k w OR push_bit (LENGTH('a) - k) w"
proof (rule bit_word_eqI)
  fix n assume "n < LENGTH('a)"
  then show "bit (word_rotr k w) n = bit (drop_bit k w OR push_bit (LENGTH('a) - k) w) n"
    using assms by (auto simp: bit_simps mod_if not_le ac_simps dest: bit_imp_le_length)
qed

lemma word_rotl_shifts:
  fixes w :: "'a::len word"
  assumes "k < LENGTH('a)"
  shows "word_rotl k w = push_bit k w OR drop_bit (LENGTH('a) - k) w"
proof (rule bit_word_eqI)
  fix n assume n: "n < LENGTH('a)"
  then show "bit (word_rotl k w) n = bit (push_bit k w OR drop_bit (LENGTH('a) - k) w) n"
    using assms by (cases "k \<le> n")
      (auto simp: bit_simps mod_if not_le nat_diff_distrib algebra_simps dest: bit_imp_le_length)
qed

section \<open>Bit fields\<close>

lemma and_field_less: "m < n \<Longrightarrow> x AND m < (n :: 'a::len word)"
  by (rule le_less_trans [OF word_and_le1])

lemma and_field_le: "m \<le> n \<Longrightarrow> x AND m \<le> (n :: 'a::len word)"
  by (rule order.trans [OF word_and_le1])

lemma unsigned_power_two:
  assumes "k < LENGTH('a)"
  shows "unat (2 ^ k :: 'a::len word) = 2 ^ k"
proof -
  have "unat (word_of_nat (2 ^ k) :: 'a word) = 2 ^ k mod 2 ^ LENGTH('a)"
    by (rule unat_of_nat)
  moreover have "(2 :: nat) ^ k < 2 ^ LENGTH('a)" using assms by simp
  ultimately show ?thesis by simp
qed

lemma less_exp_iff_take_bit:
  fixes x :: "'a::len word"
  assumes "k < LENGTH('a)"
  shows "x < 2 ^ k \<longleftrightarrow> take_bit k x = x"
proof -
  have "x < 2 ^ k \<longleftrightarrow> unat x < 2 ^ k"
    using assms by (simp add: word_less_nat_alt unsigned_power_two)
  also have "\<dots> \<longleftrightarrow> take_bit k (unat x) = unat x"
    by (simp add: take_bit_nat_eq_self_iff)
  also have "\<dots> \<longleftrightarrow> take_bit k x = x"
    by (simp add: word_eq_iff_unsigned [where ?'a = nat] unsigned_take_bit_eq)
  finally show ?thesis .
qed

lemma or_less_exp:
  fixes x y :: "'a::len word"
  assumes "x < 2 ^ k" "y < 2 ^ k" "k < LENGTH('a)"
  shows "x OR y < 2 ^ k"
  using assms by (simp add: less_exp_iff_take_bit)

lemma or_fields_less [field_bounds]:
  fixes x y :: u32
  shows "x < 8 \<Longrightarrow> y < 8 \<Longrightarrow> x OR y < 8" and "x < 16 \<Longrightarrow> y < 16 \<Longrightarrow> x OR y < 16"
    and "x < 32 \<Longrightarrow> y < 32 \<Longrightarrow> x OR y < 32" and "x < 64 \<Longrightarrow> y < 64 \<Longrightarrow> x OR y < 64"
  using or_less_exp [of x 3 y] or_less_exp [of x 4 y] or_less_exp [of x 5 y]
    or_less_exp [of x 6 y] by simp_all

lemma field_less [field_bounds]:
  fixes x :: u32
  shows "x AND 15 < 16" "x AND 7 < 16" "x AND 7 < 8" "x AND 1 < 2" "x AND 3 < 4"
    "x AND 15 < 32" "x AND 16 < 32" "x AND 28 < 32" "x AND 3 < 32" "x AND 31 < 32"
    "x AND 8 < 16"
  by (simp_all add: and_field_less)

section \<open>Single flags\<close>

lemma flag_set_iff [simp]: "flag_set w n \<longleftrightarrow> bit w n"
  by (simp add: flag_set_def push_bit_eq_mult and_exp_eq_0_iff_not_bit)

lemma bit_put_flag [flag_simps]:
  assumes "k < 32"
  shows "bit (put_flag w k b) n \<longleftrightarrow> (if n = k then b else bit w n)"
  unfolding put_flag_def using assms
  by (auto simp: bit_simps push_bit_eq_mult simp flip: push_bit_eq_mult dest: bit_imp_le_length)

section \<open>Words as numbers\<close>

lemma top_bit_iff: "bit (x :: 'a::len word) (LENGTH('a) - 1) \<longleftrightarrow> 2 ^ (LENGTH('a) - 1) \<le> unat x"
proof -
  define k where "k = LENGTH('a) - 1"
  have len: "LENGTH('a) = Suc k" by (simp add: k_def)
  have bound: "unat x < 2 ^ k * 2"
    using unsigned_less [of x, where ?'a = nat] by (simp add: len mult.commute)
  have small: "unat x div 2 ^ k < 2" using bound by (simp add: less_mult_imp_div_less mult.commute)
  have "bit x k \<longleftrightarrow> odd (unat x div 2 ^ k)"
    by (simp add: bit_unsigned_iff [where ?'a = nat, of x k, simplified, symmetric] len
        bit_iff_odd [of "unat x"] flip: bit_unsigned_iff)
  also have "\<dots> \<longleftrightarrow> unat x div 2 ^ k = 1" using small by (auto simp: less_2_cases_iff)
  also have "\<dots> \<longleftrightarrow> 2 ^ k \<le> unat x"
    using small by (metis One_nat_def div_less div_greater_zero_iff less_2_cases_iff
        less_one linorder_not_less zero_less_numeral zero_less_power)
  finally show ?thesis by (simp add: k_def)
qed

lemma sint_eq_unat:
  "sint (x :: 'a::len word) = int (unat x) - (if bit x (LENGTH('a) - 1) then 2 ^ LENGTH('a) else 0)"
proof -
  have "sint x = signed_take_bit (LENGTH('a) - Suc 0) (uint x)" by (simp add: sint_uint)
  also have "\<dots> = take_bit LENGTH('a) (uint x) - 2 ^ LENGTH('a) * of_bool (bit (uint x) (LENGTH('a) - 1))"
    by (simp add: signed_take_bit_eq_take_bit_minus)
  also have "\<dots> = uint x - 2 ^ LENGTH('a) * of_bool (bit x (LENGTH('a) - 1))"
    by (simp add: bit_uint_iff take_bit_int_eq_self)
  finally show ?thesis by simp
qed

lemma bit_31_iff: "bit (x :: u32) 31 \<longleftrightarrow> 2 ^ 31 \<le> unat x"
  using top_bit_iff [of x] by simp

lemma sint_u32: "sint (x :: u32) = int (unat x) - (if bit x 31 then 2 ^ 32 else 0)"
  using sint_eq_unat [of x] by simp

lemma unat_u32_less: "unat (x :: u32) < 2 ^ 32"
  using unsigned_less [of x, where ?'a = nat] by simp

lemma unat_u64_less: "unat (x :: u64) < 2 ^ 64"
  using unsigned_less [of x, where ?'a = nat] by simp

lemma and_top_eq_0_iff: "x AND 0x80000000 = 0 \<longleftrightarrow> \<not> bit (x :: u32) 31"
  using and_exp_eq_0_iff_not_bit [of x 31] by simp

lemma and_and_top_eq_0_iff:
  "x AND y AND 0x80000000 = 0 \<longleftrightarrow> \<not> (bit (x :: u32) 31 \<and> bit y 31)"
  using and_top_eq_0_iff [of "x AND y"] by (simp add: and.assoc bit_and_iff)

lemma word_neq_0_iff: "w \<noteq> 0 \<longleftrightarrow> unat (w :: 'a::len word) \<noteq> 0"
  by (simp add: unat_eq_zero)

text \<open>Two's complement addition on 32 bits, over the naturals.\<close>

lemma signed_sum_overflow:
  fixes A B :: nat and c :: bool
  assumes A: "A < 2 ^ 32" and B: "B < 2 ^ 32"
  defines "V \<equiv> (A + B + of_bool c) mod 2 ^ 32"
    and "s \<equiv> (int A - (if 2 ^ 31 \<le> A then 2 ^ 32 else 0)) +
              (int B - (if 2 ^ 31 \<le> B then 2 ^ 32 else 0)) + of_bool c"
  shows "(2 ^ 31 \<le> A) \<noteq> (2 ^ 31 \<le> V) \<and> (2 ^ 31 \<le> B) \<noteq> (2 ^ 31 \<le> V) \<longleftrightarrow>
    \<not> (- (2 ^ 31) \<le> s \<and> s < 2 ^ 31)"
proof -
  have V: "V = (if A + B + of_bool c < 2 ^ 32 then A + B + of_bool c else A + B + of_bool c - 2 ^ 32)"
    using A B by (cases c) (auto simp: V_def mod_if)
  show ?thesis
    using A B unfolding V s_def
    by (cases c; cases "2 ^ 31 \<le> A"; cases "2 ^ 31 \<le> B"; simp; arith)
qed

lemma unat_drop_bit_div: "unat (drop_bit n w) = unat w div 2 ^ n"
  unfolding unat_drop_bit_eq by (simp only: drop_bit_eq_div)

lemma signed_sum_negative:
  fixes A B :: nat and c :: bool
  assumes A: "A < 2 ^ 32" and B: "B < 2 ^ 32"
  defines "V \<equiv> (A + B + of_bool c) mod 2 ^ 32"
    and "s \<equiv> (int A - (if 2 ^ 31 \<le> A then 2 ^ 32 else 0)) +
              (int B - (if 2 ^ 31 \<le> B then 2 ^ 32 else 0)) + of_bool c"
  shows "((2 ^ 31 \<le> V) \<noteq> (\<not> (- (2 ^ 31) \<le> s \<and> s < 2 ^ 31))) \<longleftrightarrow> s < 0"
proof -
  have V: "V = (if A + B + of_bool c < 2 ^ 32 then A + B + of_bool c else A + B + of_bool c - 2 ^ 32)"
    using A B by (cases c) (auto simp: V_def mod_if)
  show ?thesis
    using A B unfolding V s_def
    by (cases c; cases "2 ^ 31 \<le> A"; cases "2 ^ 31 \<le> B"; simp; arith)
qed

lemma unat_not_u32: "unat (NOT x) = 2 ^ 32 - 1 - unat (x :: u32)"
proof -
  have "NOT x = - 1 - x" by (simp add: not_eq_complement)
  moreover have "unat (- 1 - x) = unat (- 1 :: u32) - unat x"
    by (rule unat_sub) (simp add: word_order.extremum)
  ultimately show ?thesis by (simp add: unsigned_minus_1_eq_mask mask_eq_exp_minus_1)
qed

lemma sint_not_u32: "sint (NOT x) = - sint (x :: u32) - 1"
  using unat_u32_less [of x] unfolding sint_u32 by (auto simp: bit_not_iff unat_not_u32)

lemma and_1_bit [simp]: "v AND 1 \<noteq> 0 \<longleftrightarrow> bit (v :: u32) 0"
  by (simp add: and_one_eq bit_0 odd_iff_mod_2_eq_one)

lemma bit_drop_bit_0 [simp]: "bit (drop_bit k v) 0 \<longleftrightarrow> bit (v :: 'a::len word) k"
  by (simp add: bit_drop_bit_eq)

lemma drop_bit_31 [simp]: "drop_bit 31 v \<noteq> 0 \<longleftrightarrow> bit (v :: u32) 31"
proof -
  have "drop_bit 31 v \<noteq> 0 \<longleftrightarrow> unat v div 2 ^ 31 \<noteq> 0"
    by (simp only: word_neq_0_iff unat_drop_bit_div)
  then show ?thesis by (simp add: bit_31_iff div_eq_0_iff not_less)
qed

lemma unat_push_bit_mod: "unat (push_bit n (v :: u32)) = unat v * 2 ^ n mod 2 ^ 32"
  unfolding unsigned_push_bit_eq by (simp add: take_bit_eq_mod push_bit_eq_mult)

lemma unat_and_mask: "unat (x AND mask k) = unat (x :: 'a::len word) mod 2 ^ k"
proof -
  have "unat (take_bit k x) = unat x mod 2 ^ k"
    unfolding unsigned_take_bit_eq by (simp add: take_bit_eq_mod)
  then show ?thesis by (simp only: take_bit_eq_mask)
qed

lemma unat_and_31: "unat (x AND 31) = unat (x :: u32) mod 32"
  using unat_and_mask [of x 5] by (simp add: mask_eq_exp_minus_1)

lemma xor_sign:
  fixes x :: int
  shows "(take_bit (Suc n) x XOR 2 ^ n) - 2 ^ n = signed_take_bit n x"
proof -
  have flip: "take_bit (Suc n) x XOR 2 ^ n = flip_bit n (take_bit (Suc n) x)"
    by (simp add: flip_bit_eq_xor push_bit_eq_mult)
  show ?thesis
    unfolding flip flip_bit_eq_if set_bit_eq unset_bit_eq signed_take_bit_eq_take_bit_minus
    by (simp add: bit_take_bit_iff)
qed

lemma uint_field: "uint (x AND mask k) = take_bit k (uint (x :: u32))"
  by (simp add: unsigned_and_eq flip: take_bit_eq_mask unsigned_take_bit_eq)

lemma bit_set_q: "bit (cpsr OR push_bit 27 1 :: u32) n \<longleftrightarrow> bit cpsr n \<or> n = 27"
proof -
  have "push_bit 27 (1 :: u32) = 2 ^ 27" by (simp add: push_bit_eq_mult)
  then show ?thesis by (auto simp only: bit_or_iff bit_exp_iff) simp_all
qed

lemma sint_u32_bounds: "- (2 ^ 31) \<le> sint (x :: u32)" "sint (x :: u32) < 2 ^ 31"
  using sint_greater_eq [of x] sint_less [of x] by simp_all

lemma sint_word_of_int_u32:
  "- (2 ^ 31) \<le> k \<Longrightarrow> k < 2 ^ 31 \<Longrightarrow> sint (word_of_int k :: u32) = k"
  by (simp add: signed_of_int signed_take_bit_int_eq_self)

lemma power_le_int: "m \<le> n \<Longrightarrow> (2 :: int) ^ m \<le> 2 ^ n"
  by (rule power_increasing) simp_all

end
