(* ===== verification/Arm_State.thy ===== *)
theory Arm_State
  imports Arm_Instruction Word_Facts
begin

text \<open>
  The architectural state of a guest thread and the interfaces an executor binds for a run:
  \<^verbatim>\<open>execution/include/execution/{arm_state,memory,run,context}.hpp\<close>. The virtual
  classes \<^verbatim>\<open>MemoryAccess\<close> and \<^verbatim>\<open>ExclusiveMonitor\<close> are a record of
  functions over a memory state \<open>'m\<close> and a monitor state \<open>'x\<close>.
\<close>

unbundle bit_operations_syntax

named_theorems cpu_simps "reading registers back after updates"

section \<open>Thread state\<close>

record cpu_abort_state =
  fault_status :: u32
  fault_address :: u32

record cpu_state =
  cpu_registers :: "u32 list"
  extension_registers :: "u32 list"
  cpsr :: u32
  fpscr :: u32
  cthread_self :: "u32 option"
  abort_state :: cpu_abort_state
  thread_pointer_user_rw :: u32

text \<open>The arrays have 16 and 64 elements. Indexing is by the 32-bit operand, as in the code.\<close>

definition state_ok :: "cpu_state \<Rightarrow> bool" where
  "state_ok s \<longleftrightarrow> length (cpu_registers s) = 16 \<and> length (extension_registers s) = 64"

definition reg :: "cpu_state \<Rightarrow> u32 \<Rightarrow> u32" where
  "reg s r = cpu_registers s ! unat r"

definition set_reg :: "u32 \<Rightarrow> u32 \<Rightarrow> cpu_state \<Rightarrow> cpu_state" where
  "set_reg r v s = s\<lparr>cpu_registers := (cpu_registers s)[unat r := v]\<rparr>"

definition ext_reg :: "cpu_state \<Rightarrow> u32 \<Rightarrow> u32" where
  "ext_reg s r = extension_registers s ! unat r"

definition set_ext_reg :: "u32 \<Rightarrow> u32 \<Rightarrow> cpu_state \<Rightarrow> cpu_state" where
  "set_ext_reg r v s = s\<lparr>extension_registers := (extension_registers s)[unat r := v]\<rparr>"

definition big_endian :: "cpu_state \<Rightarrow> bool" where
  "big_endian s \<longleftrightarrow> flag_set (cpsr s) 9"

lemma set_reg_fields [simp]:
  "extension_registers (set_reg r v s) = extension_registers s"
  "cpsr (set_reg r v s) = cpsr s" "fpscr (set_reg r v s) = fpscr s"
  "cthread_self (set_reg r v s) = cthread_self s"
  "abort_state (set_reg r v s) = abort_state s"
  "thread_pointer_user_rw (set_reg r v s) = thread_pointer_user_rw s"
  "length (cpu_registers (set_reg r v s)) = length (cpu_registers s)"
  "state_ok (set_reg r v s) = state_ok s" "big_endian (set_reg r v s) = big_endian s"
  "ext_reg (set_reg r v s) i = ext_reg s i"
  by (simp_all add: set_reg_def state_ok_def big_endian_def ext_reg_def)

lemma set_ext_reg_fields [simp]:
  "cpu_registers (set_ext_reg r v s) = cpu_registers s"
  "cpsr (set_ext_reg r v s) = cpsr s" "fpscr (set_ext_reg r v s) = fpscr s"
  "cthread_self (set_ext_reg r v s) = cthread_self s"
  "abort_state (set_ext_reg r v s) = abort_state s"
  "thread_pointer_user_rw (set_ext_reg r v s) = thread_pointer_user_rw s"
  "length (extension_registers (set_ext_reg r v s)) = length (extension_registers s)"
  "state_ok (set_ext_reg r v s) = state_ok s" "big_endian (set_ext_reg r v s) = big_endian s"
  "reg (set_ext_reg r v s) i = reg s i"
  by (simp_all add: set_ext_reg_def state_ok_def big_endian_def reg_def)

lemma state_ok_updates [simp]:
  "state_ok (s\<lparr>cpsr := c\<rparr>) = state_ok s" "state_ok (s\<lparr>fpscr := c\<rparr>) = state_ok s"
  "state_ok (s\<lparr>abort_state := a\<rparr>) = state_ok s"
  "state_ok (s\<lparr>thread_pointer_user_rw := c\<rparr>) = state_ok s"
  "reg (s\<lparr>cpsr := c\<rparr>) r = reg s r" "reg (s\<lparr>fpscr := c\<rparr>) r = reg s r"
  "reg (s\<lparr>abort_state := a\<rparr>) r = reg s r"
  "reg (s\<lparr>thread_pointer_user_rw := c\<rparr>) r = reg s r"
  by (simp_all add: state_ok_def reg_def)

lemma reg_index:
  fixes r :: u32
  assumes "state_ok s" "r < 16" shows "unat r < length (cpu_registers s)"
proof -
  have "unat r < 16" using assms(2) by (simp add: word_less_nat_alt)
  then show ?thesis using assms(1) by (simp add: state_ok_def)
qed

lemma reg_set_reg [cpu_simps]:
  assumes "state_ok s" "r < 16" "r' < 16"
  shows "reg (set_reg r v s) r' = (if r' = r then v else reg s r')"
  using reg_index [OF assms(1,2)] reg_index [OF assms(1,3)]
  by (auto simp: reg_def set_reg_def nth_list_update word_unat_eq_iff)

lemma reg_set_reg_same [simp]:
  assumes "state_ok s" "r < 16" shows "reg (set_reg r v s) r = v"
  using reg_set_reg [OF assms assms(2)] by simp

lemma set_reg_swap:
  "r \<noteq> r' \<Longrightarrow> set_reg r v (set_reg r' v' s) = set_reg r' v' (set_reg r v s)"
  by (simp add: set_reg_def list_update_swap word_unat_eq_iff)

lemma set_reg_again [simp]: "set_reg r v (set_reg r v' s) = set_reg r v s"
  by (simp add: set_reg_def)

section \<open>Memory\<close>

record memory_fault =
  mf_address :: u32
  mf_status :: u32

record memory_read =
  mr_value :: u32
  mr_fault :: "memory_fault option"

record exclusive_read =
  xr_value :: u64
  xr_fault :: "memory_fault option"

record exclusive_write =
  xw_stored :: bool
  xw_fault :: "memory_fault option"

record direct_memory =
  permits_unaligned :: bool
  pc_store_offset :: u32

record ('m, 'x) memory_access =
  ma_read :: "u32 \<Rightarrow> u32 \<Rightarrow> 'm \<Rightarrow> memory_read \<times> 'm"
  ma_write :: "u32 \<Rightarrow> u32 \<Rightarrow> u32 \<Rightarrow> 'm \<Rightarrow> memory_fault option \<times> 'm"
  ma_exchange :: "u32 \<Rightarrow> u32 \<Rightarrow> u32 \<Rightarrow> 'm \<Rightarrow> memory_read option \<times> 'm"
  ma_direct :: "'m \<Rightarrow> direct_memory"
  ma_monitor :: "'m \<Rightarrow> 'x option"
  xm_bound :: "'x \<Rightarrow> 'm \<Rightarrow> bool"
  xm_load :: "'x \<Rightarrow> u32 \<Rightarrow> u32 \<Rightarrow> 'm \<Rightarrow> exclusive_read \<times> 'x \<times> 'm"
  xm_store :: "'x \<Rightarrow> u32 \<Rightarrow> u32 \<Rightarrow> u64 \<Rightarrow> 'm \<Rightarrow> exclusive_write \<times> 'x \<times> 'm"
  xm_clear :: "'x \<Rightarrow> 'm \<Rightarrow> 'x \<times> 'm"

text \<open>The little-endian value of \<open>n\<close> bytes of memory, and the store of \<open>n\<close> bytes.\<close>

fun load_bytes :: "(u32 \<Rightarrow> u8) \<Rightarrow> u32 \<Rightarrow> nat \<Rightarrow> 'a::len word" where
  "load_bytes mem a 0 = 0"
| "load_bytes mem a (Suc n) = ucast (mem a) OR push_bit 8 (load_bytes mem (a + 1) n)"

fun store_bytes :: "(u32 \<Rightarrow> u8) \<Rightarrow> u32 \<Rightarrow> nat \<Rightarrow> 'a::len word \<Rightarrow> u32 \<Rightarrow> u8" where
  "store_bytes mem a 0 v = mem"
| "store_bytes mem a (Suc n) v = store_bytes (mem(a := ucast v)) (a + 1) n (drop_bit 8 v)"

section \<open>Stopping\<close>

text \<open>\<^verbatim>\<open>StopReason\<close> is a set of flags in a 32-bit word.\<close>

definition stop_none :: u32 where "stop_none = 0"
definition stop_tick_budget :: u32 where "stop_tick_budget = push_bit 0 1"
definition stop_single_step :: u32 where "stop_single_step = push_bit 1 1"
definition stop_host_deadline :: u32 where "stop_host_deadline = push_bit 2 1"
definition stop_svc :: u32 where "stop_svc = push_bit 5 1"
definition stop_fetch_fault :: u32 where "stop_fetch_fault = push_bit 6 1"
definition stop_unsupported :: u32 where "stop_unsupported = push_bit 7 1"
definition stop_invalid_timing :: u32 where "stop_invalid_timing = push_bit 8 1"
definition stop_data_fault :: u32 where "stop_data_fault = push_bit 9 1"
definition stop_breakpoint :: u32 where "stop_breakpoint = push_bit 10 1"
definition stop_backend_switch :: u32 where "stop_backend_switch = push_bit 11 1"

lemmas stop_defs = stop_none_def stop_tick_budget_def stop_single_step_def
  stop_host_deadline_def stop_svc_def stop_fetch_fault_def stop_unsupported_def
  stop_invalid_timing_def stop_data_fault_def stop_breakpoint_def stop_backend_switch_def

record completion =
  completion_reason :: u32
  completion_fault :: "memory_fault option"

abbreviation completed :: completion where
  "completed \<equiv> \<lparr>completion_reason = stop_none, completion_fault = None\<rparr>"

abbreviation unsupported :: completion where
  "unsupported \<equiv> \<lparr>completion_reason = stop_unsupported, completion_fault = None\<rparr>"

abbreviation data_fault :: "memory_fault \<Rightarrow> completion" where
  "data_fault f \<equiv> \<lparr>completion_reason = stop_data_fault, completion_fault = Some f\<rparr>"

text \<open>The \<^verbatim>\<open>abort\<close> lambda of the transfers: it records the fault registers.\<close>

definition abort_transfer :: "memory_fault \<Rightarrow> cpu_state \<Rightarrow> cpu_state" where
  "abort_transfer f s =
    s\<lparr>abort_state := \<lparr>fault_status = mf_status f, fault_address = mf_address f\<rparr>\<rparr>"

lemma abort_transfer_fields [simp]:
  "cpu_registers (abort_transfer f s) = cpu_registers s"
  "extension_registers (abort_transfer f s) = extension_registers s"
  "cpsr (abort_transfer f s) = cpsr s" "fpscr (abort_transfer f s) = fpscr s"
  "state_ok (abort_transfer f s) = state_ok s" "reg (abort_transfer f s) r = reg s r"
  by (simp_all add: abort_transfer_def)

end
