(* ===== verification/Arm_Integer.thy ===== *)
theory Arm_Integer
  imports Arm_Instruction Word_Facts
begin

text \<open>
  The integer data path shared by the interpreter and the compilers
  (\<^verbatim>\<open>arm/integer_semantics.cpp\<close>): condition codes, the barrel shifter, the adder
  and the arithmetic-logic unit, with the arithmetic they implement.
\<close>

unbundle bit_operations_syntax

section \<open>Definitions\<close>

record shift_result =
  sh_value :: u32
  sh_carry :: bool

record arithmetic_result =
  ar_value :: u32
  ar_carry :: bool
  ar_overflow :: bool

record alu_result =
  alu_value :: u32
  alu_cpsr :: u32

definition condition_passed :: "u32 \<Rightarrow> u32 \<Rightarrow> bool" where
  "condition_passed cond cpsr =
    (let n = drop_bit 31 cpsr \<noteq> 0; z = flag_set cpsr 30;
         c = flag_set cpsr 29; v = flag_set cpsr 28 in
     if cond = 0 then z
     else if cond = 1 then \<not> z
     else if cond = 2 then c
     else if cond = 3 then \<not> c
     else if cond = 4 then n
     else if cond = 5 then \<not> n
     else if cond = 6 then v
     else if cond = 7 then \<not> v
     else if cond = 8 then c \<and> \<not> z
     else if cond = 9 then \<not> c \<or> z
     else if cond = 10 then n = v
     else if cond = 11 then n \<noteq> v
     else if cond = 12 then \<not> z \<and> n = v
     else if cond = 13 then z \<or> n \<noteq> v
     else if cond = 14 then True
     else False)"

definition shift :: "u32 \<Rightarrow> shift_kind \<Rightarrow> u32 \<Rightarrow> bool \<Rightarrow> bool \<Rightarrow> shift_result" where
  "shift value knd amount carry register_amount =
    (if register_amount \<and> amount = 0 then \<lparr>sh_value = value, sh_carry = carry\<rparr>
     else case knd of
       Lsl \<Rightarrow>
         (if amount = 0 then \<lparr>sh_value = value, sh_carry = carry\<rparr>
          else if amount < 32
          then \<lparr>sh_value = push_bit (unat amount) value,
                 sh_carry = drop_bit (unat (32 - amount)) value AND 1 \<noteq> 0\<rparr>
          else \<lparr>sh_value = 0, sh_carry = (amount = 32 \<and> value AND 1 \<noteq> 0)\<rparr>)
     | Lsr \<Rightarrow>
         (let amount = (if amount = 0 then 32 else amount) in
          if amount < 32
          then \<lparr>sh_value = drop_bit (unat amount) value,
                 sh_carry = drop_bit (unat (amount - 1)) value AND 1 \<noteq> 0\<rparr>
          else \<lparr>sh_value = 0, sh_carry = (amount = 32 \<and> drop_bit 31 value \<noteq> 0)\<rparr>)
     | Asr \<Rightarrow>
         (let amount = (if amount = 0 then 32 else amount);
              sign = drop_bit 31 value \<noteq> 0 in
          if 32 \<le> amount
          then \<lparr>sh_value = (if sign then 0xffffffff else 0), sh_carry = sign\<rparr>
          else let fill = (if sign then push_bit (unat (32 - amount)) (NOT 0) else 0) in
            \<lparr>sh_value = drop_bit (unat amount) value OR fill,
             sh_carry = drop_bit (unat (amount - 1)) value AND 1 \<noteq> 0\<rparr>)
     | Ror \<Rightarrow>
         (if amount = 0
          then \<lparr>sh_value = drop_bit 1 value OR push_bit 31 (of_bool carry),
                 sh_carry = value AND 1 \<noteq> 0\<rparr>
          else let value = word_rotr (unat (amount AND 31)) value in
            \<lparr>sh_value = value, sh_carry = drop_bit 31 value \<noteq> 0\<rparr>))"

definition add_with_carry :: "u32 \<Rightarrow> u32 \<Rightarrow> bool \<Rightarrow> arithmetic_result" where
  "add_with_carry a b carry =
    (let wide = (ucast a :: u64) + ucast b + of_bool carry;
         value = (ucast wide :: u32) in
     \<lparr>ar_value = value, ar_carry = drop_bit 32 wide \<noteq> 0,
      ar_overflow = (a XOR value) AND (b XOR value) AND 0x80000000 \<noteq> 0\<rparr>)"

definition set_nz :: "u32 \<Rightarrow> u32 \<Rightarrow> u32" where
  "set_nz cpsr value =
    (cpsr AND 0x3fffffff) OR (value AND 0x80000000) OR (if value = 0 then 0x40000000 else 0)"

text \<open>The \<^verbatim>\<open>switch\<close> of \<^verbatim>\<open>calculate_alu\<close>: the value, and the adder's
  result when the operation sets arithmetic flags.\<close>

definition alu_operation ::
  "u32 \<Rightarrow> u32 \<Rightarrow> u32 \<Rightarrow> bool \<Rightarrow> u32 \<times> arithmetic_result option" where
  "alu_operation op a b carry =
    (let arith = (\<lambda>r. (ar_value r, Some r)) in
     if op = 0 \<or> op = 8 then (a AND b, None)
     else if op = 1 \<or> op = 9 then (a XOR b, None)
     else if op = 2 \<or> op = 10 then arith (add_with_carry a (NOT b) True)
     else if op = 3 then arith (add_with_carry b (NOT a) True)
     else if op = 4 \<or> op = 11 then arith (add_with_carry a b False)
     else if op = 5 then arith (add_with_carry a b carry)
     else if op = 6 then arith (add_with_carry a (NOT b) carry)
     else if op = 7 then arith (add_with_carry b (NOT a) carry)
     else if op = 12 then (a OR b, None)
     else if op = 13 then (b, None)
     else if op = 14 then (a AND NOT b, None)
     else if op = 15 then (NOT b, None)
     else if op = opcode_orn then (a OR NOT b, None)
     else (0, None))"

definition calculate_alu ::
  "u32 \<Rightarrow> bool \<Rightarrow> u32 \<Rightarrow> shift_result \<Rightarrow> u32 \<Rightarrow> alu_result" where
  "calculate_alu op flags a shifted cpsr =
    (let carry = flag_set cpsr 29;
         (value, arithmetic) = alu_operation op a (sh_value shifted) carry in
     if flags
     then let cpsr = set_nz cpsr value;
              cpsr = put_flag cpsr 29 (case arithmetic of
                Some r \<Rightarrow> ar_carry r | None \<Rightarrow> sh_carry shifted);
              cpsr = (case arithmetic of
                Some r \<Rightarrow> put_flag cpsr 28 (ar_overflow r) | None \<Rightarrow> cpsr)
          in \<lparr>alu_value = value, alu_cpsr = cpsr\<rparr>
     else \<lparr>alu_value = value, alu_cpsr = cpsr\<rparr>)"

section \<open>The adder\<close>

lemma unat_wide_sum:
  "unat ((ucast a :: u64) + ucast b + of_bool c) = unat (a :: u32) + unat (b :: u32) + of_bool c"
proof -
  have small: "unat a + unat b + of_bool c < 2 ^ 64"
    using unat_u32_less [of a] unat_u32_less [of b] by (cases c) simp_all
  have "(ucast a :: u64) + ucast b + of_bool c = word_of_nat (unat a + unat b + of_bool c)"
    by simp
  then have "unat ((ucast a :: u64) + ucast b + of_bool c) =
      (unat a + unat b + of_bool c) mod 2 ^ LENGTH(64)"
    by (simp only: unat_of_nat)
  then show ?thesis using small by simp
qed

lemma add_with_carry_value:
  "unat (ar_value (add_with_carry a b c)) = (unat a + unat b + of_bool c) mod 2 ^ 32"
  by (simp add: add_with_carry_def Let_def unsigned_ucast_eq take_bit_eq_mod unat_wide_sum)

lemma add_with_carry_carry:
  "ar_carry (add_with_carry a b c) \<longleftrightarrow> 2 ^ 32 \<le> unat a + unat b + of_bool c"
proof -
  let ?w = "(ucast a :: u64) + ucast b + of_bool c"
  have "ar_carry (add_with_carry a b c) \<longleftrightarrow> unat (drop_bit 32 ?w) \<noteq> 0"
    by (simp only: add_with_carry_def Let_def arithmetic_result.simps word_neq_0_iff)
  also have "\<dots> \<longleftrightarrow> unat ?w div 2 ^ 32 \<noteq> 0"
    by (simp only: unat_drop_bit_div)
  finally show ?thesis by (simp add: unat_wide_sum div_eq_0_iff not_less)
qed

lemma add_with_carry_sign:
  "bit (ar_value (add_with_carry a b c)) 31 \<longleftrightarrow>
    2 ^ 31 \<le> (unat a + unat b + of_bool c) mod 2 ^ 32"
  by (simp only: bit_31_iff add_with_carry_value)

lemma add_with_carry_overflow_bits:
  "ar_overflow (add_with_carry a b c) \<longleftrightarrow>
    bit a 31 \<noteq> bit (ar_value (add_with_carry a b c)) 31 \<and>
    bit b 31 \<noteq> bit (ar_value (add_with_carry a b c)) 31"
  by (simp only: add_with_carry_def Let_def arithmetic_result.simps and_and_top_eq_0_iff
      bit_xor_iff not_not)

lemma add_with_carry_overflow:
  "ar_overflow (add_with_carry a b c) \<longleftrightarrow>
    \<not> (- (2 ^ 31) \<le> sint a + sint b + of_bool c \<and> sint a + sint b + of_bool c < 2 ^ 31)"
  unfolding add_with_carry_overflow_bits add_with_carry_sign sint_u32
  unfolding bit_31_iff
  by (rule signed_sum_overflow) (rule unat_u32_less)+

lemma add_with_carry_word: "ar_value (add_with_carry a b c) = a + b + of_bool c"
  by (rule word_unat_eq_iff [THEN iffD2])
    (simp add: add_with_carry_value unat_word_ariths mod_simps)

lemma add_with_carry_negative:
  "(bit (ar_value (add_with_carry a b c)) 31 \<noteq> ar_overflow (add_with_carry a b c)) \<longleftrightarrow>
    sint a + sint b + of_bool c < 0"
  unfolding add_with_carry_overflow add_with_carry_sign sint_u32
  unfolding bit_31_iff
  by (rule signed_sum_negative) (rule unat_u32_less)+

text \<open>A subtraction is the addition of the complement with the carry set.\<close>

lemma subtract_value: "ar_value (add_with_carry a (NOT b) True) = a - b"
  by (simp add: add_with_carry_word not_eq_complement)

lemma subtract_carry: "ar_carry (add_with_carry a (NOT b) True) \<longleftrightarrow> b \<le> a"
  using unat_u32_less [of b] by (simp add: add_with_carry_carry unat_not_u32 word_le_nat_alt) arith

lemma subtract_negative:
  "(bit (a - b) 31 \<noteq> ar_overflow (add_with_carry a (NOT b) True)) \<longleftrightarrow> sint a < sint b"
  using add_with_carry_negative [of a "NOT b" True]
  by (simp add: subtract_value sint_not_u32)

section \<open>The flags after an operation\<close>

lemma masked_flags_bits:
  fixes c v :: u32
  assumes "j < 32" "k < 32" "i \<le> 32"
  shows "bit ((c AND mask i) OR (v AND 2 ^ k) OR (if z then 2 ^ j else 0)) n \<longleftrightarrow>
    (n < i \<and> bit c n) \<or> (n = k \<and> bit v k) \<or> (z \<and> n = j)"
  using assms by (auto simp: bit_simps dest: bit_imp_le_length)

lemma set_nz_bits [flag_simps]:
  "bit (set_nz cpsr v) n \<longleftrightarrow>
    (n < 30 \<and> bit cpsr n) \<or> (n = 31 \<and> bit v 31) \<or> (v = 0 \<and> n = 30)"
proof -
  have "set_nz cpsr v = (cpsr AND mask 30) OR (v AND 2 ^ 31) OR (if v = 0 then 2 ^ 30 else 0)"
    by (simp add: set_nz_def mask_eq_exp_minus_1)
  then show ?thesis by (simp only:) (rule masked_flags_bits; simp)
qed

definition alu_carry_out :: "u32 \<Rightarrow> u32 \<Rightarrow> shift_result \<Rightarrow> u32 \<Rightarrow> bool" where
  "alu_carry_out op a sh cpsr =
    (case snd (alu_operation op a (sh_value sh) (flag_set cpsr 29)) of
       Some r \<Rightarrow> ar_carry r | None \<Rightarrow> sh_carry sh)"

lemma calculate_alu_flag_bits [flag_simps]:
  fixes op a cpsr :: u32 and sh :: shift_result
  defines "r \<equiv> calculate_alu op True a sh cpsr"
  shows "bit (alu_cpsr r) 31 \<longleftrightarrow> bit (alu_value r) 31"
    and "bit (alu_cpsr r) 30 \<longleftrightarrow> alu_value r = 0"
    and "bit (alu_cpsr r) 29 \<longleftrightarrow> alu_carry_out op a sh cpsr"
    and "bit (alu_cpsr r) 28 \<longleftrightarrow>
      (case snd (alu_operation op a (sh_value sh) (flag_set cpsr 29)) of
         Some x \<Rightarrow> ar_overflow x | None \<Rightarrow> bit cpsr 28)"
    and "n < 28 \<Longrightarrow> bit (alu_cpsr r) n \<longleftrightarrow> bit cpsr n"
  unfolding r_def calculate_alu_def Let_def alu_carry_out_def
  by (simp_all add: flag_simps split: prod.split option.split)

section \<open>The barrel shifter\<close>

lemma unat_sub_small: "x \<le> (n :: u32) \<Longrightarrow> unat (n - x) = unat n - unat x"
  by (rule unat_sub)

lemma drop_bit_beyond: "32 \<le> unat x \<Longrightarrow> unat (v :: u32) div 2 ^ unat (x :: u32) = 0"
  using unat_u32_less [of v] power_increasing [of 32 "unat x" "2 :: nat"] by simp

lemma shift_lsl:
  assumes "x \<noteq> 0"
  shows "unat (sh_value (shift v Lsl x c r)) = unat v * 2 ^ unat x mod 2 ^ 32"
    and "sh_carry (shift v Lsl x c r) \<longleftrightarrow> unat x \<le> 32 \<and> bit v (32 - unat x)"
proof -
  have pos: "0 < unat x" using assms by (simp add: unat_gt_0)
  show "unat (sh_value (shift v Lsl x c r)) = unat v * 2 ^ unat x mod 2 ^ 32"
  proof (cases "x < 32")
    case True
    then show ?thesis using assms by (simp add: shift_def unat_push_bit_mod)
  next
    case False
    then have "(2 :: nat) ^ 32 dvd 2 ^ unat x"
      by (intro le_imp_power_dvd) (simp add: word_less_nat_alt)
    then have "unat v * 2 ^ unat x mod 2 ^ 32 = 0" by (simp add: dvd_mult)
    then show ?thesis using assms False by (simp add: shift_def)
  qed
  have eq: "x = 32 \<longleftrightarrow> unat x = 32" by (simp add: word_eq_iff_unsigned [where ?'a = nat])
  show "sh_carry (shift v Lsl x c r) \<longleftrightarrow> unat x \<le> 32 \<and> bit v (32 - unat x)"
    using assms by (auto simp: shift_def unat_sub_small word_less_nat_alt word_le_nat_alt eq)
qed

lemma effective_amount:
  fixes x :: u32
  shows "unat (if x = 0 then 32 else x) = (if unat x = 0 then 32 else unat x)"
  by (simp add: unat_eq_zero)

lemma shift_lsr:
  assumes "\<not> (r \<and> x = 0)"
  defines "n \<equiv> if unat x = 0 then 32 else unat x"
  shows "unat (sh_value (shift v Lsr x c r)) = unat v div 2 ^ n"
    and "sh_carry (shift v Lsr x c r) \<longleftrightarrow> n \<le> 32 \<and> bit v (n - 1)"
proof -
  define y :: u32 where "y = (if x = 0 then 32 else x)"
  have n: "unat y = n" and pos: "0 < n" unfolding y_def n_def effective_amount by simp_all
  have eq: "y = 32 \<longleftrightarrow> n = 32" and less: "y < 32 \<longleftrightarrow> n < 32"
    by (simp_all add: n [symmetric] word_eq_iff_unsigned [where ?'a = nat] word_less_nat_alt)
  have one: "1 \<le> y" using pos n by (simp add: word_le_nat_alt)
  have fresh: "(r \<and> x = 0) = False" using assms(1) by simp
  have sh: "shift v Lsr x c r =
    (if y < 32 then \<lparr>sh_value = drop_bit n v, sh_carry = bit v (n - 1)\<rparr>
     else \<lparr>sh_value = 0, sh_carry = y = 32 \<and> bit v 31\<rparr>)"
    by (simp add: shift_def fresh y_def [symmetric] Let_def n unat_sub_small [OF one])
  show "unat (sh_value (shift v Lsr x c r)) = unat v div 2 ^ n"
    using drop_bit_beyond [of y v] by (auto simp: sh less n unat_drop_bit_div)
  show "sh_carry (shift v Lsr x c r) \<longleftrightarrow> n \<le> 32 \<and> bit v (n - 1)"
    using pos by (auto simp: sh less eq)
qed

text \<open>An arithmetic shift divides the signed value, rounding down.\<close>

lemma sint_asr_fill:
  assumes "0 < n" "n < 32"
  shows "sint (drop_bit n v OR (if bit v 31 then push_bit (32 - n) (NOT 0) else 0)) =
    sint (v :: u32) div 2 ^ n"
proof -
  have "drop_bit n v OR (if bit v 31 then push_bit (32 - n) (NOT 0) else 0) = signed_drop_bit n v"
    using assms by (intro bit_word_eqI) (auto simp: bit_simps not_le dest: bit_imp_le_length)
  then show ?thesis by (simp add: sint_signed_drop_bit_eq drop_bit_eq_div)
qed

lemma sint_sign_div: "32 \<le> n \<Longrightarrow> sint (v :: u32) div 2 ^ n = (if bit v 31 then - 1 else 0)"
proof -
  assume "32 \<le> n"
  then have "(2 :: int) ^ 32 \<le> 2 ^ n" by (rule power_increasing) simp
  moreover have "sint v < 2 ^ 31 \<and> - (2 ^ 31) \<le> sint v"
    using sint_greater_eq [of v] sint_less [of v] by simp
  moreover have "sint v < 0 \<longleftrightarrow> bit v 31"
    using bit_last_iff [of v] by simp
  ultimately show ?thesis
    using int_div_pos_eq [of "sint v" "2 ^ n" "- 1" "sint v + 2 ^ n"]
    by (auto simp: div_pos_pos_trivial not_less)
qed

lemma shift_asr:
  assumes "\<not> (r \<and> x = 0)"
  defines "n \<equiv> if unat x = 0 then 32 else unat x"
  shows "sint (sh_value (shift v Asr x c r)) = sint v div 2 ^ n"
    and "sh_carry (shift v Asr x c r) \<longleftrightarrow> bit v (min n 32 - 1)"
proof -
  define y :: u32 where "y = (if x = 0 then 32 else x)"
  have n: "unat y = n" and pos: "0 < n" unfolding y_def n_def effective_amount by simp_all
  have less: "32 \<le> y \<longleftrightarrow> 32 \<le> n" by (simp add: n [symmetric] word_le_nat_alt)
  have one: "1 \<le> y" using pos n by (simp add: word_le_nat_alt)
  have fill: "y \<le> 32 \<Longrightarrow> unat (32 - y) = 32 - n" using unat_sub_small [of y 32] n by simp
  have fresh: "(r \<and> x = 0) = False" using assms(1) by simp
  have sh: "shift v Asr x c r =
    (if 32 \<le> y then \<lparr>sh_value = if bit v 31 then 0xffffffff else 0, sh_carry = bit v 31\<rparr>
     else \<lparr>sh_value = drop_bit n v OR (if bit v 31 then push_bit (32 - n) (NOT 0) else 0),
       sh_carry = bit v (n - 1)\<rparr>)"
    using fill by (simp add: shift_def fresh y_def [symmetric] Let_def n unat_sub_small [OF one])
  show "sint (sh_value (shift v Asr x c r)) = sint v div 2 ^ n"
    using sint_asr_fill [of n v] sint_sign_div [of n v] pos by (auto simp: sh less)
  show "sh_carry (shift v Asr x c r) \<longleftrightarrow> bit v (min n 32 - 1)"
    by (auto simp: sh less min_def)
qed

lemma shift_ror:
  assumes "x \<noteq> 0"
  shows "bit (sh_value (shift v Ror x c r)) i \<longleftrightarrow> i < 32 \<and> bit v ((i + unat x) mod 32)"
    and "sh_carry (shift v Ror x c r) \<longleftrightarrow> bit (sh_value (shift v Ror x c r)) 31"
proof -
  show "bit (sh_value (shift v Ror x c r)) i \<longleftrightarrow> i < 32 \<and> bit v ((i + unat x) mod 32)"
    using assms by (auto simp: shift_def Let_def bit_word_rotr_iff unat_and_31 mod_simps add.commute)
  show "sh_carry (shift v Ror x c r) \<longleftrightarrow> bit (sh_value (shift v Ror x c r)) 31"
    using assms by (auto simp: shift_def Let_def)
qed

section \<open>Properties\<close>

text \<open>C36. The adder returns the sum modulo two to the 32; its carry and overflow flags say
  exactly when the unsigned and the signed sum leave their ranges.\<close>

theorem add_with_carry_correct:
  "unat (ar_value (add_with_carry a b c)) = (unat a + unat b + of_bool c) mod 2 ^ 32
   \<and> (ar_carry (add_with_carry a b c) \<longleftrightarrow> 2 ^ 32 \<le> unat a + unat b + of_bool c)
   \<and> (ar_overflow (add_with_carry a b c) \<longleftrightarrow>
        sint a + sint b + of_bool c < - (2 ^ 31) \<or> 2 ^ 31 \<le> sint a + sint b + of_bool c)"
  by (simp only: add_with_carry_value add_with_carry_carry add_with_carry_overflow) auto

text \<open>C35. After a compare (opcode 10, flags set), every condition code decides the
  comparison of the two operands that the architecture names it after.\<close>

theorem compare_then_condition:
  fixes a b cpsr :: u32 and k :: bool
  defines "p \<equiv> alu_cpsr (calculate_alu 10 True a \<lparr>sh_value = b, sh_carry = k\<rparr> cpsr)"
  shows "(condition_passed 0 p \<longleftrightarrow> a = b) \<and> (condition_passed 1 p \<longleftrightarrow> a \<noteq> b)
    \<and> (condition_passed 2 p \<longleftrightarrow> b \<le> a) \<and> (condition_passed 3 p \<longleftrightarrow> a < b)
    \<and> (condition_passed 8 p \<longleftrightarrow> b < a) \<and> (condition_passed 9 p \<longleftrightarrow> a \<le> b)
    \<and> (condition_passed 10 p \<longleftrightarrow> sint b \<le> sint a)
    \<and> (condition_passed 11 p \<longleftrightarrow> sint a < sint b)
    \<and> (condition_passed 12 p \<longleftrightarrow> sint b < sint a)
    \<and> (condition_passed 13 p \<longleftrightarrow> sint a \<le> sint b)"
proof -
  let ?r = "calculate_alu 10 True a \<lparr>sh_value = b, sh_carry = k\<rparr> cpsr"
  have op: "alu_operation 10 a b c = (a - b, Some (add_with_carry a (NOT b) True))" for c
    by (simp add: alu_operation_def subtract_value)
  have val: "alu_value ?r = a - b" by (simp add: calculate_alu_def op Let_def)
  have n: "bit p 31 = bit (a - b) 31" and z: "bit p 30 = (a = b)" and c: "bit p 29 = (b \<le> a)"
    and v: "bit p 28 = ar_overflow (add_with_carry a (NOT b) True)"
    by (simp_all add: p_def flag_simps val op alu_carry_out_def subtract_carry)
  have lt: "(bit p 31 \<noteq> bit p 28) = (sint a < sint b)"
    unfolding n v by (rule subtract_negative)
  have eq: "sint a = sint b \<longleftrightarrow> a = b" by (rule word_eq_iff_signed [symmetric])
  show ?thesis
    unfolding condition_passed_def Let_def flag_set_iff drop_bit_31 z c lt eq [symmetric]
    using lt eq by (auto simp: z c)
qed

text \<open>For a non-zero amount the shifter computes the arithmetic each shift is named for:
  LSL multiplies modulo two to the 32, LSR divides the unsigned and ASR the signed value,
  ROR permutes the bits; the carry out is the last bit shifted out.\<close>

theorem shift_arithmetic:
  fixes x v :: u32
  assumes "x \<noteq> 0"
  defines "n \<equiv> unat x"
  shows "unat (sh_value (shift v Lsl x c r)) = unat v * 2 ^ n mod 2 ^ 32
    \<and> unat (sh_value (shift v Lsr x c r)) = unat v div 2 ^ n
    \<and> sint (sh_value (shift v Asr x c r)) = sint v div 2 ^ n
    \<and> (\<forall>i. bit (sh_value (shift v Ror x c r)) i = (i < 32 \<and> bit v ((i + n) mod 32)))
    \<and> sh_carry (shift v Lsl x c r) = (n \<le> 32 \<and> bit v (32 - n))
    \<and> sh_carry (shift v Lsr x c r) = (n \<le> 32 \<and> bit v (n - 1))
    \<and> sh_carry (shift v Asr x c r) = bit v (min n 32 - 1)
    \<and> sh_carry (shift v Ror x c r) = bit v ((31 + n) mod 32)"
proof -
  have nz: "\<not> (r \<and> x = 0)" "unat x \<noteq> 0" using assms(1) by (simp_all add: unat_eq_zero)
  show ?thesis
    using shift_lsl [OF assms(1), of v c r] shift_lsr [OF nz(1), of v c]
      shift_asr [OF nz(1), of v c] shift_ror [OF assms(1), of v c r] nz(2)
    by (simp add: n_def)
qed

theorem shift_arithmetic_witness:
  "unat (sh_value (shift 0x80000001 Lsl 4 False True)) = 16
   \<and> sint (sh_value (shift 0x80000001 Asr 4 False True)) = - 134217728"
  using shift_arithmetic [of 4 "0x80000001" False True] by simp

text \<open>Condition codes come in pairs: an odd code below 14 passes exactly when its even
  partner fails, so one of a conditional instruction and its inverse always executes.\<close>

lemma condition_codes_paired:
  assumes "c \<in> {0, 2, 4, 6, 8, 10, 12}"
  shows "condition_passed (c + 1) cpsr \<longleftrightarrow> \<not> condition_passed c cpsr"
  using assms by (auto simp: condition_passed_def Let_def)

lemma logical_operation:
  assumes "op \<in> {0, 1, 8, 9, 12, 13, 14, 15, 16}"
  shows "snd (alu_operation op a b c) = None"
  using assms by (auto simp: alu_operation_def Let_def opcode_orn_def)

lemma calculate_alu_plain:
  "calculate_alu op False a sh cpsr =
    \<lparr>alu_value = fst (alu_operation op a (sh_value sh) (bit cpsr 29)), alu_cpsr = cpsr\<rparr>"
  by (simp add: calculate_alu_def split: prod.split)

lemma calculate_alu_value:
  "alu_value (calculate_alu op flags a sh cpsr) =
    fst (alu_operation op a (sh_value sh) (bit cpsr 29))"
  by (simp add: calculate_alu_def Let_def split: prod.split)

text \<open>The data path leaves the status register alone without the S bit; with it only
  N, Z, C and V can change, and a logical operation keeps V and takes C from the shifter.\<close>

theorem calculate_alu_frame:
  "alu_cpsr (calculate_alu op False a sh cpsr) = cpsr
   \<and> (\<forall>n < 28. bit (alu_cpsr (calculate_alu op True a sh cpsr)) n = bit cpsr n)
   \<and> (op \<in> {0, 1, 8, 9, 12, 13, 14, 15, 16} \<longrightarrow>
        bit (alu_cpsr (calculate_alu op True a sh cpsr)) 28 = bit cpsr 28
        \<and> bit (alu_cpsr (calculate_alu op True a sh cpsr)) 29 = sh_carry sh)"
  using logical_operation [of op a "sh_value sh" "flag_set cpsr 29"]
  by (auto simp: flag_simps alu_carry_out_def calculate_alu_plain)

theorem calculate_alu_frame_witness:
  "bit (alu_cpsr (calculate_alu 13 True 0 \<lparr>sh_value = 0, sh_carry = True\<rparr> 0x10000010)) 28
   \<and> bit (alu_cpsr (calculate_alu 13 True 0 \<lparr>sh_value = 0, sh_carry = True\<rparr> 0x10000010)) 29
   \<and> bit (alu_cpsr (calculate_alu 13 True 0 \<lparr>sh_value = 0, sh_carry = True\<rparr> 0x10000010)) 4"
  using calculate_alu_frame [of 13 0 "\<lparr>sh_value = 0, sh_carry = True\<rparr>" "0x10000010"] by simp

section \<open>Double-word arithmetic\<close>

definition double_word :: "u32 \<Rightarrow> u32 \<Rightarrow> nat" where
  "double_word high low = unat high * 2 ^ 32 + unat low"

lemma mod_square:
  fixes m x y :: nat
  assumes "y < m"
  shows "(x * m + y) mod (m * m) = x mod m * m + y"
proof -
  have "(x * m + y) div m = x" using assms by simp
  then show ?thesis using assms by (simp add: mod_mult2_eq)
qed

lemma double_word_sum:
  fixes al ah bl bh :: nat and c :: bool
  assumes "al < 2 ^ 32" "bl < 2 ^ 32" "ah < 2 ^ 32" "bh < 2 ^ 32"
  shows "((ah + bh + of_bool (2 ^ 32 \<le> al + bl + of_bool c)) mod 2 ^ 32) * 2 ^ 32 +
      (al + bl + of_bool c) mod 2 ^ 32 =
    (ah * 2 ^ 32 + al + (bh * 2 ^ 32 + bl) + of_bool c) mod 2 ^ 64"
proof -
  define low where "low = al + bl + of_bool c"
  define carry :: nat where "carry = of_bool (2 ^ 32 \<le> low)"
  have low: "low = carry * 2 ^ 32 + low mod 2 ^ 32"
    using assms(1,2) by (cases c) (auto simp: low_def carry_def mod_if)
  have "(ah * 2 ^ 32 + al + (bh * 2 ^ 32 + bl) + of_bool c) mod 2 ^ 64 =
      ((ah + bh + carry) * 2 ^ 32 + low mod 2 ^ 32) mod (2 ^ 32 * 2 ^ 32)"
    using low by (simp add: low_def algebra_simps)
  also have "\<dots> = ((ah + bh + carry) mod 2 ^ 32) * 2 ^ 32 + low mod 2 ^ 32"
    by (rule mod_square) simp
  finally show ?thesis by (simp add: carry_def low_def)
qed

text \<open>ADDS then ADC, and SUBS then SBC, on the low and high words are addition and
  subtraction modulo two to the 64: the carry the first leaves is the one the second reads.\<close>

theorem double_word_arithmetic:
  fixes al ah bl bh cpsr :: u32 and k k' flags :: bool
  defines "add \<equiv> calculate_alu 4 True al \<lparr>sh_value = bl, sh_carry = k\<rparr> cpsr"
    and "sub \<equiv> calculate_alu 2 True al \<lparr>sh_value = bl, sh_carry = k\<rparr> cpsr"
  defines "adc \<equiv> calculate_alu 5 flags ah \<lparr>sh_value = bh, sh_carry = k'\<rparr> (alu_cpsr add)"
    and "sbc \<equiv> calculate_alu 6 flags ah \<lparr>sh_value = bh, sh_carry = k'\<rparr> (alu_cpsr sub)"
  shows "double_word (alu_value adc) (alu_value add) =
      (double_word ah al + double_word bh bl) mod 2 ^ 64
    \<and> double_word (alu_value sbc) (alu_value sub) =
      (double_word ah al + 2 ^ 64 - double_word bh bl) mod 2 ^ 64"
proof -
  note less = unat_u32_less [of al] unat_u32_less [of ah] unat_u32_less [of bl] unat_u32_less [of bh]
  have ops: "alu_operation 4 a b c = (ar_value (add_with_carry a b False), Some (add_with_carry a b False))"
    "alu_operation 5 a b c = (ar_value (add_with_carry a b c), Some (add_with_carry a b c))"
    "alu_operation 2 a b c = (ar_value (add_with_carry a (NOT b) True), Some (add_with_carry a (NOT b) True))"
    "alu_operation 6 a b c = (ar_value (add_with_carry a (NOT b) c), Some (add_with_carry a (NOT b) c))"
    for a b c by (simp_all add: alu_operation_def Let_def)
  have add: "double_word (alu_value adc) (alu_value add) =
      (double_word ah al + double_word bh bl) mod 2 ^ 64"
    using double_word_sum [of "unat al" "unat bl" "unat ah" "unat bh" False] less
    by (simp add: adc_def add_def double_word_def calculate_alu_value ops flag_simps
        alu_carry_out_def add_with_carry_value add_with_carry_carry)
  have "double_word (alu_value sbc) (alu_value sub) =
      (unat ah * 2 ^ 32 + unat al + (unat (NOT bh) * 2 ^ 32 + unat (NOT bl)) + 1) mod 2 ^ 64"
    using double_word_sum [of "unat al" "unat (NOT bl)" "unat ah" "unat (NOT bh)" True] less
    by (simp add: sbc_def sub_def double_word_def calculate_alu_value ops flag_simps
        alu_carry_out_def add_with_carry_value add_with_carry_carry unat_not_u32)
  also have "unat ah * 2 ^ 32 + unat al + (unat (NOT bh) * 2 ^ 32 + unat (NOT bl)) + 1 =
      double_word ah al + 2 ^ 64 - double_word bh bl"
    using less by (simp add: unat_not_u32 double_word_def)
  finally show ?thesis using add by simp
qed

end
