(* ===== verification/Arm_Memory.thy ===== *)
theory Arm_Memory
  imports Arm_State Arm_Integer
begin

text \<open>
  Single, dual, multiple and exclusive memory transfers (\<^verbatim>\<open>arm_memory/\<close>): an
  instruction is first prepared into a packed transaction, whose control word holds the
  operands, and then completed against the bound memory. Where the code takes a
  \<^verbatim>\<open>MemoryAccess*\<close>, the flag \<open>present\<close> says that it is not null.
\<close>

unbundle bit_operations_syntax

section \<open>Byte order\<close>

definition endian_reverse :: "u32 \<Rightarrow> u32 \<Rightarrow> u32" where
  "endian_reverse v width =
    (if width = 1 then v
     else if width = 2 then push_bit 8 (v AND 255) OR (drop_bit 8 v AND 255)
     else push_bit 24 (v AND 255) OR push_bit 8 (v AND 0xff00) OR (drop_bit 8 v AND 0xff00) OR
       drop_bit 24 v)"

definition endian :: "bool \<Rightarrow> u32 \<Rightarrow> u32 \<Rightarrow> u32" where
  "endian big v width = (if big then endian_reverse v width else v)"

section \<open>Single transfers\<close>

record transfer_record =
  tr_ticks :: u64
  tr_address :: u32
  tr_updated_base :: u32
  tr_value :: u32
  tr_control :: u32
  tr_second_value :: u32

definition load_bit :: u32 where "load_bit = push_bit 3 1"
definition signed_bit :: u32 where "signed_bit = push_bit 4 1"
definition writeback_bit :: u32 where "writeback_bit = push_bit 5 1"
definition table_branch_bit :: u32 where "table_branch_bit = push_bit 6 1"
definition dual_bit :: u32 where "dual_bit = push_bit 7 1"

definition transfer_control :: "instruction \<Rightarrow> u32" where
  "transfer_control inst =
    (if kind inst = TableBranch then table_branch_bit else 0) OR
    access_size inst OR (if load inst then load_bit else 0) OR
    (if inst_sign_extend inst then signed_bit else 0) OR
    (if writeback inst then writeback_bit else 0) OR push_bit 8 (rd inst) OR
    push_bit 12 (rn inst) OR push_bit 16 (inst_size inst) OR
    (if kind inst = DualTransfer then dual_bit OR push_bit 20 (rs inst) else 0)"

text \<open>A register operand; the program counter reads ahead of the instruction.\<close>

definition read_register :: "cpu_state \<Rightarrow> u32 \<Rightarrow> instruction \<Rightarrow> u32" where
  "read_register s r inst =
    (if r \<noteq> 15 then reg s r
     else let pc = reg s 15 + pc_offset inst in if align_pc inst then pc AND NOT 3 else pc)"

definition prepare_transfer :: "cpu_state \<Rightarrow> instruction \<Rightarrow> u32 \<Rightarrow> transfer_record" where
  "prepare_transfer s inst pc_store =
    (let offset = (if immediate_operand inst then immediate inst
           else sh_value (shift (read_register s (rm inst) inst) (inst_shift inst)
             (shift_amount inst) (flag_set (cpsr s) 29) False));
         base = read_register s (rn inst) inst;
         updated = (if inst_add inst then base + offset else base - offset) in
     \<lparr>tr_ticks = 0, tr_address = (if inst_index inst then updated else base),
      tr_updated_base = updated,
      tr_value = (if rd inst = 15 then reg s 15 + pc_store else read_register s (rd inst) inst),
      tr_control = transfer_control inst,
      tr_second_value = (if kind inst = DualTransfer then read_register s (rs inst) inst else 0)\<rparr>)"

text \<open>One word of a dual transfer: a load writes the register, a store the memory.\<close>

definition dual_word ::
  "('m, 'x) memory_access \<Rightarrow> bool \<Rightarrow> bool \<Rightarrow> u32 \<Rightarrow> u32 \<Rightarrow> u32 \<Rightarrow> cpu_state \<Rightarrow> 'm \<Rightarrow>
   memory_fault option \<times> cpu_state \<times> 'm" where
  "dual_word mem is_load big address r v s m =
    (if is_load
     then let (result, m) = ma_read mem address 4 m in
       case mr_fault result of
         Some f \<Rightarrow> (Some f, s, m)
       | None \<Rightarrow> (None, set_reg r (endian big (mr_value result) 4) s, m)
     else let (fault, m) = ma_write mem address 4 (endian big v 4) m in (fault, s, m))"

definition alignment_fault :: "u32 \<Rightarrow> bool \<Rightarrow> memory_fault" where
  "alignment_fault address is_load =
    \<lparr>mf_address = address, mf_status = 1 OR (if is_load then 0 else push_bit 11 1)\<rparr>"

definition complete_dual ::
  "('m, 'x) memory_access \<Rightarrow> cpu_state \<Rightarrow> 'm \<Rightarrow> transfer_record \<Rightarrow>
   completion \<times> cpu_state \<times> 'm" where
  "complete_dual mem s m t =
    (let control = tr_control t;
         is_load = (control AND load_bit \<noteq> 0);
         big = big_endian s;
         abort = (\<lambda>f s m. (data_fault f, abort_transfer f s, m)) in
     if tr_address t AND 3 \<noteq> 0
     then abort (alignment_fault (tr_address t) is_load) s m
     else case dual_word mem is_load big (tr_address t) (drop_bit 8 control AND 15) (tr_value t) s m
       of (Some f, s, m) \<Rightarrow> abort f s m
        | (None, s, m) \<Rightarrow>
          (case dual_word mem is_load big (tr_address t + 4) (drop_bit 20 control AND 15)
             (tr_second_value t) s m of
             (Some f, s, m) \<Rightarrow> abort f s m
           | (None, s, m) \<Rightarrow>
             let s = (if control AND writeback_bit \<noteq> 0
                   then set_reg (drop_bit 12 control AND 15) (tr_updated_base t) s else s) in
             (completed, set_reg 15 (reg s 15 + (drop_bit 16 control AND 7)) s, m)))"

text \<open>The loaded value of a single transfer, narrowed and sign-extended by the control word.\<close>

definition loaded_value :: "bool \<Rightarrow> u32 \<Rightarrow> bool \<Rightarrow> bool \<Rightarrow> u32 \<Rightarrow> u32" where
  "loaded_value big width faulted extend_sign v =
    (let v = endian big v width;
         v = (if width \<noteq> 4 then v AND (if width = 1 then 0xff else 0xffff) else v) in
     if \<not> faulted \<and> extend_sign
     then let sign = (if width = 1 then 0x80 else 0x8000);
              msk = (if width = 1 then 0xff else 0xffff) in ((v AND msk) XOR sign) - sign
     else v)"

definition retire_transfer :: "cpu_state \<Rightarrow> transfer_record \<Rightarrow> u32 \<Rightarrow> cpu_state" where
  "retire_transfer s t v =
    (let control = tr_control t;
         d = drop_bit 8 control AND 15;
         is_load = (control AND load_bit \<noteq> 0) in
     if control AND table_branch_bit \<noteq> 0
     then set_reg 15 (reg s 15 + (4 + push_bit 1 v)) s
     else
       let s = (if control AND writeback_bit \<noteq> 0
             then set_reg (drop_bit 12 control AND 15) (tr_updated_base t) s else s);
           s = (if is_load \<and> d \<noteq> 15 then set_reg d v s else s) in
       if is_load \<and> d = 15
       then set_reg 15 (v AND (if v AND 1 \<noteq> 0 then NOT 1 else NOT 3))
         (s\<lparr>cpsr := (cpsr s AND NOT (push_bit 5 1)) OR push_bit 5 (v AND 1)\<rparr>)
       else set_reg 15 (reg s 15 + (drop_bit 16 control AND 7)) s)"

definition complete_single ::
  "('m, 'x) memory_access \<Rightarrow> cpu_state \<Rightarrow> 'm \<Rightarrow> transfer_record \<Rightarrow>
   completion \<times> cpu_state \<times> 'm" where
  "complete_single mem s m t =
    (let control = tr_control t;
         width = control AND 7;
         d = drop_bit 8 control AND 15;
         table = (control AND table_branch_bit \<noteq> 0);
         is_load = (control AND load_bit \<noteq> 0);
         big = big_endian s;
         pc_load = (is_load \<and> d = 15 \<and> \<not> table) in
     if pc_load \<and> tr_address t AND 3 \<noteq> 0 then (unsupported, s, m)
     else
       let (fault, v, m) =
         (if is_load
          then let (result, m) = ma_read mem (tr_address t) width m in
            (mr_fault result, loaded_value big width (mr_fault result \<noteq> None)
              (control AND signed_bit \<noteq> 0) (mr_value result), m)
          else let (fault, m) = ma_write mem (tr_address t) width (endian big (tr_value t) width) m in
            (fault, tr_value t, m)) in
       case fault of
         Some f \<Rightarrow> (data_fault f, abort_transfer f s, m)
       | None \<Rightarrow>
           if pc_load \<and> v AND 3 = 2 then (unsupported, s, m)
           else (completed, retire_transfer s t v, m))"

definition complete_transfer ::
  "('m, 'x) memory_access \<Rightarrow> cpu_state \<Rightarrow> 'm \<Rightarrow> transfer_record \<Rightarrow>
   completion \<times> cpu_state \<times> 'm" where
  "complete_transfer mem s m t =
    (if tr_control t AND dual_bit \<noteq> 0 then complete_dual mem s m t
     else complete_single mem s m t)"

section \<open>Multiple transfers\<close>

record multiple_record =
  mt_ticks :: u64
  mt_address :: u32
  mt_base :: u32
  mt_updated_base :: u32
  mt_pc_value :: u32
  mt_control :: u32

definition multiple_load :: u32 where "multiple_load = push_bit 16 1"
definition multiple_writeback :: u32 where "multiple_writeback = push_bit 17 1"

definition multiple_control :: "instruction \<Rightarrow> u32" where
  "multiple_control inst =
    registers inst OR (if load inst then multiple_load else 0) OR
    (if writeback inst then multiple_writeback else 0) OR push_bit 20 (rn inst) OR
    push_bit 24 (inst_size inst)"

definition prepare_multiple :: "cpu_state \<Rightarrow> instruction \<Rightarrow> u32 \<Rightarrow> multiple_record" where
  "prepare_multiple s inst pc_store =
    (let base = reg s (rn inst);
         bytes = 4 * word_of_nat (popcount (registers inst));
         address = (if inst_add inst then base else base - bytes) in
     \<lparr>mt_ticks = 0,
      mt_address = address + (if inst_index inst = inst_add inst then 4 else 0),
      mt_base = base,
      mt_updated_base = (if inst_add inst then base + bytes else base - bytes),
      mt_pc_value = reg s 15 + pc_store, mt_control = multiple_control inst\<rparr>)"

text \<open>The register loop. It stops with a completion, or runs to its end with the branch
  target that a loaded program counter leaves.\<close>

fun multiple_loop ::
  "('m, 'x) memory_access \<Rightarrow> bool \<Rightarrow> multiple_record \<Rightarrow> u32 list \<Rightarrow> u32 \<Rightarrow> u32 \<Rightarrow> cpu_state \<Rightarrow>
   'm \<Rightarrow> completion option \<times> u32 \<times> cpu_state \<times> 'm" where
  "multiple_loop mem big t [] address target s m = (None, target, s, m)"
| "multiple_loop mem big t (r # rest) address target s m =
    (let control = mt_control t; n = drop_bit 20 control AND 15 in
     if control AND 0xffff AND push_bit (unat r) 1 = 0
     then multiple_loop mem big t rest address target s m
     else if control AND multiple_load \<noteq> 0
     then let (result, m) = ma_read mem address 4 m in
       case mr_fault result of
         Some f \<Rightarrow> (Some (data_fault f), target, abort_transfer f (set_reg n (mt_base t) s), m)
       | None \<Rightarrow>
           let v = endian big (mr_value result) 4 in
           if r = 15
           then if v AND 3 = 2 then (Some unsupported, target, set_reg n (mt_base t) s, m)
             else multiple_loop mem big t rest (address + 4) v s m
           else multiple_loop mem big t rest (address + 4) target (set_reg r v s) m
     else let v = (if r = 15 then mt_pc_value t else reg s r);
              (fault, m) = ma_write mem address 4 (endian big v 4) m in
       case fault of
         Some f \<Rightarrow> (Some (data_fault f), target, abort_transfer f (set_reg n (mt_base t) s), m)
       | None \<Rightarrow> multiple_loop mem big t rest (address + 4) target s m)"

definition register_numbers :: "u32 list" where
  "register_numbers = map word_of_nat [0..<16]"

definition complete_multiple ::
  "('m, 'x) memory_access \<Rightarrow> cpu_state \<Rightarrow> 'm \<Rightarrow> multiple_record \<Rightarrow>
   completion \<times> cpu_state \<times> 'm" where
  "complete_multiple mem s m t =
    (let control = mt_control t;
         n = drop_bit 20 control AND 15;
         is_load = (control AND multiple_load \<noteq> 0);
         pc = reg s 15 in
     if mt_address t AND 3 \<noteq> 0
     then let f = alignment_fault (mt_address t) is_load in
       (data_fault f, abort_transfer f (set_reg n (mt_base t) s), m)
     else case multiple_loop mem (big_endian s) t register_numbers (mt_address t) pc s m of
       (Some stop, target, s, m) \<Rightarrow> (stop, s, m)
     | (None, target, s, m) \<Rightarrow>
         let s = (if control AND multiple_writeback \<noteq> 0
               then set_reg n (mt_updated_base t) s else s) in
         if is_load \<and> control AND 0xffff AND 0x8000 \<noteq> 0
         then (completed, set_reg 15 (target AND (if target AND 1 \<noteq> 0 then NOT 1 else NOT 3))
           (s\<lparr>cpsr := (cpsr s AND NOT 0x20) OR push_bit 5 (target AND 1)\<rparr>), m)
         else (completed, set_reg 15 (pc + (drop_bit 24 control AND 7)) s, m))"

section \<open>Exchanges and exclusive accesses\<close>

record exclusive_record =
  et_ticks :: u64
  et_address :: u32
  et_control :: u32
  et_value :: u64

definition exclusive_load :: u32 where "exclusive_load = push_bit 4 1"
definition exclusive_clear :: u32 where "exclusive_clear = push_bit 5 1"
definition exclusive_exchange :: u32 where "exclusive_exchange = push_bit 6 1"

definition exclusive_control :: "instruction \<Rightarrow> u32" where
  "exclusive_control inst =
    access_size inst OR (if load inst then exclusive_load else 0) OR
    (if kind inst = ClearExclusive then exclusive_clear else 0) OR
    (if kind inst = Swap then exclusive_exchange else 0) OR
    push_bit 8 (rd inst) OR push_bit 12 (rs inst) OR push_bit 16 (inst_size inst)"

definition prepare_exclusive :: "cpu_state \<Rightarrow> instruction \<Rightarrow> exclusive_record" where
  "prepare_exclusive s inst =
    (let v = (if \<not> load inst \<and> kind inst \<noteq> ClearExclusive
           then ucast (reg s (rm inst)) OR
             (if access_size inst = 8 then push_bit 32 (ucast (reg s (rs inst))) else 0)
           else 0) in
     \<lparr>et_ticks = 0, et_address = reg s (rn inst) + immediate inst,
      et_control = exclusive_control inst, et_value = v\<rparr>)"

definition complete_exchange ::
  "('m, 'x) memory_access \<Rightarrow> bool \<Rightarrow> cpu_state \<Rightarrow> 'm \<Rightarrow> exclusive_record \<Rightarrow>
   completion \<times> cpu_state \<times> 'm" where
  "complete_exchange mem present s m t =
    (if \<not> present then (unsupported, s, m)
     else
       let width = et_control t AND 15;
           abort = (\<lambda>f m. (data_fault f, abort_transfer f s, m)) in
       if et_address t AND (width - 1) \<noteq> 0
       then abort \<lparr>mf_address = et_address t, mf_status = 1\<rparr> m
       else
         let big = big_endian s;
             (result, m) = ma_exchange mem (et_address t) width (endian big (ucast (et_value t)) width) m in
         case result of
           None \<Rightarrow> (unsupported, s, m)
         | Some r \<Rightarrow>
             case mr_fault r of
               Some f \<Rightarrow> abort f m
             | None \<Rightarrow>
                 let v = endian big (mr_value r) width in
                 (completed, set_reg (drop_bit 8 (et_control t) AND 15)
                   (if width = 1 then v AND 255 else v) s, m))"

definition exclusive_endian :: "bool \<Rightarrow> u32 \<Rightarrow> u64 \<Rightarrow> u64" where
  "exclusive_endian big width v =
    (if \<not> big then v
     else if width = 8
     then ucast (endian_reverse (ucast v) 4) OR
       push_bit 32 (ucast (endian_reverse (ucast (drop_bit 32 v)) 4))
     else ucast (endian_reverse (ucast v) width))"

definition exclusive_access ::
  "('m, 'x) memory_access \<Rightarrow> 'x \<Rightarrow> cpu_state \<Rightarrow> 'm \<Rightarrow> exclusive_record \<Rightarrow>
   memory_fault option \<times> cpu_state \<times> 'x \<times> 'm" where
  "exclusive_access mem monitor s m t =
    (let width = et_control t AND 15;
         d = drop_bit 8 (et_control t) AND 15;
         second = drop_bit 12 (et_control t) AND 15;
         big = big_endian s in
     if et_control t AND exclusive_load \<noteq> 0
     then let (r, monitor, m) = xm_load mem monitor (et_address t) width m in
       case xr_fault r of
         Some f \<Rightarrow> (Some f, s, monitor, m)
       | None \<Rightarrow>
           let v = exclusive_endian big width (xr_value r);
               msk = (if width = 1 then 0xff else if width = 2 then 0xffff else 0xffffffff);
               s = set_reg d (ucast v AND msk) s;
               s = (if width = 8 then set_reg second (ucast (drop_bit 32 v)) s else s) in
           (None, s, monitor, m)
     else let (w, monitor, m) = xm_store mem monitor (et_address t) width
                (exclusive_endian big width (et_value t)) m in
       case xw_fault w of
         Some f \<Rightarrow> (Some f, s, monitor, m)
       | None \<Rightarrow> (None, set_reg d (if xw_stored w then 0 else 1) s, monitor, m))"

definition retire_exclusive_transfer :: "exclusive_record \<Rightarrow> cpu_state \<Rightarrow> cpu_state" where
  "retire_exclusive_transfer t s = set_reg 15 (reg s 15 + (drop_bit 16 (et_control t) AND 7)) s"

definition complete_exclusive ::
  "('m, 'x) memory_access \<Rightarrow> bool \<Rightarrow> cpu_state \<Rightarrow> 'm \<Rightarrow> 'x option \<Rightarrow> exclusive_record \<Rightarrow>
   completion \<times> cpu_state \<times> 'm \<times> 'x option" where
  "complete_exclusive mem present s m monitor t =
    (if et_control t AND exclusive_exchange \<noteq> 0
     then let (c, s, m) = complete_exchange mem present s m t in
       if completion_reason c \<noteq> stop_none then (c, s, m, monitor)
       else (completed, retire_exclusive_transfer t s, m, monitor)
     else if et_control t AND exclusive_clear \<noteq> 0
     then case monitor of
         None \<Rightarrow> (completed, retire_exclusive_transfer t s, m, monitor)
       | Some x \<Rightarrow> let (x, m) = xm_clear mem x m in
           (completed, retire_exclusive_transfer t s, m, Some x)
     else if \<not> present then (unsupported, s, m, monitor)
     else
       let monitor = (case monitor of
             Some x \<Rightarrow> if xm_bound mem x m then monitor else ma_monitor mem m
           | None \<Rightarrow> ma_monitor mem m) in
       case monitor of
         None \<Rightarrow> (unsupported, s, m, None)
       | Some x \<Rightarrow>
           let (fault, s, x, m) = exclusive_access mem x s m t in
           case fault of
             Some f \<Rightarrow> (data_fault f, abort_transfer f s, m, Some x)
           | None \<Rightarrow> (completed, retire_exclusive_transfer t s, m, Some x))"

end
