(* ===== verification/Arm_Floating.thy ===== *)
theory Arm_Floating
  imports Arm_Instruction Word_Facts
begin

text \<open>
  Scalar floating-point semantics (\<^verbatim>\<open>arm/floating_{context,arithmetic,comparison,
  conversion}\<close> and \<^verbatim>\<open>arm/include/arm/floating_*.hpp\<close>). The vendored SoftFloat
  library is a parameter: a record of its functions, each taking the rounding mode that the code
  installs before the call and returning the value with the library's five exception flags.
  Single-precision values travel in the low word of a 64-bit value, as in the code.
\<close>

unbundle bit_operations_syntax

section \<open>The SoftFloat interface\<close>

record softfloat =
  sf_add :: "bool \<Rightarrow> u32 \<Rightarrow> u64 \<Rightarrow> u64 \<Rightarrow> u64 \<times> u32"
  sf_sub :: "bool \<Rightarrow> u32 \<Rightarrow> u64 \<Rightarrow> u64 \<Rightarrow> u64 \<times> u32"
  sf_mul :: "bool \<Rightarrow> u32 \<Rightarrow> u64 \<Rightarrow> u64 \<Rightarrow> u64 \<times> u32"
  sf_div :: "bool \<Rightarrow> u32 \<Rightarrow> u64 \<Rightarrow> u64 \<Rightarrow> u64 \<times> u32"
  sf_sqrt :: "bool \<Rightarrow> u32 \<Rightarrow> u64 \<Rightarrow> u64 \<times> u32"
  sf_is_nan :: "bool \<Rightarrow> u64 \<Rightarrow> bool"
  sf_eq :: "bool \<Rightarrow> u64 \<Rightarrow> u64 \<Rightarrow> bool \<times> u32"
  sf_eq_signaling :: "bool \<Rightarrow> u64 \<Rightarrow> u64 \<Rightarrow> bool \<times> u32"
  sf_lt_quiet :: "bool \<Rightarrow> u64 \<Rightarrow> u64 \<Rightarrow> bool \<times> u32"
  sf_from_i32 :: "bool \<Rightarrow> u32 \<Rightarrow> u32 \<Rightarrow> u64 \<times> u32"
  sf_from_ui32 :: "bool \<Rightarrow> u32 \<Rightarrow> u32 \<Rightarrow> u64 \<times> u32"
  sf_to_i32 :: "bool \<Rightarrow> u32 \<Rightarrow> u64 \<Rightarrow> u32 \<times> u32"
  sf_to_ui32 :: "bool \<Rightarrow> u32 \<Rightarrow> u64 \<Rightarrow> u32 \<times> u32"
  sf_narrow :: "u32 \<Rightarrow> u64 \<Rightarrow> u64 \<times> u32"
  sf_widen :: "u32 \<Rightarrow> u64 \<Rightarrow> u64 \<times> u32"

section \<open>Formats and controls\<close>

definition floating_sign :: "bool \<Rightarrow> u64" where
  "floating_sign wide = (if wide then 0x8000000000000000 else 0x80000000)"

definition floating_exponent :: "bool \<Rightarrow> u64" where
  "floating_exponent wide = (if wide then 0x7ff0000000000000 else 0x7f800000)"

definition floating_fraction :: "bool \<Rightarrow> u64" where
  "floating_fraction wide = (if wide then 0x000fffffffffffff else 0x007fffff)"

definition denormal :: "bool \<Rightarrow> u64 \<Rightarrow> bool" where
  "denormal wide v \<longleftrightarrow> v AND floating_exponent wide = 0 \<and> v AND floating_fraction wide \<noteq> 0"

definition not_a_number :: "bool \<Rightarrow> u64 \<Rightarrow> bool" where
  "not_a_number wide v \<longleftrightarrow> v AND floating_exponent wide = floating_exponent wide \<and>
    v AND floating_fraction wide \<noteq> 0"

definition default_nan :: "bool \<Rightarrow> u64" where
  "default_nan wide = (if wide then 0x7ff8000000000000 else 0x7fc00000)"

definition floating_vector_controls :: u32 where "floating_vector_controls = 0x00370000"
definition floating_exception_enables :: u32 where "floating_exception_enables = 0x00009f00"
definition floating_comparison_controls :: u32 where "floating_comparison_controls = 0x00008100"

definition floating_is_bitwise :: "floating_arithmetic_operation \<Rightarrow> bool" where
  "floating_is_bitwise op \<longleftrightarrow> op = FMove \<or> op = FAbsolute \<or> op = FNegate"

definition floating_arithmetic_controls :: "floating_arithmetic_operation \<Rightarrow> u32" where
  "floating_arithmetic_controls op =
    floating_vector_controls OR (if floating_is_bitwise op then 0 else floating_exception_enables)"

definition fpscr_write_mask :: "floating_exception_profile \<Rightarrow> u32" where
  "fpscr_write_mask profile = (if profile = TrapEnables then 0xfff79f9f else 0xfff7009f)"

text \<open>\<^verbatim>\<open>softfloat_round_{near_even,max,min,minMag}\<close> are 0, 3, 2 and 1.\<close>

definition rounding_mode :: "u32 \<Rightarrow> u32" where
  "rounding_mode rounding = [0, 3, 2, 1] ! unat rounding"

text \<open>SoftFloat's flags (inexact, underflow, overflow, infinite, invalid from bit 0 up) as the
  cumulative flags of the FPSCR.\<close>

definition floating_exceptions :: "u32 \<Rightarrow> u32" where
  "floating_exceptions flags =
    drop_bit 4 (flags AND 16) OR drop_bit 2 (flags AND 8) OR (flags AND 4) OR
    push_bit 2 (flags AND 2) OR push_bit 4 (flags AND 1)"

text \<open>Flush-to-zero of an operand, with the input denormal flag it accumulates.\<close>

definition floating_input :: "bool \<Rightarrow> u32 \<Rightarrow> u64 \<Rightarrow> u32 \<Rightarrow> u64 \<times> u32" where
  "floating_input wide fpscr v exceptions =
    (let v = (if \<not> wide then v AND 0xffffffff else v) in
     if flag_set fpscr 24 \<and> denormal wide v
     then (v AND floating_sign wide, exceptions OR 0x80)
     else (v, exceptions))"

section \<open>Arithmetic\<close>

text \<open>\<^verbatim>\<open>ScalarArithmetic::evaluate\<close> on the value and raw flags of one call.\<close>

definition floating_evaluate :: "bool \<Rightarrow> u32 \<Rightarrow> u64 \<times> u32 \<Rightarrow> u32 \<Rightarrow> u64 \<times> u32" where
  "floating_evaluate wide fpscr r accumulated =
    (let v = fst r; flags = floating_exceptions (snd r);
         tiny = (flags AND 8 \<noteq> 0 \<or> denormal wide v);
         flush = (flag_set fpscr 24 \<and> tiny);
         flags = (if flush then (flags AND NOT 16) OR 8 else flags);
         v = (if flush then v AND floating_sign wide else v);
         v = (if flag_set fpscr 25 \<and> not_a_number wide v then default_nan wide else v) in
     (v, accumulated OR flags))"

record floating_result =
  fr_value :: u64
  fr_exceptions :: u32

definition calculate_floating ::
  "softfloat \<Rightarrow> floating_arithmetic_operands \<Rightarrow> u64 \<Rightarrow> u64 \<Rightarrow> u64 \<Rightarrow> u32 \<Rightarrow> floating_result" where
  "calculate_floating sf v first second accumulator fpscr =
    (let wide = fa_wide v; op = fa_operation v; sign = floating_sign wide in
     if floating_is_bitwise op
     then let first = (if \<not> wide then first AND 0xffffffff else first);
              first = (if op = FAbsolute then first AND NOT sign else first);
              first = (if op = FNegate then first XOR sign else first) in
       \<lparr>fr_value = first, fr_exceptions = 0\<rparr>
     else
       let rounding = rounding_mode (drop_bit 22 fpscr AND 3);
           (a, flags) = floating_input wide fpscr first 0 in
       if op = FSquareRoot
       then let (r, flags) = floating_evaluate wide fpscr (sf_sqrt sf wide rounding a) flags in
         \<lparr>fr_value = r, fr_exceptions = flags\<rparr>
       else
         let (b, flags) = floating_input wide fpscr second flags;
             (r, flags) =
               (if op = FAdd then floating_evaluate wide fpscr (sf_add sf wide rounding a b) flags
                else if op = FSubtract then floating_evaluate wide fpscr (sf_sub sf wide rounding a b) flags
                else if op = FDivide then floating_evaluate wide fpscr (sf_div sf wide rounding a b) flags
                else
                  let (r, flags) = floating_evaluate wide fpscr (sf_mul sf wide rounding a b) flags;
                      r = (if op = FNegatedMultiply \<or> op = FMultiplySubtract \<or>
                             op = FNegatedMultiplyAdd then r XOR sign else r) in
                  if op = FMultiplyAdd \<or> op = FMultiplySubtract \<or> op = FNegatedMultiplyAdd \<or>
                     op = FNegatedMultiplySubtract
                  then
                    let (d, flags) = floating_input wide fpscr accumulator flags;
                        d = (if op = FNegatedMultiplyAdd \<or> op = FNegatedMultiplySubtract
                          then d XOR sign else d);
                        (r, flags) = floating_input wide fpscr r flags in
                    floating_evaluate wide fpscr (sf_add sf wide rounding d r) flags
                  else (r, flags)) in
         \<lparr>fr_value = r, fr_exceptions = flags\<rparr>)"

section \<open>Comparison\<close>

record comparison_result =
  cr_nzcv :: u32
  cr_exceptions :: u32

definition compare_floating ::
  "softfloat \<Rightarrow> floating_comparison_operands \<Rightarrow> u64 \<Rightarrow> u64 \<Rightarrow> u32 \<Rightarrow> comparison_result" where
  "compare_floating sf v first second fpscr =
    (let wide = fcmp_wide v;
         (a, exceptions) = floating_input wide fpscr first 0;
         (b, exceptions) = (if fcmp_with_zero v then (0, exceptions)
            else floating_input wide fpscr second exceptions);
         unordered = (sf_is_nan sf wide a \<or> sf_is_nan sf wide b);
         (equal, flags) = (if fcmp_signal_all_nans v then sf_eq_signaling sf wide a b
            else sf_eq sf wide a b);
         (less, flags) = (if \<not> unordered \<and> \<not> equal
            then let (l, f) = sf_lt_quiet sf wide a b in (l, flags OR f)
            else (False, flags)) in
     \<lparr>cr_nzcv = (if unordered then 0x30000000 else if equal then 0x60000000
        else if less then 0x80000000 else 0x20000000),
      cr_exceptions = exceptions OR floating_exceptions flags\<rparr>)"

section \<open>Conversion\<close>

definition flush_conversion_input :: "floating_conversion_operands \<Rightarrow> u32 \<Rightarrow> u64 \<Rightarrow> u64 \<times> u32" where
  "flush_conversion_input v fpscr input =
    (let input = (if \<not> fc_source_double v then input AND 0xffffffff else input) in
     if flag_set fpscr 24 \<and> denormal (fc_source_double v) input
     then (input AND NOT (floating_exponent (fc_source_double v) OR
             floating_fraction (fc_source_double v)), 0x80)
     else (input, 0))"

definition convert_precision ::
  "softfloat \<Rightarrow> floating_conversion_operands \<Rightarrow> u32 \<Rightarrow> u64 \<Rightarrow> u32 \<Rightarrow> u32 \<Rightarrow> floating_result" where
  "convert_precision sf v rounding input extra fpscr =
    (let magnitude = input AND 0x7fffffffffffffff in
     if fc_source_double v \<and> flag_set fpscr 24 \<and> magnitude \<noteq> 0 \<and> magnitude < 0x3810000000000000
     then \<lparr>fr_value = drop_bit 32 input AND 0x80000000, fr_exceptions = extra OR 8\<rparr>
     else
       let (r, flags) = (if fc_source_double v then sf_narrow sf rounding input else sf_widen sf rounding input);
           r = (if flag_set fpscr 25 \<and> not_a_number (fc_destination_double v) r
             then default_nan (fc_destination_double v) else r) in
       \<lparr>fr_value = r, fr_exceptions = extra OR floating_exceptions flags\<rparr>)"

definition convert_floating ::
  "softfloat \<Rightarrow> floating_conversion_operands \<Rightarrow> u64 \<Rightarrow> u32 \<Rightarrow> floating_result" where
  "convert_floating sf v input fpscr =
    (let rounding = rounding_mode (if fc_round_zero v then 3 else drop_bit 22 fpscr AND 3) in
     case fc_operation v of
       IntegerToFloat \<Rightarrow>
         let (r, flags) = (if fc_signed_integer v
               then sf_from_i32 sf (fc_destination_double v) rounding (ucast input)
               else sf_from_ui32 sf (fc_destination_double v) rounding (ucast input)) in
         \<lparr>fr_value = r, fr_exceptions = floating_exceptions flags\<rparr>
     | FloatToInteger \<Rightarrow>
         let (input, extra) = flush_conversion_input v fpscr input;
             (r, flags) = (if fc_signed_integer v then sf_to_i32 sf (fc_source_double v) rounding input
               else sf_to_ui32 sf (fc_source_double v) rounding input) in
         \<lparr>fr_value = ucast r, fr_exceptions = extra OR floating_exceptions flags\<rparr>
     | Precision \<Rightarrow>
         let (input, extra) = flush_conversion_input v fpscr input in
         convert_precision sf v rounding input extra fpscr)"

section \<open>Immediates\<close>

definition expand_floating_immediate :: "floating_immediate_operands \<Rightarrow> u64" where
  "expand_floating_immediate v =
    (let imm8 = ucast (fi_imm8 v) :: u64; wide = fi_wide v;
         exponent = (if imm8 AND 64 \<noteq> 0 then (if wide then 0x3fc else 0x7c)
             else (if wide then 0x400 else 0x80)) OR (drop_bit 4 imm8 AND 3) in
     push_bit (if wide then 63 else 31) (drop_bit 7 imm8) OR
     push_bit (if wide then 52 else 23) exponent OR
     push_bit (if wide then 48 else 19) (imm8 AND 15))"

end
