(* ===== verification/Decode_Contract.thy ===== *)
theory Decode_Contract
  imports Arm_Instruction Word_Facts
begin

text \<open>
  The contract of the group decoders. Both instruction sets try their groups in order, as
  \<^verbatim>\<open>decode_x(out, ...) || decode_y(out, ...) || ...\<close>; a group that
  declines must leave \<open>out\<close> fit for the next one, and a group that accepts must leave an
  instruction whose operands the executors can use without a range check: register numbers
  below 16, vector registers inside the bank, lanes and elements inside their registers, shift
  amounts the element has, and the alternative of the operand variant that belongs to the
  instruction's kind.
\<close>

unbundle bit_operations_syntax

section \<open>Well-formed operands\<close>

definition in_bank :: "bool \<Rightarrow> u32 list \<Rightarrow> bool" where
  "in_bank quad nums = list_all (\<lambda>r. r < 32 \<and> (quad \<longrightarrow> r AND 1 = 0)) nums"

text \<open>Single-precision words of the bank are numbered 0 to 63; a double takes two.\<close>

definition in_words :: "bool \<Rightarrow> u32 \<Rightarrow> bool" where
  "in_words wide r \<longleftrightarrow> r < 64 \<and> (wide \<longrightarrow> r AND 1 = 0)"

text \<open>Elements are 8 to 32 bits wide where a core register or a lane holds one, and up to 64
  elsewhere; the sizes of a vector transfer are in bytes.\<close>

definition lane_bits :: "u32 \<Rightarrow> bool" where
  "lane_bits n \<longleftrightarrow> n = 8 \<or> n = 16 \<or> n = 32"

definition transfer_lanes_ok :: "vector_transfer_mode \<Rightarrow> u32 \<Rightarrow> u32 \<Rightarrow> u32 \<Rightarrow> bool" where
  "transfer_lanes_ok mode count element lane \<longleftrightarrow> 1 \<le> count \<and> count \<le> 32 \<and>
    (element = 1 \<or> element = 2 \<or> element = 4 \<or> element = 8) \<and>
    (case mode of
      ModeMultiple \<Rightarrow> count \<le> 4 \<and> lane = 0
    | ModeLane \<Rightarrow> count = 1 \<and> element \<noteq> 8 \<and> lane < 8 div element
    | ModeReplicate \<Rightarrow> count \<le> 2 \<and> element \<noteq> 8 \<and> lane = 0
    | ModeScalarMultiple \<Rightarrow> 4 \<le> element \<and> lane = 0)"

definition shift_ok :: "bool \<Rightarrow> u32 \<Rightarrow> u32 \<Rightarrow> bool" where
  "shift_ok right bits amount \<longleftrightarrow> (lane_bits bits \<or> bits = 64) \<and>
    (if right then 1 \<le> amount \<and> amount \<le> bits else amount < bits)"

fun vector_ok :: "vector_operands \<Rightarrow> bool" where
  "vector_ok (OpDuplicate v) \<longleftrightarrow> in_bank (dup_quad v) [dup_destination v] \<and>
     dup_source v < (if dup_core_source v then 16 else 32) \<and>
     (v = no_duplicate \<or> lane_bits (dup_element_bits v) \<and> dup_lane v < 64 div dup_element_bits v)"
| "vector_ok (OpBitwise v) \<longleftrightarrow> in_bank (bw_quad v) [bw_destination v, bw_first v, bw_second v]"
| "vector_ok (OpExtract v) \<longleftrightarrow> in_bank (ext_quad v) [ext_destination v, ext_first v, ext_second v] \<and>
     ext_byte_offset v < (if ext_quad v then 16 else 8)"
| "vector_ok (OpTransfer v) \<longleftrightarrow> vt_first v + vt_count v \<le> 32 \<and> vt_first v < 32 \<and>
     transfer_lanes_ok (vt_mode v) (vt_count v) (vt_element_size v) (vt_lane v) \<and>
     vt_alignment v \<in> {1, 2, 4, 8, 16, 32}"
| "vector_ok (OpCoreMove v) \<longleftrightarrow> cm_first_word v < 64 \<and>
     (cm_pair v \<longrightarrow> cm_first_word v \<noteq> 63 \<and> cm_core2 v < 15) \<and> cm_core v < 15 \<and>
     lane_bits (cm_element_bits v) \<and> cm_bit_offset v \<le> 32 - cm_element_bits v"
| "vector_ok (OpFloatingConversion v) \<longleftrightarrow> in_words (fc_destination_double v) (fc_destination v) \<and>
     in_words (fc_source_double v) (fc_source v)"
| "vector_ok (OpFloatingArithmetic v) \<longleftrightarrow> in_words (fa_wide v) (fa_destination v) \<and>
     in_words (fa_wide v) (fa_first v) \<and> in_words (fa_wide v) (fa_second v)"
| "vector_ok (OpFloatingComparison v) \<longleftrightarrow> in_words (fcmp_wide v) (fcmp_first v) \<and>
     in_words (fcmp_wide v) (fcmp_second v)"
| "vector_ok (OpFloatingImmediate v) \<longleftrightarrow> in_words (fi_wide v) (fi_destination v)"
| "vector_ok (OpFloatingSystem v) \<longleftrightarrow> fs_core v < 16 \<and> (fs_to_core v \<or> fs_core v \<noteq> 15)"
| "vector_ok (OpImmediate v) \<longleftrightarrow> in_bank (imm_quad v) [imm_destination v] \<and>
     imm_cmode v < 16 \<and> \<not> (imm_cmode v = 15 \<and> imm_op v)"
| "vector_ok (OpVectorFloatingArithmetic v) \<longleftrightarrow>
     in_bank (vfa_quad v) [vfa_destination v, vfa_first v] \<and> vfa_second v < 32 \<and>
     (case vfa_scalar_lane v of None \<Rightarrow> in_bank (vfa_quad v) [vfa_second v] | Some lane \<Rightarrow> lane < 2) \<and>
     \<not> (vfa_quad v \<and> vfa_pairwise v)"
| "vector_ok (OpInteger v) \<longleftrightarrow> in_bank (vi_quad v) [vi_destination v, vi_first v, vi_second v] \<and>
     (lane_bits (vi_element_bits v) \<or> vi_element_bits v = 64)"
| "vector_ok (OpReverse v) \<longleftrightarrow> in_bank (rev_quad v) [rev_destination v, rev_source v] \<and>
     lane_bits (rev_element_bits v) \<and>
     (rev_block_bits v = 16 \<or> rev_block_bits v = 32 \<or> rev_block_bits v = 64) \<and>
     rev_element_bits v < rev_block_bits v"
| "vector_ok (OpShiftImmediate v) \<longleftrightarrow> in_bank (shi_quad v) [shi_destination v, shi_source v] \<and>
     shift_ok (shi_right v) (shi_element_bits v) (shi_amount v)"
| "vector_ok (OpVectorFloatingConversion v) \<longleftrightarrow>
     in_bank (vfc_quad v) [vfc_destination v, vfc_source v]"

text \<open>The alternative that the executors' \<^verbatim>\<open>std::get\<close> expects for a kind.
  Instructions of other kinds carry the default alternative, an empty duplicate.\<close>

fun variant_matches :: "instruction_kind \<Rightarrow> vector_operands \<Rightarrow> bool" where
  "variant_matches VectorDuplicate v \<longleftrightarrow>
     (case v of OpDuplicate d \<Rightarrow> d \<noteq> no_duplicate | _ \<Rightarrow> False)"
| "variant_matches VectorBitwise v \<longleftrightarrow> (case v of OpBitwise _ \<Rightarrow> True | _ \<Rightarrow> False)"
| "variant_matches VectorExtract v \<longleftrightarrow> (case v of OpExtract _ \<Rightarrow> True | _ \<Rightarrow> False)"
| "variant_matches VectorTransferKind v \<longleftrightarrow> (case v of OpTransfer _ \<Rightarrow> True | _ \<Rightarrow> False)"
| "variant_matches VectorCoreMove v \<longleftrightarrow> (case v of OpCoreMove _ \<Rightarrow> True | _ \<Rightarrow> False)"
| "variant_matches FloatingConversion v \<longleftrightarrow> (case v of OpFloatingConversion _ \<Rightarrow> True | _ \<Rightarrow> False)"
| "variant_matches FloatingArithmetic v \<longleftrightarrow> (case v of OpFloatingArithmetic _ \<Rightarrow> True | _ \<Rightarrow> False)"
| "variant_matches FloatingComparison v \<longleftrightarrow> (case v of OpFloatingComparison _ \<Rightarrow> True | _ \<Rightarrow> False)"
| "variant_matches FloatingImmediate v \<longleftrightarrow> (case v of OpFloatingImmediate _ \<Rightarrow> True | _ \<Rightarrow> False)"
| "variant_matches FloatingSystem v \<longleftrightarrow> (case v of OpFloatingSystem _ \<Rightarrow> True | _ \<Rightarrow> False)"
| "variant_matches VectorImmediate v \<longleftrightarrow> (case v of OpImmediate _ \<Rightarrow> True | _ \<Rightarrow> False)"
| "variant_matches VectorFloatingArithmetic v \<longleftrightarrow>
     (case v of OpVectorFloatingArithmetic _ \<Rightarrow> True | _ \<Rightarrow> False)"
| "variant_matches VectorIntegerArithmetic v \<longleftrightarrow> (case v of OpInteger _ \<Rightarrow> True | _ \<Rightarrow> False)"
| "variant_matches VectorReverse v \<longleftrightarrow> (case v of OpReverse _ \<Rightarrow> True | _ \<Rightarrow> False)"
| "variant_matches VectorShiftImmediate v \<longleftrightarrow> (case v of OpShiftImmediate _ \<Rightarrow> True | _ \<Rightarrow> False)"
| "variant_matches VectorFloatingConversion v \<longleftrightarrow>
     (case v of OpVectorFloatingConversion _ \<Rightarrow> True | _ \<Rightarrow> False)"
| "variant_matches _ v \<longleftrightarrow> True"

definition registers_ok :: "instruction \<Rightarrow> bool" where
  "registers_ok inst \<longleftrightarrow> rd inst < 16 \<and> rn inst < 16 \<and> rm inst < 16 \<and> rs inst < 16"

text \<open>Memory instructions: the sizes that \<^verbatim>\<open>AccessSize\<close> and the exclusive monitor
  know, fields that fit the packed control words, and no program counter among the registers
  that could not be restored.\<close>

definition memory_operands_ok :: "instruction \<Rightarrow> bool" where
  "memory_operands_ok inst \<longleftrightarrow> inst_size inst < 8 \<and>
    (kind inst = TransferKind \<or> kind inst = TableBranch \<longrightarrow>
      (access_size inst = 1 \<or> access_size inst = 2 \<or> access_size inst = 4) \<and>
      (inst_sign_extend inst \<longrightarrow> access_size inst \<noteq> 4)) \<and>
    (kind inst = DualTransfer \<longrightarrow> access_size inst = 4 \<and> rd inst \<noteq> 15 \<and> rs inst \<noteq> 15) \<and>
    (kind inst = MultipleTransferKind \<longrightarrow> registers inst < 65536 \<and> rn inst \<noteq> 15) \<and>
    (kind inst = ExclusiveTransferKind \<longrightarrow> access_size inst \<in> {1, 2, 4, 8}) \<and>
    (kind inst = Swap \<longrightarrow> access_size inst = 1 \<or> access_size inst = 4)"

definition operands_ok :: "instruction \<Rightarrow> bool" where
  "operands_ok inst \<longleftrightarrow> registers_ok inst \<and> vector_ok (vector inst) \<and>
     variant_matches (kind inst) (vector inst) \<and> memory_operands_ok inst"

definition decoded_ok :: "instruction \<Rightarrow> bool" where
  "decoded_ok inst \<longleftrightarrow> kind inst = Unsupported \<or> operands_ok inst"

definition fresh :: "instruction \<Rightarrow> bool" where
  "fresh inst \<longleftrightarrow> kind inst = Unsupported \<and> opcode inst = 0 \<and> registers_ok inst \<and>
     vector inst = OpDuplicate no_duplicate \<and> inst_size inst < 8 \<and> \<not> inst_sign_extend inst"

lemma fresh_new: "fresh new_instruction"
  by (simp add: fresh_def new_instruction_def registers_ok_def)

lemma no_duplicate_ok [simp]: "vector_ok (OpDuplicate no_duplicate)"
  by (simp add: no_duplicate_def in_bank_def)

lemma no_duplicate_fields [simp]:
  "in_bank (dup_quad no_duplicate) [dup_destination no_duplicate]"
  "dup_source no_duplicate < 16" "dup_source no_duplicate < 32"
  by (simp_all add: no_duplicate_def in_bank_def)

lemmas decode_defs = fresh_def decoded_ok_def operands_ok_def registers_ok_def memory_operands_ok_def

text \<open>What a group decoder may return for a fresh instruction.\<close>

definition outcome_ok :: "bool \<times> instruction \<Rightarrow> bool" where
  "outcome_ok r \<longleftrightarrow> (if fst r then decoded_ok (snd r) else fresh (snd r))"

lemma outcome_ok_simps [simp]:
  "outcome_ok (True, inst) = decoded_ok inst" "outcome_ok (False, inst) = fresh inst"
  by (simp_all add: outcome_ok_def)

lemma fresh_decoded: "fresh out \<Longrightarrow> decoded_ok out"
  by (simp add: decode_defs)

lemma fresh_updates [simp]:
  "fresh (out\<lparr>shift_amount := n\<rparr>) = fresh out" "fresh (out\<lparr>exchange := b\<rparr>) = fresh out"
  "fresh (out\<lparr>inst_shift := k\<rparr>) = fresh out" "fresh (out\<lparr>immediate := n\<rparr>) = fresh out"
  "fresh (out\<lparr>condition := n\<rparr>) = fresh out"
  by (simp_all add: decode_defs)

lemma outcome_ok_if:
  "(b \<Longrightarrow> outcome_ok x) \<Longrightarrow> (\<not> b \<Longrightarrow> outcome_ok y) \<Longrightarrow> outcome_ok (if b then x else y)"
  by simp

lemma decoded_ok_if:
  "(b \<Longrightarrow> decoded_ok x) \<Longrightarrow> (\<not> b \<Longrightarrow> decoded_ok y) \<Longrightarrow> decoded_ok (if b then x else y)"
  by simp

lemma decoded_ok_case:
  assumes "outcome_ok r" and "\<And>out. fresh out \<Longrightarrow> decoded_ok (f out)"
  shows "decoded_ok (case r of (True, out) \<Rightarrow> out | (False, out) \<Rightarrow> f out)"
  using assms by (auto split: prod.split bool.split)

section \<open>Trying decoders in order\<close>

definition decode_or ::
  "(instruction \<Rightarrow> bool \<times> instruction) \<Rightarrow> (instruction \<Rightarrow> bool \<times> instruction) \<Rightarrow> instruction \<Rightarrow>
   bool \<times> instruction" where
  "decode_or first second out =
    (let (accepted, out) = first out in if accepted then (True, out) else second out)"

primrec decode_first ::
  "(instruction \<Rightarrow> bool \<times> instruction) list \<Rightarrow> instruction \<Rightarrow> bool \<times> instruction" where
  "decode_first [] out = (False, out)"
| "decode_first (d # ds) out = decode_or d (decode_first ds) out"

locale group_decoder =
  fixes decode :: "instruction \<Rightarrow> bool \<times> instruction"
  assumes outcome: "fresh out \<Longrightarrow> outcome_ok (decode out)"
begin

lemma never_bad: "fresh out \<Longrightarrow> decoded_ok (snd (decode out))"
  using outcome [of out] by (auto simp: outcome_ok_def fresh_decoded split: if_splits)

end

text \<open>Two decoders in sequence are a decoder.\<close>

locale decoder_sequence = before: group_decoder d1 + after: group_decoder d2
  for d1 :: "instruction \<Rightarrow> bool \<times> instruction" and d2 :: "instruction \<Rightarrow> bool \<times> instruction"

sublocale decoder_sequence \<subseteq> sequence: group_decoder "decode_or d1 d2"
  by unfold_locales
    (use before.outcome after.outcome in \<open>fastforce simp: decode_or_def split_beta Let_def outcome_ok_def
      split: if_splits\<close>)

context decoder_sequence
begin

lemma sequence_group: "group_decoder (decode_or d1 d2)"
  by (rule sequence.group_decoder_axioms)

end

interpretation empty_group: group_decoder "decode_first []"
  by unfold_locales simp_all

lemma group_decoder_first:
  assumes "list_all group_decoder ds"
  shows "group_decoder (decode_first ds)"
  using assms
proof (induction ds)
  case Nil
  show ?case by (rule empty_group.group_decoder_axioms)
next
  case (Cons d ds)
  then have "decoder_sequence d (decode_first ds)" by (simp add: decoder_sequence_def)
  moreover have "decode_first (d # ds) = decode_or d (decode_first ds)" by (rule ext) simp
  ultimately show ?case by (simp only: decoder_sequence.sequence_group)
qed

end
