(* ===== verification/Decode_Vector.thy ===== *)
theory Decode_Vector
  imports Decode_Contract
begin

text \<open>
  The decoders of the Advanced SIMD and floating-point groups: \<^verbatim>\<open>arm/simd_*.cpp\<close>,
  \<^verbatim>\<open>arm/core_vector_move.cpp\<close>, \<^verbatim>\<open>arm/vfp_scalar.cpp\<close>,
  \<^verbatim>\<open>arm/vfp_multiple.cpp\<close> and \<^verbatim>\<open>arm/floating_*decode.cpp\<close>, and
  the expansion of SIMD immediates. Each decoder is an interpretation of
  \<open>group_decoder\<close>.
\<close>

unbundle bit_operations_syntax

section \<open>Advanced SIMD\<close>

text \<open>The register fields of the SIMD encodings: four bits and a high bit elsewhere.\<close>

definition field_d :: "u32 \<Rightarrow> u32" where
  "field_d word = (drop_bit 18 word AND 16) OR (drop_bit 12 word AND 15)"

definition field_n :: "u32 \<Rightarrow> u32" where
  "field_n word = (drop_bit 3 word AND 16) OR (drop_bit 16 word AND 15)"

definition field_m :: "u32 \<Rightarrow> u32" where
  "field_m word = (drop_bit 1 word AND 16) OR (word AND 15)"

text \<open>Thumb moves the ARM U bit from bit 24 to bit 28; \<open>None\<close> is the early
  \<^verbatim>\<open>return false\<close>.\<close>

definition thumb_simd_word :: "u32 \<Rightarrow> bool \<Rightarrow> u32 option" where
  "thumb_simd_word word thumb =
    (if thumb
     then if word AND 0xef000000 \<noteq> 0xef000000 then None
       else Some (0xf2000000 OR (drop_bit 4 word AND 0x01000000) OR (word AND 0x00ffffff))
     else Some word)"

definition unconditional :: "bool \<Rightarrow> instruction \<Rightarrow> instruction" where
  "unconditional thumb out = (if \<not> thumb then out\<lparr>condition := 14\<rparr> else out)"

definition decode_simd_bitwise :: "instruction \<Rightarrow> u32 \<Rightarrow> bool \<Rightarrow> bool \<times> instruction" where
  "decode_simd_bitwise out word thumb =
    (let finish = (\<lambda>v.
       let v = v\<lparr>bw_destination := field_d word, bw_second := field_m word,
             bw_quad := (word AND 64 \<noteq> 0)\<rparr> in
       if bw_quad v \<and> (bw_destination v OR bw_first v OR bw_second v) AND 1 \<noteq> 0 then (True, out)
       else (True, (unconditional thumb out)\<lparr>vector := OpBitwise v, kind := VectorBitwise\<rparr>)) in
     if word AND (if thumb then 0xef800f10 else 0xfe800f10) =
        (if thumb then 0xef000110 else 0xf2000110)
     then let op = (drop_bit (if thumb then 26 else 22) word AND 4) OR (drop_bit 20 word AND 3) in
       finish (no_bitwise\<lparr>bw_operation := [VAnd, VBitClear, VOr, VOrNot, VXor, VSelect,
         VInsertIfTrue, VInsertIfFalse] ! unat op, bw_first := field_n word\<rparr>)
     else if word AND 0xffb30f90 = (if thumb then 0xffb00580 else 0xf3b00580)
     then if word AND 0x000c0000 \<noteq> 0 then (True, out)
       else finish (no_bitwise\<lparr>bw_operation := VNot\<rparr>)
     else (False, out))"

definition decode_simd_duplicate :: "instruction \<Rightarrow> u32 \<Rightarrow> bool \<Rightarrow> bool \<times> instruction" where
  "decode_simd_duplicate out word thumb =
    (if word AND (if thumb then 0xff900f5f else 0x0f900f5f) =
        (if thumb then 0xee800b10 else 0x0e800b10) \<and> (thumb \<or> condition out \<noteq> 15)
     then let v = no_duplicate\<lparr>dup_core_source := True, dup_quad := flag_set word 21,
                dup_destination := (drop_bit 3 word AND 16) OR (drop_bit 16 word AND 15),
                dup_source := drop_bit 12 word AND 15\<rparr>;
              size = (drop_bit 21 word AND 2) OR (drop_bit 5 word AND 1) in
       if size = 3 \<or> dup_source v = 15 \<or> (thumb \<and> dup_source v = 13) \<or>
          (dup_quad v \<and> dup_destination v AND 1 \<noteq> 0) then (True, out)
       else (True, out\<lparr>kind := VectorDuplicate, vector := OpDuplicate
         (v\<lparr>dup_element_bits := (if size = 0 then 32 else if size = 1 then 16 else 8)\<rparr>)\<rparr>)
     else if word AND 0xffb00f90 = (if thumb then 0xffb00c00 else 0xf3b00c00)
     then let v = no_duplicate\<lparr>dup_quad := (word AND 64 \<noteq> 0), dup_destination := field_d word,
                dup_source := field_m word\<rparr>;
              imm = drop_bit 16 word AND 15 in
       if imm AND 7 = 0 \<or> (dup_quad v \<and> dup_destination v AND 1 \<noteq> 0) then (True, out)
       else let size = countr_zero imm in
         (True, (unconditional thumb out)\<lparr>kind := VectorDuplicate, vector := OpDuplicate
           (v\<lparr>dup_element_bits := push_bit size 8, dup_lane := drop_bit (size + 1) imm\<rparr>)\<rparr>)
     else (False, out))"

definition decode_simd_extract :: "instruction \<Rightarrow> u32 \<Rightarrow> bool \<Rightarrow> bool \<times> instruction" where
  "decode_simd_extract out word thumb =
    (if word AND 0xffb00010 \<noteq> (if thumb then 0xefb00000 else 0xf2b00000) then (False, out)
     else let v = \<lparr>ext_destination = field_d word, ext_first = field_n word,
            ext_second = field_m word, ext_byte_offset = drop_bit 8 word AND 15,
            ext_quad = (word AND 64 \<noteq> 0)\<rparr> in
       if (if ext_quad v then (ext_destination v OR ext_first v OR ext_second v) AND 1 \<noteq> 0
           else 8 \<le> ext_byte_offset v) then (True, out)
       else (True, (unconditional thumb out)\<lparr>vector := OpExtract v, kind := VectorExtract\<rparr>))"

text \<open>The operand checks that the profiled SIMD groups share.\<close>

definition simd_rejects ::
  "vfp_register_profile \<Rightarrow> arm_instruction_profile \<Rightarrow> advanced_simd_profile \<Rightarrow> bool \<Rightarrow> u32 \<Rightarrow> bool" where
  "simd_rejects bank architecture profile quad nums \<longleftrightarrow>
    profile \<noteq> Neon \<or> \<not> has_armv6t2_extensions architecture \<or>
    (quad \<and> nums AND 1 \<noteq> 0) \<or> (bank = D16 \<and> 16 \<le> nums)"

definition decode_simd_reverse ::
  "instruction \<Rightarrow> u32 \<Rightarrow> bool \<Rightarrow> vfp_register_profile \<Rightarrow> arm_instruction_profile \<Rightarrow>
   advanced_simd_profile \<Rightarrow> bool \<times> instruction" where
  "decode_simd_reverse out word thumb bank architecture profile =
    (case thumb_simd_word word thumb of
      None \<Rightarrow> (False, out)
    | Some word \<Rightarrow>
        if word AND 0xffb30e10 \<noteq> 0xf3b00000 then (False, out)
        else let out = unconditional thumb out;
                 size = drop_bit 18 word AND 3; operation = drop_bit 7 word AND 3;
                 v = no_reverse\<lparr>rev_destination := field_d word, rev_source := field_m word,
                   rev_quad := (word AND 64 \<noteq> 0)\<rparr> in
          if 3 \<le> size + operation \<or> simd_rejects bank architecture profile (rev_quad v)
               (rev_destination v OR rev_source v) then (True, out)
          else (True, out\<lparr>vector := OpReverse (v\<lparr>rev_element_bits := push_bit (unat size) 8,
              rev_block_bits := drop_bit (unat operation) 64\<rparr>), kind := VectorReverse\<rparr>))"

definition decode_simd_conversion ::
  "instruction \<Rightarrow> u32 \<Rightarrow> bool \<Rightarrow> vfp_register_profile \<Rightarrow> arm_instruction_profile \<Rightarrow>
   advanced_simd_profile \<Rightarrow> bool \<times> instruction" where
  "decode_simd_conversion out word thumb bank architecture profile =
    (case thumb_simd_word word thumb of
      None \<Rightarrow> (False, out)
    | Some word \<Rightarrow>
        if word AND 0xffb30e10 \<noteq> 0xf3b30600 then (False, out)
        else let out = unconditional thumb out;
                 v = no_vector_conversion\<lparr>vfc_destination := field_d word,
                   vfc_source := field_m word, vfc_quad := (word AND 64 \<noteq> 0)\<rparr> in
          if drop_bit 18 word AND 3 \<noteq> 2 \<or> simd_rejects bank architecture profile (vfc_quad v)
               (vfc_destination v OR vfc_source v) then (True, out)
          else (True, out\<lparr>vector := OpVectorFloatingConversion
              (v\<lparr>vfc_to_integer := (word AND 256 \<noteq> 0), vfc_unsigned_value := (word AND 128 \<noteq> 0)\<rparr>),
              kind := VectorFloatingConversion\<rparr>))"

definition decode_simd_shift_immediate ::
  "instruction \<Rightarrow> u32 \<Rightarrow> bool \<Rightarrow> vfp_register_profile \<Rightarrow> arm_instruction_profile \<Rightarrow>
   advanced_simd_profile \<Rightarrow> bool \<times> instruction" where
  "decode_simd_shift_immediate out word thumb bank architecture profile =
    (case thumb_simd_word word thumb of
      None \<Rightarrow> (False, out)
    | Some word \<Rightarrow>
        if word AND 0xfe800010 \<noteq> 0xf2800010 then (False, out)
        else
          let operation = drop_bit 8 word AND 15; imm = drop_bit 16 word AND 63;
              wide = (word AND 128 \<noteq> 0); u = (word AND 0x01000000 \<noteq> 0) in
          if 5 < operation \<or> (operation = 4 \<and> \<not> u) \<or> (\<not> wide \<and> imm < 8) then (False, out)
          else let out = unconditional thumb out;
                   v = no_shift_immediate\<lparr>shi_destination := field_d word,
                     shi_source := field_m word, shi_quad := (word AND 64 \<noteq> 0)\<rparr> in
            if simd_rejects bank architecture profile (shi_quad v)
                 (shi_destination v OR shi_source v) then (True, out)
            else let bits = (if wide then 64 else push_bit (bit_width imm - 1) 1);
                     right = (operation \<noteq> 5) in
              (True, out\<lparr>vector := OpShiftImmediate (v\<lparr>shi_element_bits := bits, shi_right := right,
                  shi_unsigned_value := u,
                  shi_insert := (operation = 4 \<or> (operation = 5 \<and> u)),
                  shi_rounding := (operation = 2 \<or> operation = 3),
                  shi_accumulate := (operation = 1 \<or> operation = 3),
                  shi_amount := (if wide then if right then 64 - imm else imm
                    else if right then 2 * bits - imm else imm - bits)\<rparr>),
                kind := VectorShiftImmediate\<rparr>))"

definition finish_simd_transfer ::
  "instruction \<Rightarrow> u32 \<Rightarrow> bool \<Rightarrow> vector_transfer_operands \<Rightarrow> bool \<times> instruction" where
  "finish_simd_transfer out word thumb v =
    (let v = v\<lparr>vt_first := field_d word\<rparr>;
         out = out\<lparr>rn := drop_bit 16 word AND 15, rm := word AND 15\<rparr> in
     if rn out = 15 \<or> 32 < vt_first v + vt_count v then (True, out)
     else let out = out\<lparr>load := flag_set word 21, writeback := (rm out \<noteq> 15),
            vector := OpTransfer v\<rparr> in
       (True, (unconditional thumb out)\<lparr>kind := VectorTransferKind\<rparr>))"

definition decode_simd_transfer :: "instruction \<Rightarrow> u32 \<Rightarrow> bool \<Rightarrow> bool \<times> instruction" where
  "decode_simd_transfer out word thumb =
    (if word AND 0xff100000 \<noteq> (if thumb then 0xf9000000 else 0xf4000000) then (False, out)
     else if \<not> flag_set word 23
     then let align = drop_bit 4 word AND 3; family = drop_bit 8 word AND 15;
              count = (if family = 7 then Some 1 else if family = 10 then Some 2
                else if family = 6 then Some 3 else if family = 2 then Some 4 else None) in
       (case count of
         None \<Rightarrow> (False, out)
       | Some count \<Rightarrow>
           if ((count = 1 \<or> count = 3) \<and> 2 \<le> align) \<or> (count = 2 \<and> align = 3) then (True, out)
           else finish_simd_transfer out word thumb
             (no_vector_transfer\<lparr>vt_count := count,
                vt_element_size := push_bit (unat (drop_bit 6 word AND 3)) 1,
                vt_alignment := (if align = 0 then 1 else push_bit (unat align) 4)\<rparr>))
     else if word AND 0x300 \<noteq> 0 then (False, out)
     else
       let size = drop_bit 10 word AND 3; index = drop_bit 4 word AND 15 in
       if size = 3
       then if \<not> flag_set word 21 then (True, out)
         else let element = drop_bit 6 word AND 3; bytes = push_bit (unat element) 1 in
           if element = 3 \<or> (element = 0 \<and> index AND 1 \<noteq> 0) then (True, out)
           else finish_simd_transfer out word thumb
             (no_vector_transfer\<lparr>vt_count := (if index AND 2 \<noteq> 0 then 2 else 1),
                vt_mode := ModeReplicate, vt_element_size := bytes,
                vt_alignment := (if index AND 1 \<noteq> 0 then bytes else 1)\<rparr>)
       else let bytes = push_bit (unat size) 1 in
         if (size = 0 \<and> index AND 1 \<noteq> 0) \<or> (size = 1 \<and> index AND 2 \<noteq> 0) \<or>
            (size = 2 \<and> (index AND 4 \<noteq> 0 \<or> (index AND 3 \<noteq> 0 \<and> index AND 3 \<noteq> 3)))
         then (True, out)
         else finish_simd_transfer out word thumb
           (no_vector_transfer\<lparr>vt_count := 1, vt_mode := ModeLane, vt_element_size := bytes,
              vt_lane := drop_bit (unat size + 1) index,
              vt_alignment := (if index AND 1 \<noteq> 0 then bytes else 1)\<rparr>))"

definition decode_simd_immediate ::
  "instruction \<Rightarrow> u32 \<Rightarrow> bool \<Rightarrow> vfp_register_profile \<Rightarrow> arm_instruction_profile \<Rightarrow>
   bool \<times> instruction" where
  "decode_simd_immediate out word thumb bank architecture =
    (if word AND (if thumb then 0xefb80090 else 0xfeb80090) \<noteq>
        (if thumb then 0xef800010 else 0xf2800010) then (False, out)
     else let v = \<lparr>imm_destination = field_d word,
            imm_imm8 = ucast ((drop_bit (if thumb then 21 else 17) word AND 128) OR
              (drop_bit 12 word AND 112) OR (word AND 15)),
            imm_cmode = ucast (drop_bit 8 word AND 15), imm_op = (word AND 32 \<noteq> 0),
            imm_quad = (word AND 64 \<noteq> 0)\<rparr>;
          out = unconditional thumb out;
          zero_unpredictable = (imm_imm8 v = 0 \<and>
            ((2 \<le> imm_cmode v \<and> imm_cmode v \<le> 7) \<or> (10 \<le> imm_cmode v \<and> imm_cmode v \<le> 13))) in
       if \<not> has_armv6t2_extensions architecture \<or> (bank = D16 \<and> 16 \<le> imm_destination v) \<or>
          (imm_quad v \<and> imm_destination v AND 1 \<noteq> 0) \<or> (imm_cmode v = 15 \<and> imm_op v) \<or>
          zero_unpredictable then (True, out)
       else (True, out\<lparr>vector := OpImmediate v, kind := VectorImmediate\<rparr>))"

definition expand_simd_immediate :: "vector_immediate_operands \<Rightarrow> u64" where
  "expand_simd_immediate v =
    (let imm = (ucast (imm_imm8 v) :: u32); cmode = imm_cmode v;
         twice = (\<lambda>value :: u32. ucast value OR push_bit 32 (ucast value) :: u64) in
     if cmode < 8 then twice (push_bit (unat (drop_bit 1 cmode) * 8) imm)
     else if cmode < 12
     then let value = push_bit (unat (drop_bit 1 cmode AND 1) * 8) imm in
       twice (value OR push_bit 16 value)
     else if cmode < 14
     then let sh = (if cmode = 12 then 8 else 16) in
       twice (push_bit sh imm OR (push_bit sh 1 - 1))
     else if cmode = 14
     then if imm_op v
       then foldl (\<lambda>m byte. if imm AND push_bit byte 1 \<noteq> 0 then m OR push_bit (byte * 8) 255 else m)
         0 [0..<8]
       else twice (imm * 0x01010101)
     else twice (push_bit 24 (imm AND 128) OR (if imm AND 64 \<noteq> 0 then 0x3e000000 else 0x40000000) OR
       push_bit 19 (imm AND 63)))"

definition decode_simd_integer ::
  "instruction \<Rightarrow> u32 \<Rightarrow> bool \<Rightarrow> vfp_register_profile \<Rightarrow> arm_instruction_profile \<Rightarrow>
   advanced_simd_profile \<Rightarrow> bool \<times> instruction" where
  "decode_simd_integer out word thumb bank architecture profile =
    (case thumb_simd_word word thumb of
      None \<Rightarrow> (False, out)
    | Some word \<Rightarrow>
        let family = word AND 0xff800f10 in
        case (if family = 0xf2000800 then Some VAdd
          else if family = 0xf3000800 then Some VSubtract
          else if family = 0xf2000910 then Some VMultiply
          else if family = 0xf2000900 then Some VMultiplyAdd
          else if family = 0xf3000900 then Some VMultiplySubtract else None) of
          None \<Rightarrow> (False, out)
        | Some operation \<Rightarrow>
            let out = unconditional thumb out;
                bits = push_bit (unat (drop_bit 20 word AND 3)) 8 in
            if (bits = 64 \<and> operation \<noteq> VAdd \<and> operation \<noteq> VSubtract) \<or> profile \<noteq> Neon \<or>
               \<not> has_armv6t2_extensions architecture then (True, out)
            else let v = \<lparr>vi_destination = field_d word, vi_first = field_n word,
                   vi_second = field_m word, vi_element_bits = bits, vi_operation = operation,
                   vi_quad = (word AND 64 \<noteq> 0)\<rparr>;
                   nums = vi_destination v OR vi_first v OR vi_second v in
              if (vi_quad v \<and> nums AND 1 \<noteq> 0) \<or> (bank = D16 \<and> 16 \<le> nums) then (True, out)
              else (True, out\<lparr>vector := OpInteger v, kind := VectorIntegerArithmetic\<rparr>))"

text \<open>The operation of a NEON floating-point encoding: whether it is unary, takes a scalar
  lane, or works on pairs.\<close>

definition simd_floating_operation ::
  "u32 \<Rightarrow> (floating_arithmetic_operation \<times> bool \<times> bool \<times> bool) option" where
  "simd_floating_operation word =
    (if word AND 0xffbf0f10 = 0xf3b90700
     then Some (if word AND 128 \<noteq> 0 then FNegate else FAbsolute, True, False, False)
     else let family = word AND 0xffa00f10 in
       if family = 0xf2000d00 then Some (FAdd, False, False, False)
       else if family = 0xf2200d00 then Some (FSubtract, False, False, False)
       else if family = 0xf3000d10 then Some (FMultiply, False, False, False)
       else if family = 0xf2000d10 then Some (FMultiplyAdd, False, False, False)
       else if family = 0xf2200d10 then Some (FMultiplySubtract, False, False, False)
       else if family = 0xf3000d00 then Some (FAdd, False, False, True)
       else let family = word AND 0xfeb00f50 in
         if family = 0xf2a00140 then Some (FMultiplyAdd, False, True, False)
         else if family = 0xf2a00540 then Some (FMultiplySubtract, False, True, False)
         else if family = 0xf2a00940 then Some (FMultiply, False, True, False)
         else None)"

definition decode_simd_floating ::
  "instruction \<Rightarrow> u32 \<Rightarrow> bool \<Rightarrow> vfp_register_profile \<Rightarrow> arm_instruction_profile \<Rightarrow>
   advanced_simd_profile \<Rightarrow> bool \<times> instruction" where
  "decode_simd_floating out word thumb bank architecture profile =
    (case thumb_simd_word word thumb of
      None \<Rightarrow> (False, out)
    | Some word \<Rightarrow>
        case simd_floating_operation word of
          None \<Rightarrow> (False, out)
        | Some (operation, unary, scalar, pairs) \<Rightarrow>
            let out = unconditional thumb out;
                single_precision = (unary \<or> (if scalar then drop_bit 20 word AND 3 = 2
                  else word AND 0x00100000 = 0)) in
            if \<not> single_precision \<or> profile \<noteq> Neon \<or> \<not> has_armv6t2_extensions architecture
            then (True, out)
            else let second = (if scalar then word AND 15 else field_m word);
                     v = \<lparr>vfa_destination = field_d word,
                       vfa_first = (if unary then second else field_n word),
                       vfa_second = second, vfa_operation = operation,
                       vfa_quad = (if scalar then word AND 0x01000000 \<noteq> 0 else word AND 64 \<noteq> 0),
                       vfa_pairwise = pairs,
                       vfa_scalar_lane = (if scalar then Some (ucast (drop_bit 5 word AND 1)) else None)\<rparr>;
                     nums = vfa_destination v OR vfa_first v OR vfa_second v;
                     vectors = vfa_destination v OR vfa_first v OR
                       (if scalar then 0 else vfa_second v) in
              if (vfa_quad v \<and> (vectors AND 1 \<noteq> 0 \<or> vfa_pairwise v)) \<or> (bank = D16 \<and> 16 \<le> nums)
              then (True, out)
              else (True, out\<lparr>vector := OpVectorFloatingArithmetic v,
                kind := VectorFloatingArithmetic\<rparr>))"

section \<open>Transfers between the banks and memory\<close>

definition not_conditional_space :: "instruction \<Rightarrow> u32 \<Rightarrow> bool \<Rightarrow> bool" where
  "not_conditional_space out word thumb =
    (if thumb then drop_bit 28 word \<noteq> 14 else condition out = 15)"

definition finish_core_move ::
  "instruction \<Rightarrow> bool \<Rightarrow> arm_instruction_profile \<Rightarrow> vector_core_move_operands \<Rightarrow> bool \<times> instruction" where
  "finish_core_move out thumb architecture v =
    (if (thumb \<and> \<not> has_armv6t2_extensions architecture) \<or> cm_core v = 15 \<or>
        (thumb \<and> cm_core v = 13) \<or>
        (cm_pair v \<and> (cm_core2 v = 15 \<or> (thumb \<and> cm_core2 v = 13)))
     then (True, out)
     else (True, out\<lparr>kind := VectorCoreMove, vector := OpCoreMove v\<rparr>))"

definition decode_core_vector_move ::
  "instruction \<Rightarrow> u32 \<Rightarrow> bool \<Rightarrow> vfp_register_profile \<Rightarrow> arm_instruction_profile \<Rightarrow>
   bool \<times> instruction" where
  "decode_core_vector_move out word thumb vfp architecture =
    (if not_conditional_space out word thumb then (False, out)
     else
       let v = no_core_move\<lparr>cm_core := drop_bit 12 word AND 15, cm_to_core := flag_set word 20\<rparr>;
           finish = finish_core_move out thumb architecture in
       if word AND 0x0fe00f7f = 0x0e000a10
       then finish (v\<lparr>cm_first_word := (drop_bit 16 word AND 15) * 2 + (drop_bit 7 word AND 1)\<rparr>)
       else if word AND 0x0fe00ed0 = 0x0c400a10
       then let single = (word AND 256 = 0);
                high = drop_bit 5 word AND 1; low = word AND 15;
                v = v\<lparr>cm_pair := True, cm_core2 := drop_bit 16 word AND 15,
                  cm_first_word := (if single then low * 2 + high else (high * 16 + low) * 2)\<rparr> in
         if (single \<and> cm_first_word v = 31) \<or> (\<not> single \<and> vfp = D16 \<and> 32 \<le> cm_first_word v) \<or>
            (cm_to_core v \<and> cm_core v = cm_core2 v) then (True, out)
         else finish v
       else if word AND 0x0f000f1f = 0x0e000b10
       then let unsigned_value = flag_set word 23;
                op1 = drop_bit 21 word AND 3; op2 = drop_bit 5 word AND 3 in
         if \<not> cm_to_core v \<and> unsigned_value then (False, out)
         else case (if op1 AND 2 \<noteq> 0 then Some (8, push_bit 2 (op1 AND 1) OR op2)
             else if op2 AND 1 \<noteq> 0 then Some (16, push_bit 1 (op1 AND 1) OR drop_bit 1 op2)
             else if op2 = 0 \<and> \<not> unsigned_value then Some (32, op1 AND 1) else None) of
           None \<Rightarrow> (True, out)
         | Some (bits, lane) \<Rightarrow>
             let d = (drop_bit 3 word AND 16) OR (drop_bit 16 word AND 15) in
             if vfp = D16 \<and> 16 \<le> d then (True, out)
             else let b = lane * bits in
               finish (v\<lparr>cm_element_bits := bits, cm_first_word := d * 2 + b div 32,
                 cm_bit_offset := b mod 32,
                 cm_sign_extend := cm_to_core v \<and> \<not> unsigned_value \<and> bits < 32\<rparr>)
       else (False, out))"

definition decode_vfp_scalar ::
  "instruction \<Rightarrow> u32 \<Rightarrow> bool \<Rightarrow> vfp_register_profile \<Rightarrow> arm_instruction_profile \<Rightarrow>
   bool \<times> instruction" where
  "decode_vfp_scalar out word thumb bank architecture =
    (if word AND 0x0f200e00 \<noteq> 0x0d000a00 \<or> not_conditional_space out word thumb then (False, out)
     else
       let single = \<not> flag_set word 8; high = drop_bit 22 word AND 1;
           vd = drop_bit 12 word AND 15;
           first = (if single then vd * 2 + high else high * 16 + vd);
           n = drop_bit 16 word AND 15; is_load = flag_set word 20 in
       if (thumb \<and> (\<not> has_armv6t2_extensions architecture \<or> (n = 15 \<and> \<not> is_load))) \<or>
          (\<not> single \<and> bank = D16 \<and> 16 \<le> first) then (True, out)
       else (True, out\<lparr>kind := VectorTransferKind, rn := n, load := is_load,
         inst_add := flag_set word 23, inst_index := True, align_pc := is_load \<and> n = 15,
         immediate := (word AND 255) * 4,
         vector := OpTransfer \<lparr>vt_first = first, vt_count = 1,
           vt_element_size = (if single then 4 else 8), vt_alignment = 4,
           vt_mode = ModeScalarMultiple, vt_lane = 0\<rparr>\<rparr>))"

definition decode_vfp_multiple ::
  "instruction \<Rightarrow> u32 \<Rightarrow> bool \<Rightarrow> vfp_register_profile \<Rightarrow> bool \<times> instruction" where
  "decode_vfp_multiple out word thumb profile =
    (if word AND 0x0e000e00 \<noteq> 0x0c000a00 \<or> not_conditional_space out word thumb then (False, out)
     else
       let pre = flag_set word 24; up = flag_set word 23; wb = flag_set word 21 in
       if (\<not> pre \<and> \<not> up \<and> \<not> wb) \<or> (pre \<and> \<not> wb) then (False, out)
       else if pre = up \<and> wb then (True, out)
       else
         let n = drop_bit 16 word AND 15; single = \<not> flag_set word 8;
             high = drop_bit 22 word AND 1; vd = drop_bit 12 word AND 15;
             first = (if single then vd * 2 + high else high * 16 + vd);
             imm = word AND 255; count = (if single then imm else imm div 2) in
         if (n = 15 \<and> (thumb \<or> wb)) \<or> count = 0 \<or> 32 < first + count \<or>
            (\<not> single \<and> (16 < count \<or>
               ((profile = D16 \<or> imm AND 1 \<noteq> 0) \<and> 16 < first + count))) then (True, out)
         else (True, out\<lparr>kind := VectorTransferKind, rn := n, load := flag_set word 20,
           inst_add := up, inst_index := pre, writeback := wb, immediate := imm * 4,
           vector := OpTransfer \<lparr>vt_first = first, vt_count = count,
             vt_element_size = (if single then 4 else 8), vt_alignment = 4,
             vt_mode = ModeScalarMultiple, vt_lane = 0\<rparr>\<rparr>))"

section \<open>Scalar floating point\<close>

text \<open>A scalar register's first word: \<^verbatim>\<open>wide ? (low + high * 16) * 2 : low * 2 + high\<close>.\<close>

definition scalar_word :: "bool \<Rightarrow> u32 \<Rightarrow> u32 \<Rightarrow> u32" where
  "scalar_word wide low high = (if wide then (low + high * 16) * 2 else low * 2 + high)"

definition decode_floating_conversion ::
  "instruction \<Rightarrow> u32 \<Rightarrow> bool \<Rightarrow> vfp_register_profile \<Rightarrow> arm_instruction_profile \<Rightarrow>
   bool \<times> instruction" where
  "decode_floating_conversion out word thumb bank architecture =
    (if not_conditional_space out word thumb then (False, out)
     else
       let size = (word AND 256 \<noteq> 0);
           finish = (\<lambda>v.
             let v = v\<lparr>fc_destination := scalar_word (fc_destination_double v)
                   (drop_bit 12 word AND 15) (drop_bit 22 word AND 1),
                 fc_source := scalar_word (fc_source_double v) (word AND 15)
                   (drop_bit 5 word AND 1)\<rparr> in
             if (thumb \<and> \<not> has_armv6t2_extensions architecture) \<or>
                (bank = D16 \<and> ((fc_source_double v \<and> 32 \<le> fc_source v) \<or>
                   (fc_destination_double v \<and> 32 \<le> fc_destination v))) then (True, out)
             else (True, out\<lparr>kind := FloatingConversion, vector := OpFloatingConversion v\<rparr>)) in
       if word AND 0x0fbf0e50 = 0x0eb80a40
       then finish (no_conversion\<lparr>fc_operation := IntegerToFloat, fc_destination_double := size,
         fc_signed_integer := (word AND 128 \<noteq> 0)\<rparr>)
       else if word AND 0x0fbe0e50 = 0x0ebc0a40
       then finish (no_conversion\<lparr>fc_operation := FloatToInteger, fc_source_double := size,
         fc_signed_integer := (word AND 0x10000 \<noteq> 0), fc_round_zero := (word AND 128 \<noteq> 0)\<rparr>)
       else if word AND 0x0fbf0ed0 = 0x0eb70ac0
       then finish (no_conversion\<lparr>fc_source_double := size, fc_destination_double := \<not> size\<rparr>)
       else (False, out))"

definition floating_operation_of :: "u32 \<Rightarrow> (floating_arithmetic_operation \<times> bool) option" where
  "floating_operation_of word =
    (let family = word AND 0x0fb00e50 in
     if family = 0x0e300a00 then Some (FAdd, False)
     else if family = 0x0e300a40 then Some (FSubtract, False)
     else if family = 0x0e200a00 then Some (FMultiply, False)
     else if family = 0x0e800a00 then Some (FDivide, False)
     else if family = 0x0e200a40 then Some (FNegatedMultiply, False)
     else if family = 0x0e000a00 then Some (FMultiplyAdd, False)
     else if family = 0x0e000a40 then Some (FMultiplySubtract, False)
     else if family = 0x0e100a40 then Some (FNegatedMultiplyAdd, False)
     else if family = 0x0e100a00 then Some (FNegatedMultiplySubtract, False)
     else let family = word AND 0x0fbf0ed0 in
       if family = 0x0eb10ac0 then Some (FSquareRoot, True)
       else if family = 0x0eb00a40 then Some (FMove, True)
       else if family = 0x0eb00ac0 then Some (FAbsolute, True)
       else if family = 0x0eb10a40 then Some (FNegate, True)
       else None)"

definition decode_floating_arithmetic ::
  "instruction \<Rightarrow> u32 \<Rightarrow> bool \<Rightarrow> vfp_register_profile \<Rightarrow> arm_instruction_profile \<Rightarrow>
   bool \<times> instruction" where
  "decode_floating_arithmetic out word thumb bank architecture =
    (if not_conditional_space out word thumb then (False, out)
     else case floating_operation_of word of
       None \<Rightarrow> (False, out)
     | Some (operation, unary) \<Rightarrow>
         let wide = (word AND 256 \<noteq> 0);
             second = scalar_word wide (word AND 15) (drop_bit 5 word AND 1);
             v = \<lparr>fa_destination = scalar_word wide (drop_bit 12 word AND 15) (drop_bit 22 word AND 1),
               fa_first = (if unary then second
                 else scalar_word wide (drop_bit 16 word AND 15) (drop_bit 7 word AND 1)),
               fa_second = second, fa_operation = operation, fa_wide = wide\<rparr> in
         if (thumb \<and> \<not> has_armv6t2_extensions architecture) \<or>
            (bank = D16 \<and> fa_wide v \<and>
              (32 \<le> fa_destination v \<or> 32 \<le> fa_first v \<or> 32 \<le> fa_second v)) then (True, out)
         else (True, out\<lparr>kind := FloatingArithmetic, vector := OpFloatingArithmetic v\<rparr>))"

definition decode_floating_comparison ::
  "instruction \<Rightarrow> u32 \<Rightarrow> bool \<Rightarrow> vfp_register_profile \<Rightarrow> arm_instruction_profile \<Rightarrow>
   bool \<times> instruction" where
  "decode_floating_comparison out word thumb bank architecture =
    (if not_conditional_space out word thumb \<or> word AND 0x0fbe0e50 \<noteq> 0x0eb40a40 then (False, out)
     else
       let wide = (word AND 256 \<noteq> 0);
           v = \<lparr>fcmp_first = scalar_word wide (drop_bit 12 word AND 15) (drop_bit 22 word AND 1),
             fcmp_second = scalar_word wide (word AND 15) (drop_bit 5 word AND 1),
             fcmp_wide = wide, fcmp_with_zero = flag_set word 16,
             fcmp_signal_all_nans = (word AND 128 \<noteq> 0)\<rparr> in
       if (fcmp_with_zero v \<and> word AND 0x2f \<noteq> 0) \<or>
          (thumb \<and> \<not> has_armv6t2_extensions architecture) \<or>
          (bank = D16 \<and> fcmp_wide v \<and>
            (32 \<le> fcmp_first v \<or> (\<not> fcmp_with_zero v \<and> 32 \<le> fcmp_second v))) then (True, out)
       else (True, out\<lparr>kind := FloatingComparison, vector := OpFloatingComparison v\<rparr>))"

definition decode_floating_immediate ::
  "instruction \<Rightarrow> u32 \<Rightarrow> bool \<Rightarrow> vfp_register_profile \<Rightarrow> arm_instruction_profile \<Rightarrow>
   vfp_instruction_profile \<Rightarrow> bool \<times> instruction" where
  "decode_floating_immediate out word thumb bank architecture floating_instructions =
    (if not_conditional_space out word thumb \<or> word AND 0x0fb00ef0 \<noteq> 0x0eb00a00 then (False, out)
     else
       let wide = (word AND 256 \<noteq> 0);
           v = \<lparr>fi_destination = scalar_word wide (drop_bit 12 word AND 15) (drop_bit 22 word AND 1),
             fi_imm8 = ucast ((drop_bit 12 word AND 0xf0) OR (word AND 15)), fi_wide = wide\<rparr> in
       if floating_instructions = Vfpv2 \<or> (thumb \<and> \<not> has_armv6t2_extensions architecture) \<or>
          (fi_wide v \<and> bank = D16 \<and> 32 \<le> fi_destination v) then (True, out)
       else (True, out\<lparr>kind := FloatingImmediate, vector := OpFloatingImmediate v\<rparr>))"

definition decode_floating_system ::
  "instruction \<Rightarrow> u32 \<Rightarrow> bool \<Rightarrow> arm_instruction_profile \<Rightarrow> bool \<times> instruction" where
  "decode_floating_system out word thumb architecture =
    (if word AND 0x0fef0fff \<noteq> 0x0ee10a10 \<or> not_conditional_space out word thumb then (False, out)
     else
       let v = \<lparr>fs_core = drop_bit 12 word AND 15, fs_to_core = (word AND 0x100000 \<noteq> 0)\<rparr> in
       if (thumb \<and> (\<not> has_armv6t2_extensions architecture \<or> fs_core v = 13)) \<or>
          (\<not> fs_to_core v \<and> fs_core v = 15) then (True, out)
       else (True, out\<lparr>kind := FloatingSystem, vector := OpFloatingSystem v\<rparr>))"

section \<open>The contract\<close>

lemma field_register_bounds [simp]:
  "field_d word < 32" "field_n word < 32" "field_m word < 32"
  by (simp_all add: field_d_def field_n_def field_m_def field_bounds)

lemma and_1_zero [simp]: "(v :: u32) AND 1 = 0 \<longleftrightarrow> \<not> bit v 0"
  using and_1_bit [of v] by blast

lemma low_register_32 [simp]: "x AND 15 < (32 :: u32)" "x AND 15 < (16 :: u32)"
  by (simp_all add: and_field_less)

text \<open>Lanes and elements.\<close>

lemma lane_bits_simps [simp]: "lane_bits 8" "lane_bits 16" "lane_bits 32" "\<not> lane_bits 64"
  by (simp_all add: lane_bits_def)

lemma below_4:
  assumes "x < 4"
  shows "x = 0 \<or> x = 1 \<or> x = 2 \<or> x = (3 :: u32)"
proof -
  have "unat x < 4" using assms by (simp add: word_less_nat_alt)
  then have "unat x = unat (0 :: u32) \<or> unat x = unat (1 :: u32) \<or> unat x = unat (2 :: u32) \<or>
    unat x = unat (3 :: u32)"
    by auto
  then show ?thesis by (simp only: word_unat_eq_iff [symmetric])
qed

lemma below_16:
  assumes "x < 16"
  shows "x = 0 \<or> x = 1 \<or> x = 2 \<or> x = 3 \<or> x = 4 \<or> x = 5 \<or> x = 6 \<or> x = 7
    \<or> x = 8 \<or> x = 9 \<or> x = 10 \<or> x = 11 \<or> x = 12 \<or> x = 13 \<or> x = 14
    \<or> x = (15 :: u32)"
proof -
  have "unat x < 16" using assms by (simp add: word_less_nat_alt)
  then have "unat x = unat (0 :: u32) \<or> unat x = unat (1 :: u32) \<or> unat x = unat (2 :: u32) \<or>
    unat x = unat (3 :: u32) \<or> unat x = unat (4 :: u32) \<or> unat x = unat (5 :: u32) \<or>
    unat x = unat (6 :: u32) \<or> unat x = unat (7 :: u32) \<or> unat x = unat (8 :: u32) \<or>
    unat x = unat (9 :: u32) \<or> unat x = unat (10 :: u32) \<or> unat x = unat (11 :: u32)
    \<or> unat x = unat (12 :: u32) \<or> unat x = unat (13 :: u32) \<or> unat x = unat (14 ::
    u32) \<or> unat x = unat (15 :: u32)"
    by (simp; presburger)
  then show ?thesis by (simp only: word_unat_eq_iff [symmetric])
qed

lemma countr_zero_odd: "bit x 0 \<Longrightarrow> countr_zero (x :: u32) = 0"
  "\<not> bit x 0 \<Longrightarrow> bit x 1 \<Longrightarrow> countr_zero x = 1"
  "\<not> bit x 0 \<Longrightarrow> \<not> bit x 1 \<Longrightarrow> bit x 2 \<Longrightarrow> countr_zero x = 2"
  unfolding countr_zero_def by (simp_all add: upt_conv_Cons numeral_2_eq_2)

lemma duplicate_lane:
  assumes "imm < 16" "imm AND 7 \<noteq> (0::u32)"
  shows "push_bit (countr_zero imm) 8 \<in> {8,16,32::u32}" "drop_bit (countr_zero imm + 1) imm < 64 div push_bit (countr_zero imm) 8"
  using below_16 [OF assms(1)] assms(2) by (auto simp: countr_zero_odd)
lemma bit_width_eq:
  fixes w :: "'a::len word"
  assumes "2 ^ k \<le> unat w" "unat w < 2 ^ Suc k"
  shows "bit_width w = Suc k"
proof -
  have k: "k < LENGTH('a)"
  proof (rule ccontr)
    assume "\<not> k < LENGTH('a)"
    then have "(2 :: nat) ^ LENGTH('a) \<le> 2 ^ k" by (intro power_increasing) simp_all
    moreover have "unat w < 2 ^ LENGTH('a)" by (rule unsigned_less)
    ultimately show False using assms(1) by linarith
  qed
  have top: "bit w k"
  proof -
    have "unat w div 2 ^ k = 1" using assms by (simp add: div_nat_eqI)
    then have "drop_bit k w = 1" by (simp add: word_unat_eq_iff unat_drop_bit_div)
    then show ?thesis using bit_drop_bit_0 [of k w] by simp
  qed
  have above: "\<not> bit w n" if "k < n" for n
  proof -
    have "unat w < 2 ^ n" using assms(2) that power_increasing [of "Suc k" n "2 :: nat"] by simp
    then have "drop_bit n w = 0" by (simp add: word_unat_eq_iff unat_drop_bit_div)
    then show ?thesis using bit_drop_bit_0 [of n w] by simp
  qed
  have "[0..<LENGTH('a)] = [0..<k] @ k # [Suc k..<LENGTH('a)]"
    using k upt_add_eq_append [of 0 k "LENGTH('a) - k"] by (simp add: upt_conv_Cons)
  then have "takeWhile (\<lambda>i. \<not> bit w i) (rev [0..<LENGTH('a)]) = rev [Suc k..<LENGTH('a)]"
    using top above by (simp add: takeWhile_append)
  then show ?thesis using k by (simp add: bit_width_def countl_zero_def)
qed

lemma shift_bits:
  assumes "8 \<le> imm" "imm < (64 :: u32)"
  defines "bits \<equiv> push_bit (bit_width imm - 1) (1 :: u32)"
  shows "bits \<in> {8, 16, 32}" "1 \<le> 2 * bits - imm \<and> 2 * bits - imm \<le> bits" "imm - bits < bits"
proof -
  obtain k where k: "k \<in> {3,4,5 :: nat}" "2 ^ k \<le> unat imm" "unat imm < 2 ^ Suc k"
  proof -
    have "8 \<le> unat imm" "unat imm < 64" using assms(1,2) by (simp_all add: word_less_nat_alt word_le_nat_alt)
    then have "(\<exists>k \<in> {3,4,5 :: nat}. 2 ^ k \<le> unat imm \<and> unat imm < 2 ^ Suc k)" by auto
    then show ?thesis using that by blast
  qed
  have b: "bits = push_bit k 1" "unat bits = 2 ^ k" using k unfolding bits_def bit_width_eq [OF k(2,3)] by auto
  show "bits \<in> {8, 16, 32}" using b k by auto
  have "unat (2 * bits - imm) = 2 * unat bits - unat imm" "unat (imm - bits) = unat imm - unat bits"
    using k b by (auto simp: unat_sub word_le_nat_alt unat_word_ariths)
  then show "1 \<le> 2 * bits - imm \<and> 2 * bits - imm \<le> bits" "imm - bits < bits"
    using k b by (auto simp: word_less_nat_alt word_le_nat_alt)
qed
lemma reverse_bits:
  fixes word :: u32
  assumes "\<not> 3 \<le> (drop_bit 18 word AND 3) + (drop_bit 7 word AND 3)"
  shows "lane_bits (push_bit (unat (drop_bit 18 word AND 3)) 8)"
    "drop_bit (unat (drop_bit 7 word AND 3)) (64 :: u32) \<in> {16, 32, 64}"
    "push_bit (unat (drop_bit 18 word AND 3)) 8 < drop_bit (unat (drop_bit 7 word AND 3)) (64 :: u32)"
  using below_4 [of "drop_bit 18 word AND 3"] below_4 [of "drop_bit 7 word AND 3"] assms
  by (auto simp: field_bounds)

lemma integer_bits: "lane_bits (push_bit (unat (x AND 3 :: u32)) 8) \<or> push_bit (unat (x AND 3)) 8 = (64 :: u32)"
  using below_4 [of "x AND 3"] by (auto simp: field_bounds)

lemma narrow_fields [simp]: "ucast (x AND 15 :: u32) < (16 :: u8)" "ucast (x AND 1 :: u32) < (2 :: u8)"
  by (simp_all add: and_field_less unsigned_and_eq)

lemma duplicate_vector_ok:
  assumes "imm < 16" "imm AND 7 \<noteq> 0" "in_bank q [d]" "n < 32"
  shows "vector_ok (OpDuplicate \<lparr>dup_destination = d, dup_source = n,
      dup_element_bits = push_bit (countr_zero imm) 8, dup_lane = drop_bit (countr_zero imm + 1) imm,
      dup_quad = q, dup_core_source = False\<rparr>)"
  using duplicate_lane [OF assms(1,2)] assms(3,4) by (simp add: lane_bits_def)

lemma reverse_vector_ok:
  fixes word :: u32
  assumes "\<not> 3 \<le> (drop_bit 18 word AND 3) + (drop_bit 7 word AND 3)" "in_bank q [d, n]"
  shows "vector_ok (OpReverse \<lparr>rev_destination = d, rev_source = n,
      rev_element_bits = push_bit (unat (drop_bit 18 word AND 3)) 8,
      rev_block_bits = drop_bit (unat (drop_bit 7 word AND 3)) 64, rev_quad = q\<rparr>)"
  using reverse_bits [of word] assms by auto

lemma shift_amount_ok:
  fixes word :: u32
  assumes "wide \<or> \<not> drop_bit 16 word AND 63 < 8"
  defines "imm \<equiv> drop_bit 16 word AND 63"
  defines "bits \<equiv> (if wide then 64 else push_bit (bit_width imm - 1) 1)"
  shows "shift_ok right bits (if wide then if right then 64 - imm else imm
    else if right then 2 * bits - imm else imm - bits)"
proof (cases wide)
  case True
  have "unat imm < 64" unfolding imm_def using and_field_less [of 63 64 "drop_bit 16 word"]
    by (simp add: word_less_nat_alt)
  then have "imm < 64" "1 \<le> 64 - imm" "64 - imm \<le> 64"
    by (simp_all add: word_less_nat_alt word_le_nat_alt unat_sub)
  then show ?thesis using True by (simp add: bits_def shift_ok_def)
next
  case False
  then have "8 \<le> imm" "imm < 64" using assms by (simp_all add: imm_def and_field_less)
  from shift_bits [OF this] show ?thesis using False
    by (auto simp: bits_def shift_ok_def lane_bits_def)
qed

lemma fresh_vector:
  assumes "fresh out" "vector_ok v" "variant_matches knd v"
    "knd \<notin> {TransferKind, TableBranch, DualTransfer, MultipleTransferKind, ExclusiveTransferKind, Swap}"
  shows "decoded_ok ((unconditional thumb out)\<lparr>vector := v, kind := knd\<rparr>)"
    and "decoded_ok ((unconditional thumb out)\<lparr>kind := knd, vector := v\<rparr>)"
    and "decoded_ok (out\<lparr>vector := v, kind := knd\<rparr>)"
    and "decoded_ok (out\<lparr>kind := knd, vector := v\<rparr>)"
  using assms by (simp_all add: unconditional_def decode_defs)

lemma fresh_unconditional [simp]: "fresh (unconditional thumb out) = fresh out"
  by (simp add: unconditional_def)

lemma scalar_word_bound:
  assumes "low < 16" "high < 2"
  shows "in_words wide (scalar_word wide low high)"
proof -
  have "unat low < 16" "unat high < 2" using assms by (simp_all add: word_less_nat_alt)
  then have "unat ((low + high * 16) * 2) = (unat low + unat high * 16) * 2"
    "unat (low * 2 + high) = unat low * 2 + unat high"
    by (simp_all add: unat_word_ariths)
  with \<open>unat low < 16\<close> \<open>unat high < 2\<close> show ?thesis
    by (simp add: in_words_def scalar_word_def word_less_nat_alt bit_0)
qed

lemma one_bit_field [simp]: "x AND 1 < (2 :: u32)"
  by (simp add: and_field_less)

lemma scalar_field_ok [simp]: "in_words wide (scalar_word wide (x AND 15) (y AND 1))"
  by (rule scalar_word_bound) simp_all

interpretation bitwise_group: group_decoder "\<lambda>out. decode_simd_bitwise out word thumb"
  for word thumb
  by unfold_locales (auto simp: decode_simd_bitwise_def Let_def fresh_decoded in_bank_def bit_or_iff
      no_bitwise_def intro!: fresh_vector)

interpretation duplicate_group: group_decoder "\<lambda>out. decode_simd_duplicate out word thumb"
  for word thumb
proof
  fix out :: instruction assume fresh: "fresh out"
  have core: "outcome_ok (True, out\<lparr>kind := VectorDuplicate, vector := OpDuplicate
      (no_duplicate\<lparr>dup_core_source := True, dup_quad := q, dup_destination := d, dup_source := n,
        dup_element_bits := (if size = 0 then 32 else if size = 1 then 16 else 8)\<rparr>)\<rparr>)"
    if "in_bank q [d]" "n < 16" for q d n and size :: u32
    unfolding outcome_ok_simps by (rule fresh_vector) (use that fresh in \<open>auto simp: no_duplicate_def\<close>)
  have lane: "outcome_ok (True, (unconditional thumb out)\<lparr>kind := VectorDuplicate, vector := OpDuplicate
      (no_duplicate\<lparr>dup_quad := q, dup_destination := d, dup_source := n,
        dup_element_bits := push_bit (countr_zero imm) 8,
        dup_lane := drop_bit (countr_zero imm + 1) imm\<rparr>)\<rparr>)"
    if "imm < 16" "imm AND 7 \<noteq> 0" "in_bank q [d]" "n < 32" for q d n imm
    unfolding outcome_ok_simps
    by (rule fresh_vector)
      (use fresh duplicate_vector_ok [OF that] duplicate_lane(1) [OF that(1,2)]
        in \<open>auto simp: no_duplicate_def simp del: vector_ok.simps\<close>)
  show "outcome_ok (decode_simd_duplicate out word thumb)"
    unfolding decode_simd_duplicate_def Let_def using fresh
    by (intro outcome_ok_if core lane; (simp only: outcome_ok_simps fresh_decoded)?)
      (auto simp: in_bank_def field_bounds and_field_less no_duplicate_def)
qed

interpretation extract_group: group_decoder "\<lambda>out. decode_simd_extract out word thumb"
  for word thumb
  by unfold_locales (auto simp: decode_simd_extract_def Let_def fresh_decoded in_bank_def bit_or_iff
      not_le intro!: fresh_vector)

interpretation reverse_group: group_decoder
  "\<lambda>out. decode_simd_reverse out word thumb bank profile simd" for word thumb bank profile simd
  by unfold_locales (auto simp: decode_simd_reverse_def Let_def fresh_decoded in_bank_def bit_or_iff
      simd_rejects_def no_reverse_def simp del: vector_ok.simps
      intro!: fresh_vector reverse_vector_ok split: option.split)

interpretation vector_conversion_group: group_decoder
  "\<lambda>out. decode_simd_conversion out word thumb bank profile simd" for word thumb bank profile simd
  by unfold_locales (auto simp: decode_simd_conversion_def Let_def fresh_decoded in_bank_def bit_or_iff
      simd_rejects_def no_vector_conversion_def intro!: fresh_vector split: option.split)

lemma shift_vector_ok:
  fixes word :: u32
  assumes "\<not> (\<not> wide \<and> drop_bit 16 word AND 63 < 8)" "in_bank q [d, n]"
  shows "vector_ok (OpShiftImmediate \<lparr>shi_destination = d, shi_source = n,
      shi_element_bits = (if wide then 64 else push_bit (bit_width (drop_bit 16 word AND 63) - 1) 1),
      shi_amount = (if wide then if right then 64 - (drop_bit 16 word AND 63) else drop_bit 16 word AND 63
        else if right
        then 2 * (if wide then 64 else push_bit (bit_width (drop_bit 16 word AND 63) - 1) 1) -
          (drop_bit 16 word AND 63)
        else (drop_bit 16 word AND 63) -
          (if wide then 64 else push_bit (bit_width (drop_bit 16 word AND 63) - 1) 1)),
      shi_quad = q, shi_right = right, shi_unsigned_value = u, shi_rounding = r,
      shi_accumulate = a, shi_insert = i\<rparr>)"
  using shift_amount_ok [of wide word right] assms by auto

interpretation shift_immediate_group: group_decoder
  "\<lambda>out. decode_simd_shift_immediate out word thumb bank profile simd"
  for word thumb bank profile simd
proof
  fix out :: instruction assume fresh: "fresh out"
  have ok: "outcome_ok (True, (unconditional thumb out)\<lparr>vector := OpShiftImmediate v,
      kind := VectorShiftImmediate\<rparr>)" if "vector_ok (OpShiftImmediate v)" for v
    unfolding outcome_ok_simps by (rule fresh_vector) (use fresh that in simp_all)
  show "outcome_ok (decode_simd_shift_immediate out word thumb bank profile simd)"
  proof (cases "thumb_simd_word word thumb")
    case None
    then show ?thesis using fresh by (simp add: decode_simd_shift_immediate_def)
  next
    case (Some w)
    show ?thesis
      unfolding decode_simd_shift_immediate_def Let_def Some option.case no_shift_immediate_def
        vector_shift_immediate_operands.simps
      by (intro outcome_ok_if ok shift_vector_ok;
          (simp only: outcome_ok_simps fresh fresh_decoded fresh_unconditional)?)
        (auto simp: simd_rejects_def in_bank_def bit_or_iff)
  qed
qed

interpretation vector_immediate_group: group_decoder
  "\<lambda>out. decode_simd_immediate out word thumb bank profile" for word thumb bank profile
proof
  fix out :: instruction assume "fresh out"
  then show "outcome_ok (decode_simd_immediate out word thumb bank profile)"
    unfolding decode_simd_immediate_def Let_def
    by (intro outcome_ok_if)
      (simp_all only: outcome_ok_simps fresh_decoded fresh_unconditional,
        rule fresh_vector, assumption, simp add: in_bank_def, blast, simp, simp)
qed

interpretation vector_integer_group: group_decoder
  "\<lambda>out. decode_simd_integer out word thumb bank profile simd" for word thumb bank profile simd
proof
  fix out :: instruction assume fresh: "fresh out"
  have ok: "outcome_ok (True, (unconditional thumb out)\<lparr>vector := OpInteger v,
      kind := VectorIntegerArithmetic\<rparr>)" if "vector_ok (OpInteger v)" for v
    unfolding outcome_ok_simps by (rule fresh_vector) (use fresh that in simp_all)
  have option: "outcome_ok (case r of None \<Rightarrow> x | Some a \<Rightarrow> f a)"
    if "outcome_ok x" "\<And>a. outcome_ok (f a)" for r :: "'a option" and x f
    using that by (cases r) simp_all
  show "outcome_ok (decode_simd_integer out word thumb bank profile simd)"
    unfolding decode_simd_integer_def Let_def
    by (intro option outcome_ok_if ok;
        (simp only: outcome_ok_simps fresh fresh_decoded fresh_unconditional)?)
      (use integer_bits in \<open>auto simp: in_bank_def bit_or_iff\<close>)
qed

interpretation vector_floating_group: group_decoder
  "\<lambda>out. decode_simd_floating out word thumb bank profile simd" for word thumb bank profile simd
  by unfold_locales (auto simp: decode_simd_floating_def Let_def fresh_decoded in_bank_def bit_or_iff
      intro!: fresh_vector split: option.split)

lemma small_sum: "unat x < 256 \<Longrightarrow> unat y < 256 \<Longrightarrow> unat (x + y) = unat x + unat y"
  for x y :: u32
  by (simp add: unat_word_ariths)

lemma bank_slice:
  assumes "first < 32" "count \<le> 4" "\<not> 32 < first + count"
  shows "first + count \<le> 32 \<and> count \<le> (32 :: u32) \<and> first < 32"
  using assms order.trans [of count 4 32] by (auto simp: not_less)

lemma finish_simd_transfer_ok:
  assumes "fresh out" "vt_count v \<le> 4" "vt_alignment v \<in> {1, 2, 4, 8, 16, 32}"
    "transfer_lanes_ok (vt_mode v) (vt_count v) (vt_element_size v) (vt_lane v)"
  shows "outcome_ok (finish_simd_transfer out word thumb v)"
  using assms bank_slice [of "field_d word" "vt_count v"]
  by (auto simp: finish_simd_transfer_def Let_def unconditional_def decode_defs)

lemma transfer_multiple:
  "count \<in> {1, 2, 3, 4} \<Longrightarrow> transfer_lanes_ok ModeMultiple count (push_bit (unat (x AND 3 :: u32)) 1) 0"
  "(if x AND 3 = (0 :: u32) then 1 else push_bit (unat (x AND 3)) 4) \<in> {1, 2, 4, 8, 16, 32 :: u32}"
  using below_4 [of "x AND 3"] by (auto simp: transfer_lanes_ok_def field_bounds)

lemma transfer_replicate:
  assumes "x AND 3 \<noteq> (3 :: u32)"
  shows "transfer_lanes_ok ModeReplicate (if b then 2 else 1) (push_bit (unat (x AND 3)) 1) 0"
    "(if b then push_bit (unat (x AND 3)) 1 else 1) \<in> {1, 2, 4, 8, 16, 32 :: u32}"
  using below_4 [of "x AND 3"] assms by (auto simp: transfer_lanes_ok_def field_bounds)

lemma lane_below:
  assumes "n = 0 \<or> n = 1 \<or> n = 2" "unat (z :: u32) < 16"
  shows "transfer_lanes_ok ModeLane 1 (push_bit n 1) (drop_bit (n + 1) z)"
proof -
  have "unat z div 2 < 8" "unat z div 4 < 4" "unat z div 8 < 2" using assms(2) by simp_all
  then show ?thesis
    using assms(1) by (auto simp: transfer_lanes_ok_def word_less_nat_alt unat_drop_bit_div)
qed

lemma transfer_lane:
  assumes "x AND 3 \<noteq> (3 :: u32)"
  shows "transfer_lanes_ok ModeLane 1 (push_bit (unat (x AND 3)) 1)
      (drop_bit (unat (x AND 3) + 1) (y AND 15))"
proof (rule lane_below)
  show "unat (x AND 3) = 0 \<or> unat (x AND 3) = 1 \<or> unat (x AND 3) = 2"
    using below_4 [of "x AND 3"] assms by (auto simp: field_bounds)
  show "unat (y AND 15) < 16" using and_field_less [of 15 16 y] by (simp add: word_less_nat_alt)
qed

interpretation simd_transfer_group: group_decoder "\<lambda>out. decode_simd_transfer out word thumb"
  for word thumb
proof
  fix out :: instruction assume fresh: "fresh out"
  note fin = finish_simd_transfer_ok [OF fresh]
  have option: "outcome_ok (case r of None \<Rightarrow> x | Some a \<Rightarrow> f a)"
    if "outcome_ok x" "\<And>a. r = Some a \<Longrightarrow> outcome_ok (f a)" for r :: "u32 option" and x f
    using that by (cases r) simp_all
  have count: "a \<in> {1, 2, 3, 4}"
    if "(if family = 7 then Some 1 else if family = 10 then Some 2
      else if family = 6 then Some 3 else if family = 2 then Some 4 else None) = Some a"
    for a family :: u32
    using that by (auto split: if_splits)
  have below: "a \<le> 4" if "a \<in> {1, 2, 3, 4}" for a :: u32 using that by auto
  show "outcome_ok (decode_simd_transfer out word thumb)"
    unfolding decode_simd_transfer_def Let_def no_vector_transfer_def vector_transfer_operands.simps
    by (intro option outcome_ok_if fin;
        (simp only: outcome_ok_simps fresh fresh_decoded vector_transfer_operands.simps)?;
        (rule transfer_multiple transfer_replicate transfer_lane below)?; (erule count)?)
      (auto simp del: flag_set_iff)
qed

lemma finish_core_move_ok:
  assumes "fresh out" "cm_first_word v < 64" "cm_pair v \<Longrightarrow> cm_first_word v \<noteq> 63"
    "cm_core v < 16" "cm_core2 v < 16" "lane_bits (cm_element_bits v)"
    "cm_bit_offset v \<le> 32 - cm_element_bits v"
  shows "outcome_ok (finish_core_move out thumb profile v)"
proof -
  have below: "r < 15" if "r < 16" "r \<noteq> 15" for r :: u32
    using that word_unat_eq_iff [of r 15] by (auto simp: word_less_nat_alt)
  show ?thesis
    using assms below
    by (auto simp: finish_core_move_def fresh_decoded intro!: fresh_vector)
qed

lemma word_fields:
  "(x AND 15) * 2 + (y AND 1) < (64 :: u32)"
  "((y AND 1) * 16 + (x AND 15)) * 2 < (64 :: u32)"
  "((y AND 1) * 16 + (x AND 15)) * 2 \<noteq> (63 :: u32)"
  "(y AND 1) * 16 + (x AND 15) < (32 :: u32)" "(x AND 15) * 2 + (y AND 1) < (32 :: u32)"
  "32 * (y AND 1) + (x AND 15) * 2 < (64 :: u32)" "32 * (y AND 1) + (x AND 15) * 2 \<noteq> (63 :: u32)"
  "(x AND 15) * 2 + (y AND 1) \<noteq> (63 :: u32)"
proof -
  have "unat (x AND 15) < 16" "unat (y AND 1) < 2"
    using low_register_32(2) [of x] one_bit_field [of y] by (simp_all only: word_less_nat_alt) simp_all
  then show "(x AND 15) * 2 + (y AND 1) < (64 :: u32)"
    "((y AND 1) * 16 + (x AND 15)) * 2 < (64 :: u32)"
    "(y AND 1) * 16 + (x AND 15) < (32 :: u32)" "(x AND 15) * 2 + (y AND 1) < (32 :: u32)"
    "32 * (y AND 1) + (x AND 15) * 2 < (64 :: u32)"
    by (simp_all add: word_less_nat_alt unat_word_ariths)
  then show "(x AND 15) * 2 + (y AND 1) \<noteq> (63 :: u32)"
    using less_irrefl [of "63 :: u32"] less_trans [of 63 32 "63 :: u32"] by auto
  have "even (((y AND 1) * 16 + (x AND 15)) * 2)" by simp
  then show "((y AND 1) * 16 + (x AND 15)) * 2 \<noteq> (63 :: u32)"
    by (metis odd_numeral)
  have "even (32 * (y AND 1) + (x AND 15) * 2)" by simp
  then show "32 * (y AND 1) + (x AND 15) * 2 \<noteq> (63 :: u32)"
    by (metis odd_numeral)
qed

text \<open>A lane of a scalar move stays inside its doubleword.\<close>

lemma lane_offset:
  assumes "op1 < 4" "op2 < 4"
    and "(if op1 AND 2 \<noteq> 0 then Some (8, push_bit 2 (op1 AND 1) OR op2)
      else if op2 AND 1 \<noteq> 0 then Some (16, push_bit 1 (op1 AND 1) OR drop_bit 1 op2)
      else if op2 = 0 \<and> \<not> u then Some (32, op1 AND 1) else None) = Some (bits, lane :: u32)"
  shows "lane * bits < 64" "lane_bits bits" "lane * bits mod 32 \<le> 32 - bits"
proof -
  have "lane * bits < 64 \<and> lane_bits bits \<and> lane * bits mod 32 \<le> 32 - bits"
    using below_4 [OF assms(1)] below_4 [OF assms(2)] assms(3)
    by (elim disjE; simp split: if_splits)
  then show "lane * bits < 64" "lane_bits bits" "lane * bits mod 32 \<le> 32 - bits" by simp_all
qed

lemma lane_word:
  assumes "d < (32 :: u32)" "b < 64"
  shows "d * 2 + b div 32 < 64"
proof -
  have "unat d < 32" "unat b < 64" using assms by (simp_all add: word_less_nat_alt)
  moreover have "unat b div 32 < 2" using \<open>unat b < 64\<close> by simp
  ultimately show ?thesis
    by (simp add: word_less_nat_alt unat_word_ariths unat_div_distrib)
qed

lemma mod_word [simp]: "b mod 32 < (32 :: u32)"
  by (simp add: word_mod_less_divisor)

interpretation core_move_group: group_decoder
  "\<lambda>out. decode_core_vector_move out word thumb bank profile" for word thumb bank profile
proof
  fix out :: instruction assume fresh: "fresh out"
  note fin = finish_core_move_ok [OF fresh, of _ thumb profile]
  have lanes: "outcome_ok (case (if op1 AND 2 \<noteq> 0 then Some (8, push_bit 2 (op1 AND 1) OR op2)
      else if op2 AND 1 \<noteq> 0 then Some (16, push_bit 1 (op1 AND 1) OR drop_bit 1 op2)
      else if op2 = 0 \<and> \<not> u then Some (32, op1 AND 1) else None) of
        None \<Rightarrow> (True, out) | Some (bits, lane) \<Rightarrow> f bits lane)"
    if "op1 < 4" "op2 < 4" "\<And>bits lane. lane * bits < 64 \<Longrightarrow> lane_bits bits \<Longrightarrow>
      lane * bits mod 32 \<le> 32 - bits \<Longrightarrow> outcome_ok (f bits lane)"
    for op1 op2 :: u32 and u f
  proof (split option.split, intro conjI allI impI)
    show "outcome_ok (True, out)" using fresh_decoded [OF fresh] by simp
  next
    fix r :: "u32 \<times> u32"
    assume "(if op1 AND 2 \<noteq> 0 then Some (8, push_bit 2 (op1 AND 1) OR op2)
      else if op2 AND 1 \<noteq> 0 then Some (16, push_bit 1 (op1 AND 1) OR drop_bit 1 op2)
      else if op2 = 0 \<and> \<not> u then Some (32, op1 AND 1) else None) = Some r"
    then show "outcome_ok (case r of (bits, lane) \<Rightarrow> f bits lane)"
      using lane_offset [OF that(1,2), where bits = "fst r" and lane = "snd r"] that(3)
      by (cases r) simp
  qed
  show "outcome_ok (decode_core_vector_move out word thumb bank profile)"
    unfolding decode_core_vector_move_def Let_def
    apply (intro outcome_ok_if lanes)
    apply (simp_all only: outcome_ok_simps fresh fresh_decoded)
       apply (rule fin; simp add: word_fields no_core_move_def field_bounds)
      apply (rule fin; auto simp: word_fields no_core_move_def field_bounds)
     apply (simp_all add: field_bounds)
    apply (rule fin; simp add: lane_word no_core_move_def field_bounds)
    done
qed

lemma transfer_decoded:
  assumes "fresh out" "n < 16" "first + count \<le> 32" "count \<le> 32" "first < 32"
    "1 \<le> count" "e = 4 \<or> e = 8"
  shows "decoded_ok (out\<lparr>kind := VectorTransferKind, rn := n, load := l, inst_add := a,
      inst_index := i, align_pc := p, immediate := k,
      vector := OpTransfer \<lparr>vt_first = first, vt_count = count, vt_element_size = e,
        vt_alignment = 4, vt_mode = ModeScalarMultiple, vt_lane = 0\<rparr>\<rparr>)"
    and "decoded_ok (out\<lparr>kind := VectorTransferKind, rn := n, load := l, inst_add := a,
      inst_index := i, writeback := p, immediate := k,
      vector := OpTransfer \<lparr>vt_first = first, vt_count = count, vt_element_size = e,
        vt_alignment = 4, vt_mode = ModeScalarMultiple, vt_lane = 0\<rparr>\<rparr>)"
  using assms by (auto simp: decode_defs transfer_lanes_ok_def)

lemma slice_of_bank:
  assumes "first < 32" "count < 256" "\<not> 32 < first + count"
  shows "first + count \<le> 32 \<and> count \<le> (32 :: u32)"
proof -
  have "unat first < 32" "unat count < 256" using assms(1,2) by (simp_all add: word_less_nat_alt)
  then show ?thesis
    using assms(3) small_sum [of first count] by (simp add: word_less_nat_alt word_le_nat_alt)
qed

lemma byte_fields: "word AND 255 < (256 :: u32)" "(word AND 255) div 2 < (256 :: u32)"
proof -
  show byte: "word AND 255 < (256 :: u32)" by (simp add: and_field_less)
  then show "(word AND 255) div 2 < (256 :: u32)"
    by (simp add: word_less_nat_alt unat_div_distrib)
qed

interpretation vfp_scalar_group: group_decoder
  "\<lambda>out. decode_vfp_scalar out word thumb bank profile" for word thumb bank profile
proof
  fix out :: instruction assume "fresh out"
  have plus: "first + 1 \<le> 32" if "first < 32" for first :: u32
    using that by (simp add: word_less_nat_alt word_le_nat_alt unat_word_ariths)
  show "outcome_ok (decode_vfp_scalar out word thumb bank profile)"
    unfolding decode_vfp_scalar_def Let_def
    by (intro outcome_ok_if; simp only: outcome_ok_simps fresh_decoded \<open>fresh out\<close>)
      (rule transfer_decoded; simp add: \<open>fresh out\<close> plus word_fields)
qed

interpretation vfp_multiple_group: group_decoder
  "\<lambda>out. decode_vfp_multiple out word thumb bank" for word thumb bank
proof
  fix out :: instruction assume "fresh out"
  have ok: "decoded_ok (out\<lparr>kind := VectorTransferKind, rn := drop_bit 16 word AND 15, load := l,
      inst_add := a, inst_index := i, writeback := p, immediate := k,
      vector := OpTransfer \<lparr>vt_first = first, vt_count = count, vt_element_size = e,
        vt_alignment = 4, vt_mode = ModeScalarMultiple, vt_lane = 0\<rparr>\<rparr>)"
    if "first < 32" "count < 256" "\<not> 32 < first + count" "count \<noteq> 0" "e = 4 \<or> e = 8"
    for l a i p k first count e
    using slice_of_bank [OF that(1-3)] that \<open>fresh out\<close> by (intro transfer_decoded) (simp_all add: word_le_nat_alt word_neq_0_iff Suc_le_eq)
  show "outcome_ok (decode_vfp_multiple out word thumb bank)"
    unfolding decode_vfp_multiple_def Let_def
    by (intro outcome_ok_if; simp only: outcome_ok_simps fresh_decoded \<open>fresh out\<close>)
      (rule ok; simp add: word_fields byte_fields)
qed

interpretation floating_conversion_group: group_decoder
  "\<lambda>out. decode_floating_conversion out word thumb bank profile" for word thumb bank profile
proof
  fix out :: instruction assume "fresh out"
  then show "outcome_ok (decode_floating_conversion out word thumb bank profile)"
    unfolding decode_floating_conversion_def Let_def
    by (intro outcome_ok_if; simp only: outcome_ok_simps fresh_decoded)
      (rule fresh_vector; simp add: no_conversion_def)+
qed

interpretation floating_arithmetic_group: group_decoder
  "\<lambda>out. decode_floating_arithmetic out word thumb bank profile" for word thumb bank profile
  by unfold_locales (auto simp: decode_floating_arithmetic_def Let_def fresh_decoded
      intro!: fresh_vector split: option.split)

interpretation floating_comparison_group: group_decoder
  "\<lambda>out. decode_floating_comparison out word thumb bank profile" for word thumb bank profile
  by unfold_locales (simp add: decode_floating_comparison_def Let_def fresh_decoded fresh_vector)

interpretation floating_immediate_group: group_decoder
  "\<lambda>out. decode_floating_immediate out word thumb bank profile vfp"
  for word thumb bank profile vfp
  by unfold_locales (simp add: decode_floating_immediate_def Let_def fresh_decoded fresh_vector)

interpretation floating_system_group: group_decoder
  "\<lambda>out. decode_floating_system out word thumb profile" for word thumb profile
  by unfold_locales (simp add: decode_floating_system_def Let_def fresh_decoded fresh_vector)

end
