(* ===== verification/Arm_Simd.thy ===== *)
theory Arm_Simd
  imports Arm_Memory Arm_Floating Decode_Vector
begin

text \<open>
  The Advanced SIMD side of the interpreter: vector memory transfers
  (\<^verbatim>\<open>arm_memory/vector_transfer.cpp\<close>) and the lane operations of
  \<^verbatim>\<open>arm_interpreter/simd*.cpp\<close>. The extension bank is 64 words; D register
  \<open>d\<close> is the words \<open>2 d\<close> and \<open>2 d + 1\<close>.
\<close>

unbundle bit_operations_syntax

section \<open>Vector transfers\<close>

record vector_transfer_record =
  vx_ticks :: u64
  vx_address :: u32
  vx_updated_base :: u32
  vx_control :: u32
  vx_alignment :: u32

definition vector_load :: u32 where "vector_load = push_bit 19 1"
definition vector_writeback :: u32 where "vector_writeback = push_bit 20 1"

definition vector_transfer_length :: "vector_transfer_operands \<Rightarrow> u32" where
  "vector_transfer_length v =
    (if vt_mode v = ModeScalarMultiple then vt_count v * vt_element_size v
     else if vt_mode v = ModeMultiple then vt_count v * 8 else vt_element_size v)"

fun transfer_mode_code :: "vector_transfer_mode \<Rightarrow> u32" where
  "transfer_mode_code ModeMultiple = 0"
| "transfer_mode_code ModeLane = 1"
| "transfer_mode_code ModeReplicate = 2"
| "transfer_mode_code ModeScalarMultiple = 3"

definition transfer_mode_of :: "u32 \<Rightarrow> vector_transfer_mode" where
  "transfer_mode_of x = [ModeMultiple, ModeLane, ModeReplicate, ModeScalarMultiple] ! unat x"

definition vector_control :: "instruction \<Rightarrow> vector_transfer_operands \<Rightarrow> u32" where
  "vector_control inst v =
    vt_first v OR push_bit 5 (vt_count v) OR push_bit 11 (vt_element_size v) OR
    push_bit 15 (rn inst) OR (if load inst then vector_load else 0) OR
    (if writeback inst then vector_writeback else 0) OR push_bit 21 (inst_size inst) OR
    push_bit 24 (transfer_mode_code (vt_mode v)) OR push_bit 26 (vt_lane v)"

definition prepare_vector ::
  "cpu_state \<Rightarrow> instruction \<Rightarrow> vector_transfer_operands \<Rightarrow> bool \<Rightarrow> vector_transfer_record" where
  "prepare_vector s inst v unaligned =
    (let base = reg s (rn inst) + (if rn inst = 15 then pc_offset inst else 0);
         base = (if rn inst = 15 \<and> align_pc inst then base AND NOT 3 else base);
         bytes = vector_transfer_length v in
     if vt_mode v = ModeScalarMultiple
     then let updated = (if inst_add inst then base + immediate inst else base - immediate inst) in
       \<lparr>vx_ticks = 0, vx_address = (if inst_index inst then updated else base),
        vx_updated_base = updated, vx_control = vector_control inst v, vx_alignment = 4\<rparr>
     else let offset = (if rm inst = 13 \<or> rm inst = 15 then bytes else reg s (rm inst)) in
       \<lparr>vx_ticks = 0, vx_address = base, vx_updated_base = base + offset,
        vx_control = vector_control inst v,
        vx_alignment = max (vt_alignment v) (if unaligned then 1 else vt_element_size v)\<rparr>)"

text \<open>The elements that the two outer loops visit, as pairs of a register number and a byte
  offset in it. A replicating load leaves both loops after its first element.\<close>

definition lane_steps :: "nat \<Rightarrow> nat \<Rightarrow> nat \<Rightarrow> u32 list" where
  "lane_steps first_byte end_byte width =
    map (\<lambda>k. word_of_nat (first_byte + k * width))
      [0..<(end_byte - first_byte + width - 1) div width]"

definition vector_elements :: "vector_transfer_mode \<Rightarrow> nat \<Rightarrow> nat \<Rightarrow> nat \<Rightarrow> (u32 \<times> u32) list" where
  "vector_elements mode count width lane =
    (if mode = ModeReplicate then (if 0 < count then [(0, 0)] else [])
     else let first_byte = (if mode = ModeLane then lane * width else 0);
              end_byte = (if mode = ModeMultiple then 8 else first_byte + width) in
       concat (map (\<lambda>r. map (\<lambda>b. (word_of_nat r, b)) (lane_steps first_byte end_byte width))
         [0..<count]))"

definition part_width :: "u32 \<Rightarrow> u32" where
  "part_width width = min width 4"

definition element_parts :: "u32 \<Rightarrow> u32 list" where
  "element_parts width = lane_steps 0 (unat width) (unat (part_width width))"

definition part_bit :: "bool \<Rightarrow> u32 \<Rightarrow> u32 \<Rightarrow> nat" where
  "part_bit big width part =
    unat ((if big then width - part - part_width width else part) * 8)"

definition low_mask :: "u32 \<Rightarrow> u32" where
  "low_mask width = (if 4 \<le> width then 0xffffffff else push_bit (unat (width * 8)) 1 - 1)"

fun load_parts ::
  "('m, 'x) memory_access \<Rightarrow> bool \<Rightarrow> u32 \<Rightarrow> u32 list \<Rightarrow> u32 \<Rightarrow> u64 \<Rightarrow> 'm \<Rightarrow>
   memory_fault option \<times> u64 \<times> 'm" where
  "load_parts mem big width [] address v m = (None, v, m)"
| "load_parts mem big width (part # rest) address v m =
    (let (result, m) = ma_read mem (address + part) (part_width width) m in
     case mr_fault result of
       Some f \<Rightarrow> (Some f, v, m)
     | None \<Rightarrow>
         let data = endian big (mr_value result) (part_width width) AND low_mask (part_width width) in
         load_parts mem big width rest address
           (v OR push_bit (part_bit big width part) (ucast data)) m)"

fun store_parts ::
  "('m, 'x) memory_access \<Rightarrow> bool \<Rightarrow> u32 \<Rightarrow> u32 list \<Rightarrow> u32 \<Rightarrow> u64 \<Rightarrow> 'm \<Rightarrow>
   memory_fault option \<times> 'm" where
  "store_parts mem big width [] address v m = (None, m)"
| "store_parts mem big width (part # rest) address v m =
    (let data = endian big (ucast (drop_bit (part_bit big width part) v)) (part_width width);
         (fault, m) = ma_write mem (address + part) (part_width width) data m in
     case fault of
       Some f \<Rightarrow> (Some f, m)
     | None \<Rightarrow> store_parts mem big width rest address v m)"

definition replicate_element :: "u32 \<Rightarrow> u64 \<Rightarrow> u64" where
  "replicate_element width v =
    fold (\<lambda>b w. w OR push_bit (unat b) (v AND (push_bit (unat (width * 8)) 1 - 1)))
      (lane_steps 0 64 (unat (width * 8))) 0"

definition publish_replicated :: "u32 \<Rightarrow> nat \<Rightarrow> u64 \<Rightarrow> cpu_state \<Rightarrow> cpu_state" where
  "publish_replicated first count v s =
    fold (\<lambda>r s. set_ext_reg ((first + word_of_nat r) * 2 + 1) (ucast (drop_bit 32 v))
        (set_ext_reg ((first + word_of_nat r) * 2) (ucast v) s)) [0..<count] s"

definition commit_element :: "u32 \<Rightarrow> u32 \<Rightarrow> nat \<Rightarrow> u64 \<Rightarrow> cpu_state \<Rightarrow> cpu_state" where
  "commit_element width index n v s =
    (let msk = low_mask width;
         s = set_ext_reg index ((ext_reg s index AND NOT (push_bit n msk)) OR
           push_bit n (ucast v AND msk)) s in
     if width = 8 then set_ext_reg (index + 1) (ucast (drop_bit 32 v)) s else s)"

definition element_value :: "u32 \<Rightarrow> u32 \<Rightarrow> nat \<Rightarrow> cpu_state \<Rightarrow> u64" where
  "element_value width index n s =
    ucast (drop_bit n (ext_reg s index)) OR
    (if width = 8 then push_bit 32 (ucast (ext_reg s (index + 1))) else 0)"

fun vector_loop ::
  "('m, 'x) memory_access \<Rightarrow> bool \<Rightarrow> u32 \<Rightarrow> (u32 \<times> u32) list \<Rightarrow> u32 \<Rightarrow> cpu_state \<Rightarrow> 'm \<Rightarrow>
   memory_fault option \<times> cpu_state \<times> 'm" where
  "vector_loop mem big control [] address s m = (None, s, m)"
| "vector_loop mem big control ((r, lane) # rest) address s m =
    (let first = control AND 31;
         width = drop_bit 11 control AND 15;
         mode = transfer_mode_of (drop_bit 24 control AND 3);
         index = (first + r) * (if mode = ModeScalarMultiple then width div 4 else 2) + lane div 4;
         n = unat (lane mod 4 * 8) in
     if control AND vector_load = 0
     then let (fault, m) =
           store_parts mem big width (element_parts width) address (element_value width index n s) m in
       case fault of
         Some f \<Rightarrow> (Some f, s, m)
       | None \<Rightarrow> vector_loop mem big control rest (address + width) s m
     else let (fault, v, m) = load_parts mem big width (element_parts width) address 0 m in
       case fault of
         Some f \<Rightarrow> (Some f, s, m)
       | None \<Rightarrow>
           let s = (if mode = ModeReplicate
                 then publish_replicated first (unat (drop_bit 5 control AND 63))
                   (replicate_element width v) s
                 else commit_element width index n v s) in
           vector_loop mem big control rest (address + width) s m)"

definition complete_vector ::
  "('m, 'x) memory_access \<Rightarrow> cpu_state \<Rightarrow> 'm \<Rightarrow> vector_transfer_record \<Rightarrow>
   completion \<times> cpu_state \<times> 'm" where
  "complete_vector mem s m t =
    (let control = vx_control t;
         is_load = (control AND vector_load \<noteq> 0) in
     if vx_address t AND (vx_alignment t - 1) \<noteq> 0
     then let f = alignment_fault (vx_address t) is_load in (data_fault f, abort_transfer f s, m)
     else
       let elements = vector_elements (transfer_mode_of (drop_bit 24 control AND 3))
             (unat (drop_bit 5 control AND 63)) (unat (drop_bit 11 control AND 15))
             (unat (drop_bit 26 control AND 7)) in
       case vector_loop mem (big_endian s) control elements (vx_address t) s m of
         (Some f, s, m) \<Rightarrow> (data_fault f, abort_transfer f s, m)
       | (None, s, m) \<Rightarrow>
           let s = (if control AND vector_writeback \<noteq> 0
                 then set_reg (drop_bit 15 control AND 15) (vx_updated_base t) s else s) in
           (completed, set_reg 15 (reg s 15 + (drop_bit 21 control AND 7)) s, m))"

section \<open>Lane operations\<close>

definition words_of :: "bool \<Rightarrow> u32 list" where
  "words_of quad = (if quad then [0, 1, 2, 3] else [0, 1])"

text \<open>The words of one operand, and their replacement, word by word.\<close>

definition vector_words :: "cpu_state \<Rightarrow> u32 \<Rightarrow> bool \<Rightarrow> u32 list" where
  "vector_words s d quad = map (\<lambda>i. ext_reg s (d * 2 + i)) (words_of quad)"

definition publish_words :: "u32 \<Rightarrow> bool \<Rightarrow> u32 list \<Rightarrow> cpu_state \<Rightarrow> cpu_state" where
  "publish_words d quad ws s = fold (\<lambda>i. set_ext_reg (d * 2 + i) (ws ! unat i)) (words_of quad) s"

definition floating_vector ::
  "softfloat \<Rightarrow> vector_floating_arithmetic_operands \<Rightarrow> cpu_state \<Rightarrow> cpu_state" where
  "floating_vector sf v s =
    (let scalar = \<lparr>fa_destination = 0, fa_first = 0, fa_second = 0,
           fa_operation = vfa_operation v, fa_wide = False\<rparr>;
         quad = vfa_quad v;
         first = vector_words s (vfa_first v) quad;
         second = map (\<lambda>i. ext_reg s (vfa_second v * 2 +
             (case vfa_scalar_lane v of Some l \<Rightarrow> ucast l | None \<Rightarrow> i))) (words_of quad);
         accumulator = vector_words s (vfa_destination v) quad in
     fold (\<lambda>i s.
         let a = (if vfa_pairwise v then (if i = 0 then first ! 0 else second ! 0)
               else first ! unat i);
             b = (if vfa_pairwise v then (if i = 0 then first ! 1 else second ! 1)
               else second ! unat i);
             result = calculate_floating sf scalar (ucast a) (ucast b)
               (ucast (accumulator ! unat i)) 0x03000000;
             s = set_ext_reg (vfa_destination v * 2 + i) (ucast (fr_value result)) s in
         s\<lparr>fpscr := fpscr s OR fr_exceptions result\<rparr>) (words_of quad) s)"

definition move_core_vector :: "vector_core_move_operands \<Rightarrow> cpu_state \<Rightarrow> cpu_state" where
  "move_core_vector v s =
    (if cm_pair v
     then if cm_to_core v
       then let s' = set_reg (cm_core v) (ext_reg s (cm_first_word v)) s in
         set_reg (cm_core2 v) (ext_reg s' (cm_first_word v + 1)) s'
       else let s' = set_ext_reg (cm_first_word v) (reg s (cm_core v)) s in
         set_ext_reg (cm_first_word v + 1) (reg s' (cm_core2 v)) s'
     else
       let msk = drop_bit (unat (32 - cm_element_bits v)) 0xffffffff :: u32;
           word = ext_reg s (cm_first_word v);
           n = unat (cm_bit_offset v) in
       if cm_to_core v
       then let x = drop_bit n word AND msk;
                sign = (if cm_sign_extend v then push_bit (unat (cm_element_bits v - 1)) 1 else 0) in
         set_reg (cm_core v) ((x XOR sign) - sign) s
       else set_ext_reg (cm_first_word v)
         ((word AND NOT (push_bit n msk)) OR push_bit n (reg s (cm_core v) AND msk)) s)"

definition duplicate_vector :: "vector_duplicate_operands \<Rightarrow> cpu_state \<Rightarrow> cpu_state" where
  "duplicate_vector v s =
    (let b = dup_lane v * dup_element_bits v;
         x = (if dup_core_source v then reg s (dup_source v)
           else drop_bit (unat (b mod 32)) (ext_reg s (dup_source v * 2 + b div 32)));
         x = (if dup_element_bits v = 8 then (x AND 255) * 0x01010101
           else if dup_element_bits v = 16 then (x AND 65535) * 0x00010001 else x) in
     fold (\<lambda>i. set_ext_reg (dup_destination v * 2 + i) x) (words_of (dup_quad v)) s)"

definition immediate_vector :: "vector_immediate_operands \<Rightarrow> cpu_state \<Rightarrow> cpu_state" where
  "immediate_vector v s =
    (let x = expand_simd_immediate v;
         x = (if imm_op v \<and> imm_cmode v < 14 then NOT x else x);
         modify = (imm_cmode v < 12 \<and> imm_cmode v AND 1 \<noteq> 0) in
     fold (\<lambda>i s.
         let word = ucast (drop_bit (unat (i mod 2 * 32)) x);
             d = ext_reg s (imm_destination v * 2 + i) in
         set_ext_reg (imm_destination v * 2 + i)
           (if modify then (if imm_op v then d AND word else d OR word) else word) s)
       (words_of (imm_quad v)) s)"

fun bitwise_operation :: "vector_bitwise_operation \<Rightarrow> u32 \<Rightarrow> u32 \<Rightarrow> u32 \<Rightarrow> u32" where
  "bitwise_operation VAnd a b d = a AND b"
| "bitwise_operation VBitClear a b d = a AND NOT b"
| "bitwise_operation VOr a b d = a OR b"
| "bitwise_operation VOrNot a b d = a OR NOT b"
| "bitwise_operation VXor a b d = a XOR b"
| "bitwise_operation VSelect a b d = (d AND a) OR (NOT d AND b)"
| "bitwise_operation VInsertIfTrue a b d = (b AND a) OR (NOT b AND d)"
| "bitwise_operation VInsertIfFalse a b d = (NOT b AND a) OR (b AND d)"
| "bitwise_operation VNot a b d = NOT b"

definition bitwise_vector :: "vector_bitwise_operands \<Rightarrow> cpu_state \<Rightarrow> cpu_state" where
  "bitwise_vector v s =
    fold (\<lambda>i s. set_ext_reg (bw_destination v * 2 + i)
        (bitwise_operation (bw_operation v) (ext_reg s (bw_first v * 2 + i))
          (ext_reg s (bw_second v * 2 + i)) (ext_reg s (bw_destination v * 2 + i))) s)
      (words_of (bw_quad v)) s"

definition extract_vector :: "vector_extract_operands \<Rightarrow> cpu_state \<Rightarrow> cpu_state" where
  "extract_vector v s =
    (let input = vector_words s (ext_first v) (ext_quad v) @ vector_words s (ext_second v) (ext_quad v);
         n = ext_byte_offset v mod 4 * 8 in
     fold (\<lambda>i. let index = unat (ext_byte_offset v div 4 + i);
             x = drop_bit (unat n) (input ! index);
             x = (if n \<noteq> 0 then x OR push_bit (unat (32 - n)) (input ! (index + 1)) else x) in
         set_ext_reg (ext_destination v * 2 + i) x) (words_of (ext_quad v)) s)"

definition convert_vector ::
  "softfloat \<Rightarrow> vector_floating_conversion_operands \<Rightarrow> cpu_state \<Rightarrow> cpu_state" where
  "convert_vector sf v s =
    (let scalar = no_conversion\<lparr>fc_operation := (if vfc_to_integer v then FloatToInteger
             else IntegerToFloat), fc_signed_integer := \<not> vfc_unsigned_value v,
           fc_round_zero := vfc_to_integer v\<rparr>;
         input = vector_words s (vfc_source v) (vfc_quad v) in
     fold (\<lambda>i s.
         let result = convert_floating sf scalar (ucast (input ! unat i)) 0x03000000;
             s = set_ext_reg (vfc_destination v * 2 + i) (ucast (fr_value result)) s in
         s\<lparr>fpscr := fpscr s OR fr_exceptions result\<rparr>) (words_of (vfc_quad v)) s)"

text \<open>One element of a D or Q operand, and the insertion of a result element into the words of
  the result.\<close>

definition element_mask :: "u32 \<Rightarrow> u64" where
  "element_mask bits = drop_bit (unat (64 - bits)) 0xffffffffffffffff"

definition read_element :: "cpu_state \<Rightarrow> u32 \<Rightarrow> u32 \<Rightarrow> u32 \<Rightarrow> u64" where
  "read_element s bits d b =
    (let word = d * 2 + b div 32;
         x = drop_bit (unat (b mod 32)) (ucast (ext_reg s word));
         x = (if bits = 64 then x OR push_bit 32 (ucast (ext_reg s (word + 1))) else x) in
     x AND element_mask bits)"

definition insert_element :: "u32 \<Rightarrow> u32 \<Rightarrow> u64 \<Rightarrow> u32 list \<Rightarrow> u32 list" where
  "insert_element bits b x result =
    (let i = unat (b div 32);
         result = result[i := result ! i OR push_bit (unat (b mod 32)) (ucast x)] in
     if bits = 64 then result[i + 1 := ucast (drop_bit 32 x)] else result)"

definition element_bits_of :: "u32 \<Rightarrow> bool \<Rightarrow> u32 list" where
  "element_bits_of bits quad = lane_steps 0 (if quad then 128 else 64) (unat bits)"

definition map_elements ::
  "u32 \<Rightarrow> bool \<Rightarrow> (u32 \<Rightarrow> u64) \<Rightarrow> u32 list" where
  "map_elements bits quad f =
    fold (\<lambda>b. insert_element bits b (f b AND element_mask bits)) (element_bits_of bits quad) [0, 0, 0, 0]"

fun integer_operation :: "vector_integer_operation \<Rightarrow> u64 \<Rightarrow> u64 \<Rightarrow> u64 \<Rightarrow> u64" where
  "integer_operation VAdd a b d = a + b"
| "integer_operation VSubtract a b d = a - b"
| "integer_operation VMultiply a b d = a * b"
| "integer_operation VMultiplyAdd a b d = d + a * b"
| "integer_operation VMultiplySubtract a b d = d - a * b"

definition integer_vector :: "vector_integer_operands \<Rightarrow> cpu_state \<Rightarrow> cpu_state" where
  "integer_vector v s =
    publish_words (vi_destination v) (vi_quad v)
      (map_elements (vi_element_bits v) (vi_quad v) (\<lambda>b.
        integer_operation (vi_operation v) (read_element s (vi_element_bits v) (vi_first v) b)
          (read_element s (vi_element_bits v) (vi_second v) b)
          (read_element s (vi_element_bits v) (vi_destination v) b))) s"

definition reverse_vector :: "vector_reverse_operands \<Rightarrow> cpu_state \<Rightarrow> cpu_state" where
  "reverse_vector v s =
    (let input = vector_words s (rev_source v) (rev_quad v);
         reverse_mask = (rev_block_bits v - rev_element_bits v) div 8 in
     publish_words (rev_destination v) (rev_quad v)
       (map (\<lambda>i. fold (\<lambda>byte w. let source = (i * 4 + byte) XOR reverse_mask in
             w OR push_bit (unat (byte * 8))
               (drop_bit (unat (source mod 4 * 8)) (input ! unat (source div 4)) AND 255))
           [0, 1, 2, 3] 0) (words_of (rev_quad v))) s)"

definition shift_element :: "vector_shift_immediate_operands \<Rightarrow> u64 \<Rightarrow> u64 \<Rightarrow> u64" where
  "shift_element v input destination =
    (let msk = element_mask (shi_element_bits v);
         n = unat (shi_amount v) in
     let x = (if shi_right v
       then
         let negative = (\<not> shi_unsigned_value v \<and> \<not> shi_insert v \<and>
               input AND push_bit (unat (shi_element_bits v - 1)) 1 \<noteq> 0);
             extended = (if negative then input OR NOT msk else input);
             x = (if shi_amount v = 64 then (if negative then 0xffffffffffffffff else 0)
               else if negative then signed_drop_bit n extended else drop_bit n input);
             x = (if shi_rounding v then x + (drop_bit (unat (shi_amount v - 1)) input AND 1) else x) in
         if shi_insert v
         then x OR (destination AND (if shi_amount v = 64 then msk else msk AND NOT (drop_bit n msk)))
         else x
       else
         let x = push_bit n input in
         if shi_insert v then x OR (destination AND (push_bit n 1 - 1)) else x) in
     if shi_accumulate v then x + destination else x)"

definition shift_vector :: "vector_shift_immediate_operands \<Rightarrow> cpu_state \<Rightarrow> cpu_state" where
  "shift_vector v s =
    publish_words (shi_destination v) (shi_quad v)
      (map_elements (shi_element_bits v) (shi_quad v) (\<lambda>b.
        shift_element v (read_element s (shi_element_bits v) (shi_source v) b)
          (read_element s (shi_element_bits v) (shi_destination v) b))) s"

section \<open>Indices into the bank\<close>

text \<open>The words a lane operation names: \<open>vector_ok\<close> bounds registers, lanes and elements so
  that the expressions of the executors above stay inside the bank's 64 words. A replicating
  load writes whole registers only.\<close>

lemma duplicate_in_bank:
  assumes "vector_ok (OpDuplicate v)" "\<not> dup_core_source v"
  shows "dup_source v * 2 + dup_lane v * dup_element_bits v div 32 < 64"
proof -
  have "unat (dup_lane v * dup_element_bits v) < 64"
  proof (cases "v = no_duplicate")
    case True
    then show ?thesis by (simp add: no_duplicate_def)
  next
    case False
    then have b: "lane_bits (dup_element_bits v)" "dup_lane v < 64 div dup_element_bits v"
      using assms(1) by simp_all
    then have "unat (dup_lane v) * unat (dup_element_bits v) < 64"
      by (auto simp: lane_bits_def word_less_nat_alt)
    then show ?thesis by (simp add: unat_word_ariths)
  qed
  moreover have "unat (dup_source v) < 32" using assms by (simp add: word_less_nat_alt)
  ultimately show ?thesis using lane_word [of "dup_source v"] by (simp add: word_less_nat_alt)
qed

lemma transfer_element_byte:
  assumes "transfer_lanes_ok mode count width lane" "mode \<noteq> ModeReplicate"
    and "(r, b) \<in> set (vector_elements mode (unat count) (unat width) (unat lane))"
  shows "\<exists>i j. r = word_of_nat i \<and> i < unat count \<and> b = word_of_nat j \<and> j + unat width \<le> 8 \<and>
    (mode = ModeScalarMultiple \<longrightarrow> j = 0)"
proof -
  have w: "unat width \<in> {1, 2, 4, 8}" using assms(1) by (auto simp: transfer_lanes_ok_def)
  show ?thesis
  proof (cases mode)
    case ModeMultiple
    obtain i k where "r = word_of_nat i" "i < unat count" "b = word_of_nat (k * unat width)"
      "k < (8 + unat width - 1) div unat width"
      using assms(3) by (auto simp: ModeMultiple vector_elements_def lane_steps_def)
    moreover have "k * unat width + unat width \<le> 8" using calculation(4) w by auto
    ultimately show ?thesis using ModeMultiple by blast
  next
    case ModeLane
    have "unat lane * unat width + unat width \<le> 8"
      using assms(1) w by (auto simp: ModeLane transfer_lanes_ok_def word_less_nat_alt)
    moreover obtain i where "r = word_of_nat i" "i < unat count" "b = lane * width"
      using assms(3) w by (auto simp: ModeLane vector_elements_def lane_steps_def Let_def)
    moreover have "lane * width = word_of_nat (unat lane * unat width)" by simp
    ultimately show ?thesis using ModeLane by (metis vector_transfer_mode.distinct(9))
  next
    case ModeScalarMultiple
    then show ?thesis using assms(3) w by (auto simp: vector_elements_def lane_steps_def)
  qed (use assms(2) in simp)
qed

lemma transfer_in_bank:
  assumes "vector_ok (OpTransfer v)" "vt_mode v \<noteq> ModeReplicate"
    and "(r, b) \<in> set (vector_elements (vt_mode v) (unat (vt_count v)) (unat (vt_element_size v)) (unat (vt_lane v)))"
  shows "unat ((vt_first v + r) * (if vt_mode v = ModeScalarMultiple then vt_element_size v div 4 else 2) + b div 4)
      + (if vt_element_size v = 8 then 1 else 0) < 64"
proof -
  have ok: "transfer_lanes_ok (vt_mode v) (vt_count v) (vt_element_size v) (vt_lane v)"
    "vt_first v + vt_count v \<le> 32" "vt_first v < 32" using assms(1) by simp_all
  have n: "unat (vt_first v) < 32" "unat (vt_count v) \<le> 32" "unat (vt_first v) + unat (vt_count v) \<le> 32"
    using ok by (auto simp: transfer_lanes_ok_def word_less_nat_alt word_le_nat_alt unat_word_ariths)
  obtain i j where ij: "r = word_of_nat i" "i < unat (vt_count v)" "b = word_of_nat j"
    "j + unat (vt_element_size v) \<le> 8" "vt_mode v = ModeScalarMultiple \<Longrightarrow> j = 0"
    using transfer_element_byte [OF ok(1) assms(2,3)] by blast
  have u: "unat r = i" "unat b = j" using ij n by (simp_all add: unat_of_nat)
  have "unat (vt_first v + r) = unat (vt_first v) + i" "unat (vt_first v) + i < 32"
    using u(1) ij(2) n by (simp_all add: unat_word_ariths)
  moreover have "unat (b div 4) = j div 4" by (simp add: unat_div_distrib u)
  moreover have "vt_element_size v \<in> {1, 2, 4, 8}" "vt_mode v = ModeScalarMultiple \<Longrightarrow> vt_element_size v \<in> {4, 8}"
    using ok(1) by (auto simp: transfer_lanes_ok_def word_le_nat_alt)
  ultimately show ?thesis using ij(4,5)
    by (auto simp: unat_word_ariths)
qed

end
