(* ===== verification/Packed_Control.thy ===== *)
theory Packed_Control
  imports Arm_Simd Decode_Contract
begin

text \<open>
  The packed control words of the memory transactions. Each \<^verbatim>\<open>control\<close>
  function ORs its fields into one word and each \<^verbatim>\<open>complete\<close> function cuts
  them out again; the lemmas here say that every field comes back for the operands the
  decoders can produce, so that the execution lemmas never see the packing.
\<close>

unbundle bit_operations_syntax

section \<open>Fields of a word\<close>

definition bits_at :: "nat \<Rightarrow> nat \<Rightarrow> u32 \<Rightarrow> u32" where
  "bits_at k j x = drop_bit k x AND mask j"

lemma bit_bits_at: "bit (bits_at k j x) n \<longleftrightarrow> n < j \<and> bit x (k + n)"
  unfolding bits_at_def bit_and_iff bit_drop_bit_eq bit_mask_iff o_apply
  using bit_imp_le_length [of x "k + n"] by auto

lemma bit_small:
  fixes x :: u32
  assumes "x < 2 ^ k" "bit x n" shows "n < k"
proof (rule ccontr)
  assume "\<not> n < k"
  moreover have "n < 32" using bit_imp_le_length [OF assms(2)] by simp
  ultimately have "x = take_bit k x" using less_exp_iff_take_bit [of k x] assms(1) by simp
  then show False using assms(2) \<open>\<not> n < k\<close> by (metis bit_take_bit_iff)
qed

named_theorems packing "cutting a field out of a packed control word"

lemma bits_at_or [packing]: "bits_at k j (x OR y) = bits_at k j x OR bits_at k j y"
  by (rule bit_word_eqI) (auto simp: bit_bits_at bit_or_iff)

lemma bits_at_if [packing]: "bits_at k j (if c then x else 0) = (if c then bits_at k j x else 0)"
  by (simp add: bits_at_def)

lemma bits_at_0 [packing]: "bits_at k j 0 = 0" by (simp add: bits_at_def)

lemma bits_at_above [packing]: "k + j \<le> i \<Longrightarrow> bits_at k j (push_bit i x) = 0"
  by (rule bit_word_eqI) (simp add: bit_bits_at bit_push_bit_iff)

lemma bits_at_here:
  assumes "x < 2 ^ j" "k + j \<le> 32" shows "bits_at k j (push_bit k x) = x"
proof (rule bit_word_eqI)
  fix n show "bit (bits_at k j (push_bit k x)) n = bit x n"
    using bit_small [OF assms(1), of n] assms(2) by (auto simp: bit_bits_at bit_push_bit_iff)
qed

lemma bits_at_below:
  assumes "x < 2 ^ w" "i + w \<le> k" shows "bits_at k j (push_bit i x) = 0"
proof (rule bit_word_eqI)
  fix n show "bit (bits_at k j (push_bit i x)) n = bit (0 :: u32) n"
    using bit_small [OF assms(1), of "k + n - i"] assms(2) by (auto simp: bit_bits_at bit_push_bit_iff)
qed

text \<open>The widths that occur.\<close>

lemma bits_at_widths [packing]:
  "x < 2 \<Longrightarrow> i + 1 \<le> k \<Longrightarrow> bits_at k j (push_bit i x) = 0"
  "x < 4 \<Longrightarrow> i + 2 \<le> k \<Longrightarrow> bits_at k j (push_bit i x) = 0"
  "x < 8 \<Longrightarrow> i + 3 \<le> k \<Longrightarrow> bits_at k j (push_bit i x) = 0"
  "x < 16 \<Longrightarrow> i + 4 \<le> k \<Longrightarrow> bits_at k j (push_bit i x) = 0"
  "x < 32 \<Longrightarrow> i + 5 \<le> k \<Longrightarrow> bits_at k j (push_bit i x) = 0"
  "x < 64 \<Longrightarrow> i + 6 \<le> k \<Longrightarrow> bits_at k j (push_bit i x) = 0"
  "x < 65536 \<Longrightarrow> i + 16 \<le> k \<Longrightarrow> bits_at k j (push_bit i x) = 0"
  using bits_at_below [of x 1 i k j] bits_at_below [of x 2 i k j] bits_at_below [of x 3 i k j]
    bits_at_below [of x 4 i k j] bits_at_below [of x 5 i k j] bits_at_below [of x 6 i k j]
    bits_at_below [of x 16 i k j] by simp_all

lemma bits_at_own [packing]:
  "x < 2 \<Longrightarrow> k + 1 \<le> 32 \<Longrightarrow> bits_at k 1 (push_bit k x) = x"
  "x < 4 \<Longrightarrow> k + 2 \<le> 32 \<Longrightarrow> bits_at k 2 (push_bit k x) = x"
  "x < 8 \<Longrightarrow> k + 3 \<le> 32 \<Longrightarrow> bits_at k 3 (push_bit k x) = x"
  "x < 16 \<Longrightarrow> k + 4 \<le> 32 \<Longrightarrow> bits_at k 4 (push_bit k x) = x"
  "x < 32 \<Longrightarrow> k + 5 \<le> 32 \<Longrightarrow> bits_at k 5 (push_bit k x) = x"
  "x < 64 \<Longrightarrow> k + 6 \<le> 32 \<Longrightarrow> bits_at k 6 (push_bit k x) = x"
  "x < 65536 \<Longrightarrow> k + 16 \<le> 32 \<Longrightarrow> bits_at k 16 (push_bit k x) = x"
  using bits_at_here [of x 1 k] bits_at_here [of x 2 k] bits_at_here [of x 3 k]
    bits_at_here [of x 4 k] bits_at_here [of x 5 k] bits_at_here [of x 6 k]
    bits_at_here [of x 16 k] by simp_all

text \<open>The lowest field is not shifted.\<close>

lemmas bits_at_lowest [packing] =
  bits_at_widths [where i = 0, unfolded push_bit_0_id id_apply add_0]
  bits_at_own [where k = 0, unfolded push_bit_0_id id_apply add_0]

text \<open>The shapes the code writes.\<close>

lemma field_shapes:
  "x AND 3 = bits_at 0 2 x" "x AND 7 = bits_at 0 3 x" "x AND 15 = bits_at 0 4 x"
  "x AND 31 = bits_at 0 5 x" "x AND 63 = bits_at 0 6 x" "x AND 0xffff = bits_at 0 16 x"
  by (simp_all add: bits_at_def mask_eq_exp_minus_1)

lemma bits_at_drop [packing]: "bits_at 0 j (drop_bit k x) = bits_at k j x"
  by (simp add: bits_at_def)

lemma flag_shape: "x AND push_bit k 1 \<noteq> 0 \<longleftrightarrow> bits_at k 1 x \<noteq> 0"
proof -
  have "bits_at k 1 x \<noteq> 0 \<longleftrightarrow> (\<exists>n. bit (bits_at k 1 x) n)"
    by (metis bit_0_eq bit_word_eqI bot_apply bot_bool_def)
  then have "bits_at k 1 x \<noteq> 0 \<longleftrightarrow> bit x k"
    unfolding bit_bits_at by auto
  then show ?thesis using flag_set_iff [of x k] unfolding flag_set_def by simp
qed

lemma flag_off_shape: "x AND push_bit k 1 = 0 \<longleftrightarrow> bits_at k 1 x = 0"
  using flag_shape [of x k] by auto

section \<open>The four control words\<close>

lemma field_at_0: "x = push_bit 0 x" for x :: u32
  by simp

lemmas control_bits = load_bit_def signed_bit_def writeback_bit_def table_branch_bit_def
  dual_bit_def multiple_load_def multiple_writeback_def exclusive_load_def exclusive_clear_def
  exclusive_exchange_def vector_load_def vector_writeback_def

lemmas control_shapes = field_shapes flag_shape flag_off_shape control_bits

lemma transfer_control_fields:
  assumes "registers_ok inst" "access_size inst < 8" "inst_size inst < 8"
  defines "control \<equiv> transfer_control inst"
  shows "control AND 7 = access_size inst" "drop_bit 8 control AND 15 = rd inst"
    "drop_bit 12 control AND 15 = rn inst" "drop_bit 16 control AND 7 = inst_size inst"
    "kind inst = DualTransfer \<Longrightarrow> drop_bit 20 control AND 15 = rs inst"
    "control AND load_bit = 0 \<longleftrightarrow> \<not> load inst"
    "control AND signed_bit = 0 \<longleftrightarrow> \<not> inst_sign_extend inst"
    "control AND writeback_bit = 0 \<longleftrightarrow> \<not> writeback inst"
    "control AND table_branch_bit = 0 \<longleftrightarrow> kind inst \<noteq> TableBranch"
    "control AND dual_bit = 0 \<longleftrightarrow> kind inst \<noteq> DualTransfer"
proof -
  have small: "rd inst < 16" "rn inst < 16" "rs inst < 16" "access_size inst < 8" "inst_size inst < 8"
    using assms(1-3) by (simp_all add: registers_ok_def)
  show "control AND 7 = access_size inst" "drop_bit 8 control AND 15 = rd inst"
    "drop_bit 12 control AND 15 = rn inst" "drop_bit 16 control AND 7 = inst_size inst"
    "kind inst = DualTransfer \<Longrightarrow> drop_bit 20 control AND 15 = rs inst"
    "control AND load_bit = 0 \<longleftrightarrow> \<not> load inst"
    "control AND signed_bit = 0 \<longleftrightarrow> \<not> inst_sign_extend inst"
    "control AND writeback_bit = 0 \<longleftrightarrow> \<not> writeback inst"
    "control AND table_branch_bit = 0 \<longleftrightarrow> kind inst \<noteq> TableBranch"
    "control AND dual_bit = 0 \<longleftrightarrow> kind inst \<noteq> DualTransfer"
    unfolding control_def transfer_control_def control_shapes
    by (simp_all add: packing small del: push_bit_of_1 One_nat_def)
qed

lemma multiple_control_fields:
  assumes "registers_ok inst" "registers inst < 65536" "inst_size inst < 8"
  defines "control \<equiv> multiple_control inst"
  shows "control AND 0xffff = registers inst" "drop_bit 20 control AND 15 = rn inst"
    "drop_bit 24 control AND 7 = inst_size inst"
    "control AND multiple_load = 0 \<longleftrightarrow> \<not> load inst"
    "control AND multiple_writeback = 0 \<longleftrightarrow> \<not> writeback inst"
proof -
  have small: "rn inst < 16" "registers inst < 65536" "inst_size inst < 8"
    using assms(1-3) by (simp_all add: registers_ok_def)
  show "control AND 0xffff = registers inst" "drop_bit 20 control AND 15 = rn inst"
    "drop_bit 24 control AND 7 = inst_size inst"
    "control AND multiple_load = 0 \<longleftrightarrow> \<not> load inst"
    "control AND multiple_writeback = 0 \<longleftrightarrow> \<not> writeback inst"
    unfolding control_def multiple_control_def control_shapes
    by (simp_all add: packing small del: push_bit_of_1 One_nat_def)
qed

lemma exclusive_control_fields:
  assumes "registers_ok inst" "access_size inst < 16" "inst_size inst < 8"
  defines "control \<equiv> exclusive_control inst"
  shows "control AND 15 = access_size inst" "drop_bit 8 control AND 15 = rd inst"
    "drop_bit 12 control AND 15 = rs inst" "drop_bit 16 control AND 7 = inst_size inst"
    "control AND exclusive_load = 0 \<longleftrightarrow> \<not> load inst"
    "control AND exclusive_clear = 0 \<longleftrightarrow> kind inst \<noteq> ClearExclusive"
    "control AND exclusive_exchange = 0 \<longleftrightarrow> kind inst \<noteq> Swap"
proof -
  have small: "rd inst < 16" "rs inst < 16" "access_size inst < 16" "inst_size inst < 8"
    using assms(1-3) by (simp_all add: registers_ok_def)
  show "control AND 15 = access_size inst" "drop_bit 8 control AND 15 = rd inst"
    "drop_bit 12 control AND 15 = rs inst" "drop_bit 16 control AND 7 = inst_size inst"
    "control AND exclusive_load = 0 \<longleftrightarrow> \<not> load inst"
    "control AND exclusive_clear = 0 \<longleftrightarrow> kind inst \<noteq> ClearExclusive"
    "control AND exclusive_exchange = 0 \<longleftrightarrow> kind inst \<noteq> Swap"
    unfolding control_def exclusive_control_def control_shapes
    by (simp_all add: packing small del: push_bit_of_1 One_nat_def)
qed

lemma transfer_mode_code: "transfer_mode_code mode < 4"
  "transfer_mode_of (transfer_mode_code mode) = mode"
  by (cases mode; simp add: transfer_mode_of_def)+

lemma vector_control_fields:
  assumes "registers_ok inst" "inst_size inst < 8" "vt_first v < 32" "vt_count v < 64"
    "vt_element_size v < 16" "vt_lane v < 8"
  defines "control \<equiv> vector_control inst v"
  shows "control AND 31 = vt_first v" "drop_bit 5 control AND 63 = vt_count v"
    "drop_bit 11 control AND 15 = vt_element_size v" "drop_bit 15 control AND 15 = rn inst"
    "drop_bit 21 control AND 7 = inst_size inst"
    "drop_bit 24 control AND 3 = transfer_mode_code (vt_mode v)"
    "drop_bit 26 control AND 7 = vt_lane v"
    "control AND vector_load = 0 \<longleftrightarrow> \<not> load inst"
    "control AND vector_writeback = 0 \<longleftrightarrow> \<not> writeback inst"
proof -
  have small: "rn inst < 16" using assms(1) by (simp add: registers_ok_def)
  note small = small assms(2-6) transfer_mode_code(1) [of "vt_mode v"]
  show "control AND 31 = vt_first v" "drop_bit 5 control AND 63 = vt_count v"
    "drop_bit 11 control AND 15 = vt_element_size v" "drop_bit 15 control AND 15 = rn inst"
    "drop_bit 21 control AND 7 = inst_size inst"
    "drop_bit 24 control AND 3 = transfer_mode_code (vt_mode v)"
    "drop_bit 26 control AND 7 = vt_lane v"
    "control AND vector_load = 0 \<longleftrightarrow> \<not> load inst"
    "control AND vector_writeback = 0 \<longleftrightarrow> \<not> writeback inst"
    unfolding control_def vector_control_def control_shapes
    by (simp_all add: packing small del: push_bit_of_1 One_nat_def)
qed

end
