(* ===== verification/Arm_Status.thy ===== *)
theory Arm_Status
  imports Arm_Instruction Word_Facts
begin

text \<open>
  The user-visible program status register and writes to the program counter:
  \<^verbatim>\<open>arm/include/arm/program_status.hpp\<close> and
  \<^verbatim>\<open>arm/include/arm/pc_write.hpp\<close>.
\<close>

unbundle bit_operations_syntax

section \<open>Definitions\<close>

definition read_program_status :: "u32 \<Rightarrow> u32" where
  "read_program_status cpsr = cpsr AND 0xf8ff03df"

definition program_status_write_mask :: "u32 \<Rightarrow> u32" where
  "program_status_write_mask bytes =
    (if bytes AND 8 \<noteq> 0 then 0xf8000000 else 0) OR
    (if bytes AND 4 \<noteq> 0 then 0x000f0000 else 0) OR
    (if bytes AND 2 \<noteq> 0 then 0x00000200 else 0)"

definition program_status_writes_endianness :: "instruction \<Rightarrow> bool" where
  "program_status_writes_endianness inst \<longleftrightarrow>
    kind inst = SystemControl \<and> system inst = ProgramStatusRegister \<and>
    \<not> load inst \<and> opcode inst AND 2 \<noteq> 0"

definition alu_writes_pc :: "instruction \<Rightarrow> bool" where
  "alu_writes_pc inst \<longleftrightarrow>
    kind inst = DataProcessing \<and> rd inst = 15 \<and> (opcode inst < 8 \<or> 11 < opcode inst)"

definition alu_interworks :: "bool \<Rightarrow> alu_pc_write_profile \<Rightarrow> bool" where
  "alu_interworks thumb profile \<longleftrightarrow> \<not> thumb \<and> profile = Interworking"

record pc_write =
  pcw_address :: u32
  pcw_thumb :: bool

definition alu_write_pc :: "u32 \<Rightarrow> bool \<Rightarrow> alu_pc_write_profile \<Rightarrow> pc_write option" where
  "alu_write_pc v thumb profile =
    (if alu_interworks thumb profile \<and> v AND 3 = 2 then None
     else let thumb = (if alu_interworks thumb profile then v AND 1 \<noteq> 0 else thumb) in
       Some \<lparr>pcw_address = v AND (if thumb then NOT 1 else NOT 3), pcw_thumb = thumb\<rparr>)"

section \<open>Alignment\<close>

text \<open>The address written is aligned for the instruction set it selects, and it is the
  requested address up to the bits that alignment clears; ARMv7 interworking refuses exactly
  the addresses that are neither.\<close>

lemma bit_and_not_low:
  "bit (v AND NOT 1 :: u32) n \<longleftrightarrow> 1 \<le> n \<and> bit v n"
  "bit (v AND NOT 3 :: u32) n \<longleftrightarrow> 2 \<le> n \<and> bit v n"
proof -
  have m: "(1 :: u32) = mask 1" "(3 :: u32) = mask 2" by (simp_all add: mask_eq_exp_minus_1)
  show "bit (v AND NOT 1 :: u32) n \<longleftrightarrow> 1 \<le> n \<and> bit v n"
    using bit_imp_le_length [of v n] unfolding m(1) bit_and_iff bit_not_iff bit_mask_iff by auto
  show "bit (v AND NOT 3 :: u32) n \<longleftrightarrow> 2 \<le> n \<and> bit v n"
    using bit_imp_le_length [of v n] unfolding m(2) bit_and_iff bit_not_iff bit_mask_iff by auto
qed

lemma bit_and_minus_low:
  "bit (v AND - 2 :: u32) n \<longleftrightarrow> 1 \<le> n \<and> bit v n"
  "bit (v AND - 4 :: u32) n \<longleftrightarrow> 2 \<le> n \<and> bit v n"
  using bit_and_not_low [of v n] by simp_all

lemma and_3_eq_2_iff:
  "v AND 3 = (2 :: u32) \<longleftrightarrow> \<not> bit v 0 \<and> bit v 1"
proof -
  have m: "(3 :: u32) = mask 2" by (simp add: mask_eq_exp_minus_1)
  have two: "bit (2 :: u32) n \<longleftrightarrow> n = 1" for n
    using bit_exp_iff [of 1 n, where ?'a = "32 word"] by auto
  have step: "bit (v AND 3) n = bit (2 :: u32) n \<longleftrightarrow> ((n < 2 \<and> bit v n) \<longleftrightarrow> n = 1)" for n
    using bit_imp_le_length [of v n] unfolding m bit_and_iff bit_mask_iff two by auto
  have "v AND 3 = 2 \<longleftrightarrow> (\<forall>n. bit (v AND 3) n = bit (2 :: u32) n)"
  proof (rule iffI)
    assume all: "\<forall>n. bit (v AND 3) n = bit (2 :: u32) n"
    show "v AND 3 = 2" by (rule bit_word_eqI) (rule all [rule_format])
  qed (rule allI, simp only:)
  also have "\<dots> \<longleftrightarrow> (\<forall>n. (n < 2 \<and> bit v n) \<longleftrightarrow> n = 1)"
    unfolding step ..
  also have "\<dots> \<longleftrightarrow> \<not> bit v 0 \<and> bit v 1"
    (is "(\<forall>n. ?P n) \<longleftrightarrow> ?Q")
  proof
    assume all: "\<forall>n. ?P n"
    show ?Q using all [rule_format, of 0] all [rule_format, of 1] by simp
  next
    assume ?Q
    then show "\<forall>n. ?P n" by (auto simp: less_2_cases_iff)
  qed
  finally show ?thesis .
qed

lemma alu_write_pc_aligned:
  "case alu_write_pc v thumb profile of
     None \<Rightarrow> \<not> thumb \<and> profile = Interworking \<and> \<not> bit v 0 \<and> bit v 1
   | Some w \<Rightarrow> (if pcw_thumb w then \<not> bit (pcw_address w) 0
         else \<not> bit (pcw_address w) 0 \<and> \<not> bit (pcw_address w) 1)
       \<and> (\<forall>n. 2 \<le> n \<longrightarrow> bit (pcw_address w) n = bit v n)
       \<and> (\<not> alu_interworks thumb profile \<longrightarrow> pcw_thumb w = thumb)"
  by (auto simp: alu_write_pc_def alu_interworks_def Let_def bit_and_minus_low and_3_eq_2_iff)

end
