(* ===== verification/Arm_Multiply.thy ===== *)
theory Arm_Multiply
  imports Arm_Integer
begin

text \<open>
  The multiplier (\<^verbatim>\<open>arm/multiply.cpp\<close>, \<^verbatim>\<open>arm/dual_halfword_multiply.cpp\<close>,
  \<^verbatim>\<open>arm/include/arm/multiply.hpp\<close>): every word, long, halfword and dual-halfword
  operation, with its accumulation and flags. The C++ widens to \<^verbatim>\<open>std::int64_t\<close>, where
  no operation overflows; the model computes in \<open>int\<close> and truncates where the code casts.
\<close>

unbundle bit_operations_syntax

section \<open>Definitions\<close>

datatype multiply_operation =
    MulWord | MulSubtract | MulLong | MulDualAccumulateLong | MulHigh | MulHighSubtract
  | MulHalfword | MulWordHalfword | MulHalfwordLong | MulDualHalfword
  | MulDualHalfwordSubtract | MulDualHalfwordLong | MulDualHalfwordLongSubtract

text \<open>The enumerators' values, in both directions; an \<^verbatim>\<open>Instruction\<close> stores the
  number in \<open>opcode\<close>. A number without an enumerator has no operation.\<close>

definition multiply_operations :: "multiply_operation list" where
  "multiply_operations = [MulWord, MulSubtract, MulLong, MulDualAccumulateLong, MulHigh,
     MulHighSubtract, MulHalfword, MulWordHalfword, MulHalfwordLong, MulDualHalfword,
     MulDualHalfwordSubtract, MulDualHalfwordLong, MulDualHalfwordLongSubtract]"

fun multiply_code :: "multiply_operation \<Rightarrow> u32" where
  "multiply_code MulWord = 0"
| "multiply_code MulSubtract = 1"
| "multiply_code MulLong = 2"
| "multiply_code MulDualAccumulateLong = 3"
| "multiply_code MulHigh = 4"
| "multiply_code MulHighSubtract = 5"
| "multiply_code MulHalfword = 6"
| "multiply_code MulWordHalfword = 7"
| "multiply_code MulHalfwordLong = 8"
| "multiply_code MulDualHalfword = 9"
| "multiply_code MulDualHalfwordSubtract = 10"
| "multiply_code MulDualHalfwordLong = 11"
| "multiply_code MulDualHalfwordLongSubtract = 12"

definition multiply_operation_of :: "u32 \<Rightarrow> multiply_operation option" where
  "multiply_operation_of x =
    (if unat x < length multiply_operations then Some (multiply_operations ! unat x) else None)"

definition multiply_writes_pair :: "multiply_operation option \<Rightarrow> bool" where
  "multiply_writes_pair operation \<longleftrightarrow>
    operation = Some MulLong \<or> operation = Some MulDualAccumulateLong \<or>
    operation = Some MulHalfwordLong \<or> operation = Some MulDualHalfwordLong \<or>
    operation = Some MulDualHalfwordLongSubtract"

definition is_dual_halfword :: "multiply_operation option \<Rightarrow> bool" where
  "is_dual_halfword operation \<longleftrightarrow>
    operation = Some MulDualHalfword \<or> operation = Some MulDualHalfwordSubtract \<or>
    operation = Some MulDualHalfwordLong \<or> operation = Some MulDualHalfwordLongSubtract"

record multiply_result =
  mul_value :: u64
  mul_cpsr :: u32

text \<open>\<^verbatim>\<open>std::bit_cast<std::int16_t>(static_cast<std::uint16_t>(word >> shift))\<close>.\<close>

definition signed_half :: "u32 \<Rightarrow> nat \<Rightarrow> int" where
  "signed_half w n = sint (ucast (drop_bit n w) :: u16)"

definition wide_pair :: "u32 \<Rightarrow> u32 \<Rightarrow> u64" where
  "wide_pair high low = push_bit 32 (ucast high) OR ucast low"

definition multiply_q :: "u32 \<Rightarrow> u64 \<Rightarrow> u32" where
  "multiply_q cpsr wide_sum =
    (let value = sint wide_sum in
     if value < - (2 ^ 31) \<or> value > 2 ^ 31 - 1 then cpsr OR push_bit 27 1 else cpsr)"

definition dual_halfword_multiply ::
  "instruction \<Rightarrow> u32 \<Rightarrow> u32 \<Rightarrow> u32 \<Rightarrow> u32 \<Rightarrow> u32 \<Rightarrow> multiply_result" where
  "dual_halfword_multiply inst first second low high cpsr =
    (let operation = multiply_operation_of (opcode inst);
         second = (if exchange inst then word_rotl 16 second else second);
         first_product = signed_half first 0 * signed_half second 0;
         second_product = signed_half first 16 * signed_half second 16;
         subtract = (operation = Some MulDualHalfwordSubtract \<or>
                     operation = Some MulDualHalfwordLongSubtract);
         product = (if subtract then first_product - second_product
                    else first_product + second_product) in
     if multiply_writes_pair operation
     then \<lparr>mul_value = word_of_int product + wide_pair high low, mul_cpsr = cpsr\<rparr>
     else let sum = product + (if accumulate inst then sint high else 0);
              wide = (word_of_int sum :: u64) in
       \<lparr>mul_value = ucast (ucast wide :: u32), mul_cpsr = multiply_q cpsr wide\<rparr>)"

definition multiply :: "instruction \<Rightarrow> u32 \<Rightarrow> u32 \<Rightarrow> u32 \<Rightarrow> u32 \<Rightarrow> u64" where
  "multiply inst first second low high =
    (let operation = multiply_operation_of (opcode inst) in
     if is_dual_halfword operation
     then mul_value (dual_halfword_multiply inst first second low high 0)
     else if operation = Some MulWordHalfword
     then let half = signed_half second (if shift_amount inst AND 2 \<noteq> 0 then 16 else 0);
              product = sint first * half in
       word_of_int (product div 2 ^ 16 + (if accumulate inst then sint high else 0))
     else if operation = Some MulHalfword \<or> operation = Some MulHalfwordLong
     then let product = signed_half first (if shift_amount inst AND 1 \<noteq> 0 then 16 else 0) *
                signed_half second (if shift_amount inst AND 2 \<noteq> 0 then 16 else 0) in
       (if operation = Some MulHalfwordLong then word_of_int product + wide_pair high low
        else if accumulate inst then word_of_int (product + sint high)
        else ucast (word_of_int product :: u32))
     else
       let product = (if inst_sign_extend inst
             then (word_of_int (sint first * sint second) :: u64)
             else ucast first * ucast second) in
       case operation of
         Some MulWord \<Rightarrow>
           ucast (ucast (product + (if accumulate inst then ucast high else 0)) :: u32)
       | Some MulSubtract \<Rightarrow> ucast (ucast (ucast high - product) :: u32)
       | Some MulLong \<Rightarrow> product + (if accumulate inst then wide_pair high low else 0)
       | Some MulDualAccumulateLong \<Rightarrow> product + ucast low + ucast high
       | Some MulHigh \<Rightarrow>
           (let addend = (if accumulate inst then push_bit 32 (ucast high) else 0);
                value = addend + product in
            ucast (ucast (drop_bit 32 (value + (if shift_amount inst \<noteq> 0 then 0x80000000 else 0))) :: u32))
       | Some MulHighSubtract \<Rightarrow>
           (let addend = (if accumulate inst then push_bit 32 (ucast high) else 0);
                value = addend - product in
            ucast (ucast (drop_bit 32 (value + (if shift_amount inst \<noteq> 0 then 0x80000000 else 0))) :: u32))
       | _ \<Rightarrow> 0)"

definition multiply_nz :: "instruction \<Rightarrow> u32 \<Rightarrow> u64 \<Rightarrow> u32" where
  "multiply_nz inst cpsr value =
    (let top = (ucast (if multiply_writes_pair (multiply_operation_of (opcode inst))
                       then drop_bit 32 value else value) :: u32) in
     (cpsr AND 0x3fffffff) OR (top AND 0x80000000) OR (if value = 0 then 0x40000000 else 0))"

definition calculate_multiply ::
  "instruction \<Rightarrow> u32 \<Rightarrow> u32 \<Rightarrow> u32 \<Rightarrow> u32 \<Rightarrow> u32 \<Rightarrow> multiply_result" where
  "calculate_multiply inst first second low high cpsr =
    (let operation = multiply_operation_of (opcode inst) in
     if is_dual_halfword operation
     then dual_halfword_multiply inst first second low high cpsr
     else let value = multiply inst first second low high;
       cpsr = (if set_flags inst then multiply_nz inst cpsr value
               else if accumulate inst \<and>
                   (operation = Some MulHalfword \<or> operation = Some MulWordHalfword)
               then multiply_q cpsr value else cpsr) in
       \<lparr>mul_value = value, mul_cpsr = cpsr\<rparr>)"

section \<open>Operation codes\<close>

lemma multiply_code_roundtrip [simp]: "multiply_operation_of (multiply_code op) = Some op"
  by (cases op) (simp_all add: multiply_operation_of_def multiply_operations_def)

section \<open>Wide values\<close>

lemma unat_wide_pair: "unat (wide_pair high low) = unat high * 2 ^ 32 + unat low"
proof -
  have disj: "push_bit 32 (ucast high :: u64) AND ucast low = 0"
    by (rule bit_word_eqI) (auto simp: bit_simps dest: bit_imp_le_length)
  have "wide_pair high low = push_bit 32 (ucast high) + ucast low"
    unfolding wide_pair_def by (rule disjunctive_add_eq_or [symmetric]) (rule disj)
  also have "\<dots> = word_of_nat (unat high * 2 ^ 32 + unat low)"
    by (simp add: push_bit_eq_mult)
  finally have "unat (wide_pair high low) = (unat high * 2 ^ 32 + unat low) mod 2 ^ LENGTH(64)"
    by (simp only: unat_of_nat)
  then show ?thesis using unat_u32_less [of high] unat_u32_less [of low] by simp
qed

lemma uint_wide_pair: "uint (wide_pair high low) = uint high * 2 ^ 32 + uint low"
  using arg_cong [OF unat_wide_pair [of high low], of int] by simp

section \<open>Exact products\<close>

lemma sint_word_of_int_u64:
  "- (2 ^ 63) \<le> k \<Longrightarrow> k < 2 ^ 63 \<Longrightarrow> sint (word_of_int k :: u64) = k"
  by (simp add: signed_of_int signed_take_bit_int_eq_self)

lemma product_bound:
  fixes x y m n :: int
  assumes "\<bar>x\<bar> \<le> m" "\<bar>y\<bar> \<le> n"
  shows "\<bar>x * y\<bar> \<le> m * n"
  unfolding abs_mult using assms by (intro mult_mono) auto

lemma sint_product_bound: "\<bar>sint (f :: u32) * sint (s :: u32)\<bar> \<le> 2 ^ 62"
  using product_bound [of "sint f" "2 ^ 31" "sint s" "2 ^ 31"] sint_u32_bounds [of f]
    sint_u32_bounds [of s] by (simp add: abs_le_iff)

lemma signed_half_bound: "\<bar>signed_half w n\<bar> \<le> 2 ^ 15"
  using sint_greater_eq [of "ucast (drop_bit n w) :: u16"]
    sint_less [of "ucast (drop_bit n w) :: u16"]
  by (simp add: signed_half_def abs_le_iff)

lemma signed_half_product_bound: "\<bar>signed_half f n * signed_half s m\<bar> \<le> 2 ^ 30"
  using product_bound [OF signed_half_bound signed_half_bound, of f n s m] by simp

lemma uint_product:
  "uint ((ucast f :: u64) * ucast s) = uint (f :: u32) * uint (s :: u32)"
proof -
  have "(ucast f :: u64) * ucast s = word_of_int (uint f * uint s)" by simp
  then have "uint ((ucast f :: u64) * ucast s) = (uint f * uint s) mod 2 ^ LENGTH(64)"
    by (simp only: uint_word_of_int)
  moreover have "uint f * uint s < 2 ^ 32 * 2 ^ 32"
    using unsigned_less [of f, where ?'a = int] unsigned_less [of s, where ?'a = int]
    by (intro mult_strict_mono) auto
  ultimately show ?thesis by simp
qed

lemma plain_operation:
  assumes "multiply_operation_of (opcode inst) = Some op"
    and "op \<in> {MulWord, MulSubtract, MulLong, MulDualAccumulateLong, MulHigh, MulHighSubtract}"
  shows "mul_value (calculate_multiply inst f s low high cpsr) = multiply inst f s low high"
  using assms by (auto simp: calculate_multiply_def is_dual_halfword_def Let_def)

lemma ucast_word_of_int: "ucast (word_of_int k :: u64) = (word_of_int k :: u32)"
  by (rule bit_word_eqI) (simp add: bit_simps)

lemma low_product: "ucast (ucast f * ucast s :: u64) = f * (s :: u32)"
proof -
  have "(ucast f * ucast s :: u64) = word_of_int (uint f * uint s)" by simp
  then show ?thesis by (simp only: ucast_word_of_int) simp
qed

lemma nested_cast [simp]: "ucast (ucast (w :: u32) :: u64) = w"
  by (rule bit_word_eqI) (simp add: bit_simps)

lemma low_sum: "ucast (x + y) = (ucast x + ucast y :: u32)" for x y :: u64
  using ucast_word_of_int [of "uint x + uint y"] by simp

lemma low_diff: "ucast (x - y) = (ucast x - ucast y :: u32)" for x y :: u64
  using ucast_word_of_int [of "uint x - uint y"] by simp

section \<open>Properties\<close>

text \<open>A long multiplication (UMULL, SMULL, UMLAL, SMLAL) returns the exact 64-bit
  product, unsigned or signed as the instruction says, and accumulates modulo two to the 64.\<close>

theorem long_multiply_exact:
  fixes inst :: instruction and f s low high cpsr :: u32
  assumes "opcode inst = multiply_code MulLong"
  defines "v \<equiv> mul_value (calculate_multiply inst f s low high cpsr)"
  shows "if accumulate inst
    then uint v = (uint high * 2 ^ 32 + uint low +
      (if inst_sign_extend inst then sint f * sint s else uint f * uint s)) mod 2 ^ 64
    else if inst_sign_extend inst then sint v = sint f * sint s
    else uint v = uint f * uint s"
proof -
  have op: "multiply_operation_of (opcode inst) = Some MulLong"
    by (simp only: assms(1) multiply_code_roundtrip)
  have v: "v = (if inst_sign_extend inst then word_of_int (sint f * sint s) else ucast f * ucast s) +
      (if accumulate inst then wide_pair high low else 0)"
    unfolding v_def plain_operation [OF op, simplified]
    by (simp add: multiply_def op is_dual_halfword_def)
  have sum: "uint (word_of_int p + wide_pair high low :: u64) =
      (uint high * 2 ^ 32 + uint low + p) mod 2 ^ 64" for p
    by (simp add: uint_word_ariths uint_wide_pair uint_word_of_int mod_simps add.commute)
  have "uint (ucast f * ucast s + wide_pair high low :: u64) =
      (uint high * 2 ^ 32 + uint low + uint f * uint s) mod 2 ^ 64"
    using sum [of "uint f * uint s"] by simp
  then show ?thesis
    using sum [of "sint f * sint s"] uint_product [of f s] sint_product_bound [of f s]
      sint_word_of_int_u64 [of "sint f * sint s"]
    by (auto simp: v abs_le_iff)
qed

theorem long_multiply_exact_witness:
  "sint (mul_value (calculate_multiply
      (new_instruction\<lparr>opcode := multiply_code MulLong, inst_sign_extend := True\<rparr>)
      0xffffffff 7 0 0 0)) = - 7"
  using long_multiply_exact
    [of "new_instruction\<lparr>opcode := multiply_code MulLong, inst_sign_extend := True\<rparr>"
      "0xffffffff" 7 0 0 0]
  by (simp add: new_instruction_def)

text \<open>UMAAL never overflows: the product plus both 32-bit addends is exact in 64 bits.\<close>

theorem dual_accumulate_exact:
  fixes inst :: instruction and f s low high cpsr :: u32
  assumes "opcode inst = multiply_code MulDualAccumulateLong"
    and "\<not> inst_sign_extend inst"
  shows "unat (mul_value (calculate_multiply inst f s low high cpsr)) =
    unat f * unat s + unat low + unat high"
proof -
  have op: "multiply_operation_of (opcode inst) = Some MulDualAccumulateLong"
    by (simp only: assms(1) multiply_code_roundtrip)
  have "mul_value (calculate_multiply inst f s low high cpsr) =
      word_of_nat (unat f * unat s + unat low + unat high)"
    unfolding plain_operation [OF op, simplified]
    by (simp add: multiply_def op is_dual_halfword_def assms(2))
  then have "unat (mul_value (calculate_multiply inst f s low high cpsr)) =
      (unat f * unat s + unat low + unat high) mod 2 ^ LENGTH(64)"
    by (simp only: unat_of_nat)
  moreover have "unat f * unat s \<le> (2 ^ 32 - 1) * (2 ^ 32 - 1)"
    using unat_u32_less [of f] unat_u32_less [of s] by (intro mult_le_mono) auto
  ultimately show ?thesis using unat_u32_less [of low] unat_u32_less [of high] by simp
qed

theorem dual_accumulate_exact_witness:
  "unat (mul_value (calculate_multiply
      (new_instruction\<lparr>opcode := multiply_code MulDualAccumulateLong\<rparr>)
      0xffffffff 0xffffffff 0xffffffff 0xffffffff 0)) = 2 ^ 64 - 1"
  using dual_accumulate_exact
    [of "new_instruction\<lparr>opcode := multiply_code MulDualAccumulateLong\<rparr>"
      "0xffffffff" "0xffffffff" "0xffffffff" "0xffffffff" 0]
  by (simp add: new_instruction_def)

text \<open>MUL, MLA and MLS return the low word of the product, plus or minus the addend,
  modulo two to the 32, whatever the signedness bit says.\<close>

lemma word_multiply_low:
  fixes inst :: instruction and f s low high cpsr :: u32
  assumes "opcode inst = multiply_code op" and "op = MulWord \<or> op = MulSubtract"
  shows "ucast (mul_value (calculate_multiply inst f s low high cpsr)) =
    (if op = MulSubtract then high - f * s
     else f * s + (if accumulate inst then high else 0))"
proof -
  have op: "multiply_operation_of (opcode inst) = Some op" by (simp add: assms(1))
  have v: "mul_value (calculate_multiply inst f s low high cpsr) = multiply inst f s low high"
    using assms(2) by (intro plain_operation [OF op]) auto
  define p where "p = (if inst_sign_extend inst then word_of_int (sint f * sint s)
      else ucast f * ucast s :: u64)"
  have sp: "(word_of_int (sint f * sint s) :: u32) = f * s" by simp
  have p: "ucast p = f * s" unfolding p_def
    by (cases "inst_sign_extend inst") (simp_all only: if_True if_False ucast_word_of_int low_product sp)
  show ?thesis
    unfolding v using assms(2)
    by (elim disjE; simp only: multiply_def op is_dual_halfword_def p_def [symmetric] Let_def;
        simp add: low_sum low_diff p)
qed

text \<open>The Q flag, bit 27, is sticky: it is set when the wide sum leaves the 32-bit range.\<close>

lemma multiply_q_bits:
  "bit (multiply_q cpsr w) n \<longleftrightarrow>
    bit cpsr n \<or> (n = 27 \<and> (sint w < - (2 ^ 31) \<or> 2 ^ 31 \<le> sint w))"
  unfolding multiply_q_def Let_def by (auto simp only: bit_set_q split: if_splits)

text \<open>The exact value a signed halfword or dual-halfword instruction accumulates.\<close>

definition halfword_sum :: "instruction \<Rightarrow> u32 \<Rightarrow> u32 \<Rightarrow> int" where
  "halfword_sum inst f s =
    (let second = (if exchange inst then word_rotl 16 s else s);
         low = signed_half f 0 * signed_half second 0;
         high = signed_half f 16 * signed_half second 16 in
     case multiply_operation_of (opcode inst) of
       Some MulHalfword \<Rightarrow>
         signed_half f (if shift_amount inst AND 1 \<noteq> 0 then 16 else 0) *
         signed_half s (if shift_amount inst AND 2 \<noteq> 0 then 16 else 0)
     | Some MulWordHalfword \<Rightarrow>
         sint f * signed_half s (if shift_amount inst AND 2 \<noteq> 0 then 16 else 0) div 2 ^ 16
     | Some MulDualHalfwordSubtract \<Rightarrow> low - high
     | _ \<Rightarrow> low + high)"

lemma halfword_sum_bound:
  assumes "multiply_operation_of (opcode inst) =
    Some op" "op \<in> {MulHalfword, MulWordHalfword, MulDualHalfword, MulDualHalfwordSubtract}"
  shows "\<bar>halfword_sum inst f s\<bar> \<le> 2 ^ 47"
proof -
  have word: "\<bar>sint f * signed_half s n div 2 ^ 16\<bar> \<le> 2 ^ 47" for n
  proof -
    have "\<bar>sint f * signed_half s n\<bar> \<le> 2 ^ 31 * 2 ^ 15"
      using sint_u32_bounds [of f] by (intro product_bound signed_half_bound) simp
    then show ?thesis by (simp add: abs_le_iff) linarith
  qed
  have half: "\<bar>signed_half f n * signed_half t m\<bar> \<le> 2 ^ 30" for t n m
    by (rule signed_half_product_bound)
  show ?thesis
    using assms word half [of 0 "if exchange inst then word_rotl 16 s else s" 0]
      half [of 16 "if exchange inst then word_rotl 16 s else s" 16]
      half [of "if shift_amount inst AND 1 \<noteq> 0 then 16 else 0" s
        "if shift_amount inst AND 2 \<noteq> 0 then 16 else 0"]
    by (elim insertE; simp add: halfword_sum_def Let_def abs_le_iff; linarith)
qed

text \<open>The signed halfword accumulations (SMLAxy, SMLAWy, SMLAD, SMLSD) return the low
  word of the exact sum and set Q exactly when that sum does not fit 32 bits; Q is sticky
  and no other status bit changes.\<close>

theorem halfword_accumulate_saturation_flag:
  fixes inst :: instruction and f s low high cpsr :: u32
  assumes "multiply_operation_of (opcode inst) = Some op"
    and "op \<in> {MulHalfword, MulWordHalfword, MulDualHalfword, MulDualHalfwordSubtract}"
    and "accumulate inst" "\<not> set_flags inst"
  defines "r \<equiv> calculate_multiply inst f s low high cpsr"
    and "acc_sum \<equiv> halfword_sum inst f s + sint high"
  shows "(ucast (mul_value r) :: u32) = word_of_int acc_sum
    \<and> (bit (mul_cpsr r) 27 \<longleftrightarrow> bit cpsr 27 \<or> acc_sum < - (2 ^ 31) \<or> 2 ^ 31 \<le> acc_sum)
    \<and> (\<forall>n. n \<noteq> 27 \<longrightarrow> bit (mul_cpsr r) n = bit cpsr n)"
proof -
  have acc_sum: "sint (word_of_int acc_sum :: u64) = acc_sum"
    using halfword_sum_bound [OF assms(1,2), of f s] sint_u32_bounds [of high]
    by (intro sint_word_of_int_u64) (simp_all add: acc_sum_def abs_le_iff)
  have "(ucast (mul_value r) :: u32) = ucast (word_of_int acc_sum :: u64)
      \<and> mul_cpsr r = multiply_q cpsr (word_of_int acc_sum)"
    using assms(2)
    by (elim insertE emptyE; simp only: r_def acc_sum_def calculate_multiply_def multiply_def
        dual_halfword_multiply_def halfword_sum_def assms(1) Let_def multiply_writes_pair_def
        is_dual_halfword_def assms(3,4);
        simp add: ucast_word_of_int)
  then show ?thesis
    by (simp only: multiply_q_bits acc_sum ucast_word_of_int) auto
qed

theorem halfword_accumulate_saturation_flag_witness:
  "bit (mul_cpsr (calculate_multiply
      (new_instruction\<lparr>opcode := multiply_code MulHalfword, accumulate := True\<rparr>)
      1 1 0 0x7fffffff 0)) 27"
proof -
  have "multiply_operation_of (opcode (new_instruction\<lparr>opcode := multiply_code MulHalfword,
      accumulate := True\<rparr>)) = Some MulHalfword" by (simp del: multiply_code.simps)
  from halfword_accumulate_saturation_flag [OF this, of 1 1 0 "0x7fffffff" 0]
  show ?thesis
    by (simp add: new_instruction_def halfword_sum_def multiply_operation_of_def
        multiply_operations_def signed_half_def)
qed

end
