(* ===== verification/Arm_Saturating.thy ===== *)
theory Arm_Saturating
  imports Arm_Integer
begin

text \<open>
  Saturating and parallel (packed lane) arithmetic:
  \<^verbatim>\<open>arm/saturating_arithmetic.cpp\<close>, \<^verbatim>\<open>arm/parallel_arithmetic.cpp\<close> and
  \<^verbatim>\<open>arm/parallel_saturating.cpp\<close> with their headers. The lambdas of the code that
  capture \<open>cpsr\<close> by reference return the updated status; the loops over
  lanes are folds over the list of lane offsets.
\<close>

unbundle bit_operations_syntax

section \<open>Definitions\<close>

datatype saturating_operation =
  SatSigned | SatUnsigned | SatSignedHalfwords | SatUnsignedHalfwords
| SatAdd | SatSubtract | SatDoubleAdd | SatDoubleSubtract

definition saturating_operations :: "saturating_operation list" where
  "saturating_operations = [SatSigned, SatUnsigned, SatSignedHalfwords, SatUnsignedHalfwords,
     SatAdd, SatSubtract, SatDoubleAdd, SatDoubleSubtract]"

fun saturating_code :: "saturating_operation \<Rightarrow> u32" where
  "saturating_code SatSigned = 0"
| "saturating_code SatUnsigned = 1"
| "saturating_code SatSignedHalfwords = 2"
| "saturating_code SatUnsignedHalfwords = 3"
| "saturating_code SatAdd = 4"
| "saturating_code SatSubtract = 5"
| "saturating_code SatDoubleAdd = 6"
| "saturating_code SatDoubleSubtract = 7"

definition saturating_operation_of :: "u32 \<Rightarrow> saturating_operation option" where
  "saturating_operation_of x =
    (if unat x < length saturating_operations
     then Some (saturating_operations ! unat x) else None)"

text \<open>\<^verbatim>\<open>std::clamp\<close>.\<close>

definition clamp :: "int \<Rightarrow> int \<Rightarrow> int \<Rightarrow> int" where
  "clamp v lo hi = (if v < lo then lo else if hi < v then hi else v)"

definition saturate :: "int \<Rightarrow> u32 \<Rightarrow> bool \<Rightarrow> u32 \<Rightarrow> int \<times> u32" where
  "saturate v bits is_signed cpsr =
    (let minimum = (if is_signed then - (2 ^ unat (bits - 1)) else 0);
         maximum = 2 ^ unat (bits - of_bool is_signed) - 1;
         clamped = clamp v minimum maximum in
     (clamped, if clamped \<noteq> v then cpsr OR push_bit 27 1 else cpsr))"

definition saturating_arithmetic :: "instruction \<Rightarrow> u32 \<Rightarrow> u32 \<Rightarrow> u32 \<Rightarrow> alu_result" where
  "saturating_arithmetic inst first second cpsr =
    (let operation = saturating_operation_of (opcode inst) in
     if operation = Some SatSigned \<or> operation = Some SatUnsigned
     then let operand = sh_value (shift first (inst_shift inst) (shift_amount inst) False False);
              (v, cpsr) = saturate (sint operand) (immediate inst)
                (operation = Some SatSigned) cpsr in
       \<lparr>alu_value = word_of_int v, alu_cpsr = cpsr\<rparr>
     else if operation = Some SatSignedHalfwords \<or> operation = Some SatUnsignedHalfwords
     then let (result, cpsr) = foldl (\<lambda>(result, cpsr) offset.
                let v = sint (ucast (drop_bit offset first) :: u16);
                    (lane, cpsr) = saturate v (immediate inst)
                      (operation = Some SatSignedHalfwords) cpsr in
                (result OR push_bit offset (word_of_int lane AND 0xffff), cpsr)) (0, cpsr) [0, 16] in
       \<lparr>alu_value = result, alu_cpsr = cpsr\<rparr>
     else let addend = sint second;
              (addend, cpsr) =
                (if operation = Some SatDoubleAdd \<or> operation = Some SatDoubleSubtract
                 then saturate (2 * addend) 32 True cpsr else (addend, cpsr));
              subtract = (operation = Some SatSubtract \<or> operation = Some SatDoubleSubtract);
              v = sint first + (if subtract then - addend else addend);
              (v, cpsr) = saturate v 32 True cpsr in
       \<lparr>alu_value = word_of_int v, alu_cpsr = cpsr\<rparr>)"

datatype parallel_operation =
  ParAdd16 | ParAddSubtract | ParSubtractAdd | ParSubtract16 | ParAdd8 | ParSubtract8 | ParSelect

definition parallel_operations :: "parallel_operation list" where
  "parallel_operations = [ParAdd16, ParAddSubtract, ParSubtractAdd, ParSubtract16, ParAdd8,
     ParSubtract8, ParSelect]"

definition parallel_operation_of :: "u32 \<Rightarrow> parallel_operation option" where
  "parallel_operation_of x =
    (if unat x < length parallel_operations then Some (parallel_operations ! unat x) else None)"

record parallel_layout =
  lay_bits :: nat
  lay_exchange :: bool
  subtract_low :: bool
  subtract_high :: bool

definition layout_subtract :: "parallel_layout \<Rightarrow> nat \<Rightarrow> bool" where
  "layout_subtract layout offset =
    (if offset < 16 then subtract_low layout else subtract_high layout)"

definition make_layout :: "nat \<Rightarrow> bool \<Rightarrow> bool \<Rightarrow> bool \<Rightarrow> parallel_layout" where
  "make_layout bits exchanged low high =
    \<lparr>lay_bits = bits, lay_exchange = exchanged, subtract_low = low, subtract_high = high\<rparr>"

fun parallel_arithmetic_layout :: "parallel_operation option \<Rightarrow> parallel_layout" where
  "parallel_arithmetic_layout (Some ParAdd16) = make_layout 16 False False False"
| "parallel_arithmetic_layout (Some ParAddSubtract) = make_layout 16 True True False"
| "parallel_arithmetic_layout (Some ParSubtractAdd) = make_layout 16 True False True"
| "parallel_arithmetic_layout (Some ParSubtract16) = make_layout 16 False True True"
| "parallel_arithmetic_layout (Some ParAdd8) = make_layout 8 False False False"
| "parallel_arithmetic_layout (Some ParSubtract8) = make_layout 8 False True True"
| "parallel_arithmetic_layout (Some ParSelect) = make_layout 8 False False False"
| "parallel_arithmetic_layout None = make_layout 8 False False False"

definition lane_offsets :: "nat \<Rightarrow> nat list" where
  "lane_offsets bits = map (\<lambda>i. i * bits) [0..<32 div bits]"

definition select_mask :: "u32 \<Rightarrow> u32" where
  "select_mask cpsr =
    foldl (\<lambda>m byte. if flag_set cpsr (16 + byte) then m OR push_bit (byte * 8) 0xff else m)
      0 [0..<4]"

definition parallel_lane :: "bool \<Rightarrow> nat \<Rightarrow> nat \<Rightarrow> u32 \<Rightarrow> int" where
  "parallel_lane signed_lanes bits offset v =
    (let field = drop_bit offset v AND mask bits;
         sign = push_bit (bits - 1) 1 in
     if signed_lanes then uint (field XOR sign) - uint sign else uint field)"

definition parallel_arithmetic :: "instruction \<Rightarrow> u32 \<Rightarrow> u32 \<Rightarrow> u32 \<Rightarrow> alu_result" where
  "parallel_arithmetic inst first second cpsr =
    (let operation = parallel_operation_of (opcode inst) in
     if operation = Some ParSelect
     then let m = select_mask cpsr in
       \<lparr>alu_value = (first AND m) OR (second AND NOT m), alu_cpsr = cpsr\<rparr>
     else let layout = parallel_arithmetic_layout operation;
              second = (if lay_exchange layout then word_rotl 16 second else second);
              bits = lay_bits layout;
              (result, ge) = foldl (\<lambda>(result, ge) offset.
                let a = parallel_lane (inst_sign_extend inst) bits offset first;
                    b = parallel_lane (inst_sign_extend inst) bits offset second;
                    subtract = layout_subtract layout offset;
                    v = (if subtract then a - b else a + b);
                    greater_equal = (if inst_sign_extend inst \<or> subtract then 0 \<le> v
                                     else uint (mask bits :: u32) < v) in
                (result OR push_bit offset (word_of_int v AND mask bits),
                 if greater_equal then ge OR push_bit (offset div 8) (if bits = 16 then 3 else 1)
                 else ge)) (0, 0) (lane_offsets bits) in
       \<lparr>alu_value = result, alu_cpsr = (cpsr AND NOT 0x000f0000) OR push_bit 16 ge\<rparr>)"

datatype parallel_saturating_operation =
  PsUnsignedAdd16 | PsUnsignedAddSubtract | PsUnsignedSubtractAdd | PsUnsignedSubtract16
| PsUnsignedAdd8 | PsUnsignedSubtract8 | PsSignedAdd16 | PsSignedAddSubtract
| PsSignedSubtractAdd | PsSignedSubtract16 | PsSignedAdd8 | PsSignedSubtract8

fun parallel_saturating_code :: "parallel_saturating_operation \<Rightarrow> u32" where
  "parallel_saturating_code PsUnsignedAdd16 = 0"
| "parallel_saturating_code PsUnsignedAddSubtract = 1"
| "parallel_saturating_code PsUnsignedSubtractAdd = 2"
| "parallel_saturating_code PsUnsignedSubtract16 = 3"
| "parallel_saturating_code PsUnsignedAdd8 = 4"
| "parallel_saturating_code PsUnsignedSubtract8 = 5"
| "parallel_saturating_code PsSignedAdd16 = 6"
| "parallel_saturating_code PsSignedAddSubtract = 7"
| "parallel_saturating_code PsSignedSubtractAdd = 8"
| "parallel_saturating_code PsSignedSubtract16 = 9"
| "parallel_saturating_code PsSignedAdd8 = 10"
| "parallel_saturating_code PsSignedSubtract8 = 11"

definition parallel_saturating_layout :: "u32 \<Rightarrow> parallel_layout" where
  "parallel_saturating_layout operation =
    parallel_arithmetic_layout
      (parallel_operation_of (operation mod parallel_saturating_code PsSignedAdd16))"

definition parallel_saturating :: "instruction \<Rightarrow> u32 \<Rightarrow> u32 \<Rightarrow> u32" where
  "parallel_saturating inst first second =
    (let operation = opcode inst;
         layout = parallel_saturating_layout operation;
         signed_values = (parallel_saturating_code PsSignedAdd16 \<le> operation);
         second = (if lay_exchange layout then word_rotl 16 second else second);
         bits = lay_bits layout;
         sign = (if signed_values then push_bit (bits - 1) 1 else 0 :: int);
         minimum = - sign;
         maximum = uint (mask bits :: u32) - sign in
     foldl (\<lambda>result offset.
       let a = (uint (drop_bit offset first AND mask bits) XOR sign) - sign;
           b = (uint (drop_bit offset second AND mask bits) XOR sign) - sign;
           v = clamp (if layout_subtract layout offset then a - b else a + b) minimum maximum in
       result OR push_bit offset (word_of_int v AND mask bits)) 0 (lane_offsets bits))"

section \<open>Lanes\<close>

text \<open>A lane of \<open>bits\<close> bits at \<open>offset\<close>, read as a number.\<close>

definition lane :: "bool \<Rightarrow> nat \<Rightarrow> nat \<Rightarrow> u32 \<Rightarrow> int" where
  "lane signed_lanes bits offset w =
    (if signed_lanes then signed_take_bit (bits - 1) else take_bit bits) (uint (drop_bit offset w))"

lemma parallel_lane_eq:
  assumes "0 < bits" "bits \<le> 16"
  shows "parallel_lane s bits offset v = lane s bits offset v"
proof -
  obtain n where n: "bits = Suc n" using assms(1) by (cases bits) auto
  have sign: "uint (2 ^ n :: u32) = 2 ^ n"
    using unsigned_power_two [of n, where ?'a = 32] assms(2) uint_nat [of "2 ^ n :: u32"]
    by (simp add: n)
  show ?thesis
    using xor_sign [of n "uint (drop_bit offset v)"]
    by (simp add: parallel_lane_def lane_def n Let_def unsigned_xor_eq uint_field
        push_bit_eq_mult sign)
qed


lemma foldl_pair:
  "foldl (\<lambda>(a, b) x. (f a x, g b x)) (u, v) xs = (foldl f u xs, foldl g v xs)"
  by (induction xs arbitrary: u v) simp_all

text \<open>Every loop over lanes assembles its result the same way.\<close>

definition assemble :: "nat \<Rightarrow> (nat \<Rightarrow> u32) \<Rightarrow> u32" where
  "assemble bits f =
    foldl (\<lambda>r offset. r OR push_bit offset (f offset AND mask bits)) 0 (lane_offsets bits)"

lemma lane_offsets_8 [simp]: "lane_offsets 8 = [0, 8, 16, 24]"
  by (simp add: lane_offsets_def upt_rec)

lemma lane_offsets_16 [simp]: "lane_offsets 16 = [0, 16]"
  by (simp add: lane_offsets_def upt_rec)

lemma assemble_16: "assemble 16 f = take_bit 16 (f 0) OR push_bit 16 (take_bit 16 (f 16))"
  by (simp add: assemble_def take_bit_eq_mask mask_eq_exp_minus_1)

lemma assemble_8: "assemble 8 f = take_bit 8 (f 0) OR push_bit 8 (take_bit 8 (f 8)) OR
    push_bit 16 (take_bit 8 (f 16)) OR push_bit 24 (take_bit 8 (f 24))"
  by (simp add: assemble_def take_bit_eq_mask mask_eq_exp_minus_1 or.assoc)

lemma take_bit_assemble:
  assumes "bits = 8 \<or> bits = 16" and "offset \<in> set (lane_offsets bits)"
  shows "take_bit bits (drop_bit offset (assemble bits f)) = take_bit bits (f offset)"
  using assms
  by (elim disjE; simp; elim disjE; simp only: assemble_8 assemble_16;
      intro bit_word_eqI; auto simp: bit_simps)

lemma lane_assemble:
  assumes "bits = 8 \<or> bits = 16" and "offset \<in> set (lane_offsets bits)"
    and "f offset = word_of_int v"
  shows "lane s bits offset (assemble bits f) =
    (if s then signed_take_bit (bits - 1) v else take_bit bits v)"
proof -
  have "take_bit bits (uint (drop_bit offset (assemble bits f))) =
      uint (take_bit bits (drop_bit offset (assemble bits f)))"
    by (simp only: unsigned_take_bit_eq)
  also have "\<dots> = take_bit bits (take_bit 32 v)"
    by (simp only: take_bit_assemble [OF assms(1,2)] assms(3) unsigned_take_bit_eq uint_word_of_int_eq)
      simp
  also have "\<dots> = take_bit bits v" using assms(1) by auto
  finally have field: "take_bit bits (uint (drop_bit offset (assemble bits f))) = take_bit bits v" .
  obtain n where n: "bits = Suc n" using assms(1) by auto
  have "signed_take_bit n (uint (drop_bit offset (assemble bits f))) = signed_take_bit n v"
    using field by (simp only: n signed_take_bit_eq_iff_take_bit_eq)
  then show ?thesis using field by (simp add: lane_def n)
qed


lemma layout_bits:
  "lay_bits (parallel_arithmetic_layout op) = 8 \<or> lay_bits (parallel_arithmetic_layout op) = 16"
  by (cases op rule: parallel_arithmetic_layout.cases) (simp_all add: make_layout_def)

text \<open>The exact sum or difference of two lanes.\<close>

definition lane_sum :: "parallel_layout \<Rightarrow> bool \<Rightarrow> u32 \<Rightarrow> u32 \<Rightarrow> nat \<Rightarrow> int" where
  "lane_sum layout s first second offset =
    (let second = (if lay_exchange layout then word_rotl 16 second else second);
         a = lane s (lay_bits layout) offset first; b = lane s (lay_bits layout) offset second in
     if layout_subtract layout offset then a - b else a + b)"

definition ge_lane :: "parallel_layout \<Rightarrow> bool \<Rightarrow> u32 \<Rightarrow> u32 \<Rightarrow> nat \<Rightarrow> bool" where
  "ge_lane layout s first second offset =
    (if s \<or> layout_subtract layout offset then 0 \<le> lane_sum layout s first second offset
     else 2 ^ lay_bits layout \<le> lane_sum layout s first second offset)"

definition ge_mask :: "nat \<Rightarrow> (nat \<Rightarrow> bool) \<Rightarrow> u32" where
  "ge_mask bits g = foldl (\<lambda>ge offset. if g offset
     then ge OR push_bit (offset div 8) (if bits = 16 then 3 else 1) else ge) 0 (lane_offsets bits)"

lemma parallel_arithmetic_assembled:
  fixes inst :: instruction and first second cpsr :: u32
  assumes "parallel_operation_of (opcode inst) = Some op" "op \<noteq> ParSelect"
  defines "layout \<equiv> parallel_arithmetic_layout (Some op)"
  defines "e \<equiv> lane_sum layout (inst_sign_extend inst) first second"
  shows "parallel_arithmetic inst first second cpsr =
    \<lparr>alu_value = assemble (lay_bits layout) (\<lambda>offset. word_of_int (e offset)),
     alu_cpsr = (cpsr AND NOT 0x000f0000) OR push_bit 16
       (ge_mask (lay_bits layout) (ge_lane layout (inst_sign_extend inst) first second))\<rparr>"
proof -
  have bits: "0 < lay_bits layout" "lay_bits layout \<le> 16"
    using layout_bits [of "Some op"] by (auto simp: layout_def)
  have m: "uint (mask (lay_bits layout) :: u32) < v \<longleftrightarrow> 2 ^ lay_bits layout \<le> v" for v
    using layout_bits [of "Some op"] by (auto simp: layout_def mask_eq_exp_minus_1)
  show ?thesis
    using assms(2)
    by (simp add: parallel_arithmetic_def assms(1) layout_def [symmetric] Let_def foldl_pair
        assemble_def ge_mask_def ge_lane_def e_def lane_sum_def parallel_lane_eq bits m
        cong: if_cong)
qed

lemma bit_ge_mask:
  assumes "bits = 8 \<or> bits = 16" "n < 4"
  shows "bit (ge_mask bits g) n \<longleftrightarrow> g (n * 8 div bits * bits)"
proof -
  have n: "n = 0 \<or> n = 1 \<or> n = 2 \<or> n = 3" using assms(2) by auto
  show ?thesis
    using assms(1) n
    by (elim disjE; simp add: ge_mask_def bit_simps; simp add: bit_numeral_rec bit_1_iff)
qed

lemma ge_mask_field:
  assumes "bits = 8 \<or> bits = 16"
  shows "ge_mask bits g AND NOT 15 = 0"
  using assms by (elim disjE; simp add: ge_mask_def)

lemma ge_mask_high:
  assumes "bits = 8 \<or> bits = 16" "4 \<le> k"
  shows "\<not> bit (ge_mask bits g) k"
proof
  assume k: "bit (ge_mask bits g) k"
  have "ge_mask bits g AND NOT (mask 4) = 0"
    using ge_mask_field [OF assms(1), of g] by (simp add: mask_eq_exp_minus_1)
  moreover have "bit (ge_mask bits g AND NOT (mask 4)) k"
    using k assms(2) bit_imp_le_length [OF k] by (simp only: bit_and_iff bit_not_iff bit_mask_iff) simp
  ultimately show False by simp
qed


lemma bit_status_field:
  assumes "bits = 8 \<or> bits = 16"
  shows "bit ((cpsr AND NOT 0x000f0000) OR push_bit 16 (ge_mask bits g) :: u32) n =
    (if 16 \<le> n \<and> n < 20 then g ((n - 16) * 8 div bits * bits) else bit cpsr n)"
proof -
  have hole: "bit (NOT 0x000f0000 :: u32) n \<longleftrightarrow> n < 32 \<and> \<not> (16 \<le> n \<and> n < 20)"
  proof -
    have "(0x000f0000 :: u32) = push_bit 16 (mask 4)"
      by (simp add: mask_eq_exp_minus_1)
    then show ?thesis by (simp only: bit_not_iff bit_push_bit_iff bit_mask_iff) auto
  qed
  have "bit (push_bit 16 (ge_mask bits g)) n \<longleftrightarrow>
      16 \<le> n \<and> n < 20 \<and> g ((n - 16) * 8 div bits * bits)"
    using ge_mask_high [OF assms, of "n - 16" g] bit_ge_mask [OF assms, of "n - 16" g]
    by (cases "n - 16 < 4") (auto simp: bit_push_bit_iff)
  then show ?thesis using bit_imp_le_length [of cpsr n]
    unfolding bit_or_iff bit_and_iff hole by auto
qed

lemma parallel_arithmetic_status:
  assumes "parallel_operation_of (opcode inst) = Some op" "op \<noteq> ParSelect"
  defines "layout \<equiv> parallel_arithmetic_layout (Some op)"
  shows "bit (alu_cpsr (parallel_arithmetic inst first second cpsr)) n =
    (if 16 \<le> n \<and> n < 20
     then ge_lane layout (inst_sign_extend inst) first second
       ((n - 16) * 8 div lay_bits layout * lay_bits layout)
     else bit cpsr n)"
  unfolding parallel_arithmetic_assembled [OF assms(1,2)] alu_result.select_convs layout_def
  by (rule bit_status_field) (rule layout_bits)

section \<open>Saturation\<close>

lemma bit_saturate:
  "bit (snd (saturate v bits s cpsr)) n \<longleftrightarrow>
    bit cpsr n \<or> n = 27 \<and> fst (saturate v bits s cpsr) \<noteq> v"
  unfolding saturate_def Let_def by (auto simp only: fst_conv snd_conv bit_set_q split: if_splits)

text \<open>The bounds of a saturation to \<open>bits\<close> bits.\<close>

definition least_saturated :: "bool \<Rightarrow> nat \<Rightarrow> int" where
  "least_saturated s bits = (if s then - (2 ^ (bits - 1)) else 0)"

definition greatest_saturated :: "bool \<Rightarrow> nat \<Rightarrow> int" where
  "greatest_saturated s bits = (if s then 2 ^ (bits - 1) else 2 ^ bits) - 1"

lemma fst_saturate:
  assumes "0 < bits \<or> \<not> s"
  shows "fst (saturate v bits s cpsr) =
    clamp v (least_saturated s (unat bits)) (greatest_saturated s (unat bits))"
proof -
  have "unat (bits - 1) = unat bits - 1" if "0 < bits"
    using that by (intro unat_minus_one) auto
  then show ?thesis
    using assms by (auto simp: saturate_def Let_def least_saturated_def greatest_saturated_def)
qed

lemma clamp_range: "lo \<le> hi \<Longrightarrow> lo \<le> clamp v lo hi \<and> clamp v lo hi \<le> hi"
  by (simp add: clamp_def)

lemma clamp_neq: "lo \<le> hi \<Longrightarrow> clamp v lo hi \<noteq> v \<longleftrightarrow> v < lo \<or> hi < v"
  by (auto simp: clamp_def)

lemma saturated_range: "least_saturated s bits \<le> greatest_saturated s bits"
  by (simp add: least_saturated_def greatest_saturated_def)

section \<open>Properties\<close>

text \<open>Parallel additions and subtractions work lane by lane: each 8- or 16-bit lane of the
  result is the sum or difference of the operands' lanes, wrapped to the lane and free of
  carries from its neighbours; the GE bits of a lane record its sign or carry; every other
  status bit is unchanged.\<close>

theorem parallel_arithmetic_lanes:
  fixes inst :: instruction and first second cpsr :: u32
  assumes "parallel_operation_of (opcode inst) = Some op" "op \<noteq> ParSelect"
    and "offset \<in> set (lane_offsets (lay_bits (parallel_arithmetic_layout (Some op))))"
  defines "layout \<equiv> parallel_arithmetic_layout (Some op)"
    and "s \<equiv> inst_sign_extend inst"
    and "r \<equiv> parallel_arithmetic inst first second cpsr"
  shows "lane False (lay_bits layout) offset (alu_value r) =
      lane_sum layout s first second offset mod 2 ^ lay_bits layout
    \<and> (\<forall>n. bit (alu_cpsr r) n = (if 16 \<le> n \<and> n < 20
        then ge_lane layout s first second ((n - 16) * 8 div lay_bits layout * lay_bits layout)
        else bit cpsr n))"
proof -
  have bits: "lay_bits layout = 8 \<or> lay_bits layout = 16"
    unfolding layout_def by (rule layout_bits)
  have "lane False (lay_bits layout) offset (alu_value r) =
      lane_sum layout s first second offset mod 2 ^ lay_bits layout"
    using lane_assemble [OF bits assms(3) [folded layout_def], of
        "\<lambda>offset. word_of_int (lane_sum layout s first second offset)" _ False]
    unfolding r_def parallel_arithmetic_assembled [OF assms(1,2)]
    by (simp add: layout_def s_def take_bit_eq_mod)
  then show ?thesis
    unfolding r_def layout_def s_def parallel_arithmetic_status [OF assms(1,2)] by simp
qed

theorem parallel_arithmetic_lanes_witness:
  "lane False 8 8 (alu_value (parallel_arithmetic
      (new_instruction\<lparr>opcode := 4\<rparr>) 0x0000ff01 0x00000202 0)) = 1"
  using parallel_arithmetic_lanes
    [of "new_instruction\<lparr>opcode := 4\<rparr>" ParAdd8 8 "0x0000ff01" "0x00000202" 0]
  by (simp add: parallel_operation_of_def parallel_operations_def make_layout_def
      lane_sum_def layout_subtract_def new_instruction_def lane_def take_bit_eq_mod)

lemma select_bytes:
  assumes "offset \<in> set (lane_offsets 8)"
  shows "lane False 8 offset ((a AND select_mask cpsr) OR (b AND NOT (select_mask cpsr))) =
    (if bit cpsr (16 + offset div 8) then lane False 8 offset a else lane False 8 offset b)"
proof -
  have mask: "bit (select_mask cpsr) n \<longleftrightarrow> n < 32 \<and> bit cpsr (16 + n div 8)" for n
  proof -
    have ff: "(0xff :: u32) = mask 8" by (simp add: mask_eq_exp_minus_1)
    have "n < 32 \<Longrightarrow> n div 8 = 0 \<or> n div 8 = 1 \<or> n div 8 = 2 \<or> n div 8 = 3"
      by linarith
    moreover have "n < 32 \<Longrightarrow> n div 8 * 8 \<le> n \<and> n < n div 8 * 8 + 8" by linarith
    ultimately show ?thesis
      unfolding select_mask_def ff flag_set_iff
      by (simp add: upt_rec bit_or_iff bit_push_bit_iff bit_mask_iff del: mask_numeral)
         (auto split: if_splits simp: bit_or_iff bit_push_bit_iff bit_mask_iff)
  qed
  have "take_bit 8 (drop_bit offset ((a AND select_mask cpsr) OR (b AND NOT (select_mask cpsr)))) =
    (if bit cpsr (16 + offset div 8) then take_bit 8 (drop_bit offset a)
     else take_bit 8 (drop_bit offset b))"
  proof (rule bit_word_eqI)
    fix n :: nat assume n: "n < LENGTH(32)"
    have "n < 8 \<Longrightarrow> (offset + n) div 8 = offset div 8 \<and> offset + n < 32" using assms by auto
    then show "bit (take_bit 8 (drop_bit offset
        ((a AND select_mask cpsr) OR (b AND NOT (select_mask cpsr))))) n =
      bit (if bit cpsr (16 + offset div 8) then take_bit 8 (drop_bit offset a)
        else take_bit 8 (drop_bit offset b)) n"
      by (auto simp: bit_take_bit_iff bit_drop_bit_eq bit_or_iff bit_and_iff bit_not_iff mask)
  qed
  then show ?thesis
    by (simp only: lane_def if_False flip: unsigned_take_bit_eq) (simp split: if_splits)
qed

text \<open>The idiom the GE flags exist for: USUB8 followed by SEL on its flags yields the
  bytewise unsigned maximum of two words.\<close>

theorem subtract_select_is_bytewise_max:
  fixes sub sel :: instruction and a b cpsr :: u32
  assumes "parallel_operation_of (opcode sub) = Some ParSubtract8" "\<not> inst_sign_extend sub"
    and "parallel_operation_of (opcode sel) = Some ParSelect"
    and "offset \<in> set (lane_offsets 8)"
  shows "lane False 8 offset (alu_value (parallel_arithmetic sel a b
      (alu_cpsr (parallel_arithmetic sub a b cpsr)))) =
    max (lane False 8 offset a) (lane False 8 offset b)"
proof -
  let ?cpsr = "alu_cpsr (parallel_arithmetic sub a b cpsr)"
  have "offset div 8 < 4" "offset div 8 * 8 = offset"
    using assms(4) by auto
  then have "bit ?cpsr (16 + offset div 8) \<longleftrightarrow>
      ge_lane (make_layout 8 False True True) False a b offset"
    using parallel_arithmetic_status [OF assms(1), of a b cpsr "16 + offset div 8"] assms(2)
    by (simp add: make_layout_def)
  then show ?thesis
    unfolding parallel_arithmetic_def [of sel]
    by (simp add: assms(3) select_bytes [OF assms(4)] ge_lane_def lane_sum_def make_layout_def
        layout_subtract_def Let_def max_def)
qed


theorem subtract_select_is_bytewise_max_witness:
  "lane False 8 16 (alu_value (parallel_arithmetic (new_instruction\<lparr>opcode := 6\<rparr>)
      0x00110000 0x00220000 (alu_cpsr (parallel_arithmetic (new_instruction\<lparr>opcode := 5\<rparr>)
        0x00110000 0x00220000 0)))) = 0x22"
  using subtract_select_is_bytewise_max
    [of "new_instruction\<lparr>opcode := 5\<rparr>" "new_instruction\<lparr>opcode := 6\<rparr>" 16
      "0x00110000" "0x00220000" 0]
  by (simp add: parallel_operation_of_def parallel_operations_def new_instruction_def
      lane_def take_bit_eq_mod)

text \<open>Parallel saturating arithmetic clamps every lane of the exact lane-wise sum or
  difference to the lane's signed or unsigned range.\<close>

theorem parallel_saturating_lanes:
  fixes inst :: instruction and first second :: u32
  defines "layout \<equiv> parallel_saturating_layout (opcode inst)"
    and "s \<equiv> 6 \<le> opcode inst"
  assumes "offset \<in> set (lane_offsets (lay_bits layout))"
  shows "lane s (lay_bits layout) offset (parallel_saturating inst first second) =
    (if s then clamp (lane_sum layout s first second offset)
        (- (2 ^ (lay_bits layout - 1))) (2 ^ (lay_bits layout - 1) - 1)
     else clamp (lane_sum layout s first second offset) 0 (2 ^ lay_bits layout - 1))"
proof -
  have bits: "lay_bits layout = 8 \<or> lay_bits layout = 16"
    unfolding layout_def parallel_saturating_layout_def by (rule layout_bits)
  then obtain n where n: "lay_bits layout = Suc n" "n < 16" by auto
  let ?v = "\<lambda>offset. if s then clamp (lane_sum layout s first second offset) (- (2 ^ n)) (2 ^ n - 1)
     else clamp (lane_sum layout s first second offset) 0 (2 ^ Suc n - 1)"
  have m: "uint (mask (Suc n) :: u32) = 2 ^ Suc n - 1"
    using bits n(1) by (auto simp: mask_eq_exp_minus_1)
  have "parallel_saturating inst first second = assemble (Suc n) (\<lambda>offset. word_of_int (?v offset))"
    by (simp add: parallel_saturating_def layout_def [symmetric] n(1) Let_def assemble_def
        lane_sum_def lane_def uint_field s_def m push_bit_eq_mult cong: if_cong
        flip: xor_sign)
  moreover have "signed_take_bit n (clamp k (- (2 ^ n)) (2 ^ n - 1)) = clamp k (- (2 ^ n)) (2 ^ n - 1)"
    for k by (rule signed_take_bit_int_eq_self) (auto simp: clamp_def)
  moreover have "take_bit (Suc n) (clamp k 0 (2 ^ Suc n - 1)) = clamp k 0 (2 ^ Suc n - 1)"
    for k by (rule take_bit_int_eq_self) (auto simp: clamp_def)
  ultimately show ?thesis
    using lane_assemble [OF bits assms(3), of "\<lambda>offset. word_of_int (?v offset)" "?v offset" s]
    by (simp add: n(1))
qed

theorem parallel_saturating_lanes_witness:
  "lane False 8 0 (parallel_saturating (new_instruction\<lparr>opcode := 4\<rparr>) 0xf0 0x20) = 255"
  using parallel_saturating_lanes
    [of 0 "new_instruction\<lparr>opcode := 4\<rparr>" "0xf0" "0x20"]
  by (simp add: parallel_saturating_layout_def parallel_operation_of_def parallel_operations_def
      make_layout_def new_instruction_def lane_sum_def layout_subtract_def lane_def clamp_def
      take_bit_eq_mod)


text \<open>C38. SSAT and USAT: for every width the decoder can produce, the result, read with the
  instruction's signedness, is the shifted operand clamped to that width, and Q is set exactly
  when clamping changed it (it is never cleared, and no other status bit moves).\<close>

theorem saturate_to_width:
  fixes inst :: instruction and first second cpsr :: u32
  assumes "saturating_operation_of (opcode inst) = Some op" "op = SatSigned \<or> op = SatUnsigned"
    and "op = SatSigned \<Longrightarrow> 0 < immediate inst" "unat (immediate inst) \<le> 32"
  defines "s \<equiv> op = SatSigned" and "r \<equiv> saturating_arithmetic inst first second cpsr"
    and "lo \<equiv> least_saturated (op = SatSigned) (unat (immediate inst))"
    and "hi \<equiv> greatest_saturated (op = SatSigned) (unat (immediate inst))"
    and "v \<equiv> sint (sh_value (shift first (inst_shift inst) (shift_amount inst) False False))"
  shows "(if s then sint (alu_value r) else uint (alu_value r)) = clamp v lo hi
    \<and> (\<forall>n. bit (alu_cpsr r) n \<longleftrightarrow> bit cpsr n \<or> n = 27 \<and> (v < lo \<or> hi < v))"
proof -
  let ?sat = "saturate v (immediate inst) s cpsr"
  have sat: "fst ?sat = clamp v lo hi"
    unfolding s_def lo_def hi_def by (rule fst_saturate) (use assms(2,3) in auto)
  have le: "lo \<le> hi" unfolding lo_def hi_def by (rule saturated_range)
  have r: "r = \<lparr>alu_value = word_of_int (fst ?sat), alu_cpsr = snd ?sat\<rparr>"
    using assms(2) unfolding r_def saturating_arithmetic_def
    by (auto simp: assms(1) s_def v_def Let_def split_beta)
  have "(if s then sint (word_of_int (clamp v lo hi) :: u32) else uint (word_of_int (clamp v lo hi) :: u32))
    = clamp v lo hi"
  proof (cases s)
    case True
    have "(2 :: int) ^ (unat (immediate inst) - 1) \<le> 2 ^ 31"
      using assms(4) by (intro power_le_int) simp
    then show ?thesis
      using True clamp_range [OF le, of v]
      by (simp add: lo_def hi_def s_def least_saturated_def greatest_saturated_def
          sint_word_of_int_u32)
  next
    case False
    have "(2 :: int) ^ unat (immediate inst) \<le> 2 ^ 32"
      using assms(4) by (intro power_le_int) simp
    then show ?thesis
      using False clamp_range [OF le, of v]
      by (simp add: lo_def hi_def s_def least_saturated_def greatest_saturated_def
          uint_word_of_int_eq take_bit_int_eq_self)
  qed
  then show ?thesis
    by (simp only: r alu_result.select_convs sat bit_saturate clamp_neq [OF le]) simp
qed

theorem saturate_to_width_witness:
  "uint (alu_value (saturating_arithmetic (new_instruction\<lparr>opcode := 1, immediate := 8\<rparr>)
      0x12345 0 0)) = 255"
  using saturate_to_width
    [of "new_instruction\<lparr>opcode := 1, immediate := 8\<rparr>" SatUnsigned "0x12345" 0 0]
  by (simp add: saturating_operation_of_def saturating_operations_def new_instruction_def
      shift_def least_saturated_def greatest_saturated_def clamp_def)

text \<open>QADD, QSUB, QDADD and QDSUB: the result is the exact sum or difference, with the
  doubled operand saturated first, clamped to 32 signed bits; Q is set exactly when either
  saturation happened.\<close>

theorem saturating_sum_exact:
  fixes inst :: instruction and first second cpsr :: u32
  assumes "saturating_operation_of (opcode inst) = Some op"
    and "op \<in> {SatAdd, SatSubtract, SatDoubleAdd, SatDoubleSubtract}"
  defines "r \<equiv> saturating_arithmetic inst first second cpsr"
    and "sat \<equiv> (\<lambda>v. clamp v (- (2 ^ 31)) (2 ^ 31 - 1))"
    and "doubled \<equiv> op = SatDoubleAdd \<or> op = SatDoubleSubtract"
  defines "addend \<equiv> if doubled then sat (2 * sint second) else sint second"
  defines "v \<equiv> if op = SatSubtract \<or> op = SatDoubleSubtract then sint first - addend
    else sint first + addend"
  shows "sint (alu_value r) = sat v
    \<and> (\<forall>n. bit (alu_cpsr r) n \<longleftrightarrow> bit cpsr n \<or> n = 27 \<and>
        (sat v \<noteq> v \<or> doubled \<and> sat (2 * sint second) \<noteq> 2 * sint second))"
proof -
  have fst_sat: "fst (saturate x 32 True c) = sat x" for x c
    by (simp add: fst_saturate least_saturated_def greatest_saturated_def sat_def)
  define c where "c = (if doubled then snd (saturate (2 * sint second) 32 True cpsr) else cpsr)"
  have r: "r = \<lparr>alu_value = word_of_int (fst (saturate v 32 True c)),
      alu_cpsr = snd (saturate v 32 True c)\<rparr>"
    using assms(2) unfolding r_def saturating_arithmetic_def
    by (elim insertE emptyE; simp add: assms(1) v_def addend_def doubled_def c_def Let_def
        split_beta fst_sat)
  have "sint (word_of_int (sat v) :: u32) = sat v"
    by (rule sint_word_of_int_u32) (auto simp: sat_def clamp_def)
  moreover have "bit c n \<longleftrightarrow> bit cpsr n \<or>
      n = 27 \<and> doubled \<and> sat (2 * sint second) \<noteq> 2 * sint second" for n
    unfolding c_def by (auto simp: bit_saturate fst_sat)
  ultimately show ?thesis
    by (simp only: r alu_result.select_convs fst_sat bit_saturate) auto
qed

theorem saturating_sum_exact_witness:
  "sint (alu_value (saturating_arithmetic (new_instruction\<lparr>opcode := 7\<rparr>) 5 0x7fffffff 0)) =
    - 2147483642"
  using saturating_sum_exact
    [of "new_instruction\<lparr>opcode := 7\<rparr>" SatDoubleSubtract 5 "0x7fffffff" 0]
  by (simp add: saturating_operation_of_def saturating_operations_def new_instruction_def clamp_def)

end
