(* ===== verification/Arm_Transform.thy ===== *)
theory Arm_Transform
  imports Arm_Integer "HOL-Library.Signed_Division"
begin

text \<open>
  Extensions, reversals, bit fields and division: \<^verbatim>\<open>arm/integer_transform.cpp\<close>,
  \<^verbatim>\<open>arm/integer_divide.cpp\<close>, and the decoders of these instructions
  (\<^verbatim>\<open>arm/bitfield_decode.cpp\<close>, \<^verbatim>\<open>arm/transform_decode.cpp\<close>). A
  decoder takes the instruction built so far and returns whether the encoding belongs to its
  group, with the instruction updated: it is the function's return value beside its
  reference parameter \<open>out\<close>.
\<close>

unbundle bit_operations_syntax

section \<open>Definitions\<close>

datatype transform_operation =
    ExtendByte | ExtendHalfword | ExtendBytePair | ReverseBytes | ReverseHalfwords
  | ReverseSignedHalfword | ReverseBits | CountLeadingZeros | BitfieldInsert | BitfieldExtract

definition transform_operations :: "transform_operation list" where
  "transform_operations = [ExtendByte, ExtendHalfword, ExtendBytePair, ReverseBytes,
     ReverseHalfwords, ReverseSignedHalfword, ReverseBits, CountLeadingZeros, BitfieldInsert,
     BitfieldExtract]"

fun transform_code :: "transform_operation \<Rightarrow> u32" where
  "transform_code ExtendByte = 0"
| "transform_code ExtendHalfword = 1"
| "transform_code ExtendBytePair = 2"
| "transform_code ReverseBytes = 3"
| "transform_code ReverseHalfwords = 4"
| "transform_code ReverseSignedHalfword = 5"
| "transform_code ReverseBits = 6"
| "transform_code CountLeadingZeros = 7"
| "transform_code BitfieldInsert = 8"
| "transform_code BitfieldExtract = 9"

definition transform_operation_of :: "u32 \<Rightarrow> transform_operation option" where
  "transform_operation_of x =
    (if unat x < length transform_operations then Some (transform_operations ! unat x) else None)"

definition extend :: "u32 \<Rightarrow> u32 \<Rightarrow> bool \<Rightarrow> u32" where
  "extend v bits sign =
    (let m = drop_bit (unat (32 - bits)) 0xffffffff;
         top = (if sign then push_bit (unat (bits - 1)) 1 else 0) in
     ((v AND m) XOR top) - top)"

definition reverse_halfwords :: "u32 \<Rightarrow> u32" where
  "reverse_halfwords v =
    push_bit 8 (v AND 0x00ff00ff) OR (drop_bit 8 v AND 0x00ff00ff)"

definition reverse_bits :: "u32 \<Rightarrow> u32" where
  "reverse_bits v =
    (let bits = push_bit 1 (v AND 0x55555555) OR (drop_bit 1 v AND 0x55555555);
         bits = push_bit 2 (bits AND 0x33333333) OR (drop_bit 2 bits AND 0x33333333);
         bits = push_bit 4 (bits AND 0x0f0f0f0f) OR (drop_bit 4 bits AND 0x0f0f0f0f) in
     word_rotl 16 (reverse_halfwords bits))"

definition integer_transform :: "instruction \<Rightarrow> u32 \<Rightarrow> u32 \<Rightarrow> u32" where
  "integer_transform inst source addend =
    (let v = word_rotr (unat (shift_amount inst)) source in
     case transform_operation_of (opcode inst) of
       Some BitfieldInsert \<Rightarrow>
         (let m = push_bit (unat (shift_amount inst))
                (drop_bit (unat (32 - immediate inst)) 0xffffffff) in
          (addend AND NOT m) OR
          (push_bit (unat (shift_amount inst)) (if accumulate inst then source else 0) AND m))
     | Some BitfieldExtract \<Rightarrow>
         extend (drop_bit (unat (shift_amount inst)) source) (immediate inst)
           (inst_sign_extend inst)
     | Some CountLeadingZeros \<Rightarrow> word_of_nat (countl_zero v)
     | Some ExtendByte \<Rightarrow>
         extend v 8 (inst_sign_extend inst) + (if accumulate inst then addend else 0)
     | Some ExtendHalfword \<Rightarrow>
         extend v 16 (inst_sign_extend inst) + (if accumulate inst then addend else 0)
     | Some ExtendBytePair \<Rightarrow>
         (let low = extend v 8 (inst_sign_extend inst);
              high = extend (drop_bit 16 v) 8 (inst_sign_extend inst) in
          ((low + (if accumulate inst then addend AND 0xffff else 0)) AND 0xffff) OR
          push_bit 16 (high + (if accumulate inst then drop_bit 16 addend else 0)))
     | Some ReverseBytes \<Rightarrow> word_rotl 16 (reverse_halfwords v)
     | Some ReverseHalfwords \<Rightarrow> reverse_halfwords v
     | Some ReverseSignedHalfword \<Rightarrow> extend (reverse_halfwords v) 16 True
     | Some ReverseBits \<Rightarrow> reverse_bits v
     | None \<Rightarrow> 0)"

definition integer_divide :: "instruction \<Rightarrow> u32 \<Rightarrow> u32 \<Rightarrow> u32" where
  "integer_divide inst dividend divisor =
    (if divisor = 0 then 0
     else if \<not> inst_sign_extend inst then dividend div divisor
     else word_of_int (sint dividend sdiv sint divisor))"

subsection \<open>Decoders\<close>

definition finish_bitfield ::
  "instruction \<Rightarrow> arm_instruction_profile \<Rightarrow> bool \<times> bool \<Rightarrow> u32 \<Rightarrow> u32 \<Rightarrow> u32 \<Rightarrow> u32 \<Rightarrow>
   bool \<times> instruction" where
  "finish_bitfield out architecture form d source lsb field =
    (let (insert, sign) = form in
     if \<not> has_armv6t2_extensions architecture \<or> d = 15 \<or> (\<not> insert \<and> source = 15) \<or>
        (if insert then field < lsb else 32 \<le> field + lsb)
     then (True, out)
     else (True, out\<lparr>kind := IntegerTransform,
       opcode := transform_code (if insert then BitfieldInsert else BitfieldExtract),
       rm := (if source = 15 then 0 else source), rn := d, rd := d,
       accumulate := insert \<and> source \<noteq> 15, inst_sign_extend := sign, shift_amount := lsb,
       immediate := (if insert then field - lsb + 1 else field + 1)\<rparr>))"

definition decode_bitfield ::
  "instruction \<Rightarrow> u32 \<Rightarrow> bool \<Rightarrow> arm_instruction_profile \<Rightarrow> bool \<times> instruction" where
  "decode_bitfield out word thumb architecture =
    (let finish = finish_bitfield out architecture in
     if thumb
     then let family = word AND 0xfff08020;
              form = (if family = 0xf3600000 then Some (True, False)
                else if family = 0xf3400000 then Some (False, True)
                else if family = 0xf3c00000 then Some (False, False)
                else None) in
       (case form of
         None \<Rightarrow> (False, out)
       | Some form \<Rightarrow>
           let d = drop_bit 8 word AND 15;
               source = drop_bit 16 word AND 15;
               lsb = (drop_bit 10 word AND 28) OR (drop_bit 6 word AND 3);
               field = word AND 31 in
           if d = 13 \<or> source = 13 then (True, out) else finish form d source lsb field)
     else if condition out = 15 then (False, out)
     else let family = word AND 0x0fe00070;
              form = (if family = 0x07c00010 then Some (True, False)
                else if family = 0x07a00050 then Some (False, True)
                else if family = 0x07e00050 then Some (False, False)
                else None) in
       (case form of
         None \<Rightarrow> (False, out)
       | Some form \<Rightarrow>
           finish form (drop_bit 12 word AND 15) (word AND 15) (drop_bit 7 word AND 31)
             (drop_bit 16 word AND 31)))"

definition finish_transform ::
  "instruction \<Rightarrow> transform_operation \<Rightarrow> u32 \<Rightarrow> u32 \<Rightarrow> u32 \<Rightarrow> bool \<Rightarrow> u32 \<Rightarrow> bool \<times> instruction" where
  "finish_transform out operation d m n sign rotation =
    (if d = 15 \<or> m = 15 then (True, out)
     else (True, out\<lparr>kind := IntegerTransform, opcode := transform_code operation, rd := d,
       rm := m, rn := (if n = 15 then 0 else n), accumulate := (n \<noteq> 15),
       inst_sign_extend := sign, shift_amount := rotation\<rparr>))"

definition decode_transform_narrow :: "instruction \<Rightarrow> u32 \<Rightarrow> bool \<times> instruction" where
  "decode_transform_narrow out word =
    (let op = drop_bit 6 word AND 3;
         d = word AND 7; m = drop_bit 3 word AND 7 in
     if word AND 0xff00 = 0xb200
     then finish_transform out (if op AND 1 \<noteq> 0 then ExtendByte else ExtendHalfword)
       d m 15 (op < 2) 0
     else if word AND 0xff00 = 0xba00
     then if op = 2 then (True, out)
          else finish_transform out (if op = 0 then ReverseBytes
            else if op = 1 then ReverseHalfwords else ReverseSignedHalfword) d m 15 False 0
     else (False, out))"

definition decode_transform_wide ::
  "instruction \<Rightarrow> u32 \<Rightarrow> arm_instruction_profile \<Rightarrow> bool \<times> instruction" where
  "decode_transform_wide out word architecture =
    (let head = drop_bit 16 word; tail = word AND 0xffff;
         finish = (\<lambda>operation n sign rotation.
           if \<not> has_armv6t2_extensions architecture then (True, out)
           else let d = drop_bit 8 tail AND 15; m = tail AND 15 in
             if d = 13 \<or> m = 13 \<or> n = 13 then (True, out)
             else finish_transform out operation d m n sign rotation) in
     if head AND 0xff80 = 0xfa00 \<and> tail AND 0xf0c0 = 0xf080
     then let op = drop_bit 4 head AND 7 in
       if 6 \<le> op then (False, out)
       else finish (if op < 2 then ExtendHalfword else if op < 4 then ExtendBytePair else ExtendByte)
         (head AND 15) (op AND 1 = 0) ((drop_bit 4 tail AND 3) * 8)
     else if (head AND 0xfff0 = 0xfa90 \<and> tail AND 0xf0c0 = 0xf080) \<or>
             (head AND 0xfff0 = 0xfab0 \<and> tail AND 0xf0f0 = 0xf080)
     then if head AND 15 \<noteq> tail AND 15 then (True, out)
       else finish (if head AND 0x20 \<noteq> 0 then CountLeadingZeros
         else [ReverseBytes, ReverseHalfwords, ReverseBits, ReverseSignedHalfword]
           ! unat (drop_bit 4 tail AND 3)) 15 False 0
     else (False, out))"

definition decode_transform_arm ::
  "instruction \<Rightarrow> u32 \<Rightarrow> arm_instruction_profile \<Rightarrow> bool \<times> instruction" where
  "decode_transform_arm out word architecture =
    (if condition out = 15 then (False, out)
     else if word AND 0x0ff00030 = 0x06800010
     then let out = out\<lparr>rd := drop_bit 12 word AND 15, rn := drop_bit 16 word AND 15,
              rm := word AND 15\<rparr> in
       if rd out = 15 \<or> rn out = 15 \<or> rm out = 15 then (True, out)
       else (True, out\<lparr>kind := PackHalfword,
         inst_shift := (if word AND 0x40 \<noteq> 0 then Asr else Lsl),
         shift_amount := drop_bit 7 word AND 31\<rparr>)
     else let d = drop_bit 12 word AND 15; m = word AND 15 in
       if word AND 0x0f8003f0 = 0x06800070
       then let op = drop_bit 20 word AND 7 in
         if op = 1 \<or> op = 5 then (False, out)
         else finish_transform out (if op AND 3 = 0 then ExtendBytePair
             else if op AND 3 = 2 then ExtendByte else ExtendHalfword)
           d m (drop_bit 16 word AND 15) (op < 4) ((drop_bit 10 word AND 3) * 8)
       else
         let family = word AND 0x0fff0ff0 in
         if family = 0x016f0f10 then finish_transform out CountLeadingZeros d m 15 False 0
         else if family = 0x06bf0f30 then finish_transform out ReverseBytes d m 15 False 0
         else if family = 0x06bf0fb0 then finish_transform out ReverseHalfwords d m 15 False 0
         else if family = 0x06ff0fb0 then finish_transform out ReverseSignedHalfword d m 15 False 0
         else if family = 0x06ff0f30
         then if \<not> has_armv6t2_extensions architecture then (True, out)
              else finish_transform out ReverseBits d m 15 False 0
         else (False, out))"

definition decode_integer_transform ::
  "instruction \<Rightarrow> u32 \<Rightarrow> bool \<Rightarrow> arm_instruction_profile \<Rightarrow> bool \<times> instruction" where
  "decode_integer_transform out word thumb architecture =
    (case decode_bitfield out word thumb architecture of
      (True, out) \<Rightarrow> (True, out)
    | (False, out) \<Rightarrow>
        if thumb \<and> word \<le> 0xffff then decode_transform_narrow out word
        else if thumb then decode_transform_wide out word architecture
        else decode_transform_arm out word architecture)"

definition decode_integer_divide ::
  "instruction \<Rightarrow> u32 \<Rightarrow> bool \<Rightarrow> arm_instruction_profile \<Rightarrow> integer_divide_profile \<Rightarrow>
   bool \<times> instruction" where
  "decode_integer_divide out word thumb architecture profile =
    (let finish = (\<lambda>d n m sign.
       if \<not> has_armv6t2_extensions architecture \<or> profile = NoDivide \<or>
          (\<not> thumb \<and> profile \<noteq> ArmAndThumb) \<or> d = 15 \<or> n = 15 \<or> m = 15
       then (True, out)
       else (True, out\<lparr>kind := IntegerDivide, rd := d, rn := n, rm := m,
         inst_sign_extend := sign\<rparr>)) in
     if thumb
     then if word AND 0xffd0f0f0 \<noteq> 0xfb90f0f0 then (False, out)
       else let d = drop_bit 8 word AND 15; n = drop_bit 16 word AND 15; m = word AND 15 in
         if d = 13 \<or> n = 13 \<or> m = 13 then (True, out)
         else finish d n m (word AND 0x00200000 = 0)
     else if condition out = 15 \<or> word AND 0x0fd0f0f0 \<noteq> 0x0710f010 then (False, out)
     else finish (drop_bit 16 word AND 15) (word AND 15) (drop_bit 8 word AND 15)
       (word AND 0x00200000 = 0))"

section \<open>Bit-level descriptions\<close>

lemma bit_all_ones_shifted:
  fixes bits :: u32
  assumes "0 < bits" "bits \<le> 32"
  shows "bit (drop_bit (unat (32 - bits)) (0xffffffff :: u32)) n \<longleftrightarrow> n < unat bits"
proof -
  have ones: "(0xffffffff :: u32) = mask 32" by (simp add: mask_eq_exp_minus_1)
  have "unat (32 - bits) = 32 - unat bits"
    using unat_sub [of bits 32] assms(2) by simp
  moreover have "unat bits \<le> 32" using assms(2) by (simp add: word_le_nat_alt)
  ultimately show ?thesis
    by (simp only: ones bit_drop_bit_eq bit_mask_iff o_def) auto
qed

lemma bit_reverse_halfwords:
  "bit (reverse_halfwords v) n \<longleftrightarrow> n < 32 \<and> bit v (n div 16 * 16 + (n mod 16 + 8) mod 16)"
proof -
  have m: "(0x00ff00ff :: u32) = mask 8 OR push_bit 16 (mask 8)"
    by (simp add: mask_eq_exp_minus_1)
  have bm: "bit (0x00ff00ff :: u32) k \<longleftrightarrow> k < 8 \<or> 16 \<le> k \<and> k < 24" for k
    unfolding m bit_or_iff bit_push_bit_iff bit_mask_iff by auto
  have "n < 32 \<Longrightarrow> bit (reverse_halfwords v) n \<longleftrightarrow>
      bit v (n div 16 * 16 + (n mod 16 + 8) mod 16)"
  proof -
    assume "n < 32"
    then consider "n < 8" | "8 \<le> n" "n < 16" | "16 \<le> n" "n < 24" | "24 \<le> n" "n < 32" by linarith
    then show ?thesis
    proof cases
      case 1 then show ?thesis unfolding reverse_halfwords_def bit_or_iff bit_push_bit_iff
          bit_and_iff bm bit_drop_bit_eq o_def by (simp add: add.commute)
    next
      case 2 then have "(n + 8) mod 16 = n - 8" "n - 8 < 8" by (simp_all add: mod_if)
      with 2 show ?thesis unfolding reverse_halfwords_def bit_or_iff bit_push_bit_iff
          bit_and_iff bm bit_drop_bit_eq o_def by simp
    next
      case 3 then have "n div 16 = 1" "n mod 16 = n - 16" "\<not> n - 8 < 8" "\<not> 16 \<le> n - 8"
        by (simp_all add: mod_if)
      with 3 show ?thesis unfolding reverse_halfwords_def bit_or_iff bit_push_bit_iff
          bit_and_iff bm bit_drop_bit_eq o_def by (simp add: add.commute)
    next
      case 4 then have "n div 16 = 1" "n mod 16 = n - 16" "(n - 16 + 8) mod 16 = n - 24"
          "16 \<le> n - 8" "n - 8 < 24" by (simp_all add: mod_if)
      with 4 show ?thesis unfolding reverse_halfwords_def bit_or_iff bit_push_bit_iff
          bit_and_iff bm bit_drop_bit_eq o_def by simp
    qed
  qed
  then show ?thesis using bit_imp_le_length [of "reverse_halfwords v" n] by auto
qed

lemma less_32_cases:
  "n < 32 \<Longrightarrow> n = 16 \<or> n = 0 \<or> n = 17 \<or> n = 1 \<or> n = 18 \<or> n = 2 \<or> n = 19 \<or> n = 3
    \<or> n = 20 \<or> n = 4 \<or> n = 21 \<or> n = 5 \<or> n = 22 \<or> n = 6 \<or> n = 23 \<or> n = 7
    \<or> n = 24 \<or> n = 8 \<or> n = 25 \<or> n = 9 \<or> n = 26 \<or> n = 10 \<or> n = 27 \<or> n = 11
    \<or> n = 28 \<or> n = 12 \<or> n = 29 \<or> n = 13 \<or> n = 30 \<or> n = 14 \<or> n = 31 \<or> n = 15" for n :: nat
  by presburger

lemma bit_rotl_16:
  "bit (word_rotl 16 (v :: u32)) n \<longleftrightarrow> n < 32 \<and> bit v ((n + 16) mod 32)"
proof -
  have "word_rotl 16 v = push_bit 16 v OR drop_bit 16 v" by (simp add: word_rotl_shifts)
  moreover have "n < 32 \<Longrightarrow> (n + 16) mod 32 = (if n < 16 then n + 16 else n - 16)"
    by (auto simp: mod_if)
  ultimately show ?thesis using bit_imp_le_length [of v "n + 16"]
    by (auto simp only: bit_or_iff bit_push_bit_iff bit_drop_bit_eq o_def add.commute split: if_splits)
      simp_all
qed

lemma bit_reverse_bytes:
  "bit (word_rotl 16 (reverse_halfwords v)) n \<longleftrightarrow> n < 32 \<and> bit v ((3 - n div 8) * 8 + n mod 8)"
proof -
  have "n < 32 \<Longrightarrow> ?thesis"
    unfolding bit_rotl_16 bit_reverse_halfwords by (drule less_32_cases; elim disjE; simp)
  then show ?thesis
    using bit_imp_le_length [of "word_rotl 16 (reverse_halfwords v)" n] by auto
qed

lemma bit_times_2: "bit (v * 2 :: u32) n \<longleftrightarrow> n < 32 \<and> n \<noteq> 0 \<and> bit v (n - 1)"
proof -
  have "v * 2 = push_bit 1 v" by (simp add: push_bit_eq_mult)
  then show ?thesis by (simp only: bit_push_bit_iff) auto
qed

lemma bit_reverse_bits: "bit (reverse_bits v) n \<longleftrightarrow> n < 32 \<and> bit v (31 - n)"
proof -
  have "n < 32 \<Longrightarrow> bit (reverse_bits v) n = bit v (31 - n)"
    unfolding reverse_bits_def Let_def bit_rotl_16 bit_reverse_halfwords
    by (drule less_32_cases; elim disjE; simp add: bit_or_iff bit_push_bit_iff bit_and_iff bit_drop_bit_eq
        bit_numeral_rec bit_times_2)
  then show ?thesis using bit_imp_le_length [of "reverse_bits v" n] by auto
qed

lemma and_all_ones_shifted:
  fixes v bits :: u32
  assumes "0 < bits" "bits \<le> 32"
  shows "v AND drop_bit (unat (32 - bits)) 0xffffffff = take_bit (unat bits) v"
  by (rule bit_word_eqI) (simp only: bit_and_iff bit_take_bit_iff bit_all_ones_shifted [OF assms] conj_commute)

lemma extend_eq:
  fixes bits :: u32
  assumes "0 < bits" "bits \<le> 32"
  shows "extend v bits sign =
    word_of_int ((if sign then signed_take_bit (unat bits - 1) else take_bit (unat bits)) (uint v))"
proof -
  obtain n where n: "unat bits = Suc n" using assms(1)
    by (cases "unat bits") (auto simp: word_less_nat_alt)
  have top: "unat (bits - 1) = n"
    using unat_minus_one [of bits] assms(1) n by auto
  have v: "v = word_of_int (uint v)" by simp
  have "(take_bit (Suc n) v XOR 2 ^ n) - 2 ^ n =
      word_of_int ((take_bit (Suc n) (uint v) XOR 2 ^ n) - 2 ^ n)"
    by (subst v) (simp only: of_int_diff of_int_xor_eq of_int_take_bit of_int_power of_int_numeral)
  moreover have "take_bit (Suc n) v = word_of_int (take_bit (Suc n) (uint v))"
    by (subst v) (simp only: of_int_take_bit)
  ultimately show ?thesis
    by (simp add: extend_def Let_def and_all_ones_shifted [OF assms] n top push_bit_eq_mult xor_sign)
qed

lemma unat_countl_zero_bounds:
  fixes v :: u32
  defines "k \<equiv> countl_zero v"
  shows "k \<le> 32" "unat v < 2 ^ (32 - k)" "v \<noteq> 0 \<Longrightarrow> k < 32 \<and> 2 ^ (31 - k) \<le> unat v"
proof -
  have k: "k = length (takeWhile (\<lambda>i. \<not> bit v i) (rev [0..<32]))"
    by (simp add: k_def countl_zero_def)
  show le: "k \<le> 32" unfolding k using length_takeWhile_le [of _ "rev [0..<32]"] by simp
  have nth: "rev [0..<32] ! i = 31 - i" if "i < 32" for i using that by (simp add: rev_nth)
  have zero: "\<not> bit v (31 - i)" if "i < k" for i
    using that le nth_mem [of i "takeWhile (\<lambda>i. \<not> bit v i) (rev [0..<32])"]
      takeWhile_nth [of i "\<lambda>i. \<not> bit v i" "rev [0..<32]"]
    by (auto dest!: set_takeWhileD simp: k nth)
  have "take_bit (32 - k) v = v"
  proof (rule bit_word_eqI)
    fix n assume "n < LENGTH(32)"
    then show "bit (take_bit (32 - k) v) n = bit v n"
      using zero [of "31 - n"] by (cases "31 - n < k") (auto simp: bit_take_bit_iff)
  qed
  then have "take_bit (32 - k) (unat v) = unat v"
    by (simp add: word_eq_iff_unsigned [where ?'a = nat] unsigned_take_bit_eq)
  then show "unat v < 2 ^ (32 - k)" by (simp add: take_bit_nat_eq_self_iff)
  assume nz: "v \<noteq> 0"
  have "k \<noteq> 32"
  proof
    assume "k = 32"
    then have "unat v < 2 ^ (32 - 32)" using \<open>unat v < 2 ^ (32 - k)\<close> by simp
    then show False using nz by (simp add: unat_eq_zero)
  qed
  then have lt: "k < 32" using le by simp
  have "bit v (31 - k)"
    using lt nth_length_takeWhile [of "\<lambda>i. \<not> bit v i" "rev [0..<32]"] nth [of k]
    by (simp add: k)
  then have "bit (unat v) (31 - k)" by (simp add: bit_unsigned_iff)
  then have "2 ^ (31 - k) \<le> unat v" by (metis bit_nat_def div_less even_zero linorder_not_le)
  then show "k < 32 \<and> 2 ^ (31 - k) \<le> unat v" using lt by simp
qed

lemma word_rotr_0 [simp]: "word_rotr 0 v = (v :: u32)"
  by (rule bit_word_eqI) (simp add: word_rotr_shifts bit_or_iff bit_push_bit_iff)

section \<open>Decoded bit fields\<close>

definition field_in_word :: "u32 \<Rightarrow> u32 \<Rightarrow> bool" where
  "field_in_word lsb w \<longleftrightarrow> 0 < unat w \<and> unat lsb + unat w \<le> 32"

lemma unat_small_sum: "unat x < 64 \<Longrightarrow> unat y < 64 \<Longrightarrow> unat (x + y) = unat x + unat y"
  for x y :: u32
  by (simp add: unat_word_ariths)

lemma insert_field_in_word:
  assumes "lsb < 32" "field < 32" "lsb \<le> field"
  shows "field_in_word lsb (field - lsb + 1)"
proof -
  have "unat (field - lsb) = unat field - unat lsb" "unat lsb \<le> unat field" "unat field < 32"
    using assms by (simp_all add: unat_sub word_le_nat_alt word_less_nat_alt)
  then show ?thesis using unat_small_sum [of "field - lsb" 1] by (simp add: field_in_word_def)
qed

lemma extract_field_in_word:
  assumes "lsb < 32" "field < 32" "field + lsb < 32"
  shows "field_in_word lsb (field + 1)"
proof -
  have "unat lsb < 32" "unat field < 32" using assms by (simp_all add: word_less_nat_alt)
  then show ?thesis using unat_small_sum [of field lsb] unat_small_sum [of field 1] assms(3)
    by (simp add: field_in_word_def word_less_nat_alt)
qed

lemma finished_bitfield:
  assumes "finish_bitfield out architecture form d source lsb field = (True, inst)"
    and "kind out = Unsupported" "kind inst = IntegerTransform" "lsb < 32" "field < 32"
  shows "field_in_word (shift_amount inst) (immediate inst)
    \<and> opcode inst \<in> {transform_code BitfieldInsert, transform_code BitfieldExtract}
    \<and> rd inst \<noteq> 15 \<and> rm inst \<noteq> 15"
proof (cases form)
  case (Pair insert sign)
  have "field_in_word lsb (if insert then field - lsb + 1 else field + 1)
      \<or> (if insert then field < lsb else 32 \<le> field + lsb)"
    using insert_field_in_word [OF assms(4,5)] extract_field_in_word [OF assms(4,5)]
    by (auto simp: not_less not_le)
  then show ?thesis using assms(1-3)
    by (cases insert) (auto simp: finish_bitfield_def Pair split: if_splits)
qed

lemma decoded_bitfield:
  assumes "decode_bitfield out word thumb architecture = (True, inst)" "kind out = Unsupported"
    and "kind inst = IntegerTransform"
  shows "field_in_word (shift_amount inst) (immediate inst)
    \<and> opcode inst \<in> {transform_code BitfieldInsert, transform_code BitfieldExtract}
    \<and> rd inst \<noteq> 15 \<and> rm inst \<noteq> 15"
proof -
  obtain form d source lsb field where
    "finish_bitfield out architecture form d source lsb field = (True, inst)" "lsb < 32" "field < 32"
    using assms unfolding decode_bitfield_def Let_def
    by (auto split: if_splits option.splits) (rule that, assumption, simp_all add: field_bounds)+
  then show ?thesis using finished_bitfield assms(2,3) by blast
qed

section \<open>Properties\<close>

text \<open>REV and RBIT move every bit to its mirrored place, applying either twice gives the
  operand back, and CLZ brackets its operand between two powers of two.\<close>

theorem reversals_and_leading_zeros:
  fixes inst :: instruction and v a b :: u32
  assumes "shift_amount inst = 0"
  defines "op \<equiv> transform_operation_of (opcode inst)" and "r \<equiv> integer_transform inst v a"
  shows "(op = Some ReverseBytes \<longrightarrow> (\<forall>n < 32. bit r n = bit v ((3 - n div 8) * 8 + n mod 8)))
    \<and> (op = Some ReverseBits \<longrightarrow> (\<forall>n < 32. bit r n = bit v (31 - n)))
    \<and> (op \<in> {Some ReverseBytes, Some ReverseHalfwords, Some ReverseBits} \<longrightarrow>
        integer_transform inst r b = v)
    \<and> (op = Some CountLeadingZeros \<longrightarrow>
        r \<le> 32 \<and> unat v < 2 ^ (32 - unat r) \<and> (v \<noteq> 0 \<longrightarrow> 2 ^ (31 - unat r) \<le> unat v))"
proof -
  have half: "reverse_halfwords (reverse_halfwords x) = x" for x
  proof (rule bit_word_eqI)
    fix n assume "n < LENGTH(32)"
    then have "n < 32" by simp
    from less_32_cases [OF this] show "bit (reverse_halfwords (reverse_halfwords x)) n = bit x n"
      unfolding bit_reverse_halfwords by (elim disjE; ((simp; fail) | simp add: numeral_2_eq_2))
  qed
  have bytes: "word_rotl 16 (reverse_halfwords (word_rotl 16 (reverse_halfwords x))) = x" for x
  proof (rule bit_word_eqI)
    fix n assume "n < LENGTH(32)"
    then have "n < 32" by simp
    from less_32_cases [OF this] show "bit (word_rotl 16 (reverse_halfwords (word_rotl 16 (reverse_halfwords x)))) n = bit x n"
      unfolding bit_reverse_bytes by (elim disjE; ((simp; fail) | simp add: numeral_2_eq_2))
  qed
  have bits: "reverse_bits (reverse_bits x) = x" for x
    by (rule bit_word_eqI) (auto simp: bit_reverse_bits)
  have clz: "op = Some CountLeadingZeros \<Longrightarrow> r = word_of_nat (countl_zero v)"
    unfolding r_def integer_transform_def op_def assms(1) by simp
  have u: "unat (word_of_nat (countl_zero v) :: u32) = countl_zero v"
    using unat_countl_zero_bounds(1) [of v] by (simp add: unat_of_nat)
  have "op = Some CountLeadingZeros \<longrightarrow>
      r \<le> 32 \<and> unat v < 2 ^ (32 - unat r) \<and> (v \<noteq> 0 \<longrightarrow> 2 ^ (31 - unat r) \<le> unat v)"
    using unat_countl_zero_bounds [of v] by (auto simp: clz u word_le_nat_alt)
  moreover have "op = Some ReverseBytes \<longrightarrow>
      (\<forall>n < 32. bit r n = bit v ((3 - n div 8) * 8 + n mod 8))"
    by (simp add: r_def integer_transform_def op_def assms(1) bit_reverse_bytes)
  moreover have "op = Some ReverseBits \<longrightarrow> (\<forall>n < 32. bit r n = bit v (31 - n))"
    by (simp add: r_def integer_transform_def op_def assms(1) bit_reverse_bits)
  moreover have "op \<in> {Some ReverseBytes, Some ReverseHalfwords, Some ReverseBits} \<longrightarrow>
        integer_transform inst r b = v"
    by (auto simp: r_def integer_transform_def op_def assms(1) half bytes bits)
  ultimately show ?thesis by blast
qed

theorem reversals_and_leading_zeros_witness:
  "integer_transform (new_instruction\<lparr>opcode := 6\<rparr>)
    (integer_transform (new_instruction\<lparr>opcode := 6\<rparr>) 0x1234 0) 0 = 0x1234"
  using reversals_and_leading_zeros [of "new_instruction\<lparr>opcode := 6\<rparr>" "0x1234" 0 0]
  by (simp add: new_instruction_def transform_operation_of_def transform_operations_def)

text \<open>C37. Whatever bit-field encoding the decoder accepts, A32 or T32, the field lies inside
  the word, so no shift of the execution is by 32 or more; BFI and BFC replace exactly the
  field's bits and UBFX and SBFX return exactly the field, zero- or sign-extended.\<close>

theorem decoded_bitfield_executes:
  fixes out inst :: instruction and word src old :: u32
  assumes "decode_bitfield out word thumb architecture = (True, inst)" "kind out = Unsupported"
    and "kind inst = IntegerTransform"
  defines "lsb \<equiv> unat (shift_amount inst)" and "w \<equiv> unat (immediate inst)"
    and "r \<equiv> integer_transform inst src old"
  shows "0 < w \<and> lsb + w \<le> 32
    \<and> (opcode inst = transform_code BitfieldInsert
        \<and> (\<forall>n < 32. bit r n = (if lsb \<le> n \<and> n < lsb + w then accumulate inst \<and> bit src (n - lsb)
            else bit old n))
      \<or> opcode inst = transform_code BitfieldExtract
        \<and> r = word_of_int ((if inst_sign_extend inst then signed_take_bit (w - 1) else take_bit w)
            (uint (drop_bit lsb src))))"
proof -
  have w: "0 < w" "lsb + w \<le> 32"
    using decoded_bitfield [OF assms(1-3)] by (simp_all add: field_in_word_def w_def lsb_def)
  then have imm: "0 < immediate inst" "immediate inst \<le> 32"
    by (auto simp: w_def word_less_nat_alt word_le_nat_alt)
  consider "opcode inst = transform_code BitfieldInsert" | "opcode inst = transform_code BitfieldExtract"
    using decoded_bitfield [OF assms(1-3)] by blast
  then show ?thesis
  proof cases
    case 1
    define m where "m = push_bit lsb (drop_bit (unat (32 - immediate inst)) 0xffffffff :: u32)"
    have m: "bit m n \<longleftrightarrow> n < 32 \<and> lsb \<le> n \<and> n < lsb + w" for n
      by (auto simp only: m_def bit_push_bit_iff bit_all_ones_shifted [OF imm] w_def) simp_all
    have op: "transform_operation_of (opcode inst) = Some BitfieldInsert"
      unfolding 1 by (simp add: transform_operation_of_def transform_operations_def)
    have "r = (old AND NOT m) OR (push_bit lsb (if accumulate inst then src else 0) AND m)"
      unfolding r_def integer_transform_def Let_def op option.case transform_operation.case
        m_def lsb_def ..
    then have "bit r n = (if lsb \<le> n \<and> n < lsb + w then accumulate inst \<and> bit src (n - lsb)
        else bit old n)" if "n < 32" for n
      using that unfolding m [symmetric]
      by (cases "bit m n") (auto simp: bit_or_iff bit_and_iff bit_not_iff m bit_push_bit_iff)
    then show ?thesis using 1 w by blast
  next
    case 2
    have op: "transform_operation_of (opcode inst) = Some BitfieldExtract"
      unfolding 2 by (simp add: transform_operation_of_def transform_operations_def)
    have "r = extend (drop_bit lsb src) (immediate inst) (inst_sign_extend inst)"
      unfolding r_def integer_transform_def Let_def op option.case transform_operation.case lsb_def ..
    then show ?thesis using 2 w by (simp only: extend_eq [OF imm] w_def) simp
  qed
qed

theorem decoded_bitfield_executes_witness:
  "integer_transform (snd (decode_bitfield new_instruction 0xe7e32251 False Armv6T2)) 0x12345 0 = 4"
proof -
  define i where "i = snd (decode_bitfield new_instruction 0xe7e32251 False Armv6T2)"
  have d: "decode_bitfield new_instruction 0xe7e32251 False Armv6T2 = (True, i)"
    and i: "kind i = IntegerTransform" "shift_amount i = 4" "immediate i = 4"
      "\<not> inst_sign_extend i" "opcode i = transform_code BitfieldExtract"
    by (simp_all add: i_def decode_bitfield_def finish_bitfield_def new_instruction_def
        has_armv6t2_extensions_def)
  show ?thesis
    using decoded_bitfield_executes [OF d _ i(1), of "0x12345" 0]
    unfolding d snd_conv i by (simp add: new_instruction_def take_bit_eq_mod i)
qed

text \<open>C39. Division: a zero divisor gives zero; unsigned division is exact; signed division
  truncates toward zero, and its one overflow, INT_MIN by -1, wraps back to INT_MIN.\<close>

theorem divide_truncates:
  fixes inst :: instruction and n d :: u32
  defines "q \<equiv> integer_divide inst n d"
  shows "if d = 0 then q = 0
    else if \<not> inst_sign_extend inst then unat q = unat n div unat d
    else if sint n = - (2 ^ 31) \<and> sint d = - 1 then q = n
    else \<bar>sint q\<bar> = \<bar>sint n\<bar> div \<bar>sint d\<bar>
      \<and> (sint q \<noteq> 0 \<longrightarrow> sgn (sint q) = sgn (sint n) * sgn (sint d))"
proof -
  let ?s = "sint n sdiv sint d"
  have abs: "\<bar>?s\<bar> = \<bar>sint n\<bar> div \<bar>sint d\<bar>" if "d \<noteq> 0"
  proof (cases "sint n = 0")
    case False
    moreover have "sint d \<noteq> 0" using that signed_word_eqI [of d 0] by auto
    moreover have "0 \<le> \<bar>sint n\<bar> div \<bar>sint d\<bar>" using calculation(2) by (simp add: pos_imp_zdiv_nonneg_iff)
    ultimately show ?thesis by (simp add: signed_divide_int_def abs_mult abs_sgn_eq)
  qed simp
  have wrapped: "word_of_int (- sint n) = n" if "sint n = - (2 ^ 31)"
  proof -
    have "n = word_of_int (sint n)" by simp
    also have "\<dots> = word_of_int (- sint n)" unfolding that by simp
    finally show ?thesis by simp
  qed
  have range: "- (2 ^ 31) \<le> ?s" "?s < 2 ^ 31"
    if "\<not> (sint n = - (2 ^ 31) \<and> sint d = - 1)"
  proof -
    have n: "- (2 ^ 31) \<le> sint n" "sint n < 2 ^ 31" by (rule sint_u32_bounds)+
    have s: "- \<bar>sint n\<bar> \<le> ?s" "?s \<le> \<bar>sint n\<bar>" using sdiv_int_range [of "sint n" "sint d"] by auto
    show "- (2 ^ 31) \<le> ?s" using n s by linarith
    have "?s \<noteq> - sint n \<or> sint n \<noteq> - (2 ^ 31)"
      using that int_sdiv_negated_is_minus1 [of "sint n" "sint d"] by fastforce
    then show "?s < 2 ^ 31" using n s by linarith
  qed
  have sgn: "?s \<noteq> 0 \<longrightarrow> sgn ?s = sgn (sint n) * sgn (sint d)"
    using sgn_sdiv_eq_sgn_mult [of "sint n" "sint d"] by (simp add: sgn_mult)
  show ?thesis
  proof (cases "d \<noteq> 0 \<and> inst_sign_extend inst")
    case True
    then have q: "q = word_of_int ?s" by (simp add: q_def integer_divide_def)
    show ?thesis
    proof (cases "sint n = - (2 ^ 31) \<and> sint d = - 1")
      case overflow: True
      then have "?s = - sint n" by simp
      then show ?thesis using True overflow wrapped q by simp
    next
      case False
      then have "sint q = ?s" unfolding q by (intro sint_word_of_int_u32 range)
      then show ?thesis using True False abs sgn by auto
    qed
  next
    case False
    then show ?thesis by (auto simp: q_def integer_divide_def unat_div)
  qed
qed

theorem divide_truncates_witness:
  "sint (integer_divide (new_instruction\<lparr>inst_sign_extend := True\<rparr>) 0xfffffff9 2) = - 3
    \<and> \<bar>- 3 :: int\<bar> = \<bar>- 7\<bar> div \<bar>2\<bar>"
  using divide_truncates [of 2 "new_instruction\<lparr>inst_sign_extend := True\<rparr>" "0xfffffff9"]
  by (simp add: integer_divide_def new_instruction_def)

end
