(* ===== verification/Decode_Core.thy ===== *)
theory Decode_Core
  imports Decode_Contract Arm_Multiply Arm_Saturating Arm_Transform
begin

text \<open>
  The decoders of the core register instructions that A32 and T32 share:
  \<^verbatim>\<open>arm/multiply_decode.cpp\<close>, \<^verbatim>\<open>arm/saturating_arithmetic.cpp\<close>,
  \<^verbatim>\<open>arm/parallel_arithmetic.cpp\<close>, \<^verbatim>\<open>arm/parallel_saturating.cpp\<close>,
  \<^verbatim>\<open>arm/program_status.cpp\<close>, \<^verbatim>\<open>arm/swap_decode.cpp\<close>,
  \<^verbatim>\<open>arm/exclusive.cpp\<close>, \<^verbatim>\<open>arm/dual_transfer.cpp\<close>,
  \<^verbatim>\<open>arm/system_control.cpp\<close> and \<^verbatim>\<open>arm/a32_transfer.cpp\<close>.
  The contract of a group decoder is the locale \<open>group_decoder\<close> of
  \<^verbatim>\<open>Decode_Contract\<close>; every decoder is an interpretation of it.
\<close>

unbundle bit_operations_syntax

section \<open>Multiplication\<close>

definition finish_multiply ::
  "instruction \<Rightarrow> multiply_operation \<Rightarrow> u32 \<Rightarrow> u32 \<Rightarrow> u32 \<Rightarrow> u32 \<Rightarrow> bool \<Rightarrow> bool \<Rightarrow> bool \<Rightarrow>
   bool \<times> instruction" where
  "finish_multiply out operation d n m s acc flags sign =
    (if d = 15 \<or> n = 15 \<or> m = 15 \<or> s = 15 \<or> (multiply_writes_pair (Some operation) \<and> d = n)
     then (True, out)
     else (True, out\<lparr>kind := Multiply, opcode := multiply_code operation, rd := d, rn := n,
       rm := m, rs := s, accumulate := acc, set_flags := flags, inst_sign_extend := sign\<rparr>))"

definition finish_multiply_thumb ::
  "u32 \<Rightarrow> arm_instruction_profile \<Rightarrow> instruction \<Rightarrow> multiply_operation \<Rightarrow> u32 \<Rightarrow> u32 \<Rightarrow> bool \<Rightarrow> bool \<Rightarrow>
   bool \<times> instruction" where
  "finish_multiply_thumb word profile out operation d n acc sign =
    (let (d, n) = (if multiply_writes_pair (Some operation)
           then (drop_bit 12 word AND 15, drop_bit 8 word AND 15) else (d, n));
         m = drop_bit 16 word AND 15; s = word AND 15 in
     if \<not> has_armv6t2_extensions profile \<or> d = 13 \<or> n = 13 \<or> m = 13 \<or> s = 13
     then (True, out)
     else finish_multiply out operation d n m s acc False sign)"

definition decode_multiply_thumb ::
  "instruction \<Rightarrow> u32 \<Rightarrow> arm_instruction_profile \<Rightarrow> bool \<times> instruction" where
  "decode_multiply_thumb out word profile =
    (let encoding = word AND 0xfff000f0;
         d = drop_bit 8 word AND 15; n = drop_bit 12 word AND 15;
         addend = (if n = 15 then 0 else n);
         halves = (drop_bit 5 word AND 1) OR push_bit 1 (drop_bit 4 word AND 1);
         finish = finish_multiply_thumb word profile in
     if encoding \<in> {0xfb000000, 0xfb000010}
     then let operation = (if encoding = 0xfb000010 then MulSubtract else MulWord) in
       if n = 15 \<and> operation = MulSubtract then (True, out)
       else finish out operation d addend (operation = MulWord \<and> n \<noteq> 15) False
     else if encoding \<in> {0xfb100000, 0xfb100010, 0xfb100020, 0xfb100030}
     then finish (out\<lparr>shift_amount := halves\<rparr>) MulHalfword d addend (n \<noteq> 15) True
     else if encoding \<in> {0xfb200000, 0xfb200010, 0xfb400000, 0xfb400010}
     then finish (out\<lparr>exchange := (word AND 0x10 \<noteq> 0)\<rparr>)
       (if word AND 0x00f00000 = 0x00400000 then MulDualHalfwordSubtract else MulDualHalfword)
       d addend (n \<noteq> 15) True
     else if encoding \<in> {0xfbc000c0, 0xfbc000d0, 0xfbd000c0, 0xfbd000d0}
     then finish (out\<lparr>exchange := (word AND 0x10 \<noteq> 0)\<rparr>)
       (if word AND 0x00f00000 = 0x00d00000 then MulDualHalfwordLongSubtract
        else MulDualHalfwordLong) 0 0 True True
     else if encoding \<in> {0xfb300000, 0xfb300010}
     then finish (out\<lparr>shift_amount := push_bit 1 (drop_bit 4 word AND 1)\<rparr>) MulWordHalfword
       d addend (n \<noteq> 15) True
     else if encoding \<in> {0xfbc00080, 0xfbc00090, 0xfbc000a0, 0xfbc000b0}
     then finish (out\<lparr>shift_amount := halves\<rparr>) MulHalfwordLong 0 0 True True
     else if encoding = 0xfb800000 then finish out MulLong 0 0 False True
     else if encoding = 0xfba00000 then finish out MulLong 0 0 False False
     else if encoding = 0xfbc00000 then finish out MulLong 0 0 True True
     else if encoding = 0xfbe00000 then finish out MulLong 0 0 True False
     else if encoding = 0xfbe00060 then finish out MulDualAccumulateLong 0 0 False False
     else if encoding \<in> {0xfb500000, 0xfb500010, 0xfb600000, 0xfb600010}
     then let operation = (if word AND 0x00f00000 = 0x00600000 then MulHighSubtract else MulHigh);
              acc = (operation = MulHighSubtract \<or> n \<noteq> 15) in
       finish (out\<lparr>shift_amount := drop_bit 4 word AND 1\<rparr>) operation d (if acc then n else 0)
         acc True
     else (False, out))"

definition decode_multiply_signed ::
  "instruction \<Rightarrow> u32 \<Rightarrow> (bool \<times> instruction) option" where
  "decode_multiply_signed out word =
    (let high = drop_bit 16 word AND 15; low = drop_bit 12 word AND 15;
         m = word AND 15; s = drop_bit 8 word AND 15;
         halves = (drop_bit 5 word AND 1) OR push_bit 1 (drop_bit 6 word AND 1) in
     if word AND 0x0ff00090 = 0x07000010 \<or> word AND 0x0ff00090 = 0x07400010
     then Some (if condition out = 15 then (False, out)
       else let pair = (word AND 0x00400000 \<noteq> 0); subtract = (word AND 0x40 \<noteq> 0);
                operation = (if pair
                  then if subtract then MulDualHalfwordLongSubtract else MulDualHalfwordLong
                  else if subtract then MulDualHalfwordSubtract else MulDualHalfword);
                d = (if pair then low else high); n = (if pair then high else low);
                acc = (pair \<or> n \<noteq> 15) in
         finish_multiply (out\<lparr>exchange := (word AND 0x20 \<noteq> 0)\<rparr>) operation d
           (if acc then n else 0) m s acc False True)
     else if word AND 0x0ff0f090 = 0x01600080
     then Some (if condition out = 15 then (False, out)
       else finish_multiply (out\<lparr>shift_amount := halves\<rparr>) MulHalfword high 0 m s False False True)
     else if word AND 0x0ff00090 = 0x01000080 \<or> word AND 0x0ff00090 = 0x01400080
     then Some (if condition out = 15 then (False, out)
       else let operation = (if word AND 0x00400000 \<noteq> 0 then MulHalfwordLong else MulHalfword);
                (d, n) = (if operation = MulHalfwordLong then (low, high) else (high, low)) in
         finish_multiply (out\<lparr>shift_amount := halves\<rparr>) operation d n m s True False True)
     else if word AND 0x0ff00090 = 0x01200080
     then Some (if condition out = 15 then (False, out)
       else let acc = (word AND 0x20 = 0) in
         if \<not> acc \<and> low \<noteq> 0 then (True, out)
         else finish_multiply (out\<lparr>shift_amount := push_bit 1 (drop_bit 6 word AND 1)\<rparr>)
           MulWordHalfword high low m s acc False True)
     else if word AND 0x0ff000d0 = 0x07500010 \<or> word AND 0x0ff000d0 = 0x075000d0
     then Some (if condition out = 15 then (False, out)
       else let operation = (if word AND 0xc0 \<noteq> 0 then MulHighSubtract else MulHigh);
                acc = (operation = MulHighSubtract \<or> low \<noteq> 15) in
         finish_multiply (out\<lparr>shift_amount := drop_bit 5 word AND 1\<rparr>) operation high
           (if acc then low else 0) m s acc False True)
     else None)"

definition decode_multiply_plain ::
  "instruction \<Rightarrow> u32 \<Rightarrow> arm_instruction_profile \<Rightarrow> bool \<times> instruction" where
  "decode_multiply_plain out word profile =
    (if word AND 0x0f0000f0 \<noteq> 0x00000090 \<or> condition out = 15 then (False, out)
     else
       let op = drop_bit 20 word AND 15; m = word AND 15; s = drop_bit 8 word AND 15;
           high = drop_bit 16 word AND 15; low = drop_bit 12 word AND 15 in
       if op < 4
       then let acc = (op AND 2 \<noteq> 0) in
         if \<not> acc \<and> low \<noteq> 0 then (True, out)
         else finish_multiply out MulWord high low m s acc (op AND 1 \<noteq> 0) False
       else if op = 6
       then if \<not> has_armv6t2_extensions profile then (True, out)
         else finish_multiply out MulSubtract high low m s False False False
       else if op = 5 \<or> op = 7 then (True, out)
       else let operation = (if op = 4 then MulDualAccumulateLong else MulLong) in
         if 8 \<le> op
         then finish_multiply out operation low high m s (op AND 2 \<noteq> 0) (op AND 1 \<noteq> 0)
           (op AND 4 \<noteq> 0)
         else finish_multiply out operation low high m s False False False)"

definition decode_multiply ::
  "instruction \<Rightarrow> u32 \<Rightarrow> bool \<Rightarrow> arm_instruction_profile \<Rightarrow> bool \<Rightarrow> bool \<times> instruction" where
  "decode_multiply out word thumb profile in_it_block =
    (if thumb \<and> word \<le> 0xffff
     then if word AND 0xffc0 \<noteq> 0x4340 then (False, out)
       else finish_multiply out MulWord (word AND 7) 0 (word AND 7) (drop_bit 3 word AND 7)
         False (\<not> in_it_block) False
     else if thumb then decode_multiply_thumb out word profile
     else case decode_multiply_signed out word of
       Some result \<Rightarrow> result
     | None \<Rightarrow> decode_multiply_plain out word profile)"

section \<open>Saturating and parallel arithmetic\<close>

definition finish_saturating ::
  "instruction \<Rightarrow> saturating_operation \<Rightarrow> u32 \<Rightarrow> u32 \<Rightarrow> u32 \<Rightarrow> bool \<times> instruction" where
  "finish_saturating out operation first second destination =
    (if first = 15 \<or> second = 15 \<or> destination = 15 then (True, out)
     else (True, out\<lparr>kind := SaturatingArithmetic, opcode := saturating_code operation,
       rn := first, rm := second, rd := destination\<rparr>))"

definition decode_saturating_arithmetic ::
  "instruction \<Rightarrow> u32 \<Rightarrow> bool \<Rightarrow> arm_instruction_profile \<Rightarrow> bool \<times> instruction" where
  "decode_saturating_arithmetic out word thumb architecture =
    (if thumb
     then let first = drop_bit 16 word AND 15; destination = drop_bit 8 word AND 15;
              unsigned_result = flag_set word 23;
              finish = (\<lambda>out operation first second.
                if \<not> has_armv6t2_extensions architecture \<or> first = 13 \<or> second = 13 \<or>
                   destination = 13 then (True, out)
                else finish_saturating out operation first second destination) in
       if word AND 0xfff0f0c0 = 0xfa80f080
       then finish out ([SatAdd, SatDoubleAdd, SatSubtract, SatDoubleSubtract]
           ! unat (drop_bit 4 word AND 3)) (word AND 15) first
       else if word AND 0xff70f0f0 = 0xf3200000
       then finish (out\<lparr>immediate := (word AND 15) + of_bool (\<not> unsigned_result)\<rparr>)
         (if unsigned_result then SatUnsignedHalfwords else SatSignedHalfwords) first 0
       else if word AND 0xff508020 = 0xf3000000
       then let out = out\<lparr>immediate := (word AND 31) + of_bool (\<not> unsigned_result),
                  inst_shift := (if flag_set word 21 then Asr else Lsl),
                  shift_amount := (drop_bit 10 word AND 28) OR (drop_bit 6 word AND 3)\<rparr> in
         if inst_shift out = Asr \<and> shift_amount out = 0 then (True, out)
         else finish out (if unsigned_result then SatUnsigned else SatSigned) first 0
       else (False, out)
     else if condition out = 15 then (False, out)
     else let first = word AND 15; destination = drop_bit 12 word AND 15;
              unsigned_result = flag_set word 22 in
       if word AND 0x0f900ff0 = 0x01000050
       then finish_saturating out ([SatAdd, SatSubtract, SatDoubleAdd, SatDoubleSubtract]
           ! unat (drop_bit 21 word AND 3)) first (drop_bit 16 word AND 15) destination
       else if word AND 0x0fb00ff0 = 0x06a00f30
       then finish_saturating
         (out\<lparr>immediate := (drop_bit 16 word AND 15) + of_bool (\<not> unsigned_result)\<rparr>)
         (if unsigned_result then SatUnsignedHalfwords else SatSignedHalfwords) first 0 destination
       else if word AND 0x0fa00030 = 0x06a00010
       then finish_saturating
         (out\<lparr>immediate := (drop_bit 16 word AND 31) + of_bool (\<not> unsigned_result),
            inst_shift := (if flag_set word 6 then Asr else Lsl),
            shift_amount := drop_bit 7 word AND 31\<rparr>)
         (if unsigned_result then SatUnsigned else SatSigned) first 0 destination
       else (False, out))"

definition finish_parallel ::
  "instruction \<Rightarrow> instruction_kind \<Rightarrow> int \<Rightarrow> u32 \<Rightarrow> bool \<Rightarrow> u32 \<Rightarrow> u32 \<Rightarrow> u32 \<Rightarrow> bool \<times> instruction" where
  "finish_parallel out knd operation base signed_lanes n d m =
    (if operation < 0 \<or> n = 15 \<or> d = 15 \<or> m = 15 then (True, out)
     else let out = (if knd = ParallelArithmetic then out\<lparr>inst_sign_extend := signed_lanes\<rparr>
                     else out) in
       (True, out\<lparr>kind := knd, opcode := word_of_int operation + base, rd := d, rn := n, rm := m\<rparr>))"

definition thumb_parallel_operation :: "u32 \<Rightarrow> int" where
  "thumb_parallel_operation word =
    [4, 0, 1, - 1, 5, 3, 2, - 1] ! unat (drop_bit 20 word AND 7)"

definition arm_parallel_operation :: "u32 \<Rightarrow> int" where
  "arm_parallel_operation word =
    [0, 1, 2, 3, 4, - 1, - 1, 5] ! unat (drop_bit 5 word AND 7)"

definition decode_parallel_arithmetic ::
  "instruction \<Rightarrow> u32 \<Rightarrow> bool \<Rightarrow> arm_instruction_profile \<Rightarrow> bool \<times> instruction" where
  "decode_parallel_arithmetic out word thumb architecture =
    (let m = word AND 15; n = drop_bit 16 word AND 15 in
     if thumb
     then let d = drop_bit 8 word AND 15;
              finish = (\<lambda>operation signed_lanes.
                if \<not> has_armv6t2_extensions architecture \<or> n = 13 \<or> d = 13 \<or> m = 13 then (True, out)
                else finish_parallel out ParallelArithmetic operation 0 signed_lanes n d m) in
       if word AND 0xfff0f0f0 = 0xfaa0f080 then finish 6 False
       else if word AND 0xff80f0b0 \<noteq> 0xfa80f000 then (False, out)
       else finish (thumb_parallel_operation word) (word AND 0x40 = 0)
     else if condition out = 15 then (False, out)
     else let d = drop_bit 12 word AND 15;
              finish = (\<lambda>operation signed_lanes.
                finish_parallel out ParallelArithmetic operation 0 signed_lanes n d m) in
       if word AND 0x0ff00ff0 = 0x06800fb0 then finish 6 False
       else if word AND 0x0fb00f10 \<noteq> 0x06100f10 then (False, out)
       else finish (arm_parallel_operation word) (word AND 0x00400000 = 0))"

definition decode_parallel_saturating ::
  "instruction \<Rightarrow> u32 \<Rightarrow> bool \<Rightarrow> arm_instruction_profile \<Rightarrow> bool \<times> instruction" where
  "decode_parallel_saturating out word thumb architecture =
    (let m = word AND 15; n = drop_bit 16 word AND 15;
         base = (\<lambda>signed_values. if signed_values then parallel_saturating_code PsSignedAdd16 else 0) in
     if thumb
     then if word AND 0xff80f0b0 \<noteq> 0xfa80f010 then (False, out)
       else let d = drop_bit 8 word AND 15 in
         if \<not> has_armv6t2_extensions architecture \<or> n = 13 \<or> d = 13 \<or> m = 13 then (True, out)
         else finish_parallel out ParallelSaturating (thumb_parallel_operation word)
           (base (\<not> flag_set word 6)) False n d m
     else if condition out = 15 \<or> word AND 0x0fb00f10 \<noteq> 0x06200f10 then (False, out)
     else finish_parallel out ParallelSaturating (arm_parallel_operation word)
       (base (\<not> flag_set word 22)) False n (drop_bit 12 word AND 15) m)"

section \<open>Status, swaps and exclusive accesses\<close>

definition finish_program_status :: "instruction \<Rightarrow> bool \<Rightarrow> bool \<times> instruction" where
  "finish_program_status out spsr =
    (if spsr \<or> (\<not> immediate_operand out \<and> rd out = 15) \<or> (\<not> load out \<and> opcode out = 0)
     then (True, out)
     else (True, out\<lparr>kind := SystemControl, system := ProgramStatusRegister\<rparr>))"

definition decode_program_status ::
  "instruction \<Rightarrow> u32 \<Rightarrow> bool \<Rightarrow> arm_instruction_profile \<Rightarrow> bool \<times> instruction" where
  "decode_program_status out word thumb architecture =
    (let finish = finish_program_status in
     if thumb
     then let spsr = flag_set word 20;
              finish = (\<lambda>out. if \<not> has_armv6t2_extensions architecture \<or> rd out = 13
                then (True, out) else finish out spsr) in
       if word AND 0xffeff0ff = 0xf3ef8000
       then finish (out\<lparr>load := True, rd := drop_bit 8 word AND 15\<rparr>)
       else if word AND 0xffe0f0ff = 0xf3808000
       then finish (out\<lparr>rd := drop_bit 16 word AND 15, opcode := drop_bit 8 word AND 15\<rparr>)
       else (False, out)
     else if condition out = 15 then (False, out)
     else let spsr = flag_set word 22 in
       if word AND 0x0fbf0fff = 0x010f0000
       then finish (out\<lparr>load := True, rd := drop_bit 12 word AND 15\<rparr>) spsr
       else if word AND 0x0fb0fff0 = 0x0120f000
       then finish (out\<lparr>rd := word AND 15, opcode := drop_bit 16 word AND 15\<rparr>) spsr
       else if word AND 0x0fb0f000 = 0x0320f000
       then let out = out\<lparr>opcode := drop_bit 16 word AND 15\<rparr> in
         if opcode out = 0 \<and> \<not> flag_set word 22 then (False, out)
         else finish (out\<lparr>immediate_operand := True,
           immediate := word_rotr (unat ((drop_bit 8 word AND 15) * 2)) (word AND 255)\<rparr>) spsr
       else (False, out))"

definition decode_swap :: "instruction \<Rightarrow> u32 \<Rightarrow> bool \<times> instruction" where
  "decode_swap out word =
    (if condition out = 15 \<or> word AND 0x0fb00ff0 \<noteq> 0x01000090 then (False, out)
     else let out = out\<lparr>rn := drop_bit 16 word AND 15, rd := drop_bit 12 word AND 15,
              rm := word AND 15\<rparr> in
       if rn out = 15 \<or> rd out = 15 \<or> rm out = 15 \<or> rn out = rd out \<or> rn out = rm out
       then (True, out)
       else (True, out\<lparr>kind := Swap, access_size := (if flag_set word 22 then 1 else 4)\<rparr>))"

definition finish_exclusive :: "instruction \<Rightarrow> bool \<times> instruction" where
  "finish_exclusive out =
    (let first = (if load out then rd out else rm out) in
     if rn out = 15 \<or> first = 15 \<or>
        (\<not> load out \<and> (rd out = 15 \<or> rd out = rn out \<or> rd out = first \<or>
          (access_size out = 8 \<and> rd out = rs out)))
     then (True, out) else (True, out\<lparr>kind := ExclusiveTransferKind\<rparr>))"

definition decode_exclusive_arm :: "instruction \<Rightarrow> u32 \<Rightarrow> bool \<times> instruction" where
  "decode_exclusive_arm out word =
    (if condition out = 15 \<or> word AND 0x0f8000f0 \<noteq> 0x01800090 then (False, out)
     else if word AND 0xf00 \<noteq> 0xf00 then (True, out)
     else let out = out\<lparr>access_size := [4, 8, 1, 2] ! unat (drop_bit 21 word AND 3),
              load := flag_set word 20, rn := drop_bit 16 word AND 15,
              rd := drop_bit 12 word AND 15, rm := word AND 15\<rparr> in
       if load out \<and> rm out \<noteq> 15 then (True, out)
       else let first = (if load out then rd out else rm out);
                out = out\<lparr>rs := first + 1\<rparr> in
         if access_size out = 8 \<and> (first AND 1 \<noteq> 0 \<or> rs out = 15) then (True, out)
         else finish_exclusive out)"

definition finish_exclusive_thumb :: "instruction \<Rightarrow> u32 \<Rightarrow> bool \<times> instruction" where
  "finish_exclusive_thumb out head =
    (let out = out\<lparr>rn := head AND 15\<rparr>;
         first = (if load out then rd out else rm out) in
     if first = 13 \<or> (\<not> load out \<and> rd out = 13) \<or>
        (access_size out = 8 \<and> (rs out = 13 \<or> rs out = 15 \<or> (load out \<and> first = rs out)))
     then (True, out) else finish_exclusive out)"

definition decode_exclusive_thumb :: "instruction \<Rightarrow> u32 \<Rightarrow> bool \<times> instruction" where
  "decode_exclusive_thumb out word =
    (let head = drop_bit 16 word; tail = word AND 0xffff in
     if head AND 0xffe0 = 0xe840
     then let out = out\<lparr>load := (head AND 16 \<noteq> 0)\<rparr> in
       if load out \<and> tail AND 0xf00 \<noteq> 0xf00 then (True, out)
       else finish_exclusive_thumb (out\<lparr>access_size := 4, immediate := push_bit 2 (tail AND 255),
           rd := (if load out then drop_bit 12 tail else drop_bit 8 tail AND 15),
           rm := drop_bit 12 tail\<rparr>) head
     else if head AND 0xffe0 = 0xe8c0
     then let operation = drop_bit 4 tail AND 15 in
       if operation \<noteq> 4 \<and> operation \<noteq> 5 \<and> operation \<noteq> 7 then (False, out)
       else let out = out\<lparr>load := (head AND 16 \<noteq> 0),
                access_size := (if operation = 7 then 8 else if operation = 5 then 2 else 1)\<rparr> in
         if (load out \<and> tail AND 15 \<noteq> 15) \<or> (access_size out \<noteq> 8 \<and> tail AND 0xf00 \<noteq> 0xf00)
         then (True, out)
         else finish_exclusive_thumb
           (out\<lparr>rd := (if load out then drop_bit 12 tail else tail AND 15), rm := drop_bit 12 tail,
              rs := drop_bit 8 tail AND 15\<rparr>) head
     else (False, out))"

definition decode_exclusive :: "instruction \<Rightarrow> u32 \<Rightarrow> bool \<Rightarrow> bool \<times> instruction" where
  "decode_exclusive out word thumb =
    (if word = (if thumb then 0xf3bf8f2f else 0xf57ff01f)
     then let out = out\<lparr>kind := ClearExclusive\<rparr> in
       (True, if \<not> thumb then out\<lparr>condition := 14\<rparr> else out)
     else if \<not> thumb then decode_exclusive_arm out word
     else decode_exclusive_thumb out word)"

section \<open>Transfers and system control\<close>

definition finish_dual_transfer :: "instruction \<Rightarrow> bool \<times> instruction" where
  "finish_dual_transfer out =
    (if writeback out \<and> (rn out = 15 \<or> rn out = rd out \<or> rn out = rs out) then (True, out)
     else let out = out\<lparr>align_pc := load out \<and> rn out = 15 \<and> immediate_operand out\<rparr> in
       if align_pc out \<and> (\<not> inst_index out \<or> writeback out) then (True, out)
       else (True, out\<lparr>access_size := 4, kind := DualTransfer\<rparr>))"

definition decode_dual_transfer ::
  "instruction \<Rightarrow> u32 \<Rightarrow> bool \<Rightarrow> arm_instruction_profile \<Rightarrow> bool \<times> instruction" where
  "decode_dual_transfer out word thumb architecture =
    (if thumb
     then if word AND 0xfe400000 \<noteq> 0xe8400000 \<or> word AND 0x01200000 = 0 then (False, out)
       else if \<not> has_armv6t2_extensions architecture then (True, out)
       else let out = out\<lparr>rn := drop_bit 16 word AND 15, rd := drop_bit 12 word AND 15,
                rs := drop_bit 8 word AND 15, load := flag_set word 20,
                inst_index := flag_set word 24, inst_add := flag_set word 23,
                writeback := flag_set word 21, immediate_operand := True,
                immediate := push_bit 2 (word AND 255)\<rparr> in
         if rd out = 13 \<or> rd out = 15 \<or> rs out = 13 \<or> rs out = 15 \<or>
            (load out \<and> rd out = rs out) \<or> (\<not> load out \<and> rn out = 15) then (True, out)
         else finish_dual_transfer out
     else if condition out = 15 \<or> word AND 0x0e1000d0 \<noteq> 0x000000d0 then (False, out)
     else let out = out\<lparr>rn := drop_bit 16 word AND 15, rd := drop_bit 12 word AND 15\<rparr>;
              out = out\<lparr>rs := rd out + 1, load := (word AND 32 = 0),
                inst_index := flag_set word 24, inst_add := flag_set word 23\<rparr>;
              out = out\<lparr>writeback := \<not> inst_index out \<or> flag_set word 21,
                immediate_operand := flag_set word 22\<rparr> in
       if rd out AND 1 \<noteq> 0 \<or> rs out = 15 \<or> (\<not> inst_index out \<and> flag_set word 21)
       then (True, out)
       else if immediate_operand out
       then finish_dual_transfer
         (out\<lparr>immediate := (drop_bit 4 word AND 0xf0) OR (word AND 15)\<rparr>)
       else let out = out\<lparr>rm := word AND 15\<rparr> in
         if word AND 0xf00 \<noteq> 0 \<or> rm out = 15 \<or> (load out \<and> (rm out = rd out \<or> rm out = rs out))
         then (True, out)
         else finish_dual_transfer out)"

definition decode_system_control :: "instruction \<Rightarrow> u32 \<Rightarrow> bool \<Rightarrow> bool \<times> instruction" where
  "decode_system_control out word thumb =
    (let barrier = word AND 0xfffffff0;
         base = (if thumb then 0xf3bf8f00 else 0xf57ff000) in
     if barrier = (base OR 0x40) \<or> barrier = (base OR 0x50) \<or> barrier = (base OR 0x60)
     then let out = out\<lparr>kind := SystemControl,
              system := (if word AND 0xf0 = 0x40 then DataSynchronizationBarrier
                else if word AND 0xf0 = 0x50 then DataMemoryBarrier
                else InstructionSynchronizationBarrier),
              immediate := word AND 15\<rparr> in
       (True, if \<not> thumb then out\<lparr>condition := 14\<rparr> else out)
     else if word AND 0x0fe00f10 \<noteq> 0x0e000f10 \<or>
        (if thumb then drop_bit 28 word \<noteq> 14 else condition out = 15) then (False, out)
     else let n = drop_bit 16 word AND 15; m = word AND 15; op = drop_bit 5 word AND 7;
              out = out\<lparr>rd := drop_bit 12 word AND 15, load := flag_set word 20\<rparr> in
       if rd out = 15 \<or> (thumb \<and> rd out = 13) then (True, out)
       else if n = 13 \<and> m = 0 \<and> (op = 2 \<or> (op = 3 \<and> load out))
       then (True, out\<lparr>system := (if op = 2 then ThreadPointerReadWrite else ThreadPointerReadOnly),
         kind := SystemControl\<rparr>)
       else if \<not> load out \<and> n = 7 \<and> ((m = 10 \<and> (op = 4 \<or> op = 5)) \<or> (m = 5 \<and> op = 4))
       then (True, out\<lparr>system := (if m = 5 then InstructionSynchronizationBarrier
             else if op = 4 then DataSynchronizationBarrier else DataMemoryBarrier),
         immediate := 15, kind := SystemControl\<rparr>)
       else (True, out))"

definition finish_transfer ::
  "bool \<Rightarrow> bool \<Rightarrow> arm_instruction_profile \<Rightarrow> instruction \<Rightarrow> bool \<times> instruction" where
  "finish_transfer unprivileged extra_transfer architecture out =
    (if (\<not> immediate_operand out \<and> rm out = 15) \<or>
        (writeback out \<and> (rn out = 15 \<or> rn out = rd out)) \<or>
        (rd out = 15 \<and> (access_size out \<noteq> 4 \<or> (unprivileged \<and> load out))) \<or>
        (unprivileged \<and> extra_transfer \<and> \<not> has_armv6t2_extensions architecture)
     then (True, out)
     else (True, out\<lparr>align_pc := load out \<and> rn out = 15 \<and> immediate_operand out,
       kind := TransferKind\<rparr>))"

definition decode_a32_transfer ::
  "instruction \<Rightarrow> u32 \<Rightarrow> arm_instruction_profile \<Rightarrow> bool \<times> instruction" where
  "decode_a32_transfer out word architecture =
    (let ordinary_transfer = (word AND 0x0c000000 = 0x04000000);
         extra_transfer = (word AND 0x0e000090 = 0x00000090 \<and> word AND 0x60 \<noteq> 0) in
     if condition out = 15 then (False, out)
     else if ordinary_transfer \<or> extra_transfer
     then let out = out\<lparr>rd := drop_bit 12 word AND 15, rn := drop_bit 16 word AND 15,
                load := flag_set word 20, inst_index := flag_set word 24,
                inst_add := flag_set word 23\<rparr>;
              out = out\<lparr>writeback := \<not> inst_index out \<or> flag_set word 21\<rparr>;
              unprivileged = (\<not> inst_index out \<and> flag_set word 21);
              finish = finish_transfer unprivileged extra_transfer architecture in
       if ordinary_transfer
       then let out = out\<lparr>access_size := (if flag_set word 22 then 1 else 4),
                  immediate_operand := \<not> flag_set word 25\<rparr> in
         if immediate_operand out then finish (out\<lparr>immediate := word AND 0xfff\<rparr>)
         else if word AND 16 \<noteq> 0 then (True, out)
         else finish (out\<lparr>rm := word AND 15, inst_shift := shift_kind_of (drop_bit 5 word AND 3),
           shift_amount := drop_bit 7 word AND 31\<rparr>)
       else let operation = drop_bit 5 word AND 3 in
         if \<not> load out \<and> operation \<noteq> 1 then (True, out)
         else let out = out\<lparr>access_size := (if operation = 2 then 1 else 2),
                  inst_sign_extend := (operation \<noteq> 1), immediate_operand := flag_set word 22\<rparr> in
           if immediate_operand out
           then finish (out\<lparr>immediate := (drop_bit 4 word AND 0xf0) OR (word AND 15)\<rparr>)
           else if word AND 0xf00 \<noteq> 0 then (True, out)
           else finish (out\<lparr>rm := word AND 15\<rparr>)
     else (False, out))"

section \<open>The contract\<close>

lemma low_register [field_bounds]:
  "x AND 15 < (16 :: u32)" "x AND 7 < (16 :: u32)" "drop_bit 12 (w AND 0xffff) < (16 :: u32)"
  by (simp_all add: and_field_less)

lemma next_register:
  assumes "r < (16 :: u32)" "r \<noteq> 15"
  shows "r + 1 < 16"
proof -
  have "unat r < 16" "unat r \<noteq> 15"
    using assms word_unat_eq_iff [of r 15] by (auto simp: word_less_nat_alt)
  then show ?thesis by (simp add: word_less_nat_alt unat_word_ariths)
qed

lemma finish_multiply_ok:
  assumes "fresh out" "d < 16" "n < 16" "m < 16" "s < 16"
  shows "outcome_ok (finish_multiply out operation d n m s acc flags sign)"
  using assms by (auto simp: finish_multiply_def decode_defs)

lemma finish_multiply_thumb_ok:
  assumes "fresh out" "d < 16" "n < 16"
  shows "outcome_ok (finish_multiply_thumb word profile out operation d n acc sign)"
  using assms finish_multiply_ok fresh_decoded
  by (auto simp: finish_multiply_thumb_def Let_def field_bounds split_beta)

lemma decode_multiply_thumb_ok:
  assumes "fresh out"
  shows "outcome_ok (decode_multiply_thumb out word profile)"
  using assms finish_multiply_thumb_ok fresh_decoded
  by (simp add: decode_multiply_thumb_def Let_def field_bounds)

lemma decode_multiply_signed_ok:
  assumes "fresh out" "decode_multiply_signed out word = Some r"
  shows "outcome_ok r"
  using assms finish_multiply_ok fresh_decoded
  by (auto simp: decode_multiply_signed_def Let_def field_bounds split: if_splits)

lemma decode_multiply_plain_ok:
  assumes "fresh out"
  shows "outcome_ok (decode_multiply_plain out word profile)"
  using assms finish_multiply_ok fresh_decoded
  by (simp add: decode_multiply_plain_def Let_def field_bounds)

interpretation multiply_group: group_decoder "\<lambda>out. decode_multiply out word thumb profile it"
  for word thumb profile it
  by unfold_locales
    (auto simp: decode_multiply_def field_bounds finish_multiply_ok decode_multiply_thumb_ok
      decode_multiply_plain_ok split: option.split intro: decode_multiply_signed_ok)

interpretation bitfield_group: group_decoder "\<lambda>out. decode_bitfield out word thumb profile"
  for word thumb profile
proof
  fix out :: instruction assume "fresh out"
  then have "outcome_ok (finish_bitfield out profile form d source lsb field)"
    if "d < 16" "source < 16" for form d source lsb field
    using that by (cases form) (auto simp: finish_bitfield_def decode_defs)
  then show "outcome_ok (decode_bitfield out word thumb profile)"
    using \<open>fresh out\<close> fresh_decoded [OF \<open>fresh out\<close>]
    by (simp add: decode_bitfield_def Let_def field_bounds split: option.split)
qed

lemma finish_transform_ok:
  assumes "fresh out" "d < 16" "m < 16" "n < 16"
  shows "outcome_ok (finish_transform out operation d m n sign rotation)"
  using assms by (auto simp: finish_transform_def decode_defs)

lemma transform_groups_ok:
  assumes "fresh out"
  shows "outcome_ok (decode_transform_narrow out word)"
    and "outcome_ok (decode_transform_wide out word profile)"
    and "outcome_ok (decode_transform_arm out word profile)"
proof -
  note fin = finish_transform_ok [OF assms] fresh_decoded [OF assms] assms
  show "outcome_ok (decode_transform_narrow out word)"
    using fin by (simp add: decode_transform_narrow_def Let_def field_bounds)
  show "outcome_ok (decode_transform_wide out word profile)"
    using fin by (simp add: decode_transform_wide_def Let_def field_bounds)
  have "decoded_ok (out\<lparr>rd := drop_bit 12 word AND 15, rn := drop_bit 16 word AND 15,
      rm := word AND 15, kind := PackHalfword, inst_shift := k, shift_amount := a\<rparr>)"
    "decoded_ok (out\<lparr>rd := drop_bit 12 word AND 15, rn := drop_bit 16 word AND 15,
      rm := word AND 15\<rparr>)" for k a
    using assms by (simp_all add: decode_defs field_bounds)
  then show "outcome_ok (decode_transform_arm out word profile)"
    using fin by (simp add: decode_transform_arm_def Let_def field_bounds)
qed

interpretation transform_group: group_decoder
  "\<lambda>out. decode_integer_transform out word thumb profile" for word thumb profile
proof
  fix out :: instruction assume "fresh out"
  from bitfield_group.outcome [OF this, of word thumb profile]
  show "outcome_ok (decode_integer_transform out word thumb profile)"
    by (auto simp: decode_integer_transform_def transform_groups_ok split: prod.split bool.split)
qed

interpretation divide_group: group_decoder
  "\<lambda>out. decode_integer_divide out word thumb profile division" for word thumb profile division
  by unfold_locales (auto simp: decode_integer_divide_def Let_def decode_defs field_bounds)

interpretation saturating_group: group_decoder
  "\<lambda>out. decode_saturating_arithmetic out word thumb profile" for word thumb profile
proof
  fix out :: instruction assume fresh: "fresh out"
  have fin: "outcome_ok (finish_saturating out operation a b d)"
    if "fresh out" "a < 16" "b < 16" "d < 16" for out operation a b d
    using that by (auto simp: finish_saturating_def decode_defs)
  show "outcome_ok (decode_saturating_arithmetic out word thumb profile)"
    using fresh fresh_decoded fin
    by (simp add: decode_saturating_arithmetic_def Let_def field_bounds)
qed

lemma finish_parallel_ok:
  assumes "fresh out" "n < 16" "d < 16" "m < 16" "knd = ParallelArithmetic \<or> knd = ParallelSaturating"
  shows "outcome_ok (finish_parallel out knd operation base s n d m)"
  using assms by (auto simp: finish_parallel_def Let_def decode_defs)

interpretation parallel_group: group_decoder
  "\<lambda>out. decode_parallel_arithmetic out word thumb profile" for word thumb profile
  by unfold_locales (simp add: decode_parallel_arithmetic_def Let_def finish_parallel_ok
      fresh_decoded field_bounds)

interpretation parallel_saturating_group: group_decoder
  "\<lambda>out. decode_parallel_saturating out word thumb profile" for word thumb profile
  by unfold_locales (simp add: decode_parallel_saturating_def Let_def finish_parallel_ok
      fresh_decoded field_bounds)

lemma finish_program_status_ok:
  assumes "kind out = Unsupported" "registers_ok out" "vector out = OpDuplicate no_duplicate"
    "inst_size out < 8"
  shows "outcome_ok (finish_program_status out spsr)"
  using assms by (simp add: finish_program_status_def decode_defs)

lemma status_fields:
  assumes "fresh out"
  shows "kind (out\<lparr>load := b, rd := word AND 15\<rparr>) = Unsupported"
    "registers_ok (out\<lparr>load := b, rd := word AND 15\<rparr>)"
    "registers_ok (out\<lparr>rd := word AND 15, opcode := n\<rparr>)"
    "registers_ok (out\<lparr>opcode := n, immediate_operand := b, immediate := m\<rparr>)"
    "vector out = OpDuplicate no_duplicate" "kind out = Unsupported" "inst_size out < 8"
  using assms by (simp_all add: decode_defs field_bounds)

interpretation status_group: group_decoder
  "\<lambda>out. decode_program_status out word thumb profile" for word thumb profile
proof
  fix out :: instruction assume fresh: "fresh out"
  have partial: "decoded_ok (out\<lparr>load := b, rd := n\<rparr>)" "decoded_ok (out\<lparr>rd := n, opcode := m\<rparr>)"
    "fresh (out\<lparr>opcode := 0\<rparr>)" for b n m
    using fresh by (simp_all add: decode_defs)
  show "outcome_ok (decode_program_status out word thumb profile)"
    using fresh partial status_fields [OF fresh] finish_program_status_ok
    by (simp add: decode_program_status_def Let_def del: flag_set_iff)
qed

interpretation swap_group: group_decoder "\<lambda>out. decode_swap out word" for word
  by unfold_locales (auto simp: decode_swap_def Let_def decode_defs field_bounds)

text \<open>The sizes an A32 exclusive access can name.\<close>

lemma exclusive_size:
  fixes x :: u32
  shows "[4, 8, 1, 2] ! unat (x AND 3) \<in> ({1, 2, 4, 8} :: u32 set)"
proof -
  have "unat (x AND 3) < 4" using unat_and_mask [of x 2] by (simp add: mask_eq_exp_minus_1)
  then have "unat (x AND 3) \<in> {0, 1, 2, 3}" by auto
  then show ?thesis by auto
qed

interpretation exclusive_group: group_decoder "\<lambda>out. decode_exclusive out word thumb"
  for word thumb
proof
  fix out :: instruction assume fresh: "fresh out"
  have fin: "outcome_ok (finish_exclusive out)"
    if "kind out = Unsupported" "rd out < 16" "rn out < 16" "rm out < 16"
      "rs out < 16 \<or> (if load out then rd out else rm out) = 15"
      "vector out = OpDuplicate no_duplicate" "inst_size out < 8" "access_size out \<in> {1, 2, 4, 8}"
    for out
    using that by (auto simp: finish_exclusive_def decode_defs Let_def)
  have thumb_fin: "outcome_ok (finish_exclusive_thumb out head)"
    if "kind out = Unsupported" "rd out < 16" "rm out < 16" "rs out < 16"
      "vector out = OpDuplicate no_duplicate" "inst_size out < 8" "access_size out \<in> {1, 2, 4, 8}"
    for out head
    using that by (simp add: finish_exclusive_thumb_def Let_def fin field_bounds decoded_ok_def)
  have step: "r AND 15 = 15 \<or> (r AND 15) + 1 < 16" for r :: u32
    using next_register [of "r AND 15"] by (auto simp: field_bounds)
  have arm: "outcome_ok (decode_exclusive_arm out word)"
    using fresh step [of word] step [of "drop_bit 12 word"] exclusive_size [of "drop_bit 21 word"]
    by (auto simp: decode_exclusive_arm_def Let_def fin field_bounds decode_defs)
  have thumb: "outcome_ok (decode_exclusive_thumb out word)"
    using fresh
    by (simp add: decode_exclusive_thumb_def Let_def field_bounds thumb_fin decode_defs)
  show "outcome_ok (decode_exclusive out word thumb)"
    using arm thumb fresh by (simp add: decode_exclusive_def Let_def decode_defs)
qed

interpretation dual_group: group_decoder "\<lambda>out. decode_dual_transfer out word thumb profile"
  for word thumb profile
proof
  fix out :: instruction assume fresh: "fresh out"
  have fin: "outcome_ok (finish_dual_transfer out)"
    if "kind out = Unsupported" "registers_ok out" "vector out = OpDuplicate no_duplicate"
      "inst_size out < 8" "rd out \<noteq> 15" "rs out \<noteq> 15" for out
    using that by (simp add: finish_dual_transfer_def Let_def decode_defs)
  have step: "(r AND 15) + 1 < 16" "r AND 15 \<noteq> 15" if "\<not> bit (r AND 15) 0" for r :: u32
    using that by (auto intro!: next_register simp: field_bounds)
  show "outcome_ok (decode_dual_transfer out word thumb profile)"
    using fresh step [of "drop_bit 12 word"]
    by (simp add: decode_dual_transfer_def Let_def fin field_bounds decode_defs)
qed

interpretation system_group: group_decoder "\<lambda>out. decode_system_control out word thumb"
  for word thumb
  by unfold_locales (simp add: decode_system_control_def Let_def decode_defs field_bounds)

interpretation transfer_group: group_decoder "\<lambda>out. decode_a32_transfer out word profile"
  for word profile
proof
  fix out :: instruction assume fresh: "fresh out"
  have fin: "outcome_ok (finish_transfer u x profile out)"
    if "kind out = Unsupported" "registers_ok out" "vector out = OpDuplicate no_duplicate"
      "inst_size out < 8" "access_size out = 1 \<or> access_size out = 2 \<or> access_size out = 4"
      "inst_sign_extend out \<longrightarrow> access_size out \<noteq> 4"
    for u x out
    using that by (simp add: finish_transfer_def decode_defs)
  show "outcome_ok (decode_a32_transfer out word profile)"
    using fresh fin
    by (simp add: decode_a32_transfer_def Let_def fresh_def decoded_ok_def registers_ok_def
        field_bounds del: flag_set_iff)
qed

end
