(* ===== verification/Decode_A32.thy ===== *)
theory Decode_A32
  imports Decode_Core Decode_Vector
begin

text \<open>
  The A32 decoder \<^verbatim>\<open>arm/a32_decode.cpp\<close>: the extension groups by major encoding,
  then the base instruction set.
\<close>

unbundle bit_operations_syntax

section \<open>Definitions\<close>

definition a32_groups ::
  "u32 \<Rightarrow> vfp_register_profile \<Rightarrow> arm_instruction_profile \<Rightarrow> vfp_instruction_profile \<Rightarrow>
   integer_divide_profile \<Rightarrow> advanced_simd_profile \<Rightarrow> (instruction \<Rightarrow> bool \<times> instruction) list" where
  "a32_groups word vfp architecture floating_instructions division simd =
    (let major = drop_bit 25 word AND 7 in
     if major = 0 then
       [\<lambda>out. decode_saturating_arithmetic out word False architecture,
        \<lambda>out. decode_multiply out word False architecture False,
        \<lambda>out. decode_integer_transform out word False architecture,
        \<lambda>out. decode_swap out word,
        \<lambda>out. decode_dual_transfer out word False architecture,
        \<lambda>out. decode_exclusive out word False,
        \<lambda>out. decode_program_status out word False architecture]
     else if major = 1 then
       [\<lambda>out. decode_program_status out word False architecture,
        \<lambda>out. decode_simd_immediate out word False vfp architecture,
        \<lambda>out. decode_simd_floating out word False vfp architecture simd,
        \<lambda>out. decode_simd_integer out word False vfp architecture simd,
        \<lambda>out. decode_simd_duplicate out word False,
        \<lambda>out. decode_simd_bitwise out word False,
        \<lambda>out. decode_simd_extract out word False,
        \<lambda>out. decode_simd_reverse out word False vfp architecture simd,
        \<lambda>out. decode_simd_shift_immediate out word False vfp architecture simd,
        \<lambda>out. decode_simd_conversion out word False vfp architecture simd]
     else if major = 2 then
       [\<lambda>out. decode_exclusive out word False,
        \<lambda>out. decode_system_control out word False,
        \<lambda>out. decode_simd_transfer out word False]
     else if major = 3 then
       [\<lambda>out. decode_saturating_arithmetic out word False architecture,
        \<lambda>out. decode_multiply out word False architecture False,
        \<lambda>out. decode_integer_divide out word False architecture division,
        \<lambda>out. decode_integer_transform out word False architecture,
        \<lambda>out. decode_parallel_saturating out word False architecture,
        \<lambda>out. decode_parallel_arithmetic out word False architecture]
     else if major = 6 \<or> major = 7 then
       [\<lambda>out. decode_floating_system out word False architecture,
        \<lambda>out. decode_floating_immediate out word False vfp architecture floating_instructions,
        \<lambda>out. decode_floating_comparison out word False vfp architecture,
        \<lambda>out. decode_floating_arithmetic out word False vfp architecture,
        \<lambda>out. decode_floating_conversion out word False vfp architecture,
        \<lambda>out. decode_core_vector_move out word False vfp architecture,
        \<lambda>out. decode_vfp_scalar out word False vfp architecture,
        \<lambda>out. decode_vfp_multiple out word False vfp,
        \<lambda>out. decode_system_control out word False,
        \<lambda>out. decode_simd_duplicate out word False]
     else [])"

text \<open>The branch immediates: shifted to bytes and sign-extended from bit 25.\<close>

definition branch_offset :: "u32 \<Rightarrow> u32" where
  "branch_offset imm = (if imm AND push_bit 25 1 \<noteq> 0 then imm OR 0xfc000000 else imm)"

definition decode_a32_multiple :: "instruction \<Rightarrow> u32 \<Rightarrow> instruction" where
  "decode_a32_multiple out word =
    (let out = out\<lparr>rn := drop_bit 16 word AND 15, registers := word AND 0xffff,
           load := flag_set word 20, writeback := flag_set word 21, inst_add := flag_set word 23,
           inst_index := flag_set word 24\<rparr> in
     if flag_set word 22 \<or> rn out = 15 \<or> registers out = 0 \<or>
        (writeback out \<and> registers out AND push_bit (unat (rn out)) 1 \<noteq> 0 \<and>
          (load out \<or> of_nat (countr_zero (registers out)) \<noteq> rn out))
     then out else out\<lparr>kind := MultipleTransferKind\<rparr>)"

definition decode_a32_data :: "instruction \<Rightarrow> u32 \<Rightarrow> instruction" where
  "decode_a32_data out word =
    (let imm = (word AND 0x0e000000 = 0x02000000);
         shifted_register = (word AND 0x0e000000 = 0 \<and> word AND 0x90 \<noteq> 0x90) in
     if \<not> imm \<and> \<not> shifted_register then out
     else
       let out = out\<lparr>opcode := drop_bit 21 word AND 15, rd := drop_bit 12 word AND 15,
             rn := drop_bit 16 word AND 15, set_flags := flag_set word 20\<rparr>;
           test = (8 \<le> opcode out \<and> opcode out \<le> 11) in
       if (if test then \<not> set_flags out \<or> rd out \<noteq> 0 else rd out = 15 \<and> set_flags out) then out
       else if (opcode out = 13 \<or> opcode out = 15) \<and> rn out \<noteq> 0 then out
       else
         let out = out\<lparr>immediate_operand := imm\<rparr> in
         if imm
         then let amount = (drop_bit 8 word AND 15) * 2 in
           out\<lparr>shift_amount := amount, immediate := word_rotr (unat amount) (word AND 255),
             kind := DataProcessing\<rparr>
         else let out = out\<lparr>rm := word AND 15, inst_shift := shift_kind_of (drop_bit 5 word AND 3),
                    register_shift := (word AND 16 \<noteq> 0)\<rparr> in
           if register_shift out
           then let out = out\<lparr>rs := drop_bit 8 word AND 15\<rparr> in
             if rd out = 15 \<or> rn out = 15 \<or> rm out = 15 \<or> rs out = 15 then out
             else out\<lparr>kind := DataProcessing\<rparr>
           else out\<lparr>shift_amount := drop_bit 7 word AND 31, kind := DataProcessing\<rparr>)"

definition decode_a32_base :: "instruction \<Rightarrow> u32 \<Rightarrow> arm_instruction_profile \<Rightarrow> instruction" where
  "decode_a32_base out word architecture =
    (if word AND 0xfe000000 = 0xfa000000
     then out\<lparr>condition := 14, kind := Branch, link := True, exchange := True,
       immediate := branch_offset (push_bit 2 (word AND 0xffffff) OR (drop_bit 23 word AND 2))\<rparr>
     else if condition out = 15
     then let preload_immediate = (word AND 0xff70f000 = 0xf550f000);
              preload_register = (word AND 0xff70f010 = 0xf750f000 \<and> word AND 15 \<noteq> 15) in
       if preload_immediate \<or> preload_register then out\<lparr>condition := 14, kind := Nop\<rparr> else out
     else if word AND 0x0ffffffe = 0x0320f000
     then if architecture \<noteq> Armv6 then out\<lparr>kind := Nop\<rparr> else out
     else if word AND 0x0fb00000 = 0x03000000
     then let out = out\<lparr>rd := drop_bit 12 word AND 15\<rparr> in
       if \<not> has_armv6t2_extensions architecture \<or> rd out = 15 then out
       else out\<lparr>kind := WideImmediate,
         immediate := (drop_bit 4 word AND 0xf000) OR (word AND 0xfff),
         opcode := drop_bit 22 word AND 1\<rparr>
     else if word AND 0xfff000f0 = 0xe1200070
     then out\<lparr>kind := Breakpoint, immediate := (drop_bit 4 word AND 0xfff0) OR (word AND 15)\<rparr>
     else if word AND 0x0f000000 = 0x0f000000
     then out\<lparr>kind := Svc, immediate := word AND 0xffffff\<rparr>
     else if word AND 0x0e000000 = 0x0a000000
     then out\<lparr>kind := Branch, link := flag_set word 24,
       immediate := branch_offset (push_bit 2 (word AND 0xffffff))\<rparr>
     else if word AND 0x0ffffff0 = 0x012fff10 \<or> word AND 0x0ffffff0 = 0x012fff30
     then let out = out\<lparr>rm := word AND 15, link := (word AND 0x20 \<noteq> 0)\<rparr> in
       if link out \<and> rm out = 15 then out else out\<lparr>kind := BranchExchange\<rparr>
     else if word AND 0x0e000000 = 0x08000000 then decode_a32_multiple out word
     else case decode_a32_transfer out word architecture of
       (True, out) \<Rightarrow> out
     | (False, out) \<Rightarrow> decode_a32_data out word)"

definition decode_a32 ::
  "u32 \<Rightarrow> vfp_register_profile \<Rightarrow> arm_instruction_profile \<Rightarrow> vfp_instruction_profile \<Rightarrow>
   integer_divide_profile \<Rightarrow> advanced_simd_profile \<Rightarrow> instruction" where
  "decode_a32 word vfp architecture floating_instructions division simd =
    (let out = new_instruction\<lparr>condition := drop_bit 28 word\<rparr> in
     case decode_first (a32_groups word vfp architecture floating_instructions division simd) out of
       (True, out) \<Rightarrow> out
     | (False, out) \<Rightarrow> decode_a32_base out word architecture)"

section \<open>Well-formed results\<close>

lemma a32_groups_ok:
  "list_all group_decoder (a32_groups word vfp architecture floating division simd)"
  unfolding a32_groups_def Let_def
  by (auto intro!: saturating_group.group_decoder_axioms multiply_group.group_decoder_axioms
      transform_group.group_decoder_axioms swap_group.group_decoder_axioms
      dual_group.group_decoder_axioms exclusive_group.group_decoder_axioms
      status_group.group_decoder_axioms vector_immediate_group.group_decoder_axioms
      vector_floating_group.group_decoder_axioms vector_integer_group.group_decoder_axioms
      duplicate_group.group_decoder_axioms bitwise_group.group_decoder_axioms
      extract_group.group_decoder_axioms reverse_group.group_decoder_axioms
      shift_immediate_group.group_decoder_axioms vector_conversion_group.group_decoder_axioms
      system_group.group_decoder_axioms simd_transfer_group.group_decoder_axioms
      divide_group.group_decoder_axioms parallel_saturating_group.group_decoder_axioms
      parallel_group.group_decoder_axioms floating_system_group.group_decoder_axioms
      floating_immediate_group.group_decoder_axioms floating_comparison_group.group_decoder_axioms
      floating_arithmetic_group.group_decoder_axioms floating_conversion_group.group_decoder_axioms
      core_move_group.group_decoder_axioms vfp_scalar_group.group_decoder_axioms
      vfp_multiple_group.group_decoder_axioms)

interpretation a32_extensions: group_decoder
  "decode_first (a32_groups word vfp architecture floating division simd)"
  for word vfp architecture floating division simd
  by (rule group_decoder_first) (rule a32_groups_ok)

lemma decode_a32_base_ok:
  assumes "fresh out"
  shows "decoded_ok (decode_a32_base out word architecture)"
proof -
  have multiple: "decoded_ok (decode_a32_multiple out word)"
    using assms by (simp add: decode_a32_multiple_def Let_def decode_defs and_field_less)
  have data: "decoded_ok (decode_a32_data out word)" if "fresh out" for out
    using that by (simp add: decode_a32_data_def Let_def decode_defs)
  have transfer: "decoded_ok (case decode_a32_transfer out word architecture of
      (True, out) \<Rightarrow> out | (False, out) \<Rightarrow> decode_a32_data out word)"
    using transfer_group.outcome [OF assms, of word architecture] data
    by (auto split: prod.split bool.split)
  show ?thesis
    unfolding decode_a32_base_def Let_def
    by (intro decoded_ok_if; (rule multiple | rule transfer | use assms in \<open>simp add: decode_defs\<close>))
qed

lemma decode_a32_ok:
  "decoded_ok (decode_a32 word vfp architecture floating_instructions division simd)"
proof -
  have "outcome_ok (decode_first (a32_groups word vfp architecture floating_instructions division simd)
      (new_instruction\<lparr>condition := drop_bit 28 word\<rparr>))"
    by (rule a32_extensions.outcome) (simp add: fresh_new)
  then show ?thesis
    by (auto simp: decode_a32_def decode_a32_base_ok split: prod.split bool.split)
qed

section \<open>Properties\<close>

text \<open>C5. Whatever the instruction word and the processor profile, an A32 instruction that
  decodes to an executable kind has general register numbers below 16, vector registers inside
  the register bank, lanes inside their doubleword and elements inside their word, element
  sizes and shift amounts the lane operations know, the alternative of the operand variant that
  its kind is executed with, and for a memory instruction an access size the memory interface
  knows and operands that fit the packed transaction.\<close>

theorem decode_a32_operands_ok:
  "let inst = decode_a32 word vfp architecture floating_instructions division simd in
    kind inst = Unsupported \<or> operands_ok inst"
  using decode_a32_ok by (simp only: decoded_ok_def Let_def)

end
