(* ===== verification/Decode_T32.thy ===== *)
theory Decode_T32
  imports Decode_Core Decode_Vector
begin

text \<open>
  The Thumb decoder: \<^verbatim>\<open>arm/t32_decode.cpp\<close>,
  \<^verbatim>\<open>arm/t32_immediate.cpp\<close>, \<^verbatim>\<open>arm/t32_plain_immediate.cpp\<close>,
  \<^verbatim>\<open>arm/t32_shifted.cpp\<close>, \<^verbatim>\<open>arm/t32_transfer.cpp\<close>,
  \<^verbatim>\<open>arm/t32_data_opcode.hpp\<close> and the IT state of
  \<^verbatim>\<open>arm/include/arm/t32_decode.hpp\<close>. The halfwords are held in \<open>u32\<close>
  values, as the code's \<^verbatim>\<open>unsigned\<close> locals are. A void helper returns the updated
  instruction; its early returns leave the kind \<open>Unsupported\<close>.
\<close>

unbundle bit_operations_syntax

section \<open>The IT state\<close>

definition thumb_is_wide :: "u16 \<Rightarrow> bool" where
  "thumb_is_wide first \<longleftrightarrow> first AND 0xf800 \<ge> 0xe800"

definition it_state :: "u32 \<Rightarrow> u32" where
  "it_state cpsr = (drop_bit 8 cpsr AND 0xfc) OR (drop_bit 25 cpsr AND 3)"

definition advance_it :: "u32 \<Rightarrow> u32" where
  "advance_it value =
    (if value AND 7 = 0 then 0 else (value AND 0xe0) OR (push_bit 1 value AND 0x1f))"

definition with_it_state :: "u32 \<Rightarrow> u32 \<Rightarrow> u32" where
  "with_it_state cpsr value =
    (cpsr AND NOT 0x0600fc00) OR push_bit 8 (value AND 0xfc) OR push_bit 25 (value AND 3)"

section \<open>Shared operand rules\<close>

definition permits_general_sp_arithmetic :: "thumb_arithmetic_profile \<Rightarrow> u32 \<Rightarrow> bool" where
  "permits_general_sp_arithmetic profile op \<longleftrightarrow>
    profile = GeneralPurposeStackPointer \<and> (op = 8 \<or> op = 10 \<or> op = 11 \<or> op = 13 \<or> op = 14)"

definition permits_general_sp_move :: "thumb_arithmetic_profile \<Rightarrow> bool \<Rightarrow> bool" where
  "permits_general_sp_move profile move \<longleftrightarrow> move \<and> profile = GeneralPurposeStackPointer"

definition t32_data_opcode :: "u32 \<Rightarrow> bool \<Rightarrow> bool \<Rightarrow> u32 option" where
  "t32_data_opcode op move test =
    (if op = 0 then Some (if test then 8 else 0)
     else if op = 1 then Some 14
     else if op = 2 then Some (if move then 13 else 12)
     else if op = 3 then Some (if move then 15 else opcode_orn)
     else if op = 4 then Some (if test then 9 else 1)
     else if op = 8 then Some (if test then 11 else 4)
     else if op = 10 then Some 5
     else if op = 11 then Some 6
     else if op = 13 then Some (if test then 10 else 2)
     else if op = 14 then Some 3
     else None)"

text \<open>The twelve-bit immediate field that several encodings split the same way.\<close>

definition t32_imm12 :: "u32 \<Rightarrow> u32 \<Rightarrow> u32" where
  "t32_imm12 first second =
    push_bit 11 (drop_bit 10 first AND 1) OR push_bit 8 (drop_bit 12 second AND 7) OR
    (second AND 255)"

text \<open>ThumbExpandImm; \<open>None\<close> is the unpredictable replication of zero.\<close>

definition thumb_expand_imm :: "u32 \<Rightarrow> (u32 \<times> u32) option" where
  "thumb_expand_imm imm12 =
    (if imm12 AND 0xc00 = 0
     then let byte = imm12 AND 255; pattern = drop_bit 8 imm12 in
       if pattern \<noteq> 0 \<and> byte = 0 then None
       else Some (0, if pattern = 0 then byte
         else if pattern = 1 then byte OR push_bit 16 byte
         else if pattern = 2 then push_bit 8 byte OR push_bit 24 byte
         else byte * 0x01010101)
     else let amount = drop_bit 7 imm12 in
       Some (amount, word_rotr (unat amount) (0x80 OR (imm12 AND 127))))"

section \<open>Wide data processing\<close>

definition decode_t32_modified_immediate ::
  "instruction \<Rightarrow> u32 \<Rightarrow> u32 \<Rightarrow> thumb_arithmetic_profile \<Rightarrow> instruction" where
  "decode_t32_modified_immediate out first second profile =
    (let op = drop_bit 5 first AND 15;
         out = out\<lparr>rn := first AND 15, rd := drop_bit 8 second AND 15,
           set_flags := (first AND 16 \<noteq> 0)\<rparr>;
         arithmetic = (op = 8 \<or> op = 13);
         move = ((op = 2 \<or> op = 3) \<and> rn out = 15);
         general_sp = (permits_general_sp_arithmetic profile op \<or> permits_general_sp_move profile move);
         test = (rd out = 15 \<and> set_flags out \<and> (op = 0 \<or> op = 4 \<or> arithmetic)) in
     if (rd out = 15 \<and> \<not> test) \<or>
        (rd out = 13 \<and> \<not> general_sp \<and> \<not> (arithmetic \<and> rn out = 13)) \<or>
        (rn out = 13 \<and> \<not> general_sp \<and> \<not> arithmetic) \<or> (rn out = 15 \<and> \<not> move)
     then out
     else case t32_data_opcode op move test of
       None \<Rightarrow> out
     | Some code \<Rightarrow>
         let out = out\<lparr>opcode := code\<rparr> in
         case thumb_expand_imm (t32_imm12 first second) of
           None \<Rightarrow> out
         | Some (amount, value) \<Rightarrow>
             let out = (if t32_imm12 first second AND 0xc00 = 0 then out
                        else out\<lparr>shift_amount := amount\<rparr>) in
             out\<lparr>immediate := value, immediate_operand := True, kind := DataProcessing\<rparr>)"

definition decode_t32_plain_arithmetic ::
  "instruction \<Rightarrow> u32 \<Rightarrow> u32 \<Rightarrow> thumb_arithmetic_profile \<Rightarrow> instruction" where
  "decode_t32_plain_arithmetic out first second profile =
    (let out = out\<lparr>rn := first AND 15, rd := drop_bit 8 second AND 15\<rparr> in
     if rd out = 15 \<or> (rd out = 13 \<and> rn out \<noteq> 13 \<and> profile \<noteq> GeneralPurposeStackPointer)
     then out
     else out\<lparr>opcode := (if first AND 0x80 \<noteq> 0 then 2 else 4),
       immediate := t32_imm12 first second, immediate_operand := True,
       align_pc := (rn out = 15), kind := DataProcessing\<rparr>)"

definition decode_t32_shifted_register ::
  "instruction \<Rightarrow> u32 \<Rightarrow> u32 \<Rightarrow> thumb_arithmetic_profile \<Rightarrow> instruction" where
  "decode_t32_shifted_register out first second profile =
    (let op = drop_bit 5 first AND 15;
         out = out\<lparr>rn := first AND 15, rd := drop_bit 8 second AND 15, rm := second AND 15,
           set_flags := (first AND 16 \<noteq> 0), inst_shift := shift_kind_of (drop_bit 4 second AND 3),
           shift_amount := push_bit 2 (drop_bit 12 second AND 7) OR (drop_bit 6 second AND 3)\<rparr> in
     if op = 6
     then if set_flags out \<or> second AND 16 \<noteq> 0 \<or> rd out = 13 \<or> rd out = 15 \<or> rn out = 13 \<or>
             rn out = 15 \<or> rm out = 13 \<or> rm out = 15 then out
       else out\<lparr>kind := PackHalfword\<rparr>
     else
       let arithmetic = (op = 8 \<or> op = 13);
           move = ((op = 2 \<or> op = 3) \<and> rn out = 15);
           general_sp = (permits_general_sp_arithmetic profile op \<or>
             permits_general_sp_move profile move);
           test = (rd out = 15 \<and> set_flags out \<and> (op = 0 \<or> op = 4 \<or> arithmetic));
           plain_move = (op = 2 \<and> move \<and> \<not> set_flags out \<and> inst_shift out = Lsl \<and>
             shift_amount out = 0) in
       if (if plain_move
           then rd out = 15 \<or> rm out = 15 \<or> (rd out = 13 \<and> rm out = 13 \<and> \<not> general_sp)
           else (rd out = 15 \<and> \<not> test) \<or>
             (rd out = 13 \<and> \<not> general_sp \<and> \<not> (arithmetic \<and> rn out = 13 \<and>
               inst_shift out = Lsl \<and> shift_amount out \<le> 3)) \<or>
             (rn out = 13 \<and> \<not> general_sp \<and> \<not> arithmetic) \<or> (rn out = 15 \<and> \<not> move) \<or>
             (rm out = 13 \<and> \<not> general_sp) \<or> rm out = 15)
       then out
       else case t32_data_opcode op move test of
         None \<Rightarrow> out
       | Some code \<Rightarrow> out\<lparr>opcode := code, kind := DataProcessing\<rparr>)"

definition decode_t32_register_shift ::
  "instruction \<Rightarrow> u32 \<Rightarrow> u32 \<Rightarrow> thumb_arithmetic_profile \<Rightarrow> instruction" where
  "decode_t32_register_shift out first second profile =
    (let out = out\<lparr>rd := drop_bit 8 second AND 15, rm := first AND 15, rs := second AND 15\<rparr> in
     if rd out = 15 \<or> rm out = 15 \<or> rs out = 15 \<or>
        (profile = ArithmeticArchitectural \<and> (rd out = 13 \<or> rm out = 13 \<or> rs out = 13))
     then out
     else out\<lparr>opcode := 13, inst_shift := shift_kind_of (drop_bit 5 first AND 3),
       set_flags := (first AND 16 \<noteq> 0), register_shift := True, kind := DataProcessing\<rparr>)"

section \<open>Wide transfers\<close>

definition invalid_index :: "thumb_memory_profile \<Rightarrow> instruction \<Rightarrow> bool" where
  "invalid_index profile out \<longleftrightarrow> rm out = 15 \<or> (rm out = 13 \<and> profile \<noteq> StackPointerIndex)"

definition finish_t32_transfer ::
  "thumb_memory_profile \<Rightarrow> bool \<Rightarrow> u32 \<Rightarrow> bool \<Rightarrow> bool \<Rightarrow> bool \<Rightarrow> instruction \<Rightarrow> instruction" where
  "finish_t32_transfer profile last_in_it scale signed_load register_offset unprivileged out =
    (if unprivileged \<and> (rd out = 13 \<or> rd out = 15) then out
     else if load out \<and> scale \<noteq> 2 \<and> rd out = 15
     then if writeback out then out
       else if register_offset \<and> \<not> (signed_load \<and> scale = 1) \<and> invalid_index profile out then out
       else out\<lparr>kind := Nop\<rparr>
     else if (\<not> load out \<and> rd out = 15) \<or> (scale \<noteq> 2 \<and> rd out = 13) \<or>
        (register_offset \<and> invalid_index profile out) \<or> (writeback out \<and> rn out = rd out) \<or>
        (load out \<and> rd out = 15 \<and> \<not> last_in_it) then out
     else out\<lparr>kind := TransferKind\<rparr>)"

definition decode_t32_transfer ::
  "instruction \<Rightarrow> u32 \<Rightarrow> u32 \<Rightarrow> bool \<Rightarrow> arm_instruction_profile \<Rightarrow> thumb_memory_profile \<Rightarrow>
   instruction" where
  "decode_t32_transfer out first second last_in_it architecture profile =
    (if \<not> has_armv6t2_extensions architecture then out
     else
       let scale = drop_bit 5 first AND 3; signed_load = (first AND 0x100 \<noteq> 0);
           out = out\<lparr>load := (first AND 16 \<noteq> 0)\<rparr> in
       if scale = 3 \<or> (signed_load \<and> (\<not> load out \<or> scale = 2)) then out
       else
         let out = out\<lparr>access_size := push_bit (unat scale) 1, inst_sign_extend := signed_load,
               rn := first AND 15, rd := drop_bit 12 second\<rparr>;
             literal = (load out \<and> rn out = 15); imm12 = (first AND 0x80 \<noteq> 0);
             register_offset = (\<not> literal \<and> \<not> imm12 \<and> second AND 0x0fc0 = 0);
             finish = finish_t32_transfer profile last_in_it scale signed_load register_offset in
         if rn out = 15 \<and> \<not> literal then out
         else if literal \<or> imm12
         then finish False (out\<lparr>immediate_operand := True, immediate := second AND 0xfff,
           inst_add := imm12, align_pc := literal\<rparr>)
         else if register_offset
         then finish False (out\<lparr>rm := second AND 15, shift_amount := drop_bit 4 second AND 3\<rparr>)
         else if second AND 0x0800 = 0 then out
         else
           let out = out\<lparr>inst_index := (second AND 0x0400 \<noteq> 0),
                 inst_add := (second AND 0x0200 \<noteq> 0), writeback := (second AND 0x0100 \<noteq> 0)\<rparr>;
               unprivileged = (inst_index out \<and> inst_add out \<and> \<not> writeback out) in
           if \<not> inst_index out \<and> \<not> writeback out then out
           else finish unprivileged (out\<lparr>immediate_operand := True, immediate := second AND 255\<rparr>))"

section \<open>Wide branches and block transfers\<close>

definition sign_extend :: "u32 \<Rightarrow> nat \<Rightarrow> u32" where
  "sign_extend value bits = (let sign = push_bit (bits - 1) 1 in (value XOR sign) - sign)"

definition decode_t32_branch :: "instruction \<Rightarrow> u32 \<Rightarrow> u32 \<Rightarrow> u32 \<Rightarrow> bool \<Rightarrow> instruction" where
  "decode_t32_branch out word tail it last_in_it =
    (let s = drop_bit 10 word AND 1; j1 = drop_bit 13 tail AND 1; j2 = drop_bit 11 tail AND 1 in
     if tail AND 0xd000 = 0x8000
     then let cond = drop_bit 6 word AND 15 in
       if 14 \<le> cond \<or> it \<noteq> 0 then out
       else out\<lparr>condition := cond, immediate := sign_extend
           (push_bit 20 s OR push_bit 19 j2 OR push_bit 18 j1 OR push_bit 12 (word AND 63) OR
            push_bit 1 (tail AND 0x7ff)) 21, kind := Branch\<rparr>
     else if \<not> last_in_it then out
     else let out = out\<lparr>link := (tail AND 0x4000 \<noteq> 0), exchange := (tail AND 0x1000 = 0)\<rparr> in
       if exchange out \<and> (\<not> link out \<or> tail AND 1 \<noteq> 0) then out
       else let i1 = (j1 XOR s) XOR 1; i2 = (j2 XOR s) XOR 1 in
         out\<lparr>immediate := sign_extend
             (push_bit 24 s OR push_bit 23 i1 OR push_bit 22 i2 OR push_bit 12 (word AND 0x3ff) OR
              push_bit 1 (tail AND 0x7ff)) 25,
           align_pc := exchange out, kind := Branch\<rparr>)"

definition decode_t32_wide_multiple :: "instruction \<Rightarrow> u32 \<Rightarrow> u32 \<Rightarrow> bool \<Rightarrow> instruction" where
  "decode_t32_wide_multiple out word tail last_in_it =
    (if word AND 0xffd0 = 0xe880 \<or> word AND 0xffd0 = 0xe890 \<or> word AND 0xffd0 = 0xe900 \<or>
        word AND 0xffd0 = 0xe910
     then let out = out\<lparr>rn := word AND 15, registers := tail, load := (word AND 16 \<noteq> 0),
                writeback := (word AND 32 \<noteq> 0), inst_add := (word AND 0x100 = 0)\<rparr>;
              out = out\<lparr>inst_index := \<not> inst_add out\<rparr> in
       if rn out = 15 \<or> popcount (registers out) < 2 \<or>
          registers out AND (if load out then 0x2000 else 0xa000) \<noteq> 0 \<or>
          (load out \<and> registers out AND 0xc000 = 0xc000) \<or>
          (writeback out \<and> registers out AND push_bit (unat (rn out)) 1 \<noteq> 0) \<or>
          (load out \<and> registers out AND 0x8000 \<noteq> 0 \<and> \<not> last_in_it) then out
       else out\<lparr>kind := MultipleTransferKind\<rparr>
     else out)"

definition t32_groups ::
  "u32 \<Rightarrow> vfp_register_profile \<Rightarrow> arm_instruction_profile \<Rightarrow> vfp_instruction_profile \<Rightarrow>
   integer_divide_profile \<Rightarrow> advanced_simd_profile \<Rightarrow> (instruction \<Rightarrow> bool \<times> instruction) list" where
  "t32_groups word vfp architecture floating_instructions division simd =
    [\<lambda>out. decode_saturating_arithmetic out word True architecture,
     \<lambda>out. decode_floating_system out word True architecture,
     \<lambda>out. decode_floating_immediate out word True vfp architecture floating_instructions,
     \<lambda>out. decode_floating_comparison out word True vfp architecture,
     \<lambda>out. decode_floating_arithmetic out word True vfp architecture,
     \<lambda>out. decode_floating_conversion out word True vfp architecture,
     \<lambda>out. decode_core_vector_move out word True vfp architecture,
     \<lambda>out. decode_multiply out word True architecture False,
     \<lambda>out. decode_integer_divide out word True architecture division,
     \<lambda>out. decode_vfp_scalar out word True vfp architecture,
     \<lambda>out. decode_vfp_multiple out word True vfp,
     \<lambda>out. decode_integer_transform out word True architecture,
     \<lambda>out. decode_parallel_saturating out word True architecture,
     \<lambda>out. decode_parallel_arithmetic out word True architecture,
     \<lambda>out. decode_exclusive out word True,
     \<lambda>out. decode_dual_transfer out word True architecture,
     \<lambda>out. decode_program_status out word True architecture,
     \<lambda>out. decode_system_control out word True,
     \<lambda>out. decode_simd_immediate out word True vfp architecture,
     \<lambda>out. decode_simd_floating out word True vfp architecture simd,
     \<lambda>out. decode_simd_integer out word True vfp architecture simd,
     \<lambda>out. decode_simd_duplicate out word True,
     \<lambda>out. decode_simd_bitwise out word True,
     \<lambda>out. decode_simd_extract out word True,
     \<lambda>out. decode_simd_conversion out word True vfp architecture simd,
     \<lambda>out. decode_simd_reverse out word True vfp architecture simd,
     \<lambda>out. decode_simd_shift_immediate out word True vfp architecture simd,
     \<lambda>out. decode_simd_transfer out word True]"

definition decode_t32_wide_base ::
  "instruction \<Rightarrow> u32 \<Rightarrow> u32 \<Rightarrow> u32 \<Rightarrow> bool \<Rightarrow> thumb_arithmetic_profile \<Rightarrow>
   arm_instruction_profile \<Rightarrow> thumb_memory_profile \<Rightarrow> instruction" where
  "decode_t32_wide_base out word tail it last_in_it profile architecture memory_profile =
    (if word AND 0xfff0 = 0xe8d0 \<and> tail AND 0xffe0 = 0xf000
     then let out = out\<lparr>rn := word AND 15, rm := tail AND 15\<rparr> in
       if rn out = 13 \<or> rm out = 13 \<or> rm out = 15 \<or> \<not> last_in_it then out
       else let amount = drop_bit 4 tail AND 1 in
         out\<lparr>kind := TableBranch, rd := 15, load := True, shift_amount := amount,
           access_size := push_bit (unat amount) 1\<rparr>
     else if word AND 0xff80 = 0xfa00 \<and> tail AND 0xf0f0 = 0xf000
     then if has_armv6t2_extensions architecture
       then decode_t32_register_shift out word tail profile else out
     else if word AND 0xfe00 = 0xf800
     then decode_t32_transfer out word tail last_in_it architecture memory_profile
     else if word AND 0xfe00 = 0xea00 \<and> tail AND 0x8000 = 0
     then decode_t32_shifted_register out word tail profile
     else if word AND 0xf800 = 0xf000 \<and> tail AND 0x8000 \<noteq> 0
     then decode_t32_branch out word tail it last_in_it
     else if word AND 0xfa00 = 0xf000 \<and> tail AND 0x8000 = 0
     then decode_t32_modified_immediate out word tail profile
     else if (word AND 0xfbf0 = 0xf200 \<or> word AND 0xfbf0 = 0xf2a0) \<and> tail AND 0x8000 = 0
     then decode_t32_plain_arithmetic out word tail profile
     else if (word AND 0xfbf0 = 0xf240 \<or> word AND 0xfbf0 = 0xf2c0) \<and> tail AND 0x8000 = 0
     then let out = out\<lparr>rd := drop_bit 8 tail AND 15\<rparr> in
       if rd out = 13 \<or> rd out = 15 then out
       else out\<lparr>kind := WideImmediate,
         immediate := push_bit 12 (word AND 15) OR t32_imm12 word tail,
         opcode := drop_bit 7 word AND 1\<rparr>
     else decode_t32_wide_multiple out word tail last_in_it)"


text \<open>The wide multiple transfers (\<^verbatim>\<open>0xe880\<close> to \<^verbatim>\<open>0xe910\<close>) are tested
  after the chain of alternatives above; no alternative shares their first halfword, so they
  stand here as its last branch.\<close>

section \<open>Narrow instructions\<close>

definition alu :: "u32 \<Rightarrow> bool \<Rightarrow> instruction \<Rightarrow> instruction" where
  "alu op flags out = out\<lparr>kind := DataProcessing, opcode := op, set_flags := flags\<rparr>"

definition transfer :: "u32 \<Rightarrow> bool \<Rightarrow> instruction \<Rightarrow> instruction" where
  "transfer bytes is_load out = out\<lparr>kind := TransferKind, access_size := bytes, load := is_load\<rparr>"

definition decode_t32_narrow_data ::
  "instruction \<Rightarrow> u32 \<Rightarrow> u32 \<Rightarrow> bool \<Rightarrow> instruction option" where
  "decode_t32_narrow_data out word it last_in_it =
    (if word AND 0xe000 = 0 \<and> word AND 0x1800 \<noteq> 0x1800
     then Some (if it \<noteq> 0 \<and> word AND 0xffc0 = 0 then out
       else (alu 13 (it = 0) out)\<lparr>rd := word AND 7, rm := drop_bit 3 word AND 7,
         inst_shift := shift_kind_of (drop_bit 11 word AND 3), shift_amount := drop_bit 6 word AND 31\<rparr>)
     else if word AND 0xf800 = 0x1800
     then Some ((alu (if word AND 0x200 \<noteq> 0 then 2 else 4) (it = 0) out)\<lparr>rd := word AND 7,
       rn := drop_bit 3 word AND 7, immediate_operand := (word AND 0x400 \<noteq> 0),
       immediate := drop_bit 6 word AND 7, rm := drop_bit 6 word AND 7\<rparr>)
     else if word AND 0xe000 = 0x2000
     then let op = drop_bit 11 word AND 3; d = drop_bit 8 word AND 7 in
       Some ((alu ([13, 10, 4, 2] ! unat op) (op = 1 \<or> it = 0) out)\<lparr>rd := d,
         rn := (if op = 0 then 0 else d), immediate_operand := True, immediate := word AND 255\<rparr>)
     else if word AND 0xfc00 = 0x4000
     then let op = drop_bit 6 word AND 15;
              out = (alu ([0, 1, 13, 13, 13, 5, 6, 13, 8, 3, 10, 11, 12, 0, 14, 15] ! unat op)
                (it = 0 \<or> op = 8 \<or> op = 10 \<or> op = 11) out)\<lparr>rd := word AND 7, rn := word AND 7,
                rm := drop_bit 3 word AND 7\<rparr> in
       Some (if op = 2 \<or> op = 3 \<or> op = 4 \<or> op = 7
         then out\<lparr>register_shift := True, rs := rm out, rm := rd out,
           inst_shift := (if op = 7 then Ror else shift_kind_of (op - 2))\<rparr>
         else if op = 9 then out\<lparr>rn := rm out, immediate_operand := True\<rparr>
         else out)
     else if word AND 0xfc00 = 0x4400
     then let op = drop_bit 8 word AND 3; d = (word AND 7) OR (drop_bit 4 word AND 8);
              out = out\<lparr>rd := d, rn := d, rm := drop_bit 3 word AND 15\<rparr> in
       Some (if op = 3
         then let out = out\<lparr>link := (word AND 0x80 \<noteq> 0)\<rparr> in
           if word AND 7 \<noteq> 0 \<or> \<not> last_in_it \<or> (link out \<and> rm out = 15) then out
           else out\<lparr>kind := BranchExchange\<rparr>
         else if (op = 1 \<and> (rn out = 15 \<or> rm out = 15 \<or> (rn out < 8 \<and> rm out < 8))) \<or>
           (op = 0 \<and> rn out = 15 \<and> rm out = 15) \<or> (op \<noteq> 1 \<and> rd out = 15 \<and> \<not> last_in_it)
         then out
         else alu (if op = 0 then 4 else if op = 1 then 10 else 13) (op = 1) out)
     else None)"

definition decode_t32_narrow_transfer ::
  "instruction \<Rightarrow> u32 \<Rightarrow> bool \<Rightarrow> instruction option" where
  "decode_t32_narrow_transfer out word last_in_it =
    (if word AND 0xf800 = 0x4800
     then Some ((transfer 4 True out)\<lparr>rd := drop_bit 8 word AND 7, rn := 15,
       align_pc := True, immediate_operand := True, immediate := push_bit 2 (word AND 255)\<rparr>)
     else if word AND 0xf000 = 0x5000
     then let op = drop_bit 9 word AND 7 in
       Some ((transfer ([4, 2, 1, 1, 4, 2, 1, 2] ! unat op) (3 \<le> op) out)\<lparr>
         inst_sign_extend := (op = 3 \<or> op = 7), rd := word AND 7, rn := drop_bit 3 word AND 7,
         rm := drop_bit 6 word AND 7\<rparr>)
     else if word AND 0xe000 = 0x6000 \<or> word AND 0xf000 = 0x8000
     then let bytes = (if word AND 0xf000 = 0x8000 then 2 else if word AND 0x1000 \<noteq> 0 then 1 else 4) in
       Some ((transfer bytes (word AND 0x800 \<noteq> 0) out)\<lparr>rd := word AND 7,
         rn := drop_bit 3 word AND 7, immediate_operand := True,
         immediate := (drop_bit 6 word AND 31) * bytes\<rparr>)
     else if word AND 0xf000 = 0x9000
     then Some ((transfer 4 (word AND 0x800 \<noteq> 0) out)\<lparr>rd := drop_bit 8 word AND 7, rn := 13,
       immediate_operand := True, immediate := push_bit 2 (word AND 255)\<rparr>)
     else if word AND 0xf000 = 0xa000 \<or> word AND 0xff00 = 0xb000
     then let adjust_sp = (word AND 0xf000 = 0xb000);
              out = (alu (if adjust_sp \<and> word AND 0x80 \<noteq> 0 then 2 else 4) False out)\<lparr>
                rd := (if adjust_sp then 13 else drop_bit 8 word AND 7),
                rn := (if adjust_sp \<or> word AND 0x800 \<noteq> 0 then 13 else 15)\<rparr> in
       Some (out\<lparr>align_pc := (rn out = 15), immediate_operand := True,
         immediate := push_bit 2 (word AND (if adjust_sp then 127 else 255))\<rparr>)
     else if word AND 0xf600 = 0xb400
     then let is_load = (word AND 0x800 \<noteq> 0);
              out = out\<lparr>rn := 13, load := is_load,
                registers := (word AND 255) OR (if word AND 0x100 \<noteq> 0
                  then if is_load then 0x8000 else 0x4000 else 0),
                writeback := True, inst_add := is_load, inst_index := \<not> is_load\<rparr> in
       Some (if registers out \<noteq> 0 \<and> (\<not> load out \<or> registers out AND 0x8000 = 0 \<or> last_in_it)
         then out\<lparr>kind := MultipleTransferKind\<rparr> else out)
     else if word AND 0xf000 = 0xc000
     then let out = out\<lparr>rn := drop_bit 8 word AND 7, load := (word AND 0x800 \<noteq> 0),
                registers := word AND 255, inst_add := True, inst_index := False\<rparr>;
              bit_n = push_bit (unat (rn out)) 1;
              out = out\<lparr>writeback := \<not> load out \<or> registers out AND bit_n = 0\<rparr> in
       Some (if registers out \<noteq> 0 \<and> (load out \<or> registers out AND bit_n = 0 \<or>
           of_nat (countr_zero (registers out)) = rn out)
         then out\<lparr>kind := MultipleTransferKind\<rparr> else out)
     else None)"

definition decode_t32_narrow_control ::
  "instruction \<Rightarrow> u32 \<Rightarrow> u32 \<Rightarrow> bool \<Rightarrow> arm_instruction_profile \<Rightarrow> instruction" where
  "decode_t32_narrow_control out word it last_in_it architecture =
    (if word AND 0xf500 = 0xb100 \<and> it = 0
     then out\<lparr>kind := CompareBranch, rn := word AND 7, opcode := drop_bit 11 word AND 1,
       immediate := drop_bit 2 (word AND 0xf8) OR drop_bit 3 (word AND 0x200)\<rparr>
     else if word AND 0xff00 = 0xbe00 \<and> it = 0
     then out\<lparr>kind := Breakpoint, immediate := word AND 255\<rparr>
     else if word AND 0xff00 = 0xbf00
     then let m = word AND 15; cond = drop_bit 4 word AND 15 in
       if m = 0
       then if cond \<le> 1 \<and> has_armv6t2_extensions architecture then out\<lparr>kind := Nop\<rparr> else out
       else if it = 0 \<and> cond \<noteq> 15 \<and> (cond \<noteq> 14 \<or> popcount m = 1)
       then out\<lparr>kind := IfThen, immediate := word AND 255\<rparr>
       else out
     else if word AND 0xf000 = 0xd000
     then let cond = drop_bit 8 word AND 15 in
       if cond < 14 \<and> it = 0
       then out\<lparr>kind := Branch, condition := cond,
         immediate := sign_extend (push_bit 1 (word AND 255)) 9\<rparr>
       else if cond = 15 then out\<lparr>kind := Svc, immediate := word AND 255\<rparr>
       else out
     else if word AND 0xf800 = 0xe000 \<and> last_in_it
     then out\<lparr>kind := Branch, immediate := sign_extend (push_bit 1 (word AND 0x7ff)) 12\<rparr>
     else out)"

definition decode_t32_narrow ::
  "instruction \<Rightarrow> u32 \<Rightarrow> u32 \<Rightarrow> bool \<Rightarrow> arm_instruction_profile \<Rightarrow> instruction" where
  "decode_t32_narrow out word it last_in_it architecture =
    (case decode_t32_narrow_data out word it last_in_it of
      Some out \<Rightarrow> out
    | None \<Rightarrow>
        case decode_t32_narrow_transfer out word last_in_it of
          Some out \<Rightarrow> out
        | None \<Rightarrow> decode_t32_narrow_control out word it last_in_it architecture)"

section \<open>The decoder\<close>

definition decode_t32 ::
  "u16 \<Rightarrow> u16 option \<Rightarrow> u32 \<Rightarrow> thumb_arithmetic_profile \<Rightarrow> vfp_register_profile \<Rightarrow>
   arm_instruction_profile \<Rightarrow> vfp_instruction_profile \<Rightarrow> integer_divide_profile \<Rightarrow>
   thumb_memory_profile \<Rightarrow> advanced_simd_profile \<Rightarrow> instruction" where
  "decode_t32 first second it profile vfp architecture floating_instructions division
     memory_profile simd =
    (let wide = thumb_is_wide first;
         out = new_instruction\<lparr>inst_size := (if wide then 4 else 2), pc_offset := 4,
           condition := (if it = 0 then 14 else drop_bit 4 it)\<rparr>;
         last_in_it = (it = 0 \<or> it AND 7 = 0);
         word = (ucast first :: u32) in
     if \<not> wide
     then case decode_first
         [\<lambda>out. decode_multiply out word True architecture (it \<noteq> 0),
          \<lambda>out. decode_integer_transform out word True architecture] out of
         (True, out) \<Rightarrow> out
       | (False, out) \<Rightarrow> decode_t32_narrow out word it last_in_it architecture
     else case second of
       None \<Rightarrow> out
     | Some second \<Rightarrow>
         let tail = (ucast second :: u32) in
         if word = 0xf3af \<and> tail AND 0xfffe = 0x8000
         then if has_armv6t2_extensions architecture then out\<lparr>kind := Nop\<rparr> else out
         else case decode_first (t32_groups (push_bit 16 word OR tail) vfp architecture
             floating_instructions division simd) out of
             (True, out) \<Rightarrow> out
           | (False, out) \<Rightarrow>
               decode_t32_wide_base out word tail it last_in_it profile architecture memory_profile)"

section \<open>Well-formed results\<close>

lemma pred_option_if:
  "(b \<Longrightarrow> pred_option p x) \<Longrightarrow> (\<not> b \<Longrightarrow> pred_option p y) \<Longrightarrow> pred_option p (if b then x else y)"
  by simp

lemma pred_option_some: "p x \<Longrightarrow> pred_option p (Some x)"
  by simp

lemma t32_groups_ok:
  "list_all group_decoder (t32_groups word vfp architecture floating division simd)"
  unfolding t32_groups_def
  by (auto intro!: saturating_group.group_decoder_axioms multiply_group.group_decoder_axioms
      transform_group.group_decoder_axioms dual_group.group_decoder_axioms
      exclusive_group.group_decoder_axioms status_group.group_decoder_axioms
      vector_immediate_group.group_decoder_axioms vector_floating_group.group_decoder_axioms
      vector_integer_group.group_decoder_axioms duplicate_group.group_decoder_axioms
      bitwise_group.group_decoder_axioms extract_group.group_decoder_axioms
      reverse_group.group_decoder_axioms shift_immediate_group.group_decoder_axioms
      vector_conversion_group.group_decoder_axioms system_group.group_decoder_axioms
      simd_transfer_group.group_decoder_axioms divide_group.group_decoder_axioms
      parallel_saturating_group.group_decoder_axioms parallel_group.group_decoder_axioms
      floating_system_group.group_decoder_axioms floating_immediate_group.group_decoder_axioms
      floating_comparison_group.group_decoder_axioms floating_arithmetic_group.group_decoder_axioms
      floating_conversion_group.group_decoder_axioms core_move_group.group_decoder_axioms
      vfp_scalar_group.group_decoder_axioms vfp_multiple_group.group_decoder_axioms)

interpretation t32_wide_groups: group_decoder
  "decode_first (t32_groups word vfp architecture floating division simd)"
  for word vfp architecture floating division simd
  by (rule group_decoder_first) (rule t32_groups_ok)

interpretation t32_narrow_groups: group_decoder
  "decode_first [\<lambda>out. decode_multiply out word True architecture it,
     \<lambda>out. decode_integer_transform out word True architecture]" for word architecture it
  by (rule group_decoder_first)
    (simp add: multiply_group.group_decoder_axioms transform_group.group_decoder_axioms)

lemma top_nibble [simp]: "drop_bit 12 (ucast (h :: u16)) < (16 :: u32)"
proof -
  have "unat (ucast h :: u32) < 2 ^ 16"
    using unsigned_less [of h, where ?'a = nat]
    by (simp add: unsigned_ucast_eq take_bit_nat_eq_self)
  then show ?thesis by (simp add: word_less_nat_alt unat_drop_bit_div less_mult_imp_div_less)
qed

lemma halfword_list [simp]: "ucast (h :: u16) < (65536 :: u32)"
proof -
  have "unat (ucast h :: u32) < 2 ^ 16"
    using unsigned_less [of h, where ?'a = nat]
    by (simp add: unsigned_ucast_eq take_bit_nat_eq_self)
  then show ?thesis by (simp add: word_less_nat_alt)
qed

lemma wide_data_ok:
  assumes "fresh out"
  shows "decoded_ok (decode_t32_modified_immediate out first second profile)"
    and "decoded_ok (decode_t32_plain_arithmetic out first second profile)"
    and "decoded_ok (decode_t32_register_shift out first second profile)"
    and "decoded_ok (decode_t32_branch out first second it final)"
    and "decoded_ok (decode_t32_wide_multiple out first (ucast (tail :: u16)) final)"
  using assms
  by (simp_all add: decode_t32_modified_immediate_def decode_t32_plain_arithmetic_def
      decode_t32_register_shift_def decode_t32_branch_def decode_t32_wide_multiple_def Let_def
      decode_defs split: option.split)

lemma shifted_register_ok:
  assumes "fresh out"
  shows "decoded_ok (decode_t32_shifted_register out first second profile)"
  using assms unfolding decode_t32_shifted_register_def Let_def
  by (intro decoded_ok_if) (simp_all add: decode_defs split: option.split)

text \<open>Access sizes: a power of two from a field, or a table indexed by one.\<close>

lemma scaled_size:
  fixes x :: u32
  assumes "x AND 3 \<noteq> 3"
  shows "push_bit (unat (x AND 3)) 1 \<in> ({1, 2, 4} :: u32 set)"
    and "x AND 3 \<noteq> 2 \<Longrightarrow> push_bit (unat (x AND 3)) 1 \<noteq> (4 :: u32)"
proof -
  have "unat (x AND 3) < 4" using unat_and_mask [of x 2] by (simp add: mask_eq_exp_minus_1)
  then have "unat (x AND 3) \<in> {0, 1, 2, 3}" by auto
  moreover have "unat (x AND 3) = n \<longleftrightarrow> x AND 3 = word_of_nat n" if "n < 4" for n
    using that by (auto simp: word_unat_eq_iff unat_of_nat take_bit_nat_eq_self)
  ultimately show "push_bit (unat (x AND 3)) 1 \<in> ({1, 2, 4} :: u32 set)"
    "x AND 3 \<noteq> 2 \<Longrightarrow> push_bit (unat (x AND 3)) 1 \<noteq> (4 :: u32)"
    using assms by (auto simp: push_bit_eq_mult)
qed

lemma branch_table_size:
  "push_bit (unat (x AND 1)) 1 \<in> ({1, 2, 4} :: u32 set)" for x :: u32
proof -
  have "unat (x AND 1) < 2" using unat_and_mask [of x 1] by (simp add: mask_eq_exp_minus_1)
  then have "unat (x AND 1) \<in> {0, 1}" by auto
  then show ?thesis by (auto simp: push_bit_eq_mult)
qed

lemma narrow_size:
  fixes x :: u32
  defines "bytes \<equiv> [4, 2, 1, 1, 4, 2, 1, 2] ! unat (x AND 7) :: u32"
  shows "bytes = 1 \<or> bytes = 2 \<or> bytes = 4"
    and "x AND 7 = 3 \<or> x AND 7 = 7 \<Longrightarrow> bytes \<noteq> 4"
proof -
  have "unat (x AND 7) < 8" using unat_and_mask [of x 3] by (simp add: mask_eq_exp_minus_1)
  then have "unat (x AND 7) \<in> {0, 1, 2, 3, 4, 5, 6, 7}" by auto
  then show "bytes = 1 \<or> bytes = 2 \<or> bytes = 4" unfolding bytes_def by auto
  show "x AND 7 = 3 \<or> x AND 7 = 7 \<Longrightarrow> bytes \<noteq> 4" unfolding bytes_def by auto
qed

lemma wide_transfer_ok:
  fixes second :: u16
  assumes "fresh out"
  shows "decoded_ok (decode_t32_transfer out first (ucast second) final architecture profile)"
proof -
  have fin: "decoded_ok (finish_t32_transfer profile final scale s r u out)"
    if "kind out = Unsupported" "registers_ok out" "vector out = OpDuplicate no_duplicate"
      "inst_size out < 8" "access_size out \<in> {1, 2, 4}"
      "inst_sign_extend out \<longrightarrow> access_size out \<noteq> 4"
    for scale s r u out
    using that by (simp add: finish_t32_transfer_def decode_defs)
  show ?thesis
    using assms scaled_size [of "drop_bit 5 first"] unfolding decode_t32_transfer_def Let_def
    by (intro decoded_ok_if fin) (auto simp: decode_defs)
qed

lemma wide_base_ok:
  fixes tail :: u16
  assumes "fresh out"
  shows "decoded_ok (decode_t32_wide_base out word (ucast tail) it final profile architecture mem)"
  using assms branch_table_size [of "drop_bit 4 (ucast tail)"] unfolding decode_t32_wide_base_def Let_def
  by (intro decoded_ok_if wide_data_ok shifted_register_ok wide_transfer_ok)
    (simp_all only: fresh_decoded, simp_all add: decode_defs)

lemma register_list:
  "word AND 255 < (65536 :: u32)" "(word AND 255) OR 0x8000 < (65536 :: u32)"
  "(word AND 255) OR 0x4000 < (65536 :: u32)"
  "(word AND 255) OR (if a then if b then 0x8000 else 0x4000 else 0) < (65536 :: u32)"
  "x AND 7 \<noteq> (15 :: u32)"
  using or_less_exp [of "word AND 255" 16 "0x8000"] or_less_exp [of "word AND 255" 16 "0x4000"]
    less_imp_neq [OF and_field_less [of 7 15 x]]
  by (simp_all add: and_field_less)

lemma narrow_ok:
  assumes "fresh out"
  shows "decoded_ok (decode_t32_narrow out word it final architecture)"
proof -
  have data: "pred_option decoded_ok (decode_t32_narrow_data out word it final)"
    unfolding decode_t32_narrow_data_def Let_def
    by (intro pred_option_if; (intro decoded_ok_if pred_option_some)?)
      (use assms in \<open>simp_all add: decode_defs alu_def field_bounds\<close>)
  have transfer: "pred_option decoded_ok (decode_t32_narrow_transfer out word final)"
    unfolding decode_t32_narrow_transfer_def Let_def
    by (intro pred_option_if; (intro decoded_ok_if pred_option_some)?)
      (use assms narrow_size [of "drop_bit 9 word"] in
        \<open>simp_all add: decode_defs alu_def transfer_def field_bounds register_list\<close>)
  have control: "decoded_ok (decode_t32_narrow_control out word it final architecture)"
    using assms by (simp add: decode_t32_narrow_control_def Let_def decode_defs field_bounds)
  show ?thesis
    using data transfer control by (auto simp: decode_t32_narrow_def split: option.split)
qed

lemma decode_t32_ok:
  "decoded_ok (decode_t32 first second it profile vfp architecture floating division memory simd)"
proof -
  let ?out = "\<lambda>n c. new_instruction\<lparr>inst_size := n, pc_offset := 4, condition := c\<rparr>"
  have fresh: "fresh (?out n c)" if "n < 8" for n c
    using that by (simp add: fresh_def new_instruction_def registers_ok_def)
  have start: "decoded_ok (?out n c)" if "n < 8" for n c
    by (rule fresh_decoded) (rule fresh [OF that])
  have nop: "decoded_ok (?out n c\<lparr>kind := Nop\<rparr>)" if "n < 8" for n c
    using that by (simp add: decode_defs new_instruction_def)
  show ?thesis
    unfolding decode_t32_def Let_def
    by (intro decoded_ok_if decoded_ok_case t32_narrow_groups.outcome fresh narrow_ok)
      (simp_all split: option.split, auto simp: start nop wide_base_ok
        intro!: fresh decoded_ok_case t32_wide_groups.outcome)
qed

section \<open>Properties\<close>

text \<open>C6. The same safety for Thumb: no halfword pair, IT state or profile decodes to an
  executable instruction with a register outside the register files, a lane or element outside
  its register, an element size or shift amount the lane operations do not know, a mismatched
  operand variant, or a memory operand that the packed transaction would lose.\<close>

theorem decode_t32_operands_ok:
  "let inst = decode_t32 first second it profile vfp architecture floating division memory simd in
    kind inst = Unsupported \<or> operands_ok inst"
  using decode_t32_ok by (simp only: decoded_ok_def Let_def)

section \<open>IT blocks\<close>

lemma it_masks:
  "bit (x AND 0xfc :: u32) n \<longleftrightarrow> 2 \<le> n \<and> n < 8 \<and> bit x n"
  "bit (x AND 3 :: u32) n \<longleftrightarrow> n < 2 \<and> bit x n"
  "bit (x AND 7 :: u32) n \<longleftrightarrow> n < 3 \<and> bit x n"
  "bit (x AND 0xe0 :: u32) n \<longleftrightarrow> 5 \<le> n \<and> n < 8 \<and> bit x n"
  "bit (x AND 0x1f :: u32) n \<longleftrightarrow> n < 5 \<and> bit x n"
  "bit (x AND NOT 0x0600fc00 :: u32) n \<longleftrightarrow>
    bit x n \<and> \<not> (10 \<le> n \<and> n < 16) \<and> n \<noteq> 25 \<and> n \<noteq> 26"
proof -
  have m: "(0xfc :: u32) = push_bit 2 (mask 6)" "(3 :: u32) = mask 2" "(7 :: u32) = mask 3"
    "(0xe0 :: u32) = push_bit 5 (mask 3)" "(0x1f :: u32) = mask 5"
    "(0x0600fc00 :: u32) = push_bit 25 (mask 2) OR push_bit 10 (mask 6)"
    by (simp_all add: mask_eq_exp_minus_1)
  show "bit (x AND 0xfc :: u32) n \<longleftrightarrow> 2 \<le> n \<and> n < 8 \<and> bit x n"
    unfolding m bit_and_iff bit_push_bit_iff bit_mask_iff by auto
  show "bit (x AND 3 :: u32) n \<longleftrightarrow> n < 2 \<and> bit x n"
    unfolding m bit_and_iff bit_mask_iff by auto
  show "bit (x AND 7 :: u32) n \<longleftrightarrow> n < 3 \<and> bit x n"
    unfolding m bit_and_iff bit_mask_iff by auto
  show "bit (x AND 0xe0 :: u32) n \<longleftrightarrow> 5 \<le> n \<and> n < 8 \<and> bit x n"
    unfolding m bit_and_iff bit_push_bit_iff bit_mask_iff by auto
  show "bit (x AND 0x1f :: u32) n \<longleftrightarrow> n < 5 \<and> bit x n"
    unfolding m bit_and_iff bit_mask_iff by auto
  have "n < 32 \<Longrightarrow> bit (x AND NOT 0x0600fc00 :: u32) n \<longleftrightarrow>
      bit x n \<and> \<not> (10 \<le> n \<and> n < 16) \<and> \<not> (25 \<le> n \<and> n < 27)"
    unfolding m bit_and_iff bit_not_iff bit_or_iff bit_push_bit_iff bit_mask_iff by auto
  then show "bit (x AND NOT 0x0600fc00 :: u32) n \<longleftrightarrow>
      bit x n \<and> \<not> (10 \<le> n \<and> n < 16) \<and> n \<noteq> 25 \<and> n \<noteq> 26"
    using bit_imp_le_length [of x n] bit_imp_le_length [of "x AND NOT 0x0600fc00" n] by fastforce
qed

lemma bit_it_state:
  "bit (it_state cpsr) n \<longleftrightarrow> 2 \<le> n \<and> n < 8 \<and> bit cpsr (n + 8) \<or> n < 2 \<and> bit cpsr (n + 25)"
  unfolding it_state_def bit_or_iff it_masks bit_drop_bit_eq o_def by (simp add: add.commute)

lemma bit_with_it_state:
  "bit (with_it_state cpsr v) n \<longleftrightarrow>
    (if 10 \<le> n \<and> n < 16 then bit v (n - 8)
     else if n = 25 \<or> n = 26 then bit v (n - 25) else bit cpsr n)"
  using bit_imp_le_length [of cpsr n]
  unfolding with_it_state_def bit_or_iff bit_push_bit_iff it_masks by auto

lemma advance_it_done: "\<forall>i < 3. \<not> bit v i \<Longrightarrow> advance_it v = 0"
proof -
  assume low: "\<forall>i < 3. \<not> bit v i"
  have "v AND 7 = 0" by (rule bit_word_eqI) (use low in \<open>simp only: it_masks, simp\<close>)
  then show ?thesis by (simp add: advance_it_def)
qed

lemma bit_advance_it:
  assumes "bit v i" "i < 3"
  shows "bit (advance_it v) n \<longleftrightarrow>
    5 \<le> n \<and> n < 8 \<and> bit v n \<or> 0 < n \<and> n < 5 \<and> bit v (n - 1)"
proof -
  have "bit (v AND 7) i" using assms by (simp only: it_masks)
  then have "v AND 7 \<noteq> 0" by auto
  then show ?thesis
    unfolding advance_it_def
    by (simp only: if_False bit_or_iff it_masks bit_push_bit_iff) auto
qed

text \<open>The state after \<open>k\<close> instructions of a block whose lowest mask bit is \<open>c\<close>.\<close>

lemma it_block_steps:
  assumes "\<forall>n. bit v n \<longrightarrow> n < 8" "c < 4" "bit v c" "k < 4 - c"
  shows "bit ((advance_it ^^ k) v) n \<longleftrightarrow>
    5 \<le> n \<and> n < 8 \<and> bit v n \<or> k \<le> n \<and> n < 5 \<and> bit v (n - k)"
  using assms(4)
proof (induction k arbitrary: n)
  case 0
  then show ?case using assms(1) by auto
next
  case (Suc k)
  have IH: "bit ((advance_it ^^ k) v) n \<longleftrightarrow>
      5 \<le> n \<and> n < 8 \<and> bit v n \<or> k \<le> n \<and> n < 5 \<and> bit v (n - k)" for n
    using Suc by simp
  have "bit ((advance_it ^^ k) v) (c + k)" "c + k < 3"
    using assms(3) Suc.prems unfolding IH by auto
  note step = bit_advance_it [OF this, of n]
  have "k \<le> n - 1 \<and> 0 < n \<longleftrightarrow> Suc k \<le> n" by auto
  then show ?case
    unfolding funpow.simps o_apply step IH diff_diff_left by auto
qed

text \<open>C40. IT blocks: the state packed into the status register is read back unchanged and
  touches no other status bit; a block whose mask has its lowest set bit at \<open>c\<close> stays active
  for exactly \<open>4 - c\<close> instructions, each keeping the base condition and taking the mask's next
  bit as its then/else choice, and then ends.\<close>

theorem it_block_length:
  fixes v cpsr :: u32
  assumes "v < 256" "c < 4" "bit v c" "\<forall>i < c. \<not> bit v i"
  shows "it_state (with_it_state cpsr v) = v
    \<and> (\<forall>n. n < 10 \<or> 15 < n \<and> n \<noteq> 25 \<and> n \<noteq> 26 \<longrightarrow> bit (with_it_state cpsr v) n = bit cpsr n)
    \<and> (\<forall>k < 4 - c. (advance_it ^^ k) v \<noteq> 0
        \<and> drop_bit 5 ((advance_it ^^ k) v) = drop_bit 5 v
        \<and> bit ((advance_it ^^ k) v) 4 = bit v (4 - k))
    \<and> (advance_it ^^ (4 - c)) v = 0"
proof -
  have small: "\<forall>n. bit v n \<longrightarrow> n < 8"
  proof (intro allI impI)
    fix n assume n: "bit v n"
    have "take_bit 8 v = v" using assms(1) less_exp_iff_take_bit [of 8 v] by simp
    then show "n < 8" using n by (metis bit_take_bit_iff)
  qed
  note steps = it_block_steps [OF small assms(2,3)]
  have "it_state (with_it_state cpsr v) = v"
    by (rule bit_word_eqI) (use small in \<open>auto simp: bit_it_state bit_with_it_state\<close>)
  moreover have "bit (with_it_state cpsr v) n = bit cpsr n"
    if "n < 10 \<or> 15 < n \<and> n \<noteq> 25 \<and> n \<noteq> 26" for n
    using that by (auto simp: bit_with_it_state)
  moreover have "(advance_it ^^ k) v \<noteq> 0
      \<and> drop_bit 5 ((advance_it ^^ k) v) = drop_bit 5 v
      \<and> bit ((advance_it ^^ k) v) 4 = bit v (4 - k)" if k: "k < 4 - c" for k
  proof -
    have "bit ((advance_it ^^ k) v) (c + k)" using k assms(3) by (auto simp: steps)
    then have "(advance_it ^^ k) v \<noteq> 0" by auto
    moreover have "drop_bit 5 ((advance_it ^^ k) v) = drop_bit 5 v"
      by (rule bit_word_eqI) (use small k in \<open>auto simp: bit_drop_bit_eq steps\<close>)
    moreover have "bit ((advance_it ^^ k) v) 4 = bit v (4 - k)"
      using k by (auto simp: steps)
    ultimately show ?thesis by blast
  qed
  moreover have "(advance_it ^^ (4 - c)) v = 0"
  proof -
    obtain k where k: "4 - c = Suc k" using assms(2) by (cases "4 - c") auto
    have "\<not> bit ((advance_it ^^ k) v) i" if "i < 3" for i
      using that assms(2,4) k by (auto simp: steps)
    then show ?thesis using advance_it_done by (simp add: k)
  qed
  ultimately show ?thesis by blast
qed

theorem it_block_length_witness:
  "advance_it (advance_it (advance_it 0x0a)) = 0"
proof -
  have "(advance_it ^^ (4 - 1)) 0x0a = 0"
    using it_block_length [of "0x0a" 1 0] by (simp add: bit_numeral_rec)
  moreover have "4 - 1 = Suc (Suc (Suc 0))" by simp
  ultimately show ?thesis by (simp only: funpow.simps o_apply id_apply)
qed

end
