(* ===== verification/Arm_Interpreter.thy ===== *)
theory Arm_Interpreter
  imports Arm_Simd Arm_Status Arm_Multiply Arm_Saturating Decode_A32 Decode_T32
begin

text \<open>
  The portable interpreter (\<^verbatim>\<open>arm_interpreter/interpreter.cpp\<close>):
  \<^verbatim>\<open>run_slice\<close> as a step function on a configuration and a loop over it. The
  virtual \<^verbatim>\<open>InstructionSource\<close> is a record of functions; what other host threads
  and the clock contribute to an iteration (stop requests, an expired deadline) is its input
  \<open>poll\<close>. \<open>Raised\<close> is the exception of a \<^verbatim>\<open>std::get\<close> on the wrong
  operand variant.
\<close>

unbundle bit_operations_syntax

section \<open>Interfaces\<close>

record ('m, 'x) instruction_source =
  src_arithmetic :: thumb_arithmetic_profile
  src_vfp :: vfp_register_profile
  src_floating :: vfp_instruction_profile
  src_architecture :: arm_instruction_profile
  src_division :: integer_divide_profile
  src_memory_profile :: thumb_memory_profile
  src_simd :: advanced_simd_profile
  src_alu_pc :: alu_pc_write_profile
  src_exceptions :: floating_exception_profile
  src_mixed_timing :: bool
  src_has_memory :: bool
  src_memory :: "('m, 'x) memory_access"
  src_leases :: "u32 \<Rightarrow> bool \<Rightarrow> bool"
  src_continuation :: "u32 \<Rightarrow> 'm \<Rightarrow> (u64 \<times> u64) option"
  src_prepare :: "u32 \<Rightarrow> u32 \<Rightarrow> 'm \<Rightarrow> memory_fault option \<times> 'm"
  src_fetch16 :: "u32 \<Rightarrow> 'm \<Rightarrow> u16 option"
  src_fetch32 :: "u32 \<Rightarrow> 'm \<Rightarrow> u32 option"
  src_ticks :: "u32 \<Rightarrow> u32 \<Rightarrow> 'm \<Rightarrow> u64"
  src_mixed_ticks :: "bool \<Rightarrow> u32 \<Rightarrow> u32 \<Rightarrow> 'm \<Rightarrow> u64"

record run_request =
  rq_tick_budget :: u64
  rq_single_step :: bool
  rq_block_end_pc :: "u32 option"
  rq_stop_at_control_flow :: bool

record run_result =
  rr_reason :: u32
  rr_ticks :: u64
  rr_svc :: "u32 option"
  rr_pc :: u32
  rr_instruction :: "u32 option"
  rr_fault :: "memory_fault option"

record poll =
  poll_stops :: u32
  poll_deadline :: bool

record lease =
  ls_held :: bool
  ls_region :: "(u64 \<times> u64) option"
  ls_thumb :: bool
  ls_count :: nat

record ('m, 'x) machine =
  mc_state :: cpu_state
  mc_memory :: 'm
  mc_monitor :: "'x option"
  mc_lease :: lease
  mc_result :: run_result
  mc_instructions :: u64

datatype ('m, 'x) outcome = Stopped "('m, 'x) machine" | Running "('m, 'x) machine" | Raised

definition stop_machine :: "u32 \<Rightarrow> ('m, 'x) machine \<Rightarrow> ('m, 'x) outcome" where
  "stop_machine reason c = Stopped (c\<lparr>mc_result := (mc_result c)\<lparr>rr_reason := reason\<rparr>\<rparr>)"

definition stop_with_fault :: "u32 \<Rightarrow> memory_fault option \<Rightarrow> ('m, 'x) machine \<Rightarrow> ('m, 'x) outcome" where
  "stop_with_fault reason fault c =
    Stopped (c\<lparr>mc_result := (mc_result c)\<lparr>rr_reason := reason, rr_fault := fault\<rparr>\<rparr>)"

definition is_thumb :: "cpu_state \<Rightarrow> bool" where
  "is_thumb s \<longleftrightarrow> cpsr s AND 0x20 \<noteq> 0"

section \<open>Register instructions\<close>

definition data_processing :: "cpu_state \<Rightarrow> instruction \<Rightarrow> alu_result" where
  "data_processing s inst =
    (let carry = flag_set (cpsr s) 29;
         shifted = (if immediate_operand inst
           then \<lparr>sh_value = immediate inst,
             sh_carry = (if shift_amount inst = 0 then carry else drop_bit 31 (immediate inst) \<noteq> 0)\<rparr>
           else shift (read_register s (rm inst) inst) (inst_shift inst)
             (if register_shift inst then reg s (rs inst) AND 255 else shift_amount inst)
             carry (register_shift inst)) in
     calculate_alu (opcode inst) (set_flags inst) (read_register s (rn inst) inst) shifted (cpsr s))"

definition execute_system :: "instruction \<Rightarrow> cpu_state \<Rightarrow> cpu_state" where
  "execute_system inst s =
    (case system inst of
       ProgramStatusRegister \<Rightarrow>
         if load inst then set_reg (rd inst) (read_program_status (cpsr s)) s
         else let msk = program_status_write_mask (opcode inst);
                  v = (if immediate_operand inst then immediate inst else reg s (rd inst)) in
           s\<lparr>cpsr := (cpsr s AND NOT msk) OR (v AND msk)\<rparr>
     | ThreadPointerReadWrite \<Rightarrow>
         if load inst then set_reg (rd inst) (thread_pointer_user_rw s) s
         else s\<lparr>thread_pointer_user_rw := reg s (rd inst)\<rparr>
     | ThreadPointerReadOnly \<Rightarrow>
         set_reg (rd inst) (case cthread_self s of Some p \<Rightarrow> p | None \<Rightarrow> 0) s
     | _ \<Rightarrow> s)"

definition ext_value :: "cpu_state \<Rightarrow> bool \<Rightarrow> u32 \<Rightarrow> u64" where
  "ext_value s wide r =
    ucast (ext_reg s r) OR (if wide then push_bit 32 (ucast (ext_reg s (r + 1))) else 0)"

definition set_ext_value :: "bool \<Rightarrow> u32 \<Rightarrow> u64 \<Rightarrow> cpu_state \<Rightarrow> cpu_state" where
  "set_ext_value wide r v s =
    (let s = set_ext_reg r (ucast v) s in
     if wide then set_ext_reg (r + 1) (ucast (drop_bit 32 v)) s else s)"

definition execute_floating_system ::
  "floating_exception_profile \<Rightarrow> floating_system_operands \<Rightarrow> cpu_state \<Rightarrow> cpu_state" where
  "execute_floating_system profile v s =
    (if \<not> fs_to_core v then s\<lparr>fpscr := reg s (fs_core v) AND fpscr_write_mask profile\<rparr>
     else if fs_core v = 15
     then s\<lparr>cpsr := (cpsr s AND 0x0fffffff) OR (fpscr s AND 0xf0000000)\<rparr>
     else set_reg (fs_core v) (fpscr s) s)"

definition execute_floating ::
  "softfloat \<Rightarrow> floating_exception_profile \<Rightarrow> instruction \<Rightarrow> cpu_state \<Rightarrow> cpu_state option" where
  "execute_floating sf profile inst s =
    (case (kind inst, vector inst) of
       (FloatingSystem, OpFloatingSystem v) \<Rightarrow> Some (execute_floating_system profile v s)
     | (FloatingArithmetic, OpFloatingArithmetic v) \<Rightarrow>
         let result = calculate_floating sf v (ext_value s (fa_wide v) (fa_first v))
               (ext_value s (fa_wide v) (fa_second v)) (ext_value s (fa_wide v) (fa_destination v))
               (fpscr s);
             s = set_ext_value (fa_wide v) (fa_destination v) (fr_value result) s in
         Some (s\<lparr>fpscr := fpscr s OR fr_exceptions result\<rparr>)
     | (FloatingImmediate, OpFloatingImmediate v) \<Rightarrow>
         Some (set_ext_value (fi_wide v) (fi_destination v) (expand_floating_immediate v) s)
     | (FloatingComparison, OpFloatingComparison v) \<Rightarrow>
         let r = compare_floating sf v (ext_value s (fcmp_wide v) (fcmp_first v))
               (if fcmp_with_zero v then 0 else ext_value s (fcmp_wide v) (fcmp_second v)) (fpscr s) in
         Some (s\<lparr>fpscr := (fpscr s AND 0x0fffffff) OR cr_nzcv r OR cr_exceptions r\<rparr>)
     | (FloatingConversion, OpFloatingConversion v) \<Rightarrow>
         let result = convert_floating sf v (ext_value s (fc_source_double v) (fc_source v)) (fpscr s);
             s = set_ext_value (fc_destination_double v) (fc_destination v) (fr_value result) s in
         Some (s\<lparr>fpscr := fpscr s OR fr_exceptions result\<rparr>)
     | _ \<Rightarrow> None)"

definition execute_vector ::
  "softfloat \<Rightarrow> instruction \<Rightarrow> cpu_state \<Rightarrow> cpu_state option" where
  "execute_vector sf inst s =
    (case (kind inst, vector inst) of
       (VectorCoreMove, OpCoreMove v) \<Rightarrow> Some (move_core_vector v s)
     | (VectorDuplicate, OpDuplicate v) \<Rightarrow> Some (duplicate_vector v s)
     | (VectorFloatingConversion, OpVectorFloatingConversion v) \<Rightarrow> Some (convert_vector sf v s)
     | (VectorFloatingArithmetic, OpVectorFloatingArithmetic v) \<Rightarrow> Some (floating_vector sf v s)
     | (VectorIntegerArithmetic, OpInteger v) \<Rightarrow> Some (integer_vector v s)
     | (VectorBitwise, OpBitwise v) \<Rightarrow> Some (bitwise_vector v s)
     | (VectorImmediate, OpImmediate v) \<Rightarrow> Some (immediate_vector v s)
     | (VectorExtract, OpExtract v) \<Rightarrow> Some (extract_vector v s)
     | (VectorShiftImmediate, OpShiftImmediate v) \<Rightarrow> Some (shift_vector v s)
     | (VectorReverse, OpReverse v) \<Rightarrow> Some (reverse_vector v s)
     | _ \<Rightarrow> None)"

definition floating_kinds :: "instruction_kind list" where
  "floating_kinds = [FloatingSystem, FloatingArithmetic, FloatingImmediate, FloatingComparison,
     FloatingConversion]"

definition vector_kinds :: "instruction_kind list" where
  "vector_kinds = [VectorCoreMove, VectorDuplicate, VectorFloatingConversion,
     VectorFloatingArithmetic, VectorIntegerArithmetic, VectorBitwise, VectorImmediate,
     VectorExtract, VectorShiftImmediate, VectorReverse]"

text \<open>The core-register cases of the switch. \<open>pc\<close> is the instruction's address,
  \<open>computed\<close> and \<open>alu_target\<close> what was computed before the switch.\<close>

definition execute_branching ::
  "instruction \<Rightarrow> u32 \<Rightarrow> bool \<Rightarrow> u32 \<Rightarrow> cpu_state \<Rightarrow> cpu_state" where
  "execute_branching inst pc thumb branch_target s =
    (case kind inst of
       WideImmediate \<Rightarrow>
         set_reg (rd inst) (if opcode inst \<noteq> 0
           then (reg s (rd inst) AND 0xffff) OR push_bit 16 (immediate inst) else immediate inst) s
     | Multiply \<Rightarrow>
         let r = calculate_multiply inst (reg s (rm inst)) (reg s (rs inst)) (reg s (rd inst))
               (reg s (rn inst)) (cpsr s);
             s = set_reg (rd inst) (ucast (mul_value r)) s;
             s = (if multiply_writes_pair (multiply_operation_of (opcode inst))
               then set_reg (rn inst) (ucast (drop_bit 32 (mul_value r))) s else s) in
         s\<lparr>cpsr := mul_cpsr r\<rparr>
     | Branch \<Rightarrow>
         let s = (if link inst
               then set_reg 14 ((pc + inst_size inst) OR (if thumb then 1 else 0)) s else s) in
         if exchange inst then s\<lparr>cpsr := cpsr s XOR 0x20\<rparr> else s
     | BranchExchange \<Rightarrow>
         let s = (if link inst
               then set_reg 14 ((pc + inst_size inst) OR (if thumb then 1 else 0)) s else s) in
         s\<lparr>cpsr := (cpsr s AND NOT (push_bit 5 1)) OR push_bit 5 (branch_target AND 1)\<rparr>
     | _ \<Rightarrow> s)"

definition execute_core ::
  "instruction \<Rightarrow> u32 \<Rightarrow> bool \<Rightarrow> alu_result \<Rightarrow> pc_write option \<Rightarrow> u32 \<Rightarrow> cpu_state \<Rightarrow> cpu_state" where
  "execute_core inst pc thumb computed alu_target branch_target s =
    (case kind inst of
       SystemControl \<Rightarrow> execute_system inst s
     | DataProcessing \<Rightarrow>
         (case alu_target of
           Some w \<Rightarrow> (set_reg 15 (pcw_address w) s)
             \<lparr>cpsr := (alu_cpsr computed AND NOT 0x20) OR (if pcw_thumb w then 0x20 else 0)\<rparr>
         | None \<Rightarrow>
             (if opcode inst < 8 \<or> 11 < opcode inst then set_reg (rd inst) (alu_value computed) s else s)
             \<lparr>cpsr := alu_cpsr computed\<rparr>)
     | ParallelArithmetic \<Rightarrow>
         let r = parallel_arithmetic inst (reg s (rn inst)) (reg s (rm inst)) (cpsr s) in
         (set_reg (rd inst) (alu_value r) s)\<lparr>cpsr := alu_cpsr r\<rparr>
     | SaturatingArithmetic \<Rightarrow>
         let r = saturating_arithmetic inst (reg s (rn inst)) (reg s (rm inst)) (cpsr s) in
         (set_reg (rd inst) (alu_value r) s)\<lparr>cpsr := alu_cpsr r\<rparr>
     | ParallelSaturating \<Rightarrow>
         set_reg (rd inst) (parallel_saturating inst (reg s (rn inst)) (reg s (rm inst))) s
     | IntegerTransform \<Rightarrow>
         set_reg (rd inst) (integer_transform inst (reg s (rm inst)) (reg s (rn inst))) s
     | IntegerDivide \<Rightarrow>
         set_reg (rd inst) (integer_divide inst (reg s (rn inst)) (reg s (rm inst))) s
     | PackHalfword \<Rightarrow>
         let shifted = sh_value (shift (reg s (rm inst)) (inst_shift inst) (shift_amount inst)
               False False);
             a = reg s (rn inst) in
         set_reg (rd inst) (if inst_shift inst = Lsl
           then (a AND 0xffff) OR (shifted AND 0xffff0000)
           else (a AND 0xffff0000) OR (shifted AND 0xffff)) s
     | _ \<Rightarrow> execute_branching inst pc thumb branch_target s)"

section \<open>Memory instructions\<close>

definition exclusive_kinds :: "instruction_kind list" where
  "exclusive_kinds = [ClearExclusive, Swap, ExclusiveTransferKind]"

definition transfer_kinds :: "instruction_kind list" where
  "transfer_kinds = [TableBranch, DualTransfer, TransferKind]"

definition needs_memory :: "instruction_kind list" where
  "needs_memory = transfer_kinds @ [ExclusiveTransferKind, Swap, MultipleTransferKind,
     VectorTransferKind]"

definition memory_kinds :: "instruction_kind list" where
  "memory_kinds = transfer_kinds @ exclusive_kinds @ [MultipleTransferKind, VectorTransferKind]"

text \<open>The memory cases; \<open>None\<close> is again the wrong variant.\<close>

definition execute_memory ::
  "('m, 'x) instruction_source \<Rightarrow> instruction \<Rightarrow> cpu_state \<Rightarrow> 'm \<Rightarrow> 'x option \<Rightarrow>
   (completion \<times> cpu_state \<times> 'm \<times> 'x option) option" where
  "execute_memory src inst s m monitor =
    (let mem = src_memory src; direct = ma_direct mem m; offset = pc_store_offset direct in
     if kind inst \<in> set exclusive_kinds
     then Some (complete_exclusive mem (src_has_memory src) s m monitor (prepare_exclusive s inst))
     else if kind inst = VectorTransferKind
     then case vector inst of
         OpTransfer v \<Rightarrow>
           let (c, s, m) = complete_vector mem s m (prepare_vector s inst v (permits_unaligned direct)) in
           Some (c, s, m, monitor)
       | _ \<Rightarrow> None
     else if kind inst = MultipleTransferKind
     then if \<not> load inst \<and> registers inst AND 0x8000 \<noteq> 0 \<and> offset \<noteq> 8 \<and> offset \<noteq> 12
       then Some (unsupported, s, m, monitor)
       else let (c, s, m) = complete_multiple mem s m (prepare_multiple s inst offset) in
         Some (c, s, m, monitor)
     else if rd inst = 15 \<and> \<not> load inst \<and> offset \<noteq> 8 \<and> offset \<noteq> 12
     then Some (unsupported, s, m, monitor)
     else let (c, s, m) = complete_transfer mem s m (prepare_transfer s inst offset) in
       Some (c, s, m, monitor))"

section \<open>One instruction\<close>

text \<open>What is checked after decoding and before any effect.\<close>

definition floating_disabled :: "instruction \<Rightarrow> cpu_state \<Rightarrow> bool option" where
  "floating_disabled inst s =
    (case kind inst of
       FloatingArithmetic \<Rightarrow>
         (case vector inst of
           OpFloatingArithmetic v \<Rightarrow>
             Some (fpscr s AND floating_arithmetic_controls (fa_operation v) \<noteq> 0)
         | _ \<Rightarrow> None)
     | FloatingImmediate \<Rightarrow> Some (fpscr s AND floating_vector_controls \<noteq> 0)
     | FloatingComparison \<Rightarrow> Some (fpscr s AND floating_comparison_controls \<noteq> 0)
     | FloatingConversion \<Rightarrow> Some (fpscr s AND floating_exception_enables \<noteq> 0)
     | _ \<Rightarrow> Some False)"

text \<open>The next program counter and IT state.\<close>

definition keeps_pc :: "instruction \<Rightarrow> bool" where
  "keeps_pc inst \<longleftrightarrow> kind inst \<in> set memory_kinds \<or> alu_writes_pc inst"

definition next_pc :: "instruction \<Rightarrow> bool \<Rightarrow> u32 \<Rightarrow> u32 \<Rightarrow> cpu_state \<Rightarrow> u32" where
  "next_pc inst passed pc branch_target s =
    (let compare_branch = (kind inst = CompareBranch \<and>
           ((reg s (rn inst) \<noteq> 0) = (opcode inst \<noteq> 0))) in
     if passed \<and> (kind inst = Branch \<or> compare_branch)
     then (if align_pc inst then (pc + pc_offset inst) AND NOT 3 else pc + pc_offset inst) +
       immediate inst
     else if passed \<and> kind inst = BranchExchange
     then branch_target AND (if branch_target AND 1 \<noteq> 0 then NOT 1 else NOT 3)
     else pc + inst_size inst)"

definition advance_state ::
  "instruction \<Rightarrow> bool \<Rightarrow> bool \<Rightarrow> u32 \<Rightarrow> u32 \<Rightarrow> u32 \<Rightarrow> cpu_state \<Rightarrow> cpu_state" where
  "advance_state inst passed thumb it pc branch_target s =
    (let s = (if \<not> (passed \<and> keeps_pc inst)
           then set_reg 15 (next_pc inst passed pc branch_target s) s else s) in
     if thumb
     then s\<lparr>cpsr := with_it_state (cpsr s)
       (if passed \<and> kind inst = IfThen then immediate inst else advance_it it)\<rparr>
     else s)"

text \<open>The end of an iteration, once the instruction has taken effect.\<close>

definition retire_instruction ::
  "run_request \<Rightarrow> instruction \<Rightarrow> bool \<Rightarrow> bool \<Rightarrow> u32 \<Rightarrow> u32 \<Rightarrow> u64 \<Rightarrow> ('m, 'x) machine \<Rightarrow>
   ('m, 'x) outcome" where
  "retire_instruction req inst passed thumb it branch_target ticks c =
    (let pc = rr_pc (mc_result c);
         s = advance_state inst passed thumb it pc branch_target (mc_state c);
         result = (mc_result c)\<lparr>rr_ticks := rr_ticks (mc_result c) + ticks\<rparr>;
         c = c\<lparr>mc_state := s, mc_result := result\<rparr> in
     if rq_single_step req
     then stop_machine stop_single_step (c\<lparr>mc_result := result\<lparr>rr_pc := reg s 15\<rparr>\<rparr>)
     else if rq_stop_at_control_flow req \<and>
       (reg s 15 \<noteq> pc + inst_size inst \<or> is_thumb s \<noteq> thumb \<or>
        rq_block_end_pc req = Some (reg s 15))
     then stop_machine stop_backend_switch (c\<lparr>mc_result := result\<lparr>rr_pc := reg s 15\<rparr>\<rparr>)
     else Running (c\<lparr>mc_instructions := mc_instructions c + 1\<rparr>))"

text \<open>\<^verbatim>\<open>ArchitecturalStop::from\<close> and \<^verbatim>\<open>retire\<close>. The stop holds the
  instruction size in a byte.\<close>

definition architectural_stop ::
  "run_request \<Rightarrow> instruction \<Rightarrow> bool \<Rightarrow> u32 \<Rightarrow> u64 \<Rightarrow> ('m, 'x) machine \<Rightarrow> ('m, 'x) machine option" where
  "architectural_stop req inst thumb it ticks c =
    (let svc = (kind inst = Svc) in
     if \<not> svc \<and> kind inst \<noteq> Breakpoint then None
     else
       let s = mc_state c;
           pc = rr_pc (mc_result c);
           s = (if svc then set_reg 15 (pc + (inst_size inst AND 255)) s else s);
           s = (if svc \<and> thumb then s\<lparr>cpsr := with_it_state (cpsr s) (advance_it it)\<rparr> else s);
           reason = (if svc then stop_svc else stop_breakpoint);
           reason = (if rq_single_step req then reason OR stop_single_step else reason) in
       Some (c\<lparr>mc_state := s, mc_result := (mc_result c)
         \<lparr>rr_svc := (if svc then Some (immediate inst) else rr_svc (mc_result c)),
          rr_ticks := rr_ticks (mc_result c) + ticks, rr_reason := reason\<rparr>\<rparr>))"

text \<open>The switch over the instruction kind of a passed instruction.\<close>

definition execute_instruction ::
  "softfloat \<Rightarrow> ('m, 'x) instruction_source \<Rightarrow> run_request \<Rightarrow> instruction \<Rightarrow> bool \<Rightarrow> u32 \<Rightarrow>
   alu_result \<Rightarrow> pc_write option \<Rightarrow> u32 \<Rightarrow> u64 \<Rightarrow> ('m, 'x) machine \<Rightarrow> ('m, 'x) outcome" where
  "execute_instruction sf src req inst thumb it computed alu_target branch_target ticks c =
    (let s = mc_state c;
         retire = retire_instruction req inst True thumb it branch_target ticks in
     if kind inst \<in> set memory_kinds
     then case execute_memory src inst s (mc_memory c) (mc_monitor c) of
         None \<Rightarrow> Raised
       | Some (ending, s, m, monitor) \<Rightarrow>
           let c = c\<lparr>mc_state := s, mc_memory := m, mc_monitor := monitor,
                 mc_lease := (mc_lease c)\<lparr>ls_held := False\<rparr>\<rparr> in
           if completion_reason ending \<noteq> stop_none
           then stop_with_fault (completion_reason ending) (completion_fault ending) c
           else retire c
     else if kind inst \<in> set floating_kinds
     then case execute_floating sf (src_exceptions src) inst s of
         None \<Rightarrow> Raised | Some s \<Rightarrow> retire (c\<lparr>mc_state := s\<rparr>)
     else if kind inst \<in> set vector_kinds
     then case execute_vector sf inst s of
         None \<Rightarrow> Raised | Some s \<Rightarrow> retire (c\<lparr>mc_state := s\<rparr>)
     else
       let barrier = (kind inst = SystemControl \<and>
             system inst \<in> {DataMemoryBarrier, DataSynchronizationBarrier,
               InstructionSynchronizationBarrier});
           c = (if barrier then c\<lparr>mc_lease := (mc_lease c)\<lparr>ls_held := False\<rparr>\<rparr> else c) in
       retire (c\<lparr>mc_state := execute_core inst (rr_pc (mc_result c)) thumb computed alu_target
         branch_target s\<rparr>))"

text \<open>From a decoded instruction to the end of the iteration.\<close>

definition dispatch_instruction ::
  "softfloat \<Rightarrow> ('m, 'x) instruction_source \<Rightarrow> run_request \<Rightarrow> instruction \<Rightarrow> u32 \<Rightarrow> bool \<Rightarrow> u32 \<Rightarrow>
   ('m, 'x) machine \<Rightarrow> ('m, 'x) outcome" where
  "dispatch_instruction sf src req inst word thumb it c =
    (let s = mc_state c;
         pc = rr_pc (mc_result c);
         passed = condition_passed (condition inst) (cpsr s);
         alu_pc = alu_writes_pc inst;
         processing = (passed \<and> kind inst = DataProcessing);
         computed = (if processing then data_processing s inst else \<lparr>alu_value = 0, alu_cpsr = 0\<rparr>);
         alu_target = (if processing \<and> alu_pc
           then alu_write_pc (alu_value computed) thumb (src_alu_pc src) else None);
         exchanging = (passed \<and> kind inst = BranchExchange);
         branch_target = (if exchanging then read_register s (rm inst) inst else 0);
         ticks = (if src_mixed_timing src then src_mixed_ticks src thumb pc word (mc_memory c)
           else src_ticks src pc word (mc_memory c)) in
     if condition inst = 15 then stop_machine stop_unsupported c
     else if passed \<and> kind inst = Unsupported then stop_machine stop_unsupported c
     else if passed \<and> floating_disabled inst s = None then Raised
     else if passed \<and> floating_disabled inst s = Some True then stop_machine stop_unsupported c
     else if passed \<and> kind inst \<in> set needs_memory \<and> \<not> src_has_memory src
     then stop_machine stop_unsupported c
     else if processing \<and> alu_pc \<and> alu_target = None then stop_machine stop_unsupported c
     else if exchanging \<and> branch_target AND 3 = 2 then stop_machine stop_unsupported c
     else if ticks = 0 \<or> - 1 - rr_ticks (mc_result c) < ticks
     then stop_machine stop_invalid_timing c
     else if \<not> passed then retire_instruction req inst False thumb it branch_target ticks c
     else case architectural_stop req inst thumb it ticks c of
         Some c \<Rightarrow> Stopped c
       | None \<Rightarrow> execute_instruction sf src req inst thumb it computed alu_target branch_target ticks c)"

section \<open>Fetching\<close>

definition lease_reusable :: "('m, 'x) instruction_source \<Rightarrow> lease \<Rightarrow> bool \<Rightarrow> u32 \<Rightarrow> bool" where
  "lease_reusable src l thumb pc \<longleftrightarrow>
    ls_held l \<and> ls_count l < 32 \<and> (thumb = ls_thumb l \<or> src_mixed_timing src) \<and>
    (case ls_region l of
       None \<Rightarrow> False
     | Some (first, after) \<Rightarrow> first \<le> ucast pc \<and> (ucast pc + 4 :: u64) \<le> after)"

text \<open>The result of a fetch: the machine with its lease and memory, and the decoded instruction
  with its word, or the reason for stopping.\<close>

definition fetch_fault :: "memory_fault option \<Rightarrow> ('m, 'x) machine \<Rightarrow> ('m, 'x) outcome" where
  "fetch_fault fault c =
    Stopped (c\<lparr>mc_result := (mc_result c)\<lparr>rr_reason := stop_fetch_fault,
      rr_fault := (case fault of Some f \<Rightarrow> Some f | None \<Rightarrow> rr_fault (mc_result c))\<rparr>\<rparr>)"

definition fetch_thumb ::
  "('m, 'x) instruction_source \<Rightarrow> bool \<Rightarrow> u32 \<Rightarrow> u32 \<Rightarrow> ('m, 'x) machine \<Rightarrow>
   ('m, 'x) outcome + (u32 \<times> instruction \<times> ('m, 'x) machine)" where
  "fetch_thumb src reuse pc it c =
    (case src_fetch16 src pc (mc_memory c) of
       None \<Rightarrow> Inl (fetch_fault None c)
     | Some first \<Rightarrow>
         let wide = thumb_is_wide first;
             (fault, m) = (if wide \<and> \<not> reuse then src_prepare src (pc + 2) 2 (mc_memory c)
               else (None, mc_memory c));
             c = c\<lparr>mc_memory := m\<rparr> in
         case fault of
           Some f \<Rightarrow> Inl (fetch_fault (Some f) c)
         | None \<Rightarrow>
             let second = (if wide then src_fetch16 src (pc + 2) m else None) in
             if wide \<and> second = None then Inl (fetch_fault None c)
             else
               let word = ucast first OR
                     push_bit 16 (case second of Some h \<Rightarrow> ucast h | None \<Rightarrow> 0);
                   inst = decode_t32 first second it (src_arithmetic src) (src_vfp src)
                     (src_architecture src) (src_floating src) (src_division src)
                     (src_memory_profile src) (src_simd src) in
               Inr (word, inst, c))"

definition fetch_arm ::
  "('m, 'x) instruction_source \<Rightarrow> u32 \<Rightarrow> ('m, 'x) machine \<Rightarrow>
   ('m, 'x) outcome + (u32 \<times> instruction \<times> ('m, 'x) machine)" where
  "fetch_arm src pc c =
    (case src_fetch32 src pc (mc_memory c) of
       None \<Rightarrow> Inl (fetch_fault None c)
     | Some word \<Rightarrow>
         Inr (word, decode_a32 word (src_vfp src) (src_architecture src) (src_floating src)
           (src_division src) (src_simd src), c))"

text \<open>Acquire or reuse the code lease.\<close>

definition acquire_lease ::
  "('m, 'x) instruction_source \<Rightarrow> bool \<Rightarrow> bool \<Rightarrow> u32 \<Rightarrow> ('m, 'x) machine \<Rightarrow>
   memory_fault option \<times> ('m, 'x) machine" where
  "acquire_lease src reuse thumb pc c =
    (if reuse then (None, c)
     else
       let (fault, m) = src_prepare src pc (if thumb then 2 else 4) (mc_memory c) in
       (fault, c\<lparr>mc_memory := m, mc_lease := (mc_lease c)\<lparr>ls_held := src_leases src pc thumb,
         ls_thumb := thumb, ls_count := 0\<rparr>\<rparr>))"

definition note_lease ::
  "('m, 'x) instruction_source \<Rightarrow> bool \<Rightarrow> u32 \<Rightarrow> ('m, 'x) machine \<Rightarrow> ('m, 'x) machine" where
  "note_lease src reuse pc c =
    (let l = mc_lease c;
         l = (if reuse then l else l\<lparr>ls_region := (if ls_held l
           then src_continuation src pc (mc_memory c) else None)\<rparr>) in
     c\<lparr>mc_lease := l\<lparr>ls_count := ls_count l + 1\<rparr>\<rparr>)"

section \<open>The loop\<close>

definition poll_reason :: "run_request \<Rightarrow> poll \<Rightarrow> u64 \<Rightarrow> u32" where
  "poll_reason req p ticks =
    (poll_stops p OR
     (if rq_tick_budget req \<le> ticks \<and> \<not> rq_single_step req then stop_tick_budget else 0)) OR
    (if poll_deadline p then stop_host_deadline else 0)"

text \<open>What follows the checks on the thread state: lease, fetch, decode and dispatch.\<close>

definition execute_next ::
  "softfloat \<Rightarrow> ('m, 'x) instruction_source \<Rightarrow> run_request \<Rightarrow> bool \<Rightarrow> u32 \<Rightarrow> u32 \<Rightarrow>
   ('m, 'x) machine \<Rightarrow> ('m, 'x) outcome" where
  "execute_next sf src req thumb it pc c =
    (let reuse = lease_reusable src (mc_lease c) thumb pc;
         (fault, c) = acquire_lease src reuse thumb pc c in
     case fault of
       Some f \<Rightarrow> fetch_fault (Some f) c
     | None \<Rightarrow>
         (case (if thumb then fetch_thumb src reuse pc it c else fetch_arm src pc c) of
           Inl stop \<Rightarrow> stop
         | Inr (word, inst, c) \<Rightarrow>
             let c = note_lease src reuse pc
                   (c\<lparr>mc_result := (mc_result c)\<lparr>rr_instruction := Some word\<rparr>\<rparr>) in
             dispatch_instruction sf src req inst word thumb it c))"

definition step ::
  "softfloat \<Rightarrow> ('m, 'x) instruction_source \<Rightarrow> run_request \<Rightarrow> u64 \<Rightarrow> poll \<Rightarrow> ('m, 'x) machine \<Rightarrow>
   ('m, 'x) outcome" where
  "step sf src req limit p c =
    (let s = mc_state c;
         pc = reg s 15;
         reason = poll_reason req p (rr_ticks (mc_result c));
         c = c\<lparr>mc_result := (mc_result c)\<lparr>rr_pc := pc, rr_instruction := None, rr_fault := None,
           rr_reason := reason\<rparr>\<rparr>;
         thumb = is_thumb s;
         it = it_state (cpsr s) in
     if reason \<noteq> stop_none then Stopped c
     else if mc_instructions c = limit then Stopped c
     else if cpsr s AND (0x1f OR 0x01000000) \<noteq> 0x10 \<or> (\<not> thumb \<and> it \<noteq> 0)
     then stop_machine stop_unsupported c
     else if pc AND (if thumb then 1 else 3) \<noteq> 0 then stop_machine stop_fetch_fault c
     else execute_next sf src req thumb it pc c)"

text \<open>\<open>fuel\<close> bounds the iterations; \<open>polls n\<close> is the input of iteration \<open>n\<close>.\<close>

fun run_loop ::
  "nat \<Rightarrow> softfloat \<Rightarrow> ('m, 'x) instruction_source \<Rightarrow> run_request \<Rightarrow> u64 \<Rightarrow> (nat \<Rightarrow> poll) \<Rightarrow>
   ('m, 'x) machine \<Rightarrow> ('m, 'x) outcome" where
  "run_loop 0 sf src req limit polls c = Running c"
| "run_loop (Suc fuel) sf src req limit polls c =
    (case step sf src req limit (polls 0) c of
       Running c \<Rightarrow> run_loop fuel sf src req limit (\<lambda>n. polls (Suc n)) c
     | stop \<Rightarrow> stop)"

definition no_lease :: lease where
  "no_lease = \<lparr>ls_held = False, ls_region = None, ls_thumb = False, ls_count = 0\<rparr>"

text \<open>\<^verbatim>\<open>ExecutorContext::bind_memory\<close> and the initial result.\<close>

definition bind_memory :: "('m, 'x) instruction_source \<Rightarrow> 'm \<Rightarrow> 'x option \<Rightarrow> 'x option" where
  "bind_memory src m monitor =
    (case monitor of
       None \<Rightarrow> None
     | Some x \<Rightarrow> if \<not> src_has_memory src \<or> \<not> xm_bound (src_memory src) x m then None else monitor)"

definition start_machine ::
  "('m, 'x) instruction_source \<Rightarrow> cpu_state \<Rightarrow> 'm \<Rightarrow> 'x option \<Rightarrow> u64 \<Rightarrow> ('m, 'x) machine" where
  "start_machine src s m monitor ticks =
    \<lparr>mc_state = s, mc_memory = m, mc_monitor = bind_memory src m monitor, mc_lease = no_lease,
     mc_result = \<lparr>rr_reason = stop_none, rr_ticks = ticks, rr_svc = None, rr_pc = 0,
       rr_instruction = None, rr_fault = None\<rparr>, mc_instructions = 0\<rparr>"

definition run_slice ::
  "nat \<Rightarrow> softfloat \<Rightarrow> ('m, 'x) instruction_source \<Rightarrow> run_request \<Rightarrow> (nat \<Rightarrow> poll) \<Rightarrow> u64 \<Rightarrow> u64 \<Rightarrow>
   cpu_state \<Rightarrow> 'm \<Rightarrow> 'x option \<Rightarrow> ('m, 'x) outcome" where
  "run_slice fuel sf src req polls limit ticks s m monitor =
    run_loop fuel sf src req limit polls (start_machine src s m monitor ticks)"

end
