(* ===== verification/Example_Machine.thy ===== *)
theory Example_Machine
  imports Arm_Interpreter
begin

text \<open>
  A small concrete machine at which the general theorems are instantiated: a flat memory of
  bytes up to a limit, an instruction source that fetches from it, and a thread in user mode.
\<close>

unbundle bit_operations_syntax

definition flat_fault :: "u32 \<Rightarrow> memory_fault" where
  "flat_fault a = \<lparr>mf_address = a, mf_status = 5\<rparr>"

definition flat_read :: "u32 \<Rightarrow> u32 \<Rightarrow> u32 \<Rightarrow> (u32 \<Rightarrow> u8) \<Rightarrow> memory_read" where
  "flat_read limit a n m =
    (if a < limit then \<lparr>mr_value = load_bytes m a (unat n), mr_fault = None\<rparr>
     else \<lparr>mr_value = 0, mr_fault = Some (flat_fault a)\<rparr>)"

definition flat_memory :: "u32 \<Rightarrow> (u32 \<Rightarrow> u8, unit) memory_access" where
  "flat_memory limit =
    \<lparr>ma_read = (\<lambda>a n m. (flat_read limit a n m, m)),
     ma_write = (\<lambda>a n v m. if a < limit then (None, store_bytes m a (unat n) v)
       else (Some (flat_fault a), m)),
     ma_exchange = (\<lambda>a n v m. if a < limit then (Some (flat_read limit a n m),
         store_bytes m a (unat n) v)
       else (Some (flat_read limit a n m), m)),
     ma_direct = (\<lambda>m. \<lparr>permits_unaligned = True, pc_store_offset = 8\<rparr>),
     ma_monitor = (\<lambda>m. None), xm_bound = (\<lambda>x m. True),
     xm_load = (\<lambda>x a n m. (\<lparr>xr_value = 0, xr_fault = None\<rparr>, x, m)),
     xm_store = (\<lambda>x a n v m. (\<lparr>xw_stored = False, xw_fault = None\<rparr>, x, m)),
     xm_clear = (\<lambda>x m. (x, m))\<rparr>"

definition flat_source :: "u32 \<Rightarrow> (u32 \<Rightarrow> u8, unit) instruction_source" where
  "flat_source limit =
    \<lparr>src_arithmetic = ArithmeticArchitectural, src_vfp = D32, src_floating = Vfpv3,
     src_architecture = Armv6T2, src_division = NoDivide, src_memory_profile = MemoryArchitectural,
     src_simd = NoSimd, src_alu_pc = Interworking, src_exceptions = Untrapped,
     src_mixed_timing = False, src_has_memory = True, src_memory = flat_memory limit,
     src_leases = (\<lambda>pc thumb. False), src_continuation = (\<lambda>pc m. None),
     src_prepare = (\<lambda>pc n m. (None, m)),
     src_fetch16 = (\<lambda>pc m. if pc < limit then Some (load_bytes m pc 2) else None),
     src_fetch32 = (\<lambda>pc m. if pc < limit then Some (load_bytes m pc 4) else None),
     src_ticks = (\<lambda>pc word m. 1), src_mixed_ticks = (\<lambda>thumb pc word m. 1)\<rparr>"

text \<open>A floating-point unit that returns zero; the programs here do not use it.\<close>

definition zero_float :: softfloat where
  "zero_float =
    \<lparr>sf_add = (\<lambda>w r a b. (0, 0)), sf_sub = (\<lambda>w r a b. (0, 0)), sf_mul = (\<lambda>w r a b. (0, 0)),
     sf_div = (\<lambda>w r a b. (0, 0)), sf_sqrt = (\<lambda>w r a. (0, 0)), sf_is_nan = (\<lambda>w a. False),
     sf_eq = (\<lambda>w a b. (a = b, 0)), sf_eq_signaling = (\<lambda>w a b. (a = b, 0)),
     sf_lt_quiet = (\<lambda>w a b. (a < b, 0)), sf_from_i32 = (\<lambda>w r a. (0, 0)),
     sf_from_ui32 = (\<lambda>w r a. (0, 0)), sf_to_i32 = (\<lambda>w r a. (0, 0)),
     sf_to_ui32 = (\<lambda>w r a. (0, 0)), sf_narrow = (\<lambda>r a. (0, 0)), sf_widen = (\<lambda>r a. (0, 0))\<rparr>"

definition zero_state :: cpu_state where
  "zero_state = \<lparr>cpu_registers = replicate 16 0, extension_registers = replicate 64 0, cpsr = 0x10,
     fpscr = 0, cthread_self = None, abort_state = \<lparr>fault_status = 0, fault_address = 0\<rparr>,
     thread_pointer_user_rw = 0\<rparr>"

lemma zero_state_ok [simp]: "state_ok zero_state"
  by (simp add: state_ok_def zero_state_def)

text \<open>Programs are lists of words from an address on.\<close>

definition program_at :: "u32 \<Rightarrow> u32 list \<Rightarrow> u32 \<Rightarrow> u8" where
  "program_at start ws a =
    (let n = unat (a - start) in
     if n < 4 * length ws then ucast (drop_bit (8 * (n mod 4)) (ws ! (n div 4))) else 0)"

end
