(* ===== verification/Memory_Transfers.thy ===== *)
theory Memory_Transfers
  imports Packed_Control Example_Machine
begin

text \<open>
  What a decoded load or store does, stated on the instruction's operands rather than on the
  packed transaction, and what a data fault leaves behind.
\<close>

unbundle bit_operations_syntax

section \<open>Loaded values\<close>

text \<open>The loaded data as a number of bits of the byte-ordered value.\<close>

definition load_extension :: "bool \<Rightarrow> nat \<Rightarrow> u32 \<Rightarrow> u32" where
  "load_extension extend_sign bits v =
    (if extend_sign then signed_take_bit (bits - 1) v else take_bit bits v)"

lemma xor_sign_word:
  fixes v :: u32
  assumes "n < 31"
  shows "(take_bit (Suc n) v XOR 2 ^ n) - 2 ^ n = signed_take_bit n v"
proof -
  let ?x = "take_bit (Suc n) v"
  have "?x XOR 2 ^ n = flip_bit n ?x"
    by (simp add: flip_bit_eq_xor push_bit_eq_mult)
  then have "(?x XOR 2 ^ n) - 2 ^ n = (if bit ?x n then unset_bit n ?x else set_bit n ?x) - 2 ^ n"
    by (simp add: flip_bit_eq_if)
  also have "\<dots> = ?x - of_bool (bit v n) * 2 ^ Suc n"
    by (simp add: unset_bit_eq set_bit_eq bit_take_bit_iff)
  also have "\<dots> = signed_take_bit n v"
    by (simp add: signed_take_bit_eq_take_bit_minus)
  finally show ?thesis .
qed

lemma loaded_value_extension:
  assumes "width = 1 \<or> width = 2 \<or> width = 4" "extend_sign \<longrightarrow> width \<noteq> 4"
  shows "loaded_value big width False extend_sign v =
    load_extension extend_sign (8 * unat width) (endian big v width)"
proof -
  have m: "x AND 255 = take_bit 8 x" "x AND 65535 = take_bit 16 x" for x :: u32
    by (simp_all add: take_bit_eq_mask mask_eq_exp_minus_1)
  have f: "take_bit 32 x = x" for x :: u32
    by (rule take_bit_word_eq_self) simp
  show ?thesis
    using assms xor_sign_word [of 7 "endian big v 1"] xor_sign_word [of 15 "endian big v 2"]
    by (auto simp: loaded_value_def load_extension_def Let_def m f take_bit_take_bit)
qed

section \<open>Single loads and stores\<close>

text \<open>The base after writeback, as the first thing a completed transfer does.\<close>

definition write_back :: "instruction \<Rightarrow> u32 \<Rightarrow> cpu_state \<Rightarrow> cpu_state" where
  "write_back inst updated s = (if writeback inst then set_reg (rn inst) updated s else s)"

definition advance_pc :: "instruction \<Rightarrow> cpu_state \<Rightarrow> cpu_state" where
  "advance_pc inst s = set_reg 15 (reg s 15 + inst_size inst) s"

lemma transfer_fields:
  assumes "operands_ok inst" "kind inst \<in> set transfer_kinds"
  shows "tr_control (prepare_transfer s inst off) AND 7 = access_size inst"
    "drop_bit 8 (tr_control (prepare_transfer s inst off)) AND 15 = rd inst"
    "drop_bit 12 (tr_control (prepare_transfer s inst off)) AND 15 = rn inst"
    "drop_bit 16 (tr_control (prepare_transfer s inst off)) AND 7 = inst_size inst"
    "kind inst = DualTransfer \<Longrightarrow> drop_bit 20 (tr_control (prepare_transfer s inst off)) AND 15 = rs inst"
    "tr_control (prepare_transfer s inst off) AND load_bit = 0 \<longleftrightarrow> \<not> load inst"
    "tr_control (prepare_transfer s inst off) AND signed_bit = 0 \<longleftrightarrow> \<not> inst_sign_extend inst"
    "tr_control (prepare_transfer s inst off) AND writeback_bit = 0 \<longleftrightarrow> \<not> writeback inst"
    "tr_control (prepare_transfer s inst off) AND table_branch_bit = 0 \<longleftrightarrow> kind inst \<noteq> TableBranch"
    "tr_control (prepare_transfer s inst off) AND dual_bit = 0 \<longleftrightarrow> kind inst \<noteq> DualTransfer"
proof -
  have c: "tr_control (prepare_transfer s inst off) = transfer_control inst"
    by (simp add: prepare_transfer_def Let_def)
  have r: "registers_ok inst" and ok: "memory_operands_ok inst"
    using assms(1) by (simp_all add: operands_ok_def)
  have n: "inst_size inst < 8" using ok by (simp add: memory_operands_ok_def)
  have "access_size inst = 1 \<or> access_size inst = 2 \<or> access_size inst = 4"
    using ok assms(2) by (auto simp: memory_operands_ok_def transfer_kinds_def)
  then have a: "access_size inst < 8" by auto
  note fields = transfer_control_fields [OF r a n]
  show "tr_control (prepare_transfer s inst off) AND 7 = access_size inst"
    "drop_bit 8 (tr_control (prepare_transfer s inst off)) AND 15 = rd inst"
    "drop_bit 12 (tr_control (prepare_transfer s inst off)) AND 15 = rn inst"
    "drop_bit 16 (tr_control (prepare_transfer s inst off)) AND 7 = inst_size inst"
    "kind inst = DualTransfer \<Longrightarrow> drop_bit 20 (tr_control (prepare_transfer s inst off)) AND 15 = rs inst"
    "tr_control (prepare_transfer s inst off) AND load_bit = 0 \<longleftrightarrow> \<not> load inst"
    "tr_control (prepare_transfer s inst off) AND signed_bit = 0 \<longleftrightarrow> \<not> inst_sign_extend inst"
    "tr_control (prepare_transfer s inst off) AND writeback_bit = 0 \<longleftrightarrow> \<not> writeback inst"
    "tr_control (prepare_transfer s inst off) AND table_branch_bit = 0 \<longleftrightarrow> kind inst \<noteq> TableBranch"
    "tr_control (prepare_transfer s inst off) AND dual_bit = 0 \<longleftrightarrow> kind inst \<noteq> DualTransfer"
    unfolding c by (rule fields; assumption)+
qed

text \<open>A load into the program counter branches: bit 0 of the loaded word becomes the Thumb bit
  and the target is aligned to the instruction set it selects.\<close>

definition load_branch :: "u32 \<Rightarrow> cpu_state \<Rightarrow> cpu_state" where
  "load_branch v s =
    set_reg 15 (if bit v 0 then v AND NOT 1 else v AND NOT 3)
      (s\<lparr>cpsr := put_flag (cpsr s) 5 (bit v 0)\<rparr>)"

lemma retired_branch:
  "set_reg 15 (v AND (if v AND 1 \<noteq> 0 then NOT 1 else NOT 3))
     (s\<lparr>cpsr := (cpsr s AND NOT (push_bit 5 1)) OR push_bit 5 (v AND 1)\<rparr>) = load_branch v s"
proof -
  have "v AND 1 = of_bool (bit v 0)" by (simp add: and_one_eq mod_2_eq_odd bit_0)
  then show ?thesis by (auto simp: load_branch_def put_flag_def)
qed

text \<open>C34. A decoded load of a byte, halfword or word that does not fault does exactly this, in
  either byte order; \<open>v\<close> is the loaded bits, zero- or sign-extended from the access size.
  With a destination other than the program counter, the base holds the updated address when
  the instruction writes back (unless it is the loaded register, which wins), the
  destination holds \<open>v\<close>, the program counter has moved past the instruction, and nothing else
  has changed. A load into the program counter writes the base back likewise and then branches
  to \<open>v\<close>, whose bit 0 selects the instruction set; if the address is not a multiple of four
  or \<open>v\<close> ends in the bits 10, the instruction is reported as unsupported and the thread is
  unchanged. The packed transaction in between loses no operand.\<close>
theorem single_load:
  assumes ok: "operands_ok inst" and kind: "kind inst = TransferKind" and l: "load inst"
    and read: "ma_read mem (tr_address (prepare_transfer s inst off)) (access_size inst) m = (r, m')"
    and good: "mr_fault r = None"
  shows "complete_transfer mem s m (prepare_transfer s inst off) =
    (let v = load_extension (inst_sign_extend inst) (8 * unat (access_size inst))
           (endian (big_endian s) (mr_value r) (access_size inst));
         based = write_back inst (tr_updated_base (prepare_transfer s inst off)) s in
     if rd inst \<noteq> 15 then (completed, advance_pc inst (set_reg (rd inst) v based), m')
     else if tr_address (prepare_transfer s inst off) AND 3 \<noteq> 0 then (unsupported, s, m)
     else if v AND 3 = 2 then (unsupported, s, m')
     else (completed, load_branch v based, m'))"
proof -
  have w: "access_size inst = 1 \<or> access_size inst = 2 \<or> access_size inst = 4"
    "inst_sign_extend inst \<longrightarrow> access_size inst \<noteq> 4"
    using ok kind by (simp_all add: operands_ok_def memory_operands_ok_def)
  have kinds: "kind inst \<in> set transfer_kinds" using kind by (simp add: transfer_kinds_def)
  show ?thesis
    by (simp only: complete_transfer_def complete_single_def retire_transfer_def Let_def
        transfer_fields [OF ok kinds] kind l read prod.case good loaded_value_extension [OF w]
        retired_branch write_back_def advance_pc_def option.case simp_thms if_True if_False
        instruction_kind.distinct cong: if_cong)
      auto
qed

lemma single_load_witness:
  "\<exists>inst. complete_transfer (flat_memory 0x1000) (set_reg 1 16 zero_state) (\<lambda>a. 0x87)
      (prepare_transfer (set_reg 1 16 zero_state) inst 8) =
    (completed, advance_pc inst (set_reg 2 0xffffff87 (set_reg 1 20 (set_reg 1 16 zero_state))),
     (\<lambda>a. 0x87))"
proof -
  let ?inst = "new_instruction\<lparr>kind := TransferKind, load := True, rd := 2, rn := 1,
      access_size := 1, inst_sign_extend := True, immediate_operand := True, immediate := 4,
      writeback := True\<rparr>"
  let ?s = "set_reg 1 16 zero_state"
  have ok: "operands_ok ?inst" by code_simp
  have read: "ma_read (flat_memory 0x1000) (tr_address (prepare_transfer ?s ?inst 8))
      (access_size ?inst) (\<lambda>a. 0x87) = (\<lparr>mr_value = 0x87, mr_fault = None\<rparr>, \<lambda>a. 0x87)"
  proof -
    have "tr_address (prepare_transfer ?s ?inst 8) < 0x1000" by code_simp
    then show ?thesis
      by (simp add: flat_memory_def flat_read_def new_instruction_def)
  qed
  have v: "load_extension (inst_sign_extend ?inst) (8 * unat (access_size ?inst))
      (endian (big_endian ?s) 0x87 (access_size ?inst)) = 0xffffff87"
    "tr_updated_base (prepare_transfer ?s ?inst 8) = 20" by code_simp+
  show ?thesis
    using single_load [OF ok _ _ read] v
    by (intro exI [of _ ?inst]) (simp add: write_back_def Let_def)
qed

lemma single_store:
  assumes ok: "operands_ok inst" and kind: "kind inst = TransferKind"
    and l: "\<not> load inst"
    and stored: "ma_write mem (tr_address (prepare_transfer s inst off)) (access_size inst)
      (endian (big_endian s) (tr_value (prepare_transfer s inst off)) (access_size inst)) m = (None, m')"
  shows "complete_transfer mem s m (prepare_transfer s inst off) =
    (completed, advance_pc inst (write_back inst (tr_updated_base (prepare_transfer s inst off)) s), m')"
proof -
  have kinds: "kind inst \<in> set transfer_kinds" using kind by (simp add: transfer_kinds_def)
  show ?thesis
    by (simp add: complete_transfer_def complete_single_def retire_transfer_def Let_def
        transfer_fields [OF ok kinds] kind l stored advance_pc_def write_back_def)
qed

section \<open>Data faults\<close>

text \<open>The state after a fault that undid everything: only the fault registers differ.\<close>

definition recorded :: "memory_fault \<Rightarrow> cpu_state \<Rightarrow> bool" where
  "recorded f s \<longleftrightarrow> abort_state s = \<lparr>fault_status = mf_status f, fault_address = mf_address f\<rparr>"

lemma recorded_abort [simp]: "recorded f (abort_transfer f s)"
  by (simp add: recorded_def abort_transfer_def)

lemma stop_unsupported_not_fault [simp]:
  "stop_unsupported \<noteq> stop_data_fault" "stop_none \<noteq> stop_data_fault"
  "stop_data_fault \<noteq> stop_none" "stop_unsupported \<noteq> stop_none"
  by (simp_all add: stop_defs)

lemma single_fault:
  assumes "complete_single mem s m t = (c, s', m')" "completion_reason c = stop_data_fault"
  obtains f where "c = data_fault f" "s' = abort_transfer f s"
  using assms by (auto simp: complete_single_def Let_def split: if_splits prod.splits option.splits)

lemma exchange_fault:
  assumes "complete_exchange mem p s m t = (c, s', m')" "completion_reason c = stop_data_fault"
  obtains f where "c = data_fault f" "s' = abort_transfer f s"
  using assms by (auto simp: complete_exchange_def Let_def split: if_splits prod.splits option.splits)

lemma exclusive_access_fault:
  assumes "exclusive_access mem x s m t = (Some f, s', x', m')"
  shows "s' = s"
  using assms by (auto simp: exclusive_access_def Let_def split: if_splits prod.splits option.splits)

lemma exclusive_fault:
  assumes "complete_exclusive mem p s m x t = (c, s', m', x')" "completion_reason c = stop_data_fault"
  obtains f where "c = data_fault f" "s' = abort_transfer f s"
  using assms
  by (auto simp: complete_exclusive_def Let_def elim: exchange_fault dest: exclusive_access_fault
      split: if_splits prod.splits option.splits)

text \<open>Vector transfers touch only the extension bank before their writeback.\<close>

definition same_core :: "cpu_state \<Rightarrow> cpu_state \<Rightarrow> bool" where
  "same_core s s' \<longleftrightarrow> cpu_registers s' = cpu_registers s \<and> cpsr s' = cpsr s \<and>
    length (extension_registers s') = length (extension_registers s)"

lemma same_core_simps [simp]:
  "same_core s s" "same_core s (set_ext_reg r v s') = same_core s s'"
  by (simp_all add: same_core_def)

lemma same_core_trans: "same_core a b \<Longrightarrow> same_core b c \<Longrightarrow> same_core a c"
  by (simp add: same_core_def)

lemma same_core_fold:
  assumes "\<And>x s. same_core s (f x s)"
  shows "same_core s (fold f xs s)"
proof (induction xs arbitrary: s)
  case (Cons x xs)
  then show ?case using assms [of s x] same_core_trans by (auto simp: o_def)
qed simp

lemma same_core_publish: "same_core s (publish_replicated first count v s)"
  unfolding publish_replicated_def by (rule same_core_fold) simp

lemma same_core_commit: "same_core s (commit_element width index n v s)"
  by (simp add: commit_element_def Let_def)

lemma vector_loop_core:
  "vector_loop mem big control es address s m = (fault, s', m') \<Longrightarrow> same_core s s'"
proof (induction mem big control es address s m arbitrary: fault s' m'
    rule: vector_loop.induct)
  case (2 mem big control r lane rest address s m)
  show ?case
    using 2
    by (force simp: Let_def intro: same_core_trans [OF same_core_publish]
        same_core_trans [OF same_core_commit] split: if_splits prod.splits option.splits)
qed simp

lemma vector_fault:
  assumes "complete_vector mem s m t = (c, s', m')" "completion_reason c = stop_data_fault"
  obtains f where "c = data_fault f" "recorded f s'" "same_core s s'"
  using assms
  by (auto simp: complete_vector_def Let_def same_core_def dest!: vector_loop_core
      split: if_splits prod.splits option.splits)

text \<open>The register loop of a multiple transfer never writes the program counter, and whatever
  stops it puts the base back.\<close>

definition multiple_frame :: "multiple_record \<Rightarrow> cpu_state \<Rightarrow> completion option \<Rightarrow> cpu_state \<Rightarrow> bool" where
  "multiple_frame t s stop s' \<longleftrightarrow>
    state_ok s' \<and> cpsr s' = cpsr s \<and> reg s' 15 = reg s 15 \<and>
    (case stop of
       None \<Rightarrow> True
     | Some c \<Rightarrow> reg s' (drop_bit 20 (mt_control t) AND 15) = mt_base t \<and>
         (c = unsupported \<or> (\<exists>f. c = data_fault f \<and> recorded f s')))"

lemma multiple_frame_stop:
  assumes "state_ok s" "drop_bit 20 (mt_control t) AND 15 \<noteq> 15"
  shows "multiple_frame t s (Some (data_fault f))
      (abort_transfer f (set_reg (drop_bit 20 (mt_control t) AND 15) (mt_base t) s))"
    "multiple_frame t s (Some unsupported) (set_reg (drop_bit 20 (mt_control t) AND 15) (mt_base t) s)"
    "multiple_frame t s None s"
proof -
  have n: "drop_bit 20 (mt_control t) AND 15 < 16" by (rule and_field_less) simp
  show "multiple_frame t s (Some (data_fault f))
      (abort_transfer f (set_reg (drop_bit 20 (mt_control t) AND 15) (mt_base t) s))"
    "multiple_frame t s (Some unsupported) (set_reg (drop_bit 20 (mt_control t) AND 15) (mt_base t) s)"
    "multiple_frame t s None s"
    using assms reg_set_reg [OF assms(1) n, of 15] reg_set_reg_same [OF assms(1) n]
    by (simp_all add: multiple_frame_def)
qed

lemma multiple_frame_step:
  assumes "multiple_frame t (set_reg r v s) stop s'" "state_ok s" "r < 16" "r \<noteq> 15"
  shows "multiple_frame t s stop s'"
  using assms reg_set_reg [OF assms(2,3), of 15] by (simp add: multiple_frame_def)

lemma multiple_loop_frame:
  assumes "multiple_loop mem big t nums address target s m = (stop, target', s', m')"
    and "state_ok s" "list_all (\<lambda>r. r < 16) nums" "drop_bit 20 (mt_control t) AND 15 \<noteq> 15"
  shows "multiple_frame t s stop s'"
  using assms
proof (induction nums arbitrary: address target s m)
  case Nil
  then show ?case by (auto intro: multiple_frame_stop)
next
  case (Cons r rest)
  note eq = Cons.prems(1) and n = Cons.prems(4)
  have ok: "state_ok s" and r: "r < 16" and more: "list_all (\<lambda>r. r < 16) rest"
    using Cons.prems by auto
  note ih = Cons.IH [OF _ _ more n]
  consider (off) "mt_control t AND 0xffff AND push_bit (unat r) 1 = 0"
    | (store) "mt_control t AND 0xffff AND push_bit (unat r) 1 \<noteq> 0" "mt_control t AND multiple_load = 0"
    | (load) "mt_control t AND 0xffff AND push_bit (unat r) 1 \<noteq> 0" "mt_control t AND multiple_load \<noteq> 0"
    by blast
  then show ?case
  proof cases
    case off
    then show ?thesis using eq ih ok by simp
  next
    case store
    obtain fault m1 where w: "ma_write mem address 4
        (endian big (if r = 15 then mt_pc_value t else reg s r) 4) m = (fault, m1)" by force
    show ?thesis
      using eq store w ih ok multiple_frame_stop(1) [OF ok n]
      by (cases fault) (auto simp: Let_def)
  next
    case load
    obtain result m1 where rd: "ma_read mem address 4 m = (result, m1)" by force
    let ?v = "endian big (mr_value result) 4"
    show ?thesis
    proof (cases "mr_fault result")
      case None
      consider "r = 15" "?v AND 3 = 2" | "r = 15" "?v AND 3 \<noteq> 2" | "r \<noteq> 15" by blast
      then show ?thesis
      proof cases
        case 1
        then show ?thesis
          using eq load rd None multiple_frame_stop(2) [OF ok n] by (auto simp: Let_def)
      next
        case 2
        then show ?thesis using eq load rd None ih ok by (auto simp: Let_def)
      next
        case 3
        then have "multiple_frame t (set_reg r ?v s) stop s'"
          using eq load rd None ih [of "address + 4" target "set_reg r ?v s"] ok
          by (auto simp: Let_def)
        then show ?thesis by (rule multiple_frame_step [OF _ ok r 3])
      qed
    next
      case (Some f)
      then show ?thesis using eq load rd multiple_frame_stop(1) [OF ok n] by (auto simp: Let_def)
    qed
  qed
qed

lemma multiple_fault:
  assumes run: "complete_multiple mem s m t = (c, s', m')"
    and fault: "completion_reason c = stop_data_fault"
    and ok: "state_ok s" and n: "drop_bit 20 (mt_control t) AND 15 \<noteq> 15"
  obtains f where "c = data_fault f" "recorded f s'" "cpsr s' = cpsr s" "reg s' 15 = reg s 15"
    "reg s' (drop_bit 20 (mt_control t) AND 15) = mt_base t"
proof -
  have frame: "multiple_frame t s (Some c) s'"
  proof (cases "mt_address t AND 3 = 0")
    case True
    have nums: "list_all (\<lambda>r. r < 16) register_numbers"
      by (simp add: register_numbers_def upt_rec)
    obtain stop target s1 m1 where loop: "multiple_loop mem (big_endian s) t register_numbers
        (mt_address t) (reg s 15) s m = (stop, target, s1, m1)" by (metis prod_cases4)
    show ?thesis
      using run fault True loop multiple_loop_frame [OF loop ok nums n]
      by (cases stop) (auto simp: complete_multiple_def Let_def split: if_splits)
  next
    case False
    then show ?thesis
      using run multiple_frame_stop(1) [OF ok n] by (auto simp: complete_multiple_def Let_def)
  qed
  then show thesis using that fault by (auto simp: multiple_frame_def)
qed

text \<open>A doubleword load that faults on its second word has written its first register.\<close>

lemma dual_fault:
  assumes "complete_dual mem s m t = (c, s', m')" "completion_reason c = stop_data_fault"
  shows "\<exists>f. c = data_fault f \<and> (s' = abort_transfer f s \<or>
    tr_control t AND load_bit \<noteq> 0 \<and>
    (\<exists>v. s' = abort_transfer f (set_reg (drop_bit 8 (tr_control t) AND 15) v s)))"
  using assms
  by (auto simp: complete_dual_def dual_word_def Let_def split: if_splits prod.splits option.splits)

section \<open>Restarting a faulted instruction\<close>

lemma prepare_multiple_fields:
  assumes "operands_ok inst" "kind inst = MultipleTransferKind"
  shows "drop_bit 20 (mt_control (prepare_multiple s inst off)) AND 15 = rn inst"
    "mt_base (prepare_multiple s inst off) = reg s (rn inst)"
  using assms multiple_control_fields [of inst]
  by (simp_all add: prepare_multiple_def Let_def operands_ok_def memory_operands_ok_def)

lemma same_core_reg: "same_core s s' \<Longrightarrow> reg s' r = reg s r \<and> cpsr s' = cpsr s"
  by (simp add: same_core_def reg_def)

text \<open>C3. A memory instruction that stops with a data fault reports it, records it in the
  thread's fault registers and can be run again: it has changed neither the program counter nor
  the status register nor its base register, and a single, exclusive or exchange access nothing
  at all. The exception is a doubleword load into its own base register.\<close>
theorem data_fault_restartable:
  assumes run: "execute_memory src inst s m x = Some (c, s', m', x')"
    and fault: "completion_reason c = stop_data_fault"
    and ok: "state_ok s" "operands_ok inst" and kind: "kind inst \<in> set memory_kinds"
  shows "\<exists>f. completion_fault c = Some f \<and> recorded f s' \<and>
    reg s' 15 = reg s 15 \<and> cpsr s' = cpsr s \<and>
    (kind inst \<notin> {DualTransfer, MultipleTransferKind, VectorTransferKind} \<longrightarrow> s' = abort_transfer f s) \<and>
    (\<not> (kind inst = DualTransfer \<and> load inst \<and> rd inst = rn inst) \<longrightarrow>
      reg s' (rn inst) = reg s (rn inst))"
proof -
  let ?off = "pc_store_offset (ma_direct (src_memory src) m)"
  have r: "rd inst < 16" "rn inst < 16"
    using ok(2) by (simp_all add: operands_ok_def registers_ok_def)
  consider (exclusive) "kind inst \<in> set exclusive_kinds"
    | (vector) "kind inst \<notin> set exclusive_kinds" "kind inst = VectorTransferKind"
    | (multiple) "kind inst \<notin> set exclusive_kinds" "kind inst = MultipleTransferKind"
    | (transfer) "kind inst \<notin> set exclusive_kinds" "kind inst \<noteq> VectorTransferKind"
        "kind inst \<noteq> MultipleTransferKind"
    by blast
  then show ?thesis
  proof cases
    case exclusive
    then show ?thesis
      using run fault by (auto simp: execute_memory_def Let_def exclusive_kinds_def elim!: exclusive_fault)
  next
    case vector
    then show ?thesis
      using run fault
      by (auto simp: execute_memory_def Let_def same_core_reg elim!: vector_fault
          split: vector_operands.splits prod.splits)
  next
    case multiple
    then have "rn inst \<noteq> 15" using ok(2) by (simp add: operands_ok_def memory_operands_ok_def)
    then show ?thesis
      using run fault multiple ok prepare_multiple_fields [OF ok(2) multiple(2), of s ?off]
      by (auto simp: execute_memory_def Let_def elim!: multiple_fault
          split: if_splits prod.splits)
  next
    case transfer
    then have kinds: "kind inst \<in> set transfer_kinds"
      using kind by (auto simp: memory_kinds_def)
    let ?t = "prepare_transfer s inst ?off"
    note fields = transfer_fields [OF ok(2) kinds, of s ?off]
    have completes: "complete_transfer (src_memory src) s m ?t = (c, s', m')"
      using run fault transfer by (auto simp: execute_memory_def Let_def split: if_splits prod.splits)
    show ?thesis
    proof (cases "kind inst = DualTransfer")
      case True
      then have "rd inst \<noteq> 15" using ok(2) by (simp add: operands_ok_def memory_operands_ok_def)
      moreover obtain f where "c = data_fault f" "s' = abort_transfer f s \<or>
          load inst \<and> (\<exists>v. s' = abort_transfer f (set_reg (rd inst) v s))"
        using dual_fault [of "src_memory src" s m ?t c s' m'] completes fault fields True
        by (auto simp: complete_transfer_def)
      ultimately show ?thesis
        using True reg_set_reg [OF ok(1) r(1)] r(2) by auto
    next
      case False
      then show ?thesis
        using completes fault fields by (auto simp: complete_transfer_def elim!: single_fault)
    qed
  qed
qed

text \<open>LDMIA of two registers over the end of memory, the first of them the base.\<close>

lemma data_fault_restartable_witness:
  "\<exists>c s' m' x'. execute_memory (flat_source 0x1000)
      (new_instruction\<lparr>kind := MultipleTransferKind, load := True, rn := 1, registers := 6,
        inst_index := False\<rparr>) (set_reg 1 0xffc zero_state) (\<lambda>a. 7) None = Some (c, s', m', x') \<and>
    completion_reason c = stop_data_fault \<and> reg s' 1 = 0xffc \<and> cpsr s' = 0x10"
proof -
  let ?inst = "new_instruction\<lparr>kind := MultipleTransferKind, load := True, rn := 1, registers := 6,
      inst_index := False\<rparr>"
  let ?s = "set_reg 1 0xffc zero_state"
  have "case execute_memory (flat_source 0x1000) ?inst ?s (\<lambda>a. 7) None of
      None \<Rightarrow> False | Some (c, _) \<Rightarrow> completion_reason c = stop_data_fault" by code_simp
  then obtain c s' m' x' where run: "execute_memory (flat_source 0x1000) ?inst ?s (\<lambda>a. 7) None =
      Some (c, s', m', x')" and fault: "completion_reason c = stop_data_fault"
    by (auto split: option.splits)
  have ok: "operands_ok ?inst" "kind ?inst \<in> set memory_kinds" by code_simp+
  have "reg s' (rn ?inst) = reg ?s (rn ?inst) \<and> cpsr s' = cpsr ?s"
    using data_fault_restartable [OF run fault _ ok] by auto
  moreover have "reg ?s (rn ?inst) = 0xffc" "cpsr ?s = 0x10" by code_simp+
  ultimately have "reg s' 1 = 0xffc" "cpsr s' = 0x10" by simp_all
  with run fault show ?thesis by blast
qed

text \<open>The exception is real: LDRD r0, r1, [r0] is accepted, and when
  its second word faults the first has already overwritten the base that a restart needs.\<close>

lemma dual_load_loses_base:
  "case execute_memory (flat_source 0x1000)
      (decode_a32 0xe1c000d0 D32 Armv6T2 Vfpv3 NoDivide NoSimd) (set_reg 0 0xffc zero_state)
      (\<lambda>a. 7) None of
    None \<Rightarrow> False
  | Some (c, s', _) \<Rightarrow> completion_reason c = stop_data_fault \<and> reg s' 0 = 0x07070707"
  by code_simp

end
