(* ===== verification/Guest_Privilege.thy ===== *)
theory Guest_Privilege
  imports Memory_Transfers
begin

text \<open>
  What guest code cannot reach: the mode, interrupt-mask, Jazelle and reserved bits of its
  status register, through any instruction the interpreter executes.
\<close>

unbundle bit_operations_syntax

section \<open>The protected bits\<close>

text \<open>Mode (4:0), the F, I and A masks (8:6), and the reserved and J bits (24:20).\<close>

definition protected_mask :: u32 where
  "protected_mask = 0x01f001df"

definition same_protected :: "u32 \<Rightarrow> u32 \<Rightarrow> bool" where
  "same_protected c c' \<longleftrightarrow> c' AND protected_mask = c AND protected_mask"

lemma bit_protected_mask:
  "bit protected_mask n \<longleftrightarrow> n < 5 \<or> 6 \<le> n \<and> n < 9 \<or> 20 \<le> n \<and> n < 25"
proof -
  have m: "protected_mask = mask 5 OR push_bit 6 (mask 3) OR push_bit 20 (mask 5)"
    by (simp add: protected_mask_def mask_eq_exp_minus_1)
  show ?thesis unfolding m bit_or_iff bit_mask_iff bit_push_bit_iff by auto
qed

lemma same_protectedI:
  assumes "\<And>n. n < 5 \<or> 6 \<le> n \<and> n < 9 \<or> 20 \<le> n \<and> n < 25 \<Longrightarrow> bit c' n = bit c n"
  shows "same_protected c c'"
  unfolding same_protected_def
  by (rule bit_word_eqI) (use assms in \<open>auto simp: bit_and_iff bit_protected_mask\<close>)

lemma same_protected_refl [simp]: "same_protected c c"
  by (simp add: same_protected_def)

lemma same_protected_trans [trans]:
  "same_protected a b \<Longrightarrow> same_protected b c \<Longrightarrow> same_protected a c"
  by (simp add: same_protected_def)

named_theorems protected "updates of the status register that keep the protected bits"

lemma protected_alu [protected]:
  "same_protected c (alu_cpsr (calculate_alu op flags a sh c))"
  by (rule same_protectedI, cases flags) (auto simp: flag_simps calculate_alu_plain)

lemma protected_parallel [protected]:
  "same_protected c (alu_cpsr (parallel_arithmetic inst a b c))"
proof -
  have some: "same_protected c (alu_cpsr (parallel_arithmetic inst a b c))"
    if "parallel_operation_of (opcode inst) = Some op" "op \<noteq> ParSelect" for op inst
    by (rule same_protectedI) (auto simp: parallel_arithmetic_status [OF that])
  show ?thesis
  proof (cases "parallel_operation_of (opcode inst)")
    case None
    let ?inst = "inst\<lparr>opcode := 4\<rparr>"
    have op: "parallel_operation_of (opcode ?inst) = Some ParAdd8"
      by (simp add: parallel_operation_of_def parallel_operations_def)
    have sign: "inst_sign_extend ?inst = inst_sign_extend inst" by simp
    have layout: "parallel_arithmetic_layout None = parallel_arithmetic_layout (Some ParAdd8)" by simp
    have "parallel_arithmetic inst a b c = parallel_arithmetic ?inst a b c"
      unfolding parallel_arithmetic_def op None Let_def layout sign
      by (simp only: option.simps parallel_operation.simps if_False)
    then show ?thesis using some [OF op] by simp
  next
    case (Some op)
    then show ?thesis
    proof (cases "op = ParSelect")
      case True
      show ?thesis
        unfolding parallel_arithmetic_def Let_def Some True
        by (simp only: simp_thms if_True alu_result.simps same_protected_refl)
    qed (rule some [OF Some])
  qed
qed

lemma protected_q [protected]: "same_protected c (c OR push_bit 27 1)"
  by (rule same_protectedI) (auto simp only: bit_set_q)

lemma protected_saturate [protected]: "same_protected c (snd (saturate v n s c))"
  by (rule same_protectedI) (auto simp: bit_saturate)

lemma protected_saturating [protected]:
  "same_protected c (alu_cpsr (saturating_arithmetic inst a b c))"
proof -
  have q: "same_protected c (snd (saturate v n s c'))" if "same_protected c c'" for v n s c'
    using that protected_saturate by (rule same_protected_trans)
  show ?thesis
    by (auto simp: saturating_arithmetic_def Let_def split_beta intro!: q)
qed

lemma protected_nz: "same_protected c (multiply_nz inst c v)"
proof -
  define top :: u32 where "top = ucast (if multiply_writes_pair (multiply_operation_of (opcode inst))
    then drop_bit 32 v else v)"
  have eq: "multiply_nz inst c v = (c AND mask 30) OR (top AND 2 ^ 31) OR (if v = 0 then 2 ^ 30 else 0)"
    by (simp add: multiply_nz_def Let_def mask_eq_exp_minus_1 top_def)
  show ?thesis
    unfolding eq by (rule same_protectedI, subst masked_flags_bits) auto
qed

lemma protected_multiply_q: "same_protected c (multiply_q c v)"
  by (rule same_protectedI) (auto simp: multiply_q_bits)

lemma protected_multiply [protected]:
  "same_protected c (mul_cpsr (calculate_multiply inst a b low high c))"
  by (auto simp: calculate_multiply_def dual_halfword_multiply_def Let_def protected_nz
      protected_multiply_q)

text \<open>Replacing bits outside the mask.\<close>

lemma protected_replace:
  assumes "k AND protected_mask = protected_mask" "x AND protected_mask = 0"
  shows "same_protected c ((c AND k) OR x)"
  using assms unfolding same_protected_def
  by (simp add: word_ao_dist and.assoc)

lemma protected_masked:
  assumes "m AND protected_mask = 0"
  shows "same_protected c ((c AND NOT m) OR (v AND m))"
proof (rule protected_replace)
  have off: "\<not> (bit m n \<and> bit protected_mask n)" for n
    using assms by (simp flip: bit_and_iff)
  show "NOT m AND protected_mask = protected_mask"
    by (rule bit_word_eqI) (use off in \<open>auto simp: bit_and_iff bit_not_iff\<close>)
  show "(v AND m) AND protected_mask = 0" using assms by (simp add: and.assoc)
qed

lemma thumb_bit_unprotected [simp]: "push_bit 5 (v AND 1) AND protected_mask = 0"
  by (rule bit_word_eqI)
    (simp only: bit_and_iff bit_push_bit_iff bit_1_iff bit_protected_mask bit_0_eq, auto)

lemma protected_thumb [protected]:
  "same_protected c ((c AND NOT (push_bit 5 1)) OR push_bit 5 (v AND 1))"
  "same_protected c ((c AND NOT 0x20) OR push_bit 5 (v AND 1))"
  "same_protected c ((c AND NOT 0x20) OR (if b then 0x20 else 0))"
  by (rule protected_replace [OF _ thumb_bit_unprotected], code_simp)
    (rule protected_replace [OF _ thumb_bit_unprotected], code_simp,
      rule protected_replace, code_simp, simp add: protected_mask_def)

lemma protected_masks [simp]:
  "- 33 AND protected_mask = protected_mask" "0x0fffffff AND protected_mask = protected_mask"
  "32 AND protected_mask = 0" "(v AND 32) AND protected_mask = 0"
  "(v AND 0xf0000000) AND protected_mask = 0"
  by (simp_all add: protected_mask_def and.assoc)

lemma same_protected_replace [simp]:
  "k AND protected_mask = protected_mask \<Longrightarrow> x AND protected_mask = 0 \<Longrightarrow>
    same_protected c ((c' AND k) OR x) = same_protected c c'"
  "k AND protected_mask = protected_mask \<Longrightarrow> same_protected c (c' AND k) = same_protected c c'"
  by (simp_all add: same_protected_def word_ao_dist and.assoc)

lemma protected_exchange [protected]: "same_protected c (c XOR 0x20)"
  unfolding same_protected_def bit.conj_xor_distrib2 by (simp add: protected_mask_def)

lemma protected_nzcv [protected]: "same_protected c ((c AND 0x0fffffff) OR (v AND 0xf0000000))"
  by (rule protected_replace) (simp_all add: protected_mask_def and.assoc)

lemma protected_msr [protected]:
  "same_protected c ((c AND NOT (program_status_write_mask bytes)) OR
    (v AND program_status_write_mask bytes))"
  by (rule protected_masked)
    (simp add: program_status_write_mask_def protected_mask_def word_ao_dist)

lemma protected_it [protected]: "same_protected c (with_it_state c v)"
  by (rule same_protectedI) (auto simp: bit_with_it_state)

section \<open>Instructions\<close>

text \<open>A state change that guest code may make: the register arrays keep their sizes and the
  protected bits their values.\<close>

definition kept :: "cpu_state \<Rightarrow> cpu_state \<Rightarrow> bool" where
  "kept s s' \<longleftrightarrow> (state_ok s \<longrightarrow> state_ok s') \<and> same_protected (cpsr s) (cpsr s')"

lemma kept_refl [simp]: "kept s s"
  by (simp add: kept_def)

lemma kept_trans: "kept a b \<Longrightarrow> kept b c \<Longrightarrow> kept a c"
  by (auto simp: kept_def intro: same_protected_trans)

lemma kept_updates [simp]:
  "kept s (set_reg r v s') = kept s s'" "kept s (set_ext_reg r v s') = kept s s'"
  "kept s (s'\<lparr>fpscr := f\<rparr>) = kept s s'" "kept s (abort_transfer a s') = kept s s'"
  "kept s (s'\<lparr>thread_pointer_user_rw := f\<rparr>) = kept s s'"
  "kept (set_reg r v s) s' = kept s s'" "kept (set_ext_reg r v s) s' = kept s s'"
  by (simp_all add: kept_def)

lemma kept_cpsr:
  "kept s s' \<Longrightarrow> same_protected (cpsr s') c \<Longrightarrow> kept s (s'\<lparr>cpsr := c\<rparr>)"
  by (auto simp: kept_def intro: same_protected_trans)

lemma kept_fold:
  assumes "\<And>x s. kept s (f x s)"
  shows "kept s (fold f xs s)"
proof (induction xs arbitrary: s)
  case (Cons x xs)
  then show ?case using assms [of s x] kept_trans by (auto simp: o_def)
qed simp

lemma kept_system: "kept s (execute_system inst s)"
  by (auto simp: execute_system_def Let_def kept_cpsr protected split: system_operation.split)

lemma kept_branching: "kept s (execute_branching inst pc thumb target s)"
  by (auto simp: execute_branching_def Let_def intro!: kept_cpsr protected
      split: instruction_kind.split)

lemma kept_core:
  assumes "kind inst = DataProcessing \<Longrightarrow> same_protected (cpsr s) (alu_cpsr computed)"
  shows "kept s (execute_core inst pc thumb computed alu_target target s)"
  using assms
  by (auto simp: execute_core_def Let_def kept_system kept_branching
      intro!: kept_cpsr protected
      split: instruction_kind.split option.split)

lemma protected_data_processing: "same_protected (cpsr s) (alu_cpsr (data_processing s inst))"
  by (simp add: data_processing_def Let_def protected)

lemma kept_floating:
  "execute_floating sf profile inst s = Some s' \<Longrightarrow> kept s s'"
  by (auto simp: execute_floating_def execute_floating_system_def set_ext_value_def Let_def
      intro!: kept_cpsr protected split: instruction_kind.splits vector_operands.splits if_splits)

text \<open>Lane operations write only the extension bank, the FPSCR and core registers.\<close>

lemma kept_publish_words [simp]: "kept s (publish_words d quad ws s)"
  unfolding publish_words_def by (rule kept_fold) simp

lemma kept_lanes [simp]:
  "kept s (floating_vector sf vf s)" "kept s (convert_vector sf vc s)"
  "kept s (duplicate_vector vd s)" "kept s (immediate_vector vi s)"
  "kept s (bitwise_vector vb s)" "kept s (extract_vector ve s)"
  unfolding floating_vector_def convert_vector_def duplicate_vector_def immediate_vector_def
    bitwise_vector_def extract_vector_def Let_def
  by (rule kept_fold, simp)+

lemma kept_vector:
  "execute_vector sf inst s = Some s' \<Longrightarrow> kept s s'"
  by (auto simp: execute_vector_def move_core_vector_def integer_vector_def shift_vector_def
      reverse_vector_def Let_def split: instruction_kind.splits vector_operands.splits if_splits)

text \<open>Memory transfers.\<close>

lemma kept_dual_word:
  "dual_word mem is_load big a r v s m = (fault, s', m') \<Longrightarrow> kept s s'"
  by (auto simp: dual_word_def Let_def split: if_splits prod.splits option.splits)

lemma kept_dual: "complete_dual mem s m t = (c, s', m') \<Longrightarrow> kept s s'"
  by (auto simp: complete_dual_def Let_def dest!: kept_dual_word intro: kept_trans
      split: if_splits prod.splits option.splits)

lemma kept_retire_transfer: "kept s (retire_transfer s t v)"
  by (auto simp: retire_transfer_def Let_def intro!: kept_cpsr protected)

lemma kept_single: "complete_single mem s m t = (c, s', m') \<Longrightarrow> kept s s'"
  by (auto simp: complete_single_def Let_def kept_retire_transfer
      split: if_splits prod.splits option.splits)

lemma kept_transfer: "complete_transfer mem s m t = (c, s', m') \<Longrightarrow> kept s s'"
  by (auto simp: complete_transfer_def dest: kept_dual kept_single split: if_splits)

lemma kept_multiple_loop:
  "multiple_loop mem big t nums a target s m = (stop, target', s', m') \<Longrightarrow> kept s s'"
proof (induction nums arbitrary: a target s m)
  case (Cons r rest)
  show ?case
    using Cons.prems
    by (auto simp: Let_def dest!: Cons.IH split: if_splits prod.splits option.splits)
qed simp

lemma kept_multiple: "complete_multiple mem s m t = (c, s', m') \<Longrightarrow> kept s s'"
  by (auto simp: complete_multiple_def Let_def dest!: kept_multiple_loop
      intro!: kept_cpsr protected split: if_splits prod.splits option.splits)

lemma kept_exchange: "complete_exchange mem p s m t = (c, s', m') \<Longrightarrow> kept s s'"
  by (auto simp: complete_exchange_def Let_def split: if_splits prod.splits option.splits)

lemma kept_exclusive_access:
  "exclusive_access mem x s m t = (fault, s', x', m') \<Longrightarrow> kept s s'"
  by (auto simp: exclusive_access_def Let_def split: if_splits prod.splits option.splits)

lemma kept_retire_exclusive [simp]: "kept s (retire_exclusive_transfer t s') = kept s s'"
  by (simp add: retire_exclusive_transfer_def)

lemma kept_exclusive: "complete_exclusive mem p s m x t = (c, s', m', x') \<Longrightarrow> kept s s'"
  by (auto simp: complete_exclusive_def Let_def dest: kept_exchange kept_exclusive_access
      split: if_splits prod.splits option.splits)

lemma kept_vector_transfer: "complete_vector mem s m t = (c, s', m') \<Longrightarrow> kept s s'"
  by (auto simp: complete_vector_def Let_def same_core_def kept_def state_ok_def
      dest!: vector_loop_core split: if_splits prod.splits option.splits)

lemma kept_memory:
  "execute_memory src inst s m x = Some (c, s', m', x') \<Longrightarrow> kept s s'"
  by (auto simp: execute_memory_def Let_def
      dest: kept_transfer kept_multiple kept_exclusive kept_vector_transfer
      split: if_splits prod.splits vector_operands.splits)

end
