(* ===== verification/Interpreter_Safety.thy ===== *)
theory Interpreter_Safety
  imports Guest_Privilege
begin

text \<open>
  Properties of whole iterations and runs of the interpreter: no iteration raises an exception
  and none touches the protected state, whatever the code, the instruction source and the memory
  do.
\<close>

unbundle bit_operations_syntax

section \<open>Outcomes\<close>

text \<open>The machine of an outcome satisfies a predicate; nothing was raised.\<close>

definition within :: "(('m, 'x) machine \<Rightarrow> bool) \<Rightarrow> ('m, 'x) outcome \<Rightarrow> bool" where
  "within P r \<longleftrightarrow> (case r of Stopped c \<Rightarrow> P c | Running c \<Rightarrow> P c | Raised \<Rightarrow> False)"

lemma within_simps [simp]:
  "within P (Stopped c) = P c" "within P (Running c) = P c" "\<not> within P Raised"
  by (simp_all add: within_def)

lemma within_mono: "within P r \<Longrightarrow> (\<And>c. P c \<Longrightarrow> Q c) \<Longrightarrow> within Q r"
  by (cases r) simp_all

lemma within_if: "(b \<Longrightarrow> within P x) \<Longrightarrow> (\<not> b \<Longrightarrow> within P y) \<Longrightarrow> within P (if b then x else y)"
  by simp

text \<open>The machine \<open>c'\<close> continues from the thread state \<open>s\<close> of an earlier machine.\<close>

definition continues :: "cpu_state \<Rightarrow> ('m, 'x) machine \<Rightarrow> bool" where
  "continues s c' \<longleftrightarrow> kept s (mc_state c')"

lemma continues_simps [simp]:
  "continues s (c\<lparr>mc_result := r\<rparr>) = continues s c"
  "continues s (c\<lparr>mc_memory := m\<rparr>) = continues s c"
  "continues s (c\<lparr>mc_lease := l\<rparr>) = continues s c"
  "continues s (c\<lparr>mc_instructions := n\<rparr>) = continues s c"
  "continues s (c\<lparr>mc_monitor := x\<rparr>) = continues s c"
  "continues s (c\<lparr>mc_state := s'\<rparr>) = kept s s'"
  "continues (mc_state c) c"
  by (simp_all add: continues_def)

lemma within_stop [simp]:
  "within (continues s) (stop_machine reason c) = continues s c"
  "within (continues s) (stop_with_fault reason f c) = continues s c"
  "within (continues s) (fetch_fault f c) = continues s c"
  by (simp_all add: stop_machine_def stop_with_fault_def fetch_fault_def)

section \<open>One iteration\<close>

lemma kept_advance: "kept s s' \<Longrightarrow> kept s (advance_state inst passed thumb it pc target s')"
  by (auto simp: advance_state_def Let_def intro!: kept_cpsr protected)

lemma continues_retire:
  "continues s c \<Longrightarrow>
    within (continues s) (retire_instruction req inst passed thumb it target ticks c)"
  by (auto simp: retire_instruction_def Let_def continues_def stop_machine_def
      intro!: kept_advance)

lemma continues_architectural:
  "architectural_stop req inst thumb it ticks c = Some c' \<Longrightarrow> continues s c \<Longrightarrow> continues s c'"
  by (auto simp: architectural_stop_def Let_def continues_def intro!: kept_cpsr protected
      split: if_splits)

lemma variant_floating:
  assumes "variant_matches (kind inst) (vector inst)" "kind inst \<in> set floating_kinds"
  shows "execute_floating sf profile inst s \<noteq> None"
  using assms(2,1) unfolding floating_kinds_def set_simps
  by (elim insertE emptyE; cases "vector inst"; simp add: execute_floating_def Let_def)

lemma variant_vector:
  assumes "variant_matches (kind inst) (vector inst)" "kind inst \<in> set vector_kinds"
  shows "execute_vector sf inst s \<noteq> None"
  using assms(2,1) unfolding vector_kinds_def set_simps
  by (elim insertE emptyE; cases "vector inst"; simp add: execute_vector_def)

lemma variant_memory:
  assumes "variant_matches (kind inst) (vector inst)"
  shows "execute_memory src inst s m x \<noteq> None"
proof (cases "kind inst = VectorTransferKind")
  case True
  with assms show ?thesis
    by (cases "vector inst") (simp_all add: execute_memory_def Let_def split_beta exclusive_kinds_def)
next
  case False
  then show ?thesis by (simp add: execute_memory_def Let_def split_beta del: split_paired_Ex)
qed

lemma variant_controls:
  assumes "variant_matches (kind inst) (vector inst)"
  shows "floating_disabled inst s \<noteq> None"
proof (cases "kind inst = FloatingArithmetic")
  case True
  with assms show ?thesis by (cases "vector inst") (simp_all add: floating_disabled_def)
next
  case False
  then show ?thesis by (cases "kind inst") (simp_all add: floating_disabled_def)
qed

lemma continues_execute:
  assumes v: "variant_matches (kind inst) (vector inst)" and c: "continues s c"
    and alu: "kind inst = DataProcessing \<Longrightarrow> same_protected (cpsr (mc_state c)) (alu_cpsr computed)"
  shows "within (continues s)
    (execute_instruction sf src req inst thumb it computed alu_target target ticks c)"
proof -
  have k: "kept s s'" if "kept (mc_state c) s'" for s'
    using c that kept_trans by (auto simp: continues_def)
  have run: "within (continues s) (retire_instruction req inst True thumb it target ticks
      (c'\<lparr>mc_state := s'\<rparr>))" if "kept (mc_state c) s'" for c' s'
    using k [OF that] by (intro continues_retire) simp
  consider (memory) "kind inst \<in> set memory_kinds"
    | (floating) "kind inst \<notin> set memory_kinds" "kind inst \<in> set floating_kinds"
    | (vector) "kind inst \<notin> set memory_kinds" "kind inst \<notin> set floating_kinds"
        "kind inst \<in> set vector_kinds"
    | (core) "kind inst \<notin> set memory_kinds" "kind inst \<notin> set floating_kinds"
        "kind inst \<notin> set vector_kinds"
    by blast
  then show ?thesis
  proof cases
    case memory
    obtain ending s' m' x' where m: "execute_memory src inst (mc_state c) (mc_memory c)
        (mc_monitor c) = Some (ending, s', m', x')"
      using variant_memory [OF v] by (metis option.exhaust prod_cases4)
    then have "kept s s'" by (intro k kept_memory)
    then show ?thesis
      using memory by (simp add: execute_instruction_def m Let_def continues_retire)
  next
    case floating
    obtain s' where f: "execute_floating sf (src_exceptions src) inst (mc_state c) = Some s'"
      using variant_floating [OF v floating(2)] by blast
    then show ?thesis
      using floating run [OF kept_floating [OF f], of c] by (simp add: execute_instruction_def f)
  next
    case vector
    obtain s' where f: "execute_vector sf inst (mc_state c) = Some s'"
      using variant_vector [OF v vector(3)] by blast
    then show ?thesis
      using vector run [OF kept_vector [OF f], of c] by (simp add: execute_instruction_def f)
  next
    case core
    have "kept (mc_state c) (execute_core inst (rr_pc (mc_result c)) thumb computed alu_target
        target (mc_state c))"
      by (rule kept_core) (rule alu)
    note either = run [OF this, of c] run [OF this, of "c\<lparr>mc_lease := (mc_lease c)\<lparr>ls_held := False\<rparr>\<rparr>"]
    show ?thesis
      using core either by (auto simp: execute_instruction_def Let_def)
  qed
qed

lemma decoded_variant: "decoded_ok inst \<Longrightarrow> variant_matches (kind inst) (vector inst)"
  by (auto simp: decoded_ok_def operands_ok_def)

lemma continues_dispatch:
  assumes inst: "decoded_ok inst" and c: "continues s c"
  shows "within (continues s) (dispatch_instruction sf src req inst word thumb it c)"
proof -
  note v = decoded_variant [OF inst]
  have execute: "within (continues s) (execute_instruction sf src req inst thumb it
      (if condition_passed (condition inst) (cpsr (mc_state c)) \<and> kind inst = DataProcessing
       then data_processing (mc_state c) inst else \<lparr>alu_value = 0, alu_cpsr = 0\<rparr>)
      alu_target target ticks c)"
    if "condition_passed (condition inst) (cpsr (mc_state c))" for alu_target target ticks
    using that by (intro continues_execute [OF v c]) (simp add: protected_data_processing)
  have stop: "within (continues s) (case architectural_stop req inst thumb it ticks c of
      Some c \<Rightarrow> Stopped c | None \<Rightarrow> r)" if "within (continues s) r" for ticks r
    using that continues_architectural [OF _ c] by (auto split: option.split)
  have controls: "\<not> (b \<and> floating_disabled inst (mc_state c) = None)" for b
    using variant_controls [OF v] by blast
  show ?thesis
    unfolding dispatch_instruction_def Let_def
    by (intro within_if stop execute)
      (simp_all only: controls simp_thms within_stop c continues_retire [OF c])
qed

definition fetched :: "cpu_state \<Rightarrow> ('m, 'x) outcome + (u32 \<times> instruction \<times> ('m, 'x) machine) \<Rightarrow> bool" where
  "fetched s r \<longleftrightarrow> (case r of Inl stop \<Rightarrow> within (continues s) stop
    | Inr (word, inst, c) \<Rightarrow> decoded_ok inst \<and> continues s c)"

lemma fetched_thumb: "continues s c \<Longrightarrow> fetched s (fetch_thumb src reuse pc it c)"
  by (simp add: fetched_def fetch_thumb_def Let_def decode_t32_ok split: option.split prod.split)

lemma fetched_arm: "continues s c \<Longrightarrow> fetched s (fetch_arm src pc c)"
  by (simp add: fetched_def fetch_arm_def Let_def decode_a32_ok split: option.split)

lemma continues_acquire:
  "continues s c \<Longrightarrow> continues s (snd (acquire_lease src reuse thumb pc c))"
  by (simp add: acquire_lease_def split_beta)

lemma continues_note: "continues s (note_lease src reuse pc c) = continues s c"
  by (simp add: note_lease_def Let_def)

lemma continues_next:
  assumes c: "continues s c"
  shows "within (continues s) (execute_next sf src req thumb it pc c)"
proof -
  have fetch: "within (continues s) (case (if thumb then fetch_thumb src reuse pc it c'
        else fetch_arm src pc c') of
      Inl stop \<Rightarrow> stop
    | Inr (word, inst, c) \<Rightarrow> dispatch_instruction sf src req inst word thumb it
        (note_lease src reuse pc (c\<lparr>mc_result := (mc_result c)\<lparr>rr_instruction := Some word\<rparr>\<rparr>)))"
    if c': "continues s c'" for reuse c'
    using fetched_thumb [OF c', of src reuse pc it] fetched_arm [OF c', of src pc]
    by (auto simp: fetched_def continues_note intro!: continues_dispatch split: sum.splits if_splits)
  obtain fault c' where a: "acquire_lease src (lease_reusable src (mc_lease c) thumb pc) thumb pc c =
      (fault, c')" by force
  then have "continues s c'" using continues_acquire [OF c] by (metis snd_conv)
  then show ?thesis
    unfolding execute_next_def Let_def a prod.case by (cases fault) (simp_all add: fetch)
qed

lemma step_continues: "within (continues (mc_state c)) (step sf src req limit p c)"
  unfolding step_def Let_def by (intro within_if continues_next) simp_all

lemma run_loop_continues: "within (continues (mc_state c)) (run_loop fuel sf src req limit polls c)"
proof (induction fuel arbitrary: polls c)
  case (Suc fuel)
  have step: "within (continues (mc_state c)) (step sf src req limit (polls 0) c)"
    by (rule step_continues)
  show ?case
  proof (cases "step sf src req limit (polls 0) c")
    case (Running c')
    then have "kept (mc_state c) (mc_state c')" using step by (simp add: continues_def)
    then have "continues (mc_state c') d \<Longrightarrow> continues (mc_state c) d" for d :: "('a, 'b) machine"
      using kept_trans by (auto simp: continues_def)
    then show ?thesis using Running within_mono [OF Suc.IH [of c']] by simp
  qed (use step in simp_all)
qed simp

section \<open>Whole runs\<close>

text \<open>C1. Whatever program, memory, instruction source and stop requests it is given, a run of
  the interpreter never reaches a mismatched operand variant, and however and whenever it ends
  the register files have their sizes and the guest has not changed its processor mode, its
  interrupt masks or any reserved bit of its status register.\<close>
theorem guest_stays_unprivileged:
  assumes "state_ok s"
  shows "case run_slice fuel sf src req polls limit ticks s m monitor of
      Raised \<Rightarrow> False
    | Stopped c \<Rightarrow> state_ok (mc_state c) \<and>
        cpsr (mc_state c) AND 0x01f001df = cpsr s AND 0x01f001df
    | Running c \<Rightarrow> state_ok (mc_state c) \<and>
        cpsr (mc_state c) AND 0x01f001df = cpsr s AND 0x01f001df"
  using run_loop_continues [of "start_machine src s m monitor ticks" fuel sf src req limit polls] assms
  by (auto simp: run_slice_def start_machine_def continues_def kept_def same_protected_def
      protected_mask_def split: outcome.split)

text \<open>A program that tries to enter supervisor mode (MSR CPSR_fsxc, #0x13).\<close>

definition plain_request :: "u64 \<Rightarrow> run_request" where
  "plain_request budget = \<lparr>rq_tick_budget = budget, rq_single_step = False,
    rq_block_end_pc = None, rq_stop_at_control_flow = False\<rparr>"

definition no_poll :: "nat \<Rightarrow> poll" where
  "no_poll n = \<lparr>poll_stops = 0, poll_deadline = False\<rparr>"

theorem guest_stays_unprivileged_witness:
  "\<forall>sf. case run_slice 4 sf (flat_source 0x1000) (plain_request 3) no_poll 100 0 zero_state
      (program_at 0 [0xe32ff013, 0xe3a01001, 0xef000080]) None of
    Raised \<Rightarrow> False
  | Stopped c \<Rightarrow> state_ok (mc_state c) \<and> cpsr (mc_state c) AND 0x01f001df = 0x10
  | Running c \<Rightarrow> state_ok (mc_state c) \<and> cpsr (mc_state c) AND 0x01f001df = 0x10"
proof -
  have "cpsr zero_state AND 0x01f001df = 0x10" by (simp add: zero_state_def)
  note start = this
  show ?thesis
    by (intro allI) (rule guest_stays_unprivileged [OF zero_state_ok, unfolded start])
qed

section \<open>Progress\<close>

text \<open>An iteration that starts with \<open>n\<close> ticks and \<open>k\<close> instructions either stops, with
  the ticks not wrapped around, or goes round in run mode with more ticks and one more
  instruction.\<close>

definition progress :: "run_request \<Rightarrow> u64 \<Rightarrow> u64 \<Rightarrow> ('m, 'x) outcome \<Rightarrow> bool" where
  "progress req n k r \<longleftrightarrow>
    (case r of
       Stopped c \<Rightarrow> n \<le> rr_ticks (mc_result c) \<and> mc_instructions c = k
     | Running c \<Rightarrow> \<not> rq_single_step req \<and> n < rr_ticks (mc_result c) \<and> mc_instructions c = k + 1
     | Raised \<Rightarrow> True)"

text \<open>The counters of a machine that has not retired the current instruction.\<close>

definition counts :: "u64 \<Rightarrow> u64 \<Rightarrow> ('m, 'x) machine \<Rightarrow> bool" where
  "counts n k c \<longleftrightarrow> rr_ticks (mc_result c) = n \<and> mc_instructions c = k"

lemma counts_simps [simp]:
  "counts n k (c\<lparr>mc_state := s\<rparr>) = counts n k c" "counts n k (c\<lparr>mc_memory := m\<rparr>) = counts n k c"
  "counts n k (c\<lparr>mc_monitor := x\<rparr>) = counts n k c" "counts n k (c\<lparr>mc_lease := l\<rparr>) = counts n k c"
  by (simp_all add: counts_def)

lemma progress_stops:
  "counts n k c \<Longrightarrow> progress req n k (Stopped c)" "progress req n k Raised"
  "counts n k c \<Longrightarrow> progress req n k (stop_machine reason c)"
  "counts n k c \<Longrightarrow> progress req n k (stop_with_fault reason f c)"
  "counts n k c \<Longrightarrow> progress req n k (fetch_fault f c)"
  by (simp_all add: progress_def counts_def stop_machine_def stop_with_fault_def fetch_fault_def)

lemma progress_if:
  "(b \<Longrightarrow> progress req n k x) \<Longrightarrow> (\<not> b \<Longrightarrow> progress req n k y) \<Longrightarrow>
    progress req n k (if b then x else y)"
  by simp

lemma progress_option:
  "(\<And>x. a = Some x \<Longrightarrow> progress req n k (f x)) \<Longrightarrow> progress req n k r \<Longrightarrow>
    progress req n k (case a of Some x \<Rightarrow> f x | None \<Rightarrow> r)"
  by (cases a) simp_all

lemma progress_prod:
  "(\<And>x y. progress req n k (f x y)) \<Longrightarrow> progress req n k (case z of (x, y) \<Rightarrow> f x y)"
  by (cases z) simp

lemma ticks_added:
  fixes t n :: u64
  assumes "t \<noteq> 0" "\<not> - 1 - n < t"
  shows "n < n + t"
proof -
  have "unat (- 1 - n) = 2 ^ 64 - 1 - unat n"
    by (simp add: unat_sub unsigned_minus_1_eq_mask mask_eq_exp_minus_1)
  then have "unat n + unat t < 2 ^ 64"
    using assms(2) unat_u64_less [of n] by (simp add: word_less_nat_alt)
  then have "unat (n + t) = unat n + unat t" by (simp add: unat_word_ariths)
  then show ?thesis using assms(1) by (simp add: word_less_nat_alt unat_gt_0)
qed

lemma progress_retire:
  assumes "ticks \<noteq> 0" "\<not> - 1 - n < ticks" "counts n k c"
  shows "progress req n k (retire_instruction req inst passed thumb it target ticks c)"
  using ticks_added [OF assms(1,2)] less_imp_le [OF ticks_added [OF assms(1,2)]] assms(3)
  by (simp add: retire_instruction_def Let_def progress_def counts_def stop_machine_def)

lemma progress_architectural:
  assumes "architectural_stop req inst thumb it ticks c = Some c'"
    and "ticks \<noteq> 0" "\<not> - 1 - n < ticks" "counts n k c"
  shows "progress req n k (Stopped c')"
  using less_imp_le [OF ticks_added [OF assms(2,3)]] assms(1,4)
  by (auto simp: architectural_stop_def Let_def progress_def counts_def split: if_splits)

lemma progress_execute:
  assumes "ticks \<noteq> 0" "\<not> - 1 - n < ticks" "counts n k c"
  shows "progress req n k
    (execute_instruction sf src req inst thumb it computed alu_target target ticks c)"
  unfolding execute_instruction_def Let_def
  by (intro progress_if progress_option progress_prod progress_retire progress_stops;
      simp add: assms)

lemma progress_dispatch:
  assumes c: "counts n k c"
  shows "progress req n k (dispatch_instruction sf src req inst word thumb it c)"
proof -
  have n: "rr_ticks (mc_result c) = n" using c by (simp add: counts_def)
  show ?thesis
    unfolding dispatch_instruction_def Let_def n
    by (intro progress_if progress_option progress_retire progress_execute
        progress_stops(2) progress_stops(3) [OF c] c; (erule progress_architectural [OF _ _ _ c])?; blast)
qed

lemma counts_fetch:
  "counts n k c \<Longrightarrow> fetch_thumb src reuse pc it c = Inr (word, inst, c') \<Longrightarrow> counts n k c'"
  "counts n k c \<Longrightarrow> fetch_arm src pc c = Inr (word, inst, c') \<Longrightarrow> counts n k c'"
  "counts n k c \<Longrightarrow> acquire_lease src reuse thumb pc c = (fault, c') \<Longrightarrow> counts n k c'"
  by (auto simp: fetch_thumb_def fetch_arm_def acquire_lease_def Let_def
      split: option.splits prod.splits if_splits)

lemma progress_fetch:
  "counts n k c \<Longrightarrow> fetch_thumb src reuse pc it c = Inl r \<Longrightarrow> progress req n k r"
  "counts n k c \<Longrightarrow> fetch_arm src pc c = Inl r \<Longrightarrow> progress req n k r"
  by (auto simp: fetch_thumb_def fetch_arm_def Let_def intro!: progress_stops
      split: option.splits prod.splits if_splits)

lemma counts_note:
  "counts n k c \<Longrightarrow> counts n k (note_lease src reuse pc
    (c\<lparr>mc_result := (mc_result c)\<lparr>rr_instruction := w\<rparr>\<rparr>))"
  by (simp add: note_lease_def Let_def counts_def)

lemma progress_next:
  assumes c: "counts n k c"
  shows "progress req n k (execute_next sf src req thumb it pc c)"
proof -
  obtain fault c' where a: "acquire_lease src (lease_reusable src (mc_lease c) thumb pc) thumb pc c =
      (fault, c')" by force
  note c' = counts_fetch(3) [OF c a]
  show ?thesis
    unfolding execute_next_def Let_def a prod.case
    by (intro progress_option progress_stops c')
      (auto intro!: progress_dispatch counts_note dest: progress_fetch [OF c'] counts_fetch(1,2) [OF c']
        split: sum.split)
qed

lemma progress_step:
  assumes c: "counts n k c"
  shows "progress req n k (step sf src req limit p c)"
    and "step sf src req limit p c = Running c' \<Longrightarrow> n < rq_tick_budget req \<and> k \<noteq> limit"
proof -
  let ?c = "c\<lparr>mc_result := (mc_result c)\<lparr>rr_pc := reg (mc_state c) 15, rr_instruction := None,
    rr_fault := None, rr_reason := poll_reason req p (rr_ticks (mc_result c))\<rparr>\<rparr>"
  have c1: "counts n k ?c" using c by (simp add: counts_def)
  show p: "progress req n k (step sf src req limit p c)"
    unfolding step_def Let_def
    by (intro progress_if progress_next progress_stops c1)
  show "n < rq_tick_budget req \<and> k \<noteq> limit" if run: "step sf src req limit p c = Running c'"
    using run p c
    by (auto simp: step_def Let_def stop_machine_def counts_def poll_reason_def stop_defs
        progress_def not_less or_eq_0_iff split: if_splits)
qed

lemma run_loop_ends:
  assumes "counts n k c" "unat (rq_tick_budget req) - unat n < fuel" "k \<le> limit"
  shows "\<exists>c'. run_loop fuel sf src req limit polls c = Stopped c' \<and> n \<le> rr_ticks (mc_result c') \<and>
    mc_instructions c' \<le> limit"
  using assms
proof (induction fuel arbitrary: polls c n k)
  case (Suc fuel)
  note p = progress_step(1) [OF Suc.prems(1), of req sf src limit "polls 0"]
  have raised: "step sf src req limit (polls 0) c \<noteq> Raised"
    using step_continues [of c sf src req limit "polls 0"] by auto
  show ?case
  proof (cases "step sf src req limit (polls 0) c")
    case (Stopped c')
    then show ?thesis using p Suc.prems(3) by (simp add: progress_def)
  next
    case (Running c')
    then have run: "n < rr_ticks (mc_result c')" "mc_instructions c' = k + 1"
      and go: "n < rq_tick_budget req" "k \<noteq> limit"
      using p progress_step(2) [OF Suc.prems(1) Running] by (auto simp: progress_def)
    then have "k < limit" using Suc.prems(3) by simp
    then have "k + 1 \<le> limit" by (rule inc_le)
    moreover have "unat (rq_tick_budget req) - unat (rr_ticks (mc_result c')) < fuel"
      using run(1) go(1) Suc.prems(2) by (simp add: word_less_nat_alt)
    ultimately obtain d where "run_loop fuel sf src req limit (\<lambda>n. polls (Suc n)) c' = Stopped d"
      "rr_ticks (mc_result c') \<le> rr_ticks (mc_result d)" "mc_instructions d \<le> limit"
      using Suc.IH [of "rr_ticks (mc_result c')" "k + 1" c'] run(2) by (auto simp: counts_def)
    then show ?thesis using Running run(1) by auto
  qed (use raised in simp)
qed simp

text \<open>C2. A run always ends. With more fuel than the ticks left of the budget the loop stops,
  whatever instructions it meets and whatever each costs; its tick count has not wrapped around and
  it has retired no more instructions than its limit.\<close>
theorem run_terminates:
  assumes "unat (rq_tick_budget req) - unat ticks < fuel"
  shows "\<exists>c. run_slice fuel sf src req polls limit ticks s m monitor = Stopped c \<and>
    ticks \<le> rr_ticks (mc_result c) \<and> mc_instructions c \<le> limit"
  unfolding run_slice_def
  by (rule run_loop_ends [OF _ assms, where k = 0])
    (simp_all add: counts_def start_machine_def word_coorder.extremum)

theorem run_terminates_witness:
  "\<forall>sf. \<exists>c. run_slice 4 sf (flat_source 0x1000) (plain_request 3) no_poll 100 0 zero_state
      (program_at 0 [0xeafffffe]) None = Stopped c \<and>
    0 \<le> rr_ticks (mc_result c) \<and> mc_instructions c \<le> 100"
  by (intro allI run_terminates) (simp add: plain_request_def)

end
