(* ===== verification/Restartable.thy ===== *)
theory Restartable
  imports Interpreter_Safety
begin

text \<open>
  What a stop leaves behind: an instruction that did not execute has not moved the program
  counter, and the caller can run it again.
\<close>

unbundle bit_operations_syntax

definition unmoved :: "cpu_state \<Rightarrow> cpu_state \<Rightarrow> bool" where
  "unmoved s s' \<longleftrightarrow> reg s' 15 = reg s 15 \<and> cpsr s' = cpsr s"

lemma unmoved_simps [simp]:
  "unmoved s s" "unmoved s (abort_transfer f s') = unmoved s s'"
  by (simp_all add: unmoved_def)

section \<open>Memory instructions\<close>

lemma unmoved_single:
  "complete_single mem s m t = (c, s', m') \<Longrightarrow> completion_reason c \<noteq> stop_none \<Longrightarrow> unmoved s s'"
  by (auto simp: complete_single_def Let_def split: if_splits prod.splits option.splits)

lemma unmoved_exchange:
  "complete_exchange mem p s m t = (c, s', m') \<Longrightarrow> completion_reason c \<noteq> stop_none \<Longrightarrow> unmoved s s'"
  by (auto simp: complete_exchange_def Let_def split: if_splits prod.splits option.splits)

lemma unmoved_exclusive:
  "complete_exclusive mem p s m x t = (c, s', m', x') \<Longrightarrow> completion_reason c \<noteq> stop_none \<Longrightarrow>
    unmoved s s'"
  by (auto simp: complete_exclusive_def Let_def dest: unmoved_exchange exclusive_access_fault
      split: if_splits prod.splits option.splits)

lemma unmoved_vector:
  "complete_vector mem s m t = (c, s', m') \<Longrightarrow> completion_reason c \<noteq> stop_none \<Longrightarrow> unmoved s s'"
  by (auto simp: complete_vector_def Let_def unmoved_def dest!: vector_loop_core same_core_reg
      split: if_splits prod.splits option.splits)

lemma unmoved_dual:
  assumes "complete_dual mem s m t = (c, s', m')" "completion_reason c \<noteq> stop_none" "state_ok s"
    and "drop_bit 8 (tr_control t) AND 15 \<noteq> 15"
  shows "unmoved s s'"
proof -
  have r: "drop_bit 8 (tr_control t) AND 15 < 16" by (rule and_field_less) simp
  have keep: "unmoved s (set_reg (drop_bit 8 (tr_control t) AND 15) v s)" for v
    using reg_set_reg [OF assms(3) r, of 15 v] assms(4) by (simp add: unmoved_def)
  show ?thesis
    using assms(1,2) keep
    by (auto simp: complete_dual_def dual_word_def Let_def split: if_splits prod.splits option.splits)
qed

lemma unmoved_multiple:
  assumes run: "complete_multiple mem s m t = (c, s', m')" and "completion_reason c \<noteq> stop_none"
    and ok: "state_ok s" and n: "drop_bit 20 (mt_control t) AND 15 \<noteq> 15"
  shows "unmoved s s'"
proof -
  have nums: "list_all (\<lambda>r. r < 16) register_numbers"
    by (simp add: register_numbers_def upt_rec)
  obtain stop target s1 m1 where loop: "multiple_loop mem (big_endian s) t register_numbers
      (mt_address t) (reg s 15) s m = (stop, target, s1, m1)" by (metis prod_cases4)
  show ?thesis
    using run assms(2) loop multiple_loop_frame [OF loop ok nums n]
      multiple_frame_stop(1) [OF ok n]
    by (cases stop) (auto simp: complete_multiple_def Let_def multiple_frame_def unmoved_def
        split: if_splits)
qed

lemma unmoved_memory:
  assumes run: "execute_memory src inst s m x = Some (c, s', m', x')"
    and refused: "completion_reason c \<noteq> stop_none"
    and ok: "state_ok s" "operands_ok inst" and kind: "kind inst \<in> set memory_kinds"
  shows "unmoved s s'"
proof -
  let ?off = "pc_store_offset (ma_direct (src_memory src) m)"
  consider (exclusive) "kind inst \<in> set exclusive_kinds"
    | (vector) "kind inst \<notin> set exclusive_kinds" "kind inst = VectorTransferKind"
    | (multiple) "kind inst \<notin> set exclusive_kinds" "kind inst = MultipleTransferKind"
    | (transfer) "kind inst \<notin> set exclusive_kinds" "kind inst \<noteq> VectorTransferKind"
        "kind inst \<noteq> MultipleTransferKind"
    by blast
  then show ?thesis
  proof cases
    case exclusive
    then show ?thesis
      using run refused by (auto simp: execute_memory_def Let_def dest: unmoved_exclusive)
  next
    case vector
    then show ?thesis
      using run refused by (auto simp: execute_memory_def Let_def dest: unmoved_vector
          split: vector_operands.splits prod.splits)
  next
    case multiple
    then have "rn inst \<noteq> 15" using ok(2) by (simp add: operands_ok_def memory_operands_ok_def)
    then have n: "drop_bit 20 (mt_control (prepare_multiple s inst ?off)) AND 15 \<noteq> 15"
      using prepare_multiple_fields(1) [OF ok(2) multiple(2)] by simp
    show ?thesis
      using run refused multiple unmoved_multiple [OF _ _ ok(1) n]
      by (auto simp: execute_memory_def Let_def split: if_splits prod.splits)
  next
    case transfer
    then have kinds: "kind inst \<in> set transfer_kinds"
      using kind by (auto simp: memory_kinds_def)
    let ?t = "prepare_transfer s inst ?off"
    note fields = transfer_fields [OF ok(2) kinds, of s ?off]
    consider "s' = s" | "complete_transfer (src_memory src) s m ?t = (c, s', m')"
      using run transfer by (auto simp: execute_memory_def Let_def split: if_splits prod.splits)
    then show ?thesis
    proof cases
      case 2
      show ?thesis
      proof (cases "kind inst = DualTransfer")
        case True
        then have "drop_bit 8 (tr_control ?t) AND 15 \<noteq> 15"
          using ok(2) fields(2) by (simp add: operands_ok_def memory_operands_ok_def)
        then show ?thesis
          using 2 True fields(10) unmoved_dual [OF _ refused ok(1)] by (simp add: complete_transfer_def)
      next
        case False
        then show ?thesis
          using 2 fields(10) unmoved_single [OF _ refused] by (simp add: complete_transfer_def)
      qed
    qed simp
  qed
qed

text \<open>The reasons a memory instruction can stop with.\<close>

definition known_completion :: "completion \<Rightarrow> bool" where
  "known_completion c \<longleftrightarrow> c = completed \<or> c = unsupported \<or> (\<exists>f. c = data_fault f)"

lemma known_simps [simp]:
  "known_completion completed" "known_completion unsupported" "known_completion (data_fault f)"
  by (auto simp: known_completion_def)

lemma known_transfer: "complete_transfer mem s m t = (c, s', m') \<Longrightarrow> known_completion c"
  by (auto simp: complete_transfer_def complete_single_def complete_dual_def Let_def
      split: if_splits prod.splits option.splits)

lemma known_multiple_loop:
  "multiple_loop mem big t nums a target s m = (Some c, target', s', m') \<Longrightarrow> known_completion c"
proof (induction nums arbitrary: a target s m)
  case (Cons r rest)
  show ?case
    using Cons.prems
    by (auto simp: Let_def dest!: Cons.IH split: if_splits prod.splits option.splits)
qed simp

lemma known_multiple: "complete_multiple mem s m t = (c, s', m') \<Longrightarrow> known_completion c"
  by (auto simp: complete_multiple_def Let_def dest!: known_multiple_loop
      split: if_splits prod.splits option.splits)

lemma known_vector: "complete_vector mem s m t = (c, s', m') \<Longrightarrow> known_completion c"
  by (auto simp: complete_vector_def Let_def split: if_splits prod.splits option.splits)

lemma known_exchange: "complete_exchange mem p s m t = (c, s', m') \<Longrightarrow> known_completion c"
  by (auto simp: complete_exchange_def Let_def split: if_splits prod.splits option.splits)

lemma known_exclusive: "complete_exclusive mem p s m x t = (c, s', m', x') \<Longrightarrow> known_completion c"
  by (auto simp: complete_exclusive_def Let_def dest: known_exchange
      split: if_splits prod.splits option.splits)

lemma known_memory:
  "execute_memory src inst s m x = Some (c, s', m', x') \<Longrightarrow> known_completion c"
  by (auto simp: execute_memory_def Let_def
      dest: known_transfer known_multiple known_exclusive known_vector
      split: if_splits prod.splits vector_operands.splits)

section \<open>Iterations\<close>

text \<open>The stops that retire their instruction.\<close>

definition retired_stops :: u32 where
  "retired_stops = stop_svc OR stop_single_step OR stop_breakpoint OR stop_backend_switch"

definition effect_stops :: u32 where
  "effect_stops = stop_data_fault OR stop_unsupported"

definition refused :: "cpu_state \<Rightarrow> u64 \<Rightarrow> ('m, 'x) machine \<Rightarrow> bool" where
  "refused s n c \<longleftrightarrow> unmoved s (mc_state c) \<and> rr_ticks (mc_result c) = n \<and>
    rr_pc (mc_result c) = reg s 15 \<and>
    (rr_reason (mc_result c) AND effect_stops = 0 \<longrightarrow> mc_state c = s)"

definition ends_refused :: "cpu_state \<Rightarrow> u64 \<Rightarrow> ('m, 'x) outcome \<Rightarrow> bool" where
  "ends_refused s n r \<longleftrightarrow>
    (case r of
       Stopped c \<Rightarrow> rr_reason (mc_result c) AND retired_stops = 0 \<longrightarrow> refused s n c
     | _ \<Rightarrow> True)"

text \<open>A machine about to execute its next instruction.\<close>

definition before :: "cpu_state \<Rightarrow> u64 \<Rightarrow> ('m, 'x) machine \<Rightarrow> bool" where
  "before s n c \<longleftrightarrow> mc_state c = s \<and> rr_ticks (mc_result c) = n \<and> rr_pc (mc_result c) = reg s 15"

lemma ends_refused_simps [simp]:
  "ends_refused s n (Running c)" "ends_refused s n Raised"
  by (simp_all add: ends_refused_def)

lemma before_stops:
  assumes "before s n c"
  shows "ends_refused s n (Stopped c)" "ends_refused s n (stop_machine reason c)"
    "ends_refused s n (fetch_fault f c)"
  using assms
  by (simp_all add: ends_refused_def before_def refused_def stop_machine_def fetch_fault_def)

lemma ends_if:
  "(b \<Longrightarrow> ends_refused s n x) \<Longrightarrow> (\<not> b \<Longrightarrow> ends_refused s n y) \<Longrightarrow> ends_refused s n (if b then x else y)"
  by simp

lemma ends_option:
  "(\<And>x. a = Some x \<Longrightarrow> ends_refused s n (f x)) \<Longrightarrow> ends_refused s n r \<Longrightarrow>
    ends_refused s n (case a of Some x \<Rightarrow> f x | None \<Rightarrow> r)"
  by (cases a) simp_all

lemma ends_retire: "ends_refused s n (retire_instruction req inst passed thumb it target ticks c)"
  by (simp add: retire_instruction_def Let_def stop_machine_def ends_refused_def retired_stops_def
      stop_defs)

lemma ends_architectural:
  assumes "architectural_stop req inst thumb it ticks c = Some c'"
  shows "ends_refused s n (Stopped c')"
  using assms
  by (auto simp: architectural_stop_def Let_def ends_refused_def retired_stops_def stop_defs
      split: if_splits)

lemma memory_kind_ok:
  assumes "decoded_ok inst" "kind inst \<in> set memory_kinds"
  shows "operands_ok inst"
  using assms by (auto simp: decoded_ok_def memory_kinds_def transfer_kinds_def exclusive_kinds_def)

lemma ends_execute:
  assumes inst: "decoded_ok inst" and c: "before s n c" and ok: "state_ok s"
  shows "ends_refused s n
    (execute_instruction sf src req inst thumb it computed alu_target target ticks c)"
proof (cases "kind inst \<in> set memory_kinds")
  case True
  have s: "mc_state c = s" using c by (simp add: before_def)
  have stop: "ends_refused s n (stop_with_fault (completion_reason ending) (completion_fault ending)
      (c\<lparr>mc_state := s', mc_memory := m', mc_monitor := x', mc_lease := l\<rparr>))"
    if "execute_memory src inst s (mc_memory c) (mc_monitor c) = Some (ending, s', m', x')"
      "completion_reason ending \<noteq> stop_none" for s' m' x' l ending
  proof -
    have "unmoved s s'" by (rule unmoved_memory [OF that ok memory_kind_ok [OF inst True] True])
    moreover have "completion_reason ending AND effect_stops \<noteq> 0"
      using known_memory [OF that(1)] that(2)
      by (auto simp: known_completion_def effect_stops_def stop_defs)
    ultimately show ?thesis
      using c by (simp add: ends_refused_def refused_def stop_with_fault_def before_def)
  qed
  show ?thesis
    using True by (auto simp: execute_instruction_def Let_def s ends_retire stop split: option.split)
next
  case False
  then show ?thesis
    unfolding execute_instruction_def Let_def
    by (auto simp: ends_retire split: option.split)
qed

lemma ends_dispatch:
  assumes inst: "decoded_ok inst" and c: "before s n c" and ok: "state_ok s"
  shows "ends_refused s n (dispatch_instruction sf src req inst word thumb it c)"
  unfolding dispatch_instruction_def Let_def
  by (intro ends_if ends_option ends_retire before_stops(2) [OF c] ends_refused_simps
      ends_execute [OF inst c ok] ends_architectural)

lemma before_fetch:
  "before s n c \<Longrightarrow> fetch_thumb src reuse pc it c = Inr (word, inst, c') \<Longrightarrow>
    before s n c' \<and> decoded_ok inst"
  "before s n c \<Longrightarrow> fetch_arm src pc c = Inr (word, inst, c') \<Longrightarrow> before s n c' \<and> decoded_ok inst"
  "before s n c \<Longrightarrow> acquire_lease src reuse thumb pc c = (fault, c') \<Longrightarrow> before s n c'"
  by (auto simp: fetch_thumb_def fetch_arm_def acquire_lease_def Let_def before_def decode_a32_ok
      decode_t32_ok split: option.splits prod.splits if_splits)

lemma ends_fetch:
  "before s n c \<Longrightarrow> fetch_thumb src reuse pc it c = Inl r \<Longrightarrow> ends_refused s n r"
  "before s n c \<Longrightarrow> fetch_arm src pc c = Inl r \<Longrightarrow> ends_refused s n r"
  by (auto simp: fetch_thumb_def fetch_arm_def Let_def before_def intro!: before_stops
      split: option.splits prod.splits if_splits)

lemma before_note:
  "before s n c \<Longrightarrow> before s n (note_lease src reuse pc
    (c\<lparr>mc_result := (mc_result c)\<lparr>rr_instruction := w\<rparr>\<rparr>))"
  by (simp add: note_lease_def Let_def before_def)

lemma ends_next:
  assumes c: "before s n c" and ok: "state_ok s"
  shows "ends_refused s n (execute_next sf src req thumb it pc c)"
proof -
  obtain fault c' where a: "acquire_lease src (lease_reusable src (mc_lease c) thumb pc) thumb pc c =
      (fault, c')" by force
  note c' = before_fetch(3) [OF c a]
  show ?thesis
    unfolding execute_next_def Let_def a prod.case
    by (intro ends_option before_stops c')
      (auto intro!: ends_dispatch [OF _ _ ok] before_note dest: ends_fetch [OF c']
        before_fetch(1,2) [OF c'] split: sum.split)
qed

text \<open>C4. An iteration that stops for any reason but a supervisor call, a breakpoint, a single step
  or a switch of back ends has not executed its instruction: the program counter, the status
  register and the tick count are those from before it, the result reports that program counter,
  and unless a memory access was refused half-way the whole thread state is untouched. So every
  such run can be resumed by running again.\<close>
theorem stopped_before_instruction:
  assumes ok: "state_ok (mc_state c)"
    and stop: "step sf src req limit p c = Stopped c'"
    and "rr_reason (mc_result c') AND retired_stops = 0"
  shows "refused (mc_state c) (rr_ticks (mc_result c)) c'"
proof -
  let ?s = "mc_state c" and ?n = "rr_ticks (mc_result c)"
  let ?c = "c\<lparr>mc_result := (mc_result c)\<lparr>rr_pc := reg ?s 15, rr_instruction := None,
    rr_fault := None, rr_reason := poll_reason req p ?n\<rparr>\<rparr>"
  have c1: "before ?s ?n ?c" by (simp add: before_def)
  have "ends_refused ?s ?n (step sf src req limit p c)"
    unfolding step_def Let_def
    by (intro ends_if ends_next [OF _ ok] before_stops c1)
  then show ?thesis using stop assms(3) by (simp add: ends_refused_def)
qed

text \<open>A thread that runs off the end of memory.\<close>

definition faulting_machine :: "(u32 \<Rightarrow> u8, unit) machine" where
  "faulting_machine = start_machine (flat_source 0x1000) (set_reg 15 0x1000 zero_state)
    (\<lambda>a. 0) None 7"

theorem stopped_before_instruction_witness:
  "\<exists>c'. step zero_float (flat_source 0x1000) (plain_request 9) 100 (no_poll 0) faulting_machine =
      Stopped c' \<and> rr_reason (mc_result c') = stop_fetch_fault \<and> reg (mc_state c') 15 = 0x1000 \<and>
      rr_ticks (mc_result c') = 7"
proof -
  have "case step zero_float (flat_source 0x1000) (plain_request 9) 100 (no_poll 0) faulting_machine of
      Stopped c' \<Rightarrow> rr_reason (mc_result c') = stop_fetch_fault | _ \<Rightarrow> False" by code_simp
  then obtain c' where c': "step zero_float (flat_source 0x1000) (plain_request 9) 100 (no_poll 0)
      faulting_machine = Stopped c'" "rr_reason (mc_result c') = stop_fetch_fault"
    by (auto split: outcome.splits)
  have ok: "state_ok (mc_state faulting_machine)"
    by (simp add: faulting_machine_def start_machine_def)
  have "refused (mc_state faulting_machine) (rr_ticks (mc_result faulting_machine)) c'"
    by (rule stopped_before_instruction [OF ok c'(1)])
      (simp add: c'(2) retired_stops_def stop_defs)
  moreover have "reg (mc_state faulting_machine) 15 = 0x1000"
    "rr_ticks (mc_result faulting_machine) = 7"
    by code_simp+
  ultimately show ?thesis using c' by (auto simp: refused_def unmoved_def)
qed

end
