(* ===== verification/Ordered_Map.thy ===== *)
theory Ordered_Map
  imports Main
begin

text \<open>
  \<^verbatim>\<open>std::map\<close> as the emulator uses it: an association list with ascending keys.
  An iterator is the rest of the list from its element on, \<^verbatim>\<open>end()\<close> the empty
  list; \<^verbatim>\<open>std::prev\<close> of an upper bound is the last element of \<open>up_to\<close>.
\<close>

type_synonym ('k, 'v) ordered_map = "('k \<times> 'v) list"

definition ordered :: "('k::linorder, 'v) ordered_map \<Rightarrow> bool" where
  "ordered m \<longleftrightarrow> sorted_wrt (<) (map fst m)"

definition lower_bound :: "'k::linorder \<Rightarrow> ('k, 'v) ordered_map \<Rightarrow> ('k, 'v) ordered_map" where
  "lower_bound k m = dropWhile (\<lambda>e. fst e < k) m"

definition upper_bound :: "'k::linorder \<Rightarrow> ('k, 'v) ordered_map \<Rightarrow> ('k, 'v) ordered_map" where
  "upper_bound k m = dropWhile (\<lambda>e. fst e \<le> k) m"

definition up_to :: "'k::linorder \<Rightarrow> ('k, 'v) ordered_map \<Rightarrow> ('k, 'v) ordered_map" where
  "up_to k m = takeWhile (\<lambda>e. fst e \<le> k) m"

text \<open>\<^verbatim>\<open>emplace\<close> leaves a key that is there alone; \<open>modify\<close> writes
  through an iterator.\<close>

definition emplace ::
  "'k::linorder \<Rightarrow> 'v \<Rightarrow> ('k, 'v) ordered_map \<Rightarrow> ('k, 'v) ordered_map" where
  "emplace k v m =
    (if k \<in> set (map fst m) then m
     else takeWhile (\<lambda>e. fst e < k) m @ (k, v) # lower_bound k m)"

definition modify :: "'k \<Rightarrow> ('v \<Rightarrow> 'v) \<Rightarrow> ('k, 'v) ordered_map \<Rightarrow> ('k, 'v) ordered_map" where
  "modify k f m = map (\<lambda>(k', v). (k', if k' = k then f v else v)) m"

definition erase :: "'k \<Rightarrow> ('k, 'v) ordered_map \<Rightarrow> ('k, 'v) ordered_map" where
  "erase k m = filter (\<lambda>e. fst e \<noteq> k) m"

section \<open>Elements and order\<close>

lemma ordered_Nil [simp]: "ordered []" by (simp add: ordered_def)

lemma ordered_Cons [simp]:
  "ordered (e # m) \<longleftrightarrow> (\<forall>f \<in> set m. fst e < fst f) \<and> ordered m"
  by (auto simp: ordered_def)

lemma ordered_append:
  "ordered (m @ n) \<longleftrightarrow> ordered m \<and> ordered n \<and> (\<forall>e \<in> set m. \<forall>f \<in> set n. fst e < fst f)"
  by (auto simp: ordered_def sorted_wrt_append)

lemma ordered_unique:
  "ordered m \<Longrightarrow> (k, v) \<in> set m \<Longrightarrow> (k, w) \<in> set m \<Longrightarrow> v = w"
  by (induction m) fastforce+

lemma set_lower_bound: "ordered m \<Longrightarrow> set (lower_bound k m) = {e \<in> set m. k \<le> fst e}"
  unfolding lower_bound_def by (induction m) force+

lemma set_upper_bound: "ordered m \<Longrightarrow> set (upper_bound k m) = {e \<in> set m. k < fst e}"
  unfolding upper_bound_def by (induction m) force+

lemma set_up_to: "ordered m \<Longrightarrow> set (up_to k m) = {e \<in> set m. fst e \<le> k}"
  unfolding up_to_def by (induction m) force+

lemma set_before: "ordered m \<Longrightarrow> set (takeWhile (\<lambda>e. fst e < k) m) = {e \<in> set m. fst e < k}"
  by (induction m) force+

lemma ordered_lower_bound: "ordered m \<Longrightarrow> ordered (lower_bound k m)"
  unfolding lower_bound_def by (induction m) auto

lemma ordered_upper_bound: "ordered m \<Longrightarrow> ordered (upper_bound k m)"
  unfolding upper_bound_def by (induction m) auto

lemma ordered_up_to: "ordered m \<Longrightarrow> ordered (up_to k m)"
  unfolding up_to_def by (induction m) (auto dest: set_takeWhileD)

lemma ordered_takeWhile: "ordered m \<Longrightarrow> ordered (takeWhile P m)"
  by (induction m) (auto dest: set_takeWhileD)

lemmas ordered_before = ordered_takeWhile [where P = "\<lambda>e. fst e < k" for k]

lemma up_to_upper_bound: "up_to k m @ upper_bound k m = m"
  by (simp add: up_to_def upper_bound_def)

lemma lower_bound_first:
  assumes "ordered m" "lower_bound k m = (l, v) # rest"
  shows "(l, v) \<in> set m" "k \<le> l" "\<And>e. e \<in> set m \<Longrightarrow> k \<le> fst e \<Longrightarrow> l \<le> fst e"
  using set_lower_bound [OF assms(1), of k] ordered_lower_bound [OF assms(1), of k] assms(2)
  by force+

lemma lower_bound_end:
  "ordered m \<Longrightarrow> lower_bound k m = [] \<Longrightarrow> e \<in> set m \<Longrightarrow> fst e < k"
  using set_lower_bound [of m k] by (cases e) (auto simp: not_le)

lemma ordered_last:
  "ordered m \<Longrightarrow> m \<noteq> [] \<Longrightarrow> e \<in> set m \<Longrightarrow> fst e \<le> fst (last m)"
  by (induction m) (auto intro: less_imp_le)

lemma up_to_last:
  assumes "ordered m" "up_to k m \<noteq> []" "last (up_to k m) = (l, v)"
  shows "(l, v) \<in> set m" "l \<le> k" "\<And>e. e \<in> set m \<Longrightarrow> fst e \<le> k \<Longrightarrow> fst e \<le> l"
  using set_up_to [OF assms(1), of k] ordered_up_to [OF assms(1), of k] assms(2,3)
    last_in_set [of "up_to k m"] ordered_last [of "up_to k m"] by force+

lemma up_to_none: "ordered m \<Longrightarrow> up_to k m = [] \<Longrightarrow> e \<in> set m \<Longrightarrow> k < fst e"
  using set_up_to [of m k] by (cases e) (auto simp: not_le)

lemma set_emplace:
  "ordered m \<Longrightarrow> set (emplace k v m) =
    (if k \<in> fst ` set m then set m else insert (k, v) (set m))"
  by (auto simp: emplace_def set_before set_lower_bound)

lemma ordered_emplace:
  assumes "ordered m" shows "ordered (emplace k v m)"
proof (cases "k \<in> fst ` set m")
  case True with assms show ?thesis by (simp add: emplace_def)
next
  case False
  then have "\<And>e. e \<in> set m \<Longrightarrow> k \<le> fst e \<Longrightarrow> k < fst e" by (force simp: order_le_less)
  with assms False show ?thesis
    by (auto simp: emplace_def ordered_append set_before set_lower_bound ordered_before
        ordered_lower_bound dest: order_less_le_trans)
qed

lemma set_modify:
  "set (modify k f m) = (\<lambda>(k', v). (k', if k' = k then f v else v)) ` set m"
  by (simp add: modify_def)

lemma modify_absent: "k \<notin> fst ` set m \<Longrightarrow> modify k f m = m"
  by (induction m) (auto simp: modify_def)

lemma set_modify_at:
  assumes "ordered m" "(k, v) \<in> set m"
  shows "set (modify k f m) = insert (k, f v) (set m - {(k, v)})"
  using assms
proof (induction m)
  case (Cons e m)
  show ?case
  proof (cases "fst e = k")
    case True
    with Cons.prems have "e = (k, v)" "k \<notin> fst ` set m" "(k, v) \<notin> set m" by auto
    then show ?thesis using modify_absent [of k m f] by (auto simp: modify_def)
  next
    case False
    with Cons show ?thesis by (cases e) (auto simp: modify_def)
  qed
qed simp

lemma keys_modify: "map fst (modify k f m) = map fst m"
  by (induction m) (auto simp: modify_def)

lemma ordered_modify [simp]: "ordered (modify k f m) = ordered m"
  by (simp add: ordered_def keys_modify)

lemma ordered_distinct: "ordered m \<Longrightarrow> distinct (map fst m)"
  by (induction m) force+

lemma fold_modify:
  "distinct (map fst es) \<Longrightarrow>
    fold (\<lambda>e. modify (fst e) f) es m = map (\<lambda>(k, v). (k, if k \<in> fst ` set es then f v else v)) m"
proof (induction es arbitrary: m)
  case Nil then show ?case by (simp add: map_idI)
next
  case (Cons e es)
  then show ?case by (auto simp: modify_def)
qed

lemma fold_erase:
  "fold (\<lambda>e. erase (fst e)) es m = filter (\<lambda>e. fst e \<notin> fst ` set es) m"
  by (induction es arbitrary: m) (auto simp: erase_def intro: filter_cong)

lemma set_erase: "set (erase k m) = {e \<in> set m. fst e \<noteq> k}"
  by (simp add: erase_def)

lemma ordered_filter: "ordered m \<Longrightarrow> ordered (filter P m)"
  by (induction m) auto

lemma ordered_erase: "ordered m \<Longrightarrow> ordered (erase k m)"
  by (simp add: erase_def ordered_filter)

lemma map_of_iff: "ordered m \<Longrightarrow> map_of m k = Some v \<longleftrightarrow> (k, v) \<in> set m"
  by (induction m) (force simp: less_le)+

lemma map_eqI:
  assumes "\<And>k v. f k = Some v \<longleftrightarrow> g k = Some v" shows "f = g"
proof
  fix k show "f k = g k"
    using assms [of k "the (f k)"] assms [of k "the (g k)"] by (cases "f k"; cases "g k") simp_all
qed

lemma map_of_emplace:
  assumes "ordered m"
  shows "map_of (emplace k v m) = (if k \<in> fst ` set m then map_of m else (map_of m)(k \<mapsto> v))"
proof (rule map_eqI)
  fix l w
  show "map_of (emplace k v m) l = Some w \<longleftrightarrow>
    (if k \<in> fst ` set m then map_of m else (map_of m)(k \<mapsto> v)) l = Some w"
    using map_of_iff [OF ordered_emplace [OF assms]] map_of_iff [OF assms] set_emplace [OF assms]
    by (cases "l = k") (auto simp: image_iff)
qed

lemma map_of_erase: "ordered m \<Longrightarrow> map_of (erase k m) = (map_of m)(k := None)"
  by (rule map_eqI) (auto simp: map_of_iff ordered_erase set_erase)

lemma map_of_modify:
  "map_of (modify k f m) = (map_of m)(k := map_option f (map_of m k))"
  by (induction m) (auto simp: modify_def fun_eq_iff)

end
