(* ===== verification/Vm_Map.thy ===== *)
theory Vm_Map
  imports Prelude Ordered_Map
begin

text \<open>
  The guest's address-space layout, \<^verbatim>\<open>foundation/memory/vm_map.cpp\<close>: an
  ordered map from the start of each mapped region to its end, current and maximum
  permissions and fork inheritance. Addresses are 32-bit words, range ends 64-bit words so
  that the end of the address space is representable. Every operation is the source's
  sequence of splits, iterator walks and a final coalescing pass.

  Vm_Map_Spec states what each of them does.
\<close>

section \<open>The map and its operations\<close>

text \<open>Permissions are the bits of \<^verbatim>\<open>MemoryPermission\<close>.\<close>

type_synonym memory_permission = u8

definition perm_none :: memory_permission where "perm_none = 0"
definition perm_read :: memory_permission where "perm_read = 1"
definition perm_write :: memory_permission where "perm_write = 2"
definition perm_execute :: memory_permission where "perm_execute = 4"

definition has_permission :: "memory_permission \<Rightarrow> memory_permission \<Rightarrow> bool" where
  "has_permission value required \<longleftrightarrow> value AND required = required"

datatype vm_inheritance = Share | Copy | NoInherit

record vm_region =
  rg_end :: u64
  rg_permissions :: memory_permission
  rg_inheritance :: vm_inheritance
  rg_maximum :: memory_permission

record vm_attributes =
  va_maximum :: memory_permission
  va_inheritance :: vm_inheritance

definition default_attributes :: vm_attributes where
  "default_attributes = \<lparr>va_maximum = perm_read OR perm_write OR perm_execute, va_inheritance = Copy\<rparr>"

record mapping_region =
  mr_address :: u32
  mr_end :: u64
  mr_permissions :: memory_permission
  mr_inheritance :: vm_inheritance
  mr_maximum :: memory_permission

type_synonym vm_map = "(u32, vm_region) ordered_map"

definition wide :: "u32 \<Rightarrow> u64" where "wide a = ucast a"

definition address_space_end :: u64 where "address_space_end = 0x100000000"

definition valid_range :: "u32 \<Rightarrow> u64 \<Rightarrow> bool" where
  "valid_range start stop \<longleftrightarrow> wide start < stop \<and> stop \<le> address_space_end"

definition split_at :: "u64 \<Rightarrow> vm_map \<Rightarrow> vm_map" where
  "split_at point m =
    (if point = 0 \<or> address_space_end \<le> point \<or> m = [] then m
     else let below = up_to (ucast point) m in
       if below = [] then m
       else let (first, previous) = last below in
         if point \<le> wide first \<or> rg_end previous \<le> point then m
         else emplace (ucast point) previous
           (modify first (\<lambda>r. r\<lparr>rg_end := point\<rparr>) m))"

definition mergeable :: "vm_region \<Rightarrow> u32 \<Rightarrow> vm_region \<Rightarrow> bool" where
  "mergeable r k r' \<longleftrightarrow> rg_end r = wide k \<and> rg_permissions r = rg_permissions r' \<and>
    rg_maximum r = rg_maximum r' \<and> rg_inheritance r = rg_inheritance r'"

fun coalesce :: "vm_map \<Rightarrow> vm_map" where
  "coalesce ((k, r) # (k', r') # m) =
    (if mergeable r k' r' then coalesce ((k, r\<lparr>rg_end := rg_end r'\<rparr>) # m)
     else (k, r) # coalesce ((k', r') # m))"
| "coalesce m = m"

text \<open>The loop that fills gaps and adds permissions; a loop that does not end is
  \<open>None\<close>.\<close>

partial_function (option) map_or_loop ::
  "u64 \<Rightarrow> memory_permission \<Rightarrow> vm_attributes \<Rightarrow> u64 \<Rightarrow> vm_map \<Rightarrow> vm_map option" where
  "map_or_loop stop perms attributes cursor m =
    (if stop \<le> cursor then Some m
     else
       let region = lower_bound (ucast cursor) m in
       if region = [] \<or> cursor < wide (fst (hd region))
       then let gap_end = (if region = [] then stop else min stop (wide (fst (hd region)))) in
         map_or_loop stop perms attributes gap_end
           (emplace (ucast cursor) \<lparr>rg_end = gap_end, rg_permissions = perms,
             rg_inheritance = va_inheritance attributes,
             rg_maximum = va_maximum attributes\<rparr> m)
       else map_or_loop stop perms attributes (rg_end (snd (hd region)))
         (modify (fst (hd region)) (\<lambda>r. r\<lparr>rg_permissions := rg_permissions r OR perms\<rparr>) m))"

definition map_or ::
  "u32 \<Rightarrow> u64 \<Rightarrow> memory_permission \<Rightarrow> vm_attributes \<Rightarrow> vm_map \<Rightarrow> vm_map option" where
  "map_or start stop perms attributes m =
    (if \<not> valid_range start stop then Some m
     else map_option coalesce
       (map_or_loop stop perms attributes (wide start) (split_at stop (split_at (wide start) m))))"

text \<open>The regions an iterator visits from \<^verbatim>\<open>lower_bound(start)\<close> while their
  first address is below \<open>stop\<close>.\<close>

definition range_entries :: "u32 \<Rightarrow> u64 \<Rightarrow> vm_map \<Rightarrow> vm_map" where
  "range_entries start stop m = takeWhile (\<lambda>e. wide (fst e) < stop) (lower_bound start m)"

definition modify_range ::
  "u32 \<Rightarrow> u64 \<Rightarrow> (vm_region \<Rightarrow> vm_region) \<Rightarrow> vm_map \<Rightarrow> vm_map" where
  "modify_range start stop f m = fold (\<lambda>e. modify (fst e) f) (range_entries start stop m) m"

definition vm_unmap :: "u32 \<Rightarrow> u64 \<Rightarrow> vm_map \<Rightarrow> vm_map" where
  "vm_unmap start stop m =
    (if \<not> valid_range start stop then m
     else let m = split_at stop (split_at (wide start) m) in
       coalesce (fold (\<lambda>e. erase (fst e)) (range_entries start stop m) m))"

text \<open>An iterator on the last region that starts at or before an address, and what
  follows it.\<close>

definition containing_or_after :: "u32 \<Rightarrow> vm_map \<Rightarrow> vm_map option" where
  "containing_or_after start m =
    (if up_to start m = [] then None
     else Some (last (up_to start m) # upper_bound start m))"

datatype protection_error = ProtectionNone | Unmapped | ProtectionFailure

record protection_result =
  pr_error :: protection_error
  pr_executable_changed :: bool

fun protect_check ::
  "u64 \<Rightarrow> memory_permission \<Rightarrow> bool \<Rightarrow> u64 \<Rightarrow> vm_map \<Rightarrow> protection_error" where
  "protect_check stop perms copy cursor [] =
    (if cursor < stop then Unmapped else ProtectionNone)"
| "protect_check stop perms copy cursor ((k, r) # rest) =
    (if \<not> cursor < stop then ProtectionNone
     else if cursor < wide k \<or> rg_end r \<le> cursor then Unmapped
     else if \<not> has_permission (rg_maximum r OR (if copy then perm_write else perm_none)) perms
     then ProtectionFailure
     else protect_check stop perms copy (rg_end r) rest)"

definition protect_entry ::
  "memory_permission \<Rightarrow> bool \<Rightarrow> bool \<Rightarrow> vm_region \<Rightarrow> vm_region" where
  "protect_entry perms set_maximum copy entry =
    (let previous = rg_permissions entry;
         entry = (if copy then entry\<lparr>rg_maximum := rg_maximum entry OR perm_write\<rparr> else entry) in
     if set_maximum
     then entry\<lparr>rg_maximum := perms, rg_permissions := previous AND perms\<rparr>
     else entry\<lparr>rg_permissions := perms\<rparr>)"

definition executable_changed :: "memory_permission \<Rightarrow> memory_permission \<Rightarrow> bool" where
  "executable_changed previous current \<longleftrightarrow> previous \<noteq> current \<and>
    (has_permission previous perm_execute \<or> has_permission current perm_execute)"

definition vm_protect ::
  "u32 \<Rightarrow> u64 \<Rightarrow> memory_permission \<Rightarrow> bool \<Rightarrow> bool \<Rightarrow> vm_map \<Rightarrow> protection_result \<times> vm_map" where
  "vm_protect start stop perms set_maximum copy m =
    (let failed = (\<lambda>e. (\<lparr>pr_error = e, pr_executable_changed = False\<rparr>, m)) in
     if \<not> valid_range start stop then failed Unmapped
     else case containing_or_after start m of
       None \<Rightarrow> failed Unmapped
     | Some region \<Rightarrow>
         let checked = protect_check stop perms copy (wide start) region in
         if checked \<noteq> ProtectionNone then failed checked
         else
           let m = split_at stop (split_at (wide start) m);
               entries = range_entries start stop m;
               changed = list_ex (\<lambda>(k, r). executable_changed (rg_permissions r)
                 (rg_permissions (protect_entry perms set_maximum copy r))) entries in
           (\<lparr>pr_error = ProtectionNone, pr_executable_changed = changed\<rparr>,
            coalesce (modify_range start stop (protect_entry perms set_maximum copy) m)))"

definition vm_inherit :: "u32 \<Rightarrow> u64 \<Rightarrow> vm_inheritance \<Rightarrow> vm_map \<Rightarrow> bool \<times> vm_map" where
  "vm_inherit start stop inheritance m =
    (if \<not> valid_range start stop then (False, m)
     else let m = split_at stop (split_at (wide start) m) in
       (True, coalesce (modify_range start stop (\<lambda>r. r\<lparr>rg_inheritance := inheritance\<rparr>) m)))"

fun accessible_loop ::
  "u64 \<Rightarrow> memory_permission \<Rightarrow> u64 \<Rightarrow> vm_map \<Rightarrow> bool" where
  "accessible_loop stop access cursor [] \<longleftrightarrow> \<not> cursor < stop"
| "accessible_loop stop access cursor ((k, r) # rest) \<longleftrightarrow>
    (if cursor < stop
     then \<not> (cursor < wide k \<or> rg_end r \<le> cursor \<or> \<not> has_permission (rg_permissions r) access) \<and>
       (stop \<le> rg_end r \<or> accessible_loop stop access (rg_end r) rest)
     else True)"

definition vm_accessible :: "u32 \<Rightarrow> u64 \<Rightarrow> memory_permission \<Rightarrow> vm_map \<Rightarrow> bool" where
  "vm_accessible start stop access m \<longleftrightarrow> valid_range start stop \<and>
    (case containing_or_after start m of
       None \<Rightarrow> False
     | Some region \<Rightarrow> accessible_loop stop access (wide start) region)"

definition vm_overlaps :: "u32 \<Rightarrow> u64 \<Rightarrow> vm_map \<Rightarrow> bool" where
  "vm_overlaps start stop m \<longleftrightarrow> valid_range start stop \<and>
    (let region = lower_bound start m;
         before = takeWhile (\<lambda>e. fst e < start) m in
     if region \<noteq> [] \<and> wide (fst (hd region)) < stop then True
     else before \<noteq> [] \<and> wide start < rg_end (snd (last before)))"

definition mapping_of :: "u32 \<times> vm_region \<Rightarrow> mapping_region" where
  "mapping_of e = \<lparr>mr_address = fst e, mr_end = rg_end (snd e),
    mr_permissions = rg_permissions (snd e), mr_inheritance = rg_inheritance (snd e),
    mr_maximum = rg_maximum (snd e)\<rparr>"

definition region_at_or_after :: "u32 \<Rightarrow> vm_map \<Rightarrow> mapping_region option" where
  "region_at_or_after address m =
    (let below = up_to address m; after = lower_bound address m in
     if below \<noteq> [] \<and> wide address < rg_end (snd (last below)) then Some (mapping_of (last below))
     else if after = [] then None
     else Some (mapping_of (hd after)))"

definition vm_page_count :: "u32 \<Rightarrow> vm_map \<Rightarrow> u64" where
  "vm_page_count page_size m =
    sum_list (map (\<lambda>(k, r). (rg_end r - wide k) div wide page_size) m)"

end
