(* ===== verification/Vm_Map_Spec.thy ===== *)
theory Vm_Map_Spec
  imports Vm_Map Word_Facts
begin

text \<open>
  What the address-space map of Vm_Map promises. Its specification is a function from
  addresses to attributes, \<open>attributes_at\<close>: each update changes that function on its
  range and nowhere else, each query is a statement about it, and the map is its unique
  canonical representation.
\<close>

section \<open>The specification: attributes of an address\<close>

type_synonym attributes = "memory_permission \<times> vm_inheritance \<times> memory_permission"

definition region_attributes :: "vm_region \<Rightarrow> attributes" where
  "region_attributes r = (rg_permissions r, rg_inheritance r, rg_maximum r)"

definition covers :: "u64 \<Rightarrow> u32 \<times> vm_region \<Rightarrow> bool" where
  "covers a e \<longleftrightarrow> wide (fst e) \<le> a \<and> a < rg_end (snd e)"

definition attributes_at :: "vm_map \<Rightarrow> u64 \<Rightarrow> attributes option" where
  "attributes_at m a = map_option (region_attributes \<circ> snd) (find (covers a) m)"

text \<open>Regions are ascending, not empty, inside the address space and disjoint.\<close>

definition region_ok :: "u32 \<times> vm_region \<Rightarrow> bool" where
  "region_ok e \<longleftrightarrow> wide (fst e) < rg_end (snd e) \<and> rg_end (snd e) \<le> address_space_end"

definition apart :: "u32 \<times> vm_region \<Rightarrow> u32 \<times> vm_region \<Rightarrow> bool" where
  "apart e f \<longleftrightarrow> rg_end (snd e) \<le> wide (fst f)"

definition regions_ok :: "vm_map \<Rightarrow> bool" where
  "regions_ok m \<longleftrightarrow> list_all region_ok m \<and> sorted_wrt apart m"

text \<open>A map with no two neighbours left to merge.\<close>

fun canonical :: "vm_map \<Rightarrow> bool" where
  "canonical ((k, r) # (k', r') # m) \<longleftrightarrow> \<not> mergeable r k' r' \<and> canonical ((k', r') # m)"
| "canonical m \<longleftrightarrow> True"

definition vm_map_ok :: "vm_map \<Rightarrow> bool" where
  "vm_map_ok m \<longleftrightarrow> regions_ok m \<and> canonical m"

section \<open>Words and regions\<close>

lemma unat_wide [simp]: "unat (wide a) = unat a"
  using unat_u32_less [of a]
  by (simp add: wide_def unsigned_ucast_eq take_bit_nat_eq_self_iff)

lemma wide_less_iff [simp]: "wide a < wide b \<longleftrightarrow> a < b"
  by (simp add: word_less_nat_alt)

lemma wide_le_iff [simp]: "wide a \<le> wide b \<longleftrightarrow> a \<le> b"
  by (simp add: word_le_nat_alt)

lemma wide_below_end [simp]: "wide a < address_space_end"
  using unat_u32_less [of a] by (simp add: word_less_nat_alt address_space_end_def)

lemma wide_ucast: "p < address_space_end \<Longrightarrow> wide (ucast p) = p"
  by (rule word_unat_eq_iff [THEN iffD2])
    (simp add: unsigned_ucast_eq take_bit_nat_eq_self_iff word_less_nat_alt address_space_end_def)

lemma valid_below: "valid_range s e \<Longrightarrow> a < e \<Longrightarrow> a < address_space_end"
  by (auto simp: valid_range_def)

lemma apart_wider: "region_ok e \<Longrightarrow> apart e f \<Longrightarrow> fst e < fst f"
  unfolding region_ok_def apart_def wide_less_iff [symmetric] by (rule less_le_trans) auto

lemma regions_ok_Cons:
  "regions_ok (e # m) \<longleftrightarrow> region_ok e \<and> (\<forall>f \<in> set m. apart e f) \<and> regions_ok m"
  by (auto simp: regions_ok_def)

lemma regions_ok_ordered: "regions_ok m \<Longrightarrow> ordered m"
  by (induction m) (auto simp: regions_ok_Cons apart_wider)

text \<open>For an ordered map the conditions speak of its elements only.\<close>

lemma regions_ok_iff:
  "regions_ok m \<longleftrightarrow> ordered m \<and> (\<forall>e \<in> set m. region_ok e) \<and>
    (\<forall>e \<in> set m. \<forall>f \<in> set m. fst e < fst f \<longrightarrow> apart e f)"
proof
  assume ok: "regions_ok m"
  then have "\<forall>e \<in> set m. \<forall>f \<in> set m. fst e < fst f \<longrightarrow> apart e f"
  proof (induction m)
    case (Cons e m)
    then show ?case using regions_ok_ordered [OF Cons.prems]
      by (auto simp: regions_ok_Cons dest: less_asym)
  qed simp
  with ok regions_ok_ordered show "ordered m \<and> (\<forall>e \<in> set m. region_ok e) \<and>
    (\<forall>e \<in> set m. \<forall>f \<in> set m. fst e < fst f \<longrightarrow> apart e f)"
    by (auto simp: regions_ok_def list_all_iff)
next
  assume "ordered m \<and> (\<forall>e \<in> set m. region_ok e) \<and>
    (\<forall>e \<in> set m. \<forall>f \<in> set m. fst e < fst f \<longrightarrow> apart e f)"
  then show "regions_ok m" by (induction m) (auto simp: regions_ok_Cons, auto simp: regions_ok_def)
qed

lemma regions_okI:
  assumes "ordered m" "\<And>e. e \<in> set m \<Longrightarrow> region_ok e"
    "\<And>e f. e \<in> set m \<Longrightarrow> f \<in> set m \<Longrightarrow> fst e < fst f \<Longrightarrow> apart e f"
  shows "regions_ok m"
  using assms by (simp add: regions_ok_iff)

lemma covers_unique:
  assumes ok: "regions_ok m" and in_m: "e \<in> set m" "f \<in> set m" and "covers a e" "covers a f"
  shows "e = f"
proof -
  have "\<not> fst e < fst f" "\<not> fst f < fst e"
    using assms unfolding regions_ok_iff covers_def apart_def
    by (meson leD le_less_trans less_le_trans)+
  then have "fst e = fst f" by simp
  then show ?thesis using ordered_unique [OF regions_ok_ordered [OF ok]] in_m
    by (metis prod.collapse)
qed

lemma attributes_iff:
  assumes "regions_ok m"
  shows "attributes_at m a = Some x \<longleftrightarrow> (\<exists>e \<in> set m. covers a e \<and> region_attributes (snd e) = x)"
proof
  assume "attributes_at m a = Some x"
  then obtain e where e: "find (covers a) m = Some e" and x: "region_attributes (snd e) = x"
    by (auto simp: attributes_at_def)
  from e have "e \<in> set m" "covers a e" by (auto simp: find_Some_iff dest!: nth_mem)
  with x show "\<exists>e \<in> set m. covers a e \<and> region_attributes (snd e) = x" by blast
next
  assume "\<exists>e \<in> set m. covers a e \<and> region_attributes (snd e) = x"
  then obtain e where e: "e \<in> set m" "covers a e" "region_attributes (snd e) = x" by blast
  then have "find (covers a) m \<noteq> None" by (metis find_None_iff)
  then obtain f where f: "find (covers a) m = Some f" by blast
  then have "f \<in> set m" "covers a f" by (auto simp: find_Some_iff dest!: nth_mem)
  with covers_unique [OF assms _ e(1) _ e(2)] have "f = e" by blast
  with f e show "attributes_at m a = Some x" by (simp add: attributes_at_def)
qed

lemma attributes_none:
  "attributes_at m a = None \<longleftrightarrow> (\<forall>e \<in> set m. \<not> covers a e)"
  by (auto simp: attributes_at_def find_None_iff)

section \<open>Splitting\<close>

definition straddles :: "vm_map \<Rightarrow> u64 \<Rightarrow> bool" where
  "straddles m p \<longleftrightarrow> (\<exists>e \<in> set m. wide (fst e) < p \<and> p < rg_end (snd e))"

lemma regions_end: "regions_ok m \<Longrightarrow> e \<in> set m \<Longrightarrow> rg_end (snd e) \<le> address_space_end"
  by (simp add: regions_ok_iff region_ok_def)

lemma split_at_cases:
  assumes ok: "regions_ok m"
  obtains "split_at p m = m" "\<not> straddles m p"
  | k r where "(k, r) \<in> set m" "wide k < p" "p < rg_end r" "p < address_space_end"
    "ordered (split_at p m)"
    "set (split_at p m) =
      insert (ucast p, r) (insert (k, r\<lparr>rg_end := p\<rparr>) (set m - {(k, r)}))"
proof -
  have ord: "ordered m" using ok by (rule regions_ok_ordered)
  have no_end: "\<not> straddles m p" if "p = 0 \<or> address_space_end \<le> p \<or> m = []"
  proof
    assume "straddles m p"
    then obtain e where e: "e \<in> set m" "wide (fst e) < p" "p < rg_end (snd e)"
      by (auto simp: straddles_def)
    then have "p < address_space_end" "p \<noteq> 0" "m \<noteq> []"
      using less_le_trans [OF e(3) regions_end [OF ok e(1)]] by auto
    with that show False by simp
  qed
  show thesis
  proof (cases "p = 0 \<or> address_space_end \<le> p \<or> m = []")
    case True with no_end that(1) show ?thesis by (simp add: split_at_def)
  next
    case False
    then have p: "wide (ucast p) = p" by (simp add: wide_ucast not_le)
    show ?thesis
    proof (cases "up_to (ucast p) m = []")
      case True
      then have "\<And>e. e \<in> set m \<Longrightarrow> p < wide (fst e)"
        using up_to_none [OF ord True] p by (metis wide_less_iff)
      then have "\<not> straddles m p" by (auto simp: straddles_def dest: less_asym)
      with True False that(1) show ?thesis by (simp add: split_at_def)
    next
      case nonempty: False
      obtain k r where last: "last (up_to (ucast p) m) = (k, r)" by fastforce
      note kr = up_to_last [OF ord nonempty last]
      have le: "wide k \<le> p" using kr(2) p by (metis wide_le_iff)
      have only: "e = (k, r)" if "e \<in> set m" "wide (fst e) < p" "p < rg_end (snd e)" for e
      proof -
        have "wide (fst e) \<le> wide (ucast p)" using that(2) p by simp
        then have "fst e \<le> k" using kr(3) [OF that(1)] by simp
        moreover have "\<not> fst e < k"
        proof
          assume "fst e < k"
          then have "rg_end (snd e) \<le> wide k"
            using ok that(1) kr(1) by (fastforce simp: regions_ok_iff apart_def)
          then show False using that(3) le by order
        qed
        ultimately have "fst e = k" by simp
        then show ?thesis using ordered_unique [OF ord, of k "snd e" r] that(1) kr(1) by (cases e) simp
      qed
      show ?thesis
      proof (cases "p \<le> wide k \<or> rg_end r \<le> p")
        case True
        then have "\<not> straddles m p" using only unfolding straddles_def by fastforce
        with True nonempty last False that(1) show ?thesis by (simp add: split_at_def)
      next
        case inside: False
        let ?m = "modify k (\<lambda>r. r\<lparr>rg_end := p\<rparr>) m"
        have set_m: "set ?m = insert (k, r\<lparr>rg_end := p\<rparr>) (set m - {(k, r)})"
          using ord kr(1) by (rule set_modify_at)
        have fresh: "ucast p \<notin> fst ` set m"
        proof
          assume "ucast p \<in> fst ` set m"
          then have "ucast p \<le> k" using kr(3) by force
          then have "p \<le> wide k" using p by (metis wide_le_iff)
          with inside show False by simp
        qed
        then have fresh: "ucast p \<notin> fst ` set ?m" by (metis keys_modify list.set_map)
        have split: "split_at p m = emplace (ucast p) r ?m"
          using inside nonempty last False by (simp add: split_at_def)
        show ?thesis
        proof (rule that(2) [OF kr(1)])
          show "wide k < p" "p < rg_end r" "p < address_space_end"
            using inside False by (simp_all add: not_le)
          show "ordered (split_at p m)" unfolding split by (simp add: ordered_emplace ord)
          have "set (emplace (ucast p) r ?m) = insert (ucast p, r) (set ?m)"
            using set_emplace [of ?m] fresh ord by simp
          with set_m show "set (split_at p m) =
            insert (ucast p, r) (insert (k, r\<lparr>rg_end := p\<rparr>) (set m - {(k, r)}))"
            unfolding split by simp
        qed
      qed
    qed
  qed
qed

lemma split_at_ok:
  assumes ok: "regions_ok m"
  shows "regions_ok (split_at p m) \<and> attributes_at (split_at p m) = attributes_at m \<and>
    \<not> straddles (split_at p m) p \<and> (straddles (split_at p m) q \<longrightarrow> straddles m q)"
  using ok
proof (cases rule: split_at_cases [where p = p])
  case 1
  with ok show ?thesis by simp
next
  case (2 k r)
  let ?n = "split_at p m" and ?l = "(k, r\<lparr>rg_end := p\<rparr>)" and ?r = "(ucast p, r)"
  have p: "wide (ucast p) = p" using 2(4) by (rule wide_ucast)
  have kr: "region_ok (k, r)" using ok 2(1) by (simp add: regions_ok_iff)
  have others: "apart e (k, r) \<or> apart (k, r) e" if "e \<in> set m" "e \<noteq> (k, r)" for e
    using ok 2(1) that ordered_unique [of m k "snd e" r]
    by (cases "fst e" k rule: linorder_cases) (auto simp: regions_ok_iff)
  have in_n: "e = ?l \<or> e = ?r \<or> (e \<in> set m \<and> e \<noteq> (k, r))" if "e \<in> set ?n" for e
    using that 2(6) by auto
  have ok_n: "regions_ok ?n"
  proof (rule regions_okI)
    show "ordered ?n" by (rule 2(5))
    show "region_ok e" if "e \<in> set ?n" for e
      using in_n [OF that] ok kr 2(2,3,4) p by (auto simp: region_ok_def regions_ok_iff)
  next
    fix e f assume e: "e \<in> set ?n" and f: "f \<in> set ?n" and less: "fst e < fst f"
    have asym: "\<not> apart x y" if "region_ok x" "fst y < fst x" for x y
      using that apart_wider [of x y] by auto
    have okm: "region_ok x" if "x \<in> set m" for x using ok that by (simp add: regions_ok_iff)
    have less_p: "fst ?l < fst ?r" using 2(2) p by (metis fst_conv wide_less_iff)
    show "apart e f"
      using in_n [OF e] in_n [OF f]
    proof (elim disjE conjE)
      assume "e \<in> set m" "f \<in> set m" with ok less show ?thesis by (simp add: regions_ok_iff)
    next
      assume "e \<in> set m" "e \<noteq> (k, r)" "f = ?l"
      with others [of e] asym [of "(k, r)" e] kr less show ?thesis by (auto simp: apart_def)
    next
      assume eq: "e \<in> set m" "e \<noteq> (k, r)" "f = ?r"
      then consider "apart e (k, r)" | "apart (k, r) e" using others [of e] by blast
      then show ?thesis
      proof cases
        case 1 then show ?thesis using eq p 2(2) by (auto simp: apart_def)
      next
        case 2 then have "rg_end r \<le> wide (fst e)" by (simp add: apart_def)
        moreover have "wide (fst e) < p" using less eq p by (metis fst_conv wide_less_iff)
        ultimately show ?thesis using \<open>p < rg_end r\<close> by order
      qed
    next
      assume eq: "e = ?l" "f \<in> set m" "f \<noteq> (k, r)"
      then have "apart (k, r) f" using others [of f] less asym [of f "(k, r)"] okm by (auto simp: apart_wider)
      with eq 2(3) show ?thesis by (auto simp: apart_def)
    next
      assume eq: "e = ?r" "f \<in> set m" "f \<noteq> (k, r)"
      then have "k < fst f" using less less_p by auto
      then have "apart (k, r) f" using others [of f] eq asym [of f "(k, r)"] okm
        by (metis apart_wider fst_conv less_asym)
      with eq show ?thesis by (auto simp: apart_def)
    next
      assume "e = ?l" "f = ?r" with p show ?thesis by (simp add: apart_def)
    next
      assume "e = ?r" "f = ?l" with less less_p show ?thesis by auto
    qed (use less in auto)
  qed
  have "attributes_at ?n a = Some x \<longleftrightarrow> attributes_at m a = Some x" for a x
  proof -
    have covers: "covers a (k, r) \<longleftrightarrow> covers a ?l \<or> covers a ?r"
      using 2(2,3) p by (auto simp: covers_def)
    have "(\<exists>e \<in> set m. Q e) \<longleftrightarrow> Q (k, r) \<or> (\<exists>e \<in> set m - {(k, r)}. Q e)" for Q
      using 2(1) by blast
    moreover have "(\<exists>e \<in> set ?n. Q e) \<longleftrightarrow> Q ?r \<or> Q ?l \<or> (\<exists>e \<in> set m - {(k, r)}. Q e)" for Q
      unfolding 2(6) by blast
    moreover have "region_attributes (snd ?l) = region_attributes r" by (simp add: region_attributes_def)
    ultimately show ?thesis
      unfolding attributes_iff [OF ok] attributes_iff [OF ok_n] using covers by auto
  qed
  then have same: "attributes_at ?n = attributes_at m" by (rule map_eqI)
  have "\<not> straddles ?n p"
  proof
    assume "straddles ?n p"
    then obtain e where e: "e \<in> set ?n" "wide (fst e) < p" "p < rg_end (snd e)"
      by (auto simp: straddles_def)
    from in_n [OF e(1)] show False
    proof (elim disjE conjE)
      assume "e \<in> set m" "e \<noteq> (k, r)"
      moreover have "covers p e" "covers p (k, r)" using e 2 by (auto simp: covers_def)
      ultimately show False using covers_unique [OF ok _ 2(1)] by blast
    qed (use e p in auto)
  qed
  moreover have "straddles m q" if sq: "straddles ?n q"
  proof -
    from sq obtain e where e: "e \<in> set ?n" "wide (fst e) < q" "q < rg_end (snd e)"
      by (auto simp: straddles_def)
    from in_n [OF e(1)] show ?thesis
    proof (elim disjE conjE)
      assume "e = ?l"
      then have "wide k < q" "q < rg_end r" using e(2,3) 2(3) by auto
      then show ?thesis unfolding straddles_def by (intro bexI [OF _ 2(1)]) simp
    next
      assume "e = ?r"
      then have "wide k < q" "q < rg_end r" using e(2,3) 2(2) p by auto
      then show ?thesis unfolding straddles_def by (intro bexI [OF _ 2(1)]) simp
    qed (use e in \<open>auto simp: straddles_def\<close>)
  qed
  ultimately show ?thesis using ok_n same by blast
qed

section \<open>Coalescing\<close>

lemma coalesce_ok:
  "regions_ok m \<Longrightarrow> regions_ok (coalesce m) \<and> attributes_at (coalesce m) = attributes_at m \<and>
    canonical (coalesce m) \<and> (m \<noteq> [] \<longrightarrow> coalesce m \<noteq> [] \<and> fst (hd (coalesce m)) = fst (hd m) \<and>
      region_attributes (snd (hd (coalesce m))) = region_attributes (snd (hd m)))"
proof (induction m rule: coalesce.induct)
  case (1 k r k' r' m)
  show ?case
  proof (cases "mergeable r k' r'")
    case True
    let ?e = "(k, r\<lparr>rg_end := rg_end r'\<rparr>)"
    from True have adjacent: "rg_end r = wide k'"
      and same: "region_attributes r' = region_attributes r"
      by (auto simp: mergeable_def region_attributes_def)
    have "wide k < wide k'" "wide k' < rg_end r'"
      using 1(3) adjacent by (auto simp: regions_ok_Cons region_ok_def)
    note steps = this
    then have "wide k < rg_end r'" by (rule less_trans)
    then have ok: "regions_ok (?e # m)"
      using 1(3) adjacent by (auto simp: regions_ok_Cons region_ok_def apart_def)
    have "covers a ?e \<longleftrightarrow> covers a (k, r) \<or> covers a (k', r')" for a
    proof -
      have "wide k \<le> a \<and> a < rg_end r' \<longleftrightarrow>
        (wide k \<le> a \<and> a < wide k') \<or> (wide k' \<le> a \<and> a < rg_end r')"
        using steps unfolding word_less_nat_alt word_le_nat_alt by auto
      with adjacent show ?thesis by (simp add: covers_def)
    qed
    moreover have "region_attributes (r\<lparr>rg_end := rg_end r'\<rparr>) = region_attributes r"
      by (simp add: region_attributes_def)
    ultimately have "attributes_at (?e # m) = attributes_at ((k, r) # (k', r') # m)"
      using same by (auto simp: attributes_at_def fun_eq_iff)
    with 1(1) [OF True ok] True show ?thesis by (simp add: region_attributes_def)
  next
    case False
    let ?n = "coalesce ((k', r') # m)"
    have ok: "regions_ok ((k', r') # m)" using 1(3) by (simp add: regions_ok_Cons)
    note IH = 1(2) [OF False ok]
    then obtain r2 n2 where n: "?n = (k', r2) # n2" and r2: "region_attributes r2 = region_attributes r'"
      by (cases ?n) auto
    have "attributes_at ((k, r) # ?n) = attributes_at ((k, r) # (k', r') # m)"
      using IH by (auto simp: attributes_at_def fun_eq_iff)
    moreover have "\<not> mergeable r k' r2"
      using False r2 by (auto simp: mergeable_def region_attributes_def)
    moreover have "regions_ok ((k, r) # ?n)"
    proof -
      have "regions_ok ((k', r2) # n2)" using IH n by simp
      then have after: "\<forall>f \<in> set n2. wide k' < wide (fst f)" and ok2: "regions_ok ((k', r2) # n2)"
        by (auto simp: regions_ok_Cons dest: apart_wider)
      have kr: "rg_end r \<le> wide k'" "region_ok (k, r)"
        using 1(3) by (auto simp: regions_ok_Cons apart_def)
      have "\<forall>f \<in> set n2. rg_end r \<le> wide (fst f)"
        using after kr(1) by (blast intro: less_imp_le order_trans)
      then show ?thesis using kr ok2 unfolding n regions_ok_Cons [of "(k, r)"] by (simp add: apart_def)
    qed
    ultimately show ?thesis using False IH n by simp
  qed
qed simp_all

lemma coalesce_vm_map_ok: "regions_ok m \<Longrightarrow> vm_map_ok (coalesce m)"
  by (simp add: coalesce_ok vm_map_ok_def)

lemma coalesce_attributes [simp]: "regions_ok m \<Longrightarrow> attributes_at (coalesce m) = attributes_at m"
  by (simp add: coalesce_ok)

section \<open>Filling gaps and adding permissions\<close>

definition mapped_over ::
  "u64 \<Rightarrow> u64 \<Rightarrow> memory_permission \<Rightarrow> vm_attributes \<Rightarrow> (u64 \<Rightarrow> attributes option) \<Rightarrow>
   u64 \<Rightarrow> attributes option" where
  "mapped_over start stop perms attrs f a =
    (if start \<le> a \<and> a < stop
     then case f a of
         None \<Rightarrow> Some (perms, va_inheritance attrs, va_maximum attrs)
       | Some (p, i, x) \<Rightarrow> Some (p OR perms, i, x)
     else f a)"

lemma emplace_region:
  assumes ok: "regions_ok m" and e: "region_ok (c, r)"
    and free: "\<forall>a. covers a (c, r) \<longrightarrow> attributes_at m a = None"
  shows "regions_ok (emplace c r m)"
    and "attributes_at (emplace c r m) =
      (\<lambda>a. if covers a (c, r) then Some (region_attributes r) else attributes_at m a)"
    and "set (emplace c r m) = insert (c, r) (set m)"
proof -
  have ord: "ordered m" using ok by (rule regions_ok_ordered)
  have disjoint: "\<not> (covers a (c, r) \<and> covers a f)" if "f \<in> set m" for a f
    using free that by (auto simp: attributes_none)
  have start: "covers (wide c) (c, r)" using e by (simp add: covers_def region_ok_def)
  have new: "c \<notin> fst ` set m"
  proof
    assume "c \<in> fst ` set m"
    then obtain s where "(c, s) \<in> set m" by auto
    then show False using disjoint [of "(c, s)" "wide c"] start ok
      by (auto simp: covers_def regions_ok_iff region_ok_def)
  qed
  show set: "set (emplace c r m) = insert (c, r) (set m)"
    using new by (simp add: set_emplace [OF ord])
  have before: "apart f (c, r)" if "f \<in> set m" "fst f < c" for f
    using disjoint [OF that(1), of "wide c"] start that(2)
    by (auto simp: covers_def apart_def not_less)
  have after: "apart (c, r) f" if "f \<in> set m" "c < fst f" for f
  proof -
    have "covers (wide (fst f)) f" using ok that(1) by (simp add: regions_ok_iff region_ok_def covers_def)
    then show ?thesis using disjoint [OF that(1), of "wide (fst f)"] that(2)
      by (auto simp: covers_def apart_def not_less)
  qed
  show new_ok: "regions_ok (emplace c r m)"
  proof (rule regions_okI)
    show "ordered (emplace c r m)" by (rule ordered_emplace [OF ord])
    show "region_ok f" if "f \<in> set (emplace c r m)" for f
      using that set e ok by (auto simp: regions_ok_iff)
    show "apart f g" if "f \<in> set (emplace c r m)" "g \<in> set (emplace c r m)" "fst f < fst g" for f g
      using that before after ok unfolding set by (cases f; cases g) (auto simp: regions_ok_iff)
  qed
  have "attributes_at (emplace c r m) a = Some x \<longleftrightarrow>
    (if covers a (c, r) then Some (region_attributes r) else attributes_at m a) = Some x" for a x
    using disjoint [of _ a]
    by (auto simp: attributes_iff [OF new_ok] attributes_iff [OF ok] set)
  then show "attributes_at (emplace c r m) =
      (\<lambda>a. if covers a (c, r) then Some (region_attributes r) else attributes_at m a)"
    by (rule map_eqI)
qed

lemma modify_region:
  assumes ok: "regions_ok m" and e: "(c, r) \<in> set m" and same: "rg_end (f r) = rg_end r"
  shows "regions_ok (modify c f m)"
    and "attributes_at (modify c f m) =
      (\<lambda>a. if covers a (c, r) then Some (region_attributes (f r)) else attributes_at m a)"
    and "straddles (modify c f m) p \<longleftrightarrow> straddles m p"
proof -
  have ord: "ordered m" using ok by (rule regions_ok_ordered)
  have set: "set (modify c f m) = insert (c, f r) (set m - {(c, r)})"
    using ord e by (rule set_modify_at)
  have split: "(\<exists>e \<in> set m. Q e) \<longleftrightarrow> Q (c, r) \<or> (\<exists>e \<in> set m - {(c, r)}. Q e)" for Q
    using e by blast
  have alike: "region_ok (c, f r) \<longleftrightarrow> region_ok (c, r)" "apart (c, f r) g \<longleftrightarrow> apart (c, r) g"
    "apart g (c, f r) \<longleftrightarrow> apart g (c, r)" "covers a (c, f r) \<longleftrightarrow> covers a (c, r)" for g a
    by (simp_all add: region_ok_def apart_def covers_def same)
  show new_ok: "regions_ok (modify c f m)"
  proof (rule regions_okI)
    show "ordered (modify c f m)" using ord by simp
    show "region_ok f'" if "f' \<in> set (modify c f m)" for f'
      using that set ok e alike by (auto simp: regions_ok_iff)
    show "apart g h" if "g \<in> set (modify c f m)" "h \<in> set (modify c f m)" "fst g < fst h" for g h
      using that ok e alike unfolding set by (cases g; cases h) (fastforce simp: regions_ok_iff)
  qed
  have "attributes_at (modify c f m) a = Some x \<longleftrightarrow>
    (if covers a (c, r) then Some (region_attributes (f r)) else attributes_at m a) = Some x" for a x
    unfolding attributes_iff [OF new_ok] set using covers_unique [OF ok e, of _ a] alike
    by (auto simp: attributes_iff [OF ok])
  then show "attributes_at (modify c f m) =
      (\<lambda>a. if covers a (c, r) then Some (region_attributes (f r)) else attributes_at m a)"
    by (rule map_eqI)
  show "straddles (modify c f m) p \<longleftrightarrow> straddles m p"
    unfolding straddles_def split set by (simp add: same)
qed

lemma straddles_emplace:
  assumes "set (emplace c r m) = insert (c, r) (set m)"
  shows "straddles (emplace c r m) p \<longleftrightarrow> (wide c < p \<and> p < rg_end r) \<or> straddles m p"
  by (simp add: straddles_def assms)

lemma closer:
  fixes cursor g stop :: u64
  shows "cursor < g \<Longrightarrow> g \<le> stop \<Longrightarrow> unat stop - unat g < unat stop - unat cursor"
  unfolding word_less_nat_alt word_le_nat_alt by linarith

lemma map_or_loop_maps:
  assumes "regions_ok m" "\<not> straddles m cursor" "\<not> straddles m stop"
    "cursor \<le> stop" "stop \<le> address_space_end"
  shows "\<exists>m'. map_or_loop stop perms attrs cursor m = Some m' \<and> regions_ok m' \<and>
    attributes_at m' = mapped_over cursor stop perms attrs (attributes_at m)"
  using assms
proof (induction "unat stop - unat cursor" arbitrary: cursor m rule: less_induct)
  case less
  note ok = less.prems(1)
  have ord: "ordered m" using ok by (rule regions_ok_ordered)
  show ?case
  proof (cases "stop \<le> cursor")
    case True
    then have "mapped_over cursor stop perms attrs (attributes_at m) = attributes_at m"
      by (intro ext) (auto simp: mapped_over_def)
    with True ok show ?thesis by (simp add: map_or_loop.simps)
  next
    case False
    let ?c = "ucast cursor :: u32" and ?region = "lower_bound (ucast cursor) m"
    have c: "wide ?c = cursor" using False less.prems(5) by (intro wide_ucast) order
    have none_before: "cursor \<le> wide (fst e) \<or> rg_end (snd e) \<le> cursor" if "e \<in> set m" for e
      using less.prems(2) that by (auto simp: straddles_def not_less)
    show ?thesis
    proof (cases "?region = [] \<or> cursor < wide (fst (hd ?region))")
      case gap: True
      define g where "g = (if ?region = [] then stop else min stop (wide (fst (hd ?region))))"
      define r where "r = \<lparr>rg_end = g, rg_permissions = perms,
        rg_inheritance = va_inheritance attrs, rg_maximum = va_maximum attrs\<rparr>"
      have g: "cursor < g" "g \<le> stop" using gap False by (auto simp: g_def)
      have later: "g \<le> wide (fst e)" if "e \<in> set m" "cursor \<le> wide (fst e)" for e
      proof -
        have "?c \<le> fst e" using that(2) c by (metis wide_le_iff)
        then show ?thesis
          using lower_bound_end [OF ord _ that(1), of ?c] lower_bound_first(3) [OF ord _ that(1), of ?c]
          by (cases ?region) (auto simp: g_def min_le_iff_disj dest: leD)
      qed
      have free: "attributes_at m a = None" if "covers a (?c, r)" for a
      proof -
        from that have a: "cursor \<le> a" "a < g" by (simp_all add: covers_def c r_def)
        have "\<not> covers a e" if "e \<in> set m" for e
          using none_before [OF that] later [OF that] a unfolding covers_def by (auto; order)
        then show ?thesis by (simp add: attributes_none)
      qed
      have r_ok: "region_ok (?c, r)" using g less.prems(5) c by (simp add: region_ok_def r_def)
      have "\<forall>a. covers a (?c, r) \<longrightarrow> attributes_at m a = None" using free by blast
      note new = emplace_region [OF ok r_ok this]
      have r_end: "rg_end r = g" by (simp add: r_def)
      have r_attrs: "region_attributes r = (perms, va_inheritance attrs, va_maximum attrs)"
        by (simp add: r_def region_attributes_def)
      have r_covers: "covers a (?c, r) \<longleftrightarrow> cursor \<le> a \<and> a < g" for a
        by (simp add: covers_def c r_end)
      have no_g: "\<not> straddles m g" and no_stop: "\<not> straddles (emplace ?c r m) stop"
      proof -
        show "\<not> straddles m g"
        proof
          assume "straddles m g"
          then obtain e where e: "e \<in> set m" "wide (fst e) < g" "g < rg_end (snd e)"
            by (auto simp: straddles_def)
          from none_before [OF e(1)] show False
          proof
            assume "cursor \<le> wide (fst e)"
            from later [OF e(1) this] e(2) show False by order
          next
            assume "rg_end (snd e) \<le> cursor"
            with e(3) g(1) show False by order
          qed
        qed
        show "\<not> straddles (emplace ?c r m) stop"
          using less.prems(3) g by (simp add: straddles_emplace [OF new(3)] r_end not_less)
      qed
      have "\<not> straddles (emplace ?c r m) g"
        using no_g by (simp add: straddles_emplace [OF new(3)] r_end)
      then obtain m' where m': "map_or_loop stop perms attrs g (emplace ?c r m) = Some m'"
        "regions_ok m'"
        "attributes_at m' = mapped_over g stop perms attrs (attributes_at (emplace ?c r m))"
        using less.hyps [OF closer [OF g], of "emplace ?c r m"] new(1) no_stop g less.prems(5)
        by blast
      have "mapped_over g stop perms attrs (attributes_at (emplace ?c r m)) =
        mapped_over cursor stop perms attrs (attributes_at m)"
        using free g unfolding new(2) r_covers r_attrs
        by (intro ext) (auto simp: mapped_over_def)
      with m' gap False show ?thesis
        by (subst map_or_loop.simps) (simp add: g_def r_def)
    next
      case update: False
      then obtain k r rest where region: "?region = (k, r) # rest" by (cases ?region) auto
      note first = lower_bound_first [OF ord region]
      have k: "k = ?c" using update region first(2) c by (simp add: not_less) (metis antisym c wide_le_iff)
      define f :: "vm_region \<Rightarrow> vm_region" where "f = (\<lambda>r. r\<lparr>rg_permissions := rg_permissions r OR perms\<rparr>)"
      have in_m: "(?c, r) \<in> set m" using first(1) k by simp
      have ends: "cursor < rg_end r" "rg_end r \<le> stop"
      proof -
        show "cursor < rg_end r" using ok in_m c by (auto simp: regions_ok_iff region_ok_def)
        show "rg_end r \<le> stop"
          using less.prems(3) in_m False c by (auto simp: straddles_def not_less)
      qed
      note new = modify_region [OF ok in_m, of f]
      have f: "rg_end (f r) = rg_end r" by (simp add: f_def)
      have "\<not> straddles m (rg_end r)"
      proof
        assume "straddles m (rg_end r)"
        then obtain e where e: "e \<in> set m" "wide (fst e) < rg_end r" "rg_end r < rg_end (snd e)"
          by (auto simp: straddles_def)
        show False
        proof (cases "cursor \<le> wide (fst e)")
          case True
          then have "covers (wide (fst e)) e" "covers (wide (fst e)) (?c, r)"
            using e c by (auto simp: covers_def)
          then have "e = (?c, r)" by (rule covers_unique [OF ok e(1) in_m])
          with e(3) show False by simp
        next
          case False
          with none_before [OF e(1)] have "rg_end (snd e) \<le> cursor" by simp
          with e(3) ends(1) show False by order
        qed
      qed
      then obtain m' where m': "map_or_loop stop perms attrs (rg_end r) (modify ?c f m) = Some m'"
        "regions_ok m'"
        "attributes_at m' = mapped_over (rg_end r) stop perms attrs (attributes_at (modify ?c f m))"
        using less.hyps [OF closer [OF ends], of "modify ?c f m"] new f ends less.prems(3,5)
        by blast
      have attr: "attributes_at m a = Some (region_attributes r)" if "cursor \<le> a" "a < rg_end r" for a
        using that in_m c by (auto simp: attributes_iff [OF ok] covers_def intro!: bexI [of _ "(?c, r)"])
      have "mapped_over (rg_end r) stop perms attrs (attributes_at (modify ?c f m)) =
        mapped_over cursor stop perms attrs (attributes_at m)"
        using attr ends unfolding new(2) [OF f]
        by (intro ext) (auto simp: mapped_over_def covers_def c region_attributes_def f_def)
      with m' update False region k show ?thesis
        by (subst map_or_loop.simps) (simp add: f_def)
    qed
  qed
qed

section \<open>Walking over a range\<close>

lemma set_range_entries:
  assumes "ordered m"
  shows "set (range_entries s t m) = {e \<in> set m. s \<le> fst e \<and> wide (fst e) < t}"
proof -
  have takeWhile: "set (takeWhile (\<lambda>e. wide (fst e) < t) n) = {e \<in> set n. wide (fst e) < t}"
    if "ordered n" for n :: vm_map
    using that
  proof (induction n)
    case (Cons e n)
    then have "wide (fst e) < t" if "f \<in> set n" "wide (fst f) < t" for f
      using that by (meson less_trans ordered_Cons wide_less_iff)
    with Cons show ?case by auto
  qed simp
  show ?thesis
    unfolding range_entries_def takeWhile [OF ordered_lower_bound [OF assms]]
    by (auto simp: set_lower_bound [OF assms])
qed

lemma distinct_range_entries: "ordered m \<Longrightarrow> distinct (map fst (range_entries s t m))"
  unfolding range_entries_def
  by (intro ordered_distinct ordered_takeWhile ordered_lower_bound)

lemma key_in_range:
  "ordered m \<Longrightarrow> (k, r) \<in> set m \<Longrightarrow>
    k \<in> fst ` set (range_entries s t m) \<longleftrightarrow> s \<le> k \<and> wide k < t"
  by (force simp: set_range_entries)

lemma modify_range_eq:
  "ordered m \<Longrightarrow> modify_range s t f m =
    map (\<lambda>e. (fst e, if s \<le> fst e \<and> wide (fst e) < t then f (snd e) else snd e)) m"
  unfolding modify_range_def fold_modify [OF distinct_range_entries]
  by (auto simp: key_in_range)

lemma erase_range_eq:
  "ordered m \<Longrightarrow> fold (\<lambda>e. erase (fst e)) (range_entries s t m) m =
    filter (\<lambda>e. \<not> (s \<le> fst e \<and> wide (fst e) < t)) m"
  unfolding fold_erase by (rule filter_cong) (metis key_in_range prod.collapse)+

text \<open>A region that straddles neither end of a range is in it or out of it as a whole.\<close>

lemma range_whole:
  assumes "\<not> straddles m (wide s)" "\<not> straddles m t" "e \<in> set m" "covers a e"
  shows "(s \<le> fst e \<and> wide (fst e) < t) \<longleftrightarrow> (wide s \<le> a \<and> a < t)"
proof -
  have "wide s \<le> wide (fst e) \<or> rg_end (snd e) \<le> wide s" "t \<le> wide (fst e) \<or> rg_end (snd e) \<le> t"
    using assms(1-3) by (auto simp: straddles_def not_less)
  with assms(4) have "(wide s \<le> wide (fst e) \<and> wide (fst e) < t) \<longleftrightarrow> (wide s \<le> a \<and> a < t)"
    unfolding covers_def word_less_nat_alt word_le_nat_alt by auto
  then show ?thesis by simp
qed

definition changed_over ::
  "u64 \<Rightarrow> u64 \<Rightarrow> (attributes \<Rightarrow> attributes option) \<Rightarrow> (u64 \<Rightarrow> attributes option) \<Rightarrow>
   u64 \<Rightarrow> attributes option" where
  "changed_over start stop g f a =
    (if start \<le> a \<and> a < stop then Option.bind (f a) g else f a)"

lemma find_map_same:
  "(\<And>e. e \<in> set m \<Longrightarrow> P (h e) = P e) \<Longrightarrow> find P (map h m) = map_option h (find P m)"
  by (induction m) auto

lemma find_filter_whole:
  "(\<And>e. e \<in> set m \<Longrightarrow> P e \<Longrightarrow> Q e = q) \<Longrightarrow> find P (filter Q m) = (if q then find P m else None)"
  by (induction m) auto

lemma find_append_none: "find P xs = None \<Longrightarrow> find P (xs @ ys) = find P ys"
  by (induction xs) (auto split: if_splits)

lemma find_in: "find P m = Some e \<Longrightarrow> e \<in> set m \<and> P e"
  by (auto simp: find_Some_iff)

lemma modify_range_ok:
  assumes ok: "regions_ok m" and whole: "\<not> straddles m (wide s)" "\<not> straddles m t"
    and f: "\<And>r. rg_end (f r) = rg_end r" "\<And>r. region_attributes (f r) = g (region_attributes r)"
  shows "regions_ok (modify_range s t f m) \<and> attributes_at (modify_range s t f m) =
    changed_over (wide s) t (Some \<circ> g) (attributes_at m)"
proof -
  define h where "h = (\<lambda>e. (fst e, if s \<le> fst e \<and> wide (fst e) < t then f (snd e) else snd e))"
  note eq = modify_range_eq [OF regions_ok_ordered [OF ok], of s t f, folded h_def]
  have "rg_end (snd (h e)) = rg_end (snd e)" "fst (h e) = fst e" for e by (simp_all add: f h_def)
  then have alike: "region_ok (h e) = region_ok e" "apart (h e) (h e') = apart e e'"
    "covers a (h e) = covers a e" for e e' a
    by (simp_all add: region_ok_def apart_def covers_def)
  have "regions_ok (map h m)"
    using ok unfolding regions_ok_def by (simp add: list_all_iff sorted_wrt_map alike)
  moreover have "attributes_at (map h m) a = changed_over (wide s) t (Some \<circ> g) (attributes_at m) a" for a
  proof (cases "find (covers a) m")
    case None
    then show ?thesis
      by (simp add: attributes_at_def find_map_same alike changed_over_def)
  next
    case (Some e)
    from find_in [OF Some] have "e \<in> set m" "covers a e" by simp_all
    then have whole: "(s \<le> fst e \<and> wide (fst e) < t) = (wide s \<le> a \<and> a < t)"
      by (rule range_whole [OF whole])
    have "find (covers a) (map h m) = Some (h e)" using Some alike by (simp add: find_map_same)
    with Some show ?thesis
      unfolding attributes_at_def changed_over_def h_def whole by (simp add: f(2))
  qed
  ultimately show ?thesis unfolding eq by (simp add: fun_eq_iff)
qed

lemma erase_range_ok:
  assumes ok: "regions_ok m" and whole: "\<not> straddles m (wide s)" "\<not> straddles m t"
  shows "regions_ok (fold (\<lambda>e. erase (fst e)) (range_entries s t m) m) \<and>
    attributes_at (fold (\<lambda>e. erase (fst e)) (range_entries s t m) m) =
      changed_over (wide s) t (\<lambda>x. None) (attributes_at m)"
proof -
  have "regions_ok (filter (\<lambda>e. \<not> (s \<le> fst e \<and> wide (fst e) < t)) m)"
    using ok unfolding regions_ok_def by (simp add: list_all_iff sorted_wrt_filter)
  moreover have "find (covers a) (filter (\<lambda>e. \<not> (s \<le> fst e \<and> wide (fst e) < t)) m) =
    (if \<not> (wide s \<le> a \<and> a < t) then find (covers a) m else None)" for a
    using range_whole [OF whole, of _ a] by (intro find_filter_whole) blast
  ultimately show ?thesis
    unfolding erase_range_eq [OF regions_ok_ordered [OF ok]]
    by (auto simp: attributes_at_def changed_over_def fun_eq_iff)
qed

text \<open>Every update first splits at both ends of its range.\<close>

lemma split_range_ok:
  assumes "regions_ok m"
  shows "regions_ok (split_at t (split_at (wide s) m))"
    "attributes_at (split_at t (split_at (wide s) m)) = attributes_at m"
    "\<not> straddles (split_at t (split_at (wide s) m)) (wide s)"
    "\<not> straddles (split_at t (split_at (wide s) m)) t"
  using split_at_ok [OF assms, of "wide s"] split_at_ok [of "split_at (wide s) m" t "wide s"]
  by simp_all

section \<open>Walking while the range is covered\<close>

fun walk :: "(vm_region \<Rightarrow> bool) \<Rightarrow> u64 \<Rightarrow> u64 \<Rightarrow> vm_map \<Rightarrow> bool" where
  "walk P stop cursor [] \<longleftrightarrow> \<not> cursor < stop"
| "walk P stop cursor ((k, r) # rest) \<longleftrightarrow> (cursor < stop \<longrightarrow>
    wide k \<le> cursor \<and> cursor < rg_end r \<and> P r \<and> walk P stop (rg_end r) rest)"

lemma walk_past: "stop \<le> cursor \<Longrightarrow> walk P stop cursor m"
  by (cases m) auto

lemma accessible_loop_walk:
  "accessible_loop stop access cursor m \<longleftrightarrow>
    walk (\<lambda>r. has_permission (rg_permissions r) access) stop cursor m"
  by (induction m arbitrary: cursor) (auto simp: not_le not_less walk_past)

lemma protect_check_walk:
  "protect_check stop perms copy cursor m = ProtectionNone \<longleftrightarrow>
    walk (\<lambda>r. has_permission (rg_maximum r OR (if copy then perm_write else perm_none)) perms)
      stop cursor m"
  by (induction m arbitrary: cursor) (simp_all split: if_split add: not_le split_paired_all, auto)

lemma attributes_Cons:
  "attributes_at (e # m) a = (if covers a e then Some (region_attributes (snd e)) else attributes_at m a)"
  by (simp add: attributes_at_def)

lemma walk_iff:
  assumes "regions_ok m" "\<forall>e \<in> set (tl m). cursor < wide (fst e)"
    and P: "\<And>r. P r = Q (region_attributes r)"
  shows "walk P stop cursor m \<longleftrightarrow>
    (\<forall>a. cursor \<le> a \<and> a < stop \<longrightarrow> (\<exists>x. attributes_at m a = Some x \<and> Q x))"
  using assms(1,2)
proof (induction m arbitrary: cursor)
  case Nil
  then show ?case by (auto simp: attributes_at_def dest: le_less_trans)
next
  case (Cons e m)
  obtain k r where e: "e = (k, r)" by fastforce
  have r: "wide k < rg_end r" using Cons.prems(1) by (simp add: e regions_ok_Cons region_ok_def)
  have after: "\<forall>f \<in> set (tl m). rg_end r < wide (fst f)"
  proof (cases m)
    case (Cons f n)
    have "rg_end r \<le> wide (fst f)" "\<forall>g \<in> set n. wide (fst f) < wide (fst g)"
      using Cons.prems(1) unfolding Cons e by (simp_all add: regions_ok_Cons apart_def apart_wider)
    then show ?thesis unfolding Cons by (auto dest: le_less_trans simp del: wide_less_iff)
  qed simp
  have IH: "walk P stop (rg_end r) m \<longleftrightarrow>
    (\<forall>a. rg_end r \<le> a \<and> a < stop \<longrightarrow> (\<exists>x. attributes_at m a = Some x \<and> Q x))"
    using Cons.IH [OF _ after] Cons.prems(1) by (simp add: regions_ok_Cons)
  have rest: "attributes_at m a = None" if "a < rg_end r" for a
    using Cons.prems(1) that
    by (auto simp: e attributes_none regions_ok_Cons apart_def covers_def dest: less_le_trans)
  show ?case
  proof (cases "cursor < stop")
    case False
    then show ?thesis unfolding e by (auto dest: le_less_trans)
  next
    case True
    have here: "(\<forall>a. cursor \<le> a \<and> a < stop \<longrightarrow> (\<exists>x. attributes_at (e # m) a = Some x \<and> Q x)) \<longleftrightarrow>
      wide k \<le> cursor \<and> cursor < rg_end r \<and> P r \<and>
      (\<forall>a. rg_end r \<le> a \<and> a < stop \<longrightarrow> (\<exists>x. attributes_at m a = Some x \<and> Q x))" (is "?all \<longleftrightarrow> ?walk")
    proof
      assume all: ?all
      then obtain x where x: "attributes_at (e # m) cursor = Some x" "Q x" using True by blast
      have "attributes_at m cursor = None"
        using Cons.prems(2) by (auto simp: attributes_none covers_def not_le)
      with x have at: "covers cursor e" "P r" by (auto simp: attributes_Cons P e split: if_splits)
      have "\<exists>x. attributes_at m a = Some x \<and> Q x" if "rg_end r \<le> a" "a < stop" for a
      proof -
        have "cursor \<le> a" "\<not> covers a e" using at(1) that by (auto simp: covers_def e)
        with all that show ?thesis by (auto simp: attributes_Cons)
      qed
      with at show ?walk by (auto simp: covers_def e)
    next
      assume w: ?walk
      show ?all
      proof (intro allI impI)
        fix a assume a: "cursor \<le> a \<and> a < stop"
        show "\<exists>x. attributes_at (e # m) a = Some x \<and> Q x"
        proof (cases "a < rg_end r")
          case True
          then have "covers a e" using w a by (auto simp: covers_def e)
          with w show ?thesis by (simp add: attributes_Cons e P)
        next
          case False
          then have "\<not> covers a e" by (simp add: covers_def e)
          with w a False show ?thesis by (simp add: attributes_Cons not_less)
        qed
      qed
    qed
    show ?thesis unfolding here IH [symmetric] using True by (simp add: e)
  qed
qed

text \<open>From an address on, the regions at and after an iterator are the whole map.\<close>

lemma containing_or_after_none:
  "regions_ok m \<Longrightarrow> containing_or_after s m = None \<Longrightarrow> attributes_at m (wide s) = None"
  using up_to_none [OF regions_ok_ordered, of m s]
  by (fastforce simp: containing_or_after_def attributes_none covers_def split: if_splits)

lemma containing_or_after_some:
  assumes ok: "regions_ok m" and it: "containing_or_after s m = Some n"
  shows "regions_ok n" "\<forall>e \<in> set (tl n). wide s < wide (fst e)"
    "wide s \<le> a \<Longrightarrow> attributes_at n a = attributes_at m a"
proof -
  have ord: "ordered m" using ok by (rule regions_ok_ordered)
  let ?u = "up_to s m"
  from it have u: "?u \<noteq> []" and n: "n = last ?u # upper_bound s m"
    by (auto simp: containing_or_after_def split: if_splits)
  have m: "m = butlast ?u @ n"
    using up_to_upper_bound [of s m] append_butlast_last_id [OF u] n by (metis append.assoc append_Cons append_Nil)
  have "sorted_wrt apart (butlast ?u @ n)" "list_all region_ok (butlast ?u @ n)"
    using ok m by (simp_all add: regions_ok_def)
  then have n_ok: "list_all region_ok n" "sorted_wrt apart n"
    and sep: "\<And>e f. e \<in> set (butlast ?u) \<Longrightarrow> f \<in> set n \<Longrightarrow> apart e f"
    by (auto simp: sorted_wrt_append)
  show "regions_ok n" using n_ok by (simp add: regions_ok_def)
  show "\<forall>e \<in> set (tl n). wide s < wide (fst e)" by (simp add: n set_upper_bound [OF ord])
  show "attributes_at n a = attributes_at m a" if "wide s \<le> a"
  proof -
    have "fst (last ?u) \<le> s" using last_in_set [OF u] by (simp add: set_up_to [OF ord])
    then have "wide (fst (last ?u)) \<le> a" using that by (metis order_trans wide_le_iff)
    moreover have "last ?u \<in> set n" by (simp add: n)
    ultimately have "rg_end (snd e) \<le> a" if "e \<in> set (butlast ?u)" for e
      using sep [OF that, of "last ?u"] unfolding apart_def by (blast intro: order_trans)
    then have "\<not> covers a e" if "e \<in> set (butlast ?u)" for e
      using that by (simp add: covers_def not_less)
    then have "find (covers a) (butlast ?u) = None" by (metis find_None_iff)
    then have "find (covers a) m = find (covers a) n"
      by (subst m) (auto simp: find_append_none)
    then show ?thesis by (simp add: attributes_at_def)
  qed
qed

lemma containing_walk:
  assumes ok: "regions_ok m" and P: "\<And>r. P r = Q (region_attributes r)" and "wide s < stop"
  shows "(case containing_or_after s m of None \<Rightarrow> False | Some n \<Rightarrow> walk P stop (wide s) n) \<longleftrightarrow>
    (\<forall>a. wide s \<le> a \<and> a < stop \<longrightarrow> (\<exists>x. attributes_at m a = Some x \<and> Q x))"
proof (cases "containing_or_after s m")
  case None
  with containing_or_after_none [OF ok] assms(3) show ?thesis by auto
next
  case (Some n)
  note it = containing_or_after_some [OF ok Some]
  show ?thesis
    using walk_iff [OF it(1,2), of P Q stop] it(3) P by (auto simp: Some)
qed

section \<open>What the updates do\<close>

lemma map_or_maps:
  assumes ok: "regions_ok m" and range: "valid_range s t"
  shows "\<exists>m'. map_or s t perms attrs m = Some m' \<and> vm_map_ok m' \<and>
    attributes_at m' = mapped_over (wide s) t perms attrs (attributes_at m)"
proof -
  let ?m = "split_at t (split_at (wide s) m)"
  note split = split_range_ok [OF ok, of t s]
  obtain m' where m': "map_or_loop t perms attrs (wide s) ?m = Some m'" "regions_ok m'"
    "attributes_at m' = mapped_over (wide s) t perms attrs (attributes_at ?m)"
    using map_or_loop_maps [OF split(1,3,4), of perms attrs] range
    by (auto simp: valid_range_def less_imp_le)
  with range split(2) show ?thesis by (simp add: map_or_def coalesce_vm_map_ok)
qed

lemma unmap_unmaps:
  assumes "regions_ok m" "valid_range s t"
  shows "vm_map_ok (vm_unmap s t m) \<and>
    attributes_at (vm_unmap s t m) = changed_over (wide s) t (\<lambda>x. None) (attributes_at m)"
  using erase_range_ok [OF split_range_ok(1,3,4) [OF assms(1), where s = s and t = t]]
    split_range_ok(2) [OF assms(1), where s = s and t = t] assms(2)
  by (simp add: vm_unmap_def Let_def coalesce_vm_map_ok)

lemma modify_split_range:
  assumes "regions_ok m" "\<And>r. rg_end (f r) = rg_end r"
    "\<And>r. region_attributes (f r) = g (region_attributes r)"
  shows "vm_map_ok (coalesce (modify_range s t f (split_at t (split_at (wide s) m)))) \<and>
    attributes_at (coalesce (modify_range s t f (split_at t (split_at (wide s) m)))) =
      changed_over (wide s) t (Some \<circ> g) (attributes_at m)"
  using modify_range_ok [OF split_range_ok(1,3,4) [OF assms(1), where s = s and t = t] assms(2,3)]
    split_range_ok(2) [OF assms(1), where s = s and t = t]
  by (simp add: coalesce_vm_map_ok)

definition inherited :: "vm_inheritance \<Rightarrow> attributes \<Rightarrow> attributes" where
  "inherited i = (\<lambda>(p, _, x). (p, i, x))"

definition protected :: "memory_permission \<Rightarrow> bool \<Rightarrow> bool \<Rightarrow> attributes \<Rightarrow> attributes" where
  "protected perms set_maximum copy = (\<lambda>(p, i, x).
    if set_maximum then (p AND perms, i, perms)
    else (perms, i, if copy then x OR perm_write else x))"

lemma inherit_inherits:
  assumes "regions_ok m" "valid_range s t"
  shows "fst (vm_inherit s t i m) \<and> vm_map_ok (snd (vm_inherit s t i m)) \<and>
    attributes_at (snd (vm_inherit s t i m)) =
      changed_over (wide s) t (Some \<circ> inherited i) (attributes_at m)"
  using modify_split_range [OF assms(1), of "\<lambda>r. r\<lparr>rg_inheritance := i\<rparr>" "inherited i" s t] assms(2)
  by (simp add: vm_inherit_def Let_def inherited_def region_attributes_def)

lemma protect_entry_attributes:
  "rg_end (protect_entry perms set_maximum copy r) = rg_end r"
  "region_attributes (protect_entry perms set_maximum copy r) =
    protected perms set_maximum copy (region_attributes r)"
  by (simp_all add: protect_entry_def protected_def region_attributes_def Let_def)

text \<open>The flag that tells the caller to retire translated code.\<close>

lemma some_region_in_range:
  assumes ok: "regions_ok m" and whole: "\<not> straddles m (wide s)" "\<not> straddles m t"
    and P: "\<And>r. P r = Q (region_attributes r)"
  shows "list_ex (\<lambda>(k, r). P r) (range_entries s t m) \<longleftrightarrow>
    (\<exists>a x. wide s \<le> a \<and> a < t \<and> attributes_at m a = Some x \<and> Q x)" (is "?some \<longleftrightarrow> ?at")
proof
  assume ?some
  then obtain e where e: "e \<in> set m" "s \<le> fst e" "wide (fst e) < t" "P (snd e)"
    by (auto simp: list_ex_iff set_range_entries [OF regions_ok_ordered [OF ok]])
  then have "covers (wide (fst e)) e" using ok by (simp add: regions_ok_iff region_ok_def covers_def)
  with e(1) have "attributes_at m (wide (fst e)) = Some (region_attributes (snd e))"
    by (auto simp: attributes_iff [OF ok])
  with e show ?at by (intro exI [of _ "wide (fst e)"] exI [of _ "region_attributes (snd e)"]) (simp add: P)
next
  assume ?at
  then obtain a e where a: "wide s \<le> a" "a < t" and e: "e \<in> set m" "covers a e" "P (snd e)"
    by (auto simp: attributes_iff [OF ok] P)
  with range_whole [OF whole e(1,2)]
  have "e \<in> set (range_entries s t m)" "(\<lambda>(k, r). P r) e"
    by (auto simp: set_range_entries [OF regions_ok_ordered [OF ok]] split: prod.split)
  then show ?some by (auto simp: list_ex_iff)
qed

lemma protect_checked:
  assumes ok: "regions_ok m"
  shows "pr_error (fst (vm_protect s t perms set_maximum copy m)) = ProtectionNone \<longleftrightarrow>
    valid_range s t \<and> (\<forall>a. wide s \<le> a \<and> a < t \<longrightarrow> (\<exists>p i x. attributes_at m a = Some (p, i, x) \<and>
      has_permission (x OR (if copy then perm_write else perm_none)) perms))"
proof (cases "valid_range s t")
  case True
  let ?P = "\<lambda>r. has_permission (rg_maximum r OR (if copy then perm_write else perm_none)) perms"
    and ?Q = "\<lambda>(p, i, x). has_permission (x OR (if copy then perm_write else perm_none)) perms"
  have "pr_error (fst (vm_protect s t perms set_maximum copy m)) = ProtectionNone \<longleftrightarrow>
    (case containing_or_after s m of None \<Rightarrow> False | Some n \<Rightarrow> walk ?P t (wide s) n)"
    using True protect_check_walk [of t perms copy "wide s"]
    by (auto simp: vm_protect_def Let_def split: option.split)
  also have "\<dots> \<longleftrightarrow> (\<forall>a. wide s \<le> a \<and> a < t \<longrightarrow> (\<exists>x. attributes_at m a = Some x \<and> ?Q x))"
    using True by (intro containing_walk [OF ok]) (simp_all add: region_attributes_def valid_range_def)
  finally show ?thesis using True by simp
qed (simp add: vm_protect_def)

lemma protect_protects:
  assumes ok: "regions_ok m"
    and success: "pr_error (fst (vm_protect s t perms set_maximum copy m)) = ProtectionNone"
  shows "vm_map_ok (snd (vm_protect s t perms set_maximum copy m)) \<and>
    attributes_at (snd (vm_protect s t perms set_maximum copy m)) =
      changed_over (wide s) t (Some \<circ> protected perms set_maximum copy) (attributes_at m)"
    and "pr_executable_changed (fst (vm_protect s t perms set_maximum copy m)) \<longleftrightarrow>
      (\<exists>a x. wide s \<le> a \<and> a < t \<and> attributes_at m a = Some x \<and>
        executable_changed (fst x) (fst (protected perms set_maximum copy x)))"
proof -
  let ?m = "split_at t (split_at (wide s) m)" and ?f = "protect_entry perms set_maximum copy"
  let ?changed = "\<lambda>r. executable_changed (rg_permissions r) (rg_permissions (?f r))"
  have result: "vm_protect s t perms set_maximum copy m =
    (\<lparr>pr_error = ProtectionNone,
      pr_executable_changed = list_ex (\<lambda>(k, r). ?changed r) (range_entries s t ?m)\<rparr>,
     coalesce (modify_range s t ?f ?m))"
    using success by (auto simp: vm_protect_def Let_def split: option.splits if_splits)
  show "vm_map_ok (snd (vm_protect s t perms set_maximum copy m)) \<and>
    attributes_at (snd (vm_protect s t perms set_maximum copy m)) =
      changed_over (wide s) t (Some \<circ> protected perms set_maximum copy) (attributes_at m)"
    unfolding result snd_conv using ok protect_entry_attributes by (rule modify_split_range)
  have "rg_permissions r = fst (region_attributes r)" for r by (simp add: region_attributes_def)
  then have "?changed r \<longleftrightarrow> executable_changed (fst (region_attributes r))
      (fst (protected perms set_maximum copy (region_attributes r)))" for r
    using protect_entry_attributes(2) by metis
  from some_region_in_range [OF split_range_ok(1,3,4) [OF ok], of ?changed, OF this]
  show "pr_executable_changed (fst (vm_protect s t perms set_maximum copy m)) \<longleftrightarrow>
      (\<exists>a x. wide s \<le> a \<and> a < t \<and> attributes_at m a = Some x \<and>
        executable_changed (fst x) (fst (protected perms set_maximum copy x)))"
    unfolding result split_range_ok(2) [OF ok] by simp
qed

end
