(* ===== verification/Vm_Map_Refinement.thy ===== *)
theory Vm_Map_Refinement
  imports Vm_Map_Spec
begin

text \<open>
  The address-space map as a data type: its interface as a locale over a view of the
  attributes of every address, the interpretation of that locale by the interval map, and the
  properties of its updates, its queries and its representation.
\<close>

section \<open>Canonical maps\<close>

lemma coversD: "covers a e \<Longrightarrow> wide (fst e) \<le> a" "covers a e \<Longrightarrow> a < rg_end (snd e)"
  by (simp_all add: covers_def)

lemma canonical_tail: "canonical (e # m) \<Longrightarrow> canonical m"
  by (cases e; cases m; cases "hd m") auto

text \<open>A region of a canonical map ends where its attributes end.\<close>

lemma first_region_ends:
  assumes ok: "regions_ok ((k, r) # m)" and "canonical ((k, r) # m)"
  shows "attributes_at ((k, r) # m) (rg_end r) \<noteq> Some (region_attributes r)"
proof
  assume "attributes_at ((k, r) # m) (rg_end r) = Some (region_attributes r)"
  then have at: "attributes_at m (rg_end r) = Some (region_attributes r)"
    by (simp add: attributes_Cons covers_def)
  have m_ok: "regions_ok m" using ok by (simp add: regions_ok_Cons)
  from at obtain e where e: "e \<in> set m" "covers (rg_end r) e" "region_attributes (snd e) = region_attributes r"
    by (auto simp: attributes_iff [OF m_ok])
  obtain f n where m: "m = f # n" using e(1) by (cases m) auto
  have "rg_end r \<le> wide (fst f)" using ok by (simp add: m regions_ok_Cons apart_def)
  moreover have "fst f < fst g" if "g \<in> set n" for g
    using regions_ok_ordered [OF m_ok] that by (simp add: m)
  ultimately have "rg_end r < wide (fst g)" if "g \<in> set n" for g
    using that by (metis le_less_trans wide_less_iff)
  moreover have "wide (fst e) \<le> rg_end r" using e(2) by (simp add: covers_def)
  ultimately have "e \<notin> set n" using leD by blast
  with e(1) have "e = f" by (simp add: m)
  with e(2) \<open>rg_end r \<le> wide (fst f)\<close> have "rg_end r = wide (fst f)" by (simp add: covers_def)
  with \<open>e = f\<close> e(3) have "mergeable r (fst f) (snd f)"
    by (simp add: mergeable_def region_attributes_def)
  with assms(2) show False by (cases f) (simp add: m)
qed

lemma region_ends:
  "regions_ok m \<Longrightarrow> canonical m \<Longrightarrow> e \<in> set m \<Longrightarrow>
    attributes_at m (rg_end (snd e)) \<noteq> Some (region_attributes (snd e))"
proof (induction m)
  case (Cons f m)
  show ?case
  proof (cases "e = f")
    case True
    with Cons.prems first_region_ends [of "fst f" "snd f" m] show ?thesis by simp
  next
    case False
    with Cons.prems have e: "e \<in> set m" by simp
    with Cons.prems(1) have "rg_end (snd f) \<le> wide (fst e)" "wide (fst e) < rg_end (snd e)"
      by (auto simp: regions_ok_Cons apart_def regions_ok_iff region_ok_def)
    then have "\<not> covers (rg_end (snd e)) f" by (simp add: covers_def) (meson less_imp_le order_trans not_le)
    with Cons.IH e Cons.prems canonical_tail [OF Cons.prems(2)] show ?thesis
      by (simp add: attributes_Cons regions_ok_Cons)
  qed
qed simp

lemma first_mapped:
  assumes "regions_ok ((k, r) # m)"
  shows "attributes_at ((k, r) # m) (wide k) = Some (region_attributes r)"
    and "attributes_at ((k, r) # m) a \<noteq> None \<Longrightarrow> wide k \<le> a"
    and "attributes_at m a = (if covers a (k, r) then None else attributes_at ((k, r) # m) a)"
proof -
  have r: "wide k < rg_end r" and later: "\<forall>e \<in> set m. rg_end r \<le> wide (fst e)"
    using assms by (simp_all add: regions_ok_Cons region_ok_def apart_def)
  show "attributes_at ((k, r) # m) (wide k) = Some (region_attributes r)"
    using r by (simp add: attributes_Cons covers_def)
  have tail: "attributes_at m a = None" if "a < rg_end r" for a
    using later that by (auto simp: attributes_none covers_def dest: less_le_trans)
  then show "attributes_at m a = (if covers a (k, r) then None else attributes_at ((k, r) # m) a)"
    by (simp add: attributes_Cons covers_def)
  show "wide k \<le> a" if "attributes_at ((k, r) # m) a \<noteq> None"
  proof (rule ccontr)
    assume "\<not> wide k \<le> a"
    then have "\<not> covers a (k, r)" "a < rg_end r" using r by (auto simp: covers_def)
    with that tail show False by (simp add: attributes_Cons)
  qed
qed

lemma canonical_unique:
  "vm_map_ok m \<Longrightarrow> vm_map_ok n \<Longrightarrow> attributes_at m = attributes_at n \<Longrightarrow> m = n"
proof (induction m arbitrary: n)
  case Nil
  then have none: "attributes_at n a = None" for a by (metis attributes_none empty_iff list.set(1))
  show ?case
  proof (cases n)
    case (Cons e n')
    with Nil(2) first_mapped(1) [of "fst e" "snd e" n'] none show ?thesis by (simp add: vm_map_ok_def)
  qed simp
next
  case (Cons e m)
  obtain k r where e: "e = (k, r)" by fastforce
  have m: "regions_ok ((k, r) # m)" "canonical ((k, r) # m)"
    using Cons.prems(1) by (simp_all add: vm_map_ok_def e)
  show ?case
  proof (cases n)
    case Nil
    then have "attributes_at ((k, r) # m) (wide k) = None"
      using Cons.prems(3) by (metis attributes_none e empty_iff list.set(1))
    with first_mapped(1) [OF m(1)] show ?thesis by simp
  next
    case n_Cons: (Cons e' n')
    obtain k' r' where e': "e' = (k', r')" by fastforce
    have n: "regions_ok ((k', r') # n')" "canonical ((k', r') # n')"
      using Cons.prems(2) by (simp_all add: vm_map_ok_def n_Cons e')
    have same: "attributes_at ((k, r) # m) = attributes_at ((k', r') # n')"
      using Cons.prems(3) by (simp add: n_Cons e e')
    have k: "k = k'"
      using first_mapped(1,2) [OF m(1)] first_mapped(1,2) [OF n(1)] same
      by (metis antisym option.distinct(1) wide_le_iff)
    have r: "region_attributes r = region_attributes r'"
      using first_mapped(1) [OF m(1)] first_mapped(1) [OF n(1)] same k by simp
    have "\<not> rg_end r < rg_end r'"
      using first_region_ends [OF m] m(1) r unfolding same
      by (auto simp: attributes_Cons covers_def k regions_ok_Cons region_ok_def less_imp_le)
    moreover have "\<not> rg_end r' < rg_end r"
      using first_region_ends [OF n] n(1) r unfolding same [symmetric]
      by (auto simp: attributes_Cons covers_def k regions_ok_Cons region_ok_def less_imp_le)
    ultimately have "r = r'" using r by (cases r; cases r') (auto simp: region_attributes_def)
    moreover have "attributes_at m = attributes_at n'"
      using first_mapped(3) [OF m(1)] first_mapped(3) [OF n(1)] same \<open>r = r'\<close> k
      by (simp add: fun_eq_iff)
    then have "m = n'"
      using Cons.IH [of n'] m n canonical_tail by (simp add: vm_map_ok_def regions_ok_Cons)
    ultimately show ?thesis by (simp add: n_Cons e e' k)
  qed
qed

section \<open>Queries\<close>

lemma accessible_iff:
  assumes "regions_ok m"
  shows "vm_accessible s t access m \<longleftrightarrow> valid_range s t \<and>
    (\<forall>a. wide s \<le> a \<and> a < t \<longrightarrow> (\<exists>x. attributes_at m a = Some x \<and> has_permission (fst x) access))"
proof (cases "valid_range s t")
  case True
  then have "wide s < t" by (simp add: valid_range_def)
  with containing_walk [OF assms, of "\<lambda>r. has_permission (rg_permissions r) access"
      "\<lambda>x. has_permission (fst x) access" s t] True
  show ?thesis
    by (simp add: vm_accessible_def accessible_loop_walk region_attributes_def cong: option.case_cong)
qed (simp add: vm_accessible_def)

lemma prev_covers:
  assumes ok: "regions_ok m" and e: "e \<in> set m" "covers (wide s) e"
  shows "up_to s m \<noteq> []" "last (up_to s m) = e"
proof -
  have ord: "ordered m" using ok by (rule regions_ok_ordered)
  have "e \<in> set (up_to s m)" using e by (simp add: set_up_to [OF ord] covers_def)
  then show nonempty: "up_to s m \<noteq> []" by auto
  obtain k r where last: "last (up_to s m) = (k, r)" by fastforce
  note kr = up_to_last [OF ord nonempty last]
  have "fst e \<le> k" using kr(3) [OF e(1)] e(2) by (simp add: covers_def)
  moreover have "\<not> fst e < k"
  proof
    assume "fst e < k"
    then have "rg_end (snd e) \<le> wide k" using ok e(1) kr(1) by (fastforce simp: regions_ok_iff apart_def)
    moreover have "wide k \<le> wide s" using kr(2) by simp
    ultimately show False using coversD [OF e(2)] by order
  qed
  ultimately have "fst e = k" by simp
  then show "last (up_to s m) = e"
    using ordered_unique [OF ord, of k "snd e" r] e(1) kr(1) last by (cases e) simp
qed

lemma after_first:
  assumes ok: "regions_ok m" and at: "attributes_at m (wide s) = None"
  shows "lower_bound s m = [] \<Longrightarrow> wide s \<le> a \<Longrightarrow> attributes_at m a = None"
    and "lower_bound s m = e # n \<Longrightarrow> e \<in> set m \<and> s < fst e \<and>
      (\<forall>a. wide s \<le> a \<and> a < wide (fst e) \<longrightarrow> attributes_at m a = None)"
proof -
  have ord: "ordered m" using ok by (rule regions_ok_ordered)
  have before: "\<not> covers a f" if "f \<in> set m" "fst f < s" "wide s \<le> a" for a f
  proof
    assume "covers a f"
    then have "covers (wide s) f" using that(2,3) by (auto simp: covers_def)
    with at that(1) show False by (simp add: attributes_none)
  qed
  show "attributes_at m a = None" if "lower_bound s m = []" "wide s \<le> a"
    using lower_bound_end [OF ord that(1)] before that(2) by (auto simp: attributes_none)
  show "e \<in> set m \<and> s < fst e \<and>
      (\<forall>a. wide s \<le> a \<and> a < wide (fst e) \<longrightarrow> attributes_at m a = None)" if "lower_bound s m = e # n"
  proof -
    have lb: "lower_bound s m = (fst e, snd e) # n" using that by simp
    note first = lower_bound_first [OF ord lb]
    have "e \<in> set m" using first(1) by simp
    have "fst e \<noteq> s"
    proof
      assume "fst e = s"
      then have "covers (wide s) e" using ok \<open>e \<in> set m\<close> by (auto simp: covers_def regions_ok_iff region_ok_def)
      with at \<open>e \<in> set m\<close> show False by (simp add: attributes_none)
    qed
    moreover have "attributes_at m a = None" if "wide s \<le> a" "a < wide (fst e)" for a
      unfolding attributes_none
    proof
      fix f assume f: "f \<in> set m"
      show "\<not> covers a f"
      proof (cases "fst f < s")
        case False
        then have "wide (fst e) \<le> wide (fst f)" using first(3) [OF f] by simp
        with that(2) have "a < wide (fst f)" by order
        then show ?thesis by (meson coversD(1) leD)
      qed (use before f that in blast)
    qed
    ultimately show ?thesis using first(1,2) by simp
  qed
qed

lemma overlaps_iff:
  assumes ok: "regions_ok m"
  shows "vm_overlaps s t m \<longleftrightarrow> valid_range s t \<and>
    (\<exists>a. wide s \<le> a \<and> a < t \<and> attributes_at m a \<noteq> None)"
proof (cases "valid_range s t")
  case False then show ?thesis by (simp add: vm_overlaps_def)
next
  case True
  then have st: "wide s < t" by (simp add: valid_range_def)
  have ord: "ordered m" using ok by (rule regions_ok_ordered)
  show ?thesis
  proof (cases "attributes_at m (wide s)")
    case None
    have "\<not> wide s < rg_end (snd e)" if "e \<in> set m" "fst e < s" for e
      using None that by (auto simp: attributes_none covers_def)
    then have before: "before = [] \<or> \<not> wide s < rg_end (snd (last before))"
      if "before = takeWhile (\<lambda>e. fst e < s) m" for before
    proof (cases "before = []")
      case False
      then have "last before \<in> set m" "fst (last before) < s"
        using last_in_set [of before] set_before [OF ord, of s] that by auto
      with \<open>\<And>e. e \<in> set m \<Longrightarrow> fst e < s \<Longrightarrow> \<not> wide s < rg_end (snd e)\<close> show ?thesis by blast
    qed simp
    show ?thesis
    proof (cases "lower_bound s m")
      case Nil
      with after_first(1) [OF ok None] before True show ?thesis
        by (auto simp: vm_overlaps_def Let_def)
    next
      case (Cons e n)
      note after = after_first(2) [OF ok None Cons]
      have "attributes_at m (wide (fst e)) \<noteq> None"
        using after ok by (auto simp: attributes_none covers_def regions_ok_iff region_ok_def)
      then have "(\<exists>a. wide s \<le> a \<and> a < t \<and> attributes_at m a \<noteq> None) \<longleftrightarrow> wide (fst e) < t"
      proof (intro iffI)
        assume "\<exists>a. wide s \<le> a \<and> a < t \<and> attributes_at m a \<noteq> None"
        then obtain a where a: "wide s \<le> a" "a < t" "attributes_at m a \<noteq> None" by blast
        with after have "wide (fst e) \<le> a" by (meson not_less)
        with a(2) show "wide (fst e) < t" by order
      next
        assume "wide (fst e) < t"
        moreover have "wide s \<le> wide (fst e)" using after by (simp add: less_imp_le)
        ultimately show "\<exists>a. wide s \<le> a \<and> a < t \<and> attributes_at m a \<noteq> None"
          using \<open>attributes_at m (wide (fst e)) \<noteq> None\<close> by blast
      qed
      with before True Cons show ?thesis by (auto simp: vm_overlaps_def Let_def)
    qed
  next
    case (Some x)
    then obtain e where e: "e \<in> set m" "covers (wide s) e" by (auto simp: attributes_iff [OF ok])
    have "vm_overlaps s t m"
    proof (cases "fst e = s")
      case True': True
      then have "e \<in> set (lower_bound s m)" using e(1) by (simp add: set_lower_bound [OF ord])
      then obtain f n where lb: "lower_bound s m = (fst f, snd f) # n" by (cases "lower_bound s m") auto
      have "fst f = s" using lower_bound_first(2,3) [OF ord lb] e(1) True' by fastforce
      with lb True st show ?thesis by (simp add: vm_overlaps_def)
    next
      case False
      then have less: "fst e < s" using e(2) by (auto simp: covers_def less_le)
      let ?b = "takeWhile (\<lambda>e. fst e < s) m"
      have "e \<in> set ?b" using e(1) less by (simp add: set_before [OF ord])
      moreover have "?b \<noteq> []" using calculation by auto
      ultimately have "fst e \<le> fst (last ?b)" "last ?b \<in> set m" "fst (last ?b) < s"
        using ordered_last [OF ordered_before [OF ord]] last_in_set [of ?b] set_before [OF ord, of s] by auto
      moreover have "\<not> fst e < fst (last ?b)"
      proof
        assume "fst e < fst (last ?b)"
        then have "rg_end (snd e) \<le> wide (fst (last ?b))"
          using ok e(1) \<open>last ?b \<in> set m\<close> by (simp add: regions_ok_iff apart_def)
        moreover have "wide (fst (last ?b)) < wide s" using \<open>fst (last ?b) < s\<close> by simp
        ultimately show False using coversD [OF e(2)] by order
      qed
      ultimately have "last ?b = e"
        using ordered_unique [OF ord, of "fst e" "snd e" "snd (last ?b)"] e(1)
        by (cases e; cases "last ?b") (auto simp: not_less)
      with \<open>?b \<noteq> []\<close> e(2) True show ?thesis by (simp add: vm_overlaps_def covers_def)
    qed
    moreover have "wide s \<le> wide s \<and> wide s < t \<and> attributes_at m (wide s) \<noteq> None"
      using Some st by simp
    ultimately show ?thesis using True by blast
  qed
qed

lemma region_at_or_after_at:
  assumes ok: "regions_ok m"
  shows "case region_at_or_after s m of
      None \<Rightarrow> \<forall>a. wide s \<le> a \<longrightarrow> attributes_at m a = None
    | Some q \<Rightarrow> (\<exists>e \<in> set m. q = mapping_of e) \<and> wide s < mr_end q \<and>
        (\<forall>a. wide s \<le> a \<and> a < wide (mr_address q) \<longrightarrow> attributes_at m a = None)"
proof (cases "attributes_at m (wide s)")
  case None
  have "\<not> (up_to s m \<noteq> [] \<and> wide s < rg_end (snd (last (up_to s m))))"
  proof
    assume inside: "up_to s m \<noteq> [] \<and> wide s < rg_end (snd (last (up_to s m)))"
    then have "last (up_to s m) \<in> set m" "fst (last (up_to s m)) \<le> s"
      using last_in_set [of "up_to s m"] set_up_to [OF regions_ok_ordered [OF ok], of s] by auto
    with inside None show False by (auto simp: attributes_none covers_def)
  qed
  then have result: "region_at_or_after s m =
    (if lower_bound s m = [] then None else Some (mapping_of (hd (lower_bound s m))))"
    by (auto simp: region_at_or_after_def Let_def)
  show ?thesis
  proof (cases "lower_bound s m")
    case Nil
    with after_first(1) [OF ok None] show ?thesis by (simp add: result)
  next
    case (Cons e n)
    note after = after_first(2) [OF ok None Cons]
    then have "wide s < wide (fst e)" "wide (fst e) < rg_end (snd e)"
      using ok by (auto simp: regions_ok_iff region_ok_def)
    then have "wide s < rg_end (snd e)" by order
    with Cons after show ?thesis by (auto simp: result mapping_of_def)
  qed
next
  case (Some x)
  then obtain e where e: "e \<in> set m" "covers (wide s) e" by (auto simp: attributes_iff [OF ok])
  note prev = prev_covers [OF ok e]
  have "region_at_or_after s m = Some (mapping_of e)"
    using prev coversD [OF e(2)] by (simp add: region_at_or_after_def Let_def)
  moreover have "\<not> (wide s \<le> a \<and> a < wide (fst e))" for a
    using coversD(1) [OF e(2)] by (meson leD order_trans)
  ultimately show ?thesis
    using e(1) coversD(2) [OF e(2)] by (auto simp: mapping_of_def)
qed

section \<open>The interface\<close>

text \<open>What a client of the map relies on: every address has at most one set of
  attributes; mapping adds permissions where there are attributes and the given ones where
  there are none; unmapping leaves none; the two queries are decided by the attributes.\<close>

locale attribute_map =
  fixes valid :: "'m \<Rightarrow> bool"
    and view :: "'m \<Rightarrow> u64 \<Rightarrow> attributes option"
    and add_range :: "u32 \<Rightarrow> u64 \<Rightarrow> memory_permission \<Rightarrow> vm_attributes \<Rightarrow> 'm \<Rightarrow> 'm option"
    and drop_range :: "u32 \<Rightarrow> u64 \<Rightarrow> 'm \<Rightarrow> 'm"
    and reachable :: "u32 \<Rightarrow> u64 \<Rightarrow> memory_permission \<Rightarrow> 'm \<Rightarrow> bool"
    and taken :: "u32 \<Rightarrow> u64 \<Rightarrow> 'm \<Rightarrow> bool"
  assumes add_view: "valid m \<Longrightarrow> valid_range s t \<Longrightarrow> \<exists>m'. add_range s t p attrs m = Some m' \<and>
      valid m' \<and> view m' = mapped_over (wide s) t p attrs (view m)"
    and drop_view: "valid m \<Longrightarrow> valid_range s t \<Longrightarrow> valid (drop_range s t m) \<and>
      view (drop_range s t m) = changed_over (wide s) t (\<lambda>x. None) (view m)"
    and reachable_view: "valid m \<Longrightarrow> reachable s t p m \<longleftrightarrow> valid_range s t \<and>
      (\<forall>a. wide s \<le> a \<and> a < t \<longrightarrow> (\<exists>x. view m a = Some x \<and> has_permission (fst x) p))"
    and taken_view: "valid m \<Longrightarrow> taken s t m \<longleftrightarrow> valid_range s t \<and>
      (\<exists>a. wide s \<le> a \<and> a < t \<and> view m a \<noteq> None)"
begin

text \<open>Mapping into a range that is free, or that was emptied first, leaves exactly the
  attributes asked for there and every other address as it was.\<close>

lemma add_fresh:
  assumes m: "valid m" and range: "valid_range s t"
    and free: "\<And>a. wide s \<le> a \<Longrightarrow> a < t \<Longrightarrow> view m a = None"
  shows "\<exists>m'. add_range s t p attrs m = Some m' \<and> valid m' \<and>
    (\<forall>a. view m' a = (if wide s \<le> a \<and> a < t
      then Some (p, va_inheritance attrs, va_maximum attrs) else view m a)) \<and>
    (\<forall>q. has_permission p q \<longrightarrow> reachable s t q m')"
proof -
  obtain m' where m': "add_range s t p attrs m = Some m'" "valid m'"
    "view m' = mapped_over (wide s) t p attrs (view m)" using add_view [OF m range] by blast
  moreover have "view m' a = (if wide s \<le> a \<and> a < t
      then Some (p, va_inheritance attrs, va_maximum attrs) else view m a)" for a
    using m'(3) free by (simp add: mapped_over_def)
  ultimately show ?thesis using range by (simp add: reachable_view)
qed

lemma add_free:
  assumes "valid m" "valid_range s t" "\<not> taken s t m"
  shows "\<exists>m'. add_range s t p attrs m = Some m' \<and> valid m' \<and>
    (\<forall>a. view m' a = (if wide s \<le> a \<and> a < t
      then Some (p, va_inheritance attrs, va_maximum attrs) else view m a)) \<and>
    (\<forall>q. has_permission p q \<longrightarrow> reachable s t q m')"
  by (rule add_fresh [OF assms(1,2)]) (use assms(2,3) taken_view [OF assms(1)] in blast)

lemma replace:
  assumes "valid m" "valid_range s t"
  shows "\<exists>m'. add_range s t p attrs (drop_range s t m) = Some m' \<and> valid m' \<and>
    (\<forall>a. view m' a = (if wide s \<le> a \<and> a < t
      then Some (p, va_inheritance attrs, va_maximum attrs) else view m a)) \<and>
    (\<forall>q. has_permission p q \<longrightarrow> reachable s t q m')"
  using add_fresh [of "drop_range s t m" s t p attrs] drop_view [OF assms] assms(2)
  by (auto simp: changed_over_def)

lemma dropped_free: "valid m \<Longrightarrow> valid_range s t \<Longrightarrow> \<not> taken s t (drop_range s t m)"
  by (simp add: drop_view taken_view changed_over_def)

end

interpretation vm: attribute_map vm_map_ok attributes_at map_or vm_unmap vm_accessible vm_overlaps
proof unfold_locales
  fix m s t p attrs
  show "vm_map_ok m \<Longrightarrow> valid_range s t \<Longrightarrow> \<exists>m'. map_or s t p attrs m = Some m' \<and>
      vm_map_ok m' \<and> attributes_at m' = mapped_over (wide s) t p attrs (attributes_at m)"
    by (simp add: vm_map_ok_def [of m] map_or_maps)
  show "vm_map_ok m \<Longrightarrow> valid_range s t \<Longrightarrow> vm_map_ok (vm_unmap s t m) \<and>
      attributes_at (vm_unmap s t m) = changed_over (wide s) t (\<lambda>x. None) (attributes_at m)"
    by (simp add: vm_map_ok_def [of m] unmap_unmaps)
  show "vm_map_ok m \<Longrightarrow> vm_accessible s t p m \<longleftrightarrow> valid_range s t \<and>
      (\<forall>a. wide s \<le> a \<and> a < t \<longrightarrow> (\<exists>x. attributes_at m a = Some x \<and> has_permission (fst x) p))"
    by (simp add: vm_map_ok_def accessible_iff)
  show "vm_map_ok m \<Longrightarrow> vm_overlaps s t m \<longleftrightarrow> valid_range s t \<and>
      (\<exists>a. wide s \<le> a \<and> a < t \<and> attributes_at m a \<noteq> None)"
    by (simp add: vm_map_ok_def overlaps_iff)
qed

section \<open>Properties of the map\<close>

lemma vm_updates_refine_parts:
  assumes "vm_map_ok m"
  shows "\<exists>m'. map_or s t p attrs m = Some m' \<and> vm_map_ok m' \<and> attributes_at m' =
      (if valid_range s t then mapped_over (wide s) t p attrs (attributes_at m) else attributes_at m)"
    and "vm_map_ok (vm_unmap s t m) \<and> attributes_at (vm_unmap s t m) =
      (if valid_range s t then changed_over (wide s) t (\<lambda>x. None) (attributes_at m)
       else attributes_at m)"
    and "fst (vm_inherit s t i m) = valid_range s t \<and> vm_map_ok (snd (vm_inherit s t i m)) \<and>
      attributes_at (snd (vm_inherit s t i m)) =
        (if valid_range s t then changed_over (wide s) t (Some \<circ> inherited i) (attributes_at m)
         else attributes_at m)"
proof -
  have ok: "regions_ok m" using assms by (simp add: vm_map_ok_def)
  show "\<exists>m'. map_or s t p attrs m = Some m' \<and> vm_map_ok m' \<and> attributes_at m' =
      (if valid_range s t then mapped_over (wide s) t p attrs (attributes_at m) else attributes_at m)"
    using vm.add_view [OF assms] assms by (cases "valid_range s t") (auto simp: map_or_def)
  show "vm_map_ok (vm_unmap s t m) \<and> attributes_at (vm_unmap s t m) =
      (if valid_range s t then changed_over (wide s) t (\<lambda>x. None) (attributes_at m)
       else attributes_at m)"
    using vm.drop_view [OF assms] assms by (cases "valid_range s t") (auto simp: vm_unmap_def)
  show "fst (vm_inherit s t i m) = valid_range s t \<and> vm_map_ok (snd (vm_inherit s t i m)) \<and>
      attributes_at (snd (vm_inherit s t i m)) =
        (if valid_range s t then changed_over (wide s) t (Some \<circ> inherited i) (attributes_at m)
         else attributes_at m)"
    using inherit_inherits [OF ok] assms by (cases "valid_range s t") (auto simp: vm_inherit_def)
qed

text \<open>C7. Refinement. On a well-formed map every update ends, keeps the map well-formed and
  canonical, and acts as its specification on the attributes of addresses: mapping adds the
  permissions to what is mapped in the range and maps the gaps, unmapping and inheritance
  rewrite the range, nothing changes outside it, and an invalid range changes nothing.\<close>
theorem vm_updates_refine:
  assumes "vm_map_ok m"
  shows "(\<exists>m'. map_or s t p attrs m = Some m' \<and> vm_map_ok m' \<and> attributes_at m' =
      (if valid_range s t then mapped_over (wide s) t p attrs (attributes_at m) else attributes_at m))
    \<and> (vm_map_ok (vm_unmap s t m) \<and> attributes_at (vm_unmap s t m) =
      (if valid_range s t then changed_over (wide s) t (\<lambda>x. None) (attributes_at m)
       else attributes_at m))
    \<and> (fst (vm_inherit s t i m) = valid_range s t \<and> vm_map_ok (snd (vm_inherit s t i m)) \<and>
      attributes_at (snd (vm_inherit s t i m)) =
        (if valid_range s t then changed_over (wide s) t (Some \<circ> inherited i) (attributes_at m)
         else attributes_at m))"
  by (intro conjI vm_updates_refine_parts [OF assms])

text \<open>A small address space: two regions with a hole between them.\<close>

definition two_regions :: vm_map where
  "two_regions =
    [(0x1000, \<lparr>rg_end = 0x3000, rg_permissions = 3, rg_inheritance = Copy, rg_maximum = 7\<rparr>),
     (0x4000, \<lparr>rg_end = 0x5000, rg_permissions = 5, rg_inheritance = Share, rg_maximum = 5\<rparr>)]"

lemma two_regions_ok: "vm_map_ok two_regions"
  by code_simp

theorem vm_updates_refine_witness:
  "\<exists>m'. map_or 0x2000 0x6000 1 default_attributes two_regions = Some m' \<and> vm_map_ok m' \<and>
    attributes_at m' 0x3fff = Some (1, Copy, 7) \<and> attributes_at m' 0x4000 = Some (5, Share, 5)"
proof -
  obtain m' where m': "map_or 0x2000 0x6000 1 default_attributes two_regions = Some m'" "vm_map_ok m'"
    "attributes_at m' = mapped_over (wide 0x2000) 0x6000 1 default_attributes (attributes_at two_regions)"
    using vm_updates_refine [OF two_regions_ok, of "0x2000" "0x6000" 1 default_attributes]
    by (auto simp: valid_range_def wide_def address_space_end_def)
  have "mapped_over (wide 0x2000) 0x6000 1 default_attributes (attributes_at two_regions) 0x3fff =
      Some (1, Copy, 7)"
    "mapped_over (wide 0x2000) 0x6000 1 default_attributes (attributes_at two_regions) 0x4000 =
      Some (5, Share, 5)"
    by code_simp+
  with m' show ?thesis by metis
qed

lemma vm_protect_guarded_parts:
  assumes "vm_map_ok m" and "vm_protect s t p set_maximum copy m = (result, m')"
  shows "pr_error result = ProtectionNone \<longleftrightarrow> valid_range s t \<and>
      (\<forall>a. wide s \<le> a \<and> a < t \<longrightarrow> (\<exists>q i x. attributes_at m a = Some (q, i, x) \<and>
        has_permission (x OR (if copy then perm_write else perm_none)) p))"
    and "pr_error result \<noteq> ProtectionNone \<longrightarrow> m' = m \<and> \<not> pr_executable_changed result"
    and "pr_error result = ProtectionNone \<longrightarrow> vm_map_ok m' \<and> attributes_at m' =
        changed_over (wide s) t (Some \<circ> protected p set_maximum copy) (attributes_at m)"
    and "pr_error result = ProtectionNone \<longrightarrow> (pr_executable_changed result \<longleftrightarrow>
        (\<exists>a x. wide s \<le> a \<and> a < t \<and> attributes_at m a = Some x \<and>
          executable_changed (fst x) (fst (protected p set_maximum copy x))))"
proof -
  have ok: "regions_ok m" and result: "result = fst (vm_protect s t p set_maximum copy m)"
    "m' = snd (vm_protect s t p set_maximum copy m)"
    using assms by (simp_all add: vm_map_ok_def)
  show "pr_error result = ProtectionNone \<longleftrightarrow> valid_range s t \<and>
      (\<forall>a. wide s \<le> a \<and> a < t \<longrightarrow> (\<exists>q i x. attributes_at m a = Some (q, i, x) \<and>
        has_permission (x OR (if copy then perm_write else perm_none)) p))"
    unfolding result by (rule protect_checked [OF ok])
  show "pr_error result \<noteq> ProtectionNone \<longrightarrow> m' = m \<and> \<not> pr_executable_changed result"
    using assms(2) by (auto simp: vm_protect_def Let_def split: option.splits if_splits)
  show "pr_error result = ProtectionNone \<longrightarrow> vm_map_ok m' \<and> attributes_at m' =
        changed_over (wide s) t (Some \<circ> protected p set_maximum copy) (attributes_at m)"
    "pr_error result = ProtectionNone \<longrightarrow> (pr_executable_changed result \<longleftrightarrow>
        (\<exists>a x. wide s \<le> a \<and> a < t \<and> attributes_at m a = Some x \<and>
          executable_changed (fst x) (fst (protected p set_maximum copy x))))"
    unfolding result using protect_protects [OF ok] by blast+
qed

text \<open>C8. Safety of protection changes. A change is accepted exactly when the range is valid,
  wholly mapped and the new permissions lie within every region's maximum (write added for a
  copy); a rejected change leaves the map as it was, an accepted one changes exactly the range,
  never grants more than was checked, and reports exactly whether some address that can be
  executed before or after changed its permissions.\<close>
theorem vm_protect_guarded:
  assumes "vm_map_ok m" and "vm_protect s t p set_maximum copy m = (result, m')"
  shows "(pr_error result = ProtectionNone \<longleftrightarrow> valid_range s t \<and>
      (\<forall>a. wide s \<le> a \<and> a < t \<longrightarrow> (\<exists>q i x. attributes_at m a = Some (q, i, x) \<and>
        has_permission (x OR (if copy then perm_write else perm_none)) p)))
    \<and> (pr_error result \<noteq> ProtectionNone \<longrightarrow> m' = m \<and> \<not> pr_executable_changed result)
    \<and> (pr_error result = ProtectionNone \<longrightarrow> vm_map_ok m' \<and> attributes_at m' =
        changed_over (wide s) t (Some \<circ> protected p set_maximum copy) (attributes_at m))
    \<and> (pr_error result = ProtectionNone \<longrightarrow> (pr_executable_changed result \<longleftrightarrow>
        (\<exists>a x. wide s \<le> a \<and> a < t \<and> attributes_at m a = Some x \<and>
          executable_changed (fst x) (fst (protected p set_maximum copy x)))))"
  by (intro conjI vm_protect_guarded_parts [OF assms])

theorem vm_protect_guarded_witness:
  "snd (vm_protect 0x1000 0x5000 1 False False two_regions) = two_regions \<and>
   (\<exists>result m'. vm_protect 0x1000 0x2000 5 False False two_regions = (result, m') \<and>
     pr_executable_changed result \<and> attributes_at m' 0x1fff = Some (5, Copy, 7))"
proof
  let ?r = "vm_protect 0x1000 0x5000 1 False False two_regions"
  have "pr_error (fst ?r) \<noteq> ProtectionNone" by code_simp
  with vm_protect_guarded [OF two_regions_ok, of "0x1000" "0x5000" 1 False False "fst ?r" "snd ?r"]
  show "snd ?r = two_regions" by simp
  let ?q = "vm_protect 0x1000 0x2000 5 False False two_regions"
  have "pr_error (fst ?q) = ProtectionNone" "pr_executable_changed (fst ?q)" by code_simp+
  moreover have "changed_over (wide 0x1000) 0x2000 (Some \<circ> protected 5 False False)
    (attributes_at two_regions) 0x1fff = Some (5, Copy, 7)" by code_simp
  ultimately show "\<exists>result m'. ?q = (result, m') \<and>
     pr_executable_changed result \<and> attributes_at m' 0x1fff = Some (5, Copy, 7)"
    using vm_protect_guarded [OF two_regions_ok, of "0x1000" "0x2000" 5 False False "fst ?q" "snd ?q"]
    by (intro exI [of _ "fst ?q"] exI [of _ "snd ?q"]) simp
qed

lemma vm_queries_correct_parts:
  assumes "vm_map_ok m"
  shows "vm_accessible s t p m \<longleftrightarrow> valid_range s t \<and>
      (\<forall>a. wide s \<le> a \<and> a < t \<longrightarrow> (\<exists>x. attributes_at m a = Some x \<and> has_permission (fst x) p))"
    and "vm_overlaps s t m \<longleftrightarrow> valid_range s t \<and>
      (\<exists>a. wide s \<le> a \<and> a < t \<and> attributes_at m a \<noteq> None)"
    and "case region_at_or_after s m of
      None \<Rightarrow> \<forall>a. wide s \<le> a \<longrightarrow> attributes_at m a = None
    | Some q \<Rightarrow> wide s < mr_end q \<and>
        (\<forall>a. wide s \<le> a \<and> a < wide (mr_address q) \<longrightarrow> attributes_at m a = None) \<and>
        (\<forall>a. wide (mr_address q) \<le> a \<and> a < mr_end q \<longrightarrow>
          attributes_at m a = Some (mr_permissions q, mr_inheritance q, mr_maximum q)) \<and>
        attributes_at m (mr_end q) \<noteq> Some (mr_permissions q, mr_inheritance q, mr_maximum q)"
proof -
  have ok: "regions_ok m" "canonical m" using assms by (simp_all add: vm_map_ok_def)
  show "vm_accessible s t p m \<longleftrightarrow> valid_range s t \<and>
      (\<forall>a. wide s \<le> a \<and> a < t \<longrightarrow> (\<exists>x. attributes_at m a = Some x \<and> has_permission (fst x) p))"
    using assms by (rule vm.reachable_view)
  show "vm_overlaps s t m \<longleftrightarrow> valid_range s t \<and>
      (\<exists>a. wide s \<le> a \<and> a < t \<and> attributes_at m a \<noteq> None)"
    using assms by (rule vm.taken_view)
  show "case region_at_or_after s m of
      None \<Rightarrow> \<forall>a. wide s \<le> a \<longrightarrow> attributes_at m a = None
    | Some q \<Rightarrow> wide s < mr_end q \<and>
        (\<forall>a. wide s \<le> a \<and> a < wide (mr_address q) \<longrightarrow> attributes_at m a = None) \<and>
        (\<forall>a. wide (mr_address q) \<le> a \<and> a < mr_end q \<longrightarrow>
          attributes_at m a = Some (mr_permissions q, mr_inheritance q, mr_maximum q)) \<and>
        attributes_at m (mr_end q) \<noteq> Some (mr_permissions q, mr_inheritance q, mr_maximum q)"
  proof (cases "region_at_or_after s m")
    case None
    with region_at_or_after_at [OF ok(1), of s] show ?thesis by simp
  next
    case (Some q)
    then obtain e where e: "e \<in> set m" "q = mapping_of e" and reach: "wide s < mr_end q"
      "\<forall>a. wide s \<le> a \<and> a < wide (mr_address q) \<longrightarrow> attributes_at m a = None"
      using region_at_or_after_at [OF ok(1), of s] by auto
    have attrs: "(mr_permissions q, mr_inheritance q, mr_maximum q) = region_attributes (snd e)"
      by (simp add: e(2) mapping_of_def region_attributes_def)
    have "attributes_at m a = Some (region_attributes (snd e))"
      if "wide (mr_address q) \<le> a" "a < mr_end q" for a
      using that e by (auto simp: attributes_iff [OF ok(1)] covers_def mapping_of_def intro!: bexI [of _ e])
    moreover have "attributes_at m (mr_end q) \<noteq> Some (region_attributes (snd e))"
      using region_ends [OF ok e(1)] by (simp add: e(2) mapping_of_def)
    ultimately show ?thesis using reach unfolding Some option.case attrs by blast
  qed
qed

text \<open>C9. The queries are decided by the attributes of addresses: a range is accessible when
  all of it is mapped with the permission, overlaps when some of it is mapped, and the region
  found at or after an address is the first one that reaches past it, with the attributes of
  every address it spans, and ends where those attributes end.\<close>
theorem vm_queries_correct:
  assumes "vm_map_ok m"
  shows "(vm_accessible s t p m \<longleftrightarrow> valid_range s t \<and>
      (\<forall>a. wide s \<le> a \<and> a < t \<longrightarrow> (\<exists>x. attributes_at m a = Some x \<and> has_permission (fst x) p)))
    \<and> (vm_overlaps s t m \<longleftrightarrow> valid_range s t \<and>
      (\<exists>a. wide s \<le> a \<and> a < t \<and> attributes_at m a \<noteq> None))
    \<and> (case region_at_or_after s m of
      None \<Rightarrow> \<forall>a. wide s \<le> a \<longrightarrow> attributes_at m a = None
    | Some q \<Rightarrow> wide s < mr_end q \<and>
        (\<forall>a. wide s \<le> a \<and> a < wide (mr_address q) \<longrightarrow> attributes_at m a = None) \<and>
        (\<forall>a. wide (mr_address q) \<le> a \<and> a < mr_end q \<longrightarrow>
          attributes_at m a = Some (mr_permissions q, mr_inheritance q, mr_maximum q)) \<and>
        attributes_at m (mr_end q) \<noteq> Some (mr_permissions q, mr_inheritance q, mr_maximum q))"
  by (intro conjI vm_queries_correct_parts [OF assms])

theorem vm_queries_correct_witness:
  "\<not> vm_accessible 0x2000 0x4800 1 two_regions \<and> vm_overlaps 0x2000 0x4800 two_regions \<and>
   attributes_at two_regions 0x3fff = None"
proof -
  have "valid_range 0x2000 0x4800" by code_simp
  moreover have "attributes_at two_regions 0x3000 = None" "attributes_at two_regions 0x2000 \<noteq> None"
    "wide 0x2000 \<le> 0x3000 \<and> 0x3000 < (0x4800::u64)" "wide 0x2000 \<le> 0x2000 \<and> 0x2000 < (0x4800::u64)"
    by code_simp+
  note at = this calculation
  note correct = vm_queries_correct [OF two_regions_ok, of "0x2000" "0x4800" 1]
  have "region_at_or_after 0x3000 two_regions = Some (mapping_of (two_regions ! 1))"
    "mr_address (mapping_of (two_regions ! 1)) = 0x4000" by code_simp+
  then have "wide 0x3000 \<le> 0x3fff \<and> 0x3fff < wide 0x4000 \<longrightarrow> attributes_at two_regions 0x3fff = None"
    using vm_queries_correct [OF two_regions_ok, of "0x3000"] by simp
  then have "attributes_at two_regions 0x3fff = None" by (simp add: wide_def)
  moreover have "\<not> vm_accessible 0x2000 0x4800 1 two_regions"
    unfolding conjunct1 [OF correct] using at by (metis option.distinct(1))
  moreover have "vm_overlaps 0x2000 0x4800 two_regions"
    unfolding conjunct1 [OF conjunct2 [OF correct]] using at by blast
  ultimately show ?thesis by blast
qed

text \<open>The representation is unique: two well-formed maps that give every address the same
  attributes are the same list of regions, so the regions a guest sees do not depend on the
  order of the calls that made them.\<close>
theorem vm_map_unique:
  assumes "vm_map_ok m" "vm_map_ok n" "attributes_at m = attributes_at n"
  shows "m = n"
  using assms by (rule canonical_unique)

theorem vm_map_unique_witness:
  "map_or 0x2000 0x3000 3 default_attributes (coalesce (take 1 two_regions)) = Some (take 1 two_regions)"
proof -
  have ok: "vm_map_ok (take 1 two_regions)" by code_simp
  obtain m' where m': "map_or 0x2000 0x3000 3 default_attributes (take 1 two_regions) = Some m'"
    "vm_map_ok m'" "attributes_at m' =
      mapped_over (wide 0x2000) 0x3000 3 default_attributes (attributes_at (take 1 two_regions))"
    using vm.add_view [OF ok, of "0x2000" "0x3000" 3 default_attributes]
    by (auto simp: valid_range_def wide_def address_space_end_def)
  have "mapped_over (wide 0x2000) 0x3000 3 default_attributes (attributes_at (take 1 two_regions)) =
    attributes_at (take 1 two_regions)"
  proof
    fix a :: u64
    have "(0x1000::u64) \<le> a" if "0x2000 \<le> a" using that by (rule order_trans [rotated]) simp
    then show "mapped_over (wide 0x2000) 0x3000 3 default_attributes
        (attributes_at (take 1 two_regions)) a = attributes_at (take 1 two_regions) a"
      by (auto simp: mapped_over_def attributes_at_def two_regions_def covers_def wide_def
          region_attributes_def)
  qed
  with m' have "m' = take 1 two_regions" using vm_map_unique [OF m'(2) ok] by simp
  moreover have "coalesce (take 1 two_regions) = take 1 two_regions" by code_simp
  ultimately show ?thesis using m' by simp
qed

end
