(* ===== verification/Mach_Namespace.thy ===== *)
theory Mach_Namespace
  imports Prelude Ordered_Map "HOL-Library.Monad_Syntax"
begin

text \<open>
  Task-local Mach names, \<^verbatim>\<open>mach/mach_namespace.cpp\<close>: the table of spaces, each
  with its entries (name, object, rights and user references) and the index from an object to
  its names and to the union of their rights.

  The unordered maps of the source are kept in ascending order of their keys: every result
  the source builds by iterating over one is sorted or does not depend on the order. A right
  indexes the array of user references. \<^verbatim>\<open>at\<close> of an absent key throws; an operation
  in which that happens is \<open>None\<close>.
\<close>

type_synonym task_id = u32
type_synonym mach_name = u32
type_synonym mach_object = u32
type_synonym type_set = u32

definition null_name :: mach_name where "null_name = 0"
definition dead_name :: mach_name where "dead_name = 0xffffffff"
definition first_dynamic_name :: mach_name where "first_dynamic_name = 0x00010003"
definition name_index_stride :: u32 where "name_index_stride = 0x100"
definition maximum_user_references :: u32 where "maximum_user_references = 0xffff"
definition maximum_send_user_references :: u32 where
  "maximum_send_user_references = maximum_user_references - 1"

datatype right = Send | Receive | SendOnce | PortSet | DeadName

fun right_code :: "right \<Rightarrow> nat" where
  "right_code Send = 0"
| "right_code Receive = 1"
| "right_code SendOnce = 2"
| "right_code PortSet = 3"
| "right_code DeadName = 4"

definition type_mask :: "right \<Rightarrow> type_set" where
  "type_mask r = push_bit (right_code r + 16) 1"

definition has_right :: "type_set \<Rightarrow> right \<Rightarrow> bool" where
  "has_right t r \<longleftrightarrow> t AND type_mask r \<noteq> 0"

record name_entry =
  ne_object :: mach_object
  ne_type :: type_set
  ne_references :: "right \<Rightarrow> u32"

record named_entry =
  nd_task :: task_id
  nd_name :: mach_name
  nd_entry :: name_entry

record object_names =
  on_names :: "mach_name list"
  on_rights :: type_set

record space =
  sp_next_name :: mach_name
  sp_entries :: "(mach_name, name_entry) ordered_map"
  sp_by_object :: "(mach_object, object_names) ordered_map"

type_synonym namespace_table = "(task_id, space) ordered_map"

definition new_space :: space where
  "new_space = \<lparr>sp_next_name = first_dynamic_name, sp_entries = [], sp_by_object = []\<rparr>"

definition valid_name :: "mach_name \<Rightarrow> bool" where
  "valid_name name \<longleftrightarrow> name \<noteq> null_name \<and> name \<noteq> dead_name"

section \<open>Entries\<close>

definition reference_counted_types :: type_set where
  "reference_counted_types = type_mask Send OR type_mask DeadName"

definition make_entry :: "mach_object \<Rightarrow> type_set \<Rightarrow> u32 \<Rightarrow> name_entry" where
  "make_entry object t references =
    \<lparr>ne_object = object, ne_type = t,
     ne_references = (\<lambda>r. if has_right t r then max 1 references else 0)\<rparr>"

definition add_types :: "type_set \<Rightarrow> u32 \<Rightarrow> bool \<Rightarrow> name_entry \<Rightarrow> name_entry" where
  "add_types t references copyout entry =
    entry\<lparr>ne_references := (\<lambda>r. let old = ne_references entry r in
        if \<not> has_right t r then old
        else if \<not> has_right (ne_type entry) r then max 1 references
        else if type_mask r AND reference_counted_types \<noteq> 0 \<and> copyout
        then let maximum = (if r = Send then maximum_send_user_references
                            else maximum_user_references) in
          if old < maximum then old + 1 else old
        else max old references),
      ne_type := ne_type entry OR t\<rparr>"

section \<open>The index\<close>

definition insert_sorted :: "mach_name \<Rightarrow> mach_name list \<Rightarrow> mach_name list" where
  "insert_sorted name names =
    (let position = dropWhile (\<lambda>n. n < name) names in
     if position = [] \<or> hd position \<noteq> name
     then takeWhile (\<lambda>n. n < name) names @ name # position else names)"

definition erase_sorted :: "mach_name \<Rightarrow> mach_name list \<Rightarrow> mach_name list" where
  "erase_sorted name names =
    (let position = dropWhile (\<lambda>n. n < name) names in
     if position \<noteq> [] \<and> hd position = name
     then takeWhile (\<lambda>n. n < name) names @ tl position else names)"

definition index_name :: "mach_object \<Rightarrow> mach_name \<Rightarrow> space \<Rightarrow> space option" where
  "index_name object name s =
    (let index = emplace object \<lparr>on_names = [], on_rights = 0\<rparr> (sp_by_object s) in
     do {
       entry \<leftarrow> map_of (sp_entries s) name;
       Some (s\<lparr>sp_by_object := modify object (\<lambda>i. i\<lparr>on_names := insert_sorted name (on_names i),
         on_rights := on_rights i OR ne_type entry\<rparr>) index\<rparr>)
     })"

fun refresh_loop ::
  "(mach_name, name_entry) ordered_map \<Rightarrow> type_set \<Rightarrow> mach_name list \<Rightarrow> type_set \<Rightarrow>
   type_set option" where
  "refresh_loop entries previous [] rights = Some rights"
| "refresh_loop entries previous (name # names) rights =
    (case map_of entries name of
       None \<Rightarrow> None
     | Some entry \<Rightarrow>
         let rights = rights OR ne_type entry in
         if rights AND previous = previous then Some rights
         else refresh_loop entries previous names rights)"

definition refresh_indexed_rights :: "mach_object \<Rightarrow> space \<Rightarrow> space option" where
  "refresh_indexed_rights object s =
    (case map_of (sp_by_object s) object of
       None \<Rightarrow> Some s
     | Some indexed \<Rightarrow> do {
         rights \<leftarrow> refresh_loop (sp_entries s) (on_rights indexed) (on_names indexed) 0;
         Some (s\<lparr>sp_by_object := modify object (\<lambda>i. i\<lparr>on_rights := rights\<rparr>) (sp_by_object s)\<rparr>)
       })"

definition unindex_name :: "mach_object \<Rightarrow> mach_name \<Rightarrow> space \<Rightarrow> space option" where
  "unindex_name object name s =
    (case map_of (sp_by_object s) object of
       None \<Rightarrow> Some s
     | Some indexed \<Rightarrow>
         let names = erase_sorted name (on_names indexed) in
         if names = [] then Some (s\<lparr>sp_by_object := erase object (sp_by_object s)\<rparr>)
         else refresh_indexed_rights object
           (s\<lparr>sp_by_object := modify object (\<lambda>i. i\<lparr>on_names := names\<rparr>) (sp_by_object s)\<rparr>))"

definition indexed_names :: "space \<Rightarrow> mach_object \<Rightarrow> mach_name list option" where
  "indexed_names s object = map_option on_names (map_of (sp_by_object s) object)"

section \<open>Operations on one space\<close>

text \<open>Emplace an entry and index it, as \<^verbatim>\<open>install\<close>,
  \<^verbatim>\<open>allocate\<close> and \<^verbatim>\<open>copyout_at_name\<close> do.\<close>

definition add_entry ::
  "mach_name \<Rightarrow> mach_object \<Rightarrow> type_set \<Rightarrow> u32 \<Rightarrow> space \<Rightarrow> space option" where
  "add_entry name object t references s =
    index_name object name
      (s\<lparr>sp_entries := emplace name (make_entry object t references) (sp_entries s)\<rparr>)"

text \<open>Add rights to an entry that is there, and to the index.\<close>

definition widen_entry ::
  "mach_name \<Rightarrow> mach_object \<Rightarrow> type_set \<Rightarrow> u32 \<Rightarrow> space \<Rightarrow> space option" where
  "widen_entry name object t references s =
    (if map_of (sp_by_object s) object = None then None
     else Some (s\<lparr>sp_entries := modify name (add_types t references True) (sp_entries s),
       sp_by_object := modify object (\<lambda>i. i\<lparr>on_rights := on_rights i OR t\<rparr>) (sp_by_object s)\<rparr>))"

definition install_in ::
  "mach_name \<Rightarrow> mach_object \<Rightarrow> type_set \<Rightarrow> u32 \<Rightarrow> space \<Rightarrow> (bool \<times> space) option" where
  "install_in name object t references s =
    (case map_of (sp_entries s) name of
       Some existing \<Rightarrow>
         if ne_object existing \<noteq> object then Some (False, s)
         else map_option (Pair True) (widen_entry name object t references s)
     | None \<Rightarrow> map_option (Pair True) (add_entry name object t references s))"

text \<open>The search of \<^verbatim>\<open>allocate\<close>: names at a fixed stride from the next
  one until one is free; \<open>None\<close> when they run out.\<close>

function find_free ::
  "(mach_name, name_entry) ordered_map \<Rightarrow> mach_name \<Rightarrow> mach_name option" where
  "find_free entries candidate =
    (if \<not> valid_name candidate \<or> map_of entries candidate \<noteq> None
     then if - 1 - name_index_stride < candidate then None
       else find_free entries (candidate + name_index_stride)
     else Some candidate)"
  by pat_completeness auto
termination
  by (relation "measure (\<lambda>(entries, candidate). 2 ^ 32 - unat candidate)")
    (auto simp: name_index_stride_def unat_word_ariths(1) word_less_nat_alt)

definition allocate_in ::
  "mach_object \<Rightarrow> type_set \<Rightarrow> space \<Rightarrow> (mach_name option \<times> space) option" where
  "allocate_in object t s =
    (case find_free (sp_entries s) (sp_next_name s) of
       None \<Rightarrow> Some (None, s)
     | Some candidate \<Rightarrow> do {
         s \<leftarrow> add_entry candidate object t 1 s;
         Some (Some candidate,
           if candidate \<le> - 1 - name_index_stride
           then s\<lparr>sp_next_name := candidate + name_index_stride\<rparr> else s)
       })"

text \<open>The first alias of an object that is not a send-once right.\<close>

fun ordinary_alias ::
  "(mach_name, name_entry) ordered_map \<Rightarrow> mach_name list \<Rightarrow> mach_name option option" where
  "ordinary_alias entries [] = Some None"
| "ordinary_alias entries (name # names) =
    (case map_of entries name of
       None \<Rightarrow> None
     | Some entry \<Rightarrow>
         if has_right (ne_type entry) SendOnce then ordinary_alias entries names
         else Some (Some name))"

definition allocate_checked ::
  "mach_object \<Rightarrow> type_set \<Rightarrow> space \<Rightarrow> (mach_name option \<times> space) option" where
  "allocate_checked object t s =
    (if object = null_name \<or> t = 0 then Some (None, s) else allocate_in object t s)"

definition copyout_in ::
  "mach_object \<Rightarrow> type_set \<Rightarrow> space \<Rightarrow> (mach_name option \<times> space) option" where
  "copyout_in object t s =
    (if has_right t SendOnce then allocate_checked object t s
     else do {
       found \<leftarrow> (case indexed_names s object of
           None \<Rightarrow> Some None
         | Some names \<Rightarrow> ordinary_alias (sp_entries s) names);
       case found of
         Some name \<Rightarrow> map_option (Pair (Some name)) (widen_entry name object t 1 s)
       | None \<Rightarrow> allocate_checked object t s
     })"

definition copyout_at_name_in ::
  "mach_object \<Rightarrow> type_set \<Rightarrow> mach_name \<Rightarrow> space \<Rightarrow> (mach_name option \<times> space) option" where
  "copyout_at_name_in object t preferred s =
    (let usable = (object \<noteq> null_name \<and> t \<noteq> 0 \<and> valid_name preferred \<and>
           map_of (sp_entries s) preferred = None);
         place = (if usable then map_option (Pair (Some preferred)) (add_entry preferred object t 1 s)
           else allocate_checked object t s) in
     if has_right t SendOnce then place
     else do {
       found \<leftarrow> (case indexed_names s object of
           None \<Rightarrow> Some None
         | Some names \<Rightarrow> ordinary_alias (sp_entries s) names);
       case found of
         Some name \<Rightarrow> map_option (Pair (Some name)) (widen_entry name object t 1 s)
       | None \<Rightarrow> place
     })"

text \<open>After rights were taken from an entry: drop it when none are left, otherwise bring
  the index up to date.\<close>

definition settle_entry :: "mach_name \<Rightarrow> name_entry \<Rightarrow> space \<Rightarrow> space option" where
  "settle_entry name entry s =
    (let s = s\<lparr>sp_entries := modify name (\<lambda>_. entry) (sp_entries s)\<rparr> in
     if ne_type entry = 0
     then do {
       s \<leftarrow> unindex_name (ne_object entry) name s;
       Some (s\<lparr>sp_entries := erase name (sp_entries s)\<rparr>)
     }
     else refresh_indexed_rights (ne_object entry) s)"

definition rename_in :: "mach_name \<Rightarrow> mach_name \<Rightarrow> space \<Rightarrow> (bool \<times> space) option" where
  "rename_in old_name new_name s =
    (if map_of (sp_entries s) new_name \<noteq> None then Some (False, s)
     else case map_of (sp_entries s) old_name of
       None \<Rightarrow> Some (False, s)
     | Some entry \<Rightarrow> do {
         s \<leftarrow> unindex_name (ne_object entry) old_name
           (s\<lparr>sp_entries := emplace new_name entry (erase old_name (sp_entries s))\<rparr>);
         s \<leftarrow> index_name (ne_object entry) new_name s;
         Some (True, s)
       })"

definition modify_references_in ::
  "mach_name \<Rightarrow> right \<Rightarrow> u32 \<Rightarrow> space \<Rightarrow> (bool \<times> space) option" where
  "modify_references_in name r delta s =
    (case map_of (sp_entries s) name of
       None \<Rightarrow> Some (False, s)
     | Some entry \<Rightarrow>
         let references = ne_references entry r in
         if \<not> has_right (ne_type entry) r then Some (False, s)
         else if 0 <s delta \<and> r \<noteq> Send \<and> r \<noteq> DeadName then Some (False, s)
         else if 0 <s delta
         then let maximum = (if r = Send then maximum_send_user_references
                             else maximum_user_references) in
           if maximum < references \<or> maximum - references < delta then Some (False, s)
           else Some (True, s\<lparr>sp_entries := modify name (\<lambda>e.
             e\<lparr>ne_references := (ne_references e)(r := references + delta)\<rparr>) (sp_entries s)\<rparr>)
         else
           let magnitude = (- scast delta :: u64) in
           if ucast references < magnitude then Some (False, s)
           else
             let references = references - ucast magnitude;
                 entry = entry\<lparr>ne_references := (ne_references entry)(r := references)\<rparr> in
             if references = 0
             then map_option (Pair True)
               (settle_entry name (entry\<lparr>ne_type := ne_type entry AND NOT (type_mask r)\<rparr>) s)
             else Some (True, s\<lparr>sp_entries := modify name (\<lambda>_. entry) (sp_entries s)\<rparr>))"

definition destroy_name_in :: "mach_name \<Rightarrow> space \<Rightarrow> (name_entry option \<times> space) option" where
  "destroy_name_in name s =
    (case map_of (sp_entries s) name of
       None \<Rightarrow> Some (None, s)
     | Some removed \<Rightarrow> do {
         s \<leftarrow> unindex_name (ne_object removed) name s;
         Some (Some removed, s\<lparr>sp_entries := erase name (sp_entries s)\<rparr>)
       })"

definition dead_types :: type_set where
  "dead_types = type_mask Send OR type_mask SendOnce"

definition dead_entry :: "name_entry \<Rightarrow> name_entry" where
  "dead_entry entry =
    (let combined = (ucast (ne_references entry Send) + ucast (ne_references entry SendOnce) :: u64);
         references = (ucast (min 0xffffffff (max 1 combined)) :: u32) in
     entry\<lparr>ne_type := (ne_type entry AND NOT dead_types) OR type_mask DeadName,
       ne_references := (ne_references entry)(Send := 0, SendOnce := 0, DeadName := references)\<rparr>)"

text \<open>The loop over the names of the object in one space, with the entries it reports.\<close>

fun dead_loop ::
  "task_id \<Rightarrow> mach_name list \<Rightarrow> (mach_name, name_entry) ordered_map \<Rightarrow>
   (named_entry list \<times> (mach_name, name_entry) ordered_map) option" where
  "dead_loop task [] entries = Some ([], entries)"
| "dead_loop task (name # names) entries =
    (case map_of entries name of
       None \<Rightarrow> None
     | Some entry \<Rightarrow>
         if ne_type entry AND dead_types = 0 then dead_loop task names entries
         else do {
           (affected, entries) \<leftarrow> dead_loop task names (modify name dead_entry entries);
           Some (\<lparr>nd_task = task, nd_name = name, nd_entry = entry\<rparr> # affected, entries)
         })"

definition mark_dead_in ::
  "task_id \<Rightarrow> mach_object \<Rightarrow> space \<Rightarrow> (named_entry list \<times> space) option" where
  "mark_dead_in task object s =
    (case indexed_names s object of
       None \<Rightarrow> Some ([], s)
     | Some names \<Rightarrow> do {
         (affected, entries) \<leftarrow> dead_loop task names (sp_entries s);
         Some (affected, s\<lparr>sp_entries := entries,
           sp_by_object := modify object (\<lambda>i. i\<lparr>on_rights :=
             if on_rights i AND dead_types \<noteq> 0
             then (on_rights i AND NOT dead_types) OR type_mask DeadName
             else on_rights i\<rparr>) (sp_by_object s)\<rparr>)
       })"

definition remove_type_in :: "mach_name \<Rightarrow> type_set \<Rightarrow> space \<Rightarrow> (bool \<times> space) option" where
  "remove_type_in name t s =
    (case map_of (sp_entries s) name of
       None \<Rightarrow> Some (False, s)
     | Some entry \<Rightarrow>
         if ne_type entry AND t = 0 then Some (False, s)
         else map_option (Pair True) (settle_entry name
           (entry\<lparr>ne_type := ne_type entry AND NOT t,
             ne_references := (\<lambda>r. if has_right t r then 0 else ne_references entry r)\<rparr>) s))"

definition deallocate_in :: "mach_name \<Rightarrow> space \<Rightarrow> (bool \<times> space) option" where
  "deallocate_in name s =
    (case map_of (sp_entries s) name of
       None \<Rightarrow> Some (False, s)
     | Some entry \<Rightarrow>
         let available = ne_type entry AND
               (type_mask Send OR type_mask SendOnce OR type_mask DeadName);
             released = (if has_right available Send then Send
               else if has_right available SendOnce then SendOnce else DeadName);
             references = ne_references entry released in
         if available = 0 then Some (False, s)
         else if 1 < references
         then Some (True, s\<lparr>sp_entries := modify name (\<lambda>e. e\<lparr>ne_references :=
           (ne_references e)(released := references - 1)\<rparr>) (sp_entries s)\<rparr>)
         else map_option (Pair True) (settle_entry name
           (entry\<lparr>ne_references := (ne_references entry)(released := 0),
             ne_type := ne_type entry AND NOT (type_mask released)\<rparr>) s))"

section \<open>The table\<close>

text \<open>\<^verbatim>\<open>spaces_[task]\<close> makes a space when the task has none; \<^verbatim>\<open>find\<close>
  does not.\<close>

definition in_space ::
  "task_id \<Rightarrow> (space \<Rightarrow> ('a \<times> space) option) \<Rightarrow> namespace_table \<Rightarrow>
   ('a \<times> namespace_table) option" where
  "in_space task f t =
    (let t = emplace task new_space t in
     do {
       (result, s) \<leftarrow> f (case map_of t task of Some s \<Rightarrow> s | None \<Rightarrow> new_space);
       Some (result, modify task (\<lambda>_. s) t)
     })"

definition in_found_space ::
  "task_id \<Rightarrow> 'a \<Rightarrow> (space \<Rightarrow> ('a \<times> space) option) \<Rightarrow> namespace_table \<Rightarrow>
   ('a \<times> namespace_table) option" where
  "in_found_space task absent f t =
    (case map_of t task of
       None \<Rightarrow> Some (absent, t)
     | Some s \<Rightarrow> do {
         (result, s) \<leftarrow> f s;
         Some (result, modify task (\<lambda>_. s) t)
       })"

definition create_task :: "task_id \<Rightarrow> namespace_table \<Rightarrow> namespace_table" where
  "create_task task t = emplace task new_space t"

definition destroy_task :: "task_id \<Rightarrow> namespace_table \<Rightarrow> namespace_table" where
  "destroy_task task t = erase task t"

definition install ::
  "task_id \<Rightarrow> mach_name \<Rightarrow> mach_object \<Rightarrow> type_set \<Rightarrow> u32 \<Rightarrow> namespace_table \<Rightarrow>
   (bool \<times> namespace_table) option" where
  "install task name object types references t =
    (if \<not> valid_name name \<or> object = null_name \<or> types = 0 then Some (False, t)
     else in_space task (install_in name object types references) t)"

definition allocate ::
  "task_id \<Rightarrow> mach_object \<Rightarrow> type_set \<Rightarrow> namespace_table \<Rightarrow>
   (mach_name option \<times> namespace_table) option" where
  "allocate task object types t =
    (if object = null_name \<or> types = 0 then Some (None, t)
     else in_space task (allocate_in object types) t)"

definition copyout ::
  "task_id \<Rightarrow> mach_object \<Rightarrow> type_set \<Rightarrow> namespace_table \<Rightarrow>
   (mach_name option \<times> namespace_table) option" where
  "copyout task object types t = in_space task (copyout_in object types) t"

definition copyout_at_name ::
  "task_id \<Rightarrow> mach_object \<Rightarrow> type_set \<Rightarrow> mach_name \<Rightarrow> namespace_table \<Rightarrow>
   (mach_name option \<times> namespace_table) option" where
  "copyout_at_name task object types preferred t =
    in_space task (copyout_at_name_in object types preferred) t"

definition rename ::
  "task_id \<Rightarrow> mach_name \<Rightarrow> mach_name \<Rightarrow> namespace_table \<Rightarrow> (bool \<times> namespace_table) option" where
  "rename task old_name new_name t =
    (if \<not> valid_name old_name \<or> \<not> valid_name new_name then Some (False, t)
     else in_found_space task False (rename_in old_name new_name) t)"

definition modify_references ::
  "task_id \<Rightarrow> mach_name \<Rightarrow> right \<Rightarrow> u32 \<Rightarrow> namespace_table \<Rightarrow>
   (bool \<times> namespace_table) option" where
  "modify_references task name r delta t =
    in_found_space task False (modify_references_in name r delta) t"

definition destroy_name ::
  "task_id \<Rightarrow> mach_name \<Rightarrow> namespace_table \<Rightarrow> (name_entry option \<times> namespace_table) option" where
  "destroy_name task name t = in_found_space task None (destroy_name_in name) t"

fun mark_object_dead ::
  "mach_object \<Rightarrow> namespace_table \<Rightarrow> (named_entry list \<times> namespace_table) option" where
  "mark_object_dead object [] = Some ([], [])"
| "mark_object_dead object ((task, s) # t) = do {
     (affected, s) \<leftarrow> mark_dead_in task object s;
     (others, t) \<leftarrow> mark_object_dead object t;
     Some (affected @ others, (task, s) # t)
   }"

definition remove_type ::
  "task_id \<Rightarrow> mach_name \<Rightarrow> type_set \<Rightarrow> namespace_table \<Rightarrow> (bool \<times> namespace_table) option" where
  "remove_type task name types t = in_found_space task False (remove_type_in name types) t"

definition deallocate ::
  "task_id \<Rightarrow> mach_name \<Rightarrow> namespace_table \<Rightarrow> (bool \<times> namespace_table) option" where
  "deallocate task name t = in_found_space task False (deallocate_in name) t"

section \<open>Queries\<close>

definition name_lookup :: "task_id \<Rightarrow> mach_name \<Rightarrow> namespace_table \<Rightarrow> name_entry option" where
  "name_lookup task name t = do { s \<leftarrow> map_of t task; map_of (sp_entries s) name }"

definition resolve :: "task_id \<Rightarrow> mach_name \<Rightarrow> namespace_table \<Rightarrow> mach_object option" where
  "resolve task name t = map_option ne_object (name_lookup task name t)"

definition name_for :: "task_id \<Rightarrow> mach_object \<Rightarrow> namespace_table \<Rightarrow> mach_name option" where
  "name_for task object t = do {
     s \<leftarrow> map_of t task;
     names \<leftarrow> indexed_names s object;
     if names \<noteq> [] then Some (hd names) else None
   }"

definition name_for_right ::
  "task_id \<Rightarrow> mach_object \<Rightarrow> right \<Rightarrow> namespace_table \<Rightarrow> mach_name option" where
  "name_for_right task object r t = do {
     s \<leftarrow> map_of t task;
     names \<leftarrow> indexed_names s object;
     find (\<lambda>name. case map_of (sp_entries s) name of
       None \<Rightarrow> False | Some entry \<Rightarrow> has_right (ne_type entry) r) names
   }"

definition name_type :: "task_id \<Rightarrow> mach_name \<Rightarrow> namespace_table \<Rightarrow> type_set option" where
  "name_type task name t =
    (if name = dead_name then Some (type_mask DeadName)
     else map_option ne_type (name_lookup task name t))"

definition owns_right :: "task_id \<Rightarrow> mach_object \<Rightarrow> right \<Rightarrow> namespace_table \<Rightarrow> bool" where
  "owns_right task object r t =
    (case map_of t task of
       None \<Rightarrow> False
     | Some s \<Rightarrow> (case map_of (sp_by_object s) object of
         None \<Rightarrow> False | Some names \<Rightarrow> has_right (on_rights names) r))"

definition named_entries :: "task_id \<Rightarrow> namespace_table \<Rightarrow> named_entry list" where
  "named_entries task t =
    (case map_of t task of
       None \<Rightarrow> []
     | Some s \<Rightarrow> map (\<lambda>(name, entry). \<lparr>nd_task = task, nd_name = name, nd_entry = entry\<rparr>)
         (sp_entries s))"

definition contains_task :: "task_id \<Rightarrow> namespace_table \<Rightarrow> bool" where
  "contains_task task t \<longleftrightarrow> map_of t task \<noteq> None"

definition contains_name :: "task_id \<Rightarrow> mach_name \<Rightarrow> namespace_table \<Rightarrow> bool" where
  "contains_name task name t \<longleftrightarrow> name_lookup task name t \<noteq> None"

fun count_references ::
  "(mach_name, name_entry) ordered_map \<Rightarrow> right \<Rightarrow> mach_name list \<Rightarrow> u64 \<Rightarrow> u64 option" where
  "count_references entries r [] count = Some count"
| "count_references entries r (name # names) count =
    (case map_of entries name of
       None \<Rightarrow> None
     | Some entry \<Rightarrow> count_references entries r names
         (if has_right (ne_type entry) r then count + ucast (ne_references entry r) else count))"

fun right_reference_count :: "mach_object \<Rightarrow> right \<Rightarrow> namespace_table \<Rightarrow> u64 \<Rightarrow> u64 option" where
  "right_reference_count object r [] count = Some count"
| "right_reference_count object r ((task, s) # t) count = do {
     count \<leftarrow> (case indexed_names s object of
       None \<Rightarrow> Some count
     | Some names \<Rightarrow> count_references (sp_entries s) r names count);
     right_reference_count object r t count
   }"

definition user_references ::
  "task_id \<Rightarrow> mach_name \<Rightarrow> right \<Rightarrow> namespace_table \<Rightarrow> u32 option" where
  "user_references task name r t =
    (case name_lookup task name t of
       None \<Rightarrow> None
     | Some entry \<Rightarrow> if has_right (ne_type entry) r then Some (ne_references entry r) else None)"

end
