(* ===== verification/Mach_Space.thy ===== *)
theory Mach_Space
  imports Mach_Namespace Word_Facts
begin

text \<open>
  The invariant of one Mach name space and what each operation does to its entries: the index
  from objects to names holds exactly the names and rights the entries hold, so no access
  through the index can miss, and every entry has a valid name, an object, rights, and user
  references exactly for the rights it has.
\<close>

section \<open>The index and the entries\<close>

definition aliases :: "(mach_name \<rightharpoonup> name_entry) \<Rightarrow> mach_object \<Rightarrow> mach_name set" where
  "aliases E object = {n. \<exists>e. E n = Some e \<and> ne_object e = object}"

definition held :: "(mach_name \<rightharpoonup> name_entry) \<Rightarrow> mach_object \<Rightarrow> nat \<Rightarrow> bool" where
  "held E object k \<longleftrightarrow> (\<exists>n e. E n = Some e \<and> ne_object e = object \<and> bit (ne_type e) k)"

definition indexes ::
  "(mach_name \<rightharpoonup> name_entry) \<Rightarrow> mach_object \<Rightarrow> object_names option \<Rightarrow> bool" where
  "indexes E object found \<longleftrightarrow>
    (case found of
       None \<Rightarrow> aliases E object = {}
     | Some i \<Rightarrow> aliases E object \<noteq> {} \<and> sorted_wrt (<) (on_names i) \<and>
         set (on_names i) = aliases E object \<and>
         (\<forall>k. bit (on_rights i) k \<longleftrightarrow> held E object k))"

definition entry_ok :: "name_entry \<Rightarrow> bool" where
  "entry_ok e \<longleftrightarrow> ne_object e \<noteq> null_name \<and> ne_type e \<noteq> 0 \<and>
    (\<forall>r. ne_references e r = 0 \<longleftrightarrow> \<not> has_right (ne_type e) r)"

definition index_ok :: "(mach_name \<rightharpoonup> name_entry) \<Rightarrow> space \<Rightarrow> bool" where
  "index_ok E s \<longleftrightarrow> ordered (sp_entries s) \<and> ordered (sp_by_object s) \<and>
    (\<forall>object. indexes E object (map_of (sp_by_object s) object))"

definition space_ok :: "space \<Rightarrow> bool" where
  "space_ok s \<longleftrightarrow> index_ok (map_of (sp_entries s)) s \<and>
    (\<forall>n e. map_of (sp_entries s) n = Some e \<longrightarrow> valid_name n \<and> entry_ok e) \<and>
    (ucast (sp_next_name s) :: u8) = 3"

lemma new_space_ok: "space_ok new_space"
  by (simp add: space_ok_def index_ok_def indexes_def aliases_def new_space_def
      first_dynamic_name_def)

section \<open>Rights as bits\<close>

lemma right_code_eq [simp]: "right_code r = right_code q \<longleftrightarrow> r = q"
  by (cases r; cases q) simp_all

lemma right_bound: "right_code r + 16 < 32"
  by (cases r) simp_all

lemma bit_type_mask: "bit (type_mask r) k \<longleftrightarrow> k = right_code r + 16"
  using right_bound [of r] unfolding type_mask_def bit_push_bit_iff bit_1_iff by auto

lemma has_right_bit: "has_right t r \<longleftrightarrow> bit t (right_code r + 16)"
  unfolding has_right_def bit_eq_iff using right_bound [of r]
  by (auto simp: bit_and_iff bit_type_mask)

lemma has_right_or [simp]: "has_right (t OR u) r \<longleftrightarrow> has_right t r \<or> has_right u r"
  by (simp add: has_right_bit bit_or_iff)

lemma has_right_zero [simp]: "\<not> has_right 0 r"
  by (simp add: has_right_bit)

lemma has_right_and [simp]: "has_right (t AND u) r \<longleftrightarrow> has_right t r \<and> has_right u r"
  by (simp add: has_right_bit bit_and_iff)

lemma has_right_not [simp]: "has_right (NOT t) r \<longleftrightarrow> \<not> has_right t r"
  using right_bound [of r] by (simp add: has_right_bit bit_not_iff)

lemma has_right_mask [simp]: "has_right (type_mask q) r \<longleftrightarrow> q = r"
  by (auto simp: has_right_bit bit_type_mask)

lemma has_right_nonzero: "has_right t r \<Longrightarrow> t \<noteq> 0"
  by auto

section \<open>Sorted name lists\<close>

lemma sorted_dropWhile_head:
  "sorted_wrt (<) (names :: u32 list) \<Longrightarrow> dropWhile (\<lambda>n. n < name) names = [] \<or>
    hd (dropWhile (\<lambda>n. n < name) names) \<noteq> name \<longleftrightarrow> name \<notin> set names"
  by (induction names) auto

lemma set_insert_sorted:
  assumes "sorted_wrt (<) names"
  shows "set (insert_sorted name names) = insert name (set names)"
    and "sorted_wrt (<) (insert_sorted name names)"
proof -
  have "set (insert_sorted name names) = insert name (set names) \<and>
    sorted_wrt (<) (insert_sorted name names)"
    using assms
  proof (induction names)
    case (Cons n names)
    then show ?case
      by (cases "n < name"; cases "n = name") (auto simp: insert_sorted_def Let_def split: if_splits)
  qed (simp add: insert_sorted_def)
  then show "set (insert_sorted name names) = insert name (set names)"
    "sorted_wrt (<) (insert_sorted name names)" by simp_all
qed

lemma set_erase_sorted:
  assumes "sorted_wrt (<) names"
  shows "set (erase_sorted name names) = set names - {name}"
    and "sorted_wrt (<) (erase_sorted name names)"
proof -
  have "set (erase_sorted name names) = set names - {name} \<and>
    sorted_wrt (<) (erase_sorted name names)"
    using assms
  proof (induction names)
    case (Cons n names)
    then show ?case
      by (cases "n < name"; cases "n = name") (auto simp: erase_sorted_def Let_def split: if_splits)
  qed (simp add: erase_sorted_def)
  then show "set (erase_sorted name names) = set names - {name}"
    "sorted_wrt (<) (erase_sorted name names)" by simp_all
qed

section \<open>Keeping the index\<close>

lemma refresh_loop_union:
  assumes "\<forall>n \<in> set names. \<exists>e. map_of entries n = Some e \<and>
      (\<forall>k. bit (ne_type e) k \<longrightarrow> bit previous k)"
    and "\<forall>k. bit rights k \<longrightarrow> bit previous k"
  shows "\<exists>r. refresh_loop entries previous names rights = Some r \<and>
    (\<forall>k. bit r k \<longleftrightarrow> bit rights k \<or>
      (\<exists>n \<in> set names. \<exists>e. map_of entries n = Some e \<and> bit (ne_type e) k))"
  using assms
proof (induction names arbitrary: rights)
  case (Cons n names)
  then obtain e where e: "map_of entries n = Some e" "\<forall>k. bit (ne_type e) k \<longrightarrow> bit previous k"
    by auto
  let ?r = "rights OR ne_type e"
  have sub: "\<forall>k. bit ?r k \<longrightarrow> bit previous k" using Cons.prems(2) e(2) by (auto simp: bit_or_iff)
  show ?case
  proof (cases "?r AND previous = previous")
    case True
    then have "bit ?r k \<longleftrightarrow> bit previous k" for k
      using sub by (metis bit_and_iff)
    with True Cons.prems e sub show ?thesis
      by (auto simp: bit_or_iff)
  next
    case False
    with Cons.IH [OF _ sub] Cons.prems(1) e show ?thesis by (auto simp: bit_or_iff)
  qed
qed simp

lemma indexes_other:
  assumes "\<And>n e. E n = Some e \<Longrightarrow> ne_object e = p \<Longrightarrow> F n = Some e"
    and "\<And>n e. F n = Some e \<Longrightarrow> ne_object e = p \<Longrightarrow> E n = Some e"
  shows "indexes F p = indexes E p"
proof -
  have "aliases F p = aliases E p" unfolding aliases_def using assms by blast
  moreover have "held F p k = held E p k" for k unfolding held_def using assms by blast
  ultimately show ?thesis by (intro ext) (simp add: indexes_def split: option.split)
qed

lemma indexes_elim:
  assumes "indexes E object found" "E n = Some e" "ne_object e = object"
  obtains i where "found = Some i" "n \<in> set (on_names i)" "sorted_wrt (<) (on_names i)"
    "set (on_names i) = aliases E object" "\<forall>k. bit (on_rights i) k \<longleftrightarrow> held E object k"
proof -
  have "n \<in> aliases E object" using assms(2,3) by (simp add: aliases_def)
  with assms(1) that show thesis by (cases found) (auto simp: indexes_def)
qed

lemma held_aliases:
  "held E object k \<longleftrightarrow> (\<exists>n \<in> aliases E object. \<exists>e. E n = Some e \<and> bit (ne_type e) k)"
  by (simp add: held_def aliases_def) (metis option.inject)

lemma ex_fun_upd:
  "E n = None \<Longrightarrow> (\<exists>m x. (E(n \<mapsto> e)) m = Some x \<and> P m x) \<longleftrightarrow> P n e \<or> (\<exists>m x. E m = Some x \<and> P m x)"
  by (metis fun_upd_apply option.distinct(1) option.inject)

text \<open>Adding a name: the index described the entries without it and describes them with it.\<close>

lemma index_name_ok:
  assumes index: "index_ok E s" and E: "E n = None"
    and n: "map_of (sp_entries s) = E(n \<mapsto> e)" "ne_object e = object"
  shows "\<exists>s'. index_name object n s = Some s' \<and> sp_entries s' = sp_entries s \<and>
    sp_next_name s' = sp_next_name s \<and> index_ok (E(n \<mapsto> e)) s'"
proof -
  let ?blank = "\<lparr>on_names = [], on_rights = 0\<rparr>"
  let ?f = "\<lambda>i. i\<lparr>on_names := insert_sorted n (on_names i), on_rights := on_rights i OR ne_type e\<rparr>"
  let ?index = "modify object ?f (emplace object ?blank (sp_by_object s))"
  have ord: "ordered (sp_by_object s)" "ordered (sp_entries s)" using index by (simp_all add: index_ok_def)
  have present: "object \<in> fst ` set (sp_by_object s) \<longleftrightarrow> map_of (sp_by_object s) object \<noteq> None"
    by (simp add: map_of_eq_None_iff)
  have aliases: "aliases (E(n \<mapsto> e)) object = insert n (aliases E object)"
    using E n(2) by (auto simp: aliases_def)
  have held: "held (E(n \<mapsto> e)) object k \<longleftrightarrow> held E object k \<or> bit (ne_type e) k" for k
    unfolding held_def ex_fun_upd [of E n e, OF E] using n(2) by blast
  have "indexes (E(n \<mapsto> e)) p (map_of ?index p)" for p
  proof (cases "p = object")
    case True
    show ?thesis
    proof (cases "map_of (sp_by_object s) object")
      case None
      then have "aliases E object = {}" using index by (auto simp: index_ok_def indexes_def dest!: spec [of _ object])
      moreover from this have "\<not> held E object k" for k by (simp add: held_aliases)
      ultimately show ?thesis
        using None True present aliases held set_insert_sorted [of "[]" n]
        by (simp add: indexes_def map_of_modify map_of_emplace [OF ord(1)] bit_or_iff)
    next
      case (Some i)
      then have "indexes E object (Some i)" using index by (auto simp: index_ok_def dest!: spec [of _ object])
      then have i: "sorted_wrt (<) (on_names i)" "set (on_names i) = aliases E object"
        "\<forall>k. bit (on_rights i) k \<longleftrightarrow> held E object k" by (simp_all add: indexes_def)
      with Some True present aliases held set_insert_sorted [OF i(1), of n] show ?thesis
        by (simp add: indexes_def map_of_modify map_of_emplace [OF ord(1)] bit_or_iff)
    qed
  next
    case False
    have "map_of ?index p = map_of (sp_by_object s) p"
      using False by (simp add: map_of_modify map_of_emplace [OF ord(1)])
    moreover have "indexes (E(n \<mapsto> e)) p = indexes E p"
      using E n(2) False by (intro indexes_other) (auto split: if_splits)
    ultimately show ?thesis using index by (simp add: index_ok_def)
  qed
  then show ?thesis using n ord by (simp add: index_name_def index_ok_def ordered_emplace)
qed

text \<open>Recomputing the rights of an object from rights that contain them all.\<close>

lemma refresh_ok:
  assumes ord: "ordered (sp_entries s)" "ordered (sp_by_object s)"
    and found: "map_of (sp_by_object s) object = Some i"
    and names: "sorted_wrt (<) (on_names i)" "set (on_names i) = aliases F object" "aliases F object \<noteq> {}"
    and agree: "\<forall>n \<in> aliases F object. map_of (sp_entries s) n = F n"
    and less: "\<And>k. held F object k \<Longrightarrow> bit (on_rights i) k"
    and others: "\<And>p. p \<noteq> object \<Longrightarrow> indexes F p (map_of (sp_by_object s) p)"
  shows "\<exists>s'. refresh_indexed_rights object s = Some s' \<and> sp_entries s' = sp_entries s \<and>
    sp_next_name s' = sp_next_name s \<and> index_ok F s'"
proof -
  have "\<forall>n \<in> set (on_names i). \<exists>e. map_of (sp_entries s) n = Some e \<and>
    (\<forall>k. bit (ne_type e) k \<longrightarrow> bit (on_rights i) k)"
  proof
    fix n assume n: "n \<in> set (on_names i)"
    with names(2) obtain e where e: "F n = Some e" "ne_object e = object" by (auto simp: aliases_def)
    then have "held F object k" if "bit (ne_type e) k" for k using that by (auto simp: held_def)
    with e less n agree names(2) show "\<exists>e. map_of (sp_entries s) n = Some e \<and>
      (\<forall>k. bit (ne_type e) k \<longrightarrow> bit (on_rights i) k)" by auto
  qed
  from refresh_loop_union [OF this, of 0] obtain r
    where r: "refresh_loop (sp_entries s) (on_rights i) (on_names i) 0 = Some r"
      "\<forall>k. bit r k \<longleftrightarrow> (\<exists>n \<in> set (on_names i). \<exists>e. map_of (sp_entries s) n = Some e \<and>
        bit (ne_type e) k)" by auto
  have held: "bit r k \<longleftrightarrow> held F object k" for k
    using r(2) names(2) agree by (simp add: held_aliases)
  let ?index = "modify object (\<lambda>i. i\<lparr>on_rights := r\<rparr>) (sp_by_object s)"
  have "indexes F p (map_of ?index p)" for p
    using found names held others [of p] by (cases "p = object") (simp_all add: indexes_def map_of_modify)
  with found r(1) ord show ?thesis by (simp add: refresh_indexed_rights_def index_ok_def)
qed

text \<open>Taking a name away.\<close>

lemma aliases_drop: "aliases (E(n := None)) object = aliases E object - {n}"
  by (auto simp: aliases_def)

lemma indexes_drop_other:
  assumes "E n = Some e" "ne_object e \<noteq> p" shows "indexes (E(n := None)) p = indexes E p"
  using assms by (intro indexes_other) (auto split: if_splits)

lemma held_drop: "held (E(n := None)) object k \<Longrightarrow> held E object k"
  by (auto simp: held_def split: if_splits)

lemma unindex_ok:
  assumes index: "index_ok E s" and n: "E n = Some e" "ne_object e = object"
    and agree: "\<forall>m \<in> aliases E object - {n}. map_of (sp_entries s) m = E m"
  shows "\<exists>s'. unindex_name object n s = Some s' \<and> sp_entries s' = sp_entries s \<and>
    sp_next_name s' = sp_next_name s \<and> index_ok (E(n := None)) s'"
proof -
  have ord: "ordered (sp_entries s)" "ordered (sp_by_object s)"
    and "indexes E object (map_of (sp_by_object s) object)" using index by (simp_all add: index_ok_def)
  from this(3) n obtain i where i: "map_of (sp_by_object s) object = Some i"
    "sorted_wrt (<) (on_names i)" "set (on_names i) = aliases E object"
    "\<forall>k. bit (on_rights i) k \<longleftrightarrow> held E object k" by (rule indexes_elim) blast
  let ?names = "erase_sorted n (on_names i)"
  have names: "set ?names = aliases (E(n := None)) object" "sorted_wrt (<) ?names"
    using set_erase_sorted [OF i(2), of n] i(3) by (simp_all add: aliases_drop)
  have others: "indexes (E(n := None)) p (map_of (sp_by_object s) p)" if "p \<noteq> object" for p
    using index n that by (simp add: index_ok_def indexes_drop_other)
  show ?thesis
  proof (cases "?names = []")
    case True
    have "indexes (E(n := None)) p (map_of (erase object (sp_by_object s)) p)" for p
      using True names(1) others [of p] by (cases "p = object") (simp_all add: indexes_def map_of_erase [OF ord(2)])
    with True i(1) ord show ?thesis by (simp add: unindex_name_def index_ok_def ordered_erase)
  next
    case False
    let ?s = "s\<lparr>sp_by_object := modify object (\<lambda>i. i\<lparr>on_names := ?names\<rparr>) (sp_by_object s)\<rparr>"
    have "\<exists>s'. refresh_indexed_rights object ?s = Some s' \<and> sp_entries s' = sp_entries ?s \<and>
      sp_next_name s' = sp_next_name ?s \<and> index_ok (E(n := None)) s'"
    proof (rule refresh_ok)
      show "map_of (sp_by_object ?s) object = Some (i\<lparr>on_names := ?names\<rparr>)"
        using i(1) by (simp add: map_of_modify)
      show "aliases (E(n := None)) object \<noteq> {}" using False names(1) by auto
      show "\<forall>m \<in> aliases (E(n := None)) object. map_of (sp_entries ?s) m = (E(n := None)) m"
        using agree by (auto simp: aliases_drop)
      show "bit (on_rights (i\<lparr>on_names := ?names\<rparr>)) k" if "held (E(n := None)) object k" for k
        using held_drop [OF that] i(4) by simp
      show "indexes (E(n := None)) p (map_of (sp_by_object ?s) p)" if "p \<noteq> object" for p
        using others that by (simp add: map_of_modify)
    qed (use ord names in simp_all)
    with False i(1) show ?thesis by (simp add: unindex_name_def Let_def)
  qed
qed

section \<open>Changing one entry\<close>

lemma space_ok_index: "space_ok s \<Longrightarrow> index_ok (map_of (sp_entries s)) s"
  by (simp add: space_ok_def)

lemma space_okI:
  assumes "index_ok (map_of (sp_entries s)) s" "(ucast (sp_next_name s) :: u8) = 3"
    "\<And>n e. map_of (sp_entries s) n = Some e \<Longrightarrow> valid_name n \<and> entry_ok e"
  shows "space_ok s"
  using assms by (simp add: space_ok_def)

lemma space_ok_ordered: "space_ok s \<Longrightarrow> ordered (sp_entries s)"
  by (simp add: space_ok_def index_ok_def)

lemma space_ok_entry: "space_ok s \<Longrightarrow> map_of (sp_entries s) n = Some e \<Longrightarrow> valid_name n \<and> entry_ok e"
  by (simp add: space_ok_def)

lemma max_one [simp]: "max 1 (x :: u32) \<noteq> 0"
proof
  assume "max 1 x = 0"
  then show False using max.cobounded1 [of 1 x] by simp
qed

lemma make_entry_ok: "object \<noteq> null_name \<Longrightarrow> t \<noteq> 0 \<Longrightarrow> entry_ok (make_entry object t references)"
  by (simp add: entry_ok_def make_entry_def)

lemma add_types_fields [simp]:
  "ne_object (add_types t references c e) = ne_object e"
  "ne_type (add_types t references c e) = ne_type e OR t"
  by (simp_all add: add_types_def)

lemma succ_nonzero: "(x :: u32) < y \<Longrightarrow> x + 1 \<noteq> 0"
  by (metis eq_neg_iff_add_eq_0 word_order.extremum_strict)

lemma max_nonzero: "(x :: u32) \<noteq> 0 \<Longrightarrow> max x y \<noteq> 0"
  by (metis max.cobounded1 word_le_0_iff)

lemma add_types_references:
  assumes "ne_references e r = 0 \<longleftrightarrow> \<not> has_right (ne_type e) r"
  shows "ne_references (add_types t references c e) r = 0 \<longleftrightarrow> \<not> has_right (ne_type e OR t) r"
proof (cases "has_right t r")
  case False
  with assms show ?thesis by (simp add: add_types_def)
next
  case new: True
  show ?thesis
  proof (cases "has_right (ne_type e) r")
    case False
    with new show ?thesis by (simp add: add_types_def)
  next
    case True
    with assms have "ne_references e r \<noteq> 0" by simp
    with True new succ_nonzero max_nonzero show ?thesis by (simp add: add_types_def Let_def)
  qed
qed

lemma add_types_ok: "entry_ok e \<Longrightarrow> entry_ok (add_types t references c e)"
  by (auto simp: entry_ok_def add_types_references or_eq_0_iff)

lemma add_entry_ok:
  assumes s: "space_ok s" and free: "map_of (sp_entries s) n = None"
    and new: "valid_name n" "object \<noteq> null_name" "t \<noteq> 0"
  shows "\<exists>s'. add_entry n object t references s = Some s' \<and> space_ok s' \<and>
    sp_next_name s' = sp_next_name s \<and>
    map_of (sp_entries s') = (map_of (sp_entries s))(n \<mapsto> make_entry object t references)"
proof -
  let ?e = "make_entry object t references" and ?E = "map_of (sp_entries s)"
  let ?s = "s\<lparr>sp_entries := emplace n ?e (sp_entries s)\<rparr>"
  have ord: "ordered (sp_entries s)" using s by (rule space_ok_ordered)
  have entries: "map_of (sp_entries ?s) = ?E(n \<mapsto> ?e)"
    using free by (simp add: map_of_emplace [OF ord] map_of_eq_None_iff)
  have "index_ok ?E ?s"
    using space_ok_index [OF s] by (simp add: index_ok_def ordered_emplace)
  from index_name_ok [OF this free entries] obtain s'
    where s': "index_name object n ?s = Some s'" "sp_entries s' = sp_entries ?s"
      "sp_next_name s' = sp_next_name ?s" "index_ok (?E(n \<mapsto> ?e)) s'"
    by (auto simp: make_entry_def)
  have "space_ok s'"
  proof (rule space_okI)
    show "index_ok (map_of (sp_entries s')) s'" using s'(2,4) entries by simp
    show "(ucast (sp_next_name s') :: u8) = 3" using s s'(3) by (simp add: space_ok_def)
    show "valid_name m \<and> entry_ok e" if "map_of (sp_entries s') m = Some e" for m e
      using that s'(2) entries new make_entry_ok space_ok_entry [OF s] by (auto split: if_splits)
  qed
  with s' entries show ?thesis by (simp add: add_entry_def)
qed

lemma aliases_replace:
  assumes "E n = Some e0" "ne_object e = ne_object e0"
  shows "aliases (E(n \<mapsto> e)) p = aliases E p"
  using assms by (auto simp: aliases_def)

lemma held_put:
  "held (E(n \<mapsto> e)) p k \<longleftrightarrow> (ne_object e = p \<and> bit (ne_type e) k) \<or> held (E(n := None)) p k"
  using ex_fun_upd [of "E(n := None)" n e "\<lambda>n e. ne_object e = p \<and> bit (ne_type e) k"]
  by (simp add: held_def)

lemma held_split:
  "E n = Some e \<Longrightarrow>
    held E p k \<longleftrightarrow> (ne_object e = p \<and> bit (ne_type e) k) \<or> held (E(n := None)) p k"
  using held_put [of E n e p k] by (simp add: map_upd_triv)

lemma indexes_replace_other:
  assumes "E n = Some e0" "ne_object e = ne_object e0" "p \<noteq> ne_object e0"
  shows "indexes (E(n \<mapsto> e)) p = indexes E p"
  using assms by (intro indexes_other) (auto split: if_splits)

lemma map_of_modify_entry:
  "map_of m n = Some e \<Longrightarrow> map_of (modify n f m) = (map_of m)(n \<mapsto> f e)"
  by (simp add: map_of_modify)

lemma widen_entry_ok:
  assumes s: "space_ok s" and n: "map_of (sp_entries s) n = Some e" "ne_object e = object"
  shows "\<exists>s'. widen_entry n object t references s = Some s' \<and> space_ok s' \<and>
    sp_next_name s' = sp_next_name s \<and>
    map_of (sp_entries s') = (map_of (sp_entries s))(n \<mapsto> add_types t references True e)"
proof -
  let ?E = "map_of (sp_entries s)" and ?e = "add_types t references True e"
  let ?index = "modify object (\<lambda>i. i\<lparr>on_rights := on_rights i OR t\<rparr>) (sp_by_object s)"
  let ?s = "s\<lparr>sp_entries := modify n (add_types t references True) (sp_entries s), sp_by_object := ?index\<rparr>"
  have index: "index_ok ?E s" using s by (rule space_ok_index)
  then have "indexes ?E object (map_of (sp_by_object s) object)" by (simp add: index_ok_def)
  from this n obtain i where i: "map_of (sp_by_object s) object = Some i"
    "n \<in> set (on_names i)" "sorted_wrt (<) (on_names i)" "set (on_names i) = aliases ?E object"
    "\<forall>k. bit (on_rights i) k \<longleftrightarrow> held ?E object k" by (rule indexes_elim)
  have entries: "map_of (sp_entries ?s) = ?E(n \<mapsto> ?e)" using n(1) by (simp add: map_of_modify)
  have aliases: "aliases (?E(n \<mapsto> ?e)) p = aliases ?E p" for p
    using n(1) by (rule aliases_replace) simp
  have held: "held (?E(n \<mapsto> ?e)) object k \<longleftrightarrow> held ?E object k \<or> bit t k" for k
    using n(2) unfolding held_put held_split [of ?E, OF n(1)] by (auto simp: bit_or_iff)
  have "indexes (?E(n \<mapsto> ?e)) p (map_of ?index p)" for p
  proof (cases "p = object")
    case True
    with i aliases held show ?thesis by (auto simp: indexes_def map_of_modify bit_or_iff)
  next
    case False
    with indexes_replace_other [of ?E n e ?e p] n index show ?thesis
      by (simp add: index_ok_def map_of_modify)
  qed
  then have "index_ok (map_of (sp_entries ?s)) ?s"
    using index unfolding entries by (simp add: index_ok_def)
  then have "space_ok ?s"
  proof (rule space_okI)
    show "(ucast (sp_next_name ?s) :: u8) = 3" using s by (simp add: space_ok_def)
    show "valid_name m \<and> entry_ok e'" if "map_of (sp_entries ?s) m = Some e'" for m e'
      using that space_ok_entry [OF s] add_types_ok n(1) unfolding entries by (auto split: if_splits)
  qed
  with i(1) entries show ?thesis by (simp add: widen_entry_def)
qed

lemma replace_entry_ok:
  assumes s: "space_ok s" and n: "map_of (sp_entries s) n = Some e0"
    and e: "ne_object e = ne_object e0" "ne_type e = ne_type e0" "entry_ok e"
    and f: "f e0 = e"
  shows "space_ok (s\<lparr>sp_entries := modify n f (sp_entries s)\<rparr>)"
    and "map_of (modify n f (sp_entries s)) = (map_of (sp_entries s))(n \<mapsto> e)"
proof -
  let ?E = "map_of (sp_entries s)" and ?s = "s\<lparr>sp_entries := modify n f (sp_entries s)\<rparr>"
  show entries: "map_of (modify n f (sp_entries s)) = ?E(n \<mapsto> e)"
    using n f by (simp add: map_of_modify)
  have aliases: "aliases (?E(n \<mapsto> e)) p = aliases ?E p" for p
    using n e(1) by (rule aliases_replace)
  have "held (?E(n \<mapsto> e)) p k \<longleftrightarrow> held ?E p k" for p k
    using e(1,2) unfolding held_put held_split [of ?E, OF n] by simp
  with aliases have "indexes (?E(n \<mapsto> e)) p = indexes ?E p" for p
    by (intro ext) (simp add: indexes_def split: option.split)
  then have "index_ok (map_of (sp_entries ?s)) ?s"
    using space_ok_index [OF s] entries by (simp add: index_ok_def)
  then show "space_ok ?s"
  proof (rule space_okI)
    show "(ucast (sp_next_name ?s) :: u8) = 3" using s by (simp add: space_ok_def)
    show "valid_name m \<and> entry_ok e'" if "map_of (sp_entries ?s) m = Some e'" for m e'
      using that space_ok_entry [OF s] e(3) n entries by (auto split: if_splits)
  qed
qed

lemma settle_entry_ok:
  assumes s: "space_ok s" and n: "map_of (sp_entries s) n = Some e0"
    and e: "ne_object e = ne_object e0" "\<And>k. bit (ne_type e) k \<Longrightarrow> bit (ne_type e0) k"
      "ne_type e \<noteq> 0 \<Longrightarrow> entry_ok e"
  shows "\<exists>s'. settle_entry n e s = Some s' \<and> space_ok s' \<and> sp_next_name s' = sp_next_name s \<and>
    map_of (sp_entries s') = (if ne_type e = 0 then (map_of (sp_entries s))(n := None)
      else (map_of (sp_entries s))(n \<mapsto> e))"
proof -
  let ?E = "map_of (sp_entries s)" and ?s = "s\<lparr>sp_entries := modify n (\<lambda>_. e) (sp_entries s)\<rparr>"
  have index: "index_ok ?E s" and ord: "ordered (sp_entries s)" "ordered (sp_by_object s)"
    using space_ok_index [OF s] by (simp_all add: index_ok_def)
  have entries: "map_of (sp_entries ?s) = ?E(n \<mapsto> e)" using n by (simp add: map_of_modify)
  have next3: "(ucast (sp_next_name s) :: u8) = 3" using s by (simp add: space_ok_def)
  show ?thesis
  proof (cases "ne_type e = 0")
    case True
    have "index_ok ?E ?s" using index by (simp add: index_ok_def)
    from unindex_ok [OF this n e(1) [symmetric]] entries obtain s1
      where s1: "unindex_name (ne_object e) n ?s = Some s1" "sp_entries s1 = sp_entries ?s"
        "sp_next_name s1 = sp_next_name ?s" "index_ok (?E(n := None)) s1" by auto
    let ?s' = "s1\<lparr>sp_entries := erase n (sp_entries s1)\<rparr>"
    have final: "map_of (sp_entries ?s') = ?E(n := None)"
      using s1(2) entries ord by (simp add: map_of_erase)
    have "space_ok ?s'"
    proof (rule space_okI)
      show "index_ok (map_of (sp_entries ?s')) ?s'"
        using s1(2,4) ord unfolding final by (simp add: index_ok_def ordered_erase)
      show "(ucast (sp_next_name ?s') :: u8) = 3" using next3 s1(3) by simp
      show "valid_name m \<and> entry_ok e'" if "map_of (sp_entries ?s') m = Some e'" for m e'
        using that space_ok_entry [OF s] unfolding final by (auto split: if_splits)
    qed
    with True s1 final show ?thesis by (simp add: settle_entry_def)
  next
    case False
    let ?F = "?E(n \<mapsto> e)" and ?o = "ne_object e"
    have aliases: "aliases ?F p = aliases ?E p" for p using n e(1) by (rule aliases_replace)
    have "indexes ?E ?o (map_of (sp_by_object s) ?o)" using index by (simp add: index_ok_def)
    from this n e(1) [symmetric] obtain i where i: "map_of (sp_by_object s) ?o = Some i"
      "n \<in> set (on_names i)" "sorted_wrt (<) (on_names i)" "set (on_names i) = aliases ?E ?o"
      "\<forall>k. bit (on_rights i) k \<longleftrightarrow> held ?E ?o k" by (rule indexes_elim)
    have "\<exists>s'. refresh_indexed_rights ?o ?s = Some s' \<and> sp_entries s' = sp_entries ?s \<and>
      sp_next_name s' = sp_next_name ?s \<and> index_ok ?F s'"
    proof (rule refresh_ok)
      show "map_of (sp_by_object ?s) ?o = Some i" using i(1) by simp
      show "set (on_names i) = aliases ?F ?o" using i(4) aliases by simp
      show "aliases ?F ?o \<noteq> {}" using i(2,4) aliases by auto
      show "\<forall>m \<in> aliases ?F ?o. map_of (sp_entries ?s) m = ?F m" using entries by simp
      show "bit (on_rights i) k" if "held ?F ?o k" for k
        using that i(5) e(2) e(1) unfolding held_put held_split [of ?E, OF n] by auto
      show "indexes ?F p (map_of (sp_by_object ?s) p)" if "p \<noteq> ?o" for p
        using index indexes_replace_other [of ?E, OF n e(1)] that e(1) by (simp add: index_ok_def)
    qed (use ord i in simp_all)
    then obtain s' where s': "refresh_indexed_rights ?o ?s = Some s'" "sp_entries s' = sp_entries ?s"
      "sp_next_name s' = sp_next_name ?s" "index_ok ?F s'" by blast
    have "space_ok s'"
    proof (rule space_okI)
      show "index_ok (map_of (sp_entries s')) s'" using s'(2,4) entries by simp
      show "(ucast (sp_next_name s') :: u8) = 3" using next3 s'(3) by simp
      show "valid_name m \<and> entry_ok e'" if "map_of (sp_entries s') m = Some e'" for m e'
        using that s'(2) entries space_ok_entry [OF s] e(3) False n by (auto split: if_splits)
    qed
    with False s' entries show ?thesis by (simp add: settle_entry_def)
  qed
qed

section \<open>The operations on a space\<close>

text \<open>An operation that keeps the invariant ends without missing the index.\<close>

definition keeps :: "(space \<Rightarrow> ('a \<times> space) option) \<Rightarrow> bool" where
  "keeps f \<longleftrightarrow> (\<forall>s. space_ok s \<longrightarrow> (\<exists>r s'. f s = Some (r, s') \<and> space_ok s'))"

lemma keepsI: "(\<And>s. space_ok s \<Longrightarrow> \<exists>r s'. f s = Some (r, s') \<and> space_ok s') \<Longrightarrow> keeps f"
  by (simp add: keeps_def)

lemma keepsD: "keeps f \<Longrightarrow> space_ok s \<Longrightarrow> \<exists>r s'. f s = Some (r, s') \<and> space_ok s'"
  by (simp add: keeps_def)

lemma install_keeps:
  assumes "valid_name n" "object \<noteq> null_name" "t \<noteq> 0"
  shows "keeps (install_in n object t references)"
proof (rule keepsI)
  fix s assume s: "space_ok s"
  show "\<exists>r s'. install_in n object t references s = Some (r, s') \<and> space_ok s'"
    using add_entry_ok [OF s _ assms, of references] widen_entry_ok [OF s, of n _ object t references] s
    by (cases "map_of (sp_entries s) n") (auto simp: install_in_def)
qed

lemma low_byte_iff:
  "(ucast (n :: u32) :: u8) = ucast (m :: u32) \<longleftrightarrow> unat n mod 256 = unat m mod 256"
  by (simp add: word_unat_eq_iff unsigned_ucast_eq take_bit_eq_mod)

lemma stride_low: "(ucast (n + name_index_stride) :: u8) = ucast (n :: u32)"
  unfolding low_byte_iff
  by (simp add: name_index_stride_def unat_word_ariths(1) mod_mod_cancel)

lemma low_3_valid: "(ucast (n :: u32) :: u8) = 3 \<Longrightarrow> valid_name n"
  by (auto simp: valid_name_def null_name_def dead_name_def)

declare find_free.simps [simp del]

lemma find_free_some:
  "find_free entries c = Some n \<Longrightarrow>
    valid_name n \<and> map_of entries n = None \<and> (ucast n :: u8) = ucast c \<and> c \<le> n"
proof (induction entries c rule: find_free.induct)
  case (1 entries c)
  show ?case
  proof (cases "\<not> valid_name c \<or> map_of entries c \<noteq> None")
    case True
    with 1(2) have room: "\<not> - 1 - name_index_stride < c"
      and tail: "find_free entries (c + name_index_stride) = Some n"
      by (auto simp: find_free.simps [of entries c] split: if_splits)
    have "c \<le> c + name_index_stride"
      using room by (auto simp: name_index_stride_def word_le_nat_alt word_less_nat_alt unat_word_ariths(1))
    with 1(1) [OF True room tail] stride_low [of c] show ?thesis by (metis order_trans)
  next
    case False
    with 1(2) show ?thesis by (auto simp: find_free.simps [of entries c])
  qed
qed

lemma find_free_none:
  "find_free entries c = None \<Longrightarrow> c \<le> n \<Longrightarrow> (ucast n :: u8) = ucast c \<Longrightarrow>
    \<not> valid_name n \<or> map_of entries n \<noteq> None"
proof (induction entries c arbitrary: n rule: find_free.induct)
  case (1 entries c)
  then have taken: "\<not> valid_name c \<or> map_of entries c \<noteq> None"
    by (auto simp: find_free.simps [of entries c] split: if_splits)
  show ?case
  proof (cases "n = c")
    case False
    have low: "unat n mod 256 = unat c mod 256"
      using 1(4) unfolding low_byte_iff .
    have "unat c \<noteq> unat n" using False by (metis word_unat_eq_iff)
    moreover have "unat c \<le> unat n" using 1(3) unfolding word_le_nat_alt .
    ultimately have less: "unat c < unat n" by simp
    have gap: "unat c + 256 \<le> unat n"
    proof -
      have "256 dvd unat n - unat c" using low less by (simp add: mod_eq_dvd_iff_nat)
      then have "256 \<le> unat n - unat c" using less by (intro dvd_imp_le) simp_all
      with less show ?thesis by linarith
    qed
    have room: "\<not> - 1 - name_index_stride < c"
      using gap unat_u32_less [of n] by (simp add: name_index_stride_def word_less_nat_alt)
    have "find_free entries (c + name_index_stride) = None"
      using 1(2) taken room by (simp add: find_free.simps [of entries c])
    moreover have "c + name_index_stride \<le> n"
      using gap unat_u32_less [of n] by (simp add: name_index_stride_def word_le_nat_alt unat_word_ariths(1))
    ultimately show ?thesis using 1(1) [OF taken room] 1(4) stride_low [of c] by simp
  qed (use taken in simp)
qed

lemma allocate_ok:
  assumes s: "space_ok s" and o: "object \<noteq> null_name" "t \<noteq> 0"
  shows "\<exists>r s'. allocate_in object t s = Some (r, s') \<and> space_ok s' \<and>
    (case r of
       None \<Rightarrow> s' = s \<and> (\<forall>n. sp_next_name s \<le> n \<and> (ucast n :: u8) = 3 \<longrightarrow>
         map_of (sp_entries s) n \<noteq> None)
     | Some n \<Rightarrow> map_of (sp_entries s) n = None \<and> (ucast n :: u8) = 3 \<and> sp_next_name s \<le> n \<and>
         map_of (sp_entries s') = (map_of (sp_entries s))(n \<mapsto> make_entry object t 1))"
proof -
  have low: "(ucast (sp_next_name s) :: u8) = 3" using s by (simp add: space_ok_def)
  show ?thesis
  proof (cases "find_free (sp_entries s) (sp_next_name s)")
    case None
    have "map_of (sp_entries s) n \<noteq> None" if "sp_next_name s \<le> n" "(ucast n :: u8) = 3" for n
      using find_free_none [OF None that(1)] low that(2) low_3_valid [of n] by simp
    with None s show ?thesis by (simp add: allocate_in_def)
  next
    case (Some n)
    note free = find_free_some [OF Some]
    then obtain s' where s': "add_entry n object t 1 s = Some s'" "space_ok s'"
      "sp_next_name s' = sp_next_name s"
      "map_of (sp_entries s') = (map_of (sp_entries s))(n \<mapsto> make_entry object t 1)"
      using add_entry_ok [OF s _ _ o, of n 1] by auto
    have "space_ok (s'\<lparr>sp_next_name := n + name_index_stride\<rparr>)"
      using s'(2) free low by (auto simp: space_ok_def index_ok_def stride_low)
    with Some s' free low show ?thesis by (simp add: allocate_in_def)
  qed
qed

lemma allocate_keeps: "object \<noteq> null_name \<Longrightarrow> t \<noteq> 0 \<Longrightarrow> keeps (allocate_in object t)"
  using allocate_ok by (metis keepsI)

lemma allocate_checked_keeps: "keeps (allocate_checked object t)"
  using allocate_keeps by (auto simp: allocate_checked_def keeps_def)

text \<open>The alias a copied-out right is merged into.\<close>

lemma ordinary_alias_ok:
  assumes "\<forall>n \<in> set names. \<exists>e. E n = Some e"
    and E: "map_of entries = E"
  shows "\<exists>r. ordinary_alias entries names = Some r \<and>
    (case r of
       None \<Rightarrow> \<forall>n \<in> set names. has_right (ne_type (the (E n))) SendOnce
     | Some n \<Rightarrow> n \<in> set names \<and> \<not> has_right (ne_type (the (E n))) SendOnce)"
  using assms(1) by (induction names) (auto simp: E split: option.splits)

lemma indexed_names_ok:
  assumes "space_ok s"
  shows "case indexed_names s object of
      None \<Rightarrow> aliases (map_of (sp_entries s)) object = {}
    | Some names \<Rightarrow> names \<noteq> [] \<and> sorted_wrt (<) names \<and>
        set names = aliases (map_of (sp_entries s)) object"
proof -
  have "indexes (map_of (sp_entries s)) object (map_of (sp_by_object s) object)"
    using assms by (simp add: space_ok_def index_ok_def)
  then show ?thesis
    by (cases "map_of (sp_by_object s) object") (auto simp: indexed_names_def indexes_def)
qed

definition find_alias :: "space \<Rightarrow> mach_object \<Rightarrow> mach_name option option" where
  "find_alias s object = (case indexed_names s object of
      None \<Rightarrow> Some None
    | Some names \<Rightarrow> ordinary_alias (sp_entries s) names)"

lemma find_alias_ok:
  assumes "space_ok s"
  shows "find_alias s object = Some None \<and>
      (\<forall>n e. map_of (sp_entries s) n = Some e \<and> ne_object e = object \<longrightarrow> has_right (ne_type e) SendOnce)
    \<or> (\<exists>n e. find_alias s object = Some (Some n) \<and> map_of (sp_entries s) n = Some e \<and>
      ne_object e = object \<and> \<not> has_right (ne_type e) SendOnce)"
proof (cases "indexed_names s object")
  case None
  with indexed_names_ok [OF assms, of object] show ?thesis by (auto simp: find_alias_def aliases_def)
next
  case (Some names)
  with indexed_names_ok [OF assms, of object]
  have names: "set names = aliases (map_of (sp_entries s)) object" by simp
  then have "\<forall>n \<in> set names. \<exists>e. map_of (sp_entries s) n = Some e" by (auto simp: aliases_def)
  from ordinary_alias_ok [OF this refl] obtain r
    where r: "ordinary_alias (sp_entries s) names = Some r"
      "case r of
         None \<Rightarrow> \<forall>n \<in> set names. has_right (ne_type (the (map_of (sp_entries s) n))) SendOnce
       | Some n \<Rightarrow> n \<in> set names \<and> \<not> has_right (ne_type (the (map_of (sp_entries s) n))) SendOnce"
    by blast
  show ?thesis
  proof (cases r)
    case None
    with r names Some show ?thesis by (auto simp: find_alias_def aliases_def)
  next
    case (Some n)
    with r names \<open>indexed_names s object = Some names\<close> show ?thesis
      by (auto simp: find_alias_def aliases_def)
  qed
qed

lemma widen_keeps:
  assumes "space_ok s" "map_of (sp_entries s) n = Some e" "ne_object e = object"
  shows "\<exists>s'. map_option (Pair r) (widen_entry n object t references s) = Some (r, s') \<and> space_ok s'"
  using widen_entry_ok [OF assms, of t references] by auto

lemma copyout_keeps: "keeps (copyout_in object t)"
proof (rule keepsI)
  fix s assume s: "space_ok s"
  show "\<exists>r s'. copyout_in object t s = Some (r, s') \<and> space_ok s'"
    using find_alias_ok [OF s, of object] keepsD [OF allocate_checked_keeps s] widen_keeps [OF s]
    unfolding copyout_in_def find_alias_def [symmetric] by (auto; blast)
qed

lemma copyout_at_name_keeps: "keeps (copyout_at_name_in object t preferred)"
proof (rule keepsI)
  fix s assume s: "space_ok s"
  let ?usable = "object \<noteq> null_name \<and> t \<noteq> 0 \<and> valid_name preferred \<and> map_of (sp_entries s) preferred = None"
  let ?place = "if ?usable then map_option (Pair (Some preferred)) (add_entry preferred object t 1 s)
    else allocate_checked object t s"
  have place: "\<exists>r s'. ?place = Some (r, s') \<and> space_ok s'"
    using add_entry_ok [OF s, of preferred object t 1] keepsD [OF allocate_checked_keeps s, of object t]
    by auto
  show "\<exists>r s'. copyout_at_name_in object t preferred s = Some (r, s') \<and> space_ok s'"
    using find_alias_ok [OF s, of object] place widen_keeps [OF s]
    unfolding copyout_at_name_in_def find_alias_def [symmetric] Let_def by (auto; blast)
qed

lemma erase_entry_ok:
  assumes s: "space_ok s" and n: "map_of (sp_entries s) n = Some e"
    and s1: "index_ok ((map_of (sp_entries s))(n := None)) s1" "sp_entries s1 = sp_entries s"
      "sp_next_name s1 = sp_next_name s"
  shows "space_ok (s1\<lparr>sp_entries := erase n (sp_entries s1)\<rparr>)"
    and "map_of (erase n (sp_entries s1)) = (map_of (sp_entries s))(n := None)"
proof -
  have ord: "ordered (sp_entries s)" using s by (rule space_ok_ordered)
  then show entries: "map_of (erase n (sp_entries s1)) = (map_of (sp_entries s))(n := None)"
    by (simp add: s1(2) map_of_erase)
  show "space_ok (s1\<lparr>sp_entries := erase n (sp_entries s1)\<rparr>)"
  proof (rule space_okI)
    show "(ucast (sp_next_name (s1\<lparr>sp_entries := erase n (sp_entries s1)\<rparr>)) :: u8) = 3"
      using s s1(3) by (simp add: space_ok_def)
    show "index_ok (map_of (sp_entries (s1\<lparr>sp_entries := erase n (sp_entries s1)\<rparr>)))
        (s1\<lparr>sp_entries := erase n (sp_entries s1)\<rparr>)"
      using s1(1,2) ord entries by (simp add: index_ok_def ordered_erase)
    show "valid_name m \<and> entry_ok e'"
      if "map_of (sp_entries (s1\<lparr>sp_entries := erase n (sp_entries s1)\<rparr>)) m = Some e'" for m e'
      using that entries space_ok_entry [OF s] by (auto split: if_splits)
  qed
qed

lemma destroy_name_ok:
  assumes s: "space_ok s"
  shows "\<exists>s'. destroy_name_in n s = Some (map_of (sp_entries s) n, s') \<and> space_ok s' \<and>
    map_of (sp_entries s') = (map_of (sp_entries s))(n := None)"
proof (cases "map_of (sp_entries s) n")
  case None
  with s show ?thesis by (auto simp: destroy_name_in_def fun_upd_idem)
next
  case (Some e)
  from unindex_ok [OF space_ok_index [OF s] Some refl] obtain s1
    where s1: "unindex_name (ne_object e) n s = Some s1" "sp_entries s1 = sp_entries s"
      "sp_next_name s1 = sp_next_name s" "index_ok ((map_of (sp_entries s))(n := None)) s1" by auto
  with erase_entry_ok [OF s Some s1(4,2,3)] Some show ?thesis by (simp add: destroy_name_in_def)
qed

lemma destroy_keeps: "keeps (destroy_name_in n)"
  using destroy_name_ok by (metis keepsI)

lemma rename_ok:
  assumes s: "space_ok s" and new: "valid_name new_name"
    and old: "map_of (sp_entries s) old_name = Some e" and free: "map_of (sp_entries s) new_name = None"
  shows "\<exists>s'. rename_in old_name new_name s = Some (True, s') \<and> space_ok s' \<and>
    map_of (sp_entries s') = (map_of (sp_entries s))(old_name := None, new_name \<mapsto> e)"
proof -
  let ?E = "map_of (sp_entries s)"
  let ?s = "s\<lparr>sp_entries := emplace new_name e (erase old_name (sp_entries s))\<rparr>"
  have index: "index_ok ?E s" and ord: "ordered (sp_entries s)"
    using space_ok_index [OF s] space_ok_ordered [OF s] by simp_all
  have different: "old_name \<noteq> new_name" using old free by auto
  have ord': "ordered (erase old_name (sp_entries s))" using ord by (rule ordered_erase)
  have "new_name \<notin> fst ` set (erase old_name (sp_entries s))"
    using free by (auto simp: set_erase map_of_eq_None_iff image_iff)
  then have entries: "map_of (sp_entries ?s) = ?E(old_name := None, new_name \<mapsto> e)"
    using ord by (simp add: map_of_emplace [OF ord'] map_of_erase)
  have "index_ok ?E ?s" using index ord' by (simp add: index_ok_def ordered_emplace)
  moreover have "\<forall>m \<in> aliases ?E (ne_object e) - {old_name}. map_of (sp_entries ?s) m = ?E m"
    using free unfolding entries by (auto simp: aliases_def)
  ultimately obtain s1 where s1: "unindex_name (ne_object e) old_name ?s = Some s1"
    "sp_entries s1 = sp_entries ?s" "sp_next_name s1 = sp_next_name ?s"
    "index_ok (?E(old_name := None)) s1" using unindex_ok [of ?E ?s old_name e] old by blast
  have "(?E(old_name := None)) new_name = None" using free by simp
  moreover have "map_of (sp_entries s1) = (?E(old_name := None))(new_name \<mapsto> e)"
    using s1(2) entries by simp
  ultimately obtain s2 where s2: "index_name (ne_object e) new_name s1 = Some s2"
    "sp_entries s2 = sp_entries s1" "index_ok (?E(old_name := None, new_name \<mapsto> e)) s2"
    "sp_next_name s2 = sp_next_name s1"
    using index_name_ok [OF s1(4) _ _ refl] by blast
  have "space_ok s2"
  proof (rule space_okI)
    show "index_ok (map_of (sp_entries s2)) s2" using s2(2,3) s1(2) entries by simp
    show "(ucast (sp_next_name s2) :: u8) = 3" using s s1(3) s2(4) by (simp add: space_ok_def)
    show "valid_name m \<and> entry_ok e'" if "map_of (sp_entries s2) m = Some e'" for m e'
      using that s2(2) s1(2) entries new space_ok_entry [OF s] old by (auto split: if_splits)
  qed
  with s1 s2 old free entries show ?thesis by (simp add: rename_in_def)
qed

lemma rename_keeps: "valid_name new_name \<Longrightarrow> keeps (rename_in old_name new_name)"
proof (rule keepsI)
  fix s assume new: "valid_name new_name" and s: "space_ok s"
  show "\<exists>r s'. rename_in old_name new_name s = Some (r, s') \<and> space_ok s'"
  proof (cases "map_of (sp_entries s) new_name = None \<and> map_of (sp_entries s) old_name \<noteq> None")
    case True
    then obtain e where e: "map_of (sp_entries s) old_name = Some e" by blast
    from rename_ok [OF s new e conjunct1 [OF True]] show ?thesis by blast
  qed (use s in \<open>auto simp: rename_in_def\<close>)
qed

section \<open>Taking references and rights away\<close>

lemma entry_ok_drop:
  assumes "entry_ok e" "ne_type e AND NOT t \<noteq> 0"
  shows "entry_ok (e\<lparr>ne_type := ne_type e AND NOT t,
    ne_references := (\<lambda>r. if has_right t r then 0 else ne_references e r)\<rparr>)"
  using assms by (simp add: entry_ok_def)

lemma settle_keeps:
  assumes s: "space_ok s" and n: "map_of (sp_entries s) n = Some e0"
    and e: "ne_object e = ne_object e0" "ne_type e = ne_type e0 AND NOT t"
      "\<And>r. ne_references e r = (if has_right t r then 0 else ne_references e0 r)"
  shows "\<exists>s'. settle_entry n e s = Some s' \<and> space_ok s' \<and>
    map_of (sp_entries s') = (if ne_type e = 0 then (map_of (sp_entries s))(n := None)
      else (map_of (sp_entries s))(n \<mapsto> e))"
proof -
  have "entry_ok e" if "ne_type e \<noteq> 0"
    using space_ok_entry [OF s n] e that by (simp add: entry_ok_def)
  moreover have "bit (ne_type e) k \<Longrightarrow> bit (ne_type e0) k" for k using e(2) by (simp add: bit_and_iff)
  ultimately show ?thesis using settle_entry_ok [OF s n e(1)] by blast
qed

lemma drop_right_ok:
  assumes "space_ok s" "map_of (sp_entries s) n = Some e0" "ne_object e = ne_object e0"
    "ne_type e = ne_type e0 AND NOT (type_mask r)" "ne_references e = (ne_references e0)(r := 0)"
  shows "\<exists>s'. settle_entry n e s = Some s' \<and> space_ok s' \<and>
    map_of (sp_entries s') = (if ne_type e = 0 then (map_of (sp_entries s))(n := None)
      else (map_of (sp_entries s))(n \<mapsto> e))"
proof -
  have "ne_references e q = (if has_right (type_mask r) q then 0 else ne_references e0 q)" for q
    by (simp add: assms(5))
  with settle_keeps [OF assms(1-4)] show ?thesis by blast
qed

lemma remove_type_keeps: "keeps (remove_type_in n t)"
proof (rule keepsI)
  fix s assume s: "space_ok s"
  show "\<exists>r s'. remove_type_in n t s = Some (r, s') \<and> space_ok s'"
  proof (cases "map_of (sp_entries s) n")
    case (Some e)
    from settle_keeps [OF s Some, of "e\<lparr>ne_type := ne_type e AND NOT t,
        ne_references := (\<lambda>r. if has_right t r then 0 else ne_references e r)\<rparr>" t] Some s
    show ?thesis by (auto simp: remove_type_in_def)
  qed (use s in \<open>simp add: remove_type_in_def ex_bool_eq\<close>)
qed

lemma same_rights_ok:
  assumes "entry_ok e" "ne_references e r \<noteq> 0" "v \<noteq> 0"
  shows "entry_ok (e\<lparr>ne_references := (ne_references e)(r := v)\<rparr>)"
  using assms by (auto simp: entry_ok_def)

lemma deallocate_in_cases:
  assumes s: "space_ok s" and n: "map_of (sp_entries s) n = Some e"
  shows "\<exists>s'. deallocate_in n s = Some (\<exists>r \<in> {Send, SendOnce, DeadName}. has_right (ne_type e) r, s') \<and>
    space_ok s'"
proof -
  let ?t = "type_mask Send OR type_mask SendOnce OR type_mask DeadName"
  let ?available = "ne_type e AND ?t"
  define r where "r = (if has_right ?available Send then Send
    else if has_right ?available SendOnce then SendOnce else DeadName)"
  have result: "deallocate_in n s =
    (if ?available = 0 then Some (False, s)
     else if 1 < ne_references e r
     then Some (True, s\<lparr>sp_entries := modify n (\<lambda>e'. e'\<lparr>ne_references :=
       (ne_references e')(r := ne_references e r - 1)\<rparr>) (sp_entries s)\<rparr>)
     else map_option (Pair True) (settle_entry n
       (e\<lparr>ne_references := (ne_references e)(r := 0), ne_type := ne_type e AND NOT (type_mask r)\<rparr>) s))"
    by (simp only: deallocate_in_def n option.case Let_def r_def)
  show ?thesis
  proof (cases "?available = 0")
    case True
    then have "\<not> has_right ?available q" for q by simp
    from this [of Send] this [of SendOnce] this [of DeadName]
    have "\<not> (\<exists>r \<in> {Send, SendOnce, DeadName}. has_right (ne_type e) r)" by simp
    with True s show ?thesis by (auto simp: result)
  next
    case False
    then obtain k where "bit (ne_type e) k" "bit ?t k" by (auto simp: bit_eq_iff bit_and_iff)
    then have available: "has_right (ne_type e) Send \<or> has_right (ne_type e) SendOnce \<or>
      has_right (ne_type e) DeadName"
      by (auto simp: bit_or_iff bit_type_mask has_right_bit)
    then have held: "has_right (ne_type e) r" by (auto simp: r_def)
    then have refs: "ne_references e r \<noteq> 0" using space_ok_entry [OF s n] by (simp add: entry_ok_def)
    have some: "\<exists>r \<in> {Send, SendOnce, DeadName}. has_right (ne_type e) r" using available by auto
    show ?thesis
    proof (cases "1 < ne_references e r")
      case True
      then have "ne_references e r - 1 \<noteq> 0" by auto
      with same_rights_ok [OF conjunct2 [OF space_ok_entry [OF s n]] refs]
      have "space_ok (s\<lparr>sp_entries := modify n (\<lambda>e'. e'\<lparr>ne_references :=
          (ne_references e')(r := ne_references e r - 1)\<rparr>) (sp_entries s)\<rparr>)"
        by (intro replace_entry_ok(1) [OF s n, where e = "e\<lparr>ne_references :=
          (ne_references e)(r := ne_references e r - 1)\<rparr>"]) simp_all
      then show ?thesis using False True some by (simp add: result)
    next
      case last: False
      obtain s' where "settle_entry n (e\<lparr>ne_references := (ne_references e)(r := 0),
          ne_type := ne_type e AND NOT (type_mask r)\<rparr>) s = Some s'" "space_ok s'"
        using drop_right_ok [OF s n, of "e\<lparr>ne_references := (ne_references e)(r := 0),
          ne_type := ne_type e AND NOT (type_mask r)\<rparr>" r] by auto
      then show ?thesis
        using False last some by (simp add: result)
    qed
  qed
qed

lemma deallocate_keeps: "keeps (deallocate_in n)"
proof (rule keepsI)
  fix s assume s: "space_ok s"
  show "\<exists>r s'. deallocate_in n s = Some (r, s') \<and> space_ok s'"
    using deallocate_in_cases [OF s, of n] s by (cases "map_of (sp_entries s) n") (auto simp: deallocate_in_def)
qed

end
