(* ===== verification/Mach_Table.thy ===== *)
theory Mach_Table
  imports Mach_Space
begin

text \<open>
  The table of Mach name spaces: the remaining operations of a space, the invariant of the
  whole table under every sequence of calls, and the properties of names, rights and
  references.
\<close>

section \<open>References and dead names\<close>

lemma modify_references_keeps: "keeps (modify_references_in n r delta)"
proof (rule keepsI)
  fix s assume s: "space_ok s"
  show "\<exists>b s'. modify_references_in n r delta s = Some (b, s') \<and> space_ok s'"
  proof (cases "map_of (sp_entries s) n")
    case None
    with s show ?thesis by (simp add: modify_references_in_def ex_bool_eq)
  next
    case (Some e)
    let ?refs = "ne_references e r" and ?m = "- scast delta :: u64"
      and ?max = "if r = Send then maximum_send_user_references else maximum_user_references"
    have ok: "entry_ok e" using space_ok_entry [OF s Some] by simp
    show ?thesis
    proof (cases "has_right (ne_type e) r")
      case False
      with Some s show ?thesis by (simp add: modify_references_in_def ex_bool_eq)
    next
      case held: True
      then have refs: "?refs \<noteq> 0" using ok by (simp add: entry_ok_def)
      have put: "space_ok (s\<lparr>sp_entries := modify n f (sp_entries s)\<rparr>)"
        if "v \<noteq> 0" "f e = e\<lparr>ne_references := (ne_references e)(r := v)\<rparr>" for f v
        using replace_entry_ok(1) [OF s Some, of "f e" f] same_rights_ok [OF ok refs that(1)] that(2)
        by simp
      have drop: "\<exists>s'. settle_entry n (e\<lparr>ne_references := (ne_references e)(r := 0),
          ne_type := ne_type e AND NOT (type_mask r)\<rparr>) s = Some s' \<and> space_ok s'"
        using drop_right_ok [OF s Some, of "e\<lparr>ne_references := (ne_references e)(r := 0),
          ne_type := ne_type e AND NOT (type_mask r)\<rparr>" r] by auto
      show ?thesis
      proof (cases "0 <s delta")
        case up: True
        have "?refs + delta \<noteq> 0" if "\<not> ?max < ?refs" "\<not> ?max - ?refs < delta"
        proof
          assume zero: "?refs + delta = 0"
          have "unat ?max \<le> 0xffff"
            by (simp add: maximum_send_user_references_def maximum_user_references_def)
          moreover have "unat delta \<le> unat ?max - unat ?refs" "unat ?refs \<le> unat ?max"
            using that by (auto simp: not_less word_le_nat_alt unat_sub)
          ultimately have "unat (?refs + delta) = unat ?refs + unat delta"
            by (simp add: unat_word_ariths(1))
          with zero refs show False by (simp add: unat_eq_zero)
        qed
        with put [of "?refs + delta" "\<lambda>e'. e'\<lparr>ne_references := (ne_references e')(r := ?refs + delta)\<rparr>"]
          Some held up s
        show ?thesis by (auto simp: modify_references_in_def Let_def ex_bool_eq)
      next
        case down: False
        show ?thesis
        proof (cases "ucast ?refs < ?m")
          case True
          with Some held down s show ?thesis by (simp add: modify_references_in_def Let_def ex_bool_eq)
        next
          case False
          with put [of "?refs - ucast ?m" "\<lambda>_. e\<lparr>ne_references := (ne_references e)(r := ?refs - ucast ?m)\<rparr>"]
            drop Some held down s
          show ?thesis by (cases "?refs - ucast ?m = 0") (auto simp: modify_references_in_def Let_def ex_bool_eq)
        qed
      qed
    qed
  qed
qed

text \<open>Marking an object dead.\<close>

definition deadened :: "mach_object \<Rightarrow> (mach_name \<rightharpoonup> name_entry) \<Rightarrow> mach_name \<rightharpoonup> name_entry" where
  "deadened object E n = map_option (\<lambda>e.
     if ne_object e = object \<and> (has_right (ne_type e) Send \<or> has_right (ne_type e) SendOnce)
     then dead_entry e else e) (E n)"

lemma dead_types_iff:
  "t AND dead_types = 0 \<longleftrightarrow> \<not> has_right t Send \<and> \<not> has_right t SendOnce"
proof -
  have "t AND dead_types = 0 \<longleftrightarrow> (\<forall>k. bit t k \<longrightarrow> \<not> bit dead_types k)"
    using bit_imp_le_length [of t] by (auto simp: bit_eq_iff bit_and_iff)
  also have "\<dots> \<longleftrightarrow> \<not> bit t 16 \<and> \<not> bit t 18" by (auto simp: dead_types_def bit_or_iff bit_type_mask)
  finally show ?thesis by (simp add: has_right_bit)
qed

lemma dead_references_nonzero:
  "(ucast (min 0xffffffff (max 1 c)) :: u32) \<noteq> 0" for c :: u64
proof
  assume zero: "(ucast (min 0xffffffff (max 1 c)) :: u32) = 0"
  have "1 \<le> min 0xffffffff (max 1 c)" "min 0xffffffff (max 1 c) \<le> 0xffffffff" by simp_all
  then have "0 < unat (min 0xffffffff (max 1 c))" "unat (min 0xffffffff (max 1 c)) < 2 ^ 32"
    by (simp_all add: word_le_nat_alt)
  moreover have "unat (ucast (min 0xffffffff (max 1 c)) :: u32) = unat (min 0xffffffff (max 1 c)) mod 2 ^ 32"
    by (simp add: unsigned_ucast_eq take_bit_eq_mod)
  ultimately show False using zero by simp
qed

lemma dead_entry_fields:
  "ne_object (dead_entry e) = ne_object e"
  "has_right (ne_type (dead_entry e)) r \<longleftrightarrow>
    r = DeadName \<or> (r \<noteq> Send \<and> r \<noteq> SendOnce \<and> has_right (ne_type e) r)"
  "bit (ne_type (dead_entry e)) k \<longleftrightarrow>
    k = 20 \<or> (k \<noteq> 16 \<and> k \<noteq> 18 \<and> bit (ne_type e) k)"
proof -
  show "ne_object (dead_entry e) = ne_object e" by (simp add: dead_entry_def Let_def)
  show bits: "bit (ne_type (dead_entry e)) k \<longleftrightarrow> k = 20 \<or> (k \<noteq> 16 \<and> k \<noteq> 18 \<and> bit (ne_type e) k)" for k
    using bit_imp_le_length [of "ne_type e" k]
    by (auto simp: dead_entry_def Let_def dead_types_def bit_or_iff bit_and_iff bit_not_iff bit_type_mask)
  show "has_right (ne_type (dead_entry e)) r \<longleftrightarrow>
    r = DeadName \<or> (r \<noteq> Send \<and> r \<noteq> SendOnce \<and> has_right (ne_type e) r)"
    unfolding has_right_bit bits by (cases r) simp_all
qed

lemma dead_entry_ok: "entry_ok e \<Longrightarrow> entry_ok (dead_entry e)"
proof -
  assume e: "entry_ok e"
  have "ne_references (dead_entry e) r = 0 \<longleftrightarrow> \<not> has_right (ne_type (dead_entry e)) r" for r
    using e dead_references_nonzero unfolding dead_entry_fields(2)
    by (cases r) (simp_all add: entry_ok_def dead_entry_def Let_def)
  moreover have "ne_type (dead_entry e) \<noteq> 0"
    using dead_entry_fields(2) [of e DeadName] has_right_nonzero by blast
  ultimately show ?thesis using e by (simp add: entry_ok_def dead_entry_fields(1))
qed

lemma dead_loop_ok:
  assumes "distinct names" "ordered entries" "\<forall>n \<in> set names. map_of entries n \<noteq> None"
  shows "\<exists>affected entries'. dead_loop task names entries = Some (affected, entries') \<and>
    ordered entries' \<and>
    map_of entries' = (\<lambda>n. if n \<in> set names
      then map_option (\<lambda>e. if ne_type e AND dead_types = 0 then e else dead_entry e) (map_of entries n)
      else map_of entries n) \<and>
    affected = map (\<lambda>n. \<lparr>nd_task = task, nd_name = n, nd_entry = the (map_of entries n)\<rparr>)
      (filter (\<lambda>n. ne_type (the (map_of entries n)) AND dead_types \<noteq> 0) names)"
  using assms
proof (induction names arbitrary: entries)
  case (Cons n names)
  then obtain e where e: "map_of entries n = Some e" by auto
  show ?case
  proof (cases "ne_type e AND dead_types = 0")
    case True
    with Cons.IH [of entries] Cons.prems e show ?thesis by (auto simp: fun_eq_iff)
  next
    case False
    let ?entries = "modify n dead_entry entries"
    have map: "map_of ?entries = (map_of entries)(n \<mapsto> dead_entry e)"
      using e by (rule map_of_modify_entry)
    have "\<forall>m \<in> set names. map_of ?entries m \<noteq> None" using Cons.prems(3) map by auto
    then obtain affected entries' where IH: "dead_loop task names ?entries = Some (affected, entries')"
      "ordered entries'"
      "map_of entries' = (\<lambda>n. if n \<in> set names
        then map_option (\<lambda>e. if ne_type e AND dead_types = 0 then e else dead_entry e) (map_of ?entries n)
        else map_of ?entries n)"
      "affected = map (\<lambda>n. \<lparr>nd_task = task, nd_name = n, nd_entry = the (map_of ?entries n)\<rparr>)
        (filter (\<lambda>n. ne_type (the (map_of ?entries n)) AND dead_types \<noteq> 0) names)"
      using Cons.IH [of ?entries] Cons.prems by auto
    have other: "map_of ?entries m = map_of entries m" if "m \<in> set names" for m
      using that Cons.prems(1) map by auto
    have "affected = map (\<lambda>n. \<lparr>nd_task = task, nd_name = n, nd_entry = the (map_of entries n)\<rparr>)
        (filter (\<lambda>n. ne_type (the (map_of entries n)) AND dead_types \<noteq> 0) names)"
      unfolding IH(4) using other by (auto cong: filter_cong)
    moreover have "map_of entries' = (\<lambda>m. if m \<in> set (n # names)
        then map_option (\<lambda>e. if ne_type e AND dead_types = 0 then e else dead_entry e) (map_of entries m)
        else map_of entries m)"
      unfolding IH(3) map using Cons.prems(1) e False by (auto simp: fun_eq_iff)
    ultimately show ?thesis using IH(1,2) e False by simp
  qed
qed simp

lemma mark_dead_ok:
  assumes s: "space_ok s"
  shows "\<exists>affected s'. mark_dead_in task object s = Some (affected, s') \<and> space_ok s' \<and>
    map_of (sp_entries s') = deadened object (map_of (sp_entries s)) \<and>
    sorted_wrt (<) (map nd_name affected) \<and>
    set affected = {\<lparr>nd_task = task, nd_name = n, nd_entry = e\<rparr> | n e.
      map_of (sp_entries s) n = Some e \<and> ne_object e = object \<and>
      (has_right (ne_type e) Send \<or> has_right (ne_type e) SendOnce)}"
proof -
  let ?E = "map_of (sp_entries s)" and ?D = "deadened object (map_of (sp_entries s))"
  have index: "index_ok ?E s" and ord: "ordered (sp_entries s)" "ordered (sp_by_object s)"
    using space_ok_index [OF s] by (simp_all add: index_ok_def)
  have found: "indexes ?E object (map_of (sp_by_object s) object)" using index by (simp add: index_ok_def)
  show ?thesis
  proof (cases "map_of (sp_by_object s) object")
    case None
    then have none: "aliases ?E object = {}" using found by (simp add: indexes_def)
    then have "?D n = ?E n" for n by (cases "?E n") (auto simp: deadened_def aliases_def)
    then have "?D = ?E" by (rule ext)
    with None none s show ?thesis by (auto simp: mark_dead_in_def indexed_names_def aliases_def)
  next
    case (Some i)
    then have i: "sorted_wrt (<) (on_names i)" "set (on_names i) = aliases ?E object"
      "\<forall>k. bit (on_rights i) k \<longleftrightarrow> held ?E object k" "aliases ?E object \<noteq> {}"
      using found by (simp_all add: indexes_def)
    have "distinct (on_names i)" using i(1) by (auto simp: strict_sorted_iff)
    moreover have "\<forall>n \<in> set (on_names i). ?E n \<noteq> None" using i(2) by (auto simp: aliases_def)
    ultimately obtain affected entries where loop:
      "dead_loop task (on_names i) (sp_entries s) = Some (affected, entries)" "ordered entries"
      "map_of entries = (\<lambda>n. if n \<in> set (on_names i)
        then map_option (\<lambda>e. if ne_type e AND dead_types = 0 then e else dead_entry e) (?E n) else ?E n)"
      "affected = map (\<lambda>n. \<lparr>nd_task = task, nd_name = n, nd_entry = the (?E n)\<rparr>)
        (filter (\<lambda>n. ne_type (the (?E n)) AND dead_types \<noteq> 0) (on_names i))"
      using dead_loop_ok [OF _ ord(1), of "on_names i" task] by blast
    have entries: "map_of entries = ?D"
    proof
      fix n show "map_of entries n = ?D n"
        unfolding loop(3) i(2)
        by (cases "?E n") (auto simp: deadened_def aliases_def dead_types_iff)
    qed
    let ?f = "\<lambda>i. i\<lparr>on_rights := if on_rights i AND dead_types \<noteq> 0
      then (on_rights i AND NOT dead_types) OR type_mask DeadName else on_rights i\<rparr>"
    let ?s = "s\<lparr>sp_entries := entries, sp_by_object := modify object ?f (sp_by_object s)\<rparr>"
    have aliases: "aliases ?D p = aliases ?E p" for p
      by (auto simp: aliases_def deadened_def dead_entry_fields(1) split: if_splits)
        (metis dead_entry_fields(1))+
    have at: "?D n = Some (if has_right (ne_type e) Send \<or> has_right (ne_type e) SendOnce
        then dead_entry e else e)" if "?E n = Some e" "ne_object e = object" for n e
      using that by (simp add: deadened_def)
    have held: "held ?D object k \<longleftrightarrow> bit (on_rights (?f i)) k" for k
    proof -
      have dead: "on_rights i AND dead_types \<noteq> 0 \<longleftrightarrow> (\<exists>n e. ?E n = Some e \<and> ne_object e = object \<and>
          (has_right (ne_type e) Send \<or> has_right (ne_type e) SendOnce))"
        unfolding dead_types_iff has_right_bit i(3) [rule_format] held_def by auto
      have "held ?D object k \<longleftrightarrow> (\<exists>n e. ?E n = Some e \<and> ne_object e = object \<and>
        bit (ne_type (if has_right (ne_type e) Send \<or> has_right (ne_type e) SendOnce
          then dead_entry e else e)) k)"
        unfolding held_aliases aliases using at by (fastforce simp: aliases_def)
      also have "\<dots> \<longleftrightarrow> (k = 20 \<and> on_rights i AND dead_types \<noteq> 0) \<or>
        (k \<noteq> 16 \<and> k \<noteq> 18 \<and> held ?E object k)"
        unfolding dead held_def
        by (auto simp: dead_entry_fields(3) has_right_bit)
      also have "\<dots> \<longleftrightarrow> bit (on_rights (?f i)) k"
        using i(3) bit_imp_le_length [of "on_rights i" k] dead_types_iff [of "on_rights i"]
        by (auto simp: bit_or_iff bit_and_iff bit_not_iff bit_type_mask dead_types_def has_right_bit)
      finally show ?thesis .
    qed
    have "indexes ?D p (map_of (modify object ?f (sp_by_object s)) p)" for p
    proof (cases "p = object")
      case True
      with Some i aliases held show ?thesis by (simp add: indexes_def map_of_modify)
    next
      case False
      have "indexes ?D p = indexes ?E p"
        using False by (intro indexes_other) (auto simp: deadened_def dead_entry_fields(1) split: if_splits)
      with False index show ?thesis by (simp add: index_ok_def map_of_modify)
    qed
    then have "index_ok (map_of (sp_entries ?s)) ?s" using loop(2) ord entries by (simp add: index_ok_def)
    then have "space_ok ?s"
    proof (rule space_okI)
      show "(ucast (sp_next_name ?s) :: u8) = 3" using s by (simp add: space_ok_def)
      show "valid_name m \<and> entry_ok e'" if "map_of (sp_entries ?s) m = Some e'" for m e'
        using that entries space_ok_entry [OF s, of m] dead_entry_ok
        by (auto simp: deadened_def split: if_splits)
    qed
    moreover have "sorted_wrt (<) (map nd_name affected)"
      using i(1) unfolding loop(4) by (simp add: comp_def sorted_wrt_filter)
    moreover have "set affected = {\<lparr>nd_task = task, nd_name = n, nd_entry = e\<rparr> | n e.
        ?E n = Some e \<and> ne_object e = object \<and>
        (has_right (ne_type e) Send \<or> has_right (ne_type e) SendOnce)}"
      unfolding loop(4) by (auto simp: i(2) aliases_def dead_types_iff)
    ultimately show ?thesis
      using Some loop(1) entries by (simp add: mark_dead_in_def indexed_names_def)
  qed
qed

end
