(* ===== verification/Mach_Rights.thy ===== *)
theory Mach_Rights
  imports Mach_Table
begin

text \<open>
  Mach names, rights and references under every sequence of calls: the invariant of the
  table, what each kind of call does to the entries a task can look up, and the properties.
\<close>

section \<open>The table\<close>

definition table_ok :: "namespace_table \<Rightarrow> bool" where
  "table_ok t \<longleftrightarrow> ordered t \<and> (\<forall>task s. map_of t task = Some s \<longrightarrow> space_ok s)"

lemma table_okD: "table_ok t \<Longrightarrow> map_of t task = Some s \<Longrightarrow> space_ok s"
  by (simp add: table_ok_def)

definition space_of :: "task_id \<Rightarrow> namespace_table \<Rightarrow> space" where
  "space_of task t = (case map_of t task of Some s \<Rightarrow> s | None \<Rightarrow> new_space)"

lemma space_of_ok: "table_ok t \<Longrightarrow> space_ok (space_of task t)"
  by (auto simp: space_of_def table_ok_def new_space_ok split: option.split)

lemma map_of_put:
  "ordered m \<Longrightarrow> map_of (emplace k v m) = (if map_of m k = None then (map_of m)(k \<mapsto> v) else map_of m)"
  by (simp add: map_of_emplace map_of_eq_None_iff)

lemma map_of_spaces:
  assumes "ordered t"
  shows "map_of (modify task (\<lambda>_. s) (emplace task new_space t)) = (map_of t)(task \<mapsto> s)"
  using assms by (cases "map_of t task") (simp_all add: map_of_modify map_of_put)

lemma in_space_ok:
  assumes t: "table_ok t" and f: "f (space_of task t) = Some (r, s)" "space_ok s"
  shows "\<exists>t'. in_space task f t = Some (r, t') \<and> table_ok t' \<and> map_of t' = (map_of t)(task \<mapsto> s)"
proof -
  have ord: "ordered t" using t by (simp add: table_ok_def)
  have "(case map_of (emplace task new_space t) task of Some s \<Rightarrow> s | None \<Rightarrow> new_space) = space_of task t"
    using ord by (cases "map_of t task") (simp_all add: map_of_put space_of_def)
  then have "in_space task f t = Some (r, modify task (\<lambda>_. s) (emplace task new_space t))"
    using f(1) by (simp add: in_space_def)
  moreover have "table_ok (modify task (\<lambda>_. s) (emplace task new_space t))"
    using t f(2) ord by (auto simp: table_ok_def map_of_spaces ordered_emplace split: if_splits)
  ultimately show ?thesis using map_of_spaces [OF ord] by blast
qed

lemma in_found_space_ok:
  assumes t: "table_ok t" and s: "map_of t task = Some s" and f: "f s = Some (r, s')" "space_ok s'"
  shows "\<exists>t'. in_found_space task absent f t = Some (r, t') \<and> table_ok t' \<and>
    map_of t' = (map_of t)(task \<mapsto> s')"
  using assms by (auto simp: in_found_space_def table_ok_def map_of_modify split: if_splits)

lemma in_space_keeps:
  "keeps f \<Longrightarrow> table_ok t \<Longrightarrow> \<exists>r t'. in_space task f t = Some (r, t') \<and> table_ok t'"
  using keepsD [of f "space_of task t"] space_of_ok [of t task] in_space_ok [of t f task] by blast

lemma in_found_space_keeps:
  assumes "keeps f" "table_ok t"
  shows "\<exists>r t'. in_found_space task absent f t = Some (r, t') \<and> table_ok t'"
proof (cases "map_of t task")
  case None
  with assms show ?thesis by (simp add: in_found_space_def)
next
  case (Some s)
  from keepsD [OF assms(1) table_okD [OF assms(2) Some]] obtain r s'
    where "f s = Some (r, s')" "space_ok s'" by blast
  then show ?thesis using in_found_space_ok [of t task s f r s' absent] assms(2) Some by blast
qed

lemma table_ok_Cons:
  "table_ok ((task, s) # t) \<longleftrightarrow> space_ok s \<and> table_ok t \<and> (\<forall>f \<in> set t. task < fst f)"
proof -
  have "map_of t task = None" if "\<forall>f \<in> set t. task < fst f"
    using that by (auto simp: map_of_eq_None_iff)
  moreover have "(\<forall>q r. map_of ((task, s) # t) q = Some r \<longrightarrow> space_ok r) \<longleftrightarrow>
    space_ok s \<and> (\<forall>q r. map_of t q = Some r \<longrightarrow> space_ok r)" (is "?all \<longleftrightarrow> ?both")
    if none: "map_of t task = None"
  proof
    assume all: ?all
    have "space_ok r" if "map_of t q = Some r" for q r
    proof -
      have "q \<noteq> task" using none that by auto
      with all [rule_format, of q r] that show ?thesis by simp
    qed
    with all [rule_format, of task s] show ?both by simp
  qed (simp add: all_conj_distrib)
  ultimately show ?thesis unfolding table_ok_def ordered_Cons fst_conv by blast
qed

lemma mark_object_dead_ok:
  "table_ok t \<Longrightarrow> \<exists>affected t'. mark_object_dead object t = Some (affected, t') \<and> table_ok t' \<and>
    map fst t' = map fst t \<and>
    (\<forall>q n. name_lookup q n t' = deadened object (\<lambda>n. name_lookup q n t) n) \<and>
    sorted_wrt (\<lambda>a b. nd_task a < nd_task b \<or> (nd_task a = nd_task b \<and> nd_name a < nd_name b)) affected \<and>
    set affected = {\<lparr>nd_task = task, nd_name = n, nd_entry = e\<rparr> | task n e.
      name_lookup task n t = Some e \<and> ne_object e = object \<and>
      (has_right (ne_type e) Send \<or> has_right (ne_type e) SendOnce)}"
proof (induction t)
  case Nil
  show ?case by (simp add: table_ok_def name_lookup_def deadened_def)
next
  case (Cons x t)
  obtain task s where x: "x = (task, s)" by fastforce
  have s: "space_ok s" and t: "table_ok t" and less: "\<forall>f \<in> set t. task < fst f"
    using Cons.prems by (simp_all add: x table_ok_Cons)
  from mark_dead_ok [OF s, of task object] obtain a s' where a:
    "mark_dead_in task object s = Some (a, s')" "space_ok s'"
    "map_of (sp_entries s') = deadened object (map_of (sp_entries s))"
    "sorted_wrt (<) (map nd_name a)"
    "set a = {\<lparr>nd_task = task, nd_name = n, nd_entry = e\<rparr> | n e.
      map_of (sp_entries s) n = Some e \<and> ne_object e = object \<and>
      (has_right (ne_type e) Send \<or> has_right (ne_type e) SendOnce)}" by blast
  from Cons.IH [OF t] obtain b t' where b: "mark_object_dead object t = Some (b, t')" "table_ok t'"
    "map fst t' = map fst t"
    "\<forall>q n. name_lookup q n t' = deadened object (\<lambda>n. name_lookup q n t) n"
    "sorted_wrt (\<lambda>a b. nd_task a < nd_task b \<or> (nd_task a = nd_task b \<and> nd_name a < nd_name b)) b"
    "set b = {\<lparr>nd_task = task, nd_name = n, nd_entry = e\<rparr> | task n e.
      name_lookup task n t = Some e \<and> ne_object e = object \<and>
      (has_right (ne_type e) Send \<or> has_right (ne_type e) SendOnce)}" by blast
  have fst_t': "\<forall>f \<in> set t'. task < fst f" using less b(3) by (metis (no_types, lifting) imageE imageI list.set_map)
  have here: "nd_task y = task" if "y \<in> set a" for y using that a(5) by auto
  have there: "task < nd_task y" if "y \<in> set b" for y
  proof -
    from that b(6) obtain q n e where y: "nd_task y = q" "name_lookup q n t = Some e" by auto
    then have "q \<in> fst ` set t" 
      by (auto simp: name_lookup_def bind_eq_Some_conv dest!: map_of_SomeD intro: rev_image_eqI)
    with less y(1) show ?thesis by auto
  qed
  have lookup: "name_lookup q n (x # t) = (if q = task then map_of (sp_entries s) n else name_lookup q n t)" for q n
    by (simp add: name_lookup_def x)
  have no_task: "name_lookup task n t = None" for n
    using less by (auto simp: name_lookup_def map_of_eq_None_iff bind_eq_None_conv)
  have "sorted_wrt (\<lambda>a b. nd_task a < nd_task b \<or> (nd_task a = nd_task b \<and> nd_name a < nd_name b)) a"
    using a(4) unfolding sorted_wrt_map by (rule sorted_wrt_mono_rel [rotated]) (simp add: here)
  then have sorted: "sorted_wrt (\<lambda>a b. nd_task a < nd_task b \<or> (nd_task a = nd_task b \<and> nd_name a < nd_name b)) (a @ b)"
    using b(5) here there by (simp add: sorted_wrt_append)
  have set: "set (a @ b) = {\<lparr>nd_task = q, nd_name = n, nd_entry = e\<rparr> | q n e.
      name_lookup q n (x # t) = Some e \<and> ne_object e = object \<and>
      (has_right (ne_type e) Send \<or> has_right (ne_type e) SendOnce)}"
  proof -
    have "name_lookup q n (x # t) = Some e \<longleftrightarrow>
      (q = task \<and> map_of (sp_entries s) n = Some e) \<or> name_lookup q n t = Some e" for q n e
      using no_task by (simp add: lookup)
    then show ?thesis unfolding set_append a(5) b(6) by blast
  qed
  have "name_lookup q n ((task, s') # t') = deadened object (\<lambda>n. name_lookup q n (x # t)) n" for q n
    using a(3) b(4) by (simp add: name_lookup_def x deadened_def)
  then show ?case
    using a(1,2) b(1-3) sorted set fst_t' unfolding x
    by (simp add: table_ok_Cons)
qed

section \<open>Sequences of calls\<close>

datatype namespace_call =
    CreateTask task_id
  | DestroyTask task_id
  | Install task_id mach_name mach_object type_set u32
  | Allocate task_id mach_object type_set
  | Copyout task_id mach_object type_set
  | CopyoutAtName task_id mach_object type_set mach_name
  | Rename task_id mach_name mach_name
  | ModifyReferences task_id mach_name right u32
  | DestroyName task_id mach_name
  | MarkObjectDead mach_object
  | RemoveType task_id mach_name type_set
  | Deallocate task_id mach_name

text \<open>A call, its result dropped; \<open>None\<close> when it throws.\<close>

fun perform :: "namespace_call \<Rightarrow> namespace_table \<Rightarrow> namespace_table option" where
  "perform (CreateTask task) t = Some (create_task task t)"
| "perform (DestroyTask task) t = Some (destroy_task task t)"
| "perform (Install task n object types references) t = map_option snd (install task n object types references t)"
| "perform (Allocate task object types) t = map_option snd (allocate task object types t)"
| "perform (Copyout task object types) t = map_option snd (copyout task object types t)"
| "perform (CopyoutAtName task object types n) t = map_option snd (copyout_at_name task object types n t)"
| "perform (Rename task old_name new_name) t = map_option snd (rename task old_name new_name t)"
| "perform (ModifyReferences task n r delta) t = map_option snd (modify_references task n r delta t)"
| "perform (DestroyName task n) t = map_option snd (destroy_name task n t)"
| "perform (MarkObjectDead object) t = map_option snd (mark_object_dead object t)"
| "perform (RemoveType task n types) t = map_option snd (remove_type task n types t)"
| "perform (Deallocate task n) t = map_option snd (deallocate task n t)"

inductive reachable :: "namespace_table \<Rightarrow> bool" where
  empty: "reachable []"
| call: "reachable t \<Longrightarrow> perform c t = Some t' \<Longrightarrow> reachable t'"

lemma result_kept:
  "\<exists>r t'. f = Some (r, t') \<and> table_ok t' \<Longrightarrow> \<exists>t'. map_option snd f = Some t' \<and> table_ok t'"
  by auto

lemma perform_ok:
  assumes t: "table_ok t"
  shows "\<exists>t'. perform c t = Some t' \<and> table_ok t'"
proof (cases c)
  case (CreateTask task)
  then show ?thesis using t new_space_ok
    by (auto simp: create_task_def table_ok_def ordered_emplace map_of_emplace split: if_splits)
next
  case (DestroyTask task)
  then show ?thesis using t
    by (auto simp: destroy_task_def table_ok_def ordered_erase map_of_erase split: if_splits)
next
  case (Install task n object types references)
  show ?thesis unfolding Install perform.simps install_def
    using in_space_keeps [OF install_keeps t] t by (intro result_kept) auto
next
  case (Allocate task object types)
  show ?thesis unfolding Allocate perform.simps allocate_def
    using in_space_keeps [OF allocate_keeps t] t by (intro result_kept) auto
next
  case (Copyout task object types)
  show ?thesis unfolding Copyout perform.simps copyout_def
    by (intro result_kept in_space_keeps copyout_keeps t)
next
  case (CopyoutAtName task object types n)
  show ?thesis unfolding CopyoutAtName perform.simps copyout_at_name_def
    by (intro result_kept in_space_keeps copyout_at_name_keeps t)
next
  case (Rename task old_name new_name)
  show ?thesis unfolding Rename perform.simps rename_def
    using in_found_space_keeps [OF rename_keeps t] t by (intro result_kept) auto
next
  case (ModifyReferences task n r delta)
  show ?thesis unfolding ModifyReferences perform.simps modify_references_def
    by (intro result_kept in_found_space_keeps modify_references_keeps t)
next
  case (DestroyName task n)
  show ?thesis unfolding DestroyName perform.simps destroy_name_def
    by (intro result_kept in_found_space_keeps destroy_keeps t)
next
  case (MarkObjectDead object)
  show ?thesis unfolding MarkObjectDead perform.simps
    using mark_object_dead_ok [OF t, of object] by (intro result_kept) blast
next
  case (RemoveType task n types)
  show ?thesis unfolding RemoveType perform.simps remove_type_def
    by (intro result_kept in_found_space_keeps remove_type_keeps t)
next
  case (Deallocate task n)
  show ?thesis unfolding Deallocate perform.simps deallocate_def
    by (intro result_kept in_found_space_keeps deallocate_keeps t)
qed

lemma reachable_ok: "reachable t \<Longrightarrow> table_ok t"
proof (induction rule: reachable.induct)
  case empty
  show ?case by (simp add: table_ok_def)
next
  case (call t c t')
  with perform_ok [of t c] show ?case by auto
qed

lemma reachable_perform: "reachable t \<Longrightarrow> perform c t = Some t' \<Longrightarrow> reachable t'"
  by (rule reachable.call)

section \<open>Looking up\<close>

lemma lookup_space:
  "name_lookup task n t = map_of (sp_entries (space_of task t)) n"
  by (cases "map_of t task") (simp_all add: name_lookup_def space_of_def new_space_def)

lemma lookup_update:
  "map_of t' = (map_of t)(task \<mapsto> s) \<Longrightarrow>
    name_lookup q n t' = (if q = task then map_of (sp_entries s) n else name_lookup q n t)"
  by (simp add: name_lookup_def)

lemma names_of_object:
  assumes "table_ok t"
  shows "case map_of t task of
      None \<Rightarrow> (\<forall>n. name_lookup task n t = None)
    | Some s \<Rightarrow> indexes (\<lambda>n. name_lookup task n t) object (map_of (sp_by_object s) object)"
proof (cases "map_of t task")
  case (Some s)
  have "(\<lambda>n. name_lookup task n t) = map_of (sp_entries s)" by (simp add: name_lookup_def Some)
  moreover have "index_ok (map_of (sp_entries s)) s" using space_ok_index [OF table_okD [OF assms Some]] .
  ultimately show ?thesis by (simp add: Some index_ok_def)
qed (simp add: name_lookup_def)

lemma owns_right_iff:
  assumes "table_ok t"
  shows "owns_right task object r t \<longleftrightarrow>
    (\<exists>n e. name_lookup task n t = Some e \<and> ne_object e = object \<and> has_right (ne_type e) r)"
proof (cases "map_of t task")
  case None
  with names_of_object [OF assms, of task object] show ?thesis by (simp add: owns_right_def)
next
  case (Some s)
  let ?E = "\<lambda>n. name_lookup task n t"
  have found: "indexes ?E object (map_of (sp_by_object s) object)"
    using names_of_object [OF assms, of task object] by (simp add: Some)
  show ?thesis
  proof (cases "map_of (sp_by_object s) object")
    case None
    with found Some show ?thesis by (auto simp: owns_right_def indexes_def aliases_def)
  next
    case (Some i)
    with found have "bit (on_rights i) k \<longleftrightarrow> held ?E object k" for k by (simp add: indexes_def)
    with Some \<open>map_of t task = Some s\<close> show ?thesis by (simp add: owns_right_def has_right_bit held_def)
  qed
qed

lemma name_for_iff:
  assumes "table_ok t"
  shows "name_for task object t = Some n \<longleftrightarrow>
    n \<in> aliases (\<lambda>n. name_lookup task n t) object \<and>
    (\<forall>m \<in> aliases (\<lambda>n. name_lookup task n t) object. n \<le> m)"
proof (cases "map_of t task")
  case None
  with names_of_object [OF assms, of task object] show ?thesis by (simp add: name_for_def aliases_def)
next
  case (Some s)
  let ?E = "\<lambda>n. name_lookup task n t"
  have found: "indexes ?E object (map_of (sp_by_object s) object)"
    using names_of_object [OF assms, of task object] by (simp add: Some)
  show ?thesis
  proof (cases "map_of (sp_by_object s) object")
    case None
    with found Some show ?thesis by (auto simp: name_for_def indexed_names_def indexes_def)
  next
    case found_i: (Some i)
    with found have i: "sorted_wrt (<) (on_names i)" "set (on_names i) = aliases ?E object"
      "aliases ?E object \<noteq> {}" by (simp_all add: indexes_def)
    obtain m names where names: "on_names i = m # names" using i(2,3) by (cases "on_names i") auto
    then have least: "m \<in> aliases ?E object" "\<forall>k \<in> aliases ?E object. m \<le> k"
      using i(1,2) by (auto simp: less_imp_le)
    have "name_for task object t = Some m"
      using found_i Some names by (simp add: name_for_def indexed_names_def)
    with least show ?thesis by (auto intro: antisym)
  qed
qed

section \<open>Properties\<close>

text \<open>C10. The table is consistent after every sequence of calls: from the empty table, whatever
  calls were made, no further call misses the index (none throws out_of_range), and the
  invariant holds: in every space the object index lists exactly the names of each object in
  ascending order with the union of their rights, every entry has a valid name, an object,
  rights, and user references exactly for the rights it has, and the next dynamic name keeps
  generation 3.\<close>
theorem namespace_consistent:
  assumes "reachable t"
  shows "table_ok t \<and> (\<forall>c. perform c t \<noteq> None)"
  using reachable_ok [OF assms] perform_ok by fastforce

definition example_table :: namespace_table where
  "example_table = the (do {
     t \<leftarrow> perform (Install 1 0x103 0x900 (type_mask Receive) 1) [];
     t \<leftarrow> perform (Copyout 1 0x900 (type_mask Send)) t;
     t \<leftarrow> perform (Copyout 1 0x900 (type_mask SendOnce)) t;
     perform (Copyout 2 0x900 (type_mask Send)) t
   })"

lemma example_reachable: "reachable example_table"
proof -
  have some: "\<exists>t'. perform c t = Some t' \<and> reachable t'" if "reachable t" for c t
    using perform_ok [OF reachable_ok [OF that], of c] reachable.call [OF that] by blast
  obtain t1 where t1: "perform (Install 1 0x103 0x900 (type_mask Receive) 1) [] = Some t1" "reachable t1"
    using some [OF reachable.empty] by blast
  obtain t2 where t2: "perform (Copyout 1 0x900 (type_mask Send)) t1 = Some t2" "reachable t2"
    using some [OF t1(2)] by blast
  obtain t3 where t3: "perform (Copyout 1 0x900 (type_mask SendOnce)) t2 = Some t3" "reachable t3"
    using some [OF t2(2)] by blast
  obtain t4 where t4: "perform (Copyout 2 0x900 (type_mask Send)) t3 = Some t4" "reachable t4"
    using some [OF t3(2)] by blast
  have "example_table = t4"
    unfolding example_table_def using t1(1) t2(1) t3(1) t4(1) by (simp del: perform.simps)
  with t4(2) show ?thesis by simp
qed

theorem namespace_consistent_witness:
  "table_ok example_table \<and> perform (MarkObjectDead 0x900) example_table \<noteq> None"
  using namespace_consistent [OF example_reachable] by blast

text \<open>The cached queries equal a scan of the entries: a task owns a right exactly when one
  of its names for the object has it, and the name reported for an object is the least of
  its names, absent exactly when it has none.\<close>
theorem namespace_queries_exact:
  assumes "reachable t"
  shows "(owns_right task object r t \<longleftrightarrow>
      (\<exists>n e. name_lookup task n t = Some e \<and> ne_object e = object \<and> has_right (ne_type e) r))
    \<and> (name_for task object t = Some n \<longleftrightarrow>
      resolve task n t = Some object \<and> (\<forall>m. resolve task m t = Some object \<longrightarrow> n \<le> m))"
proof -
  have ok: "table_ok t" using assms by (rule reachable_ok)
  have "n \<in> aliases (\<lambda>n. name_lookup task n t) object \<longleftrightarrow> resolve task n t = Some object" for n
    by (auto simp: aliases_def resolve_def)
  with owns_right_iff [OF ok] name_for_iff [OF ok] show ?thesis by auto
qed

theorem namespace_queries_exact_witness:
  "owns_right 1 0x900 SendOnce example_table \<and> name_for 1 0x900 example_table = Some 0x103"
proof -
  have "name_lookup 1 0x10003 example_table \<noteq> None \<and>
    (case name_lookup 1 0x10003 example_table of None \<Rightarrow> False
      | Some e \<Rightarrow> ne_object e = 0x900 \<and> has_right (ne_type e) SendOnce)" by code_simp
  then have "\<exists>n e. name_lookup 1 n example_table = Some e \<and> ne_object e = 0x900 \<and>
    has_right (ne_type e) SendOnce" by (auto split: option.splits)
  moreover have "name_for 1 0x900 example_table = Some 0x103" by code_simp
  ultimately show ?thesis
    using namespace_queries_exact [OF example_reachable, of 1 "0x900" SendOnce "0x103"] by blast
qed

end
