(* ===== verification/Mach_Exchange.thy ===== *)
theory Mach_Exchange
  imports Mach_Rights
begin

text \<open>
  What the calls that hand out and take back Mach rights do to the entries a task can look
  up: allocation, copying out, deallocation and the death of an object.
\<close>

section \<open>One space\<close>

lemma low_byte_3:
  assumes "(ucast (n :: u32) :: u8) = 3"
  shows "n AND 3 = 3"
proof -
  have "bit (ucast n :: u8) k \<longleftrightarrow> bit (3 :: u8) k" for k by (simp add: assms)
  from this [of 0] this [of 1] have "bit n 0" "bit n 1" by (simp_all add: bit_ucast_iff)
  then have "n AND mask 2 = mask 2"
    by (intro bit_eqI) (auto simp: bit_and_iff bit_mask_iff less_2_cases_iff)
  moreover have "mask 2 = (3 :: u32)" by (simp add: mask_eq_exp_minus_1)
  ultimately show ?thesis by simp
qed

definition placed ::
  "mach_object \<Rightarrow> type_set \<Rightarrow> (mach_name \<rightharpoonup> name_entry) \<Rightarrow> mach_name option \<Rightarrow>
   (mach_name \<rightharpoonup> name_entry) \<Rightarrow> bool" where
  "placed object t E r E' \<longleftrightarrow>
    (case r of
       None \<Rightarrow> E' = E
     | Some n \<Rightarrow> E n = None \<and> valid_name n \<and> n AND 3 = 3 \<and>
         E' = E(n \<mapsto> make_entry object t 1))"

lemma allocate_placed:
  assumes "space_ok s" "object \<noteq> null_name" "t \<noteq> 0"
  shows "\<exists>r s'. allocate_in object t s = Some (r, s') \<and> space_ok s' \<and>
    placed object t (map_of (sp_entries s)) r (map_of (sp_entries s'))"
  using allocate_ok [OF assms] low_byte_3 low_3_valid
  by (fastforce simp: placed_def split: option.splits)

lemma allocate_checked_placed:
  assumes "space_ok s"
  shows "\<exists>r s'. allocate_checked object t s = Some (r, s') \<and> space_ok s' \<and>
    placed object t (map_of (sp_entries s)) r (map_of (sp_entries s'))"
proof (cases "object = null_name \<or> t = 0")
  case True
  with assms show ?thesis by (auto simp: allocate_checked_def placed_def)
next
  case False
  with allocate_placed [OF assms, of object t] show ?thesis by (auto simp: allocate_checked_def)
qed

text \<open>A copied-out right goes to a new name, or is merged into an ordinary alias; a send-once
  right is neither merged nor merged into.\<close>

definition exchanged ::
  "mach_object \<Rightarrow> type_set \<Rightarrow> (mach_name \<rightharpoonup> name_entry) \<Rightarrow> mach_name option \<Rightarrow>
   (mach_name \<rightharpoonup> name_entry) \<Rightarrow> bool" where
  "exchanged object t E r E' \<longleftrightarrow>
    (if \<not> has_right t SendOnce \<and>
        (\<exists>m e. E m = Some e \<and> ne_object e = object \<and> \<not> has_right (ne_type e) SendOnce)
     then \<exists>n e. r = Some n \<and> E n = Some e \<and> ne_object e = object \<and>
       \<not> has_right (ne_type e) SendOnce \<and> E' = E(n \<mapsto> add_types t 1 True e)
     else placed object t E r E')"

lemma copyout_exchanged:
  assumes s: "space_ok s"
  shows "\<exists>r s'. copyout_in object t s = Some (r, s') \<and> space_ok s' \<and>
    exchanged object t (map_of (sp_entries s)) r (map_of (sp_entries s'))"
proof (cases "has_right t SendOnce")
  case True
  with allocate_checked_placed [OF s, of object t] show ?thesis
    by (simp add: copyout_in_def exchanged_def)
next
  case False
  from find_alias_ok [OF s, of object] show ?thesis
  proof
    assume "find_alias s object = Some None \<and>
      (\<forall>n e. map_of (sp_entries s) n = Some e \<and> ne_object e = object \<longrightarrow> has_right (ne_type e) SendOnce)"
    with False allocate_checked_placed [OF s, of object t] show ?thesis
      unfolding copyout_in_def find_alias_def [symmetric] exchanged_def by auto
  next
    assume "\<exists>n e. find_alias s object = Some (Some n) \<and> map_of (sp_entries s) n = Some e \<and>
      ne_object e = object \<and> \<not> has_right (ne_type e) SendOnce"
    then obtain n e where n: "find_alias s object = Some (Some n)" "map_of (sp_entries s) n = Some e"
      "ne_object e = object" "\<not> has_right (ne_type e) SendOnce" by blast
    from widen_entry_ok [OF s n(2,3), of t 1] obtain s' where
      "widen_entry n object t 1 s = Some s'" "space_ok s'"
      "map_of (sp_entries s') = (map_of (sp_entries s))(n \<mapsto> add_types t 1 True e)" by blast
    with False n show ?thesis
      unfolding copyout_in_def find_alias_def [symmetric] exchanged_def by auto
  qed
qed

lemma deallocate_send:
  assumes s: "space_ok s" and n: "map_of (sp_entries s) n = Some e" and held: "has_right (ne_type e) Send"
  shows "\<exists>s'. deallocate_in n s = Some (True, s') \<and> space_ok s' \<and>
    map_of (sp_entries s') =
      (if 1 < ne_references e Send
       then (map_of (sp_entries s))(n \<mapsto> e\<lparr>ne_references := (ne_references e)(Send := ne_references e Send - 1)\<rparr>)
       else if ne_type e AND NOT (type_mask Send) = 0 then (map_of (sp_entries s))(n := None)
       else (map_of (sp_entries s))(n \<mapsto> e\<lparr>ne_references := (ne_references e)(Send := 0),
         ne_type := ne_type e AND NOT (type_mask Send)\<rparr>))"
proof -
  let ?t = "type_mask Send OR type_mask SendOnce OR type_mask DeadName"
  have "has_right (ne_type e AND ?t) Send" using held by simp
  then have "ne_type e AND ?t \<noteq> 0" by (rule has_right_nonzero)
  then have result: "deallocate_in n s =
    (if 1 < ne_references e Send
     then Some (True, s\<lparr>sp_entries := modify n (\<lambda>e'. e'\<lparr>ne_references :=
       (ne_references e')(Send := ne_references e Send - 1)\<rparr>) (sp_entries s)\<rparr>)
     else map_option (Pair True) (settle_entry n
       (e\<lparr>ne_references := (ne_references e)(Send := 0), ne_type := ne_type e AND NOT (type_mask Send)\<rparr>) s))"
    using held by (simp add: deallocate_in_def n Let_def)
  show ?thesis
  proof (cases "1 < ne_references e Send")
    case True
    then have "ne_references e Send \<noteq> 0" "ne_references e Send - 1 \<noteq> 0" by auto
    from same_rights_ok [OF conjunct2 [OF space_ok_entry [OF s n]] this]
    have "entry_ok (e\<lparr>ne_references := (ne_references e)(Send := ne_references e Send - 1)\<rparr>)" .
    with replace_entry_ok [OF s n, of "e\<lparr>ne_references := (ne_references e)(Send := ne_references e Send - 1)\<rparr>"
        "\<lambda>e'. e'\<lparr>ne_references := (ne_references e')(Send := ne_references e Send - 1)\<rparr>"] True
    show ?thesis by (simp add: result)
  next
    case False
    with drop_right_ok [OF s n, of "e\<lparr>ne_references := (ne_references e)(Send := 0),
        ne_type := ne_type e AND NOT (type_mask Send)\<rparr>" Send]
    show ?thesis by (auto simp: result)
  qed
qed

end
