(* ===== verification/Mach_Properties.thy ===== *)
theory Mach_Properties
  imports Mach_Exchange
begin

text \<open>
  What the calls on the table of Mach name spaces do to the entries of every task, for a table
  that was made by any sequence of calls.
\<close>

lemma allocate_table:
  assumes t: "table_ok t" and o: "object \<noteq> null_name" "types \<noteq> 0"
  shows "\<exists>r t'. allocate task object types t = Some (r, t') \<and> table_ok t' \<and>
    placed object types (\<lambda>n. name_lookup task n t) r (\<lambda>n. name_lookup task n t') \<and>
    (\<forall>q n. q \<noteq> task \<longrightarrow> name_lookup q n t' = name_lookup q n t)"
proof -
  from allocate_placed [OF space_of_ok [OF t, of task] o] obtain r s' where s':
    "allocate_in object types (space_of task t) = Some (r, s')" "space_ok s'"
    "placed object types (map_of (sp_entries (space_of task t))) r (map_of (sp_entries s'))" by blast
  from in_space_ok [where f = "allocate_in object types", OF t s'(1,2)] obtain t' where t': "in_space task (allocate_in object types) t = Some (r, t')"
    "table_ok t'" "map_of t' = (map_of t)(task \<mapsto> s')" by blast
  have "(\<lambda>n. name_lookup task n t) = map_of (sp_entries (space_of task t))"
    by (simp add: fun_eq_iff lookup_space)
  moreover have "(\<lambda>n. name_lookup task n t') = map_of (sp_entries s')"
    "\<forall>q n. q \<noteq> task \<longrightarrow> name_lookup q n t' = name_lookup q n t"
    using lookup_update [OF t'(3)] by simp_all
  ultimately show ?thesis using s'(3) t'(1,2) o by (simp add: allocate_def)
qed

lemma copyout_table:
  assumes t: "table_ok t"
  shows "\<exists>r t'. copyout task object types t = Some (r, t') \<and> table_ok t' \<and>
    exchanged object types (\<lambda>n. name_lookup task n t) r (\<lambda>n. name_lookup task n t') \<and>
    (\<forall>q n. q \<noteq> task \<longrightarrow> name_lookup q n t' = name_lookup q n t)"
proof -
  from copyout_exchanged [OF space_of_ok [OF t, of task]] obtain r s' where s':
    "copyout_in object types (space_of task t) = Some (r, s')" "space_ok s'"
    "exchanged object types (map_of (sp_entries (space_of task t))) r (map_of (sp_entries s'))" by blast
  from in_space_ok [where f = "copyout_in object types", OF t s'(1,2)] obtain t' where t': "in_space task (copyout_in object types) t = Some (r, t')"
    "table_ok t'" "map_of t' = (map_of t)(task \<mapsto> s')" by blast
  have "(\<lambda>n. name_lookup task n t) = map_of (sp_entries (space_of task t))"
    by (simp add: fun_eq_iff lookup_space)
  moreover have "(\<lambda>n. name_lookup task n t') = map_of (sp_entries s')"
    "\<forall>q n. q \<noteq> task \<longrightarrow> name_lookup q n t' = name_lookup q n t"
    using lookup_update [OF t'(3)] by simp_all
  ultimately show ?thesis using s'(3) t'(1,2) by (simp add: copyout_def)
qed

lemma deallocate_table:
  assumes t: "table_ok t" and n: "name_lookup task n t = Some e" and held: "has_right (ne_type e) Send"
  shows "\<exists>t'. deallocate task n t = Some (True, t') \<and> table_ok t' \<and>
    (\<lambda>n. name_lookup task n t') =
      (if 1 < ne_references e Send
       then (\<lambda>n. name_lookup task n t)(n \<mapsto> e\<lparr>ne_references := (ne_references e)(Send := ne_references e Send - 1)\<rparr>)
       else if ne_type e AND NOT (type_mask Send) = 0 then (\<lambda>n. name_lookup task n t)(n := None)
       else (\<lambda>n. name_lookup task n t)(n \<mapsto> e\<lparr>ne_references := (ne_references e)(Send := 0),
         ne_type := ne_type e AND NOT (type_mask Send)\<rparr>)) \<and>
    (\<forall>q n. q \<noteq> task \<longrightarrow> name_lookup q n t' = name_lookup q n t)"
proof -
  obtain s where s: "map_of t task = Some s" using n by (auto simp: name_lookup_def bind_eq_Some_conv)
  with n have entry: "map_of (sp_entries s) n = Some e" by (simp add: name_lookup_def)
  from deallocate_send [OF table_okD [OF t s] entry held] obtain s' where s':
    "deallocate_in n s = Some (True, s')" "space_ok s'"
    "map_of (sp_entries s') = (if 1 < ne_references e Send
       then (map_of (sp_entries s))(n \<mapsto> e\<lparr>ne_references := (ne_references e)(Send := ne_references e Send - 1)\<rparr>)
       else if ne_type e AND NOT (type_mask Send) = 0 then (map_of (sp_entries s))(n := None)
       else (map_of (sp_entries s))(n \<mapsto> e\<lparr>ne_references := (ne_references e)(Send := 0),
         ne_type := ne_type e AND NOT (type_mask Send)\<rparr>))" by blast
  from in_found_space_ok [where f = "deallocate_in n", OF t s s'(1,2)] obtain t' where
    "in_found_space task False (deallocate_in n) t = Some (True, t')"
    "table_ok t'" "map_of t' = (map_of t)(task \<mapsto> s')" by blast
  moreover have "(\<lambda>n. name_lookup task n t) = map_of (sp_entries s)" by (simp add: name_lookup_def s)
  ultimately show ?thesis using s'(3) by (simp add: deallocate_def lookup_update)
qed

lemma send_absorbed: "has_right t Send \<Longrightarrow> t OR type_mask Send = t"
  by (intro bit_eqI) (auto simp: bit_or_iff bit_type_mask has_right_bit)

lemma counted_send: "type_mask Send AND reference_counted_types \<noteq> 0"
  by (rule has_right_nonzero [of _ Send]) (simp add: reference_counted_types_def)

text \<open>Taking a send right back undoes a copyout of one, as long as the references of a merged
  entry were below their maximum.\<close>

lemma returned:
  assumes t: "table_ok t" and out: "exchanged object (type_mask Send) (\<lambda>n. name_lookup task n t) (Some n) E'"
    and room: "\<And>e. name_lookup task n t = Some e \<Longrightarrow> ne_references e Send < maximum_send_user_references"
  shows "\<exists>e'. E' n = Some e' \<and> has_right (ne_type e') Send \<and>
    (\<lambda>n. name_lookup task n t) = (if 1 < ne_references e' Send
       then E'(n \<mapsto> e'\<lparr>ne_references := (ne_references e')(Send := ne_references e' Send - 1)\<rparr>)
       else if ne_type e' AND NOT (type_mask Send) = 0 then E'(n := None)
       else E'(n \<mapsto> e'\<lparr>ne_references := (ne_references e')(Send := 0),
         ne_type := ne_type e' AND NOT (type_mask Send)\<rparr>))"
proof -
  let ?E = "\<lambda>n. name_lookup task n t"
  have "(\<exists>e. ?E n = Some e \<and> E' = ?E(n \<mapsto> add_types (type_mask Send) 1 True e)) \<or>
    (?E n = None \<and> E' = ?E(n \<mapsto> make_entry object (type_mask Send) 1))"
    using out by (auto simp: exchanged_def placed_def split: if_splits)
  then show ?thesis
  proof
    assume "?E n = None \<and> E' = ?E(n \<mapsto> make_entry object (type_mask Send) 1)"
    then show ?thesis by (auto simp: make_entry_def fun_upd_idem)
  next
    assume "\<exists>e. ?E n = Some e \<and> E' = ?E(n \<mapsto> add_types (type_mask Send) 1 True e)"
    then obtain e where e: "?E n = Some e" "E' = ?E(n \<mapsto> add_types (type_mask Send) 1 True e)" by blast
    have ok: "entry_ok e"
      using e(1) space_ok_entry [OF space_of_ok [OF t], of task n e] by (simp add: lookup_space)
    have less: "ne_references e Send < maximum_send_user_references" using room e(1) .
    show ?thesis
    proof (cases "has_right (ne_type e) Send")
      case True
      have "ne_references e Send \<noteq> 0" using ok True by (simp add: entry_ok_def)
      then have "0 < unat (ne_references e Send)" by (simp add: unat_gt_0)
      then have "1 < ne_references e Send + 1"
        using less by (simp add: word_less_nat_alt unat_word_ariths(1) maximum_send_user_references_def
          maximum_user_references_def unat_eq_zero)
      moreover have "add_types (type_mask Send) 1 True e =
        e\<lparr>ne_references := (ne_references e)(Send := ne_references e Send + 1)\<rparr>"
        using True less send_absorbed [OF True]
        by (intro name_entry.equality)
          (auto simp: add_types_def fun_eq_iff Let_def counted_send)
      ultimately show ?thesis using e True by (simp add: fun_upd_idem)
    next
      case False
      then have none: "ne_references e Send = 0" using ok by (simp add: entry_ok_def)
      have added: "add_types (type_mask Send) 1 True e =
        e\<lparr>ne_references := (ne_references e)(Send := 1), ne_type := ne_type e OR type_mask Send\<rparr>"
        using False by (simp add: add_types_def fun_eq_iff Let_def)
      have "(ne_type e OR type_mask Send) AND NOT (type_mask Send) = ne_type e"
        using False by (intro bit_eqI) (auto simp: bit_or_iff bit_and_iff bit_not_iff bit_type_mask has_right_bit)
      with e none added ok show ?thesis
        by (simp add: entry_ok_def fun_upd_idem)
    qed
  qed
qed

text \<open>A change of one task's entries, seen from all tasks.\<close>

lemma lookup_elsewhere:
  assumes "(\<lambda>n. name_lookup task n t') = (\<lambda>n. name_lookup task n t)(k \<mapsto> v)"
    and "\<forall>q n. q \<noteq> task \<longrightarrow> name_lookup q n t' = name_lookup q n t"
  shows "name_lookup q m t' = (if q = task \<and> m = k then Some v else name_lookup q m t)"
  using fun_cong [OF assms(1), of m] assms(2) by (cases "q = task") simp_all

lemma placed_table:
  assumes "placed object types (\<lambda>n. name_lookup task n t) r (\<lambda>n. name_lookup task n t')"
    and others: "\<forall>q n. q \<noteq> task \<longrightarrow> name_lookup q n t' = name_lookup q n t"
  shows "case r of
       None \<Rightarrow> \<forall>q n. name_lookup q n t' = name_lookup q n t
     | Some n \<Rightarrow> name_lookup task n t = None \<and> valid_name n \<and> n AND 3 = 3 \<and>
         (\<forall>q m. name_lookup q m t' =
           (if q = task \<and> m = n then Some (make_entry object types 1) else name_lookup q m t))"
proof (cases r)
  case None
  then have same: "(\<lambda>n. name_lookup task n t') = (\<lambda>n. name_lookup task n t)"
    using assms(1) by (simp add: placed_def)
  have "name_lookup q m t' = name_lookup q m t" for q m
    using fun_cong [OF same, of m] others by (cases "q = task") simp_all
  with None show ?thesis by simp
next
  case (Some n)
  then have n: "name_lookup task n t = None" "valid_name n" "n AND 3 = 3"
    and "(\<lambda>n. name_lookup task n t') = (\<lambda>n. name_lookup task n t)(n \<mapsto> make_entry object types 1)"
    using assms(1) by (simp_all add: placed_def)
  from lookup_elsewhere [OF this(4) others] n Some show ?thesis by simp
qed

section \<open>Properties\<close>

text \<open>Allocation never reuses a name: in every reachable table it returns a name that the task
  did not have, that is neither the null nor the dead name and carries generation 3, and binds
  exactly that name to the object with one reference per right; when the dynamic names have
  run out it reports so and changes no entry. No other task sees a change.\<close>
theorem allocate_fresh:
  assumes "reachable t" "object \<noteq> null_name" "types \<noteq> 0"
  shows "\<exists>r t'. allocate task object types t = Some (r, t') \<and>
    (case r of
       None \<Rightarrow> \<forall>q n. name_lookup q n t' = name_lookup q n t
     | Some n \<Rightarrow> name_lookup task n t = None \<and> valid_name n \<and> n AND 3 = 3 \<and>
         (\<forall>q m. name_lookup q m t' =
           (if q = task \<and> m = n then Some (make_entry object types 1) else name_lookup q m t)))"
proof -
  from allocate_table [OF reachable_ok [OF assms(1)] assms(2,3), of task] obtain r t' where t':
    "allocate task object types t = Some (r, t')"
    "placed object types (\<lambda>n. name_lookup task n t) r (\<lambda>n. name_lookup task n t')"
    "\<forall>q n. q \<noteq> task \<longrightarrow> name_lookup q n t' = name_lookup q n t" by blast
  from placed_table [OF t'(2,3)] t'(1) show ?thesis by blast
qed

theorem allocate_fresh_witness:
  "map_option fst (allocate 1 0x901 (type_mask Receive) example_table) = Some (Some 0x10103) \<and>
   name_lookup 1 0x10103 example_table = None"
proof -
  have result: "map_option fst (allocate 1 0x901 (type_mask Receive) example_table) = Some (Some 0x10103)"
    by code_simp
  have "type_mask Receive \<noteq> 0" "(0x901 :: u32) \<noteq> null_name"
    by (simp_all add: type_mask_def null_name_def)
  with allocate_fresh [OF example_reachable, of "0x901" "type_mask Receive" 1] result
  show ?thesis by auto
qed

text \<open>C12. Copying out a right follows the discipline of an ipc space: a right is merged only into an
  ordinary alias of the same object, when the right is not send-once and the task has such an
  alias, which then gains the rights at the same name; in every other case the right goes to a
  new name of generation 3, so every send-once right keeps its own. No other task sees a change.\<close>
theorem copyout_discipline:
  assumes "reachable t"
  shows "\<exists>r t'. copyout task object types t = Some (r, t') \<and>
    (if \<not> has_right types SendOnce \<and>
        (\<exists>m e. name_lookup task m t = Some e \<and> ne_object e = object \<and> \<not> has_right (ne_type e) SendOnce)
     then \<exists>n e. r = Some n \<and> name_lookup task n t = Some e \<and> ne_object e = object \<and>
       \<not> has_right (ne_type e) SendOnce \<and>
       (\<forall>q m. name_lookup q m t' =
         (if q = task \<and> m = n then Some (add_types types 1 True e) else name_lookup q m t))
     else case r of
       None \<Rightarrow> \<forall>q n. name_lookup q n t' = name_lookup q n t
     | Some n \<Rightarrow> name_lookup task n t = None \<and> valid_name n \<and> n AND 3 = 3 \<and>
         (\<forall>q m. name_lookup q m t' =
           (if q = task \<and> m = n then Some (make_entry object types 1) else name_lookup q m t)))"
    (is "\<exists>r t'. _ \<and> (if ?merge then ?merged r t' else ?new r t')")
proof -
  from copyout_table [OF reachable_ok [OF assms], of task object types] obtain r t' where t':
    "copyout task object types t = Some (r, t')"
    "exchanged object types (\<lambda>n. name_lookup task n t) r (\<lambda>n. name_lookup task n t')"
    "\<forall>q n. q \<noteq> task \<longrightarrow> name_lookup q n t' = name_lookup q n t" by blast
  have "if ?merge then ?merged r t' else ?new r t'"
  proof (cases ?merge)
    case True
    with t'(2) obtain n e where n: "r = Some n" "name_lookup task n t = Some e" "ne_object e = object"
      "\<not> has_right (ne_type e) SendOnce"
      and changed: "(\<lambda>n. name_lookup task n t') = (\<lambda>n. name_lookup task n t)(n \<mapsto> add_types types 1 True e)"
      unfolding exchanged_def by auto
    have "?merged r t'" using n lookup_elsewhere [OF changed t'(3)] by blast
    then show "if ?merge then ?merged r t' else ?new r t'" unfolding if_P [OF True] .
  next
    case False
    with t'(2) have "placed object types (\<lambda>n. name_lookup task n t) r (\<lambda>n. name_lookup task n t')"
      unfolding exchanged_def by argo
    then have "?new r t'" by (rule placed_table [OF _ t'(3)])
    then show "if ?merge then ?merged r t' else ?new r t'" unfolding if_not_P [OF False] .
  qed
  with t'(1) show ?thesis by blast
qed

theorem copyout_discipline_witness:
  "map_option fst (copyout 1 0x900 (type_mask SendOnce) example_table) = Some (Some 0x10103) \<and>
   name_lookup 1 0x10103 example_table = None"
proof -
  have result: "map_option fst (copyout 1 0x900 (type_mask SendOnce) example_table) = Some (Some 0x10103)"
    by code_simp
  then show ?thesis
    using copyout_discipline [OF example_reachable, of 1 "0x900" "type_mask SendOnce"] by auto
qed

text \<open>C11. Marking an object dead reaches every holder and nobody else: afterwards no task owns a
  send or send-once right for it, every entry that had one is the same name with a dead-name
  right, every other entry of every task is unchanged, and the entries reported are exactly
  those that had one, in ascending order of task and name.\<close>
theorem mark_dead_exact:
  assumes "reachable t"
  shows "\<exists>affected t'. mark_object_dead object t = Some (affected, t') \<and>
    (\<forall>q. \<not> owns_right q object Send t' \<and> \<not> owns_right q object SendOnce t') \<and>
    (\<forall>q n. name_lookup q n t' = map_option (\<lambda>e.
       if ne_object e = object \<and> (has_right (ne_type e) Send \<or> has_right (ne_type e) SendOnce)
       then dead_entry e else e) (name_lookup q n t)) \<and>
    sorted_wrt (\<lambda>a b. nd_task a < nd_task b \<or> (nd_task a = nd_task b \<and> nd_name a < nd_name b)) affected \<and>
    set affected = {\<lparr>nd_task = task, nd_name = n, nd_entry = e\<rparr> | task n e.
      name_lookup task n t = Some e \<and> ne_object e = object \<and>
      (has_right (ne_type e) Send \<or> has_right (ne_type e) SendOnce)}"
proof -
  from mark_object_dead_ok [OF reachable_ok [OF assms], of object] obtain affected t' where t':
    "mark_object_dead object t = Some (affected, t')" "table_ok t'"
    "\<forall>q n. name_lookup q n t' = deadened object (\<lambda>n. name_lookup q n t) n"
    "sorted_wrt (\<lambda>a b. nd_task a < nd_task b \<or> (nd_task a = nd_task b \<and> nd_name a < nd_name b)) affected"
    "set affected = {\<lparr>nd_task = task, nd_name = n, nd_entry = e\<rparr> | task n e.
      name_lookup task n t = Some e \<and> ne_object e = object \<and>
      (has_right (ne_type e) Send \<or> has_right (ne_type e) SendOnce)}" by blast
  have lookup: "name_lookup q n t' = map_option (\<lambda>e.
       if ne_object e = object \<and> (has_right (ne_type e) Send \<or> has_right (ne_type e) SendOnce)
       then dead_entry e else e) (name_lookup q n t)" for q n
    using t'(3) by (simp add: deadened_def)
  have "\<not> owns_right q object r t'" if "r = Send \<or> r = SendOnce" for q r
  proof
    assume "owns_right q object r t'"
    then obtain n e' where e': "name_lookup q n t' = Some e'" "ne_object e' = object"
      "has_right (ne_type e') r" unfolding owns_right_iff [OF t'(2)] by blast
    from e'(1) obtain e where e: "e' = (if ne_object e = object \<and>
        (has_right (ne_type e) Send \<or> has_right (ne_type e) SendOnce) then dead_entry e else e)"
      unfolding lookup map_option_eq_Some by blast
    show False
    proof (cases "ne_object e = object \<and> (has_right (ne_type e) Send \<or> has_right (ne_type e) SendOnce)")
      case True
      with e e'(3) that show False by (auto simp: dead_entry_fields)
    next
      case False
      with e e'(2,3) that show False by auto
    qed
  qed
  then have none: "\<forall>q. \<not> owns_right q object Send t' \<and> \<not> owns_right q object SendOnce t'" by simp
  show ?thesis
    by (rule exI, rule exI, rule conjI [OF t'(1)], rule conjI [OF none],
      rule conjI [OF _ conjI [OF t'(4,5)]]) (simp add: lookup)
qed

theorem mark_dead_exact_witness:
  "map_option fst (mark_object_dead 0x900 example_table) \<noteq> None \<and>
   \<not> owns_right 2 0x900 Send (snd (the (mark_object_dead 0x900 example_table)))"
proof -
  from mark_dead_exact [OF example_reachable, of "0x900"] obtain affected t' where
    "mark_object_dead 0x900 example_table = Some (affected, t')" "\<not> owns_right 2 0x900 Send t'" by blast
  then show ?thesis by simp
qed

text \<open>C13. Copying out a send right and deallocating the name it was given restores every entry of
  every task, unless the name's send references were already pegged at their maximum (an
  overflowing copyout adds none).\<close>
theorem copyout_deallocate:
  assumes "reachable t" and out: "copyout task object (type_mask Send) t = Some (Some n, t')"
    and room: "\<And>e. name_lookup task n t = Some e \<Longrightarrow>
      ne_references e Send < maximum_send_user_references"
  shows "\<exists>t''. deallocate task n t' = Some (True, t'') \<and>
    (\<forall>q m. name_lookup q m t'' = name_lookup q m t)"
proof -
  have ok: "table_ok t" using assms(1) by (rule reachable_ok)
  let ?E = "\<lambda>n. name_lookup task n t" and ?E' = "\<lambda>n. name_lookup task n t'"
  from copyout_table [OF ok, of task object "type_mask Send"] out have t':
    "table_ok t'" "exchanged object (type_mask Send) ?E (Some n) ?E'"
    "\<forall>q n. q \<noteq> task \<longrightarrow> name_lookup q n t' = name_lookup q n t" by auto
  obtain e' where e': "?E' n = Some e'" "has_right (ne_type e') Send"
    and restored: "?E = (if 1 < ne_references e' Send
       then ?E'(n \<mapsto> e'\<lparr>ne_references := (ne_references e')(Send := ne_references e' Send - 1)\<rparr>)
       else if ne_type e' AND NOT (type_mask Send) = 0 then ?E'(n := None)
       else ?E'(n \<mapsto> e'\<lparr>ne_references := (ne_references e')(Send := 0),
         ne_type := ne_type e' AND NOT (type_mask Send)\<rparr>))"
    using returned [OF ok t'(2) room] by blast
  from deallocate_table [OF t'(1) e'] obtain t'' where t'': "deallocate task n t' = Some (True, t'')"
    "(\<lambda>n. name_lookup task n t'') = ?E" "\<forall>q n. q \<noteq> task \<longrightarrow> name_lookup q n t'' = name_lookup q n t'"
    unfolding restored by blast
  have "name_lookup q m t'' = name_lookup q m t" for q m
    using fun_cong [OF t''(2), of m] t''(3) t'(3) by (cases "q = task") simp_all
  with t''(1) show ?thesis by blast
qed

theorem copyout_deallocate_witness:
  "name_lookup 2 0x10003 (snd (the (deallocate 2 0x10003
     (snd (the (copyout 2 0x900 (type_mask Send) example_table)))))) = name_lookup 2 0x10003 example_table"
proof -
  obtain t' where t': "copyout 2 0x900 (type_mask Send) example_table = Some (Some 0x10003, t')"
  proof -
    have "map_option fst (copyout 2 0x900 (type_mask Send) example_table) = Some (Some 0x10003)" by code_simp
    then show ?thesis using that by auto
  qed
  have "(case name_lookup 2 0x10003 example_table of None \<Rightarrow> True
    | Some e \<Rightarrow> ne_references e Send < maximum_send_user_references)" by code_simp
  then have "\<And>e. name_lookup 2 0x10003 example_table = Some e \<Longrightarrow>
    ne_references e Send < maximum_send_user_references" by simp
  from copyout_deallocate [OF example_reachable t' this] show ?thesis by (auto simp: t')
qed

end
