(* ===== verification/Xnu_Policy.thy ===== *)
theory Xnu_Policy
  imports Prelude
begin

text \<open>
  Thread identities, the quality-of-service policy and the load average of the guest
  scheduler: \<^verbatim>\<open>mach/include/mach/xnu_scheduler.hpp\<close>,
  \<^verbatim>\<open>xnu_qos_policy.hpp\<close> and \<^verbatim>\<open>xnu_scheduler_load.hpp\<close>.

  Priorities are \<^typ>\<open>int\<close>: every one the scheduler computes is clamped well inside
  32 bits. Counts of threads are \<^typ>\<open>nat\<close>.
\<close>

section \<open>Thread identities\<close>

datatype xnu_thread = Xnu_Thread (process: u32) (number: u32)

instantiation xnu_thread :: linorder
begin

definition less_eq_xnu_thread :: "xnu_thread \<Rightarrow> xnu_thread \<Rightarrow> bool" where
  "less_eq_xnu_thread t u \<longleftrightarrow>
    process t < process u \<or> (process t = process u \<and> number t \<le> number u)"

definition less_xnu_thread :: "xnu_thread \<Rightarrow> xnu_thread \<Rightarrow> bool" where
  "less_xnu_thread t u \<longleftrightarrow>
    process t < process u \<or> (process t = process u \<and> number t < number u)"

instance
  by standard
    (auto simp: less_eq_xnu_thread_def less_xnu_thread_def xnu_thread.expand)

end

section \<open>Priorities\<close>

definition run_queue_count :: nat where "run_queue_count = 128"
definition minimum_priority :: int where "minimum_priority = 0"
definition maximum_priority :: int where "maximum_priority = 127"
definition realtime_base_priority :: int where "realtime_base_priority = 96"
definition realtime_queue_priority :: int where
  "realtime_queue_priority = realtime_base_priority + 1"
definition maximum_kernel_priority :: int where "maximum_kernel_priority = 95"
definition preempt_priority :: int where "preempt_priority = maximum_kernel_priority - 2"
definition maximum_user_priority :: int where "maximum_user_priority = 63"
definition default_base_priority :: int where "default_base_priority = 31"

definition clamp :: "int \<Rightarrow> int \<Rightarrow> int \<Rightarrow> int" where
  "clamp v low high = (if v < low then low else if high < v then high else v)"

definition clamp_priority :: "int \<Rightarrow> int" where
  "clamp_priority priority = clamp priority minimum_priority maximum_priority"

section \<open>Quality of service\<close>

datatype qos_tier =
    Unspecified | Maintenance | Background | Utility | Default | User_Initiated | User_Interactive

fun tier_code :: "qos_tier \<Rightarrow> nat" where
  "tier_code Unspecified = 0"
| "tier_code Maintenance = 1"
| "tier_code Background = 2"
| "tier_code Utility = 3"
| "tier_code Default = 4"
| "tier_code User_Initiated = 5"
| "tier_code User_Interactive = 6"

lemma tier_code_eq [simp]: "tier_code t = tier_code u \<longleftrightarrow> t = u"
  by (cases t; cases u) simp_all

instantiation qos_tier :: linorder
begin

definition less_eq_qos_tier :: "qos_tier \<Rightarrow> qos_tier \<Rightarrow> bool" where
  "less_eq_qos_tier t u \<longleftrightarrow> tier_code t \<le> tier_code u"

definition less_qos_tier :: "qos_tier \<Rightarrow> qos_tier \<Rightarrow> bool" where
  "less_qos_tier t u \<longleftrightarrow> tier_code t < tier_code u"

instance
  by standard (auto simp: less_eq_qos_tier_def less_qos_tier_def)

end

record qos_policy =
  qp_tier :: qos_tier
  qp_relative :: int

definition no_qos :: qos_policy where "no_qos = \<lparr>qp_tier = Unspecified, qp_relative = 0\<rparr>"

definition qos_valid :: "qos_policy \<Rightarrow> bool" where
  "qos_valid p \<longleftrightarrow> qp_tier p \<le> User_Interactive \<and> qp_relative p \<le> 0 \<and> - 15 \<le> qp_relative p \<and>
    (qp_tier p \<noteq> Unspecified \<or> qp_relative p = 0)"

definition tier_bases :: "int list" where "tier_bases = [0, 4, 4, 20, 31, 37, 46]"

text \<open>The right shift of a signed value rounds down.\<close>

definition qos_priority :: "qos_policy \<Rightarrow> int" where
  "qos_priority p =
    (let index = tier_code (qp_tier p);
         lower = (if qp_tier p = Background then 0
                  else tier_bases ! (index - of_bool (index \<noteq> 0))) in
     tier_bases ! index - ((tier_bases ! index - lower) * - qp_relative p) div 16)"

record task_qos =
  tq_ceiling :: qos_tier
  tq_clamp :: qos_tier
  tq_urgent_ui :: bool
  tq_background :: bool

definition no_task_qos :: task_qos where
  "no_task_qos = \<lparr>tq_ceiling = Unspecified, tq_clamp = Unspecified, tq_urgent_ui = False,
     tq_background = False\<rparr>"

definition donated_tier :: "int \<Rightarrow> qos_tier option" where
  "donated_tier donation =
    find (\<lambda>value. qos_priority \<lparr>qp_tier = value, qp_relative = 0\<rparr> = donation)
      [User_Interactive, User_Initiated, Default, Utility, Background, Maintenance]"

definition effective_tier :: "task_qos \<Rightarrow> qos_policy \<Rightarrow> int option \<Rightarrow> qos_tier" where
  "effective_tier q requested donation =
    (let tier = qp_tier requested;
         tier = (case donation of
             Some d \<Rightarrow> if tier \<noteq> Unspecified
               then (case donated_tier d of Some value \<Rightarrow> max tier value | None \<Rightarrow> tier) else tier
           | None \<Rightarrow> tier);
         tier = (if tq_clamp q \<noteq> Unspecified
           then (if tier = Unspecified then tq_clamp q else min tier (tq_clamp q)) else tier);
         tier = (if tq_ceiling q \<noteq> Unspecified \<and> tier \<noteq> Unspecified
           then min tier (tq_ceiling q) else tier) in
     if tq_background q \<and> (tier = Unspecified \<or> Background < tier) then Background else tier)"

definition effective_priority ::
  "task_qos \<Rightarrow> qos_policy \<Rightarrow> int \<Rightarrow> int option \<Rightarrow> int" where
  "effective_priority q requested legacy donation =
    (let tier = effective_tier q requested donation in
     if tier = Unspecified then legacy
     else
       let relative = (if tier = qp_tier requested \<and> donation = None then qp_relative requested
                       else 0) in
       qos_priority \<lparr>qp_tier = tier, qp_relative = relative\<rparr> +
         of_bool (tier = User_Interactive \<and> tq_urgent_ui q))"

lemma qos_priority_bounds:
  assumes "- 15 \<le> qp_relative p" "qp_relative p \<le> 0"
  shows "0 \<le> qos_priority p \<and> qos_priority p \<le> 46"
  using assms by (cases p; cases "qp_tier p") (auto simp: qos_priority_def tier_bases_def)

text \<open>A requested policy that was accepted keeps the effective priority between 0 and 47,
  unless no class applies at all.\<close>

lemma effective_priority_bounds:
  assumes "qos_valid requested"
  shows "effective_priority q requested legacy donation = legacy \<or>
    (0 \<le> effective_priority q requested legacy donation \<and>
     effective_priority q requested legacy donation \<le> 47)"
proof -
  define tier where "tier = effective_tier q requested donation"
  have result: "effective_priority q requested legacy donation =
    (if tier = Unspecified then legacy
     else qos_priority \<lparr>qp_tier = tier, qp_relative =
         if tier = qp_tier requested \<and> donation = None then qp_relative requested else 0\<rparr> +
       of_bool (tier = User_Interactive \<and> tq_urgent_ui q))"
    unfolding effective_priority_def Let_def tier_def ..
  have "- 15 \<le> qp_relative requested" "qp_relative requested \<le> 0"
    using assms by (simp_all add: qos_valid_def)
  then have "0 \<le> qos_priority \<lparr>qp_tier = tier, qp_relative = r\<rparr> \<and>
      qos_priority \<lparr>qp_tier = tier, qp_relative = r\<rparr> \<le> 46"
    if "r = qp_relative requested \<or> r = 0" for r
    using that by (intro qos_priority_bounds) auto
  from this [of "if tier = qp_tier requested \<and> donation = None then qp_relative requested else 0"]
  show ?thesis unfolding result by (cases "tier = Unspecified") (auto simp: of_bool_def)
qed

section \<open>Load\<close>

datatype load_bucket = Fixed_Load | Foreground_Load | Utility_Load | Background_Load

record scheduler_load =
  sl_priority_buckets :: bool
  sl_counts :: "load_bucket \<Rightarrow> nat"

definition load_bucket_of :: "bool \<Rightarrow> int \<Rightarrow> load_bucket" where
  "load_bucket_of timeshare base =
    (if \<not> timeshare then Fixed_Load
     else if qos_priority \<lparr>qp_tier = Utility, qp_relative = 0\<rparr> < base then Foreground_Load
     else if qos_priority \<lparr>qp_tier = Background, qp_relative = 0\<rparr> < base then Utility_Load
     else Background_Load)"

definition load_enter :: "load_bucket \<Rightarrow> scheduler_load \<Rightarrow> scheduler_load" where
  "load_enter b l = l\<lparr>sl_counts := (sl_counts l)(b := sl_counts l b + 1)\<rparr>"

definition load_leave :: "load_bucket \<Rightarrow> scheduler_load \<Rightarrow> scheduler_load" where
  "load_leave b l = l\<lparr>sl_counts := (sl_counts l)(b := sl_counts l b - 1)\<rparr>"

definition bucket_threads :: "load_bucket \<Rightarrow> nat \<Rightarrow> scheduler_load \<Rightarrow> nat option" where
  "bucket_threads b processors l =
    (let foreground = sl_counts l Foreground_Load; utility = sl_counts l Utility_Load;
         background = sl_counts l Background_Load in
     if \<not> sl_priority_buckets l then Some (foreground + utility + background)
     else case b of
       Fixed_Load \<Rightarrow> None
     | Foreground_Load \<Rightarrow> Some (foreground + min utility processors + of_bool (background \<noteq> 0))
     | Utility_Load \<Rightarrow> Some (utility + of_bool (background \<noteq> 0))
     | Background_Load \<Rightarrow> Some background)"

definition priority_shift :: "load_bucket \<Rightarrow> nat \<Rightarrow> nat \<Rightarrow> scheduler_load \<Rightarrow> nat option" where
  "priority_shift b processors fixed_shift l =
    (case bucket_threads b processors l of
       None \<Rightarrow> None
     | Some threads \<Rightarrow>
         if threads \<le> processors then None
         else
           let load = min (threads div processors) 127;
               shift = bit_width (word_of_nat load :: u64) - 1 in
           Some (if shift < fixed_shift then fixed_shift - shift else 0))"

end
