(* ===== verification/Run_Queue.thy ===== *)
theory Run_Queue
  imports Xnu_Policy "HOL-Library.Product_Lexorder"
begin

text \<open>
  One run queue of the guest scheduler, the \<^verbatim>\<open>RunQueue\<close> of
  \<^verbatim>\<open>mach/include/mach/xnu_scheduler.hpp\<close> and the parts of
  \<^verbatim>\<open>mach/xnu_run_queue.cpp\<close> that work on it: a list of threads for each
  priority, a bitmap of the populated priorities, the highest of them, counts, and the index
  of realtime threads by deadline.

  The intrusive list of a priority is the list of its threads; \<^verbatim>\<open>std::set\<close>
  is a sorted list without duplicates. A priority indexes the arrays of lists and counts.
\<close>

type_synonym realtime_key = "u64 \<times> u64 \<times> xnu_thread"

record run_queue =
  rq_queues :: "nat \<Rightarrow> xnu_thread list"
  rq_counts :: "nat \<Rightarrow> nat"
  rq_realtime :: "realtime_key list"
  rq_bitmap :: "u32 list"
  rq_high :: int
  rq_count :: nat

definition empty_run_queue :: run_queue where
  "empty_run_queue = \<lparr>rq_queues = (\<lambda>_. []), rq_counts = (\<lambda>_. 0), rq_realtime = [],
     rq_bitmap = [0, 0, 0, 0], rq_high = - 1, rq_count = 0\<rparr>"

fun highest_from :: "u32 list \<Rightarrow> nat \<Rightarrow> int" where
  "highest_from words 0 = - 1"
| "highest_from words (Suc word_index) =
    (let word = words ! word_index in
     if word \<noteq> 0 then int (word_index * 32 + (31 - countl_zero word))
     else highest_from words word_index)"

definition refresh_high_queue :: "run_queue \<Rightarrow> run_queue" where
  "refresh_high_queue q = q\<lparr>rq_high := highest_from (rq_bitmap q) (length (rq_bitmap q))\<rparr>"

text \<open>The part of \<^verbatim>\<open>enqueue\<close> and of \<^verbatim>\<open>remove_from_queue\<close> that
  changes the run queue. A realtime thread goes to the back of its list whatever the position
  asked for.\<close>

definition rq_push ::
  "nat \<Rightarrow> bool \<Rightarrow> xnu_thread \<Rightarrow> realtime_key option \<Rightarrow> run_queue \<Rightarrow> run_queue" where
  "rq_push priority front t key q =
    (let queue = rq_queues q priority;
         queue = (if key = None \<and> front then t # queue else queue @ [t]);
         word = priority div 32 in
     q\<lparr>rq_queues := (rq_queues q)(priority := queue),
       rq_realtime := (case key of None \<Rightarrow> rq_realtime q | Some k \<Rightarrow> insort_insert k (rq_realtime q)),
       rq_count := rq_count q + 1,
       rq_counts := (rq_counts q)(priority := rq_counts q priority + 1),
       rq_bitmap := (rq_bitmap q)[word := (rq_bitmap q ! word) OR push_bit (priority mod 32) 1],
       rq_high := max (rq_high q) (int priority)\<rparr>)"

definition rq_pull ::
  "nat \<Rightarrow> xnu_thread \<Rightarrow> realtime_key option \<Rightarrow> run_queue \<Rightarrow> run_queue" where
  "rq_pull priority t key q =
    (let queue = remove1 t (rq_queues q priority);
         word = priority div 32;
         q = q\<lparr>rq_queues := (rq_queues q)(priority := queue),
           rq_realtime := (case key of None \<Rightarrow> rq_realtime q | Some k \<Rightarrow> remove1 k (rq_realtime q)),
           rq_count := rq_count q - 1,
           rq_counts := (rq_counts q)(priority := rq_counts q priority - 1)\<rparr> in
     if queue = [] then
       let q = q\<lparr>rq_bitmap :=
             (rq_bitmap q)[word := (rq_bitmap q ! word) AND NOT (push_bit (priority mod 32) 1)]\<rparr> in
       if int priority = rq_high q then refresh_high_queue q else q
     else q)"

text \<open>The priorities whose bit is set, from the word of the first one upwards; each step takes
  the lowest bit of the word away.\<close>

lemma clear_lowest_less: "w \<noteq> 0 \<Longrightarrow> unat (w AND (w - 1)) < unat (w :: u32)"
proof -
  assume w: "w \<noteq> 0"
  have "w AND (w - 1) \<le> w - 1" by (rule word_and_le1)
  also have "w - 1 < w" using measure_unat [OF w] by (simp add: word_less_nat_alt)
  finally show ?thesis by (simp add: word_less_nat_alt)
qed

function word_bits :: "nat \<Rightarrow> u32 \<Rightarrow> nat list" where
  "word_bits word_index word =
    (if word = 0 then []
     else (word_index * 32 + countr_zero word) # word_bits word_index (word AND (word - 1)))"
  by pat_completeness auto
termination
  by (relation "measure (\<lambda>(word_index, word). unat word)") (simp_all add: clear_lowest_less)

declare word_bits.simps [simp del]

definition populated :: "run_queue \<Rightarrow> nat list" where
  "populated q = concat (map (\<lambda>i. word_bits i (rq_bitmap q ! i)) [0..<length (rq_bitmap q)])"

definition count_at_or_above :: "int \<Rightarrow> run_queue \<Rightarrow> nat" where
  "count_at_or_above minimum q =
    (if rq_high q < minimum then 0
     else
       let first = nat minimum div 32 in
       sum_list (map (rq_counts q)
         (concat (map (\<lambda>i. word_bits i (if i = first
             then rq_bitmap q ! i AND push_bit (nat minimum mod 32) (- 1) else rq_bitmap q ! i))
           [first..<length (rq_bitmap q)]))))"

section \<open>Consistency\<close>

definition high_ok :: "(nat \<Rightarrow> 'a list) \<Rightarrow> int \<Rightarrow> bool" where
  "high_ok queues high \<longleftrightarrow>
    (\<forall>k. queues k \<noteq> [] \<longrightarrow> int k \<le> high) \<and>
    (high = - 1 \<or> (0 \<le> high \<and> queues (nat high) \<noteq> []))"

definition rq_ok :: "run_queue \<Rightarrow> bool" where
  "rq_ok q \<longleftrightarrow>
    length (rq_bitmap q) = 4 \<and>
    (\<forall>k. 128 \<le> k \<longrightarrow> rq_queues q k = []) \<and>
    (\<forall>k. rq_counts q k = length (rq_queues q k)) \<and>
    rq_count q = (\<Sum>k<128. length (rq_queues q k)) \<and>
    (\<forall>k<128. bit (rq_bitmap q ! (k div 32)) (k mod 32) \<longleftrightarrow> rq_queues q k \<noteq> []) \<and>
    high_ok (rq_queues q) (rq_high q) \<and>
    sorted (rq_realtime q) \<and> distinct (rq_realtime q)"

lemma empty_run_queue_ok: "rq_ok empty_run_queue"
proof -
  have "([0, 0, 0, 0] :: u32 list) ! (k div 32) = 0" if "k < 128" for k :: nat
  proof -
    have "k div 32 < 4" using that by (simp add: less_mult_imp_div_less)
    then have "k div 32 = 0 \<or> k div 32 = 1 \<or> k div 32 = 2 \<or> k div 32 = 3" by linarith
    then show ?thesis by (elim disjE) simp_all
  qed
  then show ?thesis by (simp add: rq_ok_def empty_run_queue_def high_ok_def)
qed

text \<open>The search for the highest bit finds it.\<close>

lemma countl_zero_top:
  assumes "w \<noteq> (0 :: u32)"
  shows "countl_zero w < 32" "bit w (31 - countl_zero w)" "\<And>k. bit w k \<Longrightarrow> k \<le> 31 - countl_zero w"
proof -
  let ?l = "rev [0..<32]" and ?n = "countl_zero w"
  have n: "?n = length (takeWhile (\<lambda>i. \<not> bit w i) ?l)" by (simp add: countl_zero_def)
  obtain k where k: "bit w k" using assms by (auto simp: bit_eq_iff)
  then have "k < 32" using bit_imp_le_length [of w k] by simp
  then have "k \<in> set ?l" by simp
  with k have less: "length (takeWhile (\<lambda>i. \<not> bit w i) ?l) < length ?l"
    by (metis (mono_tags, lifting) length_takeWhile_le nat_less_le takeWhile_eq_all_conv takeWhile_eq_take take_all_iff)
  then show n32: "?n < 32" using n by simp
  have at: "?l ! i = 31 - i" if "i < 32" for i using that by (simp add: rev_nth)
  have "\<not> \<not> bit w (?l ! ?n)"
    using nth_length_takeWhile [OF less] n by simp
  then show "bit w (31 - ?n)" using at [OF n32] by simp
  show "k \<le> 31 - ?n" if "bit w k" for k
  proof (rule ccontr)
    assume no: "\<not> k \<le> 31 - ?n"
    have k32: "k < 32" using bit_imp_le_length [OF that] by simp
    with no have i: "31 - k < ?n" by simp
    then have "\<not> bit w (?l ! (31 - k))"
      using takeWhile_nth [of "31 - k" "\<lambda>i. \<not> bit w i" ?l] n by (metis (mono_tags, lifting) nth_mem set_takeWhileD)
    then show False using at [of "31 - k"] k32 that by simp
  qed
qed

lemma highest_from_ok:
  assumes bits: "\<And>k. k < 32 * n \<Longrightarrow> bit (words ! (k div 32)) (k mod 32) \<longleftrightarrow> queues k \<noteq> []"
    and empty: "\<And>k. 32 * n \<le> k \<Longrightarrow> queues k = []"
  shows "high_ok queues (highest_from words n)"
  using assms
proof (induction n)
  case 0
  then show ?case by (simp add: high_ok_def)
next
  case (Suc n)
  let ?w = "words ! n"
  have high: "bit ?w j \<longleftrightarrow> queues (n * 32 + j) \<noteq> []" if "j < 32" for j
    using Suc.prems(1) [of "n * 32 + j"] that by (simp add: algebra_simps)
  show ?case
  proof (cases "?w = 0")
    case True
    have "queues k = []" if "32 * n \<le> k" for k
    proof (cases "k < 32 * Suc n")
      case True
      then have "k = n * 32 + (k - n * 32)" "k - n * 32 < 32" using that by auto
      with high [of "k - n * 32"] \<open>?w = 0\<close> show ?thesis by simp
    next
      case False
      with Suc.prems(2) show ?thesis by simp
    qed
    with Suc.IH Suc.prems(1) True show ?thesis by simp
  next
    case False
    note top = countl_zero_top [OF False]
    let ?j = "31 - countl_zero ?w"
    have "queues (n * 32 + ?j) \<noteq> []" using high [of ?j] top(2) by simp
    moreover have "k \<le> n * 32 + ?j" if "queues k \<noteq> []" for k
    proof (rule ccontr)
      assume no: "\<not> k \<le> n * 32 + ?j"
      then have "k < 32 * Suc n" using Suc.prems(2) [of k] that by (meson not_le)
      with no have "k = n * 32 + (k - n * 32)" "k - n * 32 < 32" by auto
      with high [of "k - n * 32"] that top(3) [of "k - n * 32"] no show False by simp
    qed
    ultimately have "high_ok queues (int (n * 32 + ?j))"
      unfolding high_ok_def nat_int of_nat_le_iff using of_nat_0_le_iff by blast
    then show ?thesis using False by (simp only: highest_from.simps Let_def if_True not_False_eq_True)
  qed
qed

lemma bitmap_update:
  assumes "length words = 4" "p < 128" "k < 128"
  shows "words[p div 32 := w] ! (k div 32) = (if k div 32 = p div 32 then w else words ! (k div 32))"
  using assms by (simp add: nth_list_update less_mult_imp_div_less)

lemma same_bit: "k div 32 = p div 32 \<Longrightarrow> (p mod 32 = k mod 32 \<longleftrightarrow> p = (k :: nat))"
  by (metis div_mult_mod_eq)

lemma bit_set: "bit (w OR 2 ^ j :: u32) i \<longleftrightarrow> bit w i \<or> (j = i \<and> i < 32)"
  by (auto simp: bit_or_iff bit_exp_iff possible_bit_word)

lemma bit_clear: "i < 32 \<Longrightarrow> bit (w AND NOT (2 ^ j) :: u32) i \<longleftrightarrow> bit w i \<and> j \<noteq> i"
  by (auto simp: bit_and_iff bit_not_iff bit_exp_iff possible_bit_word)

lemma sum_queue_update:
  fixes queues :: "nat \<Rightarrow> 'a list"
  assumes "p < 128"
  shows "(\<Sum>k<128. length ((queues(p := xs)) k)) + length (queues p) =
    (\<Sum>k<128. length (queues k)) + length xs"
proof -
  have "(\<Sum>k<128. length (f k)) = length (f p) + (\<Sum>k\<in>{..<128} - {p}. length (f k))" for f :: "nat \<Rightarrow> 'a list"
    using assms by (simp add: sum.remove)
  from this [of queues] this [of "queues(p := xs)"] show ?thesis by simp
qed

lemma rq_push_fields [simp]:
  "rq_queues (rq_push p front t key q) = (rq_queues q)(p :=
     if key = None \<and> front then t # rq_queues q p else rq_queues q p @ [t])"
  "rq_realtime (rq_push p front t key q) =
     (case key of None \<Rightarrow> rq_realtime q | Some k \<Rightarrow> insort_insert k (rq_realtime q))"
  "rq_count (rq_push p front t key q) = rq_count q + 1"
  by (simp_all add: rq_push_def Let_def)

lemma rq_push_ok:
  assumes q: "rq_ok q" and p: "p < 128"
  shows "rq_ok (rq_push p front t key q)"
proof -
  let ?q = "rq_push p front t key q" and ?xs = "if key = None \<and> front then t # rq_queues q p else rq_queues q p @ [t]"
  have len: "length (rq_bitmap q) = 4" using q by (simp add: rq_ok_def)
  have "bit (rq_bitmap ?q ! (k div 32)) (k mod 32) \<longleftrightarrow> rq_queues ?q k \<noteq> []" if k: "k < 128" for k
  proof -
    have "bit (rq_bitmap q ! (k div 32)) (k mod 32) \<longleftrightarrow> rq_queues q k \<noteq> []"
      using q k by (simp add: rq_ok_def)
    then show ?thesis
      using bitmap_update [OF len p k] same_bit [of k p]
      by (auto simp: rq_push_def Let_def bit_set)
  qed
  moreover have "rq_count ?q = (\<Sum>k<128. length (rq_queues ?q k))"
  proof -
    have "length ?xs = length (rq_queues q p) + 1" by simp
    moreover have "rq_count q = (\<Sum>k<128. length (rq_queues q k))" using q by (simp add: rq_ok_def)
    ultimately show ?thesis
      using sum_queue_update [OF p, of "rq_queues q" ?xs] unfolding rq_push_fields by linarith
  qed
  moreover have "high_ok (rq_queues ?q) (rq_high ?q)"
    using q by (fastforce simp: rq_ok_def high_ok_def rq_push_def Let_def max_def)
  ultimately show ?thesis
    using q p unfolding rq_ok_def
    by (auto simp: rq_push_def Let_def sorted_insort_insert distinct_insort_insert split: option.split)
qed

lemma rq_pull_fields [simp]:
  "rq_queues (rq_pull p t key q) = (rq_queues q)(p := remove1 t (rq_queues q p))"
  "rq_realtime (rq_pull p t key q) =
     (case key of None \<Rightarrow> rq_realtime q | Some k \<Rightarrow> remove1 k (rq_realtime q))"
  "rq_count (rq_pull p t key q) = rq_count q - 1"
  by (simp_all add: rq_pull_def Let_def refresh_high_queue_def)

lemma rq_pull_ok:
  assumes q: "rq_ok q" and p: "p < 128" and t: "t \<in> set (rq_queues q p)"
  shows "rq_ok (rq_pull p t key q)"
proof -
  let ?q = "rq_pull p t key q" and ?xs = "remove1 t (rq_queues q p)"
  have len: "length (rq_bitmap q) = 4" using q by (simp add: rq_ok_def)
  have bits: "bit (rq_bitmap ?q ! (k div 32)) (k mod 32) \<longleftrightarrow> rq_queues ?q k \<noteq> []" if k: "k < 128" for k
  proof -
    have "bit (rq_bitmap q ! (k div 32)) (k mod 32) \<longleftrightarrow> rq_queues q k \<noteq> []"
      using q k by (simp add: rq_ok_def)
    moreover have "rq_queues q p \<noteq> []" using t by auto
    ultimately show ?thesis
      using bitmap_update [OF len p k] same_bit [of k p]
      by (auto simp: rq_pull_def Let_def refresh_high_queue_def bit_clear)
  qed
  have words: "length (rq_bitmap ?q) = 4" using len by (simp add: rq_pull_def Let_def refresh_high_queue_def)
  have shorter: "length ?xs = length (rq_queues q p) - 1" using t by (simp add: length_remove1)
  have old: "rq_counts q k = length (rq_queues q k)" for k using q by (simp add: rq_ok_def)
  have "rq_counts ?q = (rq_counts q)(p := rq_counts q p - 1)"
    by (simp add: rq_pull_def Let_def refresh_high_queue_def)
  then have counts: "rq_counts ?q k = length (rq_queues ?q k)" for k
    using shorter old by simp
  have above: "rq_queues ?q k = []" if "128 \<le> k" for k using q p that by (simp add: rq_ok_def)
  have "0 < length (rq_queues q p)" using t by (cases "rq_queues q p") auto
  moreover have "rq_count q = (\<Sum>k<128. length (rq_queues q k))" using q by (simp add: rq_ok_def)
  ultimately have count: "rq_count ?q = (\<Sum>k<128. length (rq_queues ?q k))"
    using shorter sum_queue_update [OF p, of "rq_queues q" ?xs] unfolding rq_pull_fields by linarith
  have "high_ok (rq_queues ?q) (rq_high ?q)"
  proof (cases "?xs = [] \<and> int p = rq_high q")
    case True
    then have "rq_high ?q = highest_from (rq_bitmap ?q) 4"
      using len by (simp add: rq_pull_def Let_def refresh_high_queue_def)
    with highest_from_ok [of 4 "rq_bitmap ?q" "rq_queues ?q"] bits above show ?thesis by simp
  next
    case False
    then have "rq_high ?q = rq_high q" by (auto simp: rq_pull_def Let_def)
    moreover have "rq_queues q p \<noteq> []" using t by auto
    ultimately show ?thesis
      using False q by (auto simp: rq_ok_def high_ok_def split: if_splits)
  qed
  with bits words counts above count q show ?thesis
    unfolding rq_ok_def by (auto simp: sorted_remove1 split: option.split)
qed

lemma rq_count_zero: "rq_ok q \<Longrightarrow> rq_count q = 0 \<longleftrightarrow> (\<forall>k. rq_queues q k = [])"
  unfolding rq_ok_def by (metis (no_types, lifting) finite_lessThan lessThan_iff length_0_conv not_le sum_eq_0_iff)

lemma rq_high_some:
  assumes "rq_ok q" "rq_count q \<noteq> 0"
  shows "0 \<le> rq_high q" "rq_queues q (nat (rq_high q)) \<noteq> []" "rq_high q < 128"
proof -
  obtain k where k: "rq_queues q k \<noteq> []" using assms rq_count_zero [OF assms(1)] by auto
  have high: "high_ok (rq_queues q) (rq_high q)" using assms by (simp add: rq_ok_def)
  with k have "int k \<le> rq_high q" by (simp add: high_ok_def)
  then show pos: "0 \<le> rq_high q" by simp
  with high show some: "rq_queues q (nat (rq_high q)) \<noteq> []" by (auto simp: high_ok_def)
  with assms(1) have "\<not> 128 \<le> nat (rq_high q)" by (auto simp: rq_ok_def)
  with pos show "rq_high q < 128" by simp
qed

section \<open>The bitmap scan\<close>

lemma countr_zero_low:
  assumes "w \<noteq> (0 :: u32)"
  shows "countr_zero w < 32" "bit w (countr_zero w)" "\<And>k. bit w k \<Longrightarrow> countr_zero w \<le> k"
proof -
  let ?l = "[0..<32]" and ?n = "countr_zero w"
  have n: "?n = length (takeWhile (\<lambda>i. \<not> bit w i) ?l)" by (simp add: countr_zero_def)
  obtain k where k: "bit w k" using assms by (auto simp: bit_eq_iff)
  then have "k < 32" using bit_imp_le_length [of w k] by simp
  then have "k \<in> set ?l" by simp
  with k have less: "length (takeWhile (\<lambda>i. \<not> bit w i) ?l) < length ?l"
    by (metis (mono_tags, lifting) length_takeWhile_le nat_less_le takeWhile_eq_all_conv takeWhile_eq_take take_all_iff)
  then show n32: "?n < 32" using n by simp
  have "\<not> \<not> bit w (?l ! ?n)" using nth_length_takeWhile [OF less] n by simp
  then show "bit w ?n" using n32 by simp
  show "?n \<le> k" if "bit w k" for k
  proof (rule ccontr)
    assume "\<not> ?n \<le> k"
    then have i: "k < ?n" by simp
    then have "\<not> bit w (?l ! k)"
      using takeWhile_nth [of k "\<lambda>i. \<not> bit w i" ?l] n by (metis (mono_tags, lifting) nth_mem set_takeWhileD)
    then show False using i n32 that by simp
  qed
qed

lemma bit_clear_lowest_nat: "0 < x \<Longrightarrow> bit (x AND (x - 1)) k \<longleftrightarrow> bit x k \<and> (\<exists>j<k. bit (x :: nat) j)"
proof (induction x arbitrary: k rule: nat_bit_induct)
  case zero
  then show ?case by simp
next
  case (even x)
  have pred: "2 * x - 1 = 1 + 2 * (x - 1)" using even.hyps by simp
  show ?case
  proof (cases k)
    case 0
    then show ?thesis by (simp add: bit_and_iff bit_0 even_and_iff)
  next
    case (Suc i)
    have "(\<exists>j<Suc i. bit (2 * x) j) \<longleftrightarrow> (\<exists>j<i. bit x j)"
      by (auto simp: bit_double_iff Ex_less_Suc2)
    moreover have "bit (2 * x AND (2 * x - 1)) (Suc i) \<longleftrightarrow> bit (x AND (x - 1)) i"
      unfolding pred bit_and_iff by (simp add: bit_Suc)
    ultimately show ?thesis using even.IH even.hyps Suc by (simp add: bit_double_iff bit_Suc)
  qed
next
  case (odd x)
  show ?case
  proof (cases k)
    case 0
    then show ?thesis by (simp add: bit_and_iff bit_0 even_and_iff)
  next
    case (Suc i)
    have "\<exists>j<Suc i. bit (1 + 2 * x) j" by (intro exI [of _ 0]) (simp add: bit_0)
    then show ?thesis unfolding bit_and_iff using Suc by (simp add: bit_Suc)
  qed
qed

lemma bit_clear_lowest:
  assumes "w \<noteq> (0 :: u32)"
  shows "bit (w AND (w - 1)) k \<longleftrightarrow> bit w k \<and> k \<noteq> countr_zero w"
proof -
  note low = countr_zero_low [OF assms]
  have bits: "bit v j \<longleftrightarrow> bit (unat v) j" for v :: u32 and j
    using bit_imp_le_length [of v j] by (auto simp: bit_unsigned_iff)
  have "unat (w - 1) = unat w - 1" using assms by (simp add: unat_minus_one)
  then have "bit (w AND (w - 1)) k \<longleftrightarrow> bit (unat w AND (unat w - 1)) k"
    unfolding bits by (simp add: unsigned_and_eq)
  also have "\<dots> \<longleftrightarrow> bit w k \<and> (\<exists>j<k. bit w j)"
    using bit_clear_lowest_nat [of "unat w" k] assms by (simp add: bits unat_gt_0)
  also have "\<dots> \<longleftrightarrow> bit w k \<and> k \<noteq> countr_zero w"
    using low(2,3) by (metis le_neq_implies_less not_le)
  finally show ?thesis .
qed

lemma set_word_bits: "set (word_bits i w) = {i * 32 + j | j. bit w j}"
proof (induction i w rule: word_bits.induct)
  case (1 i w)
  show ?case
  proof (cases "w = 0")
    case False
    then show ?thesis
      using 1 countr_zero_low(2) [OF False]
      by (subst word_bits.simps) (auto simp: bit_clear_lowest)
  qed (simp add: word_bits.simps)
qed

lemma distinct_word_bits: "distinct (word_bits i w)"
proof (induction i w rule: word_bits.induct)
  case (1 i w)
  then show ?case
    by (subst word_bits.simps) (auto simp: set_word_bits bit_clear_lowest)
qed

lemma word_of_bit: "j < 32 \<Longrightarrow> (i * 32 + j) div 32 = (i :: nat)" "j < 32 \<Longrightarrow> (i * 32 + j) mod 32 = (j :: nat)"
  by simp_all

lemma distinct_words:
  "distinct ns \<Longrightarrow> distinct (concat (map (\<lambda>i. word_bits i (f i)) ns))"
proof (induction ns)
  case (Cons n ns)
  have word: "k div 32 = i" if "k \<in> set (word_bits i (f i))" for i k
  proof -
    from that obtain j where "k = i * 32 + j" "bit (f i) j" by (auto simp: set_word_bits)
    with bit_imp_le_length [of "f i" j] show ?thesis by simp
  qed
  have "k \<notin> (\<Union>i\<in>set ns. set (word_bits i (f i)))" if "k \<in> set (word_bits n (f n))" for k
    using word [of k] that Cons.prems by auto
  then have "set (word_bits n (f n)) \<inter> (\<Union>i\<in>set ns. set (word_bits i (f i))) = {}" by blast
  with Cons show ?case by (simp add: distinct_word_bits)
qed simp

lemma set_populated: "rq_ok q \<Longrightarrow> set (populated q) = {k. rq_queues q k \<noteq> []}"
proof -
  assume q: "rq_ok q"
  have "k \<in> set (populated q) \<longleftrightarrow> rq_queues q k \<noteq> []" for k
  proof -
    have "k \<in> set (populated q) \<longleftrightarrow> (\<exists>i<4. \<exists>j. k = i * 32 + j \<and> bit (rq_bitmap q ! i) j)"
      using q by (auto simp: populated_def set_word_bits rq_ok_def)
    also have "\<dots> \<longleftrightarrow> k < 128 \<and> bit (rq_bitmap q ! (k div 32)) (k mod 32)"
    proof
      assume "\<exists>i<4. \<exists>j. k = i * 32 + j \<and> bit (rq_bitmap q ! i) j"
      then obtain i j where k: "i < 4" "k = i * 32 + j" "bit (rq_bitmap q ! i) j" by blast
      have "j < 32" using bit_imp_le_length [OF k(3)] by simp
      with k show "k < 128 \<and> bit (rq_bitmap q ! (k div 32)) (k mod 32)" by simp
    next
      assume k: "k < 128 \<and> bit (rq_bitmap q ! (k div 32)) (k mod 32)"
      then have "k div 32 < 4" "k = k div 32 * 32 + k mod 32" by (simp_all add: less_mult_imp_div_less)
      with k show "\<exists>i<4. \<exists>j. k = i * 32 + j \<and> bit (rq_bitmap q ! i) j" by blast
    qed
    also have "\<dots> \<longleftrightarrow> rq_queues q k \<noteq> []" using q by (auto simp: rq_ok_def not_le [symmetric])
    finally show ?thesis .
  qed
  then show ?thesis by blast
qed

lemma distinct_populated: "distinct (populated q)"
  unfolding populated_def by (rule distinct_words) simp

text \<open>The scan of the bitmap counts the threads at or above a priority.\<close>

lemma count_at_or_above_ok:
  assumes q: "rq_ok q" and m: "0 \<le> m" "m < 128"
  shows "count_at_or_above m q = (\<Sum>k\<in>{nat m..<128}. length (rq_queues q k))"
proof (cases "rq_high q < m")
  case True
  have "rq_queues q k = []" if "nat m \<le> k" for k
    using q True that unfolding rq_ok_def high_ok_def by (metis le_nat_iff m(1) nat_le_iff not_le order_trans)
  with True show ?thesis by (simp add: count_at_or_above_def)
next
  case False
  let ?f = "nat m div 32"
  let ?w = "\<lambda>i. if i = ?f then rq_bitmap q ! i AND push_bit (nat m mod 32) (- 1) else rq_bitmap q ! i"
  let ?l = "concat (map (\<lambda>i. word_bits i (?w i)) [?f..<4])"
  have len: "length (rq_bitmap q) = 4" using q by (simp add: rq_ok_def)
  have mem: "k \<in> set ?l \<longleftrightarrow> nat m \<le> k \<and> rq_queues q k \<noteq> []" for k
  proof -
    have split: "nat m = ?f * 32 + nat m mod 32" by simp
    have "k \<in> set ?l \<longleftrightarrow> (\<exists>i j. ?f \<le> i \<and> i < 4 \<and> k = i * 32 + j \<and> bit (?w i) j)"
      by (auto simp: set_word_bits)
    also have "\<dots> \<longleftrightarrow> nat m \<le> k \<and> (\<exists>i j. i < 4 \<and> k = i * 32 + j \<and> bit (rq_bitmap q ! i) j)"
    proof -
      have "?f \<le> i \<and> bit (?w i) j \<longleftrightarrow> nat m \<le> i * 32 + j \<and> bit (rq_bitmap q ! i) j" for i j
      proof (cases "j < 32")
        case True
        have "nat m \<le> i * 32 + j \<longleftrightarrow> ?f < i \<or> (?f = i \<and> nat m mod 32 \<le> j)"
          using split True by (smt (verit) add_less_mono1 div_le_mono le_eq_less_or_eq mod_less_divisor
              nat_add_left_cancel_le not_le word_of_bit(1) zero_less_numeral)
        then show ?thesis using True by (auto simp: bit_and_iff bit_not_iff bit_mask_iff)
      next
        case False
        then have "\<not> bit v j" for v :: u32 using bit_imp_le_length [of v j] by auto
        then show ?thesis by simp
      qed
      then show ?thesis by blast
    qed
    also have "\<dots> \<longleftrightarrow> nat m \<le> k \<and> k \<in> set (populated q)"
      by (auto simp: populated_def set_word_bits len)
    finally show ?thesis using set_populated [OF q] by simp
  qed
  have "count_at_or_above m q = sum_list (map (rq_counts q) ?l)"
    using False by (simp only: count_at_or_above_def Let_def if_False len)
  also have "\<dots> = sum (rq_counts q) (set ?l)" by (rule sum_list_distinct_conv_sum_set) (rule distinct_words, simp)
  also have "\<dots> = (\<Sum>k\<in>{k. nat m \<le> k \<and> rq_queues q k \<noteq> []}. length (rq_queues q k))"
    using mem q by (intro sum.cong) (auto simp: rq_ok_def)
  also have "\<dots> = (\<Sum>k\<in>{nat m..<128}. length (rq_queues q k))"
    using q by (intro sum.mono_neutral_left) (auto simp: rq_ok_def not_le [symmetric])
  finally show ?thesis .
qed

end
