(* ===== verification/Scheduler.thy ===== *)
theory Scheduler
  imports Run_Queue Ordered_Map "HOL-Library.Monad_Syntax"
begin

text \<open>
  The scheduler of guest threads, \<^verbatim>\<open>mach/xnu_scheduler.cpp\<close> and
  \<^verbatim>\<open>mach/xnu_run_queue.cpp\<close>: the thread records, the run queue of the
  processor set and those of the processors, and every operation of
  \<^verbatim>\<open>XnuScheduler\<close>.

  A reference to a thread record is the thread's identity, looked up in the table. An
  operation is \<open>None\<close> where the source throws, misses an entry with
  \<^verbatim>\<open>at\<close>, or indexes a vector out of its bounds. The hash sets of a process's
  threads are iterated in ascending order, one of the orders they may have. Performance
  counters, the wall-clock time of an enqueue, the parked realtime set nodes and the capacity
  of vectors do not influence scheduling and are left out.
\<close>

section \<open>State\<close>

datatype thread_state = Runnable | Running | Host_Await | Waiting

datatype slice_completion =
    Slice_Continue | Slice_Host_Cooperate | Slice_Host_Await | Slice_Yield | Slice_Block
  | Slice_Terminate

datatype preemption = No_Preemption | Preempt | Urgent_Preempt

datatype suspension = By_User | By_Process | By_Preparation

record realtime_policy =
  rp_period :: u32
  rp_computation :: u32
  rp_constraint :: u32
  rp_preemptible :: u32

record scheduling_info =
  th_state :: thread_state
  th_base :: int
  th_scheduled :: int
  th_qos :: qos_policy
  th_override :: "int option"
  th_quantum :: u64
  th_usage :: u64
  th_cpu :: u64
  th_stamp :: u64
  th_bound :: "nat option"
  th_last :: "nat option"
  th_period :: u64
  th_computation :: u64
  th_constraint :: u64
  th_deadline :: u64
  th_metered :: u64
  th_release :: u64
  th_slices :: u32
  th_slice_processor :: "nat option"
  th_timeshare :: bool
  th_realtime :: bool
  th_preemptible :: bool
  th_failsafe :: bool
  th_depressed :: bool

record thread_record = scheduling_info +
  th_importance :: int
  th_legacy :: int
  th_task_qos :: task_qos
  th_bucket :: load_bucket
  th_policy :: realtime_policy
  th_queued :: bool
  th_pending :: bool
  th_queued_priority :: int
  th_sequence :: u64
  th_runnable_sequence :: u64
  th_generation :: u64
  th_front :: bool
  th_key :: "realtime_key option"
  th_shift :: "nat option"
  th_queued_processor :: "nat option"
  th_depression :: "u64 option"
  th_suspends :: u32
  th_suspend_counts :: "suspension \<Rightarrow> u32"
  th_user :: u64
  th_resume :: bool
  th_wake :: bool
  th_awaiting :: bool
  th_host_resume :: bool
  th_saved_base :: int
  th_saved_timeshare :: bool
  th_saved_realtime :: bool
  th_usage_index :: "nat option"

record task_history =
  hi_terminated :: u64
  hi_switches :: u32

record scheduled_slice =
  sl_thread :: xnu_thread
  sl_processor :: nat
  sl_budget :: u64
  sl_generation :: u64
  sl_front :: bool

record scheduler =
  sc_global :: run_queue
  sc_locals :: "run_queue list"
  sc_threads :: "(xnu_thread, thread_record) ordered_map"
  sc_process_threads :: "u32 \<rightharpoonup> xnu_thread list"
  sc_history :: "u32 \<rightharpoonup> task_history"
  sc_task_qos :: "u32 \<rightharpoonup> task_qos"
  sc_contexts :: "xnu_thread option list"
  sc_process_runnable :: "u32 \<rightharpoonup> nat"
  sc_depressions :: "(u64 \<times> xnu_thread) list"
  sc_failsafes :: "(u64 \<times> xnu_thread) list"
  sc_usage :: "xnu_thread list"
  sc_runnable :: nat
  sc_waiting :: nat
  sc_host_awaits :: nat
  sc_load :: scheduler_load
  sc_quantum :: u64
  sc_tick_ticks :: u64
  sc_rate :: u32
  sc_minimum_user :: int
  sc_minimum_computation :: u64
  sc_maximum_computation :: u64
  sc_usage_shift :: nat
  sc_since_tick :: u64
  sc_elapsed :: u64
  sc_realtime_clock :: u64
  sc_external_clock :: bool
  sc_tick :: u64
  sc_next_sequence :: u64

definition saturating_add :: "u64 \<Rightarrow> u64 \<Rightarrow> u64" where
  "saturating_add left right = (if - 1 - left < right then - 1 else left + right)"

definition decay_shifts :: "(nat \<times> int) list" where
  "decay_shifts =
    [(1,1), (1,3), (1,-3), (2,-7), (3,5), (3,-5), (4,-8), (5,7),
     (5,-7), (6,-10), (7,10), (7,-9), (8,-11), (9,12), (9,-11), (10,-13),
     (11,14), (11,-13), (12,-15), (13,17), (13,-15), (14,-17), (15,19), (16,18),
     (16,-19), (17,22), (18,20), (18,-20), (19,26), (20,22), (20,-22), (21,-27)]"

definition decay_usage :: "u64 \<Rightarrow> u64 \<Rightarrow> u64" where
  "decay_usage usage ticks =
    (if word_of_nat (length decay_shifts) \<le> ticks then 0
     else case decay_shifts ! unat ticks of (first, second) \<Rightarrow>
       if 0 < second then drop_bit first usage + drop_bit (nat second) usage
       else drop_bit first usage - drop_bit (nat (- second)) usage)"

text \<open>The shift that brings 5/3 of the scheduler tick down to the default priority.\<close>

lemma half_less: "31 < x \<Longrightarrow> unat (drop_bit (Suc 0) x) < unat (x :: u64)"
  by (simp add: drop_bit_Suc unat_div word_less_nat_alt)

function usage_shift_loop :: "u64 \<Rightarrow> nat \<Rightarrow> nat" where
  "usage_shift_loop scaled shift =
    (if 31 < scaled then usage_shift_loop (drop_bit 1 scaled) (shift + 1) else shift)"
  by pat_completeness auto
termination
  by (relation "measure (\<lambda>(scaled, shift). unat scaled)") (simp_all add: half_less)

declare usage_shift_loop.simps [simp del]

definition priority_usage_shift :: "u64 \<Rightarrow> nat" where
  "priority_usage_shift ticks =
    usage_shift_loop ((ticks div 3) * 5 + ((ticks mod 3) * 5) div 3) 0"

definition new_scheduler ::
  "u64 \<Rightarrow> u64 \<Rightarrow> nat \<Rightarrow> u32 \<Rightarrow> int \<Rightarrow> bool \<Rightarrow> scheduler option" where
  "new_scheduler quantum_ticks scheduler_tick_ticks processor_count rate minimum_user buckets =
    (if quantum_ticks = 0 \<or> scheduler_tick_ticks = 0 \<or> rate = 0 \<or> processor_count = 0 then None
     else if minimum_user < minimum_priority \<or> maximum_user_priority < minimum_user then None
     else Some
      \<lparr>sc_global = empty_run_queue, sc_locals = replicate processor_count empty_run_queue,
       sc_threads = [], sc_process_threads = Map.empty, sc_history = Map.empty,
       sc_task_qos = Map.empty, sc_contexts = replicate processor_count None,
       sc_process_runnable = Map.empty, sc_depressions = [], sc_failsafes = [], sc_usage = [],
       sc_runnable = 0, sc_waiting = 0, sc_host_awaits = 0,
       sc_load = \<lparr>sl_priority_buckets = buckets, sl_counts = (\<lambda>_. 0)\<rparr>,
       sc_quantum = quantum_ticks, sc_tick_ticks = scheduler_tick_ticks, sc_rate = rate,
       sc_minimum_user = minimum_user,
       sc_minimum_computation = max 1 (ucast rate * 50 div 1000000),
       sc_maximum_computation = max 1 (ucast rate * 50000 div 1000000),
       sc_usage_shift = priority_usage_shift scheduler_tick_ticks, sc_since_tick = 0,
       sc_elapsed = 0, sc_realtime_clock = 0, sc_external_clock = False, sc_tick = 0,
       sc_next_sequence = 0\<rparr>)"

definition new_thread_record :: thread_record where
  "new_thread_record =
    \<lparr>th_state = Waiting, th_base = default_base_priority, th_scheduled = default_base_priority,
     th_qos = no_qos, th_override = None, th_quantum = 4000000, th_usage = 0, th_cpu = 0,
     th_stamp = 0, th_bound = None, th_last = None, th_period = 0, th_computation = 0,
     th_constraint = 0, th_deadline = 0, th_metered = 0, th_release = 0, th_slices = 0,
     th_slice_processor = None, th_timeshare = True, th_realtime = False,
     th_preemptible = False, th_failsafe = False, th_depressed = False,
     th_importance = 0, th_legacy = 0, th_task_qos = no_task_qos, th_bucket = Fixed_Load,
     th_policy = \<lparr>rp_period = 0, rp_computation = 0, rp_constraint = 0, rp_preemptible = 0\<rparr>,
     th_queued = False, th_pending = False, th_queued_priority = 0, th_sequence = 0,
     th_runnable_sequence = 0, th_generation = 0, th_front = False, th_key = None,
     th_shift = None, th_queued_processor = None, th_depression = None, th_suspends = 0,
     th_suspend_counts = (\<lambda>_. 0), th_user = 0, th_resume = False, th_wake = False,
     th_awaiting = False, th_host_resume = False, th_saved_base = 0,
     th_saved_timeshare = False, th_saved_realtime = False, th_usage_index = None\<rparr>"

definition thread_of :: "xnu_thread \<Rightarrow> scheduler \<Rightarrow> thread_record option" where
  "thread_of t s = map_of (sc_threads s) t"

definition update ::
  "xnu_thread \<Rightarrow> (thread_record \<Rightarrow> thread_record) \<Rightarrow> scheduler \<Rightarrow> scheduler" where
  "update t f s = s\<lparr>sc_threads := modify t f (sc_threads s)\<rparr>"

text \<open>The run queue of a slot: a processor's own, or that of the processor set.\<close>

definition queue_of :: "nat option \<Rightarrow> scheduler \<Rightarrow> run_queue option" where
  "queue_of slot s =
    (case slot of
       None \<Rightarrow> Some (sc_global s)
     | Some p \<Rightarrow> if p < length (sc_locals s) then Some (sc_locals s ! p) else None)"

definition put_queue :: "nat option \<Rightarrow> run_queue \<Rightarrow> scheduler \<Rightarrow> scheduler" where
  "put_queue slot q s =
    (case slot of
       None \<Rightarrow> s\<lparr>sc_global := q\<rparr>
     | Some p \<Rightarrow> s\<lparr>sc_locals := (sc_locals s)[p := q]\<rparr>)"

section \<open>Run queues\<close>

definition enqueue :: "bool \<Rightarrow> xnu_thread \<Rightarrow> scheduler \<Rightarrow> scheduler option" where
  "enqueue front t s = do {
     r \<leftarrow> thread_of t s;
     if th_queued r then Some s
     else do {
       q \<leftarrow> queue_of (th_bound r) s;
       let priority = th_scheduled r;
           sequence = sc_next_sequence s;
           key = (if th_realtime r \<and> realtime_queue_priority \<le> priority
                  then Some (th_deadline r, sequence, t) else None);
           s = update t (\<lambda>r. r\<lparr>th_sequence := sequence,
             th_runnable_sequence := (if th_runnable_sequence r = 0 then sequence + 1
               else th_runnable_sequence r),
             th_key := (case key of None \<Rightarrow> th_key r | Some _ \<Rightarrow> key),
             th_queued := True, th_queued_priority := priority, th_front := front,
             th_queued_processor := th_bound r\<rparr>) s;
           s = s\<lparr>sc_next_sequence := sequence + 1, sc_runnable := sc_runnable s + 1\<rparr> in
       Some (put_queue (th_bound r) (rq_push (nat priority) front t key q) s)
     }
   }"

definition remove_from_queue :: "xnu_thread \<Rightarrow> scheduler \<Rightarrow> scheduler option" where
  "remove_from_queue t s = do {
     r \<leftarrow> thread_of t s;
     if \<not> th_queued r then Some s
     else do {
       q \<leftarrow> queue_of (th_queued_processor r) s;
       let s = update t (\<lambda>r. r\<lparr>th_key := None, th_queued := False,
             th_queued_processor := None\<rparr>) s;
           s = s\<lparr>sc_runnable := sc_runnable s - 1\<rparr> in
       Some (put_queue (th_queued_processor r)
         (rq_pull (nat (th_queued_priority r)) t (th_key r) q) s)
     }
   }"

text \<open>\<^verbatim>\<open>peek_highest\<close>: the realtime thread with the earliest deadline when the
  highest priority is that of the realtime queue, otherwise the head of its list.\<close>

definition peek_highest :: "run_queue \<Rightarrow> scheduler \<Rightarrow> xnu_thread option" where
  "peek_highest q s =
    (if rq_count q = 0 \<or> rq_high q < minimum_priority then None
     else if realtime_queue_priority \<le> rq_high q then
       (case rq_realtime q of
          [] \<Rightarrow> None
        | (_, _, t) # _ \<Rightarrow> do {
            r \<leftarrow> thread_of t s;
            if \<not> th_queued r \<or> th_queued_priority r \<noteq> rq_high q then None else Some t
          })
     else (case rq_queues q (nat (rq_high q)) of [] \<Rightarrow> None | t # _ \<Rightarrow> Some t))"

record queue_candidate =
  qc_thread :: xnu_thread
  qc_priority :: int
  qc_deadline :: u64
  qc_sequence :: u64
  qc_realtime :: bool
  qc_front :: bool
  qc_local :: bool

definition candidate_for_queue ::
  "run_queue \<Rightarrow> bool \<Rightarrow> scheduler \<Rightarrow> queue_candidate option option" where
  "candidate_for_queue q local_queue s =
    (if rq_count q = 0 then Some None
     else do {
       t \<leftarrow> peek_highest q s;
       r \<leftarrow> thread_of t s;
       if \<not> th_queued r \<or> th_queued_priority r \<noteq> rq_high q \<or>
          (th_queued_processor r \<noteq> None) \<noteq> local_queue
       then None
       else Some (Some \<lparr>qc_thread = t, qc_priority = th_scheduled r, qc_deadline = th_deadline r,
         qc_sequence = th_sequence r, qc_realtime = th_realtime r, qc_front = th_front r,
         qc_local = local_queue\<rparr>)
     })"

definition candidate_is_better :: "queue_candidate \<Rightarrow> queue_candidate \<Rightarrow> bool" where
  "candidate_is_better left right =
    (if qc_priority left \<noteq> qc_priority right then qc_priority right < qc_priority left
     else if qc_realtime left \<noteq> qc_realtime right then qc_realtime left
     else if qc_realtime left \<and> qc_deadline left \<noteq> qc_deadline right
       then qc_deadline left < qc_deadline right
     else if qc_front left \<noteq> qc_front right then qc_front left
     else if qc_sequence left \<noteq> qc_sequence right then qc_sequence left < qc_sequence right
     else if qc_local left \<noteq> qc_local right then qc_local left
     else qc_thread left < qc_thread right)"

text \<open>The outer option is the exception, the inner one that there is no candidate, the slot
  the selected queue.\<close>

definition selected_run_queue :: "nat \<Rightarrow> scheduler \<Rightarrow> nat option option option" where
  "selected_run_queue processor s =
    (if length (sc_locals s) \<le> processor then Some None
     else do {
       own \<leftarrow> candidate_for_queue (sc_locals s ! processor) True s;
       shared \<leftarrow> candidate_for_queue (sc_global s) False s;
       case own of
         None \<Rightarrow> Some (if shared \<noteq> None then Some None else None)
       | Some l \<Rightarrow> (case shared of
           None \<Rightarrow> Some (Some (Some processor))
         | Some g \<Rightarrow> Some (Some (if candidate_is_better l g then Some processor else None)))
     })"

definition peek_next_for_processor :: "nat \<Rightarrow> scheduler \<Rightarrow> xnu_thread option option" where
  "peek_next_for_processor processor s = do {
     selected \<leftarrow> selected_run_queue processor s;
     case selected of
       None \<Rightarrow> Some None
     | Some slot \<Rightarrow> do { q \<leftarrow> queue_of slot s; map_option Some (peek_highest q s) }
   }"

end
