(* ===== verification/Scheduler_Steps.thy ===== *)
theory Scheduler_Steps
  imports Scheduler
begin

text \<open>
  The private operations of \<^verbatim>\<open>XnuScheduler\<close> in
  \<^verbatim>\<open>mach/xnu_scheduler.cpp\<close>: state transitions with their counts, the
  deadline and usage indexes, priority recomputation and the passage of time.
\<close>

section \<open>States and counts\<close>

definition is_runnable_state :: "thread_state \<Rightarrow> bool" where
  "is_runnable_state state \<longleftrightarrow> state = Runnable \<or> state = Running"

definition transition_load :: "thread_record \<Rightarrow> thread_state \<Rightarrow> scheduler_load \<Rightarrow> scheduler_load" where
  "transition_load r state load =
    (let was_active = (th_state r \<noteq> Waiting); active = (state \<noteq> Waiting) in
     if was_active = active then load
     else if active then load_enter (th_bucket r) load else load_leave (th_bucket r) load)"

definition transition_state :: "thread_state \<Rightarrow> xnu_thread \<Rightarrow> scheduler \<Rightarrow> scheduler option" where
  "transition_state state t s = do {
     r \<leftarrow> thread_of t s;
     let s = s\<lparr>sc_load := transition_load r state (sc_load s)\<rparr>;
     let was_runnable = is_runnable_state (th_state r);
     let is_runnable = is_runnable_state state;
     let counts = sc_process_runnable s;
     s \<leftarrow> (if was_runnable = is_runnable then Some s
       else if is_runnable
       then Some (s\<lparr>sc_process_runnable := counts(process t \<mapsto>
         (case counts (process t) of None \<Rightarrow> 0 | Some c \<Rightarrow> c) + 1)\<rparr>)
       else case counts (process t) of
           None \<Rightarrow> None
         | Some c \<Rightarrow> if c = 0 then None
             else Some (s\<lparr>sc_process_runnable := counts(process t \<mapsto> c - 1)\<rparr>));
     Some (update t (\<lambda>r. r\<lparr>th_state := state\<rparr>) s)
   }"

definition begin_runnable_generation :: "thread_record \<Rightarrow> thread_record" where
  "begin_runnable_generation r =
    r\<lparr>th_generation := (if th_generation r + 1 = 0 then 1 else th_generation r + 1),
      th_runnable_sequence := 0\<rparr>"

definition release_processor_context :: "xnu_thread \<Rightarrow> scheduler \<Rightarrow> scheduler option" where
  "release_processor_context t s = do {
     r \<leftarrow> thread_of t s;
     case th_last r of
       None \<Rightarrow> Some s
     | Some p \<Rightarrow> if length (sc_contexts s) \<le> p then None
         else if sc_contexts s ! p = Some t then Some (s\<lparr>sc_contexts := (sc_contexts s)[p := None]\<rparr>)
         else Some s
   }"

definition finish_host_await :: "xnu_thread \<Rightarrow> scheduler \<Rightarrow> scheduler option" where
  "finish_host_await t s = do {
     r \<leftarrow> thread_of t s;
     if th_awaiting r
     then Some ((update t (\<lambda>r. r\<lparr>th_awaiting := False\<rparr>) s)\<lparr>sc_host_awaits := sc_host_awaits s - 1\<rparr>)
     else Some s
   }"

section \<open>Indexes\<close>

definition index_depression :: "xnu_thread \<Rightarrow> scheduler \<Rightarrow> scheduler option" where
  "index_depression t s = do {
     r \<leftarrow> thread_of t s;
     Some (case th_depression r of
         None \<Rightarrow> s
       | Some d \<Rightarrow> s\<lparr>sc_depressions := insort_insert (d, t) (sc_depressions s)\<rparr>)
   }"

definition unindex_depression :: "xnu_thread \<Rightarrow> scheduler \<Rightarrow> scheduler option" where
  "unindex_depression t s = do {
     r \<leftarrow> thread_of t s;
     Some (case th_depression r of
         None \<Rightarrow> s
       | Some d \<Rightarrow> s\<lparr>sc_depressions := remove1 (d, t) (sc_depressions s)\<rparr>)
   }"

definition index_failsafe :: "xnu_thread \<Rightarrow> scheduler \<Rightarrow> scheduler option" where
  "index_failsafe t s = do {
     r \<leftarrow> thread_of t s;
     Some (if th_failsafe r
       then s\<lparr>sc_failsafes := insort_insert (th_release r, t) (sc_failsafes s)\<rparr> else s)
   }"

definition unindex_failsafe :: "xnu_thread \<Rightarrow> scheduler \<Rightarrow> scheduler option" where
  "unindex_failsafe t s = do {
     r \<leftarrow> thread_of t s;
     Some (if th_failsafe r
       then s\<lparr>sc_failsafes := remove1 (th_release r, t) (sc_failsafes s)\<rparr> else s)
   }"

definition unindex_process :: "xnu_thread \<Rightarrow> scheduler \<Rightarrow> scheduler" where
  "unindex_process t s =
    (case sc_process_threads s (process t) of
       None \<Rightarrow> s
     | Some threads \<Rightarrow>
         let threads = remove1 t threads in
         if threads = []
         then s\<lparr>sc_process_runnable := (sc_process_runnable s)(process t := None),
           sc_process_threads := (sc_process_threads s)(process t := None)\<rparr>
         else s\<lparr>sc_process_threads := (sc_process_threads s)(process t \<mapsto> threads)\<rparr>)"

definition unindex_thread :: "xnu_thread \<Rightarrow> scheduler \<Rightarrow> scheduler option" where
  "unindex_thread t s = do {
     s \<leftarrow> unindex_depression t s;
     s \<leftarrow> unindex_failsafe t s;
     Some (unindex_process t s)
   }"

text \<open>The threads with decaying usage, each with its own position: the last one takes the
  place of one that is taken out.\<close>

definition track_usage :: "xnu_thread \<Rightarrow> scheduler \<Rightarrow> scheduler option" where
  "track_usage t s = do {
     r \<leftarrow> thread_of t s;
     if th_usage_index r \<noteq> None then Some s
     else Some ((update t (\<lambda>r. r\<lparr>th_usage_index := Some (length (sc_usage s))\<rparr>) s)
       \<lparr>sc_usage := sc_usage s @ [t]\<rparr>)
   }"

definition untrack_usage :: "xnu_thread \<Rightarrow> scheduler \<Rightarrow> scheduler option" where
  "untrack_usage t s = do {
     r \<leftarrow> thread_of t s;
     case th_usage_index r of
       None \<Rightarrow> Some s
     | Some i \<Rightarrow>
         if length (sc_usage s) \<le> i then None
         else
           let final = last (sc_usage s);
               usage = butlast ((sc_usage s)[i := final]);
               s = update final (\<lambda>r. r\<lparr>th_usage_index := Some i\<rparr>) s;
               s = update t (\<lambda>r. r\<lparr>th_usage_index := None\<rparr>) s in
           Some (s\<lparr>sc_usage := usage\<rparr>)
   }"

section \<open>Priorities\<close>

definition processor_set_priority_shift :: "thread_record \<Rightarrow> scheduler \<Rightarrow> nat option" where
  "processor_set_priority_shift r s =
    priority_shift (th_bucket r) (length (sc_locals s)) (sc_usage_shift s) (sc_load s)"

definition quantum_for :: "thread_record \<Rightarrow> scheduler \<Rightarrow> u64" where
  "quantum_for r s = (if th_realtime r then th_computation r else sc_quantum s)"

definition timeshare_quanta :: "scheduler \<Rightarrow> u32" where
  "timeshare_quanta s =
    (let processors = length (sc_locals s); count = rq_count (sc_global s) in
     if processors \<le> count then 1
     else if count \<le> 1 then word_of_nat processors
     else word_of_nat ((processors + count div 2) div count))"

text \<open>Take a queued thread out of its queue, change it, and put it at the back of the queue
  its new state names.\<close>

definition requeued ::
  "xnu_thread \<Rightarrow> (scheduler \<Rightarrow> scheduler option) \<Rightarrow> scheduler \<Rightarrow> scheduler option" where
  "requeued t f s = do {
     r \<leftarrow> thread_of t s;
     s \<leftarrow> (if th_queued r then remove_from_queue t s else Some s);
     s \<leftarrow> f s;
     if th_queued r then enqueue False t s else Some s
   }"

definition effective_base :: "thread_record \<Rightarrow> int" where
  "effective_base r =
    (if th_failsafe r then th_base r
     else effective_priority (th_task_qos r) (th_qos r) (th_base r) (th_override r))"

definition rebucket :: "xnu_thread \<Rightarrow> scheduler \<Rightarrow> scheduler option" where
  "rebucket t s = do {
     r \<leftarrow> thread_of t s;
     let bucket = load_bucket_of (th_timeshare r \<and> \<not> th_realtime r) (effective_base r);
     if th_bucket r = bucket then Some s
     else do {
       let s = (if th_state r \<noteq> Waiting
         then s\<lparr>sc_load := load_enter bucket (load_leave (th_bucket r) (sc_load s))\<rparr> else s);
       let shift = processor_set_priority_shift (r\<lparr>th_bucket := bucket\<rparr>) s;
       Some (update t (\<lambda>r. r\<lparr>th_bucket := bucket, th_shift := shift\<rparr>) s)
     }
   }"

definition usage_penalty :: "thread_record \<Rightarrow> int" where
  "usage_penalty r =
    (case th_shift r of
       None \<Rightarrow> 0
     | Some shift \<Rightarrow> uint (min (drop_bit shift (th_usage r)) (word_of_int maximum_priority)))"

definition computed_priority :: "thread_record \<Rightarrow> int" where
  "computed_priority r =
    (if th_realtime r then realtime_queue_priority
     else if th_timeshare r
     then clamp (effective_base r - usage_penalty r) minimum_priority maximum_kernel_priority
     else effective_base r)"

definition recompute_priority :: "xnu_thread \<Rightarrow> scheduler \<Rightarrow> scheduler option" where
  "recompute_priority t s = do {
     s \<leftarrow> rebucket t s;
     r \<leftarrow> thread_of t s;
     if th_depressed r then Some s
     else
       let priority = computed_priority r in
       if priority = th_scheduled r then Some s
       else requeued t (\<lambda>s. Some (update t (\<lambda>r. r\<lparr>th_scheduled := priority\<rparr>) s)) s
   }"

definition restore_depression :: "xnu_thread \<Rightarrow> scheduler \<Rightarrow> scheduler option" where
  "restore_depression t s = do {
     r \<leftarrow> thread_of t s;
     if \<not> th_depressed r then Some s
     else do {
       s \<leftarrow> unindex_depression t s;
       recompute_priority t (update t (\<lambda>r. r\<lparr>th_depressed := False, th_depression := None\<rparr>) s)
     }
   }"

definition failsafe_release_ticks :: u64 where
  "failsafe_release_ticks = (2 * 800 div 100) * 8"

definition apply_failsafe :: "xnu_thread \<Rightarrow> scheduler \<Rightarrow> scheduler option" where
  "apply_failsafe t s = do {
     r \<leftarrow> thread_of t s;
     if th_failsafe r then Some s
     else do {
       s \<leftarrow> index_failsafe t (update t (\<lambda>r. r\<lparr>th_saved_base := th_base r,
         th_saved_timeshare := th_timeshare r, th_saved_realtime := th_realtime r,
         th_realtime := False,
         th_base := (if th_realtime r then minimum_priority else th_base r),
         th_timeshare := True, th_failsafe := True,
         th_release := saturating_add (sc_tick s) failsafe_release_ticks\<rparr>) s);
       recompute_priority t s
     }
   }"

definition release_failsafe :: "xnu_thread \<Rightarrow> scheduler \<Rightarrow> scheduler option" where
  "release_failsafe t s = do {
     r \<leftarrow> thread_of t s;
     if \<not> th_failsafe r then Some s
     else do {
       s \<leftarrow> unindex_failsafe t s;
       recompute_priority t (update t (\<lambda>r.
         let r = r\<lparr>th_base := th_saved_base r, th_timeshare := th_saved_timeshare r,
           th_realtime := th_saved_realtime r, th_failsafe := False, th_release := 0,
           th_metered := 0\<rparr> in
         r\<lparr>th_quantum := quantum_for r s\<rparr>) s)
     }
   }"

section \<open>Time\<close>

text \<open>The loops over the deadline indexes. Each turn takes the first entry away, so one turn
  more than there are entries is enough; \<open>None\<close> when it is not.\<close>

fun depression_loop :: "nat \<Rightarrow> scheduler \<Rightarrow> scheduler option" where
  "depression_loop 0 s = None"
| "depression_loop (Suc n) s =
    (case sc_depressions s of
       [] \<Rightarrow> Some s
     | (deadline, t) # others \<Rightarrow>
         if sc_elapsed s < deadline then Some s
         else
           let current = (case thread_of t s of
               None \<Rightarrow> False
             | Some r \<Rightarrow> th_depressed r \<and> th_depression r = Some deadline) in
           if current then do { s \<leftarrow> restore_depression t s; depression_loop n s }
           else depression_loop n (s\<lparr>sc_depressions := others\<rparr>))"

definition expire_depressions :: "scheduler \<Rightarrow> scheduler option" where
  "expire_depressions s = depression_loop (Suc (length (sc_depressions s))) s"

fun failsafe_loop :: "nat \<Rightarrow> scheduler \<Rightarrow> scheduler option" where
  "failsafe_loop 0 s = None"
| "failsafe_loop (Suc n) s =
    (case sc_failsafes s of
       [] \<Rightarrow> Some s
     | (release_tick, t) # others \<Rightarrow>
         if sc_tick s < release_tick then Some s
         else
           let current = (case thread_of t s of
               None \<Rightarrow> False
             | Some r \<Rightarrow> th_failsafe r \<and> th_release r = release_tick) in
           if current then do { s \<leftarrow> release_failsafe t s; failsafe_loop n s }
           else failsafe_loop n (s\<lparr>sc_failsafes := others\<rparr>))"

definition age_thread :: "u64 \<Rightarrow> xnu_thread \<Rightarrow> scheduler \<Rightarrow> scheduler option" where
  "age_thread elapsed t s =
    recompute_priority t (update t (\<lambda>r. r\<lparr>th_shift := processor_set_priority_shift r s,
      th_usage := decay_usage (th_usage r) elapsed, th_cpu := decay_usage (th_cpu r) elapsed,
      th_stamp := sc_tick s\<rparr>) s)"

text \<open>The loop over the usage records: each turn either drops the record at the position or
  advances it, so as many turns as there are records are enough.\<close>

fun usage_loop :: "nat \<Rightarrow> nat \<Rightarrow> u64 \<Rightarrow> scheduler \<Rightarrow> scheduler option" where
  "usage_loop 0 index elapsed s = None"
| "usage_loop (Suc n) index elapsed s =
    (if length (sc_usage s) \<le> index then Some s
     else do {
       let t = sc_usage s ! index;
       s \<leftarrow> age_thread elapsed t s;
       r \<leftarrow> thread_of t s;
       if \<not> th_pending r \<and> th_cpu r = 0 \<and> th_usage r = 0
       then do { s \<leftarrow> untrack_usage t s; usage_loop n index elapsed s }
       else usage_loop n (index + 1) elapsed s
     })"

definition age_priorities :: "u64 \<Rightarrow> scheduler \<Rightarrow> scheduler option" where
  "age_priorities elapsed s = do {
     s \<leftarrow> failsafe_loop (Suc (length (sc_failsafes s))) s;
     usage_loop (Suc (length (sc_usage s))) 0 elapsed s
   }"

definition advance_scheduler_time :: "u64 \<Rightarrow> scheduler \<Rightarrow> scheduler option" where
  "advance_scheduler_time consumed s = do {
     let elapsed = saturating_add (sc_elapsed s) consumed;
     let s = s\<lparr>sc_elapsed := elapsed,
       sc_realtime_clock := (if sc_external_clock s then sc_realtime_clock s else elapsed)\<rparr>;
     s \<leftarrow> expire_depressions s;
     let since = saturating_add (sc_since_tick s) consumed;
     let ticks = since div sc_tick_ticks s;
     let s = s\<lparr>sc_since_tick := since mod sc_tick_ticks s\<rparr>;
     if ticks = 0 then Some s
     else age_priorities ticks (s\<lparr>sc_tick := saturating_add (sc_tick s) ticks\<rparr>)
   }"

end
