(* ===== verification/Scheduler_Operations.thy ===== *)
theory Scheduler_Operations
  imports Scheduler_Steps
begin

text \<open>
  The public operations and queries of \<^verbatim>\<open>XnuScheduler\<close>,
  \<^verbatim>\<open>mach/xnu_scheduler.cpp\<close>.
\<close>

section \<open>Threads come and go\<close>

fun for_each ::
  "(xnu_thread \<Rightarrow> scheduler \<Rightarrow> scheduler option) \<Rightarrow> xnu_thread list \<Rightarrow> scheduler \<Rightarrow>
   scheduler option" where
  "for_each f [] s = Some s"
| "for_each f (t # ts) s = do { s \<leftarrow> f t s; for_each f ts s }"

fun count_each ::
  "(xnu_thread \<Rightarrow> scheduler \<Rightarrow> (bool \<times> scheduler) option) \<Rightarrow> xnu_thread list \<Rightarrow>
   scheduler \<Rightarrow> (nat \<times> scheduler) option" where
  "count_each f [] s = Some (0, s)"
| "count_each f (t # ts) s = do {
     (changed, s) \<leftarrow> f t s;
     (n, s) \<leftarrow> count_each f ts s;
     Some (of_bool changed + n, s)
   }"

definition make_ready :: "xnu_thread \<Rightarrow> scheduler \<Rightarrow> scheduler option" where
  "make_ready t s = do {
     s \<leftarrow> transition_state Runnable t s;
     enqueue False t (update t begin_runnable_generation s)
   }"

definition register_thread ::
  "xnu_thread \<Rightarrow> int \<Rightarrow> bool \<Rightarrow> scheduler \<Rightarrow> (bool \<times> scheduler) option" where
  "register_thread t base runnable s =
    (if thread_of t s \<noteq> None then Some (False, s)
     else do {
       let p = process t;
       let base = clamp_priority base;
       let r = new_thread_record\<lparr>th_base := base, th_legacy := base,
         th_task_qos := (case sc_task_qos s p of Some q \<Rightarrow> q | None \<Rightarrow> no_task_qos),
         th_scheduled := base, th_quantum := sc_quantum s, th_stamp := sc_tick s\<rparr>;
       s \<leftarrow> recompute_priority t (s\<lparr>sc_threads := emplace t r (sc_threads s)\<rparr>);
       let s = s\<lparr>sc_process_threads := (sc_process_threads s)(p \<mapsto>
           insort_insert t (case sc_process_threads s p of None \<Rightarrow> [] | Some ts \<Rightarrow> ts)),
         sc_process_runnable := (sc_process_runnable s)(p \<mapsto>
           case sc_process_runnable s p of None \<Rightarrow> 0 | Some c \<Rightarrow> c),
         sc_history := (sc_history s)(p \<mapsto>
           case sc_history s p of None \<Rightarrow> \<lparr>hi_terminated = 0, hi_switches = 0\<rparr> | Some h \<Rightarrow> h)\<rparr>;
       s \<leftarrow> (if runnable then make_ready t s
         else Some (s\<lparr>sc_waiting := sc_waiting s + 1\<rparr>));
       Some (True, s)
     })"

definition retire_ticks :: "xnu_thread \<Rightarrow> u64 \<Rightarrow> scheduler \<Rightarrow> scheduler option" where
  "retire_ticks t pending s = do {
     r \<leftarrow> thread_of t s;
     h \<leftarrow> sc_history s (process t);
     Some (s\<lparr>sc_history := (sc_history s)(process t \<mapsto> h\<lparr>hi_terminated :=
       saturating_add (hi_terminated h) (saturating_add (th_user r) pending)\<rparr>)\<rparr>)
   }"

definition retire_thread :: "xnu_thread \<Rightarrow> u64 \<Rightarrow> scheduler \<Rightarrow> scheduler option" where
  "retire_thread t pending s = do {
     s \<leftarrow> finish_host_await t s;
     r \<leftarrow> thread_of t s;
     s \<leftarrow> (if th_state r = Waiting then Some (s\<lparr>sc_waiting := sc_waiting s - 1\<rparr>)
       else transition_state Waiting t s);
     s \<leftarrow> release_processor_context t s;
     s \<leftarrow> retire_ticks t pending s;
     s \<leftarrow> remove_from_queue t s;
     s \<leftarrow> unindex_thread t s;
     s \<leftarrow> untrack_usage t s;
     Some (s\<lparr>sc_threads := erase t (sc_threads s)\<rparr>)
   }"

definition remove_thread ::
  "xnu_thread \<Rightarrow> u64 \<Rightarrow> scheduler \<Rightarrow> (bool \<times> scheduler) option" where
  "remove_thread t pending s =
    (if thread_of t s = None then Some (False, s)
     else map_option (Pair True) (retire_thread t pending s))"

definition remove_process :: "u32 \<Rightarrow> scheduler \<Rightarrow> (nat \<times> scheduler) option" where
  "remove_process p s =
    (case sc_process_threads s p of
       None \<Rightarrow> Some (0, s\<lparr>sc_history := (sc_history s)(p := None),
         sc_task_qos := (sc_task_qos s)(p := None)\<rparr>)
     | Some threads \<Rightarrow> do {
         s \<leftarrow> for_each (\<lambda>t s. map_option snd (remove_thread t 0 s)) threads s;
         Some (length threads, s\<lparr>sc_history := (sc_history s)(p := None),
           sc_task_qos := (sc_task_qos s)(p := None)\<rparr>)
       })"

definition replace_process_threads ::
  "xnu_thread \<Rightarrow> int \<Rightarrow> (xnu_thread \<Rightarrow> u64) option \<Rightarrow> scheduler \<Rightarrow>
   (bool \<times> scheduler) option" where
  "replace_process_threads survivor base pending s =
    (case thread_of survivor s of
       None \<Rightarrow> Some (False, s)
     | Some current \<Rightarrow> do {
         let last_processor = th_last current;
         installed \<leftarrow> (case last_processor of
             None \<Rightarrow> Some False
           | Some p \<Rightarrow> if length (sc_contexts s) \<le> p then None
               else Some (sc_contexts s ! p = Some survivor));
         owned \<leftarrow> sc_process_threads s (process survivor);
         s \<leftarrow> for_each (\<lambda>t s. map_option snd (remove_thread t
             (case pending of None \<Rightarrow> 0 | Some f \<Rightarrow> if t \<noteq> survivor then f t else 0) s)) owned
           (update survivor (\<lambda>r. r\<lparr>th_user := 0\<rparr>) s);
         (registered, s) \<leftarrow> register_thread survivor base True s;
         let s = update survivor (\<lambda>r. r\<lparr>th_user := th_user current\<rparr>) s;
         Some (True, if installed
           then (update survivor (\<lambda>r. r\<lparr>th_last := last_processor\<rparr>) s)
             \<lparr>sc_contexts := (sc_contexts s)[the last_processor := Some survivor]\<rparr>
           else s)
       })"

section \<open>Waking, blocking and suspending\<close>

definition make_runnable :: "xnu_thread \<Rightarrow> scheduler \<Rightarrow> (bool \<times> scheduler) option" where
  "make_runnable t s =
    (case thread_of t s of
       None \<Rightarrow> Some (False, s)
     | Some r \<Rightarrow> do {
         let host_continuation = th_awaiting r;
         s \<leftarrow> finish_host_await t s;
         if th_suspends r \<noteq> 0 then Some (True, update t (\<lambda>r. r\<lparr>th_resume := True\<rparr>) s)
         else if th_state r = Running \<or> th_queued r then Some (True, s)
         else do {
           let s = (if th_state r = Waiting then s\<lparr>sc_waiting := sc_waiting s - 1\<rparr> else s);
           s \<leftarrow> transition_state Runnable t s;
           let s = update t (\<lambda>r. let r = begin_runnable_generation r in
             if host_continuation then r
             else r\<lparr>th_quantum := quantum_for r s, th_metered := 0,
               th_deadline := (if th_realtime r
                 then saturating_add (sc_realtime_clock s) (th_constraint r)
                 else th_deadline r)\<rparr>) s;
           s \<leftarrow> enqueue False t s;
           Some (True, s)
         }
       })"

definition block :: "xnu_thread \<Rightarrow> scheduler \<Rightarrow> (bool \<times> scheduler) option" where
  "block t s =
    (case thread_of t s of
       None \<Rightarrow> Some (False, s)
     | Some r \<Rightarrow> do {
         s \<leftarrow> finish_host_await t (update t (\<lambda>r. r\<lparr>th_host_resume := False\<rparr>) s);
         s \<leftarrow> (if th_pending r then Some s else release_processor_context t s);
         s \<leftarrow> remove_from_queue t s;
         s \<leftarrow> transition_state Waiting t s;
         let s = (if th_state r = Waiting then s else s\<lparr>sc_waiting := sc_waiting s + 1\<rparr>);
         Some (True, update t (\<lambda>r. r\<lparr>th_quantum := quantum_for r s, th_metered := 0,
           th_resume := (if th_suspends r \<noteq> 0 then False else th_resume r)\<rparr>) s)
       })"

definition suspend_thread ::
  "suspension \<Rightarrow> xnu_thread \<Rightarrow> scheduler \<Rightarrow> (bool \<times> scheduler) option" where
  "suspend_thread reason t s =
    (case thread_of t s of
       None \<Rightarrow> Some (False, s)
     | Some r \<Rightarrow>
         if th_suspends r = - 1 then Some (False, s)
         else do {
           let s = update t (\<lambda>r. r\<lparr>th_host_resume := False,
             th_suspend_counts := (th_suspend_counts r)(reason := th_suspend_counts r reason + 1),
             th_suspends := th_suspends r + 1\<rparr>) s;
           if th_suspends r \<noteq> 0 then Some (True, s)
           else do {
             let s = update t (\<lambda>r. r\<lparr>th_resume :=
               (th_state r = Runnable \<or> th_state r = Running)\<rparr>) s;
             if th_state r = Waiting then Some (True, s)
             else do {
               s \<leftarrow> (if th_pending r then Some s else release_processor_context t s);
               s \<leftarrow> remove_from_queue t s;
               s \<leftarrow> transition_state Waiting t s;
               Some (True, s\<lparr>sc_waiting := sc_waiting s + 1\<rparr>)
             }
           }
         })"

definition resume_thread ::
  "suspension \<Rightarrow> xnu_thread \<Rightarrow> scheduler \<Rightarrow> (bool \<times> scheduler) option" where
  "resume_thread reason t s =
    (case thread_of t s of
       None \<Rightarrow> Some (False, s)
     | Some r \<Rightarrow>
         if th_suspend_counts r reason = 0 then Some (False, s)
         else do {
           let s = update t (\<lambda>r. r\<lparr>th_suspend_counts :=
               (th_suspend_counts r)(reason := th_suspend_counts r reason - 1),
             th_suspends := th_suspends r - 1\<rparr>) s;
           if th_suspends r - 1 \<noteq> 0 then Some (True, s)
           else if \<not> th_resume r
           then (if th_awaiting r
             then map_option (Pair True)
               (transition_state Host_Await t (s\<lparr>sc_waiting := sc_waiting s - 1\<rparr>))
             else Some (True, s))
           else do {
             let s = (update t (\<lambda>r. r\<lparr>th_resume := False\<rparr>) s)\<lparr>sc_waiting := sc_waiting s - 1\<rparr>;
             s \<leftarrow> transition_state Runnable t s;
             let s = update t (\<lambda>r. (begin_runnable_generation r)
               \<lparr>th_quantum := quantum_for r s, th_metered := 0\<rparr>) s;
             s \<leftarrow> enqueue False t s;
             Some (True, s)
           }
         })"

definition suspend_process :: "u32 \<Rightarrow> scheduler \<Rightarrow> (nat \<times> scheduler) option" where
  "suspend_process p s =
    (case sc_process_threads s p of
       None \<Rightarrow> Some (0, s)
     | Some threads \<Rightarrow> count_each (suspend_thread By_Process) threads s)"

definition resume_process :: "u32 \<Rightarrow> scheduler \<Rightarrow> (nat \<times> scheduler) option" where
  "resume_process p s =
    (case sc_process_threads s p of
       None \<Rightarrow> Some (0, s)
     | Some threads \<Rightarrow> count_each (resume_thread By_Process) threads s)"

text \<open>Whether the wake was handled, and whether preemption is needed.\<close>

definition wake_thread :: "xnu_thread \<Rightarrow> scheduler \<Rightarrow> ((bool \<times> bool) \<times> scheduler) option" where
  "wake_thread t s =
    (case thread_of t s of
       None \<Rightarrow> Some ((False, False), s)
     | Some r \<Rightarrow>
         if th_awaiting r then Some ((True, False), s)
         else if th_pending r then
           let s = (if th_suspends r \<noteq> 0 then update t (\<lambda>r. r\<lparr>th_resume := True\<rparr>) s else s) in
           if th_wake r then Some ((True, False), s)
           else Some ((True, th_suspends r = 0), update t (\<lambda>r. r\<lparr>th_wake := True\<rparr>) s)
         else if th_queued r \<or> th_suspends r \<noteq> 0 then
           Some ((True, False),
             if th_suspends r \<noteq> 0 then update t (\<lambda>r. r\<lparr>th_resume := True\<rparr>) s else s)
         else map_option (\<lambda>(made, s). ((made, made), s)) (make_runnable t s))"

section \<open>Policy\<close>

definition set_base_priority ::
  "xnu_thread \<Rightarrow> int \<Rightarrow> scheduler \<Rightarrow> (bool \<times> scheduler) option" where
  "set_base_priority t priority s =
    (case thread_of t s of
       None \<Rightarrow> Some (False, s)
     | Some r \<Rightarrow> do {
         let clamped = clamp_priority priority;
         let s = update t (\<lambda>r. r\<lparr>th_qos := no_qos, th_legacy := clamped\<rparr>) s;
         if th_base r = clamped \<and> qp_tier (th_qos r) = Unspecified then Some (True, s)
         else map_option (Pair True) (recompute_priority t (update t (\<lambda>r. r\<lparr>th_base := clamped\<rparr>) s))
       })"

definition precedence :: "int \<Rightarrow> int \<Rightarrow> scheduler \<Rightarrow> int" where
  "precedence task_priority importance s =
    clamp (task_priority + clamp importance (- maximum_priority) maximum_priority)
      (sc_minimum_user s) maximum_user_priority"

definition set_precedence ::
  "xnu_thread \<Rightarrow> int \<Rightarrow> int \<Rightarrow> scheduler \<Rightarrow> (bool \<times> scheduler) option" where
  "set_precedence t task_priority importance s =
    (case thread_of t s of
       None \<Rightarrow> Some (False, s)
     | Some r \<Rightarrow>
         let priority = precedence task_priority importance s;
             s = update t (\<lambda>r. r\<lparr>th_importance := importance\<rparr>) s in
         if th_failsafe r then
           let s = update t (\<lambda>r. r\<lparr>th_saved_base := priority\<rparr>) s in
           if th_saved_realtime r then Some (True, s) else set_base_priority t priority s
         else set_base_priority t priority s)"

definition set_task_priority ::
  "xnu_thread \<Rightarrow> int \<Rightarrow> scheduler \<Rightarrow> (bool \<times> scheduler) option" where
  "set_task_priority t priority s =
    (case thread_of t s of
       None \<Rightarrow> Some (False, s)
     | Some r \<Rightarrow>
         if qp_tier (th_qos r) = Unspecified then set_precedence t priority (th_importance r) s
         else Some (True, update t (\<lambda>r. r\<lparr>th_legacy :=
           precedence priority (th_importance r) s\<rparr>) s))"

definition set_timeshare ::
  "xnu_thread \<Rightarrow> bool \<Rightarrow> scheduler \<Rightarrow> (bool \<times> scheduler) option" where
  "set_timeshare t timeshare s =
    (case thread_of t s of
       None \<Rightarrow> Some (False, s)
     | Some r \<Rightarrow>
         if th_failsafe r then
           Some (True, update t (\<lambda>r. r\<lparr>th_saved_realtime := False, th_saved_timeshare := timeshare\<rparr>) s)
         else if \<not> th_realtime r \<and> th_timeshare r = timeshare then Some (True, s)
         else map_option (Pair True) (recompute_priority t (update t (\<lambda>r. r\<lparr>th_realtime := False,
           th_timeshare := timeshare, th_quantum := sc_quantum s\<rparr>) s)))"

definition set_legacy_policy ::
  "xnu_thread \<Rightarrow> bool \<Rightarrow> int \<Rightarrow> int \<Rightarrow> scheduler \<Rightarrow> (bool \<times> scheduler) option" where
  "set_legacy_policy t timeshare task_priority priority s =
    (case thread_of t s of
       None \<Rightarrow> Some (False, s)
     | Some r \<Rightarrow>
         if th_realtime r \<or> (th_failsafe r \<and> th_saved_realtime r) then Some (True, s)
         else do {
           let base = (if maximum_user_priority \<le> priority then maximum_user_priority
             else clamp (priority - default_base_priority + task_priority) minimum_priority
               maximum_user_priority);
           (done_timeshare, s) \<leftarrow> set_timeshare t timeshare s;
           if done_timeshare then set_precedence t task_priority (base - task_priority) s
           else Some (False, s)
         })"

definition set_requested_qos ::
  "xnu_thread \<Rightarrow> qos_policy \<Rightarrow> scheduler \<Rightarrow> (bool \<times> scheduler) option" where
  "set_requested_qos t policy s =
    (case thread_of t s of
       None \<Rightarrow> Some (False, s)
     | Some r \<Rightarrow>
         if \<not> qos_valid policy then Some (False, s)
         else
           let priority = (if qp_tier policy = Unspecified then th_legacy r else qos_priority policy) in
           map_option (Pair True) (recompute_priority t (update t (\<lambda>r.
             let r = r\<lparr>th_qos := policy\<rparr> in
             if th_failsafe r then r\<lparr>th_saved_base := priority\<rparr> else r\<lparr>th_base := priority\<rparr>) s)))"

definition set_task_qos_policy :: "u32 \<Rightarrow> task_qos \<Rightarrow> scheduler \<Rightarrow> scheduler option" where
  "set_task_qos_policy p policy s =
    (if sc_task_qos s p = Some policy then Some s
     else
       let s = s\<lparr>sc_task_qos := (sc_task_qos s)(p \<mapsto> policy)\<rparr> in
       case sc_process_threads s p of
         None \<Rightarrow> Some s
       | Some threads \<Rightarrow> for_each (\<lambda>t s.
           recompute_priority t (update t (\<lambda>r. r\<lparr>th_task_qos := policy\<rparr>) s)) threads s)"

definition set_qos_override_priority ::
  "xnu_thread \<Rightarrow> int option \<Rightarrow> scheduler \<Rightarrow> (bool \<times> scheduler) option" where
  "set_qos_override_priority t priority s =
    (case thread_of t s of
       None \<Rightarrow> Some (False, s)
     | Some r \<Rightarrow>
         let priority = map_option (\<lambda>p. clamp p minimum_priority maximum_user_priority) priority in
         if th_override r = priority then Some (True, s)
         else map_option (Pair True)
           (recompute_priority t (update t (\<lambda>r. r\<lparr>th_override := priority\<rparr>) s)))"

definition depress :: "xnu_thread \<Rightarrow> u64 \<Rightarrow> scheduler \<Rightarrow> (bool \<times> scheduler) option" where
  "depress t duration s =
    (case thread_of t s of
       None \<Rightarrow> Some (False, s)
     | Some r \<Rightarrow>
         if th_depressed r then Some (True, s)
         else map_option (Pair True) (requeued t (\<lambda>s. index_depression t (update t (\<lambda>r.
           r\<lparr>th_depressed := True, th_scheduled := minimum_priority,
             th_depression := (if duration \<noteq> 0 then Some (saturating_add (sc_elapsed s) duration)
               else None)\<rparr>) s)) s))"

definition bind_thread ::
  "xnu_thread \<Rightarrow> nat option \<Rightarrow> scheduler \<Rightarrow> (bool \<times> scheduler) option" where
  "bind_thread t slot s =
    (if (case slot of None \<Rightarrow> False | Some p \<Rightarrow> length (sc_locals s) \<le> p) then Some (False, s)
     else case thread_of t s of
       None \<Rightarrow> Some (False, s)
     | Some r \<Rightarrow>
         if th_bound r = slot then Some (True, s)
         else map_option (Pair True)
           (requeued t (\<lambda>s. Some (update t (\<lambda>r. r\<lparr>th_bound := slot\<rparr>) s)) s))"

definition set_realtime ::
  "xnu_thread \<Rightarrow> u64 \<Rightarrow> u64 \<Rightarrow> u64 \<Rightarrow> bool \<Rightarrow> scheduler \<Rightarrow> (bool \<times> scheduler) option" where
  "set_realtime t period computation constraint preemptible s =
    (if constraint < computation \<or> computation < sc_minimum_computation s \<or>
        sc_maximum_computation s < computation
     then Some (False, s)
     else case thread_of t s of
       None \<Rightarrow> Some (False, s)
     | Some r \<Rightarrow>
         let deadline = saturating_add (sc_realtime_clock s) constraint;
             parameters = (\<lambda>r. r\<lparr>th_preemptible := preemptible, th_period := period,
               th_computation := computation, th_constraint := constraint,
               th_deadline := deadline\<rparr>) in
         if th_failsafe r then
           Some (True, update t (\<lambda>r. (parameters r)\<lparr>th_saved_realtime := True,
             th_saved_timeshare := False\<rparr>) s)
         else map_option (Pair True) (requeued t (\<lambda>s. recompute_priority t (update t (\<lambda>r.
           (parameters r)\<lparr>th_timeshare := False, th_realtime := True, th_quantum := computation\<rparr>) s)) s))"

definition realtime_ticks :: "u32 \<Rightarrow> scheduler \<Rightarrow> u64" where
  "realtime_ticks v s = ucast v * ucast (sc_rate s) div 1000000000"

definition set_realtime_policy ::
  "xnu_thread \<Rightarrow> realtime_policy \<Rightarrow> scheduler \<Rightarrow> (bool \<times> scheduler) option" where
  "set_realtime_policy t policy s =
    (if rp_constraint policy < rp_computation policy \<or> rp_computation policy < 50000 \<or>
        50000000 < rp_computation policy
     then Some (False, s)
     else do {
       (accepted, s) \<leftarrow> set_realtime t (realtime_ticks (rp_period policy) s)
         (realtime_ticks (rp_computation policy) s) (realtime_ticks (rp_constraint policy) s)
         (rp_preemptible policy \<noteq> 0) s;
       if accepted then Some (True, update t (\<lambda>r. r\<lparr>th_policy := policy\<rparr>) s)
       else Some (False, s)
     })"

definition set_realtime_clock_ticks :: "u64 \<Rightarrow> scheduler \<Rightarrow> scheduler" where
  "set_realtime_clock_ticks elapsed s =
    s\<lparr>sc_external_clock := True, sc_realtime_clock := max (sc_realtime_clock s) elapsed\<rparr>"

section \<open>Dispatch\<close>

text \<open>The thread \<^verbatim>\<open>choose_next\<close> selects: the preferred one when it may run
  here, otherwise the head of the selected queue.\<close>

definition select_thread :: "nat \<Rightarrow> xnu_thread option \<Rightarrow> scheduler \<Rightarrow> xnu_thread option option" where
  "select_thread processor preferred s =
    (case preferred of
       Some t \<Rightarrow> Some (case thread_of t s of
           None \<Rightarrow> None
         | Some r \<Rightarrow> if \<not> th_queued r \<or> (th_bound r \<noteq> None \<and> th_bound r \<noteq> Some processor)
             then None else Some t)
     | None \<Rightarrow> peek_next_for_processor processor s)"

definition install_context :: "nat \<Rightarrow> xnu_thread \<Rightarrow> scheduler \<Rightarrow> scheduler option" where
  "install_context processor t s =
    (if length (sc_contexts s) \<le> processor then None
     else if sc_contexts s ! processor = Some t then Some s
     else do {
       h \<leftarrow> sc_history s (process t);
       s \<leftarrow> release_processor_context t
         (s\<lparr>sc_history := (sc_history s)(process t \<mapsto> h\<lparr>hi_switches := hi_switches h + 1\<rparr>)\<rparr>);
       Some (s\<lparr>sc_contexts := (sc_contexts s)[processor := Some t]\<rparr>)
     })"

definition dispatch_thread ::
  "nat \<Rightarrow> xnu_thread \<Rightarrow> scheduler \<Rightarrow> (scheduled_slice \<times> scheduler) option" where
  "dispatch_thread processor t s = do {
     chosen \<leftarrow> thread_of t s;
     s \<leftarrow> remove_from_queue t s;
     s \<leftarrow> restore_depression t s;
     s \<leftarrow> transition_state Running t s;
     s \<leftarrow> track_usage t (update t (\<lambda>r. r\<lparr>th_pending := True\<rparr>) s);
     s \<leftarrow> install_context processor t s;
     let s = update t (\<lambda>r.
       let r = r\<lparr>th_last := Some processor\<rparr>;
           r = (if th_timeshare r \<and> (th_slices r = 0 \<or> th_slice_processor r \<noteq> Some processor)
             then r\<lparr>th_slices := timeshare_quanta s, th_slice_processor := Some processor\<rparr>
             else r) in
       r\<lparr>th_shift := processor_set_priority_shift r s\<rparr>) s;
     r \<leftarrow> thread_of t s;
     Some (\<lparr>sl_thread = t, sl_processor = processor, sl_budget = th_quantum r,
       sl_generation = th_generation r, sl_front = th_front chosen\<rparr>, s)
   }"

definition choose_next ::
  "nat \<Rightarrow> xnu_thread option \<Rightarrow> scheduler \<Rightarrow> (scheduled_slice option \<times> scheduler) option" where
  "choose_next processor preferred s =
    (if length (sc_locals s) \<le> processor then Some (None, s)
     else do {
       selected \<leftarrow> select_thread processor preferred s;
       case selected of
         None \<Rightarrow> Some (None, s)
       | Some t \<Rightarrow> map_option (\<lambda>(slice, s). (Some slice, s)) (dispatch_thread processor t s)
     })"

definition preemption_for :: "xnu_thread \<Rightarrow> nat \<Rightarrow> scheduler \<Rightarrow> preemption option" where
  "preemption_for t processor s =
    (case thread_of t s of
       None \<Rightarrow> Some No_Preemption
     | Some current \<Rightarrow>
         if length (sc_locals s) \<le> processor \<or> th_state current \<noteq> Running then Some No_Preemption
         else do {
           candidate \<leftarrow> peek_next_for_processor processor s;
           case candidate of
             None \<Rightarrow> Some No_Preemption
           | Some u \<Rightarrow> (case thread_of u s of
               None \<Rightarrow> Some No_Preemption
             | Some c \<Rightarrow>
                 let preempt = (if th_quantum current \<noteq> 0
                       then th_scheduled current < th_scheduled c
                       else th_scheduled current \<le> th_scheduled c) \<or>
                     (realtime_queue_priority \<le> th_scheduled c \<and> th_realtime current \<and>
                      th_realtime c \<and> th_deadline c < th_deadline current) in
                 Some (if \<not> preempt then No_Preemption
                   else if \<not> th_timeshare c \<and> preempt_priority \<le> th_scheduled c
                   then Urgent_Preempt else Preempt))
         })"

definition should_yield :: "xnu_thread \<Rightarrow> scheduler \<Rightarrow> bool" where
  "should_yield t s =
    (case thread_of t s of
       None \<Rightarrow> False
     | Some current \<Rightarrow> (case th_last current of
         None \<Rightarrow> False
       | Some processor \<Rightarrow> th_state current = Running \<and> processor < length (sc_locals s) \<and>
           (rq_count (sc_locals s ! processor) \<noteq> 0 \<or> rq_count (sc_global s) \<noteq> 0)))"

section \<open>Completing a slice\<close>

definition maximum_unsafe_quanta :: u64 where "maximum_unsafe_quanta = 800"

definition charge :: "u64 \<Rightarrow> thread_record \<Rightarrow> thread_record" where
  "charge consumed r = r\<lparr>th_pending := False,
     th_usage := (if th_shift r \<noteq> None \<and> th_timeshare r
       then saturating_add (th_usage r) consumed else th_usage r),
     th_cpu := saturating_add (th_cpu r) consumed,
     th_user := saturating_add (th_user r) consumed,
     th_quantum := th_quantum r - min (th_quantum r) consumed,
     th_metered := (if \<not> th_timeshare r then saturating_add (th_metered r) consumed
       else th_metered r)\<rparr>"

definition account_slice :: "xnu_thread \<Rightarrow> u64 \<Rightarrow> bool \<Rightarrow> scheduler \<Rightarrow> scheduler option" where
  "account_slice t consumed advance s = do {
     let s = update t (charge consumed) s;
     r \<leftarrow> thread_of t s;
     s \<leftarrow> (if th_quantum r = 0 \<and> \<not> th_timeshare r \<and>
         maximum_unsafe_quanta * sc_quantum s < th_metered r
       then apply_failsafe t s else Some s);
     if advance then advance_scheduler_time consumed s else Some s
   }"

definition no_slices :: "thread_record \<Rightarrow> thread_record" where
  "no_slices r = r\<lparr>th_slices := 0, th_slice_processor := None\<rparr>"

definition await_slice :: "xnu_thread \<Rightarrow> scheduler \<Rightarrow> scheduler option" where
  "await_slice t s = do {
     r \<leftarrow> thread_of t s;
     let s = s\<lparr>sc_host_awaits := (if th_awaiting r then sc_host_awaits s else sc_host_awaits s + 1)\<rparr>;
     s \<leftarrow> remove_from_queue t (update t (\<lambda>r. r\<lparr>th_host_resume :=
         (th_quantum r \<noteq> 0 \<and> th_suspends r = 0 \<and> th_state r = Running),
       th_awaiting := True, th_wake := False, th_resume := False\<rparr>) s);
     s \<leftarrow> (if th_suspends r = 0
       then transition_state Host_Await t (if th_state r = Waiting
         then s\<lparr>sc_waiting := sc_waiting s - 1\<rparr> else s)
       else Some s);
     if th_quantum r = 0
     then recompute_priority t (update t (\<lambda>r. no_slices (r\<lparr>th_quantum := quantum_for r s\<rparr>)) s)
     else Some s
   }"

text \<open>A hold changed the state while the slice was in flight.\<close>

definition interrupted_slice :: "xnu_thread \<Rightarrow> slice_completion \<Rightarrow> scheduler \<Rightarrow> scheduler option" where
  "interrupted_slice t completion s = do {
     r \<leftarrow> thread_of t s;
     s \<leftarrow> (if completion = Slice_Block \<and> \<not> th_wake r
       then map_option (\<lambda>(_, s). update t no_slices s) (block t s)
       else if th_wake r then map_option snd (make_runnable t s) else Some s);
     r \<leftarrow> thread_of t s;
     s \<leftarrow> (if th_state r = Waiting then release_processor_context t s else Some s);
     Some (update t (\<lambda>r. r\<lparr>th_wake := False\<rparr>) s)
   }"

definition blocked_slice :: "xnu_thread \<Rightarrow> scheduler \<Rightarrow> scheduler option" where
  "blocked_slice t s = do {
     r \<leftarrow> thread_of t s;
     if th_wake r then do {
       s \<leftarrow> transition_state Runnable t (update t (\<lambda>r. r\<lparr>th_wake := False\<rparr>) s);
       enqueue False t (update t (\<lambda>r.
         no_slices ((begin_runnable_generation r)\<lparr>th_quantum := quantum_for r s\<rparr>)) s)
     }
     else do {
       s \<leftarrow> transition_state Waiting t s;
       s \<leftarrow> release_processor_context t s;
       let s = s\<lparr>sc_waiting := sc_waiting s + 1\<rparr>;
       Some (update t (\<lambda>r. no_slices (r\<lparr>th_quantum := quantum_for r s\<rparr>)) s)
     }
   }"

text \<open>The thread goes on: to the head of its queue while its quantum lasts, otherwise with a
  new quantum and a recomputed priority.\<close>

definition requeue_slice :: "xnu_thread \<Rightarrow> slice_completion \<Rightarrow> scheduler \<Rightarrow> scheduler option" where
  "requeue_slice t completion s = do {
     let s = update t (\<lambda>r. r\<lparr>th_wake := False\<rparr>) s;
     r \<leftarrow> thread_of t s;
     let expired = (th_quantum r = 0);
     if completion = Slice_Host_Cooperate \<and> \<not> expired then make_ready t s
     else if completion = Slice_Yield \<or> expired then do {
       s \<leftarrow> recompute_priority t (update t (\<lambda>r. r\<lparr>th_metered :=
           (if completion = Slice_Yield then 0 else th_metered r),
         th_quantum := quantum_for r s\<rparr>) s);
       s \<leftarrow> transition_state Runnable t s;
       r \<leftarrow> thread_of t s;
       if completion \<noteq> Slice_Yield \<and> th_timeshare r \<and> 1 < th_slices r
       then enqueue True t (update t (\<lambda>r.
         (begin_runnable_generation r)\<lparr>th_slices := th_slices r - 1\<rparr>) s)
       else enqueue False t (update t (\<lambda>r. no_slices (begin_runnable_generation r)) s)
     }
     else do {
       s \<leftarrow> transition_state Runnable t s;
       enqueue True t (update t begin_runnable_generation s)
     }
   }"

definition complete_slice ::
  "xnu_thread \<Rightarrow> u64 \<Rightarrow> slice_completion \<Rightarrow> bool \<Rightarrow> scheduler \<Rightarrow> (bool \<times> scheduler) option" where
  "complete_slice t consumed completion advance s =
    (if (case thread_of t s of None \<Rightarrow> True | Some r \<Rightarrow> \<not> th_pending r) then Some (False, s)
     else do {
       s \<leftarrow> account_slice t consumed advance s;
       if completion = Slice_Terminate then remove_thread t 0 s
       else if completion = Slice_Host_Await then map_option (Pair True) (await_slice t s)
       else do {
         let s = update t (\<lambda>r. if completion \<noteq> Slice_Continue \<or> th_quantum r = 0
           then r\<lparr>th_host_resume := False\<rparr> else r) s;
         r \<leftarrow> thread_of t s;
         map_option (Pair True)
           (if th_state r \<noteq> Running then interrupted_slice t completion s
            else if completion = Slice_Block then blocked_slice t s
            else requeue_slice t completion s)
       }
     })"

definition advance_time :: "u64 \<Rightarrow> scheduler \<Rightarrow> scheduler option" where
  "advance_time elapsed s = advance_scheduler_time elapsed s"

definition synchronize_time :: "u64 \<Rightarrow> scheduler \<Rightarrow> scheduler option" where
  "synchronize_time elapsed s =
    (if elapsed \<le> sc_elapsed s then Some s
     else advance_scheduler_time (elapsed - sc_elapsed s) s)"

end
