(* ===== verification/Scheduler_Structure.thy ===== *)
theory Scheduler_Structure
  imports Scheduler_Operations
begin

text \<open>
  What the run queues, the counts and the indexes of the guest scheduler have to do with the
  thread records, and that the scheduler's basic steps keep it so.

  All of it depends on a few fields of each record, its footprint, so that a change of the
  other fields leaves it alone.
\<close>

section \<open>Footprints\<close>

record foot =
  fo_place :: "(nat option \<times> int \<times> realtime_key option) option"
  fo_state :: thread_state
  fo_bucket :: load_bucket
  fo_awaiting :: bool
  fo_depression :: "u64 option"
  fo_release :: "u64 option"
  fo_usage :: "nat option"
  fo_last :: "nat option"

definition foot_of :: "thread_record \<Rightarrow> foot" where
  "foot_of r = \<lparr>fo_place = (if th_queued r
       then Some (th_queued_processor r, th_queued_priority r, th_key r) else None),
     fo_state = th_state r, fo_bucket = th_bucket r, fo_awaiting = th_awaiting r,
     fo_depression = th_depression r,
     fo_release = (if th_failsafe r then Some (th_release r) else None),
     fo_usage = th_usage_index r, fo_last = th_last r\<rparr>"

type_synonym feet = "xnu_thread \<rightharpoonup> foot"

definition feet_of :: "scheduler \<Rightarrow> feet" where
  "feet_of s = (\<lambda>t. map_option foot_of (thread_of t s))"

definition tally :: "(xnu_thread \<Rightarrow> foot \<Rightarrow> bool) \<Rightarrow> feet \<Rightarrow> nat" where
  "tally P F = card {t. \<exists>f. F t = Some f \<and> P t f}"

lemma finite_holders: "finite (dom F) \<Longrightarrow> finite {t. \<exists>f. F t = Some f \<and> P t f}"
  by (rule finite_subset [of _ "dom F"]) auto

lemma tally_put:
  assumes "finite (dom F)"
  shows "tally P (F(t \<mapsto> f)) + of_bool (case F t of None \<Rightarrow> False | Some g \<Rightarrow> P t g) =
    tally P F + of_bool (P t f)"
proof -
  let ?A = "{u. \<exists>g. F u = Some g \<and> P u g}" and ?B = "{u. \<exists>g. (F(t \<mapsto> f)) u = Some g \<and> P u g}"
  have fin: "finite ?A" using assms by (rule finite_holders)
  have eq: "?B = (if P t f then insert t (?A - {t}) else ?A - {t})" by (auto split: if_splits)
  have "t \<in> ?A \<longleftrightarrow> (case F t of None \<Rightarrow> False | Some g \<Rightarrow> P t g)" by (auto split: option.split)
  moreover have "card (?A - {t}) + of_bool (t \<in> ?A) = card ?A"
    using fin card_gt_0_iff [of ?A] by (auto simp: card_Diff_singleton_if)
  ultimately show ?thesis unfolding tally_def eq using fin by (simp add: card.insert_remove)
qed

lemma tally_drop:
  assumes "finite (dom F)"
  shows "tally P (F(t := None)) + of_bool (case F t of None \<Rightarrow> False | Some g \<Rightarrow> P t g) = tally P F"
proof -
  let ?A = "{u. \<exists>g. F u = Some g \<and> P u g}"
  have fin: "finite ?A" using assms by (rule finite_holders)
  have eq: "{u. \<exists>g. (F(t := None)) u = Some g \<and> P u g} = ?A - {t}" by (auto split: if_splits)
  have "t \<in> ?A \<longleftrightarrow> (case F t of None \<Rightarrow> False | Some g \<Rightarrow> P t g)" by (auto split: option.split)
  moreover have "card (?A - {t}) + of_bool (t \<in> ?A) = card ?A"
    using fin card_gt_0_iff [of ?A] by (auto simp: card_Diff_singleton_if)
  ultimately show ?thesis unfolding tally_def eq by simp
qed

lemma tally_same:
  assumes "finite (dom F)" "F t = Some g" "P t f \<longleftrightarrow> P t g"
  shows "tally P (F(t \<mapsto> f)) = tally P F"
  using tally_put [OF assms(1), of P t f] assms(2,3) by simp

section \<open>Structure\<close>

definition queue_matches :: "feet \<Rightarrow> nat option \<Rightarrow> run_queue \<Rightarrow> bool" where
  "queue_matches F slot q \<longleftrightarrow> rq_ok q \<and>
    (\<forall>k. distinct (rq_queues q k) \<and>
      (\<forall>t. t \<in> set (rq_queues q k) \<longleftrightarrow>
        (\<exists>f key. F t = Some f \<and> fo_place f = Some (slot, int k, key)))) \<and>
    (\<forall>key. key \<in> set (rq_realtime q) \<longleftrightarrow>
      (\<exists>t f p. F t = Some f \<and> fo_place f = Some (slot, p, Some key)))"

definition places_ok :: "nat \<Rightarrow> feet \<Rightarrow> bool" where
  "places_ok n F \<longleftrightarrow> (\<forall>t f slot p key. F t = Some f \<longrightarrow> fo_place f = Some (slot, p, key) \<longrightarrow>
    (case slot of None \<Rightarrow> True | Some i \<Rightarrow> i < n) \<and> 0 \<le> p \<and> p < 128 \<and>
    (\<forall>k. key = Some k \<longrightarrow> snd (snd k) = t))"

definition queues_ok :: "nat \<Rightarrow> feet \<Rightarrow> scheduler \<Rightarrow> bool" where
  "queues_ok n F s \<longleftrightarrow> length (sc_locals s) = n \<and>
    queue_matches F None (sc_global s) \<and>
    (\<forall>i<n. queue_matches F (Some i) (sc_locals s ! i)) \<and> places_ok n F \<and>
    sc_runnable s = tally (\<lambda>_ f. fo_place f \<noteq> None) F"

definition counts_ok :: "feet \<Rightarrow> scheduler \<Rightarrow> bool" where
  "counts_ok F s \<longleftrightarrow>
    sc_host_awaits s = tally (\<lambda>_ f. fo_awaiting f) F \<and>
    (\<forall>b. sl_counts (sc_load s) b = tally (\<lambda>_ f. fo_state f \<noteq> Waiting \<and> fo_bucket f = b) F) \<and>
    (\<forall>p. tally (\<lambda>t f. process t = p \<and> is_runnable_state (fo_state f)) F =
      (case sc_process_runnable s p of None \<Rightarrow> 0 | Some c \<Rightarrow> c))"

definition deadline_index :: "(foot \<Rightarrow> u64 option) \<Rightarrow> feet \<Rightarrow> (u64 \<times> xnu_thread) list \<Rightarrow> bool" where
  "deadline_index deadline F entries \<longleftrightarrow> sorted entries \<and> distinct entries \<and>
    (\<forall>d t. (d, t) \<in> set entries \<longleftrightarrow> (\<exists>f. F t = Some f \<and> deadline f = Some d))"

definition usage_ok :: "feet \<Rightarrow> xnu_thread list \<Rightarrow> bool" where
  "usage_ok F records \<longleftrightarrow>
    (\<forall>i t. i < length records \<and> records ! i = t \<longleftrightarrow> (\<exists>f. F t = Some f \<and> fo_usage f = Some i))"

definition contexts_ok :: "nat \<Rightarrow> feet \<Rightarrow> xnu_thread option list \<Rightarrow> bool" where
  "contexts_ok n F contexts \<longleftrightarrow> length contexts = n \<and>
    (\<forall>i t. i < n \<longrightarrow> contexts ! i = Some t \<longrightarrow> (\<exists>f. F t = Some f \<and> fo_last f = Some i)) \<and>
    (\<forall>t f i. F t = Some f \<longrightarrow> fo_last f = Some i \<longrightarrow> i < n)"

definition indexes_ok :: "nat \<Rightarrow> feet \<Rightarrow> scheduler \<Rightarrow> bool" where
  "indexes_ok n F s \<longleftrightarrow> deadline_index fo_depression F (sc_depressions s) \<and>
    deadline_index fo_release F (sc_failsafes s) \<and> usage_ok F (sc_usage s) \<and>
    contexts_ok n F (sc_contexts s)"

definition processes_ok :: "feet \<Rightarrow> scheduler \<Rightarrow> bool" where
  "processes_ok F s \<longleftrightarrow>
    (\<forall>p. case sc_process_threads s p of
        None \<Rightarrow> (\<forall>t. F t \<noteq> None \<longrightarrow> process t \<noteq> p)
      | Some ts \<Rightarrow> ts \<noteq> [] \<and> sorted ts \<and> distinct ts \<and>
          (\<forall>t. t \<in> set ts \<longleftrightarrow> F t \<noteq> None \<and> process t = p)) \<and>
    (\<forall>t. F t \<noteq> None \<longrightarrow> sc_process_runnable s (process t) \<noteq> None \<and> sc_history s (process t) \<noteq> None)"

definition struct_ok :: "nat \<Rightarrow> scheduler \<Rightarrow> bool" where
  "struct_ok n s \<longleftrightarrow> ordered (sc_threads s) \<and> queues_ok n (feet_of s) s \<and>
    counts_ok (feet_of s) s \<and> indexes_ok n (feet_of s) s"

definition waiting_balance :: "scheduler \<Rightarrow> int" where
  "waiting_balance s = int (sc_waiting s) - int (tally (\<lambda>_ f. fo_state f = Waiting) (feet_of s))"

lemma finite_feet [simp]: "finite (dom (feet_of s))"
proof -
  have "dom (feet_of s) = dom (map_of (sc_threads s))" by (auto simp: feet_of_def thread_of_def)
  then show ?thesis by (simp add: finite_dom_map_of)
qed

lemma feet_at: "thread_of t s = Some r \<Longrightarrow> feet_of s t = Some (foot_of r)"
  by (simp add: feet_of_def)

lemma feet_put:
  "(\<lambda>u. thread_of u s') = (\<lambda>u. thread_of u s)(t \<mapsto> r) \<Longrightarrow> feet_of s' = (feet_of s)(t \<mapsto> foot_of r)"
  by (rule ext) (simp add: feet_of_def fun_eq_iff)

lemma thread_update:
  "thread_of t s = Some r \<Longrightarrow> (\<lambda>u. thread_of u (update t f s)) = (\<lambda>u. thread_of u s)(t \<mapsto> f r)"
  by (simp add: thread_of_def update_def map_of_modify fun_eq_iff)

lemma thread_update_at [simp]: "thread_of t s = Some r \<Longrightarrow> thread_of t (update t f s) = Some (f r)"
  by (simp add: thread_of_def update_def map_of_modify)

lemma update_fields [simp]:
  "sc_global (update t f s) = sc_global s" "sc_locals (update t f s) = sc_locals s"
  "sc_process_threads (update t f s) = sc_process_threads s"
  "sc_history (update t f s) = sc_history s" "sc_task_qos (update t f s) = sc_task_qos s"
  "sc_contexts (update t f s) = sc_contexts s"
  "sc_process_runnable (update t f s) = sc_process_runnable s"
  "sc_depressions (update t f s) = sc_depressions s" "sc_failsafes (update t f s) = sc_failsafes s"
  "sc_usage (update t f s) = sc_usage s" "sc_runnable (update t f s) = sc_runnable s"
  "sc_waiting (update t f s) = sc_waiting s" "sc_host_awaits (update t f s) = sc_host_awaits s"
  "sc_load (update t f s) = sc_load s" "sc_next_sequence (update t f s) = sc_next_sequence s"
  "sc_elapsed (update t f s) = sc_elapsed s" "sc_tick (update t f s) = sc_tick s"
  "sc_quantum (update t f s) = sc_quantum s" "sc_usage_shift (update t f s) = sc_usage_shift s"
  "ordered (sc_threads (update t f s)) = ordered (sc_threads s)"
  by (simp_all add: update_def)

text \<open>A change outside the footprint.\<close>

lemma update_struct:
  assumes "struct_ok n s" "thread_of t s = Some r" "foot_of (f r) = foot_of r"
  shows "struct_ok n (update t f s)" "waiting_balance (update t f s) = waiting_balance s"
proof -
  have "feet_of (update t f s) = feet_of s"
    using feet_put [OF thread_update [OF assms(2)], of f] feet_at [OF assms(2)] assms(3)
    by (simp add: fun_upd_idem)
  then show "struct_ok n (update t f s)" "waiting_balance (update t f s) = waiting_balance s"
    using assms(1)
    by (simp_all add: struct_ok_def queues_ok_def counts_ok_def indexes_ok_def waiting_balance_def)
qed

section \<open>Entering and leaving a run queue\<close>

lemma queue_of_ok:
  assumes "queues_ok n F s" "queue_of slot s = Some q"
  shows "queue_matches F slot q"
  using assms by (auto simp: queues_ok_def queue_of_def split: option.splits if_splits)

lemma queue_of_some: "queues_ok n F s \<Longrightarrow>
    (case slot of None \<Rightarrow> True | Some i \<Rightarrow> i < n) \<Longrightarrow> \<exists>q. queue_of slot s = Some q"
  by (auto simp: queues_ok_def queue_of_def split: option.splits)

lemma put_queue_fields [simp]:
  "sc_threads (put_queue slot q s) = sc_threads s"
  "sc_process_threads (put_queue slot q s) = sc_process_threads s"
  "sc_history (put_queue slot q s) = sc_history s" "sc_task_qos (put_queue slot q s) = sc_task_qos s"
  "sc_contexts (put_queue slot q s) = sc_contexts s"
  "sc_process_runnable (put_queue slot q s) = sc_process_runnable s"
  "sc_depressions (put_queue slot q s) = sc_depressions s"
  "sc_failsafes (put_queue slot q s) = sc_failsafes s"
  "sc_usage (put_queue slot q s) = sc_usage s" "sc_runnable (put_queue slot q s) = sc_runnable s"
  "sc_waiting (put_queue slot q s) = sc_waiting s"
  "sc_host_awaits (put_queue slot q s) = sc_host_awaits s" "sc_load (put_queue slot q s) = sc_load s"
  "sc_elapsed (put_queue slot q s) = sc_elapsed s" "sc_tick (put_queue slot q s) = sc_tick s"
  "thread_of t (put_queue slot q s) = thread_of t s"
  by (simp_all add: put_queue_def thread_of_def split: option.split)

lemma put_queue_ok:
  assumes old: "queues_ok n F s" and slot: "case slot of None \<Rightarrow> True | Some i \<Rightarrow> i < n"
    and new: "queue_matches F' slot q" and places: "places_ok n F'"
    and runnable: "sc_runnable s' = tally (\<lambda>_ f. fo_place f \<noteq> None) F'"
    and same: "sc_global s' = sc_global s" "sc_locals s' = sc_locals s"
    and others: "\<And>slot' q'. slot' \<noteq> slot \<Longrightarrow> queue_matches F slot' q' \<Longrightarrow> queue_matches F' slot' q'"
  shows "queues_ok n F' (put_queue slot q s')"
proof (cases slot)
  case None
  with assms show ?thesis by (simp add: queues_ok_def put_queue_def)
next
  case (Some i)
  with assms show ?thesis by (auto simp: queues_ok_def put_queue_def nth_list_update)
qed

lemma queue_matches_same:
  assumes "queue_matches F slot q" "F t = Some g"
    and "\<And>p key. fo_place g \<noteq> Some (slot, p, key)" "\<And>p key. fo_place f \<noteq> Some (slot, p, key)"
  shows "queue_matches (F(t \<mapsto> f)) slot q"
proof -
  have "(\<exists>f' key. (F(t \<mapsto> f)) u = Some f' \<and> fo_place f' = Some (slot, int k, key)) \<longleftrightarrow>
    (\<exists>f' key. F u = Some f' \<and> fo_place f' = Some (slot, int k, key))" for u k
    using assms(2-4) by auto
  moreover have "(\<exists>u f' p. (F(t \<mapsto> f)) u = Some f' \<and> fo_place f' = Some (slot, p, Some key)) \<longleftrightarrow>
    (\<exists>u f' p. F u = Some f' \<and> fo_place f' = Some (slot, p, Some key))" for key
    using assms(2-4) by (auto split: if_splits) (metis option.inject)
  ultimately show ?thesis using assms(1) by (simp add: queue_matches_def)
qed

lemma queue_matches_push:
  assumes q: "queue_matches F slot q" and t: "F t = Some g" "fo_place g = None"
    and f: "fo_place f = Some (slot, int p, key)" and p: "p < 128"
  shows "queue_matches (F(t \<mapsto> f)) slot (rq_push p front t key q)"
proof -
  let ?q = "rq_push p front t key q" and ?F = "F(t \<mapsto> f)"
  have ok: "rq_ok ?q" using q p rq_push_ok by (simp add: queue_matches_def)
  have out: "t \<notin> set (rq_queues q k)" for k using q t by (auto simp: queue_matches_def)
  have mem: "u \<in> set (rq_queues ?q k) \<longleftrightarrow> u \<in> set (rq_queues q k) \<or> (u = t \<and> k = p)" for u k by auto
  have old: "u \<in> set (rq_queues q k) \<longleftrightarrow> (\<exists>f key. F u = Some f \<and> fo_place f = Some (slot, int k, key))" for u k
    using q by (simp add: queue_matches_def)
  have lists: "distinct (rq_queues ?q k) \<and> (u \<in> set (rq_queues ?q k) \<longleftrightarrow>
      (\<exists>f' key. ?F u = Some f' \<and> fo_place f' = Some (slot, int k, key)))" for u k
    using q out t f unfolding mem old by (auto simp: queue_matches_def)
  have "(\<exists>u f' p. ?F u = Some f' \<and> fo_place f' = Some (slot, p, Some k)) \<longleftrightarrow>
    key = Some k \<or> (\<exists>u f' p. F u = Some f' \<and> fo_place f' = Some (slot, p, Some k))" for k
    using t f by (auto split: if_splits) (metis option.distinct(1) option.inject)
  then have "k \<in> set (rq_realtime ?q) \<longleftrightarrow>
      (\<exists>u f' p. ?F u = Some f' \<and> fo_place f' = Some (slot, p, Some k))" for k
    using q by (auto simp: queue_matches_def set_insort_insert simp del: split_paired_All split_paired_Ex
      split: option.split)
  with ok lists show ?thesis by (simp add: queue_matches_def)
qed

lemma queue_matches_pull:
  assumes q: "queue_matches F slot q" and t: "F t = Some g" "fo_place g = Some (slot, p, key)"
    and f: "fo_place f = None" and places: "places_ok n F"
  shows "queue_matches (F(t \<mapsto> f)) slot (rq_pull (nat p) t key q)"
proof -
  let ?q = "rq_pull (nat p) t key q" and ?F = "F(t \<mapsto> f)"
  have "0 \<le> p" "p < 128" using places t by (auto simp: places_ok_def)
  then have p: "0 \<le> p" "nat p < 128" by simp_all
  have old: "u \<in> set (rq_queues q k) \<longleftrightarrow> (\<exists>f key. F u = Some f \<and> fo_place f = Some (slot, int k, key))" for u k
    using q by (simp add: queue_matches_def)
  have inside: "t \<in> set (rq_queues q (nat p))" using t p unfolding old by auto
  have ok: "rq_ok ?q" using q p inside rq_pull_ok by (simp add: queue_matches_def)
  have dist: "distinct (rq_queues q k)" for k using q by (simp add: queue_matches_def)
  have mem: "u \<in> set (rq_queues ?q k) \<longleftrightarrow> u \<in> set (rq_queues q k) \<and> u \<noteq> t" for u k
    using dist [of k] t p unfolding rq_pull_fields by (auto simp: old)
  have lists: "distinct (rq_queues ?q k) \<and> (u \<in> set (rq_queues ?q k) \<longleftrightarrow>
      (\<exists>f' key. ?F u = Some f' \<and> fo_place f' = Some (slot, int k, key)))" for u k
    using dist t f unfolding mem old by auto
  have keys: "k \<in> set (rq_realtime q) \<longleftrightarrow> (\<exists>u f' p. F u = Some f' \<and> fo_place f' = Some (slot, p, Some k))" for k
    using q by (simp add: queue_matches_def del: split_paired_All)
  have owner: "u = snd (snd k)" if "F u = Some f'" "fo_place f' = Some (slot', p', Some k)" for u f' p' k slot'
    using places that unfolding places_ok_def by blast
  have "distinct (rq_realtime q)" using q by (simp add: queue_matches_def rq_ok_def)
  then have "k \<in> set (rq_realtime ?q) \<longleftrightarrow> k \<in> set (rq_realtime q) \<and> key \<noteq> Some k" for k
    by (auto split: option.split)
  moreover have "(\<exists>u f' p. ?F u = Some f' \<and> fo_place f' = Some (slot, p, Some k)) \<longleftrightarrow>
    (\<exists>u f' p. F u = Some f' \<and> fo_place f' = Some (slot, p, Some k)) \<and> key \<noteq> Some k" for k
  proof
    assume "\<exists>u f' p. ?F u = Some f' \<and> fo_place f' = Some (slot, p, Some k)"
    then obtain u f' p' where u: "u \<noteq> t" "F u = Some f'" "fo_place f' = Some (slot, p', Some k)"
      using f by (auto split: if_splits)
    have "key \<noteq> Some k"
    proof
      assume "key = Some k"
      then have "fo_place g = Some (slot, p, Some k)" using t(2) by simp
      with owner [OF t(1) this] owner [OF u(2,3)] u(1) show False by simp
    qed
    with u show "(\<exists>u f' p. F u = Some f' \<and> fo_place f' = Some (slot, p, Some k)) \<and> key \<noteq> Some k" by blast
  next
    assume "(\<exists>u f' p. F u = Some f' \<and> fo_place f' = Some (slot, p, Some k)) \<and> key \<noteq> Some k"
    then obtain u f' p' where u: "F u = Some f'" "fo_place f' = Some (slot, p', Some k)" "key \<noteq> Some k" by blast
    then have "u \<noteq> t" using t by auto
    with u show "\<exists>u f' p. ?F u = Some f' \<and> fo_place f' = Some (slot, p, Some k)" by auto
  qed
  ultimately have "k \<in> set (rq_realtime ?q) \<longleftrightarrow>
      (\<exists>u f' p. ?F u = Some f' \<and> fo_place f' = Some (slot, p, Some k))" for k
    by (simp add: keys)
  with ok lists show ?thesis by (simp add: queue_matches_def)
qed

lemma places_ok_put:
  "places_ok n F \<Longrightarrow> (\<And>slot p key. fo_place f = Some (slot, p, key) \<Longrightarrow>
     (case slot of None \<Rightarrow> True | Some i \<Rightarrow> i < n) \<and> 0 \<le> p \<and> p < 128 \<and>
     (\<forall>k. key = Some k \<longrightarrow> snd (snd k) = t)) \<Longrightarrow> places_ok n (F(t \<mapsto> f))"
  unfolding places_ok_def by (simp del: split_paired_All)

lemma counts_ok_put:
  assumes "counts_ok F s" "finite (dom F)" "F t = Some g"
    and "fo_state f = fo_state g" "fo_bucket f = fo_bucket g" "fo_awaiting f = fo_awaiting g"
    and "sc_host_awaits s' = sc_host_awaits s" "sc_load s' = sc_load s"
      "sc_process_runnable s' = sc_process_runnable s"
  shows "counts_ok (F(t \<mapsto> f)) s'"
  using assms tally_same [OF assms(2,3)] by (simp add: counts_ok_def)

lemma ex_put_same:
  "F t = Some g \<Longrightarrow> P f \<longleftrightarrow> P g \<Longrightarrow> (\<exists>h. (F(t \<mapsto> f)) u = Some h \<and> P h) \<longleftrightarrow> (\<exists>h. F u = Some h \<and> P h)"
  by auto

lemma deadline_index_same:
  "deadline_index deadline F l \<Longrightarrow> F t = Some g \<Longrightarrow> deadline f = deadline g \<Longrightarrow>
    deadline_index deadline (F(t \<mapsto> f)) l"
  using ex_put_same [of F t g "\<lambda>h. deadline h = Some d" f for d] by (simp add: deadline_index_def)

lemma deadline_index_clear:
  assumes "deadline_index deadline F l" "F t = Some g" "deadline f = None"
  shows "deadline_index deadline (F(t \<mapsto> f)) (case deadline g of None \<Rightarrow> l | Some d \<Rightarrow> remove1 (d, t) l)"
  using assms by (auto simp: deadline_index_def sorted_remove1 split: option.split)

lemma deadline_index_drop:
  assumes "deadline_index deadline F l" "F t = Some g"
  shows "deadline_index deadline (F(t := None)) (case deadline g of None \<Rightarrow> l | Some d \<Rightarrow> remove1 (d, t) l)"
  using assms by (auto simp: deadline_index_def sorted_remove1 split: option.split)

lemma deadline_index_set:
  assumes "deadline_index deadline F l" "F t = Some g" "deadline g = None" "deadline f = Some d"
  shows "deadline_index deadline (F(t \<mapsto> f)) (insort_insert (d, t) l)"
  using assms
  by (auto simp: deadline_index_def sorted_insort_insert distinct_insort_insert set_insort_insert)

lemma usage_ok_same:
  "usage_ok F l \<Longrightarrow> F t = Some g \<Longrightarrow> fo_usage f = fo_usage g \<Longrightarrow> usage_ok (F(t \<mapsto> f)) l"
  using ex_put_same [of F t g "\<lambda>h. fo_usage h = Some d" f for d] by (simp add: usage_ok_def)

lemma contexts_ok_same:
  assumes "contexts_ok n F l" "F t = Some g" "fo_last f = fo_last g"
  shows "contexts_ok n (F(t \<mapsto> f)) l"
  using assms by (auto simp: contexts_ok_def)

lemma indexes_ok_put:
  assumes "indexes_ok n F s" "F t = Some g"
    and "fo_depression f = fo_depression g" "fo_release f = fo_release g" "fo_usage f = fo_usage g"
      "fo_last f = fo_last g"
    and "sc_depressions s' = sc_depressions s" "sc_failsafes s' = sc_failsafes s"
      "sc_usage s' = sc_usage s" "sc_contexts s' = sc_contexts s"
  shows "indexes_ok n (F(t \<mapsto> f)) s'"
  using assms deadline_index_same [where F = F and t = t and g = g and f = f]
    usage_ok_same [where F = F and t = t and g = g and f = f]
    contexts_ok_same [where F = F and t = t and g = g and f = f]
  by (simp add: indexes_ok_def)

text \<open>What is left of the scheduler without the run queues, the threads and the load.\<close>

definition rest :: "scheduler \<Rightarrow> scheduler" where
  "rest s = s\<lparr>sc_global := empty_run_queue, sc_locals := [], sc_threads := [], sc_runnable := 0,
     sc_next_sequence := 0, sc_load := sc_load s\<lparr>sl_counts := (\<lambda>_. 0)\<rparr>,
     sc_process_runnable := Map.empty\<rparr>"

lemma rest_fields:
  assumes "rest s' = rest s"
  shows "sc_waiting s' = sc_waiting s" "sc_depressions s' = sc_depressions s"
    "sc_failsafes s' = sc_failsafes s" "sc_usage s' = sc_usage s"
    "sc_process_threads s' = sc_process_threads s" "sc_history s' = sc_history s"
    "sc_contexts s' = sc_contexts s" "sc_host_awaits s' = sc_host_awaits s"
    "sc_elapsed s' = sc_elapsed s" "sc_tick s' = sc_tick s" "sc_quantum s' = sc_quantum s"
    "sc_tick_ticks s' = sc_tick_ticks s" "sc_minimum_user s' = sc_minimum_user s"
    "sc_realtime_clock s' = sc_realtime_clock s" "sc_since_tick s' = sc_since_tick s"
    "sc_task_qos s' = sc_task_qos s" "sc_rate s' = sc_rate s"
  using arg_cong [OF assms, of sc_waiting] arg_cong [OF assms, of sc_depressions]
    arg_cong [OF assms, of sc_failsafes] arg_cong [OF assms, of sc_usage]
    arg_cong [OF assms, of sc_process_threads] arg_cong [OF assms, of sc_history]
    arg_cong [OF assms, of sc_contexts] arg_cong [OF assms, of sc_host_awaits]
    arg_cong [OF assms, of sc_elapsed] arg_cong [OF assms, of sc_tick]
    arg_cong [OF assms, of sc_quantum] arg_cong [OF assms, of sc_tick_ticks]
    arg_cong [OF assms, of sc_minimum_user] arg_cong [OF assms, of sc_realtime_clock]
    arg_cong [OF assms, of sc_since_tick] arg_cong [OF assms, of sc_task_qos]
    arg_cong [OF assms, of sc_rate]
  by (simp_all add: rest_def)

lemma rest_update [simp]: "rest (update t f s) = rest s"
  by (simp add: rest_def update_def)

lemma rest_put_queue [simp]: "rest (put_queue slot q s) = rest s"
  by (simp add: rest_def put_queue_def split: option.split)

definition queue_key :: "xnu_thread \<Rightarrow> scheduler \<Rightarrow> thread_record \<Rightarrow> realtime_key option" where
  "queue_key t s r = (if th_realtime r \<and> realtime_queue_priority \<le> th_scheduled r
     then Some (th_deadline r, sc_next_sequence s, t) else None)"

definition enqueued :: "bool \<Rightarrow> xnu_thread \<Rightarrow> scheduler \<Rightarrow> thread_record \<Rightarrow> thread_record" where
  "enqueued front t s r = r\<lparr>th_sequence := sc_next_sequence s,
     th_runnable_sequence := (if th_runnable_sequence r = 0 then sc_next_sequence s + 1
       else th_runnable_sequence r),
     th_key := queue_key t s r, th_queued := True, th_queued_priority := th_scheduled r,
     th_front := front, th_queued_processor := th_bound r\<rparr>"

definition slot_ok :: "nat \<Rightarrow> nat option \<Rightarrow> bool" where
  "slot_ok n slot \<longleftrightarrow> (case slot of None \<Rightarrow> True | Some i \<Rightarrow> i < n)"

lemma update_const:
  assumes "ordered (sc_threads s)" "thread_of t s = Some r"
  shows "update t f s = update t (\<lambda>_. f r) s"
proof -
  have "(t, r) \<in> set (sc_threads s)" using assms by (simp add: thread_of_def map_of_iff)
  then have "v = r" if "(t, v) \<in> set (sc_threads s)" for v
    using ordered_unique [OF assms(1) that] by blast
  then have "modify t f (sc_threads s) = modify t (\<lambda>_. f r) (sc_threads s)"
    unfolding modify_def by auto
  then show ?thesis by (simp add: update_def)
qed

lemma struct_ordered: "struct_ok n s \<Longrightarrow> ordered (sc_threads s)"
  by (simp add: struct_ok_def)

lemma foot_enqueued:
  "foot_of (enqueued front t s r) =
    (foot_of r)\<lparr>fo_place := Some (th_bound r, th_scheduled r, queue_key t s r)\<rparr>"
  by (simp add: foot_of_def enqueued_def)

lemma enqueue_ok:
  assumes s: "struct_ok n s" and t: "thread_of t s = Some r"
    and r: "\<not> th_queued r" "th_key r = None" "slot_ok n (th_bound r)"
      "0 \<le> th_scheduled r" "th_scheduled r < 128"
  shows "\<exists>s'. enqueue front t s = Some s' \<and> struct_ok n s' \<and>
    (\<lambda>u. thread_of u s') = (\<lambda>u. thread_of u s)(t \<mapsto> enqueued front t s r) \<and> rest s' = rest s \<and>
    sc_process_runnable s' = sc_process_runnable s"
proof -
  let ?F = "feet_of s" and ?f = "foot_of (enqueued front t s r)" and ?p = "nat (th_scheduled r)"
  have Q: "queues_ok n ?F s" using s by (simp add: struct_ok_def)
  obtain q where q: "queue_of (th_bound r) s = Some q"
    using queue_of_some [OF Q] r(3) unfolding slot_ok_def by blast
  have m: "queue_matches ?F (th_bound r) q" using Q q by (rule queue_of_ok)
  have Ft: "?F t = Some (foot_of r)" using t by (rule feet_at)
  have none: "fo_place (foot_of r) = None" using r(1) by (simp add: foot_of_def)
  have place: "fo_place ?f = Some (th_bound r, int ?p, queue_key t s r)"
    using r(4) by (simp add: foot_enqueued)
  define s1 where "s1 = (update t (\<lambda>_. enqueued front t s r) s)
    \<lparr>sc_next_sequence := sc_next_sequence s + 1, sc_runnable := sc_runnable s + 1\<rparr>"
  define s' where "s' = put_queue (th_bound r) (rq_push ?p front t (queue_key t s r) q) s1"
  have result: "enqueue front t s = Some s'"
    unfolding s'_def s1_def enqueue_def t q
    by (simp add: Let_def r update_const [OF struct_ordered [OF s] t, of "\<lambda>r. r\<lparr>th_sequence := a,
          th_runnable_sequence := b r, th_key := c r, th_queued := d,
          th_queued_priority := e, th_front := g, th_queued_processor := h r\<rparr>" for a b c d e g h]
        enqueued_def queue_key_def q)
  have threads: "(\<lambda>u. thread_of u s') = (\<lambda>u. thread_of u s)(t \<mapsto> enqueued front t s r)"
    using thread_update [OF t, of "\<lambda>_. enqueued front t s r"]
    by (simp add: s'_def s1_def thread_of_def fun_eq_iff)
  then have feet: "feet_of s' = ?F(t \<mapsto> ?f)" by (rule feet_put)
  have places: "places_ok n (?F(t \<mapsto> ?f))"
    using Q r place unfolding queues_ok_def
    by (intro places_ok_put) (auto simp: queue_key_def slot_ok_def split: if_splits)
  have "sc_runnable s1 = tally (\<lambda>_ f. fo_place f \<noteq> None) (?F(t \<mapsto> ?f))"
    using tally_put [of ?F "\<lambda>_ f. fo_place f \<noteq> None" t ?f] Q Ft none place
    by (simp add: s1_def queues_ok_def)
  then have "queues_ok n (?F(t \<mapsto> ?f)) s'"
    unfolding s'_def using r(3) place queue_matches_push [OF m Ft none place] none r(4,5)
    by (intro put_queue_ok [OF Q _ _ places])
      (auto simp: s1_def slot_ok_def intro!: queue_matches_same [where F = "feet_of s" and t = t and g = "foot_of r", OF _ Ft])
  moreover have "counts_ok (?F(t \<mapsto> ?f)) s'"
    using s by (intro counts_ok_put [where F = "feet_of s" and t = t and g = "foot_of r" and s = s, OF _ _ Ft]) (auto simp: struct_ok_def foot_enqueued s'_def s1_def)
  moreover have "indexes_ok n (?F(t \<mapsto> ?f)) s'"
    using s by (intro indexes_ok_put [where F = "feet_of s" and t = t and g = "foot_of r" and s = s, OF _ Ft]) (auto simp: struct_ok_def foot_enqueued s'_def s1_def)
  moreover have "ordered (sc_threads s')" using s by (simp add: struct_ok_def s'_def s1_def)
  ultimately have "struct_ok n s'" by (simp add: struct_ok_def feet)
  moreover have "rest s' = rest s"
    unfolding s'_def rest_put_queue by (simp add: s1_def rest_def update_def)
  moreover have "sc_process_runnable s' = sc_process_runnable s" by (simp add: s'_def s1_def)
  ultimately show ?thesis using result threads by blast
qed

definition dequeued :: "thread_record \<Rightarrow> thread_record" where
  "dequeued r = r\<lparr>th_key := None, th_queued := False, th_queued_processor := None\<rparr>"

lemma foot_dequeued: "foot_of (dequeued r) = (foot_of r)\<lparr>fo_place := None\<rparr>"
  by (simp add: foot_of_def dequeued_def)

lemma remove_from_queue_ok:
  assumes s: "struct_ok n s" and t: "thread_of t s = Some r" and r: "th_queued r"
  shows "\<exists>s'. remove_from_queue t s = Some s' \<and> struct_ok n s' \<and>
    (\<lambda>u. thread_of u s') = (\<lambda>u. thread_of u s)(t \<mapsto> dequeued r) \<and> rest s' = rest s \<and>
    sc_process_runnable s' = sc_process_runnable s"
proof -
  let ?F = "feet_of s" and ?f = "foot_of (dequeued r)" and ?slot = "th_queued_processor r"
  have Q: "queues_ok n ?F s" using s by (simp add: struct_ok_def)
  have Ft: "?F t = Some (foot_of r)" using t by (rule feet_at)
  have place: "fo_place (foot_of r) = Some (?slot, th_queued_priority r, th_key r)"
    using r by (simp add: foot_of_def)
  have P: "places_ok n ?F" using Q by (simp add: queues_ok_def)
  then have slot: "case ?slot of None \<Rightarrow> True | Some i \<Rightarrow> i < n"
    using Ft place unfolding places_ok_def by blast
  obtain q where q: "queue_of ?slot s = Some q" using queue_of_some [OF Q slot] by blast
  have m: "queue_matches ?F ?slot q" using Q q by (rule queue_of_ok)
  have none: "fo_place ?f = None" by (simp add: foot_dequeued)
  define s1 where "s1 = (update t (\<lambda>_. dequeued r) s)\<lparr>sc_runnable := sc_runnable s - 1\<rparr>"
  define s' where "s' = put_queue ?slot (rq_pull (nat (th_queued_priority r)) t (th_key r) q) s1"
  have result: "remove_from_queue t s = Some s'"
    unfolding s'_def s1_def remove_from_queue_def t q
    by (simp add: Let_def r update_const [OF struct_ordered [OF s] t, of "\<lambda>r. r\<lparr>th_key := a,
          th_queued := b, th_queued_processor := c\<rparr>" for a b c] dequeued_def q)
  have threads: "(\<lambda>u. thread_of u s') = (\<lambda>u. thread_of u s)(t \<mapsto> dequeued r)"
    using thread_update [OF t, of "\<lambda>_. dequeued r"] by (simp add: s'_def s1_def thread_of_def fun_eq_iff)
  then have feet: "feet_of s' = ?F(t \<mapsto> ?f)" by (rule feet_put)
  have places: "places_ok n (?F(t \<mapsto> ?f))" using P none by (intro places_ok_put) simp_all
  have "sc_runnable s1 = tally (\<lambda>_ f. fo_place f \<noteq> None) (?F(t \<mapsto> ?f))"
    using tally_put [of ?F "\<lambda>_ f. fo_place f \<noteq> None" t ?f] Q Ft none place
    by (simp add: s1_def queues_ok_def)
  then have "queues_ok n (?F(t \<mapsto> ?f)) s'"
    unfolding s'_def using slot queue_matches_pull [OF m Ft place none P] place none
    by (intro put_queue_ok [OF Q _ _ places])
      (auto simp: s1_def intro!: queue_matches_same [where F = "feet_of s" and t = t and g = "foot_of r", OF _ Ft])
  moreover have "counts_ok (?F(t \<mapsto> ?f)) s'"
    using s by (intro counts_ok_put [where F = "feet_of s" and t = t and g = "foot_of r" and s = s, OF _ _ Ft]) (auto simp: struct_ok_def foot_dequeued s'_def s1_def)
  moreover have "indexes_ok n (?F(t \<mapsto> ?f)) s'"
    using s by (intro indexes_ok_put [where F = "feet_of s" and t = t and g = "foot_of r" and s = s, OF _ Ft]) (auto simp: struct_ok_def foot_dequeued s'_def s1_def)
  moreover have "ordered (sc_threads s')" using s by (simp add: struct_ok_def s'_def s1_def)
  ultimately have "struct_ok n s'" by (simp add: struct_ok_def feet)
  moreover have "rest s' = rest s"
    unfolding s'_def rest_put_queue by (simp add: s1_def rest_def update_def)
  moreover have "sc_process_runnable s' = sc_process_runnable s" by (simp add: s'_def s1_def)
  ultimately show ?thesis using result threads by blast
qed

section \<open>States\<close>

lemma balance_put:
  assumes "thread_of t s = Some r" "(\<lambda>u. thread_of u s') = (\<lambda>u. thread_of u s)(t \<mapsto> r')"
  shows "waiting_balance s' = waiting_balance s + int (sc_waiting s') - int (sc_waiting s) +
    of_bool (th_state r = Waiting) - of_bool (th_state r' = Waiting)"
  using tally_put [OF finite_feet, of "\<lambda>_ f. fo_state f = Waiting" s t "foot_of r'"]
    feet_at [OF assms(1)] feet_put [OF assms(2)]
  by (simp add: waiting_balance_def foot_of_def of_bool_def split: if_splits)

lemma queues_ok_put:
  assumes "queues_ok n F s" "finite (dom F)" "F t = Some g" "fo_place f = fo_place g"
    and "sc_global s' = sc_global s" "sc_locals s' = sc_locals s" "sc_runnable s' = sc_runnable s"
  shows "queues_ok n (F(t \<mapsto> f)) s'"
proof -
  have "(\<exists>h key. (F(t \<mapsto> f)) u = Some h \<and> fo_place h = Some (slot, int k, key)) \<longleftrightarrow>
    (\<exists>h key. F u = Some h \<and> fo_place h = Some (slot, int k, key))" for u slot k
    using assms(3,4) by auto
  moreover have "(\<exists>u h p. (F(t \<mapsto> f)) u = Some h \<and> fo_place h = Some (slot, p, Some key)) \<longleftrightarrow>
    (\<exists>u h p. F u = Some h \<and> fo_place h = Some (slot, p, Some key))" for slot key
    using assms(3,4) by (auto split: if_splits) (metis option.inject)
  ultimately have "queue_matches (F(t \<mapsto> f)) slot q = queue_matches F slot q" for slot q
    by (simp add: queue_matches_def)
  moreover have "places_ok n (F(t \<mapsto> f))"
  proof (rule places_ok_put)
    show ok: "places_ok n F" using assms(1) by (simp add: queues_ok_def)
    show "(case slot of None \<Rightarrow> True | Some i \<Rightarrow> i < n) \<and> 0 \<le> p \<and> p < 128 \<and>
        (\<forall>k. key = Some k \<longrightarrow> snd (snd k) = t)" if "fo_place f = Some (slot, p, key)" for slot p key
      using ok assms(3,4) that unfolding places_ok_def by (metis (no_types, lifting))
  qed
  ultimately show ?thesis
    using assms(1,5-7) tally_same [OF assms(2,3)] assms(4) by (simp add: queues_ok_def)
qed

lemma struct_put:
  assumes s: "struct_ok n s" and t: "thread_of t s = Some r"
    and threads: "(\<lambda>u. thread_of u s') = (\<lambda>u. thread_of u s)(t \<mapsto> r')"
    and place: "fo_place (foot_of r') = fo_place (foot_of r)"
    and same: "sc_global s' = sc_global s" "sc_locals s' = sc_locals s" "sc_runnable s' = sc_runnable s"
      "ordered (sc_threads s')"
    and counts: "counts_ok ((feet_of s)(t \<mapsto> foot_of r')) s'"
    and indexes: "indexes_ok n ((feet_of s)(t \<mapsto> foot_of r')) s'"
  shows "struct_ok n s'"
  using s queues_ok_put [OF _ finite_feet feet_at [OF t] place same(1-3)] counts indexes same(4)
  unfolding struct_ok_def feet_put [OF threads] by blast

lemma transition_state_ok:
  assumes s: "struct_ok n s" and t: "thread_of t s = Some r"
  shows "\<exists>s'. transition_state st t s = Some s' \<and> struct_ok n s' \<and>
    (\<lambda>u. thread_of u s') = (\<lambda>u. thread_of u s)(t \<mapsto> r\<lparr>th_state := st\<rparr>) \<and> rest s' = rest s \<and>
    (\<forall>p. sc_process_runnable s p \<noteq> None \<longrightarrow> sc_process_runnable s' p \<noteq> None)"
proof -
  let ?F = "feet_of s" and ?r = "r\<lparr>th_state := st\<rparr>" and ?c = "sc_process_runnable s"
  let ?p = "process t"
  define f where "f = foot_of ?r"
  have Ft: "?F t = Some (foot_of r)" using t by (rule feet_at)
  have foot: "f = (foot_of r)\<lparr>fo_state := st\<rparr>" by (simp add: f_def foot_of_def)
  have C: "counts_ok ?F s" using s by (simp add: struct_ok_def)
  define load where "load = transition_load r st (sc_load s)"
  define was where "was = is_runnable_state (th_state r)"
  define now where "now = is_runnable_state st"
  let ?n = "\<lambda>p. tally (\<lambda>t f. process t = p \<and> is_runnable_state (fo_state f))"
  have put: "?n p (?F(t \<mapsto> f)) + of_bool (?p = p \<and> was) = ?n p ?F + of_bool (?p = p \<and> now)" for p
    using tally_put [OF finite_feet, of "\<lambda>t f. process t = p \<and> is_runnable_state (fo_state f)" s t f] Ft
    by (simp add: foot was_def now_def foot_of_def)
  have cnt: "?n p ?F = (case ?c p of None \<Rightarrow> 0 | Some c \<Rightarrow> c)" for p using C by (simp add: counts_ok_def)
  obtain c' where c': "(if was = now then Some ?c
       else if now then Some (?c(?p \<mapsto> (case ?c ?p of None \<Rightarrow> 0 | Some c \<Rightarrow> c) + 1))
       else case ?c ?p of None \<Rightarrow> None
         | Some c \<Rightarrow> if c = 0 then None else Some (?c(?p \<mapsto> c - 1))) = Some c'"
      "\<And>p. ?n p (?F(t \<mapsto> f)) = (case c' p of None \<Rightarrow> 0 | Some c \<Rightarrow> c)"
      "\<And>p. ?c p \<noteq> None \<Longrightarrow> c' p \<noteq> None"
  proof (cases "was = now")
    case True
    with put cnt show ?thesis by (intro that [of ?c]) simp_all
  next
    case False
    show ?thesis
    proof (cases now)
      case True
      have eq: "?n p (?F(t \<mapsto> f)) = ?n p ?F + of_bool (?p = p)" for p
        using put [of p] False True by simp
      show ?thesis
        using False True eq cnt
        by (intro that [of "?c(?p \<mapsto> (case ?c ?p of None \<Rightarrow> 0 | Some c \<Rightarrow> c) + 1)"]) auto
    next
      case gone: False
      with False have eq: "?n p (?F(t \<mapsto> f)) + of_bool (?p = p) = ?n p ?F" for p using put [of p] by simp
      from eq [of ?p] cnt [of ?p] obtain c where c: "?c ?p = Some c" "c \<noteq> 0"
        by (cases "?c ?p") auto
      have "?n p (?F(t \<mapsto> f)) = (case (?c(?p \<mapsto> c - 1)) p of None \<Rightarrow> 0 | Some c \<Rightarrow> c)" for p
        using eq [of p] cnt [of p] c by (cases "p = ?p") auto
      with False gone c show ?thesis by (intro that [of "?c(?p \<mapsto> c - 1)"]) auto
    qed
  qed
  define s' where "s' = update t (\<lambda>_. ?r) (s\<lparr>sc_load := load, sc_process_runnable := c'\<rparr>)"
  have "transition_state st t s = Some s'"
  proof -
    have const: "update t (\<lambda>r. r\<lparr>th_state := st\<rparr>) (s\<lparr>sc_load := l, sc_process_runnable := c\<rparr>) =
        update t (\<lambda>_. ?r) (s\<lparr>sc_load := l, sc_process_runnable := c\<rparr>)" for l c
      using s t by (intro update_const) (simp_all add: struct_ok_def thread_of_def)
    have same: "s\<lparr>sc_load := l\<rparr> = s\<lparr>sc_load := l, sc_process_runnable := ?c\<rparr>" for l by simp
    show ?thesis
      using c'(1) unfolding transition_state_def t s'_def load_def [symmetric] was_def [symmetric] now_def [symmetric]
      by (auto simp: Let_def const load_def was_def now_def const [of ?c, simplified]
          split: if_splits option.splits)
  qed
  moreover have threads: "(\<lambda>u. thread_of u s') = (\<lambda>u. thread_of u s)(t \<mapsto> ?r)"
    using thread_update [of t "s\<lparr>sc_load := load, sc_process_runnable := c'\<rparr>" r "\<lambda>_. ?r"] t
    by (simp add: s'_def thread_of_def fun_eq_iff)
  moreover have "struct_ok n s'"
  proof (rule struct_put [OF s t threads])
    have "sl_counts load b = tally (\<lambda>_ f. fo_state f \<noteq> Waiting \<and> fo_bucket f = b) (?F(t \<mapsto> f))" for b
    proof -
      have "sl_counts (sc_load s) b = tally (\<lambda>_ f. fo_state f \<noteq> Waiting \<and> fo_bucket f = b) ?F"
        using C by (simp add: counts_ok_def)
      with tally_put [OF finite_feet, of "\<lambda>_ f. fo_state f \<noteq> Waiting \<and> fo_bucket f = b" s t f] Ft
      show ?thesis
        by (auto simp: load_def transition_load_def Let_def load_enter_def load_leave_def foot foot_of_def
            split: if_splits)
    qed
    moreover have "tally (\<lambda>_ f. fo_awaiting f) (?F(t \<mapsto> f)) = tally (\<lambda>_ f. fo_awaiting f) ?F"
      by (rule tally_same [OF finite_feet Ft]) (simp add: foot foot_of_def)
    ultimately show "counts_ok (?F(t \<mapsto> foot_of ?r)) s'"
      using C c'(2) by (simp add: counts_ok_def s'_def f_def)
    show "indexes_ok n (?F(t \<mapsto> foot_of ?r)) s'"
      using s unfolding f_def [symmetric]
      by (intro indexes_ok_put [where F = ?F and t = t and g = "foot_of r" and s = s, OF _ Ft])
        (auto simp: struct_ok_def foot s'_def foot_of_def)
  qed (use s in \<open>simp_all add: s'_def struct_ok_def foot_of_def\<close>)
  moreover have "rest s' = rest s"
    by (simp add: s'_def rest_def update_def load_def transition_load_def Let_def load_enter_def load_leave_def)
  ultimately show ?thesis using c'(3) by (auto simp: s'_def)
qed

end
