(* ===== verification/Scheduler_Records.thy ===== *)
theory Scheduler_Records
  imports Scheduler_Structure
begin

text \<open>
  The invariant of one thread record of the guest scheduler, and the steps that change one
  record: each keeps the structure, and what it makes of the record is known exactly.
\<close>

section \<open>Changing one record\<close>

definition steps ::
  "nat \<Rightarrow> xnu_thread \<Rightarrow> thread_record \<Rightarrow> scheduler \<Rightarrow> scheduler \<Rightarrow> bool" where
  "steps n t r' s s' \<longleftrightarrow> struct_ok n s' \<and>
    (\<lambda>u. thread_of u s') = (\<lambda>u. thread_of u s)(t \<mapsto> r') \<and> rest s' = rest s \<and>
    (\<forall>p. sc_process_runnable s p \<noteq> None \<longrightarrow> sc_process_runnable s' p \<noteq> None)"

lemma stepsD:
  assumes "steps n t r' s s'"
  shows "struct_ok n s'" "thread_of t s' = Some r'" "u \<noteq> t \<Longrightarrow> thread_of u s' = thread_of u s"
    "rest s' = rest s" "(\<lambda>u. thread_of u s') = (\<lambda>u. thread_of u s)(t \<mapsto> r')"
    "sc_process_runnable s p \<noteq> None \<Longrightarrow> sc_process_runnable s' p \<noteq> None"
  using assms fun_cong [of "\<lambda>u. thread_of u s'" "(\<lambda>u. thread_of u s)(t \<mapsto> r')"]
  by (auto simp: steps_def)

lemma steps_trans: "steps n t r1 s s1 \<Longrightarrow> steps n t r2 s1 s2 \<Longrightarrow> steps n t r2 s s2"
  by (simp add: steps_def)

lemma steps_refl: "struct_ok n s \<Longrightarrow> thread_of t s = Some r \<Longrightarrow> steps n t r s s"
  by (auto simp: steps_def fun_eq_iff)

lemma steps_update:
  assumes "struct_ok n s" "thread_of t s = Some r" "foot_of (f r) = foot_of r"
  shows "steps n t (f r) s (update t f s)"
  using update_struct [where f = f, OF assms] thread_update [OF assms(2)] by (simp add: steps_def)

lemma steps_enqueue:
  assumes "struct_ok n s" "thread_of t s = Some r" "\<not> th_queued r" "th_key r = None"
    "slot_ok n (th_bound r)" "0 \<le> th_scheduled r" "th_scheduled r < 128"
  shows "\<exists>s'. enqueue front t s = Some s' \<and> steps n t (enqueued front t s r) s s'"
  using enqueue_ok [OF assms, of front] by (auto simp: steps_def)

lemma steps_remove:
  assumes "struct_ok n s" "thread_of t s = Some r" "th_queued r"
  shows "\<exists>s'. remove_from_queue t s = Some s' \<and> steps n t (dequeued r) s s'"
  using remove_from_queue_ok [OF assms] by (auto simp: steps_def)

lemma steps_transition:
  assumes "struct_ok n s" "thread_of t s = Some r"
  shows "\<exists>s'. transition_state st t s = Some s' \<and> steps n t (r\<lparr>th_state := st\<rparr>) s s'"
  using transition_state_ok [OF assms] by (auto simp: steps_def)

lemma steps_balance:
  assumes "steps n t r' s s'" "thread_of t s = Some r"
  shows "waiting_balance s' = waiting_balance s + of_bool (th_state r = Waiting) -
    of_bool (th_state r' = Waiting)"
  using balance_put [OF assms(2) stepsD(5) [OF assms(1)]] rest_fields(1) [OF stepsD(4) [OF assms(1)]]
  by simp

section \<open>The invariant of a record\<close>

definition queue_fields_ok :: "nat \<Rightarrow> xnu_thread \<Rightarrow> thread_record \<Rightarrow> bool" where
  "queue_fields_ok n t r \<longleftrightarrow> slot_ok n (th_bound r) \<and> 0 \<le> th_scheduled r \<and> th_scheduled r \<le> 97 \<and>
    (if th_queued r
     then th_queued_priority r = th_scheduled r \<and> th_queued_processor r = th_bound r \<and>
       th_key r = (if th_scheduled r = 97 then Some (th_deadline r, th_sequence r, t) else None)
     else th_key r = None \<and> th_queued_processor r = None)"

definition base_ok :: "thread_record \<Rightarrow> bool" where
  "base_ok r \<longleftrightarrow> 0 \<le> th_base r \<and> th_base r \<le> 96 \<and> 0 \<le> th_legacy r \<and> th_legacy r \<le> 96 \<and>
    0 \<le> th_saved_base r \<and> th_saved_base r \<le> 96 \<and> qos_valid (th_qos r) \<and>
    (th_failsafe r \<longrightarrow> \<not> th_realtime r)"

definition priced :: "thread_record \<Rightarrow> bool" where
  "priced r \<longleftrightarrow> (if th_depressed r then th_scheduled r = 0
     else (th_scheduled r = 97 \<longleftrightarrow> th_realtime r) \<and>
       (th_timeshare r \<and> \<not> th_realtime r \<longrightarrow> th_scheduled r \<le> 95))"

definition suspends_ok :: "thread_record \<Rightarrow> bool" where
  "suspends_ok r \<longleftrightarrow> unat (th_suspends r) = unat (th_suspend_counts r By_User) +
    unat (th_suspend_counts r By_Process) + unat (th_suspend_counts r By_Preparation)"

definition phase_ok :: "thread_record \<Rightarrow> bool" where
  "phase_ok r \<longleftrightarrow> (th_queued r \<longleftrightarrow> th_state r = Runnable) \<and>
    (th_suspends r \<noteq> 0 \<longrightarrow> th_state r = Waiting) \<and> suspends_ok r \<and>
    (th_depression r \<noteq> None \<longrightarrow> th_depressed r)"

definition record_ok :: "nat \<Rightarrow> xnu_thread \<Rightarrow> thread_record \<Rightarrow> bool" where
  "record_ok n t r \<longleftrightarrow> queue_fields_ok n t r \<and> base_ok r \<and> priced r \<and> phase_ok r"

section \<open>Recomputing a priority\<close>

text \<open>What a recomputation leaves alone.\<close>

definition core :: "thread_record \<Rightarrow> thread_record" where
  "core r = r\<lparr>th_bucket := Fixed_Load, th_shift := None, th_scheduled := 0, th_key := None,
     th_queued_priority := 0, th_queued_processor := None, th_sequence := 0,
     th_runnable_sequence := 0, th_front := False\<rparr>"

lemma core_fields:
  assumes "core r' = core r"
  shows "th_queued r' = th_queued r" "th_state r' = th_state r" "th_bound r' = th_bound r"
    "th_base r' = th_base r" "th_legacy r' = th_legacy r" "th_saved_base r' = th_saved_base r"
    "th_qos r' = th_qos r" "th_depressed r' = th_depressed r" "th_realtime r' = th_realtime r"
    "th_timeshare r' = th_timeshare r" "th_suspends r' = th_suspends r"
    "th_suspend_counts r' = th_suspend_counts r" "th_depression r' = th_depression r"
    "th_awaiting r' = th_awaiting r" "th_failsafe r' = th_failsafe r" "th_release r' = th_release r"
    "th_usage_index r' = th_usage_index r" "th_last r' = th_last r" "th_deadline r' = th_deadline r"
    "th_quantum r' = th_quantum r" "th_pending r' = th_pending r" "th_user r' = th_user r"
    "th_resume r' = th_resume r" "th_wake r' = th_wake r" "th_usage r' = th_usage r"
    "th_cpu r' = th_cpu r" "th_saved_realtime r' = th_saved_realtime r"
    "th_saved_timeshare r' = th_saved_timeshare r" "th_metered r' = th_metered r"
    "th_slices r' = th_slices r" "th_task_qos r' = th_task_qos r" "th_override r' = th_override r"
    "th_computation r' = th_computation r" "th_constraint r' = th_constraint r"
    "th_generation r' = th_generation r"
  using arg_cong [OF assms, of th_queued] arg_cong [OF assms, of th_state]
    arg_cong [OF assms, of th_bound] arg_cong [OF assms, of th_base]
    arg_cong [OF assms, of th_legacy] arg_cong [OF assms, of th_saved_base]
    arg_cong [OF assms, of th_qos] arg_cong [OF assms, of th_depressed]
    arg_cong [OF assms, of th_realtime] arg_cong [OF assms, of th_timeshare]
    arg_cong [OF assms, of th_suspends] arg_cong [OF assms, of th_suspend_counts]
    arg_cong [OF assms, of th_depression] arg_cong [OF assms, of th_awaiting]
    arg_cong [OF assms, of th_failsafe] arg_cong [OF assms, of th_release]
    arg_cong [OF assms, of th_usage_index] arg_cong [OF assms, of th_last]
    arg_cong [OF assms, of th_deadline] arg_cong [OF assms, of th_quantum]
    arg_cong [OF assms, of th_pending] arg_cong [OF assms, of th_user]
    arg_cong [OF assms, of th_resume] arg_cong [OF assms, of th_wake]
    arg_cong [OF assms, of th_usage] arg_cong [OF assms, of th_cpu]
    arg_cong [OF assms, of th_saved_realtime] arg_cong [OF assms, of th_saved_timeshare]
    arg_cong [OF assms, of th_metered] arg_cong [OF assms, of th_slices]
    arg_cong [OF assms, of th_task_qos] arg_cong [OF assms, of th_override]
    arg_cong [OF assms, of th_computation] arg_cong [OF assms, of th_constraint]
    arg_cong [OF assms, of th_generation]
  by (simp_all add: core_def)

lemma core_steps [simp]:
  "core (r\<lparr>th_bucket := b\<rparr>) = core r" "core (r\<lparr>th_shift := sh\<rparr>) = core r"
  "core (r\<lparr>th_scheduled := p\<rparr>) = core r"
  by (simp_all add: core_def)

lemma core_requeued:
  "th_queued r \<Longrightarrow> core (enqueued front t s ((dequeued r)\<lparr>th_scheduled := p\<rparr>)) = core r"
  by (simp add: core_def enqueued_def dequeued_def)

lemma rebucket_ok:
  assumes s: "struct_ok n s" and t: "thread_of t s = Some r"
  shows "\<exists>s' b sh. rebucket t s = Some s' \<and> steps n t (r\<lparr>th_bucket := b, th_shift := sh\<rparr>) s s'"
proof -
  define b where "b = load_bucket_of (th_timeshare r \<and> \<not> th_realtime r) (effective_base r)"
  show ?thesis
  proof (cases "th_bucket r = b")
    case True
    then have "rebucket t s = Some s" by (simp add: rebucket_def t b_def)
    moreover have "r\<lparr>th_bucket := th_bucket r, th_shift := th_shift r\<rparr> = r" by simp
    ultimately show ?thesis using steps_refl [OF s t] by metis
  next
    case False
    define load where "load = (if th_state r \<noteq> Waiting
      then load_enter b (load_leave (th_bucket r) (sc_load s)) else sc_load s)"
    define s1 where "s1 = s\<lparr>sc_load := load\<rparr>"
    define sh where "sh = processor_set_priority_shift (r\<lparr>th_bucket := b\<rparr>) s1"
    let ?r = "r\<lparr>th_bucket := b, th_shift := sh\<rparr>" and ?F = "feet_of s"
    define s' where "s' = update t (\<lambda>r. r\<lparr>th_bucket := b, th_shift := sh\<rparr>) s1"
    have s1: "(if th_state r \<noteq> Waiting
      then s\<lparr>sc_load := load_enter b (load_leave (th_bucket r) (sc_load s))\<rparr> else s) = s1"
      by (simp add: s1_def load_def)
    have "rebucket t s = Some s'"
      unfolding rebucket_def t bind.simps Let_def b_def [symmetric] s1 using False
      by (simp add: s'_def sh_def)
    moreover have threads: "(\<lambda>u. thread_of u s') = (\<lambda>u. thread_of u s)(t \<mapsto> ?r)"
      using thread_update [of t s1 r "\<lambda>r. r\<lparr>th_bucket := b, th_shift := sh\<rparr>"] t
      by (simp add: s'_def s1_def thread_of_def fun_eq_iff)
    moreover have "struct_ok n s'"
    proof (rule struct_put [OF s t threads])
      have Ft: "?F t = Some (foot_of r)" using t by (rule feet_at)
      have C: "counts_ok ?F s" using s by (simp add: struct_ok_def)
      have put: "tally (\<lambda>_ f. fo_state f \<noteq> Waiting \<and> fo_bucket f = c) (?F(t \<mapsto> foot_of ?r)) +
          of_bool (th_state r \<noteq> Waiting \<and> th_bucket r = c) =
          tally (\<lambda>_ f. fo_state f \<noteq> Waiting \<and> fo_bucket f = c) ?F + of_bool (th_state r \<noteq> Waiting \<and> b = c)" for c
        using tally_put [OF finite_feet, of "\<lambda>_ f. fo_state f \<noteq> Waiting \<and> fo_bucket f = c" s t "foot_of ?r"] Ft
        by (simp add: foot_of_def)
      have "sl_counts load c = tally (\<lambda>_ f. fo_state f \<noteq> Waiting \<and> fo_bucket f = c) (?F(t \<mapsto> foot_of ?r))" for c
      proof -
        have "sl_counts (sc_load s) c = tally (\<lambda>_ f. fo_state f \<noteq> Waiting \<and> fo_bucket f = c) ?F"
          using C by (simp add: counts_ok_def)
        with put [of c] False show ?thesis
          by (auto simp: load_def load_enter_def load_leave_def split: if_splits)
      qed
      moreover have "tally P (?F(t \<mapsto> foot_of ?r)) = tally P ?F"
        if "P t (foot_of ?r) \<longleftrightarrow> P t (foot_of r)" for P
        using tally_same [where F = ?F and t = t and P = P] Ft that by simp
      ultimately show "counts_ok (?F(t \<mapsto> foot_of ?r)) s'"
        using C by (simp add: counts_ok_def s'_def s1_def foot_of_def)
      show "indexes_ok n (?F(t \<mapsto> foot_of ?r)) s'"
        using s by (intro indexes_ok_put [where F = ?F and t = t and g = "foot_of r" and s = s, OF _ Ft])
          (auto simp: struct_ok_def s'_def s1_def foot_of_def)
    qed (use s in \<open>simp_all add: s'_def s1_def struct_ok_def foot_of_def\<close>)
    moreover have "rest s' = rest s"
      by (simp add: s'_def s1_def rest_def update_def load_def load_enter_def load_leave_def)
    moreover have "sc_process_runnable s' = sc_process_runnable s" by (simp add: s'_def s1_def)
    ultimately show ?thesis unfolding steps_def by metis
  qed
qed

lemma computed_priority_bounds:
  assumes "base_ok r"
  shows "0 \<le> computed_priority r" "computed_priority r \<le> 97"
    "computed_priority r = 97 \<longleftrightarrow> th_realtime r"
    "th_timeshare r \<Longrightarrow> \<not> th_realtime r \<Longrightarrow> computed_priority r \<le> 95"
proof -
  have "0 \<le> effective_base r \<and> effective_base r \<le> 96"
    using assms effective_priority_bounds [of "th_qos r" "th_task_qos r" "th_base r" "th_override r"]
    by (auto simp: base_ok_def effective_base_def)
  then show "0 \<le> computed_priority r" "computed_priority r \<le> 97"
    "computed_priority r = 97 \<longleftrightarrow> th_realtime r"
    "th_timeshare r \<Longrightarrow> \<not> th_realtime r \<Longrightarrow> computed_priority r \<le> 95"
    by (auto simp: computed_priority_def clamp_def minimum_priority_def maximum_kernel_priority_def
        realtime_queue_priority_def realtime_base_priority_def)
qed

lemma queue_fields_enqueued:
  assumes "slot_ok n (th_bound r)" "0 \<le> th_scheduled r" "th_scheduled r \<le> 97"
    "th_scheduled r = 97 \<Longrightarrow> th_realtime r"
  shows "queue_fields_ok n t (enqueued front t s r)"
  using assms by (auto simp: queue_fields_ok_def enqueued_def queue_key_def
      realtime_queue_priority_def realtime_base_priority_def)

lemma recompute_ok:
  assumes s: "struct_ok n s" and t: "thread_of t s = Some r"
    and r: "queue_fields_ok n t r" "base_ok r" "th_depressed r \<Longrightarrow> th_scheduled r = 0"
  shows "\<exists>s' r'. recompute_priority t s = Some s' \<and> steps n t r' s s' \<and> core r' = core r \<and>
    queue_fields_ok n t r' \<and> priced r'"
proof -
  obtain s1 b sh where s1: "rebucket t s = Some s1"
    "steps n t (r\<lparr>th_bucket := b, th_shift := sh\<rparr>) s s1" using rebucket_ok [OF s t] by blast
  define r1 where "r1 = r\<lparr>th_bucket := b, th_shift := sh\<rparr>"
  note st1 = s1(2) [folded r1_def]
  have r1: "queue_fields_ok n t r1" "base_ok r1" "core r1 = core r" "th_depressed r1 = th_depressed r"
    "th_scheduled r1 = th_scheduled r"
    using r by (simp_all add: r1_def queue_fields_ok_def base_ok_def)
  note bounds = computed_priority_bounds [OF r1(2)]
  define p where "p = computed_priority r1"
  show ?thesis
  proof (cases "th_depressed r1 \<or> p = th_scheduled r1")
    case True
    then have "recompute_priority t s = Some s1"
      by (auto simp: recompute_priority_def s1(1) stepsD(2) [OF st1] p_def)
    moreover have "priced r1" using True r(3) r1(4,5) bounds by (auto simp: priced_def p_def)
    ultimately show ?thesis using st1 r1(1,3) by blast
  next
    case False
    define f where "f = (\<lambda>r. r\<lparr>th_scheduled := p\<rparr> :: thread_record)"
    have rec: "recompute_priority t s = requeued t (\<lambda>s. Some (update t f s)) s1"
      using False by (simp add: recompute_priority_def s1(1) stepsD(2) [OF st1] p_def f_def Let_def)
    have slot: "slot_ok n (th_bound r1)" using r1(1) by (simp add: queue_fields_ok_def)
    show ?thesis
    proof (cases "th_queued r1")
      case queued: True
      obtain s2 where s2: "remove_from_queue t s1 = Some s2" "steps n t (dequeued r1) s1 s2"
        using steps_remove [OF stepsD(1,2) [OF st1] queued] by blast
      have st3: "steps n t (f (dequeued r1)) s2 (update t f s2)"
        by (intro steps_update stepsD(1,2) [OF s2(2)]) (simp add: f_def foot_of_def dequeued_def)
      have "\<exists>s'. enqueue False t (update t f s2) = Some s' \<and>
          steps n t (enqueued False t (update t f s2) (f (dequeued r1))) (update t f s2) s'"
        by (intro steps_enqueue stepsD(1,2) [OF st3])
          (use bounds slot in \<open>simp_all add: f_def dequeued_def p_def\<close>)
      then obtain s' where s': "enqueue False t (update t f s2) = Some s'"
        "steps n t (enqueued False t (update t f s2) (f (dequeued r1))) (update t f s2) s'" by blast
      let ?r = "enqueued False t (update t f s2) (f (dequeued r1))"
      have "recompute_priority t s = Some s'"
        unfolding rec requeued_def using queued s2(1) s'(1) by (simp add: stepsD(2) [OF st1])
      moreover have "steps n t ?r s s'"
        by (rule steps_trans [OF st1 steps_trans [OF s2(2) steps_trans [OF st3 s'(2)]]])
      moreover have "core ?r = core r" using core_requeued [OF queued] r1(3) by (simp add: f_def)
      moreover have "queue_fields_ok n t ?r"
        by (rule queue_fields_enqueued) (use bounds slot in \<open>simp_all add: f_def dequeued_def p_def\<close>)
      moreover have "priced ?r"
        using False bounds by (auto simp: priced_def enqueued_def f_def dequeued_def p_def)
      ultimately show ?thesis by blast
    next
      case unqueued: False
      have st2: "steps n t (f r1) s1 (update t f s1)"
        by (intro steps_update stepsD(1,2) [OF st1]) (use unqueued in \<open>simp add: f_def foot_of_def\<close>)
      have "recompute_priority t s = Some (update t f s1)"
        unfolding rec requeued_def using unqueued by (simp add: stepsD(2) [OF st1])
      moreover have "queue_fields_ok n t (f r1)" "priced (f r1)"
        using unqueued r1(1) False bounds
        by (auto simp: queue_fields_ok_def f_def priced_def p_def)
      ultimately show ?thesis
        using steps_trans [OF st1 st2] r1(3) by (auto simp: f_def)
    qed
  qed
qed

end
