(* ===== verification/Scheduler_Moves.thy ===== *)
theory Scheduler_Moves
  imports Scheduler_Records
begin

text \<open>
  The steps of the guest scheduler that also change an index, a context or a counter, and the
  invariant of the whole scheduler.
\<close>

section \<open>Moves\<close>

text \<open>The parts that no step on one thread changes.\<close>

definition config :: "scheduler \<Rightarrow> scheduler" where
  "config s = (rest s)\<lparr>sc_depressions := [], sc_failsafes := [], sc_usage := [], sc_contexts := [],
     sc_history := Map.empty, sc_waiting := 0, sc_host_awaits := 0\<rparr>"

lemma foot_fields [simp]:
  "fo_state (foot_of r) = th_state r" "fo_bucket (foot_of r) = th_bucket r"
  "fo_awaiting (foot_of r) = th_awaiting r" "fo_depression (foot_of r) = th_depression r"
  "fo_release (foot_of r) = (if th_failsafe r then Some (th_release r) else None)"
  "fo_usage (foot_of r) = th_usage_index r" "fo_last (foot_of r) = th_last r"
  "fo_place (foot_of r) = (if th_queued r
     then Some (th_queued_processor r, th_queued_priority r, th_key r) else None)"
  by (simp_all add: foot_of_def)

lemma config_rest:
  assumes "rest s' = rest s"
  shows "config s' = config s"
  unfolding config_def assms ..

lemma config_fields:
  assumes "config s' = config s"
  shows "sc_process_threads s' = sc_process_threads s" "sc_elapsed s' = sc_elapsed s"
    "sc_tick s' = sc_tick s" "sc_quantum s' = sc_quantum s" "sc_tick_ticks s' = sc_tick_ticks s"
    "sc_minimum_user s' = sc_minimum_user s" "sc_realtime_clock s' = sc_realtime_clock s"
    "sc_since_tick s' = sc_since_tick s" "sc_task_qos s' = sc_task_qos s" "sc_rate s' = sc_rate s"
  using arg_cong [OF assms, of sc_process_threads] arg_cong [OF assms, of sc_elapsed]
    arg_cong [OF assms, of sc_tick] arg_cong [OF assms, of sc_quantum]
    arg_cong [OF assms, of sc_tick_ticks] arg_cong [OF assms, of sc_minimum_user]
    arg_cong [OF assms, of sc_realtime_clock] arg_cong [OF assms, of sc_since_tick]
    arg_cong [OF assms, of sc_task_qos] arg_cong [OF assms, of sc_rate]
  by (simp_all add: config_def rest_def)

definition moves ::
  "nat \<Rightarrow> xnu_thread \<Rightarrow> thread_record \<Rightarrow> int \<Rightarrow> scheduler \<Rightarrow> scheduler \<Rightarrow> bool" where
  "moves n t r' w s s' \<longleftrightarrow> struct_ok n s' \<and>
    (\<lambda>u. thread_of u s') = (\<lambda>u. thread_of u s)(t \<mapsto> r') \<and>
    int (sc_waiting s') = int (sc_waiting s) + w \<and> config s' = config s \<and>
    (\<forall>p. sc_process_runnable s p \<noteq> None \<longrightarrow> sc_process_runnable s' p \<noteq> None) \<and>
    (\<forall>p. sc_history s p \<noteq> None \<longrightarrow> sc_history s' p \<noteq> None)"

lemma movesD:
  assumes "moves n t r' w s s'"
  shows "struct_ok n s'" "thread_of t s' = Some r'" "u \<noteq> t \<Longrightarrow> thread_of u s' = thread_of u s"
    "(\<lambda>u. thread_of u s') = (\<lambda>u. thread_of u s)(t \<mapsto> r')"
    "int (sc_waiting s') = int (sc_waiting s) + w" "config s' = config s"
    "sc_process_runnable s p \<noteq> None \<Longrightarrow> sc_process_runnable s' p \<noteq> None"
    "sc_history s p \<noteq> None \<Longrightarrow> sc_history s' p \<noteq> None"
  using assms fun_cong [of "\<lambda>u. thread_of u s'" "(\<lambda>u. thread_of u s)(t \<mapsto> r')"]
  by (auto simp: moves_def)

lemma moves_steps:
  assumes "steps n t r' s s'"
  shows "moves n t r' 0 s s'"
proof -
  note rest = stepsD(4) [OF assms]
  have "int (sc_waiting s') = int (sc_waiting s) + 0" using rest_fields(1) [OF rest] by simp
  moreover have "sc_history s' = sc_history s" using rest_fields(6) [OF rest] .
  ultimately show ?thesis
    using stepsD(1,5,6) [OF assms] config_rest [OF rest] unfolding moves_def by metis
qed

lemma moves_trans:
  assumes "moves n t r1 v s s1" "moves n t r2 w s1 s2"
  shows "moves n t r2 (v + w) s s2"
proof -
  have "(\<lambda>u. thread_of u s2) = (\<lambda>u. thread_of u s)(t \<mapsto> r2)"
    unfolding movesD(4) [OF assms(2)] movesD(4) [OF assms(1)] by simp
  moreover have "int (sc_waiting s2) = int (sc_waiting s) + (v + w)"
    using movesD(5) [OF assms(1)] movesD(5) [OF assms(2)] by linarith
  moreover have "config s2 = config s" using movesD(6) [OF assms(1)] movesD(6) [OF assms(2)] by metis
  ultimately show ?thesis
    using movesD(1,7,8) [OF assms(2)] movesD(7,8) [OF assms(1)] unfolding moves_def by blast
qed

lemma moves_balance:
  assumes "moves n t r' w s s'" "thread_of t s = Some r"
  shows "waiting_balance s' = waiting_balance s + w + of_bool (th_state r = Waiting) -
    of_bool (th_state r' = Waiting)"
  using balance_put [OF assms(2) movesD(4) [OF assms(1)]] movesD(5) [OF assms(1)] by simp

section \<open>The invariant\<close>

definition sched_ok :: "nat \<Rightarrow> scheduler \<Rightarrow> bool" where
  "sched_ok n s \<longleftrightarrow> struct_ok n s \<and> (\<forall>t r. thread_of t s = Some r \<longrightarrow> record_ok n t r) \<and>
    processes_ok (feet_of s) s \<and> waiting_balance s = 0 \<and>
    0 \<le> sc_minimum_user s \<and> sc_minimum_user s \<le> maximum_user_priority"

lemma sched_okD:
  assumes "sched_ok n s"
  shows "struct_ok n s" "thread_of t s = Some r \<Longrightarrow> record_ok n t r" "processes_ok (feet_of s) s"
    "waiting_balance s = 0" "0 \<le> sc_minimum_user s" "sc_minimum_user s \<le> maximum_user_priority"
  using assms by (simp_all add: sched_ok_def)

lemma record_okD:
  assumes "record_ok n t r"
  shows "queue_fields_ok n t r" "base_ok r" "priced r" "phase_ok r"
    "th_depressed r \<Longrightarrow> th_scheduled r = 0"
  using assms by (auto simp: record_ok_def priced_def)

lemma processes_ok_put:
  assumes "processes_ok F s" "F t \<noteq> None" "sc_process_threads s' = sc_process_threads s"
    "\<And>p. sc_process_runnable s p \<noteq> None \<Longrightarrow> sc_process_runnable s' p \<noteq> None"
    "\<And>p. sc_history s p \<noteq> None \<Longrightarrow> sc_history s' p \<noteq> None"
  shows "processes_ok (F(t \<mapsto> f)) s'"
proof -
  have "(F(t \<mapsto> f)) u \<noteq> None \<longleftrightarrow> F u \<noteq> None" for u using assms(2) by simp
  then show ?thesis using assms(1,3-5) unfolding processes_ok_def by presburger
qed

lemma sched_ok_moves:
  assumes s: "sched_ok n s" and t: "thread_of t s = Some r" and m: "moves n t r' w s s'"
    and r': "record_ok n t r'" and w: "w = of_bool (th_state r' = Waiting) - of_bool (th_state r = Waiting)"
  shows "sched_ok n s'"
proof -
  have "record_ok n u v" if "thread_of u s' = Some v" for u v
    using that sched_okD(2) [OF s] movesD(2,3) [OF m] r' by (cases "u = t") auto
  moreover have "processes_ok (feet_of s') s'"
    unfolding feet_put [OF movesD(4) [OF m]]
    using feet_at [OF t] config_fields(1) [OF movesD(6) [OF m]] movesD(7,8) [OF m]
    by (intro processes_ok_put [OF sched_okD(3) [OF s]]) simp_all
  moreover have "waiting_balance s' = 0" using moves_balance [OF m t] sched_okD(4) [OF s] w by simp
  moreover have "sc_minimum_user s' = sc_minimum_user s" using config_fields(6) [OF movesD(6) [OF m]] .
  ultimately show ?thesis using movesD(1) [OF m] sched_okD(5,6) [OF s] by (simp add: sched_ok_def)
qed

lemma waiting_positive:
  assumes "sched_ok n s" "thread_of t s = Some r" "th_state r = Waiting"
  shows "0 < sc_waiting s"
proof -
  have "t \<in> {t. \<exists>f. feet_of s t = Some f \<and> fo_state f = Waiting}"
    using feet_at [OF assms(2)] assms(3) by (simp add: foot_of_def)
  moreover have "finite {t. \<exists>f. feet_of s t = Some f \<and> fo_state f = Waiting}"
    by (rule finite_holders) simp
  ultimately have "0 < tally (\<lambda>_ f. fo_state f = Waiting) (feet_of s)"
    unfolding tally_def by (auto simp: card_gt_0_iff)
  with sched_okD(4) [OF assms(1)] show ?thesis by (simp add: waiting_balance_def)
qed

lemma waiting_change:
  assumes "struct_ok n s" "thread_of t s = Some r"
  shows "moves n t r 1 s (s\<lparr>sc_waiting := sc_waiting s + 1\<rparr>)"
    "0 < sc_waiting s \<Longrightarrow> moves n t r (- 1) s (s\<lparr>sc_waiting := sc_waiting s - 1\<rparr>)"
proof -
  have feet: "feet_of (s\<lparr>sc_waiting := w\<rparr>) = feet_of s" for w by (simp add: feet_of_def thread_of_def)
  have "struct_ok n (s\<lparr>sc_waiting := w\<rparr>)" for w
    using assms(1) by (simp add: struct_ok_def feet queues_ok_def counts_ok_def indexes_ok_def)
  then show "moves n t r 1 s (s\<lparr>sc_waiting := sc_waiting s + 1\<rparr>)"
    "0 < sc_waiting s \<Longrightarrow> moves n t r (- 1) s (s\<lparr>sc_waiting := sc_waiting s - 1\<rparr>)"
    using assms(2) by (auto simp: moves_def config_def rest_def thread_of_def fun_eq_iff)
qed

section \<open>Indexes and contexts\<close>

text \<open>A change of one record together with the index entries that belong to it.\<close>

lemma struct_put_indexes:
  assumes s: "struct_ok n s" and t: "thread_of t s = Some r"
    and s': "s' = (update t (\<lambda>_. r') s)\<lparr>sc_depressions := ds, sc_failsafes := fs, sc_usage := us,
      sc_contexts := cs, sc_host_awaits := hs\<rparr>"
    and place: "fo_place (foot_of r') = fo_place (foot_of r)" "th_state r' = th_state r"
      "th_bucket r' = th_bucket r"
    and awaits: "hs + of_bool (th_awaiting r) = sc_host_awaits s + of_bool (th_awaiting r')"
    and indexes: "deadline_index fo_depression ((feet_of s)(t \<mapsto> foot_of r')) ds"
      "deadline_index fo_release ((feet_of s)(t \<mapsto> foot_of r')) fs"
      "usage_ok ((feet_of s)(t \<mapsto> foot_of r')) us" "contexts_ok n ((feet_of s)(t \<mapsto> foot_of r')) cs"
  shows "moves n t r' 0 s s'"
proof -
  have Ft: "feet_of s t = Some (foot_of r)" using t by (rule feet_at)
  have threads: "(\<lambda>u. thread_of u s') = (\<lambda>u. thread_of u s)(t \<mapsto> r')"
    using thread_update [OF t, of "\<lambda>_. r'"] by (simp add: s' thread_of_def fun_eq_iff)
  have same: "tally P ((feet_of s)(t \<mapsto> foot_of r')) = tally P (feet_of s)"
    if "P t (foot_of r') \<longleftrightarrow> P t (foot_of r)" for P
    using tally_same [where F = "feet_of s" and t = t and P = P] Ft that by simp
  have "tally (\<lambda>_ f. fo_awaiting f) ((feet_of s)(t \<mapsto> foot_of r')) + of_bool (th_awaiting r) =
      tally (\<lambda>_ f. fo_awaiting f) (feet_of s) + of_bool (th_awaiting r')"
    using tally_put [OF finite_feet, of "\<lambda>_ f. fo_awaiting f" s t "foot_of r'"] Ft by (simp add: foot_of_def)
  with awaits s have hs: "hs = tally (\<lambda>_ f. fo_awaiting f) ((feet_of s)(t \<mapsto> foot_of r'))"
    by (simp add: struct_ok_def counts_ok_def)
  have "struct_ok n s'"
  proof (rule struct_put [OF s t threads place(1)])
    show "counts_ok ((feet_of s)(t \<mapsto> foot_of r')) s'"
      using s hs place(2,3) by (simp add: struct_ok_def counts_ok_def s' same)
    show "indexes_ok n ((feet_of s)(t \<mapsto> foot_of r')) s'"
      using indexes by (simp add: indexes_ok_def s')
  qed (use s in \<open>simp_all add: s' struct_ok_def\<close>)
  then show ?thesis using threads by (simp add: moves_def s' config_def rest_def update_def)
qed

lemma struct_indexes:
  assumes "struct_ok n s"
  shows "deadline_index fo_depression (feet_of s) (sc_depressions s)"
    "deadline_index fo_release (feet_of s) (sc_failsafes s)" "usage_ok (feet_of s) (sc_usage s)"
    "contexts_ok n (feet_of s) (sc_contexts s)" "length (sc_locals s) = n"
  using assms by (simp_all add: struct_ok_def indexes_ok_def queues_ok_def)

lemma finish_host_await_ok:
  assumes s: "struct_ok n s" and t: "thread_of t s = Some r"
  shows "\<exists>s'. finish_host_await t s = Some s' \<and> moves n t (r\<lparr>th_awaiting := False\<rparr>) 0 s s'"
proof (cases "th_awaiting r")
  case False
  then have "r\<lparr>th_awaiting := False\<rparr> = r" by simp
  moreover have "finish_host_await t s = Some s" using False by (simp add: finish_host_await_def t)
  ultimately show ?thesis using moves_steps [OF steps_refl [OF s t]] by metis
next
  case True
  let ?r = "r\<lparr>th_awaiting := False\<rparr>"
  have Ft: "feet_of s t = Some (foot_of r)" using t by (rule feet_at)
  have "t \<in> {t. \<exists>f. feet_of s t = Some f \<and> fo_awaiting f}" using Ft True by (simp add: foot_of_def)
  then have "0 < tally (\<lambda>_ f. fo_awaiting f) (feet_of s)"
    unfolding tally_def using finite_holders [OF finite_feet] by (auto simp: card_gt_0_iff)
  then have pos: "0 < sc_host_awaits s" using s by (simp add: struct_ok_def counts_ok_def)
  define s' where "s' = (update t (\<lambda>_. ?r) s)\<lparr>sc_depressions := sc_depressions s,
    sc_failsafes := sc_failsafes s, sc_usage := sc_usage s, sc_contexts := sc_contexts s,
    sc_host_awaits := sc_host_awaits s - 1\<rparr>"
  have "s' = (update t (\<lambda>_. ?r) s)\<lparr>sc_host_awaits := sc_host_awaits s - 1\<rparr>"
    by (simp add: s'_def update_def)
  then have "finish_host_await t s = Some s'"
    using True update_const [OF struct_ordered [OF s] t, of "\<lambda>r. r\<lparr>th_awaiting := False\<rparr>"]
    by (simp add: finish_host_await_def t)
  moreover have "moves n t ?r 0 s s'"
    by (rule struct_put_indexes [OF s t s'_def])
      (use struct_indexes [OF s] Ft True pos in \<open>auto
        intro!: deadline_index_same [where F = "feet_of s" and t = t and g = "foot_of r"]
          usage_ok_same [where F = "feet_of s" and t = t and g = "foot_of r"]
          contexts_ok_same [where F = "feet_of s" and t = t and g = "foot_of r"]\<close>)
  ultimately show ?thesis by blast
qed

lemma put_same:
  "feet_of s t = Some g \<Longrightarrow> fo_depression f = fo_depression g \<Longrightarrow>
    deadline_index fo_depression (feet_of s) l \<Longrightarrow> deadline_index fo_depression ((feet_of s)(t \<mapsto> f)) l"
  "feet_of s t = Some g \<Longrightarrow> fo_release f = fo_release g \<Longrightarrow>
    deadline_index fo_release (feet_of s) l \<Longrightarrow> deadline_index fo_release ((feet_of s)(t \<mapsto> f)) l"
  "feet_of s t = Some g \<Longrightarrow> fo_usage f = fo_usage g \<Longrightarrow>
    usage_ok (feet_of s) u \<Longrightarrow> usage_ok ((feet_of s)(t \<mapsto> f)) u"
  "feet_of s t = Some g \<Longrightarrow> fo_last f = fo_last g \<Longrightarrow>
    contexts_ok n (feet_of s) c \<Longrightarrow> contexts_ok n ((feet_of s)(t \<mapsto> f)) c"
  by (rule deadline_index_same usage_ok_same contexts_ok_same; assumption)+

lemma update_same:
  assumes "ordered (sc_threads s)" "thread_of t s = Some r"
  shows "update t (\<lambda>_. r) s = s"
proof -
  have "(t, r) \<in> set (sc_threads s)" using assms by (simp add: thread_of_def map_of_iff)
  then have "v = r" if "(t, v) \<in> set (sc_threads s)" for v
    using ordered_unique [OF assms(1) that] by blast
  then have "modify t (\<lambda>_. r) (sc_threads s) = sc_threads s"
    unfolding modify_def by (intro map_idI) auto
  then show ?thesis by (simp add: update_def)
qed

lemma contexts_ok_clear:
  assumes "contexts_ok n F cs" "p < n"
  shows "contexts_ok n F (cs[p := None])"
proof -
  have "\<exists>f. F t = Some f \<and> fo_last f = Some i" if "i < n" "cs[p := None] ! i = Some t" for i t
    using assms that by (cases "i = p") (auto simp: contexts_ok_def)
  with assms show ?thesis by (simp add: contexts_ok_def)
qed

lemma release_processor_context_ok:
  assumes s: "struct_ok n s" and t: "thread_of t s = Some r"
  shows "\<exists>cs. release_processor_context t s = Some (s\<lparr>sc_contexts := cs\<rparr>) \<and>
    moves n t r 0 s (s\<lparr>sc_contexts := cs\<rparr>) \<and> (\<forall>i<n. cs ! i \<noteq> Some t)"
proof -
  let ?cs = "case th_last r of None \<Rightarrow> sc_contexts s | Some p \<Rightarrow>
    if sc_contexts s ! p = Some t then (sc_contexts s)[p := None] else sc_contexts s"
  have Ft: "feet_of s t = Some (foot_of r)" using t by (rule feet_at)
  note C = struct_indexes(4) [OF s]
  have len: "length (sc_contexts s) = n" using C by (simp add: contexts_ok_def)
  have last: "i < n" if "th_last r = Some i" for i using C Ft that by (auto simp: contexts_ok_def)
  have mine: "th_last r = Some i" if "i < n" "sc_contexts s ! i = Some t" for i
    using C Ft that by (fastforce simp: contexts_ok_def)
  have "release_processor_context t s = Some (s\<lparr>sc_contexts := ?cs\<rparr>)"
    using last len by (auto simp: release_processor_context_def t split: option.split)
  moreover have "?cs ! i \<noteq> Some t" if i: "i < n" for i
  proof (cases "sc_contexts s ! i = Some t")
    case True
    with mine [OF i True] i len show ?thesis by simp
  next
    case False
    then show ?thesis using i len last by (cases "th_last r") (auto simp: nth_list_update)
  qed
  moreover have "moves n t r 0 s (s\<lparr>sc_contexts := ?cs\<rparr>)"
  proof (rule struct_put_indexes [OF s t])
    show "s\<lparr>sc_contexts := ?cs\<rparr> = (update t (\<lambda>_. r) s)\<lparr>sc_depressions := sc_depressions s,
        sc_failsafes := sc_failsafes s, sc_usage := sc_usage s, sc_contexts := ?cs,
        sc_host_awaits := sc_host_awaits s\<rparr>"
      unfolding update_same [OF struct_ordered [OF s] t] by simp
    have same: "(feet_of s)(t \<mapsto> foot_of r) = feet_of s" using Ft by (simp add: fun_upd_idem)
    show "contexts_ok n ((feet_of s)(t \<mapsto> foot_of r)) ?cs"
      unfolding same using C contexts_ok_clear [OF C last] by (auto split: option.split)
  qed (use struct_indexes [OF s] Ft in \<open>simp_all add: fun_upd_idem\<close>)
  ultimately show ?thesis by blast
qed

text \<open>Records that lose or gain a deadline, or a place among the usage records.\<close>

lemma update_indexes:
  assumes s: "struct_ok n s" and t: "thread_of t s = Some r"
    and f: "foot_of (f r) = (foot_of r)\<lparr>fo_depression := d, fo_release := e, fo_usage := u, fo_last := l\<rparr>"
    and s': "s' = update t f (s\<lparr>sc_depressions := ds, sc_failsafes := fs, sc_usage := us,
      sc_contexts := cs\<rparr>)"
    and indexes: "deadline_index fo_depression ((feet_of s)(t \<mapsto> foot_of (f r))) ds"
      "deadline_index fo_release ((feet_of s)(t \<mapsto> foot_of (f r))) fs"
      "usage_ok ((feet_of s)(t \<mapsto> foot_of (f r))) us"
      "contexts_ok n ((feet_of s)(t \<mapsto> foot_of (f r))) cs"
  shows "moves n t (f r) 0 s s'"
proof (rule struct_put_indexes [OF s t])
  have "s' = (update t f s)\<lparr>sc_depressions := ds, sc_failsafes := fs, sc_usage := us,
      sc_contexts := cs\<rparr>"
    by (simp add: s' update_def)
  also have "\<dots> = (update t (\<lambda>_. f r) s)\<lparr>sc_depressions := ds, sc_failsafes := fs, sc_usage := us,
      sc_contexts := cs\<rparr>"
    using update_const [OF struct_ordered [OF s] t, of f] by simp
  finally show "s' = (update t (\<lambda>_. f r) s)\<lparr>sc_depressions := ds, sc_failsafes := fs, sc_usage := us,
      sc_contexts := cs, sc_host_awaits := sc_host_awaits s\<rparr>"
    by (simp add: update_def)
  have feet: "fo_place (foot_of (f r)) = fo_place (foot_of r)" "fo_state (foot_of (f r)) = fo_state (foot_of r)"
    "fo_bucket (foot_of (f r)) = fo_bucket (foot_of r)" "fo_awaiting (foot_of (f r)) = fo_awaiting (foot_of r)"
    unfolding f by simp_all
  then show "fo_place (foot_of (f r)) = fo_place (foot_of r)" "th_state (f r) = th_state r"
    "th_bucket (f r) = th_bucket r"
    "sc_host_awaits s + of_bool (th_awaiting r) = sc_host_awaits s + of_bool (th_awaiting (f r))"
    by simp_all
qed (fact indexes)+

lemma depression_dropped:
  assumes s: "struct_ok n s" and t: "thread_of t s = Some r"
    and f: "foot_of (f r) = (foot_of r)\<lparr>fo_depression := None\<rparr>"
    and ds: "ds = (case th_depression r of None \<Rightarrow> sc_depressions s
      | Some d \<Rightarrow> remove1 (d, t) (sc_depressions s))"
  shows "unindex_depression t s = Some (s\<lparr>sc_depressions := ds\<rparr>)"
    "moves n t (f r) 0 s (update t f (s\<lparr>sc_depressions := ds\<rparr>))"
proof -
  have Ft: "feet_of s t = Some (foot_of r)" using t by (rule feet_at)
  show "unindex_depression t s = Some (s\<lparr>sc_depressions := ds\<rparr>)"
    by (simp add: unindex_depression_def t ds split: option.split)
  have feet: "fo_release (foot_of (f r)) = fo_release (foot_of r)"
    "fo_usage (foot_of (f r)) = fo_usage (foot_of r)" "fo_last (foot_of (f r)) = fo_last (foot_of r)"
    "fo_depression (foot_of (f r)) = None" unfolding f by simp_all
  show "moves n t (f r) 0 s (update t f (s\<lparr>sc_depressions := ds\<rparr>))"
  proof (rule update_indexes [OF s t])
    show "deadline_index fo_depression ((feet_of s)(t \<mapsto> foot_of (f r))) ds"
      unfolding ds using deadline_index_clear [where F = "feet_of s" and t = t, OF struct_indexes(1) [OF s] Ft feet(4)]
      by simp
    show "foot_of (f r) = (foot_of r)\<lparr>fo_depression := None, fo_release := fo_release (foot_of r),
        fo_usage := fo_usage (foot_of r), fo_last := fo_last (foot_of r)\<rparr>" unfolding f by simp
    show "update t f (s\<lparr>sc_depressions := ds\<rparr>) = update t f (s\<lparr>sc_depressions := ds,
        sc_failsafes := sc_failsafes s, sc_usage := sc_usage s, sc_contexts := sc_contexts s\<rparr>)" by simp
  qed (fact put_same(2) [OF Ft feet(1) struct_indexes(2) [OF s]] put_same(3) [OF Ft feet(2) struct_indexes(3) [OF s]]
    put_same(4) [OF Ft feet(3) struct_indexes(4) [OF s]])+
qed

lemma failsafe_dropped:
  assumes s: "struct_ok n s" and t: "thread_of t s = Some r"
    and f: "foot_of (f r) = (foot_of r)\<lparr>fo_release := None\<rparr>"
    and fs: "fs = (if th_failsafe r then remove1 (th_release r, t) (sc_failsafes s) else sc_failsafes s)"
  shows "unindex_failsafe t s = Some (s\<lparr>sc_failsafes := fs\<rparr>)"
    "moves n t (f r) 0 s (update t f (s\<lparr>sc_failsafes := fs\<rparr>))"
proof -
  have Ft: "feet_of s t = Some (foot_of r)" using t by (rule feet_at)
  show "unindex_failsafe t s = Some (s\<lparr>sc_failsafes := fs\<rparr>)"
    by (simp add: unindex_failsafe_def t fs)
  have feet: "fo_depression (foot_of (f r)) = fo_depression (foot_of r)"
    "fo_usage (foot_of (f r)) = fo_usage (foot_of r)" "fo_last (foot_of (f r)) = fo_last (foot_of r)"
    "fo_release (foot_of (f r)) = None" unfolding f by simp_all
  show "moves n t (f r) 0 s (update t f (s\<lparr>sc_failsafes := fs\<rparr>))"
  proof (rule update_indexes [OF s t])
    have "(case fo_release (foot_of r) of None \<Rightarrow> sc_failsafes s | Some d \<Rightarrow> remove1 (d, t) (sc_failsafes s)) = fs"
      by (simp add: fs)
    then show "deadline_index fo_release ((feet_of s)(t \<mapsto> foot_of (f r))) fs"
      using deadline_index_clear [where F = "feet_of s" and t = t, OF struct_indexes(2) [OF s] Ft feet(4)]
      by simp
    show "foot_of (f r) = (foot_of r)\<lparr>fo_depression := fo_depression (foot_of r), fo_release := None,
        fo_usage := fo_usage (foot_of r), fo_last := fo_last (foot_of r)\<rparr>" unfolding f by simp
    show "update t f (s\<lparr>sc_failsafes := fs\<rparr>) = update t f (s\<lparr>sc_depressions := sc_depressions s,
        sc_failsafes := fs, sc_usage := sc_usage s, sc_contexts := sc_contexts s\<rparr>)" by simp
  qed (fact put_same(1) [OF Ft feet(1) struct_indexes(1) [OF s]] put_same(3) [OF Ft feet(2) struct_indexes(3) [OF s]]
    put_same(4) [OF Ft feet(3) struct_indexes(4) [OF s]])+
qed

lemma depression_gained:
  assumes s: "struct_ok n s" and t: "thread_of t s = Some r" and none: "th_depression r = None"
    and f: "foot_of (f r) = (foot_of r)\<lparr>fo_depression := th_depression (f r)\<rparr>"
  shows "\<exists>s'. index_depression t (update t f s) = Some s' \<and> moves n t (f r) 0 s s'"
proof -
  have Ft: "feet_of s t = Some (foot_of r)" using t by (rule feet_at)
  define ds where "ds = (case th_depression (f r) of None \<Rightarrow> sc_depressions s
    | Some d \<Rightarrow> insort_insert (d, t) (sc_depressions s))"
  have "index_depression t (update t f s) = Some (update t f (s\<lparr>sc_depressions := ds\<rparr>))"
  proof -
    have at: "thread_of t (update t f s) = Some (f r)" using t by simp
    have "update t f (s\<lparr>sc_depressions := ds\<rparr>) = (update t f s)\<lparr>sc_depressions := ds\<rparr>"
      by (simp add: update_def)
    then show ?thesis unfolding index_depression_def at by (simp add: ds_def split: option.split)
  qed
  moreover have feet: "fo_release (foot_of (f r)) = fo_release (foot_of r)"
    "fo_usage (foot_of (f r)) = fo_usage (foot_of r)" "fo_last (foot_of (f r)) = fo_last (foot_of r)"
    unfolding f by simp_all
  moreover have "moves n t (f r) 0 s (update t f (s\<lparr>sc_depressions := ds\<rparr>))"
  proof (rule update_indexes [OF s t])
    show "deadline_index fo_depression ((feet_of s)(t \<mapsto> foot_of (f r))) ds"
    proof (cases "th_depression (f r)")
      case None
      with none put_same(1) [OF Ft _ struct_indexes(1) [OF s], of "foot_of (f r)"] show ?thesis
        by (simp add: ds_def)
    next
      case (Some d)
      with deadline_index_set [where F = "feet_of s" and t = t, OF struct_indexes(1) [OF s] Ft] none
      show ?thesis by (simp add: ds_def)
    qed
    show "foot_of (f r) = (foot_of r)\<lparr>fo_depression := th_depression (f r), fo_release := fo_release (foot_of r),
        fo_usage := fo_usage (foot_of r), fo_last := fo_last (foot_of r)\<rparr>" using f by simp
    show "update t f (s\<lparr>sc_depressions := ds\<rparr>) = update t f (s\<lparr>sc_depressions := ds,
        sc_failsafes := sc_failsafes s, sc_usage := sc_usage s, sc_contexts := sc_contexts s\<rparr>)" by simp
  qed (fact put_same(2) [OF Ft feet(1) struct_indexes(2) [OF s]] put_same(3) [OF Ft feet(2) struct_indexes(3) [OF s]]
    put_same(4) [OF Ft feet(3) struct_indexes(4) [OF s]])+
  ultimately show ?thesis by blast
qed

lemma failsafe_gained:
  assumes s: "struct_ok n s" and t: "thread_of t s = Some r" and none: "\<not> th_failsafe r"
    and f: "foot_of (f r) = (foot_of r)\<lparr>fo_release := Some (th_release (f r))\<rparr>" "th_failsafe (f r)"
  shows "\<exists>s'. index_failsafe t (update t f s) = Some s' \<and> moves n t (f r) 0 s s'"
proof -
  have Ft: "feet_of s t = Some (foot_of r)" using t by (rule feet_at)
  define fs where "fs = insort_insert (th_release (f r), t) (sc_failsafes s)"
  have "index_failsafe t (update t f s) = Some (update t f (s\<lparr>sc_failsafes := fs\<rparr>))"
  proof -
    have at: "thread_of t (update t f s) = Some (f r)" using t by simp
    have "update t f (s\<lparr>sc_failsafes := fs\<rparr>) = (update t f s)\<lparr>sc_failsafes := fs\<rparr>"
      by (simp add: update_def)
    then show ?thesis unfolding index_failsafe_def at by (simp add: fs_def f(2))
  qed
  moreover have feet: "fo_depression (foot_of (f r)) = fo_depression (foot_of r)"
    "fo_usage (foot_of (f r)) = fo_usage (foot_of r)" "fo_last (foot_of (f r)) = fo_last (foot_of r)"
    unfolding f by simp_all
  moreover have "moves n t (f r) 0 s (update t f (s\<lparr>sc_failsafes := fs\<rparr>))"
  proof (rule update_indexes [OF s t])
    show "deadline_index fo_release ((feet_of s)(t \<mapsto> foot_of (f r))) fs"
      using deadline_index_set [where F = "feet_of s" and t = t, OF struct_indexes(2) [OF s] Ft] none f
      by (simp add: fs_def)
    show "foot_of (f r) = (foot_of r)\<lparr>fo_depression := fo_depression (foot_of r),
        fo_release := Some (th_release (f r)),
        fo_usage := fo_usage (foot_of r), fo_last := fo_last (foot_of r)\<rparr>" using f by simp
    show "update t f (s\<lparr>sc_failsafes := fs\<rparr>) = update t f (s\<lparr>sc_depressions := sc_depressions s,
        sc_failsafes := fs, sc_usage := sc_usage s, sc_contexts := sc_contexts s\<rparr>)" by simp
  qed (fact put_same(1) [OF Ft feet(1) struct_indexes(1) [OF s]] put_same(3) [OF Ft feet(2) struct_indexes(3) [OF s]]
    put_same(4) [OF Ft feet(3) struct_indexes(4) [OF s]])+
  ultimately show ?thesis by blast
qed

lemma usage_ok_append:
  assumes "usage_ok F us" "F t = Some g" "fo_usage g = None" "fo_usage f = Some (length us)"
  shows "usage_ok (F(t \<mapsto> f)) (us @ [t])"
proof -
  have old: "i < length us \<and> us ! i = u \<longleftrightarrow> (\<exists>f. F u = Some f \<and> fo_usage f = Some i)" for i u
    using assms(1) by (simp add: usage_ok_def)
  have "i < length (us @ [t]) \<and> (us @ [t]) ! i = u \<longleftrightarrow>
      (\<exists>h. (F(t \<mapsto> f)) u = Some h \<and> fo_usage h = Some i)" for i u
    using old [of i u] assms(2-4) by (cases "i = length us") (auto simp: nth_append)
  then show ?thesis by (simp add: usage_ok_def)
qed

lemma track_usage_ok:
  assumes s: "struct_ok n s" and t: "thread_of t s = Some r"
  shows "\<exists>s' i. track_usage t s = Some s' \<and> moves n t (r\<lparr>th_usage_index := i\<rparr>) 0 s s'"
proof (cases "th_usage_index r")
  case (Some i)
  then have "track_usage t s = Some s" by (simp add: track_usage_def t)
  moreover have "r\<lparr>th_usage_index := th_usage_index r\<rparr> = r" by simp
  ultimately show ?thesis using moves_steps [OF steps_refl [OF s t]] by metis
next
  case None
  have Ft: "feet_of s t = Some (foot_of r)" using t by (rule feet_at)
  define f where "f = (\<lambda>r. r\<lparr>th_usage_index := Some (length (sc_usage s))\<rparr> :: thread_record)"
  have "track_usage t s = Some (update t f (s\<lparr>sc_usage := sc_usage s @ [t]\<rparr>))"
    by (simp add: track_usage_def t None f_def update_def)
  moreover have "moves n t (f r) 0 s (update t f (s\<lparr>sc_usage := sc_usage s @ [t]\<rparr>))"
  proof (rule update_indexes [OF s t])
    show "usage_ok ((feet_of s)(t \<mapsto> foot_of (f r))) (sc_usage s @ [t])"
      using usage_ok_append [where F = "feet_of s" and t = t, OF struct_indexes(3) [OF s] Ft] None
      by (simp add: f_def)
    show "foot_of (f r) = (foot_of r)\<lparr>fo_depression := fo_depression (foot_of r),
        fo_release := fo_release (foot_of r), fo_usage := Some (length (sc_usage s)),
        fo_last := fo_last (foot_of r)\<rparr>" by (simp add: f_def foot_of_def)
    show "update t f (s\<lparr>sc_usage := sc_usage s @ [t]\<rparr>) = update t f (s\<lparr>sc_depressions := sc_depressions s,
        sc_failsafes := sc_failsafes s, sc_usage := sc_usage s @ [t], sc_contexts := sc_contexts s\<rparr>)" by simp
  qed (use put_same [OF Ft] struct_indexes [OF s] in \<open>simp_all add: f_def\<close>)
  ultimately show ?thesis by (auto simp: f_def)
qed

end
