(* ===== verification/Scheduler_Time.thy ===== *)
theory Scheduler_Time
  imports Scheduler_Moves
begin

text \<open>
  The guest scheduler's clock: priorities are recomputed, depressions and failsafe demotions
  expire and usage decays, and every thread stays what it is.
\<close>

section \<open>Recomputing\<close>

lemma base_ok_core: "core r' = core r \<Longrightarrow> base_ok r' \<longleftrightarrow> base_ok r"
  using core_fields [of r' r] by (simp add: base_ok_def)

lemma phase_ok_core: "core r' = core r \<Longrightarrow> phase_ok r' \<longleftrightarrow> phase_ok r"
  using core_fields [of r' r] by (simp add: phase_ok_def suspends_ok_def)

lemma reprice_ok:
  assumes s: "struct_ok n s" and t: "thread_of t s = Some r" and f: "foot_of (f r) = foot_of r"
    and r: "queue_fields_ok n t (f r)" "base_ok (f r)" "th_depressed (f r) \<Longrightarrow> th_scheduled (f r) = 0"
      "phase_ok (f r)"
  shows "\<exists>s' r'. recompute_priority t (update t f s) = Some s' \<and> steps n t r' s s' \<and>
    core r' = core (f r) \<and> record_ok n t r'"
proof -
  have st: "steps n t (f r) s (update t f s)" using s t f by (rule steps_update)
  obtain s' r' where s': "recompute_priority t (update t f s) = Some s'"
    "steps n t r' (update t f s) s'" "core r' = core (f r)" "queue_fields_ok n t r'" "priced r'"
    using recompute_ok [OF stepsD(1,2) [OF st] r(1-3)] by blast
  then have "record_ok n t r'"
    using base_ok_core [OF s'(3)] phase_ok_core [OF s'(3)] r(2,4) by (simp add: record_ok_def)
  with s' steps_trans [OF st s'(2)] show ?thesis by blast
qed

text \<open>What the passage of time leaves alone in a record.\<close>

definition life :: "thread_record \<Rightarrow>
    thread_state \<times> bool \<times> bool \<times> bool \<times> bool \<times> bool \<times> u32 \<times> u64 \<times> nat option" where
  "life r = (th_state r, th_queued r, th_pending r, th_wake r, th_awaiting r, th_resume r,
     th_suspends r, th_user r, th_last r)"

lemma life_core: "core r' = core r \<Longrightarrow> life r' = life r"
  using core_fields [of r' r] by (simp add: life_def)

definition same_lives :: "scheduler \<Rightarrow> scheduler \<Rightarrow> bool" where
  "same_lives s s' \<longleftrightarrow> (\<forall>u. map_option life (thread_of u s') = map_option life (thread_of u s)) \<and>
    sc_process_threads s' = sc_process_threads s \<and> sc_history s' = sc_history s"

lemma same_lives_refl [simp]: "same_lives s s"
  by (simp add: same_lives_def)

lemma same_lives_trans: "same_lives s s1 \<Longrightarrow> same_lives s1 s2 \<Longrightarrow> same_lives s s2"
  by (simp add: same_lives_def)

lemma same_lives_put:
  assumes "thread_of t s = Some r" "(\<lambda>u. thread_of u s') = (\<lambda>u. thread_of u s)(t \<mapsto> r')" "life r' = life r"
    "sc_process_threads s' = sc_process_threads s" "sc_history s' = sc_history s"
  shows "same_lives s s'"
  using assms fun_cong [OF assms(2)] by (simp add: same_lives_def)

lemma restore_depression_ok:
  assumes s: "struct_ok n s" and t: "thread_of t s = Some r"
    and r: "queue_fields_ok n t r" "base_ok r" "priced r" "th_depression r \<noteq> None \<Longrightarrow> th_depressed r"
  shows "\<exists>s' r'. restore_depression t s = Some s' \<and> moves n t r' 0 s s' \<and>
    core r' = core (r\<lparr>th_depressed := False, th_depression := None\<rparr>) \<and>
    queue_fields_ok n t r' \<and> priced r' \<and> sc_history s' = sc_history s \<and>
    sc_depressions s' = (case th_depression r of None \<Rightarrow> sc_depressions s
      | Some d \<Rightarrow> remove1 (d, t) (sc_depressions s))"
proof (cases "th_depressed r")
  case False
  then have "th_depression r = None" using r(4) by blast
  then have "r\<lparr>th_depressed := False, th_depression := None\<rparr> = r" using False by simp
  moreover have "restore_depression t s = Some s" using False by (simp add: restore_depression_def t)
  ultimately show ?thesis
    using moves_steps [OF steps_refl [OF s t]] r(1,3) \<open>th_depression r = None\<close> by auto
next
  case True
  define f where "f = (\<lambda>r. r\<lparr>th_depressed := False, th_depression := None\<rparr> :: thread_record)"
  define ds where "ds = (case th_depression r of None \<Rightarrow> sc_depressions s
    | Some d \<Rightarrow> remove1 (d, t) (sc_depressions s))"
  define s1 where "s1 = update t f (s\<lparr>sc_depressions := ds\<rparr>)"
  have "foot_of (f r) = (foot_of r)\<lparr>fo_depression := None\<rparr>" by (simp add: f_def foot_of_def)
  note dropped = depression_dropped [where f = f, OF s t this ds_def, folded s1_def]
  have "queue_fields_ok n t (f r)" "base_ok (f r)" "\<not> th_depressed (f r)"
    using r by (simp_all add: f_def queue_fields_ok_def base_ok_def)
  with recompute_ok [OF movesD(1,2) [OF dropped(2)]] obtain s' r' where s':
    "recompute_priority t s1 = Some s'" "steps n t r' s1 s'" "core r' = core (f r)"
    "queue_fields_ok n t r'" "priced r'" by blast
  have "restore_depression t s = Some s'"
    using True s'(1) by (simp add: restore_depression_def t dropped(1) s1_def f_def)
  moreover have "moves n t r' 0 s s'"
    using moves_trans [OF dropped(2) moves_steps [OF s'(2)]] by simp
  moreover have "sc_depressions s' = ds" "sc_history s' = sc_history s"
    using rest_fields [OF stepsD(4) [OF s'(2)]] by (simp_all add: s1_def)
  ultimately show ?thesis using s'(3-5) by (auto simp: f_def ds_def)
qed

lemma apply_failsafe_ok:
  assumes s: "struct_ok n s" and t: "thread_of t s = Some r" and r: "record_ok n t r"
  shows "\<exists>s' r'. apply_failsafe t s = Some s' \<and> moves n t r' 0 s s' \<and> record_ok n t r' \<and>
    life r' = life r \<and> sc_history s' = sc_history s"
proof (cases "th_failsafe r")
  case True
  then have "apply_failsafe t s = Some s" by (simp add: apply_failsafe_def t)
  with moves_steps [OF steps_refl [OF s t]] r show ?thesis by blast
next
  case False
  define release where "release = saturating_add (sc_tick s) failsafe_release_ticks"
  define f where "f = (\<lambda>r. r\<lparr>th_saved_base := th_base r, th_saved_timeshare := th_timeshare r,
    th_saved_realtime := th_realtime r, th_realtime := False,
    th_base := (if th_realtime r then minimum_priority else th_base r),
    th_timeshare := True, th_failsafe := True, th_release := release\<rparr> :: thread_record)"
  have "foot_of (f r) = (foot_of r)\<lparr>fo_release := Some (th_release (f r))\<rparr>" "th_failsafe (f r)"
    by (simp_all add: f_def foot_of_def)
  then obtain s1 where s1: "index_failsafe t (update t f s) = Some s1" "moves n t (f r) 0 s s1"
    using failsafe_gained [where f = f, OF s t False] by blast
  have f_ok: "queue_fields_ok n t (f r)" "base_ok (f r)" "phase_ok (f r)" "life (f r) = life r"
    "th_depressed (f r) \<Longrightarrow> th_scheduled (f r) = 0"
    using record_okD [OF r]
    by (auto simp: f_def queue_fields_ok_def base_ok_def phase_ok_def suspends_ok_def life_def
        minimum_priority_def)
  obtain s' r' where s': "recompute_priority t s1 = Some s'" "steps n t r' s1 s'" "core r' = core (f r)"
    "queue_fields_ok n t r'" "priced r'"
    using recompute_ok [OF movesD(1,2) [OF s1(2)] f_ok(1,2,5)] by blast
  have "apply_failsafe t s = Some s'"
    using False s1(1) s'(1) by (simp add: apply_failsafe_def t f_def release_def)
  moreover have "moves n t r' 0 s s'" using moves_trans [OF s1(2) moves_steps [OF s'(2)]] by simp
  moreover have "record_ok n t r'"
    using s'(4,5) base_ok_core [OF s'(3)] phase_ok_core [OF s'(3)] f_ok(2,3) by (simp add: record_ok_def)
  moreover have "sc_history s' = sc_history s"
    using rest_fields(6) [OF stepsD(4) [OF s'(2)]] s1(1) by (auto simp: index_failsafe_def t bind_eq_Some_conv)
  ultimately show ?thesis using life_core [OF s'(3)] f_ok(4) by auto
qed

lemma release_failsafe_ok:
  assumes s: "struct_ok n s" and t: "thread_of t s = Some r" and r: "record_ok n t r"
    and failsafe: "th_failsafe r"
  shows "\<exists>s' r'. release_failsafe t s = Some s' \<and> moves n t r' 0 s s' \<and> record_ok n t r' \<and>
    life r' = life r \<and> sc_history s' = sc_history s \<and>
    sc_failsafes s' = remove1 (th_release r, t) (sc_failsafes s)"
proof -
  define fs where "fs = (if th_failsafe r then remove1 (th_release r, t) (sc_failsafes s) else sc_failsafes s)"
  define f where "f = (\<lambda>r. let r = r\<lparr>th_base := th_saved_base r, th_timeshare := th_saved_timeshare r,
      th_realtime := th_saved_realtime r, th_failsafe := False, th_release := 0, th_metered := 0\<rparr> in
    r\<lparr>th_quantum := quantum_for r (s\<lparr>sc_failsafes := fs\<rparr>)\<rparr> :: thread_record)"
  define s1 where "s1 = update t f (s\<lparr>sc_failsafes := fs\<rparr>)"
  have "foot_of (f r) = (foot_of r)\<lparr>fo_release := None\<rparr>" by (simp add: f_def foot_of_def Let_def)
  note dropped = failsafe_dropped [where f = f, OF s t this fs_def, folded s1_def]
  have f_ok: "queue_fields_ok n t (f r)" "base_ok (f r)" "phase_ok (f r)" "life (f r) = life r"
    "th_depressed (f r) \<Longrightarrow> th_scheduled (f r) = 0"
    using record_okD [OF r]
    by (auto simp: f_def queue_fields_ok_def base_ok_def phase_ok_def suspends_ok_def life_def Let_def)
  obtain s' r' where s': "recompute_priority t s1 = Some s'" "steps n t r' s1 s'" "core r' = core (f r)"
    "queue_fields_ok n t r'" "priced r'"
    using recompute_ok [OF movesD(1,2) [OF dropped(2)] f_ok(1,2,5)] by blast
  have "release_failsafe t s = Some s'"
    using failsafe s'(1) by (simp add: release_failsafe_def t dropped(1) s1_def f_def)
  moreover have "moves n t r' 0 s s'" using moves_trans [OF dropped(2) moves_steps [OF s'(2)]] by simp
  moreover have "record_ok n t r'"
    using s'(4,5) base_ok_core [OF s'(3)] phase_ok_core [OF s'(3)] f_ok(2,3) by (simp add: record_ok_def)
  moreover have "sc_history s' = sc_history s" "sc_failsafes s' = fs"
    using rest_fields [OF stepsD(4) [OF s'(2)]] by (simp_all add: s1_def)
  ultimately show ?thesis using life_core [OF s'(3)] f_ok(4) failsafe by (auto simp: fs_def)
qed

lemma sched_ok_life:
  assumes s: "sched_ok n s" and t: "thread_of t s = Some r" and m: "moves n t r' 0 s s'"
    and r': "record_ok n t r'" "life r' = life r" "sc_history s' = sc_history s"
  shows "sched_ok n s' \<and> same_lives s s'"
proof
  have "th_state r' = th_state r" using r'(2) by (simp add: life_def)
  then show "sched_ok n s'" using sched_ok_moves [OF s t m r'(1)] by simp
  show "same_lives s s'"
    using same_lives_put [OF t movesD(4) [OF m] r'(2) config_fields(1) [OF movesD(6) [OF m]] r'(3)] .
qed

lemma depression_loop_ok:
  assumes "sched_ok n s" "length (sc_depressions s) < k"
  shows "\<exists>s'. depression_loop k s = Some s' \<and> sched_ok n s' \<and> same_lives s s'"
  using assms
proof (induction k arbitrary: s)
  case (Suc k)
  note s = Suc.prems(1)
  show ?case
  proof (cases "sc_depressions s")
    case Nil
    with s show ?thesis by simp
  next
    case (Cons e others)
    obtain d t where e: "e = (d, t)" by (cases e)
    show ?thesis
    proof (cases "sc_elapsed s < d")
      case True
      with s Cons e show ?thesis by simp
    next
      case False
      have "(d, t) \<in> set (sc_depressions s)" using Cons e by simp
      then obtain g where "feet_of s t = Some g" "fo_depression g = Some d"
        using struct_indexes(1) [OF sched_okD(1) [OF s]] by (auto simp: deadline_index_def)
      then obtain r where t: "thread_of t s = Some r" "th_depression r = Some d"
        by (auto simp: feet_of_def)
      note r = sched_okD(2) [OF s t(1)]
      have depressed: "th_depressed r" using record_okD(4) [OF r] t(2) by (simp add: phase_ok_def)
      obtain s1 r1 where s1: "restore_depression t s = Some s1" "moves n t r1 0 s s1"
        "core r1 = core (r\<lparr>th_depressed := False, th_depression := None\<rparr>)"
        "queue_fields_ok n t r1" "priced r1" "sc_history s1 = sc_history s"
        "sc_depressions s1 = remove1 (d, t) (sc_depressions s)"
        using restore_depression_ok [OF sched_okD(1) [OF s] t(1) record_okD(1-3) [OF r]] depressed t(2) by auto
      have "record_ok n t r1"
        using s1(4,5) record_okD [OF r] base_ok_core [OF s1(3)] phase_ok_core [OF s1(3)]
        by (simp add: record_ok_def base_ok_def phase_ok_def suspends_ok_def)
      moreover have "life r1 = life r" using life_core [OF s1(3)] by (simp add: life_def)
      ultimately have after: "sched_ok n s1" "same_lives s s1"
        using sched_ok_life [OF s t(1) s1(2) _ _ s1(6)] by blast+
      have "length (sc_depressions s1) < k" using s1(7) Cons e Suc.prems(2) by simp
      with Suc.IH after(1) obtain s' where "depression_loop k s1 = Some s'" "sched_ok n s'" "same_lives s1 s'"
        by blast
      moreover have "depression_loop (Suc k) s = depression_loop k s1"
        using Cons e False t depressed s1(1) by simp
      ultimately show ?thesis using same_lives_trans [OF after(2)] by auto
    qed
  qed
qed simp

lemma failsafe_loop_ok:
  assumes "sched_ok n s" "length (sc_failsafes s) < k"
  shows "\<exists>s'. failsafe_loop k s = Some s' \<and> sched_ok n s' \<and> same_lives s s'"
  using assms
proof (induction k arbitrary: s)
  case (Suc k)
  note s = Suc.prems(1)
  show ?case
  proof (cases "sc_failsafes s")
    case Nil
    with s show ?thesis by simp
  next
    case (Cons e others)
    obtain d t where e: "e = (d, t)" by (cases e)
    show ?thesis
    proof (cases "sc_tick s < d")
      case True
      with s Cons e show ?thesis by simp
    next
      case False
      have "(d, t) \<in> set (sc_failsafes s)" using Cons e by simp
      then obtain g where "feet_of s t = Some g" "fo_release g = Some d"
        using struct_indexes(2) [OF sched_okD(1) [OF s]] by (auto simp: deadline_index_def)
      then obtain r where t: "thread_of t s = Some r" "th_failsafe r" "th_release r = d"
        by (auto simp: feet_of_def split: if_splits)
      obtain s1 r1 where s1: "release_failsafe t s = Some s1" "moves n t r1 0 s s1" "record_ok n t r1"
        "life r1 = life r" "sc_history s1 = sc_history s"
        "sc_failsafes s1 = remove1 (d, t) (sc_failsafes s)"
        using release_failsafe_ok [OF sched_okD(1) [OF s] t(1) sched_okD(2) [OF s t(1)] t(2)] t(3) by auto
      have after: "sched_ok n s1" "same_lives s s1"
        using sched_ok_life [OF s t(1) s1(2-5)] by blast+
      have "length (sc_failsafes s1) < k" using s1(6) Cons e Suc.prems(2) by simp
      with Suc.IH after(1) obtain s' where "failsafe_loop k s1 = Some s'" "sched_ok n s'" "same_lives s1 s'"
        by blast
      moreover have "failsafe_loop (Suc k) s = failsafe_loop k s1"
        using Cons e False t s1(1) by simp
      ultimately show ?thesis using same_lives_trans [OF after(2)] by auto
    qed
  qed
qed simp

section \<open>Usage\<close>

lemma age_thread_ok:
  assumes s: "sched_ok n s" and t: "thread_of t s = Some r"
  shows "\<exists>s' r'. age_thread elapsed t s = Some s' \<and> sched_ok n s' \<and> same_lives s s' \<and>
    thread_of t s' = Some r' \<and> th_usage_index r' = th_usage_index r \<and> sc_usage s' = sc_usage s"
proof -
  define f where "f = (\<lambda>r. r\<lparr>th_shift := processor_set_priority_shift r s,
      th_usage := decay_usage (th_usage r) elapsed, th_cpu := decay_usage (th_cpu r) elapsed,
      th_stamp := sc_tick s\<rparr> :: thread_record)"
  have foot: "foot_of (f r) = foot_of r" by (simp add: f_def foot_of_def)
  have "queue_fields_ok n t (f r)" "base_ok (f r)" "phase_ok (f r)"
    "th_depressed (f r) \<Longrightarrow> th_scheduled (f r) = 0"
    using record_okD [OF sched_okD(2) [OF s t]]
    by (auto simp: f_def queue_fields_ok_def base_ok_def phase_ok_def suspends_ok_def)
  with reprice_ok [where f = f, OF sched_okD(1) [OF s] t foot] obtain s' r' where s':
    "recompute_priority t (update t f s) = Some s'" "steps n t r' s s'" "core r' = core (f r)"
    "record_ok n t r'" by blast
  have "life r' = life r" using life_core [OF s'(3)] by (simp add: life_def f_def)
  moreover have "sc_history s' = sc_history s" "sc_usage s' = sc_usage s"
    using rest_fields [OF stepsD(4) [OF s'(2)]] by simp_all
  ultimately show ?thesis
    using sched_ok_life [OF s t moves_steps [OF s'(2)] s'(4)] s'(1) stepsD(2) [OF s'(2)] core_fields(17) [OF s'(3)]
    by (auto simp: age_thread_def f_def)
qed

lemma usage_index_iff:
  "usage_ok F us \<Longrightarrow> F t = Some f \<Longrightarrow> fo_usage f = Some i \<longleftrightarrow> i < length us \<and> us ! i = t"
  unfolding usage_ok_def by (metis option.inject)

lemma usage_ok_remove:
  assumes us: "usage_ok F us" and t: "F t = Some g" "fo_usage g = Some i" and f: "fo_usage f = None"
    and last: "F (last us) = Some h"
  shows "usage_ok ((F(last us \<mapsto> h\<lparr>fo_usage := Some i\<rparr>))(t \<mapsto> f)) (butlast (us[i := last us]))"
proof -
  let ?l = "last us" and ?m = "length us - 1"
  have i: "i < length us" "us ! i = t" using usage_index_iff [OF us t(1)] t(2) by blast+
  have "us \<noteq> []" using i by auto
  then have l: "?l = us ! ?m" by (simp add: last_conv_nth)
  have len: "length (butlast (us[i := ?l])) = ?m" by simp
  have at: "butlast (us[i := ?l]) ! j = (if j = i then ?l else us ! j)" if "j < ?m" for j
    using that i by (simp add: nth_butlast nth_list_update)
  have old: "j < length us \<and> us ! j = u \<longleftrightarrow> (\<exists>f. F u = Some f \<and> fo_usage f = Some j)" for j u
    using us by (simp add: usage_ok_def)
  have unique: "j = k" if "j < length us" "k < length us" "us ! j = us ! k" for j k
    using old [of j "us ! j"] old [of k "us ! j"] that by auto
  have "j < ?m \<and> butlast (us[i := ?l]) ! j = u \<longleftrightarrow>
      (\<exists>f'. ((F(?l \<mapsto> h\<lparr>fo_usage := Some i\<rparr>))(t \<mapsto> f)) u = Some f' \<and> fo_usage f' = Some j)" for j u
  proof -
    consider "u = t" | "u \<noteq> t" "u = ?l" | "u \<noteq> t" "u \<noteq> ?l" by blast
    then show ?thesis
    proof cases
      case 1
      have "\<not> (j < ?m \<and> butlast (us[i := ?l]) ! j = t)"
      proof
        assume j: "j < ?m \<and> butlast (us[i := ?l]) ! j = t"
        then have same: "(if j = i then us ! ?m else us ! j) = us ! i" using at [of j] i l by simp
        show False
        proof (cases "j = i")
          case True
          then have "?m = i" using same i(1) by (intro unique) simp_all
          with True j show False by simp
        next
          case False
          have "j < length us" using j by linarith
          then have "j = i" using same False i(1) by (intro unique) simp_all
          with False show False ..
        qed
      qed
      with 1 f show ?thesis by simp
    next
      case 2
      then have "i \<noteq> ?m" using i l by auto
      then have im: "i < ?m" using i(1) by linarith
      have "us ! j \<noteq> ?l" if "j < ?m" for j
      proof
        assume "us ! j = ?l"
        then have "j = ?m" using that l i(1) by (intro unique) simp_all
        with that show False by simp
      qed
      then have "j < ?m \<and> butlast (us[i := ?l]) ! j = ?l \<longleftrightarrow> j = i"
        using at [of j] im by (cases "j = i") simp_all
      with 2 show ?thesis by auto
    next
      case 3
      have "j < ?m \<and> butlast (us[i := ?l]) ! j = u \<longleftrightarrow> j < length us \<and> us ! j = u"
      proof (cases "j < ?m")
        case True
        with at [OF True] i 3 show ?thesis by (cases "j = i") auto
      next
        case False
        with l 3 show ?thesis by (cases "j = ?m") auto
      qed
      with 3 old [of j u] show ?thesis by auto
    qed
  qed
  then show ?thesis by (simp add: usage_ok_def len)
qed

definition unplaced :: "thread_record \<Rightarrow> thread_record" where
  "unplaced r = r\<lparr>th_usage_index := None\<rparr>"

lemma unplaced_record [simp]:
  "record_ok n t (unplaced r) = record_ok n t r" "life (unplaced r) = life r"
  "th_state (unplaced r) = th_state r"
  by (simp_all add: unplaced_def record_ok_def queue_fields_ok_def base_ok_def priced_def phase_ok_def
      suspends_ok_def life_def)

text \<open>The records keep all but their places among the usage records.\<close>

lemma untrack_usage_struct:
  assumes st: "struct_ok n s" and t: "thread_of t s = Some r"
  shows "\<exists>s'. untrack_usage t s = Some s' \<and> struct_ok n s' \<and> thread_of t s' = Some (unplaced r) \<and>
    (\<forall>u. map_option unplaced (thread_of u s') = map_option unplaced (thread_of u s)) \<and>
    s' = s\<lparr>sc_threads := sc_threads s', sc_usage := sc_usage s'\<rparr> \<and>
    length (sc_usage s') = length (sc_usage s) - of_bool (th_usage_index r \<noteq> None)"
proof (cases "th_usage_index r")
  case None
  then have "unplaced r = r" by (simp add: unplaced_def)
  with None st t show ?thesis by (auto simp: untrack_usage_def)
next
  case (Some i)
  let ?F = "feet_of s" and ?us = "sc_usage s" and ?l = "last (sc_usage s)"
  note index = struct_indexes [OF st]
  have Ft: "?F t = Some (foot_of r)" using t by (rule feet_at)
  have i: "i < length ?us" "?us ! i = t" using usage_index_iff [OF index(3) Ft, of i] Some by simp_all
  then have "?us \<noteq> []" by auto
  then have "?l = ?us ! (length ?us - 1)" by (simp add: last_conv_nth)
  then have "\<exists>f. ?F ?l = Some f \<and> fo_usage f = Some (length ?us - 1)"
    using index(3) i unfolding usage_ok_def by (metis One_nat_def Suc_pred' length_greater_0_conv length_pos_if_in_set lessI nth_mem)
  then obtain r2 where l: "thread_of ?l s = Some r2" by (auto simp: feet_of_def)
  define r3 where "r3 = r2\<lparr>th_usage_index := Some i\<rparr>"
  define s1 where "s1 = update ?l (\<lambda>r. r\<lparr>th_usage_index := Some i\<rparr>) s"
  define s2 where "s2 = update t (\<lambda>r. r\<lparr>th_usage_index := None\<rparr>) s1"
  define s' where "s' = s2\<lparr>sc_usage := butlast (?us[i := ?l])\<rparr>"
  have threads1: "(\<lambda>u. thread_of u s1) = (\<lambda>u. thread_of u s)(?l \<mapsto> r3)"
    using thread_update [OF l] by (simp add: s1_def r3_def)
  define r4 where "r4 = (if t = ?l then r3 else r)"
  have t1: "thread_of t s1 = Some r4" using fun_cong [OF threads1, of t] t by (simp add: r4_def)
  define r5 where "r5 = r4\<lparr>th_usage_index := None\<rparr>"
  have "(\<lambda>u. thread_of u s2) = (\<lambda>u. thread_of u s1)(t \<mapsto> r5)"
    using thread_update [OF t1] by (simp add: s2_def r5_def)
  then have threads: "(\<lambda>u. thread_of u s') = (\<lambda>u. thread_of u s)(?l \<mapsto> r3, t \<mapsto> r5)"
    unfolding threads1 by (simp add: s'_def thread_of_def fun_eq_iff)
  have result: "untrack_usage t s = Some s'"
    using Some i by (simp add: untrack_usage_def t Let_def s'_def s2_def s1_def)
  have feet: "feet_of s' = ?F(?l \<mapsto> foot_of r3, t \<mapsto> foot_of r5)"
    using fun_cong [OF threads] by (simp add: feet_of_def fun_eq_iff)
  have Fl: "?F ?l = Some (foot_of r2)" using l by (rule feet_at)
  have G: "(?F(?l \<mapsto> foot_of r3)) t = Some (foot_of r4)" using Ft by (simp add: r4_def)
  have fin: "finite (dom (?F(?l \<mapsto> foot_of r3)))" by simp
  have feet3: "foot_of r3 = (foot_of r2)\<lparr>fo_usage := Some i\<rparr>" by (simp add: r3_def foot_of_def)
  have feet5: "foot_of r5 = (foot_of r4)\<lparr>fo_usage := None\<rparr>" by (simp add: r5_def foot_of_def)
  have struct: "struct_ok n s'"
    unfolding struct_ok_def feet
  proof (intro conjI)
    show "ordered (sc_threads s')" using struct_ordered [OF st] by (simp add: s'_def s2_def s1_def)
    have "queues_ok n (?F(?l \<mapsto> foot_of r3)) s"
      using st by (intro queues_ok_put [OF _ finite_feet Fl]) (simp_all add: struct_ok_def feet3)
    then show "queues_ok n (?F(?l \<mapsto> foot_of r3, t \<mapsto> foot_of r5)) s'"
      by (rule queues_ok_put [OF _ fin G]) (simp_all add: feet5 s'_def s2_def s1_def)
    have "counts_ok (?F(?l \<mapsto> foot_of r3)) s"
      using st by (intro counts_ok_put [where F = ?F and t = ?l, OF _ finite_feet Fl]) (simp_all add: struct_ok_def feet3)
    then show "counts_ok (?F(?l \<mapsto> foot_of r3, t \<mapsto> foot_of r5)) s'"
      by (rule counts_ok_put [where t = t, OF _ fin G]) (simp_all add: feet5 s'_def s2_def s1_def)
    have usage: "usage_ok (?F(?l \<mapsto> foot_of r3, t \<mapsto> foot_of r5)) (butlast (?us[i := ?l]))"
      unfolding feet3 by (rule usage_ok_remove [OF index(3) Ft _ _ Fl]) (simp_all add: Some feet5)
    have "deadline_index fo_depression (?F(?l \<mapsto> foot_of r3)) (sc_depressions s)"
      "deadline_index fo_release (?F(?l \<mapsto> foot_of r3)) (sc_failsafes s)"
      "contexts_ok n (?F(?l \<mapsto> foot_of r3)) (sc_contexts s)"
      by (rule deadline_index_same [where t = ?l, OF index(1) Fl] deadline_index_same [where t = ?l, OF index(2) Fl]
          contexts_ok_same [where t = ?l, OF index(4) Fl]; simp add: feet3)+
    note first = this
    have "deadline_index fo_depression (?F(?l \<mapsto> foot_of r3, t \<mapsto> foot_of r5)) (sc_depressions s)"
      "deadline_index fo_release (?F(?l \<mapsto> foot_of r3, t \<mapsto> foot_of r5)) (sc_failsafes s)"
      "contexts_ok n (?F(?l \<mapsto> foot_of r3, t \<mapsto> foot_of r5)) (sc_contexts s)"
      by (rule deadline_index_same [where t = t, OF first(1) G] deadline_index_same [where t = t, OF first(2) G]
          contexts_ok_same [where t = t, OF first(3) G]; simp add: feet5)+
    with usage show "indexes_ok n (?F(?l \<mapsto> foot_of r3, t \<mapsto> foot_of r5)) s'"
      by (simp add: indexes_ok_def s'_def s2_def s1_def)
  qed
  have "map_option unplaced (thread_of u s') = map_option unplaced (thread_of u s)" for u
    using fun_cong [OF threads, of u] t l by (auto simp: r5_def r4_def r3_def unplaced_def)
  moreover have "thread_of t s' = Some (unplaced r)"
    using fun_cong [OF threads, of t] t l by (auto simp: r5_def r4_def r3_def unplaced_def)
  moreover have "s' = s\<lparr>sc_threads := sc_threads s', sc_usage := sc_usage s'\<rparr>"
    by (simp add: s'_def s2_def s1_def update_def)
  moreover have "length (sc_usage s') = length ?us - 1" using i by (simp add: s'_def)
  ultimately show ?thesis using result struct Some by auto
qed

lemma unplaced_feet:
  assumes "\<And>u. map_option unplaced (thread_of u s') = map_option unplaced (thread_of u s)"
  shows "feet_of s' u \<noteq> None \<longleftrightarrow> feet_of s u \<noteq> None"
    "tally (\<lambda>_ f. fo_state f = Waiting) (feet_of s') = tally (\<lambda>_ f. fo_state f = Waiting) (feet_of s)"
proof -
  have some: "thread_of u s' = None \<longleftrightarrow> thread_of u s = None" for u
    using assms [of u] by (cases "thread_of u s'"; cases "thread_of u s") simp_all
  then show "feet_of s' u \<noteq> None \<longleftrightarrow> feet_of s u \<noteq> None" by (simp add: feet_of_def)
  have state: "map_option th_state (thread_of u s') = map_option th_state (thread_of u s)" for u
    using arg_cong [OF assms [of u], of "map_option th_state"] by (simp add: option.map_comp comp_def)
  have "(\<exists>f. feet_of s' u = Some f \<and> fo_state f = Waiting) \<longleftrightarrow>
      (\<exists>f. feet_of s u = Some f \<and> fo_state f = Waiting)" for u
    using state [of u] by (cases "thread_of u s'"; cases "thread_of u s") (auto simp: feet_of_def)
  then show "tally (\<lambda>_ f. fo_state f = Waiting) (feet_of s') = tally (\<lambda>_ f. fo_state f = Waiting) (feet_of s)"
    by (simp add: tally_def)
qed

lemma unplaced_at:
  assumes "\<And>u. map_option unplaced (thread_of u s') = map_option unplaced (thread_of u s)"
    "thread_of u s' = Some r'"
  shows "\<exists>r. thread_of u s = Some r \<and> unplaced r' = unplaced r"
  using assms(1) [of u] assms(2) by (cases "thread_of u s") simp_all

lemma untrack_usage_ok:
  assumes s: "sched_ok n s" and t: "thread_of t s = Some r"
  shows "\<exists>s'. untrack_usage t s = Some s' \<and> sched_ok n s' \<and> same_lives s s' \<and>
    length (sc_usage s') = length (sc_usage s) - of_bool (th_usage_index r \<noteq> None)"
proof -
  obtain s' where s': "untrack_usage t s = Some s'" "struct_ok n s'"
    "\<And>u. map_option unplaced (thread_of u s') = map_option unplaced (thread_of u s)"
    "s' = s\<lparr>sc_threads := sc_threads s', sc_usage := sc_usage s'\<rparr>"
    "length (sc_usage s') = length (sc_usage s) - of_bool (th_usage_index r \<noteq> None)"
    using untrack_usage_struct [OF sched_okD(1) [OF s] t] by blast
  note feet = unplaced_feet [OF s'(3)]
  have fields: "sc_process_threads s' = sc_process_threads s" "sc_process_runnable s' = sc_process_runnable s"
    "sc_history s' = sc_history s" "sc_waiting s' = sc_waiting s" "sc_minimum_user s' = sc_minimum_user s"
    by (subst s'(4), simp)+
  have "record_ok n u r'" if "thread_of u s' = Some r'" for u r'
    using unplaced_at [OF s'(3) that] sched_okD(2) [OF s] unplaced_record(1) by metis
  moreover have "processes_ok (feet_of s') s'"
    using sched_okD(3) [OF s] unfolding processes_ok_def feet(1) fields by simp
  moreover have "waiting_balance s' = 0"
    using sched_okD(4) [OF s] by (simp add: waiting_balance_def feet(2) fields)
  ultimately have "sched_ok n s'" using s'(2) sched_okD(5,6) [OF s] by (simp add: sched_ok_def fields)
  moreover have "map_option life (thread_of u s') = map_option life (thread_of u s)" for u
    using arg_cong [OF s'(3) [of u], of "map_option life"] by (simp add: option.map_comp comp_def)
  then have "same_lives s s'" by (simp add: same_lives_def fields)
  ultimately show ?thesis using s'(1,5) by blast
qed

text \<open>Every turn looks at the next record or drops the present one, so the turns are enough.\<close>

lemma usage_loop_ok:
  assumes "sched_ok n s" "length (sc_usage s) < i + k" "i \<le> length (sc_usage s)"
  shows "\<exists>s'. usage_loop k i elapsed s = Some s' \<and> sched_ok n s' \<and> same_lives s s'"
  using assms
proof (induction k arbitrary: s i)
  case (Suc k)
  note s = Suc.prems(1)
  show ?case
  proof (cases "length (sc_usage s) \<le> i")
    case True
    with s show ?thesis by simp
  next
    case False
    let ?t = "sc_usage s ! i"
    have i: "i < length (sc_usage s)" using False by simp
    then obtain g where "feet_of s ?t = Some g" "fo_usage g = Some i"
      using struct_indexes(3) [OF sched_okD(1) [OF s]] by (auto simp: usage_ok_def)
    then obtain r where t: "thread_of ?t s = Some r" "th_usage_index r = Some i"
      by (auto simp: feet_of_def)
    obtain s1 r1 where s1: "age_thread elapsed ?t s = Some s1" "sched_ok n s1" "same_lives s s1"
      "thread_of ?t s1 = Some r1" "th_usage_index r1 = Some i" "sc_usage s1 = sc_usage s"
      using age_thread_ok [OF s t(1), of elapsed] t(2) by auto
    show ?thesis
    proof (cases "\<not> th_pending r1 \<and> th_cpu r1 = 0 \<and> th_usage r1 = 0")
      case True
      obtain s2 where s2: "untrack_usage ?t s1 = Some s2" "sched_ok n s2" "same_lives s1 s2"
        "length (sc_usage s2) = length (sc_usage s) - 1"
        using untrack_usage_ok [OF s1(2,4)] s1(5,6) by auto
      then obtain s' where "usage_loop k i elapsed s2 = Some s'" "sched_ok n s'" "same_lives s2 s'"
        using Suc.IH [of s2 i] Suc.prems(2) i by force
      moreover have "usage_loop (Suc k) i elapsed s = usage_loop k i elapsed s2"
        using i s1(1,4) True s2(1) by simp
      ultimately show ?thesis using same_lives_trans [OF same_lives_trans [OF s1(3) s2(3)]] by auto
    next
      case False
      obtain s' where "usage_loop k (i + 1) elapsed s1 = Some s'" "sched_ok n s'" "same_lives s1 s'"
        using Suc.IH [of s1 "i + 1"] Suc.prems(2) i s1(2,6) by force
      moreover have "usage_loop (Suc k) i elapsed s = usage_loop k (i + 1) elapsed s1"
        using i s1(1,4) False by (auto simp del: usage_loop.simps simp: usage_loop.simps(2))
      ultimately show ?thesis using same_lives_trans [OF s1(3)] by auto
    qed
  qed
qed simp

section \<open>Clocks\<close>

lemma clock_fields [simp]:
  "thread_of t (s\<lparr>sc_elapsed := a\<rparr>) = thread_of t s"
  "thread_of t (s\<lparr>sc_realtime_clock := a\<rparr>) = thread_of t s"
  "thread_of t (s\<lparr>sc_external_clock := e\<rparr>) = thread_of t s"
  "thread_of t (s\<lparr>sc_since_tick := a\<rparr>) = thread_of t s"
  "thread_of t (s\<lparr>sc_tick := a\<rparr>) = thread_of t s"
  "thread_of t (s\<lparr>sc_task_qos := q\<rparr>) = thread_of t s"
  by (simp_all add: thread_of_def)

lemma sched_ok_clock [simp]:
  "sched_ok n (s\<lparr>sc_elapsed := a\<rparr>) = sched_ok n s"
  "sched_ok n (s\<lparr>sc_realtime_clock := a\<rparr>) = sched_ok n s"
  "sched_ok n (s\<lparr>sc_external_clock := e\<rparr>) = sched_ok n s"
  "sched_ok n (s\<lparr>sc_since_tick := a\<rparr>) = sched_ok n s"
  "sched_ok n (s\<lparr>sc_tick := a\<rparr>) = sched_ok n s"
  "sched_ok n (s\<lparr>sc_task_qos := q\<rparr>) = sched_ok n s"
  by (simp_all add: sched_ok_def struct_ok_def queues_ok_def counts_ok_def indexes_ok_def
      processes_ok_def waiting_balance_def feet_of_def)

lemma same_lives_clock [simp]:
  "same_lives (s\<lparr>sc_elapsed := a\<rparr>) s' = same_lives s s'"
  "same_lives (s\<lparr>sc_realtime_clock := a\<rparr>) s' = same_lives s s'"
  "same_lives (s\<lparr>sc_since_tick := a\<rparr>) s' = same_lives s s'"
  "same_lives (s\<lparr>sc_tick := a\<rparr>) s' = same_lives s s'"
  by (simp_all add: same_lives_def)

lemma age_priorities_ok:
  assumes "sched_ok n s"
  shows "\<exists>s'. age_priorities elapsed s = Some s' \<and> sched_ok n s' \<and> same_lives s s'"
proof -
  obtain s1 where s1: "failsafe_loop (Suc (length (sc_failsafes s))) s = Some s1" "sched_ok n s1"
    "same_lives s s1" using failsafe_loop_ok [OF assms, of "Suc (length (sc_failsafes s))"] by auto
  obtain s2 where "usage_loop (Suc (length (sc_usage s1))) 0 elapsed s1 = Some s2" "sched_ok n s2"
    "same_lives s1 s2" using usage_loop_ok [OF s1(2), of 0 "Suc (length (sc_usage s1))" elapsed] by auto
  with s1 same_lives_trans [OF s1(3)] show ?thesis
    by (auto simp del: failsafe_loop.simps usage_loop.simps simp: age_priorities_def)
qed

lemma advance_scheduler_time_ok:
  assumes s: "sched_ok n s"
  shows "\<exists>s'. advance_scheduler_time consumed s = Some s' \<and> sched_ok n s' \<and> same_lives s s'"
proof -
  define s1 where "s1 = s\<lparr>sc_elapsed := saturating_add (sc_elapsed s) consumed,
    sc_realtime_clock := (if sc_external_clock s then sc_realtime_clock s
      else saturating_add (sc_elapsed s) consumed)\<rparr>"
  have s1: "sched_ok n s1" "same_lives s s1" using s by (simp_all add: s1_def same_lives_def)
  obtain s2 where s2: "expire_depressions s1 = Some s2" "sched_ok n s2" "same_lives s1 s2"
    using depression_loop_ok [OF s1(1), of "Suc (length (sc_depressions s1))"]
    by (auto simp del: depression_loop.simps simp: expire_depressions_def)
  define since where "since = saturating_add (sc_since_tick s2) consumed"
  define s3 where "s3 = s2\<lparr>sc_since_tick := since mod sc_tick_ticks s2\<rparr>"
  define ticks where "ticks = since div sc_tick_ticks s2"
  have s3: "sched_ok n s3" "same_lives s s3"
    using s2(2) same_lives_trans [OF s1(2) s2(3)] by (simp_all add: s3_def same_lives_def)
  have run: "advance_scheduler_time consumed s = (if ticks = 0 then Some s3
      else age_priorities ticks (s3\<lparr>sc_tick := saturating_add (sc_tick s3) ticks\<rparr>))"
    using s2(1) by (simp add: advance_scheduler_time_def s1_def s3_def ticks_def since_def Let_def)
  show ?thesis
  proof (cases "ticks = 0")
    case True
    with run s3 show ?thesis by simp
  next
    case False
    define s4 where "s4 = s3\<lparr>sc_tick := saturating_add (sc_tick s3) ticks\<rparr>"
    have "sched_ok n s4" using s3(1) by (simp add: s4_def)
    then obtain s' where "age_priorities ticks s4 = Some s'" "sched_ok n s'" "same_lives s4 s'"
      using age_priorities_ok by blast
    with run False s3 show ?thesis by (auto simp: s4_def intro: same_lives_trans)
  qed
qed

lemma synchronize_time_ok:
  assumes "sched_ok n s"
  shows "\<exists>s'. synchronize_time elapsed s = Some s' \<and> sched_ok n s' \<and> same_lives s s'"
  using assms advance_scheduler_time_ok [OF assms] by (simp add: synchronize_time_def)

lemma realtime_clock_ok: "sched_ok n s \<Longrightarrow> sched_ok n (set_realtime_clock_ticks elapsed s)"
  by (simp add: set_realtime_clock_ticks_def)

end
