(* ===== verification/Scheduler_Policies.thy ===== *)
theory Scheduler_Policies
  imports Scheduler_Time
begin

text \<open>
  The operations that set the policy of a thread keep the invariant of the guest scheduler:
  base priorities, quality of service, depression, binding and realtime parameters.
\<close>

section \<open>Keeping the invariant\<close>

definition kept :: "nat \<Rightarrow> scheduler option \<Rightarrow> bool" where
  "kept n x \<longleftrightarrow> (case x of None \<Rightarrow> False | Some s \<Rightarrow> sched_ok n s)"

definition keeps :: "nat \<Rightarrow> ('a \<times> scheduler) option \<Rightarrow> bool" where
  "keeps n x \<longleftrightarrow> kept n (map_option snd x)"

lemma kept_simps [simp]: "kept n (Some s) = sched_ok n s" "\<not> kept n None"
  by (simp_all add: kept_def)

lemma keeps_simps [simp]: "keeps n (Some (b, s)) = sched_ok n s" "\<not> keeps n None"
  "keeps n (map_option (Pair c) x) = kept n x"
  by (auto simp: keeps_def kept_def option.map_comp split: option.split)

lemma kept_iff: "kept n x \<longleftrightarrow> (\<exists>s. x = Some s \<and> sched_ok n s)"
  by (simp add: kept_def split: option.split)

lemma keeps_iff: "keeps n x \<longleftrightarrow> (\<exists>b s. x = Some (b, s) \<and> sched_ok n s)"
  by (auto simp: keeps_def kept_iff)

lemma kept_bind: "kept n x \<Longrightarrow> (\<And>s. x = Some s \<Longrightarrow> sched_ok n s \<Longrightarrow> kept n (f s)) \<Longrightarrow> kept n (x \<bind> f)"
  by (auto simp: kept_iff)

lemma keeps_bind:
  "keeps n x \<Longrightarrow> (\<And>b s. x = Some (b, s) \<Longrightarrow> sched_ok n s \<Longrightarrow> keeps n (f (b, s))) \<Longrightarrow> keeps n (x \<bind> f)"
  by (auto simp: keeps_iff)

lemma keeps_kept_bind: "kept n x \<Longrightarrow> (\<And>s. sched_ok n s \<Longrightarrow> keeps n (f s)) \<Longrightarrow> keeps n (x \<bind> f)"
  by (auto simp: kept_iff)

lemma kept_keeps: "keeps n x \<Longrightarrow> kept n (map_option snd x)"
  by (simp add: keeps_def)

lemma kept_for_each:
  assumes "sched_ok n s" "\<And>t s. sched_ok n s \<Longrightarrow> kept n (f t s)"
  shows "kept n (for_each f ts s)"
  using assms(1)
proof (induction ts arbitrary: s)
  case (Cons t ts)
  then show ?case by (auto intro!: kept_bind assms(2))
qed simp

lemma keeps_count_each:
  assumes "sched_ok n s" "\<And>t s. sched_ok n s \<Longrightarrow> keeps n (f t s)"
  shows "keeps n (count_each f ts s)"
  using assms(1)
proof (induction ts arbitrary: s)
  case (Cons t ts)
  then show ?case by (auto intro!: keeps_bind assms(2))
qed simp

lemma kept_moves:
  assumes "sched_ok n s" "thread_of t s = Some r"
    and "\<exists>s' r'. x = Some s' \<and> moves n t r' w s s' \<and> record_ok n t r' \<and>
      w = of_bool (th_state r' = Waiting) - of_bool (th_state r = Waiting)"
  shows "kept n x"
  using assms(3) sched_ok_moves [OF assms(1,2)] by (auto simp: kept_iff)

lemma update_keeps:
  assumes s: "sched_ok n s" and t: "thread_of t s = Some r"
    and f: "foot_of (f r) = foot_of r" "record_ok n t (f r)"
  shows "sched_ok n (update t f s)"
proof -
  have "th_state (f r) = th_state r" using arg_cong [OF f(1), of fo_state] by simp
  with sched_ok_moves [OF s t moves_steps [OF steps_update [where f = f, OF sched_okD(1) [OF s] t f(1)]] f(2)]
  show ?thesis by simp
qed

lemma reprice_keeps:
  assumes s: "sched_ok n s" and t: "thread_of t s = Some r"
    and f: "foot_of (f r) = foot_of r" "queue_fields_ok n t (f r)" "base_ok (f r)"
      "th_depressed (f r) \<Longrightarrow> th_scheduled (f r) = 0" "phase_ok (f r)"
  shows "kept n (recompute_priority t (update t f s))"
proof -
  obtain s' r' where s': "recompute_priority t (update t f s) = Some s'" "steps n t r' s s'"
    "core r' = core (f r)" "record_ok n t r'"
    using reprice_ok [where f = f, OF sched_okD(1) [OF s] t f] by blast
  have "th_state r' = th_state r" using core_fields(2) [OF s'(3)] arg_cong [OF f(1), of fo_state] by simp
  with sched_ok_moves [OF s t moves_steps [OF s'(2)] s'(4)] s'(1) show ?thesis by simp
qed

text \<open>The parts of a record's invariant, to be unfolded together.\<close>

lemmas record_parts = record_ok_def queue_fields_ok_def base_ok_def priced_def phase_ok_def suspends_ok_def

section \<open>Priorities and quality of service\<close>

lemma clamp_priority_bounds: "p \<le> 96 \<Longrightarrow> 0 \<le> clamp_priority p \<and> clamp_priority p \<le> 96"
  by (auto simp: clamp_priority_def clamp_def minimum_priority_def maximum_priority_def)

lemma qos_valid_none [simp]: "qos_valid no_qos"
  by (simp add: qos_valid_def no_qos_def less_eq_qos_tier_def)

lemma set_base_priority_ok:
  assumes s: "sched_ok n s" and p: "priority \<le> 96"
  shows "keeps n (set_base_priority t priority s)"
proof (cases "thread_of t s")
  case None
  with s show ?thesis by (simp add: set_base_priority_def)
next
  case (Some r)
  define f where "f = (\<lambda>r. r\<lparr>th_qos := no_qos, th_legacy := clamp_priority priority\<rparr> :: thread_record)"
  define g where "g = (\<lambda>r. r\<lparr>th_base := clamp_priority priority\<rparr> :: thread_record)"
  note r = sched_okD(2) [OF s Some] and bounds = clamp_priority_bounds [OF p]
  have f: "foot_of (f r) = foot_of r" "record_ok n t (f r)"
    using r bounds by (simp_all add: f_def foot_of_def record_parts)
  note s1 = update_keeps [where f = f, OF s Some f]
  have at: "thread_of t (update t f s) = Some (f r)" using Some by simp
  have "kept n (recompute_priority t (update t g (update t f s)))"
    by (rule reprice_keeps [OF s1 at])
      (use record_okD [OF f(2)] bounds in \<open>auto simp: g_def foot_of_def record_parts\<close>)
  with s1 show ?thesis by (simp add: set_base_priority_def Some f_def g_def Let_def)
qed

lemma precedence_bounds:
  "0 \<le> sc_minimum_user s \<Longrightarrow> sc_minimum_user s \<le> maximum_user_priority \<Longrightarrow>
    0 \<le> precedence p i s \<and> precedence p i s \<le> 96"
  by (auto simp: precedence_def clamp_def maximum_user_priority_def)

lemma set_precedence_ok:
  assumes s: "sched_ok n s"
  shows "keeps n (set_precedence t task_priority importance s)"
proof (cases "thread_of t s")
  case None
  with s show ?thesis by (simp add: set_precedence_def)
next
  case (Some r)
  define p where "p = precedence task_priority importance s"
  define f where "f = (\<lambda>r. r\<lparr>th_importance := importance\<rparr> :: thread_record)"
  define g where "g = (\<lambda>r. r\<lparr>th_saved_base := p\<rparr> :: thread_record)"
  note r = sched_okD(2) [OF s Some]
  have p: "0 \<le> p" "p \<le> 96" using precedence_bounds [OF sched_okD(5,6) [OF s]] by (simp_all add: p_def)
  have f: "foot_of (f r) = foot_of r" "record_ok n t (f r)" using r by (simp_all add: f_def foot_of_def record_parts)
  note s1 = update_keeps [where f = f, OF s Some f]
  have at: "thread_of t (update t f s) = Some (f r)" using Some by simp
  have g: "foot_of (g (f r)) = foot_of (f r)" "record_ok n t (g (f r))"
    using f(2) p by (simp_all add: g_def foot_of_def record_parts)
  note s2 = update_keeps [where f = g, OF s1 at g]
  show ?thesis
    using set_base_priority_ok [OF s1 p(2)] set_base_priority_ok [OF s2 p(2)] s2
    by (simp add: set_precedence_def Some p_def f_def g_def Let_def)
qed

lemma set_task_priority_ok:
  assumes s: "sched_ok n s"
  shows "keeps n (set_task_priority t priority s)"
proof (cases "thread_of t s")
  case None
  with s show ?thesis by (simp add: set_task_priority_def)
next
  case (Some r)
  have "sched_ok n (update t (\<lambda>r. r\<lparr>th_legacy := precedence priority (th_importance r) s\<rparr>) s)"
    by (rule update_keeps [OF s Some])
      (use sched_okD(2) [OF s Some] precedence_bounds [OF sched_okD(5,6) [OF s]]
        in \<open>simp_all add: foot_of_def record_parts\<close>)
  with set_precedence_ok [OF s] show ?thesis by (simp add: set_task_priority_def Some)
qed

lemma set_timeshare_ok:
  assumes s: "sched_ok n s"
  shows "keeps n (set_timeshare t timeshare s)"
proof (cases "thread_of t s")
  case None
  with s show ?thesis by (simp add: set_timeshare_def)
next
  case (Some r)
  note r = record_okD [OF sched_okD(2) [OF s Some]]
  have "sched_ok n (update t (\<lambda>r. r\<lparr>th_saved_realtime := False, th_saved_timeshare := timeshare\<rparr>) s)"
    by (rule update_keeps [OF s Some]) (use r in \<open>simp_all add: foot_of_def record_parts\<close>)
  moreover have "kept n (recompute_priority t (update t (\<lambda>r. r\<lparr>th_realtime := False,
      th_timeshare := timeshare, th_quantum := sc_quantum s\<rparr>) s))"
    by (rule reprice_keeps [OF s Some])
      (use r in \<open>auto simp: foot_of_def queue_fields_ok_def base_ok_def phase_ok_def suspends_ok_def\<close>)
  ultimately show ?thesis using s by (simp add: set_timeshare_def Some)
qed

lemma set_legacy_policy_ok:
  assumes s: "sched_ok n s"
  shows "keeps n (set_legacy_policy t timeshare task_priority priority s)"
proof (cases "thread_of t s")
  case None
  with s show ?thesis by (simp add: set_legacy_policy_def)
next
  case (Some r)
  have "keeps n (do {
      (done_timeshare, s) \<leftarrow> set_timeshare t timeshare s;
      if done_timeshare then set_precedence t task_priority (base - task_priority) s
      else Some (False, s) })" for base
    by (rule keeps_bind [OF set_timeshare_ok [OF s]]) (simp add: set_precedence_ok)
  with s show ?thesis by (simp add: set_legacy_policy_def Some Let_def)
qed

lemma set_requested_qos_ok:
  assumes s: "sched_ok n s"
  shows "keeps n (set_requested_qos t policy s)"
proof (cases "thread_of t s")
  case None
  with s show ?thesis by (simp add: set_requested_qos_def)
next
  case (Some r)
  note r = record_okD [OF sched_okD(2) [OF s Some]]
  show ?thesis
  proof (cases "qos_valid policy")
    case False
    with s show ?thesis by (simp add: set_requested_qos_def Some)
  next
    case True
    define p where "p = (if qp_tier policy = Unspecified then th_legacy r else qos_priority policy)"
    have "0 \<le> qos_priority policy \<and> qos_priority policy \<le> 46"
      using True by (intro qos_priority_bounds) (simp_all add: qos_valid_def)
    then have p: "0 \<le> p" "p \<le> 96" using r(2) by (auto simp: p_def base_ok_def)
    have "kept n (recompute_priority t (update t (\<lambda>r. let r = r\<lparr>th_qos := policy\<rparr> in
        if th_failsafe r then r\<lparr>th_saved_base := p\<rparr> else r\<lparr>th_base := p\<rparr>) s))"
      by (rule reprice_keeps [OF s Some])
        (use r p True in \<open>auto simp: Let_def foot_of_def queue_fields_ok_def
          base_ok_def phase_ok_def suspends_ok_def split: if_splits\<close>)
    then show ?thesis using True unfolding set_requested_qos_def Some option.case p_def
      by (simp only: Let_def if_not_P not_not simp_thms if_True if_False keeps_simps)
  qed
qed

lemma set_qos_override_priority_ok:
  assumes s: "sched_ok n s"
  shows "keeps n (set_qos_override_priority t priority s)"
proof (cases "thread_of t s")
  case None
  with s show ?thesis by (simp add: set_qos_override_priority_def)
next
  case (Some r)
  have "kept n (recompute_priority t (update t (\<lambda>r. r\<lparr>th_override := p\<rparr>) s))" for p
    by (rule reprice_keeps [OF s Some])
      (use record_okD [OF sched_okD(2) [OF s Some]] in
        \<open>auto simp: foot_of_def queue_fields_ok_def base_ok_def phase_ok_def suspends_ok_def\<close>)
  with s show ?thesis by (simp add: set_qos_override_priority_def Some Let_def)
qed

text \<open>The threads of a process keep their process while their policy changes.\<close>

lemma sched_ok_process:
  "sched_ok n s \<Longrightarrow> sc_process_threads s p = Some ts \<Longrightarrow> t \<in> set ts \<Longrightarrow> \<exists>r. thread_of t s = Some r"
  using sched_okD(3) [of n s] by (auto simp: processes_ok_def feet_of_def split: option.splits)

lemma for_each_task_qos:
  assumes "sched_ok n s" "\<And>t. t \<in> set ts \<Longrightarrow> thread_of t s \<noteq> None"
  shows "kept n (for_each (\<lambda>t s. recompute_priority t (update t (\<lambda>r. r\<lparr>th_task_qos := policy\<rparr>) s)) ts s)"
  using assms
proof (induction ts arbitrary: s)
  case (Cons t ts)
  obtain r where t: "thread_of t s = Some r" using Cons.prems(2) [of t] by auto
  define f where "f = (\<lambda>r. r\<lparr>th_task_qos := policy\<rparr> :: thread_record)"
  note r = record_okD [OF sched_okD(2) [OF Cons.prems(1) t]]
  have f: "foot_of (f r) = foot_of r" "queue_fields_ok n t (f r)" "base_ok (f r)"
      "th_depressed (f r) \<Longrightarrow> th_scheduled (f r) = 0" "phase_ok (f r)"
    using r by (auto simp: f_def foot_of_def queue_fields_ok_def base_ok_def phase_ok_def suspends_ok_def)
  obtain s1 r1 where s1: "recompute_priority t (update t f s) = Some s1" "steps n t r1 s s1"
    using reprice_ok [where f = f, OF sched_okD(1) [OF Cons.prems(1)] t f] by blast
  have ok: "sched_ok n s1" using reprice_keeps [where f = f, OF Cons.prems(1) t f] s1(1) by simp
  have "thread_of u s1 \<noteq> None" if "u \<in> set ts" for u
    using Cons.prems(2) [of u] that fun_cong [OF stepsD(5) [OF s1(2)], of u] by (simp split: if_splits)
  then have "kept n (for_each (\<lambda>t s. recompute_priority t (update t f s)) ts s1)"
    unfolding f_def by (rule Cons.IH [OF ok])
  with s1(1) show ?case by (simp add: f_def)
qed simp

lemma set_task_qos_policy_ok:
  assumes s: "sched_ok n s"
  shows "kept n (set_task_qos_policy p policy s)"
proof (cases "sc_process_threads s p")
  case None
  with s show ?thesis by (simp add: set_task_qos_policy_def)
next
  case (Some ts)
  define s1 where "s1 = s\<lparr>sc_task_qos := (sc_task_qos s)(p \<mapsto> policy)\<rparr>"
  have "kept n (for_each (\<lambda>t s. recompute_priority t (update t (\<lambda>r. r\<lparr>th_task_qos := policy\<rparr>) s)) ts s1)"
    using s sched_ok_process [OF s Some] by (intro for_each_task_qos) (auto simp: s1_def)
  with s Some show ?thesis by (simp add: set_task_qos_policy_def s1_def Let_def)
qed

section \<open>Requeueing\<close>

text \<open>The record between the two queues.\<close>

definition between_queues :: "nat \<Rightarrow> xnu_thread \<Rightarrow> thread_record \<Rightarrow> thread_record \<Rightarrow> bool" where
  "between_queues n t r r' \<longleftrightarrow> queue_fields_ok n t r' \<and> base_ok r' \<and> priced r' \<and> \<not> th_queued r' \<and>
    th_state r' = th_state r \<and> th_suspends r' = th_suspends r \<and> suspends_ok r' \<and>
    (th_depression r' \<noteq> None \<longrightarrow> th_depressed r')"

lemma between_queues_entered:
  assumes "between_queues n t r r'" "th_state r = Runnable" "th_suspends r = 0"
  shows "record_ok n t (enqueued front t s r')"
proof -
  have "queue_fields_ok n t (enqueued front t s r')"
    by (rule queue_fields_enqueued)
      (use assms(1) in \<open>auto simp: between_queues_def queue_fields_ok_def priced_def split: if_splits\<close>)
  moreover have "base_ok (enqueued front t s r')" "priced (enqueued front t s r')"
    "phase_ok (enqueued front t s r')"
    using assms by (auto simp: between_queues_def base_ok_def priced_def phase_ok_def suspends_ok_def
        enqueued_def)
  ultimately show ?thesis by (simp add: record_ok_def)
qed

lemma enqueue_between:
  assumes "struct_ok n s" "thread_of t s = Some r'" "between_queues n t r r'"
  shows "\<exists>s'. enqueue front t s = Some s' \<and> steps n t (enqueued front t s r') s s'"
  by (rule steps_enqueue [OF assms(1,2)])
    (use assms(3) in \<open>auto simp: between_queues_def queue_fields_ok_def\<close>)

lemma dequeued_same: "queue_fields_ok n t r \<Longrightarrow> \<not> th_queued r \<Longrightarrow> dequeued r = r"
  by (simp add: queue_fields_ok_def dequeued_def)

lemma remove_dequeues:
  assumes s: "struct_ok n s" and t: "thread_of t s = Some r" and r: "queue_fields_ok n t r"
  shows "\<exists>s'. remove_from_queue t s = Some s' \<and> steps n t (dequeued r) s s'"
proof (cases "th_queued r")
  case True
  then show ?thesis by (rule steps_remove [OF s t])
next
  case False
  then have "remove_from_queue t s = Some s" by (simp add: remove_from_queue_def t)
  with steps_refl [OF s t] dequeued_same [OF r False] show ?thesis by auto
qed

lemma requeued_keeps:
  assumes s: "sched_ok n s" and t: "thread_of t s = Some r"
    and f: "\<And>s1. struct_ok n s1 \<Longrightarrow> thread_of t s1 = Some (dequeued r) \<Longrightarrow>
      \<exists>s2 r2. f s1 = Some s2 \<and> moves n t r2 0 s1 s2 \<and> between_queues n t r r2"
  shows "kept n (requeued t f s)"
proof -
  note st = sched_okD(1) [OF s] and r = record_okD [OF sched_okD(2) [OF s t]]
  obtain s1 where s1: "remove_from_queue t s = Some s1" "steps n t (dequeued r) s s1"
    using remove_dequeues [OF st t r(1)] by blast
  obtain s2 r2 where s2: "f s1 = Some s2" "moves n t r2 0 s1 s2" "between_queues n t r r2"
    using f [OF stepsD(1,2) [OF s1(2)]] by blast
  have m: "moves n t r2 0 s s2" using moves_trans [OF moves_steps [OF s1(2)] s2(2)] by simp
  have first: "(if th_queued r then remove_from_queue t s else Some s) = Some s1"
    using s1(1) by (cases "th_queued r") (simp_all add: remove_from_queue_def t)
  have run: "requeued t f s = (if th_queued r then enqueue False t s2 else Some s2)"
    unfolding requeued_def t bind.simps first s2(1) ..
  have same: "th_state r2 = th_state r" using s2(3) by (simp add: between_queues_def)
  show ?thesis
  proof (cases "th_queued r")
    case False
    have "record_ok n t r2" using s2(3) r(4) False
      by (auto simp: between_queues_def record_ok_def phase_ok_def)
    moreover have "requeued t f s = Some s2" using run False by simp
    ultimately show ?thesis using sched_ok_moves [OF s t m] same by simp
  next
    case True
    then have state: "th_state r = Runnable" "th_suspends r = 0" using r(4) by (auto simp: phase_ok_def)
    obtain s3 where s3: "enqueue False t s2 = Some s3" "steps n t (enqueued False t s2 r2) s2 s3"
      using enqueue_between [OF movesD(1,2) [OF s2(2)] s2(3)] by blast
    have "requeued t f s = Some s3" using run s3(1) True by simp
    moreover have "moves n t (enqueued False t s2 r2) 0 s s3"
      using moves_trans [OF m moves_steps [OF s3(2)]] by simp
    moreover have "th_state (enqueued False t s2 r2) = th_state r" using same by (simp add: enqueued_def)
    ultimately show ?thesis
      using sched_ok_moves [OF s t _ between_queues_entered [OF s2(3) state, of False s2], of 0 s3] by simp
  qed
qed

lemma depress_ok:
  assumes s: "sched_ok n s"
  shows "keeps n (depress t duration s)"
proof (cases "\<exists>r. thread_of t s = Some r \<and> \<not> th_depressed r")
  case False
  with s show ?thesis by (auto simp: depress_def split: option.split)
next
  case True
  then obtain r where t: "thread_of t s = Some r" and up: "\<not> th_depressed r" by blast
  note r = record_okD [OF sched_okD(2) [OF s t]]
  have none: "th_depression r = None" using r(4) up by (auto simp: phase_ok_def)
  have "kept n (requeued t (\<lambda>s. index_depression t (update t (\<lambda>r. r\<lparr>th_depressed := True,
      th_scheduled := minimum_priority, th_depression := (if duration \<noteq> 0
        then Some (saturating_add (sc_elapsed s) duration) else None)\<rparr>) s)) s)"
  proof (rule requeued_keeps [OF s t])
    fix s1
    assume s1: "struct_ok n s1" "thread_of t s1 = Some (dequeued r)"
    define f where "f = (\<lambda>r. r\<lparr>th_depressed := True, th_scheduled := minimum_priority,
      th_depression := (if duration \<noteq> 0 then Some (saturating_add (sc_elapsed s1) duration)
        else None)\<rparr> :: thread_record)"
    have "foot_of (f (dequeued r)) = (foot_of (dequeued r))\<lparr>fo_depression := th_depression (f (dequeued r))\<rparr>"
      by (simp add: f_def foot_of_def dequeued_def)
    moreover have "th_depression (dequeued r) = None" using none by (simp add: dequeued_def)
    ultimately obtain s2 where "index_depression t (update t f s1) = Some s2"
      "moves n t (f (dequeued r)) 0 s1 s2" using depression_gained [where f = f, OF s1] by blast
    moreover have "between_queues n t r (f (dequeued r))"
      using r by (simp add: between_queues_def f_def dequeued_def queue_fields_ok_def base_ok_def
          priced_def suspends_ok_def phase_ok_def minimum_priority_def)
    ultimately show "\<exists>s2 r2. index_depression t (update t (\<lambda>r. r\<lparr>th_depressed := True,
        th_scheduled := minimum_priority, th_depression := (if duration \<noteq> 0
          then Some (saturating_add (sc_elapsed s1) duration) else None)\<rparr>) s1) = Some s2 \<and>
        moves n t r2 0 s1 s2 \<and> between_queues n t r r2" unfolding f_def by blast
  qed
  then show ?thesis using t up by (simp add: depress_def)
qed

lemma bind_thread_ok:
  assumes s: "sched_ok n s"
  shows "keeps n (bind_thread t slot s)"
proof (cases "(case slot of None \<Rightarrow> False | Some p \<Rightarrow> length (sc_locals s) \<le> p) \<or> thread_of t s = None")
  case True
  with s show ?thesis by (auto simp: bind_thread_def)
next
  case False
  then obtain r where t: "thread_of t s = Some r" by blast
  have slot: "slot_ok n slot"
    using False struct_indexes(5) [OF sched_okD(1) [OF s]] by (auto simp: slot_ok_def split: option.splits)
  note r = record_okD [OF sched_okD(2) [OF s t]]
  define f where "f = (\<lambda>r. r\<lparr>th_bound := slot\<rparr> :: thread_record)"
  have "kept n (requeued t (\<lambda>s. Some (update t f s)) s)"
  proof (rule requeued_keeps [OF s t])
    fix s1
    assume s1: "struct_ok n s1" "thread_of t s1 = Some (dequeued r)"
    have "foot_of (f (dequeued r)) = foot_of (dequeued r)" by (simp add: f_def foot_of_def dequeued_def)
    from moves_steps [OF steps_update [where f = f, OF s1 this]]
    have "moves n t (f (dequeued r)) 0 s1 (update t f s1)" .
    moreover have "between_queues n t r (f (dequeued r))"
      using r slot by (simp add: between_queues_def f_def dequeued_def queue_fields_ok_def base_ok_def
          priced_def suspends_ok_def phase_ok_def)
    ultimately show "\<exists>s2 r2. Some (update t f s1) = Some s2 \<and> moves n t r2 0 s1 s2 \<and>
        between_queues n t r r2" by blast
  qed
  then show ?thesis using s t False by (simp add: bind_thread_def f_def)
qed

section \<open>Realtime\<close>

lemma set_realtime_ok:
  assumes s: "sched_ok n s"
  shows "keeps n (set_realtime t period computation constraint preemptible s)"
proof (cases "(constraint < computation \<or> computation < sc_minimum_computation s \<or>
    sc_maximum_computation s < computation) \<or> thread_of t s = None")
  case True
  with s show ?thesis by (auto simp: set_realtime_def)
next
  case False
  then obtain r where t: "thread_of t s = Some r" by blast
  note r = record_okD [OF sched_okD(2) [OF s t]]
  define p where "p = (\<lambda>r. r\<lparr>th_preemptible := preemptible, th_period := period,
    th_computation := computation, th_constraint := constraint,
    th_deadline := saturating_add (sc_realtime_clock s) constraint\<rparr> :: thread_record)"
  show ?thesis
  proof (cases "th_failsafe r")
    case True
    define f where "f = (\<lambda>r. (p r)\<lparr>th_saved_realtime := True, th_saved_timeshare := False\<rparr>)"
    have "record_ok n t (f r)"
      using r True by (simp add: f_def p_def record_parts) (auto split: if_splits)
    then have "sched_ok n (update t f s)"
      by (intro update_keeps [OF s t]) (simp add: f_def p_def foot_of_def)
    then show ?thesis using False t True by (simp add: set_realtime_def f_def p_def Let_def)
  next
    case safe: False
    define f where "f = (\<lambda>r. (p r)\<lparr>th_timeshare := False, th_realtime := True, th_quantum := computation\<rparr>)"
    have "kept n (requeued t (\<lambda>s. recompute_priority t (update t f s)) s)"
    proof (rule requeued_keeps [OF s t])
      fix s1
      assume s1: "struct_ok n s1" "thread_of t s1 = Some (dequeued r)"
      have foot: "foot_of (f (dequeued r)) = foot_of (dequeued r)" by (simp add: f_def p_def foot_of_def dequeued_def)
      have ok: "queue_fields_ok n t (f (dequeued r))" "base_ok (f (dequeued r))"
        "th_depressed (f (dequeued r)) \<Longrightarrow> th_scheduled (f (dequeued r)) = 0"
        using r safe by (auto simp: f_def p_def dequeued_def queue_fields_ok_def base_ok_def)
      have st: "steps n t (f (dequeued r)) s1 (update t f s1)" by (rule steps_update [where f = f, OF s1 foot])
      obtain s2 r2 where s2: "recompute_priority t (update t f s1) = Some s2"
        "steps n t r2 (update t f s1) s2" "core r2 = core (f (dequeued r))" "queue_fields_ok n t r2" "priced r2"
        using recompute_ok [OF stepsD(1,2) [OF st] ok] by blast
      have "between_queues n t r r2"
        using s2(4,5) r(4) core_fields [OF s2(3)] base_ok_core [OF s2(3)] ok(2)
        by (auto simp: between_queues_def f_def p_def dequeued_def phase_ok_def suspends_ok_def)
      with s2(1) moves_steps [OF steps_trans [OF st s2(2)]]
      show "\<exists>s2 r2. recompute_priority t (update t f s1) = Some s2 \<and> moves n t r2 0 s1 s2 \<and>
        between_queues n t r r2" by blast
    qed
    then show ?thesis using False t safe by (simp add: set_realtime_def f_def p_def Let_def)
  qed
qed

lemma set_realtime_policy_ok:
  assumes s: "sched_ok n s"
  shows "keeps n (set_realtime_policy t policy s)"
proof -
  have "sched_ok n (update t (\<lambda>r. r\<lparr>th_policy := policy\<rparr>) s1)" if s1: "sched_ok n s1" for s1
  proof (cases "thread_of t s1")
    case None
    then have "modify t (\<lambda>r. r\<lparr>th_policy := policy\<rparr>) (sc_threads s1) = sc_threads s1"
      by (intro modify_absent) (simp add: thread_of_def map_of_eq_None_iff)
    with s1 show ?thesis by (simp add: update_def)
  next
    case (Some r)
    show ?thesis
      by (rule update_keeps [OF s1 Some]) (use sched_okD(2) [OF s1 Some] in \<open>simp_all add: foot_of_def record_parts\<close>)
  qed
  with s show ?thesis
    by (auto simp: set_realtime_policy_def intro!: keeps_bind [OF set_realtime_ok [OF s]])
qed

end
