(* ===== verification/Scheduler_Runs.thy ===== *)
theory Scheduler_Runs
  imports Scheduler_Policies
begin

text \<open>
  Waking, blocking and suspending threads of the guest scheduler: each keeps the invariant.
\<close>

section \<open>One thread goes on\<close>

text \<open>One record changes, to one in order again, and the count of waiting threads with it.\<close>

definition goes :: "nat \<Rightarrow> xnu_thread \<Rightarrow> thread_record \<Rightarrow> scheduler \<Rightarrow> scheduler option \<Rightarrow> bool" where
  "goes n t r s x \<longleftrightarrow> (\<exists>s' r'. x = Some s' \<and>
    moves n t r' (of_bool (th_state r' = Waiting) - of_bool (th_state r = Waiting)) s s' \<and>
    record_ok n t r' \<and> th_user r' = th_user r \<and> th_pending r' = th_pending r)"

lemma goesI:
  assumes "x = Some s'" "moves n t r' w s s'" "record_ok n t r'"
    "w = of_bool (th_state r' = Waiting) - of_bool (th_state r = Waiting)"
    "th_user r' = th_user r" "th_pending r' = th_pending r"
  shows "goes n t r s x"
  using assms(1-3,5,6) unfolding goes_def assms(4) by blast

lemma goesE:
  assumes "goes n t r s x" "sched_ok n s" "thread_of t s = Some r"
  obtains s' r' where "x = Some s'" "sched_ok n s'" "thread_of t s' = Some r'" "th_user r' = th_user r"
    "th_pending r' = th_pending r"
proof -
  obtain s' r' where s': "x = Some s'" "record_ok n t r'" "th_user r' = th_user r" "th_pending r' = th_pending r"
    "moves n t r' (of_bool (th_state r' = Waiting) - of_bool (th_state r = Waiting)) s s'"
    using assms(1) by (auto simp: goes_def)
  with that [OF s'(1) sched_ok_moves [OF assms(2,3) s'(5,2) refl] movesD(2) [OF s'(5)]] show ?thesis by blast
qed

lemma goes_kept: "goes n t r s x \<Longrightarrow> sched_ok n s \<Longrightarrow> thread_of t s = Some r \<Longrightarrow> kept n x"
  by (erule goesE) (simp_all add: kept_iff)

lemma goes_update:
  assumes "sched_ok n s" "thread_of t s = Some r" "foot_of (f r) = foot_of r" "record_ok n t (f r)"
    "th_user (f r) = th_user r" "th_pending (f r) = th_pending r"
  shows "goes n t r s (Some (update t f s))"
proof (rule goesI [OF refl moves_steps [OF steps_update [where f = f]]])
  show "(0 :: int) = of_bool (th_state (f r) = Waiting) - of_bool (th_state r = Waiting)"
    using arg_cong [OF assms(3), of fo_state] by simp
qed (use assms sched_okD(1) in blast)+

lemma goes_trans:
  assumes s: "sched_ok n s" and t: "thread_of t s = Some r" and x: "goes n t r s x"
    and f: "\<And>s' r'. sched_ok n s' \<Longrightarrow> thread_of t s' = Some r' \<Longrightarrow> goes n t r' s' (f s')"
  shows "goes n t r s (x \<bind> f)"
proof -
  obtain s' r' where s': "x = Some s'" "record_ok n t r'" "th_user r' = th_user r" "th_pending r' = th_pending r"
    "moves n t r' (of_bool (th_state r' = Waiting) - of_bool (th_state r = Waiting)) s s'"
    using x by (auto simp: goes_def)
  have ok: "sched_ok n s'" by (rule sched_ok_moves [OF s t s'(5,2) refl])
  obtain s2 r2 where s2: "f s' = Some s2" "record_ok n t r2" "th_user r2 = th_user r'" "th_pending r2 = th_pending r'"
    "moves n t r2 (of_bool (th_state r2 = Waiting) - of_bool (th_state r' = Waiting)) s' s2"
    using f [OF ok movesD(2) [OF s'(5)]] by (auto simp: goes_def)
  show ?thesis
    by (rule goesI [OF _ moves_trans [OF s'(5) s2(5)] s2(2)]) (use s' s2 in simp_all)
qed

section \<open>Becoming ready\<close>

lemma life_generation [simp]:
  "th_state (begin_runnable_generation r) = th_state r" "th_user (begin_runnable_generation r) = th_user r"
  "th_pending (begin_runnable_generation r) = th_pending r"
  "foot_of (begin_runnable_generation r) = foot_of r"
  by (simp_all add: begin_runnable_generation_def foot_of_def)

text \<open>A record out of every queue that may become runnable.\<close>

definition may_enter :: "nat \<Rightarrow> xnu_thread \<Rightarrow> thread_record \<Rightarrow> bool" where
  "may_enter n t r \<longleftrightarrow> between_queues n t r r \<and> th_suspends r = 0"

lemma may_enterI:
  "record_ok n t r \<Longrightarrow> \<not> th_queued r \<Longrightarrow> th_suspends r = 0 \<Longrightarrow> may_enter n t r"
  by (auto simp: may_enter_def between_queues_def record_ok_def phase_ok_def)

lemma may_enter_state [simp]: "may_enter n t (r\<lparr>th_state := st\<rparr>) = may_enter n t r"
  by (simp add: may_enter_def between_queues_def queue_fields_ok_def base_ok_def priced_def suspends_ok_def)

lemma may_enter_generation [simp]: "may_enter n t (begin_runnable_generation r) = may_enter n t r"
  by (simp add: may_enter_def between_queues_def queue_fields_ok_def base_ok_def priced_def
      suspends_ok_def begin_runnable_generation_def)

lemma enter_ok:
  assumes s: "struct_ok n s" and t: "thread_of t s = Some r" and r: "may_enter n t r" "th_state r = Runnable"
  shows "\<exists>s'. enqueue front t s = Some s' \<and> steps n t (enqueued front t s r) s s' \<and>
    record_ok n t (enqueued front t s r)"
  using enqueue_between [OF s t] between_queues_entered [of n t r r] r by (auto simp: may_enter_def)

lemma enqueued_life [simp]:
  "th_state (enqueued front t s r) = th_state r" "th_user (enqueued front t s r) = th_user r"
  "th_pending (enqueued front t s r) = th_pending r" "th_last (enqueued front t s r) = th_last r"
  by (simp_all add: enqueued_def)

text \<open>Becoming runnable and entering a queue, with changes that do not matter in between.\<close>

lemma ready_ok:
  assumes s: "struct_ok n s" and t: "thread_of t s = Some r" and r: "may_enter n t r"
    and f: "\<And>s r. may_enter n t r \<Longrightarrow> may_enter n t (f s r)" "\<And>s r. foot_of (f s r) = foot_of r"
      "\<And>s r. th_user (f s r) = th_user r" "\<And>s r. th_pending (f s r) = th_pending r"
  shows "\<exists>s' r'. do { s \<leftarrow> transition_state Runnable t s; enqueue front t (update t (f s) s) } = Some s' \<and>
    moves n t r' 0 s s' \<and> record_ok n t r' \<and> th_state r' = Runnable \<and> th_user r' = th_user r \<and>
    th_pending r' = th_pending r \<and> th_last r' = th_last r"
proof -
  obtain s1 where s1: "transition_state Runnable t s = Some s1" "steps n t (r\<lparr>th_state := Runnable\<rparr>) s s1"
    using steps_transition [OF s t] by blast
  let ?r = "f s1 (r\<lparr>th_state := Runnable\<rparr>)"
  have st: "steps n t ?r s1 (update t (f s1) s1)"
    by (rule steps_update [where f = "f s1", OF stepsD(1,2) [OF s1(2)] f(2)])
  have state: "th_state ?r = Runnable" using arg_cong [OF f(2) [of s1 "r\<lparr>th_state := Runnable\<rparr>"], of fo_state] by simp
  have "may_enter n t ?r" using r by (intro f(1)) simp
  from enter_ok [OF stepsD(1,2) [OF st] this state] obtain s2 where s2:
    "enqueue front t (update t (f s1) s1) = Some s2"
    "steps n t (enqueued front t (update t (f s1) s1) ?r) (update t (f s1) s1) s2"
    "record_ok n t (enqueued front t (update t (f s1) s1) ?r)" by blast
  have "moves n t (enqueued front t (update t (f s1) s1) ?r) 0 s s2"
    by (rule moves_steps [OF steps_trans [OF s1(2) steps_trans [OF st s2(2)]]])
  moreover have "th_last ?r = th_last r" using arg_cong [OF f(2) [of s1 "r\<lparr>th_state := Runnable\<rparr>"], of fo_last] by simp
  ultimately show ?thesis using s1(1) s2(1,3) state f(3,4) by auto
qed

lemma make_ready_ok:
  assumes "struct_ok n s" "thread_of t s = Some r" "may_enter n t r"
  shows "\<exists>s' r'. make_ready t s = Some s' \<and> moves n t r' 0 s s' \<and> record_ok n t r' \<and>
    th_state r' = Runnable \<and> th_user r' = th_user r \<and> th_pending r' = th_pending r \<and> th_last r' = th_last r"
  using ready_ok [where f = "\<lambda>_. begin_runnable_generation" and front = False, OF assms]
  by (simp add: make_ready_def)

lemma awake_moves:
  assumes s: "sched_ok n s" and t: "thread_of t s = Some r"
    and m: "moves n t r1 0 s s1" and state: "th_state r1 = th_state r"
  shows "moves n t r1 (- of_bool (th_state r = Waiting)) s
    (if th_state r = Waiting then s1\<lparr>sc_waiting := sc_waiting s1 - 1\<rparr> else s1)"
proof (cases "th_state r = Waiting")
  case True
  have "0 < sc_waiting s1" using waiting_positive [OF s t True] movesD(5) [OF m] by simp
  from moves_trans [OF m waiting_change(2) [OF movesD(1,2) [OF m] this]] True show ?thesis by simp
qed (use m in simp)

text \<open>A waiting thread is counted no longer, becomes runnable and enters a queue.\<close>

lemma revive_ok:
  assumes s: "sched_ok n s" and t: "thread_of t s = Some r" and m: "moves n t r1 0 s s1"
    and r1: "th_state r1 = th_state r" "may_enter n t r1" "th_user r1 = th_user r" "th_pending r1 = th_pending r"
    and f: "\<And>s r. may_enter n t r \<Longrightarrow> may_enter n t (f s r)" "\<And>s r. foot_of (f s r) = foot_of r"
      "\<And>s r. th_user (f s r) = th_user r" "\<And>s r. th_pending (f s r) = th_pending r"
    and s2: "s2 = (if th_state r = Waiting then s1\<lparr>sc_waiting := sc_waiting s1 - 1\<rparr> else s1)"
  shows "goes n t r s (do { s \<leftarrow> transition_state Runnable t s2; enqueue front t (update t (f s) s) })"
proof -
  have m2: "moves n t r1 (- of_bool (th_state r = Waiting)) s s2"
    unfolding s2 by (rule awake_moves [OF s t m r1(1)])
  obtain s' r' where s': "do { s \<leftarrow> transition_state Runnable t s2; enqueue front t (update t (f s) s) } = Some s'"
    "moves n t r' 0 s2 s'" "record_ok n t r'" "th_state r' = Runnable" "th_user r' = th_user r1"
    "th_pending r' = th_pending r1"
    using ready_ok [where f = f and front = front, OF movesD(1,2) [OF m2] r1(2) f] by blast
  show ?thesis
    by (rule goesI [OF s'(1) moves_trans [OF m2 s'(2)] s'(3)]) (use s' r1 in simp_all)
qed

lemma make_runnable_ok:
  assumes s: "sched_ok n s" and t: "thread_of t s = Some r"
  shows "goes n t r s (map_option snd (make_runnable t s))"
proof -
  note r = sched_okD(2) [OF s t]
  obtain s1 where s1: "finish_host_await t s = Some s1" "moves n t (r\<lparr>th_awaiting := False\<rparr>) 0 s s1"
    using finish_host_await_ok [OF sched_okD(1) [OF s] t] by blast
  define r1 where "r1 = r\<lparr>th_awaiting := False\<rparr>"
  have r1: "record_ok n t r1" using r by (simp add: r1_def record_parts)
  have m: "moves n t r1 0 s s1" using s1(2) by (simp add: r1_def)
  consider (held) "th_suspends r \<noteq> 0" | (there) "th_suspends r = 0" "th_state r = Running \<or> th_queued r"
    | (away) "th_suspends r = 0" "\<not> (th_state r = Running \<or> th_queued r)" by blast
  then show ?thesis
  proof cases
    case held
    define f where "f = (\<lambda>r. r\<lparr>th_resume := True\<rparr> :: thread_record)"
    have "steps n t (f r1) s1 (update t f s1)"
      by (rule steps_update [where f = f, OF movesD(1,2) [OF m]]) (simp add: f_def foot_of_def)
    note m2 = moves_trans [OF m moves_steps [OF this]]
    show ?thesis
      by (rule goesI [OF _ m2])
        (use held s1 r1 in \<open>simp_all add: make_runnable_def t f_def record_parts, simp_all add: r1_def\<close>)
  next
    case there
    show ?thesis
      by (rule goesI [OF _ m r1]) (use there s1 in \<open>simp_all add: make_runnable_def t r1_def\<close>)
  next
    case away
    define f where "f = (\<lambda>(r0 :: thread_record) s r. let r = begin_runnable_generation r in
      if th_awaiting r0 then r else r\<lparr>th_quantum := quantum_for r s, th_metered := 0,
        th_deadline := (if th_realtime r then saturating_add (sc_realtime_clock s) (th_constraint r)
          else th_deadline r)\<rparr>)"
    define s2 where "s2 = (if th_state r = Waiting then s1\<lparr>sc_waiting := sc_waiting s1 - 1\<rparr> else s1)"
    have "may_enter n t (f r0 s r)" if "may_enter n t r" for s r r0
      using that by (auto simp: f_def Let_def may_enter_def between_queues_def queue_fields_ok_def base_ok_def
          priced_def suspends_ok_def begin_runnable_generation_def)
    moreover have "foot_of (f r0 s r) = foot_of r" "th_user (f r0 s r) = th_user r"
      "th_pending (f r0 s r) = th_pending r" for s r r0
      by (simp_all add: f_def Let_def foot_of_def begin_runnable_generation_def)
    moreover have "may_enter n t r1" using r1 away by (intro may_enterI) (simp_all add: r1_def)
    ultimately have "goes n t r s (do { s \<leftarrow> transition_state Runnable t s2; enqueue False t (update t (f r s) s) })"
      by (intro revive_ok [OF s t m _ _ _ _ _ _ _ _ s2_def]) (simp_all add: r1_def)
    moreover have "map_option snd (make_runnable t s) =
        do { s \<leftarrow> transition_state Runnable t s2; enqueue False t (update t (f r s) s) }"
      using away s1(1)
      by (auto simp: make_runnable_def t s2_def f_def Let_def split: bind_splits)
    ultimately show ?thesis by simp
  qed
qed


lemma make_runnable_keeps: "sched_ok n s \<Longrightarrow> keeps n (make_runnable t s)"
proof (cases "thread_of t s")
  case None
  then show "sched_ok n s \<Longrightarrow> ?thesis" by (simp add: make_runnable_def)
next
  case (Some r)
  assume s: "sched_ok n s"
  from goes_kept [OF make_runnable_ok [OF s Some] s Some] show ?thesis by (simp add: keeps_def)
qed

section \<open>Blocking\<close>

lemma leave_ok:
  assumes s: "struct_ok n s" and t: "thread_of t s = Some r" and r: "queue_fields_ok n t r"
  shows "\<exists>s1 s2 s3. (if p then Some s else release_processor_context t s) = Some s1 \<and>
    remove_from_queue t s1 = Some s2 \<and> transition_state Waiting t s2 = Some s3 \<and>
    moves n t ((dequeued r)\<lparr>th_state := Waiting\<rparr>) 0 s s3"
proof -
  obtain s1 where s1: "(if p then Some s else release_processor_context t s) = Some s1" "moves n t r 0 s s1"
    using release_processor_context_ok [OF s t] moves_steps [OF steps_refl [OF s t]] by (cases p) auto
  obtain s2 where s2: "remove_from_queue t s1 = Some s2" "steps n t (dequeued r) s1 s2"
    using remove_dequeues [OF movesD(1,2) [OF s1(2)] r] by blast
  obtain s3 where s3: "transition_state Waiting t s2 = Some s3"
    "steps n t ((dequeued r)\<lparr>th_state := Waiting\<rparr>) s2 s3"
    using steps_transition [OF stepsD(1,2) [OF s2(2)]] by blast
  from moves_trans [OF s1(2) moves_steps [OF steps_trans [OF s2(2) s3(2)]]]
  have "moves n t ((dequeued r)\<lparr>th_state := Waiting\<rparr>) 0 s s3" by simp
  with s1(1) s2(1) s3(1) show ?thesis by blast
qed

text \<open>A record that waits out of every queue.\<close>

lemma asleep_ok:
  assumes "record_ok n t r" "r' = (dequeued r)\<lparr>th_state := Waiting\<rparr>"
  shows "record_ok n t r'"
  using assms(1) by (auto simp: assms(2) dequeued_def record_parts split: if_splits)

lemma block_ok:
  assumes s: "sched_ok n s" and t: "thread_of t s = Some r"
  shows "goes n t r s (map_option snd (block t s))"
proof -
  note r = sched_okD(2) [OF s t]
  define f where "f = (\<lambda>r. r\<lparr>th_host_resume := False\<rparr> :: thread_record)"
  have st1: "steps n t (f r) s (update t f s)"
    by (rule steps_update [where f = f, OF sched_okD(1) [OF s] t]) (simp add: f_def foot_of_def)
  obtain s1 where s1: "finish_host_await t (update t f s) = Some s1"
    "moves n t ((f r)\<lparr>th_awaiting := False\<rparr>) 0 (update t f s) s1"
    using finish_host_await_ok [OF stepsD(1,2) [OF st1]] by blast
  define r1 where "r1 = (f r)\<lparr>th_awaiting := False\<rparr>"
  have r1: "record_ok n t r1" using r by (simp add: r1_def f_def record_parts)
  have m1: "moves n t r1 0 s s1" using moves_trans [OF moves_steps [OF st1] s1(2)] by (simp add: r1_def)
  obtain s2 s3 s4 where s4: "(if th_pending r then Some s1 else release_processor_context t s1) = Some s2"
    "remove_from_queue t s2 = Some s3" "transition_state Waiting t s3 = Some s4"
    "moves n t ((dequeued r1)\<lparr>th_state := Waiting\<rparr>) 0 s1 s4"
    using leave_ok [OF movesD(1,2) [OF m1] record_okD(1) [OF r1], of "th_pending r"] by blast
  define r4 where "r4 = (dequeued r1)\<lparr>th_state := Waiting\<rparr>"
  have r4: "record_ok n t r4" by (rule asleep_ok [OF r1 r4_def])
  define s5 where "s5 = (if th_state r = Waiting then s4 else s4\<lparr>sc_waiting := sc_waiting s4 + 1\<rparr>)"
  have m4: "moves n t r4 0 s s4" using moves_trans [OF m1 s4(4)] by (simp add: r4_def)
  have m5: "moves n t r4 (1 - of_bool (th_state r = Waiting)) s s5"
  proof (cases "th_state r = Waiting")
    case True
    with m4 show ?thesis by (simp add: s5_def)
  next
    case False
    with moves_trans [OF m4 waiting_change(1) [OF movesD(1,2) [OF m4]]] show ?thesis by (simp add: s5_def)
  qed
  define g where "g = (\<lambda>r. r\<lparr>th_quantum := quantum_for r s5, th_metered := 0,
    th_resume := (if th_suspends r \<noteq> 0 then False else th_resume r)\<rparr> :: thread_record)"
  have st6: "steps n t (g r4) s5 (update t g s5)"
    by (rule steps_update [where f = g, OF movesD(1,2) [OF m5]]) (simp add: g_def foot_of_def)
  show ?thesis
  proof (rule goesI [OF _ moves_trans [OF m5 moves_steps [OF st6]]])
    have "block t s = Some (True, update t g s5)"
      unfolding block_def t option.case f_def [symmetric] s1(1) bind.simps s4(1-3) s5_def [symmetric] Let_def
      by (simp add: g_def)
    then show "map_option snd (block t s) = Some (update t g s5)" by simp
    show "record_ok n t (g r4)" using r4 by (simp add: g_def record_parts)
  qed (simp_all add: g_def r4_def r1_def f_def dequeued_def)
qed

lemma block_keeps: "sched_ok n s \<Longrightarrow> keeps n (block t s)"
proof (cases "thread_of t s")
  case None
  then show "sched_ok n s \<Longrightarrow> ?thesis" by (simp add: block_def)
next
  case (Some r)
  assume s: "sched_ok n s"
  from goes_kept [OF block_ok [OF s Some] s Some] show ?thesis by (simp add: keeps_def)
qed

section \<open>Suspension\<close>

lemma unat_top: "unat (- 1 :: u32) = 4294967295"
  by (simp add: unsigned_minus_1_eq_mask mask_eq_exp_minus_1)

lemma unat_less_top: "(a :: u32) \<noteq> - 1 \<Longrightarrow> unat a + 1 < 2 ^ 32"
proof -
  assume "a \<noteq> - 1"
  then have "a < - 1" using word_order.extremum by (simp add: order.not_eq_order_implies_strict)
  then have "unat a < unat (- 1 :: u32)" by (rule unat_mono)
  then show ?thesis by (simp add: unat_top)
qed

lemma unat_increment: "(a :: u32) \<noteq> - 1 \<Longrightarrow> unat (a + 1) = unat a + 1"
proof -
  assume "a \<noteq> - 1"
  from unat_less_top [OF this] show ?thesis by (simp add: unat_word_ariths)
qed

lemma unat_decrement: "(a :: u32) \<noteq> 0 \<Longrightarrow> unat (a - 1) = unat a - 1"
  by (rule unat_minus_one)

lemma count_le: "suspends_ok r \<Longrightarrow> unat (th_suspend_counts r k) \<le> unat (th_suspends r)"
  by (cases k) (simp_all add: suspends_ok_def)

lemma suspends_ok_more:
  assumes "suspends_ok r" "th_suspends r \<noteq> - 1"
  shows "suspends_ok (r\<lparr>th_suspend_counts := (th_suspend_counts r)(k := th_suspend_counts r k + 1),
    th_suspends := th_suspends r + 1\<rparr>)" "th_suspends r + 1 \<noteq> 0"
proof -
  have less: "unat (th_suspend_counts r k) + 1 < 2 ^ 32"
    using count_le [OF assms(1), of k] unat_less_top [OF assms(2)] by linarith
  have "th_suspend_counts r k \<noteq> - 1"
  proof
    assume "th_suspend_counts r k = - 1"
    with less show False by (simp add: unat_top)
  qed
  from unat_increment [OF this] unat_increment [OF assms(2)]
  show "suspends_ok (r\<lparr>th_suspend_counts := (th_suspend_counts r)(k := th_suspend_counts r k + 1),
      th_suspends := th_suspends r + 1\<rparr>)"
    using assms(1) by (cases k) (simp_all add: suspends_ok_def)
  show "th_suspends r + 1 \<noteq> 0"
  proof
    assume "th_suspends r + 1 = 0"
    then have "unat (th_suspends r + 1) = 0" by simp
    with unat_increment [OF assms(2)] show False by simp
  qed
qed

lemma suspends_ok_less:
  assumes "suspends_ok r" "th_suspend_counts r k \<noteq> 0"
  shows "suspends_ok (r\<lparr>th_suspend_counts := (th_suspend_counts r)(k := th_suspend_counts r k - 1),
    th_suspends := th_suspends r - 1\<rparr>)" "th_suspends r \<noteq> 0"
proof -
  have "0 < unat (th_suspend_counts r k)" using assms(2) by (simp add: unat_gt_0)
  with count_le [OF assms(1), of k] show nz: "th_suspends r \<noteq> 0" by auto
  from unat_decrement [OF assms(2)] unat_decrement [OF nz] \<open>0 < unat (th_suspend_counts r k)\<close>
  show "suspends_ok (r\<lparr>th_suspend_counts := (th_suspend_counts r)(k := th_suspend_counts r k - 1),
      th_suspends := th_suspends r - 1\<rparr>)"
    using assms(1) by (cases k) (simp_all add: suspends_ok_def)
qed

lemma suspend_thread_ok:
  assumes s: "sched_ok n s" and t: "thread_of t s = Some r"
  shows "goes n t r s (map_option snd (suspend_thread reason t s))"
proof (cases "th_suspends r = - 1")
  case True
  then show ?thesis
    by (intro goesI [OF _ moves_steps [OF steps_refl [OF sched_okD(1) [OF s] t]] sched_okD(2) [OF s t]])
      (simp_all add: suspend_thread_def t)
next
  case False
  note r = record_okD [OF sched_okD(2) [OF s t]]
  have sus: "suspends_ok r" using r(4) by (simp add: phase_ok_def)
  define f where "f = (\<lambda>r. r\<lparr>th_host_resume := False,
    th_suspend_counts := (th_suspend_counts r)(reason := th_suspend_counts r reason + 1),
    th_suspends := th_suspends r + 1\<rparr> :: thread_record)"
  have nz: "th_suspends r + 1 \<noteq> 0" and fsus: "suspends_ok (f r)"
    using suspends_ok_more(2) [OF sus False] suspends_ok_more(1) [OF sus False, of reason]
    by (simp_all add: f_def suspends_ok_def)
  have st1: "steps n t (f r) s (update t f s)"
    by (rule steps_update [where f = f, OF sched_okD(1) [OF s] t]) (simp add: f_def foot_of_def)
  define g where "g = (\<lambda>r. r\<lparr>th_resume := (th_state r = Runnable \<or> th_state r = Running)\<rparr> :: thread_record)"
  have st2: "steps n t (g (f r)) (update t f s) (update t g (update t f s))"
    by (rule steps_update [where f = g, OF stepsD(1,2) [OF st1]]) (simp add: g_def foot_of_def)
  note m2 = moves_steps [OF steps_trans [OF st1 st2]]
  have gsus: "suspends_ok (g (f r))" using fsus by (simp add: g_def suspends_ok_def)
  have fields: "queue_fields_ok n t (g (f r))" "base_ok (g (f r))" "priced (g (f r))"
    "th_queued (g (f r)) = th_queued r" "th_state (g (f r)) = th_state r"
    "th_depression (g (f r)) \<noteq> None \<Longrightarrow> th_depressed (g (f r))"
    using r by (auto simp: queue_fields_ok_def base_ok_def priced_def phase_ok_def f_def g_def)
  consider (held) "th_suspends r \<noteq> 0" | (waits) "th_suspends r = 0" "th_state r = Waiting"
    | (stops) "th_suspends r = 0" "th_state r \<noteq> Waiting" by blast
  then show ?thesis
  proof cases
    case held
    then have "th_state r = Waiting" using r(4) by (simp add: phase_ok_def)
    then have "record_ok n t (f r)" using r fsus
      by (simp add: record_ok_def queue_fields_ok_def base_ok_def priced_def phase_ok_def) (auto simp: f_def split: if_splits)
    then show ?thesis
      by (intro goesI [OF _ moves_steps [OF st1]])
        (use held False in \<open>simp_all add: suspend_thread_def t, simp_all add: f_def\<close>)
  next
    case waits
    have "record_ok n t (g (f r))"
      using fields gsus waits r(4) by (auto simp: record_ok_def phase_ok_def)
    then show ?thesis
      by (intro goesI [OF _ m2])
        (use waits False in \<open>simp_all add: suspend_thread_def t Let_def, simp_all add: f_def g_def\<close>)
  next
    case stops
    define r2 where "r2 = g (f r)"
    have q: "queue_fields_ok n t r2" using r by (simp add: queue_fields_ok_def r2_def f_def g_def)
    obtain s2 s3 s4 where s4: "(if th_pending r then Some (update t g (update t f s))
        else release_processor_context t (update t g (update t f s))) = Some s2"
      "remove_from_queue t s2 = Some s3" "transition_state Waiting t s3 = Some s4"
      "moves n t ((dequeued r2)\<lparr>th_state := Waiting\<rparr>) 0 (update t g (update t f s)) s4"
      using leave_ok [OF movesD(1,2) [OF m2] q [unfolded r2_def], of "th_pending r", folded r2_def] by blast
    define r4 where "r4 = (dequeued r2)\<lparr>th_state := Waiting\<rparr>"
    have m4: "moves n t r4 0 s s4" using moves_trans [OF m2 s4(4)] by (simp add: r4_def)
    have run: "suspend_thread reason t s = Some (True, s4\<lparr>sc_waiting := sc_waiting s4 + 1\<rparr>)"
    proof -
      have "suspend_thread reason t s = do {
          s \<leftarrow> (if th_pending r then Some (update t g (update t f s))
            else release_processor_context t (update t g (update t f s)));
          s \<leftarrow> remove_from_queue t s;
          s \<leftarrow> transition_state Waiting t s;
          Some (True, s\<lparr>sc_waiting := sc_waiting s + 1\<rparr>) }"
        using stops False by (simp add: suspend_thread_def t Let_def f_def g_def)
      then show ?thesis unfolding s4(1) bind.simps s4(2,3) .
    qed
    have "record_ok n t r4"
      using fields gsus unfolding r4_def r2_def
      by (auto simp: record_ok_def queue_fields_ok_def base_ok_def priced_def phase_ok_def suspends_ok_def
          dequeued_def split: if_splits)
    then show ?thesis
      by (intro goesI [OF _ moves_trans [OF m4 waiting_change(1) [OF movesD(1,2) [OF m4]]]])
        (use stops run in \<open>simp_all, simp_all add: r4_def r2_def f_def g_def dequeued_def\<close>)
  qed
qed


lemma resume_thread_ok:
  assumes s: "sched_ok n s" and t: "thread_of t s = Some r"
  shows "goes n t r s (map_option snd (resume_thread reason t s))"
proof (cases "th_suspend_counts r reason = 0")
  case True
  then show ?thesis
    by (intro goesI [OF _ moves_steps [OF steps_refl [OF sched_okD(1) [OF s] t]] sched_okD(2) [OF s t]])
      (simp_all add: resume_thread_def t)
next
  case False
  note r = record_okD [OF sched_okD(2) [OF s t]]
  have sus: "suspends_ok r" using r(4) by (simp add: phase_ok_def)
  define f where "f = (\<lambda>r. r\<lparr>th_suspend_counts :=
      (th_suspend_counts r)(reason := th_suspend_counts r reason - 1),
    th_suspends := th_suspends r - 1\<rparr> :: thread_record)"
  have nz: "th_suspends r \<noteq> 0" and fsus: "suspends_ok (f r)"
    using suspends_ok_less [OF sus False] by (simp_all add: f_def suspends_ok_def)
  have state: "th_state r = Waiting" "\<not> th_queued r" using r(4) nz by (auto simp: phase_ok_def)
  have fr: "record_ok n t (f r)"
    using r fsus state by (auto simp: record_ok_def queue_fields_ok_def base_ok_def priced_def phase_ok_def f_def)
  have st1: "steps n t (f r) s (update t f s)"
    by (rule steps_update [where f = f, OF sched_okD(1) [OF s] t]) (simp add: f_def foot_of_def)
  have life: "th_state (f r) = Waiting" "th_user (f r) = th_user r" "th_pending (f r) = th_pending r"
    "th_suspends (f r) = th_suspends r - 1" "th_queued (f r) = th_queued r" using state by (simp_all add: f_def)
  have pos: "0 < sc_waiting s" by (rule waiting_positive [OF s t state(1)])
  consider (held) "th_suspends r - 1 \<noteq> 0" | (idle) "th_suspends r - 1 = 0" "\<not> th_resume r" "\<not> th_awaiting r"
    | (host) "th_suspends r - 1 = 0" "\<not> th_resume r" "th_awaiting r"
    | (runs) "th_suspends r - 1 = 0" "th_resume r" by blast
  then show ?thesis
  proof cases
    case held
    then show ?thesis using False state(1) life
      by (intro goesI [OF _ moves_steps [OF st1] fr]) (simp_all add: resume_thread_def t f_def)
  next
    case idle
    then show ?thesis using False state(1) life
      by (intro goesI [OF _ moves_steps [OF st1] fr]) (simp_all add: resume_thread_def t f_def)
  next
    case host
    have pos1: "0 < sc_waiting (update t f s)" using pos by simp
    note m2 = moves_trans [OF moves_steps [OF st1] waiting_change(2) [OF stepsD(1,2) [OF st1] pos1]]
    define s2 where "s2 = (update t f s)\<lparr>sc_waiting := sc_waiting (update t f s) - 1\<rparr>"
    obtain s3 where s3: "transition_state Host_Await t s2 = Some s3"
      "steps n t ((f r)\<lparr>th_state := Host_Await\<rparr>) s2 s3"
      unfolding s2_def using steps_transition [OF movesD(1,2) [OF m2]] by blast
    have "record_ok n t ((f r)\<lparr>th_state := Host_Await\<rparr>)"
      using fr host state(2) life by (auto simp: record_parts)
    moreover have "map_option snd (resume_thread reason t s) = Some s3"
      using host False s3(1) by (simp add: resume_thread_def t f_def s2_def)
    ultimately show ?thesis
      by (intro goesI [OF _ moves_trans [OF m2 moves_steps [OF s3(2) [unfolded s2_def]]]])
        (use state life in simp_all)
  next
    case runs
    define g where "g = (\<lambda>r. r\<lparr>th_resume := False\<rparr> :: thread_record)"
    have st2: "steps n t (g (f r)) (update t f s) (update t g (update t f s))"
      by (rule steps_update [where f = g, OF stepsD(1,2) [OF st1]]) (simp add: g_def foot_of_def)
    define s1 where "s1 = update t g (update t f s)"
    have m1: "moves n t (g (f r)) 0 s s1" unfolding s1_def by (rule moves_steps [OF steps_trans [OF st1 st2]])
    have "record_ok n t (g (f r))" using fr by (simp add: g_def record_parts)
    then have enter: "may_enter n t (g (f r))"
      by (rule may_enterI) (use runs state(2) in \<open>simp_all add: g_def f_def\<close>)
    define h where "h = (\<lambda>s r. (begin_runnable_generation r)
      \<lparr>th_quantum := quantum_for r s, th_metered := 0\<rparr>)"
    have "may_enter n t (h s r)" if "may_enter n t r" for s r
      using that by (auto simp: h_def may_enter_def between_queues_def queue_fields_ok_def base_ok_def
          priced_def suspends_ok_def begin_runnable_generation_def)
    moreover have "foot_of (h s r) = foot_of r" "th_user (h s r) = th_user r" "th_pending (h s r) = th_pending r" for s r
      by (simp_all add: h_def foot_of_def begin_runnable_generation_def)
    moreover define s2 where "s2 = (if th_state r = Waiting then s1\<lparr>sc_waiting := sc_waiting s1 - 1\<rparr> else s1)"
    ultimately have "goes n t r s (do { s \<leftarrow> transition_state Runnable t s2; enqueue False t (update t (h s) s) })"
      using life state(1) enter
      by (intro revive_ok [OF s t m1 _ enter _ _ _ _ _ _ s2_def]) (simp_all add: g_def)
    moreover have "map_option snd (resume_thread reason t s) =
        do { s \<leftarrow> transition_state Runnable t s2; enqueue False t (update t (h s) s) }"
      using runs False state(1)
      by (auto simp: resume_thread_def t s2_def s1_def g_def f_def h_def Let_def split: bind_splits)
    ultimately show ?thesis by simp
  qed
qed

lemma keeps_from_goes:
  assumes "\<And>r. thread_of t s = Some r \<Longrightarrow> goes n t r s (map_option snd x)" "sched_ok n s"
    "thread_of t s = None \<Longrightarrow> keeps n x"
  shows "keeps n x"
  using assms goes_kept by (cases "thread_of t s") (auto simp: keeps_def)

lemma suspend_thread_keeps: "sched_ok n s \<Longrightarrow> keeps n (suspend_thread reason t s)"
  by (rule keeps_from_goes [OF suspend_thread_ok]) (simp_all add: suspend_thread_def)

lemma resume_thread_keeps: "sched_ok n s \<Longrightarrow> keeps n (resume_thread reason t s)"
  by (rule keeps_from_goes [OF resume_thread_ok]) (simp_all add: resume_thread_def)

lemma suspend_process_keeps: "sched_ok n s \<Longrightarrow> keeps n (suspend_process p s)"
  by (auto simp: suspend_process_def split: option.split intro!: keeps_count_each suspend_thread_keeps)

lemma resume_process_keeps: "sched_ok n s \<Longrightarrow> keeps n (resume_process p s)"
  by (auto simp: resume_process_def split: option.split intro!: keeps_count_each resume_thread_keeps)

section \<open>Waking\<close>

lemma wake_thread_keeps:
  assumes s: "sched_ok n s"
  shows "keeps n (wake_thread t s)"
proof (cases "thread_of t s")
  case None
  with s show ?thesis by (simp add: wake_thread_def)
next
  case (Some r)
  note r = sched_okD(2) [OF s Some]
  have "sched_ok n (update t (\<lambda>r. r\<lparr>th_resume := True\<rparr>) s)"
    by (rule update_keeps [OF s Some]) (use r in \<open>simp_all add: foot_of_def record_parts\<close>)
  moreover have "sched_ok n (update t (\<lambda>r. r\<lparr>th_wake := True\<rparr>) s')" if s': "sched_ok n s'" and some: "thread_of t s' \<noteq> None" for s'
  proof -
    obtain r' where t: "thread_of t s' = Some r'" using some by auto
    show ?thesis
      by (rule update_keeps [OF s' t])
        (use sched_okD(2) [OF s' t] in \<open>simp_all add: foot_of_def record_parts\<close>)
  qed
  moreover have "keeps n (map_option (\<lambda>(made, s). ((made, made), s)) (make_runnable t s))"
    using make_runnable_keeps [OF s, of t] by (auto simp: keeps_iff)
  ultimately show ?thesis using s Some by (simp add: wake_thread_def Let_def)
qed

end
