(* ===== verification/Scheduler_Slices.thy ===== *)
theory Scheduler_Slices
  imports Scheduler_Runs
begin

text \<open>
  Slices of the guest scheduler: which thread is selected, that its dispatch keeps the
  invariant, and that the completion of its slice does.
\<close>

section \<open>Selection\<close>

definition queue_in :: "nat option \<Rightarrow> scheduler \<Rightarrow> run_queue" where
  "queue_in slot s = (case slot of None \<Rightarrow> sc_global s | Some i \<Rightarrow> sc_locals s ! i)"

lemma queue_in_matches:
  "struct_ok n s \<Longrightarrow> slot_ok n slot \<Longrightarrow> queue_matches (feet_of s) slot (queue_in slot s)"
  by (auto simp: struct_ok_def queues_ok_def queue_in_def slot_ok_def split: option.splits)

lemma queue_of_in: "struct_ok n s \<Longrightarrow> slot_ok n slot \<Longrightarrow> queue_of slot s = Some (queue_in slot s)"
  by (auto simp: struct_ok_def queues_ok_def queue_of_def queue_in_def slot_ok_def split: option.splits)

text \<open>A thread is in the list of its priority exactly when its record says so.\<close>

lemma in_queue_iff:
  assumes s: "sched_ok n s" and slot: "slot_ok n slot"
  shows "t \<in> set (rq_queues (queue_in slot s) k) \<longleftrightarrow>
    (\<exists>r. thread_of t s = Some r \<and> th_queued r \<and> th_bound r = slot \<and> th_scheduled r = int k)"
proof -
  have m: "queue_matches (feet_of s) slot (queue_in slot s)"
    by (rule queue_in_matches [OF sched_okD(1) [OF s] slot])
  have "t \<in> set (rq_queues (queue_in slot s) k) \<longleftrightarrow>
      (\<exists>r. thread_of t s = Some r \<and> th_queued r \<and> th_queued_processor r = slot \<and> th_queued_priority r = int k)"
    using m unfolding queue_matches_def by (auto simp: feet_of_def split: if_splits)
  also have "\<dots> \<longleftrightarrow> (\<exists>r. thread_of t s = Some r \<and> th_queued r \<and> th_bound r = slot \<and> th_scheduled r = int k)"
    using record_okD(1) [OF sched_okD(2) [OF s]] by (auto simp: queue_fields_ok_def)
  finally show ?thesis .
qed

text \<open>The realtime index of a queue holds the threads of the realtime priority.\<close>

lemma in_realtime_iff:
  assumes s: "sched_ok n s" and slot: "slot_ok n slot"
  shows "key \<in> set (rq_realtime (queue_in slot s)) \<longleftrightarrow>
    (\<exists>t r. thread_of t s = Some r \<and> th_queued r \<and> th_bound r = slot \<and> th_scheduled r = 97 \<and>
      key = (th_deadline r, th_sequence r, t))"
proof -
  have m: "queue_matches (feet_of s) slot (queue_in slot s)"
    by (rule queue_in_matches [OF sched_okD(1) [OF s] slot])
  then have "key \<in> set (rq_realtime (queue_in slot s)) \<longleftrightarrow>
      (\<exists>t f p. feet_of s t = Some f \<and> fo_place f = Some (slot, p, Some key))"
    unfolding queue_matches_def by (simp del: split_paired_All)
  also have "\<dots> \<longleftrightarrow> (\<exists>t r. thread_of t s = Some r \<and> th_queued r \<and> th_queued_processor r = slot \<and>
      th_key r = Some key)"
  proof
    assume "\<exists>t f p. feet_of s t = Some f \<and> fo_place f = Some (slot, p, Some key)"
    then obtain t r p where "thread_of t s = Some r" "fo_place (foot_of r) = Some (slot, p, Some key)"
      by (auto simp: feet_of_def)
    then have "thread_of t s = Some r \<and> th_queued r \<and> th_queued_processor r = slot \<and> th_key r = Some key"
      by (simp split: if_splits)
    then show "\<exists>t r. thread_of t s = Some r \<and> th_queued r \<and> th_queued_processor r = slot \<and> th_key r = Some key"
      by blast
  next
    assume "\<exists>t r. thread_of t s = Some r \<and> th_queued r \<and> th_queued_processor r = slot \<and> th_key r = Some key"
    then obtain t r where "feet_of s t = Some (foot_of r)" "th_queued r" "th_queued_processor r = slot"
      "th_key r = Some key" using feet_at by blast
    then show "\<exists>t f p. feet_of s t = Some f \<and> fo_place f = Some (slot, p, Some key)" by force
  qed
  also have "\<dots> \<longleftrightarrow> (\<exists>t r. thread_of t s = Some r \<and> th_queued r \<and> th_bound r = slot \<and>
      th_scheduled r = 97 \<and> key = (th_deadline r, th_sequence r, t))"
  proof -
    have "thread_of t s = Some r \<and> th_queued r \<and> th_queued_processor r = slot \<and> th_key r = Some key \<longleftrightarrow>
        thread_of t s = Some r \<and> th_queued r \<and> th_bound r = slot \<and> th_scheduled r = 97 \<and>
        key = (th_deadline r, th_sequence r, t)" for t r
      using record_okD(1) [OF sched_okD(2) [OF s], of t r] by (auto simp: queue_fields_ok_def split: if_splits)
    then show ?thesis by (simp only:)
  qed
  finally show ?thesis .
qed

text \<open>The thread at the top of a queue: of the highest priority, and among realtime threads of
  the earliest deadline.\<close>

definition eligible :: "nat option \<Rightarrow> xnu_thread \<Rightarrow> scheduler \<Rightarrow> bool" where
  "eligible slot t s \<longleftrightarrow> (case thread_of t s of None \<Rightarrow> False | Some r \<Rightarrow> th_queued r \<and> th_bound r = slot)"

definition no_better :: "xnu_thread \<Rightarrow> xnu_thread \<Rightarrow> scheduler \<Rightarrow> bool" where
  "no_better u t s \<longleftrightarrow> (case (thread_of u s, thread_of t s) of
     (Some v, Some r) \<Rightarrow> th_scheduled v \<le> th_scheduled r \<and>
       (th_scheduled v = th_scheduled r \<and> th_scheduled r = realtime_queue_priority \<longrightarrow>
         th_deadline r \<le> th_deadline v)
   | _ \<Rightarrow> False)"

lemma queue_empty_iff:
  assumes s: "sched_ok n s" and slot: "slot_ok n slot"
  shows "rq_count (queue_in slot s) = 0 \<longleftrightarrow> (\<forall>t. \<not> eligible slot t s)"
proof -
  have ok: "rq_ok (queue_in slot s)"
    using queue_in_matches [OF sched_okD(1) [OF s] slot] by (simp add: queue_matches_def)
  have "(\<forall>k. rq_queues (queue_in slot s) k = []) \<longleftrightarrow> (\<forall>t. \<not> eligible slot t s)"
  proof
    assume none: "\<forall>k. rq_queues (queue_in slot s) k = []"
    show "\<forall>t. \<not> eligible slot t s"
    proof (intro allI notI)
      fix t
      assume "eligible slot t s"
      then obtain r where r: "thread_of t s = Some r" "th_queued r" "th_bound r = slot"
        by (auto simp: eligible_def split: option.splits)
      have "0 \<le> th_scheduled r" using record_okD(1) [OF sched_okD(2) [OF s r(1)]] by (simp add: queue_fields_ok_def)
      then have "t \<in> set (rq_queues (queue_in slot s) (nat (th_scheduled r)))"
        using r by (simp add: in_queue_iff [OF s slot])
      with none show False by simp
    qed
  next
    assume none: "\<forall>t. \<not> eligible slot t s"
    have "t \<notin> set (rq_queues (queue_in slot s) k)" for t k
      using none in_queue_iff [OF s slot] by (auto simp: eligible_def split: option.splits)
    then show "\<forall>k. rq_queues (queue_in slot s) k = []" by (metis list.set_intros(1) neq_Nil_conv)
  qed
  then show ?thesis using rq_count_zero [OF ok] by simp
qed

lemma high_bounds:
  assumes s: "sched_ok n s" and slot: "slot_ok n slot" and u: "thread_of u s = Some r" "th_queued r" "th_bound r = slot"
  shows "th_scheduled r \<le> rq_high (queue_in slot s)"
proof -
  have "rq_ok (queue_in slot s)"
    using queue_in_matches [OF sched_okD(1) [OF s] slot] by (simp add: queue_matches_def)
  moreover have pos: "0 \<le> th_scheduled r"
    using record_okD(1) [OF sched_okD(2) [OF s u(1)]] by (simp add: queue_fields_ok_def)
  moreover have "rq_queues (queue_in slot s) (nat (th_scheduled r)) \<noteq> []"
    using in_queue_iff [OF s slot, of u "nat (th_scheduled r)"] u pos by auto
  ultimately show ?thesis unfolding rq_ok_def high_ok_def by (metis nat_eq_iff2)
qed

lemma peek_highest_ok:
  assumes s: "sched_ok n s" and slot: "slot_ok n slot" and some: "rq_count (queue_in slot s) \<noteq> 0"
  shows "\<exists>t r. peek_highest (queue_in slot s) s = Some t \<and> thread_of t s = Some r \<and> th_queued r \<and>
    th_bound r = slot \<and> th_queued_processor r = slot \<and> th_scheduled r = rq_high (queue_in slot s) \<and>
    th_queued_priority r = rq_high (queue_in slot s) \<and> (\<forall>u. eligible slot u s \<longrightarrow> no_better u t s)"
proof -
  let ?q = "queue_in slot s"
  have ok: "rq_ok ?q" using queue_in_matches [OF sched_okD(1) [OF s] slot] by (simp add: queue_matches_def)
  note high = rq_high_some [OF ok some]
  have fields: "th_queued_priority r = th_scheduled r \<and> th_queued_processor r = th_bound r \<and> th_scheduled r \<le> 97"
    if "thread_of t s = Some r" "th_queued r" for t r
    using record_okD(1) [OF sched_okD(2) [OF s that(1)]] that(2) by (simp add: queue_fields_ok_def)
  obtain v others where first: "rq_queues ?q (nat (rq_high ?q)) = v # others"
    using high(2) by (cases "rq_queues ?q (nat (rq_high ?q))") auto
  then obtain rv where v: "thread_of v s = Some rv" "th_queued rv" "th_bound rv = slot" "th_scheduled rv = rq_high ?q"
    using in_queue_iff [OF s slot, of v "nat (rq_high ?q)"] high(1) by auto
  show ?thesis
  proof (cases "97 \<le> rq_high ?q")
    case False
    then have "peek_highest ?q s = Some v"
      using some high(1) first by (simp add: peek_highest_def minimum_priority_def realtime_queue_priority_def realtime_base_priority_def)
    moreover have "no_better u v s" if u: "eligible slot u s" for u
    proof -
      obtain ru where ru: "thread_of u s = Some ru" "th_queued ru" "th_bound ru = slot"
        using u by (auto simp: eligible_def split: option.splits)
      show ?thesis using high_bounds [OF s slot ru] v(1,4) ru(1) False
        by (simp add: no_better_def realtime_queue_priority_def realtime_base_priority_def)
    qed
    ultimately show ?thesis using v fields [OF v(1,2)] by auto
  next
    case True
    then have high97: "rq_high ?q = 97" using fields [OF v(1,2)] v(4) by simp
    have "(th_deadline rv, th_sequence rv, v) \<in> set (rq_realtime ?q)"
      using in_realtime_iff [OF s slot] v high97 by auto
    then obtain key keys where list: "rq_realtime ?q = key # keys" by (cases "rq_realtime ?q") auto
    then have "key \<in> set (rq_realtime ?q)" by simp
    then obtain t r where t: "thread_of t s = Some r" "th_queued r" "th_bound r = slot" "th_scheduled r = 97"
      "key = (th_deadline r, th_sequence r, t)" using in_realtime_iff [OF s slot] by blast
    have "peek_highest ?q s = Some t"
      using some high97 list t fields [OF t(1,2)]
      by (simp add: peek_highest_def minimum_priority_def realtime_queue_priority_def realtime_base_priority_def)
    moreover have "no_better u t s" if u: "eligible slot u s" for u
    proof -
      obtain ru where ru: "thread_of u s = Some ru" "th_queued ru" "th_bound ru = slot"
        using u by (auto simp: eligible_def split: option.splits)
      have "th_deadline r \<le> th_deadline ru" if "th_scheduled ru = 97"
      proof -
        have "(th_deadline ru, th_sequence ru, u) \<in> set (rq_realtime ?q)"
          using in_realtime_iff [OF s slot] ru that by auto
        moreover have "sorted (rq_realtime ?q)" using ok by (simp add: rq_ok_def)
        ultimately have "key \<le> (th_deadline ru, th_sequence ru, u)" using list by auto
        then show ?thesis using t(5) by (auto simp: less_eq_prod_simp)
      qed
      then show ?thesis using high_bounds [OF s slot ru] t(1,4) ru(1) high97 by (simp add: no_better_def)
    qed
    ultimately show ?thesis using t fields [OF t(1,2)] high97 by auto
  qed
qed


lemma no_better_trans: "no_better u v s \<Longrightarrow> no_better v t s \<Longrightarrow> no_better u t s"
  by (auto simp: no_better_def split: option.splits)

definition candidate_of :: "xnu_thread \<Rightarrow> thread_record \<Rightarrow> bool \<Rightarrow> queue_candidate" where
  "candidate_of t r local = \<lparr>qc_thread = t, qc_priority = th_scheduled r, qc_deadline = th_deadline r,
     qc_sequence = th_sequence r, qc_realtime = th_realtime r, qc_front = th_front r, qc_local = local\<rparr>"

lemma candidate_for_queue_ok:
  assumes s: "sched_ok n s" and slot: "slot_ok n slot"
  shows "\<exists>c. candidate_for_queue (queue_in slot s) (slot \<noteq> None) s = Some c \<and>
    (case c of None \<Rightarrow> rq_count (queue_in slot s) = 0 \<and> (\<forall>u. \<not> eligible slot u s)
     | Some c \<Rightarrow> \<exists>t r. c = candidate_of t r (slot \<noteq> None) \<and> thread_of t s = Some r \<and>
         peek_highest (queue_in slot s) s = Some t \<and> eligible slot t s \<and>
         (\<forall>u. eligible slot u s \<longrightarrow> no_better u t s))"
proof (cases "rq_count (queue_in slot s) = 0")
  case True
  then have "candidate_for_queue (queue_in slot s) (slot \<noteq> None) s = Some None"
    by (simp add: candidate_for_queue_def)
  with True queue_empty_iff [OF s slot] show ?thesis by auto
next
  case False
  obtain t r where t: "peek_highest (queue_in slot s) s = Some t" "thread_of t s = Some r" "th_queued r"
    "th_bound r = slot" "th_queued_processor r = slot" "th_queued_priority r = rq_high (queue_in slot s)"
    "\<forall>u. eligible slot u s \<longrightarrow> no_better u t s"
    using peek_highest_ok [OF s slot False] by blast
  have "eligible slot t s" using t by (simp add: eligible_def)
  moreover have "candidate_for_queue (queue_in slot s) (slot \<noteq> None) s = Some (Some (candidate_of t r (slot \<noteq> None)))"
    using False t by (simp add: candidate_for_queue_def candidate_of_def)
  ultimately show ?thesis using t by auto
qed

lemma better_candidate:
  assumes s: "sched_ok n s" and u: "thread_of u s = Some v" and t: "thread_of t s = Some r"
    and better: "\<not> candidate_is_better (candidate_of u v a) (candidate_of t r b) \<or>
      candidate_is_better (candidate_of t r b) (candidate_of u v a)"
  shows "no_better u t s"
proof -
  have realtime: "th_realtime w" if "thread_of x s = Some w" "th_scheduled w = 97" for x w
    using record_okD(3) [OF sched_okD(2) [OF s that(1)]] that(2) by (auto simp: priced_def split: if_splits)
  show ?thesis
    using better realtime [OF u] realtime [OF t] u t
    by (auto simp: no_better_def candidate_of_def candidate_is_better_def realtime_queue_priority_def
        realtime_base_priority_def split: if_splits)
qed

lemma peek_next_ok:
  assumes s: "sched_ok n s" and p: "p < n"
  shows "\<exists>res. peek_next_for_processor p s = Some res \<and>
    (case res of None \<Rightarrow> \<forall>u. \<not> eligible None u s \<and> \<not> eligible (Some p) u s
     | Some t \<Rightarrow> (eligible None t s \<or> eligible (Some p) t s) \<and>
         (\<forall>u. eligible None u s \<or> eligible (Some p) u s \<longrightarrow> no_better u t s))"
proof -
  have len: "length (sc_locals s) = n" using struct_indexes(5) [OF sched_okD(1) [OF s]] .
  have slots: "slot_ok n None" "slot_ok n (Some p)" using p by (simp_all add: slot_ok_def)
  have queues: "queue_in (Some p) s = sc_locals s ! p" "queue_in None s = sc_global s" by (simp_all add: queue_in_def)
  have sides: "(Some p \<noteq> None) = True" "((None :: nat option) \<noteq> None) = False" by simp_all
  obtain own where own: "candidate_for_queue (sc_locals s ! p) True s = Some own"
    "case own of None \<Rightarrow> rq_count (sc_locals s ! p) = 0 \<and> (\<forall>u. \<not> eligible (Some p) u s)
     | Some c \<Rightarrow> \<exists>t r. c = candidate_of t r True \<and> thread_of t s = Some r \<and>
         peek_highest (sc_locals s ! p) s = Some t \<and> eligible (Some p) t s \<and>
         (\<forall>u. eligible (Some p) u s \<longrightarrow> no_better u t s)"
    using candidate_for_queue_ok [OF s slots(2)] unfolding queues sides by blast
  obtain shared where shared: "candidate_for_queue (sc_global s) False s = Some shared"
    "case shared of None \<Rightarrow> rq_count (sc_global s) = 0 \<and> (\<forall>u. \<not> eligible None u s)
     | Some c \<Rightarrow> \<exists>t r. c = candidate_of t r False \<and> thread_of t s = Some r \<and>
         peek_highest (sc_global s) s = Some t \<and> eligible None t s \<and>
         (\<forall>u. eligible None u s \<longrightarrow> no_better u t s)"
    using candidate_for_queue_ok [OF s slots(1)] unfolding queues sides by blast
  have selected: "selected_run_queue p s = (case own of
       None \<Rightarrow> Some (if shared \<noteq> None then Some None else None)
     | Some l \<Rightarrow> (case shared of
         None \<Rightarrow> Some (Some (Some p))
       | Some g \<Rightarrow> Some (Some (if candidate_is_better l g then Some p else None))))"
    using p len own(1) shared(1) by (simp add: selected_run_queue_def)
  have q: "queue_of None s = Some (sc_global s)" "queue_of (Some p) s = Some (sc_locals s ! p)"
    using queue_of_in [OF sched_okD(1) [OF s]] slots queues by auto
  show ?thesis
  proof (cases own)
    case None
    then show ?thesis using own(2) shared(2) q
      by (cases shared) (auto simp: peek_next_for_processor_def selected)
  next
    case (Some l)
    then obtain tl rl where l: "l = candidate_of tl rl True" "thread_of tl s = Some rl"
      "peek_highest (sc_locals s ! p) s = Some tl" "eligible (Some p) tl s"
      "\<And>u. eligible (Some p) u s \<Longrightarrow> no_better u tl s" using own(2) by auto
    show ?thesis
    proof (cases shared)
      case None
      with Some l q shared(2) show ?thesis by (auto simp: peek_next_for_processor_def selected)
    next
      case (Some g)
      then obtain tg rg where g: "g = candidate_of tg rg False" "thread_of tg s = Some rg"
        "peek_highest (sc_global s) s = Some tg" "eligible None tg s"
        "\<And>u. eligible None u s \<Longrightarrow> no_better u tg s" using shared(2) by auto
      show ?thesis
      proof (cases "candidate_is_better l g")
        case True
        then have "no_better tg tl s" using better_candidate [OF s g(2) l(2)] l(1) g(1) by blast
        with True Some \<open>own = Some l\<close> l q show ?thesis
          by (auto simp: peek_next_for_processor_def selected intro: no_better_trans g(5))
      next
        case False
        then have "no_better tl tg s" using better_candidate [OF s l(2) g(2)] l(1) g(1) by blast
        with False Some \<open>own = Some l\<close> g q show ?thesis
          by (auto simp: peek_next_for_processor_def selected intro: no_better_trans l(5))
      qed
    qed
  qed
qed

section \<open>Dispatch\<close>

lemma history_moves:
  assumes "struct_ok n s" "thread_of t s = Some r"
  shows "moves n t r 0 s (s\<lparr>sc_history := (sc_history s)(p \<mapsto> h)\<rparr>)"
proof -
  let ?s = "s\<lparr>sc_history := (sc_history s)(p \<mapsto> h)\<rparr>"
  have feet: "feet_of ?s = feet_of s" by (simp add: feet_of_def thread_of_def)
  have "struct_ok n ?s"
    using assms(1) by (simp add: struct_ok_def feet queues_ok_def counts_ok_def indexes_ok_def)
  then show ?thesis
    using assms(2) by (auto simp: moves_def config_def rest_def thread_of_def fun_eq_iff)
qed

lemma install_context_ok:
  assumes s: "struct_ok n s" and t: "thread_of t s = Some r" and p: "p < n"
    and h: "sc_history s (process t) \<noteq> None"
  shows "\<exists>s1. install_context p t s = Some s1 \<and> thread_of t s1 = Some r \<and>
    (\<forall>f. foot_of (f r) = (foot_of r)\<lparr>fo_last := Some p\<rparr> \<longrightarrow> moves n t (f r) 0 s (update t f s1))"
proof -
  note index = struct_indexes [OF s]
  have len: "length (sc_contexts s) = n" using index(4) by (simp add: contexts_ok_def)
  have Ft: "feet_of s t = Some (foot_of r)" using t by (rule feet_at)
  have put: "moves n t (f r) 0 s (update t f (s\<lparr>sc_contexts := cs\<rparr>))"
    if s: "struct_ok n s" and t: "thread_of t s = Some r" and f: "foot_of (f r) = (foot_of r)\<lparr>fo_last := Some p\<rparr>"
      and cs: "contexts_ok n ((feet_of s)(t \<mapsto> foot_of (f r))) cs" for f cs s
  proof (rule update_indexes [OF s t])
    have Ft: "feet_of s t = Some (foot_of r)" using t by (rule feet_at)
    have feet: "fo_depression (foot_of (f r)) = fo_depression (foot_of r)"
      "fo_release (foot_of (f r)) = fo_release (foot_of r)" "fo_usage (foot_of (f r)) = fo_usage (foot_of r)"
      unfolding f by simp_all
    show "deadline_index fo_depression ((feet_of s)(t \<mapsto> foot_of (f r))) (sc_depressions s)"
      "deadline_index fo_release ((feet_of s)(t \<mapsto> foot_of (f r))) (sc_failsafes s)"
      "usage_ok ((feet_of s)(t \<mapsto> foot_of (f r))) (sc_usage s)"
      using put_same(1-3) [OF Ft] feet struct_indexes [OF s] by blast+
    show "foot_of (f r) = (foot_of r)\<lparr>fo_depression := fo_depression (foot_of r),
        fo_release := fo_release (foot_of r), fo_usage := fo_usage (foot_of r), fo_last := Some p\<rparr>"
      unfolding f by simp
    show "update t f (s\<lparr>sc_contexts := cs\<rparr>) = update t f (s\<lparr>sc_depressions := sc_depressions s,
        sc_failsafes := sc_failsafes s, sc_usage := sc_usage s, sc_contexts := cs\<rparr>)" by simp
  qed (fact cs)
  show ?thesis
  proof (cases "sc_contexts s ! p = Some t")
    case True
    have same: "contexts_ok n ((feet_of s)(t \<mapsto> foot_of (f r))) (sc_contexts s)"
      if "foot_of (f r) = (foot_of r)\<lparr>fo_last := Some p\<rparr>" for f
    proof (rule put_same(4) [OF Ft _ index(4)])
      have "th_last r = Some p" using index(4) True p Ft by (fastforce simp: contexts_ok_def)
      then show "fo_last (foot_of (f r)) = fo_last (foot_of r)" unfolding that by simp
    qed
    have "install_context p t s = Some s" using True p len by (simp add: install_context_def)
    moreover have "moves n t (f r) 0 s (update t f s)" if "foot_of (f r) = (foot_of r)\<lparr>fo_last := Some p\<rparr>" for f
      using put [where f = f, OF s t that same [where f = f, OF that]] by simp
    ultimately show ?thesis using t by blast
  next
    case False
    obtain hi where hi: "sc_history s (process t) = Some hi" using h by auto
    define s1 where "s1 = s\<lparr>sc_history := (sc_history s)(process t \<mapsto> hi\<lparr>hi_switches := hi_switches hi + 1\<rparr>)\<rparr>"
    have m1: "moves n t r 0 s s1" unfolding s1_def by (rule history_moves [OF s t])
    obtain cs where cs: "release_processor_context t s1 = Some (s1\<lparr>sc_contexts := cs\<rparr>)"
      "moves n t r 0 s1 (s1\<lparr>sc_contexts := cs\<rparr>)" "\<forall>i<n. cs ! i \<noteq> Some t"
      using release_processor_context_ok [OF movesD(1,2) [OF m1]] by blast
    have C: "contexts_ok n (feet_of s1) cs"
      using struct_indexes(4) [OF movesD(1) [OF cs(2)]] by (simp add: feet_of_def thread_of_def)
    have new: "contexts_ok n ((feet_of s1)(t \<mapsto> foot_of (f r))) (cs[p := Some t])"
      if "foot_of (f r) = (foot_of r)\<lparr>fo_last := Some p\<rparr>" for f
    proof -
      have "\<exists>g. ((feet_of s1)(t \<mapsto> foot_of (f r))) u = Some g \<and> fo_last g = Some i"
        if i: "i < n" "cs[p := Some t] ! i = Some u" for i u
      proof (cases "u = t")
        case True
        then have "i = p" using i cs(3) nth_list_update_neq [of p i cs "Some t"] by (cases "i = p") auto
        with True show ?thesis unfolding \<open>foot_of (f r) = _\<close> by simp
      next
        case False
        then have "cs ! i = Some u" using i C by (cases "i = p") (auto simp: contexts_ok_def)
        with False C i(1) show ?thesis by (simp add: contexts_ok_def)
      qed
      moreover have "i < n" if "((feet_of s1)(t \<mapsto> foot_of (f r))) u = Some g" "fo_last g = Some i" for u g i
        using that C p unfolding \<open>foot_of (f r) = _\<close> by (auto simp: contexts_ok_def split: if_splits)
      ultimately show ?thesis using C by (simp add: contexts_ok_def)
    qed
    have "install_context p t s = Some (s1\<lparr>sc_contexts := cs[p := Some t]\<rparr>)"
      using False p len hi cs(1) by (simp add: install_context_def s1_def)
    moreover have "thread_of t (s1\<lparr>sc_contexts := cs[p := Some t]\<rparr>) = Some r"
      using movesD(2) [OF m1] by (simp add: thread_of_def)
    moreover have "moves n t (f r) 0 s (update t f (s1\<lparr>sc_contexts := cs[p := Some t]\<rparr>))"
      if "foot_of (f r) = (foot_of r)\<lparr>fo_last := Some p\<rparr>" for f
      using moves_trans [OF m1 put [where f = f, OF movesD(1,2) [OF m1] that new [where f = f, OF that]]] by simp
    ultimately show ?thesis by blast
  qed
qed

end
