(* ===== verification/Scheduler_Completion.thy ===== *)
theory Scheduler_Completion
  imports Scheduler_Slices
begin

text \<open>
  The dispatch of a thread by the guest scheduler and the completion of its slice keep the
  invariant, and the time of a slice is charged once.
\<close>

section \<open>Dispatch\<close>

lemma between_dequeued:
  assumes "record_ok n t r"
  shows "queue_fields_ok n t (dequeued r)" "base_ok (dequeued r)" "priced (dequeued r)"
    "th_depression (dequeued r) \<noteq> None \<Longrightarrow> th_depressed (dequeued r)"
  using record_okD [OF assms]
  by (auto simp: dequeued_def queue_fields_ok_def base_ok_def priced_def phase_ok_def split: if_splits)

lemma dispatch_thread_ok:
  assumes s: "sched_ok n s" and t: "thread_of t s = Some r" and queued: "th_queued r" and p: "p < n"
  shows "\<exists>slice s' r'. dispatch_thread p t s = Some (slice, s') \<and> sched_ok n s' \<and>
    sl_thread slice = t \<and> sl_processor slice = p \<and> thread_of t s' = Some r' \<and> th_state r' = Running \<and>
    th_pending r' \<and> sl_budget slice = th_quantum r' \<and> th_user r' = th_user r"
proof -
  note rok = sched_okD(2) [OF s t] and between = between_dequeued [OF sched_okD(2) [OF s t]]
  have state: "th_state r = Runnable" "th_suspends r = 0" and sus: "suspends_ok r"
    using record_okD(4) [OF rok] queued by (auto simp: phase_ok_def)
  obtain s1 where s1: "remove_from_queue t s = Some s1" "steps n t (dequeued r) s s1"
    using remove_dequeues [OF sched_okD(1) [OF s] t record_okD(1) [OF rok]] by blast
  define u where "u = (dequeued r)\<lparr>th_depressed := False, th_depression := None\<rparr>"
  obtain s2 r2 where s2: "restore_depression t s1 = Some s2" "moves n t r2 0 s1 s2" "core r2 = core u"
    "queue_fields_ok n t r2" "priced r2"
    using restore_depression_ok [OF stepsD(1,2) [OF s1(2)] between] by (auto simp: u_def)
  note c2 = core_fields [OF s2(3)]
  have r2: "\<not> th_queued r2" "th_state r2 = Runnable" "th_suspends r2 = 0" "th_depression r2 = None" "base_ok r2"
    "suspends_ok r2" "th_user r2 = th_user r"
    using c2 state between(2) sus by (simp_all add: u_def dequeued_def base_ok_def suspends_ok_def)
  obtain s3 where s3: "transition_state Running t s2 = Some s3" "steps n t (r2\<lparr>th_state := Running\<rparr>) s2 s3"
    using steps_transition [OF movesD(1,2) [OF s2(2)]] by blast
  define f where "f = (\<lambda>r. r\<lparr>th_pending := True\<rparr> :: thread_record)"
  have s4: "steps n t (f (r2\<lparr>th_state := Running\<rparr>)) s3 (update t f s3)"
    by (rule steps_update [where f = f, OF stepsD(1,2) [OF s3(2)]]) (simp add: f_def foot_of_def)
  obtain s5 i where s5: "track_usage t (update t f s3) = Some s5"
    "moves n t ((f (r2\<lparr>th_state := Running\<rparr>))\<lparr>th_usage_index := i\<rparr>) 0 (update t f s3) s5"
    using track_usage_ok [OF stepsD(1,2) [OF s4]] by blast
  define r5 where "r5 = (f (r2\<lparr>th_state := Running\<rparr>))\<lparr>th_usage_index := i\<rparr>"
  have m5: "moves n t r5 0 s s5"
    using moves_trans [OF moves_steps [OF s1(2)] moves_trans [OF s2(2) moves_trans [OF
      moves_steps [OF steps_trans [OF s3(2) s4]] s5(2)]]] by (simp add: r5_def)
  have "sc_history s (process t) \<noteq> None"
    using sched_okD(3) [OF s] feet_at [OF t] by (simp add: processes_ok_def)
  then have "sc_history s5 (process t) \<noteq> None" using movesD(8) [OF m5] by blast
  then obtain s6 where s6: "install_context p t s5 = Some s6" "thread_of t s6 = Some r5"
    "\<And>g. foot_of (g r5) = (foot_of r5)\<lparr>fo_last := Some p\<rparr> \<Longrightarrow> moves n t (g r5) 0 s5 (update t g s6)"
    using install_context_ok [OF movesD(1,2) [OF m5] p] by blast
  define g where "g = (\<lambda>r. let r = r\<lparr>th_last := Some p\<rparr>;
      r = (if th_timeshare r \<and> (th_slices r = 0 \<or> th_slice_processor r \<noteq> Some p)
        then r\<lparr>th_slices := timeshare_quanta s6, th_slice_processor := Some p\<rparr> else r) in
    r\<lparr>th_shift := processor_set_priority_shift r s6\<rparr>)"
  have "foot_of (g r5) = (foot_of r5)\<lparr>fo_last := Some p\<rparr>" by (simp add: g_def Let_def foot_of_def)
  from moves_trans [OF m5 s6(3) [where g = g, OF this]] have m: "moves n t (g r5) 0 s (update t g s6)" by simp
  have "record_ok n t (g r5)"
    using s2(4,5) r2 by (auto simp: g_def Let_def r5_def f_def record_parts)
  moreover have life: "th_state (g r5) = Running" "th_pending (g r5)" "th_user (g r5) = th_user r"
    using r2 by (simp_all add: g_def Let_def r5_def f_def)
  ultimately have ok: "sched_ok n (update t g s6)" using sched_ok_moves [OF s t m] state by simp
  have at: "thread_of t (update t g s6) = Some (g r5)" using s6(2) by simp
  have "dispatch_thread p t s = Some (\<lparr>sl_thread = t, sl_processor = p, sl_budget = th_quantum (g r5),
      sl_generation = th_generation (g r5), sl_front = th_front r\<rparr>, update t g s6)"
    unfolding dispatch_thread_def t bind.simps s1(1) s2(1) s3(1) f_def [symmetric] s5(1) s6(1)
      Let_def [of "update t _ s6"] g_def [symmetric] at ..
  with ok at life show ?thesis by simp
qed

text \<open>What \<^verbatim>\<open>choose_next\<close> returns.\<close>

lemma choose_next_keeps:
  assumes s: "sched_ok n s"
  shows "keeps n (choose_next p preferred s)"
proof (cases "p < n")
  case False
  with s struct_indexes(5) [OF sched_okD(1) [OF s]] show ?thesis by (simp add: choose_next_def)
next
  case p: True
  have len: "length (sc_locals s) = n" using struct_indexes(5) [OF sched_okD(1) [OF s]] .
  obtain res where res: "select_thread p preferred s = Some res"
    "\<And>t. res = Some t \<Longrightarrow> \<exists>r. thread_of t s = Some r \<and> th_queued r"
  proof (cases preferred)
    case None
    obtain res where "peek_next_for_processor p s = Some res"
      "\<And>t. res = Some t \<Longrightarrow> eligible None t s \<or> eligible (Some p) t s"
      using peek_next_ok [OF s p] by (auto split: option.splits)
    with None show ?thesis
      by (intro that [of res]) (auto simp: select_thread_def eligible_def split: option.splits)
  next
    case (Some t)
    then show ?thesis
      by (intro that) (auto simp: select_thread_def split: option.splits if_splits)
  qed
  show ?thesis
  proof (cases res)
    case None
    with res(1) s p len show ?thesis by (simp add: choose_next_def)
  next
    case (Some t)
    then obtain r where "thread_of t s = Some r" "th_queued r" using res(2) by blast
    then obtain slice s' where "dispatch_thread p t s = Some (slice, s')" "sched_ok n s'"
      using dispatch_thread_ok [OF s _ _ p] by blast
    with res(1) Some p len show ?thesis by (simp add: choose_next_def)
  qed
qed

section \<open>Accounting\<close>

lemma charge_record [simp]:
  "record_ok n t (charge c r) = record_ok n t r" "foot_of (charge c r) = foot_of r"
  "th_pending (charge c r) = False" "th_user (charge c r) = saturating_add (th_user r) c"
  "th_state (charge c r) = th_state r" "th_wake (charge c r) = th_wake r"
  by (simp_all add: charge_def record_parts foot_of_def)

lemma same_lives_thread:
  assumes "same_lives s s'" "thread_of t s = Some r"
  shows "\<exists>r'. thread_of t s' = Some r' \<and> life r' = life r"
  using assms by (auto simp: same_lives_def dest!: spec [of _ t])

lemma account_slice_ok:
  assumes s: "sched_ok n s" and t: "thread_of t s = Some r"
  shows "\<exists>s' r'. account_slice t c advance s = Some s' \<and> sched_ok n s' \<and> thread_of t s' = Some r' \<and>
    life r' = life (charge c r)"
proof -
  define s1 where "s1 = update t (charge c) s"
  have s1: "sched_ok n s1" "thread_of t s1 = Some (charge c r)"
    unfolding s1_def using update_keeps [where f = "charge c", OF s t] sched_okD(2) [OF s t] t by simp_all
  define unsafe where "unsafe \<longleftrightarrow> th_quantum (charge c r) = 0 \<and> \<not> th_timeshare (charge c r) \<and>
    maximum_unsafe_quanta * sc_quantum s1 < th_metered (charge c r)"
  obtain s2 r2 where s2: "(if unsafe then apply_failsafe t s1 else Some s1) = Some s2" "sched_ok n s2"
    "thread_of t s2 = Some r2" "life r2 = life (charge c r)"
  proof (cases unsafe)
    case False
    with s1 that show ?thesis by simp
  next
    case True
    obtain s2 r2 where f: "apply_failsafe t s1 = Some s2" "moves n t r2 0 s1 s2" "record_ok n t r2"
      "life r2 = life (charge c r)" "sc_history s2 = sc_history s1"
      using apply_failsafe_ok [OF sched_okD(1) [OF s1(1)] s1(2) sched_okD(2) [OF s1]] by blast
    have "sched_ok n s2" using sched_ok_life [OF s1 f(2-5)] ..
    with True f(1,4) movesD(2) [OF f(2)] that show ?thesis by simp
  qed
  obtain s3 r3 where s3: "(if advance then advance_scheduler_time c s2 else Some s2) = Some s3" "sched_ok n s3"
    "thread_of t s3 = Some r3" "life r3 = life (charge c r)"
  proof (cases advance)
    case False
    with s2 that show ?thesis by simp
  next
    case True
    obtain s3 where a: "advance_scheduler_time c s2 = Some s3" "sched_ok n s3" "same_lives s2 s3"
      using advance_scheduler_time_ok [OF s2(2)] by blast
    with same_lives_thread [OF a(3) s2(3)] True s2(4) that show ?thesis by auto
  qed
  have "account_slice t c advance s = Some s3"
    unfolding account_slice_def Let_def s1_def [symmetric] s1(2) bind.simps unsafe_def [symmetric] s2(1) s3(1) ..
  with s3 show ?thesis by blast
qed


section \<open>After the slice\<close>

lemma begin_host_await_ok:
  assumes s: "struct_ok n s" and t: "thread_of t s = Some r"
    and f: "foot_of (f r) = (foot_of r)\<lparr>fo_awaiting := True\<rparr>"
    and h: "h = (if th_awaiting r then sc_host_awaits s else sc_host_awaits s + 1)"
  shows "moves n t (f r) 0 s (update t f (s\<lparr>sc_host_awaits := h\<rparr>))"
proof (rule struct_put_indexes [OF s t])
  have Ft: "feet_of s t = Some (foot_of r)" using t by (rule feet_at)
  have "update t f (s\<lparr>sc_host_awaits := h\<rparr>) = (update t f s)\<lparr>sc_host_awaits := h\<rparr>" by (simp add: update_def)
  also have "\<dots> = (update t (\<lambda>_. f r) s)\<lparr>sc_host_awaits := h\<rparr>"
    using update_const [OF struct_ordered [OF s] t, of f] by simp
  finally show "update t f (s\<lparr>sc_host_awaits := h\<rparr>) = (update t (\<lambda>_. f r) s)\<lparr>sc_depressions := sc_depressions s,
      sc_failsafes := sc_failsafes s, sc_usage := sc_usage s, sc_contexts := sc_contexts s, sc_host_awaits := h\<rparr>"
    by (simp add: update_def)
  have "fo_awaiting (foot_of (f r))" "fo_state (foot_of (f r)) = fo_state (foot_of r)"
    "fo_bucket (foot_of (f r)) = fo_bucket (foot_of r)" unfolding f by simp_all
  then show "th_state (f r) = th_state r" "th_bucket (f r) = th_bucket r"
    "h + of_bool (th_awaiting r) = sc_host_awaits s + of_bool (th_awaiting (f r))" by (simp_all add: h)
  show "fo_place (foot_of (f r)) = fo_place (foot_of r)" unfolding f by simp
  have feet: "fo_depression (foot_of (f r)) = fo_depression (foot_of r)"
    "fo_release (foot_of (f r)) = fo_release (foot_of r)" "fo_usage (foot_of (f r)) = fo_usage (foot_of r)"
    "fo_last (foot_of (f r)) = fo_last (foot_of r)" unfolding f by simp_all
  show "deadline_index fo_depression ((feet_of s)(t \<mapsto> foot_of (f r))) (sc_depressions s)"
    "deadline_index fo_release ((feet_of s)(t \<mapsto> foot_of (f r))) (sc_failsafes s)"
    "usage_ok ((feet_of s)(t \<mapsto> foot_of (f r))) (sc_usage s)"
    "contexts_ok n ((feet_of s)(t \<mapsto> foot_of (f r))) (sc_contexts s)"
    using put_same [OF Ft] feet struct_indexes [OF s] by blast+
qed

lemma no_slices_record [simp]:
  "foot_of (no_slices r) = foot_of r" "record_ok n t (no_slices r) = record_ok n t r"
  "th_state (no_slices r) = th_state r" "th_user (no_slices r) = th_user r"
  "th_pending (no_slices r) = th_pending r" "may_enter n t (no_slices r) = may_enter n t r"
  by (simp_all add: no_slices_def foot_of_def record_parts may_enter_def between_queues_def)

lemma quantum_record [simp]:
  "foot_of (r\<lparr>th_quantum := q\<rparr>) = foot_of r" "record_ok n t (r\<lparr>th_quantum := q\<rparr>) = record_ok n t r"
  "may_enter n t (r\<lparr>th_quantum := q\<rparr>) = may_enter n t r"
  by (simp_all add: foot_of_def record_parts may_enter_def between_queues_def)

text \<open>A recomputation after a change that matters neither to the queues nor to the phase.\<close>

lemma goes_reprice:
  assumes s: "sched_ok n s" and t: "thread_of t s = Some r"
    and f: "foot_of (f r) = foot_of r" "record_ok n t (f r)" "th_user (f r) = th_user r" "th_pending (f r) = th_pending r"
  shows "goes n t r s (recompute_priority t (update t f s))"
proof -
  note fok = record_okD [OF f(2)]
  obtain s' r' where s': "recompute_priority t (update t f s) = Some s'" "steps n t r' s s'"
    "core r' = core (f r)" "record_ok n t r'"
    using reprice_ok [where f = f, OF sched_okD(1) [OF s] t f(1) fok(1,2,5,4)] by blast
  note c = core_fields [OF s'(3)]
  have "th_state (f r) = th_state r" using arg_cong [OF f(1), of fo_state] by simp
  with s' c f(3,4) show ?thesis
    by (intro goesI [OF _ moves_steps [OF s'(2)] s'(4)]) simp_all
qed

lemma await_slice_ok:
  assumes s: "sched_ok n s" and t: "thread_of t s = Some r"
  shows "goes n t r s (await_slice t s)"
proof -
  note rok = sched_okD(2) [OF s t]
  define h where "h = (if th_awaiting r then sc_host_awaits s else sc_host_awaits s + 1)"
  define f where "f = (\<lambda>r. r\<lparr>th_host_resume := (th_quantum r \<noteq> 0 \<and> th_suspends r = 0 \<and> th_state r = Running),
    th_awaiting := True, th_wake := False, th_resume := False\<rparr> :: thread_record)"
  define s1 where "s1 = update t f (s\<lparr>sc_host_awaits := h\<rparr>)"
  have m1: "moves n t (f r) 0 s s1"
    unfolding s1_def by (rule begin_host_await_ok [OF sched_okD(1) [OF s] t _ h_def]) (simp add: f_def foot_of_def)
  have fr: "record_ok n t (f r)" using rok by (simp add: f_def record_parts)
  obtain s2 where s2: "remove_from_queue t s1 = Some s2" "steps n t (dequeued (f r)) s1 s2"
    using remove_dequeues [OF movesD(1,2) [OF m1] record_okD(1) [OF fr]] by blast
  define r2 where "r2 = dequeued (f r)"
  have m2: "moves n t r2 0 s s2" using moves_trans [OF m1 moves_steps [OF s2(2)]] by (simp add: r2_def)
  have state2: "th_state r2 = th_state r" by (simp add: r2_def f_def dequeued_def)
  define s3 where "s3 = (if th_state r = Waiting then s2\<lparr>sc_waiting := sc_waiting s2 - 1\<rparr> else s2)"
  have suspended: "th_suspends r \<noteq> 0 \<Longrightarrow> th_state r = Waiting \<and> \<not> th_queued r"
    using record_okD(4) [OF rok] by (auto simp: phase_ok_def)
  have first: "goes n t r s (if th_suspends r = 0 then transition_state Host_Await t s3 else Some s2)"
  proof (cases "th_suspends r = 0")
    case True
    have m3: "moves n t r2 (- of_bool (th_state r = Waiting)) s s3"
      unfolding s3_def by (rule awake_moves [OF s t m2 state2])
    obtain s4 where s4: "transition_state Host_Await t s3 = Some s4" "steps n t (r2\<lparr>th_state := Host_Await\<rparr>) s3 s4"
      using steps_transition [OF movesD(1,2) [OF m3]] by blast
    have "record_ok n t (r2\<lparr>th_state := Host_Await\<rparr>)"
      using fr True by (auto simp: r2_def dequeued_def f_def record_parts split: if_splits)
    then show ?thesis
      using True s4(1)
      by (intro goesI [OF _ moves_trans [OF m3 moves_steps [OF s4(2)]]]) (simp_all add: r2_def f_def dequeued_def)
  next
    case False
    then have "r2 = f r" using suspended fr by (simp add: r2_def dequeued_def f_def record_parts)
    with False fr show ?thesis by (intro goesI [OF _ m2]) (simp_all add: f_def)
  qed
  let ?x = "if th_suspends r = 0 then transition_state Host_Await t s3 else Some s2"
  let ?y = "\<lambda>s. if th_quantum r = 0
    then recompute_priority t (update t (\<lambda>r. no_slices (r\<lparr>th_quantum := quantum_for r s\<rparr>)) s) else Some s"
  have "await_slice t s = ?x \<bind> ?y"
    unfolding await_slice_def t bind.simps Let_def h_def [symmetric] f_def [symmetric] s1_def [symmetric] s2(1)
      s3_def [symmetric] ..
  moreover have "goes n t r s (?x \<bind> ?y)"
  proof (rule goes_trans [OF s t first])
    fix s' r'
    assume s': "sched_ok n s'" "thread_of t s' = Some r'"
    have "goes n t r' s' (recompute_priority t (update t (\<lambda>r. no_slices (r\<lparr>th_quantum := quantum_for r s'\<rparr>)) s'))"
      by (rule goes_reprice [OF s']) (use sched_okD(2) [OF s'] in simp_all)
    moreover have "goes n t r' s' (Some s')"
      by (rule goesI [OF refl moves_steps [OF steps_refl [OF sched_okD(1) [OF s'(1)] s'(2)]] sched_okD(2) [OF s']]) simp_all
    ultimately show "goes n t r' s' (?y s')" by simp
  qed
  ultimately show ?thesis by simp
qed

lemma goes_refl: "sched_ok n s \<Longrightarrow> thread_of t s = Some r \<Longrightarrow> goes n t r s (Some s)"
  by (rule goesI [OF refl moves_steps [OF steps_refl [OF sched_okD(1)]] sched_okD(2)]) simp_all

lemma interrupted_slice_ok:
  assumes s: "sched_ok n s" and t: "thread_of t s = Some r"
  shows "goes n t r s (interrupted_slice t completion s)"
proof -
  let ?x = "if completion = Slice_Block \<and> \<not> th_wake r
    then map_option (\<lambda>(_, s). update t no_slices s) (block t s)
    else if th_wake r then map_option snd (make_runnable t s) else Some s"
  let ?y = "\<lambda>s. do { r \<leftarrow> thread_of t s;
     s \<leftarrow> (if th_state r = Waiting then release_processor_context t s else Some s);
     Some (update t (\<lambda>r. r\<lparr>th_wake := False\<rparr>) s) }"
  have blocked: "goes n t r s (map_option (\<lambda>(_, s). update t no_slices s) (block t s))"
  proof -
    have "goes n t r s (map_option snd (block t s) \<bind> (\<lambda>s. Some (update t no_slices s)))"
    proof (rule goes_trans [OF s t block_ok [OF s t]])
      fix s' r'
      assume s': "sched_ok n s'" "thread_of t s' = Some r'"
      show "goes n t r' s' (Some (update t no_slices s'))"
        by (rule goes_update [OF s']) (use sched_okD(2) [OF s'] in simp_all)
    qed
    moreover have "map_option (\<lambda>(_, s). update t no_slices s) x =
        map_option snd x \<bind> (\<lambda>s. Some (update t no_slices s))" for x :: "(bool \<times> scheduler) option"
      by (cases x) (simp_all add: case_prod_beta)
    ultimately show ?thesis by simp
  qed
  have first: "goes n t r s ?x" using blocked make_runnable_ok [OF s t] goes_refl [OF s t] by simp
  have second: "goes n t r' s' (?y s')" if s': "sched_ok n s'" "thread_of t s' = Some r'" for s' r'
  proof -
    obtain s2 where s2: "(if th_state r' = Waiting then release_processor_context t s' else Some s') = Some s2"
      "moves n t r' 0 s' s2"
      using release_processor_context_ok [OF sched_okD(1) [OF s'(1)] s'(2)]
        moves_steps [OF steps_refl [OF sched_okD(1) [OF s'(1)] s'(2)]] by (cases "th_state r' = Waiting") auto
    define f where "f = (\<lambda>r. r\<lparr>th_wake := False\<rparr> :: thread_record)"
    have st: "steps n t (f r') s2 (update t f s2)"
      by (rule steps_update [where f = f, OF movesD(1,2) [OF s2(2)]]) (simp add: f_def foot_of_def)
    have "?y s' = Some (update t f s2)" using s'(2) s2(1) by (simp add: f_def)
    then show ?thesis
      by (rule goesI [OF _ moves_trans [OF s2(2) moves_steps [OF st]]])
        (use sched_okD(2) [OF s'] in \<open>simp_all add: f_def record_parts\<close>)
  qed
  have "interrupted_slice t completion s = ?x \<bind> ?y"
    unfolding interrupted_slice_def t bind.simps ..
  with goes_trans [OF s t first second] show ?thesis by simp
qed

lemma wake_record [simp]:
  "foot_of (r\<lparr>th_wake := w\<rparr>) = foot_of r" "may_enter n t (r\<lparr>th_wake := w\<rparr>) = may_enter n t r"
  by (simp_all add: foot_of_def may_enter_def between_queues_def queue_fields_ok_def base_ok_def
      priced_def suspends_ok_def)

text \<open>A running thread leaves its slice to become runnable again.\<close>

lemma running_enters:
  assumes s: "sched_ok n s" and t: "thread_of t s = Some r" and run: "th_state r = Running"
  shows "may_enter n t r"
  using record_okD [OF sched_okD(2) [OF s t]] run
  by (intro may_enterI [OF sched_okD(2) [OF s t]]) (auto simp: phase_ok_def)

lemma goes_ready:
  assumes s: "sched_ok n s" and t: "thread_of t s = Some r" and run: "th_state r = Running"
    and g: "foot_of (g r) = foot_of r" "may_enter n t (g r)" "th_user (g r) = th_user r" "th_pending (g r) = th_pending r"
    and f: "\<And>s r. may_enter n t r \<Longrightarrow> may_enter n t (f s r)" "\<And>s r. foot_of (f s r) = foot_of r"
      "\<And>s r. th_user (f s r) = th_user r" "\<And>s r. th_pending (f s r) = th_pending r"
  shows "goes n t r s (do { s \<leftarrow> transition_state Runnable t (update t g s); enqueue front t (update t (f s) s) })"
proof -
  have st: "steps n t (g r) s (update t g s)"
    by (rule steps_update [where f = g, OF sched_okD(1) [OF s] t g(1)])
  have "th_state (g r) = th_state r" using arg_cong [OF g(1), of fo_state] by simp
  with run show ?thesis
    by (intro revive_ok [where f = f, OF s t moves_steps [OF st] _ g(2-4) f]) simp_all
qed

lemma blocked_slice_ok:
  assumes s: "sched_ok n s" and t: "thread_of t s = Some r" and run: "th_state r = Running"
  shows "goes n t r s (blocked_slice t s)"
proof (cases "th_wake r")
  case True
  have "goes n t r s (do { s \<leftarrow> transition_state Runnable t (update t (\<lambda>r. r\<lparr>th_wake := False\<rparr>) s);
      enqueue False t (update t (\<lambda>r. no_slices ((begin_runnable_generation r)\<lparr>th_quantum := quantum_for r s\<rparr>)) s) })"
    by (rule goes_ready [OF s t run]) (use running_enters [OF s t run] in simp_all)
  moreover have "blocked_slice t s = do { s \<leftarrow> transition_state Runnable t (update t (\<lambda>r. r\<lparr>th_wake := False\<rparr>) s);
      enqueue False t (update t (\<lambda>r. no_slices ((begin_runnable_generation r)\<lparr>th_quantum := quantum_for r s\<rparr>)) s) }"
    using True by (simp add: blocked_slice_def t)
  ultimately show ?thesis by simp
next
  case False
  obtain s1 where s1: "transition_state Waiting t s = Some s1" "steps n t (r\<lparr>th_state := Waiting\<rparr>) s s1"
    using steps_transition [OF sched_okD(1) [OF s] t] by blast
  obtain s2 where s2: "release_processor_context t s1 = Some s2" "moves n t (r\<lparr>th_state := Waiting\<rparr>) 0 s1 s2"
    using release_processor_context_ok [OF stepsD(1,2) [OF s1(2)]] by blast
  define s3 where "s3 = s2\<lparr>sc_waiting := sc_waiting s2 + 1\<rparr>"
  have m3: "moves n t (r\<lparr>th_state := Waiting\<rparr>) 1 s s3"
    using moves_trans [OF moves_steps [OF s1(2)] moves_trans [OF s2(2) waiting_change(1) [OF movesD(1,2) [OF s2(2)]]]]
    by (simp add: s3_def)
  define f where "f = (\<lambda>r. no_slices (r\<lparr>th_quantum := quantum_for r s3\<rparr>))"
  have st: "steps n t (f (r\<lparr>th_state := Waiting\<rparr>)) s3 (update t f s3)"
    by (rule steps_update [where f = f, OF movesD(1,2) [OF m3]]) (simp add: f_def)
  have "record_ok n t (r\<lparr>th_state := Waiting\<rparr>)"
    using sched_okD(2) [OF s t] run by (auto simp: record_parts)
  moreover have "blocked_slice t s = Some (update t f s3)"
    using False s1(1) s2(1) by (simp add: blocked_slice_def t s3_def f_def Let_def)
  ultimately show ?thesis using run
    by (intro goesI [OF _ moves_trans [OF m3 moves_steps [OF st]]]) (simp_all add: f_def)
qed


lemma goes_after:
  assumes "moves n t r1 0 s s1" "th_state r1 = th_state r" "th_user r1 = th_user r" "th_pending r1 = th_pending r"
    and "goes n t r1 s1 x"
  shows "goes n t r s x"
proof -
  obtain s2 r2 where s2: "x = Some s2" "record_ok n t r2" "th_user r2 = th_user r1" "th_pending r2 = th_pending r1"
    "moves n t r2 (of_bool (th_state r2 = Waiting) - of_bool (th_state r1 = Waiting)) s1 s2"
    using assms(5) by (auto simp: goes_def)
  show ?thesis
    by (rule goesI [OF s2(1) moves_trans [OF assms(1) s2(5)] s2(2)]) (use assms(2-4) s2 in simp_all)
qed

lemma same_update: "struct_ok n s \<Longrightarrow> thread_of t s = Some r \<Longrightarrow> update t (\<lambda>r. r) s = s"
proof -
  assume s: "struct_ok n s" and t: "thread_of t s = Some r"
  have "update t (\<lambda>r. r) s = update t (\<lambda>_. r) s" by (rule update_const [OF struct_ordered [OF s] t])
  also have "\<dots> = s" by (rule update_same [OF struct_ordered [OF s] t])
  finally show ?thesis .
qed

lemma requeue_slice_ok:
  assumes s: "sched_ok n s" and t: "thread_of t s = Some r" and run: "th_state r = Running"
  shows "goes n t r s (requeue_slice t completion s)"
proof -
  define g where "g = (\<lambda>r. r\<lparr>th_wake := False\<rparr> :: thread_record)"
  define s1 where "s1 = update t g s"
  have g: "foot_of (g r) = foot_of r" "may_enter n t (g r)" "th_user (g r) = th_user r" "th_pending (g r) = th_pending r"
    using running_enters [OF s t run] by (simp_all add: g_def)
  have ready: "goes n t r s (do { s \<leftarrow> transition_state Runnable t s1; enqueue front t (update t begin_runnable_generation s) })" for front
    unfolding s1_def using goes_ready [where f = "\<lambda>_. begin_runnable_generation" and g = g, OF s t run g] by simp
  have at: "thread_of t s1 = Some (g r)" using t by (simp add: s1_def)
  have gq: "th_quantum (g r) = th_quantum r" by (simp add: g_def)
  consider (cooperates) "completion = Slice_Host_Cooperate" "th_quantum r \<noteq> 0"
    | (expires) "completion = Slice_Yield \<or> th_quantum r = 0"
    | (goes_on) "completion \<noteq> Slice_Host_Cooperate" "completion \<noteq> Slice_Yield" "th_quantum r \<noteq> 0" by blast
  then show ?thesis
  proof cases
    case cooperates
    with ready [of False] at gq show ?thesis
      by (simp add: requeue_slice_def g_def [symmetric] s1_def [symmetric] make_ready_def)
  next
    case goes_on
    with ready [of True] at gq show ?thesis
      by (simp add: requeue_slice_def g_def [symmetric] s1_def [symmetric])
  next
    case expires
    have st1: "steps n t (g r) s s1" unfolding s1_def
      by (rule steps_update [where f = g, OF sched_okD(1) [OF s] t g(1)])
    define h where "h = (\<lambda>r. r\<lparr>th_metered := (if completion = Slice_Yield then 0 else th_metered r),
      th_quantum := quantum_for r s1\<rparr> :: thread_record)"
    have rok: "record_ok n t (h (g r))" and foot: "foot_of (h (g r)) = foot_of (g r)"
      using sched_okD(2) [OF s t] by (simp_all add: h_def g_def record_parts foot_of_def)
    note fok = record_okD [OF rok]
    obtain s2 r2 where s2: "recompute_priority t (update t h s1) = Some s2" "steps n t r2 s1 s2"
      "core r2 = core (h (g r))" "record_ok n t r2"
      using reprice_ok [where f = h, OF stepsD(1,2) [OF st1] foot fok(1,2,5,4)] by blast
    note c = core_fields [OF s2(3)]
    have r2: "th_state r2 = Running" "th_user r2 = th_user r" "th_pending r2 = th_pending r"
      using c run by (simp_all add: h_def g_def)
    note m2 = moves_steps [OF steps_trans [OF st1 s2(2)]]
    have ok2: "sched_ok n s2" using sched_ok_moves [OF s t m2 s2(4)] r2(1) run by simp
    note t2 = stepsD(2) [OF s2(2)]
    obtain s3 where s3: "transition_state Runnable t s2 = Some s3" "steps n t (r2\<lparr>th_state := Runnable\<rparr>) s2 s3"
      using steps_transition [OF stepsD(1,2) [OF s2(2)]] by blast
    have run_rest: "requeue_slice t completion s =
      (if completion \<noteq> Slice_Yield \<and> th_timeshare r2 \<and> 1 < th_slices r2
       then enqueue True t (update t (\<lambda>r. (begin_runnable_generation r)\<lparr>th_slices := th_slices r - 1\<rparr>) s3)
       else enqueue False t (update t (\<lambda>r. no_slices (begin_runnable_generation r)) s3))"
      using expires at gq s2(1) s3(1) stepsD(2) [OF s3(2)]
      by (auto simp: requeue_slice_def g_def [symmetric] s1_def [symmetric] h_def)
    have id: "foot_of ((\<lambda>r. r) r2) = foot_of r2" "may_enter n t ((\<lambda>r. r) r2)" "th_user ((\<lambda>r. r) r2) = th_user r2"
      "th_pending ((\<lambda>r. r) r2) = th_pending r2" using running_enters [OF ok2 t2 r2(1)] by simp_all
    have "goes n t r2 s2 (do { s \<leftarrow> transition_state Runnable t (update t (\<lambda>r. r) s2); enqueue front t (update t f s) })"
      if "\<And>r. may_enter n t r \<Longrightarrow> may_enter n t (f r)" "\<And>r. foot_of (f r) = foot_of r"
        "\<And>r. th_user (f r) = th_user r" "\<And>r. th_pending (f r) = th_pending r" for front f
      by (rule goes_ready [where f = "\<lambda>_. f" and g = "\<lambda>r. r", OF ok2 t2 r2(1) id that])
    then have last: "goes n t r2 s2 (enqueue front t (update t f s3))"
      if "\<And>r. may_enter n t r \<Longrightarrow> may_enter n t (f r)" "\<And>r. foot_of (f r) = foot_of r"
        "\<And>r. th_user (f r) = th_user r" "\<And>r. th_pending (f r) = th_pending r" for front f
      unfolding same_update [OF sched_okD(1) [OF ok2] t2] s3(1) bind.simps using that by blast
    have slices: "foot_of (r\<lparr>th_slices := v\<rparr>) = foot_of r" "may_enter n t (r\<lparr>th_slices := v\<rparr>) = may_enter n t r" for r v
      by (simp_all add: foot_of_def may_enter_def between_queues_def queue_fields_ok_def base_ok_def
          priced_def suspends_ok_def)
    have "goes n t r2 s2 (requeue_slice t completion s)"
      unfolding run_rest by (cases "completion \<noteq> Slice_Yield \<and> th_timeshare r2 \<and> 1 < th_slices r2")
        (simp_all only: if_True if_False simp_thms, (rule last; simp add: slices)+)
    then show ?thesis using r2 run by (intro goes_after [OF m2]) simp_all
  qed
qed

end
