(* ===== verification/Scheduler_Lifetimes.thy ===== *)
theory Scheduler_Lifetimes
  imports Scheduler_Completion
begin

text \<open>
  Threads of the guest scheduler come and go: registering, retiring and replacing them keeps the
  invariant of the whole scheduler.
\<close>

section \<open>Between registered and gone\<close>

text \<open>One thread is waiting but not counted so; everything else is in order.\<close>

definition uncounted :: "nat \<Rightarrow> xnu_thread \<Rightarrow> scheduler \<Rightarrow> bool" where
  "uncounted n t s \<longleftrightarrow> struct_ok n s \<and> (\<forall>u v. u \<noteq> t \<longrightarrow> thread_of u s = Some v \<longrightarrow> record_ok n u v) \<and>
    processes_ok (feet_of s) s \<and> waiting_balance s = - 1 \<and>
    0 \<le> sc_minimum_user s \<and> sc_minimum_user s \<le> maximum_user_priority"

lemma uncountedD:
  assumes "uncounted n t s"
  shows "struct_ok n s" "u \<noteq> t \<Longrightarrow> thread_of u s = Some v \<Longrightarrow> record_ok n u v" "processes_ok (feet_of s) s"
    "waiting_balance s = - 1" "0 \<le> sc_minimum_user s" "sc_minimum_user s \<le> maximum_user_priority"
  using assms by (auto simp: uncounted_def)

lemma moves_frame:
  assumes m: "moves n t r' w s s'" and t: "thread_of t s = Some r"
    and records: "\<And>u v. u \<noteq> t \<Longrightarrow> thread_of u s = Some v \<Longrightarrow> record_ok n u v"
    and procs: "processes_ok (feet_of s) s" and minimum: "0 \<le> sc_minimum_user s" "sc_minimum_user s \<le> maximum_user_priority"
  shows "struct_ok n s'" "\<And>u v. u \<noteq> t \<Longrightarrow> thread_of u s' = Some v \<Longrightarrow> record_ok n u v"
    "processes_ok (feet_of s') s'" "0 \<le> sc_minimum_user s'" "sc_minimum_user s' \<le> maximum_user_priority"
    "waiting_balance s' = waiting_balance s + w + of_bool (th_state r = Waiting) - of_bool (th_state r' = Waiting)"
proof -
  show "struct_ok n s'" by (rule movesD(1) [OF m])
  show "record_ok n u v" if "u \<noteq> t" "thread_of u s' = Some v" for u v
    using records [OF that(1)] that movesD(3) [OF m that(1)] by simp
  show "processes_ok (feet_of s') s'"
    unfolding feet_put [OF movesD(4) [OF m]]
    using feet_at [OF t] config_fields(1) [OF movesD(6) [OF m]] movesD(7,8) [OF m]
    by (intro processes_ok_put [OF procs]) simp_all
  show "0 \<le> sc_minimum_user s'" "sc_minimum_user s' \<le> maximum_user_priority"
    using config_fields(6) [OF movesD(6) [OF m]] minimum by simp_all
  show "waiting_balance s' = waiting_balance s + w + of_bool (th_state r = Waiting) - of_bool (th_state r' = Waiting)"
    by (rule moves_balance [OF m t])
qed

lemma uncounted_moves:
  assumes u: "uncounted n t s" and t: "thread_of t s = Some r" and m: "moves n t r' w s s'"
    and w: "w = of_bool (th_state r' = Waiting) - of_bool (th_state r = Waiting)"
  shows "uncounted n t s'"
  using moves_frame [OF m t uncountedD(2,3,5,6) [OF u]] uncountedD(4) [OF u] w by (auto simp: uncounted_def)

lemma counted_moves:
  assumes u: "uncounted n t s" and t: "thread_of t s = Some r" "th_state r = Waiting" and m: "moves n t r' w s s'"
    and r': "record_ok n t r'" and w: "w = of_bool (th_state r' = Waiting)"
  shows "sched_ok n s'"
proof -
  note frame = moves_frame [OF m t(1) uncountedD(2,3,5,6) [OF u]]
  have "record_ok n v x" if "thread_of v s' = Some x" for v x
    using that frame(2) movesD(2) [OF m] r' by (cases "v = t") auto
  moreover have "waiting_balance s' = 0" using frame(6) uncountedD(4) [OF u] w t(2) by simp
  ultimately show ?thesis using frame(1,3-5) unfolding sched_ok_def by blast
qed

lemma leaving_moves:
  assumes s: "sched_ok n s" and t: "thread_of t s = Some r" and m: "moves n t r' w s s'"
    and w: "w = - of_bool (th_state r = Waiting)" and r': "th_state r' = Waiting"
  shows "uncounted n t s'"
  using moves_frame [OF m t sched_okD(2,3,5,6) [OF s]] sched_okD(4) [OF s] w r' by (auto simp: uncounted_def)

section \<open>Taking a record out\<close>

lemma queue_matches_drop:
  assumes q: "queue_matches F slot q" and t: "F t = Some g" "fo_place g = None"
  shows "queue_matches (F(t := None)) slot q"
proof -
  have "(\<exists>f key. (F(t := None)) u = Some f \<and> fo_place f = Some (slot, int k, key)) \<longleftrightarrow>
    (\<exists>f key. F u = Some f \<and> fo_place f = Some (slot, int k, key))" for u k
    using t by auto
  moreover have "(\<exists>u f p. (F(t := None)) u = Some f \<and> fo_place f = Some (slot, p, Some key)) \<longleftrightarrow>
    (\<exists>u f p. F u = Some f \<and> fo_place f = Some (slot, p, Some key))" for key
  proof
    assume "\<exists>u f p. F u = Some f \<and> fo_place f = Some (slot, p, Some key)"
    then obtain u f p where u: "F u = Some f" "fo_place f = Some (slot, p, Some key)" by blast
    then have "u \<noteq> t" using t by auto
    with u show "\<exists>u f p. (F(t := None)) u = Some f \<and> fo_place f = Some (slot, p, Some key)"
      by (intro exI [of _ u]) simp
  next
    assume "\<exists>u f p. (F(t := None)) u = Some f \<and> fo_place f = Some (slot, p, Some key)"
    then show "\<exists>u f p. F u = Some f \<and> fo_place f = Some (slot, p, Some key)" by (auto split: if_splits)
  qed
  ultimately show ?thesis using q by (simp add: queue_matches_def del: split_paired_All split_paired_Ex)
qed

lemma queues_ok_drop:
  assumes "queues_ok n F s" "finite (dom F)" "F t = Some g" "fo_place g = None"
    and "sc_global s' = sc_global s" "sc_locals s' = sc_locals s" "sc_runnable s' = sc_runnable s"
  shows "queues_ok n (F(t := None)) s'"
proof -
  have "places_ok n (F(t := None))" using assms(1) by (auto simp: queues_ok_def places_ok_def split: if_splits)
  moreover have "tally (\<lambda>_ f. fo_place f \<noteq> None) (F(t := None)) = tally (\<lambda>_ f. fo_place f \<noteq> None) F"
    using tally_drop [OF assms(2), of "\<lambda>_ f. fo_place f \<noteq> None" t] assms(3,4) by simp
  ultimately show ?thesis using assms queue_matches_drop [where F = F and t = t, OF _ assms(3,4)] by (simp add: queues_ok_def)
qed

lemma usage_ok_drop:
  assumes "usage_ok F us" "F t = Some g" "fo_usage g = None"
  shows "usage_ok (F(t := None)) us"
proof -
  have "(\<exists>f. (F(t := None)) u = Some f \<and> fo_usage f = Some i) \<longleftrightarrow> (\<exists>f. F u = Some f \<and> fo_usage f = Some i)" for u i
    using assms(2,3) by auto
  with assms(1) show ?thesis by (simp add: usage_ok_def)
qed

lemma processes_okD:
  assumes P: "processes_ok F s" and ts: "sc_process_threads s p = Some ts"
  shows "ts \<noteq> []" "sorted ts" "distinct ts" "u \<in> set ts \<longleftrightarrow> F u \<noteq> None \<and> process u = p"
proof -
  have "case sc_process_threads s p of
      None \<Rightarrow> (\<forall>t. F t \<noteq> None \<longrightarrow> process t \<noteq> p)
    | Some us \<Rightarrow> us \<noteq> [] \<and> sorted us \<and> distinct us \<and> (\<forall>t. t \<in> set us \<longleftrightarrow> F t \<noteq> None \<and> process t = p)"
    using P unfolding processes_ok_def by blast
  with ts show "ts \<noteq> []" "sorted ts" "distinct ts" "u \<in> set ts \<longleftrightarrow> F u \<noteq> None \<and> process u = p"
    by simp_all
qed

lemma processes_ok_none:
  assumes P: "processes_ok F s" and none: "sc_process_threads s (process t) = None"
  shows "F t = None"
proof -
  have "case sc_process_threads s (process t) of
      None \<Rightarrow> (\<forall>u. F u \<noteq> None \<longrightarrow> process u \<noteq> process t)
    | Some us \<Rightarrow> us \<noteq> [] \<and> sorted us \<and> distinct us \<and> (\<forall>u. u \<in> set us \<longleftrightarrow> F u \<noteq> None \<and> process u = process t)"
    using P unfolding processes_ok_def by blast
  with none have "\<forall>u. F u \<noteq> None \<longrightarrow> process u \<noteq> process t" by simp
  then show ?thesis by blast
qed

text \<open>A process without threads has no entries.\<close>

definition without_thread :: "xnu_thread \<Rightarrow> xnu_thread list \<Rightarrow> scheduler \<Rightarrow> scheduler" where
  "without_thread t ts s = (if remove1 t ts = []
     then s\<lparr>sc_process_runnable := (sc_process_runnable s)(process t := None),
       sc_process_threads := (sc_process_threads s)(process t := None)\<rparr>
     else s\<lparr>sc_process_threads := (sc_process_threads s)(process t \<mapsto> remove1 t ts)\<rparr>)"

lemma without_thread_fields [simp]:
  "sc_threads (without_thread t ts s) = sc_threads s" "sc_global (without_thread t ts s) = sc_global s"
  "sc_locals (without_thread t ts s) = sc_locals s" "sc_runnable (without_thread t ts s) = sc_runnable s"
  "sc_waiting (without_thread t ts s) = sc_waiting s" "sc_load (without_thread t ts s) = sc_load s"
  "sc_host_awaits (without_thread t ts s) = sc_host_awaits s" "sc_usage (without_thread t ts s) = sc_usage s"
  "sc_contexts (without_thread t ts s) = sc_contexts s" "sc_history (without_thread t ts s) = sc_history s"
  "sc_depressions (without_thread t ts s) = sc_depressions s"
  "sc_failsafes (without_thread t ts s) = sc_failsafes s"
  "sc_minimum_user (without_thread t ts s) = sc_minimum_user s"
  by (simp_all add: without_thread_def)

lemma processes_ok_drop:
  assumes P: "processes_ok F s" and t: "F t \<noteq> None" and ts: "sc_process_threads s (process t) = Some ts"
    and s': "sc_process_threads s' = sc_process_threads (without_thread t ts s)"
      "sc_process_runnable s' = sc_process_runnable (without_thread t ts s)" "sc_history s' = sc_history s"
  shows "processes_ok (F(t := None)) s'"
proof -
  note ts_ok = processes_okD [OF P ts]
  have mem: "u \<in> set (remove1 t ts) \<longleftrightarrow> F u \<noteq> None \<and> u \<noteq> t \<and> process u = process t" for u
    using ts_ok(4) [of u] set_remove1_eq [OF ts_ok(3), of t] by blast
  have others: "case sc_process_threads s p of
        None \<Rightarrow> (\<forall>u. F u \<noteq> None \<longrightarrow> process u \<noteq> p)
      | Some us \<Rightarrow> us \<noteq> [] \<and> sorted us \<and> distinct us \<and> (\<forall>u. u \<in> set us \<longleftrightarrow> F u \<noteq> None \<and> process u = p)" for p
    using P unfolding processes_ok_def by blast
  have "case sc_process_threads s' p of
        None \<Rightarrow> (\<forall>u. (F(t := None)) u \<noteq> None \<longrightarrow> process u \<noteq> p)
      | Some us \<Rightarrow> us \<noteq> [] \<and> sorted us \<and> distinct us \<and>
          (\<forall>u. u \<in> set us \<longleftrightarrow> (F(t := None)) u \<noteq> None \<and> process u = p)" for p
  proof (cases "p = process t")
    case False
    then have "sc_process_threads s' p = sc_process_threads s p" by (simp add: s' without_thread_def)
    with others [of p] False show ?thesis by (auto split: option.splits)
  next
    case True
    show ?thesis
    proof (cases "remove1 t ts = []")
      case none: True
      then have "process u \<noteq> process t" if "(F(t := None)) u \<noteq> None" for u
        using mem [of u] that by (auto split: if_splits)
      moreover have "sc_process_threads s' p = None" using none True by (simp add: s' without_thread_def)
      ultimately show ?thesis using True by simp
    next
      case False
      then have "sc_process_threads s' p = Some (remove1 t ts)" using True by (simp add: s' without_thread_def)
      moreover have "u \<in> set (remove1 t ts) \<longleftrightarrow> (F(t := None)) u \<noteq> None \<and> process u = p" for u
        using mem [of u] True by simp
      ultimately show ?thesis using False ts_ok(2,3) by (simp add: sorted_remove1)
    qed
  qed
  moreover have "sc_process_runnable s' (process u) \<noteq> None \<and> sc_history s' (process u) \<noteq> None"
    if "(F(t := None)) u \<noteq> None" for u
  proof -
    have u: "u \<noteq> t" "F u \<noteq> None" using that by (auto split: if_splits)
    then have old: "sc_process_runnable s (process u) \<noteq> None" "sc_history s (process u) \<noteq> None"
      using P unfolding processes_ok_def by blast+
    have "remove1 t ts \<noteq> []" if same: "process u = process t"
    proof -
      have "u \<in> set (remove1 t ts)" unfolding mem using u same by blast
      then show ?thesis by (cases "remove1 t ts") simp_all
    qed
    then have "sc_process_runnable s' (process u) = sc_process_runnable s (process u)"
      by (cases "remove1 t ts = []") (auto simp: s' without_thread_def)
    with old show ?thesis by (simp add: s')
  qed
  ultimately show ?thesis unfolding processes_ok_def by blast
qed

lemma drop_thread_ok:
  assumes u: "uncounted n t s" and t: "thread_of t s = Some r"
    and r: "\<not> th_queued r" "th_state r = Waiting" "\<not> th_awaiting r" "th_usage_index r = None"
    and free: "\<forall>i<n. sc_contexts s ! i \<noteq> Some t"
    and ts: "sc_process_threads s (process t) = Some ts"
  shows "sched_ok n ((without_thread t ts s)\<lparr>sc_threads := erase t (sc_threads s),
    sc_depressions := (case th_depression r of None \<Rightarrow> sc_depressions s
      | Some d \<Rightarrow> remove1 (d, t) (sc_depressions s)),
    sc_failsafes := (if th_failsafe r then remove1 (th_release r, t) (sc_failsafes s) else sc_failsafes s)\<rparr>)"
    (is "sched_ok n ?s")
proof -
  let ?F = "feet_of s"
  note st = uncountedD(1) [OF u] and index = struct_indexes [OF uncountedD(1) [OF u]]
  have Ft: "?F t = Some (foot_of r)" using t by (rule feet_at)
  have threads: "thread_of v ?s = (if v = t then None else thread_of v s)" for v
    using map_of_erase [OF struct_ordered [OF st]] by (simp add: thread_of_def)
  then have feet: "feet_of ?s = ?F(t := None)" by (auto simp: feet_of_def fun_eq_iff)
  have same: "tally P (?F(t := None)) = tally P ?F" if "\<not> P t (foot_of r)" for P
    using tally_drop [OF finite_feet, of P s t] Ft that by simp
  have C: "counts_ok ?F s" using st by (simp add: struct_ok_def)
  have "queues_ok n (?F(t := None)) ?s"
    by (rule queues_ok_drop [OF _ finite_feet Ft]) (use st r(1) in \<open>simp_all add: struct_ok_def\<close>)
  moreover have "counts_ok (?F(t := None)) ?s"
  proof -
    have "(case sc_process_runnable ?s p of None \<Rightarrow> 0 | Some c \<Rightarrow> c) =
        (case sc_process_runnable s p of None \<Rightarrow> 0 | Some c \<Rightarrow> c)" for p
    proof (cases "p = process t \<and> remove1 t ts = []")
      case False
      then show ?thesis by (auto simp: without_thread_def)
    next
      case True
      have P: "processes_ok ?F s" by (rule uncountedD(3) [OF u])
      note members = processes_okD(4) [OF P ts]
      have only: "v = t" if "?F v \<noteq> None" "process v = p" for v
        using True that members [of v] in_set_remove1 [of v t ts] by auto
      have "\<not> (\<exists>f. ?F v = Some f \<and> process v = p \<and> is_runnable_state (fo_state f))" for v
        using only [of v] Ft r(2) by (auto simp: is_runnable_state_def)
      then have "{v. \<exists>f. ?F v = Some f \<and> process v = p \<and> is_runnable_state (fo_state f)} = {}" by blast
      then have "tally (\<lambda>v f. process v = p \<and> is_runnable_state (fo_state f)) ?F = 0"
        unfolding tally_def by (simp only: card.empty)
      with C True show ?thesis by (simp add: counts_ok_def without_thread_def)
    qed
    moreover have "tally (\<lambda>v f. process v = p \<and> is_runnable_state (fo_state f)) (?F(t := None)) =
        tally (\<lambda>v f. process v = p \<and> is_runnable_state (fo_state f)) ?F"
      "tally (\<lambda>_ f. fo_awaiting f) (?F(t := None)) = tally (\<lambda>_ f. fo_awaiting f) ?F"
      "tally (\<lambda>_ f. fo_state f \<noteq> Waiting \<and> fo_bucket f = b) (?F(t := None)) =
        tally (\<lambda>_ f. fo_state f \<noteq> Waiting \<and> fo_bucket f = b) ?F" for p b
      by (rule same, use r in \<open>simp add: is_runnable_state_def\<close>)+
    ultimately show ?thesis using C by (simp add: counts_ok_def)
  qed
  moreover have "indexes_ok n (?F(t := None)) ?s"
  proof -
    have "deadline_index fo_depression (?F(t := None)) (sc_depressions ?s)"
      using deadline_index_drop [OF index(1) Ft] by simp
    moreover have "deadline_index fo_release (?F(t := None)) (sc_failsafes ?s)"
      using deadline_index_drop [OF index(2) Ft] by (simp split: if_splits)
    moreover have "usage_ok (?F(t := None)) (sc_usage ?s)"
      using usage_ok_drop [OF index(3) Ft] r(4) by simp
    moreover have "contexts_ok n (?F(t := None)) (sc_contexts ?s)"
      using index(4) free by (auto simp: contexts_ok_def)
    ultimately show ?thesis by (simp add: indexes_ok_def)
  qed
  moreover have "ordered (sc_threads ?s)" using ordered_erase [OF struct_ordered [OF st]] by simp
  ultimately have "struct_ok n ?s" by (simp add: struct_ok_def feet)
  moreover have "processes_ok (feet_of ?s) ?s"
    unfolding feet by (rule processes_ok_drop [OF uncountedD(3) [OF u] _ ts]) (simp_all add: Ft without_thread_def)
  moreover have "waiting_balance ?s = 0"
    using tally_drop [OF finite_feet, of "\<lambda>_ f. fo_state f = Waiting" s t] Ft r(2) uncountedD(4) [OF u]
    unfolding waiting_balance_def feet by simp
  moreover have "record_ok n v x" if "thread_of v ?s = Some x" for v x
    using that uncountedD(2) [OF u] unfolding threads by (auto split: if_splits)
  ultimately show ?thesis using uncountedD(5,6) [OF u] by (simp add: sched_ok_def)
qed


section \<open>Retiring\<close>

lemma uncounted_unplaced:
  assumes u: "uncounted n t s" and st: "struct_ok n s'"
    and same: "\<And>u. map_option unplaced (thread_of u s') = map_option unplaced (thread_of u s)"
    and s': "s' = s\<lparr>sc_threads := sc_threads s', sc_usage := sc_usage s'\<rparr>"
  shows "uncounted n t s'"
proof -
  note feet = unplaced_feet [OF same]
  have fields: "sc_process_threads s' = sc_process_threads s" "sc_process_runnable s' = sc_process_runnable s"
    "sc_history s' = sc_history s" "sc_waiting s' = sc_waiting s" "sc_minimum_user s' = sc_minimum_user s"
    by (subst s', simp)+
  have "record_ok n v r'" if "v \<noteq> t" "thread_of v s' = Some r'" for v r'
    using unplaced_at [OF same that(2)] uncountedD(2) [OF u that(1)] unplaced_record(1) by metis
  moreover have "processes_ok (feet_of s') s'"
    using uncountedD(3) [OF u] unfolding processes_ok_def feet(1) fields by simp
  moreover have "waiting_balance s' = - 1"
    using uncountedD(4) [OF u] by (simp add: waiting_balance_def feet(2) fields)
  ultimately show ?thesis using st uncountedD(5,6) [OF u] by (simp add: uncounted_def fields)
qed

lemma without_thread_unindexes:
  "sc_process_threads s (process t) = Some ts \<Longrightarrow> unindex_process t s = without_thread t ts s"
  by (simp add: unindex_process_def without_thread_def Let_def)

lemma retire_thread_ok:
  assumes s: "sched_ok n s" and t: "thread_of t s = Some r"
  shows "\<exists>s'. retire_thread t pending s = Some s' \<and> sched_ok n s' \<and>
    (\<forall>u. thread_of u s' = None \<longleftrightarrow> u = t \<or> thread_of u s = None)"
proof -
  obtain s1 where s1: "finish_host_await t s = Some s1" "moves n t (r\<lparr>th_awaiting := False\<rparr>) 0 s s1"
    using finish_host_await_ok [OF sched_okD(1) [OF s] t] by blast
  define r1 where "r1 = r\<lparr>th_awaiting := False\<rparr>"
  note m1 = s1(2) [folded r1_def]
  have r1: "record_ok n t r1" "th_state r1 = th_state r"
    using sched_okD(2) [OF s t] by (simp_all add: r1_def record_parts)
  define r2 where "r2 = r1\<lparr>th_state := Waiting\<rparr>"
  obtain s2 where s2: "(if th_state r1 = Waiting then Some (s1\<lparr>sc_waiting := sc_waiting s1 - 1\<rparr>)
      else transition_state Waiting t s1) = Some s2" "moves n t r2 (- of_bool (th_state r = Waiting)) s s2"
  proof (cases "th_state r = Waiting")
    case True
    then have "r2 = r1" using r1(2) by (simp add: r2_def)
    with True r1(2) awake_moves [OF s t m1 r1(2)] that show ?thesis by simp
  next
    case False
    obtain s2 where x: "transition_state Waiting t s1 = Some s2" "steps n t r2 s1 s2"
      using steps_transition [OF movesD(1,2) [OF m1]] unfolding r2_def by blast
    from moves_trans [OF m1 moves_steps [OF x(2)]] False r1(2) x(1) that show ?thesis by simp
  qed
  obtain cs where s3: "release_processor_context t s2 = Some (s2\<lparr>sc_contexts := cs\<rparr>)"
    "moves n t r2 0 s2 (s2\<lparr>sc_contexts := cs\<rparr>)" "\<forall>i<n. cs ! i \<noteq> Some t"
    using release_processor_context_ok [OF movesD(1,2) [OF s2(2)]] by blast
  define s3 where "s3 = s2\<lparr>sc_contexts := cs\<rparr>"
  have m3: "moves n t r2 (- of_bool (th_state r = Waiting)) s s3"
    using moves_trans [OF s2(2) s3(2)] by (simp add: s3_def)
  have "sc_history s (process t) \<noteq> None"
    using sched_okD(3) [OF s] feet_at [OF t] by (simp add: processes_ok_def)
  then obtain h where h: "sc_history s3 (process t) = Some h" using movesD(8) [OF m3] by blast
  define s4 where "s4 = s3\<lparr>sc_history := (sc_history s3)(process t \<mapsto> h\<lparr>hi_terminated :=
    saturating_add (hi_terminated h) (saturating_add (th_user r2) pending)\<rparr>)\<rparr>"
  have ticks: "retire_ticks t pending s3 = Some s4"
    using movesD(2) [OF m3] h by (simp add: retire_ticks_def s4_def)
  have m4: "moves n t r2 (- of_bool (th_state r = Waiting)) s s4"
    using moves_trans [OF m3 history_moves [OF movesD(1,2) [OF m3]]] by (simp add: s4_def)
  have "queue_fields_ok n t r2" using r1(1) by (simp add: r2_def record_ok_def queue_fields_ok_def)
  then obtain s5 where s5: "remove_from_queue t s4 = Some s5" "steps n t (dequeued r2) s4 s5"
    using remove_dequeues [OF movesD(1,2) [OF m4]] by blast
  define r5 where "r5 = dequeued r2"
  have m5: "moves n t r5 (- of_bool (th_state r = Waiting)) s s5"
    using moves_trans [OF m4 moves_steps [OF s5(2)]] by (simp add: r5_def)
  have r5: "th_state r5 = Waiting" "\<not> th_queued r5" "\<not> th_awaiting r5"
    by (simp_all add: r5_def r2_def r1_def dequeued_def)
  have u5: "uncounted n t s5" by (rule leaving_moves [OF s t m5 refl r5(1)])
  have free5: "sc_contexts s5 = cs" using rest_fields(7) [OF stepsD(4) [OF s5(2)]] by (simp add: s4_def s3_def)
  note t5 = movesD(2) [OF m5]
  obtain s6 where s6: "untrack_usage t s5 = Some s6" "struct_ok n s6" "thread_of t s6 = Some (unplaced r5)"
    "\<And>u. map_option unplaced (thread_of u s6) = map_option unplaced (thread_of u s5)"
    "s6 = s5\<lparr>sc_threads := sc_threads s6, sc_usage := sc_usage s6\<rparr>"
    using untrack_usage_struct [OF uncountedD(1) [OF u5] t5] by blast
  have u6: "uncounted n t s6" by (rule uncounted_unplaced [OF u5 s6(2,4,5)])
  have same: "sc_process_threads s6 = sc_process_threads s5" "sc_contexts s6 = cs"
    "sc_depressions s6 = sc_depressions s5" "sc_failsafes s6 = sc_failsafes s5"
    "sc_process_runnable s6 = sc_process_runnable s5"
    by (subst s6(5), simp add: free5)+
  obtain ts where ts: "sc_process_threads s5 (process t) = Some ts"
    using processes_ok_none [OF uncountedD(3) [OF u5], of t] feet_at [OF t5]
    by (cases "sc_process_threads s5 (process t)") simp_all
  define ds where "ds = (case th_depression r5 of None \<Rightarrow> sc_depressions s5
    | Some d \<Rightarrow> remove1 (d, t) (sc_depressions s5))"
  define fs where "fs = (if th_failsafe r5 then remove1 (th_release r5, t) (sc_failsafes s5) else sc_failsafes s5)"
  have at: "thread_of t (s5\<lparr>sc_depressions := ds\<rparr>) = Some r5" using t5 by (simp add: thread_of_def)
  have "unindex_depression t s5 = Some (s5\<lparr>sc_depressions := ds\<rparr>)"
    by (simp add: unindex_depression_def t5 ds_def split: option.split)
  moreover have "unindex_failsafe t (s5\<lparr>sc_depressions := ds\<rparr>) =
      Some (s5\<lparr>sc_depressions := ds, sc_failsafes := fs\<rparr>)"
    by (simp add: unindex_failsafe_def at fs_def)
  ultimately have unindex: "unindex_thread t s5 =
      Some (without_thread t ts (s5\<lparr>sc_depressions := ds, sc_failsafes := fs\<rparr>))"
    using ts by (simp add: unindex_thread_def without_thread_unindexes)
  have "untrack_usage t (without_thread t ts (s5\<lparr>sc_depressions := ds, sc_failsafes := fs\<rparr>)) =
      map_option (\<lambda>s. without_thread t ts (s\<lparr>sc_depressions := ds, sc_failsafes := fs\<rparr>)) (untrack_usage t s5)"
    using t5 by (auto simp: untrack_usage_def without_thread_def thread_of_def update_def Let_def split: option.split)
  then have untrack: "untrack_usage t (without_thread t ts (s5\<lparr>sc_depressions := ds, sc_failsafes := fs\<rparr>)) =
      Some (without_thread t ts (s6\<lparr>sc_depressions := ds, sc_failsafes := fs\<rparr>))" by (simp add: s6(1))
  define s' where "s' = (without_thread t ts s6)\<lparr>sc_threads := erase t (sc_threads s6),
    sc_depressions := ds, sc_failsafes := fs\<rparr>"
  have "retire_thread t pending s = Some s'"
    unfolding retire_thread_def s1(1) bind.simps movesD(2) [OF m1] s2(1) s3(1) s3_def [symmetric] ticks s5(1)
      unindex untrack by (simp add: s'_def without_thread_def)
  moreover have "sched_ok n s'"
  proof -
    have fields: "th_depression (unplaced r5) = th_depression r5" "th_failsafe (unplaced r5) = th_failsafe r5"
      "th_release (unplaced r5) = th_release r5" by (simp_all add: unplaced_def)
    have "sched_ok n ((without_thread t ts s6)\<lparr>sc_threads := erase t (sc_threads s6),
        sc_depressions := (case th_depression (unplaced r5) of None \<Rightarrow> sc_depressions s6
          | Some d \<Rightarrow> remove1 (d, t) (sc_depressions s6)),
        sc_failsafes := (if th_failsafe (unplaced r5) then remove1 (th_release (unplaced r5), t) (sc_failsafes s6)
          else sc_failsafes s6)\<rparr>)"
      by (rule drop_thread_ok [OF u6 s6(3)]) (use r5 s3(3) ts same in \<open>simp_all add: unplaced_def\<close>)
    then show ?thesis unfolding fields same s'_def ds_def fs_def .
  qed
  moreover have "thread_of u s' = None \<longleftrightarrow> u = t \<or> thread_of u s = None" for u
  proof -
    have "thread_of u s' = (if u = t then None else thread_of u s6)"
      using map_of_erase [OF struct_ordered [OF s6(2)]] by (simp add: s'_def thread_of_def)
    moreover have "thread_of u s6 = None \<longleftrightarrow> thread_of u s5 = None"
      using s6(4) [of u] by (cases "thread_of u s6"; cases "thread_of u s5") simp_all
    moreover have "u \<noteq> t \<Longrightarrow> thread_of u s5 = thread_of u s" using movesD(3) [OF m5] by blast
    ultimately show ?thesis by auto
  qed
  ultimately show ?thesis by blast
qed

lemma remove_thread_ok:
  assumes s: "sched_ok n s"
  shows "\<exists>b s'. remove_thread t pending s = Some (b, s') \<and> sched_ok n s' \<and>
    (\<forall>u. thread_of u s' = None \<longleftrightarrow> u = t \<or> thread_of u s = None)"
proof (cases "thread_of t s")
  case None
  with s show ?thesis by (auto simp: remove_thread_def)
next
  case (Some r)
  with retire_thread_ok [OF s Some, of pending] show ?thesis by (auto simp: remove_thread_def)
qed

lemma remove_thread_keeps: "sched_ok n s \<Longrightarrow> keeps n (remove_thread t pending s)"
  using remove_thread_ok [of n s t pending] by (auto simp: keeps_iff)

lemma remove_each_ok:
  assumes "sched_ok n s"
  shows "\<exists>s'. for_each (\<lambda>t s. map_option snd (remove_thread t (f t) s)) ts s = Some s' \<and> sched_ok n s' \<and>
    (\<forall>u. thread_of u s' = None \<longleftrightarrow> u \<in> set ts \<or> thread_of u s = None)"
  using assms
proof (induction ts arbitrary: s)
  case (Cons t ts)
  obtain b s1 where s1: "remove_thread t (f t) s = Some (b, s1)" "sched_ok n s1"
    "\<And>u. thread_of u s1 = None \<longleftrightarrow> u = t \<or> thread_of u s = None"
    using remove_thread_ok [OF Cons.prems, of t "f t"] by blast
  with Cons.IH [OF s1(2)] show ?case by auto
qed simp

lemma forget_process:
  assumes s: "sched_ok n s" and none: "\<And>t. process t = p \<Longrightarrow> thread_of t s = None"
  shows "sched_ok n (s\<lparr>sc_history := (sc_history s)(p := None), sc_task_qos := q\<rparr>)" (is "sched_ok n ?s")
proof -
  have feet: "feet_of ?s = feet_of s" by (simp add: feet_of_def thread_of_def)
  have "processes_ok (feet_of s) ?s"
    using sched_okD(3) [OF s] none unfolding processes_ok_def
    by (auto simp: feet_of_def)
  then show ?thesis using s
    by (simp add: sched_ok_def struct_ok_def feet queues_ok_def counts_ok_def indexes_ok_def
        waiting_balance_def thread_of_def)
qed

lemma remove_process_keeps:
  assumes s: "sched_ok n s"
  shows "keeps n (remove_process p s)"
proof (cases "sc_process_threads s p")
  case None
  have "thread_of t s = None" if "process t = p" for t
    using processes_ok_none [OF sched_okD(3) [OF s], of t] None that by (simp add: feet_of_def)
  then show ?thesis using forget_process [OF s] None by (simp add: remove_process_def)
next
  case (Some ts)
  obtain s1 where s1: "for_each (\<lambda>t s. map_option snd (remove_thread t 0 s)) ts s = Some s1" "sched_ok n s1"
    "\<And>u. thread_of u s1 = None \<longleftrightarrow> u \<in> set ts \<or> thread_of u s = None"
    using remove_each_ok [where f = "\<lambda>_. 0", OF s] by blast
  have "thread_of t s1 = None" if "process t = p" for t
    using s1(3) [of t] processes_okD(4) [OF sched_okD(3) [OF s] Some, of t] that by (auto simp: feet_of_def)
  then show ?thesis using forget_process [OF s1(2)] Some s1(1) by (simp add: remove_process_def)
qed

end
