(* ===== verification/Scheduler_Arrivals.thy ===== *)
theory Scheduler_Arrivals
  imports Scheduler_Lifetimes
begin

text \<open>
  New threads of the guest scheduler, the threads a process replaces by one, and the end of a
  slice in all its forms.
\<close>

section \<open>Putting a record in\<close>

lemma new_foot [simp]:
  "fo_place (foot_of new_thread_record) = None" "th_state new_thread_record = Waiting"
  by (simp_all add: new_thread_record_def)

lemma queue_matches_add:
  assumes q: "queue_matches F slot q" and t: "F t = None" "fo_place f = None"
  shows "queue_matches (F(t \<mapsto> f)) slot q"
proof -
  have "(\<exists>g key. (F(t \<mapsto> f)) u = Some g \<and> fo_place g = Some (slot, int k, key)) \<longleftrightarrow>
    (\<exists>g key. F u = Some g \<and> fo_place g = Some (slot, int k, key))" for u k
    using t by auto
  moreover have "(\<exists>u g p. (F(t \<mapsto> f)) u = Some g \<and> fo_place g = Some (slot, p, Some key)) \<longleftrightarrow>
    (\<exists>u g p. F u = Some g \<and> fo_place g = Some (slot, p, Some key))" for key
  proof
    assume "\<exists>u g p. F u = Some g \<and> fo_place g = Some (slot, p, Some key)"
    then obtain u g p where u: "F u = Some g" "fo_place g = Some (slot, p, Some key)" by blast
    then have "u \<noteq> t" using t by auto
    with u show "\<exists>u g p. (F(t \<mapsto> f)) u = Some g \<and> fo_place g = Some (slot, p, Some key)"
      by (intro exI [of _ u]) simp
  next
    assume "\<exists>u g p. (F(t \<mapsto> f)) u = Some g \<and> fo_place g = Some (slot, p, Some key)"
    then show "\<exists>u g p. F u = Some g \<and> fo_place g = Some (slot, p, Some key)"
      using t(2) by (auto split: if_splits)
  qed
  ultimately show ?thesis using q by (simp add: queue_matches_def del: split_paired_All split_paired_Ex)
qed

lemma add_struct_ok:
  assumes s: "struct_ok n s" and t: "thread_of t s = None" and f: "\<not> th_queued r" "th_state r = Waiting"
    "\<not> th_awaiting r" "th_depression r = None" "\<not> th_failsafe r" "th_usage_index r = None" "th_last r = None"
    and s': "s' = s\<lparr>sc_threads := emplace t r (sc_threads s)\<rparr>"
  shows "struct_ok n s'" "(\<lambda>u. thread_of u s') = (\<lambda>u. thread_of u s)(t \<mapsto> r)"
    "waiting_balance s' = waiting_balance s - 1"
proof -
  let ?F = "feet_of s" and ?f = "foot_of r"
  note index = struct_indexes [OF s]
  have out: "t \<notin> fst ` set (sc_threads s)" using t by (simp add: thread_of_def map_of_eq_None_iff)
  show threads: "(\<lambda>u. thread_of u s') = (\<lambda>u. thread_of u s)(t \<mapsto> r)"
    using map_of_emplace [OF struct_ordered [OF s], of t r] out by (simp add: s' thread_of_def fun_eq_iff)
  then have feet: "feet_of s' = ?F(t \<mapsto> ?f)" by (rule feet_put)
  have Ft: "?F t = None" using t by (simp add: feet_of_def)
  have same: "tally P (?F(t \<mapsto> ?f)) = tally P ?F" if "\<not> P t ?f" for P
    using tally_put [OF finite_feet, of P s t ?f] Ft that by simp
  have C: "counts_ok ?F s" using s by (simp add: struct_ok_def)
  have Q: "queues_ok n ?F s" using s by (simp add: struct_ok_def)
  have place: "fo_place ?f = None" using f(1) by simp
  have "places_ok n (?F(t \<mapsto> ?f))" by (rule places_ok_put) (use Q place in \<open>simp_all add: queues_ok_def\<close>)
  then have "queues_ok n (?F(t \<mapsto> ?f)) s'"
    using Q queue_matches_add [where F = ?F and t = t, OF _ Ft place] same [of "\<lambda>_ f. fo_place f \<noteq> None"] place
    by (simp add: queues_ok_def s')
  moreover have "counts_ok (?F(t \<mapsto> ?f)) s'"
  proof -
    have "tally (\<lambda>v f. process v = p \<and> is_runnable_state (fo_state f)) (?F(t \<mapsto> ?f)) =
        tally (\<lambda>v f. process v = p \<and> is_runnable_state (fo_state f)) ?F"
      "tally (\<lambda>_ f. fo_awaiting f) (?F(t \<mapsto> ?f)) = tally (\<lambda>_ f. fo_awaiting f) ?F"
      "tally (\<lambda>_ f. fo_state f \<noteq> Waiting \<and> fo_bucket f = b) (?F(t \<mapsto> ?f)) =
        tally (\<lambda>_ f. fo_state f \<noteq> Waiting \<and> fo_bucket f = b) ?F" for p b
      by (rule same, use f in \<open>simp add: is_runnable_state_def\<close>)+
    with C show ?thesis by (simp add: counts_ok_def s')
  qed
  moreover have "indexes_ok n (?F(t \<mapsto> ?f)) s'"
  proof -
    have ex: "(\<exists>g. (?F(t \<mapsto> ?f)) u = Some g \<and> P g) \<longleftrightarrow> (\<exists>g. ?F u = Some g \<and> P g)" if "\<not> P ?f" for u P
      using Ft that by auto
    have "deadline_index fo_depression (?F(t \<mapsto> ?f)) (sc_depressions s)"
      "deadline_index fo_release (?F(t \<mapsto> ?f)) (sc_failsafes s)" "usage_ok (?F(t \<mapsto> ?f)) (sc_usage s)"
      using index(1-3) f(4-6) ex by (simp_all add: deadline_index_def usage_ok_def)
    moreover have "contexts_ok n (?F(t \<mapsto> ?f)) (sc_contexts s)"
      using index(4) f(7) Ft by (auto simp: contexts_ok_def split: if_splits)
    ultimately show ?thesis by (simp add: indexes_ok_def s')
  qed
  moreover have "ordered (sc_threads s')" using ordered_emplace [OF struct_ordered [OF s]] by (simp add: s')
  ultimately show "struct_ok n s'" by (simp add: struct_ok_def feet)
  show "waiting_balance s' = waiting_balance s - 1"
    using tally_put [OF finite_feet, of "\<lambda>_ f. fo_state f = Waiting" s t ?f] Ft f(2)
    unfolding waiting_balance_def feet by (simp add: s')
qed

lemma processes_ok_add:
  assumes P: "processes_ok F s" and t: "F t = None"
    and s': "sc_process_threads s' = (sc_process_threads s)(process t \<mapsto>
        insort_insert t (case sc_process_threads s (process t) of None \<Rightarrow> [] | Some ts \<Rightarrow> ts))"
      "\<And>p. sc_process_runnable s p \<noteq> None \<or> p = process t \<Longrightarrow> sc_process_runnable s' p \<noteq> None"
      "\<And>p. sc_history s p \<noteq> None \<or> p = process t \<Longrightarrow> sc_history s' p \<noteq> None"
  shows "processes_ok (F(t \<mapsto> f)) s'"
proof -
  have others: "case sc_process_threads s p of
        None \<Rightarrow> (\<forall>u. F u \<noteq> None \<longrightarrow> process u \<noteq> p)
      | Some us \<Rightarrow> us \<noteq> [] \<and> sorted us \<and> distinct us \<and> (\<forall>u. u \<in> set us \<longleftrightarrow> F u \<noteq> None \<and> process u = p)" for p
    using P unfolding processes_ok_def by blast
  have "case sc_process_threads s' p of
        None \<Rightarrow> (\<forall>u. (F(t \<mapsto> f)) u \<noteq> None \<longrightarrow> process u \<noteq> p)
      | Some us \<Rightarrow> us \<noteq> [] \<and> sorted us \<and> distinct us \<and>
          (\<forall>u. u \<in> set us \<longleftrightarrow> (F(t \<mapsto> f)) u \<noteq> None \<and> process u = p)" for p
  proof (cases "p = process t")
    case False
    then have "sc_process_threads s' p = sc_process_threads s p" by (simp add: s')
    with others [of p] False show ?thesis by (auto split: option.splits)
  next
    case True
    define us where "us = (case sc_process_threads s (process t) of None \<Rightarrow> [] | Some ts \<Rightarrow> ts)"
    have us: "sorted us" "distinct us" "\<And>u. u \<in> set us \<longleftrightarrow> F u \<noteq> None \<and> process u = process t"
      using others [of "process t"] by (auto simp: us_def split: option.splits)
    have "sc_process_threads s' p = Some (insort_insert t us)" by (simp add: s' us_def True)
    moreover have "u \<in> set (insort_insert t us) \<longleftrightarrow> (F(t \<mapsto> f)) u \<noteq> None \<and> process u = p" for u
      using us(3) [of u] True by (auto simp: set_insort_insert)
    moreover from this [of t] True have "insort_insert t us \<noteq> []" by auto
    ultimately show ?thesis using us(1,2) by (simp add: sorted_insort_insert distinct_insort_insert)
  qed
  moreover have "sc_process_runnable s' (process u) \<noteq> None \<and> sc_history s' (process u) \<noteq> None"
    if "(F(t \<mapsto> f)) u \<noteq> None" for u
  proof (cases "u = t")
    case True
    then show ?thesis using s'(2,3) by blast
  next
    case False
    then have "sc_process_runnable s (process u) \<noteq> None \<and> sc_history s (process u) \<noteq> None"
      using that P unfolding processes_ok_def by auto
    then show ?thesis using s'(2,3) by blast
  qed
  ultimately show ?thesis unfolding processes_ok_def by blast
qed

section \<open>Registering\<close>

lemma enrolled_ok:
  assumes "struct_ok n s"
  shows "struct_ok n (s\<lparr>sc_process_threads := pt, sc_process_runnable := (sc_process_runnable s)(p \<mapsto>
      case sc_process_runnable s p of None \<Rightarrow> 0 | Some c \<Rightarrow> c), sc_history := h\<rparr>)"
proof -
  have feet: "feet_of (s\<lparr>sc_process_threads := pt, sc_process_runnable := c, sc_history := h\<rparr>) = feet_of s" for c
    by (simp add: feet_of_def thread_of_def)
  have "(case ((sc_process_runnable s)(p \<mapsto> case sc_process_runnable s p of None \<Rightarrow> 0 | Some c \<Rightarrow> c)) q of
      None \<Rightarrow> 0 | Some c \<Rightarrow> c) = (case sc_process_runnable s q of None \<Rightarrow> 0 | Some c \<Rightarrow> c)" for q
    by (simp split: option.split)
  then show ?thesis using assms
    by (simp add: struct_ok_def feet queues_ok_def counts_ok_def indexes_ok_def del: fun_upd_apply)
qed

lemma register_thread_ok:
  assumes s: "sched_ok n s" and base: "base \<le> 96" and new: "thread_of t s = None"
  shows "\<exists>s' r'. register_thread t base runnable s = Some (True, s') \<and> sched_ok n s' \<and>
    thread_of t s' = Some r' \<and> th_last r' = None \<and> (\<forall>u. u \<noteq> t \<longrightarrow> thread_of u s' = thread_of u s)"
proof -
  define p where "p = process t"
  define r where "r = new_thread_record\<lparr>th_base := clamp_priority base, th_legacy := clamp_priority base,
    th_task_qos := (case sc_task_qos s p of Some q \<Rightarrow> q | None \<Rightarrow> no_task_qos),
    th_scheduled := clamp_priority base, th_quantum := sc_quantum s, th_stamp := sc_tick s\<rparr>"
  define s1 where "s1 = s\<lparr>sc_threads := emplace t r (sc_threads s)\<rparr>"
  note bounds = clamp_priority_bounds [OF base]
  have r: "\<not> th_queued r" "th_state r = Waiting" "\<not> th_awaiting r" "th_depression r = None" "\<not> th_failsafe r"
    "th_usage_index r = None" "th_last r = None" "th_suspends r = 0" "\<not> th_depressed r"
    by (simp_all add: r_def new_thread_record_def)
  note add = add_struct_ok [OF sched_okD(1) [OF s] new r(1-7) s1_def]
  have t1: "thread_of t s1 = Some r" using fun_cong [OF add(2), of t] by simp
  have rok: "queue_fields_ok n t r" "base_ok r" "th_depressed r \<Longrightarrow> th_scheduled r = 0"
    using bounds by (simp_all add: r_def new_thread_record_def queue_fields_ok_def base_ok_def slot_ok_def)
  have sus: "suspends_ok r" by (simp add: r_def new_thread_record_def suspends_ok_def)
  obtain s2 r2 where s2: "recompute_priority t s1 = Some s2" "steps n t r2 s1 s2" "core r2 = core r"
    "queue_fields_ok n t r2" "priced r2"
    using recompute_ok [OF add(1) t1 rok] by blast
  note c = core_fields [OF s2(3)]
  have r2: "record_ok n t r2" "th_state r2 = Waiting" "\<not> th_queued r2" "th_suspends r2 = 0" "th_last r2 = None"
    using s2(4,5) c r sus rok(2) base_ok_core [OF s2(3)] by (auto simp: record_ok_def phase_ok_def suspends_ok_def)
  define s3 where "s3 = s2\<lparr>sc_process_threads := (sc_process_threads s2)(p \<mapsto>
      insort_insert t (case sc_process_threads s2 p of None \<Rightarrow> [] | Some ts \<Rightarrow> ts)),
    sc_process_runnable := (sc_process_runnable s2)(p \<mapsto>
      case sc_process_runnable s2 p of None \<Rightarrow> 0 | Some c \<Rightarrow> c),
    sc_history := (sc_history s2)(p \<mapsto>
      case sc_history s2 p of None \<Rightarrow> \<lparr>hi_terminated = 0, hi_switches = 0\<rparr> | Some h \<Rightarrow> h)\<rparr>"
  have threads: "thread_of u s3 = thread_of u s2" for u by (simp add: s3_def thread_of_def)
  then have feet: "feet_of s3 = feet_of s2" by (simp add: feet_of_def)
  note rest = rest_fields [OF stepsD(4) [OF s2(2)]]
  have all: "thread_of u s2 = (if u = t then Some r2 else thread_of u s)" for u
    using fun_cong [OF stepsD(5) [OF s2(2)], of u] fun_cong [OF add(2), of u] by simp
  have "processes_ok (feet_of s3) s3"
  proof -
    have "feet_of s3 = (feet_of s)(t \<mapsto> foot_of r2)" using all threads by (auto simp: feet_of_def fun_eq_iff)
    moreover have "processes_ok ((feet_of s)(t \<mapsto> foot_of r2)) s3"
    proof (rule processes_ok_add [OF sched_okD(3) [OF s]])
      show "feet_of s t = None" using new by (simp add: feet_of_def)
      show "sc_process_threads s3 = (sc_process_threads s)(process t \<mapsto>
          insort_insert t (case sc_process_threads s (process t) of None \<Rightarrow> [] | Some ts \<Rightarrow> ts))"
        using rest(5) by (simp add: s3_def s1_def p_def)
      show "sc_process_runnable s3 q \<noteq> None" if "sc_process_runnable s q \<noteq> None \<or> q = process t" for q
        using that stepsD(6) [OF s2(2), of q] by (auto simp: s3_def s1_def p_def)
      show "sc_history s3 q \<noteq> None" if "sc_history s q \<noteq> None \<or> q = process t" for q
        using that rest(6) by (auto simp: s3_def s1_def p_def)
    qed
    ultimately show ?thesis by simp
  qed
  moreover have "struct_ok n s3" unfolding s3_def by (rule enrolled_ok [OF stepsD(1) [OF s2(2)]])
  moreover have "waiting_balance s3 = - 1"
  proof -
    have "sc_waiting s3 = sc_waiting s2" by (simp add: s3_def)
    then have "waiting_balance s3 = waiting_balance s2" by (simp add: waiting_balance_def feet)
    also have "\<dots> = waiting_balance s1" using steps_balance [OF s2(2) t1] r2(2) r(2) by simp
    finally show ?thesis using add(3) sched_okD(4) [OF s] by simp
  qed
  moreover have "record_ok n u v" if "u \<noteq> t" "thread_of u s3 = Some v" for u v
    using that sched_okD(2) [OF s] by (simp add: threads all)
  moreover have "sc_minimum_user s3 = sc_minimum_user s" using rest(13) by (simp add: s3_def s1_def)
  ultimately have u3: "uncounted n t s3" using sched_okD(5,6) [OF s] by (simp add: uncounted_def)
  have t3: "thread_of t s3 = Some r2" by (simp add: threads all)
  obtain s' r' where s': "(if runnable then make_ready t s3 else Some (s3\<lparr>sc_waiting := sc_waiting s3 + 1\<rparr>)) = Some s'"
    "sched_ok n s'" "thread_of t s' = Some r'" "th_last r' = None" "\<And>u. u \<noteq> t \<Longrightarrow> thread_of u s' = thread_of u s3"
  proof (cases runnable)
    case True
    have "may_enter n t r2" by (rule may_enterI [OF r2(1,3,4)])
    from make_ready_ok [OF uncountedD(1) [OF u3] t3 this] obtain s' r' where x: "make_ready t s3 = Some s'"
      "moves n t r' 0 s3 s'" "record_ok n t r'" "th_state r' = Runnable" "th_last r' = th_last r2" by blast
    have "sched_ok n s'" by (rule counted_moves [OF u3 t3 r2(2) x(2,3)]) (simp add: x(4))
    moreover have "th_last r' = None" using x(5) r2(5) by simp
    ultimately show ?thesis using True x movesD(2,3) [OF x(2)] by (intro that [of s' r']) simp_all
  next
    case False
    note m = waiting_change(1) [OF uncountedD(1) [OF u3] t3]
    have "sched_ok n (s3\<lparr>sc_waiting := sc_waiting s3 + 1\<rparr>)"
      by (rule counted_moves [OF u3 t3 r2(2) m r2(1)]) (simp add: r2(2))
    then show ?thesis using False movesD(2,3) [OF m] r2(5)
      by (intro that [of "s3\<lparr>sc_waiting := sc_waiting s3 + 1\<rparr>" r2]) simp_all
  qed
  have "sc_waiting s3 = sc_waiting s2" by (simp add: s3_def)
  then have "register_thread t base runnable s = Some (True, s')"
    using new s2(1) s'(1)
    by (cases runnable) (simp_all add: register_thread_def r_def [symmetric] s1_def [symmetric] p_def [symmetric] s3_def [symmetric] Let_def)
  then show ?thesis using s' threads all by auto
qed


lemma register_thread_keeps: "sched_ok n s \<Longrightarrow> base \<le> 96 \<Longrightarrow> keeps n (register_thread t base runnable s)"
  using register_thread_ok [of n s base t runnable]
  by (cases "thread_of t s") (auto simp: keeps_iff register_thread_def)

section \<open>Replacing the threads of a process\<close>

lemma reinstall_ok:
  assumes s: "sched_ok n s" and t: "thread_of t s = Some r" and last: "th_last r = None" and p: "p < n"
  shows "sched_ok n ((update t (\<lambda>r. r\<lparr>th_last := Some p\<rparr>) s)\<lparr>sc_contexts := (sc_contexts s)[p := Some t]\<rparr>)"
proof -
  define f where "f = (\<lambda>r. r\<lparr>th_last := Some p\<rparr> :: thread_record)"
  define cs where "cs = (sc_contexts s)[p := Some t]"
  note st = sched_okD(1) [OF s] and index = struct_indexes [OF sched_okD(1) [OF s]]
  have Ft: "feet_of s t = Some (foot_of r)" using t by (rule feet_at)
  have "moves n t (f r) 0 s (update t f (s\<lparr>sc_contexts := cs\<rparr>))"
  proof (rule update_indexes [OF st t])
    show "foot_of (f r) = (foot_of r)\<lparr>fo_depression := fo_depression (foot_of r),
        fo_release := fo_release (foot_of r), fo_usage := fo_usage (foot_of r), fo_last := Some p\<rparr>"
      by (simp add: f_def foot_of_def)
    show "update t f (s\<lparr>sc_contexts := cs\<rparr>) = update t f (s\<lparr>sc_depressions := sc_depressions s,
        sc_failsafes := sc_failsafes s, sc_usage := sc_usage s, sc_contexts := cs\<rparr>)" by simp
    show "deadline_index fo_depression ((feet_of s)(t \<mapsto> foot_of (f r))) (sc_depressions s)"
      "deadline_index fo_release ((feet_of s)(t \<mapsto> foot_of (f r))) (sc_failsafes s)"
      "usage_ok ((feet_of s)(t \<mapsto> foot_of (f r))) (sc_usage s)"
      using put_same(1-3) [OF Ft] index by (simp_all add: f_def)
    have C: "contexts_ok n (feet_of s) (sc_contexts s)" by (rule index(4))
    have "\<exists>g. ((feet_of s)(t \<mapsto> foot_of (f r))) u = Some g \<and> fo_last g = Some i"
      if i: "i < n" "cs ! i = Some u" for i u
    proof (cases "i = p")
      case True
      with i C p have "u = t" by (simp add: cs_def contexts_ok_def)
      with True show ?thesis by (simp add: f_def)
    next
      case False
      then have "sc_contexts s ! i = Some u" using i by (simp add: cs_def)
      then obtain g where g: "feet_of s u = Some g" "fo_last g = Some i"
        using C i(1) unfolding contexts_ok_def by blast
      then have "u \<noteq> t" using Ft last by auto
      with g show ?thesis by simp
    qed
    moreover have "i < n" if "((feet_of s)(t \<mapsto> foot_of (f r))) u = Some g" "fo_last g = Some i" for u g i
      using that C p by (auto simp: contexts_ok_def f_def split: if_splits)
    ultimately show "contexts_ok n ((feet_of s)(t \<mapsto> foot_of (f r))) cs"
      using C by (simp add: contexts_ok_def cs_def)
  qed
  moreover have "record_ok n t (f r)" using sched_okD(2) [OF s t] by (simp add: f_def record_parts)
  ultimately have "sched_ok n (update t f (s\<lparr>sc_contexts := cs\<rparr>))"
    by (rule sched_ok_moves [OF s t]) (simp add: f_def)
  moreover have "update t f (s\<lparr>sc_contexts := cs\<rparr>) = (update t f s)\<lparr>sc_contexts := cs\<rparr>"
    by (simp add: update_def)
  ultimately show ?thesis by (simp add: f_def cs_def)
qed

lemma user_keeps:
  assumes s: "sched_ok n s" and t: "thread_of t s = Some r"
  shows "sched_ok n (update t (\<lambda>r. r\<lparr>th_user := u\<rparr>) s)"
  by (rule update_keeps [OF s t]) (use sched_okD(2) [OF s t] in \<open>simp_all add: foot_of_def record_parts\<close>)

lemma replace_process_threads_keeps:
  assumes s: "sched_ok n s" and base: "base \<le> 96"
  shows "keeps n (replace_process_threads survivor base pending s)"
proof (cases "thread_of survivor s")
  case None
  with s show ?thesis by (simp add: replace_process_threads_def)
next
  case (Some r)
  note C = struct_indexes(4) [OF sched_okD(1) [OF s]]
  have last: "p < n" if "th_last r = Some p" for p
    using C feet_at [OF Some] that by (auto simp: contexts_ok_def)
  define installed where "installed = (case th_last r of None \<Rightarrow> False | Some p \<Rightarrow> sc_contexts s ! p = Some survivor)"
  have inst: "(case th_last r of None \<Rightarrow> Some False
      | Some p \<Rightarrow> if length (sc_contexts s) \<le> p then None else Some (sc_contexts s ! p = Some survivor)) =
      Some installed"
    using last C by (auto simp: installed_def contexts_ok_def split: option.split)
  obtain ts where ts: "sc_process_threads s (process survivor) = Some ts"
    using processes_ok_none [OF sched_okD(3) [OF s], of survivor] feet_at [OF Some]
    by (cases "sc_process_threads s (process survivor)") simp_all
  define s1 where "s1 = update survivor (\<lambda>r. r\<lparr>th_user := 0\<rparr>) s"
  have s1: "sched_ok n s1" unfolding s1_def by (rule user_keeps [OF s Some])
  define f where "f = (\<lambda>t. case pending of None \<Rightarrow> 0 | Some f \<Rightarrow> if t \<noteq> survivor then f t else 0)"
  have f: "(case pending of None \<Rightarrow> 0 | Some f \<Rightarrow> if t \<noteq> survivor then f t else 0) = f t" for t
    by (simp add: f_def)
  obtain s2 where s2: "for_each (\<lambda>t s. map_option snd (remove_thread t (f t) s)) ts s1 = Some s2" "sched_ok n s2"
    "\<And>u. thread_of u s2 = None \<longleftrightarrow> u \<in> set ts \<or> thread_of u s1 = None"
    using remove_each_ok [OF s1] by blast
  have "survivor \<in> set ts" using processes_okD(4) [OF sched_okD(3) [OF s] ts] feet_at [OF Some] by simp
  then have "thread_of survivor s2 = None" using s2(3) by blast
  from register_thread_ok [OF s2(2) base this, of True] obtain s3 r3 where
    s3: "register_thread survivor base True s2 = Some (True, s3)" "sched_ok n s3"
    "thread_of survivor s3 = Some r3" "th_last r3 = None" by blast
  define s4 where "s4 = update survivor (\<lambda>v. v\<lparr>th_user := th_user r\<rparr>) s3"
  have s4: "sched_ok n s4" "thread_of survivor s4 = Some (r3\<lparr>th_user := th_user r\<rparr>)"
    unfolding s4_def using user_keeps [OF s3(2,3)] s3(3) by simp_all
  have run: "replace_process_threads survivor base pending s = Some (True, if installed
      then (update survivor (\<lambda>r'. r'\<lparr>th_last := th_last r\<rparr>) s4)\<lparr>sc_contexts := (sc_contexts s4)[the (th_last r) := Some survivor]\<rparr>
      else s4)"
    unfolding replace_process_threads_def Some option.case Let_def inst bind.simps ts s1_def [symmetric]
      f s2(1) s3(1) by (simp add: s4_def)
  show ?thesis
  proof (cases installed)
    case False
    with run s4(1) show ?thesis by simp
  next
    case True
    then obtain p where p: "th_last r = Some p" by (auto simp: installed_def split: option.splits)
    have "sched_ok n ((update survivor (\<lambda>r. r\<lparr>th_last := Some p\<rparr>) s4)\<lparr>sc_contexts := (sc_contexts s4)[p := Some survivor]\<rparr>)"
      by (rule reinstall_ok [OF s4 _ last [OF p]]) (simp add: s3(4))
    with run True p show ?thesis by simp
  qed
qed

section \<open>Completing a slice\<close>

lemma host_resume_goes:
  assumes "sched_ok n s" "thread_of t s = Some r"
  shows "goes n t r s (Some (update t (\<lambda>r. if completion \<noteq> Slice_Continue \<or> th_quantum r = 0
    then r\<lparr>th_host_resume := False\<rparr> else r) s))"
  by (rule goes_update [OF assms]) (use sched_okD(2) [OF assms] in \<open>simp_all add: foot_of_def record_parts\<close>)

text \<open>What is left to do once the time is accounted for.\<close>

lemma complete_slice_ok:
  assumes s: "sched_ok n s" and t: "thread_of t s = Some r" and pending: "th_pending r"
  shows "\<exists>s'. complete_slice t c completion advance s = Some (True, s') \<and> sched_ok n s' \<and>
    (if completion = Slice_Terminate then thread_of t s' = None
     else \<exists>r'. thread_of t s' = Some r' \<and> th_user r' = saturating_add (th_user r) c \<and> \<not> th_pending r')"
proof -
  obtain s1 r1 where s1: "account_slice t c advance s = Some s1" "sched_ok n s1" "thread_of t s1 = Some r1"
    "life r1 = life (charge c r)" using account_slice_ok [OF s t] by blast
  have r1: "th_user r1 = saturating_add (th_user r) c" "\<not> th_pending r1"
    using s1(4) by (simp_all add: life_def)
  have run: "complete_slice t c completion advance s =
      (if completion = Slice_Terminate then remove_thread t 0 s1
       else if completion = Slice_Host_Await then map_option (Pair True) (await_slice t s1)
       else do {
         let s = update t (\<lambda>r. if completion \<noteq> Slice_Continue \<or> th_quantum r = 0
           then r\<lparr>th_host_resume := False\<rparr> else r) s1;
         r \<leftarrow> thread_of t s;
         map_option (Pair True)
           (if th_state r \<noteq> Running then interrupted_slice t completion s
            else if completion = Slice_Block then blocked_slice t s
            else requeue_slice t completion s) })"
    using t pending s1(1) by (simp add: complete_slice_def)
  have finished: "\<exists>s'. map_option (Pair True) x = Some (True, s') \<and> sched_ok n s' \<and>
      (\<exists>r'. thread_of t s' = Some r' \<and> th_user r' = saturating_add (th_user r) c \<and> \<not> th_pending r')"
    if "goes n t r1 s1 x" for x
    using goesE [OF that s1(2,3)] r1 by (metis option.map(2))
  show ?thesis
  proof (cases "completion = Slice_Terminate")
    case True
    from remove_thread_ok [OF s1(2), of t 0] obtain b s' where s': "remove_thread t 0 s1 = Some (b, s')" "sched_ok n s'"
      "thread_of t s' = None" by blast
    moreover have b using s'(1) s1(3) by (auto simp: remove_thread_def split: option.splits)
    ultimately show ?thesis using True run by simp
  next
    case live: False
    show ?thesis
    proof (cases "completion = Slice_Host_Await")
      case True
      with finished [OF await_slice_ok [OF s1(2,3)]] run show ?thesis by simp
    next
      case False
      define f where "f = (\<lambda>r. if completion \<noteq> Slice_Continue \<or> th_quantum r = 0
        then r\<lparr>th_host_resume := False\<rparr> else r :: thread_record)"
      define s2 where "s2 = update t f s1"
      define x where "x = (\<lambda>(r :: thread_record) s. if th_state r \<noteq> Running then interrupted_slice t completion s
        else if completion = Slice_Block then blocked_slice t s else requeue_slice t completion s)"
      have "goes n t r1 s1 (Some s2 \<bind> (\<lambda>s. x (the (thread_of t s)) s))"
      proof (rule goes_trans [OF s1(2,3)])
        show "goes n t r1 s1 (Some s2)" using host_resume_goes [OF s1(2,3)] by (simp add: s2_def f_def)
      next
        fix s' r'
        assume s': "sched_ok n s'" "thread_of t s' = Some r'"
        show "goes n t r' s' (x (the (thread_of t s')) s')"
          using interrupted_slice_ok [OF s'] blocked_slice_ok [OF s'] requeue_slice_ok [OF s']
          by (simp add: x_def s'(2))
      qed
      from finished [OF this] obtain s' where s': "map_option (Pair True) (x (the (thread_of t s2)) s2) = Some (True, s')"
        "sched_ok n s'" "\<exists>r'. thread_of t s' = Some r' \<and> th_user r' = saturating_add (th_user r) c \<and> \<not> th_pending r'"
        by auto
      have "thread_of t s2 = Some (f r1)" using s1(3) by (simp add: s2_def)
      then have "complete_slice t c completion advance s = map_option (Pair True) (x (the (thread_of t s2)) s2)"
        using live False unfolding run f_def [symmetric] s2_def [symmetric] Let_def by (simp add: x_def)
      with s' live show ?thesis by simp
    qed
  qed
qed

lemma complete_slice_keeps: "sched_ok n s \<Longrightarrow> keeps n (complete_slice t c completion advance s)"
proof (cases "\<exists>r. thread_of t s = Some r \<and> th_pending r")
  case True
  assume "sched_ok n s"
  with True complete_slice_ok show ?thesis by (fastforce simp: keeps_iff)
next
  case False
  assume "sched_ok n s"
  with False show ?thesis by (auto simp: complete_slice_def split: option.split)
qed

end
