(* ===== verification/Scheduler_Calls.thy ===== *)
theory Scheduler_Calls
  imports Scheduler_Arrivals
begin

text \<open>
  Sequences of calls on the guest scheduler, and its main properties.
\<close>

section \<open>Calls\<close>

datatype scheduler_call =
    Call_Register xnu_thread int bool
  | Call_Remove xnu_thread u64
  | Call_Remove_Process u32
  | Call_Replace xnu_thread int "(xnu_thread \<Rightarrow> u64) option"
  | Call_Make_Runnable xnu_thread
  | Call_Wake xnu_thread
  | Call_Block xnu_thread
  | Call_Suspend suspension xnu_thread
  | Call_Resume suspension xnu_thread
  | Call_Suspend_Process u32
  | Call_Resume_Process u32
  | Call_Base_Priority xnu_thread int
  | Call_Precedence xnu_thread int int
  | Call_Task_Priority xnu_thread int
  | Call_Timeshare xnu_thread bool
  | Call_Legacy_Policy xnu_thread bool int int
  | Call_Requested_Qos xnu_thread qos_policy
  | Call_Task_Qos u32 task_qos
  | Call_Qos_Override xnu_thread "int option"
  | Call_Depress xnu_thread u64
  | Call_Bind xnu_thread "nat option"
  | Call_Realtime xnu_thread u64 u64 u64 bool
  | Call_Realtime_Policy xnu_thread realtime_policy
  | Call_Realtime_Clock u64
  | Call_Choose nat "xnu_thread option"
  | Call_Complete xnu_thread u64 slice_completion bool
  | Call_Advance u64
  | Call_Synchronize u64

fun perform_call :: "scheduler_call \<Rightarrow> scheduler \<Rightarrow> scheduler option" where
  "perform_call (Call_Register t base runnable) s = map_option snd (register_thread t base runnable s)"
| "perform_call (Call_Remove t pending) s = map_option snd (remove_thread t pending s)"
| "perform_call (Call_Remove_Process p) s = map_option snd (remove_process p s)"
| "perform_call (Call_Replace t base pending) s = map_option snd (replace_process_threads t base pending s)"
| "perform_call (Call_Make_Runnable t) s = map_option snd (make_runnable t s)"
| "perform_call (Call_Wake t) s = map_option snd (wake_thread t s)"
| "perform_call (Call_Block t) s = map_option snd (block t s)"
| "perform_call (Call_Suspend reason t) s = map_option snd (suspend_thread reason t s)"
| "perform_call (Call_Resume reason t) s = map_option snd (resume_thread reason t s)"
| "perform_call (Call_Suspend_Process p) s = map_option snd (suspend_process p s)"
| "perform_call (Call_Resume_Process p) s = map_option snd (resume_process p s)"
| "perform_call (Call_Base_Priority t priority) s = map_option snd (set_base_priority t priority s)"
| "perform_call (Call_Precedence t priority importance) s =
     map_option snd (set_precedence t priority importance s)"
| "perform_call (Call_Task_Priority t priority) s = map_option snd (set_task_priority t priority s)"
| "perform_call (Call_Timeshare t timeshare) s = map_option snd (set_timeshare t timeshare s)"
| "perform_call (Call_Legacy_Policy t timeshare task_priority priority) s =
     map_option snd (set_legacy_policy t timeshare task_priority priority s)"
| "perform_call (Call_Requested_Qos t policy) s = map_option snd (set_requested_qos t policy s)"
| "perform_call (Call_Task_Qos p policy) s = set_task_qos_policy p policy s"
| "perform_call (Call_Qos_Override t priority) s =
     map_option snd (set_qos_override_priority t priority s)"
| "perform_call (Call_Depress t duration) s = map_option snd (depress t duration s)"
| "perform_call (Call_Bind t slot) s = map_option snd (bind_thread t slot s)"
| "perform_call (Call_Realtime t period computation constraint preemptible) s =
     map_option snd (set_realtime t period computation constraint preemptible s)"
| "perform_call (Call_Realtime_Policy t policy) s = map_option snd (set_realtime_policy t policy s)"
| "perform_call (Call_Realtime_Clock elapsed) s = Some (set_realtime_clock_ticks elapsed s)"
| "perform_call (Call_Choose p preferred) s = map_option snd (choose_next p preferred s)"
| "perform_call (Call_Complete t consumed completion advance) s =
     map_option snd (complete_slice t consumed completion advance s)"
| "perform_call (Call_Advance elapsed) s = advance_time elapsed s"
| "perform_call (Call_Synchronize elapsed) s = synchronize_time elapsed s"

fun perform_calls :: "scheduler_call list \<Rightarrow> scheduler \<Rightarrow> scheduler option" where
  "perform_calls [] s = Some s"
| "perform_calls (c # cs) s = do { s \<leftarrow> perform_call c s; perform_calls cs s }"

text \<open>The base priorities given stay out of the range of the realtime queue.\<close>

fun moderate :: "scheduler_call \<Rightarrow> bool" where
  "moderate (Call_Register _ base _) \<longleftrightarrow> base \<le> realtime_base_priority"
| "moderate (Call_Replace _ base _) \<longleftrightarrow> base \<le> realtime_base_priority"
| "moderate (Call_Base_Priority _ priority) \<longleftrightarrow> priority \<le> realtime_base_priority"
| "moderate _ \<longleftrightarrow> True"

lemma kept_time:
  "sched_ok n s \<Longrightarrow> kept n (advance_time elapsed s)"
  "sched_ok n s \<Longrightarrow> kept n (synchronize_time elapsed s)"
  using advance_scheduler_time_ok [of n s elapsed] synchronize_time_ok [of n s elapsed]
  by (auto simp: advance_time_def kept_iff)

lemmas call_keeps = register_thread_keeps remove_thread_keeps remove_process_keeps
  replace_process_threads_keeps make_runnable_keeps wake_thread_keeps block_keeps
  suspend_thread_keeps resume_thread_keeps suspend_process_keeps resume_process_keeps
  set_base_priority_ok set_precedence_ok set_task_priority_ok set_timeshare_ok
  set_legacy_policy_ok set_requested_qos_ok set_qos_override_priority_ok depress_ok
  bind_thread_ok set_realtime_ok set_realtime_policy_ok choose_next_keeps complete_slice_keeps

lemma perform_call_ok:
  assumes "sched_ok n s" "moderate c"
  shows "kept n (perform_call c s)"
  using assms
  by (cases c) (simp_all add: kept_keeps call_keeps set_task_qos_policy_ok kept_time
      realtime_clock_ok realtime_base_priority_def)

lemma perform_calls_ok:
  assumes "sched_ok n s" "\<forall>c\<in>set cs. moderate c"
  shows "\<exists>s'. perform_calls cs s = Some s' \<and> sched_ok n s'"
  using assms
proof (induction cs arbitrary: s)
  case (Cons c cs)
  then obtain s1 where "perform_call c s = Some s1" "sched_ok n s1"
    using perform_call_ok [of n s c] by (auto simp: kept_iff)
  with Cons.IH [of s1] Cons.prems(2) show ?case by simp
qed simp

lemma empty_matches: "queue_matches Map.empty slot empty_run_queue"
  using empty_run_queue_ok by (simp add: queue_matches_def) (simp add: empty_run_queue_def)

lemma new_scheduler_ok:
  assumes "new_scheduler quantum tick n rate minimum buckets = Some s"
  shows "sched_ok n s" "0 < n"
proof -
  have s: "sc_threads s = []" "sc_global s = empty_run_queue" "sc_locals s = replicate n empty_run_queue"
    "sc_contexts s = replicate n None" "sc_depressions s = []" "sc_failsafes s = []" "sc_usage s = []"
    "sc_runnable s = 0" "sc_waiting s = 0" "sc_host_awaits s = 0" "sl_counts (sc_load s) = (\<lambda>_. 0)"
    "sc_process_runnable s = Map.empty" "sc_process_threads s = Map.empty"
    "0 \<le> sc_minimum_user s" "sc_minimum_user s \<le> maximum_user_priority"
    using assms by (auto simp: new_scheduler_def minimum_priority_def split: if_splits)
  have threads: "thread_of t s = None" for t by (simp add: thread_of_def s)
  then have feet: "feet_of s = Map.empty" by (simp add: feet_of_def fun_eq_iff)
  have none: "tally P Map.empty = 0" for P by (simp add: tally_def)
  have "struct_ok n s"
    using empty_matches by (simp add: struct_ok_def feet queues_ok_def places_ok_def counts_ok_def
        indexes_ok_def deadline_index_def usage_ok_def contexts_ok_def none s)
  then show "sched_ok n s"
    by (simp add: sched_ok_def threads processes_ok_def feet waiting_balance_def none s)
  show "0 < n" using assms by (auto simp: new_scheduler_def split: if_splits)
qed

section \<open>An example\<close>

definition example_calls :: "scheduler_call list" where
  "example_calls = [Call_Register (Xnu_Thread 1 1) 31 True, Call_Register (Xnu_Thread 1 2) 40 True,
     Call_Register (Xnu_Thread 2 1) 20 False, Call_Suspend By_User (Xnu_Thread 1 1), Call_Choose 0 None,
     Call_Register (Xnu_Thread 2 2) 35 True, Call_Register (Xnu_Thread 2 3) 33 True]"

definition example_scheduler :: scheduler where
  "example_scheduler = the (perform_calls example_calls (the (new_scheduler 10 100 2 1000 0 True)))"

lemma example_ok: "sched_ok 2 example_scheduler"
proof -
  obtain s where s: "new_scheduler 10 100 2 1000 0 True = Some s"
    by (simp add: new_scheduler_def minimum_priority_def maximum_user_priority_def)
  have "\<forall>c\<in>set example_calls. moderate c" by (simp add: example_calls_def realtime_base_priority_def)
  from perform_calls_ok [OF new_scheduler_ok(1) [OF s] this] s show ?thesis
    by (auto simp: example_scheduler_def)
qed

lemma example_threads:
  "map_option (\<lambda>r. (th_state r, th_suspend_counts r By_User, th_pending r)) (thread_of (Xnu_Thread 1 1) example_scheduler) =
    Some (Waiting, 1, False)"
  "map_option (\<lambda>r. (th_state r, th_suspend_counts r By_User, th_pending r)) (thread_of (Xnu_Thread 1 2) example_scheduler) =
    Some (Running, 0, True)"
  by code_simp+


section \<open>Properties\<close>

text \<open>C14. After every sequence of calls on a new scheduler that stays below the realtime base
  priority, no call throws, misses an entry or indexes out of bounds, and the scheduler is
  consistent: the run queues hold exactly the threads whose records say so, at their priority and
  with their realtime key, a thread is queued exactly when it is runnable, a suspended thread
  waits, the counts are those of the records, and the indexes of depressions, demotions, usage,
  processor contexts and processes list exactly the records they are for.\<close>

theorem scheduler_consistent:
  assumes "new_scheduler quantum tick n rate minimum buckets = Some s" "\<forall>c\<in>set cs. moderate c"
  shows "\<exists>s'. perform_calls cs s = Some s' \<and> sched_ok n s'"
  by (rule perform_calls_ok [OF new_scheduler_ok(1) [OF assms(1)] assms(2)])

theorem scheduler_consistent_witness:
  "\<exists>s'. perform_calls example_calls (the (new_scheduler 10 100 2 1000 0 True)) = Some s' \<and> sched_ok 2 s'"
proof -
  have "new_scheduler 10 100 2 1000 0 True = Some (the (new_scheduler 10 100 2 1000 0 True))"
    by (simp add: new_scheduler_def minimum_priority_def maximum_user_priority_def)
  moreover have "\<forall>c\<in>set example_calls. moderate c" by (simp add: example_calls_def realtime_base_priority_def)
  ultimately show ?thesis by (rule scheduler_consistent)
qed

lemma select_thread_ok:
  assumes s: "sched_ok n s" and p: "p < n"
  shows "\<exists>res. select_thread p preferred s = Some res \<and>
    (case res of
       None \<Rightarrow> \<forall>u. preferred = None \<or> preferred = Some u \<longrightarrow> \<not> eligible None u s \<and> \<not> eligible (Some p) u s
     | Some t \<Rightarrow> (eligible None t s \<or> eligible (Some p) t s) \<and>
         (case preferred of
            None \<Rightarrow> \<forall>u. eligible None u s \<or> eligible (Some p) u s \<longrightarrow> no_better u t s
          | Some u \<Rightarrow> t = u))"
proof (cases preferred)
  case None
  then show ?thesis using peek_next_ok [OF s p] by (auto simp: select_thread_def split: option.splits)
next
  case (Some t)
  then show ?thesis by (auto simp: select_thread_def eligible_def split: option.splits)
qed

text \<open>C15. On a consistent scheduler a processor of the configuration is given a thread it may run:
  one that is queued, and unbound or bound to this processor. If the caller prefers no thread
  it is the best of those: of the highest priority of all and, at the realtime priority, of
  the earliest deadline. If the caller prefers a thread it is that one, whatever its priority,
  and never another. The thread is running afterwards, its slice is pending and its budget is
  its quantum. Nothing is given exactly when the processor may run no thread, or not the
  preferred one, and then nothing changes.\<close>

theorem choose_next_best:
  assumes s: "sched_ok n s" and p: "p < n"
  shows "\<exists>res s'. choose_next p preferred s = Some (res, s') \<and> sched_ok n s' \<and>
    (case res of
       None \<Rightarrow> s' = s \<and>
         (\<forall>u. preferred = None \<or> preferred = Some u \<longrightarrow> \<not> eligible None u s \<and> \<not> eligible (Some p) u s)
     | Some given \<Rightarrow>
         (eligible None (sl_thread given) s \<or> eligible (Some p) (sl_thread given) s) \<and>
         (case preferred of
            None \<Rightarrow> \<forall>u. eligible None u s \<or> eligible (Some p) u s \<longrightarrow> no_better u (sl_thread given) s
          | Some u \<Rightarrow> sl_thread given = u) \<and>
         sl_processor given = p \<and>
         (\<exists>r. thread_of (sl_thread given) s' = Some r \<and> th_state r = Running \<and> th_pending r \<and>
           sl_budget given = th_quantum r))"
proof -
  have len: "length (sc_locals s) = n" using struct_indexes(5) [OF sched_okD(1) [OF s]] .
  obtain res where res: "select_thread p preferred s = Some res"
    "case res of
       None \<Rightarrow> \<forall>u. preferred = None \<or> preferred = Some u \<longrightarrow> \<not> eligible None u s \<and> \<not> eligible (Some p) u s
     | Some t \<Rightarrow> (eligible None t s \<or> eligible (Some p) t s) \<and>
         (case preferred of
            None \<Rightarrow> \<forall>u. eligible None u s \<or> eligible (Some p) u s \<longrightarrow> no_better u t s
          | Some u \<Rightarrow> t = u)"
    using select_thread_ok [OF s p] by blast
  show ?thesis
  proof (cases res)
    case None
    then have "choose_next p preferred s = Some (None, s)"
      using res(1) p len by (simp add: choose_next_def)
    with res(2) s None show ?thesis by simp
  next
    case (Some t)
    then obtain r where "thread_of t s = Some r" "th_queued r"
      using res(2) by (auto simp: eligible_def split: option.splits)
    from dispatch_thread_ok [OF s this p] obtain given s' r' where d: "dispatch_thread p t s = Some (given, s')"
      "sched_ok n s'" "sl_thread given = t" "sl_processor given = p" "thread_of t s' = Some r'"
      "th_state r' = Running" "th_pending r'" "sl_budget given = th_quantum r'" by blast
    have "choose_next p preferred s = Some (Some given, s')"
      using res(1) p len d(1) Some by (simp add: choose_next_def)
    with res(2) d Some show ?thesis by (cases preferred) simp_all
  qed
qed

theorem choose_next_best_witness:
  "(\<exists>given s'. choose_next 1 None example_scheduler = Some (Some given, s') \<and> sched_ok 2 s' \<and>
    sl_thread given = Xnu_Thread 2 2 \<and> no_better (Xnu_Thread 2 3) (Xnu_Thread 2 2) example_scheduler) \<and>
   (\<exists>given s'. choose_next 1 (Some (Xnu_Thread 2 3)) example_scheduler = Some (Some given, s') \<and>
    sched_ok 2 s' \<and> sl_thread given = Xnu_Thread 2 3)"
proof
  have best: "map_option (map_option sl_thread \<circ> fst) (choose_next 1 None example_scheduler) =
    Some (Some (Xnu_Thread 2 2))" by code_simp
  have other: "eligible None (Xnu_Thread 2 3) example_scheduler" by code_simp
  with choose_next_best [OF example_ok, of 1 None] best
  show "\<exists>given s'. choose_next 1 None example_scheduler = Some (Some given, s') \<and> sched_ok 2 s' \<and>
    sl_thread given = Xnu_Thread 2 2 \<and> no_better (Xnu_Thread 2 3) (Xnu_Thread 2 2) example_scheduler"
    by (auto split: option.splits)
  show "\<exists>given s'. choose_next 1 (Some (Xnu_Thread 2 3)) example_scheduler = Some (Some given, s') \<and>
    sched_ok 2 s' \<and> sl_thread given = Xnu_Thread 2 3"
    using choose_next_best [OF example_ok, of 1 "Some (Xnu_Thread 2 3)"] other by (auto split: option.splits)
qed

text \<open>C16. On a consistent scheduler a thread that is suspended for some reason waits: it is in no
  run queue, no processor is ever given it, preferred or not, and resuming it for another reason
  leaves it so.\<close>

theorem suspended_stays_put:
  assumes s: "sched_ok n s" and t: "thread_of t s = Some r" and held: "th_suspend_counts r k \<noteq> 0"
  shows "th_state r = Waiting \<and> (\<forall>slot. \<not> eligible slot t s) \<and>
    (\<forall>p preferred given s'. choose_next p preferred s = Some (Some given, s') \<longrightarrow> sl_thread given \<noteq> t) \<and>
    (\<forall>k' b s'. k' \<noteq> k \<longrightarrow> resume_thread k' t s = Some (b, s') \<longrightarrow>
      (\<exists>r'. thread_of t s' = Some r' \<and> th_state r' = Waiting \<and> \<not> th_queued r' \<and>
        th_suspend_counts r' k = th_suspend_counts r k))"
proof -
  note phase = record_okD(4) [OF sched_okD(2) [OF s t]]
  have sus: "suspends_ok r" using phase by (simp add: phase_ok_def)
  have nz: "th_suspends r \<noteq> 0" using suspends_ok_less(2) [OF sus held] .
  have waits: "th_state r = Waiting" "\<not> th_queued r" using phase nz by (auto simp: phase_ok_def)
  have out: "\<not> eligible slot t s" for slot using t waits(2) by (simp add: eligible_def)
  have never: "sl_thread given \<noteq> t" if c: "choose_next p preferred s = Some (Some given, s')" for p preferred given s'
  proof
    assume given: "sl_thread given = t"
    have p: "p < n" using c struct_indexes(5) [OF sched_okD(1) [OF s]] by (auto simp: choose_next_def split: if_splits)
    obtain u where u: "select_thread p preferred s = Some (Some u)" "dispatch_thread p u s = Some (given, s')"
      using c p struct_indexes(5) [OF sched_okD(1) [OF s]]
      by (auto simp: choose_next_def bind_eq_Some_conv split: option.splits)
    have "u = t" using u(2) given by (auto simp: dispatch_thread_def Let_def bind_eq_Some_conv)
    with u(1) t waits(2) have "preferred = None"
      by (cases preferred) (auto simp: select_thread_def split: if_splits option.splits)
    with u(1) \<open>u = t\<close> peek_next_ok [OF s p] out show False by (auto simp: select_thread_def)
  qed
  have kept: "\<exists>r'. thread_of t s' = Some r' \<and> th_state r' = Waiting \<and> \<not> th_queued r' \<and>
      th_suspend_counts r' k = th_suspend_counts r k"
    if other: "k' \<noteq> k" and resume: "resume_thread k' t s = Some (b, s')" for k' b s'
  proof (cases "th_suspend_counts r k' = 0")
    case True
    with resume t waits show ?thesis by (simp add: resume_thread_def)
  next
    case False
    define f where "f = (\<lambda>r. r\<lparr>th_suspend_counts := (th_suspend_counts r)(k' := th_suspend_counts r k' - 1),
      th_suspends := th_suspends r - 1\<rparr> :: thread_record)"
    have "suspends_ok (f r)" using suspends_ok_less(1) [OF sus False] by (simp add: f_def)
    moreover have "th_suspend_counts (f r) k \<noteq> 0" using held other by (simp add: f_def)
    ultimately have "th_suspends (f r) \<noteq> 0" by (rule suspends_ok_less(2))
    then have "s' = update t f s" using resume t False by (simp add: resume_thread_def f_def Let_def)
    then have "thread_of t s' = Some (f r)" using t by simp
    then show ?thesis using waits other by (simp add: f_def)
  qed
  show ?thesis using waits(1) out never kept by blast
qed

theorem suspended_stays_put_witness:
  "\<exists>r. thread_of (Xnu_Thread 1 1) example_scheduler = Some r \<and> th_state r = Waiting \<and>
    \<not> eligible None (Xnu_Thread 1 1) example_scheduler"
proof -
  obtain r where r: "thread_of (Xnu_Thread 1 1) example_scheduler = Some r" "th_suspend_counts r By_User = 1"
    using example_threads(1) by auto
  have "th_suspend_counts r By_User \<noteq> 0" by (simp add: r(2))
  from suspended_stays_put [OF example_ok r(1) this] r(1) show ?thesis by blast
qed

text \<open>C17. On a consistent scheduler the completion of a pending slice charges its time to the
  thread, saturating, exactly once: the slice is no longer pending, or the thread is gone when it
  terminated, and a second completion is refused and changes nothing.\<close>

theorem slice_charged_once:
  assumes s: "sched_ok n s" and t: "thread_of t s = Some r" and pending: "th_pending r"
  shows "\<exists>s'. complete_slice t consumed completion advance s = Some (True, s') \<and> sched_ok n s' \<and>
    (if completion = Slice_Terminate then thread_of t s' = None
     else \<exists>r'. thread_of t s' = Some r' \<and> th_user r' = saturating_add (th_user r) consumed) \<and>
    complete_slice t consumed' completion' advance' s' = Some (False, s')"
proof -
  obtain s' where s': "complete_slice t consumed completion advance s = Some (True, s')" "sched_ok n s'"
    "if completion = Slice_Terminate then thread_of t s' = None
     else \<exists>r'. thread_of t s' = Some r' \<and> th_user r' = saturating_add (th_user r) consumed \<and> \<not> th_pending r'"
    using complete_slice_ok [OF s t pending] by blast
  then have "complete_slice t consumed' completion' advance' s' = Some (False, s')"
    by (auto simp: complete_slice_def split: if_splits)
  with s' show ?thesis by (auto split: if_splits)
qed

theorem slice_charged_once_witness:
  "\<exists>s'. complete_slice (Xnu_Thread 1 2) 3 Slice_Yield True example_scheduler = Some (True, s') \<and>
    complete_slice (Xnu_Thread 1 2) 3 Slice_Yield True s' = Some (False, s')"
proof -
  obtain r where r: "thread_of (Xnu_Thread 1 2) example_scheduler = Some r" "th_pending r"
    using example_threads(2) by auto
  from slice_charged_once [OF example_ok r, of 3 Slice_Yield True 3 Slice_Yield True] show ?thesis by blast
qed

end
