(* ===== verification/Scheduler_Queries.thy ===== *)
theory Scheduler_Queries
  imports Scheduler_Calls
begin

text \<open>
  The queries of \<^verbatim>\<open>XnuScheduler\<close> in
  \<^verbatim>\<open>mach/xnu_scheduler.cpp\<close>, and that the scans of the run queues
  agree with the thread records.
\<close>

section \<open>Counts\<close>

definition process_runnable_count :: "u32 \<Rightarrow> scheduler \<Rightarrow> nat" where
  "process_runnable_count p s = (case sc_process_runnable s p of None \<Rightarrow> 0 | Some c \<Rightarrow> c)"

definition runnable_count_at_or_above_priority :: "int \<Rightarrow> scheduler \<Rightarrow> nat" where
  "runnable_count_at_or_above_priority priority s =
    (let minimum = clamp_priority priority in
     count_at_or_above minimum (sc_global s) +
     sum_list (map (count_at_or_above minimum) (sc_locals s)))"

definition waiting_count :: "scheduler \<Rightarrow> nat" where
  "waiting_count s = sc_waiting s"

definition highest_runnable_priority :: "scheduler \<Rightarrow> int" where
  "highest_runnable_priority s = fold (\<lambda>q priority. max priority (rq_high q)) (sc_locals s) (rq_high (sc_global s))"

section \<open>The thread that waited longest\<close>

text \<open>The candidate so far, with its sequence number.\<close>

definition consider_thread ::
  "xnu_thread option \<Rightarrow> xnu_thread \<Rightarrow> thread_record \<Rightarrow> (xnu_thread \<times> u64) option \<Rightarrow>
   (xnu_thread \<times> u64) option" where
  "consider_thread excluded t r oldest =
    (if excluded = Some t then oldest
     else case oldest of
       None \<Rightarrow> Some (t, th_runnable_sequence r)
     | Some (_, sequence) \<Rightarrow>
         if th_runnable_sequence r < sequence then Some (t, th_runnable_sequence r) else oldest)"

definition consider_queued ::
  "xnu_thread option \<Rightarrow> scheduler \<Rightarrow> xnu_thread \<Rightarrow> (xnu_thread \<times> u64) option \<Rightarrow>
   (xnu_thread \<times> u64) option" where
  "consider_queued excluded s t oldest =
    (case thread_of t s of
       None \<Rightarrow> oldest
     | Some r \<Rightarrow> if th_queued r then consider_thread excluded t r oldest else oldest)"

definition oldest_runnable_thread :: "u32 list \<Rightarrow> xnu_thread option \<Rightarrow> scheduler \<Rightarrow> xnu_thread option" where
  "oldest_runnable_thread processes excluded s =
    map_option fst (fold (\<lambda>p oldest. case sc_process_threads s p of
        None \<Rightarrow> oldest
      | Some threads \<Rightarrow> fold (consider_queued excluded s) threads oldest) processes None)"

definition consider_run_queue ::
  "xnu_thread option \<Rightarrow> scheduler \<Rightarrow> run_queue \<Rightarrow> (xnu_thread \<times> u64) option \<Rightarrow>
   (xnu_thread \<times> u64) option" where
  "consider_run_queue excluded s q oldest =
    fold (\<lambda>priority oldest. fold (\<lambda>t oldest. case thread_of t s of
        None \<Rightarrow> oldest | Some r \<Rightarrow> consider_thread excluded t r oldest)
      (rq_queues q priority) oldest) (populated q) oldest"

definition oldest_runnable_thread_except :: "xnu_thread option \<Rightarrow> scheduler \<Rightarrow> xnu_thread option" where
  "oldest_runnable_thread_except excluded s = map_option fst
    (if length (sc_threads s) div 2 < sc_runnable s
     then fold (\<lambda>(t, r) oldest. if th_queued r then consider_thread excluded t r oldest else oldest)
       (sc_threads s) None
     else fold (consider_run_queue excluded s) (sc_locals s)
       (consider_run_queue excluded s (sc_global s) None))"

section \<open>The best thread of a process\<close>

definition runnable_better :: "thread_record \<Rightarrow> thread_record \<Rightarrow> bool" where
  "runnable_better candidate best =
    (if th_scheduled candidate \<noteq> th_scheduled best then th_scheduled best < th_scheduled candidate
     else if th_realtime candidate \<noteq> th_realtime best then th_realtime candidate
     else if th_realtime candidate \<and> th_deadline candidate \<noteq> th_deadline best
       then th_deadline candidate < th_deadline best
     else th_sequence candidate < th_sequence best)"

definition highest_priority_runnable_thread ::
  "u32 \<Rightarrow> xnu_thread option \<Rightarrow> scheduler \<Rightarrow> xnu_thread option" where
  "highest_priority_runnable_thread p excluded s =
    (case sc_process_threads s p of
       None \<Rightarrow> None
     | Some threads \<Rightarrow> map_option fst (fold (\<lambda>t best.
         if excluded = Some t then best
         else case thread_of t s of
           None \<Rightarrow> best
         | Some r \<Rightarrow>
             if \<not> th_queued r then best
             else case best of
               None \<Rightarrow> Some (t, r)
             | Some (_, b) \<Rightarrow> if runnable_better r b then Some (t, r) else best) threads None))"

section \<open>Statistics\<close>

definition contains_thread :: "xnu_thread \<Rightarrow> scheduler \<Rightarrow> bool" where
  "contains_thread t s \<longleftrightarrow> thread_of t s \<noteq> None"

definition host_continuation_allowed :: "xnu_thread \<Rightarrow> scheduler \<Rightarrow> bool" where
  "host_continuation_allowed t s \<longleftrightarrow>
    (case thread_of t s of None \<Rightarrow> False | Some r \<Rightarrow> th_host_resume r)"

definition thread_info :: "xnu_thread \<Rightarrow> scheduler \<Rightarrow> scheduling_info option" where
  "thread_info t s =
    (case thread_of t s of
       None \<Rightarrow> None
     | Some r \<Rightarrow> Some (scheduling_info.truncate (r\<lparr>th_stamp := sc_tick s\<rparr>)))"

record policy_state =
  ps_importance :: int
  ps_realtime_policy :: realtime_policy
  ps_timeshare :: bool
  ps_realtime :: bool

record thread_statistics =
  ts_scheduling :: scheduling_info
  ts_user_ticks :: u64
  ts_tick_ticks :: u64
  ts_quantum_ticks :: u64
  ts_rate :: u32
  ts_suspends :: u32
  ts_user_suspends :: u32
  ts_policy :: policy_state

definition statistics :: "xnu_thread \<Rightarrow> u64 \<Rightarrow> scheduler \<Rightarrow> thread_statistics option" where
  "statistics t pending s =
    (case thread_of t s of
       None \<Rightarrow> None
     | Some r \<Rightarrow> Some
        \<lparr>ts_scheduling = scheduling_info.truncate
           (r\<lparr>th_stamp := sc_tick s, th_cpu := saturating_add (th_cpu r) pending\<rparr>),
         ts_user_ticks = saturating_add (th_user r) pending, ts_tick_ticks = sc_tick_ticks s,
         ts_quantum_ticks = sc_quantum s, ts_rate = sc_rate s, ts_suspends = th_suspends r,
         ts_user_suspends = th_suspend_counts r By_User,
         ts_policy = \<lparr>ps_importance = th_importance r, ps_realtime_policy = th_policy r,
           ps_timeshare = (if th_failsafe r then th_saved_timeshare r else th_timeshare r),
           ps_realtime = (if th_failsafe r then th_saved_realtime r else th_realtime r)\<rparr>\<rparr>)"

record task_statistics =
  tk_terminated :: u64
  tk_live :: u64
  tk_microseconds :: u64
  tk_rate :: u32
  tk_switches :: u32

text \<open>A thread's microseconds: the 128-bit sum of the source is a natural number.\<close>

definition microseconds :: "u64 \<Rightarrow> u32 \<Rightarrow> u64" where
  "microseconds ticks rate = word_of_nat (min
    (unat (ticks div ucast rate) * 1000000 + unat (ticks mod ucast rate * 1000000 div ucast rate))
    (2 ^ 64 - 1))"

fun live_threads ::
  "(xnu_thread \<Rightarrow> u64) option \<Rightarrow> xnu_thread list \<Rightarrow> scheduler \<Rightarrow> task_statistics \<Rightarrow>
   task_statistics option" where
  "live_threads pending [] s k = Some k"
| "live_threads pending (t # ts) s k = do {
     r \<leftarrow> thread_of t s;
     let ticks = saturating_add (th_user r) (case pending of None \<Rightarrow> 0 | Some f \<Rightarrow> f t);
     live_threads pending ts s (k\<lparr>tk_live := saturating_add (tk_live k) ticks,
       tk_microseconds := saturating_add (tk_microseconds k) (microseconds ticks (sc_rate s))\<rparr>)
   }"

text \<open>The outer option is the exception, the inner one that the process is unknown.\<close>

definition task_statistics_of ::
  "u32 \<Rightarrow> bool \<Rightarrow> (xnu_thread \<Rightarrow> u64) option \<Rightarrow> scheduler \<Rightarrow> task_statistics option option" where
  "task_statistics_of p include_live pending s =
    (case sc_history s p of
       None \<Rightarrow> Some None
     | Some h \<Rightarrow>
         let k = \<lparr>tk_terminated = hi_terminated h, tk_live = 0, tk_microseconds = 0,
           tk_rate = sc_rate s, tk_switches = hi_switches h\<rparr> in
         if \<not> include_live then Some (Some k)
         else case sc_process_threads s p of
           None \<Rightarrow> Some (Some k)
         | Some threads \<Rightarrow> map_option Some (live_threads pending threads s k))"

section \<open>The scans agree with the records\<close>

definition queued_at_least :: "int \<Rightarrow> nat option \<Rightarrow> scheduler \<Rightarrow> xnu_thread set" where
  "queued_at_least m slot s = {t. \<exists>r. thread_of t s = Some r \<and> th_queued r \<and> th_bound r = slot \<and>
     m \<le> th_scheduled r}"

lemma finite_threads: "finite {t. thread_of t s \<noteq> None}"
proof -
  have "{t. thread_of t s \<noteq> None} = dom (feet_of s)" by (auto simp: feet_of_def)
  then show ?thesis by simp
qed

lemma finite_queued: "finite (queued_at_least m slot s)"
  by (rule finite_subset [OF _ finite_threads [of s]]) (auto simp: queued_at_least_def)

lemma count_in_queue:
  assumes s: "sched_ok n s" and slot: "slot_ok n slot" and m: "0 \<le> m" "m < 128"
  shows "count_at_or_above m (queue_in slot s) = card (queued_at_least m slot s)"
proof -
  let ?q = "queue_in slot s"
  have q: "queue_matches (feet_of s) slot ?q" by (rule queue_in_matches [OF sched_okD(1) [OF s] slot])
  then have dist: "distinct (rq_queues ?q k)" for k by (simp add: queue_matches_def)
  have "count_at_or_above m ?q = (\<Sum>k\<in>{nat m..<128}. length (rq_queues ?q k))"
    using q m by (intro count_at_or_above_ok) (simp_all add: queue_matches_def)
  also have "\<dots> = (\<Sum>k\<in>{nat m..<128}. card (set (rq_queues ?q k)))" by (simp add: distinct_card dist)
  also have "\<dots> = card (\<Union>k\<in>{nat m..<128}. set (rq_queues ?q k))"
    by (rule card_UN_disjoint [symmetric]) (auto simp: in_queue_iff [OF s slot])
  also have "(\<Union>k\<in>{nat m..<128}. set (rq_queues ?q k)) = queued_at_least m slot s"
  proof -
    have "t \<in> (\<Union>k\<in>{nat m..<128}. set (rq_queues ?q k)) \<longleftrightarrow> t \<in> queued_at_least m slot s" for t
    proof
      assume "t \<in> (\<Union>k\<in>{nat m..<128}. set (rq_queues ?q k))"
      then show "t \<in> queued_at_least m slot s"
        using m by (auto simp: in_queue_iff [OF s slot] queued_at_least_def)
    next
      assume "t \<in> queued_at_least m slot s"
      then obtain r where r: "thread_of t s = Some r" "th_queued r" "th_bound r = slot" "m \<le> th_scheduled r"
        by (auto simp: queued_at_least_def)
      have "0 \<le> th_scheduled r" "th_scheduled r \<le> 97"
        using record_okD(1) [OF sched_okD(2) [OF s r(1)]] by (simp_all add: queue_fields_ok_def)
      then have "t \<in> set (rq_queues ?q (nat (th_scheduled r)))" "nat (th_scheduled r) \<in> {nat m..<128}"
        using r m by (auto simp: in_queue_iff [OF s slot])
      then show "t \<in> (\<Union>k\<in>{nat m..<128}. set (rq_queues ?q k))" by blast
    qed
    then show ?thesis by blast
  qed
  finally show ?thesis .
qed

lemma sum_locals: "sum_list (map f xs) = (\<Sum>i<length xs. f (xs ! i))"
  by (simp add: sum_list_sum_nth atLeast0LessThan)

lemma runnable_count_ok:
  assumes s: "sched_ok n s" and m: "0 \<le> m" "m < 128"
  shows "count_at_or_above m (sc_global s) + sum_list (map (count_at_or_above m) (sc_locals s)) =
    card {t. \<exists>r. thread_of t s = Some r \<and> th_queued r \<and> m \<le> th_scheduled r}"
proof -
  let ?A = "\<lambda>slot. queued_at_least m slot s"
  have len: "length (sc_locals s) = n" using struct_indexes(5) [OF sched_okD(1) [OF s]] .
  have "count_at_or_above m (sc_global s) = card (?A None)"
    using count_in_queue [OF s _ m, of None] by (simp add: slot_ok_def queue_in_def)
  moreover have "sum_list (map (count_at_or_above m) (sc_locals s)) = (\<Sum>i<n. card (?A (Some i)))"
    unfolding sum_locals len
    using count_in_queue [OF s _ m, of "Some i" for i] by (intro sum.cong) (simp_all add: slot_ok_def queue_in_def)
  moreover have "(\<Sum>i<n. card (?A (Some i))) = card (\<Union>i<n. ?A (Some i))"
    by (rule card_UN_disjoint [symmetric]) (auto simp: finite_queued, auto simp: queued_at_least_def)
  moreover have "card (?A None) + card (\<Union>i<n. ?A (Some i)) = card (?A None \<union> (\<Union>i<n. ?A (Some i)))"
    by (rule card_Un_disjoint [symmetric]) (auto simp: finite_queued, auto simp: queued_at_least_def)
  moreover have "?A None \<union> (\<Union>i<n. ?A (Some i)) =
      {t. \<exists>r. thread_of t s = Some r \<and> th_queued r \<and> m \<le> th_scheduled r}"
  proof -
    have slots: "th_bound r = None \<or> (\<exists>i<n. th_bound r = Some i)" if "thread_of t s = Some r" for t r
      using record_okD(1) [OF sched_okD(2) [OF s that]]
      by (auto simp: queue_fields_ok_def slot_ok_def split: option.splits)
    show ?thesis
    proof (rule set_eqI)
      show "t \<in> ?A None \<union> (\<Union>i<n. ?A (Some i)) \<longleftrightarrow>
          t \<in> {t. \<exists>r. thread_of t s = Some r \<and> th_queued r \<and> m \<le> th_scheduled r}" for t
        using slots [of t] by (cases "thread_of t s") (auto simp: queued_at_least_def)
    qed
  qed
  ultimately show ?thesis by simp
qed


text \<open>What the scan has found among the records it has seen.\<close>

definition oldest_of ::
  "xnu_thread option \<Rightarrow> (xnu_thread \<times> thread_record) set \<Rightarrow> (xnu_thread \<times> u64) option \<Rightarrow> bool" where
  "oldest_of excluded A oldest \<longleftrightarrow>
    (case oldest of
       None \<Rightarrow> \<forall>(t, r)\<in>A. excluded = Some t
     | Some (t, sequence) \<Rightarrow> excluded \<noteq> Some t \<and>
         (\<exists>r. (t, r) \<in> A \<and> sequence = th_runnable_sequence r) \<and>
         (\<forall>(u, v)\<in>A. excluded \<noteq> Some u \<longrightarrow> sequence \<le> th_runnable_sequence v))"

lemma oldest_of_step:
  "oldest_of e A oldest \<Longrightarrow> oldest_of e (insert (t, r) A) (consider_thread e t r oldest)"
  by (fastforce simp: oldest_of_def consider_thread_def split: option.splits if_splits)

lemma oldest_of_fold:
  assumes "\<And>x A oldest. x \<in> set xs \<Longrightarrow> oldest_of e A oldest \<Longrightarrow> oldest_of e (A \<union> B x) (f x oldest)"
    and "oldest_of e A oldest"
  shows "oldest_of e (A \<union> (\<Union>x\<in>set xs. B x)) (fold f xs oldest)"
  using assms
proof (induction xs arbitrary: A oldest)
  case (Cons x xs)
  have "oldest_of e (A \<union> B x) (f x oldest)" using Cons.prems by simp
  then have "oldest_of e (A \<union> B x \<union> (\<Union>x\<in>set xs. B x)) (fold f xs (f x oldest))"
    using Cons.prems(1) by (intro Cons.IH) simp_all
  then show ?case by (simp add: Un_assoc)
qed simp

definition queued_records :: "scheduler \<Rightarrow> (xnu_thread \<times> thread_record) set" where
  "queued_records s = {(t, r). thread_of t s = Some r \<and> th_queued r}"

lemma dense_scan:
  assumes "ordered (sc_threads s)"
  shows "oldest_of e (queued_records s)
    (fold (\<lambda>(t, r) oldest. if th_queued r then consider_thread e t r oldest else oldest) (sc_threads s) None)"
proof -
  have "oldest_of e ({} \<union> (\<Union>x\<in>set (sc_threads s). {y. y = x \<and> th_queued (snd x)}))
    (fold (\<lambda>(t, r) oldest. if th_queued r then consider_thread e t r oldest else oldest) (sc_threads s) None)"
  proof (rule oldest_of_fold)
    fix x A oldest
    assume "oldest_of e A oldest"
    then show "oldest_of e (A \<union> {y. y = x \<and> th_queued (snd x)})
        ((case x of (t, r) \<Rightarrow> \<lambda>oldest. if th_queued r then consider_thread e t r oldest else oldest) oldest)"
      using oldest_of_step [of e A oldest "fst x" "snd x"] by (auto simp: case_prod_beta)
  qed (simp add: oldest_of_def)
  moreover have "{} \<union> (\<Union>x\<in>set (sc_threads s). {y. y = x \<and> th_queued (snd x)}) = queued_records s"
    using map_of_iff [OF assms] by (auto simp: queued_records_def thread_of_def)
  ultimately show ?thesis by simp
qed

lemma queue_scan:
  assumes s: "sched_ok n s" and slot: "slot_ok n slot" and o: "oldest_of e A oldest"
  shows "oldest_of e (A \<union> {(t, r). (t, r) \<in> queued_records s \<and> th_bound r = slot})
    (consider_run_queue e s (queue_in slot s) oldest)"
proof -
  let ?q = "queue_in slot s" and ?B = "\<lambda>t. {(u, r). u = t \<and> thread_of t s = Some r}"
  have ok: "rq_ok ?q" using queue_in_matches [OF sched_okD(1) [OF s] slot] by (simp add: queue_matches_def)
  have one: "oldest_of e (A \<union> ?B t) (case thread_of t s of None \<Rightarrow> oldest | Some r \<Rightarrow> consider_thread e t r oldest)"
    if "oldest_of e A oldest" for t A oldest
    using that oldest_of_step [OF that, of t] by (cases "thread_of t s") simp_all
  have list: "oldest_of e (A \<union> (\<Union>t\<in>set ts. ?B t))
      (fold (\<lambda>t oldest. case thread_of t s of None \<Rightarrow> oldest | Some r \<Rightarrow> consider_thread e t r oldest) ts oldest)"
    if "oldest_of e A oldest" for ts A oldest
    by (rule oldest_of_fold [OF one that])
  have "oldest_of e (A \<union> (\<Union>k\<in>set (populated ?q). \<Union>t\<in>set (rq_queues ?q k). ?B t)) (consider_run_queue e s ?q oldest)"
    unfolding consider_run_queue_def by (rule oldest_of_fold [OF list o])
  moreover have "(\<Union>k\<in>set (populated ?q). \<Union>t\<in>set (rq_queues ?q k). ?B t) =
      {(t, r). (t, r) \<in> queued_records s \<and> th_bound r = slot}"
  proof (rule set_eqI)
    fix x :: "xnu_thread \<times> thread_record"
    obtain t r where x: "x = (t, r)" by (cases x)
    show "x \<in> (\<Union>k\<in>set (populated ?q). \<Union>t\<in>set (rq_queues ?q k). ?B t) \<longleftrightarrow>
        x \<in> {(t, r). (t, r) \<in> queued_records s \<and> th_bound r = slot}"
    proof
      assume "x \<in> (\<Union>k\<in>set (populated ?q). \<Union>t\<in>set (rq_queues ?q k). ?B t)"
      then show "x \<in> {(t, r). (t, r) \<in> queued_records s \<and> th_bound r = slot}"
        by (auto simp: in_queue_iff [OF s slot] queued_records_def)
    next
      assume "x \<in> {(t, r). (t, r) \<in> queued_records s \<and> th_bound r = slot}"
      then have r: "thread_of t s = Some r" "th_queued r" "th_bound r = slot" by (simp_all add: x queued_records_def)
      have b: "0 \<le> th_scheduled r" using record_okD(1) [OF sched_okD(2) [OF s r(1)]] by (simp add: queue_fields_ok_def)
      then have mem: "t \<in> set (rq_queues ?q (nat (th_scheduled r)))"
        using r by (simp add: in_queue_iff [OF s slot])
      then have "rq_queues ?q (nat (th_scheduled r)) \<noteq> []" by auto
      then have "nat (th_scheduled r) \<in> set (populated ?q)" by (simp add: set_populated [OF ok])
      with mem r(1) show "x \<in> (\<Union>k\<in>set (populated ?q). \<Union>t\<in>set (rq_queues ?q k). ?B t)" by (auto simp: x)
    qed
  qed
  ultimately show ?thesis by simp
qed

lemma fold_nth: "fold f xs x = fold (\<lambda>i. f (xs ! i)) [0..<length xs] x"
proof -
  have "fold f xs x = fold f (map (\<lambda>i. xs ! i) [0..<length xs]) x" by (simp only: map_nth)
  then show ?thesis by (simp add: fold_map comp_def)
qed

lemma bucket_scan:
  assumes s: "sched_ok n s"
  shows "oldest_of e (queued_records s) (fold (consider_run_queue e s) (sc_locals s)
    (consider_run_queue e s (sc_global s) None))"
proof -
  have len: "length (sc_locals s) = n" using struct_indexes(5) [OF sched_okD(1) [OF s]] .
  let ?A = "\<lambda>slot. {(t, r). (t, r) \<in> queued_records s \<and> th_bound r = slot}"
  have "oldest_of e {} None" by (simp add: oldest_of_def)
  then have first: "oldest_of e (?A None) (consider_run_queue e s (sc_global s) None)"
    using queue_scan [OF s, of None e "{}" None] by (simp add: slot_ok_def queue_in_def)
  have "oldest_of e (?A None \<union> (\<Union>i\<in>set [0..<n]. ?A (Some i)))
      (fold (\<lambda>i. consider_run_queue e s (sc_locals s ! i)) [0..<n] (consider_run_queue e s (sc_global s) None))"
  proof (rule oldest_of_fold [OF _ first])
    fix i A oldest
    assume "i \<in> set [0..<n]" "oldest_of e A oldest"
    then show "oldest_of e (A \<union> ?A (Some i)) (consider_run_queue e s (sc_locals s ! i) oldest)"
      using queue_scan [OF s, of "Some i" e A oldest] by (simp add: slot_ok_def queue_in_def)
  qed
  moreover have "?A None \<union> (\<Union>i\<in>set [0..<n]. ?A (Some i)) = queued_records s"
  proof -
    have "th_bound r = None \<or> (\<exists>i<n. th_bound r = Some i)" if "(t, r) \<in> queued_records s" for t r
    proof -
      have "thread_of t s = Some r" using that by (simp add: queued_records_def)
      from record_okD(1) [OF sched_okD(2) [OF s this]] show ?thesis
        by (auto simp: queue_fields_ok_def slot_ok_def split: option.splits)
    qed
    then show ?thesis by fastforce
  qed
  ultimately show ?thesis by (simp add: fold_nth [of _ "sc_locals s"] len)
qed


section \<open>Properties\<close>

text \<open>C18. On a consistent scheduler the scan of the bitmaps of populated priorities counts exactly
  the threads that are queued at the given priority, clamped to the valid range, or above it.\<close>

theorem runnable_count_exact:
  assumes "sched_ok n s"
  shows "runnable_count_at_or_above_priority priority s =
    card {t. \<exists>r. thread_of t s = Some r \<and> th_queued r \<and> clamp_priority priority \<le> th_scheduled r}"
proof -
  have "0 \<le> clamp_priority priority" "clamp_priority priority < 128"
    by (auto simp: clamp_priority_def clamp_def minimum_priority_def maximum_priority_def)
  from runnable_count_ok [OF assms this] show ?thesis
    by (simp add: runnable_count_at_or_above_priority_def Let_def)
qed

theorem runnable_count_exact_witness:
  "card {t. \<exists>r. thread_of t example_scheduler = Some r \<and> th_queued r \<and> 34 \<le> th_scheduled r} = 1"
proof -
  have "runnable_count_at_or_above_priority 34 example_scheduler = 1" by code_simp
  moreover have "clamp_priority 34 = 34"
    by (simp add: clamp_priority_def clamp_def minimum_priority_def maximum_priority_def)
  ultimately show ?thesis using runnable_count_exact [OF example_ok, of 34] by simp
qed

text \<open>C19. On a consistent scheduler the search for the thread that waited longest, by whichever of
  its two scans, finds a queued thread that is not the excluded one and became runnable no later
  than any other such thread; it finds none exactly when there is none.\<close>

theorem oldest_runnable_exact:
  assumes s: "sched_ok n s"
  shows "case oldest_runnable_thread_except excluded s of
      None \<Rightarrow> \<forall>t r. thread_of t s = Some r \<longrightarrow> th_queued r \<longrightarrow> excluded = Some t
    | Some t \<Rightarrow> excluded \<noteq> Some t \<and> (\<exists>r. thread_of t s = Some r \<and> th_queued r \<and>
        (\<forall>u v. thread_of u s = Some v \<longrightarrow> th_queued v \<longrightarrow> excluded \<noteq> Some u \<longrightarrow>
          th_runnable_sequence r \<le> th_runnable_sequence v))"
proof -
  obtain oldest where o: "oldest_runnable_thread_except excluded s = map_option fst oldest"
    "oldest_of excluded (queued_records s) oldest"
    using dense_scan [OF struct_ordered [OF sched_okD(1) [OF s]], of excluded] bucket_scan [OF s, of excluded]
    unfolding oldest_runnable_thread_except_def by presburger
  show ?thesis
  proof (cases oldest)
    case None
    with o show ?thesis by (auto simp: oldest_of_def queued_records_def)
  next
    case (Some p)
    obtain t sequence where p: "p = (t, sequence)" by (cases p)
    from o(2) Some p obtain r where r: "excluded \<noteq> Some t" "thread_of t s = Some r" "th_queued r"
      "sequence = th_runnable_sequence r"
      "\<forall>(u, v)\<in>queued_records s. excluded \<noteq> Some u \<longrightarrow> sequence \<le> th_runnable_sequence v"
      by (auto simp: oldest_of_def queued_records_def)
    have "oldest_runnable_thread_except excluded s = Some t" using o(1) Some p by simp
    with r show ?thesis by (auto simp: queued_records_def)
  qed
qed

theorem oldest_runnable_exact_witness:
  "\<exists>r. thread_of (Xnu_Thread 2 3) example_scheduler = Some r \<and> th_queued r \<and>
    oldest_runnable_thread_except (Some (Xnu_Thread 2 2)) example_scheduler = Some (Xnu_Thread 2 3)"
proof -
  have found: "oldest_runnable_thread_except (Some (Xnu_Thread 2 2)) example_scheduler = Some (Xnu_Thread 2 3)"
    by code_simp
  with oldest_runnable_exact [OF example_ok, of "Some (Xnu_Thread 2 2)"] show ?thesis by auto
qed

end
