(* ===== verification/Psynch.thy ===== *)
theory Psynch
  imports Prelude
begin

text \<open>
  The kernel side of guest pthread synchronisation, \<^verbatim>\<open>kernel/bsd/psynch_runtime.cpp\<close>
  and \<^verbatim>\<open>kernel/include/kernel/darwin_psynch_runtime.hpp\<close>: wait queues, wakeups
  that arrived before their wait (preposts) and completed results of mutexes, condition
  variables and read-write locks.

  The ordered maps are only looked up in, or filtered entry by entry, so they are HOL maps.
  The owner of a shared page is a number, that of an empty weak pointer \<open>None\<close>; whether
  an owner is still alive is an input of each call, \<open>live\<close>. Arguments the source casts
  to void are left out. The mutex makes every call atomic.
\<close>

section \<open>State\<close>

datatype psynch_thread = Psynch_Thread (ps_process: u32) (ps_processor: u32)

record memory_identity =
  mi_backing :: "nat option"
  mi_offset :: u64

definition no_identity :: memory_identity where
  "no_identity = \<lparr>mi_backing = None, mi_offset = 0\<rparr>"

record psynch_object =
  po_address :: u32
  po_shared :: "memory_identity option"

datatype wait_kind = Wait_Mutex | Wait_Condition | Wait_Read | Wait_Write

datatype queue_family = Mutex_Queue | Condition_Queue | Rw_Queue

record wait_queue_key =
  wk_shared :: bool
  wk_process :: u32
  wk_address :: u32
  wk_family :: queue_family
  wk_identity :: memory_identity

record waiter =
  wt_thread :: psynch_thread
  wt_sequence :: u32
  wt_kind :: wait_kind

record prepost =
  pp_sequence :: u32
  pp_count :: u32
  pp_kind :: wait_kind

record rw_state =
  rw_next :: u32
  rw_last :: u32
  rw_last_unlock :: u32
  rw_prepost_count :: u32
  rw_prepost_lock :: u32
  rw_prepost_word :: u32
  rw_has_last :: bool
  rw_overlap :: bool

definition new_rw_state :: rw_state where
  "new_rw_state = \<lparr>rw_next = 1, rw_last = 1, rw_last_unlock = 0, rw_prepost_count = 0,
     rw_prepost_lock = 0, rw_prepost_word = 1, rw_has_last = False, rw_overlap = False\<rparr>"

record wait_queue =
  wq_waiters :: "waiter list"
  wq_preposts :: "prepost list"
  wq_rw :: "rw_state option"

definition empty_wait_queue :: wait_queue where
  "empty_wait_queue = \<lparr>wq_waiters = [], wq_preposts = [], wq_rw = None\<rparr>"

record psynch =
  ps_queues :: "wait_queue_key \<rightharpoonup> wait_queue"
  ps_completed :: "psynch_thread \<rightharpoonup> u32"
  ps_operations :: u32

definition new_psynch :: psynch where
  "new_psynch = \<lparr>ps_queues = Map.empty, ps_completed = Map.empty, ps_operations = 0\<rparr>"

record wait_outcome =
  wo_blocked :: bool
  wo_result :: u32
  wo_woken :: "psynch_thread list"

record wake_outcome =
  ke_result :: u32
  ke_woken :: "psynch_thread list"

record mutex_drop =
  md_object :: psynch_object
  md_lock :: u32
  md_unlock :: u32

definition generation_increment :: u32 where "generation_increment = 0x100"
definition generation_mask :: u32 where "generation_mask = 0xffffff00"
definition kernel_bit :: u32 where "kernel_bit = 0x01"
definition exclusive_bit :: u32 where "exclusive_bit = 0x02"
definition write_waiter_bit :: u32 where "write_waiter_bit = 0x04"
definition sequence_save_mask :: u32 where "sequence_save_mask = 0x1c"
definition overlap_bit :: u32 where "overlap_bit = 0x40"
definition condition_prepost_bit :: u32 where "condition_prepost_bit = 0x02"
definition mutex_prepost_bit :: u32 where "mutex_prepost_bit = 0x04"
definition first_fit_policy :: u32 where "first_fit_policy = 0x80"

definition generation :: "u32 \<Rightarrow> u32" where
  "generation w = w AND generation_mask"

definition generation_count :: "u32 \<Rightarrow> u32 \<Rightarrow> u32" where
  "generation_count upper lower = drop_bit 8 (generation (upper - lower))"

definition sequence_not_after :: "u32 \<Rightarrow> u32 \<Rightarrow> bool" where
  "sequence_not_after sequence upper_bound \<longleftrightarrow> generation_count upper_bound sequence < 0x800000"

section \<open>Queues\<close>

definition queue_at :: "wait_queue_key \<Rightarrow> psynch \<Rightarrow> wait_queue" where
  "queue_at k s = (case ps_queues s k of None \<Rightarrow> empty_wait_queue | Some q \<Rightarrow> q)"

definition put_wait_queue :: "wait_queue_key \<Rightarrow> wait_queue \<Rightarrow> psynch \<Rightarrow> psynch" where
  "put_wait_queue k q s = s\<lparr>ps_queues := (ps_queues s)(k \<mapsto> q)\<rparr>"

definition expired_queue :: "(nat \<Rightarrow> bool) \<Rightarrow> wait_queue_key \<Rightarrow> bool" where
  "expired_queue live k \<longleftrightarrow> wk_shared k \<and>
    (case mi_backing (wk_identity k) of None \<Rightarrow> True | Some b \<Rightarrow> \<not> live b)"

definition erase_queues ::
  "(wait_queue_key \<Rightarrow> wait_queue \<Rightarrow> bool) \<Rightarrow> psynch \<Rightarrow> psynch" where
  "erase_queues dead s = s\<lparr>ps_queues := (\<lambda>k. case ps_queues s k of
     None \<Rightarrow> None | Some q \<Rightarrow> if dead k q then None else Some q)\<rparr>"

definition prune_expired_shared_queues :: "(nat \<Rightarrow> bool) \<Rightarrow> psynch \<Rightarrow> psynch" where
  "prune_expired_shared_queues live =
    erase_queues (\<lambda>k q. expired_queue live k \<and> wq_waiters q = [])"

definition prune_queue :: "wait_queue_key \<Rightarrow> psynch \<Rightarrow> psynch" where
  "prune_queue k = erase_queues (\<lambda>k' q. k' = k \<and> wq_waiters q = [] \<and> wq_preposts q = [] \<and>
     wq_rw q = None)"

definition object_key :: "u32 \<Rightarrow> psynch_object \<Rightarrow> queue_family \<Rightarrow> wait_queue_key" where
  "object_key p object family =
    (case po_shared object of
       None \<Rightarrow> \<lparr>wk_shared = False, wk_process = p, wk_address = po_address object,
         wk_family = family, wk_identity = no_identity\<rparr>
     | Some identity \<Rightarrow> \<lparr>wk_shared = True, wk_process = 0, wk_address = 0, wk_family = family,
         wk_identity = identity\<rparr>)"

definition count_operation :: "(nat \<Rightarrow> bool) \<Rightarrow> psynch_object \<Rightarrow> psynch \<Rightarrow> psynch" where
  "count_operation live object s =
    (if po_shared object = None then s
     else
       let s = s\<lparr>ps_operations := ps_operations s + 1\<rparr> in
       if ps_operations s mod 64 = 0 then prune_expired_shared_queues live s else s)"

definition complete_wait :: "waiter \<Rightarrow> u32 \<Rightarrow> psynch \<Rightarrow> psynch" where
  "complete_wait w result s = s\<lparr>ps_completed := (ps_completed s)(wt_thread w \<mapsto> result)\<rparr>"

text \<open>Use one of the preposts a predicate selects, the first that matches.\<close>

definition use_prepost :: "(prepost \<Rightarrow> bool) \<Rightarrow> prepost list \<Rightarrow> prepost list option" where
  "use_prepost p preposts =
    (case List.extract p preposts of
       None \<Rightarrow> None
     | Some (front, found, rest) \<Rightarrow>
         Some (if pp_count found - 1 = 0 then front @ rest
           else front @ found\<lparr>pp_count := pp_count found - 1\<rparr> # rest))"

section \<open>Mutexes\<close>

definition first_fit :: "u32 \<Rightarrow> bool" where
  "first_fit flags \<longleftrightarrow> flags AND first_fit_policy \<noteq> 0"

definition wait_mutex ::
  "(nat \<Rightarrow> bool) \<Rightarrow> psynch_thread \<Rightarrow> psynch_object \<Rightarrow> u32 \<Rightarrow> u32 \<Rightarrow> psynch \<Rightarrow>
   wait_outcome \<times> psynch" where
  "wait_mutex live t object lock_generation flags s =
    (let s = count_operation live object s;
         k = object_key (ps_process t) object Mutex_Queue;
         q = queue_at k s;
         sequence = generation lock_generation in
     case use_prepost (\<lambda>p. pp_kind p = Wait_Mutex \<and> (first_fit flags \<or> pp_sequence p = sequence))
         (wq_preposts q) of
       Some preposts \<Rightarrow>
         (\<lparr>wo_blocked = False, wo_result = sequence OR kernel_bit OR exclusive_bit, wo_woken = []\<rparr>,
          prune_queue k (put_wait_queue k (q\<lparr>wq_preposts := preposts\<rparr>) s))
     | None \<Rightarrow>
         (\<lparr>wo_blocked = True, wo_result = 0, wo_woken = []\<rparr>,
          put_wait_queue k (q\<lparr>wq_waiters := wq_waiters q @
            [\<lparr>wt_thread = t, wt_sequence = sequence, wt_kind = Wait_Mutex\<rparr>]\<rparr>) s))"

definition oldest_waiter :: "waiter list \<Rightarrow> (waiter list \<times> waiter \<times> waiter list) option" where
  "oldest_waiter waiters = (case waiters of [] \<Rightarrow> None | w # rest \<Rightarrow> Some ([], w, rest))"

definition next_owner ::
  "bool \<Rightarrow> u32 \<Rightarrow> waiter list \<Rightarrow> (waiter list \<times> waiter \<times> waiter list) option" where
  "next_owner any next_sequence waiters =
    (if any then oldest_waiter waiters
     else case List.extract (\<lambda>w. wt_kind w = Wait_Mutex \<and> wt_sequence w = next_sequence) waiters of
       Some found \<Rightarrow> Some found
     | None \<Rightarrow> oldest_waiter waiters)"

definition highest_sequence :: "waiter list \<Rightarrow> u32" where
  "highest_sequence waiters = fold max (map wt_sequence waiters) 0"

definition drop_mutex ::
  "(nat \<Rightarrow> bool) \<Rightarrow> u32 \<Rightarrow> psynch_object \<Rightarrow> u32 \<Rightarrow> u32 \<Rightarrow> u32 \<Rightarrow> psynch \<Rightarrow>
   wake_outcome \<times> psynch" where
  "drop_mutex live p object lock_generation unlock_generation flags s =
    (let s = count_operation live object s;
         k = object_key p object Mutex_Queue;
         q = queue_at k s;
         next_sequence = generation (unlock_generation + generation_increment) in
     case next_owner (first_fit flags) next_sequence (wq_waiters q) of
       Some (front, w, rest) \<Rightarrow>
         (\<lparr>ke_result = 0, ke_woken = [wt_thread w]\<rparr>,
          prune_queue k (put_wait_queue k (q\<lparr>wq_waiters := front @ rest\<rparr>)
            (complete_wait w (highest_sequence (wq_waiters q) OR kernel_bit OR exclusive_bit) s)))
     | None \<Rightarrow>
         (\<lparr>ke_result = (if first_fit flags then generation lock_generation OR mutex_prepost_bit else 0),
           ke_woken = []\<rparr>,
          prune_queue k (put_wait_queue k (q\<lparr>wq_preposts := wq_preposts q @
            [\<lparr>pp_sequence = next_sequence, pp_count = 1, pp_kind = Wait_Mutex\<rparr>]\<rparr>) s)))"

section \<open>Condition variables\<close>

definition wait_condition ::
  "(nat \<Rightarrow> bool) \<Rightarrow> psynch_thread \<Rightarrow> psynch_object \<Rightarrow> u64 \<Rightarrow> mutex_drop option \<Rightarrow> u32 \<Rightarrow>
   psynch \<Rightarrow> wait_outcome \<times> psynch" where
  "wait_condition live t object lock_and_signal_generation mutex flags s =
    (let (woken, s) = (case mutex of
           None \<Rightarrow> ([], s)
         | Some d \<Rightarrow>
             let (dropped, s) = drop_mutex live (ps_process t) (md_object d) (md_lock d)
                   (md_unlock d) flags s in
             (ke_woken dropped, s));
         s = count_operation live object s;
         k = object_key (ps_process t) object Condition_Queue;
         q = queue_at k s;
         lock_sequence = generation (ucast lock_and_signal_generation) in
     case use_prepost (\<lambda>p. pp_kind p = Wait_Condition \<and>
         sequence_not_after lock_sequence (pp_sequence p)) (wq_preposts q) of
       Some preposts \<Rightarrow>
         (\<lparr>wo_blocked = False, wo_result = generation_increment, wo_woken = woken\<rparr>,
          prune_queue k (put_wait_queue k (q\<lparr>wq_preposts := preposts\<rparr>) s))
     | None \<Rightarrow>
         (\<lparr>wo_blocked = True, wo_result = 0, wo_woken = woken\<rparr>,
          put_wait_queue k (q\<lparr>wq_waiters := wq_waiters q @
            [\<lparr>wt_thread = t, wt_sequence = lock_sequence, wt_kind = Wait_Condition\<rparr>]\<rparr>) s))"

text \<open>A directed signal that finds its target outside the window wakes any other waiter
  not after the bound.\<close>

definition signalled ::
  "psynch_thread option \<Rightarrow> u32 \<Rightarrow> u32 \<Rightarrow> waiter list \<Rightarrow> (waiter list \<times> waiter \<times> waiter list) option" where
  "signalled target upper_sequence signal_sequence waiters =
    (case List.extract (\<lambda>w. wt_kind w = Wait_Condition \<and>
         (target = None \<or> target = Some (wt_thread w)) \<and>
         sequence_not_after (wt_sequence w) upper_sequence \<and>
         sequence_not_after signal_sequence (wt_sequence w)) waiters of
       Some found \<Rightarrow> Some found
     | None \<Rightarrow>
         if target = None then None
         else List.extract (\<lambda>w. wt_kind w = Wait_Condition \<and>
           sequence_not_after (wt_sequence w) upper_sequence) waiters)"

definition add_prepost :: "u32 \<Rightarrow> prepost list \<Rightarrow> prepost list" where
  "add_prepost sequence preposts =
    (case List.extract (\<lambda>p. pp_kind p = Wait_Condition \<and> pp_sequence p = sequence) preposts of
       None \<Rightarrow> preposts @ [\<lparr>pp_sequence = sequence, pp_count = 1, pp_kind = Wait_Condition\<rparr>]
     | Some (front, found, rest) \<Rightarrow>
         front @ (if pp_count found < - 1 then found\<lparr>pp_count := pp_count found + 1\<rparr> else found) #
           rest)"

definition signal_condition ::
  "(nat \<Rightarrow> bool) \<Rightarrow> u32 \<Rightarrow> psynch_object \<Rightarrow> u64 \<Rightarrow> u32 \<Rightarrow> psynch_thread option \<Rightarrow> psynch \<Rightarrow>
   wake_outcome \<times> psynch" where
  "signal_condition live p object lock_and_signal_generation unlock_generation target s =
    (let s = count_operation live object s;
         k = object_key p object Condition_Queue;
         q = queue_at k s;
         upper_sequence = generation (ucast lock_and_signal_generation);
         signal_sequence = generation (unlock_generation + generation_increment) in
     case signalled target upper_sequence signal_sequence (wq_waiters q) of
       Some (front, w, rest) \<Rightarrow>
         (\<lparr>ke_result = generation_increment, ke_woken = [wt_thread w]\<rparr>,
          prune_queue k (put_wait_queue k (q\<lparr>wq_waiters := front @ rest\<rparr>) (complete_wait w 0 s)))
     | None \<Rightarrow>
         (\<lparr>ke_result = condition_prepost_bit, ke_woken = []\<rparr>,
          prune_queue k (put_wait_queue k
            (q\<lparr>wq_preposts := add_prepost upper_sequence (wq_preposts q)\<rparr>) s)))"

definition broadcast_to :: "u32 \<Rightarrow> waiter \<Rightarrow> bool" where
  "broadcast_to upper_sequence w \<longleftrightarrow>
    wt_kind w = Wait_Condition \<and> sequence_not_after (wt_sequence w) upper_sequence"

definition broadcast_condition ::
  "(nat \<Rightarrow> bool) \<Rightarrow> u32 \<Rightarrow> psynch_object \<Rightarrow> u64 \<Rightarrow> psynch \<Rightarrow> wake_outcome \<times> psynch" where
  "broadcast_condition live p object lock_and_signal_generation s =
    (let s = count_operation live object s;
         k = object_key p object Condition_Queue;
         q = queue_at k s;
         upper_sequence = generation (ucast lock_and_signal_generation);
         chosen = filter (broadcast_to upper_sequence) (wq_waiters q);
         s = fold (\<lambda>w. complete_wait w 0) chosen s;
         q = q\<lparr>wq_waiters := filter (Not \<circ> broadcast_to upper_sequence) (wq_waiters q)\<rparr>;
         woken = map wt_thread chosen;
         result = word_of_nat (length woken) * generation_increment;
         signaled_sequence = generation (ucast (drop_bit 32 lock_and_signal_generation));
         outstanding = generation_count upper_sequence signaled_sequence;
         late = length woken < unat outstanding;
         q = (if late then q\<lparr>wq_preposts := wq_preposts q @ [\<lparr>pp_sequence = upper_sequence,
             pp_count = outstanding - word_of_nat (length woken), pp_kind = Wait_Condition\<rparr>]\<rparr>
           else q) in
     (\<lparr>ke_result = (if late then result OR condition_prepost_bit else result), ke_woken = woken\<rparr>,
      prune_queue k (put_wait_queue k q s)))"

definition clear_preposts ::
  "(nat \<Rightarrow> bool) \<Rightarrow> u32 \<Rightarrow> psynch_object \<Rightarrow> bool \<Rightarrow> psynch \<Rightarrow> psynch" where
  "clear_preposts live p object mutex_object s =
    (let s = count_operation live object s;
         k = object_key p object (if mutex_object then Mutex_Queue else Condition_Queue);
         s = (case ps_queues s k of
             None \<Rightarrow> s | Some q \<Rightarrow> put_wait_queue k (q\<lparr>wq_preposts := []\<rparr>) s) in
     prune_queue k s)"

section \<open>Read-write locks\<close>

fun insert_rw_waiter :: "waiter \<Rightarrow> waiter list \<Rightarrow> waiter list" where
  "insert_rw_waiter w [] = [w]"
| "insert_rw_waiter w (candidate # rest) =
    (if wt_sequence w \<noteq> wt_sequence candidate \<and>
        sequence_not_after (wt_sequence w) (wt_sequence candidate)
     then w # candidate # rest else candidate # insert_rw_waiter w rest)"

definition writer_among :: "waiter list \<Rightarrow> bool" where
  "writer_among waiters \<longleftrightarrow> list_ex (\<lambda>w. wt_kind w = Wait_Write) waiters"

text \<open>What an unlock grants: the threads, the word each of them gets, who keeps waiting, and
  whether readers may overlap it.\<close>

record rw_grant =
  gr_granted :: "waiter list"
  gr_result :: u32
  gr_waiters :: "waiter list"
  gr_overlap :: bool

definition grant_of :: "waiter \<Rightarrow> waiter list \<Rightarrow> rw_grant" where
  "grant_of first rest =
    (if wt_kind first = Wait_Write
     then \<lparr>gr_granted = [first],
       gr_result = generation_increment OR kernel_bit OR exclusive_bit OR
         (if writer_among rest then write_waiter_bit else 0),
       gr_waiters = rest, gr_overlap = False\<rparr>
     else
       let readers = takeWhile (\<lambda>w. wt_kind w = Wait_Read) (first # rest);
           waiting = dropWhile (\<lambda>w. wt_kind w = Wait_Read) (first # rest) in
       \<lparr>gr_granted = readers,
        gr_result = (word_of_nat (length readers) * generation_increment) OR
          (if writer_among waiting then kernel_bit OR write_waiter_bit else 0),
        gr_waiters = waiting, gr_overlap = \<not> writer_among waiting\<rparr>)"

definition grant_rwlock ::
  "wait_queue_key \<Rightarrow> wait_queue \<Rightarrow> rw_state \<Rightarrow> u32 \<Rightarrow> psynch \<Rightarrow> wake_outcome \<times> psynch" where
  "grant_rwlock k q rw sequence_word s =
    (let rw = rw\<lparr>rw_last := sequence_word, rw_last_unlock := generation sequence_word,
           rw_has_last := True, rw_overlap := False\<rparr> in
     case wq_waiters q of
       [] \<Rightarrow> (\<lparr>ke_result = 0, ke_woken = []\<rparr>,
         put_wait_queue k (q\<lparr>wq_rw := Some (rw\<lparr>rw_next := sequence_word\<rparr>)\<rparr>) s)
     | first # rest \<Rightarrow>
         let g = grant_of first rest;
             rw = rw\<lparr>rw_next := generation sequence_word + gr_result g,
               rw_overlap := gr_overlap g\<rparr> in
         (\<lparr>ke_result = 0, ke_woken = map wt_thread (gr_granted g)\<rparr>,
          put_wait_queue k (q\<lparr>wq_waiters := gr_waiters g, wq_rw := Some rw\<rparr>)
            (fold (\<lambda>w. complete_wait w (gr_result g)) (gr_granted g) s)))"

definition overlapping_read :: "wait_kind \<Rightarrow> u32 \<Rightarrow> u32 \<Rightarrow> rw_state \<Rightarrow> bool" where
  "overlapping_read kind lock_generation sequence_word rw \<longleftrightarrow>
    kind = Wait_Read \<and> rw_overlap rw \<and> sequence_word AND sequence_save_mask = 0 \<and>
    lock_generation AND write_waiter_bit = 0 \<and>
    (sequence_not_after (generation sequence_word) (generation (rw_next rw)) \<or>
     sequence_not_after (generation sequence_word) (generation (rw_last rw)))"

definition wait_rwlock ::
  "(nat \<Rightarrow> bool) \<Rightarrow> psynch_thread \<Rightarrow> psynch_object \<Rightarrow> u32 \<Rightarrow> u32 \<Rightarrow> wait_kind \<Rightarrow> psynch \<Rightarrow>
   wait_outcome \<times> psynch" where
  "wait_rwlock live t object lock_generation sequence_word kind s =
    (let s = count_operation live object s;
         k = object_key (ps_process t) object Rw_Queue;
         q = queue_at k s;
         rw = (case wq_rw q of None \<Rightarrow> new_rw_state | Some rw \<Rightarrow> rw);
         lock_sequence = generation lock_generation;
         blocked = \<lparr>wo_blocked = True, wo_result = 0, wo_woken = []\<rparr> in
     if overlapping_read kind lock_generation sequence_word rw
     then
       let rw = rw\<lparr>rw_next := rw_next rw + generation_increment\<rparr> in
       (\<lparr>wo_blocked = False, wo_result = generation_increment OR
           (rw_next rw AND NOT generation_mask) OR overlap_bit, wo_woken = []\<rparr>,
        put_wait_queue k (q\<lparr>wq_rw := Some rw\<rparr>) s)
     else
       let q = q\<lparr>wq_waiters := insert_rw_waiter
             \<lparr>wt_thread = t, wt_sequence = lock_sequence, wt_kind = kind\<rparr> (wq_waiters q)\<rparr> in
       if rw_prepost_count rw = 0 \<or> \<not> sequence_not_after lock_sequence (rw_prepost_lock rw)
       then (blocked, put_wait_queue k (q\<lparr>wq_rw := Some rw\<rparr>) s)
       else
         let rw = rw\<lparr>rw_prepost_count := rw_prepost_count rw - 1\<rparr> in
         if rw_prepost_count rw \<noteq> 0 then (blocked, put_wait_queue k (q\<lparr>wq_rw := Some rw\<rparr>) s)
         else
           let (granted, s) = grant_rwlock k q (rw\<lparr>rw_prepost_lock := 0, rw_prepost_word := 1\<rparr>)
                 (rw_prepost_word rw) s in
           case ps_completed s t of
             Some result \<Rightarrow>
               (\<lparr>wo_blocked = False, wo_result = result, wo_woken = removeAll t (ke_woken granted)\<rparr>,
                s\<lparr>ps_completed := (ps_completed s)(t := None)\<rparr>)
           | None \<Rightarrow> (blocked\<lparr>wo_woken := ke_woken granted\<rparr>, s))"

definition unlock_rwlock ::
  "(nat \<Rightarrow> bool) \<Rightarrow> u32 \<Rightarrow> psynch_object \<Rightarrow> u32 \<Rightarrow> u32 \<Rightarrow> u32 \<Rightarrow> psynch \<Rightarrow>
   wake_outcome \<times> psynch" where
  "unlock_rwlock live p object lock_generation unlock_generation sequence_word s =
    (let s = count_operation live object s;
         k = object_key p object Rw_Queue;
         q = queue_at k s;
         rw = (case wq_rw q of None \<Rightarrow> new_rw_state | Some rw \<Rightarrow> rw);
         lock_sequence = generation lock_generation;
         unlock_sequence = generation unlock_generation in
     if rw_has_last rw \<and> \<not> sequence_not_after (rw_last_unlock rw) unlock_sequence
     then (\<lparr>ke_result = 0, ke_woken = []\<rparr>, put_wait_queue k (q\<lparr>wq_rw := Some rw\<rparr>) s)
     else
       let expected = generation_count lock_sequence unlock_sequence;
           queued = word_of_nat (length (filter
             (\<lambda>w. sequence_not_after (wt_sequence w) lock_sequence) (wq_waiters q))) in
       if queued < expected
       then (\<lparr>ke_result = lock_generation, ke_woken = []\<rparr>,
         put_wait_queue k (q\<lparr>wq_rw := Some (rw\<lparr>rw_prepost_count := expected - queued,
           rw_prepost_lock := lock_sequence, rw_prepost_word := sequence_word\<rparr>)\<rparr>) s)
       else grant_rwlock k q (rw\<lparr>rw_prepost_count := 0, rw_prepost_lock := 0,
         rw_prepost_word := 1\<rparr>) sequence_word s)"

section \<open>Ends of waits\<close>

definition take_result :: "psynch_thread \<Rightarrow> psynch \<Rightarrow> u32 option \<times> psynch" where
  "take_result t s = (ps_completed s t, s\<lparr>ps_completed := (ps_completed s)(t := None)\<rparr>)"

definition drop_waiters :: "(waiter \<Rightarrow> bool) \<Rightarrow> psynch \<Rightarrow> psynch" where
  "drop_waiters gone s = s\<lparr>ps_queues := (\<lambda>k. map_option
     (\<lambda>q. q\<lparr>wq_waiters := filter (Not \<circ> gone) (wq_waiters q)\<rparr>) (ps_queues s k))\<rparr>"

definition abandoned :: "(nat \<Rightarrow> bool) \<Rightarrow> wait_queue_key \<Rightarrow> wait_queue \<Rightarrow> bool" where
  "abandoned live k q \<longleftrightarrow> wq_waiters q = [] \<and>
    ((wq_preposts q = [] \<and> wq_rw q = None) \<or> expired_queue live k)"

definition cancel_wait :: "(nat \<Rightarrow> bool) \<Rightarrow> psynch_thread \<Rightarrow> psynch \<Rightarrow> psynch" where
  "cancel_wait live t s =
    erase_queues (abandoned live) (drop_waiters (\<lambda>w. wt_thread w = t)
      (s\<lparr>ps_completed := (ps_completed s)(t := None)\<rparr>))"

definition clear_process :: "(nat \<Rightarrow> bool) \<Rightarrow> u32 \<Rightarrow> psynch \<Rightarrow> psynch" where
  "clear_process live p s =
    erase_queues (\<lambda>k q. (\<not> wk_shared k \<and> wk_process k = p) \<or> abandoned live k q)
      (drop_waiters (\<lambda>w. ps_process (wt_thread w) = p)
        (s\<lparr>ps_completed := (\<lambda>t. if ps_process t = p then None else ps_completed s t)\<rparr>))"

end
