(* ===== verification/Psynch_Waits.thy ===== *)
theory Psynch_Waits
  imports Psynch "HOL-Library.Multiset"
begin

text \<open>
  The waits of guest threads on psynch objects: which threads wait where, the contract of the
  calls that wake threads, and that no call loses a wait.
\<close>

section \<open>Who waits\<close>

definition waiters_at :: "wait_queue_key \<Rightarrow> psynch \<Rightarrow> waiter list" where
  "waiters_at k s = wq_waiters (queue_at k s)"

definition waits :: "psynch_thread \<Rightarrow> wait_queue_key \<Rightarrow> psynch \<Rightarrow> bool" where
  "waits t k s \<longleftrightarrow> t \<in> wt_thread ` set (waiters_at k s)"

definition idle :: "psynch_thread \<Rightarrow> psynch \<Rightarrow> bool" where
  "idle t s \<longleftrightarrow> (\<forall>k. \<not> waits t k s) \<and> ps_completed s t = None"

lemma put_simps [simp]:
  "queue_at k (put_wait_queue k' q s) = (if k = k' then q else queue_at k s)"
  "waiters_at k (put_wait_queue k' q s) = (if k = k' then wq_waiters q else waiters_at k s)"
  "ps_completed (put_wait_queue k' q s) = ps_completed s"
  by (simp_all add: queue_at_def put_wait_queue_def waiters_at_def)

lemma erase_simps [simp]:
  "ps_completed (erase_queues dead s) = ps_completed s"
  by (simp add: erase_queues_def)

lemma erase_waiters:
  assumes "\<And>q. ps_queues s k = Some q \<Longrightarrow> dead k q \<Longrightarrow> wq_waiters q = []"
  shows "waiters_at k (erase_queues dead s) = waiters_at k s"
  using assms by (auto simp: waiters_at_def queue_at_def erase_queues_def empty_wait_queue_def
    split: option.splits)

lemma prune_simps [simp]:
  "waiters_at k (prune_queue k' s) = waiters_at k s"
  "ps_completed (prune_queue k' s) = ps_completed s"
  by (auto simp: prune_queue_def intro: erase_waiters)

lemma count_simps [simp]:
  "waiters_at k (count_operation live object s) = waiters_at k s"
  "ps_completed (count_operation live object s) = ps_completed s"
proof -
  have "waiters_at k (s\<lparr>ps_operations := n\<rparr>) = waiters_at k s" for n
    by (simp add: waiters_at_def queue_at_def)
  then show "waiters_at k (count_operation live object s) = waiters_at k s"
    by (auto simp: count_operation_def prune_expired_shared_queues_def Let_def
      intro!: erase_waiters [THEN trans])
  show "ps_completed (count_operation live object s) = ps_completed s"
    by (simp add: count_operation_def prune_expired_shared_queues_def Let_def)
qed

lemma complete_simps [simp]:
  "queue_at k (complete_wait w r s) = queue_at k s"
  "waiters_at k (complete_wait w r s) = waiters_at k s"
  "ps_completed (complete_wait w r s) = (ps_completed s)(wt_thread w \<mapsto> r)"
  by (simp_all add: complete_wait_def queue_at_def waiters_at_def)

lemma complete_all [simp]:
  "queue_at k (fold (\<lambda>w. complete_wait w r) ws s) = queue_at k s"
  "waiters_at k (fold (\<lambda>w. complete_wait w r) ws s) = waiters_at k s"
  "ps_completed (fold (\<lambda>w. complete_wait w r) ws s) t =
    (if t \<in> wt_thread ` set ws then Some r else ps_completed s t)"
  by (induction ws arbitrary: s) (auto simp: waiters_at_def)

lemma waiters_queue_at: "wq_waiters (queue_at k s) = waiters_at k s"
  by (simp add: waiters_at_def)

section \<open>The contract of a wakeup\<close>

definition wakes :: "psynch_thread list \<Rightarrow> psynch \<Rightarrow> psynch \<Rightarrow> bool" where
  "wakes woken s s' \<longleftrightarrow>
    (\<exists>k gone rest. (\<forall>k'. waiters_at k' s' = (if k' = k then rest else waiters_at k' s)) \<and>
      mset (waiters_at k s) = mset gone + mset rest \<and> map wt_thread gone = woken) \<and>
    (\<forall>t. t \<notin> set woken \<longrightarrow> ps_completed s' t = ps_completed s t) \<and>
    (\<forall>t\<in>set woken. ps_completed s' t \<noteq> None)"

text \<open>The waiters a queue is for: of its kind and, unless it is shared, of its process.\<close>

fun kind_fits :: "queue_family \<Rightarrow> wait_kind \<Rightarrow> bool" where
  "kind_fits Mutex_Queue kind \<longleftrightarrow> kind = Wait_Mutex"
| "kind_fits Condition_Queue kind \<longleftrightarrow> kind = Wait_Condition"
| "kind_fits Rw_Queue kind \<longleftrightarrow> kind = Wait_Read \<or> kind = Wait_Write"

definition belongs :: "waiter \<Rightarrow> wait_queue_key \<Rightarrow> bool" where
  "belongs w k \<longleftrightarrow> kind_fits (wk_family k) (wt_kind w) \<and>
    (\<not> wk_shared k \<longrightarrow> wk_process k = ps_process (wt_thread w))"

definition enters :: "waiter \<Rightarrow> psynch \<Rightarrow> psynch \<Rightarrow> bool" where
  "enters w s s' \<longleftrightarrow>
    (\<exists>k joined. (\<forall>k'. waiters_at k' s' = (if k' = k then joined else waiters_at k' s)) \<and>
      mset joined = add_mset w (mset (waiters_at k s)) \<and> belongs w k) \<and>
    ps_completed s' = ps_completed s"

definition waits_ok :: "psynch \<Rightarrow> bool" where
  "waits_ok s \<longleftrightarrow>
    (\<forall>k. distinct (map wt_thread (waiters_at k s))) \<and>
    (\<forall>t k k'. waits t k s \<longrightarrow> waits t k' s \<longrightarrow> k = k') \<and>
    (\<forall>t k. waits t k s \<longrightarrow> ps_completed s t = None) \<and>
    (\<forall>k. \<forall>w\<in>set (waiters_at k s). belongs w k)"

text \<open>No wait is lost: a waiting thread either gets its result or keeps its place.\<close>

definition none_lost :: "psynch_thread list \<Rightarrow> psynch \<Rightarrow> psynch \<Rightarrow> bool" where
  "none_lost woken s s' \<longleftrightarrow>
    distinct woken \<and> (\<forall>t\<in>set woken. \<exists>k. waits t k s) \<and>
    (\<forall>k. \<forall>w\<in>set (waiters_at k s).
      if wt_thread w \<in> set woken
      then (\<forall>k'. \<not> waits (wt_thread w) k' s') \<and> ps_completed s' (wt_thread w) \<noteq> None
      else w \<in> set (waiters_at k s') \<and> ps_completed s' (wt_thread w) = None)"

lemma same_waits:
  assumes "\<And>k. waiters_at k s' = waiters_at k s" "ps_completed s' = ps_completed s"
  shows "waits_ok s' = waits_ok s" "wakes [] s s'" "wakes woken s0 s' = wakes woken s0 s"
    "none_lost woken s0 s' = none_lost woken s0 s"
  using assms by (simp_all add: waits_ok_def wakes_def waits_def none_lost_def)

lemma wakes_refl: "wakes [] s s" by (rule same_waits) simp_all

lemma wakes_ok:
  assumes ok: "waits_ok s" and "wakes woken s s'"
  shows "waits_ok s'" "none_lost woken s s'" "idle t s \<Longrightarrow> idle t s' \<and> t \<notin> set woken"
proof -
  obtain k gone rest where at: "\<And>k'. waiters_at k' s' = (if k' = k then rest else waiters_at k' s)"
    and split: "mset (waiters_at k s) = mset gone + mset rest" and woken: "map wt_thread gone = woken"
    and kept: "\<And>t. t \<notin> set woken \<Longrightarrow> ps_completed s' t = ps_completed s t"
    and got: "\<And>t. t \<in> set woken \<Longrightarrow> ps_completed s' t \<noteq> None"
    using assms(2) by (auto simp: wakes_def)
  have sets: "set (waiters_at k s) = set gone \<union> set rest"
    using arg_cong [OF split, of set_mset] by simp
  have "mset (map wt_thread (waiters_at k s)) = mset (map wt_thread (gone @ rest))"
    using arg_cong [OF split, of "image_mset wt_thread"] by simp
  then have dist: "distinct (map wt_thread (gone @ rest))"
    using ok unfolding waits_ok_def by (metis mset_eq_imp_distinct_iff)
  then have apart: "t \<notin> wt_thread ` set rest" if "t \<in> set woken" for t
    using that woken by auto
  have waits: "waits t k' s' \<longleftrightarrow> waits t k' s \<and> t \<notin> set woken" for t k'
  proof (cases "k' = k")
    case True
    then show ?thesis using sets woken apart by (auto simp: waits_def at)
  next
    case False
    have "t \<notin> set woken" if "waits t k' s"
    proof
      assume "t \<in> set woken"
      then have "waits t k s" using woken sets by (auto simp: waits_def)
      with that ok have "k' = k" unfolding waits_ok_def by blast
      with False show False by simp
    qed
    then show ?thesis using False by (auto simp: waits_def at)
  qed
  show "waits_ok s'"
    using ok dist kept sets by (auto simp: waits_ok_def waits at)
  have w: "\<exists>k. waits t k s" if "t \<in> set woken" for t
  proof -
    have "t \<in> wt_thread ` set gone" using that woken by auto
    then show ?thesis using sets by (auto simp: waits_def)
  qed
  show "none_lost woken s s'"
    unfolding none_lost_def
  proof (intro conjI allI ballI)
    show "distinct woken" using dist woken by simp
    show "\<exists>k. waits t k s" if "t \<in> set woken" for t using w that .
  next
    fix k' v assume v: "v \<in> set (waiters_at k' s)"
    then have vw: "waits (wt_thread v) k' s" by (simp add: waits_def)
    show "if wt_thread v \<in> set woken
      then (\<forall>k'. \<not> waits (wt_thread v) k' s') \<and> ps_completed s' (wt_thread v) \<noteq> None
      else v \<in> set (waiters_at k' s') \<and> ps_completed s' (wt_thread v) = None"
    proof (cases "wt_thread v \<in> set woken")
      case True
      then show ?thesis using got by (simp add: waits)
    next
      case False
      have "v \<in> set (waiters_at k' s')" using v False sets woken by (auto simp: at)
      moreover have "ps_completed s (wt_thread v) = None" using vw ok unfolding waits_ok_def by blast
      ultimately show ?thesis using False kept by simp
    qed
  qed
  show "idle t s' \<and> t \<notin> set woken" if "idle t s"
  proof -
    have "t \<notin> set woken" using that w unfolding idle_def by blast
    with that kept show ?thesis by (simp add: idle_def waits)
  qed
qed

lemma enters_ok:
  assumes ok: "waits_ok s" and e: "enters w s s'" and idle: "idle (wt_thread w) s"
  shows "waits_ok s'" "\<And>t. t \<noteq> wt_thread w \<Longrightarrow> waits t k s' = waits t k s"
    "set (waiters_at k s) \<subseteq> set (waiters_at k s')" "ps_completed s' = ps_completed s"
proof -
  obtain l joined where at: "\<And>k'. waiters_at k' s' = (if k' = l then joined else waiters_at k' s)"
    and joined: "mset joined = add_mset w (mset (waiters_at l s))" and fits: "belongs w l" and same: "ps_completed s' = ps_completed s"
    using e by (auto simp: enters_def)
  have sets: "set joined = insert w (set (waiters_at l s))"
    using arg_cong [OF joined, of set_mset] by simp
  have waits: "waits t k s' \<longleftrightarrow> waits t k s \<or> (t = wt_thread w \<and> k = l)" for t k
    by (auto simp: waits_def at sets)
  have new: "\<not> waits (wt_thread w) k s" for k using idle by (simp add: idle_def)
  have "mset (map wt_thread joined) = mset (wt_thread w # map wt_thread (waiters_at l s))"
    using arg_cong [OF joined, of "image_mset wt_thread"] by simp
  moreover have "distinct (wt_thread w # map wt_thread (waiters_at l s))"
    using ok new [of l] by (simp add: waits_ok_def waits_def)
  ultimately have "distinct (map wt_thread joined)" by (metis mset_eq_imp_distinct_iff)
  then show "waits_ok s'"
    using ok new idle fits unfolding waits_ok_def waits by (auto simp: at same idle_def sets)
  show "t \<noteq> wt_thread w \<Longrightarrow> waits t k s' = waits t k s" for t by (simp add: waits)
  show "set (waiters_at k s) \<subseteq> set (waiters_at k s')" by (simp add: at sets subset_insertI)
  show "ps_completed s' = ps_completed s" by (rule same)
qed

text \<open>The three shapes of a wait: a thread enters a queue, possibly after it woke others, or it
  enters and a wakeup follows in which it may get its own result at once.\<close>

lemma wake_then_enter:
  assumes ok: "waits_ok s" and idle: "idle (wt_thread w) s" and w: "wakes woken s s1" and e: "enters w s1 s2"
  shows "waits_ok s2" "none_lost woken s s2"
proof -
  note woke = wakes_ok [OF ok w]
  note entered = enters_ok [OF woke(1) e]
  have i: "idle (wt_thread w) s1" "wt_thread w \<notin> set woken" using woke(3) [OF idle] by simp_all
  show "waits_ok s2" using entered(1) [OF i(1)] .
  have "waits t k s2 = waits t k s1" if "t \<in> set woken" for t k
    using entered(2) [OF i(1)] that i(2) by metis
  moreover have "v \<in> set (waiters_at k s2)" if "v \<in> set (waiters_at k s1)" for v k
    using entered(3) [OF i(1)] that by blast
  ultimately show "none_lost woken s s2"
    using woke(2) unfolding none_lost_def entered(4) [OF i(1)] by (auto split: if_splits)
qed

lemma enter_then_wake:
  assumes ok: "waits_ok s" and idle: "idle (wt_thread w) s" and e: "enters w s s1" and w: "wakes woken s1 s2"
  shows "waits_ok s2" "none_lost (removeAll (wt_thread w) woken) s s2"
    "wt_thread w \<in> set woken \<Longrightarrow> waits_ok (s2\<lparr>ps_completed := (ps_completed s2)(wt_thread w := None)\<rparr>) \<and>
      none_lost (removeAll (wt_thread w) woken) s
        (s2\<lparr>ps_completed := (ps_completed s2)(wt_thread w := None)\<rparr>)"
    "ps_completed s2 (wt_thread w) = None \<Longrightarrow> wt_thread w \<notin> set woken"
proof -
  let ?t = "wt_thread w"
  note entered = enters_ok [OF ok e idle]
  note woke = wakes_ok [OF entered(1) w]
  show ok2: "waits_ok s2" by (rule woke(1))
  have other: "wt_thread v \<noteq> ?t" if "v \<in> set (waiters_at k s)" for v k
  proof -
    have "waits (wt_thread v) k s" using that by (simp add: waits_def)
    with idle show ?thesis unfolding idle_def by metis
  qed
  show lost: "none_lost (removeAll ?t woken) s s2"
    unfolding none_lost_def
  proof (intro conjI ballI allI)
    show "distinct (removeAll ?t woken)" using woke(2) by (simp add: none_lost_def distinct_removeAll)
    show "\<exists>k. waits t k s" if "t \<in> set (removeAll ?t woken)" for t
    proof -
      have "t \<noteq> ?t" "t \<in> set woken" using that by auto
      moreover obtain k where "waits t k s1" using woke(2) \<open>t \<in> set woken\<close> by (auto simp: none_lost_def)
      ultimately show ?thesis using entered(2) by metis
    qed
  next
    fix k v assume v: "v \<in> set (waiters_at k s)"
    then have "v \<in> set (waiters_at k s1)" using entered(3) by blast
    with woke(2) have "if wt_thread v \<in> set woken
      then (\<forall>k'. \<not> waits (wt_thread v) k' s2) \<and> ps_completed s2 (wt_thread v) \<noteq> None
      else v \<in> set (waiters_at k s2) \<and> ps_completed s2 (wt_thread v) = None"
      unfolding none_lost_def by blast
    then show "if wt_thread v \<in> set (removeAll ?t woken)
      then (\<forall>k'. \<not> waits (wt_thread v) k' s2) \<and> ps_completed s2 (wt_thread v) \<noteq> None
      else v \<in> set (waiters_at k s2) \<and> ps_completed s2 (wt_thread v) = None"
      using other [OF v] by (simp split: if_splits)
  qed
  show "waits_ok (s2\<lparr>ps_completed := (ps_completed s2)(?t := None)\<rparr>) \<and>
      none_lost (removeAll ?t woken) s (s2\<lparr>ps_completed := (ps_completed s2)(?t := None)\<rparr>)"
    if "?t \<in> set woken"
  proof -
    let ?s = "s2\<lparr>ps_completed := (ps_completed s2)(?t := None)\<rparr>"
    have at: "waiters_at k ?s = waiters_at k s2" for k by (simp add: waiters_at_def queue_at_def)
    then have ws: "waits t k ?s = waits t k s2" for t k by (simp add: waits_def)
    have "waits_ok ?s" using ok2 unfolding waits_ok_def at ws by simp
    moreover have "none_lost (removeAll ?t woken) s ?s"
      using lost other unfolding none_lost_def at ws by (auto split: if_splits)
    ultimately show ?thesis ..
  qed
  show "?t \<notin> set woken" if "ps_completed s2 ?t = None" using w that by (auto simp: wakes_def)
qed

end
