(* ===== verification/Psynch_Calls.thy ===== *)
theory Psynch_Calls
  imports Psynch_Waits
begin

text \<open>
  Every call of the psynch runtime meets the contract of Psynch_Waits, the step relation of
  its calls, and the properties of waits and of the conservation of mutex grants.
\<close>

section \<open>Calls that wake\<close>

lemma wakesI:
  assumes "\<And>k'. waiters_at k' s' = (if k' = k then rest else waiters_at k' s)"
    and "mset (waiters_at k s) = mset gone + mset rest"
    and "\<And>t. ps_completed s' t = (if t \<in> wt_thread ` set gone then Some r else ps_completed s t)"
  shows "wakes (map wt_thread gone) s s'"
  unfolding wakes_def
proof (intro conjI exI)
  show "\<forall>k'. waiters_at k' s' = (if k' = k then rest else waiters_at k' s)" using assms(1) by simp
  show "mset (waiters_at k s) = mset gone + mset rest" by (rule assms(2))
qed (simp_all add: assms(3))

lemma wakes_one:
  assumes "waiters_at k s = front @ w # rest"
    and "\<And>k'. waiters_at k' s' = (if k' = k then front @ rest else waiters_at k' s)"
    and "ps_completed s' = (ps_completed s)(wt_thread w \<mapsto> r)"
  shows "wakes [wt_thread w] s s'"
proof -
  have "wakes (map wt_thread [w]) s s'"
    by (rule wakesI [where k = k and rest = "front @ rest" and r = r]) (simp_all add: assms)
  then show ?thesis by simp
qed

lemma wakes_from:
  assumes "\<And>k. waiters_at k s1 = waiters_at k s" "ps_completed s1 = ps_completed s"
  shows "wakes woken s1 s' = wakes woken s s'"
  using assms by (simp add: wakes_def)

locale waker =
  fixes act :: "psynch \<Rightarrow> wake_outcome \<times> psynch"
  assumes wakes: "act s = (out, s') \<Longrightarrow> wakes (ke_woken out) s s'"
begin

lemma keeps: "waits_ok s \<Longrightarrow> act s = (out, s') \<Longrightarrow> waits_ok s' \<and> none_lost (ke_woken out) s s'"
  using wakes_ok wakes by blast

lemma spares:
  "waits_ok s \<Longrightarrow> act s = (out, s') \<Longrightarrow> idle t s \<Longrightarrow> idle t s' \<and> t \<notin> set (ke_woken out)"
  using wakes_ok(3) wakes by blast

end

lemma extract_split:
  "List.extract p xs = Some (front, x, rest) \<Longrightarrow> xs = front @ x # rest \<and> p x"
  by (simp add: extract_Some_iff)

lemma oldest_waiter_split: "oldest_waiter ws = Some (front, w, rest) \<Longrightarrow> ws = front @ w # rest"
  by (cases ws) (simp_all add: oldest_waiter_def)

lemma next_owner_split:
  assumes "next_owner any next_sequence ws = Some (front, w, rest)"
  shows "ws = front @ w # rest"
  using assms
  by (auto simp: next_owner_def split: if_splits option.splits dest: oldest_waiter_split extract_split)

lemma signalled_split:
  assumes "signalled target upper lower ws = Some (front, w, rest)"
  shows "ws = front @ w # rest"
  using assms by (auto simp: signalled_def split: if_splits option.splits dest: extract_split)

interpretation mutex_drop: waker "drop_mutex live p object lock unlock flags"
  for live p object lock unlock flags
proof
  fix s out s'
  let ?k = "object_key p object Mutex_Queue" and ?s = "count_operation live object s"
  assume act: "drop_mutex live p object lock unlock flags s = (out, s')"
  show "wakes (ke_woken out) s s'"
  proof (cases "next_owner (first_fit flags) (generation (unlock + generation_increment)) (wq_waiters (queue_at ?k ?s))")
    case None
    then have "ke_woken out = []" "\<And>k. waiters_at k s' = waiters_at k s" "ps_completed s' = ps_completed s"
      using act by (auto simp: drop_mutex_def Let_def waiters_queue_at)
    then show ?thesis by (simp add: same_waits(2))
  next
    case (Some found)
    obtain front w rest where found: "found = (front, w, rest)" by (cases found)
    have "waiters_at ?k s = front @ w # rest"
      using next_owner_split [of _ _ _ front w rest] Some by (simp add: found waiters_queue_at)
    moreover have "ke_woken out = [wt_thread w]"
      "\<And>k'. waiters_at k' s' = (if k' = ?k then front @ rest else waiters_at k' s)"
      "ps_completed s' = (ps_completed s)(wt_thread w \<mapsto>
        highest_sequence (wq_waiters (queue_at ?k ?s)) OR kernel_bit OR exclusive_bit)"
      using act Some by (auto simp: drop_mutex_def Let_def found)
    ultimately show ?thesis by (simp add: wakes_one)
  qed
qed

interpretation condition_signal: waker "signal_condition live p object generations unlock target"
  for live p object generations unlock target
proof
  fix s out s'
  let ?k = "object_key p object Condition_Queue" and ?s = "count_operation live object s"
  assume act: "signal_condition live p object generations unlock target s = (out, s')"
  show "wakes (ke_woken out) s s'"
  proof (cases "signalled target (generation (ucast generations)) (generation (unlock + generation_increment))
      (wq_waiters (queue_at ?k ?s))")
    case None
    then have "ke_woken out = []" "\<And>k. waiters_at k s' = waiters_at k s" "ps_completed s' = ps_completed s"
      using act by (auto simp: signal_condition_def Let_def waiters_queue_at)
    then show ?thesis by (simp add: same_waits(2))
  next
    case (Some found)
    obtain front w rest where found: "found = (front, w, rest)" by (cases found)
    have "waiters_at ?k s = front @ w # rest"
      using signalled_split [of _ _ _ _ front w rest] Some by (simp add: found waiters_queue_at)
    moreover have "ke_woken out = [wt_thread w]"
      "\<And>k'. waiters_at k' s' = (if k' = ?k then front @ rest else waiters_at k' s)"
      "ps_completed s' = (ps_completed s)(wt_thread w \<mapsto> 0)"
      using act Some by (auto simp: signal_condition_def Let_def found)
    ultimately show ?thesis by (simp add: wakes_one)
  qed
qed

lemma broadcast_effect:
  assumes "broadcast_condition live p object generations s = (out, s')"
  defines "k \<equiv> object_key p object Condition_Queue"
    and "chosen \<equiv> broadcast_to (generation (ucast generations))"
  shows "ke_woken out = map wt_thread (filter chosen (waiters_at k s))"
    "waiters_at k' s' = (if k' = k then filter (Not \<circ> chosen) (waiters_at k s) else waiters_at k' s)"
    "ps_completed s' t = (if t \<in> wt_thread ` set (filter chosen (waiters_at k s)) then Some 0
      else ps_completed s t)"
  using assms(1) unfolding k_def chosen_def
  by (auto simp: broadcast_condition_def Let_def waiters_queue_at)

interpretation condition_broadcast: waker "broadcast_condition live p object generations"
  for live p object generations
proof
  fix s out s'
  assume act: "broadcast_condition live p object generations s = (out, s')"
  let ?k = "object_key p object Condition_Queue" and ?c = "broadcast_to (generation (ucast generations))"
  note effect = broadcast_effect [OF act]
  have "mset (waiters_at ?k s) = mset (filter ?c (waiters_at ?k s)) + mset (filter (Not \<circ> ?c) (waiters_at ?k s))"
    by (simp add: comp_def)
  from wakesI [OF effect(2) this effect(3)] show "wakes (ke_woken out) s s'" by (simp add: effect(1))
qed

section \<open>Read-write locks\<close>

lemma grant_of_split: "first # rest = gr_granted (grant_of first rest) @ gr_waiters (grant_of first rest)"
  by (simp add: grant_of_def Let_def)

lemma grant_wakes:
  assumes "grant_rwlock k q rw word s = (out, s')"
  shows "wakes (ke_woken out) (put_wait_queue k q s) s'"
proof (cases "wq_waiters q")
  case Nil
  then have "ke_woken out = []" "\<And>k'. waiters_at k' s' = waiters_at k' (put_wait_queue k q s)"
    "ps_completed s' = ps_completed (put_wait_queue k q s)"
    using assms by (auto simp: grant_rwlock_def)
  then show ?thesis by (simp add: same_waits(2))
next
  case (Cons first rest)
  let ?g = "grant_of first rest"
  have out: "ke_woken out = map wt_thread (gr_granted ?g)"
    and at: "\<And>k'. waiters_at k' s' = (if k' = k then gr_waiters ?g else waiters_at k' (put_wait_queue k q s))"
    and result: "\<And>t. ps_completed s' t = (if t \<in> wt_thread ` set (gr_granted ?g) then Some (gr_result ?g)
      else ps_completed (put_wait_queue k q s) t)"
    using assms Cons by (auto simp: grant_rwlock_def Let_def)
  have "mset (waiters_at k (put_wait_queue k q s)) = mset (gr_granted ?g) + mset (gr_waiters ?g)"
    using arg_cong [OF grant_of_split [of first rest], of mset] Cons by simp
  from wakesI [OF at this result] show ?thesis by (simp add: out)
qed

interpretation rw_unlock: waker "unlock_rwlock live p object lock unlock word" for live p object lock unlock word
proof
  fix s out s'
  let ?k = "object_key p object Rw_Queue" and ?s = "count_operation live object s"
  let ?rw = "case wq_rw (queue_at ?k ?s) of None \<Rightarrow> new_rw_state | Some rw \<Rightarrow> rw"
  assume act: "unlock_rwlock live p object lock unlock word s = (out, s')"
  have unchanged: "wakes (ke_woken out) s s'"
    if "ke_woken out = []" "s' = put_wait_queue ?k (queue_at ?k ?s\<lparr>wq_rw := rw\<rparr>) ?s" for rw
    unfolding that by (rule same_waits(2)) (simp_all add: waiters_queue_at)
  consider (stale) "ke_woken out = []" "\<exists>rw. s' = put_wait_queue ?k (queue_at ?k ?s\<lparr>wq_rw := rw\<rparr>) ?s"
    | (grant) rw where "grant_rwlock ?k (queue_at ?k ?s) rw word ?s = (out, s')"
    using act unfolding unlock_rwlock_def Let_def by (fastforce split: if_splits)
  then show "wakes (ke_woken out) s s'"
  proof cases
    case stale
    then show ?thesis using unchanged by blast
  next
    case grant
    have "wakes (ke_woken out) (put_wait_queue ?k (queue_at ?k ?s) ?s) s'" by (rule grant_wakes [OF grant])
    then show ?thesis by (subst (asm) wakes_from) (simp_all add: waiters_queue_at)
  qed
qed

lemma insert_rw_waiter_mset [simp]: "mset (insert_rw_waiter w ws) = add_mset w (mset ws)"
  by (induction ws) simp_all

section \<open>Calls that wait\<close>

lemma belongs_key [simp]:
  "belongs w (object_key p object family) \<longleftrightarrow>
    kind_fits family (wt_kind w) \<and> (po_shared object = None \<longrightarrow> p = ps_process (wt_thread w))"
  by (simp add: belongs_def object_key_def split: option.splits)

lemma entersI:
  assumes "\<And>k'. waiters_at k' s' = (if k' = k then joined else waiters_at k' s)"
    and "mset joined = add_mset w (mset (waiters_at k s))" and "belongs w k" and "ps_completed s' = ps_completed s"
  shows "enters w s s'"
  unfolding enters_def using assms by blast

lemma unmoved_ok:
  assumes "waits_ok s" "\<And>k. waiters_at k s' = waiters_at k s" "ps_completed s' = ps_completed s"
  shows "waits_ok s'" "none_lost [] s s'"
  using wakes_ok(1,2) [OF assms(1) same_waits(2) [OF assms(2,3)]] .

lemma enters_only:
  assumes "waits_ok s" "idle (wt_thread w) s" "enters w s s'"
  shows "waits_ok s'" "none_lost [] s s'"
  using wake_then_enter [OF assms(1,2) wakes_refl assms(3)] .

text \<open>A thread comes to wait only by a call of its own.\<close>

lemma enters_spares:
  assumes "waits_ok s" "idle (wt_thread w) s" "enters w s s'" "idle u s" "u \<noteq> wt_thread w"
  shows "idle u s'"
  using enters_ok(2,4) [OF assms(1,3,2)] assms(4,5) by (simp add: idle_def)

lemma wait_mutex_ok:
  assumes ok: "waits_ok s" and idle: "idle t s" and act: "wait_mutex live t object lock flags s = (out, s')"
  shows "waits_ok s' \<and> none_lost (wo_woken out) s s'" "idle u s \<Longrightarrow> u \<noteq> t \<Longrightarrow> idle u s'"
proof -
  let ?k = "object_key (ps_process t) object Mutex_Queue" and ?s = "count_operation live object s"
  let ?w = "\<lparr>wt_thread = t, wt_sequence = generation lock, wt_kind = Wait_Mutex\<rparr>"
  consider (spent) "wo_woken out = []" "\<exists>ps. s' = prune_queue ?k (put_wait_queue ?k (queue_at ?k ?s\<lparr>wq_preposts := ps\<rparr>) ?s)"
    | (queued) "wo_woken out = []" "s' = put_wait_queue ?k (queue_at ?k ?s\<lparr>wq_waiters := wq_waiters (queue_at ?k ?s) @ [?w]\<rparr>) ?s"
    using act unfolding wait_mutex_def Let_def by (fastforce split: option.splits)
  then have "(waits_ok s' \<and> none_lost (wo_woken out) s s') \<and> (\<forall>u. idle u s \<longrightarrow> u \<noteq> t \<longrightarrow> idle u s')"
  proof cases
    case spent
    then have "\<And>k. waiters_at k s' = waiters_at k s" "ps_completed s' = ps_completed s"
      by (auto simp: waiters_queue_at)
    from unmoved_ok [OF ok this] this spent(1) show ?thesis by (simp add: idle_def waits_def)
  next
    case queued
    have "enters ?w s s'"
      by (rule entersI [where k = ?k and joined = "waiters_at ?k s @ [?w]"]) (simp_all add: queued waiters_queue_at)
    from enters_only [OF ok _ this] enters_spares [OF ok _ this] idle queued(1) show ?thesis by simp
  qed
  then show "waits_ok s' \<and> none_lost (wo_woken out) s s'" "idle u s \<Longrightarrow> u \<noteq> t \<Longrightarrow> idle u s'" by blast+
qed

lemma wait_condition_ok:
  assumes ok: "waits_ok s" and idle: "idle t s" and act: "wait_condition live t object generations mutex flags s = (out, s')"
  shows "waits_ok s' \<and> none_lost (wo_woken out) s s'" "idle u s \<Longrightarrow> u \<noteq> t \<Longrightarrow> idle u s'"
proof -
  obtain woken s1 where first: "(case mutex of
           None \<Rightarrow> ([], s)
         | Some d \<Rightarrow>
             let (dropped, s) = drop_mutex live (ps_process t) (md_object d) (md_lock d)
                   (md_unlock d) flags s in
             (ke_woken dropped, s)) = (woken, s1)" by (rule prod.exhaust)
  have w: "wakes woken s s1"
    using first mutex_drop.wakes by (auto simp: wakes_refl split: option.splits prod.splits)
  let ?k = "object_key (ps_process t) object Condition_Queue" and ?s = "count_operation live object s1"
  let ?w = "\<lparr>wt_thread = t, wt_sequence = generation (ucast generations), wt_kind = Wait_Condition\<rparr>"
  consider (spent) "wo_woken out = woken" "\<exists>ps. s' = prune_queue ?k (put_wait_queue ?k (queue_at ?k ?s\<lparr>wq_preposts := ps\<rparr>) ?s)"
    | (queued) "wo_woken out = woken" "s' = put_wait_queue ?k (queue_at ?k ?s\<lparr>wq_waiters := wq_waiters (queue_at ?k ?s) @ [?w]\<rparr>) ?s"
    using act unfolding wait_condition_def Let_def first [unfolded Let_def] by (fastforce split: option.splits)
  then have "(waits_ok s' \<and> none_lost (wo_woken out) s s') \<and> (\<forall>u. idle u s \<longrightarrow> u \<noteq> t \<longrightarrow> idle u s')"
  proof cases
    case spent
    then have "\<And>k. waiters_at k s' = waiters_at k s1" "ps_completed s' = ps_completed s1"
      by (auto simp: waiters_queue_at)
    then have "wakes woken s s'" using w same_waits(3) by blast
    from wakes_ok [OF ok this] spent(1) show ?thesis by simp
  next
    case queued
    have "enters ?w s1 s'"
      by (rule entersI [where k = ?k and joined = "waiters_at ?k s1 @ [?w]"]) (simp_all add: queued waiters_queue_at)
    note e = this
    have i: "idle (wt_thread ?w) s" using idle by simp
    have "idle u s'" if "idle u s" "u \<noteq> t" for u
      using enters_spares [OF wakes_ok(1) [OF ok w] _ e] wakes_ok(3) [OF ok w] i that by simp
    then show ?thesis using wake_then_enter [OF ok i w e] queued(1) by simp
  qed
  then show "waits_ok s' \<and> none_lost (wo_woken out) s s'" "idle u s \<Longrightarrow> u \<noteq> t \<Longrightarrow> idle u s'" by blast+
qed

lemma wait_rwlock_cases:
  assumes act: "wait_rwlock live t object lock word kind s = (out, s')"
  obtains
    (overlap) rw where "wo_woken out = []"
      "s' = put_wait_queue (object_key (ps_process t) object Rw_Queue)
        (queue_at (object_key (ps_process t) object Rw_Queue) (count_operation live object s)
          \<lparr>wq_rw := rw\<rparr>) (count_operation live object s)"
  | (queued) rw where "wo_woken out = []"
      "s' = put_wait_queue (object_key (ps_process t) object Rw_Queue)
        (queue_at (object_key (ps_process t) object Rw_Queue) (count_operation live object s)
          \<lparr>wq_waiters := insert_rw_waiter \<lparr>wt_thread = t, wt_sequence = generation lock, wt_kind = kind\<rparr>
            (wq_waiters (queue_at (object_key (ps_process t) object Rw_Queue) (count_operation live object s))),
           wq_rw := rw\<rparr>) (count_operation live object s)"
  | (grant) rw rw' granted s2 where
      "grant_rwlock (object_key (ps_process t) object Rw_Queue)
        (queue_at (object_key (ps_process t) object Rw_Queue) (count_operation live object s)
          \<lparr>wq_waiters := insert_rw_waiter \<lparr>wt_thread = t, wt_sequence = generation lock, wt_kind = kind\<rparr>
            (wq_waiters (queue_at (object_key (ps_process t) object Rw_Queue) (count_operation live object s)))\<rparr>)
        rw rw' (count_operation live object s) = (granted, s2)"
      "case ps_completed s2 t of
         Some result \<Rightarrow> wo_woken out = removeAll t (ke_woken granted) \<and>
           s' = s2\<lparr>ps_completed := (ps_completed s2)(t := None)\<rparr>
       | None \<Rightarrow> wo_woken out = ke_woken granted \<and> s' = s2"
  using act unfolding wait_rwlock_def Let_def
  by (auto split: if_splits prod.splits option.splits)

lemma wait_rwlock_ok:
  assumes ok: "waits_ok s" and kind: "kind = Wait_Read \<or> kind = Wait_Write" and idle: "idle t s" and act: "wait_rwlock live t object lock word kind s = (out, s')"
  shows "waits_ok s' \<and> none_lost (wo_woken out) s s'" "idle u s \<Longrightarrow> u \<noteq> t \<Longrightarrow> idle u s'"
proof -
  let ?k = "object_key (ps_process t) object Rw_Queue" and ?s = "count_operation live object s"
  let ?q = "queue_at ?k ?s" and ?w = "\<lparr>wt_thread = t, wt_sequence = generation lock, wt_kind = kind\<rparr>"
  let ?joined = "?q\<lparr>wq_waiters := insert_rw_waiter ?w (wq_waiters ?q)\<rparr>"
  have enters: "enters ?w s (put_wait_queue ?k (?joined\<lparr>wq_rw := rw\<rparr>) ?s)" for rw
    by (rule entersI [where k = ?k and joined = "insert_rw_waiter ?w (waiters_at ?k s)"])
      (use kind in \<open>simp_all add: waiters_queue_at\<close>)
  from act have "(waits_ok s' \<and> none_lost (wo_woken out) s s') \<and> (\<forall>u. idle u s \<longrightarrow> u \<noteq> t \<longrightarrow> idle u s')"
  proof (cases rule: wait_rwlock_cases)
    case overlap
    then have "\<And>k. waiters_at k s' = waiters_at k s" "ps_completed s' = ps_completed s"
      by (auto simp: waiters_queue_at)
    from unmoved_ok [OF ok this] this overlap(1) show ?thesis by (simp add: idle_def waits_def)
  next
    case queued
    from enters_only [OF ok _ enters] enters_spares [OF ok _ enters] idle queued show ?thesis by simp
  next
    case (grant rw rw' granted s2)
    have "put_wait_queue ?k ?joined ?s = put_wait_queue ?k (?joined\<lparr>wq_rw := wq_rw ?joined\<rparr>) ?s" by simp
    then have e: "enters ?w s (put_wait_queue ?k ?joined ?s)" using enters by metis
    have w: "wakes (ke_woken granted) (put_wait_queue ?k ?joined ?s) s2" by (rule grant_wakes [OF grant(1)])
    have i: "idle (wt_thread ?w) s" using idle by simp
    note woke = enter_then_wake [OF ok i e w]
    have spared: "idle u s2" if "idle u s" "u \<noteq> t" for u
      using wakes_ok(3) [OF enters_ok(1) [OF ok e i] w] enters_spares [OF ok i e that(1)] that(2) by simp
    show ?thesis
    proof (cases "ps_completed s2 t")
      case None
      then show ?thesis using woke(1,2) woke(4) grant(2) spared by (simp add: removeAll_id)
    next
      case (Some result)
      have "t \<in> set (ke_woken granted)"
      proof (rule ccontr)
        assume "t \<notin> set (ke_woken granted)"
        then have "ps_completed s2 t = ps_completed (put_wait_queue ?k ?joined ?s) t" using w by (simp add: wakes_def)
        with Some idle show False by (simp add: idle_def)
      qed
      moreover have "idle u (s2\<lparr>ps_completed := (ps_completed s2)(t := None)\<rparr>) = idle u s2" if "u \<noteq> t" for u
        using that by (simp add: idle_def waits_def waiters_at_def queue_at_def)
      ultimately show ?thesis using woke(3) grant(2) Some spared by simp
    qed
  qed
  then show "waits_ok s' \<and> none_lost (wo_woken out) s s'" "idle u s \<Longrightarrow> u \<noteq> t \<Longrightarrow> idle u s'" by blast+
qed

section \<open>Ends of waits\<close>

text \<open>A call that only ends the waits of some threads.\<close>

definition ends :: "psynch_thread set \<Rightarrow> psynch \<Rightarrow> psynch \<Rightarrow> bool" where
  "ends T s s' \<longleftrightarrow>
    (\<forall>k. waiters_at k s' = filter (\<lambda>w. wt_thread w \<notin> T) (waiters_at k s)) \<and>
    (\<forall>t. ps_completed s' t = (if t \<in> T then None else ps_completed s t))"

lemma ends_ok: "waits_ok s \<Longrightarrow> ends T s s' \<Longrightarrow> waits_ok s'"
proof -
  assume ok: "waits_ok s" and ends: "ends T s s'"
  have at: "waiters_at k s' = filter (\<lambda>w. wt_thread w \<notin> T) (waiters_at k s)" for k
    using ends by (simp add: ends_def)
  have "waits t k s' \<longleftrightarrow> waits t k s \<and> t \<notin> T" for t k by (auto simp: waits_def at)
  moreover have "ps_completed s' t = None" if "ps_completed s t = None" for t
    using ends that by (simp add: ends_def)
  ultimately show ?thesis
    using ok unfolding waits_ok_def at by (auto simp: distinct_map_filter)
qed

lemma waiters_at_drop [simp]: "waiters_at k (drop_waiters gone s) = filter (Not \<circ> gone) (waiters_at k s)"
  by (simp add: waiters_at_def queue_at_def drop_waiters_def empty_wait_queue_def split: option.splits)

lemma completed_drop [simp]: "ps_completed (drop_waiters gone s) = ps_completed s"
  by (simp add: drop_waiters_def)

lemma waiters_at_completed [simp]: "waiters_at k (s\<lparr>ps_completed := c\<rparr>) = waiters_at k s"
  by (simp add: waiters_at_def queue_at_def)

lemma take_result_ends:
  assumes "waits_ok s" "take_result t s = (result, s')"
  shows "result \<noteq> None \<Longrightarrow> ends {t} s s'" "result = None \<Longrightarrow> s' = s"
proof -
  have s': "result = ps_completed s t" "s' = s\<lparr>ps_completed := (ps_completed s)(t := None)\<rparr>"
    using assms(2) by (simp_all add: take_result_def)
  show "ends {t} s s'" if "result \<noteq> None"
  proof -
    have "\<not> waits t k s" for k using assms(1) that s'(1) unfolding waits_ok_def by metis
    then have "filter (\<lambda>w. wt_thread w \<notin> {t}) (waiters_at k s) = waiters_at k s" for k
      by (auto simp: waits_def filter_id_conv)
    then show ?thesis by (simp add: ends_def s'(2))
  qed
  show "s' = s" if "result = None" using that s' by (simp add: fun_upd_idem)
qed

lemma cancel_wait_ends: "ends {t} s (cancel_wait live t s)"
proof -
  have "waiters_at k (cancel_wait live t s) =
      waiters_at k (drop_waiters (\<lambda>w. wt_thread w = t) (s\<lparr>ps_completed := (ps_completed s)(t := None)\<rparr>))" for k
    unfolding cancel_wait_def by (rule erase_waiters) (simp add: abandoned_def)
  then show ?thesis by (auto simp: ends_def comp_def cancel_wait_def)
qed

lemma clear_process_ends:
  assumes "waits_ok s"
  shows "ends {t. ps_process t = p} s (clear_process live p s)"
proof -
  let ?s = "drop_waiters (\<lambda>w. ps_process (wt_thread w) = p)
    (s\<lparr>ps_completed := (\<lambda>t. if ps_process t = p then None else ps_completed s t)\<rparr>)"
  have "waiters_at k (clear_process live p s) = waiters_at k ?s" for k
    unfolding clear_process_def
  proof (rule erase_waiters)
    fix q assume q: "ps_queues ?s k = Some q" and dead: "\<not> wk_shared k \<and> wk_process k = p \<or> abandoned live k q"
    have "wq_waiters q = waiters_at k ?s" using q by (simp add: waiters_at_def queue_at_def)
    moreover have "ps_process (wt_thread w) = wk_process k" if "\<not> wk_shared k" "w \<in> set (waiters_at k s)" for w
      using assms that unfolding waits_ok_def belongs_def by metis
    ultimately show "wq_waiters q = []"
      using dead by (auto simp: abandoned_def filter_empty_conv)
  qed
  then show ?thesis by (auto simp: ends_def comp_def clear_process_def)
qed

section \<open>Steps\<close>

datatype psynch_call =
    Mutex_Wait psynch_thread psynch_object u32 u32
  | Mutex_Drop u32 psynch_object u32 u32 u32
  | Condition_Wait psynch_thread psynch_object u64 "mutex_drop option" u32
  | Condition_Signal u32 psynch_object u64 u32 "psynch_thread option"
  | Condition_Broadcast u32 psynch_object u64
  | Preposts_Clear u32 psynch_object bool
  | Rw_Wait psynch_thread psynch_object u32 u32 wait_kind
  | Rw_Unlock u32 psynch_object u32 u32 u32
  | Result_Take psynch_thread
  | Wait_Cancel psynch_thread
  | Process_Clear u32

text \<open>One call and the threads it wakes. A thread that waits or has not taken its result makes
  no call that waits: the kernel stopped it.\<close>

inductive psynch_step :: "psynch \<Rightarrow> psynch_call \<Rightarrow> psynch_thread list \<Rightarrow> psynch \<Rightarrow> bool" where
  step_mutex_wait: "idle t s \<Longrightarrow> wait_mutex live t object lock flags s = (out, s') \<Longrightarrow>
    psynch_step s (Mutex_Wait t object lock flags) (wo_woken out) s'"
| step_mutex_drop: "drop_mutex live p object lock unlock flags s = (out', s') \<Longrightarrow>
    psynch_step s (Mutex_Drop p object lock unlock flags) (ke_woken out') s'"
| step_condition_wait: "idle t s \<Longrightarrow> wait_condition live t object generations mutex flags s = (out, s') \<Longrightarrow>
    psynch_step s (Condition_Wait t object generations mutex flags) (wo_woken out) s'"
| step_signal: "signal_condition live p object generations unlock target s = (out', s') \<Longrightarrow>
    psynch_step s (Condition_Signal p object generations unlock target) (ke_woken out') s'"
| step_broadcast: "broadcast_condition live p object generations s = (out', s') \<Longrightarrow>
    psynch_step s (Condition_Broadcast p object generations) (ke_woken out') s'"
| step_clear: "psynch_step s (Preposts_Clear p object mutex_object) [] (clear_preposts live p object mutex_object s)"
| step_rw_wait: "idle t s \<Longrightarrow> kind = Wait_Read \<or> kind = Wait_Write \<Longrightarrow>
    wait_rwlock live t object lock word kind s = (out, s') \<Longrightarrow>
    psynch_step s (Rw_Wait t object lock word kind) (wo_woken out) s'"
| step_rw_unlock: "unlock_rwlock live p object lock unlock word s = (out', s') \<Longrightarrow>
    psynch_step s (Rw_Unlock p object lock unlock word) (ke_woken out') s'"
| step_take: "take_result t s = (result, s') \<Longrightarrow> psynch_step s (Result_Take t) [] s'"
| step_cancel: "psynch_step s (Wait_Cancel t) [] (cancel_wait live t s)"
| step_process: "psynch_step s (Process_Clear p) [] (clear_process live p s)"

inductive psynch_reachable :: "psynch \<Rightarrow> bool" where
  reach_new: "psynch_reachable new_psynch"
| reach_step: "psynch_reachable s \<Longrightarrow> psynch_step s c woken s' \<Longrightarrow> psynch_reachable s'"

text \<open>The threads whose waits a call gives up.\<close>

fun given_up :: "psynch_call \<Rightarrow> psynch_thread \<Rightarrow> bool" where
  "given_up (Wait_Cancel t') t \<longleftrightarrow> t = t'"
| "given_up (Process_Clear p) t \<longleftrightarrow> ps_process t = p"
| "given_up _ t \<longleftrightarrow> False"

lemma clear_preposts_waits [simp]:
  "waiters_at k (clear_preposts live p object mutex_object s) = waiters_at k s"
  "ps_completed (clear_preposts live p object mutex_object s) = ps_completed s"
proof -
  let ?k = "object_key p object (if mutex_object then Mutex_Queue else Condition_Queue)"
  let ?s = "count_operation live object s"
  have "waiters_at k (case ps_queues ?s ?k of None \<Rightarrow> ?s | Some q \<Rightarrow> put_wait_queue ?k (q\<lparr>wq_preposts := []\<rparr>) ?s) =
      waiters_at k ?s"
    by (auto simp: waiters_at_def queue_at_def put_wait_queue_def split: option.splits)
  then show "waiters_at k (clear_preposts live p object mutex_object s) = waiters_at k s"
    by (simp add: clear_preposts_def Let_def)
  show "ps_completed (clear_preposts live p object mutex_object s) = ps_completed s"
    by (simp add: clear_preposts_def Let_def split: option.splits)
qed

text \<open>What one call does to the waits.\<close>

lemma psynch_step_ok:
  assumes "psynch_step s c woken s'" "waits_ok s"
  shows "waits_ok s' \<and> (none_lost woken s s' \<or> (woken = [] \<and> ends (Collect (given_up c)) s s') \<or>
    (\<exists>t. c = Result_Take t \<and> woken = [] \<and> ends {t} s s' \<and> (\<forall>k. \<not> waits t k s)))"
  using assms
proof cases
  case (step_mutex_wait t live object lock flags out)
  then show ?thesis using wait_mutex_ok(1) assms(2) by blast
next
  case (step_mutex_drop live p object lock unlock flags out')
  then show ?thesis using mutex_drop.keeps assms(2) by blast
next
  case (step_condition_wait t live object generations mutex flags out)
  then show ?thesis using wait_condition_ok(1) assms(2) by blast
next
  case (step_signal live p object generations unlock target out')
  then show ?thesis using condition_signal.keeps assms(2) by blast
next
  case (step_broadcast live p object generations out')
  then show ?thesis using condition_broadcast.keeps assms(2) by blast
next
  case (step_clear p object mutex_object live)
  then show ?thesis using unmoved_ok [OF assms(2), of s'] by simp
next
  case (step_rw_wait t kind live object lock word out)
  then show ?thesis using wait_rwlock_ok(1) assms(2) by blast
next
  case (step_rw_unlock live p object lock unlock word out')
  then show ?thesis using rw_unlock.keeps assms(2) by blast
next
  case (step_take t result)
  show ?thesis
  proof (cases result)
    case None
    then have "s' = s" using take_result_ends(2) [OF assms(2) step_take(3)] by simp
    then show ?thesis using unmoved_ok [OF assms(2), of s] step_take by simp
  next
    case (Some r)
    then have e: "ends {t} s s'" using take_result_ends(1) [OF assms(2) step_take(3)] by simp
    have "\<not> waits t k s" for k
      using assms(2) Some step_take(3) unfolding waits_ok_def take_result_def by auto
    then show ?thesis using e ends_ok [OF assms(2) e] step_take by blast
  qed
next
  case (step_cancel t live)
  have "ends (Collect (given_up c)) s s'"
  proof -
    have "Collect (given_up c) = {t}" by (auto simp: step_cancel(1))
    then show ?thesis using cancel_wait_ends [of t s live] by (simp add: step_cancel(3))
  qed
  then show ?thesis using ends_ok [OF assms(2)] step_cancel(2) by blast
next
  case (step_process p live)
  have "ends (Collect (given_up c)) s s'"
  proof -
    have "Collect (given_up c) = {t. ps_process t = p}" by (auto simp: step_process(1))
    then show ?thesis using clear_process_ends [OF assms(2), of p live] by (simp add: step_process(3))
  qed
  then show ?thesis using ends_ok [OF assms(2)] step_process(2) by blast
qed

lemma new_psynch_ok: "waits_ok new_psynch"
  by (simp add: waits_ok_def waits_def waiters_at_def queue_at_def new_psynch_def empty_wait_queue_def)

lemma psynch_reachable_ok: "psynch_reachable s \<Longrightarrow> waits_ok s"
  by (induction rule: psynch_reachable.induct) (use new_psynch_ok psynch_step_ok in blast)+

inductive_cases step_cancelE: "psynch_step s (Wait_Cancel t) woken s'"
inductive_cases step_processE: "psynch_step s (Process_Clear p) woken s'"

lemma given_up_ends:
  assumes "psynch_step s c woken s'" "waits_ok s" "given_up c t"
  shows "woken = [] \<and> ends (Collect (given_up c)) s s'"
proof (cases c)
  case (Wait_Cancel t')
  have "Collect (given_up c) = {t'}" by (auto simp: Wait_Cancel)
  with assms(1) show ?thesis unfolding Wait_Cancel by (auto elim!: step_cancelE intro: cancel_wait_ends)
next
  case (Process_Clear p)
  have "Collect (given_up c) = {t. ps_process t = p}" by (auto simp: Process_Clear)
  with assms(1,2) show ?thesis
    unfolding Process_Clear by (auto elim!: step_processE intro: clear_process_ends)
qed (use assms(3) in simp_all)

end
