(* ===== verification/Psynch_Credit.thy ===== *)
theory Psynch_Credit
  imports Psynch_Calls Word_Facts
begin

text \<open>
  The order of generations, and the credit that wakeups of mutexes and condition variables
  leave for waits that have not begun.
\<close>

section \<open>Generations\<close>

lemma generation_mask_bits: "generation_mask = NOT (mask 8)"
  by (simp add: generation_mask_def mask_eq_exp_minus_1)

lemma generation_count_div: "unat (generation_count upper lower) = unat (upper - lower) div 256"
proof -
  have "drop_bit 8 (generation w) = drop_bit 8 w" for w
    by (rule bit_eqI) (auto simp: generation_def generation_mask_bits bit_simps dest: bit_imp_le_length)
  then show ?thesis by (simp only: generation_count_def unat_drop_bit_div) simp
qed

lemma unat_small: "n < 2 ^ 32 \<Longrightarrow> unat (word_of_nat n :: u32) = n"
  by (simp add: unat_of_nat)

lemma unat_minus_u32: "w \<noteq> 0 \<Longrightarrow> unat (- w) = 2 ^ 32 - unat (w :: u32)"
  unfolding minus_eq_not_minus_1 unat_not_u32 using unat_minus_one [of w] by (simp add: word_neq_0_iff)

text \<open>The generation counters count in steps of 256 without bound; their words wrap.\<close>

lemma generation_count_ahead:
  assumes "a \<le> b" "b < a + 2 ^ 23"
  shows "unat (generation_count (word_of_nat (256 * b)) (word_of_nat (256 * a))) = b - a"
proof -
  have "(word_of_nat (256 * b) - word_of_nat (256 * a) :: u32) = word_of_nat (256 * (b - a))"
    using assms(1) by (simp add: of_nat_diff right_diff_distrib')
  moreover have "unat (word_of_nat (256 * (b - a)) :: u32) = 256 * (b - a)"
    using assms by (intro unat_small) simp
  ultimately show ?thesis unfolding generation_count_div by simp
qed

lemma generation_count_behind:
  assumes "b < a" "a \<le> b + 2 ^ 23"
  shows "2 ^ 23 \<le> unat (generation_count (word_of_nat (256 * b)) (word_of_nat (256 * a)))"
proof -
  let ?d = "256 * (a - b)"
  have d: "0 < ?d" "?d \<le> 2 ^ 31" using assms by simp_all
  have "(word_of_nat (256 * b) - word_of_nat (256 * a) :: u32) = - word_of_nat ?d"
    using assms(1) by (simp add: of_nat_diff right_diff_distrib')
  moreover have "unat (word_of_nat ?d :: u32) = ?d" using d(2) by (intro unat_small) simp
  ultimately have "unat (word_of_nat (256 * b) - word_of_nat (256 * a) :: u32) = 2 ^ 32 - ?d"
    using d(1) by (metis less_numeral_extra(3) unat_0 unat_minus_u32)
  then show ?thesis unfolding generation_count_div using d by simp
qed

section \<open>Preposts\<close>

definition preposts_at :: "wait_queue_key \<Rightarrow> psynch \<Rightarrow> prepost list" where
  "preposts_at k s = wq_preposts (queue_at k s)"

lemma preposts_queue_at: "wq_preposts (queue_at k s) = preposts_at k s"
  by (simp add: preposts_at_def)

text \<open>The waits a queue lets through before one has to stop.\<close>

definition credit :: "wait_queue_key \<Rightarrow> psynch \<Rightarrow> nat" where
  "credit k s = sum_list (map (unat \<circ> pp_count) (preposts_at k s))"

lemma preposts_put [simp]:
  "preposts_at k (put_wait_queue k' q s) = (if k = k' then wq_preposts q else preposts_at k s)"
  by (simp add: preposts_at_def)

lemma preposts_complete [simp]: "preposts_at k (complete_wait w r s) = preposts_at k s"
  by (simp add: preposts_at_def)

lemma preposts_erase:
  assumes "\<And>q. ps_queues s k = Some q \<Longrightarrow> dead k q \<Longrightarrow> wq_preposts q = []"
  shows "preposts_at k (erase_queues dead s) = preposts_at k s"
  using assms by (auto simp: preposts_at_def queue_at_def erase_queues_def empty_wait_queue_def
    split: option.splits)

lemma preposts_prune [simp]: "preposts_at k (prune_queue k' s) = preposts_at k s"
  by (auto simp: prune_queue_def intro: preposts_erase)

lemma preposts_count:
  assumes "\<not> expired_queue live k"
  shows "preposts_at k (count_operation live object s) = preposts_at k s"
proof -
  have "preposts_at k (s\<lparr>ps_operations := n\<rparr>) = preposts_at k s" for n
    by (simp add: preposts_at_def queue_at_def)
  then show ?thesis
    using assms by (auto simp: count_operation_def prune_expired_shared_queues_def Let_def
      intro!: preposts_erase [THEN trans])
qed

lemma use_prepost_credit:
  assumes "use_prepost p preposts = Some preposts'" "\<forall>c\<in>set preposts. pp_count c \<noteq> 0"
  shows "sum_list (map (unat \<circ> pp_count) preposts) = Suc (sum_list (map (unat \<circ> pp_count) preposts'))"
    "\<forall>c\<in>set preposts'. pp_count c \<noteq> 0"
proof -
  obtain front found rest where split: "preposts = front @ found # rest"
    and p': "preposts' = (if pp_count found - 1 = 0 then front @ rest
      else front @ found\<lparr>pp_count := pp_count found - 1\<rparr> # rest)"
    using assms(1) by (auto simp: use_prepost_def split: option.splits dest: extract_split)
  have "unat (pp_count found) = Suc (unat (pp_count found - 1))"
    using assms(2) unat_minus_one [of "pp_count found"] by (simp add: split word_neq_0_iff)
  then show "sum_list (map (unat \<circ> pp_count) preposts) = Suc (sum_list (map (unat \<circ> pp_count) preposts'))"
    by (simp add: split p')
  show "\<forall>c\<in>set preposts'. pp_count c \<noteq> 0" using assms(2) by (auto simp: split p')
qed

definition counted :: "wait_queue_key \<Rightarrow> psynch \<Rightarrow> bool" where
  "counted k s \<longleftrightarrow> (\<forall>c\<in>set (preposts_at k s). pp_count c \<noteq> 0)"

text \<open>No prepost is ever empty.\<close>

definition all_counted :: "psynch \<Rightarrow> bool" where
  "all_counted s \<longleftrightarrow> (\<forall>k. counted k s)"

lemma all_counted_queue: "all_counted s \<Longrightarrow> \<forall>c\<in>set (wq_preposts (queue_at k s)). pp_count c \<noteq> 0"
  unfolding all_counted_def counted_def preposts_queue_at by blast

lemma all_counted_put:
  "all_counted s \<Longrightarrow> \<forall>c\<in>set (wq_preposts q). pp_count c \<noteq> 0 \<Longrightarrow> all_counted (put_wait_queue k q s)"
  by (simp add: all_counted_def counted_def)

lemma all_counted_erase: "all_counted s \<Longrightarrow> all_counted (erase_queues dead s)"
  by (auto simp: all_counted_def counted_def preposts_at_def queue_at_def erase_queues_def empty_wait_queue_def
    split: option.splits)

lemma all_counted_same: "ps_queues s' = ps_queues s \<Longrightarrow> all_counted s' = all_counted s"
  by (simp add: all_counted_def counted_def preposts_at_def queue_at_def)

lemma all_counted_complete: "all_counted (complete_wait w r s) = all_counted s"
  by (rule all_counted_same) (simp add: complete_wait_def)

lemma all_counted_fold: "all_counted (fold (\<lambda>w. complete_wait w r) ws s) = all_counted s"
  by (induction ws arbitrary: s) (simp_all add: all_counted_complete)

lemma all_counted_prune: "all_counted s \<Longrightarrow> all_counted (prune_queue k s)"
  unfolding prune_queue_def by (rule all_counted_erase)

lemma all_counted_operation: "all_counted s \<Longrightarrow> all_counted (count_operation live object s)"
  by (simp add: count_operation_def prune_expired_shared_queues_def Let_def all_counted_erase
    all_counted_same [of "s\<lparr>ps_operations := n\<rparr>" s for n])

lemma all_counted_drop: "all_counted s \<Longrightarrow> all_counted (drop_waiters gone s)"
  by (simp add: all_counted_def counted_def preposts_at_def queue_at_def drop_waiters_def empty_wait_queue_def
    split: option.splits)

lemmas all_counted_rules = all_counted_put all_counted_prune all_counted_operation

lemma add_prepost_counted:
  assumes "\<forall>c\<in>set preposts. pp_count c \<noteq> 0"
  shows "\<forall>c\<in>set (add_prepost sequence preposts). pp_count c \<noteq> 0"
proof -
  have "pp_count c + 1 \<noteq> 0" if "pp_count c < - 1" for c :: prepost
    using that by (metis add.commute add_eq_0_iff order_less_irrefl)
  then show ?thesis
    using assms by (auto simp: add_prepost_def split: option.splits dest: extract_split)
qed

lemma drop_mutex_counted: "all_counted s \<Longrightarrow> all_counted (snd (drop_mutex live p object lock unlock flags s))"
  by (auto simp: drop_mutex_def Let_def all_counted_complete all_counted_queue [OF all_counted_operation]
    intro!: all_counted_rules split: option.splits)

lemma wait_mutex_counted: "all_counted s \<Longrightarrow> all_counted (snd (wait_mutex live t object lock flags s))"
  by (auto simp: wait_mutex_def Let_def all_counted_queue [OF all_counted_operation]
    intro!: all_counted_rules split: option.splits
    dest: use_prepost_credit(2) [OF _ all_counted_queue [OF all_counted_operation]])

lemma wait_condition_counted:
  assumes "all_counted s"
  shows "all_counted (snd (wait_condition live t object generations mutex flags s))"
proof -
  have "all_counted (snd (case mutex of
           None \<Rightarrow> ([], s)
         | Some d \<Rightarrow>
             let (dropped, s) = drop_mutex live (ps_process t) (md_object d) (md_lock d)
                   (md_unlock d) flags s in
             (ke_woken dropped, s)))"
    using assms drop_mutex_counted [OF assms]
    by (auto simp: Let_def split: option.splits prod.splits) (metis snd_conv)
  then show ?thesis
    unfolding wait_condition_def Let_def
    by (auto simp: all_counted_queue [OF all_counted_operation]
      intro!: all_counted_rules split: option.splits prod.splits
      dest: use_prepost_credit(2) [OF _ all_counted_queue [OF all_counted_operation]])
qed

lemma signal_counted: "all_counted s \<Longrightarrow> all_counted (snd (signal_condition live p object generations unlock target s))"
  by (auto simp: signal_condition_def Let_def all_counted_complete all_counted_queue [OF all_counted_operation]
    add_prepost_counted [OF all_counted_queue [OF all_counted_operation], THEN bspec]
    intro!: all_counted_rules split: option.splits)

lemma broadcast_counted: "all_counted s \<Longrightarrow> all_counted (snd (broadcast_condition live p object generations s))"
proof -
  have "m - word_of_nat n \<noteq> 0" if "n < unat m" for m :: u32 and n
  proof
    assume "m - word_of_nat n = 0"
    then have "unat m = n mod 2 ^ 32" by (simp add: unat_of_nat)
    with that show False by (metis mod_less_eq_dividend not_less)
  qed
  then show "all_counted s \<Longrightarrow> all_counted (snd (broadcast_condition live p object generations s))"
    by (auto simp: broadcast_condition_def Let_def all_counted_fold all_counted_queue [OF all_counted_operation]
      intro!: all_counted_rules)
qed

lemma grant_counted:
  "all_counted s \<Longrightarrow> \<forall>c\<in>set (wq_preposts q). pp_count c \<noteq> 0 \<Longrightarrow> all_counted (snd (grant_rwlock k q rw word s))"
  by (auto simp: grant_rwlock_def Let_def all_counted_fold intro!: all_counted_rules split: list.splits)

lemma unlock_rwlock_counted: "all_counted s \<Longrightarrow> all_counted (snd (unlock_rwlock live p object lock unlock word s))"
  by (auto simp: unlock_rwlock_def Let_def all_counted_queue [OF all_counted_operation]
    intro!: all_counted_rules grant_counted)

lemma all_counted_completed [simp]: "all_counted (s\<lparr>ps_completed := c\<rparr>) = all_counted s"
  by (rule all_counted_same) simp

lemma wait_rwlock_counted:
  assumes "all_counted s"
  shows "all_counted (snd (wait_rwlock live t object lock word kind s))"
proof -
  obtain out s' where act: "wait_rwlock live t object lock word kind s = (out, s')" by fastforce
  let ?s = "count_operation live object s"
  have base: "all_counted ?s" "\<forall>c\<in>set (wq_preposts (queue_at k ?s)). pp_count c \<noteq> 0" for k
    using all_counted_operation [OF assms] all_counted_queue by blast+
  from act have "all_counted s'"
  proof (cases rule: wait_rwlock_cases)
    case overlap
    then show ?thesis using base by (simp add: all_counted_put)
  next
    case queued
    then show ?thesis using base by (simp add: all_counted_put)
  next
    case (grant rw rw' granted s2)
    have "all_counted s2"
      using grant_counted [OF base(1), of _ _ rw rw'] base(2) arg_cong [OF grant(1), of snd]
      by (metis (no_types, lifting) snd_conv wait_queue.select_convs(2) wait_queue.surjective wait_queue.update_convs(1))
    then show ?thesis using grant(2) by (auto split: option.splits)
  qed
  then show ?thesis by (simp add: act)
qed

lemma take_result_counted: "all_counted s \<Longrightarrow> all_counted (snd (take_result t s))"
  by (simp add: take_result_def)

lemma clear_preposts_counted: "all_counted s \<Longrightarrow> all_counted (clear_preposts live p object mutex_object s)"
  by (auto simp: clear_preposts_def Let_def intro!: all_counted_rules split: option.splits)

lemma clear_counted:
  "all_counted s \<Longrightarrow> all_counted (cancel_wait live t s)" "all_counted s \<Longrightarrow> all_counted (clear_process live p s)"
  by (simp_all add: cancel_wait_def clear_process_def all_counted_erase all_counted_drop)

lemma psynch_step_counted:
  assumes "psynch_step s c woken s'" "all_counted s"
  shows "all_counted s'"
  using assms
  by (auto elim!: psynch_step.cases simp: clear_preposts_counted clear_counted
    dest!: arg_cong [where f = snd] intro: wait_mutex_counted drop_mutex_counted wait_condition_counted
      signal_counted broadcast_counted wait_rwlock_counted unlock_rwlock_counted take_result_counted)

lemma psynch_reachable_counted: "psynch_reachable s \<Longrightarrow> all_counted s"
proof (induction rule: psynch_reachable.induct)
  case reach_new
  show ?case
    by (simp add: all_counted_def counted_def preposts_at_def queue_at_def new_psynch_def empty_wait_queue_def)
qed (rule psynch_step_counted)

section \<open>Mutexes\<close>

datatype mutex_event = Lock_Mutex psynch_thread u32 u32 | Unlock_Mutex u32 u32 u32 u32

text \<open>A sequence of waits and drops on one mutex, and how many of them grant it.\<close>

fun mutex_run ::
  "(nat \<Rightarrow> bool) \<Rightarrow> psynch_object \<Rightarrow> mutex_event list \<Rightarrow> psynch \<Rightarrow> nat \<times> psynch" where
  "mutex_run live object [] s = (0, s)"
| "mutex_run live object (Lock_Mutex t lock flags # es) s =
    (let (out, s) = wait_mutex live t object lock flags s; (n, s) = mutex_run live object es s in
     (of_bool (\<not> wo_blocked out) + n, s))"
| "mutex_run live object (Unlock_Mutex p lock unlock flags # es) s =
    (let (out, s) = drop_mutex live p object lock unlock flags s; (n, s) = mutex_run live object es s in
     (length (ke_woken out) + n, s))"

fun mutex_key :: "psynch_object \<Rightarrow> mutex_event \<Rightarrow> wait_queue_key" where
  "mutex_key object (Lock_Mutex t lock flags) = object_key (ps_process t) object Mutex_Queue"
| "mutex_key object (Unlock_Mutex p lock unlock flags) = object_key p object Mutex_Queue"

fun locks :: "mutex_event list \<Rightarrow> nat" where
  "locks [] = 0"
| "locks (Lock_Mutex t lock flags # es) = Suc (locks es)"
| "locks (Unlock_Mutex p lock unlock flags # es) = locks es"

lemma wait_mutex_credit:
  assumes "wait_mutex live t object lock flags s = (out, s')"
    and "k = object_key (ps_process t) object Mutex_Queue" "\<not> expired_queue live k" "counted k s"
  shows "counted k s' \<and> of_bool (\<not> wo_blocked out) + credit k s' = credit k s \<and>
    of_bool (\<not> wo_blocked out) + length (waiters_at k s') = Suc (length (waiters_at k s))"
proof -
  let ?s = "count_operation live object s"
  let ?p = "\<lambda>p. pp_kind p = Wait_Mutex \<and> (first_fit flags \<or> pp_sequence p = generation lock)"
  have same: "wq_preposts (queue_at k ?s) = preposts_at k s" "wq_waiters (queue_at k ?s) = waiters_at k s"
    by (simp_all add: preposts_queue_at preposts_count [OF assms(3)] waiters_queue_at)
  show ?thesis
  proof (cases "use_prepost ?p (preposts_at k s)")
    case None
    then show ?thesis
      using assms(1,4) same by (auto simp: wait_mutex_def Let_def assms(2) [symmetric] counted_def credit_def)
  next
    case (Some preposts)
    from use_prepost_credit [OF this] assms(4) Some show ?thesis
      using assms(1) same by (auto simp: wait_mutex_def Let_def assms(2) [symmetric] counted_def credit_def)
  qed
qed

lemma next_owner_Nil [simp]: "next_owner any next_sequence [] = None"
  by (simp add: next_owner_def oldest_waiter_def extract_Nil_code)

lemma next_owner_None: "next_owner any next_sequence ws = None \<longleftrightarrow> ws = []"
  by (cases ws) (auto simp: next_owner_def oldest_waiter_def extract_Nil_code split: option.splits)

lemma drop_mutex_credit:
  assumes "drop_mutex live p object lock unlock flags s = (out, s')"
    and "k = object_key p object Mutex_Queue" "\<not> expired_queue live k" "counted k s"
  shows "counted k s' \<and> length (ke_woken out) + credit k s' = Suc (credit k s) \<and>
    length (ke_woken out) + length (waiters_at k s') = length (waiters_at k s) \<and>
    length (ke_woken out) = of_bool (waiters_at k s \<noteq> [])"
proof -
  let ?s = "count_operation live object s"
  let ?owner = "next_owner (first_fit flags) (generation (unlock + generation_increment)) (waiters_at k s)"
  have same: "wq_preposts (queue_at k ?s) = preposts_at k s" "wq_waiters (queue_at k ?s) = waiters_at k s"
    by (simp_all add: preposts_queue_at preposts_count [OF assms(3)] waiters_queue_at)
  show ?thesis
  proof (cases ?owner)
    case None
    then show ?thesis
      using assms(1,4) same
      by (auto simp: drop_mutex_def Let_def assms(2) [symmetric] counted_def credit_def next_owner_None)
  next
    case (Some found)
    obtain front w rest where found: "found = (front, w, rest)" by (cases found)
    have "waiters_at k s = front @ w # rest" using next_owner_split Some by (simp add: found)
    moreover have "preposts_at k ?s = preposts_at k s" by (rule preposts_count [OF assms(3)])
    ultimately show ?thesis
      using assms(1,4) same Some
      by (auto simp: drop_mutex_def Let_def assms(2) [symmetric] counted_def credit_def found)
  qed
qed

lemma mutex_run_balance:
  assumes "mutex_run live object es s = (grants, s')" "\<forall>e\<in>set es. mutex_key object e = k"
    and "\<not> expired_queue live k" "counted k s"
  shows "grants + credit k s' + locks es = length es + credit k s \<and>
    grants + length (waiters_at k s') = locks es + length (waiters_at k s) \<and> counted k s'"
  using assms
proof (induction live object es s arbitrary: grants s' rule: mutex_run.induct)
  case (2 live object t lock flags es s)
  obtain out s1 where one: "wait_mutex live t object lock flags s = (out, s1)" by fastforce
  obtain n s2 where rest: "mutex_run live object es s1 = (n, s2)" by fastforce
  have k: "k = object_key (ps_process t) object Mutex_Queue" using "2.prems"(2) by simp
  note first = wait_mutex_credit [OF one k "2.prems"(3,4)]
  have "n + credit k s2 + locks es = length es + credit k s1 \<and>
    n + length (waiters_at k s2) = locks es + length (waiters_at k s1) \<and> counted k s2"
    using "2.IH" [OF one [symmetric] refl rest] "2.prems"(2,3) first by simp
  moreover have "grants = of_bool (\<not> wo_blocked out) + n" "s' = s2"
    using "2.prems"(1) by (simp_all add: one rest)
  ultimately show ?case using first by simp
next
  case (3 live object p lock unlock flags es s)
  obtain out s1 where one: "drop_mutex live p object lock unlock flags s = (out, s1)" by fastforce
  obtain n s2 where rest: "mutex_run live object es s1 = (n, s2)" by fastforce
  have k: "k = object_key p object Mutex_Queue" using "3.prems"(2) by simp
  note first = drop_mutex_credit [OF one k "3.prems"(3,4)]
  have "n + credit k s2 + locks es = length es + credit k s1 \<and>
    n + length (waiters_at k s2) = locks es + length (waiters_at k s1) \<and> counted k s2"
    using "3.IH" [OF one [symmetric] refl rest] "3.prems"(2,3) first by simp
  moreover have "grants = length (ke_woken out) + n" "s' = s2"
    using "3.prems"(1) by (simp_all add: one rest)
  ultimately show ?case using first by simp
qed simp

section \<open>Condition variables\<close>

text \<open>A sequence of waits, and which of them block.\<close>

fun condition_waits ::
  "(nat \<Rightarrow> bool) \<Rightarrow> psynch_object \<Rightarrow> (psynch_thread \<times> u64) list \<Rightarrow> psynch \<Rightarrow> bool list \<times> psynch" where
  "condition_waits live object [] s = ([], s)"
| "condition_waits live object ((t, generations) # ws) s =
    (let (out, s) = wait_condition live t object generations None 0 s;
         (blocked, s) = condition_waits live object ws s in
     (wo_blocked out # blocked, s))"

definition broadcast_credit :: "u32 \<Rightarrow> nat \<Rightarrow> prepost list" where
  "broadcast_credit upper n =
    (if n = 0 then [] else [\<lparr>pp_sequence = upper, pp_count = word_of_nat n, pp_kind = Wait_Condition\<rparr>])"

lemma use_prepost_append:
  "use_prepost p (xs @ ys) =
    (case use_prepost p xs of Some xs' \<Rightarrow> Some (xs' @ ys) | None \<Rightarrow> map_option ((@) xs) (use_prepost p ys))"
proof (induction xs)
  case Nil
  show ?case by (cases "use_prepost p ys") (simp_all add: use_prepost_def [of p "[]"] extract_Nil_code)
next
  case (Cons x xs)
  then show ?case by (auto simp: use_prepost_def extract_Cons_code split: option.splits)
qed

lemma use_broadcast_credit:
  assumes "n < 2 ^ 32"
  shows "use_prepost (\<lambda>c. pp_kind c = Wait_Condition \<and> sequence_not_after g (pp_sequence c))
      (broadcast_credit upper n) =
    (if sequence_not_after g upper \<and> 0 < n then Some (broadcast_credit upper (n - 1)) else None)"
proof (cases n)
  case 0
  then show ?thesis by (simp add: broadcast_credit_def use_prepost_def extract_Nil_code)
next
  case (Suc m)
  have "(word_of_nat m :: u32) = 0 \<longleftrightarrow> m = 0"
    using arg_cong [of "word_of_nat m :: u32" 0 unat] unat_small [of m] assms Suc by auto
  then show ?thesis
    using Suc by (auto simp: broadcast_credit_def use_prepost_def extract_Cons_code extract_Nil_code)
qed

lemma wait_condition_prepost:
  assumes "wait_condition live t object generations None flags s = (out, s')"
    and k: "k = object_key (ps_process t) object Condition_Queue" and "\<not> expired_queue live k"
  shows "case use_prepost (\<lambda>c. pp_kind c = Wait_Condition \<and>
        sequence_not_after (generation (ucast generations)) (pp_sequence c)) (preposts_at k s) of
      None \<Rightarrow> wo_blocked out \<and> preposts_at k s' = preposts_at k s
    | Some left \<Rightarrow> \<not> wo_blocked out \<and> preposts_at k s' = left"
proof -
  have "wq_preposts (queue_at k (count_operation live object s)) = preposts_at k s"
    by (simp add: preposts_queue_at preposts_count [OF assms(3)])
  then show ?thesis
    using assms(1) by (auto simp: wait_condition_def Let_def k [symmetric] split: option.splits)
qed

text \<open>A number of credits lets the first eligible ones of the waits through that would block.\<close>

fun spend :: "nat \<Rightarrow> (bool \<times> bool) list \<Rightarrow> bool list" where
  "spend n [] = []"
| "spend n ((fits, blocks) # ws) =
    (if fits \<and> blocks \<and> 0 < n then False # spend (n - 1) ws else blocks # spend n ws)"

lemma condition_waits_spend:
  assumes "condition_waits live object ws s = (blocked, s')" "condition_waits live object ws b = (base, b')"
    and "\<not> expired_queue live k" "\<forall>(t, g)\<in>set ws. object_key (ps_process t) object Condition_Queue = k"
    and "preposts_at k s = preposts_at k b @ broadcast_credit upper n" "n < 2 ^ 32"
  shows "blocked = spend n (zip (map (\<lambda>(t, g). sequence_not_after (generation (ucast g)) upper) ws) base)"
  using assms
proof (induction live object ws s arbitrary: n blocked s' b base b' rule: condition_waits.induct)
  case (2 live object t generations ws s)
  obtain out s1 where one: "wait_condition live t object generations None 0 s = (out, s1)" by fastforce
  obtain bl s2 where rest: "condition_waits live object ws s1 = (bl, s2)" by fastforce
  obtain bout b1 where bone: "wait_condition live t object generations None 0 b = (bout, b1)" by fastforce
  obtain bs b2 where brest: "condition_waits live object ws b1 = (bs, b2)" by fastforce
  have k: "k = object_key (ps_process t) object Condition_Queue" using "2.prems"(4) by auto
  let ?e = "sequence_not_after (generation (ucast generations)) upper"
  let ?use = "use_prepost (\<lambda>c. pp_kind c = Wait_Condition \<and>
        sequence_not_after (generation (ucast generations)) (pp_sequence c)) (preposts_at k b)"
  note real = wait_condition_prepost [OF one k "2.prems"(3), unfolded "2.prems"(5) use_prepost_append
      use_broadcast_credit [OF "2.prems"(6)]]
  note bare = wait_condition_prepost [OF bone k "2.prems"(3)]
  define n' where "n' = (if ?e \<and> wo_blocked bout \<and> 0 < n then n - 1 else n)"
  have step: "wo_blocked out \<longleftrightarrow> wo_blocked bout \<and> \<not> (?e \<and> 0 < n)"
    "preposts_at k s1 = preposts_at k b1 @ broadcast_credit upper n'"
    using real bare "2.prems"(5) by (auto simp: n'_def split: option.splits if_splits)
  have "bl = spend n' (zip (map (\<lambda>(t, g). sequence_not_after (generation (ucast g)) upper) ws) bs)"
    using "2.IH" [OF one [symmetric] refl rest brest "2.prems"(3) _ step(2)] "2.prems"(4,6)
    by (auto simp: n'_def)
  moreover have "blocked = wo_blocked out # bl" "base = wo_blocked bout # bs"
    using "2.prems"(1,2) by (simp_all add: one rest bone brest)
  ultimately show ?case using step(1) by (auto simp: n'_def)
qed simp

lemma broadcast_leaves:
  assumes "broadcast_condition live p object generations s = (out, s')"
    and k: "k = object_key p object Condition_Queue" and "\<not> expired_queue live k"
  shows "preposts_at k s' = preposts_at k s @ broadcast_credit (generation (ucast generations))
    (unat (generation_count (generation (ucast generations)) (generation (ucast (drop_bit 32 generations)))) -
      length (ke_woken out))"
proof -
  let ?s = "count_operation live object s"
  have same: "wq_preposts (queue_at k ?s) = preposts_at k s"
    by (simp add: preposts_queue_at preposts_count [OF assms(3)])
  let ?woken = "ke_woken out"
  let ?outstanding = "generation_count (generation (ucast generations)) (generation (ucast (drop_bit 32 generations)))"
  have left: "preposts_at k s' = preposts_at k s @ (if length ?woken < unat ?outstanding
      then [\<lparr>pp_sequence = generation (ucast generations),
        pp_count = ?outstanding - word_of_nat (length ?woken), pp_kind = Wait_Condition\<rparr>] else [])"
    using assms(1) unfolding broadcast_condition_def Let_def k [symmetric] prod.inject
    by (elim conjE, hypsubst) (simp add: same)
  show ?thesis
  proof (cases "length ?woken < unat ?outstanding")
    case True
    then have "?outstanding - word_of_nat (length ?woken) = word_of_nat (unat ?outstanding - length ?woken)"
      by (simp add: of_nat_diff)
    with True show ?thesis unfolding left broadcast_credit_def by simp
  next
    case False
    then show ?thesis unfolding left broadcast_credit_def by simp
  qed
qed

end
