(* ===== verification/Psynch_Properties.thy ===== *)
theory Psynch_Properties
  imports Psynch_Credit
begin

text \<open>
  The properties of guest pthread synchronisation: no wait is lost, every unlock of a mutex
  grants it once, a broadcast releases exactly the waits it is for, an unlock of a read-write
  lock admits readers or one writer, and an exiting process leaves nothing behind.
\<close>

section \<open>Read-write locks\<close>

lemma rw_result_bits:
  "(word_of_nat n * generation_increment OR (if b then kernel_bit OR write_waiter_bit else 0)) AND exclusive_bit = 0"
  "(word_of_nat n * generation_increment OR (if b then kernel_bit OR write_waiter_bit else 0)) AND write_waiter_bit \<noteq> 0
    \<longleftrightarrow> b"
proof -
  have shifted: "word_of_nat n * generation_increment = push_bit 8 (word_of_nat n :: u32)"
    by (simp add: generation_increment_def push_bit_eq_mult)
  have exclusive: "w AND exclusive_bit = 0 \<longleftrightarrow> \<not> bit w 1" for w
    using and_exp_eq_0_iff_not_bit [of w 1] by (simp add: exclusive_bit_def)
  have writers: "w AND write_waiter_bit = 0 \<longleftrightarrow> \<not> bit w 2" for w
    using and_exp_eq_0_iff_not_bit [of w 2] by (simp add: write_waiter_bit_def)
  show "(word_of_nat n * generation_increment OR (if b then kernel_bit OR write_waiter_bit else 0)) AND exclusive_bit = 0"
    unfolding shifted exclusive by (simp add: bit_simps kernel_bit_def write_waiter_bit_def)
  show "(word_of_nat n * generation_increment OR (if b then kernel_bit OR write_waiter_bit else 0)) AND write_waiter_bit \<noteq> 0
    \<longleftrightarrow> b"
    unfolding shifted writers by (simp add: bit_simps kernel_bit_def write_waiter_bit_def)
qed

text \<open>What an unlock grants is a prefix of the queue: one writer, or readers up to the next
  writer.\<close>

definition fair_grant :: "waiter list \<Rightarrow> waiter list \<Rightarrow> bool" where
  "fair_grant granted waiting \<longleftrightarrow>
    granted = [] \<or> map wt_kind granted = [Wait_Write] \<or>
    ((\<forall>w\<in>set granted. wt_kind w = Wait_Read) \<and> (waiting \<noteq> [] \<longrightarrow> wt_kind (hd waiting) = Wait_Write))"

lemma grant_of_fair:
  assumes "\<forall>w\<in>set (first # rest). wt_kind w = Wait_Read \<or> wt_kind w = Wait_Write"
  shows "fair_grant (gr_granted (grant_of first rest)) (gr_waiters (grant_of first rest))"
    "w \<in> set (gr_granted (grant_of first rest)) \<Longrightarrow>
      (gr_result (grant_of first rest) AND exclusive_bit \<noteq> 0 \<longleftrightarrow> wt_kind w = Wait_Write) \<and>
      (gr_result (grant_of first rest) AND write_waiter_bit \<noteq> 0 \<longleftrightarrow>
        writer_among (gr_waiters (grant_of first rest)))"
proof -
  let ?reads = "\<lambda>w. wt_kind w = Wait_Read"
  have writer: "wt_kind (hd (dropWhile ?reads rest)) = Wait_Write" if "dropWhile ?reads rest \<noteq> []"
    using hd_dropWhile [OF that] assms set_dropWhileD [of "hd (dropWhile ?reads rest)" ?reads rest] that
    by (metis hd_in_set list.set_intros(2))
  show "fair_grant (gr_granted (grant_of first rest)) (gr_waiters (grant_of first rest))"
    using assms writer by (auto simp: fair_grant_def grant_of_def Let_def dest: set_takeWhileD)
  show "(gr_result (grant_of first rest) AND exclusive_bit \<noteq> 0 \<longleftrightarrow> wt_kind w = Wait_Write) \<and>
      (gr_result (grant_of first rest) AND write_waiter_bit \<noteq> 0 \<longleftrightarrow>
        writer_among (gr_waiters (grant_of first rest)))"
    if "w \<in> set (gr_granted (grant_of first rest))"
  proof (cases "wt_kind first = Wait_Write")
    case True
    then show ?thesis using that
      by (simp add: grant_of_def generation_increment_def kernel_bit_def exclusive_bit_def write_waiter_bit_def)
  next
    case False
    then have "wt_kind w = Wait_Read" using that assms by (auto simp: grant_of_def Let_def dest: set_takeWhileD)
    then show ?thesis using False by (simp add: grant_of_def Let_def rw_result_bits del: takeWhile.simps dropWhile.simps)
  qed
qed

lemma rw_kinds:
  assumes "waits_ok s" "k = object_key p object Rw_Queue" "w \<in> set (waiters_at k s)"
  shows "wt_kind w = Wait_Read \<or> wt_kind w = Wait_Write"
proof -
  have "belongs w k" using assms(1,3) unfolding waits_ok_def by blast
  then show ?thesis unfolding assms(2) by simp
qed

lemma grant_rwlock_fair:
  assumes "grant_rwlock k q rw word s = (out, s')" "\<forall>w\<in>set (wq_waiters q). wt_kind w = Wait_Read \<or> wt_kind w = Wait_Write"
  shows "\<exists>granted waiting. wq_waiters q = granted @ waiting \<and> waiters_at k s' = waiting \<and>
    ke_woken out = map wt_thread granted \<and> fair_grant granted waiting \<and>
    (\<forall>w\<in>set granted. \<exists>r. ps_completed s' (wt_thread w) = Some r \<and>
      (r AND exclusive_bit \<noteq> 0 \<longleftrightarrow> wt_kind w = Wait_Write) \<and>
      (r AND write_waiter_bit \<noteq> 0 \<longleftrightarrow> writer_among waiting))"
proof (cases "wq_waiters q")
  case Nil
  then show ?thesis using assms(1) by (auto simp: grant_rwlock_def fair_grant_def)
next
  case (Cons first rest)
  let ?g = "grant_of first rest"
  have at: "waiters_at k s' = gr_waiters ?g" "ke_woken out = map wt_thread (gr_granted ?g)"
    and got: "\<And>t. t \<in> wt_thread ` set (gr_granted ?g) \<Longrightarrow> ps_completed s' t = Some (gr_result ?g)"
    using assms(1) Cons by (auto simp: grant_rwlock_def Let_def)
  have split: "wq_waiters q = gr_granted ?g @ gr_waiters ?g" using Cons grant_of_split by simp
  have kinds: "\<forall>w\<in>set (first # rest). wt_kind w = Wait_Read \<or> wt_kind w = Wait_Write" using assms(2) Cons by simp
  note fair = grant_of_fair [OF kinds]
  have results: "\<exists>r. ps_completed s' (wt_thread w) = Some r \<and>
      (r AND exclusive_bit \<noteq> 0 \<longleftrightarrow> wt_kind w = Wait_Write) \<and>
      (r AND write_waiter_bit \<noteq> 0 \<longleftrightarrow> writer_among (gr_waiters ?g))" if "w \<in> set (gr_granted ?g)" for w
    using got [of "wt_thread w"] fair(2) [OF that] that by (intro exI [of _ "gr_result ?g"]) simp
  show ?thesis
    using split at fair(1) results by (intro exI [of _ "gr_granted ?g"] exI [of _ "gr_waiters ?g"]) blast
qed

section \<open>Examples\<close>

definition example_mutex :: psynch_object where
  "example_mutex = \<lparr>po_address = 0x1000, po_shared = None\<rparr>"

text \<open>One thread waits for a mutex, two readers and a writer for a lock.\<close>

definition example_waits :: psynch where
  "example_waits =
    (let s = snd (wait_mutex (\<lambda>_. True) (Psynch_Thread 1 0) example_mutex 0x300 0 new_psynch);
         s = snd (wait_rwlock (\<lambda>_. True) (Psynch_Thread 1 1) example_mutex 0x100 0 Wait_Read s);
         s = snd (wait_rwlock (\<lambda>_. True) (Psynch_Thread 1 2) example_mutex 0x200 0 Wait_Read s);
         s = snd (wait_rwlock (\<lambda>_. True) (Psynch_Thread 1 3) example_mutex 0x300 0 Wait_Write s) in
     snd (wait_condition (\<lambda>_. True) (Psynch_Thread 1 4) example_mutex 0x100 None 0 s))"

lemma example_queue:
  "map wt_thread (waiters_at (object_key 1 example_mutex Rw_Queue) example_waits) =
    [Psynch_Thread 1 1, Psynch_Thread 1 2, Psynch_Thread 1 3]"
  "waiters_at (object_key 1 example_mutex Mutex_Queue) example_waits =
    [\<lparr>wt_thread = Psynch_Thread 1 0, wt_sequence = 0x300, wt_kind = Wait_Mutex\<rparr>]"
  by code_simp+

text \<open>Reachable, and only the named threads have waited.\<close>

definition waited :: "psynch_thread set \<Rightarrow> psynch \<Rightarrow> bool" where
  "waited T s \<longleftrightarrow> psynch_reachable s \<and> (\<forall>t. t \<notin> T \<longrightarrow> idle t s)"

lemma waited_new: "waited {} new_psynch"
  using reach_new by (simp add: waited_def idle_def waits_def waiters_at_def queue_at_def new_psynch_def empty_wait_queue_def)

lemma waited_wait:
  assumes "waited T s" "t \<notin> T"
  shows "waited (insert t T) (snd (wait_mutex live t object lock flags s))"
    "kind = Wait_Read \<or> kind = Wait_Write \<Longrightarrow> waited (insert t T) (snd (wait_rwlock live t object lock word kind s))"
    "waited (insert t T) (snd (wait_condition live t object generations mutex flags s))"
proof -
  have s: "psynch_reachable s" "idle t s" "waits_ok s" using assms psynch_reachable_ok by (auto simp: waited_def)
  have waited: "waited (insert t T) s'" if "psynch_reachable s'" "\<And>u. idle u s \<Longrightarrow> u \<noteq> t \<Longrightarrow> idle u s'" for s'
    using that assms by (auto simp: waited_def)
  show "waited (insert t T) (snd (wait_mutex live t object lock flags s))"
  proof -
    obtain out s' where act: "wait_mutex live t object lock flags s = (out, s')" by fastforce
    show ?thesis using waited [OF reach_step [OF s(1) step_mutex_wait [OF s(2) act]] wait_mutex_ok(2) [OF s(3,2) act]] by (simp add: act)
  qed
  show "waited (insert t T) (snd (wait_rwlock live t object lock word kind s))" if "kind = Wait_Read \<or> kind = Wait_Write"
  proof -
    obtain out s' where act: "wait_rwlock live t object lock word kind s = (out, s')" by fastforce
    show ?thesis using waited [OF reach_step [OF s(1) step_rw_wait [OF s(2) that act]] wait_rwlock_ok(2) [OF s(3) that s(2) act]] by (simp add: act)
  qed
  show "waited (insert t T) (snd (wait_condition live t object generations mutex flags s))"
  proof -
    obtain out s' where act: "wait_condition live t object generations mutex flags s = (out, s')" by fastforce
    show ?thesis using waited [OF reach_step [OF s(1) step_condition_wait [OF s(2) act]] wait_condition_ok(2) [OF s(3,2) act]] by (simp add: act)
  qed
qed

lemma psynch_example_reachable: "psynch_reachable example_waits"
proof -
  have "waited {Psynch_Thread 1 4, Psynch_Thread 1 3, Psynch_Thread 1 2, Psynch_Thread 1 1, Psynch_Thread 1 0} example_waits"
    unfolding example_waits_def Let_def by (intro waited_wait waited_new) simp_all
  then show ?thesis by (simp add: waited_def)
qed

section \<open>Properties\<close>

text \<open>C20. No call loses a wait. Of the threads that wait, those the call wakes were waiting, wait
  nowhere any more and have their results; those whose wait it cancels, or whose process it clears,
  wait nowhere and have none; every other keeps its place in its queue.\<close>

theorem no_wait_lost:
  assumes "psynch_reachable s" "psynch_step s c woken s'" "w \<in> set (waiters_at k s)"
  shows "distinct woken \<and> (\<forall>t\<in>set woken. \<exists>k. waits t k s) \<and>
    (if wt_thread w \<in> set woken
     then (\<forall>k'. \<not> waits (wt_thread w) k' s') \<and> ps_completed s' (wt_thread w) \<noteq> None
     else if given_up c (wt_thread w)
     then (\<forall>k'. \<not> waits (wt_thread w) k' s') \<and> ps_completed s' (wt_thread w) = None
     else w \<in> set (waiters_at k s') \<and> ps_completed s' (wt_thread w) = None)"
proof -
  have ok: "waits_ok s" by (rule psynch_reachable_ok [OF assms(1)])
  have here: "waits (wt_thread w) k s" using assms(3) by (simp add: waits_def)
  have none: "ps_completed s (wt_thread w) = None" using ok here unfolding waits_ok_def by blast
  have left: "(wt_thread w \<in> T \<longrightarrow> (\<forall>k'. \<not> waits (wt_thread w) k' s') \<and> ps_completed s' (wt_thread w) = None) \<and>
      (wt_thread w \<notin> T \<longrightarrow> w \<in> set (waiters_at k s') \<and> ps_completed s' (wt_thread w) = None)"
    if "ends T s s'" for T
    using that assms(3) none by (auto simp: ends_def waits_def)
  show ?thesis
  proof (cases "given_up c (wt_thread w)")
    case True
    from given_up_ends [OF assms(2) ok this] left True show ?thesis by auto
  next
    case False
    consider (woke) "none_lost woken s s'" | (gave_up) "woken = []" "ends (Collect (given_up c)) s s'"
      | (took) t where "woken = []" "ends {t} s s'" "\<forall>k. \<not> waits t k s"
      using psynch_step_ok [OF assms(2) ok] by blast
    then show ?thesis
    proof cases
      case woke
      then show ?thesis using assms(3) False by (auto simp: none_lost_def)
    next
      case gave_up
      then show ?thesis using left False by simp
    next
      case took
      then have "wt_thread w \<notin> {t}" using here by auto
      then show ?thesis using left [OF took(2)] took(1) False by simp
    qed
  qed
qed

theorem no_wait_lost_witness:
  "\<exists>out s'. drop_mutex (\<lambda>_. True) 1 example_mutex 0x300 0x200 0 example_waits = (out, s') \<and>
    ke_woken out = [Psynch_Thread 1 0] \<and> ps_completed s' (Psynch_Thread 1 0) \<noteq> None \<and>
    (\<forall>k. \<not> waits (Psynch_Thread 1 0) k s')"
proof -
  obtain out s' where act: "drop_mutex (\<lambda>_. True) 1 example_mutex 0x300 0x200 0 example_waits = (out, s')" by fastforce
  have "ke_woken (fst (drop_mutex (\<lambda>_. True) 1 example_mutex 0x300 0x200 0 example_waits)) = [Psynch_Thread 1 0]"
    by code_simp
  then have woken: "ke_woken out = [Psynch_Thread 1 0]" by (simp add: act)
  have "\<lparr>wt_thread = Psynch_Thread 1 0, wt_sequence = 0x300, wt_kind = Wait_Mutex\<rparr> \<in>
      set (waiters_at (object_key 1 example_mutex Mutex_Queue) example_waits)"
    by (simp add: example_queue(2))
  from no_wait_lost [OF psynch_example_reachable step_mutex_drop [OF act] this] woken act show ?thesis by auto
qed

text \<open>C21. Unlocks of a mutex are neither lost nor doubled. Over any sequence of waits and drops on
  one mutex, by any threads and under either policy, the grants (waits that return at once and
  threads that drops wake) and the credit left for later waits add up to the drops and the credit
  there was; and the grants and the threads still waiting add up to the waits and the threads that
  waited before.\<close>

theorem mutex_grants_balance:
  assumes "psynch_reachable s" "mutex_run live object es s = (grants, s')"
    and "\<forall>e\<in>set es. mutex_key object e = k" "\<not> expired_queue live k"
  shows "grants + credit k s' + locks es = length es + credit k s \<and>
    grants + length (waiters_at k s') = locks es + length (waiters_at k s)"
proof -
  have "counted k s" using psynch_reachable_counted [OF assms(1)] by (simp add: all_counted_def)
  from mutex_run_balance [OF assms(2,3,4) this] show ?thesis by simp
qed

theorem mutex_grants_balance_witness:
  "fst (mutex_run (\<lambda>_. True) example_mutex [Unlock_Mutex 1 0x300 0x200 0, Unlock_Mutex 1 0x300 0x300 0,
      Lock_Mutex (Psynch_Thread 1 7) 0x400 0] example_waits) = 2 \<and>
   credit (object_key 1 example_mutex Mutex_Queue) (snd (mutex_run (\<lambda>_. True) example_mutex
     [Unlock_Mutex 1 0x300 0x200 0, Unlock_Mutex 1 0x300 0x300 0, Lock_Mutex (Psynch_Thread 1 7) 0x400 0]
     example_waits)) = 0"
proof -
  let ?es = "[Unlock_Mutex 1 0x300 0x200 0, Unlock_Mutex 1 0x300 0x300 0, Lock_Mutex (Psynch_Thread 1 7) 0x400 0]"
  let ?k = "object_key 1 example_mutex Mutex_Queue"
  obtain grants s' where run: "mutex_run (\<lambda>_. True) example_mutex ?es example_waits = (grants, s')" by fastforce
  have "fst (mutex_run (\<lambda>_. True) example_mutex ?es example_waits) = 2" by code_simp
  then have grants: "grants = 2" unfolding run fst_conv .
  have start: "credit ?k example_waits = 0" by code_simp
  have live: "\<not> expired_queue (\<lambda>_. True) ?k" by code_simp
  have keys: "\<forall>e\<in>set ?es. mutex_key example_mutex e = ?k" by simp
  have "grants + credit ?k s' + locks ?es = length ?es + credit ?k example_waits"
    using mutex_grants_balance [OF psynch_example_reachable run keys live] by simp
  then have "credit ?k s' = 0" using grants start by simp
  then show ?thesis unfolding run fst_conv snd_conv using grants by blast
qed



text \<open>C23. An unlock of a read-write lock admits a prefix of the queue: nobody, exactly one writer, or
  readers up to the next writer. Whoever it wakes finds in its result that it holds the lock
  exclusively exactly if it is a writer, and that a writer waits exactly if one does.\<close>

theorem rw_unlock_admits:
  assumes "psynch_reachable s" "unlock_rwlock live p object lock unlock word s = (out, s')"
    and "k = object_key p object Rw_Queue"
  shows "\<exists>granted waiting. waiters_at k s = granted @ waiting \<and> waiters_at k s' = waiting \<and>
    ke_woken out = map wt_thread granted \<and> fair_grant granted waiting \<and>
    (\<forall>w\<in>set granted. \<exists>r. ps_completed s' (wt_thread w) = Some r \<and>
      (r AND exclusive_bit \<noteq> 0 \<longleftrightarrow> wt_kind w = Wait_Write) \<and>
      (r AND write_waiter_bit \<noteq> 0 \<longleftrightarrow> writer_among waiting))"
proof -
  let ?s = "count_operation live object s"
  consider (none) "ke_woken out = []" "\<exists>rw. s' = put_wait_queue k (queue_at k ?s\<lparr>wq_rw := rw\<rparr>) ?s"
    | (grant) rw where "grant_rwlock k (queue_at k ?s) rw word ?s = (out, s')"
    using assms(2) unfolding unlock_rwlock_def Let_def assms(3) [symmetric] by (fastforce split: if_splits)
  then show ?thesis
  proof cases
    case none
    then have "waiters_at k s' = waiters_at k s" by (auto simp: waiters_queue_at)
    then show ?thesis using none(1) by (intro exI [of _ "[]"] exI [of _ "waiters_at k s"]) (simp add: fair_grant_def)
  next
    case grant
    have "\<forall>w\<in>set (wq_waiters (queue_at k ?s)). wt_kind w = Wait_Read \<or> wt_kind w = Wait_Write"
      using rw_kinds [OF psynch_reachable_ok [OF assms(1)] assms(3)] by (simp add: waiters_queue_at)
    from grant_rwlock_fair [OF grant this] show ?thesis by (simp add: waiters_queue_at)
  qed
qed

theorem rw_unlock_admits_witness:
  "ke_woken (fst (unlock_rwlock (\<lambda>_. True) 1 example_mutex 0x300 0 0x100 example_waits)) =
      [Psynch_Thread 1 1, Psynch_Thread 1 2] \<and>
    (\<exists>r. ps_completed (snd (unlock_rwlock (\<lambda>_. True) 1 example_mutex 0x300 0 0x100 example_waits))
        (Psynch_Thread 1 1) = Some r \<and> r AND write_waiter_bit \<noteq> 0)"
proof -
  let ?k = "object_key 1 example_mutex Rw_Queue"
  obtain out s' where act: "unlock_rwlock (\<lambda>_. True) 1 example_mutex 0x300 0 0x100 example_waits = (out, s')" by fastforce
  have "ke_woken (fst (unlock_rwlock (\<lambda>_. True) 1 example_mutex 0x300 0 0x100 example_waits)) =
      [Psynch_Thread 1 1, Psynch_Thread 1 2]" by code_simp
  then have woken: "ke_woken out = [Psynch_Thread 1 1, Psynch_Thread 1 2]" by (simp add: act)
  have "writer_among (waiters_at ?k (snd (unlock_rwlock (\<lambda>_. True) 1 example_mutex 0x300 0 0x100 example_waits)))"
    by code_simp
  then have more: "writer_among (waiters_at ?k s')" by (simp add: act)
  obtain granted waiting where "waiters_at ?k example_waits = granted @ waiting \<and> waiters_at ?k s' = waiting \<and>
    ke_woken out = map wt_thread granted \<and> fair_grant granted waiting \<and>
    (\<forall>w\<in>set granted. \<exists>r. ps_completed s' (wt_thread w) = Some r \<and>
      (r AND exclusive_bit \<noteq> 0 \<longleftrightarrow> wt_kind w = Wait_Write) \<and>
      (r AND write_waiter_bit \<noteq> 0 \<longleftrightarrow> writer_among waiting))"
    using rw_unlock_admits [OF psynch_example_reachable act refl] by (elim exE) (rule that)
  note rest = this [THEN conjunct2]
  note split = rest [THEN conjunct1] rest [THEN conjunct2, THEN conjunct1]
    rest [THEN conjunct2, THEN conjunct2, THEN conjunct2]
  obtain w where "w \<in> set granted" "wt_thread w = Psynch_Thread 1 1" using split(2) woken by (cases granted) auto
  then have "\<exists>r. ps_completed s' (Psynch_Thread 1 1) = Some r \<and> r AND write_waiter_bit \<noteq> 0"
    using split(1,3) more by metis
  then show ?thesis unfolding act fst_conv snd_conv woken by blast
qed

text \<open>C24. The comparison of generations is the order of the counters behind them, however often those
  have wrapped, as long as they are less than half the space apart.\<close>

theorem sequence_order:
  assumes "a \<le> b + 2 ^ 23" "b < a + 2 ^ 23"
  shows "sequence_not_after (word_of_nat (256 * a)) (word_of_nat (256 * b)) \<longleftrightarrow> a \<le> b"
proof (cases "a \<le> b")
  case True
  have "unat (generation_count (word_of_nat (256 * b)) (word_of_nat (256 * a))) < 2 ^ 23"
    using generation_count_ahead [OF True assms(2)] assms by simp
  with True show ?thesis by (simp add: sequence_not_after_def word_less_nat_alt)
next
  case False
  then have "2 ^ 23 \<le> unat (generation_count (word_of_nat (256 * b)) (word_of_nat (256 * a)))"
    using generation_count_behind assms(1) by simp
  with False show ?thesis by (simp add: sequence_not_after_def word_less_nat_alt)
qed

theorem sequence_order_witness:
  "sequence_not_after 0xffffff00 0x00000100 \<and> \<not> sequence_not_after 0x00000100 0xffffff00"
proof -
  have eq: "(word_of_nat (256 * 0xffffff) :: u32) = 0xffffff00" "(word_of_nat (256 * 0x1000001) :: u32) = 0x100" by simp_all
  have near: "(0xffffff :: nat) \<le> 0x1000001 + 2 ^ 23" "(0x1000001 :: nat) < 0xffffff + 2 ^ 23"
    "(0x1000001 :: nat) \<le> 0xffffff + 2 ^ 23" "(0xffffff :: nat) < 0x1000001 + 2 ^ 23" by simp_all
  have "sequence_not_after 0xffffff00 0x00000100 \<longleftrightarrow> (0xffffff :: nat) \<le> 0x1000001"
    by (rule sequence_order [OF near(1,2), unfolded eq])
  moreover have "sequence_not_after 0x00000100 0xffffff00 \<longleftrightarrow> (0x1000001 :: nat) \<le> 0xffffff"
    by (rule sequence_order [OF near(3,4), unfolded eq])
  ultimately show ?thesis by simp
qed

text \<open>Clearing an exiting process ends every wait and result of its threads and erases every
  queue private to it; the waits and results of other threads and the private queues of other
  processes, with their preposts and lock states, stay as they are.\<close>

theorem process_cleared:
  assumes "psynch_reachable s" "s' = clear_process live p s"
  shows "(\<forall>t. ps_process t = p \<longrightarrow> idle t s') \<and>
    (\<forall>k. \<not> wk_shared k \<longrightarrow> (if wk_process k = p then ps_queues s' k = None else queue_at k s' = queue_at k s)) \<and>
    (\<forall>t. ps_process t \<noteq> p \<longrightarrow> ps_completed s' t = ps_completed s t \<and> (\<forall>k. waits t k s' = waits t k s))"
proof -
  have ok: "waits_ok s" by (rule psynch_reachable_ok [OF assms(1)])
  have e: "ends {t. ps_process t = p} s s'" unfolding assms(2) by (rule clear_process_ends [OF ok])
  have at: "waits t k s' \<longleftrightarrow> waits t k s \<and> ps_process t \<noteq> p" for t k
    using e by (auto simp: ends_def waits_def)
  have completed: "ps_completed s' t = (if ps_process t = p then None else ps_completed s t)" for t
    using e by (simp add: ends_def)
  have same: "queue_at k s' = queue_at k s" if "\<not> wk_shared k" "wk_process k \<noteq> p" for k
  proof -
    have "ps_process (wt_thread w) \<noteq> p" if "w \<in> set (waiters_at k s)" for w
    proof -
      have "belongs w k" using ok that unfolding waits_ok_def by blast
      then show ?thesis using \<open>\<not> wk_shared k\<close> \<open>wk_process k \<noteq> p\<close> by (simp add: belongs_def)
    qed
    then have "filter (\<lambda>w. ps_process (wt_thread w) \<noteq> p) (waiters_at k s) = waiters_at k s"
      by (simp add: filter_id_conv)
    then show ?thesis
      using that unfolding assms(2)
      by (auto simp: clear_process_def erase_queues_def drop_waiters_def queue_at_def abandoned_def
        expired_queue_def empty_wait_queue_def waiters_at_def comp_def split: option.splits)
  qed
  have gone: "ps_queues s' k = None" if "\<not> wk_shared k" "wk_process k = p" for k
    using that unfolding assms(2) by (simp add: clear_process_def erase_queues_def split: option.splits)
  show ?thesis using at completed same gone by (simp add: idle_def)
qed

theorem process_cleared_witness:
  "idle (Psynch_Thread 1 0) (clear_process (\<lambda>_. True) 1 example_waits)"
proof -
  have "ps_process (Psynch_Thread 1 0) = 1" by simp
  then show ?thesis using process_cleared [OF psynch_example_reachable refl] by blast
qed

end
