(* ===== verification/Signal_State.thy ===== *)
theory Signal_State
  imports Word_Facts
begin

text \<open>
  The signal masks and pending signals of one guest process,
  \<^verbatim>\<open>kernel/include/kernel/darwin_signal_state.hpp\<close>, class
  \<^verbatim>\<open>DarwinSignalState\<close>: one record per processor slot, the signals of retired
  threads kept for exec, and the creation order by which a signal chooses its thread.

  A signal number is a \<open>nat\<close> below 32, a set of signals a 32-bit word with bit
  \<open>n - 1\<close> for signal \<open>n\<close>, a processor a \<open>nat\<close> that indexes the vector.
\<close>

unbundle bit_operations_syntax

section \<open>Firmware generations and signal numbers\<close>

datatype darwin_generation =
  Unknown_Darwin | IphoneOs1 | IphoneOs2 | IphoneOs3 | Ios4 | Ios5 | Ios6 | Ios7 | Ios8 | Ios9 | Ios10

primrec generation_number :: "darwin_generation \<Rightarrow> nat" where
  "generation_number Unknown_Darwin = 0"
| "generation_number IphoneOs1 = 1"
| "generation_number IphoneOs2 = 5"
| "generation_number IphoneOs3 = 7"
| "generation_number Ios4 = 8"
| "generation_number Ios5 = 9"
| "generation_number Ios6 = 10"
| "generation_number Ios7 = 11"
| "generation_number Ios8 = 12"
| "generation_number Ios9 = 13"
| "generation_number Ios10 = 14"

definition sig_kill :: nat where "sig_kill = 9"
definition sig_urgent :: nat where "sig_urgent = 16"
definition sig_stop :: nat where "sig_stop = 17"
definition sig_terminal_stop :: nat where "sig_terminal_stop = 18"
definition sig_resume :: nat where "sig_resume = 19"
definition sig_child :: nat where "sig_child = 20"
definition sig_terminal_input :: nat where "sig_terminal_input = 21"
definition sig_terminal_output :: nat where "sig_terminal_output = 22"
definition sig_io :: nat where "sig_io = 23"
definition sig_window_change :: nat where "sig_window_change = 28"
definition sig_information :: nat where "sig_information = 29"
definition signal_count :: nat where "signal_count = 32"

lemmas signal_numbers = sig_kill_def sig_urgent_def sig_stop_def sig_terminal_stop_def
  sig_resume_def sig_child_def sig_terminal_input_def sig_terminal_output_def sig_io_def
  sig_window_change_def sig_information_def signal_count_def

text \<open>\<^verbatim>\<open>1U << (signal - 1U)\<close>.\<close>

definition signal_bit :: "nat \<Rightarrow> u32" where
  "signal_bit n = push_bit (n - 1) 1"

definition unmaskable :: u32 where
  "unmaskable = signal_bit sig_kill OR signal_bit sig_stop"

definition stop_mask :: u32 where
  "stop_mask = push_bit 16 1 OR push_bit 17 1 OR push_bit 20 1 OR push_bit 21 1"

definition continue_mask :: u32 where
  "continue_mask = push_bit 18 1"

definition exec_mask :: u32 where
  "exec_mask = stop_mask OR continue_mask OR push_bit 0 1 OR push_bit 1 1 OR push_bit 2 1 OR
     push_bit 8 1 OR push_bit 14 1 OR push_bit 29 1 OR push_bit 30 1"

definition workqueue_mask :: u32 where
  "workqueue_mask = NOT (unmaskable OR push_bit 3 1 OR push_bit 4 1 OR push_bit 5 1 OR
     push_bit 6 1 OR push_bit 7 1 OR push_bit 9 1 OR push_bit 10 1 OR push_bit 11 1 OR
     push_bit 12 1)"

section \<open>State\<close>

record signal_thread =
  st_mask :: u32
  st_saved :: "u32 option"
  st_active :: bool
  st_pending :: u32
  st_order :: u64
  st_wait_mask :: u32

definition blank_thread :: signal_thread where
  "blank_thread = \<lparr>st_mask = 0, st_saved = None, st_active = False, st_pending = 0,
     st_order = 0, st_wait_mask = 0\<rparr>"

datatype child_policy = Reparent | Kernel_Reap | Consume_On_Reap

record signal_state =
  ss_retain_retired :: bool
  ss_wait_consumes_owner :: bool
  ss_wait_reports_interrupt :: bool
  ss_child_policy :: child_policy
  ss_retired_pending :: u32
  ss_next_order :: u64
  ss_threads :: "signal_thread list"

definition new_signal_state :: "darwin_generation \<Rightarrow> signal_state" where
  "new_signal_state g =
    (let number = generation_number g in
     \<lparr>ss_retain_retired = generation_number IphoneOs3 \<le> number,
      ss_wait_consumes_owner = generation_number IphoneOs2 \<le> number,
      ss_wait_reports_interrupt = generation_number IphoneOs3 \<le> number,
      ss_child_policy =
        (if generation_number IphoneOs3 \<le> number then Consume_On_Reap
         else if generation_number IphoneOs2 \<le> number then Kernel_Reap else Reparent),
      ss_retired_pending = 0, ss_next_order = 2,
      ss_threads = [blank_thread\<lparr>st_active := True, st_order := 1\<rparr>]\<rparr>)"

section \<open>Reading\<close>

definition thread_count :: "signal_state \<Rightarrow> nat" where
  "thread_count s = length (ss_threads s)"

definition signal_mask :: "nat \<Rightarrow> signal_state \<Rightarrow> u32" where
  "signal_mask p s = (if p < thread_count s then st_mask (ss_threads s ! p) else 0)"

definition inherited_mask :: "nat \<Rightarrow> signal_state \<Rightarrow> u32" where
  "inherited_mask p s =
    (if thread_count s \<le> p then 0
     else let t = ss_threads s ! p in
       (case st_saved t of Some m \<Rightarrow> m | None \<Rightarrow> st_mask t))"

definition signals_pending :: "nat \<Rightarrow> signal_state \<Rightarrow> u32" where
  "signals_pending p s = (if p < thread_count s then st_pending (ss_threads s ! p) else 0)"

definition waiting_for :: "nat \<Rightarrow> signal_state \<Rightarrow> u32" where
  "waiting_for p s = (if p < thread_count s then st_wait_mask (ss_threads s ! p) else 0)"

definition signals_ready :: "nat \<Rightarrow> signal_state \<Rightarrow> u32" where
  "signals_ready p s = signals_pending p s AND (NOT (signal_mask p s) OR waiting_for p s)"

definition reaps_ignored_children :: "signal_state \<Rightarrow> bool" where
  "reaps_ignored_children s \<longleftrightarrow> ss_child_policy s \<noteq> Reparent"

definition child_stop_status :: "u32 \<Rightarrow> signal_state \<Rightarrow> u32" where
  "child_stop_status signal s =
    (if reaps_ignored_children s \<and> signal = of_nat sig_stop then signal else 0)"

definition needs_last_child_check :: "nat \<Rightarrow> signal_state \<Rightarrow> bool" where
  "needs_last_child_check p s \<longleftrightarrow>
    ss_child_policy s = Consume_On_Reap \<and>
    signal_mask p s AND signals_pending p s AND signal_bit sig_child \<noteq> 0"

section \<open>Masks\<close>

definition initialize :: "nat \<Rightarrow> u32 \<Rightarrow> signal_state \<Rightarrow> signal_state" where
  "initialize p v s =
    (let threads = (if thread_count s \<le> p
        then ss_threads s @ replicate (p + 1 - thread_count s) blank_thread else ss_threads s) in
     s\<lparr>ss_threads := threads[p := \<lparr>st_mask = v AND NOT unmaskable, st_saved = None,
          st_active = True, st_pending = 0, st_order = ss_next_order s, st_wait_mask = 0\<rparr>],
       ss_next_order := ss_next_order s + 1\<rparr>)"

definition retire :: "nat \<Rightarrow> signal_state \<Rightarrow> signal_state" where
  "retire p s =
    (if p < thread_count s then
       s\<lparr>ss_retired_pending := (if ss_retain_retired s
           then ss_retired_pending s OR (st_pending (ss_threads s ! p) AND exec_mask)
           else ss_retired_pending s),
         ss_threads := (ss_threads s)[p := blank_thread]\<rparr>
     else s)"

definition reset_signals :: "nat \<Rightarrow> u32 \<Rightarrow> signal_state \<Rightarrow> signal_state" where
  "reset_signals p v s =
    initialize p v (s\<lparr>ss_threads := [], ss_retired_pending := 0, ss_next_order := 1\<rparr>)"

datatype mask_scope = Thread_Scope | Process_Scope

definition apply_mask :: "u32 \<Rightarrow> u32 \<Rightarrow> signal_thread \<Rightarrow> signal_thread" where
  "apply_mask how v t =
    (let m = (if how = 1 then st_mask t OR v
              else if how = 2 then st_mask t AND NOT v
              else if how = 3 then v else st_mask t) in
     t\<lparr>st_mask := m AND NOT unmaskable\<rparr>)"

definition update_mask ::
  "nat \<Rightarrow> u32 \<Rightarrow> u32 \<Rightarrow> mask_scope \<Rightarrow> signal_state \<Rightarrow> bool \<times> signal_state" where
  "update_mask p how v scope s =
    (if how < 1 \<or> 3 < how then (False, s)
     else
       let s = (if thread_count s \<le> p \<or> \<not> st_active (ss_threads s ! p)
                then initialize p 0 s else s) in
       case scope of
         Thread_Scope \<Rightarrow>
           (True, s\<lparr>ss_threads := (ss_threads s)[p := apply_mask how v (ss_threads s ! p)]\<rparr>)
       | Process_Scope \<Rightarrow>
           (True, s\<lparr>ss_threads :=
              map (\<lambda>t. if st_active t then apply_mask how v t else t) (ss_threads s)\<rparr>))"

definition change_thread ::
  "nat \<Rightarrow> (signal_thread \<Rightarrow> signal_thread) \<Rightarrow> signal_state \<Rightarrow> signal_state" where
  "change_thread p f s = s\<lparr>ss_threads := (ss_threads s)[p := f (ss_threads s ! p)]\<rparr>"

definition suspend_mask :: "nat \<Rightarrow> u32 \<Rightarrow> signal_state \<Rightarrow> signal_state" where
  "suspend_mask p v s =
    (let previous = signal_mask p s in
     change_thread p (st_saved_update (\<lambda>_. Some previous))
       (snd (update_mask p 3 v Thread_Scope s)))"

definition resume_mask :: "nat \<Rightarrow> signal_state \<Rightarrow> signal_state" where
  "resume_mask p s =
    (if p < thread_count s then
       change_thread p (\<lambda>t. t\<lparr>st_mask := (case st_saved t of Some m \<Rightarrow> m | None \<Rightarrow> st_mask t),
         st_saved := None, st_wait_mask := 0\<rparr>) s
     else s)"

definition begin_wait :: "nat \<Rightarrow> u32 \<Rightarrow> signal_state \<Rightarrow> signal_state" where
  "begin_wait p signals s =
    change_thread p (st_wait_mask_update (\<lambda>_. signals)) (suspend_mask p (NOT signals) s)"

section \<open>Pending signals\<close>

definition consume :: "nat \<Rightarrow> u32 \<Rightarrow> signal_state \<Rightarrow> signal_state" where
  "consume p bits s =
    (if p < thread_count s
     then change_thread p (\<lambda>t. t\<lparr>st_pending := st_pending t AND NOT bits\<rparr>) s else s)"

definition accept_wait_signal :: "nat \<Rightarrow> u32 \<Rightarrow> signal_state \<Rightarrow> signal_state" where
  "accept_wait_signal p b s =
    consume p b (change_thread p (st_wait_mask_update (\<lambda>_. b)) s)"

definition reaped_last_child :: "nat \<Rightarrow> signal_state \<Rightarrow> signal_state" where
  "reaped_last_child p s =
    (if needs_last_child_check p s then consume p (signal_bit sig_child) s else s)"

definition enqueue_signal :: "nat \<Rightarrow> u32 \<Rightarrow> signal_state \<Rightarrow> signal_state" where
  "enqueue_signal p b s =
    (if thread_count s \<le> p \<or> \<not> st_active (ss_threads s ! p) then s
     else change_thread p (\<lambda>t.
       let list = st_pending t;
           list = (if b AND continue_mask \<noteq> 0 then list AND NOT stop_mask else list);
           list = (if b AND stop_mask \<noteq> 0 then list AND NOT continue_mask else list)
       in t\<lparr>st_pending := list OR b\<rparr>) s)"

definition discard_signals :: "u32 \<Rightarrow> signal_state \<Rightarrow> signal_state" where
  "discard_signals bits s =
    s\<lparr>ss_retired_pending := ss_retired_pending s AND NOT bits,
      ss_threads := map (\<lambda>t. t\<lparr>st_pending := st_pending t AND NOT bits\<rparr>) (ss_threads s)\<rparr>"

text \<open>The scan for the thread created first: the candidate replaces the one found so far
  only if it is older.\<close>

definition older :: "signal_thread list \<Rightarrow> nat \<Rightarrow> nat option \<Rightarrow> bool" where
  "older threads i best \<longleftrightarrow>
    (case best of None \<Rightarrow> True | Some j \<Rightarrow> st_order (threads ! i) < st_order (threads ! j))"

definition take_pending :: "nat \<Rightarrow> u32 \<Rightarrow> signal_state \<Rightarrow> nat option \<times> signal_state" where
  "take_pending waiter signals s =
    (let threads = ss_threads s;
         owner = fold (\<lambda>i owner.
           if st_pending (threads ! i) AND signals \<noteq> 0 \<and> older threads i owner
           then Some i else owner) [0..<length threads] None
     in case owner of
          None \<Rightarrow> (None, s)
        | Some i \<Rightarrow>
            let signal = countr_zero (st_pending (threads ! i) AND signals) + 1 in
            (Some signal, consume (if ss_wait_consumes_owner s then i else waiter)
               (signal_bit signal) s))"

definition choose_thread :: "u32 \<Rightarrow> (nat \<Rightarrow> bool) \<Rightarrow> signal_state \<Rightarrow> nat option" where
  "choose_thread b eligible s =
    (let threads = ss_threads s;
         (first, unblocked) = fold (\<lambda>i (first, unblocked).
           let t = threads ! i in
           if \<not> st_active t then (first, unblocked)
           else
             ((if older threads i first then Some i else first),
              (if eligible i \<and> (st_mask t AND b = 0 \<or> st_wait_mask t AND b \<noteq> 0) \<and>
                  older threads i unblocked
               then Some i else unblocked))) [0..<length threads] (None, None)
     in (case unblocked of Some i \<Rightarrow> Some i | None \<Rightarrow> first))"

section \<open>Replacing the program image\<close>

definition exec_signals :: "nat \<Rightarrow> signal_state \<Rightarrow> signal_state" where
  "exec_signals p s =
    (let list = signals_pending p s OR ss_retired_pending s;
         list = (if ss_retain_retired s
           then fold (\<lambda>i list. if i \<noteq> p then list OR (st_pending (ss_threads s ! i) AND exec_mask)
                 else list) [0..<thread_count s] list
           else list);
         v = signal_mask p s
     in change_thread p (st_pending_update (\<lambda>_. list)) (reset_signals p v s))"

end
