(* ===== verification/Signal_Masks.thy ===== *)
theory Signal_Masks
  imports Signal_State
begin

text \<open>
  What the masks and queues of \<open>Signal_State\<close> promise: kill and stop are never masked,
  a blank slot holds nothing, the thread a signal goes to is the oldest that may take it, and
  the temporary masks of a wait are undone.
\<close>

unbundle bit_operations_syntax

named_theorems signal_threads "the fields of a thread after an operation"

section \<open>The bits of signal sets\<close>

lemma bit_push_1: "bit (push_bit k 1 :: u32) i \<longleftrightarrow> i = k \<and> k < 32"
  by (auto simp: bit_push_bit_iff bit_1_iff simp del: push_bit_of_1)

lemma bit_signal_bit [simp]: "bit (signal_bit n) i \<longleftrightarrow> i = n - 1 \<and> i < 32"
  unfolding signal_bit_def by (subst bit_push_1) auto

lemma bit_unmaskable: "bit unmaskable i \<longleftrightarrow> i = 8 \<or> i = 16"
  by (auto simp: unmaskable_def bit_or_iff signal_numbers)

lemma bit_stop_mask: "bit stop_mask i \<longleftrightarrow> i = 16 \<or> i = 17 \<or> i = 20 \<or> i = 21"
  unfolding stop_mask_def bit_or_iff bit_push_1 by auto

lemma bit_continue_mask: "bit continue_mask i \<longleftrightarrow> i = 18"
  unfolding continue_mask_def bit_push_1 by auto

lemma disjoint_bits: "v AND w = 0 \<longleftrightarrow> (\<forall>i. bit v i \<longrightarrow> bit w i \<longrightarrow> \<not> i < 32)"
  for v w :: u32
  by (auto simp: bit_eq_iff bit_and_iff dest: bit_imp_le_length)

lemma free_of_kill_stop: "v AND unmaskable = 0 \<longleftrightarrow> \<not> bit v 8 \<and> \<not> bit v 16"
  by (auto simp: disjoint_bits bit_unmaskable)

lemma and_signal_bit: "v AND signal_bit n = 0 \<longleftrightarrow> \<not> (n - 1 < 32 \<and> bit v (n - 1))"
  by (auto simp: disjoint_bits)

lemma least_bit:
  assumes "w \<noteq> (0 :: 'a::len word)"
  shows "bit w (countr_zero w)" "i < countr_zero w \<Longrightarrow> \<not> bit w i" "countr_zero w < LENGTH('a)"
proof -
  let ?t = "takeWhile (\<lambda>i. \<not> bit w i) [0..<LENGTH('a)]"
  have "\<exists>i < LENGTH('a). bit w i"
    using assms by (auto simp: bit_eq_iff dest: bit_imp_le_length)
  then have "?t \<noteq> [0..<LENGTH('a)]" by (auto simp: takeWhile_eq_all_conv)
  then have "length ?t < LENGTH('a)"
    using length_takeWhile_le [of "\<lambda>i. \<not> bit w i" "[0..<LENGTH('a)]"]
    by (metis append_Nil2 append_eq_conv_conj diff_zero le_neq_implies_less length_upt
        takeWhile_eq_take take_all)
  then show "countr_zero w < LENGTH('a)" by (simp add: countr_zero_def)
  show "bit w (countr_zero w)"
    using nth_length_takeWhile [of "\<lambda>i. \<not> bit w i" "[0..<LENGTH('a)]"] \<open>length ?t < _\<close>
    by (simp add: countr_zero_def)
  show "i < countr_zero w \<Longrightarrow> \<not> bit w i"
  proof -
    assume "i < countr_zero w"
    then have "i < length ?t" by (simp add: countr_zero_def)
    then have "?t ! i \<in> set ?t" by (rule nth_mem)
    moreover have "?t ! i = i"
      using \<open>i < length ?t\<close> \<open>length ?t < _\<close> by (simp add: takeWhile_nth)
    ultimately show "\<not> bit w i" by (metis set_takeWhileD)
  qed
qed

lemma clear_least_less:
  assumes "w \<noteq> (0 :: u32)" shows "w AND NOT (push_bit (countr_zero w) 1) < w"
proof -
  have "\<not> bit (w AND NOT (push_bit (countr_zero w) 1)) (countr_zero w)"
    unfolding bit_and_iff bit_not_iff bit_push_1 using least_bit(3) [OF assms] by simp
  then have "w AND NOT (push_bit (countr_zero w) 1) \<noteq> w"
    using least_bit(1) [OF assms] by metis
  moreover have "w AND NOT (push_bit (countr_zero w) 1) \<le> w" by (rule word_and_le2)
  ultimately show ?thesis by simp
qed

section \<open>The eldest thread\<close>

definition eldest :: "signal_thread list \<Rightarrow> (nat \<Rightarrow> bool) \<Rightarrow> nat option \<Rightarrow> bool" where
  "eldest threads P r \<longleftrightarrow>
    (case r of
       None \<Rightarrow> \<forall>i < length threads. \<not> P i
     | Some i \<Rightarrow> i < length threads \<and> P i \<and>
         (\<forall>j < length threads. P j \<longrightarrow>
            st_order (threads ! i) < st_order (threads ! j) \<or>
            st_order (threads ! i) = st_order (threads ! j) \<and> i \<le> j))"

lemma eldest_scan:
  "eldest threads P
     (fold (\<lambda>i best. if P i \<and> older threads i best then Some i else best)
        [0..<length threads] None)"
proof -
  have "n \<le> length threads \<Longrightarrow>
      (case fold (\<lambda>i best. if P i \<and> older threads i best then Some i else best) [0..<n] None of
         None \<Rightarrow> \<forall>i < n. \<not> P i
       | Some i \<Rightarrow> i < n \<and> P i \<and>
           (\<forall>j < n. P j \<longrightarrow>
              st_order (threads ! i) < st_order (threads ! j) \<or>
              st_order (threads ! i) = st_order (threads ! j) \<and> i \<le> j))" for n
  proof (induction n)
    case (Suc n)
    then show ?case
      by (force simp: older_def less_Suc_eq not_less order_le_less split: option.splits)
  qed simp
  from this [of "length threads"] show ?thesis by (simp add: eldest_def)
qed

lemma choose_thread_scans:
  "choose_thread b el s =
    (let threads = ss_threads s;
         scan = (\<lambda>P. fold (\<lambda>i best. if P i \<and> older threads i best then Some i else best)
                     [0..<length threads] None)
     in case scan (\<lambda>i. st_active (threads ! i) \<and> el i \<and>
                 (st_mask (threads ! i) AND b = 0 \<or> st_wait_mask (threads ! i) AND b \<noteq> 0)) of
          Some i \<Rightarrow> Some i
        | None \<Rightarrow> scan (\<lambda>i. st_active (threads ! i)))"
proof -
  let ?t = "ss_threads s"
  let ?P = "\<lambda>i. st_active (?t ! i) \<and> el i \<and>
    (st_mask (?t ! i) AND b = 0 \<or> st_wait_mask (?t ! i) AND b \<noteq> 0)"
  have "fold (\<lambda>i (first, unblocked).
           let t = ?t ! i in
           if \<not> st_active t then (first, unblocked)
           else ((if older ?t i first then Some i else first),
              (if el i \<and> (st_mask t AND b = 0 \<or> st_wait_mask t AND b \<noteq> 0) \<and>
                  older ?t i unblocked
               then Some i else unblocked))) xs (f, u) =
    (fold (\<lambda>i best. if st_active (?t ! i) \<and> older ?t i best then Some i else best) xs f,
     fold (\<lambda>i best. if ?P i \<and> older ?t i best then Some i else best) xs u)" for xs f u
    by (induction xs arbitrary: f u) (auto simp: Let_def)
  then show ?thesis by (simp add: choose_thread_def Let_def)
qed

section \<open>Laws of single threads\<close>

text \<open>A property of single threads that each kind of change keeps is kept by every
  operation.\<close>

locale thread_law =
  fixes ok :: "signal_thread \<Rightarrow> bool"
  assumes blank: "ok blank_thread"
    and fresh: "ok \<lparr>st_mask = v AND NOT unmaskable, st_saved = None, st_active = True,
      st_pending = 0, st_order = order, st_wait_mask = 0\<rparr>"
    and masked: "ok t \<Longrightarrow> st_active t \<Longrightarrow> ok (apply_mask how v t)"
    and saved: "ok t \<Longrightarrow> st_active t \<Longrightarrow> ok u \<Longrightarrow> ok (t\<lparr>st_saved := Some (st_mask u)\<rparr>)"
    and resumed: "ok t \<Longrightarrow> ok (t\<lparr>st_mask := (case st_saved t of Some m \<Rightarrow> m | None \<Rightarrow> st_mask t),
      st_saved := None, st_wait_mask := 0\<rparr>)"
    and waiting: "ok t \<Longrightarrow> st_active t \<Longrightarrow> w AND unmaskable = 0 \<Longrightarrow> ok (t\<lparr>st_wait_mask := w\<rparr>)"
    and drained: "ok t \<Longrightarrow> ok (t\<lparr>st_pending := st_pending t AND NOT bits\<rparr>)"
    and queued: "ok t \<Longrightarrow> st_active t \<Longrightarrow> ok (t\<lparr>st_pending := list\<rparr>)"
begin

definition all_ok :: "signal_state \<Rightarrow> bool" where
  "all_ok s \<longleftrightarrow> (\<forall>t \<in> set (ss_threads s). ok t)"

lemma at: "all_ok s \<Longrightarrow> p < thread_count s \<Longrightarrow> ok (ss_threads s ! p)"
  by (simp add: all_ok_def thread_count_def)

lemma change:
  assumes "all_ok s" "p < thread_count s \<Longrightarrow> ok (ss_threads s ! p) \<Longrightarrow> ok (f (ss_threads s ! p))"
  shows "all_ok (change_thread p f s)"
proof (cases "p < thread_count s")
  case True
  then show ?thesis
    using assms at [OF assms(1) True] set_update_subset_insert [of "ss_threads s" p]
    by (fastforce simp: all_ok_def change_thread_def)
next
  case False
  then show ?thesis using assms(1) by (simp add: all_ok_def change_thread_def thread_count_def list_update_beyond)
qed

lemma new: "all_ok (new_signal_state g)"
  using fresh [of 0 1] by (simp add: all_ok_def new_signal_state_def Let_def blank_thread_def)

lemma init: "all_ok s \<Longrightarrow> all_ok (initialize p v s)"
  using blank fresh
  by (auto simp: all_ok_def initialize_def Let_def dest!: subsetD [OF set_update_subset_insert])

lemma retired: "all_ok s \<Longrightarrow> all_ok (retire p s)"
  using blank
  by (auto simp: all_ok_def retire_def dest!: subsetD [OF set_update_subset_insert])

lemma reset: "all_ok (reset_signals p v s)"
  unfolding reset_signals_def by (rule init) (simp add: all_ok_def)

lemma previous: "all_ok s \<Longrightarrow> \<exists>u. ok u \<and> st_mask u = signal_mask p s"
  using at [of s p] blank by (auto simp: signal_mask_def blank_thread_def)

end

section \<open>Threads after an operation\<close>

lemma count_change [simp]: "thread_count (change_thread p f s) = thread_count s"
  by (simp add: thread_count_def change_thread_def)

lemma nth_change:
  "q < thread_count s \<Longrightarrow>
    ss_threads (change_thread p f s) ! q =
      (if q = p then f (ss_threads s ! p) else ss_threads s ! q)"
  by (simp add: thread_count_def change_thread_def nth_list_update)

lemma change_fields [simp]:
  "ss_retired_pending (change_thread p f s) = ss_retired_pending s"
  "ss_next_order (change_thread p f s) = ss_next_order s"
  "ss_retain_retired (change_thread p f s) = ss_retain_retired s"
  "ss_wait_consumes_owner (change_thread p f s) = ss_wait_consumes_owner s"
  "ss_wait_reports_interrupt (change_thread p f s) = ss_wait_reports_interrupt s"
  "ss_child_policy (change_thread p f s) = ss_child_policy s"
  by (simp_all add: change_thread_def)

lemma count_initialize: "thread_count (initialize p v s) = max (thread_count s) (p + 1)"
  by (simp add: thread_count_def initialize_def Let_def)

lemma nth_initialize:
  "q < thread_count (initialize p v s) \<Longrightarrow>
    ss_threads (initialize p v s) ! q =
      (if q = p then \<lparr>st_mask = v AND NOT unmaskable, st_saved = None, st_active = True,
          st_pending = 0, st_order = ss_next_order s, st_wait_mask = 0\<rparr>
       else if q < thread_count s then ss_threads s ! q else blank_thread)"
  by (auto simp: count_initialize)
    (auto simp: thread_count_def initialize_def Let_def nth_list_update nth_append)

text \<open>Changing one thread's mask first makes the slot active.\<close>

definition activated :: "nat \<Rightarrow> signal_state \<Rightarrow> signal_state" where
  "activated p s =
    (if thread_count s \<le> p \<or> \<not> st_active (ss_threads s ! p) then initialize p 0 s else s)"

lemma update_mask_thread:
  "1 \<le> how \<Longrightarrow> how \<le> 3 \<Longrightarrow>
    update_mask p how v Thread_Scope s = (True, change_thread p (apply_mask how v) (activated p s))"
  by (auto simp: update_mask_def activated_def change_thread_def Let_def not_less)

lemma update_mask_process:
  "1 \<le> how \<Longrightarrow> how \<le> 3 \<Longrightarrow>
    update_mask p how v Process_Scope s =
      (True, (activated p s)\<lparr>ss_threads := map (\<lambda>t. if st_active t then apply_mask how v t else t)
         (ss_threads (activated p s))\<rparr>)"
  by (auto simp: update_mask_def activated_def Let_def not_less)

lemma activated:
  "p < thread_count (activated p s)" "st_active (ss_threads (activated p s) ! p)"
  "thread_count s \<le> thread_count (activated p s)"
proof -
  have "st_active (ss_threads (initialize p 0 s) ! p)"
    by (subst nth_initialize) (simp_all add: count_initialize)
  then show "p < thread_count (activated p s)" "st_active (ss_threads (activated p s) ! p)"
    "thread_count s \<le> thread_count (activated p s)"
    by (auto simp: activated_def count_initialize)
qed

lemma suspend_mask_threads:
  "suspend_mask p v s =
    change_thread p (\<lambda>t. (apply_mask 3 v t)\<lparr>st_saved := Some (signal_mask p s)\<rparr>) (activated p s)"
  by (simp add: suspend_mask_def update_mask_thread Let_def change_thread_def
      activated(1) [unfolded thread_count_def])

context thread_law
begin

lemma activate: "all_ok s \<Longrightarrow> all_ok (activated p s)"
  by (simp add: activated_def init)

lemma updated: "all_ok s \<Longrightarrow> all_ok (snd (update_mask p how v scope s))"
proof (cases "how < 1 \<or> 3 < how")
  case True
  assume "all_ok s" with True show ?thesis by (auto simp: update_mask_def)
next
  case False
  assume "all_ok s"
  then have s: "all_ok (activated p s)" by (rule activate)
  have how: "1 \<le> how" "how \<le> 3" using False by (simp_all only: de_Morgan_disj not_less)
  show ?thesis
  proof (cases scope)
    case Thread_Scope
    then show ?thesis
      using change [OF s, of p "apply_mask how v"] masked activated(2) [of p s]
      by (simp add: update_mask_thread [OF how])
  next
    case Process_Scope
    then show ?thesis using s masked by (auto simp: update_mask_process [OF how] all_ok_def)
  qed
qed

lemma suspended:
  assumes "all_ok s" shows "all_ok (suspend_mask p v s)"
proof -
  obtain u where u: "ok u" "st_mask u = signal_mask p s" using previous [OF assms] by blast
  have "ok ((apply_mask 3 v t)\<lparr>st_saved := Some (signal_mask p s)\<rparr>)"
    if "ok t" "st_active t" for t
    using saved [OF masked [OF that, of 3 v] _ u(1)] that(2) u(2)
    by (simp add: apply_mask_def Let_def)
  then show ?thesis
    unfolding suspend_mask_threads by (intro change activate assms) (simp add: activated)
qed

lemma resumes: "all_ok s \<Longrightarrow> all_ok (resume_mask p s)"
  unfolding resume_mask_def using resumed by (auto intro!: change)

lemma waits:
  assumes "all_ok s" "signals AND unmaskable = 0" shows "all_ok (begin_wait p signals s)"
  unfolding begin_wait_def
proof (intro change suspended assms(1))
  let ?s = "suspend_mask p (NOT signals) s"
  assume "p < thread_count ?s" "ok (ss_threads ?s ! p)"
  moreover have "st_active (ss_threads ?s ! p)"
    unfolding suspend_mask_threads using activated(1,2) [of p s]
    by (simp add: nth_change apply_mask_def Let_def)
  ultimately show "ok (st_wait_mask_update (\<lambda>_. signals) (ss_threads ?s ! p))"
    using waiting assms(2) by simp
qed

lemma consumes: "all_ok s \<Longrightarrow> all_ok (consume p bits s)"
  unfolding consume_def using drained by (auto intro!: change)

lemma accepts:
  assumes "all_ok s" "p < thread_count s" "st_active (ss_threads s ! p)" "b AND unmaskable = 0"
  shows "all_ok (accept_wait_signal p b s)"
  unfolding accept_wait_signal_def using assms waiting by (intro consumes change) simp_all

lemma reaps: "all_ok s \<Longrightarrow> all_ok (reaped_last_child p s)"
  by (simp add: reaped_last_child_def consumes)

lemma enqueues: "all_ok s \<Longrightarrow> all_ok (enqueue_signal p b s)"
  unfolding enqueue_signal_def using queued by (auto intro!: change simp: Let_def)

lemma discards: "all_ok s \<Longrightarrow> all_ok (discard_signals bits s)"
  using drained by (auto simp: all_ok_def discard_signals_def)

lemma takes: "all_ok s \<Longrightarrow> all_ok (snd (take_pending waiter signals s))"
  by (auto simp: take_pending_def Let_def consumes split: option.splits)

lemma executes: "all_ok (exec_signals p s)"
proof -
  have "st_active (ss_threads (reset_signals p v s) ! p)" for v
    unfolding reset_signals_def by (subst nth_initialize) (simp_all add: count_initialize)
  then show ?thesis
    unfolding exec_signals_def Let_def using queued by (intro change reset) simp
qed

end

section \<open>The laws of the signal state\<close>

definition masks_free :: "signal_thread \<Rightarrow> bool" where
  "masks_free t \<longleftrightarrow> st_mask t AND unmaskable = 0 \<and>
    (case st_saved t of None \<Rightarrow> True | Some m \<Rightarrow> m AND unmaskable = 0)"

definition slot_blank :: "signal_thread \<Rightarrow> bool" where
  "slot_blank t \<longleftrightarrow> st_active t \<or> t = blank_thread"

definition waits_free :: "signal_thread \<Rightarrow> bool" where
  "waits_free t \<longleftrightarrow> st_wait_mask t AND unmaskable = 0"

lemma masked_free [simp]: "(v AND NOT unmaskable) AND unmaskable = 0"
  by (simp add: free_of_kill_stop bit_and_iff bit_not_iff bit_unmaskable)

interpretation masks: thread_law masks_free
  by unfold_locales
    (auto simp: masks_free_def blank_thread_def apply_mask_def Let_def split: option.splits)

interpretation slots: thread_law slot_blank
  by unfold_locales (auto simp: slot_blank_def blank_thread_def apply_mask_def Let_def)

interpretation waits: thread_law waits_free
  by unfold_locales (auto simp: waits_free_def blank_thread_def apply_mask_def Let_def)

definition signals_ok :: "signal_state \<Rightarrow> bool" where
  "signals_ok s \<longleftrightarrow> masks.all_ok s \<and> slots.all_ok s \<and> waits.all_ok s"

lemma signals_ok_thread:
  "signals_ok s \<longleftrightarrow>
    (\<forall>t \<in> set (ss_threads s). masks_free t \<and> slot_blank t \<and> waits_free t)"
  by (auto simp: signals_ok_def masks.all_ok_def slots.all_ok_def waits.all_ok_def)

lemma signals_ok_new [intro!]: "signals_ok (new_signal_state g)"
  by (simp add: signals_ok_def masks.new slots.new waits.new)

named_theorems signals_keep "operations that keep the laws of the signal state"

lemma signals_ok_operations [signals_keep]:
  "signals_ok s \<Longrightarrow> signals_ok (initialize p v s)"
  "signals_ok s \<Longrightarrow> signals_ok (retire p s)"
  "signals_ok (reset_signals p v s)"
  "signals_ok s \<Longrightarrow> signals_ok (snd (update_mask p how v scope s))"
  "signals_ok s \<Longrightarrow> signals_ok (suspend_mask p v s)"
  "signals_ok s \<Longrightarrow> signals_ok (resume_mask p s)"
  "signals_ok s \<Longrightarrow> signals AND unmaskable = 0 \<Longrightarrow> signals_ok (begin_wait p signals s)"
  "signals_ok s \<Longrightarrow> signals_ok (consume p bits s)"
  "signals_ok s \<Longrightarrow> signals_ok (reaped_last_child p s)"
  "signals_ok s \<Longrightarrow> signals_ok (snd (take_pending waiter signals s))"
  "signals_ok s \<Longrightarrow> signals_ok (enqueue_signal p b s)"
  "signals_ok s \<Longrightarrow> signals_ok (discard_signals bits s)"
  "signals_ok (exec_signals p s)"
  by (simp_all add: signals_ok_def masks.init slots.init waits.init masks.retired slots.retired
      waits.retired masks.reset slots.reset waits.reset masks.updated slots.updated waits.updated
      masks.suspended slots.suspended waits.suspended masks.resumes slots.resumes waits.resumes
      masks.waits slots.waits waits.waits masks.consumes slots.consumes waits.consumes
      masks.reaps slots.reaps waits.reaps masks.takes slots.takes waits.takes
      masks.enqueues slots.enqueues waits.enqueues masks.discards slots.discards waits.discards
      masks.executes slots.executes waits.executes)

lemma signal_wait_active:
  assumes "signals_ok s" "waiting_for p s AND b \<noteq> 0"
  shows "p < thread_count s" "st_active (ss_threads s ! p)"
proof -
  show p: "p < thread_count s" using assms(2) by (auto simp: waiting_for_def split: if_splits)
  then show "st_active (ss_threads s ! p)"
    using assms slots.at [of s p]
    by (auto simp: signals_ok_def slot_blank_def waiting_for_def blank_thread_def)
qed

lemma signals_ok_accept [signals_keep]:
  assumes "signals_ok s" "waiting_for p s AND signal_bit n \<noteq> 0"
  shows "signals_ok (accept_wait_signal p (signal_bit n) s)"
proof -
  note active = signal_wait_active [OF assms]
  have "waits_free (ss_threads s ! p)"
    using assms(1) active(1) waits.at [of s p] by (simp add: signals_ok_def)
  then have "signal_bit n AND unmaskable = 0"
    using assms(2) active(1)
    by (auto simp: waits_free_def waiting_for_def and_signal_bit free_of_kill_stop)
  then show ?thesis
    using assms(1) active masks.accepts slots.accepts waits.accepts by (simp add: signals_ok_def)
qed

section \<open>Runs\<close>

inductive signal_step :: "signal_state \<Rightarrow> signal_state \<Rightarrow> bool" where
  step_initialize: "signal_step s (initialize p v s)"
| step_retire: "signal_step s (retire p s)"
| step_reset: "signal_step s (reset_signals p v s)"
| step_update: "signal_step s (snd (update_mask p how v scope s))"
| step_suspend: "signal_step s (suspend_mask p v s)"
| step_resume: "signal_step s (resume_mask p s)"
| step_begin_wait:
    "signals AND unmaskable = 0 \<Longrightarrow> signal_step s (begin_wait p signals s)"
| step_accept:
    "waiting_for p s AND signal_bit n \<noteq> 0 \<Longrightarrow>
      signal_step s (accept_wait_signal p (signal_bit n) s)"
| step_consume: "signal_step s (consume p bits s)"
| step_reaped: "signal_step s (reaped_last_child p s)"
| step_take: "signal_step s (snd (take_pending waiter signals s))"
| step_queue: "signal_step s (enqueue_signal p b s)"
| step_discard: "signal_step s (discard_signals bits s)"
| step_exec: "signal_step s (exec_signals p s)"

definition signals_reachable :: "darwin_generation \<Rightarrow> signal_state \<Rightarrow> bool" where
  "signals_reachable g s \<longleftrightarrow> signal_step\<^sup>*\<^sup>* (new_signal_state g) s"

lemma signal_step_ok: "signal_step s s' \<Longrightarrow> signals_ok s \<Longrightarrow> signals_ok s'"
  by (induction rule: signal_step.induct) (auto intro: signals_keep)

lemma signals_reachable_ok: "signals_reachable g s \<Longrightarrow> signals_ok s"
  unfolding signals_reachable_def
  by (induction rule: rtranclp_induct) (auto intro: signal_step_ok)

lemma mask_free: "signals_ok s \<Longrightarrow> signal_mask p s AND unmaskable = 0"
  using masks.at [of s p] by (auto simp: signals_ok_def signal_mask_def masks_free_def)

lemma inherited_free: "signals_ok s \<Longrightarrow> inherited_mask p s AND unmaskable = 0"
  using masks.at [of s p]
  by (auto simp: signals_ok_def inherited_mask_def masks_free_def Let_def not_le
      split: option.splits)

lemma waiting_free: "signals_ok s \<Longrightarrow> waiting_for p s AND unmaskable = 0"
  using waits.at [of s p] by (auto simp: signals_ok_def waiting_for_def waits_free_def)

lemma bit_ready:
  "bit (signals_ready p s) n \<longleftrightarrow>
    bit (signals_pending p s) n \<and> (\<not> bit (signal_mask p s) n \<or> bit (waiting_for p s) n)"
  by (auto simp: signals_ready_def bit_and_iff bit_or_iff bit_not_iff dest: bit_imp_le_length)

end
