(* ===== verification/Signal_Process.thy ===== *)
theory Signal_Process
  imports Signal_Masks
begin

text \<open>
  Sending and accepting signals, \<^verbatim>\<open>kernel/bsd/signal/{signal,wait,child}.cpp\<close>
  with the parts of \<^verbatim>\<open>kernel/kernel.cpp\<close>, \<^verbatim>\<open>kernel/bsd/process.cpp\<close>
  and \<^verbatim>\<open>kernel/mach/thread/continuations.cpp\<close> that touch the same state, and
  \<^verbatim>\<open>kernel/include/kernel/child_wait_status.hpp\<close>.

  The state is what a \<^verbatim>\<open>CompatibilityKernel\<close> keeps for signals, with the shared
  process table. What it tells other parts of the emulator (handlers that are installed in
  every session, the I/O generation counter, requests to preempt) is a list of notices. The
  cache of processors with pending events is derived from the maps below and left out.
\<close>

unbundle bit_operations_syntax

section \<open>Child status\<close>

record child_wait_status =
  cw_stop_signal :: u8
  cw_stop_pending :: bool
  cw_continued :: bool
  cw_actor :: u32

definition no_child_status :: child_wait_status where
  "no_child_status = \<lparr>cw_stop_signal = 0, cw_stop_pending = False, cw_continued = False, cw_actor = 0\<rparr>"

definition child_stopped :: "nat \<Rightarrow> child_wait_status \<Rightarrow> child_wait_status" where
  "child_stopped signal c =
    c\<lparr>cw_stop_signal := of_nat signal, cw_stop_pending := True, cw_continued := False\<rparr>"

definition child_continued :: "u32 option \<Rightarrow> child_wait_status \<Rightarrow> child_wait_status" where
  "child_continued actor c =
    (let c = c\<lparr>cw_stop_pending := False, cw_continued := True\<rparr> in
     case actor of None \<Rightarrow> c | Some pid \<Rightarrow> c\<lparr>cw_actor := pid\<rparr>)"

datatype child_kind = Child_Stop | Child_Continue

definition peek_child :: "bool \<Rightarrow> bool \<Rightarrow> bool \<Rightarrow> child_wait_status \<Rightarrow> child_kind option" where
  "peek_child stopped select_stop select_continue c =
    (if stopped \<and> cw_stop_pending c \<and> select_stop then Some Child_Stop
     else if cw_continued c \<and> select_continue then Some Child_Continue
     else None)"

definition consume_child :: "child_kind \<Rightarrow> child_wait_status \<Rightarrow> child_wait_status" where
  "consume_child kind c =
    (case kind of Child_Stop \<Rightarrow> c\<lparr>cw_stop_pending := False\<rparr>
     | Child_Continue \<Rightarrow> c\<lparr>cw_continued := False\<rparr>)"

definition take_child :: "bool \<Rightarrow> u32 \<Rightarrow> child_wait_status \<Rightarrow> u32 option \<times> child_wait_status" where
  "take_child stopped options c =
    (if stopped \<and> cw_stop_pending c \<and> options AND 2 \<noteq> 0 then
       (Some (push_bit 8 (ucast (cw_stop_signal c)) OR 0x7f), c\<lparr>cw_stop_pending := False\<rparr>)
     else if cw_continued c \<and> options AND 0x10 \<noteq> 0 then
       (Some (push_bit 8 19 OR 0x7f), c\<lparr>cw_continued := False\<rparr>)
     else (None, c))"

section \<open>State\<close>

record signal_action =
  sa_handler :: u32
  sa_trampoline :: u32
  sa_mask :: u32
  sa_flags :: u32

definition default_action :: u32 where "default_action = 0"
definition ignore_action :: u32 where "ignore_action = 1"
definition restart_action_flag :: u32 where "restart_action_flag = 0x2"
definition no_child_stop_flag :: u32 where "no_child_stop_flag = 0x8"
definition no_child_wait_flag :: u32 where "no_child_wait_flag = 0x20"

definition blank_action :: signal_action where
  "blank_action = \<lparr>sa_handler = 0, sa_trampoline = 0, sa_mask = 0, sa_flags = 0\<rparr>"

record signal_sender =
  sd_pid :: u32
  sd_uid :: u32
  sd_status :: u32
  sd_code :: u32

definition no_sender :: signal_sender where
  "no_sender = \<lparr>sd_pid = 0, sd_uid = 0, sd_status = 0, sd_code = 0\<rparr>"

record alternate_stack =
  as_address :: u32
  as_size :: u32
  as_flags :: u32

record pending_signal_wait =
  pw_signals :: u32
  pw_output :: u32
  pw_selected :: "nat option"
  pw_interruption :: "u32 option"

record process_record =
  pr_parent :: u32
  pr_parent_incarnation :: u64
  pr_incarnation :: u64
  pr_uid :: u32
  pr_exited :: bool
  pr_exit_status :: u32
  pr_termination_signal :: u32
  pr_stopped :: bool
  pr_child_status :: child_wait_status
  pr_child_generation :: u64

datatype signal_notice =
  Io_Transition
| Runnable u32 bool
| Child_Stopped u32 u32 u32 nat
| Child_Exited u32 u32 u32 u32
| Preemption

record signal_kernel =
  sk_pid :: u32
  sk_uid :: u32
  sk_parent :: u32
  sk_exited :: bool
  sk_exit_status :: u32
  sk_termination_signal :: u32
  sk_signals :: signal_state
  sk_actions :: "signal_action list"
  sk_disabled :: "nat set"
  sk_sender :: signal_sender
  sk_stacks :: "nat \<rightharpoonup> alternate_stack"
  sk_waits :: "nat \<rightharpoonup> pending_signal_wait"
  sk_suspends :: "nat \<rightharpoonup> bool"
  sk_faults :: "nat \<rightharpoonup> nat \<times> u32 \<times> u32 \<times> u32"
  sk_processes :: "u32 \<rightharpoonup> process_record"
  sk_notices :: "signal_notice list"

definition handler_of :: "nat \<Rightarrow> signal_kernel \<Rightarrow> u32" where
  "handler_of n k = sa_handler (sk_actions k ! n)"

definition notify :: "signal_notice list \<Rightarrow> signal_kernel \<Rightarrow> signal_kernel" where
  "notify ns k = k\<lparr>sk_notices := sk_notices k @ ns\<rparr>"

definition on_signals :: "(signal_state \<Rightarrow> signal_state) \<Rightarrow> signal_kernel \<Rightarrow> signal_kernel" where
  "on_signals f k = k\<lparr>sk_signals := f (sk_signals k)\<rparr>"

definition invalid_argument :: u32 where "invalid_argument = 22"
definition call_interrupted :: u32 where "call_interrupted = 4"
definition bad_address :: u32 where "bad_address = 14"

section \<open>Default actions\<close>

definition default_ignored :: "nat \<Rightarrow> bool" where
  "default_ignored n \<longleftrightarrow> n = sig_urgent \<or> n = sig_child \<or> n = sig_io \<or>
     n = sig_window_change \<or> n = sig_information \<or> n = sig_resume"

definition default_stops :: "nat \<Rightarrow> bool" where
  "default_stops n \<longleftrightarrow> n = sig_stop \<or> n = sig_terminal_stop \<or>
     n = sig_terminal_input \<or> n = sig_terminal_output"

definition discard_ignored :: "nat \<Rightarrow> signal_kernel \<Rightarrow> signal_kernel" where
  "discard_ignored n k =
    (if handler_of n k = ignore_action \<or>
        handler_of n k = default_action \<and> default_ignored n
     then on_signals (discard_signals (signal_bit n)) k else k)"

definition reset_actions_for_exec :: "signal_kernel \<Rightarrow> signal_kernel" where
  "reset_actions_for_exec k =
    fold (\<lambda>n k.
      if handler_of n k \<noteq> default_action \<and> handler_of n k \<noteq> ignore_action
      then discard_ignored n (k\<lparr>sk_actions := (sk_actions k)[n := blank_action]\<rparr>)
      else k) [1..<length (sk_actions k)] k"

text \<open>Of \<^verbatim>\<open>exit_process\<close>, its effect on this state.\<close>

definition exit_process :: "u32 \<Rightarrow> u32 \<Rightarrow> signal_kernel \<Rightarrow> signal_kernel" where
  "exit_process status signal k =
    (if sk_exited k then k
     else
       let table = sk_processes k;
           table = (case table (sk_pid k) of
               None \<Rightarrow> table
             | Some r \<Rightarrow>
                 let table = table(sk_pid k \<mapsto> r\<lparr>pr_exited := True, pr_exit_status := status,
                                     pr_termination_signal := signal\<rparr>)
                 in (case table (pr_parent r) of
                       None \<Rightarrow> table
                     | Some q \<Rightarrow> table(pr_parent r \<mapsto>
                         q\<lparr>pr_child_generation := pr_child_generation q + 1\<rparr>)))
       in notify [Io_Transition, Child_Exited (sk_parent k) (sk_pid k) (sk_uid k)
             (if signal \<noteq> 0 then signal AND 0x7f else push_bit 8 (status AND 0xff))]
           (k\<lparr>sk_exit_status := status, sk_termination_signal := signal,
              sk_processes := table, sk_suspends := (\<lambda>_. None),
              sk_faults := (\<lambda>_. None), sk_exited := True\<rparr>))"

section \<open>Stopping and continuing\<close>

definition transition_signal_stop ::
  "bool \<Rightarrow> nat \<Rightarrow> u32 option \<Rightarrow> signal_kernel \<Rightarrow> bool \<times> signal_kernel" where
  "transition_signal_stop stopped signal actor k =
    (case sk_processes k (sk_pid k) of
       None \<Rightarrow> (False, k)
     | Some r \<Rightarrow>
         if pr_exited r then (False, k)
         else
           let changed = (pr_stopped r \<noteq> stopped);
               r = r\<lparr>pr_stopped := stopped\<rparr>;
               r = (if stopped \<and> changed
                    then r\<lparr>pr_child_status := child_stopped signal (pr_child_status r)\<rparr>
                    else if \<not> stopped \<and> (changed \<or> signal = sig_resume)
                    then r\<lparr>pr_child_status := child_continued actor (pr_child_status r)\<rparr>
                    else r);
               table = (sk_processes k)(sk_pid k \<mapsto> r);
               (notified, table) =
                 (if stopped \<and> changed then
                    (case table (pr_parent r) of
                       None \<Rightarrow> (False, table)
                     | Some q \<Rightarrow>
                         if pr_stopped q then (False, table)
                         else (True, table(pr_parent r \<mapsto>
                           q\<lparr>pr_child_generation := pr_child_generation q + 1\<rparr>)))
                  else (False, table))
           in (changed,
               notify ((if notified then [Io_Transition] else []) @
                   (if changed then [Runnable (sk_pid k) (\<not> stopped)] else []) @
                   (if changed \<and> stopped
                    then [Child_Stopped (sk_parent k) (sk_pid k) (sk_uid k) signal] else []))
                 (k\<lparr>sk_processes := table\<rparr>)))"

section \<open>Acting on pending signals\<close>

text \<open>A caught signal stays pending for the return to user mode; it interrupts a suspend or
  a wait of the thread.\<close>

definition publish_caught :: "nat \<Rightarrow> nat \<Rightarrow> signal_kernel \<Rightarrow> signal_kernel" where
  "publish_caught p signal k =
    (let k = notify [Io_Transition] k;
         k = (if sk_suspends k p = Some False
              then notify [Io_Transition] (k\<lparr>sk_suspends := (sk_suspends k)(p \<mapsto> True)\<rparr>)
              else k)
     in (case sk_waits k p of
           None \<Rightarrow> k
         | Some w \<Rightarrow>
             if pw_interruption w \<noteq> None then k
             else
               notify [Io_Transition]
                 (k\<lparr>sk_waits := (sk_waits k)(p \<mapsto> w\<lparr>pw_interruption := Some
                    (if sa_flags (sk_actions k ! signal) AND restart_action_flag \<noteq> 0
                     then 0 else call_interrupted)\<rparr>)\<rparr>)))"

text \<open>One turn of the loop of \<^verbatim>\<open>process_pending_signals\<close>; the result says
  whether the process stopped.\<close>

definition process_signal :: "nat \<Rightarrow> nat \<Rightarrow> signal_kernel \<Rightarrow> bool \<times> signal_kernel" where
  "process_signal p signal k =
    (let b = signal_bit signal; handler = handler_of signal k in
     if sk_waits k p \<noteq> None \<and> waiting_for p (sk_signals k) AND b \<noteq> 0 then
       (False, notify [Io_Transition] (on_signals (accept_wait_signal p b)
          (k\<lparr>sk_waits := (sk_waits k)(p \<mapsto>
             (the (sk_waits k p))\<lparr>pw_selected := Some signal\<rparr>)\<rparr>)))
     else if handler \<noteq> default_action \<and> handler \<noteq> ignore_action then
       (False, publish_caught p signal k)
     else
       let k = on_signals (consume p b) k in
       if handler = ignore_action \<or> default_ignored signal then (False, k)
       else if default_stops signal then (True, snd (transition_signal_stop True signal None k))
       else (False, exit_process 0 (of_nat signal) k))"

function process_pending_loop :: "nat \<Rightarrow> u32 \<Rightarrow> signal_kernel \<Rightarrow> bool \<times> signal_kernel" where
  "process_pending_loop p ready k =
    (if ready = 0 \<or> sk_exited k then (False, k)
     else
       let signal = countr_zero ready + 1;
           (stopped, k) = process_signal p signal k
       in if stopped then (True, k)
          else process_pending_loop p (ready AND NOT (signal_bit signal)) k)"
  by pat_completeness auto
termination
  by (relation "measure (\<lambda>(p, ready, k). unat ready)")
    (auto simp: signal_bit_def word_less_nat_alt [symmetric] intro: clear_least_less
      simp del: push_bit_of_1)

declare process_pending_loop.simps [simp del]

definition process_pending_signals :: "nat \<Rightarrow> signal_kernel \<Rightarrow> bool \<times> signal_kernel" where
  "process_pending_signals p k = process_pending_loop p (signals_ready p (sk_signals k)) k"

section \<open>Sending a signal\<close>

text \<open>From the choice of the thread on: SIGCONT resumes the process, the signal joins the
  thread's list, and the sender is noted for a handler.\<close>

definition resume_for :: "nat \<Rightarrow> u32 \<Rightarrow> signal_kernel \<Rightarrow> signal_kernel" where
  "resume_for p sender_pid k =
    (let b = signal_bit sig_resume;
         selected = (waiting_for p (sk_signals k) AND b \<noteq> 0);
         held = (signal_mask p (sk_signals k) AND b \<noteq> 0)
     in snd (transition_signal_stop False (if \<not> held \<or> selected then sig_resume else 0)
          (if selected then Some sender_pid
           else if handler_of sig_resume k \<le> ignore_action \<or> held then Some (sk_pid k) else None)
          k))"

definition post_signal :: "nat \<Rightarrow> nat \<Rightarrow> u32 \<Rightarrow> u32 \<Rightarrow> signal_kernel \<Rightarrow> signal_kernel" where
  "post_signal p signal sender_pid sender_uid k =
    (let b = signal_bit signal;
         k = (if signal = sig_resume then resume_for p sender_pid k else k);
         k = on_signals (enqueue_signal p b) k
     in if ignore_action < handler_of signal k \<and>
           signal_mask p (sk_signals k) AND b = 0 \<and> signal \<noteq> sig_child
        then k\<lparr>sk_sender := \<lparr>sd_pid = sender_pid, sd_uid = sender_uid,
                              sd_status = of_nat signal, sd_code = 0\<rparr>\<rparr>
        else k)"

definition deliver_signal_to_thread ::
  "nat \<Rightarrow> nat option \<Rightarrow> u32 \<Rightarrow> u32 \<Rightarrow> signal_kernel \<Rightarrow> u32 \<times> signal_kernel" where
  "deliver_signal_to_thread signal processor sender_pid sender_uid k =
    (if signal = 0 then (0, k)
     else if signal_count \<le> signal then (invalid_argument, k)
     else if sk_exited k then (0, k)
     else
       let handler = handler_of signal k in
       if signal \<noteq> sig_resume \<and>
          (handler = ignore_action \<or> handler = default_action \<and> default_ignored signal)
       then (0, k)
       else
         case (case processor of
                 Some p \<Rightarrow> Some p
               | None \<Rightarrow> choose_thread (signal_bit signal) (\<lambda>i. i \<notin> sk_disabled k) (sk_signals k)) of
           None \<Rightarrow>
             (0, if signal = sig_resume then snd (transition_signal_stop False 0 None k) else k)
         | Some p \<Rightarrow>
             (0, snd (process_pending_signals p
                    (post_signal p signal sender_pid sender_uid k))))"

definition deliver_signal :: "nat \<Rightarrow> u32 \<Rightarrow> u32 \<Rightarrow> signal_kernel \<Rightarrow> u32 \<times> signal_kernel" where
  "deliver_signal signal sender_pid sender_uid k =
    deliver_signal_to_thread signal None sender_pid sender_uid k"

section \<open>The status of a child\<close>

definition child_status_stop :: "u32 \<Rightarrow> u32 \<Rightarrow> u32 \<Rightarrow> signal_kernel \<Rightarrow> signal_kernel" where
  "child_status_stop pid uid status k =
    (if sk_exited k then k
     else if sa_flags (sk_actions k ! sig_child) AND no_child_stop_flag \<noteq> 0 then k
     else snd (deliver_signal sig_child 0 0
       (k\<lparr>sk_sender := \<lparr>sd_pid = pid, sd_uid = uid,
            sd_status = child_stop_status status (sk_signals k), sd_code = 5\<rparr>\<rparr>)))"

text \<open>Whether the exit is handed on to process 1 is the first result; its kernel is then
  notified of the same status.\<close>

definition child_status_exit :: "u32 \<Rightarrow> u32 \<Rightarrow> u32 \<Rightarrow> signal_kernel \<Rightarrow> bool \<times> signal_kernel" where
  "child_status_exit pid uid status k =
    (let action = sk_actions k ! sig_child in
     if sk_exited k then (False, k)
     else if sa_handler action = ignore_action \<or> sa_flags action AND no_child_wait_flag \<noteq> 0 then
       (case sk_processes k pid of
          None \<Rightarrow> (False, k)
        | Some r \<Rightarrow>
            if pr_parent r \<noteq> sk_pid k \<or> \<not> pr_exited r then (False, k)
            else if \<not> reaps_ignored_children (sk_signals k) \<and> sk_pid k \<noteq> 1 then
              let table = (sk_processes k)(pid \<mapsto> r\<lparr>pr_parent := 1,
                    pr_parent_incarnation := (case sk_processes k 1 of
                      None \<Rightarrow> 0 | Some init \<Rightarrow> pr_incarnation init)\<rparr>);
                  table = (case table 1 of
                      None \<Rightarrow> table
                    | Some init \<Rightarrow> table(1 \<mapsto>
                        init\<lparr>pr_child_generation := pr_child_generation init + 1\<rparr>))
              in (True, notify [Io_Transition] (k\<lparr>sk_processes := table\<rparr>))
            else
              (False, notify [Io_Transition]
                 (k\<lparr>sk_processes := (sk_processes k)(pid := None)\<rparr>)))
     else
       let signal = status AND 0x7f;
           k = (if sk_pid k \<noteq> 1
                then k\<lparr>sk_sender := \<lparr>sd_pid = pid, sd_uid = uid,
                    sd_status = (if signal \<noteq> 0 then signal else drop_bit 8 status AND 0xff),
                    sd_code = (if signal \<noteq> 0 then 2 else 1)\<rparr>\<rparr>
                else k)
       in (False, snd (deliver_signal sig_child 0 0 k)))"

end
