(* ===== verification/Signal_Sending.thy ===== *)
theory Signal_Sending
  imports Signal_Process
begin

text \<open>
  What sending a signal guarantees, on every state that respects \<open>kernel_ok\<close>: the
  masks of \<open>Signal_Masks\<close> and the default handlers of kill and stop.
\<close>

unbundle bit_operations_syntax

section \<open>The laws of the kernel state\<close>

text \<open>Signals index an array of 32 actions, so bit 31, signal 32, is never pending.\<close>

definition pending_bounded :: "signal_state \<Rightarrow> bool" where
  "pending_bounded s \<longleftrightarrow>
    (\<forall>t \<in> set (ss_threads s). \<not> bit (st_pending t) 31) \<and> \<not> bit (ss_retired_pending s) 31"

lemma pending_bounded_change:
  assumes "pending_bounded s"
    "\<And>t. t \<in> set (ss_threads s) \<Longrightarrow> \<not> bit (st_pending t) 31 \<Longrightarrow> \<not> bit (st_pending (f t)) 31"
  shows "pending_bounded (change_thread p f s)"
proof (cases "p < thread_count s")
  case True
  then have "ss_threads s ! p \<in> set (ss_threads s)" by (simp add: thread_count_def)
  then show ?thesis
    using assms set_update_subset_insert [of "ss_threads s" p]
    by (fastforce simp: pending_bounded_def change_thread_def)
next
  case False
  then show ?thesis
    using assms(1)
    by (simp add: pending_bounded_def change_thread_def thread_count_def list_update_beyond)
qed

lemma pending_bounded_initialize:
  "\<forall>t \<in> set (ss_threads s). \<not> bit (st_pending t) 31 \<Longrightarrow> \<not> bit (ss_retired_pending s) 31 \<Longrightarrow>
    pending_bounded (initialize p v s)"
  by (auto simp: pending_bounded_def initialize_def Let_def blank_thread_def
      dest!: subsetD [OF set_update_subset_insert])

lemma pending_bounded_pending:
  assumes "pending_bounded s" shows "\<not> bit (signals_pending p s) 31"
proof (cases "p < thread_count s")
  case True
  then have "ss_threads s ! p \<in> set (ss_threads s)" by (simp add: thread_count_def)
  then show ?thesis using assms True by (simp add: pending_bounded_def signals_pending_def)
qed (simp add: signals_pending_def)

lemma pending_bounded_new [signals_keep]: "pending_bounded (new_signal_state g)"
  by (simp add: pending_bounded_def new_signal_state_def Let_def blank_thread_def)

lemma pending_bounded_slots [signals_keep]:
  "pending_bounded s \<Longrightarrow> pending_bounded (initialize p v s)"
  "pending_bounded (reset_signals p v s)"
  by (simp_all add: pending_bounded_initialize reset_signals_def pending_bounded_def [of s])

lemma pending_bounded_retire [signals_keep]:
  assumes "pending_bounded s" shows "pending_bounded (retire p s)"
  using assms pending_bounded_pending [OF assms, of p]
  by (auto simp: pending_bounded_def retire_def blank_thread_def signals_pending_def
      bit_or_iff bit_and_iff dest!: subsetD [OF set_update_subset_insert])

lemma pending_bounded_update [signals_keep]:
  assumes "pending_bounded s" shows "pending_bounded (snd (update_mask p how v scope s))"
proof -
  have "st_pending (apply_mask how v t) = st_pending t" for t
    by (simp add: apply_mask_def Let_def)
  moreover have "pending_bounded (activated p s)"
    using assms by (simp add: activated_def signals_keep)
  moreover have "1 \<le> how \<and> how \<le> 3" if "\<not> (how < 1 \<or> 3 < how)"
    using that by (simp only: de_Morgan_disj not_less)
  ultimately show ?thesis
  proof (cases "how < 1 \<or> 3 < how")
    case False
    with \<open>\<And>t. st_pending (apply_mask how v t) = st_pending t\<close> \<open>pending_bounded (activated p s)\<close>
      \<open>\<not> (how < 1 \<or> 3 < how) \<Longrightarrow> 1 \<le> how \<and> how \<le> 3\<close>
    show ?thesis
      by (cases scope) (auto simp: update_mask_thread update_mask_process
          pending_bounded_def [of "_\<lparr>ss_threads := _\<rparr>"] intro!: pending_bounded_change
          simp: pending_bounded_def [of "activated p s"])
  qed (use assms in \<open>auto simp: update_mask_def\<close>)
qed

lemma pending_bounded_waits [signals_keep]:
  "pending_bounded s \<Longrightarrow> pending_bounded (suspend_mask p v s)"
  "pending_bounded s \<Longrightarrow> pending_bounded (resume_mask p s)"
  "pending_bounded s \<Longrightarrow> pending_bounded (begin_wait p signals s)"
  by (auto simp: suspend_mask_def resume_mask_def begin_wait_def Let_def
      intro!: pending_bounded_change pending_bounded_update)

lemma pending_bounded_consume [signals_keep]:
  "pending_bounded s \<Longrightarrow> pending_bounded (consume p bits s)"
  "pending_bounded s \<Longrightarrow> pending_bounded (accept_wait_signal p b s)"
  "pending_bounded s \<Longrightarrow> pending_bounded (reaped_last_child p s)"
  "pending_bounded s \<Longrightarrow> pending_bounded (snd (take_pending waiter signals s))"
  by (auto simp: consume_def accept_wait_signal_def reaped_last_child_def take_pending_def Let_def
      bit_and_iff intro!: pending_bounded_change split: option.splits)

lemma pending_bounded_queue [signals_keep]:
  "pending_bounded s \<Longrightarrow> \<not> bit b 31 \<Longrightarrow> pending_bounded (enqueue_signal p b s)"
  "pending_bounded s \<Longrightarrow> pending_bounded (discard_signals bits s)"
  by (auto simp: enqueue_signal_def Let_def bit_or_iff bit_and_iff intro!: pending_bounded_change
      split: if_splits)
    (auto simp: pending_bounded_def discard_signals_def bit_and_iff)

lemma bit_fold_or:
  "bit (fold (\<lambda>i list. if P i then list OR f i else list) xs w) n \<longleftrightarrow>
    bit w n \<or> (\<exists>i \<in> set xs. P i \<and> bit (f i :: u32) n)"
  by (induction xs arbitrary: w) (auto simp: bit_or_iff)

lemma pending_bounded_exec [signals_keep]:
  assumes "pending_bounded s" shows "pending_bounded (exec_signals p s)"
proof -
  have "\<forall>i < thread_count s. \<not> bit (st_pending (ss_threads s ! i)) 31"
    using assms by (auto simp: pending_bounded_def thread_count_def)
  then show ?thesis
    using assms pending_bounded_pending [OF assms, of p]
    by (auto simp: exec_signals_def Let_def bit_or_iff bit_fold_or bit_and_iff pending_bounded_def [of s]
        intro!: pending_bounded_change signals_keep)
qed

definition kernel_ok :: "signal_kernel \<Rightarrow> bool" where
  "kernel_ok k \<longleftrightarrow> signals_ok (sk_signals k) \<and> pending_bounded (sk_signals k) \<and> length (sk_actions k) = 32 \<and>
    handler_of sig_kill k = default_action \<and> handler_of sig_stop k = default_action"

named_theorems kernel_fields "what an operation does to the fields it does not own"

lemma notify_fields [simp]:
  "sk_pid (notify ns k) = sk_pid k" "sk_exited (notify ns k) = sk_exited k"
  "sk_signals (notify ns k) = sk_signals k" "sk_actions (notify ns k) = sk_actions k"
  "sk_disabled (notify ns k) = sk_disabled k" "sk_stacks (notify ns k) = sk_stacks k"
  "sk_waits (notify ns k) = sk_waits k" "sk_suspends (notify ns k) = sk_suspends k"
  "sk_processes (notify ns k) = sk_processes k" "sk_sender (notify ns k) = sk_sender k"
  "handler_of n (notify ns k) = handler_of n k" "kernel_ok (notify ns k) = kernel_ok k"
  by (simp_all add: notify_def handler_of_def kernel_ok_def)

lemma on_signals_fields [simp]:
  "sk_pid (on_signals f k) = sk_pid k" "sk_exited (on_signals f k) = sk_exited k"
  "sk_signals (on_signals f k) = f (sk_signals k)" "sk_actions (on_signals f k) = sk_actions k"
  "sk_disabled (on_signals f k) = sk_disabled k" "sk_stacks (on_signals f k) = sk_stacks k"
  "sk_waits (on_signals f k) = sk_waits k" "sk_suspends (on_signals f k) = sk_suspends k"
  "sk_processes (on_signals f k) = sk_processes k" "sk_sender (on_signals f k) = sk_sender k"
  "handler_of n (on_signals f k) = handler_of n k"
  by (simp_all add: on_signals_def handler_of_def)

lemma exit_process_fields [simp]:
  "sk_pid (exit_process status signal k) = sk_pid k"
  "sk_signals (exit_process status signal k) = sk_signals k"
  "sk_actions (exit_process status signal k) = sk_actions k"
  "sk_disabled (exit_process status signal k) = sk_disabled k"
  "sk_waits (exit_process status signal k) = sk_waits k"
  "handler_of n (exit_process status signal k) = handler_of n k"
  "kernel_ok (exit_process status signal k) = kernel_ok k"
  "sk_exited (exit_process status signal k)"
  by (simp_all add: exit_process_def Let_def handler_of_def kernel_ok_def)

lemma stop_fields [simp]:
  "sk_pid (snd (transition_signal_stop st n a k)) = sk_pid k"
  "sk_exited (snd (transition_signal_stop st n a k)) = sk_exited k"
  "sk_signals (snd (transition_signal_stop st n a k)) = sk_signals k"
  "sk_actions (snd (transition_signal_stop st n a k)) = sk_actions k"
  "sk_disabled (snd (transition_signal_stop st n a k)) = sk_disabled k"
  "sk_waits (snd (transition_signal_stop st n a k)) = sk_waits k"
  "handler_of m (snd (transition_signal_stop st n a k)) = handler_of m k"
  "kernel_ok (snd (transition_signal_stop st n a k)) = kernel_ok k"
  by (simp_all add: transition_signal_stop_def Let_def handler_of_def kernel_ok_def
      split: option.split prod.split)

lemma publish_fields [simp]:
  "sk_pid (publish_caught p n k) = sk_pid k"
  "sk_exited (publish_caught p n k) = sk_exited k"
  "sk_signals (publish_caught p n k) = sk_signals k"
  "sk_actions (publish_caught p n k) = sk_actions k"
  "sk_disabled (publish_caught p n k) = sk_disabled k"
  "sk_processes (publish_caught p n k) = sk_processes k"
  "handler_of m (publish_caught p n k) = handler_of m k"
  "kernel_ok (publish_caught p n k) = kernel_ok k"
  by (simp_all add: publish_caught_def Let_def handler_of_def kernel_ok_def split: option.split)

lemma kernel_ok_on_signals:
  "kernel_ok k \<Longrightarrow> signals_ok (f (sk_signals k)) \<Longrightarrow> pending_bounded (f (sk_signals k)) \<Longrightarrow>
    kernel_ok (on_signals f k)"
  by (simp add: kernel_ok_def)

lemma kernel_ok_waits [simp]:
  "kernel_ok (k\<lparr>sk_waits := w\<rparr>) = kernel_ok k" "handler_of n (k\<lparr>sk_waits := w\<rparr>) = handler_of n k"
  "kernel_ok (k\<lparr>sk_sender := x\<rparr>) = kernel_ok k" "handler_of n (k\<lparr>sk_sender := x\<rparr>) = handler_of n k"
  by (simp_all add: kernel_ok_def handler_of_def)

section \<open>One signal of the loop\<close>

lemma process_signal_pid [simp]: "sk_pid (snd (process_signal p n k)) = sk_pid k"
  by (simp add: process_signal_def Let_def)

lemma process_signal_actions [simp]:
  "sk_actions (snd (process_signal p n k)) = sk_actions k"
  "handler_of m (snd (process_signal p n k)) = handler_of m k"
  by (simp_all add: process_signal_def Let_def)

lemma process_signal_ok:
  assumes "kernel_ok k" shows "kernel_ok (snd (process_signal p n k))"
proof -
  have "signals_ok (sk_signals k)" "pending_bounded (sk_signals k)"
    using assms by (simp_all add: kernel_ok_def)
  then show ?thesis
    using assms by (auto simp: process_signal_def Let_def intro!: kernel_ok_on_signals
        intro: signals_keep)
qed

lemma process_signal_stops:
  "fst (process_signal p n k) \<Longrightarrow> default_stops n"
  by (auto simp: process_signal_def Let_def split: if_splits)

lemma process_signal_lethal:
  assumes "kernel_ok k" "n = sig_kill \<or> n = sig_stop"
  shows "process_signal p n k =
    (let k = on_signals (consume p (signal_bit n)) k in
     if n = sig_kill then (False, exit_process 0 (of_nat n) k)
     else (True, snd (transition_signal_stop True n None k)))"
proof -
  have "waiting_for p (sk_signals k) AND unmaskable = 0"
    using assms(1) by (intro waiting_free) (simp add: kernel_ok_def)
  then have "waiting_for p (sk_signals k) AND signal_bit n = 0"
    using assms(2) by (auto simp: and_signal_bit free_of_kill_stop signal_numbers)
  then show ?thesis
    using assms
    by (auto simp: process_signal_def Let_def kernel_ok_def default_action_def ignore_action_def
        default_ignored_def default_stops_def signal_numbers)
qed

section \<open>The whole loop\<close>

lemma process_loop_end [simp]:
  "process_pending_loop p 0 k = (False, k)"
  "sk_exited k \<Longrightarrow> process_pending_loop p r k = (False, k)"
  by (simp_all add: process_pending_loop.simps)

lemma process_loop_turn:
  assumes "r \<noteq> 0" "\<not> sk_exited k"
  obtains n where "n = countr_zero r + 1" "1 \<le> n" "n \<le> 32" "bit r (n - 1)"
    "\<And>i. bit r i \<Longrightarrow> n \<le> i + 1"
    "process_pending_loop p r k =
      (if fst (process_signal p n k) then (True, snd (process_signal p n k))
       else process_pending_loop p (r AND NOT (signal_bit n)) (snd (process_signal p n k)))"
proof
  show "process_pending_loop p r k =
      (if fst (process_signal p (countr_zero r + 1) k)
       then (True, snd (process_signal p (countr_zero r + 1) k))
       else process_pending_loop p (r AND NOT (signal_bit (countr_zero r + 1)))
         (snd (process_signal p (countr_zero r + 1) k)))"
    using assms by (subst process_pending_loop.simps) (simp add: Let_def split: prod.split)
  show "\<And>i. bit r i \<Longrightarrow> countr_zero r + 1 \<le> i + 1"
    using least_bit(2) [OF assms(1)] by (meson add_le_mono1 not_le_imp_less)
qed (use least_bit [OF assms(1)] in auto)

text \<open>Induction along the turns of the loop.\<close>

lemma process_loop_induct [case_names finish stop turn]:
  assumes finish: "\<And>r k. r = 0 \<or> sk_exited k \<Longrightarrow> P r k (False, k)"
    and stop: "\<And>r k n. \<not> sk_exited k \<Longrightarrow> 1 \<le> n \<Longrightarrow> n \<le> 32 \<Longrightarrow> bit r (n - 1) \<Longrightarrow>
      (\<And>i. bit r i \<Longrightarrow> n \<le> i + 1) \<Longrightarrow> fst (process_signal p n k) \<Longrightarrow>
      P r k (True, snd (process_signal p n k))"
    and turn: "\<And>r k n res. \<not> sk_exited k \<Longrightarrow> 1 \<le> n \<Longrightarrow> n \<le> 32 \<Longrightarrow> bit r (n - 1) \<Longrightarrow>
      (\<And>i. bit r i \<Longrightarrow> n \<le> i + 1) \<Longrightarrow> \<not> fst (process_signal p n k) \<Longrightarrow>
      P (r AND NOT (signal_bit n)) (snd (process_signal p n k)) res \<Longrightarrow> P r k res"
  shows "P r k (process_pending_loop p r k)"
proof (induction "unat r" arbitrary: r k rule: less_induct)
  case less
  show ?case
  proof (cases "r = 0 \<or> sk_exited k")
    case True then show ?thesis using finish by auto
  next
    case False
    then obtain n where n: "n = countr_zero r + 1" "1 \<le> n" "n \<le> 32" "bit r (n - 1)"
      "\<And>i. bit r i \<Longrightarrow> n \<le> i + 1"
      "process_pending_loop p r k =
      (if fst (process_signal p n k) then (True, snd (process_signal p n k))
       else process_pending_loop p (r AND NOT (signal_bit n)) (snd (process_signal p n k)))"
      using process_loop_turn [of r k p] by blast
    have "unat (r AND NOT (signal_bit n)) < unat r"
      using clear_least_less [of r] False n(1) by (simp add: signal_bit_def word_less_nat_alt)
    from less [OF this] show ?thesis
      using stop [of k n r] turn [of k n r] n False by (cases "fst (process_signal p n k)") auto
  qed
qed

text \<open>What every turn keeps, the loop keeps.\<close>

lemma process_loop_invariant:
  assumes "I k" "\<And>n k. I k \<Longrightarrow> 1 \<le> n \<Longrightarrow> n \<le> 32 \<Longrightarrow> I (snd (process_signal p n k))"
  shows "I (snd (process_pending_loop p r k))"
  using assms(1)
  by (induction p r k rule: process_loop_induct) (auto simp: assms(2) [unfolded One_nat_def])

lemma process_pending_pid [simp]: "sk_pid (snd (process_pending_signals p k)) = sk_pid k"
  unfolding process_pending_signals_def by (rule process_loop_invariant) simp_all

lemma process_pending_actions [simp]:
  "sk_actions (snd (process_pending_signals p k)) = sk_actions k"
  "handler_of m (snd (process_pending_signals p k)) = handler_of m k"
  unfolding process_pending_signals_def
  by (rule process_loop_invariant; simp)+

lemma process_pending_ok: "kernel_ok k \<Longrightarrow> kernel_ok (snd (process_pending_signals p k))"
  unfolding process_pending_signals_def
  by (rule process_loop_invariant) (simp_all add: process_signal_ok)

section \<open>Kill and stop\<close>

definition stopped :: "signal_kernel \<Rightarrow> bool" where
  "stopped k \<longleftrightarrow> (\<exists>r. sk_processes k (sk_pid k) = Some r \<and> pr_stopped r)"

definition alive :: "signal_kernel \<Rightarrow> bool" where
  "alive k \<longleftrightarrow> \<not> sk_exited k \<and>
    (\<exists>r. sk_processes k (sk_pid k) = Some r \<and> \<not> pr_exited r)"

lemma stop_transition:
  assumes "alive k"
  shows "stopped (snd (transition_signal_stop st n a k)) \<longleftrightarrow> st"
    "alive (snd (transition_signal_stop st n a k))"
  using assms
  by (auto simp: alive_def stopped_def transition_signal_stop_def Let_def notify_def
      split: option.splits prod.splits if_splits)

lemma alive_fields [simp]:
  "alive (notify ns k) = alive k" "alive (on_signals f k) = alive k"
  "alive (publish_caught p n k) = alive k" "alive (k\<lparr>sk_waits := w\<rparr>) = alive k"
  "alive (k\<lparr>sk_sender := x\<rparr>) = alive k"
  "stopped (notify ns k) = stopped k" "stopped (on_signals f k) = stopped k"
  "stopped (publish_caught p n k) = stopped k" "stopped (k\<lparr>sk_waits := w\<rparr>) = stopped k"
  "stopped (k\<lparr>sk_sender := x\<rparr>) = stopped k"
  by (simp_all add: alive_def stopped_def)

lemma process_signal_alive:
  "alive k \<Longrightarrow> sk_exited (snd (process_signal p n k)) \<or> alive (snd (process_signal p n k))"
  by (simp add: process_signal_def Let_def stop_transition(2))

lemma process_loop_kills:
  "sk_exited k \<or> kernel_ok k \<and> bit r (sig_kill - 1) \<Longrightarrow>
    sk_exited (snd (process_pending_loop p r k))"
proof (induction p r k rule: process_loop_induct)
  case (finish r k)
  then show ?case by auto
next
  case (stop r k n)
  then have "n \<le> sig_kill" by (fastforce simp: signal_numbers)
  with stop process_signal_stops [of p n k] show ?case
    by (auto simp: default_stops_def signal_numbers)
next
  case (turn r k n res)
  then have "n \<le> sig_kill" by (fastforce simp: signal_numbers)
  moreover have "sk_exited (snd (process_signal p n k))" if "n = sig_kill"
    using turn that by (simp add: process_signal_lethal Let_def)
  moreover have "bit (r AND NOT (signal_bit n)) (sig_kill - 1)" if "n < sig_kill"
    using turn that by (auto simp: bit_and_iff bit_not_iff signal_numbers)
  ultimately show ?case using turn process_signal_ok by (cases "n = sig_kill") auto
qed

lemma process_loop_halts:
  "sk_exited k \<or> kernel_ok k \<and> alive k \<and> bit r (sig_stop - 1) \<Longrightarrow>
    sk_exited (snd (process_pending_loop p r k)) \<or>
    fst (process_pending_loop p r k) \<and> stopped (snd (process_pending_loop p r k))"
proof (induction p r k rule: process_loop_induct)
  case (finish r k)
  then show ?case by auto
next
  case (stop r k n)
  then have "n = sig_stop"
    using process_signal_stops [of p n k] by (fastforce simp: default_stops_def signal_numbers)
  with stop show ?case by (auto simp: process_signal_lethal Let_def signal_numbers stop_transition)
next
  case (turn r k n res)
  then have "n \<le> sig_stop" by (fastforce simp: signal_numbers)
  moreover have "n \<noteq> sig_stop"
    using turn by (auto simp: process_signal_lethal Let_def signal_numbers)
  ultimately have "bit (r AND NOT (signal_bit n)) (sig_stop - 1)"
    using turn by (auto simp: bit_and_iff bit_not_iff signal_numbers)
  then show ?case using turn process_signal_ok process_signal_alive by blast
qed

text \<open>Without a ready stop signal the process is not stopped.\<close>

lemma process_signal_runs:
  assumes "\<not> stopped k" "\<not> default_stops n"
  shows "\<not> stopped (snd (process_signal p n k)) \<or> sk_exited (snd (process_signal p n k))"
  using assms by (simp add: process_signal_def Let_def)

lemma default_stops_bits: "default_stops n \<Longrightarrow> bit stop_mask (n - 1)"
  by (auto simp: default_stops_def bit_stop_mask signal_numbers)

lemma process_loop_runs:
  "sk_exited k \<or> \<not> stopped k \<and> r AND stop_mask = 0 \<Longrightarrow>
    sk_exited (snd (process_pending_loop p r k)) \<or> \<not> stopped (snd (process_pending_loop p r k))"
proof (induction p r k rule: process_loop_induct)
  case (finish r k)
  then show ?case by auto
next
  case (stop r k n)
  then have "\<not> default_stops n"
    using default_stops_bits [of n] by (auto simp: disjoint_bits)
  with stop process_signal_stops [of p n k] show ?case by blast
next
  case (turn r k n res)
  then have "\<not> default_stops n" "(r AND NOT (signal_bit n)) AND stop_mask = 0"
    using default_stops_bits [of n] by (auto simp: disjoint_bits bit_and_iff)
  then show ?case using turn process_signal_runs by blast
qed

section \<open>Nothing is left undelivered\<close>

definition caught :: "nat \<Rightarrow> signal_kernel \<Rightarrow> bool" where
  "caught n k \<longleftrightarrow> handler_of n k \<noteq> default_action \<and> handler_of n k \<noteq> ignore_action"

lemma pending_consume:
  "bit (signals_pending q (consume p bits s)) i \<longleftrightarrow>
    bit (signals_pending q s) i \<and> (q = p \<longrightarrow> \<not> bit bits i)"
  by (auto simp: signals_pending_def consume_def nth_change bit_and_iff bit_not_iff
      dest: bit_imp_le_length)

lemma pending_wait_mask [simp]:
  "signals_pending q (change_thread p (st_wait_mask_update f) s) = signals_pending q s"
  "signal_mask q (change_thread p (st_wait_mask_update f) s) = signal_mask q s"
  by (simp_all add: signals_pending_def signal_mask_def nth_change)

lemma pending_accept:
  "bit (signals_pending q (accept_wait_signal p b s)) i \<longleftrightarrow>
    bit (signals_pending q s) i \<and> (q = p \<longrightarrow> \<not> bit b i)"
  by (simp add: accept_wait_signal_def pending_consume)

lemma process_signal_pending:
  "bit (signals_pending q (sk_signals (snd (process_signal p n k)))) i \<Longrightarrow>
    bit (signals_pending q (sk_signals k)) i"
  by (auto simp: process_signal_def Let_def pending_consume pending_accept split: if_splits)

lemma process_signal_handled:
  assumes "1 \<le> n" "n \<le> 32"
    "bit (signals_pending p (sk_signals (snd (process_signal p n k)))) (n - 1)"
  shows "caught n k"
  using assms
  by (auto simp: process_signal_def Let_def pending_consume pending_accept caught_def
      split: if_splits)

lemma caught_same [simp]: "caught m (snd (process_signal p n k)) = caught m k"
  by (simp add: caught_def)

lemma process_loop_complete:
  "(\<forall>i. bit (signals_pending p (sk_signals (snd (process_pending_loop p r k)))) i \<longrightarrow>
      bit (signals_pending p (sk_signals k)) i) \<and>
   (fst (process_pending_loop p r k) \<or> sk_exited (snd (process_pending_loop p r k)) \<or>
    (\<forall>i. bit r i \<longrightarrow> bit (signals_pending p (sk_signals (snd (process_pending_loop p r k)))) i \<longrightarrow>
       caught (i + 1) k))"
proof (induction p r k rule: process_loop_induct)
  case (finish r k)
  then show ?case by auto
next
  case (stop r k n)
  then show ?case by (auto dest: process_signal_pending)
next
  case (turn r k n res)
  have "caught (i + 1) k"
    if "bit r i" "bit (signals_pending p (sk_signals (snd res))) i" "\<not> fst res"
      "\<not> sk_exited (snd res)" for i
  proof (cases "i = n - 1")
    case True
    then have "bit (signals_pending p (sk_signals (snd (process_signal p n k)))) (n - 1)"
      using turn that by blast
    from process_signal_handled [OF turn(2,3) this] True turn(2) show ?thesis by simp
  next
    case False
    then have "bit (r AND NOT (signal_bit n)) i"
      using that(1) by (auto simp: bit_and_iff bit_not_iff dest: bit_imp_le_length)
    then show ?thesis using turn that by simp
  qed
  then show ?case using turn process_signal_pending by blast
qed

section \<open>Choosing the thread\<close>

lemma choose_eldest:
  fixes s b el
  defines "takes \<equiv> (\<lambda>i. st_active (ss_threads s ! i) \<and> el i \<and>
      (st_mask (ss_threads s ! i) AND b = 0 \<or> st_wait_mask (ss_threads s ! i) AND b \<noteq> 0))"
  shows "if \<exists>i < thread_count s. takes i then eldest (ss_threads s) takes (choose_thread b el s)
    else eldest (ss_threads s) (\<lambda>i. st_active (ss_threads s ! i)) (choose_thread b el s)"
proof -
  have "eldest (ss_threads s) takes (case r of Some i \<Rightarrow> Some i | None \<Rightarrow> a)"
    if "eldest (ss_threads s) takes r" "\<exists>i < thread_count s. takes i" for r a
    using that by (auto simp: eldest_def thread_count_def split: option.splits)
  moreover have "(case r of Some i \<Rightarrow> Some i | None \<Rightarrow> a) = a"
    if "eldest (ss_threads s) takes r" "\<not> (\<exists>i < thread_count s. takes i)" for r a
    using that by (auto simp: eldest_def thread_count_def split: option.splits)
  ultimately show ?thesis
    using eldest_scan [of "ss_threads s" takes]
      eldest_scan [of "ss_threads s" "\<lambda>i. st_active (ss_threads s ! i)"]
    by (auto simp: choose_thread_scans Let_def takes_def)
qed

lemma select_active:
  "choose_thread b el s = Some p \<Longrightarrow> p < thread_count s \<and> st_active (ss_threads s ! p)"
  using choose_eldest [of s el b]
  by (auto simp: eldest_def thread_count_def split: if_splits)

lemma select_some:
  assumes "t \<in> set (ss_threads s)" "st_active t"
  obtains p where "choose_thread b el s = Some p"
proof -
  obtain i where "i < length (ss_threads s)" "st_active (ss_threads s ! i)"
    using assms by (auto simp: in_set_conv_nth)
  then have "choose_thread b el s \<noteq> None"
    using choose_eldest [of s el b] by (intro notI) (auto simp: eldest_def thread_count_def
        split: if_splits)
  then show ?thesis using that by blast
qed

section \<open>Delivery\<close>

lemma pending_enqueue:
  assumes "p < thread_count s" "st_active (ss_threads s ! p)"
  shows "signals_pending p (enqueue_signal p b s) =
    (let list = signals_pending p s;
         list = (if b AND continue_mask \<noteq> 0 then list AND NOT stop_mask else list);
         list = (if b AND stop_mask \<noteq> 0 then list AND NOT continue_mask else list)
     in list OR b)"
  using assms by (simp add: signals_pending_def enqueue_signal_def nth_change Let_def)

lemma mask_enqueue [simp]:
  "signal_mask q (enqueue_signal p b s) = signal_mask q s"
  "waiting_for q (enqueue_signal p b s) = waiting_for q s"
  by (simp_all add: signal_mask_def waiting_for_def enqueue_signal_def nth_change Let_def)

lemma ready_enqueue:
  assumes "kernel_ok k" "p < thread_count (sk_signals k)" "st_active (ss_threads (sk_signals k) ! p)"
    "n = sig_kill \<or> n = sig_stop"
  shows "bit (signals_ready p (enqueue_signal p (signal_bit n) (sk_signals k))) (n - 1)"
proof -
  have "signal_mask p (sk_signals k) AND unmaskable = 0"
    using assms(1) by (intro mask_free) (simp add: kernel_ok_def)
  then show ?thesis
    using assms(4)
    by (auto simp: bit_ready pending_enqueue [OF assms(2,3)] Let_def bit_or_iff
        free_of_kill_stop signal_numbers)
qed

lemma deliver_lethal:
  assumes "kernel_ok k" "\<not> sk_exited k" "n = sig_kill \<or> n = sig_stop"
    "t \<in> set (ss_threads (sk_signals k))" "st_active t"
  obtains p k' where
    "deliver_signal n sp su k = (0, snd (process_pending_loop p
       (signals_ready p (sk_signals k')) k'))"
    "kernel_ok k'" "bit (signals_ready p (sk_signals k')) (n - 1)" "alive k' = alive k"
proof -
  obtain p where p: "choose_thread (signal_bit n) (\<lambda>i. i \<notin> sk_disabled k) (sk_signals k) = Some p"
    using select_some [OF assms(4,5)] by blast
  from select_active [OF p] have active:
    "p < thread_count (sk_signals k)" "st_active (ss_threads (sk_signals k) ! p)" by auto
  let ?k = "on_signals (enqueue_signal p (signal_bit n)) k"
  have "handler_of n k = default_action" using assms(1,3) by (auto simp: kernel_ok_def)
  then have "deliver_signal n sp su k =
      (0, snd (process_pending_loop p (signals_ready p (sk_signals ?k)) ?k))"
    using assms(2,3) p
    by (auto simp: deliver_signal_def deliver_signal_to_thread_def process_pending_signals_def
        post_signal_def Let_def default_action_def ignore_action_def default_ignored_def signal_numbers)
  moreover have "kernel_ok ?k"
    using assms(1,3) by (intro kernel_ok_on_signals signals_keep)
      (auto simp: kernel_ok_def signal_numbers)
  ultimately show ?thesis
    using that [of p ?k] ready_enqueue [OF assms(1) active assms(3)] by simp
qed

lemma deliver_continue:
  assumes "\<not> sk_exited k" "alive k"
  shows "sk_exited (snd (deliver_signal sig_resume sp su k)) \<or>
    \<not> stopped (snd (deliver_signal sig_resume sp su k))"
proof (cases "choose_thread (signal_bit sig_resume) (\<lambda>i. i \<notin> sk_disabled k) (sk_signals k)")
  case None
  then show ?thesis
    using assms by (simp add: deliver_signal_def deliver_signal_to_thread_def Let_def
        stop_transition signal_numbers)
next
  case (Some p)
  from select_active [OF Some] have active:
    "p < thread_count (sk_signals k)" "st_active (ss_threads (sk_signals k) ! p)" by auto
  have "signal_bit sig_resume AND continue_mask \<noteq> 0" "signal_bit sig_resume AND stop_mask = 0"
    by (auto simp: disjoint_bits bit_continue_mask bit_stop_mask signal_numbers)
  then have "signals_ready p (enqueue_signal p (signal_bit sig_resume) (sk_signals k)) AND stop_mask = 0"
    using active
    by (auto simp: disjoint_bits bit_ready pending_enqueue Let_def bit_or_iff bit_and_iff
        bit_not_iff bit_stop_mask signal_numbers)
  moreover have "sig_resume \<noteq> 0" "\<not> signal_count \<le> sig_resume" by (simp_all add: signal_numbers)
  ultimately show ?thesis
    using assms Some process_loop_runs
    by (auto simp: deliver_signal_def deliver_signal_to_thread_def process_pending_signals_def
        post_signal_def resume_for_def Let_def stop_transition)
qed

end
