(* ===== verification/Signal_Calls.thy ===== *)
theory Signal_Calls
  imports Signal_Sending
begin

text \<open>
  The signal system calls and the events in the life of a process that touch its signals:
  the remaining operations of \<^verbatim>\<open>kernel/bsd/signal/{signal,wait}.cpp\<close>, the case
  for sigaction of \<^verbatim>\<open>kernel/bsd/process.cpp\<close>, the end of a suspend in
  \<^verbatim>\<open>kernel/kernel.cpp\<close>, and fork, spawn, exec and thread termination.

  Guest memory is bytes with access rights: an access checks its whole range and then takes
  place, as in \<^verbatim>\<open>foundation/address_space.cpp\<close>. The host's \<open>copy_in\<close> needs a
  mapping only. Pages of files are assumed to come in.
\<close>

unbundle bit_operations_syntax

section \<open>Guest memory\<close>

record guest_memory =
  gm_bytes :: "u32 \<Rightarrow> u8"
  gm_mapped :: "u32 \<Rightarrow> bool"
  gm_readable :: "u32 \<Rightarrow> bool"
  gm_writable :: "u32 \<Rightarrow> bool"

definition range_allows :: "(u32 \<Rightarrow> bool) \<Rightarrow> u32 \<Rightarrow> nat \<Rightarrow> guest_memory \<Rightarrow> bool" where
  "range_allows allowed a n m \<longleftrightarrow>
    n = 0 \<or> unat a + n \<le> 2 ^ 32 \<and>
      list_all (\<lambda>i. gm_mapped m (a + of_nat i) \<and> allowed (a + of_nat i)) [0..<n]"

primrec guest_load :: "u32 \<Rightarrow> nat \<Rightarrow> guest_memory \<Rightarrow> u8 list" where
  "guest_load a 0 m = []"
| "guest_load a (Suc n) m = gm_bytes m a # guest_load (a + 1) n m"

primrec guest_store :: "u32 \<Rightarrow> u8 list \<Rightarrow> guest_memory \<Rightarrow> guest_memory" where
  "guest_store a [] m = m"
| "guest_store a (b # bs) m = guest_store (a + 1) bs (m\<lparr>gm_bytes := (gm_bytes m)(a := b)\<rparr>)"

definition copy_in :: "u32 \<Rightarrow> u8 list \<Rightarrow> guest_memory \<Rightarrow> guest_memory option" where
  "copy_in a bs m =
    (if range_allows (\<lambda>_. True) a (length bs) m then Some (guest_store a bs m) else None)"

definition copy_out :: "u32 \<Rightarrow> nat \<Rightarrow> guest_memory \<Rightarrow> u8 list option" where
  "copy_out a n m = (if range_allows (gm_readable m) a n m then Some (guest_load a n m) else None)"

definition word_bytes :: "u32 \<Rightarrow> u8 list" where
  "word_bytes v = [ucast v, ucast (drop_bit 8 v), ucast (drop_bit 16 v), ucast (drop_bit 24 v)]"

fun bytes_word :: "u8 list \<Rightarrow> u32" where
  "bytes_word [a, b, c, d] =
    ucast a OR push_bit 8 (ucast b) OR push_bit 16 (ucast c) OR push_bit 24 (ucast d)"
| "bytes_word _ = 0"

definition read32 :: "u32 \<Rightarrow> guest_memory \<Rightarrow> u32 option" where
  "read32 a m = map_option bytes_word (copy_out a 4 m)"

definition write32 :: "u32 \<Rightarrow> u32 \<Rightarrow> guest_memory \<Rightarrow> guest_memory option" where
  "write32 a v m =
    (if range_allows (gm_writable m) a 4 m then Some (guest_store a (word_bytes v) m) else None)"

text \<open>Several words one after the other; the writes before a failing one remain.\<close>

fun write_words :: "(u32 \<times> u32) list \<Rightarrow> guest_memory \<Rightarrow> bool \<times> guest_memory" where
  "write_words [] m = (True, m)"
| "write_words ((a, v) # ws) m =
    (case write32 a v m of None \<Rightarrow> (False, m) | Some m \<Rightarrow> write_words ws m)"

fun read_words :: "u32 list \<Rightarrow> guest_memory \<Rightarrow> u32 list option" where
  "read_words [] m = Some []"
| "read_words (a # as) m =
    (case read32 a m of None \<Rightarrow> None
     | Some v \<Rightarrow> (case read_words as m of None \<Rightarrow> None | Some vs \<Rightarrow> Some (v # vs)))"

section \<open>Results\<close>

datatype call_result = Returned u32 | Failed u32 | Blocked

definition operation_not_permitted :: u32 where "operation_not_permitted = 1"
definition no_memory :: u32 where "no_memory = 12"

section \<open>Dispositions and masks\<close>

definition dispatch_sigaction ::
  "u32 \<Rightarrow> u32 \<Rightarrow> u32 \<Rightarrow> signal_kernel \<Rightarrow> guest_memory \<Rightarrow>
    call_result \<times> signal_kernel \<times> guest_memory" where
  "dispatch_sigaction signal input output k m =
    (if signal = 0 \<or> of_nat (length (sk_actions k)) \<le> signal \<or> signal = 9 \<or> signal = 17
     then (Failed invalid_argument, k, m)
     else
       let n = unat signal;
           action = sk_actions k ! n;
           (ok, m) = (if output \<noteq> 0
             then write_words [(output, sa_handler action), (output + 4, sa_mask action),
                     (output + 8, sa_flags action)] m
             else (True, m))
       in if \<not> ok then (Failed bad_address, k, m)
          else if input \<noteq> 0 then
            (case read_words [input, input + 4, input + 8, input + 12] m of
               Some [entry, trampoline, blocked, flags] \<Rightarrow>
                 (Returned 0,
                  discard_ignored n (k\<lparr>sk_actions := (sk_actions k)[n :=
                    \<lparr>sa_handler = entry, sa_trampoline = trampoline, sa_mask = blocked,
                     sa_flags = flags\<rparr>]\<rparr>), m)
             | _ \<Rightarrow> (Failed bad_address, k, m))
          else (Returned 0, k, m))"

definition process_ready_threads :: "signal_kernel \<Rightarrow> signal_kernel" where
  "process_ready_threads k =
    fold (\<lambda>i k.
      if signals_ready i (sk_signals k) \<noteq> 0 then
        (case process_pending_signals i k of
           (halted, k) \<Rightarrow> if halted then notify [Preemption] k else k)
      else k) [0..<thread_count (sk_signals k)] k"

definition dispatch_sigmask ::
  "mask_scope \<Rightarrow> nat \<Rightarrow> u32 \<Rightarrow> u32 \<Rightarrow> u32 \<Rightarrow> signal_kernel \<Rightarrow> guest_memory \<Rightarrow>
    call_result \<times> signal_kernel \<times> guest_memory" where
  "dispatch_sigmask scope p how input output k m =
    (let previous = signal_mask p (sk_signals k);
         finish = (\<lambda>k. (Returned 0,
           if input \<noteq> 0 \<and> scope = Process_Scope then process_ready_threads k else k,
           if output \<noteq> 0 then (case write32 output previous m of None \<Rightarrow> m | Some m \<Rightarrow> m) else m))
     in if input \<noteq> 0 then
          (case read32 input m of
             None \<Rightarrow> (Failed bad_address, k, m)
           | Some requested \<Rightarrow>
               (case update_mask p how requested scope (sk_signals k) of
                  (False, s) \<Rightarrow> (Failed invalid_argument, k, m)
                | (True, s) \<Rightarrow> finish (k\<lparr>sk_signals := s\<rparr>)))
        else finish k)"

definition dispatch_sigpending ::
  "nat \<Rightarrow> u32 \<Rightarrow> signal_kernel \<Rightarrow> guest_memory \<Rightarrow> call_result \<times> signal_kernel \<times> guest_memory" where
  "dispatch_sigpending p output k m =
    (Returned 0, k,
     if output \<noteq> 0
     then (case write32 output (signals_pending p (sk_signals k)) m of None \<Rightarrow> m | Some m \<Rightarrow> m)
     else m)"

section \<open>Alternate stacks\<close>

definition alternate_stack_disabled :: u32 where "alternate_stack_disabled = 0x4"
definition alternate_stack_on_stack :: u32 where "alternate_stack_on_stack = 0x1"
definition alternate_stack_minimum :: u32 where "alternate_stack_minimum = 8 * 1024"

definition no_stack :: alternate_stack where
  "no_stack = \<lparr>as_address = 0, as_size = 0, as_flags = alternate_stack_disabled\<rparr>"

definition stack_of :: "nat \<Rightarrow> signal_kernel \<Rightarrow> alternate_stack" where
  "stack_of p k = (case sk_stacks k p of None \<Rightarrow> no_stack | Some s \<Rightarrow> s)"

definition dispatch_sigaltstack ::
  "nat \<Rightarrow> u32 \<Rightarrow> u32 \<Rightarrow> signal_kernel \<Rightarrow> guest_memory \<Rightarrow>
    call_result \<times> signal_kernel \<times> guest_memory" where
  "dispatch_sigaltstack p input output k m =
    (let old = stack_of p k;
         (ok, m) = (if output = 0 then (True, m)
           else if 0xffffffff - 8 < output then (False, m)
           else write_words [(output, as_address old), (output + 4, as_size old),
                   (output + 8, as_flags old)] m)
     in if \<not> ok then (Failed bad_address, k, m)
        else if input = 0 then (Returned 0, k, m)
        else if 0xffffffff - 8 < input then (Failed bad_address, k, m)
        else
          case read_words [input, input + 4, input + 8] m of
            Some [address, bytes, flags] \<Rightarrow>
              if flags AND NOT alternate_stack_disabled \<noteq> 0 then (Failed invalid_argument, k, m)
              else if flags AND alternate_stack_disabled \<noteq> 0 then
                if as_flags old AND alternate_stack_on_stack \<noteq> 0
                then (Failed invalid_argument, k, m)
                else (Returned 0, k\<lparr>sk_stacks := (sk_stacks k)(p \<mapsto>
                       old\<lparr>as_flags := alternate_stack_disabled\<rparr>)\<rparr>, m)
              else if as_flags old AND alternate_stack_on_stack \<noteq> 0
              then (Failed operation_not_permitted, k, m)
              else if bytes < alternate_stack_minimum then (Failed no_memory, k, m)
              else (Returned 0, k\<lparr>sk_stacks := (sk_stacks k)(p \<mapsto>
                     \<lparr>as_address = address, as_size = bytes, as_flags = 0\<rparr>)\<rparr>, m)
          | _ \<Rightarrow> (Failed bad_address, k, m))"

section \<open>Waiting for signals\<close>

definition dispatch_sigsuspend :: "nat \<Rightarrow> u32 \<Rightarrow> signal_kernel \<Rightarrow> call_result \<times> signal_kernel" where
  "dispatch_sigsuspend p v k =
    (Blocked, (on_signals (suspend_mask p v) k)
       \<lparr>sk_suspends := (sk_suspends k)(p \<mapsto> False)\<rparr>)"

definition complete_sigsuspend :: "nat \<Rightarrow> signal_kernel \<Rightarrow> call_result option \<times> signal_kernel" where
  "complete_sigsuspend p k =
    (if sk_suspends k p = Some True then
       (Some (Failed call_interrupted), (on_signals (resume_mask p) k)
          \<lparr>sk_suspends := (sk_suspends k)(p := None)\<rparr>)
     else (None, k))"

definition return_waited ::
  "nat \<Rightarrow> u32 \<Rightarrow> guest_memory \<Rightarrow> call_result \<times> guest_memory" where
  "return_waited signal output m =
    (if output = 0 then (Returned 0, m)
     else case write32 output (of_nat signal) m of
            None \<Rightarrow> (Failed bad_address, m)
          | Some m \<Rightarrow> (Returned 0, m))"

definition dispatch_sigwait ::
  "nat \<Rightarrow> u32 \<Rightarrow> u32 \<Rightarrow> signal_kernel \<Rightarrow> guest_memory \<Rightarrow>
    call_result \<times> signal_kernel \<times> guest_memory" where
  "dispatch_sigwait p input output k m =
    (if input = 0 then (Failed invalid_argument, k, m)
     else
       case read32 input m of
         None \<Rightarrow> (Failed bad_address, k, m)
       | Some wanted \<Rightarrow>
           let signals = wanted AND NOT unmaskable in
           if signals = 0 then (Failed invalid_argument, k, m)
           else
             case take_pending p signals (sk_signals k) of
               (Some signal, s) \<Rightarrow>
                 (case return_waited signal output m of
                    (result, m) \<Rightarrow> (result, k\<lparr>sk_signals := s\<rparr>, m))
             | (None, s) \<Rightarrow>
                 (Blocked, (on_signals (begin_wait p signals) k)
                    \<lparr>sk_waits := (sk_waits k)(p \<mapsto>
                       \<lparr>pw_signals = signals, pw_output = output, pw_selected = None,
                        pw_interruption = None\<rparr>)\<rparr>, m))"

definition complete_signal_wait ::
  "nat \<Rightarrow> bool \<Rightarrow> signal_kernel \<Rightarrow> guest_memory \<Rightarrow>
    call_result option \<times> signal_kernel \<times> guest_memory" where
  "complete_signal_wait p interrupted k m =
    (case sk_waits k p of
       None \<Rightarrow> (None, k, m)
     | Some w \<Rightarrow>
         if pw_selected w = None \<and> pw_interruption w = None \<and> \<not> interrupted then (None, k, m)
         else
           let k = (on_signals (resume_mask p) k)\<lparr>sk_waits := (sk_waits k)(p := None)\<rparr>;
               error = (case pw_interruption w of Some e \<Rightarrow> e
                        | None \<Rightarrow> if interrupted then call_interrupted else 0)
           in if error \<noteq> 0 \<and> ss_wait_reports_interrupt (sk_signals k) then
                (Some (Failed error), k, m)
              else
                let signal = (case pw_selected w of Some n \<Rightarrow> n
                              | None \<Rightarrow> countr_zero (pw_signals w) + 1);
                    k = on_signals (consume p (signal_bit signal)) k
                in case return_waited signal (pw_output w) m of
                     (result, m) \<Rightarrow> (Some result, k, m))"

section \<open>Threads and processes\<close>

definition disable_thread_signal :: "nat \<Rightarrow> signal_kernel \<Rightarrow> signal_kernel" where
  "disable_thread_signal p k = k\<lparr>sk_disabled := insert p (sk_disabled k)\<rparr>"

text \<open>Of the end of a thread, what it does to signals.\<close>

definition retire_thread_signals :: "nat \<Rightarrow> signal_kernel \<Rightarrow> signal_kernel" where
  "retire_thread_signals p k =
    (on_signals (retire p) k)\<lparr>sk_disabled := sk_disabled k - {p},
       sk_stacks := (sk_stacks k)(p := None), sk_faults := (sk_faults k)(p := None),
       sk_suspends := (sk_suspends k)(p := None),
       sk_waits := (sk_waits k)(p := None)\<rparr>"

definition start_thread_signals :: "nat \<Rightarrow> u32 \<Rightarrow> signal_kernel \<Rightarrow> signal_kernel" where
  "start_thread_signals p v k = on_signals (initialize p v) k"

text \<open>Of \<^verbatim>\<open>prepare_exec\<close>, what it does to signals.\<close>

definition exec_kernel_signals :: "nat \<Rightarrow> signal_kernel \<Rightarrow> signal_kernel" where
  "exec_kernel_signals p k =
    (let k = (on_signals (exec_signals p) k)\<lparr>sk_sender := no_sender\<rparr>;
         k = reset_actions_for_exec k
     in k\<lparr>sk_stacks := (\<lambda>_. None), sk_disabled := {},
          sk_suspends := (\<lambda>_. None), sk_waits := (\<lambda>_. None)\<rparr>)"

definition inherit_signals :: "signal_kernel \<Rightarrow> nat \<Rightarrow> signal_kernel \<Rightarrow> signal_kernel" where
  "inherit_signals parent p k =
    (on_signals (reset_signals 0 (inherited_mask p (sk_signals parent))) k)
      \<lparr>sk_actions := sk_actions parent, sk_stacks := (\<lambda>_. None)\<rparr>"

definition apply_spawn_signals :: "u32 option \<Rightarrow> u32 \<Rightarrow> signal_kernel \<Rightarrow> signal_kernel" where
  "apply_spawn_signals requested defaults k =
    (let k = (case requested of None \<Rightarrow> k
              | Some v \<Rightarrow> on_signals (\<lambda>s. snd (update_mask 0 3 v Process_Scope s)) k)
     in fold (\<lambda>n k.
          if defaults AND signal_bit n \<noteq> 0
          then k\<lparr>sk_actions := (sk_actions k)[n := blank_action]\<rparr> else k)
        [1..<length (sk_actions k)] k)"

end
