(* ===== verification/Signal_Frames.thy ===== *)
theory Signal_Frames
  imports Signal_Calls Arm_State
begin

text \<open>
  Entering and leaving a signal handler, \<^verbatim>\<open>kernel/bsd/signal/{delivery,context}.cpp\<close>
  with \<^verbatim>\<open>kernel/include/kernel/{darwin_signal_context,mach_arm_thread_abi}.hpp\<close>:
  the frame written on the user stack, the handler's registers, and sigreturn.

  Of the waits a signal interrupts (\<^verbatim>\<open>interruption.cpp\<close>) those for signals are
  modelled; the thread is in none of the others, and \<open>busy\<close> says whether accepted work
  or an exception that is being delivered holds the signal back.
\<close>

unbundle bit_operations_syntax

section \<open>Registers\<close>

definition carry_flag :: u32 where "carry_flag = push_bit 29 1"

definition bsd_success :: "u32 \<Rightarrow> cpu_state \<Rightarrow> cpu_state" where
  "bsd_success v cpu =
    (set_reg 1 0 (set_reg 0 v cpu))\<lparr>cpsr := cpsr cpu AND NOT carry_flag\<rparr>"

definition bsd_error :: "u32 \<Rightarrow> cpu_state \<Rightarrow> cpu_state" where
  "bsd_error e cpu = (set_reg 0 e cpu)\<lparr>cpsr := cpsr cpu OR carry_flag\<rparr>"

definition finish_call :: "call_result \<Rightarrow> cpu_state \<Rightarrow> cpu_state" where
  "finish_call r cpu =
    (case r of Returned v \<Rightarrow> bsd_success v cpu | Failed e \<Rightarrow> bsd_error e cpu | Blocked \<Rightarrow> cpu)"

definition privileged_cpsr_mask :: u32 where "privileged_cpsr_mask = 0x1df"
definition user_cpsr :: u32 where "user_cpsr = 0x10"

definition thread_restored_cpsr :: "u32 \<Rightarrow> u32 \<Rightarrow> u32" where
  "thread_restored_cpsr requested current =
    (requested AND NOT privileged_cpsr_mask) OR (current AND privileged_cpsr_mask)"

definition restored_cpsr :: "u32 \<Rightarrow> u32 \<Rightarrow> u32" where
  "restored_cpsr requested current =
    (thread_restored_cpsr requested current AND NOT 0x1f) OR user_cpsr"

section \<open>The frame\<close>

record user_context =
  uc_on_stack :: u32
  uc_signal_mask :: u32
  uc_stack_address :: u32
  uc_stack_size :: u32
  uc_stack_flags :: u32
  uc_link :: u32
  uc_machine_size :: u32
  uc_machine_address :: u32

record machine_context =
  mx_exception :: "u32 list"
  mx_general :: "u32 list"
  mx_floating :: "u32 list"
  mx_fpscr :: u32

record signal_information =
  si_signal :: u32
  si_error :: u32
  si_code :: u32
  si_pid :: u32
  si_uid :: u32
  si_status :: u32
  si_address :: u32
  si_value :: u32
  si_band :: u32
  si_padding :: "u32 list"

record signal_frame =
  sf_context_address :: u32
  sf_information :: signal_information
  sf_user :: user_context
  sf_machine :: machine_context

definition user_context_words :: "user_context \<Rightarrow> u32 list" where
  "user_context_words u =
    [uc_on_stack u, uc_signal_mask u, uc_stack_address u, uc_stack_size u, uc_stack_flags u,
     uc_link u, uc_machine_size u, uc_machine_address u]"

definition machine_context_words :: "machine_context \<Rightarrow> u32 list" where
  "machine_context_words x = mx_exception x @ mx_general x @ mx_floating x @ [mx_fpscr x]"

definition information_words :: "signal_information \<Rightarrow> u32 list" where
  "information_words i =
    [si_signal i, si_error i, si_code i, si_pid i, si_uid i, si_status i, si_address i,
     si_value i, si_band i] @ si_padding i"

definition frame_words :: "signal_frame \<Rightarrow> u32 list" where
  "frame_words f = sf_context_address f # information_words (sf_information f) @
     user_context_words (sf_user f) @ machine_context_words (sf_machine f)"

definition words_bytes :: "u32 list \<Rightarrow> u8 list" where
  "words_bytes ws = concat (map word_bytes ws)"

fun bytes_words :: "u8 list \<Rightarrow> u32 list" where
  "bytes_words (a # b # c # d # bs) = bytes_word [a, b, c, d] # bytes_words bs"
| "bytes_words _ = []"

definition user_context_of :: "u32 list \<Rightarrow> user_context" where
  "user_context_of ws =
    \<lparr>uc_on_stack = ws ! 0, uc_signal_mask = ws ! 1, uc_stack_address = ws ! 2,
     uc_stack_size = ws ! 3, uc_stack_flags = ws ! 4, uc_link = ws ! 5,
     uc_machine_size = ws ! 6, uc_machine_address = ws ! 7\<rparr>"

definition machine_context_of :: "u32 list \<Rightarrow> machine_context" where
  "machine_context_of ws =
    \<lparr>mx_exception = take 3 ws, mx_general = take 17 (drop 3 ws),
     mx_floating = take 64 (drop 20 ws), mx_fpscr = ws ! 84\<rparr>"

text \<open>Sizes and offsets in bytes.\<close>

definition frame_bytes :: nat where "frame_bytes = 440"
definition information_offset :: u32 where "information_offset = 4"
definition user_offset :: u32 where "user_offset = 68"
definition machine_offset :: u32 where "machine_offset = 100"
definition user_bytes :: nat where "user_bytes = 32"
definition machine_bytes :: nat where "machine_bytes = 340"

section \<open>Choosing the signal\<close>

definition lowest_caught :: "u32 \<Rightarrow> signal_kernel \<Rightarrow> nat option" where
  "lowest_caught ready k =
    List.find (\<lambda>n. bit ready (n - 1) \<and> ignore_action < handler_of n k) [1..<33]"

definition caught_signal_ready :: "nat \<Rightarrow> bool \<Rightarrow> signal_kernel \<Rightarrow> bool" where
  "caught_signal_ready p busy k \<longleftrightarrow>
    \<not> busy \<and> signals_ready p (sk_signals k) \<noteq> 0 \<and> \<not> sk_exited k \<and>
    lowest_caught (signals_ready p (sk_signals k)) k \<noteq> None"

section \<open>Interrupting a wait for signals\<close>

definition interrupt_signal_wait ::
  "nat \<Rightarrow> cpu_state \<Rightarrow> signal_kernel \<Rightarrow> guest_memory \<Rightarrow> cpu_state \<times> signal_kernel \<times> guest_memory" where
  "interrupt_signal_wait p cpu k m =
    (if sk_waits k p \<noteq> None then
       let (r, k, m) = (case complete_signal_wait p False k m of
             (Some r, k, m) \<Rightarrow> (Some r, k, m)
           | (None, k, m) \<Rightarrow> complete_signal_wait p True k m)
       in (case r of None \<Rightarrow> cpu | Some r \<Rightarrow> finish_call r cpu, on_signals (resume_mask p) k, m)
     else if sk_suspends k p \<noteq> None then
       let (r, k) = (case complete_sigsuspend p k of
             (Some r, k) \<Rightarrow> (r, k)
           | (None, k) \<Rightarrow>
               (Failed call_interrupted, k\<lparr>sk_suspends := (sk_suspends k)(p := None)\<rparr>))
       in (finish_call r cpu, on_signals (resume_mask p) k, m)
     else (cpu, k, m))"

section \<open>Entering the handler\<close>

definition on_stack_action :: u32 where "on_stack_action = 0x01"
definition reset_action :: u32 where "reset_action = 0x04"
definition no_defer_action :: u32 where "no_defer_action = 0x10"
definition information_action :: u32 where "information_action = 0x40"
definition return_flavor :: u32 where "return_flavor = 30"

definition uses_alternate :: "nat \<Rightarrow> signal_action \<Rightarrow> signal_kernel \<Rightarrow> bool" where
  "uses_alternate p action k \<longleftrightarrow>
    (case sk_stacks k p of
       None \<Rightarrow> False
     | Some st \<Rightarrow> as_flags st AND alternate_stack_on_stack = 0 \<and>
         sa_flags action AND on_stack_action \<noteq> 0 \<and>
         as_flags st AND alternate_stack_disabled = 0)"

definition on_alternate :: "nat \<Rightarrow> signal_kernel \<Rightarrow> bool" where
  "on_alternate p k \<longleftrightarrow>
    (case sk_stacks k p of
       None \<Rightarrow> False
     | Some st \<Rightarrow> as_flags st AND alternate_stack_on_stack \<noteq> 0)"

text \<open>The top of the stack as the 64-bit sum the code computes; it cannot wrap.\<close>

definition stack_top :: "nat \<Rightarrow> signal_action \<Rightarrow> cpu_state \<Rightarrow> signal_kernel \<Rightarrow> nat" where
  "stack_top p action cpu k =
    (if uses_alternate p action k
     then unat (as_address (the (sk_stacks k p))) + unat (as_size (the (sk_stacks k p)))
     else unat (reg cpu 13))"

definition fault_state :: "nat \<Rightarrow> nat \<Rightarrow> signal_kernel \<Rightarrow> u32 list" where
  "fault_state p signal k =
    (case sk_faults k p of
       Some (n, x, y, z) \<Rightarrow> if n = signal then [x, y, z] else [0, 0, 0]
     | None \<Rightarrow> [0, 0, 0])"

definition frame_information ::
  "nat \<Rightarrow> u32 list \<Rightarrow> cpu_state \<Rightarrow> signal_kernel \<Rightarrow> signal_information" where
  "frame_information signal fault cpu k =
    (let info = \<lparr>si_signal = of_nat signal, si_error = 0, si_code = 0, si_pid = 0, si_uid = 0,
           si_status = 0, si_address = reg cpu 15, si_value = 0, si_band = 0,
           si_padding = [reg cpu 13, 0, 0, 0, 0, 0, 0]\<rparr>
     in if signal = 4 then info\<lparr>si_code := 2\<rparr>
        else if signal = 8 then info
        else if signal = 10 then info\<lparr>si_address := fault ! 2, si_code := 1\<rparr>
        else if signal = 11 then info\<lparr>si_address := fault ! 2, si_code := 2\<rparr>
        else info\<lparr>si_pid := sd_pid (sk_sender k), si_uid := sd_uid (sk_sender k),
               si_status := sd_status (sk_sender k), si_code := sd_code (sk_sender k)\<rparr>)"

definition signal_frame_at ::
  "u32 \<Rightarrow> nat \<Rightarrow> signal_action \<Rightarrow> nat \<Rightarrow> u32 \<Rightarrow> cpu_state \<Rightarrow> signal_kernel \<Rightarrow> signal_frame" where
  "signal_frame_at address p action signal return_mask cpu k =
    (let fault = fault_state p signal k in
     \<lparr>sf_context_address = address + user_offset,
      sf_information = frame_information signal fault cpu k,
      sf_user =
        \<lparr>uc_on_stack = of_bool (on_alternate p k), uc_signal_mask = return_mask,
         uc_stack_address = address,
         uc_stack_size = (if uses_alternate p action k then as_size (the (sk_stacks k p)) else 0),
         uc_stack_flags = of_bool (on_alternate p k), uc_link = 0,
         uc_machine_size = of_nat machine_bytes, uc_machine_address = address + machine_offset\<rparr>,
      sf_machine =
        \<lparr>mx_exception = fault, mx_general = cpu_registers cpu @ [cpsr cpu],
         mx_floating = extension_registers cpu, mx_fpscr = fpscr cpu\<rparr>\<rparr>)"

definition bad_stack :: "signal_kernel \<Rightarrow> signal_kernel" where
  "bad_stack k = exit_process 0 4 (k\<lparr>sk_actions := (sk_actions k)[4 := blank_action]\<rparr>)"

text \<open>What the kernel forgets once it has built the frame.\<close>

definition frame_taken :: "nat \<Rightarrow> nat \<Rightarrow> signal_kernel \<Rightarrow> signal_kernel" where
  "frame_taken p signal k =
    (let k = (case sk_faults k p of
           Some (n, state) \<Rightarrow> if n = signal then k\<lparr>sk_faults := (sk_faults k)(p := None)\<rparr> else k
         | None \<Rightarrow> k)
     in if signal = 4 \<or> signal = 8 \<or> signal = 10 \<or> signal = 11 then k
        else k\<lparr>sk_sender := no_sender\<rparr>)"

definition handler_entered ::
  "nat \<Rightarrow> nat \<Rightarrow> signal_action \<Rightarrow> u32 \<Rightarrow> signal_kernel \<Rightarrow> signal_kernel" where
  "handler_entered p signal action handler_mask k =
    (let b = signal_bit signal;
         alternate = uses_alternate p action k;
         k = on_signals (\<lambda>s. snd (update_mask p 3
               (handler_mask OR sa_mask action OR
                 (if sa_flags action AND no_defer_action \<noteq> 0 then 0 else b))
               Thread_Scope (resume_mask p (consume p b s)))) k;
         k = (if sa_flags action AND reset_action \<noteq> 0 \<and> signal \<noteq> 4 \<and> signal \<noteq> 5 then
                discard_ignored signal (k\<lparr>sk_actions := (sk_actions k)[signal :=
                  (sk_actions k ! signal)\<lparr>sa_handler := default_action,
                    sa_flags := sa_flags (sk_actions k ! signal) AND
                      NOT (information_action OR no_defer_action)\<rparr>]\<rparr>)
              else k)
     in if alternate then
          k\<lparr>sk_stacks := (sk_stacks k)(p \<mapsto>
            (the (sk_stacks k p))\<lparr>as_flags :=
              as_flags (the (sk_stacks k p)) OR alternate_stack_on_stack\<rparr>)\<rparr>
        else k)"

definition enter_registers :: "nat \<Rightarrow> signal_action \<Rightarrow> u32 \<Rightarrow> cpu_state \<Rightarrow> cpu_state" where
  "enter_registers signal action address cpu =
    (let cpu = set_reg 0 (sa_handler action) cpu;
         cpu = set_reg 1 (if sa_flags action AND information_action \<noteq> 0
                          then return_flavor else 1) cpu;
         cpu = set_reg 2 (of_nat signal) cpu;
         cpu = set_reg 3 (address + information_offset) cpu;
         cpu = set_reg 13 address cpu;
         cpu = set_reg 15 (sa_trampoline action AND NOT 1) cpu
     in cpu\<lparr>cpsr := 0x10 OR push_bit 5 (sa_trampoline action AND 1)\<rparr>)"

definition deliver_pending_signal ::
  "nat \<Rightarrow> bool \<Rightarrow> cpu_state \<Rightarrow> signal_kernel \<Rightarrow> guest_memory \<Rightarrow>
    bool \<times> cpu_state \<times> signal_kernel \<times> guest_memory" where
  "deliver_pending_signal p busy cpu k m =
    (if \<not> caught_signal_ready p busy k then (False, cpu, k, m)
     else
       let signal = the (lowest_caught (signals_ready p (sk_signals k)) k);
           action = sk_actions k ! signal;
           return_mask = inherited_mask p (sk_signals k);
           suspended = (sk_suspends k p \<noteq> None);
           temporary = signal_mask p (sk_signals k);
           (cpu, k, m) = interrupt_signal_wait p cpu k m;
           handler_mask = (if suspended then temporary else signal_mask p (sk_signals k));
           top = stack_top p action cpu k;
           address = of_nat (top - frame_bytes) AND NOT 3;
           frame = signal_frame_at address p action signal return_mask cpu k;
           k = (if top < frame_bytes \<or> 2 ^ 32 - 1 < top
                then (case sk_faults k p of
                    Some (n, state) \<Rightarrow>
                      if n = signal then k\<lparr>sk_faults := (sk_faults k)(p := None)\<rparr> else k
                  | None \<Rightarrow> k)
                else frame_taken p signal k)
       in if top < frame_bytes \<or> 2 ^ 32 - 1 < top then (True, cpu, bad_stack k, m)
          else
            case copy_in address (words_bytes (frame_words frame)) m of
              None \<Rightarrow> (True, cpu, bad_stack k, m)
            | Some m \<Rightarrow>
                (True, enter_registers signal action address cpu,
                 handler_entered p signal action handler_mask k, m))"

section \<open>Leaving the handler\<close>

definition set_alternate_stack :: u32 where "set_alternate_stack = 0x40000000"
definition reset_alternate_stack :: u32 where "reset_alternate_stack = 0x80000000"

definition set_on_stack :: "nat \<Rightarrow> bool \<Rightarrow> signal_kernel \<Rightarrow> signal_kernel" where
  "set_on_stack p enabled k =
    (case sk_stacks k p of
       None \<Rightarrow>
         if \<not> enabled then k
         else k\<lparr>sk_stacks := (sk_stacks k)(p \<mapsto> no_stack\<lparr>as_flags :=
                alternate_stack_disabled OR alternate_stack_on_stack\<rparr>)\<rparr>
     | Some st \<Rightarrow>
         k\<lparr>sk_stacks := (sk_stacks k)(p \<mapsto> st\<lparr>as_flags :=
           (if enabled then as_flags st OR alternate_stack_on_stack
            else as_flags st AND NOT alternate_stack_on_stack)\<rparr>)\<rparr>)"

definition dispatch_sigreturn ::
  "nat \<Rightarrow> cpu_state \<Rightarrow> signal_kernel \<Rightarrow> guest_memory \<Rightarrow> cpu_state \<times> signal_kernel" where
  "dispatch_sigreturn p cpu k m =
    (let style = reg cpu 1 in
     if style = set_alternate_stack \<or> style = reset_alternate_stack then
       (bsd_success 0 cpu, set_on_stack p (style = set_alternate_stack) k)
     else
       case copy_out (reg cpu 0) user_bytes m of
         None \<Rightarrow> (bsd_error bad_address cpu, k)
       | Some bs \<Rightarrow>
           let user = user_context_of (bytes_words bs) in
           if uc_machine_size user \<noteq> of_nat machine_bytes then (bsd_error invalid_argument cpu, k)
           else
             case copy_out (uc_machine_address user) machine_bytes m of
               None \<Rightarrow> (bsd_error bad_address cpu, k)
             | Some bs \<Rightarrow>
                 let machine = machine_context_of (bytes_words bs);
                     status = restored_cpsr (mx_general machine ! 16) (cpsr cpu);
                     k = set_on_stack p (uc_on_stack user AND 1 \<noteq> 0) k;
                     k = on_signals (\<lambda>s. snd (update_mask p 3 (uc_signal_mask user)
                           Thread_Scope s)) k
                 in (cpu\<lparr>cpu_registers := take 16 (mx_general machine),
                       extension_registers := mx_floating machine,
                       fpscr := mx_fpscr machine, cpsr := status\<rparr>, k))"

end
