(* ===== verification/Signal_Lives.thy ===== *)
theory Signal_Lives
  imports Signal_Frames
begin

text \<open>
  Every sequence of signal operations in the life of a process, and the laws all of them keep.
\<close>

unbundle bit_operations_syntax

section \<open>What the operations keep\<close>

lemma kernel_ok_parts:
  assumes "kernel_ok k"
  shows "signals_ok (sk_signals k)" "pending_bounded (sk_signals k)" "length (sk_actions k) = 32"
  using assms by (simp_all add: kernel_ok_def)

lemma kernel_ok_fields [simp]:
  "kernel_ok (k\<lparr>sk_suspends := a\<rparr>) = kernel_ok k" "kernel_ok (k\<lparr>sk_stacks := b\<rparr>) = kernel_ok k"
  "kernel_ok (k\<lparr>sk_faults := c\<rparr>) = kernel_ok k" "kernel_ok (k\<lparr>sk_disabled := d\<rparr>) = kernel_ok k"
  "kernel_ok (k\<lparr>sk_processes := e\<rparr>) = kernel_ok k"
  by (simp_all add: kernel_ok_def handler_of_def)

text \<open>An operation on the signal state that keeps both of its laws.\<close>

lemma kernel_ok_signals:
  assumes "kernel_ok k"
    "\<And>s. signals_ok s \<Longrightarrow> pending_bounded s \<Longrightarrow> signals_ok (f s) \<and> pending_bounded (f s)"
  shows "kernel_ok (on_signals f k)"
  using assms by (intro kernel_ok_on_signals) (simp_all add: kernel_ok_def)

lemma kernel_ok_set_action:
  assumes "kernel_ok k" "n \<noteq> sig_kill \<and> n \<noteq> sig_stop \<or> sa_handler a = default_action"
  shows "kernel_ok (k\<lparr>sk_actions := (sk_actions k)[n := a]\<rparr>)"
proof (cases "n < 32")
  case True
  then show ?thesis
    using assms by (auto simp: kernel_ok_def handler_of_def nth_list_update signal_numbers)
next
  case False
  then show ?thesis
    using assms by (simp add: kernel_ok_def handler_of_def list_update_beyond)
qed

lemma kernel_ok_discard: "kernel_ok k \<Longrightarrow> kernel_ok (discard_ignored n k)"
  by (auto simp: discard_ignored_def intro!: kernel_ok_signals signals_keep)

lemma kernel_ok_fold:
  assumes "\<And>x k. kernel_ok k \<Longrightarrow> kernel_ok (f x k)" "kernel_ok k"
  shows "kernel_ok (fold f xs k)"
  using assms(2) by (induction xs arbitrary: k) (simp_all add: assms(1))

lemma blank_default [simp]: "sa_handler blank_action = default_action"
  by (simp add: blank_action_def default_action_def)

lemma kernel_ok_reset_actions: "kernel_ok k \<Longrightarrow> kernel_ok (reset_actions_for_exec k)"
  unfolding reset_actions_for_exec_def
  by (rule kernel_ok_fold) (auto intro!: kernel_ok_discard kernel_ok_set_action)

lemma kernel_ok_enqueue:
  assumes "kernel_ok k" "n \<noteq> 0" "\<not> signal_count \<le> n"
  shows "kernel_ok (on_signals (enqueue_signal p (signal_bit n)) k)"
  using assms by (intro kernel_ok_signals) (auto simp: signal_numbers intro: signals_keep)

lemma kernel_ok_post:
  assumes "kernel_ok k" "n \<noteq> 0" "\<not> signal_count \<le> n"
  shows "kernel_ok (post_signal p n sp su k)"
  using assms by (simp add: post_signal_def resume_for_def Let_def kernel_ok_enqueue)

lemma kernel_ok_deliver:
  assumes "kernel_ok k" shows "kernel_ok (snd (deliver_signal_to_thread n q sp su k))"
  using assms
  by (simp add: deliver_signal_to_thread_def Let_def kernel_ok_post process_pending_ok
      split: option.split)

lemma kernel_ok_child:
  assumes "kernel_ok k"
  shows "kernel_ok (child_status_stop pid uid status k)"
    "kernel_ok (snd (child_status_exit pid uid status k))"
  using assms kernel_ok_deliver
  by (auto simp: child_status_stop_def child_status_exit_def deliver_signal_def Let_def
      split: option.split)

lemma kernel_ok_sigaction:
  assumes "kernel_ok k" shows "kernel_ok (fst (snd (dispatch_sigaction n i out k m)))"
proof -
  have "unat n \<noteq> sig_kill \<and> unat n \<noteq> sig_stop" if "n \<noteq> 9" "n \<noteq> 17"
    using that by (auto simp: signal_numbers word_unat_eq_iff)
  then show ?thesis
    using assms
    by (auto simp: dispatch_sigaction_def Let_def split: prod.split option.split list.split
        intro!: kernel_ok_discard kernel_ok_set_action)
qed

lemma process_pending_result:
  "process_pending_signals p k = (b, k') \<Longrightarrow> kernel_ok k \<Longrightarrow> kernel_ok k'"
  using process_pending_ok [of k p] by simp

lemma kernel_ok_ready_threads: "kernel_ok k \<Longrightarrow> kernel_ok (process_ready_threads k)"
  unfolding process_ready_threads_def
  by (rule kernel_ok_fold) (auto split: prod.split dest: process_pending_result)

lemma kernel_ok_update:
  assumes "kernel_ok k" "update_mask p how v scope (sk_signals k) = (b, s)"
  shows "kernel_ok (k\<lparr>sk_signals := s\<rparr>)"
proof -
  have "kernel_ok (on_signals (\<lambda>s. snd (update_mask p how v scope s)) k)"
    using assms(1) by (auto intro!: kernel_ok_signals signals_keep)
  then show ?thesis using assms(2) by (simp add: on_signals_def)
qed

lemma kernel_ok_sigmask:
  assumes "kernel_ok k" shows "kernel_ok (fst (snd (dispatch_sigmask scope p how i out k m)))"
  using assms
  by (auto simp: dispatch_sigmask_def Let_def kernel_ok_ready_threads kernel_ok_update
      split: option.split prod.split bool.split)

lemma kernel_ok_sigaltstack:
  "kernel_ok k \<Longrightarrow> kernel_ok (fst (snd (dispatch_sigaltstack p i out k m)))"
  by (auto simp: dispatch_sigaltstack_def Let_def split: prod.split option.split list.split)

lemma kernel_ok_suspend: "kernel_ok k \<Longrightarrow> kernel_ok (snd (dispatch_sigsuspend p v k))"
  by (auto simp: dispatch_sigsuspend_def intro!: kernel_ok_signals signals_keep)

lemma kernel_ok_complete_suspend: "kernel_ok k \<Longrightarrow> kernel_ok (snd (complete_sigsuspend p k))"
  by (auto simp: complete_sigsuspend_def intro!: kernel_ok_signals signals_keep)

lemma kernel_ok_sigwait:
  assumes "kernel_ok k" shows "kernel_ok (fst (snd (dispatch_sigwait p i out k m)))"
proof -
  have "kernel_ok (k\<lparr>sk_signals := s\<rparr>)" if "take_pending p v (sk_signals k) = (r, s)" for v r s
  proof -
    have "kernel_ok (on_signals (\<lambda>s. snd (take_pending p v s)) k)"
      using assms by (auto intro!: kernel_ok_signals signals_keep)
    then show ?thesis using that by (simp add: on_signals_def)
  qed
  moreover have "kernel_ok (on_signals (begin_wait p (v AND NOT unmaskable)) k)" for v
    using assms by (intro kernel_ok_signals) (simp_all add: signals_keep)
  ultimately show ?thesis
    using assms by (auto simp: dispatch_sigwait_def Let_def split: option.split prod.split)
qed

lemma kernel_ok_complete_wait:
  assumes "kernel_ok k" shows "kernel_ok (fst (snd (complete_signal_wait p i k m)))"
proof -
  have "kernel_ok (on_signals (resume_mask p) k)"
    using assms by (intro kernel_ok_signals) (simp_all add: signals_keep)
  then show ?thesis
    using assms
    by (auto simp: complete_signal_wait_def Let_def split: option.split prod.split
        intro!: kernel_ok_signals signals_keep)
qed

lemma kernel_ok_threads:
  assumes "kernel_ok k"
  shows "kernel_ok (disable_thread_signal p k)" "kernel_ok (retire_thread_signals p k)"
    "kernel_ok (start_thread_signals p v k)"
  using assms
  by (auto simp: disable_thread_signal_def retire_thread_signals_def start_thread_signals_def
      intro!: kernel_ok_signals signals_keep)

lemma kernel_ok_exec:
  assumes "kernel_ok k" shows "kernel_ok (exec_kernel_signals p k)"
proof -
  have "kernel_ok ((on_signals (exec_signals p) k)\<lparr>sk_sender := no_sender\<rparr>)"
    using assms by (auto intro!: kernel_ok_signals signals_keep)
  from kernel_ok_reset_actions [OF this] show ?thesis by (simp add: exec_kernel_signals_def Let_def)
qed

lemma kernel_ok_inherit:
  assumes "kernel_ok parent" "kernel_ok k" shows "kernel_ok (inherit_signals parent p k)"
  using assms
  by (auto simp: inherit_signals_def kernel_ok_def handler_of_def on_signals_def intro: signals_keep)

lemma kernel_ok_spawn:
  assumes "kernel_ok k" shows "kernel_ok (apply_spawn_signals requested defaults k)"
proof -
  have "kernel_ok (on_signals (\<lambda>s. snd (update_mask 0 3 v Process_Scope s)) k)" for v
    using assms by (auto intro!: kernel_ok_signals signals_keep)
  then show ?thesis
    using assms unfolding apply_spawn_signals_def Let_def
    by (intro kernel_ok_fold) (auto intro!: kernel_ok_set_action split: option.split)
qed

lemma kernel_ok_interrupt:
  assumes "kernel_ok k" shows "kernel_ok (fst (snd (interrupt_signal_wait p cpu k m)))"
proof -
  have resume: "kernel_ok k' \<Longrightarrow> kernel_ok (on_signals (resume_mask p) k')" for k'
    by (auto intro!: kernel_ok_signals signals_keep)
  have wait: "kernel_ok k'" if "complete_signal_wait p i k'' m'' = (r, k', m')" "kernel_ok k''"
    for i k'' m'' r k' m'
    using kernel_ok_complete_wait [OF that(2), of p i m''] that(1) by simp
  have suspend: "kernel_ok k'" if "complete_sigsuspend p k = (r, k')" for r k'
    using kernel_ok_complete_suspend [OF assms, of p] that by simp
  show ?thesis
    using assms
    by (auto simp: interrupt_signal_wait_def Let_def intro!: resume dest: wait suspend
        split: prod.split option.split)
qed

lemma kernel_ok_entered:
  assumes "kernel_ok k" shows "kernel_ok (handler_entered p n action v k)"
proof -
  have "kernel_ok (on_signals (\<lambda>s. snd (update_mask p 3 w Thread_Scope
      (resume_mask p (consume p b s)))) k)" for w b
    using assms by (auto intro!: kernel_ok_signals signals_keep)
  moreover have "kernel_ok (discard_ignored n (k'\<lparr>sk_actions := (sk_actions k')[n :=
      (sk_actions k' ! n)\<lparr>sa_handler := default_action, sa_flags := flags\<rparr>]\<rparr>))"
    if "kernel_ok k'" for k' flags
    using that by (intro kernel_ok_discard kernel_ok_set_action) simp_all
  ultimately show ?thesis
    unfolding handler_entered_def Let_def by (simp del: on_signals_fields)
qed

lemma kernel_ok_frame_taken: "kernel_ok k \<Longrightarrow> kernel_ok (frame_taken p n k)"
  by (simp add: frame_taken_def Let_def split: option.split prod.split)

lemma kernel_ok_bad_stack: "kernel_ok k \<Longrightarrow> kernel_ok (bad_stack k)"
  by (simp add: bad_stack_def kernel_ok_set_action)

lemma kernel_ok_deliver_pending:
  assumes "kernel_ok k"
  shows "kernel_ok (fst (snd (snd (deliver_pending_signal p busy cpu k m))))"
proof -
  have i: "kernel_ok k'" if "interrupt_signal_wait p cpu k m = (c, k', m')" for c k' m'
    using kernel_ok_interrupt [OF assms, of p cpu m] that by simp
  show ?thesis
    using assms
    by (auto simp: deliver_pending_signal_def Let_def
        intro!: kernel_ok_bad_stack kernel_ok_entered kernel_ok_frame_taken
        dest!: i split: prod.split option.split)
qed

lemma kernel_ok_set_on_stack: "kernel_ok k \<Longrightarrow> kernel_ok (set_on_stack p b k)"
  by (simp add: set_on_stack_def split: option.split)

lemma kernel_ok_sigreturn:
  assumes "kernel_ok k" shows "kernel_ok (snd (dispatch_sigreturn p cpu k m))"
  using assms
  by (auto simp: dispatch_sigreturn_def Let_def kernel_ok_set_on_stack split: option.split
      intro!: kernel_ok_signals signals_keep)

section \<open>Reachable states\<close>

definition new_signal_kernel ::
  "darwin_generation \<Rightarrow> u32 \<Rightarrow> u32 \<Rightarrow> u32 \<Rightarrow> (u32 \<rightharpoonup> process_record) \<Rightarrow> signal_kernel" where
  "new_signal_kernel g pid uid parent table =
    \<lparr>sk_pid = pid, sk_uid = uid, sk_parent = parent, sk_exited = False, sk_exit_status = 0,
     sk_termination_signal = 0, sk_signals = new_signal_state g,
     sk_actions = replicate 32 blank_action, sk_disabled = {}, sk_sender = no_sender,
     sk_stacks = (\<lambda>_. None), sk_waits = (\<lambda>_. None), sk_suspends = (\<lambda>_. None),
     sk_faults = (\<lambda>_. None), sk_processes = table, sk_notices = []\<rparr>"

text \<open>The table of processes and the faults of threads are written by other parts as well.\<close>

inductive kernel_reachable :: "signal_kernel \<Rightarrow> bool" where
  start: "kernel_reachable (new_signal_kernel g pid uid parent table)"
| shared_table: "kernel_reachable k \<Longrightarrow> kernel_reachable (k\<lparr>sk_processes := table\<rparr>)"
| fault: "kernel_reachable k \<Longrightarrow> kernel_reachable (k\<lparr>sk_faults := faults\<rparr>)"
| sigaction: "kernel_reachable k \<Longrightarrow>
    kernel_reachable (fst (snd (dispatch_sigaction signal input output k m)))"
| sigmask: "kernel_reachable k \<Longrightarrow>
    kernel_reachable (fst (snd (dispatch_sigmask scope p how input output k m)))"
| sigaltstack: "kernel_reachable k \<Longrightarrow>
    kernel_reachable (fst (snd (dispatch_sigaltstack p input output k m)))"
| sigsuspend: "kernel_reachable k \<Longrightarrow> kernel_reachable (snd (dispatch_sigsuspend p v k))"
| suspend_over: "kernel_reachable k \<Longrightarrow> kernel_reachable (snd (complete_sigsuspend p k))"
| sigwait: "kernel_reachable k \<Longrightarrow>
    kernel_reachable (fst (snd (dispatch_sigwait p input output k m)))"
| wait_over: "kernel_reachable k \<Longrightarrow>
    kernel_reachable (fst (snd (complete_signal_wait p interrupted k m)))"
| send: "kernel_reachable k \<Longrightarrow>
    kernel_reachable (snd (deliver_signal_to_thread signal q sender_pid sender_uid k))"
| act: "kernel_reachable k \<Longrightarrow> kernel_reachable (snd (process_pending_signals p k))"
| child_stopped: "kernel_reachable k \<Longrightarrow> kernel_reachable (child_status_stop pid uid status k)"
| child_exited: "kernel_reachable k \<Longrightarrow>
    kernel_reachable (snd (child_status_exit pid uid status k))"
| disable: "kernel_reachable k \<Longrightarrow> kernel_reachable (disable_thread_signal p k)"
| start_thread: "kernel_reachable k \<Longrightarrow> kernel_reachable (start_thread_signals p v k)"
| retire_thread: "kernel_reachable k \<Longrightarrow> kernel_reachable (retire_thread_signals p k)"
| exec: "kernel_reachable k \<Longrightarrow> kernel_reachable (exec_kernel_signals p k)"
| fork: "kernel_reachable parent \<Longrightarrow> kernel_reachable k \<Longrightarrow>
    kernel_reachable (inherit_signals parent p k)"
| spawn: "kernel_reachable k \<Longrightarrow> kernel_reachable (apply_spawn_signals requested defaults k)"
| enter_handler: "kernel_reachable k \<Longrightarrow>
    kernel_reachable (fst (snd (snd (deliver_pending_signal p busy cpu k m))))"
| leave_handler: "kernel_reachable k \<Longrightarrow>
    kernel_reachable (snd (dispatch_sigreturn p cpu k m))"
| leave: "kernel_reachable k \<Longrightarrow> kernel_reachable (exit_process status signal k)"

lemma kernel_ok_new: "kernel_ok (new_signal_kernel g pid uid parent table)"
  by (auto simp: kernel_ok_def new_signal_kernel_def handler_of_def signal_numbers
      intro: signals_keep)

lemma kernel_reachable_ok: "kernel_reachable k \<Longrightarrow> kernel_ok k"
  by (induction rule: kernel_reachable.induct)
    (simp_all add: kernel_ok_new kernel_ok_sigaction kernel_ok_sigmask kernel_ok_sigaltstack
      kernel_ok_suspend kernel_ok_complete_suspend kernel_ok_sigwait kernel_ok_complete_wait
      kernel_ok_deliver process_pending_ok kernel_ok_child kernel_ok_threads kernel_ok_exec
      kernel_ok_inherit kernel_ok_spawn kernel_ok_deliver_pending kernel_ok_sigreturn)

end
