(* ===== verification/Signal_Handlers.thy ===== *)
theory Signal_Handlers
  imports Signal_Lives
begin

text \<open>
  The frame of a signal handler survives in guest memory: what is written is what sigreturn
  reads back, word for word.
\<close>

unbundle bit_operations_syntax

section \<open>Bytes and words\<close>

lemma bytes_word_bytes [simp]: "bytes_word (word_bytes v) = v"
proof (rule bit_word_eqI)
  fix n assume "n < LENGTH(32)"
  then show "bit (bytes_word (word_bytes v)) n = bit v n"
    by (cases "n < 8"; cases "n < 16"; cases "n < 24")
      (auto simp: word_bytes_def bit_or_iff bit_push_bit_iff bit_unsigned_iff bit_drop_bit_eq)
qed

lemma bytes_words_bytes [simp]: "bytes_words (words_bytes ws) = ws"
  using bytes_word_bytes by (induction ws) (simp_all add: words_bytes_def word_bytes_def)

lemma length_word_bytes [simp]: "length (word_bytes v) = 4"
  by (simp add: word_bytes_def)

lemma length_words_bytes [simp]: "length (words_bytes ws) = 4 * length ws"
  by (induction ws) (simp_all add: words_bytes_def)

lemma words_bytes_append: "words_bytes (xs @ ys) = words_bytes xs @ words_bytes ys"
  by (simp add: words_bytes_def)

lemma take_words_bytes: "take (4 * n) (words_bytes ws) = words_bytes (take n ws)"
proof (cases "n \<le> length ws")
  case True
  have "words_bytes ws = words_bytes (take n ws) @ words_bytes (drop n ws)"
    by (simp flip: words_bytes_append)
  then show ?thesis using True by simp
qed simp

lemma drop_words_bytes: "drop (4 * n) (words_bytes ws) = words_bytes (drop n ws)"
proof (cases "n \<le> length ws")
  case True
  have "words_bytes ws = words_bytes (take n ws) @ words_bytes (drop n ws)"
    by (simp flip: words_bytes_append)
  then show ?thesis using True by simp
next
  case False
  then show ?thesis using length_words_bytes [of ws] by (simp add: words_bytes_def)
qed

section \<open>Loads and stores\<close>

lemma guest_load_map: "guest_load a n m = map (\<lambda>i. gm_bytes m (a + of_nat i)) [0..<n]"
proof (induction n arbitrary: a)
  case (Suc n)
  have "[0..<Suc n] = 0 # map Suc [0..<n]" by (simp add: map_Suc_upt upt_conv_Cons)
  then show ?case using Suc by (simp add: ac_simps o_def)
qed simp

lemma length_guest_load [simp]: "length (guest_load a n m) = n"
  by (simp add: guest_load_map)

lemma guest_load_part:
  "i + n \<le> l \<Longrightarrow> guest_load (a + of_nat i) n m = take n (drop i (guest_load a l m))"
  by (rule nth_equalityI) (simp_all add: guest_load_map ac_simps)

lemma guest_store_other:
  "\<forall>j < length bs. x \<noteq> a + of_nat j \<Longrightarrow> gm_bytes (guest_store a bs m) x = gm_bytes m x"
proof (induction bs arbitrary: a m)
  case (Cons b bs)
  have "x \<noteq> a" using Cons.prems [rule_format, of 0] by simp
  moreover have "\<forall>j < length bs. x \<noteq> a + 1 + of_nat j"
    using Cons.prems [rule_format, of "Suc j" for j] by (auto simp: ac_simps)
  ultimately show ?case using Cons.IH by simp
qed simp

lemma load_guest_store:
  "length bs \<le> 2 ^ 32 \<Longrightarrow> guest_load a (length bs) (guest_store a bs m) = bs"
proof (induction bs arbitrary: a m)
  case (Cons b bs)
  have "(of_nat (Suc j) :: u32) \<noteq> 0" if "j < length bs" for j
  proof -
    have "unat (of_nat (Suc j) :: u32) = Suc j"
      using Cons.prems that by (simp add: unat_of_nat del: of_nat_Suc)
    then show ?thesis by (metis nat.simps(3) unat_0)
  qed
  then have "\<forall>j < length bs. a \<noteq> a + 1 + of_nat j" by (simp add: ac_simps)
  then have "gm_bytes (guest_store (a + 1) bs (m\<lparr>gm_bytes := (gm_bytes m)(a := b)\<rparr>)) a = b"
    by (subst guest_store_other) simp_all
  then show ?case using Cons by simp
qed simp

lemma guest_store_rights [simp]:
  "gm_mapped (guest_store a bs m) = gm_mapped m"
  "gm_readable (guest_store a bs m) = gm_readable m"
  "gm_writable (guest_store a bs m) = gm_writable m"
  by (induction bs arbitrary: a m) simp_all

lemma range_allows_part:
  assumes "range_allows allowed a l m" "i + n \<le> l"
  shows "range_allows allowed (a + of_nat i) n m"
proof (cases "n = 0")
  case False
  then have l: "unat a + l \<le> 2 ^ 32" "\<forall>j < l. gm_mapped m (a + of_nat j) \<and> allowed (a + of_nat j)"
    using assms by (auto simp: range_allows_def list_all_iff)
  have "unat (a + of_nat i) \<le> unat a + i"
    by (simp add: unat_word_ariths(1) unat_of_nat mod_add_right_eq)
  moreover have "gm_mapped m (a + of_nat i + of_nat j) \<and> allowed (a + of_nat i + of_nat j)"
    if "j < n" for j
    using l(2) [rule_format, of "i + j"] that assms(2) by (simp add: ac_simps)
  ultimately show ?thesis
    using l(1) assms(2) by (auto simp: range_allows_def list_all_iff)
qed (simp add: range_allows_def)

section \<open>Contexts\<close>

lemma user_context_round [simp]: "user_context_of (user_context_words u) = u"
  by (simp add: user_context_of_def user_context_words_def)

lemma machine_context_round:
  "length (mx_exception x) = 3 \<Longrightarrow> length (mx_general x) = 17 \<Longrightarrow> length (mx_floating x) = 64 \<Longrightarrow>
    machine_context_of (machine_context_words x) = x"
  by (simp add: machine_context_of_def machine_context_words_def nth_append)

lemma frame_parts:
  assumes "length (si_padding (sf_information f)) = 7" "length (mx_exception (sf_machine f)) = 3"
    "length (mx_general (sf_machine f)) = 17" "length (mx_floating (sf_machine f)) = 64"
  shows "length (frame_words f) = 110"
    "take 8 (drop 17 (frame_words f)) = user_context_words (sf_user f)"
    "take 85 (drop 25 (frame_words f)) = machine_context_words (sf_machine f)"
  using assms
  by (simp_all add: frame_words_def information_words_def user_context_words_def
      machine_context_words_def)

lemma signal_frame_lengths:
  assumes "state_ok cpu"
  shows "length (si_padding (sf_information (signal_frame_at a p action n v cpu k))) = 7"
    "length (mx_exception (sf_machine (signal_frame_at a p action n v cpu k))) = 3"
    "length (mx_general (sf_machine (signal_frame_at a p action n v cpu k))) = 17"
    "length (mx_floating (sf_machine (signal_frame_at a p action n v cpu k))) = 64"
  using assms
  by (auto simp: signal_frame_at_def frame_information_def fault_state_def Let_def state_ok_def
      split: option.split)

end
