(* ===== verification/Signal_Properties.thy ===== *)
theory Signal_Properties
  imports Signal_Handlers
begin

text \<open>
  The properties of the signal component over every reachable state, with a concrete process
  on which each is applied.
\<close>

unbundle bit_operations_syntax

section \<open>Entering a handler\<close>

lemma lowest_caught_bit:
  assumes "lowest_caught r k = Some n"
  shows "1 \<le> n" "n \<le> 32" "bit r (n - 1)" "ignore_action < handler_of n k"
    "\<And>i. 1 \<le> i \<Longrightarrow> i < n \<Longrightarrow> bit r (i - 1) \<Longrightarrow> handler_of i k \<le> ignore_action"
proof -
  obtain j where j: "j < 32" "[1..<33] ! j = n" "bit r (n - 1) \<and> ignore_action < handler_of n k"
    "\<forall>i < j. \<not> (bit r ([1..<33] ! i - 1) \<and> ignore_action < handler_of ([1..<33] ! i) k)"
    using assms unfolding lowest_caught_def find_Some_iff by auto
  then have n: "n = j + 1" by (simp add: nth_upt)
  then show "1 \<le> n" "n \<le> 32" "bit r (n - 1)" "ignore_action < handler_of n k"
    using j by simp_all
  fix i :: nat assume i: "1 \<le> i" "i < n" "bit r (i - 1)"
  then have "[1..<33] ! (i - 1) = i" using n j(1) by (simp add: nth_upt)
  then show "handler_of i k \<le> ignore_action"
    using j(4) [rule_format, of "i - 1"] i n by (simp add: not_less)
qed

lemma interrupt_quiet:
  "sk_waits k p = None \<Longrightarrow> sk_suspends k p = None \<Longrightarrow> interrupt_signal_wait p cpu k m = (cpu, k, m)"
  by (simp add: interrupt_signal_wait_def)

lemma bad_stack_exits [simp]: "sk_exited (bad_stack k)"
  by (simp add: bad_stack_def)

text \<open>Delivery to a thread that waits for no signal.\<close>

lemma deliver_quiet:
  assumes "caught_signal_ready p busy k" "sk_waits k p = None" "sk_suspends k p = None"
    "lowest_caught (signals_ready p (sk_signals k)) k = Some n"
  shows "deliver_pending_signal p busy cpu k m =
    (let action = sk_actions k ! n;
         top = stack_top p action cpu k;
         a = of_nat (top - frame_bytes) AND NOT 3
     in if top < frame_bytes \<or> 2 ^ 32 - 1 < top
        then (True, cpu, bad_stack (case sk_faults k p of
            Some (i, state) \<Rightarrow> if i = n then k\<lparr>sk_faults := (sk_faults k)(p := None)\<rparr> else k
          | None \<Rightarrow> k), m)
        else case copy_in a (words_bytes (frame_words (signal_frame_at a p action n
                  (inherited_mask p (sk_signals k)) cpu k))) m of
            None \<Rightarrow> (True, cpu, bad_stack (frame_taken p n k), m)
          | Some m \<Rightarrow> (True, enter_registers n action a cpu,
              handler_entered p n action (signal_mask p (sk_signals k)) (frame_taken p n k), m))"
  unfolding deliver_pending_signal_def interrupt_quiet [OF assms(2,3)] assms(4)
    Let_def prod.case option.sel
  by (simp only: assms(1,3) if_False if_True not_True_eq_False simp_thms if_distrib if_cancel cong: if_cong)

lemma deliver_entered:
  assumes "caught_signal_ready p busy k" "sk_waits k p = None" "sk_suspends k p = None"
    "deliver_pending_signal p busy cpu k m = (True, cpu', k', m')" "\<not> sk_exited k'"
  obtains n action a where
    "lowest_caught (signals_ready p (sk_signals k)) k = Some n" "action = sk_actions k ! n"
    "frame_bytes \<le> stack_top p action cpu k" "stack_top p action cpu k < 2 ^ 32"
    "a = of_nat (stack_top p action cpu k - frame_bytes) AND NOT 3"
    "m' = guest_store a (words_bytes (frame_words (signal_frame_at a p action n
       (inherited_mask p (sk_signals k)) cpu k))) m"
    "cpu' = enter_registers n action a cpu"
    "k' = handler_entered p n action (signal_mask p (sk_signals k)) (frame_taken p n k)"
proof -
  obtain n where n: "lowest_caught (signals_ready p (sk_signals k)) k = Some n"
    using assms(1) by (auto simp: caught_signal_ready_def)
  define action where "action = sk_actions k ! n"
  define top where "top = stack_top p action cpu k"
  define a :: u32 where "a = of_nat (top - frame_bytes) AND NOT 3"
  define bs where "bs = words_bytes (frame_words (signal_frame_at a p action n
       (inherited_mask p (sk_signals k)) cpu k))"
  note run = assms(4) [unfolded deliver_quiet [OF assms(1-3) n] Let_def, folded action_def,
      folded top_def, folded a_def, folded bs_def]
  have top: "\<not> (top < frame_bytes \<or> 2 ^ 32 - 1 < top)"
  proof
    assume "top < frame_bytes \<or> 2 ^ 32 - 1 < top"
    with run assms(5) show False by auto
  qed
  obtain m'' where m'': "copy_in a bs m = Some m''"
    using run assms(5) by (cases "copy_in a bs m") (auto split: if_splits)
  have "m'' = guest_store a bs m" using m'' by (simp add: copy_in_def split: if_splits)
  with run assms(5) m'' have
    "m' = guest_store a bs m" "cpu' = enter_registers n action a cpu"
    "k' = handler_entered p n action (signal_mask p (sk_signals k)) (frame_taken p n k)"
    by (auto split: if_splits)
  then show ?thesis
    using that [OF n action_def] top unfolding top_def a_def bs_def by (simp add: not_less)
qed

lemma mask_update_thread:
  "signal_mask p (snd (update_mask p 3 v Thread_Scope s)) = v AND NOT unmaskable"
  by (simp add: update_mask_thread signal_mask_def nth_change activated(1) apply_mask_def Let_def)

lemma pending_update_thread:
  "signals_pending p (snd (update_mask p 3 v Thread_Scope s)) =
    (if p < thread_count s \<and> st_active (ss_threads s ! p) then signals_pending p s else 0)"
  using activated(1) [of p s]
  by (auto simp: update_mask_thread signals_pending_def nth_change apply_mask_def Let_def
      activated_def nth_initialize count_initialize)

lemma discard_fields [simp]:
  "signal_mask q (sk_signals (discard_ignored n k)) = signal_mask q (sk_signals k)"
  by (auto simp: discard_ignored_def signal_mask_def discard_signals_def thread_count_def)

lemma handler_entered_mask:
  "signal_mask p (sk_signals (handler_entered p n action v k)) =
    (v OR sa_mask action OR
      (if sa_flags action AND no_defer_action \<noteq> 0 then 0 else signal_bit n)) AND NOT unmaskable"
  by (simp add: handler_entered_def Let_def mask_update_thread)

lemma frame_taken_signals [simp]: "sk_signals (frame_taken p n k) = sk_signals k"
  by (simp add: frame_taken_def Let_def split: option.split prod.split)

lemma enter_stack_pointer:
  assumes "state_ok cpu" shows "reg (enter_registers n action a cpu) 13 = a"
  using assms by (simp add: enter_registers_def Let_def reg_set_reg)

section \<open>An example\<close>

definition example_record :: process_record where
  "example_record = \<lparr>pr_parent = 1, pr_parent_incarnation = 1, pr_incarnation = 2, pr_uid = 501,
     pr_exited = False, pr_exit_status = 0, pr_termination_signal = 0, pr_stopped = False,
     pr_child_status = no_child_status, pr_child_generation = 0\<rparr>"

definition example_kernel :: signal_kernel where
  "example_kernel = new_signal_kernel Ios6 2 501 1 [2 \<mapsto> example_record]"

lemma example_kernel_reachable: "kernel_reachable example_kernel"
  unfolding example_kernel_def by (rule kernel_reachable.start)

lemma example_kernel_fields [simp]:
  "\<not> sk_exited example_kernel" "length (ss_threads (sk_signals example_kernel)) = 1"
  by (simp_all add: example_kernel_def new_signal_kernel_def new_signal_state_def Let_def)

lemma example_thread:
  "ss_threads (sk_signals example_kernel) = [blank_thread\<lparr>st_active := True, st_order := 1\<rparr>]"
  by (simp add: example_kernel_def new_signal_kernel_def new_signal_state_def Let_def)

definition example_waiters :: signal_state where
  "example_waiters = (new_signal_state Ios6)\<lparr>ss_threads :=
    [blank_thread\<lparr>st_active := True, st_order := 1, st_mask := 2\<rparr>,
     blank_thread\<lparr>st_active := True, st_order := 3\<rparr>,
     blank_thread\<lparr>st_active := True, st_order := 2\<rparr>]\<rparr>"

lemma two_below_three: "(\<exists>i < 3. P i) = (P 0 \<or> P 1 \<or> P (2 :: nat))"
  "(\<forall>i < 3. P i) = (P 0 \<and> P 1 \<and> P (2 :: nat))"
  by (auto simp: numeral_3_eq_3 less_Suc_eq numeral_2_eq_2)

lemma example_alive: "alive example_kernel"
  by (simp add: alive_def example_kernel_def new_signal_kernel_def example_record_def)

text \<open>The same process with a pending SIGCHLD.\<close>

definition example_pending :: signal_kernel where
  "example_pending = example_kernel\<lparr>sk_signals :=
    change_thread 0 (\<lambda>t. t\<lparr>st_pending := signal_bit 20\<rparr>) (sk_signals example_kernel)\<rparr>"

section \<open>Kill and stop\<close>

text \<open>C27. In every reachable state kill and stop are masked in no thread and waited for by
  none, their actions are the default ones, and every pending signal has an entry in the table
  of actions.\<close>

theorem kill_and_stop_unblockable:
  assumes "kernel_reachable k"
  shows "signal_mask p (sk_signals k) AND unmaskable = 0 \<and>
    inherited_mask p (sk_signals k) AND unmaskable = 0 \<and>
    waiting_for p (sk_signals k) AND unmaskable = 0 \<and>
    handler_of sig_kill k = default_action \<and> handler_of sig_stop k = default_action \<and>
    (\<forall>n. bit (signals_pending p (sk_signals k)) n \<longrightarrow> n + 1 < length (sk_actions k))"
proof -
  note ok = kernel_reachable_ok [OF assms]
  have "n + 1 < length (sk_actions k)" if n: "bit (signals_pending p (sk_signals k)) n" for n
  proof -
    have "\<not> bit (signals_pending p (sk_signals k)) 31"
      using ok by (intro pending_bounded_pending) (simp add: kernel_ok_def)
    with n have "n \<noteq> 31" by metis
    moreover have "n < 32" using bit_imp_le_length [OF n] by simp
    ultimately show ?thesis using ok by (simp add: kernel_ok_def)
  qed
  then show ?thesis using ok by (simp add: kernel_ok_def mask_free inherited_free waiting_free)
qed

lemma kill_and_stop_unblockable_witness:
  "signal_mask 0 (sk_signals (snd (deliver_signal_to_thread 15 None 1 0 example_kernel)))
     AND unmaskable = 0"
  using kill_and_stop_unblockable [OF kernel_reachable.send [OF example_kernel_reachable]] by blast

text \<open>C25. SIGKILL sent to a process that has a thread ends it, whatever its masks, its
  handlers and its waits, and however many other signals are pending.\<close>

theorem kill_terminates:
  assumes "kernel_reachable k" "\<not> sk_exited k" "t \<in> set (ss_threads (sk_signals k))" "st_active t"
  shows "fst (deliver_signal sig_kill sender uid k) = 0 \<and>
    sk_exited (snd (deliver_signal sig_kill sender uid k))"
proof -
  from deliver_lethal [OF kernel_reachable_ok [OF assms(1)] assms(2) _ assms(3,4), of sig_kill sender uid]
  obtain p k' where "deliver_signal sig_kill sender uid k = (0, snd (process_pending_loop p
       (signals_ready p (sk_signals k')) k'))"
    "kernel_ok k'" "bit (signals_ready p (sk_signals k')) (sig_kill - 1)" by blast
  then show ?thesis using process_loop_kills [of k'] by simp
qed

lemma kill_terminates_witness: "sk_exited (snd (deliver_signal sig_kill 1 0 example_kernel))"
  using kill_terminates [OF example_kernel_reachable, of _ 1 0]
  by (simp add: example_thread)

text \<open>C26. SIGSTOP sent to a live process with a thread leaves it stopped or, when a lethal
  signal was pending before it, ended; SIGCONT leaves a live process running or ended, even if
  its thread masks or handles the signal.\<close>

theorem job_control:
  assumes "kernel_reachable k" "alive k" "t \<in> set (ss_threads (sk_signals k))" "st_active t"
  shows "(let k' = snd (deliver_signal sig_stop sender uid k) in sk_exited k' \<or> stopped k') \<and>
    (let k' = snd (deliver_signal sig_resume sender uid k) in sk_exited k' \<or> \<not> stopped k')"
proof
  have live: "\<not> sk_exited k" using assms(2) by (simp add: alive_def)
  from deliver_lethal [OF kernel_reachable_ok [OF assms(1)] live _ assms(3,4), of sig_stop sender uid]
  obtain p k' where "deliver_signal sig_stop sender uid k = (0, snd (process_pending_loop p
       (signals_ready p (sk_signals k')) k'))"
    "kernel_ok k'" "bit (signals_ready p (sk_signals k')) (sig_stop - 1)" "alive k' = alive k" by blast
  then show "let k' = snd (deliver_signal sig_stop sender uid k) in sk_exited k' \<or> stopped k'"
    using process_loop_halts [of k' "signals_ready p (sk_signals k')" p] assms(2)
    by (auto simp: Let_def)
  show "let k' = snd (deliver_signal sig_resume sender uid k) in sk_exited k' \<or> \<not> stopped k'"
    using deliver_continue [OF live assms(2)] by simp
qed

lemma job_control_witness:
  "sk_exited (snd (deliver_signal sig_stop 1 0 example_kernel)) \<or>
    stopped (snd (deliver_signal sig_stop 1 0 example_kernel))"
  using job_control [OF example_kernel_reachable example_alive, of _ 1 0]
  by (simp add: example_thread Let_def)

section \<open>Choosing threads and signals\<close>

text \<open>C31. A signal goes to the oldest thread that may take it: an active thread that is
  eligible and has the signal unblocked or waits for it; if there is none, to the oldest active
  thread; and to nobody only if no thread is active.\<close>

theorem delivery_thread_exact:
  "if \<exists>i < thread_count s. st_active (ss_threads s ! i) \<and> eligible i \<and>
        (st_mask (ss_threads s ! i) AND b = 0 \<or> st_wait_mask (ss_threads s ! i) AND b \<noteq> 0)
   then eldest (ss_threads s) (\<lambda>i. st_active (ss_threads s ! i) \<and> eligible i \<and>
        (st_mask (ss_threads s ! i) AND b = 0 \<or> st_wait_mask (ss_threads s ! i) AND b \<noteq> 0))
        (choose_thread b eligible s)
   else eldest (ss_threads s) (\<lambda>i. st_active (ss_threads s ! i)) (choose_thread b eligible s)"
  by (rule choose_eldest)

lemma delivery_thread_exact_witness: "choose_thread 2 (\<lambda>_. True) example_waiters = Some 2"
proof -
  have threads: "thread_count example_waiters = 3" "length (ss_threads example_waiters) = 3"
    "ss_threads example_waiters ! 0 = blank_thread\<lparr>st_active := True, st_order := 1, st_mask := 2\<rparr>"
    "ss_threads example_waiters ! 1 = blank_thread\<lparr>st_active := True, st_order := 3\<rparr>"
    "ss_threads example_waiters ! 2 = blank_thread\<lparr>st_active := True, st_order := 2\<rparr>"
    by (simp_all add: example_waiters_def thread_count_def)
  have "eldest (ss_threads example_waiters) (\<lambda>i. st_active (ss_threads example_waiters ! i) \<and>
      (st_mask (ss_threads example_waiters ! i) AND 2 = 0 \<or>
       st_wait_mask (ss_threads example_waiters ! i) AND 2 \<noteq> 0))
    (choose_thread 2 (\<lambda>_. True) example_waiters)"
    using delivery_thread_exact [of example_waiters "\<lambda>_. True" 2]
    unfolding threads(1,2) two_below_three threads(3-) by (simp add: blank_thread_def)
  then show ?thesis
    unfolding eldest_def threads(1,2) two_below_three threads(3-)
    by (cases "choose_thread 2 (\<lambda>_. True) example_waiters")
      (auto simp: blank_thread_def threads threads(4) [simplified] less_Suc_eq numeral_3_eq_3 split: if_splits)
qed

text \<open>C32. sigwait finds a signal exactly if one of its set is pending in some thread: then it
  takes the lowest one of the oldest thread that has any, and removes it from that thread, or
  on the first firmware generation from the caller.\<close>

theorem take_pending_exact:
  "case take_pending waiter signals s of
     (None, s') \<Rightarrow> s' = s \<and>
       eldest (ss_threads s) (\<lambda>i. st_pending (ss_threads s ! i) AND signals \<noteq> 0) None
   | (Some n, s') \<Rightarrow> \<exists>i. eldest (ss_threads s)
         (\<lambda>i. st_pending (ss_threads s ! i) AND signals \<noteq> 0) (Some i) \<and>
       1 \<le> n \<and> n \<le> 32 \<and> bit (st_pending (ss_threads s ! i) AND signals) (n - 1) \<and>
       take_bit (n - 1) (st_pending (ss_threads s ! i) AND signals) = 0 \<and>
       s' = consume (if ss_wait_consumes_owner s then i else waiter) (signal_bit n) s"
proof -
  define owner where "owner = fold (\<lambda>i owner.
     if st_pending (ss_threads s ! i) AND signals \<noteq> 0 \<and> older (ss_threads s) i owner
     then Some i else owner) [0..<length (ss_threads s)] None"
  have eld: "eldest (ss_threads s) (\<lambda>i. st_pending (ss_threads s ! i) AND signals \<noteq> 0) owner"
    unfolding owner_def by (rule eldest_scan)
  show ?thesis
  proof (cases owner)
    case None
    then have "take_pending waiter signals s = (None, s)"
      by (simp add: take_pending_def Let_def flip: owner_def)
    then show ?thesis using eld None by simp
  next
    case (Some i)
    let ?w = "st_pending (ss_threads s ! i) AND signals"
    have w: "?w \<noteq> 0" using eld Some by (simp add: eldest_def)
    have "take_pending waiter signals s = (Some (countr_zero ?w + 1),
        consume (if ss_wait_consumes_owner s then i else waiter) (signal_bit (countr_zero ?w + 1)) s)"
      using Some by (simp add: take_pending_def Let_def flip: owner_def)
    moreover have "take_bit (countr_zero ?w) ?w = 0"
      using least_bit(2) [OF w] by (intro bit_word_eqI) (auto simp: bit_take_bit_iff simp del: take_bit_and)
    ultimately show ?thesis
      using eld Some least_bit(1,3) [OF w] by (auto intro!: exI [of _ i] simp: Suc_le_eq)
  qed
qed

section \<open>Acting on pending signals\<close>

lemma masks_consume [simp]:
  "signal_mask q (consume p bits s) = signal_mask q s"
  "waiting_for q (consume p bits s) = waiting_for q s"
  by (simp_all add: signal_mask_def waiting_for_def consume_def nth_change)

lemma masks_accept:
  "signal_mask q (accept_wait_signal p b s) = signal_mask q s"
  "bit (waiting_for p (accept_wait_signal p b s)) i \<Longrightarrow> bit b i"
  by (auto simp: accept_wait_signal_def)
    (auto simp: waiting_for_def nth_change split: if_splits)

lemma process_signal_signals:
  "sk_signals (snd (process_signal p n k)) = sk_signals k \<or>
   sk_signals (snd (process_signal p n k)) = consume p (signal_bit n) (sk_signals k) \<or>
   waiting_for p (sk_signals k) AND signal_bit n \<noteq> 0 \<and>
     sk_signals (snd (process_signal p n k)) = accept_wait_signal p (signal_bit n) (sk_signals k)"
  by (simp add: process_signal_def Let_def)

lemma process_signal_ready:
  assumes "bit (signals_ready p (sk_signals (snd (process_signal p n k)))) i"
  shows "bit (signals_ready p (sk_signals k)) i"
  using process_signal_signals [of p n k] assms
proof (elim disjE conjE)
  assume "sk_signals (snd (process_signal p n k)) = consume p (signal_bit n) (sk_signals k)"
  with assms show ?thesis by (simp add: bit_ready pending_consume)
next
  assume s: "sk_signals (snd (process_signal p n k)) = accept_wait_signal p (signal_bit n) (sk_signals k)"
    and "waiting_for p (sk_signals k) AND signal_bit n \<noteq> 0"
  then have "bit (waiting_for p (sk_signals k)) (n - 1)" by (simp add: and_signal_bit)
  moreover have "i = n - 1"
    if "bit (waiting_for p (accept_wait_signal p (signal_bit n) (sk_signals k))) i"
    using masks_accept(2) [OF that] by simp
  ultimately show ?thesis
    using assms by (auto simp: s bit_ready pending_accept masks_accept(1))
qed simp

text \<open>C30. Unless the process stopped or ended, after its pending signals were processed
  everything a thread could still be interrupted by has a handler, and nothing became ready that
  was not.\<close>

theorem process_pending_complete:
  "case process_pending_signals p k of (halted, k') \<Rightarrow>
     halted \<or> sk_exited k' \<or>
     (\<forall>i. bit (signals_ready p (sk_signals k')) i \<longrightarrow>
        caught (i + 1) k' \<and> bit (signals_ready p (sk_signals k)) i)"
proof -
  let ?r = "process_pending_signals p k"
  have sub: "bit (signals_ready p (sk_signals (snd ?r))) i \<Longrightarrow> bit (signals_ready p (sk_signals k)) i"
    for i
    unfolding process_pending_signals_def
    by (rule process_loop_invariant [where I = "\<lambda>k'. bit (signals_ready p (sk_signals k')) i \<longrightarrow>
          bit (signals_ready p (sk_signals k)) i", rule_format])
      (auto dest: process_signal_ready)
  have "caught n (snd ?r) = caught n k" for n by (simp add: caught_def)
  then show ?thesis
    using process_loop_complete [of p "signals_ready p (sk_signals k)" k] sub
    by (auto simp: process_pending_signals_def bit_ready split: prod.split)
qed

lemma process_pending_complete_witness:
  "bit (signals_ready 0 (sk_signals example_pending)) 19 \<and>
   \<not> bit (signals_ready 0 (sk_signals (snd (process_pending_signals 0 example_pending)))) 19"
proof
  show "bit (signals_ready 0 (sk_signals example_pending)) 19" by code_simp
  have "\<not> fst (process_pending_signals 0 example_pending)"
    "\<not> sk_exited (snd (process_pending_signals 0 example_pending))"
    "\<not> caught (19 + 1) (snd (process_pending_signals 0 example_pending))" by code_simp+
  then show "\<not> bit (signals_ready 0 (sk_signals (snd (process_pending_signals 0 example_pending)))) 19"
    using process_pending_complete [of 0 example_pending] by (auto split: prod.splits)
qed

section \<open>Waits and failures\<close>

lemma change_change:
  "p < thread_count s \<Longrightarrow>
    change_thread p f (change_thread p g s) = change_thread p (\<lambda>t. f (g t)) s"
  by (simp add: change_thread_def thread_count_def)

lemma change_same: "f (ss_threads s ! p) = ss_threads s ! p \<Longrightarrow> change_thread p f s = s"
  by (simp add: change_thread_def)

text \<open>The temporary mask of sigsuspend and the one of sigwait are undone completely when
  the wait ends.\<close>

theorem wait_masks_restored:
  assumes "p < thread_count s" "st_active (ss_threads s ! p)"
    "st_saved (ss_threads s ! p) = None" "st_wait_mask (ss_threads s ! p) = 0"
  shows "resume_mask p (suspend_mask p v s) = s \<and> resume_mask p (begin_wait p w s) = s"
proof -
  have "activated p s = s" using assms by (simp add: activated_def)
  then show ?thesis
    using assms
    by (auto simp: resume_mask_def begin_wait_def suspend_mask_threads change_change apply_mask_def
        Let_def signal_mask_def intro!: change_same)
qed

lemma wait_masks_restored_witness:
  "resume_mask 0 (suspend_mask 0 0xff (new_signal_state Ios6)) = new_signal_state Ios6"
  using wait_masks_restored [of 0 "new_signal_state Ios6" "0xff"]
  by (simp add: new_signal_state_def thread_count_def blank_thread_def Let_def)

lemma read_three:
  "read_words [a, b, c] m = None \<or> (\<exists>x y z. read_words [a, b, c] m = Some [x, y, z])"
  by (auto split: option.split)

lemma read_four:
  "read_words [a, b, c, d] m = None \<or> (\<exists>w x y z. read_words [a, b, c, d] m = Some [w, x, y, z])"
  by (auto split: option.split)

lemma sigaction_failed:
  assumes "fst (dispatch_sigaction n i out k m) = Failed e"
  shows "fst (snd (dispatch_sigaction n i out k m)) = k"
proof -
  obtain ok m' where w: "(if out \<noteq> 0
             then write_words [(out, sa_handler (sk_actions k ! unat n)),
               (out + 4, sa_mask (sk_actions k ! unat n)), (out + 8, sa_flags (sk_actions k ! unat n))] m
             else (True, m)) = (ok, m')"
    by (cases "if out \<noteq> 0 then write_words [(out, sa_handler (sk_actions k ! unat n)),
               (out + 4, sa_mask (sk_actions k ! unat n)), (out + 8, sa_flags (sk_actions k ! unat n))] m
             else (True, m)")
  show ?thesis
    using read_four [of i "i + 4" "i + 8" "i + 12" m'] assms
    unfolding dispatch_sigaction_def Let_def w prod.case
    by (elim disjE exE) (auto simp del: read_words.simps split: if_splits)
qed

lemma sigmask_failed:
  "fst (dispatch_sigmask scope p how i out k m) = Failed e \<Longrightarrow>
    fst (snd (dispatch_sigmask scope p how i out k m)) = k"
  unfolding dispatch_sigmask_def Let_def
  by (cases "read32 i m"; cases "update_mask p how (the (read32 i m)) scope (sk_signals k)";
      cases "fst (update_mask p how (the (read32 i m)) scope (sk_signals k))")
    (simp_all split: if_split_asm)

lemma sigaltstack_failed:
  assumes "fst (dispatch_sigaltstack p i out k m) = Failed e"
  shows "fst (snd (dispatch_sigaltstack p i out k m)) = k"
proof -
  obtain ok m' where w: "(if out = 0 then (True, m)
      else if 0xffffffff - 8 < out then (False, m)
      else write_words [(out, as_address (stack_of p k)), (out + 4, as_size (stack_of p k)),
             (out + 8, as_flags (stack_of p k))] m) = (ok, m')"
    by (cases "if out = 0 then (True, m)
      else if 0xffffffff - 8 < out then (False, m)
      else write_words [(out, as_address (stack_of p k)), (out + 4, as_size (stack_of p k)),
             (out + 8, as_flags (stack_of p k))] m")
  define P where "P r \<longleftrightarrow> (fst r = Failed e \<longrightarrow> fst (snd r) = k)"
    for r :: "call_result \<times> signal_kernel \<times> guest_memory"
  have P: "P (Failed e', k, m')" "P (Returned v, k', m')" for e' m' v k' by (simp_all add: P_def)
  have split: "P x \<Longrightarrow> P y \<Longrightarrow> P (if b then x else y)" for b x y by simp
  have "P (dispatch_sigaltstack p i out k m)"
    using read_three [of i "i + 4" "i + 8" m']
    unfolding dispatch_sigaltstack_def Let_def w prod.case
    by (elim disjE exE) (simp_all only: option.case list.case, (rule split P)+)
  then show ?thesis using assms by (simp add: P_def)
qed

text \<open>C33. A sigaction, sigprocmask or sigaltstack that fails leaves the signal state as it
  was, and the actions of kill and stop cannot be changed at all.\<close>

theorem failed_calls_change_nothing:
  "(fst (dispatch_sigaction n i out k m) = Failed e \<longrightarrow>
      fst (snd (dispatch_sigaction n i out k m)) = k) \<and>
   (fst (dispatch_sigmask scope p how i out k m) = Failed e \<longrightarrow>
      fst (snd (dispatch_sigmask scope p how i out k m)) = k) \<and>
   (fst (dispatch_sigaltstack p i out k m) = Failed e \<longrightarrow>
      fst (snd (dispatch_sigaltstack p i out k m)) = k) \<and>
   dispatch_sigaction (of_nat sig_kill) i out k m = (Failed invalid_argument, k, m) \<and>
   dispatch_sigaction (of_nat sig_stop) i out k m = (Failed invalid_argument, k, m)"
  using sigaction_failed [of n i out k m e] sigmask_failed [of scope p how i out k m e]
    sigaltstack_failed [of p i out k m e]
  by (auto simp: dispatch_sigaction_def signal_numbers)

lemma failed_calls_change_nothing_witness:
  "fst (snd (dispatch_sigmask Thread_Scope 0 7 0x100 0 example_kernel
     \<lparr>gm_bytes = (\<lambda>_. 0), gm_mapped = (\<lambda>_. False), gm_readable = (\<lambda>_. True), gm_writable = (\<lambda>_. True)\<rparr>)) =
   example_kernel"
proof -
  let ?m = "\<lparr>gm_bytes = (\<lambda>_. 0), gm_mapped = (\<lambda>_. False), gm_readable = (\<lambda>_. True),
     gm_writable = (\<lambda>_. True)\<rparr>"
  have "read32 0x100 ?m = None" by (simp add: read32_def copy_out_def range_allows_def upt_rec)
  then have "fst (dispatch_sigmask Thread_Scope 0 7 0x100 0 example_kernel ?m) = Failed bad_address"
    by (simp add: dispatch_sigmask_def Let_def)
  then show ?thesis using failed_calls_change_nothing by blast
qed

end
