(* ===== verification/Signal_Returns.thy ===== *)
theory Signal_Returns
  imports Signal_Properties
begin

text \<open>
  Entering a signal handler and coming back from it: which signal is taken and what it blocks,
  and that sigreturn restores the interrupted thread.
\<close>

unbundle bit_operations_syntax

section \<open>Facts about the entry\<close>

lemma reg_numerals [simp]:
  assumes "state_ok cpu"
  shows "reg (enter_registers n action a cpu) 0 = sa_handler action"
    "reg (enter_registers n action a cpu) 2 = of_nat n"
    "reg (enter_registers n action a cpu) 15 = sa_trampoline action AND NOT 1"
  using assms by (simp_all add: enter_registers_def Let_def reg_set_reg)

lemma active_activated:
  "p < thread_count s \<Longrightarrow> st_active (ss_threads s ! p) \<Longrightarrow> activated p s = s"
  by (simp add: activated_def)

lemma pending_entered:
  assumes "p < thread_count (sk_signals k)" "st_active (ss_threads (sk_signals k) ! p)"
  shows "bit (signals_pending p (sk_signals (handler_entered p n action v k))) i \<longleftrightarrow>
    bit (signals_pending p (sk_signals k)) i \<and> i \<noteq> n - 1"
proof -
  have active: "p < thread_count (resume_mask p (consume p b (sk_signals k)))"
    "st_active (ss_threads (resume_mask p (consume p b (sk_signals k))) ! p)" for b
    using assms by (auto simp: resume_mask_def consume_def nth_change)
  have resume: "signals_pending p (resume_mask p s) = signals_pending p s" for s
    by (simp add: signals_pending_def resume_mask_def nth_change)
  have updated: "bit (signals_pending p (snd (update_mask p 3 w Thread_Scope
      (resume_mask p (consume p (signal_bit n) (sk_signals k)))))) i \<longleftrightarrow>
      bit (signals_pending p (sk_signals k)) i \<and> i \<noteq> n - 1" for w
    using active by (auto simp: pending_update_thread resume pending_consume dest: bit_imp_le_length)
  have discarded: "bit (signals_pending p (sk_signals (discard_ignored n k'))) i \<longleftrightarrow>
      bit (signals_pending p (sk_signals k')) i"
    if "\<not> bit (signals_pending p (sk_signals k')) (n - 1)" for k'
    using that
    by (auto simp: discard_ignored_def signals_pending_def discard_signals_def thread_count_def
        bit_and_iff bit_not_iff dest: bit_imp_le_length)
  have gone: "\<not> bit (signals_pending p (snd (update_mask p 3 w Thread_Scope
      (resume_mask p (consume p (signal_bit n) (sk_signals k)))))) (n - 1)" for w
    using active
    by (cases "n - 1 < 32") (auto simp: pending_update_thread resume pending_consume dest: bit_imp_le_length)
  show ?thesis
    using discarded gone updated by (auto simp: handler_entered_def Let_def)
qed

lemma aligned_below: "unat (of_nat x AND NOT 3 :: u32) \<le> x"
proof -
  have "unat (of_nat x AND NOT 3 :: u32) \<le> unat (of_nat x :: u32)"
    by (metis word_and_le2 word_le_nat_alt)
  also have "\<dots> \<le> x" by (simp add: unat_of_nat)
  finally show ?thesis .
qed

section \<open>The frame read back\<close>

lemma frame_read_back:
  assumes "state_ok cpu" "unat a + frame_bytes \<le> 2 ^ 32"
    and f: "f = signal_frame_at a p action n v cpu k"
    and same: "guest_load a frame_bytes m2 = guest_load a frame_bytes (guest_store a (words_bytes (frame_words f)) m)"
    and rights: "range_allows (gm_readable m2) a frame_bytes m2"
  shows "copy_out (a + user_offset) user_bytes m2 = Some (words_bytes (user_context_words (sf_user f)))"
    "copy_out (a + machine_offset) machine_bytes m2 =
       Some (words_bytes (machine_context_words (sf_machine f)))"
proof -
  note len = signal_frame_lengths [OF assms(1), of a p action n v k, folded f]
  note parts = frame_parts [OF len]
  have bytes: "guest_load a 440 m2 = words_bytes (frame_words f)"
    using same load_guest_store [of "words_bytes (frame_words f)" a m] parts(1)
    by (simp add: frame_bytes_def)
  have "guest_load (a + 68) 32 m2 = take (4 * 8) (drop (4 * 17) (words_bytes (frame_words f)))"
    using guest_load_part [of 68 32 440 a m2] bytes by simp
  also have "\<dots> = words_bytes (user_context_words (sf_user f))"
    by (simp only: drop_words_bytes take_words_bytes parts(2))
  finally have user: "guest_load (a + 68) 32 m2 = \<dots>" .
  have "guest_load (a + 100) 340 m2 = take (4 * 85) (drop (4 * 25) (words_bytes (frame_words f)))"
    using guest_load_part [of 100 340 440 a m2] bytes by simp
  also have "\<dots> = words_bytes (machine_context_words (sf_machine f))"
    by (simp only: drop_words_bytes take_words_bytes parts(3))
  finally have machine: "guest_load (a + 100) 340 m2 = \<dots>" .
  show "copy_out (a + user_offset) user_bytes m2 = Some (words_bytes (user_context_words (sf_user f)))"
    using user range_allows_part [OF rights, of 68 32]
    by (simp add: copy_out_def user_offset_def user_bytes_def frame_bytes_def)
  show "copy_out (a + machine_offset) machine_bytes m2 =
       Some (words_bytes (machine_context_words (sf_machine f)))"
    using machine range_allows_part [OF rights, of 100 340]
    by (simp add: copy_out_def machine_offset_def machine_bytes_def frame_bytes_def)
qed

lemma user_mode_restored:
  assumes "cpsr1 AND 0x1f = user_cpsr" "cpsr2 AND 0x1c0 = cpsr1 AND 0x1c0"
  shows "restored_cpsr cpsr1 cpsr2 = cpsr1"
proof -
  have "(((r AND NOT (x OR y)) OR (c AND (x OR y))) AND NOT y) OR u = r"
    if u: "r AND y = u" and c: "c AND x = r AND x" for r c x y u :: u32
  proof (rule bit_word_eqI)
    fix i assume "i < LENGTH(32)"
    moreover have "bit (r AND y) i = bit u i" "bit (c AND x) i = bit (r AND x) i"
      using u c by simp_all
    ultimately show "bit ((((r AND NOT (x OR y)) OR (c AND (x OR y))) AND NOT y) OR u) i = bit r i"
      by (auto simp: bit_and_iff bit_or_iff bit_not_iff)
  qed
  from this [OF assms] show ?thesis
    by (simp add: restored_cpsr_def thread_restored_cpsr_def privileged_cpsr_mask_def)
qed

lemma set_on_stack_signals [simp]: "sk_signals (set_on_stack p b k) = sk_signals k"
  by (simp add: set_on_stack_def split: option.split)

section \<open>An interrupted thread\<close>

text \<open>SIGTERM is pending and has a Thumb handler.\<close>

definition example_memory :: guest_memory where
  "example_memory = \<lparr>gm_bytes = (\<lambda>_. 0), gm_mapped = (\<lambda>_. True), gm_readable = (\<lambda>_. True),
     gm_writable = (\<lambda>_. True)\<rparr>"

definition example_handler :: signal_action where
  "example_handler = \<lparr>sa_handler = 0x1000, sa_trampoline = 0x2001, sa_mask = 0x3, sa_flags = 0\<rparr>"

definition example_caught :: signal_kernel where
  "example_caught = example_kernel
     \<lparr>sk_signals := enqueue_signal 0 (signal_bit 15) (sk_signals example_kernel),
      sk_actions := (sk_actions example_kernel)[15 := example_handler]\<rparr>"

definition example_cpu :: cpu_state where
  "example_cpu = \<lparr>cpu_registers = replicate 13 7 @ [0x8000, 8, 9],
     extension_registers = replicate 64 5, cpsr = 0x60000010, fpscr = 3, cthread_self = None,
     abort_state = \<lparr>fault_status = 0, fault_address = 0\<rparr>, thread_pointer_user_rw = 0\<rparr>"

lemma example_caught_fields:
  "sk_waits example_caught = (\<lambda>_. None)" "sk_suspends example_caught = (\<lambda>_. None)"
  "sk_stacks example_caught = (\<lambda>_. None)" "sk_faults example_caught = (\<lambda>_. None)"
  "\<not> sk_exited example_caught" "sk_actions example_caught ! 15 = example_handler"
  "thread_count (sk_signals example_caught) = 1"
  "st_active (ss_threads (sk_signals example_caught) ! 0)"
  by (simp_all add: example_caught_def example_kernel_def new_signal_kernel_def
      new_signal_state_def enqueue_signal_def thread_count_def change_thread_def Let_def)

lemma example_ready: "signals_ready 0 (sk_signals example_caught) = signal_bit 15"
proof -
  have "signal_bit 15 AND continue_mask = 0" "signal_bit 15 AND stop_mask = 0"
    by (auto simp: disjoint_bits bit_continue_mask bit_stop_mask)
  then show ?thesis
    by (simp add: example_caught_def signals_ready_def signals_pending_def signal_mask_def
        waiting_for_def enqueue_signal_def thread_count_def change_thread_def example_thread Let_def
        blank_thread_def)
qed

lemma example_lowest: "lowest_caught (signal_bit 15) example_caught = Some 15"
  unfolding lowest_caught_def find_Some_iff
  by (rule exI [of _ 14])
    (auto simp: handler_of_def example_caught_fields example_handler_def ignore_action_def nth_upt)

lemma example_caught_ready: "caught_signal_ready 0 False example_caught"
  using example_lowest bit_signal_bit [of 15 14]
  by (auto simp: caught_signal_ready_def example_ready example_caught_fields simp del: bit_signal_bit)

lemma example_cpu_ok: "state_ok example_cpu"
  by (simp add: state_ok_def example_cpu_def)

lemma example_delivery:
  "\<exists>cpu k m. deliver_pending_signal 0 False example_cpu example_caught example_memory =
    (True, cpu, k, m) \<and> \<not> sk_exited k"
proof -
  have top: "stack_top 0 example_handler example_cpu example_caught = 0x8000"
    by (simp add: stack_top_def uses_alternate_def example_caught_fields reg_def example_cpu_def nth_append)
  have "range_allows (\<lambda>_. True) a 440 example_memory" if "unat a + 440 \<le> 2 ^ 32" for a
    using that by (simp add: range_allows_def example_memory_def list_all_iff)
  moreover have "unat (of_nat (0x8000 - 440) AND NOT 3 :: u32) + 440 \<le> 2 ^ 32"
    using aligned_below [of "0x8000 - 440"] by simp
  moreover have "length (words_bytes (frame_words (signal_frame_at a 0 example_handler 15
      (inherited_mask 0 (sk_signals example_caught)) example_cpu example_caught))) = 440" for a
    using frame_parts(1) [OF signal_frame_lengths [OF example_cpu_ok]] by simp
  moreover have "\<not> sk_exited (handler_entered p n action v k)" if "\<not> sk_exited k" for p n action v k
    using that by (auto simp: handler_entered_def discard_ignored_def Let_def)
  moreover have "\<not> sk_exited (frame_taken 0 15 example_caught)"
    by (simp add: frame_taken_def example_caught_fields Let_def)
  ultimately show ?thesis
    using example_lowest
    by (simp add: deliver_quiet [OF example_caught_ready] example_caught_fields example_ready
        Let_def top frame_bytes_def copy_in_def)
qed

section \<open>Properties\<close>

text \<open>C29. Entering a handler, in a thread that is in no signal wait, takes the lowest pending signal that has one and no other, gives
  the handler that signal and an aligned frame below the top of the stack, and blocks the signal
  (without SA_NODEFER) and the action's mask, but never kill or stop.\<close>

theorem handler_entry:
  assumes "state_ok cpu" "caught_signal_ready p busy k" "sk_waits k p = None" "sk_suspends k p = None"
    "p < thread_count (sk_signals k)" "st_active (ss_threads (sk_signals k) ! p)"
    "deliver_pending_signal p busy cpu k m = (True, cpu', k', m')" "\<not> sk_exited k'"
  shows "\<exists>n. let action = sk_actions k ! n; frame = reg cpu' 13 in
    lowest_caught (signals_ready p (sk_signals k)) k = Some n \<and>
    reg cpu' 0 = sa_handler action \<and> reg cpu' 2 = of_nat n \<and>
    frame AND 3 = 0 \<and> unat frame + frame_bytes \<le> stack_top p action cpu k \<and>
    signal_mask p (sk_signals k') =
      (signal_mask p (sk_signals k) OR sa_mask action OR
       (if sa_flags action AND no_defer_action \<noteq> 0 then 0 else signal_bit n)) AND NOT unmaskable \<and>
    (\<forall>i. bit (signals_pending p (sk_signals k')) i \<longleftrightarrow>
       bit (signals_pending p (sk_signals k)) i \<and> i \<noteq> n - 1)"
proof -
  from deliver_entered [OF assms(2-4,7,8)] obtain n action a where d:
    "lowest_caught (signals_ready p (sk_signals k)) k = Some n" "action = sk_actions k ! n"
    "frame_bytes \<le> stack_top p action cpu k" "a = of_nat (stack_top p action cpu k - frame_bytes) AND NOT 3"
    "cpu' = enter_registers n action a cpu"
    "k' = handler_entered p n action (signal_mask p (sk_signals k)) (frame_taken p n k)" by metis
  have "(w AND NOT x) AND x = 0" for w x :: u32
    by (rule bit_word_eqI) (auto simp: bit_and_iff bit_not_iff)
  then have "a AND 3 = 0" by (simp only: d(4))
  moreover have "unat a + frame_bytes \<le> stack_top p action cpu k"
    using aligned_below [of "stack_top p action cpu k - frame_bytes"] d(3) unfolding d(4) by linarith
  moreover have "bit (signals_pending p (sk_signals k')) i \<longleftrightarrow>
       bit (signals_pending p (sk_signals k)) i \<and> i \<noteq> n - 1" for i
    unfolding d(6) using assms(5,6) by (subst pending_entered) simp_all
  ultimately show ?thesis
    using d(1,2) assms(1)
    by (intro exI [of _ n]) (simp add: Let_def d(5,6) enter_stack_pointer handler_entered_mask)
qed

lemma handler_entry_witness:
  "\<exists>(cpu :: cpu_state) (k :: signal_kernel). reg cpu 2 = 15 \<and> \<not> sk_exited k \<and>
     signal_mask 0 (sk_signals k) = (signal_mask 0 (sk_signals example_caught) OR 0x3 OR
       signal_bit 15) AND NOT unmaskable"
proof -
  obtain cpu k m where d:
    "deliver_pending_signal 0 False example_cpu example_caught example_memory = (True, cpu, k, m)"
    "\<not> sk_exited k" using example_delivery by blast
  from handler_entry [OF example_cpu_ok example_caught_ready _ _ _ _ d] obtain n where
    "Some n = Some (15 :: nat)" "reg cpu 2 = of_nat n"
    "signal_mask 0 (sk_signals k) = (signal_mask 0 (sk_signals example_caught) OR
       sa_mask (sk_actions example_caught ! n) OR
       (if sa_flags (sk_actions example_caught ! n) AND no_defer_action \<noteq> 0 then 0
        else signal_bit n)) AND NOT unmaskable"
    by (auto simp: example_caught_fields(1,2,7,8) example_ready example_lowest Let_def
        simp del: bit_signal_bit)
  then show ?thesis
    using d(2) by (intro exI [of _ cpu] exI [of _ k])
      (simp add: example_caught_fields(6) example_handler_def)
qed

text \<open>C28. sigreturn undoes the delivery of a signal to a user-mode thread that is in no signal
  wait: if the handler left the frame alone and readable, kept the interrupt-mask bits of the
  status register and passes its context back, the general and floating-point registers, the status registers and
  the signal mask are those of the interrupted thread, bit for bit.\<close>

theorem signal_frame_roundtrip:
  assumes "state_ok cpu" "caught_signal_ready p busy k" "sk_waits k p = None" "sk_suspends k p = None"
    and deliver: "deliver_pending_signal p busy cpu k m = (True, cpu1, k1, m1)" "\<not> sk_exited k1"
    and frame: "guest_load (reg cpu1 13) frame_bytes m2 = guest_load (reg cpu1 13) frame_bytes m1"
      "range_allows (gm_readable m2) (reg cpu1 13) frame_bytes m2"
    and returns: "reg cpu2 0 = reg cpu1 13 + user_offset" "reg cpu2 1 = return_flavor"
    and mode: "cpsr cpu AND 0x1f = user_cpsr" "cpsr cpu2 AND 0x1c0 = cpsr cpu AND 0x1c0"
  shows "case dispatch_sigreturn p cpu2 k2 m2 of (cpu3, k3) \<Rightarrow>
    cpu_registers cpu3 = cpu_registers cpu \<and> extension_registers cpu3 = extension_registers cpu \<and>
    cpsr cpu3 = cpsr cpu \<and> fpscr cpu3 = fpscr cpu \<and>
    signal_mask p (sk_signals k3) = inherited_mask p (sk_signals k) AND NOT unmaskable"
proof -
  from deliver_entered [OF assms(2-4) deliver] obtain n action a where d:
    "frame_bytes \<le> stack_top p action cpu k" "stack_top p action cpu k < 2 ^ 32"
    "a = of_nat (stack_top p action cpu k - frame_bytes) AND NOT 3"
    "m1 = guest_store a (words_bytes (frame_words (signal_frame_at a p action n
       (inherited_mask p (sk_signals k)) cpu k))) m"
    "cpu1 = enter_registers n action a cpu" by metis
  have a: "reg cpu1 13 = a" using assms(1) by (simp add: d(5) enter_stack_pointer)
  have fits: "unat a + frame_bytes \<le> 2 ^ 32"
    using aligned_below [of "stack_top p action cpu k - frame_bytes"] d(1,2) unfolding d(3) by linarith
  define f where "f = signal_frame_at a p action n (inherited_mask p (sk_signals k)) cpu k"
  note read = frame_read_back [OF assms(1) fits f_def frame(1) [unfolded a d(4), folded f_def]
      frame(2) [unfolded a]]
  have user: "uc_machine_size (sf_user f) = of_nat machine_bytes"
    "uc_machine_address (sf_user f) = a + machine_offset"
    "uc_signal_mask (sf_user f) = inherited_mask p (sk_signals k)"
    by (simp_all add: f_def signal_frame_at_def Let_def)
  have machine: "machine_context_of (machine_context_words (sf_machine f)) = sf_machine f"
    using signal_frame_lengths(2-4) [OF assms(1)] unfolding f_def by (intro machine_context_round)
  have general: "mx_general (sf_machine f) = cpu_registers cpu @ [cpsr cpu]"
    "mx_floating (sf_machine f) = extension_registers cpu" "mx_fpscr (sf_machine f) = fpscr cpu"
    by (simp_all add: f_def signal_frame_at_def Let_def)
  have len: "length (cpu_registers cpu) = 16" using assms(1) by (simp add: state_ok_def)
  have style: "return_flavor \<noteq> set_alternate_stack" "return_flavor \<noteq> reset_alternate_stack"
    by (simp_all add: return_flavor_def set_alternate_stack_def reset_alternate_stack_def)
  show ?thesis
    using returns style len user_mode_restored [OF mode]
    by (simp add: dispatch_sigreturn_def Let_def a read user machine general nth_append
        mask_update_thread)
qed

lemma signal_frame_roundtrip_witness:
  "\<exists>(cpu :: cpu_state) (k :: signal_kernel). cpu_registers cpu = cpu_registers example_cpu \<and> cpsr cpu = 0x60000010 \<and> fpscr cpu = 3 \<and>
     signal_mask 0 (sk_signals k) = inherited_mask 0 (sk_signals example_caught) AND NOT unmaskable"
proof -
  obtain cpu k m where d:
    "deliver_pending_signal 0 False example_cpu example_caught example_memory = (True, cpu, k, m)"
    "\<not> sk_exited k" using example_delivery by blast
  define cpu2 where "cpu2 = example_cpu\<lparr>cpu_registers :=
    (cpu_registers example_cpu)[0 := reg cpu 13 + user_offset, 1 := return_flavor]\<rparr>"
  from deliver_entered [OF example_caught_ready _ _ d] obtain a n action where
    a: "cpu = enter_registers n action a example_cpu" "a = of_nat (stack_top 0 action example_cpu
      example_caught - frame_bytes) AND NOT 3" "frame_bytes \<le> stack_top 0 action example_cpu example_caught"
    "stack_top 0 action example_cpu example_caught < 2 ^ 32"
    "gm_readable m = gm_readable example_memory" "gm_mapped m = gm_mapped example_memory"
    by (metis example_caught_fields(1,2) guest_store_rights(1,2))
  have "unat (reg cpu 13) + frame_bytes \<le> 2 ^ 32"
    using aligned_below [of "stack_top 0 action example_cpu example_caught - frame_bytes"] a(2-4)
    by (simp add: a(1) enter_stack_pointer example_cpu_ok)
  then have "range_allows (gm_readable m) (reg cpu 13) frame_bytes m"
    using a(5,6) by (simp add: range_allows_def example_memory_def list_all_iff)
  note undone = signal_frame_roundtrip [OF example_cpu_ok example_caught_ready _ _ d refl this, of cpu2 k]
  obtain cpu3 k3 where r: "dispatch_sigreturn 0 cpu2 k m = (cpu3, k3)" by fastforce
  have status: "cpsr example_cpu = 0x60000010" "fpscr example_cpu = 3" "cpsr cpu2 = 0x60000010"
    "length (cpu_registers example_cpu) = 16"
    by (simp_all add: example_cpu_def cpu2_def)
  then have "reg cpu2 0 = reg cpu 13 + user_offset" "reg cpu2 1 = return_flavor"
    by (simp_all add: cpu2_def reg_def)
  with undone status have "cpu_registers cpu3 = cpu_registers example_cpu \<and> cpsr cpu3 = 0x60000010 \<and>
     fpscr cpu3 = 3 \<and>
     signal_mask 0 (sk_signals k3) = inherited_mask 0 (sk_signals example_caught) AND NOT unmaskable"
    by (simp add: r example_caught_fields(1,2) user_cpsr_def)
  then show ?thesis by blast
qed

end
