(* ===== verification/Spec2Isabelle.thy ===== *)
theory Spec2Isabelle
  imports Restartable Vm_Map_Refinement Mach_Properties Scheduler_Queries Psynch_Properties Signal_Returns
begin

text \<open>
  A model of the core of the iLEmu emulator and the theorems that make it correct. iLEmu runs
  the programs of an iPhone: it executes their ARM instructions and answers their system calls
  the way Darwin's kernel does. The parts modelled here are the ones that decide what a guest
  program computes and when it runs; the paths are under \<^verbatim>\<open>src/src/\<close>.

  \<^bold>\<open>The parts and how they interact.\<close> The decoders (\<^verbatim>\<open>arm/\<close>) turn an
  instruction word into an \<^verbatim>\<open>ArmInstruction\<close>; the semantic functions of the same
  directory and of \<^verbatim>\<open>arm_memory/\<close> say what it does to a thread's registers and
  memory; the portable interpreter (\<^verbatim>\<open>arm_interpreter/\<close>) fetches, decodes and
  executes within the tick budget of one slice. Which thread gets the next slice, and when it
  loses it, is decided by the guest scheduler (\<^verbatim>\<open>mach/xnu_scheduler.cpp\<close>,
  \<^verbatim>\<open>mach/xnu_run_queue.cpp\<close>). Threads that wait for each other do so in the
  pthread synchronisation runtime (\<^verbatim>\<open>kernel/bsd/psynch_runtime.cpp\<close>); signals
  stop, continue and end processes and run handlers in their threads
  (\<^verbatim>\<open>kernel/bsd/signal/\<close>); tasks name each other's ports in Mach name spaces (\<^verbatim>\<open>mach/mach_namespace.cpp\<close>); the address
  space of a task is laid out in a map of regions
  (\<^verbatim>\<open>foundation/memory/vm_map.cpp\<close>).

  \<^bold>\<open>Theories.\<close>
  \<^item> Prelude, Word_Facts: machine integers, the functions of \<^verbatim>\<open><bit>\<close>, shared facts
    about words, the collections of facts the proofs use.
  \<^item> Arm_Instruction: the decoded instruction with its operand variant and the capability
    profiles (\<^verbatim>\<open>arm/include/arm/instruction.hpp\<close> and
    \<^verbatim>\<open>execution/include/execution/instruction_profile.hpp\<close>).
  \<^item> Arm_Integer, Arm_Multiply, Arm_Saturating, Arm_Transform, Arm_Status: conditions, the
    barrel shifter, the adder, multiplication, saturating and parallel arithmetic, extensions,
    bit fields, division, the status register and writes to the program counter. The properties
    compare them with exact arithmetic on the integers.
  \<^item> Arm_Floating, Arm_Simd: floating point and Advanced SIMD. The vendored SoftFloat library
    is a parameter, a record of its functions.
  \<^item> Decode_Contract, Decode_Core, Decode_Vector, Decode_A32, Decode_T32: every decoder group
    and both instruction sets. The locale \<open>group_decoder\<close> is the contract of a group: if it
    declines, the instruction under construction is still fit for the next group, and if it
    accepts, every register field is inside its bank, every lane and element inside its register, and
    the operand variant is the one the instruction's kind reads. \<open>decoder_sequence\<close> shows that trying one group after another
    keeps it; every group of the model interprets it.
  \<^item> Arm_State, Arm_Memory, Packed_Control, Memory_Transfers: the state of a thread, the
    interfaces of memory, exclusive monitor and instruction source (records of functions), the
    memory transactions with their packed control words, and what a load or store does to the
    operands.
  \<^item> Arm_Interpreter, Guest_Privilege, Interpreter_Safety, Restartable, Example_Machine:
    \<^verbatim>\<open>run_slice\<close> as a step function and a loop; no run throws, indexes out of a
    register bank, or changes the privileged status bits; with a tick budget every run ends; an
    instruction that faults or was never started can be run again.
  \<^item> Ordered_Map, Vm_Map, Vm_Map_Spec, Vm_Map_Refinement: \<^verbatim>\<open>std::map\<close> with its
    iterators, the address-space map, its specification as a function from addresses to
    attributes, and the refinement. The locale \<open>attribute_map\<close> is the map as a data type;
    the interval map interprets it.
  \<^item> Mach_Namespace, Mach_Space, Mach_Table, Mach_Rights, Mach_Exchange, Mach_Properties: names,
    rights and user references of every task with the index from objects to names; the invariant
    under every sequence of calls and what the calls that hand out, take back and kill rights do.
  \<^item> Xnu_Policy, Run_Queue, Scheduler, Scheduler_Steps, Scheduler_Operations, Scheduler_Queries:
    the scheduler. A reference to a thread record is the thread's identity; an operation is
    \<open>None\<close> where the source throws, misses an entry with \<^verbatim>\<open>at\<close> or indexes out
    of bounds. Scheduler_Structure, Scheduler_Records and Scheduler_Moves hold the invariant: run
    queues, counts and indexes against the thread records (\<open>struct_ok\<close>), each record for
    itself (\<open>record_ok\<close>), both for all threads (\<open>sched_ok\<close>). Scheduler_Time,
    Scheduler_Policies, Scheduler_Runs, Scheduler_Slices, Scheduler_Completion,
    Scheduler_Lifetimes and Scheduler_Arrivals show that every operation keeps it;
    Scheduler_Calls composes them to sequences of calls and states the properties.
  \<^item> Psynch, Psynch_Waits, Psynch_Calls, Psynch_Credit, Psynch_Properties: wait queues of mutexes,
    condition variables and read-write locks. The locale \<open>waker\<close> is the contract of the
    calls that wake threads: nobody is woken who did not wait, and whoever is woken leaves its
    queue and has its result. The calls are an inductive step relation with its reachable states.
  \<^item> Signal_State, Signal_Masks: the masks and pending signals of a process
    (\<^verbatim>\<open>kernel/include/kernel/darwin_signal_state.hpp\<close>) and their laws. The locale
    \<open>thread_law\<close> is a law of every thread record that holds of a blank one; three
    laws interpret it: kill and stop are never masked, an empty slot holds nothing, and no wait
    asks for kill or stop.
  \<^item> Signal_Process, Signal_Sending: dispositions, stop and continue, the choice of the thread
    that takes a signal, the loop over pending signals, the status a parent waits for
    (\<^verbatim>\<open>kernel/bsd/signal/{signal,wait,child}.cpp\<close>), and what sending guarantees.
  \<^item> Signal_Calls, Signal_Frames, Signal_Lives: the signal system calls, the frame of a handler
    and sigreturn (\<^verbatim>\<open>kernel/bsd/signal/{delivery,context}.cpp\<close>), fork, spawn and
    exec; \<open>kernel_reachable\<close> is the set of states any sequence of them leads to.
  \<^item> Signal_Handlers, Signal_Properties, Signal_Returns: a frame that is written is read back
    unchanged, so that sigreturn restores the thread; kill always ends a process, the stop
    signals and continue do what job control asks, a failed call changes nothing.

  \<^bold>\<open>Conventions.\<close> A C++ integer is a word of its width, so that sums wrap as they do
  there; priorities and other quantities the code keeps in small ranges are \<^typ>\<open>int\<close>
  or \<^typ>\<open>nat\<close>. A class is a record, an enumeration a datatype, a container a list, an
  ordered map or a HOL map; hash containers that are iterated are kept in ascending order, one of
  the orders they may have. Exceptions and missed entries are \<open>None\<close> or a value of an error
  type. A lock of the source makes each call one step.

  \<^bold>\<open>Fuel.\<close> The interpreter loop takes fuel; \<open>run_terminates\<close> proves that more fuel
  than ticks are left is enough, because every iteration that goes on retires at least one tick.
  The scheduler's loops over expired depressions, expired demotions and decaying usage take one
  turn more than their index has entries; each turn removes an entry or advances past one, and
  the preservation lemmas prove that the result is never \<open>None\<close>. All other recursions are
  structural or have a measure. The loop over
  pending signals has the word of ready signals as its measure: each turn clears its lowest bit.

  \<^bold>\<open>Hypotheses.\<close> Properties of sequences of calls start from the state the constructor
  makes and quantify over every sequence. The scheduler's ask base priorities to stay below the
  realtime base priority: above it the code queues a thread at a realtime priority without an
  entry in the realtime index, and the next selection throws. The pthread runtime's ask that a
  thread that waits, or has not taken its result, makes no further waiting call, which is what
  being stopped in the kernel means.

  \<^bold>\<open>Not modelled.\<close> The ARM64 code generator and the Dynarmic binding with their artifact
  caches (they produce host code), graphics, media, host windows, sockets and files, networking,
  telephony and bluetooth front ends, the runtime session, storage images, the debugger and
  cryptography (effects outside the process, or wrappers of libraries), the MIG adapters
  (marshalling for generated routine numbers), the system-call front ends that decode guest
  registers, and task importance. Of signals, the calls that pick a process or a thread of another
  process and route the signal to its kernel (kill, pthread_kill, terminate with payload), the
  waits for other things that a signal interrupts, the signals that a processor exception forces
  on a thread, the notice that the last child was reaped, the cache of processors with pending
  events and everything the end of a process does outside the signal state are left out. Of the modelled classes, performance counters, latency scopes,
  diagnostic snapshots, host wall-clock times and container capacities are left out, since
  nothing that is decided depends on them.
\<close>

end
